(* ===== verification/Hydra_Prelude.thy ===== *)
theory Hydra_Prelude
  imports Main "HOL-Library.Word"
begin

text \<open>
  Shared vocabulary of the HYDRA-MSG development: machine integers and byte strings, Rust's
  \<open>Result\<close> as a sum type with the \<open>?\<close> operator as \<open>rbind\<close>, byte ranges
  (\<open>&buf[i..j]\<close> and \<open>copy_from_slice\<close>), big-endian integers, checked arithmetic, and the
  interface every canonical wire code of the program satisfies (locales \<open>canonical_codec\<close> and \<open>wire_enum\<close>).
\<close>

unbundle bit_operations_syntax

section \<open>Types\<close>

type_synonym u8 = "8 word"
type_synonym u16 = "16 word"
type_synonym u32 = "32 word"
type_synonym u64 = "64 word"
type_synonym bytes = "8 word list"

named_theorems result_simps \<open>when a fallible computation returns, and with what\<close>
named_theorems layout_simps \<open>lengths and byte ranges of fixed wire layouts\<close>

section \<open>Fallible computations\<close>

text \<open>
  \<open>Result<T, E>\<close> is \<open>'e + 'a\<close> with \<open>Inl\<close> for \<open>Err\<close>. \<open>rbind r f\<close> is
  \<open>let x = r?; f(x)\<close>, \<open>ensure c e\<close> is \<open>if !c { return Err(e) }\<close>, \<open>ok_or\<close> and \<open>map_err\<close>
  are the methods of the standard library.
\<close>

definition rbind :: "'e + 'a \<Rightarrow> ('a \<Rightarrow> 'e + 'b) \<Rightarrow> 'e + 'b" where
  "rbind r f = (case r of Inl e \<Rightarrow> Inl e | Inr x \<Rightarrow> f x)"

definition ensure :: "bool \<Rightarrow> 'e \<Rightarrow> 'e + unit" where
  "ensure c e = (if c then Inr () else Inl e)"

definition ok_or :: "'a option \<Rightarrow> 'e \<Rightarrow> 'e + 'a" where
  "ok_or m e = (case m of None \<Rightarrow> Inl e | Some x \<Rightarrow> Inr x)"

definition map_err :: "('d \<Rightarrow> 'e) \<Rightarrow> 'd + 'a \<Rightarrow> 'e + 'a" where
  "map_err f r = (case r of Inl d \<Rightarrow> Inl (f d) | Inr x \<Rightarrow> Inr x)"

fun rmap :: "('a \<Rightarrow> 'e + 'b) \<Rightarrow> 'a list \<Rightarrow> 'e + 'b list" where
  "rmap f [] = Inr []"
| "rmap f (x # xs) = rbind (f x) (\<lambda>y. rbind (rmap f xs) (\<lambda>ys. Inr (y # ys)))"

fun rforeach :: "('a \<Rightarrow> 'e + unit) \<Rightarrow> 'a list \<Rightarrow> 'e + unit" where
  "rforeach f [] = Inr ()"
| "rforeach f (x # xs) = rbind (f x) (\<lambda>_. rforeach f xs)"

definition is_ok :: "'e + 'a \<Rightarrow> bool" where
  "is_ok r = (case r of Inl _ \<Rightarrow> False | Inr _ \<Rightarrow> True)"

text \<open>
  A method on \<open>&mut self\<close> maps the state to its result and the state it leaves, on every path:
  \<open>st_lift\<close> is a fallible computation that only reads, \<open>st_modify\<close> an assignment, \<open>st_bind\<close> is
  \<open>let x = m?; ...\<close>, which stops at an error with the state reached so far. A method is
  \<open>failure_atomic\<close> when an error leaves the state as it was.
\<close>

type_synonym ('s, 'e, 'a) st = "'s \<Rightarrow> ('e + 'a) \<times> 's"

definition st_bind :: "('s, 'e, 'a) st \<Rightarrow> ('a \<Rightarrow> ('s, 'e, 'b) st) \<Rightarrow> ('s, 'e, 'b) st" where
  "st_bind m f s = (case m s of (Inl e, t) \<Rightarrow> (Inl e, t) | (Inr x, t) \<Rightarrow> f x t)"

definition st_lift :: "'e + 'a \<Rightarrow> ('s, 'e, 'a) st" where
  "st_lift r s = (r, s)"

definition st_modify :: "('s \<Rightarrow> 's) \<Rightarrow> ('s, 'e, unit) st" where
  "st_modify f s = (Inr (), f s)"

definition st_try :: "('s \<Rightarrow> 'e + 's) \<Rightarrow> ('s, 'e, unit) st" where
  "st_try f s = (case f s of Inl e \<Rightarrow> (Inl e, s) | Inr t \<Rightarrow> (Inr (), t))"

text \<open>Running a method on a clone of the state: the clone is lost when it fails.\<close>

definition on_clone :: "('s, 'e, 'a) st \<Rightarrow> 's \<Rightarrow> 'e + 'a \<times> 's" where
  "on_clone m s = (case m s of (Inl e, _) \<Rightarrow> Inl e | (Inr x, t) \<Rightarrow> Inr (x, t))"

definition failure_atomic :: "('s, 'e, 'a) st \<Rightarrow> bool" where
  "failure_atomic m \<longleftrightarrow> (\<forall>s e t. m s = (Inl e, t) \<longrightarrow> t = s)"

text \<open>\<open>keeps I m\<close>: method \<open>m\<close> preserves \<open>I\<close> on every path, errors included.\<close>

definition keeps :: "('s \<Rightarrow> bool) \<Rightarrow> ('s, 'e, 'a) st \<Rightarrow> bool" where
  "keeps I m \<longleftrightarrow> (\<forall>s. I s \<longrightarrow> I (snd (m s)))"

section \<open>Byte ranges\<close>

text \<open>
  \<open>slice i j bs\<close> is \<open>&bs[i..j]\<close>; Rust panics when \<open>j\<close> exceeds the length, and every use below
  is behind a length check. \<open>write_at i new buf\<close> is
  \<open>buf[i..i + new.len()].copy_from_slice(new)\<close>.
\<close>

definition slice :: "nat \<Rightarrow> nat \<Rightarrow> 'a list \<Rightarrow> 'a list" where
  "slice i j bs = take (j - i) (drop i bs)"

definition write_at :: "nat \<Rightarrow> 'a list \<Rightarrow> 'a list \<Rightarrow> 'a list" where
  "write_at i new buf = take i buf @ new @ drop (i + length new) buf"

section \<open>Integers\<close>

text \<open>
  \<open>be_bytes n w\<close> is \<open>w.to_be_bytes()\<close> for an \<open>n\<close>-byte integer and \<open>be_word\<close> is
  \<open>from_be_bytes\<close>. \<open>usize\<close> is \<open>nat\<close> with the 64-bit bound written out where the source uses
  checked arithmetic.
\<close>

fun be_bytes :: "nat \<Rightarrow> 'a::len word \<Rightarrow> bytes" where
  "be_bytes 0 w = []"
| "be_bytes (Suc n) w = be_bytes n (drop_bit 8 w) @ [ucast w]"

declare be_bytes.simps [simp del]

definition be_word :: "bytes \<Rightarrow> 'a::len word" where
  "be_word bs = foldl (\<lambda>a b. push_bit 8 a OR ucast b) 0 bs"

definition u64_max :: u64 where
  "u64_max = 0xFFFFFFFFFFFFFFFF"

definition usize_max :: nat where
  "usize_max = 0xFFFFFFFFFFFFFFFF"

definition u32_max :: nat where
  "u32_max = 0xFFFFFFFF"

definition checked_add_u64 :: "u64 \<Rightarrow> u64 \<Rightarrow> u64 option" where
  "checked_add_u64 a b = (if unat a + unat b < 2 ^ 64 then Some (a + b) else None)"

definition checked_sub_u64 :: "u64 \<Rightarrow> u64 \<Rightarrow> u64 option" where
  "checked_sub_u64 a b = (if b \<le> a then Some (a - b) else None)"

definition checked_add_usize :: "nat \<Rightarrow> nat \<Rightarrow> nat option" where
  "checked_add_usize a b = (if a + b \<le> usize_max then Some (a + b) else None)"

definition checked_mul_usize :: "nat \<Rightarrow> nat \<Rightarrow> nat option" where
  "checked_mul_usize a b = (if a * b \<le> usize_max then Some (a * b) else None)"

definition checked_sub_usize :: "nat \<Rightarrow> nat \<Rightarrow> nat option" where
  "checked_sub_usize a b = (if b \<le> a then Some (a - b) else None)"

definition u16_max :: nat where
  "u16_max = 0xFFFF"

definition u16_try_from :: "nat \<Rightarrow> u16 option" where
  "u16_try_from n = (if n \<le> u16_max then Some (of_nat n) else None)"

definition checked_add_u32 :: "u32 \<Rightarrow> u32 \<Rightarrow> u32 option" where
  "checked_add_u32 a b = (if unat a + unat b < 2 ^ 32 then Some (a + b) else None)"

definition checked_mul_u32 :: "u32 \<Rightarrow> u32 \<Rightarrow> u32 option" where
  "checked_mul_u32 a b = (if unat a * unat b < 2 ^ 32 then Some (a * b) else None)"

definition saturating_sub_u64 :: "u64 \<Rightarrow> u64 \<Rightarrow> u64" where
  "saturating_sub_u64 a b = (if b \<le> a then a - b else 0)"

definition u32_try_from :: "nat \<Rightarrow> u32 option" where
  "u32_try_from n = (if n \<le> u32_max then Some (of_nat n) else None)"

text \<open>ASCII literals: \<open>b"..."\<close>.\<close>

definition ascii :: "string \<Rightarrow> bytes" where
  "ascii s = map (\<lambda>c. of_nat (of_char c)) s"

text \<open>\<open>find\<close> on an iterator, \<open>position\<close> and \<open>Vec::remove\<close>.\<close>

fun position :: "('a \<Rightarrow> bool) \<Rightarrow> 'a list \<Rightarrow> nat option" where
  "position p [] = None"
| "position p (x # xs) = (if p x then Some 0 else map_option Suc (position p xs))"

text \<open>\<open>iter_mut().find(p)\<close> followed by an assignment to what it found, and \<open>windows(2)\<close>.\<close>

fun update_first :: "('a \<Rightarrow> bool) \<Rightarrow> ('a \<Rightarrow> 'a) \<Rightarrow> 'a list \<Rightarrow> 'a list" where
  "update_first p f [] = []"
| "update_first p f (x # xs) = (if p x then f x # xs else x # update_first p f xs)"

definition windows2 :: "'a list \<Rightarrow> ('a \<times> 'a) list" where
  "windows2 xs = zip xs (tl xs)"

text \<open>Comparing two arrays without an early exit: the disjunction of all byte differences.\<close>

definition differences :: "bytes \<Rightarrow> bytes \<Rightarrow> u8" where
  "differences left right = foldl (\<lambda>acc (a, b). acc OR (a XOR b)) 0 (zip left right)"

definition remove_nth :: "nat \<Rightarrow> 'a list \<Rightarrow> 'a list" where
  "remove_nth i xs = take i xs @ drop (Suc i) xs"

section \<open>Lemmas on fallible computations\<close>

lemma rbind_simps [simp]:
  "rbind (Inl e) f = Inl e"
  "rbind (Inr x) f = f x"
  by (simp_all add: rbind_def)

lemma rbind_Inr_iff [result_simps]:
  "rbind r f = Inr y \<longleftrightarrow> (\<exists>x. r = Inr x \<and> f x = Inr y)"
  by (cases r) auto

lemma rbindE:
  assumes "rbind r f = Inr y"
  obtains x where "r = Inr x" and "f x = Inr y"
  using assms by (auto simp: rbind_Inr_iff)

lemma rbind_Inl_iff:
  "rbind r f = Inl e \<longleftrightarrow> r = Inl e \<or> (\<exists>x. r = Inr x \<and> f x = Inl e)"
  by (cases r) auto

lemma rbind_assoc: "rbind (rbind r f) g = rbind r (\<lambda>x. rbind (f x) g)"
  by (cases r) auto

lemma rbind_cong [fundef_cong]:
  "r = r' \<Longrightarrow> (\<And>x. r' = Inr x \<Longrightarrow> f x = f' x) \<Longrightarrow> rbind r f = rbind r' f'"
  by (cases r') auto

lemma ensure_simps [simp]:
  "ensure True e = Inr ()"
  "ensure False e = Inl e"
  by (simp_all add: ensure_def)

lemma ensure_Inr_iff [result_simps]: "ensure c e = Inr x \<longleftrightarrow> c"
  by (simp add: ensure_def)

lemma ensure_Inl_iff: "ensure c e = Inl d \<longleftrightarrow> \<not> c \<and> d = e"
  by (auto simp: ensure_def)

lemma ok_or_simps [simp]:
  "ok_or None e = Inl e"
  "ok_or (Some x) e = Inr x"
  by (simp_all add: ok_or_def)

lemma ok_or_Inr_iff [result_simps]: "ok_or m e = Inr x \<longleftrightarrow> m = Some x"
  by (cases m) auto

lemma ok_or_Inl_iff: "ok_or m e = Inl d \<longleftrightarrow> m = None \<and> d = e"
  by (cases m) auto

lemma map_err_simps [simp]:
  "map_err f (Inl d) = Inl (f d)"
  "map_err f (Inr x) = Inr x"
  by (simp_all add: map_err_def)

lemma map_err_Inr_iff [result_simps]: "map_err f r = Inr x \<longleftrightarrow> r = Inr x"
  by (cases r) auto

lemma map_err_Inl_iff: "map_err f r = Inl e \<longleftrightarrow> (\<exists>d. r = Inl d \<and> e = f d)"
  by (cases r) auto

lemma is_ok_simps [simp]:
  "is_ok (Inl e) = False"
  "is_ok (Inr x) = True"
  by (simp_all add: is_ok_def)

lemma is_ok_iff: "is_ok r \<longleftrightarrow> (\<exists>x. r = Inr x)"
  by (cases r) auto

lemma st_bind_Inr_iff [result_simps]:
  "st_bind m f s = (Inr y, u) \<longleftrightarrow> (\<exists>x t. m s = (Inr x, t) \<and> f x t = (Inr y, u))"
  by (auto simp: st_bind_def split: sum.splits prod.splits)

lemma st_bind_Inl_iff:
  "st_bind m f s = (Inl e, u) \<longleftrightarrow>
     m s = (Inl e, u) \<or> (\<exists>x t. m s = (Inr x, t) \<and> f x t = (Inl e, u))"
  by (auto simp: st_bind_def split: sum.splits prod.splits)

lemma st_bind_step [simp]:
  "m s = (Inl e, t) \<Longrightarrow> st_bind m f s = (Inl e, t)"
  "m s = (Inr x, t) \<Longrightarrow> st_bind m f s = f x t"
  by (simp_all add: st_bind_def)

lemma st_lift_iff [result_simps]: "st_lift r s = (x, t) \<longleftrightarrow> r = x \<and> t = s"
  by (auto simp: st_lift_def)

lemma st_modify_iff [result_simps]: "st_modify f s = (x, t) \<longleftrightarrow> x = Inr () \<and> t = f s"
  by (auto simp: st_modify_def)

lemma st_try_Inr_iff [result_simps]: "st_try f s = (Inr u, t) \<longleftrightarrow> f s = Inr t"
  by (simp add: st_try_def split: sum.splits)

lemma st_try_Inl_iff: "st_try f s = (Inl e, t) \<longleftrightarrow> f s = Inl e \<and> t = s"
  by (auto simp: st_try_def split: sum.splits)

lemma on_clone_Inr_iff [result_simps]: "on_clone m s = Inr (x, t) \<longleftrightarrow> m s = (Inr x, t)"
  by (auto simp: on_clone_def split: prod.splits sum.splits)

lemma failure_atomicD: "failure_atomic m \<Longrightarrow> m s = (Inl e, t) \<Longrightarrow> t = s"
  by (simp add: failure_atomic_def)

lemma failure_atomic_lift [intro]: "failure_atomic (st_lift r)"
  by (simp add: failure_atomic_def st_lift_def)

lemma failure_atomic_try [intro]: "failure_atomic (st_try f)"
  by (simp add: failure_atomic_def st_try_Inl_iff)

text \<open>Reading before acting keeps a method atomic, and so does acting without failing afterwards.\<close>

lemma failure_atomic_read_first:
  "(\<And>x. failure_atomic (f x)) \<Longrightarrow> failure_atomic (\<lambda>s. st_bind (st_lift (r s)) f s)"
  by (auto simp: failure_atomic_def st_bind_Inl_iff st_lift_iff)

lemma failure_atomic_then_total:
  "failure_atomic m \<Longrightarrow> (\<And>x s e t. f x s \<noteq> (Inl e, t)) \<Longrightarrow> failure_atomic (st_bind m f)"
  by (auto simp: failure_atomic_def st_bind_Inl_iff)

lemma keepsD: "keeps I m \<Longrightarrow> m s = (r, t) \<Longrightarrow> I s \<Longrightarrow> I t"
  unfolding keeps_def by (metis snd_conv)

lemma keeps_lift [intro!]: "keeps I (st_lift r)"
  by (simp add: keeps_def st_lift_def)

lemma keeps_modify: "(\<And>s. I s \<Longrightarrow> I (f s)) \<Longrightarrow> keeps I (st_modify f)"
  by (simp add: keeps_def st_modify_def)

lemma keeps_try: "(\<And>s t. I s \<Longrightarrow> f s = Inr t \<Longrightarrow> I t) \<Longrightarrow> keeps I (st_try f)"
  by (simp add: keeps_def st_try_def split: sum.split)

lemma keeps_bind: "keeps I m \<Longrightarrow> (\<And>x. keeps I (f x)) \<Longrightarrow> keeps I (st_bind m f)"
  by (fastforce simp: keeps_def st_bind_def split: sum.splits prod.splits)

text \<open>A body that reads the state first: it is enough that it keeps \<open>I\<close> for every value read.\<close>

lemma keeps_read: "(\<And>s. keeps I (m s)) \<Longrightarrow> keeps I (\<lambda>s. m s s)"
  by (simp add: keeps_def)

lemma rforeach_Inr_iff [result_simps]:
  "rforeach f xs = Inr u \<longleftrightarrow> (\<forall>x \<in> set xs. f x = Inr ())"
  by (induction xs) (auto simp: result_simps)

lemma rmap_Inr_length: "rmap f xs = Inr ys \<Longrightarrow> length ys = length xs"
  by (induction xs arbitrary: ys) (auto simp: result_simps)

lemma rmap_Inr_nth: "rmap f xs = Inr ys \<Longrightarrow> i < length xs \<Longrightarrow> f (xs ! i) = Inr (ys ! i)"
  by (induction xs arbitrary: ys i) (auto simp: result_simps nth_Cons split: nat.splits)

lemma rmap_total: "(\<And>x. x \<in> set xs \<Longrightarrow> f x = Inr (g x)) \<Longrightarrow> rmap f xs = Inr (map g xs)"
  by (induction xs) auto

lemma rmap_map: "rmap f xs = Inr ys \<Longrightarrow> (\<And>x y. f x = Inr y \<Longrightarrow> g y = h x) \<Longrightarrow> map g ys = map h xs"
  by (induction xs arbitrary: ys) (auto simp: result_simps)

lemma rmap_mem: "rmap f xs = Inr ys \<Longrightarrow> y \<in> set ys \<Longrightarrow> \<exists>x \<in> set xs. f x = Inr y"
  by (induction xs arbitrary: ys) (auto simp: result_simps)

section \<open>Lemmas on byte ranges\<close>

lemma length_slice [layout_simps]: "length (slice i j bs) = min (j - i) (length bs - i)"
  by (simp add: slice_def)

lemma slice_full: "length bs = n \<Longrightarrow> slice 0 n bs = bs"
  by (simp add: slice_def)

lemma slice_join: "i \<le> j \<Longrightarrow> j \<le> k \<Longrightarrow> slice i j bs @ slice j k bs = slice i k bs"
proof -
  assume "i \<le> j" "j \<le> k"
  then have "k - i = (j - i) + (k - j)" "drop j bs = drop (j - i) (drop i bs)"
    by simp_all
  then show ?thesis
    unfolding slice_def by (metis take_add)
qed

lemma slice_single: "i < length bs \<Longrightarrow> slice i (Suc i) bs = [bs ! i]"
  by (simp add: slice_def take_Suc_conv_app_nth hd_drop_conv_nth take_Suc)

lemma slice_append_left: "j \<le> length xs \<Longrightarrow> slice i j (xs @ ys) = slice i j xs"
  by (simp add: slice_def)

lemma slice_append_right:
  "length xs \<le> i \<Longrightarrow> slice i j (xs @ ys) = slice (i - length xs) (j - length xs) ys"
  by (simp add: slice_def)

lemma slice_take: "j \<le> n \<Longrightarrow> slice i j (take n bs) = slice i j bs"
  by (simp add: slice_def drop_take min_def)

lemma length_write_at [layout_simps]:
  "i + length new \<le> length buf \<Longrightarrow> length (write_at i new buf) = length buf"
  by (simp add: write_at_def)

lemma list_update_write_at: "i < length buf \<Longrightarrow> buf[i := v] = write_at i [v] buf"
  by (simp add: write_at_def upd_conv_take_nth_drop)

text \<open>
  A fixed layout is written into a zeroed buffer at increasing offsets: what is already written
  stays, a gap keeps its zeros, the rest of the buffer stays zero.
\<close>

lemma write_at_append [layout_simps]:
  "length xs \<le> i \<Longrightarrow> write_at i new (xs @ ys) = xs @ write_at (i - length xs) new ys"
  by (simp add: write_at_def)

lemma write_at_Cons [layout_simps]: "0 < i \<Longrightarrow> write_at i new (x # ys) = x # write_at (i - 1) new ys"
  by (cases i) (simp_all add: write_at_def)

lemma write_at_zeroed [layout_simps]:
  "i + length new \<le> n \<Longrightarrow>
    write_at i new (replicate n z) = replicate i z @ new @ replicate (n - (i + length new)) z"
  by (simp add: write_at_def)

text \<open>Fixed-width elements written one after the other can be read back.\<close>

lemma concat_map_inject:
  assumes "concat (map f xs) = concat (map f ys)"
    and "\<And>x. x \<in> set xs \<union> set ys \<Longrightarrow> length (f x) = n" and "0 < n"
    and "inj_on f (set xs \<union> set ys)"
  shows "xs = ys"
  using assms
proof (induction xs arbitrary: ys)
  case Nil
  then show ?case by (cases ys) auto
next
  case (Cons x xs)
  from Cons.prems(1) Cons.prems(2) [of x] Cons.prems(3) obtain y ys' where ys: "ys = y # ys'"
    by (cases ys) auto
  have "length (f x) = length (f y)"
    using Cons.prems(2) ys by simp
  then have xy: "f x = f y" and rest: "concat (map f xs) = concat (map f ys')"
    using Cons.prems(1) ys by simp_all
  have "inj_on f (set xs \<union> set ys')"
    by (rule inj_on_subset [OF Cons.prems(4)]) (use ys in auto)
  then have "xs = ys'"
    using Cons.IH [OF rest _ Cons.prems(3)] Cons.prems(2) ys by simp
  moreover have "x = y"
    using inj_onD [OF Cons.prems(4) xy] ys by simp
  ultimately show ?case
    using ys by simp
qed

lemma length_concat_map: "(\<And>x. x \<in> set xs \<Longrightarrow> length (f x) = n) \<Longrightarrow> length (concat (map f xs)) = length xs * n"
  by (induction xs) auto

section \<open>Lemmas on integers\<close>

lemma length_be_bytes [simp, layout_simps]: "length (be_bytes n w) = n"
  by (induction n arbitrary: w) (simp_all add: be_bytes.simps)

lemma be_word_Nil [simp]: "be_word [] = 0"
  by (simp add: be_word_def)

lemma be_word_snoc: "be_word (xs @ [b]) = push_bit 8 (be_word xs) OR ucast b"
  by (simp add: be_word_def)

lemma be_word_be_bytes: "be_word (be_bytes n (w :: 'a::len word)) = take_bit (8 * n) w"
proof (induction n arbitrary: w)
  case 0
  then show ?case by (simp add: be_bytes.simps)
next
  case (Suc n)
  show ?case
    by (rule bit_word_eqI) (auto simp: be_bytes.simps be_word_snoc Suc.IH bit_simps)
qed

lemma be_word_bound: "bit (be_word bs :: 'a::len word) i \<Longrightarrow> i < 8 * length bs"
proof (induction bs arbitrary: i rule: rev_induct)
  case Nil
  then show ?case by simp
next
  case (snoc b bs)
  from snoc.prems consider "8 \<le> i" "bit (be_word bs :: 'a word) (i - 8)" | "bit b i"
    by (auto simp: be_word_snoc bit_simps)
  then show ?case
  proof cases
    case 1
    with snoc.IH [of "i - 8"] show ?thesis by auto
  next
    case 2
    then have "i < 8" using bit_imp_le_length [of b i] by simp
    then show ?thesis by simp
  qed
qed

lemma be_bytes_be_word:
  "8 * length bs \<le> LENGTH('a) \<Longrightarrow> be_bytes (length bs) (be_word bs :: 'a::len word) = bs"
proof (induction bs rule: rev_induct)
  case Nil
  then show ?case by (simp add: be_bytes.simps)
next
  case (snoc b bs)
  have nb: "\<not> bit b (8 + n)" for n
    using bit_imp_le_length [of b "8 + n"] by auto
  have d: "drop_bit 8 (be_word (bs @ [b]) :: 'a word) = be_word bs"
    using snoc.prems
    by (intro bit_word_eqI) (auto simp: be_word_snoc bit_simps nb dest: be_word_bound)
  have u: "ucast (be_word (bs @ [b]) :: 'a word) = b"
    using snoc.prems by (intro bit_word_eqI) (auto simp: be_word_snoc bit_simps)
  show ?case using snoc d u by (simp add: be_bytes.simps)
qed

lemma take_bit_ge_length: "LENGTH('a) \<le> n \<Longrightarrow> take_bit n w = (w :: 'a::len word)"
  by (rule bit_word_eqI) (auto simp: bit_simps)

lemma be_word_be_bytes_u64 [simp]: "be_word (be_bytes 8 (w :: u64)) = w"
  by (simp add: be_word_be_bytes take_bit_ge_length)

lemma be_word_be_bytes_u32 [simp]: "be_word (be_bytes 4 (w :: u32)) = w"
  by (simp add: be_word_be_bytes take_bit_ge_length)

lemma be_word_be_bytes_u16 [simp]: "be_word (be_bytes 2 (w :: u16)) = w"
  by (simp add: be_word_be_bytes take_bit_ge_length)

lemma be_bytes_be_word_u64: "length bs = 8 \<Longrightarrow> be_bytes 8 (be_word bs :: u64) = bs"
  using be_bytes_be_word [of bs, where 'a = 64] by simp

lemma be_bytes_be_word_u32: "length bs = 4 \<Longrightarrow> be_bytes 4 (be_word bs :: u32) = bs"
  using be_bytes_be_word [of bs, where 'a = 32] by simp

lemma be_bytes_be_word_u16: "length bs = 2 \<Longrightarrow> be_bytes 2 (be_word bs :: u16) = bs"
  using be_bytes_be_word [of bs, where 'a = 16] by simp

lemma be_bytes_inject_u64: "be_bytes 8 (a :: u64) = be_bytes 8 b \<longleftrightarrow> a = b"
  by (metis be_word_be_bytes_u64)

lemma unat_of_nat_u32: "n \<le> u32_max \<Longrightarrow> unat (of_nat n :: u32) = n"
  by (simp add: unat_of_nat u32_max_def)

lemma unat_u64_max [simp]: "unat u64_max = 18446744073709551615"
  by (simp add: u64_max_def)

lemma unat_u64_bound: "unat (w :: u64) < 18446744073709551616"
  using unsigned_less [of w, where ?'a = nat] by simp

lemma u64_not_max_iff: "w \<noteq> u64_max \<longleftrightarrow> unat w < 18446744073709551615"
  using unat_u64_bound [of w] by (auto simp: word_unat_eq_iff)

lemma u64_max_top: "w \<le> u64_max"
  using unat_u64_bound [of w] by (simp add: word_le_nat_alt)

lemma unat_u64_Suc: "w \<noteq> u64_max \<Longrightarrow> unat (w + 1) = Suc (unat w)"
  by (simp add: u64_not_max_iff unat_word_ariths)

lemma checked_add_u64_one: "w \<noteq> u64_max \<Longrightarrow> checked_add_u64 w 1 = Some (w + 1)"
  by (simp add: checked_add_u64_def u64_not_max_iff)

lemma or_xor_zero_iff: "d OR (a XOR b) = 0 \<longleftrightarrow> d = 0 \<and> a = (b :: u8)"
  by (simp add: bit_eq_iff [of _ 0] bit_eq_iff [of a b] bit_simps) blast

lemma differences_zero_iff:
  assumes "length l = length r"
  shows "differences l r = 0 \<longleftrightarrow> l = r"
proof -
  have "foldl (\<lambda>d (a, b). d OR (a XOR b)) e (zip l r) = 0 \<longleftrightarrow> e = 0 \<and> l = r" for e
    using assms by (induction l r arbitrary: e rule: list_induct2) (auto simp: or_xor_zero_iff)
  then show ?thesis by (simp add: differences_def)
qed

lemma be_bytes_inject_u32: "be_bytes 4 (a :: u32) = be_bytes 4 b \<longleftrightarrow> a = b"
  by (metis be_word_be_bytes_u32)

lemma be_bytes_inject_u16: "be_bytes 2 (a :: u16) = be_bytes 2 b \<longleftrightarrow> a = b"
  by (metis be_word_be_bytes_u16)

lemma unat_u32_bound: "unat (w :: u32) < 4294967296"
  using unsigned_less [of w, where ?'a = nat] by simp

lemma of_nat_u32_inject: "m \<le> u32_max \<Longrightarrow> n \<le> u32_max \<Longrightarrow> (of_nat m :: u32) = of_nat n \<longleftrightarrow> m = n"
  by (metis unat_of_nat_u32)

lemma of_nat_u16_inject: "m \<le> u16_max \<Longrightarrow> n \<le> u16_max \<Longrightarrow> (of_nat m :: u16) = of_nat n \<longleftrightarrow> m = n"
  by (simp add: word_unat_eq_iff unat_of_nat u16_max_def)

lemma length_ascii [simp, layout_simps]: "length (ascii s) = length s"
  by (simp add: ascii_def)

section \<open>Lemmas on searching and removing\<close>

lemma position_None_iff: "position p xs = None \<longleftrightarrow> (\<forall>x \<in> set xs. \<not> p x)"
  by (induction xs) auto

lemma position_Some:
  "position p xs = Some i \<Longrightarrow> i < length xs \<and> p (xs ! i) \<and> (\<forall>j < i. \<not> p (xs ! j))"
proof (induction xs arbitrary: i)
  case Nil
  then show ?case by simp
next
  case (Cons x xs)
  then show ?case
    by (cases "p x") (auto simp: nth_Cons split: nat.splits)
qed

lemma find_position: "find p xs = map_option (\<lambda>i. xs ! i) (position p xs)"
  by (induction xs) (auto simp: option.map_comp comp_def)

lemma length_update_first [simp]: "length (update_first p f xs) = length xs"
  by (induction xs) auto

text \<open>When \<open>key\<close> identifies elements, updating the element with key \<open>k\<close> touches nothing else.\<close>

lemma map_update_first: "(\<And>x. p x \<Longrightarrow> g (f x) = g x) \<Longrightarrow> map g (update_first p f xs) = map g xs"
  by (induction xs) auto

lemma update_first_eq_map:
  assumes "distinct (map key xs)"
  shows "update_first (\<lambda>x. key x = k) f xs = map (\<lambda>x. if key x = k then f x else x) xs"
  using assms
proof (induction xs)
  case (Cons x xs)
  then show ?case
    by (cases "key x = k") (auto intro!: map_idI [symmetric] simp: image_iff)
qed simp

lemma find_update_first:
  assumes "\<And>x. key (f x) = key x"
  shows "find (\<lambda>x. key x = j) (update_first (\<lambda>x. key x = k) f xs) =
    (if j = k then map_option f (find (\<lambda>x. key x = k) xs) else find (\<lambda>x. key x = j) xs)"
  using assms by (induction xs) auto

lemma find_key_mem:
  assumes "distinct (map key xs)" and "x \<in> set xs"
  shows "find (\<lambda>y. key y = key x) xs = Some x"
  using assms by (induction xs) (auto simp: image_iff)

lemma find_SomeD: "find p xs = Some x \<Longrightarrow> x \<in> set xs \<and> p x"
  by (auto simp: find_Some_iff)

lemma set_windows2: "set (windows2 xs) \<subseteq> set xs \<times> set xs"
  by (cases xs) (auto simp: windows2_def dest: set_zip_leftD set_zip_rightD)

lemma windows2_Cons: "windows2 (x # y # xs) = (x, y) # windows2 (y # xs)"
  by (simp add: windows2_def)

lemma sorted_adjacent_distinct:
  "sorted xs \<Longrightarrow> \<not> list_ex (\<lambda>(a, b). a = b) (windows2 xs) \<longleftrightarrow> distinct xs"
proof (induction xs rule: induct_list012)
  case (3 x y zs)
  then show ?case
    by (auto simp: windows2_Cons)
qed (simp_all add: windows2_def)

lemma distinct_no_adjacent:
  "distinct (map k xs) \<Longrightarrow> \<not> list_ex (\<lambda>(a, b). k a = k b) (windows2 xs)"
  by (induction xs rule: induct_list012) (auto simp: windows2_Cons, simp_all add: windows2_def)

lemma distinct_map_sort_key: "distinct (map k (sort_key k xs)) \<longleftrightarrow> distinct (map k xs)"
  by (simp add: distinct_map)

lemma strictly_ordered_iff:
  "list_all (\<lambda>(a, b). a < b) (windows2 xs) \<longleftrightarrow> sorted_wrt (<) (xs :: 'a::linorder list)"
proof (induction xs rule: induct_list012)
  case (3 x y zs)
  then show ?case
    by (auto simp: windows2_Cons dest: order.strict_trans)
qed (simp_all add: windows2_def)

lemma mem_nth_split: "i < length xs \<Longrightarrow> xs = take i xs @ xs ! i # drop (Suc i) xs"
  by (rule id_take_nth_drop)

lemma length_remove_nth: "i < length xs \<Longrightarrow> length (remove_nth i xs) = length xs - 1"
  by (simp add: remove_nth_def)

lemma set_remove_nth_subset: "set (remove_nth i xs) \<subseteq> set xs"
  by (auto simp: remove_nth_def dest: in_set_takeD in_set_dropD)

lemma distinct_map_remove_nth:
  assumes "distinct (map f xs)" and "i < length xs"
  shows "distinct (map f (remove_nth i xs))"
    and "x \<in> set (remove_nth i xs) \<longleftrightarrow> x \<in> set xs \<and> f x \<noteq> f (xs ! i)"
proof -
  have split: "xs = take i xs @ xs ! i # drop (Suc i) xs"
    by (rule id_take_nth_drop [OF assms(2)])
  have d: "distinct (map f (take i xs @ xs ! i # drop (Suc i) xs))"
    using assms(1) split by metis
  then show "distinct (map f (remove_nth i xs))"
    by (auto simp: remove_nth_def)
  have s: "x \<in> set xs \<longleftrightarrow> x = xs ! i \<or> x \<in> set (remove_nth i xs)"
    by (subst split) (auto simp: remove_nth_def)
  have "\<forall>y \<in> set (remove_nth i xs). f y \<noteq> f (xs ! i)"
    using d unfolding remove_nth_def by (auto simp: image_iff)
  then show "x \<in> set (remove_nth i xs) \<longleftrightarrow> x \<in> set xs \<and> f x \<noteq> f (xs ! i)"
    using s by auto
qed

section \<open>Canonical wire codes\<close>

text \<open>
  The contract of every encoder/decoder pair of the program: decoding an encoding returns the
  value, and whatever decodes is the encoding of what it decodes to (so no value has two wire
  forms). \<open>wf\<close> holds what the source's array types guarantee of a value.
\<close>

locale canonical_codec =
  fixes enc :: "'a \<Rightarrow> 'd + 'b"
    and dec :: "'b \<Rightarrow> 'e + 'a"
    and wf :: "'a \<Rightarrow> bool"
  assumes dec_enc: "wf x \<Longrightarrow> enc x = Inr b \<Longrightarrow> dec b = Inr x"
    and enc_dec: "dec b = Inr x \<Longrightarrow> wf x \<and> enc x = Inr b"
begin

lemma enc_inject: "wf x \<Longrightarrow> wf y \<Longrightarrow> enc x = Inr b \<Longrightarrow> enc y = Inr b \<Longrightarrow> x = y"
  using dec_enc by (metis Inr_inject)

lemma dec_unique: "dec a = Inr x \<Longrightarrow> dec b = Inr x \<Longrightarrow> a = b"
  using enc_dec by (metis Inr_inject)

lemma dec_accepts_iff: "dec b = Inr x \<longleftrightarrow> wf x \<and> enc x = Inr b"
  using dec_enc enc_dec by blast

lemma dec_rejects_iff: "\<not> is_ok (dec b) \<longleftrightarrow> (\<forall>x. wf x \<longrightarrow> enc x \<noteq> Inr b)"
  by (simp add: is_ok_iff dec_accepts_iff)

end

text \<open>A closed one-byte enumeration: \<open>value as u8\<close> and \<open>TryFrom<u8>\<close>.\<close>

locale wire_enum =
  fixes to_u8 :: "'a \<Rightarrow> u8"
    and try_from :: "u8 \<Rightarrow> 'e + 'a"
  assumes try_to: "try_from (to_u8 x) = Inr x"
    and to_try: "try_from v = Inr x \<Longrightarrow> to_u8 x = v"

sublocale wire_enum \<subseteq> canonical_codec "\<lambda>x. Inr (to_u8 x) :: unit + u8" try_from "\<lambda>_. True"
  by unfold_locales (auto simp: try_to dest: to_try)

context wire_enum
begin

lemma try_from_iff: "try_from v = Inr x \<longleftrightarrow> to_u8 x = v"
  by (auto simp: dec_accepts_iff)

lemma to_u8_inject: "to_u8 x = to_u8 y \<longleftrightarrow> x = y"
  using try_to by (metis Inr_inject)

end

end
