(* ===== verification/Ratchet.thy ===== *)
theory Ratchet
  imports Hydra_Prelude
begin

text \<open>
  The symmetric ratchet loop that the two-party session
  (\<open>hydra-session/src/session/receive.rs\<close>) and the group sender chains
  (\<open>hydra-group/src/state/sender_chain.rs\<close>) both run: derive a step from the chain key at the
  cursor, stop at the target index, otherwise keep something of the step for a late message, move to
  the next chain key and advance the cursor with checked arithmetic. Locale \<open>ratchet\<close> is the
  contract of a derivation function; its lemmas say that every walk that starts on a chain ends on
  the chain, with exactly the keys of the indices it passed.
\<close>

section \<open>The loop\<close>

text \<open>
  \<open>derive\<close> is the step function, \<open>next_key\<close> the next chain key of a step, \<open>keep\<close> what is stored of
  a passed index, \<open>exhausted\<close> the error of the overflowing cursor.
\<close>

function ratchet_walk ::
    "('k \<Rightarrow> u64 \<Rightarrow> 'e + 's) \<Rightarrow> ('s \<Rightarrow> 'k) \<Rightarrow> (u64 \<Rightarrow> 's \<Rightarrow> 'p) \<Rightarrow> 'e \<Rightarrow> 'k \<Rightarrow> u64 \<Rightarrow> u64 \<Rightarrow>
       'e + 'p list \<times> 's" where
  "ratchet_walk derive next_key keep exhausted chain_key cursor target =
     rbind (derive chain_key cursor) (\<lambda>step.
       if cursor = target then Inr ([], step)
       else
         rbind (ok_or (checked_add_u64 cursor 1) exhausted) (\<lambda>cursor'.
         rbind (ratchet_walk derive next_key keep exhausted (next_key step) cursor' target)
           (\<lambda>(skipped, final_step). Inr (keep cursor step # skipped, final_step))))"
  by pat_completeness auto

termination
proof (relation "measure (\<lambda>(_, _, _, _, _, cursor, _). 2 ^ 64 - unat cursor)")
  fix cursor cursor' :: u64 and exhausted :: 'e
  assume "ok_or (checked_add_u64 cursor 1) exhausted = Inr cursor'"
  then have "unat cursor + 1 < 2 ^ 64" and "cursor' = cursor + 1"
    by (simp_all add: result_simps checked_add_u64_def split: if_splits)
  then have "unat cursor' = unat cursor + 1"
    by (simp add: unat_word_ariths)
  with \<open>unat cursor + 1 < 2 ^ 64\<close> have "2 ^ 64 - unat cursor' < 2 ^ 64 - unat cursor"
    by simp
  then show "((derive, next_key, keep, exhausted, next_key step, cursor', target),
      derive, next_key, keep, exhausted, chain_key, cursor, target)
      \<in> measure (\<lambda>(_, _, _, _, _, cursor, _). 2 ^ 64 - unat cursor)"
    for derive :: "'k \<Rightarrow> u64 \<Rightarrow> 'e + 's" and next_key and keep :: "u64 \<Rightarrow> 's \<Rightarrow> 'p"
      and step target chain_key
    by simp
qed simp

declare ratchet_walk.simps [simp del]

section \<open>The chain\<close>

text \<open>The chain key before index \<open>n\<close> of the chain that starts at \<open>k\<close>, and the step at \<open>n\<close>.\<close>

fun ratchet_key :: "('k \<Rightarrow> u64 \<Rightarrow> 'e + 's) \<Rightarrow> ('s \<Rightarrow> 'k) \<Rightarrow> 'k \<Rightarrow> nat \<Rightarrow> 'k" where
  "ratchet_key derive next_key k 0 = k"
| "ratchet_key derive next_key k (Suc n) =
     next_key (projr (derive (ratchet_key derive next_key k n) (of_nat n)))"

definition ratchet_step :: "('k \<Rightarrow> u64 \<Rightarrow> 'e + 's) \<Rightarrow> ('s \<Rightarrow> 'k) \<Rightarrow> 'k \<Rightarrow> nat \<Rightarrow> 's" where
  "ratchet_step derive next_key k n = projr (derive (ratchet_key derive next_key k n) (of_nat n))"

lemma ratchet_key_Suc:
  "ratchet_key derive next_key k (Suc n) = next_key (ratchet_step derive next_key k n)"
  by (simp add: ratchet_step_def)

locale ratchet =
  fixes derive :: "'k \<Rightarrow> u64 \<Rightarrow> 'e + 's"
    and next_key :: "'s \<Rightarrow> 'k"
    and key_ok :: "'k \<Rightarrow> bool"
  assumes derive_total: "key_ok k \<Longrightarrow> \<exists>s. derive k i = Inr s \<and> key_ok (next_key s)"
begin

lemma ratchet_key_ok: "key_ok k \<Longrightarrow> key_ok (ratchet_key derive next_key k n)"
proof (induction n)
  case (Suc n)
  then show ?case
    using derive_total [of "ratchet_key derive next_key k n" "of_nat n"] by auto
qed simp

lemma derive_on_chain:
  "key_ok k \<Longrightarrow> derive (ratchet_key derive next_key k (unat i)) i =
     Inr (ratchet_step derive next_key k (unat i))"
  using derive_total [OF ratchet_key_ok, of k "unat i" i] by (auto simp: ratchet_step_def)

lemma ratchet_walk_on_chain:
  assumes k: "key_ok k" and le: "cursor \<le> target"
  shows "ratchet_walk derive next_key keep exhausted
      (ratchet_key derive next_key k (unat cursor)) cursor target =
    Inr (map (\<lambda>j. keep (of_nat j) (ratchet_step derive next_key k j)) [unat cursor..<unat target],
      ratchet_step derive next_key k (unat target))"
  using le
proof (induction "unat target - unat cursor" arbitrary: cursor)
  case 0
  then have "cursor = target"
    by (simp add: word_le_nat_alt word_unat_eq_iff)
  then show ?case
    by (simp add: ratchet_walk.simps [of _ _ _ _ _ _ target] derive_on_chain [OF k])
next
  case (Suc n)
  then have less: "unat cursor < unat target" and ne: "cursor \<noteq> target"
    by auto
  then have "cursor \<noteq> u64_max"
    using unat_u64_bound [of target] by (simp add: u64_not_max_iff)
  then have next': "unat (cursor + 1) = Suc (unat cursor)"
    and add: "checked_add_u64 cursor 1 = Some (cursor + 1)"
    by (simp_all add: unat_u64_Suc checked_add_u64_one)
  have "cursor + 1 \<le> target" "n = unat target - unat (cursor + 1)"
    using less next' Suc.hyps(2) by (simp_all add: word_le_nat_alt)
  from Suc.hyps(1) [OF this(2) this(1)] show ?case
    using less ne add next'
    by (simp add: ratchet_walk.simps [of _ _ _ _ _ cursor] derive_on_chain [OF k] upt_conv_Cons
        ratchet_key_Suc)
qed

text \<open>A walk that is asked to go backwards runs out of indices and fails.\<close>

lemma ratchet_walk_backwards:
  assumes "target < cursor"
  shows "\<not> is_ok (ratchet_walk derive next_key keep exhausted k cursor target)"
  using assms
proof (induction derive next_key keep exhausted k cursor target rule: ratchet_walk.induct)
  case (1 derive next_key keep exhausted k cursor target)
  have less: "target < cursor'" if "ok_or (checked_add_u64 cursor 1) exhausted = Inr cursor'" for cursor'
  proof -
    have "cursor \<noteq> u64_max" "cursor' = cursor + 1"
      using that by (auto simp: result_simps checked_add_u64_def u64_not_max_iff split: if_splits)
    then show ?thesis
      using "1.prems" by (simp add: word_less_nat_alt unat_u64_Suc)
  qed
  then have "\<not> is_ok (ratchet_walk derive next_key keep exhausted (next_key step) cursor' target)"
    if "derive k cursor = Inr step" "ok_or (checked_add_u64 cursor 1) exhausted = Inr cursor'"
    for step cursor'
    using "1.IH" that "1.prems" by force
  then show ?case
    using "1.prems" by (auto simp: ratchet_walk.simps [of _ _ _ _ _ cursor] is_ok_iff result_simps)
qed

end

end
