(* ===== verification/Core_Types.thy ===== *)
theory Core_Types
  imports Hydra_Prelude
begin

text \<open>
  The crate \<open>hydra-core\<close>: the normative byte sizes and identifiers (\<open>constants.rs\<close>), the closed
  wire enumerations with their discriminants (\<open>types/envelope.rs\<close>), the shared error type
  (\<open>error.rs\<close>), the handshake phase table (\<open>protocol/handshake.rs\<close>), the epoch check
  (\<open>protocol/group.rs\<close>) and the secret wrapper (\<open>types/primitives.rs\<close>).
  The lemmas show that every wire enumeration is a canonical code and that the class sizes add up.
\<close>

section \<open>Normative constants\<close>

definition MAGIC :: bytes where
  "MAGIC = ascii ''HYD1''"

definition PROTOCOL_VERSION :: u8 where
  "PROTOCOL_VERSION = 0x01"

definition SUITE_ID :: bytes where
  "SUITE_ID = ascii ''HYDRA1-MK768-M65''"

definition OUTER_HEADER_SIZE :: nat where
  [simp]: "OUTER_HEADER_SIZE = 64"

definition AEAD_TAG_SIZE :: nat where
  [simp]: "AEAD_TAG_SIZE = 16"

definition INNER_HEADER_SIZE :: nat where
  [simp]: "INNER_HEADER_SIZE = 96"

definition LITE_ENVELOPE_SIZE :: nat where
  [simp]: "LITE_ENVELOPE_SIZE = 4096"

definition STANDARD_ENVELOPE_SIZE :: nat where
  [simp]: "STANDARD_ENVELOPE_SIZE = 32768"

definition FULL_ENVELOPE_SIZE :: nat where
  [simp]: "FULL_ENVELOPE_SIZE = 147456"

definition LITE_MAX_CONTENT_SIZE :: nat where
  "LITE_MAX_CONTENT_SIZE = 3920"

definition STANDARD_MAX_CONTENT_SIZE :: nat where
  "STANDARD_MAX_CONTENT_SIZE = 32592"

definition FULL_MAX_CONTENT_SIZE :: nat where
  "FULL_MAX_CONTENT_SIZE = 147280"

definition ML_KEM_768_EK_SIZE :: nat where
  [simp]: "ML_KEM_768_EK_SIZE = 1184"

definition ML_DSA_65_SIG_SIZE :: nat where
  [simp]: "ML_DSA_65_SIG_SIZE = 3309"

definition MAX_SKIP :: nat where
  [simp]: "MAX_SKIP = 256"

definition REPLAY_WINDOW_WIDTH :: nat where
  [simp]: "REPLAY_WINDOW_WIDTH = MAX_SKIP + 1"

definition REPLAY_WINDOW_WORDS :: nat where
  [simp]: "REPLAY_WINDOW_WORDS = (REPLAY_WINDOW_WIDTH + 63) div 64"

definition MAX_GOVERNANCE_SIGNERS :: nat where
  [simp]: "MAX_GOVERNANCE_SIGNERS = 16"

definition MAX_COMMIT_SIGNATURES :: nat where
  [simp]: "MAX_COMMIT_SIGNATURES = 17"

definition MAX_INTERACTIVE_MEMBERS :: nat where
  [simp]: "MAX_INTERACTIVE_MEMBERS = 256"

definition MAX_BROADCAST_MEMBERS :: nat where
  [simp]: "MAX_BROADCAST_MEMBERS = 8192"

definition MAX_BROADCAST_PRESENTERS :: nat where
  [simp]: "MAX_BROADCAST_PRESENTERS = 16"

definition MAX_LITE_MEMBERS :: nat where
  [simp]: "MAX_LITE_MEMBERS = 64"

definition LABEL_MESSAGE_KEY :: bytes where
  "LABEL_MESSAGE_KEY = ascii ''HYDRA-MSG/v1/message-key''"

definition LABEL_CHAIN_STEP :: bytes where
  "LABEL_CHAIN_STEP = ascii ''HYDRA-MSG/v1/chain-advance''"

section \<open>Closed wire enumerations\<close>

record UnknownDiscriminant =
  type_name :: string
  discriminant_value :: u8

datatype EnvelopeClass = Lite | Standard | Full

fun envelope_class_u8 :: "EnvelopeClass \<Rightarrow> u8" where
  "envelope_class_u8 Lite = 0x01"
| "envelope_class_u8 Standard = 0x02"
| "envelope_class_u8 Full = 0x03"

fun envelope_size :: "EnvelopeClass \<Rightarrow> nat" where
  "envelope_size Lite = LITE_ENVELOPE_SIZE"
| "envelope_size Standard = STANDARD_ENVELOPE_SIZE"
| "envelope_size Full = FULL_ENVELOPE_SIZE"

definition body_size :: "EnvelopeClass \<Rightarrow> nat" where
  "body_size c = envelope_size c - OUTER_HEADER_SIZE"

definition protected_record_size :: "EnvelopeClass \<Rightarrow> nat" where
  "protected_record_size c = body_size c - AEAD_TAG_SIZE"

definition max_content_size :: "EnvelopeClass \<Rightarrow> nat" where
  "max_content_size c = protected_record_size c - INNER_HEADER_SIZE"

definition envelope_class_try_from :: "u8 \<Rightarrow> UnknownDiscriminant + EnvelopeClass" where
  "envelope_class_try_from v =
     (if v = 0x01 then Inr Lite
      else if v = 0x02 then Inr Standard
      else if v = 0x03 then Inr Full
      else Inl \<lparr>type_name = ''EnvelopeClass'', discriminant_value = v\<rparr>)"

datatype OuterMode = BootstrapInit | BootstrapResp | Protected

fun outer_mode_u8 :: "OuterMode \<Rightarrow> u8" where
  "outer_mode_u8 BootstrapInit = 0x01"
| "outer_mode_u8 BootstrapResp = 0x02"
| "outer_mode_u8 Protected = 0x03"

definition outer_mode_try_from :: "u8 \<Rightarrow> UnknownDiscriminant + OuterMode" where
  "outer_mode_try_from v =
     (if v = 0x01 then Inr BootstrapInit
      else if v = 0x02 then Inr BootstrapResp
      else if v = 0x03 then Inr Protected
      else Inl \<lparr>type_name = ''OuterMode'', discriminant_value = v\<rparr>)"

datatype ContentKind =
    HandshakeFinish | Data | RefreshInit | RefreshResp | RefreshFinish | Close
  | GroupCommit | GroupWelcome | GroupData | IdentityRotation | DeviceRevocation

fun content_kind_u8 :: "ContentKind \<Rightarrow> u8" where
  "content_kind_u8 HandshakeFinish = 0x01"
| "content_kind_u8 Data = 0x02"
| "content_kind_u8 RefreshInit = 0x03"
| "content_kind_u8 RefreshResp = 0x04"
| "content_kind_u8 RefreshFinish = 0x05"
| "content_kind_u8 Close = 0x06"
| "content_kind_u8 GroupCommit = 0x10"
| "content_kind_u8 GroupWelcome = 0x11"
| "content_kind_u8 GroupData = 0x12"
| "content_kind_u8 IdentityRotation = 0x20"
| "content_kind_u8 DeviceRevocation = 0x21"

definition content_kind_try_from :: "u8 \<Rightarrow> UnknownDiscriminant + ContentKind" where
  "content_kind_try_from v =
     (if v = 0x01 then Inr HandshakeFinish
      else if v = 0x02 then Inr Data
      else if v = 0x03 then Inr RefreshInit
      else if v = 0x04 then Inr RefreshResp
      else if v = 0x05 then Inr RefreshFinish
      else if v = 0x06 then Inr Close
      else if v = 0x10 then Inr GroupCommit
      else if v = 0x11 then Inr GroupWelcome
      else if v = 0x12 then Inr GroupData
      else if v = 0x20 then Inr IdentityRotation
      else if v = 0x21 then Inr DeviceRevocation
      else Inl \<lparr>type_name = ''ContentKind'', discriminant_value = v\<rparr>)"

section \<open>Shared errors, phases and epochs\<close>

datatype HydraError =
    HE_InvalidSize nat nat | HE_InvalidHeader | HE_InvalidPayload | HE_InvalidAuthTag
  | HE_AuthFailure | HE_ReplayDetected | HE_MessageTooOld | HE_MessageTooFarAhead
  | HE_EpochMismatch u64 u64 | HE_IllegalStateTransition | HE_UnsupportedSuite
  | HE_CryptoBackendUnavailable | HE_SerializationFailure | HE_DeserializationFailure
  | HE_NotImplemented string

datatype SessionStateType = StInit | StResponded | StEstablished | StRotating | StClosed

definition validate_transition ::
    "SessionStateType \<Rightarrow> SessionStateType \<Rightarrow> HydraError + unit" where
  "validate_transition from to =
     ensure ((from, to) \<in> {(StInit, StResponded), (StInit, StEstablished),
               (StResponded, StEstablished), (StEstablished, StRotating),
               (StRotating, StEstablished)} \<or> to = StClosed)
       HE_IllegalStateTransition"

definition require_epoch :: "u64 \<Rightarrow> u64 \<Rightarrow> HydraError + unit" where
  "require_epoch expected actual =
     (if expected = actual then Inr () else Inl (HE_EpochMismatch expected actual))"

text \<open>\<open>Secret32\<close> and \<open>SecretBytes<32>\<close> own 32 bytes; wiping fills them with zero.\<close>

type_synonym Secret32 = bytes

definition secret32_zero :: Secret32 where
  "secret32_zero = replicate 32 0"

definition secret32_wipe :: "Secret32 \<Rightarrow> Secret32" where
  "secret32_wipe s = map (\<lambda>_. 0) s"

section \<open>The enumerations are canonical codes\<close>

interpretation envelope_class: wire_enum envelope_class_u8 envelope_class_try_from
proof unfold_locales
  fix x show "envelope_class_try_from (envelope_class_u8 x) = Inr x"
    by (cases x) (simp_all add: envelope_class_try_from_def)
qed (auto simp: envelope_class_try_from_def split: if_splits)

interpretation outer_mode: wire_enum outer_mode_u8 outer_mode_try_from
proof unfold_locales
  fix x show "outer_mode_try_from (outer_mode_u8 x) = Inr x"
    by (cases x) (simp_all add: outer_mode_try_from_def)
qed (auto simp: outer_mode_try_from_def split: if_splits)

interpretation content_kind: wire_enum content_kind_u8 content_kind_try_from
proof unfold_locales
  fix x show "content_kind_try_from (content_kind_u8 x) = Inr x"
    by (cases x) (simp_all add: content_kind_try_from_def)
qed (auto simp: content_kind_try_from_def split: if_splits)

section \<open>Sizes\<close>

lemma length_MAGIC [simp, layout_simps]: "length MAGIC = 4"
  by (simp add: MAGIC_def)

lemma length_SUITE_ID [simp, layout_simps]: "length SUITE_ID = 16"
  by (simp add: SUITE_ID_def)

lemma max_content_size_eq:
  "max_content_size Lite = LITE_MAX_CONTENT_SIZE"
  "max_content_size Standard = STANDARD_MAX_CONTENT_SIZE"
  "max_content_size Full = FULL_MAX_CONTENT_SIZE"
  by (simp_all add: max_content_size_def protected_record_size_def body_size_def
      LITE_MAX_CONTENT_SIZE_def STANDARD_MAX_CONTENT_SIZE_def FULL_MAX_CONTENT_SIZE_def)

text \<open>Every class is exactly header, tag, inner header and content capacity.\<close>

lemma envelope_size_split:
  "envelope_size c = OUTER_HEADER_SIZE + AEAD_TAG_SIZE + INNER_HEADER_SIZE + max_content_size c"
  by (cases c) (simp_all add: max_content_size_def protected_record_size_def body_size_def)

lemma protected_record_size_split:
  "protected_record_size c = INNER_HEADER_SIZE + max_content_size c"
  by (cases c) (simp_all add: max_content_size_def protected_record_size_def body_size_def)

lemma envelope_size_record:
  "envelope_size c = OUTER_HEADER_SIZE + (protected_record_size c + AEAD_TAG_SIZE)"
  by (cases c) (simp_all add: protected_record_size_def body_size_def)

lemma max_content_size_bound: "max_content_size c \<le> u32_max"
  by (cases c) (simp_all add: max_content_size_def protected_record_size_def body_size_def u32_max_def)

lemma envelope_size_inject: "envelope_size c = envelope_size d \<longleftrightarrow> c = d"
  by (cases c; cases d) simp_all

lemma length_secret32_wipe [simp]: "length (secret32_wipe s) = length s"
  by (simp add: secret32_wipe_def)

end
