(* ===== verification/Crypto_Backend.thy ===== *)
theory Crypto_Backend
  imports Core_Types
begin

text \<open>
  The crate \<open>hydra-crypto\<close>: the fixed-suite adapter over the RustCrypto packages. The packages
  (SHA3, HMAC, HKDF, ChaCha20-Poly1305, X25519, ML-KEM-768, ML-DSA-65) are a record of functions,
  \<open>CryptoPrims\<close>; the wrappers of the crate, with their length checks and error mapping, are
  defined over it, and an entropy draw is an argument (\<open>None\<close> when the operating system has none).
  What the rest of the program relies on is stated per primitive (\<open>hash_ok\<close>, \<open>kdf_ok\<close>, \<open>aead_ok\<close>,
  \<open>dh_ok\<close>, \<open>kem_ok\<close>, \<open>sig_ok\<close>): output lengths, and that decryption inverts encryption. Nothing is
  assumed about secrecy or collisions.
\<close>

section \<open>Primitives of the packages\<close>

record CryptoPrims =
  p_sha3_256 :: "bytes \<Rightarrow> bytes"
  p_sha3_512 :: "bytes \<Rightarrow> bytes"
  p_hmac_sha3_256 :: "bytes \<Rightarrow> bytes \<Rightarrow> bytes"
  p_hkdf_extract :: "bytes \<Rightarrow> bytes \<Rightarrow> bytes"
  p_hkdf_expand :: "bytes \<Rightarrow> bytes \<Rightarrow> nat \<Rightarrow> bytes option"
  p_aead_encrypt :: "bytes \<Rightarrow> bytes \<Rightarrow> bytes \<Rightarrow> bytes \<Rightarrow> bytes option"
  p_aead_decrypt :: "bytes \<Rightarrow> bytes \<Rightarrow> bytes \<Rightarrow> bytes \<Rightarrow> bytes option"
  p_x25519_public :: "bytes \<Rightarrow> bytes"
  p_x25519_shared :: "bytes \<Rightarrow> bytes \<Rightarrow> bytes"
  p_mlkem_from_seed :: "bytes \<Rightarrow> bytes \<times> bytes"
  p_mlkem_ek_valid :: "bytes \<Rightarrow> bool"
  p_mlkem_encapsulate :: "bytes \<Rightarrow> bytes \<Rightarrow> bytes \<times> bytes"
  p_mlkem_decapsulate :: "bytes \<Rightarrow> bytes \<Rightarrow> bytes"
  p_mldsa_from_seed :: "bytes \<Rightarrow> bytes \<times> bytes"
  p_mldsa_sign :: "bytes \<Rightarrow> bytes \<Rightarrow> bytes \<Rightarrow> bytes"
  p_mldsa_sig_valid :: "bytes \<Rightarrow> bool"
  p_mldsa_verify :: "bytes \<Rightarrow> bytes \<Rightarrow> bytes \<Rightarrow> bool"

section \<open>The wrappers\<close>

datatype CryptoError =
    CE_InvalidLength string nat nat
  | CE_InvalidEncoding string
  | CE_AuthenticationFailed
  | CE_WeakPublicKey
  | CE_EntropyUnavailable
  | CE_OutputTooLong
  | CE_BackendFailure

definition ML_KEM_768_CT_SIZE :: nat where
  [simp]: "ML_KEM_768_CT_SIZE = 1088"

definition ML_DSA_65_VK_SIZE :: nat where
  [simp]: "ML_DSA_65_VK_SIZE = 1952"

definition TRANSCRIPT_HASH_SIZE :: nat where
  [simp]: "TRANSCRIPT_HASH_SIZE = 64"

definition exact_array :: "nat \<Rightarrow> string \<Rightarrow> bytes \<Rightarrow> CryptoError + bytes" where
  "exact_array n field input =
     (if length input = n then Inr input else Inl (CE_InvalidLength field n (length input)))"

definition sha3_256 :: "CryptoPrims \<Rightarrow> bytes \<Rightarrow> bytes" where
  "sha3_256 P input = p_sha3_256 P input"

definition sha3_512 :: "CryptoPrims \<Rightarrow> bytes \<Rightarrow> bytes" where
  "sha3_512 P input = p_sha3_512 P input"

definition hmac_sha3_256 :: "CryptoPrims \<Rightarrow> bytes \<Rightarrow> bytes \<Rightarrow> bytes" where
  "hmac_sha3_256 P key input = p_hmac_sha3_256 P key input"

definition verify_hmac_sha3_256 ::
    "CryptoPrims \<Rightarrow> bytes \<Rightarrow> bytes \<Rightarrow> bytes \<Rightarrow> CryptoError + unit" where
  "verify_hmac_sha3_256 P key input expected =
     rbind (ensure (length expected = 32)
              (CE_InvalidLength ''HMAC-SHA3-256 tag'' 32 (length expected))) (\<lambda>_.
       ensure (p_hmac_sha3_256 P key input = expected) CE_AuthenticationFailed)"

definition hkdf_extract :: "CryptoPrims \<Rightarrow> bytes \<Rightarrow> bytes \<Rightarrow> bytes" where
  "hkdf_extract P salt input_key_material = p_hkdf_extract P salt input_key_material"

definition hkdf_expand :: "CryptoPrims \<Rightarrow> bytes \<Rightarrow> bytes \<Rightarrow> nat \<Rightarrow> CryptoError + bytes" where
  "hkdf_expand P pseudorandom_key info output_length =
     rbind (exact_array 32 ''HKDF pseudorandom key'' pseudorandom_key) (\<lambda>prk.
       ok_or (p_hkdf_expand P prk info output_length) CE_OutputTooLong)"

definition aead_seal ::
    "CryptoPrims \<Rightarrow> bytes \<Rightarrow> bytes \<Rightarrow> bytes \<Rightarrow> bytes \<Rightarrow> CryptoError + bytes" where
  "aead_seal P key nonce aad plaintext =
     rbind (exact_array 12 ''ChaCha20-Poly1305 nonce'' nonce) (\<lambda>nonce.
       ok_or (p_aead_encrypt P key nonce aad plaintext) CE_BackendFailure)"

definition aead_open ::
    "CryptoPrims \<Rightarrow> bytes \<Rightarrow> bytes \<Rightarrow> bytes \<Rightarrow> bytes \<Rightarrow> CryptoError + bytes" where
  "aead_open P key nonce aad ciphertext_and_tag =
     rbind (exact_array 12 ''ChaCha20-Poly1305 nonce'' nonce) (\<lambda>nonce.
     rbind (ensure (16 \<le> length ciphertext_and_tag)
              (CE_InvalidLength ''ChaCha20-Poly1305 ciphertext and tag'' 16
                (length ciphertext_and_tag))) (\<lambda>_.
       ok_or (p_aead_decrypt P key nonce aad ciphertext_and_tag) CE_AuthenticationFailed))"

definition x25519_generate :: "bytes option \<Rightarrow> CryptoError + bytes" where
  "x25519_generate entropy = ok_or entropy CE_EntropyUnavailable"

definition x25519_from_bytes :: "bytes \<Rightarrow> CryptoError + bytes" where
  "x25519_from_bytes bs = exact_array 32 ''X25519 private value'' bs"

definition x25519_diffie_hellman ::
    "CryptoPrims \<Rightarrow> bytes \<Rightarrow> bytes \<Rightarrow> CryptoError + bytes" where
  "x25519_diffie_hellman P key peer_public_key =
     rbind (exact_array 32 ''X25519 public value'' peer_public_key) (\<lambda>peer.
       let shared = p_x25519_shared P key peer in
       if list_all (\<lambda>b. b = 0) shared then Inl CE_WeakPublicKey else Inr shared)"

text \<open>A parsed ML-KEM or ML-DSA key is its encoding.\<close>

definition mlkem_generate ::
    "CryptoPrims \<Rightarrow> bytes option \<Rightarrow> bytes option \<Rightarrow> CryptoError + bytes \<times> bytes" where
  "mlkem_generate P d z =
     rbind (ok_or d CE_EntropyUnavailable) (\<lambda>d.
     rbind (ok_or z CE_EntropyUnavailable) (\<lambda>z.
       Inr (p_mlkem_from_seed P (d @ z))))"

definition mlkem_ek_from_bytes :: "CryptoPrims \<Rightarrow> bytes \<Rightarrow> CryptoError + bytes" where
  "mlkem_ek_from_bytes P bs =
     rbind (ensure (length bs = ML_KEM_768_EK_SIZE)
              (CE_InvalidLength ''ML-KEM-768 encapsulation key'' ML_KEM_768_EK_SIZE
                (length bs))) (\<lambda>_.
       if p_mlkem_ek_valid P bs then Inr bs
       else Inl (CE_InvalidEncoding ''ML-KEM-768 encapsulation key''))"

definition mlkem_encapsulate ::
    "CryptoPrims \<Rightarrow> bytes \<Rightarrow> bytes option \<Rightarrow> CryptoError + bytes \<times> bytes" where
  "mlkem_encapsulate P ek entropy =
     rbind (ok_or entropy CE_EntropyUnavailable) (\<lambda>entropy.
       Inr (p_mlkem_encapsulate P ek entropy))"

definition mlkem_decapsulate :: "CryptoPrims \<Rightarrow> bytes \<Rightarrow> bytes \<Rightarrow> CryptoError + bytes" where
  "mlkem_decapsulate P dk ciphertext =
     rbind (ensure (length ciphertext = ML_KEM_768_CT_SIZE)
              (CE_InvalidLength ''ML-KEM-768 ciphertext'' ML_KEM_768_CT_SIZE
                (length ciphertext))) (\<lambda>_.
       Inr (p_mlkem_decapsulate P dk ciphertext))"

definition mldsa_from_seed :: "CryptoPrims \<Rightarrow> bytes \<Rightarrow> CryptoError + bytes \<times> bytes" where
  "mldsa_from_seed P seed = Inr (p_mldsa_from_seed P seed)"

definition mldsa_generate :: "CryptoPrims \<Rightarrow> bytes option \<Rightarrow> CryptoError + bytes \<times> bytes" where
  "mldsa_generate P entropy =
     rbind (ok_or entropy CE_EntropyUnavailable) (\<lambda>seed. mldsa_from_seed P seed)"

definition mldsa_sign_digest ::
    "CryptoPrims \<Rightarrow> bytes \<Rightarrow> bytes \<Rightarrow> bytes option \<Rightarrow> CryptoError + bytes" where
  "mldsa_sign_digest P sk digest entropy =
     rbind (exact_array TRANSCRIPT_HASH_SIZE ''ML-DSA-65 digest'' digest) (\<lambda>digest.
     rbind (ok_or entropy CE_EntropyUnavailable) (\<lambda>entropy.
       Inr (p_mldsa_sign P sk digest entropy)))"

definition mldsa_vk_from_bytes :: "bytes \<Rightarrow> CryptoError + bytes" where
  "mldsa_vk_from_bytes bs =
     (if length bs = ML_DSA_65_VK_SIZE then Inr bs
      else Inl (CE_InvalidLength ''ML-DSA-65 verification key'' ML_DSA_65_VK_SIZE (length bs)))"

definition mldsa_verify_digest ::
    "CryptoPrims \<Rightarrow> bytes \<Rightarrow> bytes \<Rightarrow> bytes \<Rightarrow> CryptoError + unit" where
  "mldsa_verify_digest P vk digest signature =
     rbind (exact_array TRANSCRIPT_HASH_SIZE ''ML-DSA-65 digest'' digest) (\<lambda>digest.
     rbind (ensure (length signature = ML_DSA_65_SIG_SIZE)
              (CE_InvalidLength ''ML-DSA-65 signature'' ML_DSA_65_SIG_SIZE
                (length signature))) (\<lambda>_.
     rbind (ensure (p_mldsa_sig_valid P signature)
              (CE_InvalidEncoding ''ML-DSA-65 signature'')) (\<lambda>_.
       ensure (p_mldsa_verify P vk digest signature) CE_AuthenticationFailed)))"

section \<open>What the primitives promise\<close>

text \<open>
  Output lengths of SHA3 and HMAC; HKDF (RFC 5869) fills any request of at most 255 blocks of 32
  bytes; ChaCha20-Poly1305 (RFC 8439) encrypts every message below its limit of \<open>2^38 - 64\<close>
  bytes, adds a 16-byte tag, and decrypts exactly the strings it produces under the same key,
  nonce and associated data (the tag is a function of them).
\<close>

definition AEAD_MESSAGE_LIMIT :: nat where
  "AEAD_MESSAGE_LIMIT = 2 ^ 38 - 64"

definition hash_ok :: "CryptoPrims \<Rightarrow> bool" where
  "hash_ok P \<longleftrightarrow> (\<forall>m. length (p_sha3_256 P m) = 32) \<and> (\<forall>m. length (p_sha3_512 P m) = 64) \<and>
     (\<forall>k m. length (p_hmac_sha3_256 P k m) = 32)"

definition kdf_ok :: "CryptoPrims \<Rightarrow> bool" where
  "kdf_ok P \<longleftrightarrow> (\<forall>s m. length (p_hkdf_extract P s m) = 32) \<and>
     (\<forall>k i n out. p_hkdf_expand P k i n = Some out \<longrightarrow> length out = n) \<and>
     (\<forall>k i n. n \<le> 255 * 32 \<longrightarrow> p_hkdf_expand P k i n \<noteq> None)"

definition aead_ok :: "CryptoPrims \<Rightarrow> bool" where
  "aead_ok P \<longleftrightarrow>
     (\<forall>k n a p ct. p_aead_encrypt P k n a p = Some ct \<longrightarrow> length ct = length p + 16) \<and>
     (\<forall>k n a p. length p \<le> AEAD_MESSAGE_LIMIT \<longrightarrow> p_aead_encrypt P k n a p \<noteq> None) \<and>
     (\<forall>k n a p ct. p_aead_decrypt P k n a ct = Some p \<longleftrightarrow> p_aead_encrypt P k n a p = Some ct)"

definition dh_ok :: "CryptoPrims \<Rightarrow> bool" where
  "dh_ok P \<longleftrightarrow> (\<forall>a. length (p_x25519_public P a) = 32) \<and>
     (\<forall>a q. length (p_x25519_shared P a q) = 32) \<and>
     (\<forall>a b. p_x25519_shared P a (p_x25519_public P b) = p_x25519_shared P b (p_x25519_public P a))"

definition kem_ok :: "CryptoPrims \<Rightarrow> bool" where
  "kem_ok P \<longleftrightarrow>
     (\<forall>s dk ek. p_mlkem_from_seed P s = (dk, ek) \<longrightarrow>
        length ek = ML_KEM_768_EK_SIZE \<and> p_mlkem_ek_valid P ek \<and>
        (\<forall>r ct ss. p_mlkem_encapsulate P ek r = (ct, ss) \<longrightarrow> p_mlkem_decapsulate P dk ct = ss)) \<and>
     (\<forall>ek r ct ss. p_mlkem_encapsulate P ek r = (ct, ss) \<longrightarrow>
        length ct = ML_KEM_768_CT_SIZE \<and> length ss = 32) \<and>
     (\<forall>dk ct. length (p_mlkem_decapsulate P dk ct) = 32)"

definition sig_ok :: "CryptoPrims \<Rightarrow> bool" where
  "sig_ok P \<longleftrightarrow> (\<forall>s sk vk d r. p_mldsa_from_seed P s = (sk, vk) \<longrightarrow>
     length vk = ML_DSA_65_VK_SIZE \<and> length (p_mldsa_sign P sk d r) = ML_DSA_65_SIG_SIZE \<and>
     p_mldsa_sig_valid P (p_mldsa_sign P sk d r) \<and> p_mldsa_verify P vk d (p_mldsa_sign P sk d r))"

definition crypto_ok :: "CryptoPrims \<Rightarrow> bool" where
  "crypto_ok P \<longleftrightarrow> hash_ok P \<and> kdf_ok P \<and> aead_ok P \<and> dh_ok P \<and> kem_ok P \<and> sig_ok P"

section \<open>What the wrappers promise\<close>

lemma hash_lengths [simp, layout_simps]:
  "hash_ok P \<Longrightarrow> length (sha3_256 P m) = 32"
  "hash_ok P \<Longrightarrow> length (sha3_512 P m) = 64"
  "hash_ok P \<Longrightarrow> length (hmac_sha3_256 P k m) = 32"
  by (simp_all add: hash_ok_def sha3_256_def sha3_512_def hmac_sha3_256_def)

lemma hkdf_extract_length [simp]: "kdf_ok P \<Longrightarrow> length (hkdf_extract P s m) = 32"
  by (simp add: kdf_ok_def hkdf_extract_def)

lemma exact_array_Inr_iff [result_simps]:
  "exact_array n field input = Inr x \<longleftrightarrow> length input = n \<and> x = input"
  by (auto simp: exact_array_def)

lemma hkdf_expand_length: "kdf_ok P \<Longrightarrow> hkdf_expand P k i n = Inr out \<Longrightarrow> length out = n"
  by (auto simp: kdf_ok_def hkdf_expand_def result_simps)

lemma hkdf_expand_total:
  "kdf_ok P \<Longrightarrow> length k = 32 \<Longrightarrow> n \<le> 255 * 32 \<Longrightarrow> \<exists>out. hkdf_expand P k i n = Inr out"
  by (auto simp: kdf_ok_def hkdf_expand_def result_simps)

lemma verify_hmac_iff:
  "hash_ok P \<Longrightarrow> verify_hmac_sha3_256 P k m t = Inr u \<longleftrightarrow> t = hmac_sha3_256 P k m"
  by (auto simp: verify_hmac_sha3_256_def hmac_sha3_256_def result_simps hash_ok_def)

text \<open>The AEAD of the suite as a canonical code of plaintexts, for one key, nonce and header.\<close>

lemma aead_open_iff:
  assumes "aead_ok P"
  shows "aead_open P k n a ct = Inr p \<longleftrightarrow> aead_seal P k n a p = Inr ct"
proof -
  have iff: "p_aead_decrypt P k n a ct = Some p \<longleftrightarrow> p_aead_encrypt P k n a p = Some ct"
    and len: "p_aead_encrypt P k n a p = Some ct \<Longrightarrow> length ct = length p + 16"
    using assms by (simp_all add: aead_ok_def)
  then show ?thesis
    by (auto simp: aead_open_def aead_seal_def result_simps)
qed

lemma aead_seal_length: "aead_ok P \<Longrightarrow> aead_seal P k n a p = Inr ct \<Longrightarrow> length ct = length p + 16"
  by (auto simp: aead_ok_def aead_seal_def result_simps)

lemma aead_seal_total:
  "aead_ok P \<Longrightarrow> length n = 12 \<Longrightarrow> length p \<le> AEAD_MESSAGE_LIMIT \<Longrightarrow>
     \<exists>ct. aead_seal P k n a p = Inr ct"
  by (auto simp: aead_ok_def aead_seal_def result_simps)

lemma aead_seal_inject:
  "aead_ok P \<Longrightarrow> aead_seal P k n a p = Inr ct \<Longrightarrow> aead_seal P k n a q = Inr ct \<Longrightarrow> p = q"
  by (metis aead_open_iff Inr_inject)

lemma dh_agree:
  "dh_ok P \<Longrightarrow>
     x25519_diffie_hellman P a (p_x25519_public P b) = x25519_diffie_hellman P b (p_x25519_public P a)"
  by (simp add: dh_ok_def x25519_diffie_hellman_def exact_array_def)

section \<open>A concrete instance\<close>

text \<open>
  Executable stand-ins for the packages that keep every promise above; the witnesses of the
  development run the model on them. Sums of bytes stand for hashes, the shared secret is the sum
  of both public values, and the sealed text is the plaintext followed by a tag.
\<close>

definition toy_digest :: "nat \<Rightarrow> bytes \<Rightarrow> bytes" where
  "toy_digest n m = replicate n (foldl (+) 1 m)"

definition toy_tag :: "bytes \<Rightarrow> bytes \<Rightarrow> bytes \<Rightarrow> bytes" where
  "toy_tag k a p = replicate 16 (foldl (+) 3 (take 1 k @ drop 24 (take 48 a) @ take 100 p))"

definition toy_prims :: CryptoPrims where
  "toy_prims = \<lparr>
     p_sha3_256 = toy_digest 32,
     p_sha3_512 = toy_digest 64,
     p_hmac_sha3_256 = (\<lambda>k m. toy_digest 32 (k @ m)),
     p_hkdf_extract = (\<lambda>s m. toy_digest 32 (s @ m)),
     p_hkdf_expand = (\<lambda>k i n. if n \<le> 255 * 32 then Some (toy_digest n (k @ i)) else None),
     p_aead_encrypt = (\<lambda>k n a p. Some (p @ toy_tag k a p)),
     p_aead_decrypt = (\<lambda>k n a ct.
        let p = take (length ct - 16) ct
        in if 16 \<le> length ct \<and> drop (length ct - 16) ct = toy_tag k a p then Some p else None),
     p_x25519_public = toy_digest 32,
     p_x25519_shared = (\<lambda>a q. replicate 32 (foldl (+) 1 a + hd (q @ [0]))),
     p_mlkem_from_seed = (\<lambda>s. (s, replicate 1184 0)),
     p_mlkem_ek_valid = (\<lambda>ek. True),
     p_mlkem_encapsulate = (\<lambda>ek r. (replicate 1088 (hd (r @ [0])), replicate 32 (hd (r @ [0])))),
     p_mlkem_decapsulate = (\<lambda>dk ct. replicate 32 (hd (ct @ [0]))),
     p_mldsa_from_seed = (\<lambda>s. (s, replicate 1952 0)),
     p_mldsa_sign = (\<lambda>sk d r. replicate 3309 (hd (d @ [0]))),
     p_mldsa_sig_valid = (\<lambda>s. True),
     p_mldsa_verify = (\<lambda>vk d s. s = replicate 3309 (hd (d @ [0])))\<rparr>"

lemma length_toy_digest [simp]: "length (toy_digest n m) = n"
  by (simp add: toy_digest_def)

lemma length_toy_tag [simp]: "length (toy_tag k a p) = 16"
  by (simp add: toy_tag_def)

lemma toy_hash_ok [simp]: "hash_ok toy_prims"
  by (simp add: hash_ok_def toy_prims_def)

lemma toy_kdf_ok [simp]: "kdf_ok toy_prims"
  by (auto simp: kdf_ok_def toy_prims_def split: if_splits)

lemma toy_aead_ok [simp]: "aead_ok toy_prims"
proof -
  have "16 \<le> length ct \<and> drop (length ct - 16) ct = toy_tag k a (take (length ct - 16) ct) \<and>
      take (length ct - 16) ct = p \<longleftrightarrow> p @ toy_tag k a p = ct" for k a p ct
    by (metis append_take_drop_id add_diff_cancel_right' append_eq_conv_conj le_add2
        length_append length_toy_tag)
  then show ?thesis
    by (auto simp: aead_ok_def toy_prims_def Let_def split: if_splits)
qed

lemma hd_replicate_append: "0 < n \<Longrightarrow> hd (replicate n x @ xs) = x"
  by (cases n) simp_all

lemma toy_dh_ok [simp]: "dh_ok toy_prims"
  by (simp add: dh_ok_def toy_prims_def toy_digest_def hd_replicate_append add.commute)

lemma toy_kem_ok [simp]: "kem_ok toy_prims"
  by (simp add: kem_ok_def toy_prims_def hd_replicate_append)

lemma toy_sig_ok [simp]: "sig_ok toy_prims"
  by (simp add: sig_ok_def toy_prims_def)

lemma toy_crypto_ok [simp]: "crypto_ok toy_prims"
  by (simp add: crypto_ok_def)

end
