(* ===== verification/Wire_Format.thy ===== *)
theory Wire_Format
  imports Core_Types
begin

text \<open>
  The crate \<open>hydra-envelope\<close>: the 64-byte outer header (\<open>outer_header.rs\<close>) and the protected
  record in its padded and its compact form (\<open>protected_record.rs\<close>), translated as the source
  writes them: a zeroed buffer filled range by range, and decoders that check every field in the
  source's order. The lemmas show that all three are canonical codes: decoding inverts encoding,
  and every accepted byte string is the encoding of what it decodes to.
\<close>

section \<open>The outer header\<close>

record OuterHeader =
  mode :: OuterMode
  envelope_class :: EnvelopeClass
  suite_id :: bytes
  route_tag :: bytes
  counter :: u64

definition OuterHeader_new :: "OuterMode \<Rightarrow> EnvelopeClass \<Rightarrow> bytes \<Rightarrow> u64 \<Rightarrow> OuterHeader" where
  "OuterHeader_new m c tag ctr =
     \<lparr>mode = m, envelope_class = c, suite_id = SUITE_ID, route_tag = tag, counter = ctr\<rparr>"

datatype WireError =
    InvalidEnvelopeSize nat nat
  | InvalidMagic
  | UnsupportedVersion u8
  | InvalidMode u8
  | InvalidEnvelopeClass u8
  | WE_UnsupportedSuite bytes
  | NonZeroReserved
  | InvalidProtectedRecord

definition encode_outer_header :: "OuterHeader \<Rightarrow> WireError + bytes" where
  "encode_outer_header header =
     (if suite_id header \<noteq> SUITE_ID then Inl (WE_UnsupportedSuite (suite_id header))
      else
        let encoded = replicate OUTER_HEADER_SIZE 0;
            encoded = write_at 0 MAGIC encoded;
            encoded = encoded[4 := PROTOCOL_VERSION];
            encoded = encoded[5 := outer_mode_u8 (mode header)];
            encoded = encoded[6 := envelope_class_u8 (envelope_class header)];
            encoded = encoded[7 := 0];
            encoded = write_at 8 (suite_id header) encoded;
            encoded = write_at 24 (route_tag header) encoded;
            encoded = write_at 40 (be_bytes 8 (counter header)) encoded
        in Inr encoded)"

definition decode_outer_header_prefix :: "bytes \<Rightarrow> WireError + OuterHeader" where
  "decode_outer_header_prefix envelope =
     rbind (ensure (OUTER_HEADER_SIZE \<le> length envelope)
              (InvalidEnvelopeSize OUTER_HEADER_SIZE (length envelope))) (\<lambda>_.
     rbind (ensure (slice 0 4 envelope = MAGIC) InvalidMagic) (\<lambda>_.
     rbind (ensure (envelope ! 4 = PROTOCOL_VERSION) (UnsupportedVersion (envelope ! 4))) (\<lambda>_.
     rbind (map_err (\<lambda>_. InvalidMode (envelope ! 5)) (outer_mode_try_from (envelope ! 5))) (\<lambda>m.
     rbind (map_err (\<lambda>_. InvalidEnvelopeClass (envelope ! 6))
              (envelope_class_try_from (envelope ! 6))) (\<lambda>c.
     rbind (ensure (envelope ! 7 = 0) NonZeroReserved) (\<lambda>_.
     rbind (ensure (slice 8 24 envelope = SUITE_ID)
              (WE_UnsupportedSuite (slice 8 24 envelope))) (\<lambda>_.
     rbind (ensure (\<not> list_ex (\<lambda>b. b \<noteq> 0) (slice 48 64 envelope)) NonZeroReserved) (\<lambda>_.
       Inr \<lparr>mode = m, envelope_class = c, suite_id = slice 8 24 envelope,
            route_tag = slice 24 40 envelope, counter = be_word (slice 40 48 envelope)\<rparr>))))))))"

definition validate_envelope_length :: "EnvelopeClass \<Rightarrow> nat \<Rightarrow> WireError + unit" where
  "validate_envelope_length c actual =
     ensure (actual = envelope_size c) (InvalidEnvelopeSize (envelope_size c) actual)"

definition decode_outer_header :: "bytes \<Rightarrow> WireError + OuterHeader" where
  "decode_outer_header envelope =
     rbind (decode_outer_header_prefix envelope) (\<lambda>header.
     rbind (validate_envelope_length (envelope_class header) (length envelope)) (\<lambda>_.
       Inr header))"

section \<open>The protected record\<close>

record ProtectedRecord =
  content_kind :: ContentKind
  session_or_group_id :: bytes
  sender_id :: bytes
  epoch :: u64
  state_version :: u64
  message_index :: u64
  content :: bytes

text \<open>The 96 bytes of inner header, written into a zeroed buffer, and the content after it.\<close>

definition write_record :: "ProtectedRecord \<Rightarrow> u32 \<Rightarrow> bytes \<Rightarrow> bytes" where
  "write_record r content_len encoded =
     (let encoded = encoded[0 := content_kind_u8 (content_kind r)];
          encoded = write_at 4 (session_or_group_id r) encoded;
          encoded = write_at 36 (sender_id r) encoded;
          encoded = write_at 68 (be_bytes 8 (epoch r)) encoded;
          encoded = write_at 76 (be_bytes 8 (state_version r)) encoded;
          encoded = write_at 84 (be_bytes 8 (message_index r)) encoded;
          encoded = write_at 92 (be_bytes 4 content_len) encoded
      in write_at INNER_HEADER_SIZE (content r) encoded)"

definition encode_protected_record :: "EnvelopeClass \<Rightarrow> ProtectedRecord \<Rightarrow> WireError + bytes" where
  "encode_protected_record c r =
     rbind (ensure (length (content r) \<le> max_content_size c) InvalidProtectedRecord) (\<lambda>_.
     rbind (ok_or (u32_try_from (length (content r))) InvalidProtectedRecord) (\<lambda>content_len.
       Inr (write_record r content_len (replicate (protected_record_size c) 0))))"

text \<open>The fields of a record whose content ends at \<open>content_end\<close>.\<close>

definition read_record :: "ContentKind \<Rightarrow> nat \<Rightarrow> bytes \<Rightarrow> ProtectedRecord" where
  "read_record kind content_end encoded =
     \<lparr>content_kind = kind,
      session_or_group_id = slice 4 36 encoded,
      sender_id = slice 36 68 encoded,
      epoch = be_word (slice 68 76 encoded),
      state_version = be_word (slice 76 84 encoded),
      message_index = be_word (slice 84 92 encoded),
      content = slice INNER_HEADER_SIZE content_end encoded\<rparr>"

definition decode_protected_record :: "EnvelopeClass \<Rightarrow> bytes \<Rightarrow> WireError + ProtectedRecord" where
  "decode_protected_record c encoded =
     rbind (ensure (length encoded = protected_record_size c)
              (InvalidEnvelopeSize (protected_record_size c) (length encoded))) (\<lambda>_.
     rbind (map_err (\<lambda>_. InvalidProtectedRecord) (content_kind_try_from (encoded ! 0))) (\<lambda>kind.
     rbind (ensure (\<not> list_ex (\<lambda>b. b \<noteq> 0) (slice 1 4 encoded)) InvalidProtectedRecord) (\<lambda>_.
       let content_len = unat (be_word (slice 92 96 encoded) :: u32) in
       rbind (ok_or (checked_add_usize INNER_HEADER_SIZE content_len) InvalidProtectedRecord)
         (\<lambda>content_end.
       rbind (ensure (\<not> (max_content_size c < content_len \<or> length encoded < content_end \<or>
                 list_ex (\<lambda>b. b \<noteq> 0) (drop content_end encoded))) InvalidProtectedRecord) (\<lambda>_.
         Inr (read_record kind content_end encoded))))))"

definition encode_compact_protected_record :: "ProtectedRecord \<Rightarrow> WireError + bytes" where
  "encode_compact_protected_record r =
     rbind (ok_or (u32_try_from (length (content r))) InvalidProtectedRecord) (\<lambda>content_len.
     rbind (ok_or (checked_add_usize INNER_HEADER_SIZE (length (content r)))
              InvalidProtectedRecord) (\<lambda>total_len.
       Inr (write_record r content_len (replicate total_len 0))))"

definition decode_compact_protected_record :: "bytes \<Rightarrow> WireError + ProtectedRecord" where
  "decode_compact_protected_record encoded =
     rbind (ensure (INNER_HEADER_SIZE \<le> length encoded) InvalidProtectedRecord) (\<lambda>_.
     rbind (map_err (\<lambda>_. InvalidProtectedRecord) (content_kind_try_from (encoded ! 0))) (\<lambda>kind.
     rbind (ensure (\<not> list_ex (\<lambda>b. b \<noteq> 0) (slice 1 4 encoded)) InvalidProtectedRecord) (\<lambda>_.
       let content_len = unat (be_word (slice 92 96 encoded) :: u32) in
       rbind (ok_or (checked_add_usize INNER_HEADER_SIZE content_len) InvalidProtectedRecord)
         (\<lambda>expected_len.
       rbind (ensure (length encoded = expected_len) InvalidProtectedRecord) (\<lambda>_.
         Inr (read_record kind (length encoded) encoded))))))"

section \<open>Well-formed headers and records\<close>

text \<open>The source's array types: a 16-byte route tag, 32-byte identifiers.\<close>

definition header_ok :: "OuterHeader \<Rightarrow> bool" where
  "header_ok h \<longleftrightarrow> suite_id h = SUITE_ID \<and> length (route_tag h) = 16"

definition record_ids_ok :: "ProtectedRecord \<Rightarrow> bool" where
  "record_ids_ok r \<longleftrightarrow> length (session_or_group_id r) = 32 \<and> length (sender_id r) = 32"

definition record_ok :: "EnvelopeClass \<Rightarrow> ProtectedRecord \<Rightarrow> bool" where
  "record_ok c r \<longleftrightarrow> record_ids_ok r \<and> length (content r) \<le> max_content_size c"

definition compact_record_ok :: "ProtectedRecord \<Rightarrow> bool" where
  "compact_record_ok r \<longleftrightarrow> record_ids_ok r \<and> length (content r) \<le> u32_max"

text \<open>The layouts as concatenations of their fields.\<close>

definition header_layout :: "OuterHeader \<Rightarrow> bytes" where
  "header_layout h = MAGIC @ [PROTOCOL_VERSION, outer_mode_u8 (mode h),
     envelope_class_u8 (envelope_class h), 0] @ suite_id h @ route_tag h @
     be_bytes 8 (counter h) @ replicate 16 0"

definition record_layout :: "ProtectedRecord \<Rightarrow> bytes" where
  "record_layout r = [content_kind_u8 (content_kind r), 0, 0, 0] @ session_or_group_id r @
     sender_id r @ be_bytes 8 (epoch r) @ be_bytes 8 (state_version r) @
     be_bytes 8 (message_index r) @ be_bytes 4 (of_nat (length (content r)) :: u32) @ content r"

section \<open>Header lemmas\<close>

lemma length_header_layout: "header_ok h \<Longrightarrow> length (header_layout h) = 64"
  by (simp add: header_layout_def header_ok_def)

lemma encode_outer_header_layout:
  assumes "header_ok h"
  shows "encode_outer_header h = Inr (header_layout h)"
proof -
  have lens: "length (suite_id h) = 16" "length (route_tag h) = 16"
    using assms by (simp_all add: header_ok_def)
  show ?thesis
    using assms lens
    by (simp add: encode_outer_header_def header_layout_def header_ok_def Let_def
        list_update_write_at layout_simps)
qed

lemma zero_bytes_iff: "\<not> list_ex (\<lambda>b. b \<noteq> 0) bs \<longleftrightarrow> bs = replicate (length bs) (0 :: u8)"
  by (metis (mono_tags) list_ex_iff in_set_replicate replicate_eqI)

lemma decode_header_layout:
  assumes ok: "header_ok h"
  shows "decode_outer_header_prefix (header_layout h @ body) = Inr h"
proof -
  have lens: "length (suite_id h) = 16" "suite_id h = SUITE_ID" "length (route_tag h) = 16"
    using ok by (simp_all add: header_ok_def)
  define e where "e = header_layout h @ body"
  have fields: "slice 0 4 e = MAGIC" "e ! 4 = PROTOCOL_VERSION" "e ! 5 = outer_mode_u8 (mode h)"
      "e ! 6 = envelope_class_u8 (envelope_class h)" "e ! 7 = 0" "slice 8 24 e = SUITE_ID"
      "slice 24 40 e = route_tag h" "slice 40 48 e = be_bytes 8 (counter h)"
      "slice 48 64 e = replicate 16 0" "64 \<le> length e"
    using lens by (simp_all add: e_def header_layout_def slice_def nth_append)
  then have "decode_outer_header_prefix e = Inr h"
    using lens
    by (simp add: decode_outer_header_prefix_def outer_mode.try_to envelope_class.try_to list_ex_iff)
  then show ?thesis by (simp add: e_def)
qed

lemma slice_chain_header:
  "64 \<le> length e \<Longrightarrow> take 64 e = slice 0 4 e @ [e ! 4, e ! 5, e ! 6, e ! 7] @ slice 8 24 e @
     slice 24 40 e @ slice 40 48 e @ slice 48 64 e"
proof -
  assume "64 \<le> length e"
  then have "[e ! 4, e ! 5, e ! 6, e ! 7] = slice 4 5 e @ slice 5 6 e @ slice 6 7 e @ slice 7 8 e"
    using slice_single [of 4 e] slice_single [of 5 e] slice_single [of 6 e] slice_single [of 7 e]
    by simp
  then show ?thesis
    by (simp add: slice_join slice_def [of 0 64])
qed

lemma decode_outer_header_prefixD:
  assumes dec: "decode_outer_header_prefix e = Inr h"
  shows "header_ok h" and "64 \<le> length e" and "take 64 e = header_layout h"
proof -
  show len: "64 \<le> length e"
    using dec by (auto simp: decode_outer_header_prefix_def result_simps)
  have tag: "length (slice 24 40 e) = 16" and ctr: "length (slice 40 48 e) = 8"
    and res: "length (slice 48 64 e) = 16"
    using len by (simp_all add: length_slice)
  show ok: "header_ok h"
    using dec tag by (auto simp: decode_outer_header_prefix_def result_simps header_ok_def)
  have "slice 48 64 e = replicate 16 0"
    using dec res by (auto simp: decode_outer_header_prefix_def result_simps zero_bytes_iff)
  then show "take 64 e = header_layout h"
    using dec ctr slice_chain_header [OF len]
    by (auto simp: decode_outer_header_prefix_def result_simps header_layout_def
        be_bytes_be_word_u64 outer_mode.try_from_iff envelope_class.try_from_iff)
qed

text \<open>
  A complete fixed-class envelope is a header and a body whose length the class fixes; decoding
  returns the header and the encoder reproduces the 64 bytes.
\<close>

lemma decode_outer_header_iff:
  "decode_outer_header e = Inr h \<longleftrightarrow>
     header_ok h \<and> length e = envelope_size (envelope_class h) \<and> take 64 e = header_layout h"
proof
  assume "decode_outer_header e = Inr h"
  then show "header_ok h \<and> length e = envelope_size (envelope_class h) \<and> take 64 e = header_layout h"
    by (auto simp: decode_outer_header_def validate_envelope_length_def result_simps
        dest: decode_outer_header_prefixD)
next
  assume a: "header_ok h \<and> length e = envelope_size (envelope_class h) \<and> take 64 e = header_layout h"
  then have "decode_outer_header_prefix e = Inr h"
    using decode_header_layout [of h "drop 64 e"] by (metis append_take_drop_id)
  then show "decode_outer_header e = Inr h"
    using a by (simp add: decode_outer_header_def validate_envelope_length_def)
qed

lemma decode_outer_header_prefix_iff:
  "decode_outer_header_prefix e = Inr h \<longleftrightarrow> header_ok h \<and> take 64 e = header_layout h"
  using decode_outer_header_prefixD decode_header_layout [of h "drop 64 e"]
  by (metis append_take_drop_id)

text \<open>An envelope is a header and a body whose length the class byte fixes.\<close>

definition encode_envelope :: "OuterHeader \<times> bytes \<Rightarrow> WireError + bytes" where
  "encode_envelope hb = rbind (encode_outer_header (fst hb)) (\<lambda>encoded. Inr (encoded @ snd hb))"

definition decode_envelope :: "bytes \<Rightarrow> WireError + (OuterHeader \<times> bytes)" where
  "decode_envelope e = rbind (decode_outer_header e) (\<lambda>h. Inr (h, drop OUTER_HEADER_SIZE e))"

definition envelope_ok :: "OuterHeader \<times> bytes \<Rightarrow> bool" where
  "envelope_ok hb \<longleftrightarrow> header_ok (fst hb) \<and> length (snd hb) = body_size (envelope_class (fst hb))"

lemma envelope_size_body: "envelope_size c = 64 + body_size c"
  by (cases c) (simp_all add: body_size_def)

interpretation envelope: canonical_codec encode_envelope decode_envelope envelope_ok
proof unfold_locales
  fix hb b assume "envelope_ok hb" and "encode_envelope hb = Inr b"
  then show "decode_envelope b = Inr hb"
    by (cases hb) (auto simp: envelope_ok_def encode_envelope_def decode_envelope_def
        encode_outer_header_layout decode_outer_header_iff length_header_layout
        envelope_size_body result_simps)
next
  fix b hb assume "decode_envelope b = Inr hb"
  then obtain h where h: "decode_outer_header b = Inr h" and hb: "hb = (h, drop 64 b)"
    by (auto simp: decode_envelope_def result_simps)
  then have "header_ok h" "length b = envelope_size (envelope_class h)" "take 64 b = header_layout h"
    by (simp_all add: decode_outer_header_iff)
  then show "envelope_ok hb \<and> encode_envelope hb = Inr b"
    using hb append_take_drop_id [of 64 b]
    by (simp add: envelope_ok_def encode_envelope_def encode_outer_header_layout envelope_size_body)
qed

section \<open>Record lemmas\<close>

lemma length_record_layout: "record_ids_ok r \<Longrightarrow> length (record_layout r) = 96 + length (content r)"
  by (simp add: record_layout_def record_ids_ok_def)

lemma write_record_layout:
  assumes ids: "record_ids_ok r" and room: "96 + length (content r) \<le> n"
  shows "write_record r (of_nat (length (content r))) (replicate n 0) =
    record_layout r @ replicate (n - (96 + length (content r))) 0"
proof -
  have lens: "length (session_or_group_id r) = 32" "length (sender_id r) = 32"
    using ids by (simp_all add: record_ids_ok_def)
  obtain m where n: "n = 96 + (length (content r) + m)"
    using room by (metis le_Suc_ex add.assoc)
  have three: "replicate 3 (0 :: u8) = [0, 0, 0]"
    by (simp add: numeral_eq_Suc)
  show ?thesis
    unfolding n write_record_def record_layout_def
    by (simp add: Let_def list_update_write_at layout_simps lens three)
qed

text \<open>Reading the fields back from a record laid out in front of any bytes.\<close>

lemma record_layout_fields:
  assumes ids: "record_ids_ok r" and len: "length (content r) \<le> u32_max"
    and e_def: "e = record_layout r @ pad"
  shows "e ! 0 = content_kind_u8 (content_kind r)" and "slice 1 4 e = [0, 0, 0]"
    and "unat (be_word (slice 92 96 e) :: u32) = length (content r)"
    and "read_record (content_kind r) (96 + length (content r)) e = r"
    and "drop (96 + length (content r)) e = pad"
proof -
  have lens: "length (session_or_group_id r) = 32" "length (sender_id r) = 32"
    using ids by (simp_all add: record_ids_ok_def)
  show "e ! 0 = content_kind_u8 (content_kind r)" "slice 1 4 e = [0, 0, 0]"
    by (simp_all add: e_def record_layout_def slice_def)
  have "slice 92 96 e = be_bytes 4 (of_nat (length (content r)) :: u32)"
    by (simp add: e_def record_layout_def slice_def lens)
  then show "unat (be_word (slice 92 96 e) :: u32) = length (content r)"
    using len by (simp add: unat_of_nat_u32)
  show "read_record (content_kind r) (96 + length (content r)) e = r"
    by (simp add: e_def record_layout_def read_record_def slice_def lens)
  show "drop (96 + length (content r)) e = pad"
    by (simp add: e_def length_record_layout [OF ids])
qed

lemma slice_chain_record:
  assumes "96 \<le> k" and "k \<le> length e"
  shows "e = [e ! 0] @ slice 1 4 e @ slice 4 36 e @ slice 36 68 e @ slice 68 76 e @ slice 76 84 e @
     slice 84 92 e @ slice 92 96 e @ slice 96 k e @ drop k e"
proof -
  have "e = take k e @ drop k e" by simp
  moreover have "take k e = slice 0 1 e @ slice 1 k e"
    using assms by (simp add: slice_join) (simp add: slice_def)
  moreover have "slice 0 1 e = [e ! 0]"
    using slice_single [of 0 e] assms by (cases e) simp_all
  moreover have "slice 1 k e = slice 1 4 e @ slice 4 36 e @ slice 36 68 e @ slice 68 76 e @
      slice 76 84 e @ slice 84 92 e @ slice 92 96 e @ slice 96 k e"
    using assms by (simp add: slice_join)
  ultimately show ?thesis by simp
qed

lemma length_three_zero: "\<not> list_ex (\<lambda>b. b \<noteq> 0) bs \<Longrightarrow> length bs = 3 \<Longrightarrow> bs = [0, 0, 0 :: u8]"
  by (simp add: zero_bytes_iff numeral_eq_Suc)

lemma read_record_layout:
  assumes kind: "content_kind_try_from (e ! 0) = Inr kind"
    and zeros: "\<not> list_ex (\<lambda>b. b \<noteq> 0) (slice 1 4 e)"
    and len: "k = 96 + unat (be_word (slice 92 96 e) :: u32)" and k: "k \<le> length e"
  shows "record_ids_ok (read_record kind k e)"
    and "length (content (read_record kind k e)) = k - 96"
    and "e = record_layout (read_record kind k e) @ drop k e"
proof -
  have ge: "96 \<le> k" using len by simp
  have lens: "length (slice i j e) = j - i" if "i \<le> j" "j \<le> k" for i j
    using that k by (simp add: length_slice)
  show "record_ids_ok (read_record kind k e)"
    using ge by (simp add: record_ids_ok_def read_record_def lens)
  show cl: "length (content (read_record kind k e)) = k - 96"
    using ge by (simp add: read_record_def lens)
  have "of_nat (k - 96) = (be_word (slice 92 96 e) :: u32)"
    using len by simp
  then have clen: "be_bytes 4 (of_nat (k - 96) :: u32) = slice 92 96 e"
    using ge by (simp add: be_bytes_be_word_u32 lens)
  have ints: "be_bytes 8 (be_word (slice i j e) :: u64) = slice i j e"
    if "j = i + 8" "j \<le> 96" for i j
    using that ge by (intro be_bytes_be_word_u64) (simp add: lens)
  have z: "slice 1 4 e = [0, 0, 0]"
    using zeros ge by (intro length_three_zero) (simp_all add: lens)
  have "record_layout (read_record kind k e) @ drop k e = [e ! 0] @ slice 1 4 e @ slice 4 36 e @
      slice 36 68 e @ slice 68 76 e @ slice 76 84 e @ slice 84 92 e @ slice 92 96 e @
      slice 96 k e @ drop k e"
    using kind cl clen z
    by (simp add: record_layout_def read_record_def ints content_kind.try_from_iff)
  then show "e = record_layout (read_record kind k e) @ drop k e"
    using slice_chain_record [OF ge k] by simp
qed

lemma usize_add_u32: "n \<le> u32_max \<Longrightarrow> checked_add_usize 96 n = Some (96 + n)"
  by (simp add: checked_add_usize_def usize_max_def u32_max_def)

lemma unat_le_u32_max: "unat (w :: u32) \<le> u32_max"
  using unsigned_less [of w, where ?'a = nat] by (simp add: u32_max_def)

lemma encode_protected_record_layout:
  assumes "record_ok c r"
  shows "encode_protected_record c r =
    Inr (record_layout r @ replicate (max_content_size c - length (content r)) 0)"
proof -
  have len: "length (content r) \<le> max_content_size c" and ids: "record_ids_ok r"
    using assms by (simp_all add: record_ok_def)
  have "length (content r) \<le> u32_max"
    using len max_content_size_bound order_trans by blast
  then show ?thesis
    using len write_record_layout [OF ids, of "protected_record_size c"]
    by (simp add: encode_protected_record_def u32_try_from_def protected_record_size_split)
qed

lemma encode_protected_record_Inr_iff:
  "record_ids_ok r \<Longrightarrow> encode_protected_record c r = Inr b \<longleftrightarrow>
     record_ok c r \<and> b = record_layout r @ replicate (max_content_size c - length (content r)) 0"
  using encode_protected_record_layout [of c r]
  by (auto simp: encode_protected_record_def record_ok_def result_simps)

interpretation protected_record: canonical_codec "encode_protected_record c"
  "decode_protected_record c" record_ids_ok for c
proof unfold_locales
  fix r b assume ids: "record_ids_ok r" and "encode_protected_record c r = Inr b"
  then have ok: "record_ok c r" and
    b: "b = record_layout r @ replicate (max_content_size c - length (content r)) 0"
    by (simp_all add: encode_protected_record_Inr_iff)
  have len: "length (content r) \<le> max_content_size c" using ok by (simp add: record_ok_def)
  then have len32: "length (content r) \<le> u32_max"
    using max_content_size_bound order_trans by blast
  note f = record_layout_fields [OF ids len32 b]
  have lb: "length b = protected_record_size c"
    using len by (simp add: b length_record_layout [OF ids] protected_record_size_split)
  show "decode_protected_record c b = Inr r"
    using f len lb len32
    by (simp add: decode_protected_record_def content_kind.try_to usize_add_u32 list_ex_iff
        protected_record_size_split)
next
  fix b r assume dec: "decode_protected_record c b = Inr r"
  define k where "k = 96 + unat (be_word (slice 92 96 b) :: u32)"
  have k: "checked_add_usize 96 (unat (be_word (slice 92 96 b) :: u32)) = Some k"
    unfolding k_def by (rule usize_add_u32 [OF unat_le_u32_max])
  obtain kind where kind: "content_kind_try_from (b ! 0) = Inr kind"
    and zeros: "\<not> list_ex (\<lambda>b. b \<noteq> 0) (slice 1 4 b)" and kb: "k \<le> length b"
    and lb: "length b = protected_record_size c" and max: "k - 96 \<le> max_content_size c"
    and pad: "\<not> list_ex (\<lambda>b. b \<noteq> 0) (drop k b)" and r: "r = read_record kind k b"
    using dec k by (auto simp: decode_protected_record_def Let_def result_simps k_def not_less)
  note l = read_record_layout [OF kind zeros k_def kb, folded r]
  have "drop k b = replicate (max_content_size c - length (content r)) 0"
    using pad lb l(2) k_def by (simp add: zero_bytes_iff protected_record_size_split)
  then show "record_ids_ok r \<and> encode_protected_record c r = Inr b"
    using l max by (simp add: encode_protected_record_Inr_iff record_ok_def)
qed

lemma encode_compact_Inr_iff:
  "record_ids_ok r \<Longrightarrow> encode_compact_protected_record r = Inr b \<longleftrightarrow>
     length (content r) \<le> u32_max \<and> b = record_layout r"
  using write_record_layout [of r "96 + length (content r)"]
  by (auto simp: encode_compact_protected_record_def u32_try_from_def usize_add_u32 result_simps
      split: if_splits)

interpretation compact_record: canonical_codec encode_compact_protected_record
  decode_compact_protected_record record_ids_ok
proof unfold_locales
  fix r b assume ids: "record_ids_ok r" and "encode_compact_protected_record r = Inr b"
  then have len32: "length (content r) \<le> u32_max" and b: "b = record_layout r @ []"
    by (simp_all add: encode_compact_Inr_iff)
  note f = record_layout_fields [OF ids len32 b]
  have lb: "length b = 96 + length (content r)"
    by (simp add: b length_record_layout [OF ids])
  show "decode_compact_protected_record b = Inr r"
    using f lb len32
    by (simp add: decode_compact_protected_record_def content_kind.try_to usize_add_u32 list_ex_iff)
next
  fix b r assume dec: "decode_compact_protected_record b = Inr r"
  define k where "k = 96 + unat (be_word (slice 92 96 b) :: u32)"
  have k: "checked_add_usize 96 (unat (be_word (slice 92 96 b) :: u32)) = Some k"
    unfolding k_def by (rule usize_add_u32 [OF unat_le_u32_max])
  obtain kind where kind: "content_kind_try_from (b ! 0) = Inr kind"
    and zeros: "\<not> list_ex (\<lambda>b. b \<noteq> 0) (slice 1 4 b)" and kb: "k = length b"
    and r: "r = read_record kind k b"
    using dec k by (auto simp: decode_compact_protected_record_def Let_def result_simps)
  have "length (content r) \<le> u32_max"
    using read_record_layout(2) [OF kind zeros k_def, folded r] kb k_def
      unat_le_u32_max [of "be_word (slice 92 96 b)"] by linarith
  then show "record_ids_ok r \<and> encode_compact_protected_record r = Inr b"
    using read_record_layout [OF kind zeros k_def, folded r] kb by (simp add: encode_compact_Inr_iff)
qed


section \<open>Properties\<close>

text \<open>C37: The outer header is canonical: a byte string is accepted as an envelope with header \<open>h\<close>
  exactly when it has the length of the header's class and its first 64 bytes are the encoding of
  \<open>h\<close>; so decoding inverts encoding, and no accepted header has a second form.\<close>

theorem outer_header_canonical:
  "decode_outer_header e = Inr h \<longleftrightarrow>
     header_ok h \<and> length e = envelope_size (envelope_class h) \<and>
     encode_outer_header h = Inr (take OUTER_HEADER_SIZE e)"
  using encode_outer_header_layout [of h] by (auto simp: decode_outer_header_iff)

text \<open>C38: The padded protected record is canonical in every class: a plaintext decodes to a record
  exactly when it is the encoding of that record, with its padding all zero.\<close>

theorem protected_record_canonical:
  "decode_protected_record c b = Inr r \<longleftrightarrow> record_ids_ok r \<and> encode_protected_record c r = Inr b"
  by (rule protected_record.dec_accepts_iff)

text \<open>The compact record is canonical: a plaintext of any length decodes to a record exactly
  when it is the encoding of that record.\<close>

theorem compact_record_canonical:
  "decode_compact_protected_record b = Inr r \<longleftrightarrow>
     record_ids_ok r \<and> encode_compact_protected_record r = Inr b"
  by (rule compact_record.dec_accepts_iff)

end
