(* ===== verification/Session_Ratchet.thy ===== *)
theory Session_Ratchet
  imports Ratchet Crypto_Backend Wire_Format
begin

text \<open>
  Key derivation of \<open>hydra-session\<close>: \<open>error.rs\<close>, \<open>key_derivation.rs\<close> (the labelled HKDF
  expansion and the initial secrets) and \<open>ratchet.rs\<close> (the direction chain, one ratchet step with
  its message key, next chain key, AEAD key and route tag, and the constant-time tag comparison).
  The derivation satisfies the contract of locale \<open>ratchet\<close>.
\<close>

datatype SessionError =
    SE_InvalidState | SE_InvalidEnvelope | SE_InvalidPayload | SE_AuthenticationFailed
  | SE_ReplayDetected | SE_MessageTooOld | SE_MessageTooFarAhead | SE_CounterExhausted
  | SE_SkippedKeyLimit | SE_RefreshConflict

section \<open>Labelled expansion\<close>

definition info :: "bytes \<Rightarrow> bytes \<Rightarrow> bytes" where
  "info label context =
     be_bytes 4 (of_nat (length label) :: u32) @ label @
     be_bytes 4 (of_nat (length context) :: u32) @ context"

definition expand32 ::
    "CryptoPrims \<Rightarrow> Secret32 \<Rightarrow> bytes \<Rightarrow> bytes \<Rightarrow> SessionError + Secret32" where
  "expand32 P key label context =
     rbind (map_err (\<lambda>_. SE_InvalidState) (hkdf_expand P key (info label context) 32)) (\<lambda>output.
     rbind (ensure (length output = 32) SE_InvalidState) (\<lambda>_.
       Inr output))"

record InitialSessionSecrets =
  is_session_id :: bytes
  is_chain_i2r :: Secret32
  is_chain_r2i :: Secret32
  is_refresh_root :: Secret32

definition LABEL_SESSION_ID :: bytes where
  "LABEL_SESSION_ID = ascii ''HYDRA-MSG/v1/session-id''"

definition LABEL_INIT_I2R :: bytes where
  "LABEL_INIT_I2R = ascii ''HYDRA-MSG/v1/init-chain/i2r''"

definition LABEL_INIT_R2I :: bytes where
  "LABEL_INIT_R2I = ascii ''HYDRA-MSG/v1/init-chain/r2i''"

definition LABEL_REFRESH_ROOT :: bytes where
  "LABEL_REFRESH_ROOT = ascii ''HYDRA-MSG/v1/refresh-root''"

definition derive_initial_secrets ::
    "CryptoPrims \<Rightarrow> Secret32 \<Rightarrow> bytes \<Rightarrow> SessionError + InitialSessionSecrets" where
  "derive_initial_secrets P handshake_secret transcript_hash =
     (let expand = (\<lambda>label. expand32 P handshake_secret label transcript_hash) in
      rbind (expand LABEL_SESSION_ID) (\<lambda>sid.
      rbind (expand LABEL_INIT_I2R) (\<lambda>chain_i2r.
      rbind (expand LABEL_INIT_R2I) (\<lambda>chain_r2i.
      rbind (expand LABEL_REFRESH_ROOT) (\<lambda>refresh_root.
        Inr \<lparr>is_session_id = sid, is_chain_i2r = chain_i2r, is_chain_r2i = chain_r2i,
             is_refresh_root = refresh_root\<rparr>)))))"

section \<open>The ratchet\<close>

definition LABEL_AEAD_KEY :: bytes where
  "LABEL_AEAD_KEY = ascii ''HYDRA-MSG/v1/aead-key''"

definition LABEL_ROUTE_TAG :: bytes where
  "LABEL_ROUTE_TAG = ascii ''HYDRA-MSG/v1/route-tag''"

record DirectionChain =
  chain_key :: Secret32
  next_index :: u64

definition DirectionChain_new :: "Secret32 \<Rightarrow> DirectionChain" where
  "DirectionChain_new key = \<lparr>chain_key = key, next_index = 0\<rparr>"

definition chain_install :: "DirectionChain \<Rightarrow> Secret32 \<Rightarrow> u64 \<Rightarrow> DirectionChain" where
  "chain_install c key i = c\<lparr>chain_key := key, next_index := i\<rparr>"

record RatchetStep =
  message_key :: Secret32
  next_chain_key :: Secret32
  aead_key :: Secret32
  step_route_tag :: bytes

text \<open>The 40-byte context: 32 bytes of session id and the big-endian index.\<close>

definition step_context :: "bytes \<Rightarrow> u64 \<Rightarrow> bytes" where
  "step_context session_id index =
     write_at 32 (be_bytes 8 index) (write_at 0 session_id (replicate 40 0))"

definition derive_aead_key ::
    "CryptoPrims \<Rightarrow> Secret32 \<Rightarrow> bytes \<Rightarrow> u64 \<Rightarrow> SessionError + Secret32" where
  "derive_aead_key P key session_id index =
     expand32 P key LABEL_AEAD_KEY (step_context session_id index)"

definition derive_route_tag :: "CryptoPrims \<Rightarrow> Secret32 \<Rightarrow> bytes \<Rightarrow> u64 \<Rightarrow> bytes" where
  "derive_route_tag P key session_id index =
     slice 0 16 (hmac_sha3_256 P key (LABEL_ROUTE_TAG @ session_id @ be_bytes 8 index))"

definition derive_step ::
    "CryptoPrims \<Rightarrow> bytes \<Rightarrow> Secret32 \<Rightarrow> u64 \<Rightarrow> SessionError + RatchetStep" where
  "derive_step P session_id key index =
     (let context = step_context session_id index in
      rbind (expand32 P key LABEL_MESSAGE_KEY context) (\<lambda>message_key.
      rbind (expand32 P key LABEL_CHAIN_STEP context) (\<lambda>next_chain_key.
      rbind (derive_aead_key P message_key session_id index) (\<lambda>aead_key.
        Inr \<lparr>message_key = message_key, next_chain_key = next_chain_key, aead_key = aead_key,
             step_route_tag = derive_route_tag P message_key session_id index\<rparr>))))"

definition constant_time_tag_eq :: "bytes \<Rightarrow> bytes \<Rightarrow> bool" where
  "constant_time_tag_eq left right = (differences left right = 0)"

section \<open>Lemmas\<close>

lemma expand32_length: "expand32 P k l c = Inr out \<Longrightarrow> length out = 32"
  by (auto simp: expand32_def result_simps)

lemma expand32_total: "kdf_ok P \<Longrightarrow> length k = 32 \<Longrightarrow> \<exists>out. expand32 P k l c = Inr out"
  using hkdf_expand_total [of P k 32 "info l c"] hkdf_expand_length [of P k "info l c" 32]
  by (auto simp: expand32_def result_simps)

lemma expand32_error: "expand32 P k l c = Inl e \<Longrightarrow> e = SE_InvalidState"
  by (auto simp: expand32_def rbind_Inl_iff map_err_Inl_iff ensure_Inl_iff)

lemma derive_step_total:
  assumes "kdf_ok P" and "length k = 32"
  shows "\<exists>s. derive_step P sid k i = Inr s"
proof -
  obtain mk where mk: "expand32 P k LABEL_MESSAGE_KEY (step_context sid i) = Inr mk"
    using expand32_total [OF assms] by blast
  moreover obtain nk where "expand32 P k LABEL_CHAIN_STEP (step_context sid i) = Inr nk"
    using expand32_total [OF assms] by blast
  moreover obtain ak where "derive_aead_key P mk sid i = Inr ak"
    using expand32_total [OF assms(1) expand32_length [OF mk]] by (auto simp: derive_aead_key_def)
  ultimately show ?thesis by (simp add: derive_step_def)
qed

lemma derive_stepD:
  assumes "derive_step P sid k i = Inr s"
  shows "length (message_key s) = 32" and "length (next_chain_key s) = 32"
    and "length (aead_key s) = 32"
    and "derive_aead_key P (message_key s) sid i = Inr (aead_key s)"
    and "step_route_tag s = derive_route_tag P (message_key s) sid i"
  using assms
  by (auto simp: derive_step_def derive_aead_key_def Let_def result_simps dest: expand32_length)

lemma derive_step_error: "derive_step P sid k i = Inl e \<Longrightarrow> e = SE_InvalidState"
  by (auto simp: derive_step_def derive_aead_key_def Let_def rbind_Inl_iff dest: expand32_error)

lemma route_tag_length: "hash_ok P \<Longrightarrow> length (derive_route_tag P k sid i) = 16"
  by (simp add: derive_route_tag_def slice_def)

lemma constant_time_tag_eq_iff: "length l = length r \<Longrightarrow> constant_time_tag_eq l r \<longleftrightarrow> l = r"
  by (simp add: constant_time_tag_eq_def differences_zero_iff)

interpretation session_ratchet: ratchet "derive_step P sid" next_chain_key
  "\<lambda>k. kdf_ok P \<and> length k = 32" for P sid
  by unfold_locales (use derive_step_total derive_stepD(2) in blast)

lemma derive_initial_secrets_total:
  assumes "kdf_ok P" and "length k = 32"
  shows "\<exists>s. derive_initial_secrets P k t = Inr s"
proof -
  have "\<forall>l. \<exists>out. expand32 P k l t = Inr out"
    using expand32_total [OF assms] by blast
  then obtain f where "\<And>l. expand32 P k l t = Inr (f l)"
    by metis
  then show ?thesis by (simp add: derive_initial_secrets_def Let_def)
qed

lemma derive_initial_secretsD:
  assumes "derive_initial_secrets P k t = Inr s"
  shows "length (is_session_id s) = 32" and "length (is_chain_i2r s) = 32"
    and "length (is_chain_r2i s) = 32" and "length (is_refresh_root s) = 32"
  using assms by (auto simp: derive_initial_secrets_def Let_def result_simps dest: expand32_length)

end
