(* ===== verification/Skipped_Keys.thy ===== *)
theory Skipped_Keys
  imports Session_Ratchet
begin

text \<open>
  The bounded store of message keys for skipped indices (\<open>hydra-session/src/skipped_keys.rs\<close>): a
  vector searched linearly by session, direction and index. Locale \<open>one_time_store\<close> is what the
  receive path relies on: the vector behaves like a finite map, and a key that is removed is gone.
\<close>

section \<open>The store\<close>

datatype Direction = InitiatorToResponder | ResponderToInitiator

record SkippedMessageKey =
  sk_session_id :: bytes
  sk_direction :: Direction
  sk_index :: u64
  sk_key :: Secret32

record SkippedKeyStore =
  entries :: "SkippedMessageKey list"

definition store_default :: SkippedKeyStore where
  "store_default = \<lparr>entries = []\<rparr>"

definition store_len :: "SkippedKeyStore \<Rightarrow> nat" where
  "store_len st = length (entries st)"

definition ensure_capacity_for :: "SkippedKeyStore \<Rightarrow> nat \<Rightarrow> SessionError + unit" where
  "ensure_capacity_for st additional =
     (if (case checked_add_usize (length (entries st)) additional of
            None \<Rightarrow> True | Some n \<Rightarrow> MAX_SKIP < n)
      then Inl SE_SkippedKeyLimit else Inr ())"

definition commit_batch ::
    "SkippedKeyStore \<Rightarrow> bytes \<Rightarrow> Direction \<Rightarrow> (u64 \<times> Secret32) list \<Rightarrow> SkippedKeyStore" where
  "commit_batch st session_id direction batch =
     st\<lparr>entries := entries st @
          map (\<lambda>(index, key). \<lparr>sk_session_id = session_id, sk_direction = direction,
                                sk_index = index, sk_key = key\<rparr>) batch\<rparr>"

definition entry_matches :: "bytes \<Rightarrow> Direction \<Rightarrow> u64 \<Rightarrow> SkippedMessageKey \<Rightarrow> bool" where
  "entry_matches session_id direction index entry \<longleftrightarrow>
     sk_session_id entry = session_id \<and> sk_direction entry = direction \<and> sk_index entry = index"

definition store_get :: "SkippedKeyStore \<Rightarrow> bytes \<Rightarrow> Direction \<Rightarrow> u64 \<Rightarrow> Secret32 option" where
  "store_get st session_id direction index =
     map_option sk_key (find (entry_matches session_id direction index) (entries st))"

definition store_remove ::
    "SkippedKeyStore \<Rightarrow> bytes \<Rightarrow> Direction \<Rightarrow> u64 \<Rightarrow> SessionError + SkippedKeyStore" where
  "store_remove st session_id direction index =
     rbind (ok_or (position (entry_matches session_id direction index) (entries st))
              SE_InvalidState) (\<lambda>pos.
       Inr (st\<lparr>entries := remove_nth pos (entries st)\<rparr>))"

definition store_clear :: "SkippedKeyStore \<Rightarrow> SkippedKeyStore" where
  "store_clear st = st\<lparr>entries := []\<rparr>"

definition append_receive_route_tags ::
    "CryptoPrims \<Rightarrow> SkippedKeyStore \<Rightarrow> bytes \<Rightarrow> Direction \<Rightarrow> bytes list \<Rightarrow> bytes list" where
  "append_receive_route_tags P st session_id direction output =
     output @ map (\<lambda>entry. derive_route_tag P (sk_key entry) session_id (sk_index entry))
       (filter (\<lambda>entry. sk_session_id entry = session_id \<and> sk_direction entry = direction)
         (entries st))"

text \<open>The snapshot of the store is the list of its entries; restoring checks size and duplicates.\<close>

definition store_export_snapshot :: "SkippedKeyStore \<Rightarrow> SkippedMessageKey list" where
  "store_export_snapshot st = entries st"

fun restore_entries ::
    "(bytes \<times> Direction \<times> u64) list \<Rightarrow> SkippedMessageKey list \<Rightarrow>
       SessionError + SkippedMessageKey list" where
  "restore_entries seen [] = Inr []"
| "restore_entries seen (e # es) =
     (let i = (sk_session_id e, sk_direction e, sk_index e) in
      rbind (ensure (i \<notin> set seen) SE_InvalidState) (\<lambda>_.
      rbind (restore_entries (i # seen) es) (\<lambda>restored. Inr (e # restored))))"

definition store_from_snapshot :: "SkippedMessageKey list \<Rightarrow> SessionError + SkippedKeyStore" where
  "store_from_snapshot es =
     rbind (ensure (length es \<le> MAX_SKIP) SE_SkippedKeyLimit) (\<lambda>_.
     rbind (restore_entries [] es) (\<lambda>restored. Inr \<lparr>entries = restored\<rparr>))"

section \<open>The contract\<close>

text \<open>
  \<open>lookup\<close> is the content of the store as a map. Adding fresh keys extends it, removing a key
  deletes exactly that key and needs it to be present.
\<close>

locale one_time_store =
  fixes lookup :: "'s \<Rightarrow> 'i \<Rightarrow> 'k option"
    and add :: "'s \<Rightarrow> ('i \<times> 'k) list \<Rightarrow> 's"
    and remove :: "'s \<Rightarrow> 'i \<Rightarrow> 'e + 's"
    and inv :: "'s \<Rightarrow> bool"
  assumes add_inv: "inv s \<Longrightarrow> distinct (map fst b) \<Longrightarrow> (\<And>i. i \<in> fst ` set b \<Longrightarrow> lookup s i = None) \<Longrightarrow>
      inv (add s b)"
    and lookup_add: "inv s \<Longrightarrow> distinct (map fst b) \<Longrightarrow>
      (\<And>i. i \<in> fst ` set b \<Longrightarrow> lookup s i = None) \<Longrightarrow> lookup (add s b) = lookup s ++ map_of b"
    and remove_defined: "inv s \<Longrightarrow> is_ok (remove s i) \<longleftrightarrow> lookup s i \<noteq> None"
    and remove_inv: "inv s \<Longrightarrow> remove s i = Inr s' \<Longrightarrow> inv s'"
    and lookup_remove: "inv s \<Longrightarrow> remove s i = Inr s' \<Longrightarrow> lookup s' = (lookup s)(i := None)"
begin

lemma remove_once: "inv s \<Longrightarrow> remove s i = Inr s' \<Longrightarrow> \<not> is_ok (remove s' i)"
  using remove_inv lookup_remove by (simp add: remove_defined)

lemma remove_other: "inv s \<Longrightarrow> remove s i = Inr s' \<Longrightarrow> i \<noteq> j \<Longrightarrow> lookup s' j = lookup s j"
  by (simp add: lookup_remove)

lemma remove_swap:
  assumes "inv s" and "remove s i = Inr a" and "remove a j = Inr b"
  shows "\<exists>c d. remove s j = Inr c \<and> remove c i = Inr d \<and> lookup d = lookup b"
proof -
  have ij: "i \<noteq> j"
    using remove_once [OF assms(1,2)] assms(3) by auto
  then have "lookup a j = lookup s j"
    by (rule remove_other [OF assms(1,2)])
  then obtain c where c: "remove s j = Inr c"
    using assms remove_defined [of s j] remove_defined [of a j] remove_inv [OF assms(1,2)]
    by (auto simp: is_ok_iff)
  then obtain d where d: "remove c i = Inr d"
    using remove_inv [OF assms(1) c] remove_other [OF assms(1) c] ij assms
      remove_defined [of c i] remove_defined [of s i]
    by (auto simp: is_ok_iff)
  have "lookup b = (lookup s)(i := None, j := None)"
    using lookup_remove [OF assms(1,2)] lookup_remove [OF remove_inv [OF assms(1,2)] assms(3)] by simp
  moreover have "lookup d = (lookup s)(j := None, i := None)"
    using lookup_remove [OF assms(1) c] lookup_remove [OF remove_inv [OF assms(1) c] d] by simp
  ultimately have "lookup d = lookup b"
    using ij by (simp add: fun_upd_twist)
  then show ?thesis using c d by blast
qed

lemma add_then_remove:
  assumes "inv s" and "lookup s i = None"
  shows "\<exists>s'. remove (add s [(i, k)]) i = Inr s' \<and> lookup s' = lookup s"
proof -
  have l: "lookup (add s [(i, k)]) = (lookup s)(i \<mapsto> k)"
    using assms by (subst lookup_add) auto
  have inv: "inv (add s [(i, k)])"
    using assms by (intro add_inv) auto
  then obtain s' where "remove (add s [(i, k)]) i = Inr s'"
    using remove_defined [OF inv, of i] l by (auto simp: is_ok_iff)
  then show ?thesis
    using lookup_remove [OF inv] l assms(2) by (metis fun_upd_triv fun_upd_upd)
qed

end

section \<open>The vector is such a store\<close>

definition entry_id :: "SkippedMessageKey \<Rightarrow> bytes \<times> Direction \<times> u64" where
  "entry_id e = (sk_session_id e, sk_direction e, sk_index e)"

definition store_ok :: "SkippedKeyStore \<Rightarrow> bool" where
  "store_ok st \<longleftrightarrow> distinct (map entry_id (entries st))"

definition store_lookup :: "bytes \<Rightarrow> Direction \<Rightarrow> SkippedKeyStore \<Rightarrow> u64 \<Rightarrow> Secret32 option" where
  "store_lookup session_id direction st index = store_get st session_id direction index"

lemma entry_matches_iff: "entry_matches sid d i e \<longleftrightarrow> entry_id e = (sid, d, i)"
  by (simp add: entry_matches_def entry_id_def)

lemma find_matches_map_of:
  "map_option sk_key (find (entry_matches sid d i) es) =
     map_of (map (\<lambda>e. (entry_id e, sk_key e)) es) (sid, d, i)"
  by (induction es) (auto simp: entry_matches_iff)

lemma store_get_map_of:
  "store_get st sid d i = map_of (map (\<lambda>e. (entry_id e, sk_key e)) (entries st)) (sid, d, i)"
  by (simp add: store_get_def find_matches_map_of)

lemma store_get_None_iff: "store_get st sid d i = None \<longleftrightarrow> (sid, d, i) \<notin> entry_id ` set (entries st)"
  by (force simp: store_get_map_of map_of_eq_None_iff)

lemma entry_eta [simp]:
  "\<lparr>sk_session_id = sk_session_id x, sk_direction = sk_direction x, sk_index = sk_index x,
    sk_key = sk_key x\<rparr> = (x :: SkippedMessageKey)"
  by (cases x) simp

lemma store_get_Some_iff:
  assumes "store_ok st"
  shows "store_get st sid d i = Some k \<longleftrightarrow>
    \<lparr>sk_session_id = sid, sk_direction = d, sk_index = i, sk_key = k\<rparr> \<in> set (entries st)"
proof -
  have "distinct (map fst (map (\<lambda>e. (entry_id e, sk_key e)) (entries st)))"
    using assms by (simp add: store_ok_def comp_def)
  then have "store_get st sid d i = Some k \<longleftrightarrow>
      ((sid, d, i), k) \<in> set (map (\<lambda>e. (entry_id e, sk_key e)) (entries st))"
    unfolding store_get_map_of by (rule map_of_eq_Some_iff)
  also have "\<dots> \<longleftrightarrow> \<lparr>sk_session_id = sid, sk_direction = d, sk_index = i, sk_key = k\<rparr> \<in> set (entries st)"
    by (auto simp: entry_id_def image_iff intro: rev_bexI)
  finally show ?thesis .
qed

lemma entries_commit:
  "map (\<lambda>e. (entry_id e, sk_key e)) (entries (commit_batch st sid d b)) =
     map (\<lambda>e. (entry_id e, sk_key e)) (entries st) @ map (\<lambda>(i, k). ((sid, d, i), k)) b"
  by (auto simp: commit_batch_def entry_id_def)

lemma map_of_batch: "map_of (map (\<lambda>(i, k). ((sid, d, i), k)) b) (sid, d, i) = map_of b i"
  by (induction b) auto

lemma ids_commit:
  "map entry_id (entries (commit_batch st sid d b)) =
     map entry_id (entries st) @ map (\<lambda>i. (sid, d, i)) (map fst b)"
  by (auto simp: commit_batch_def entry_id_def)

lemma store_removeD:
  assumes "store_remove st sid d i = Inr st'" and "store_ok st"
  shows "store_ok st'" and "length (entries st') = length (entries st) - 1"
    and "e \<in> set (entries st') \<longleftrightarrow> e \<in> set (entries st) \<and> entry_id e \<noteq> (sid, d, i)"
    and "(sid, d, i) \<in> entry_id ` set (entries st)"
proof -
  obtain p where p: "position (entry_matches sid d i) (entries st) = Some p"
    and st': "st' = st\<lparr>entries := remove_nth p (entries st)\<rparr>"
    using assms(1) by (auto simp: store_remove_def result_simps)
  have pos: "p < length (entries st)" "entry_id (entries st ! p) = (sid, d, i)"
    using position_Some [OF p] by (simp_all add: entry_matches_iff)
  have dist: "distinct (map entry_id (entries st))"
    using assms(2) by (simp add: store_ok_def)
  show "store_ok st'"
    using distinct_map_remove_nth(1) [OF dist pos(1)] st' by (simp add: store_ok_def)
  show "length (entries st') = length (entries st) - 1"
    using length_remove_nth [OF pos(1)] st' by simp
  show "e \<in> set (entries st') \<longleftrightarrow> e \<in> set (entries st) \<and> entry_id e \<noteq> (sid, d, i)"
    using distinct_map_remove_nth(2) [OF dist pos(1)] st' pos(2) by simp
  show "(sid, d, i) \<in> entry_id ` set (entries st)"
    using pos by (metis image_eqI nth_mem)
qed

interpretation skipped_store: one_time_store "store_lookup sid d" "\<lambda>st. commit_batch st sid d"
  "\<lambda>st. store_remove st sid d" store_ok for sid d
proof unfold_locales
  fix st and b :: "(u64 \<times> Secret32) list"
  assume ok: "store_ok st" and b: "distinct (map fst b)"
    and fresh: "\<And>i. i \<in> fst ` set b \<Longrightarrow> store_lookup sid d st i = None"
  have notin: "(sid, d, i) \<notin> entry_id ` set (entries st)" if "i \<in> fst ` set b" for i
    using fresh [OF that] by (simp add: store_lookup_def store_get_None_iff)
  have "distinct (map (\<lambda>i. (sid, d, i)) (map fst b))"
    using b by (simp add: distinct_map inj_on_def comp_def)
  then show "store_ok (commit_batch st sid d b)"
    using ok notin unfolding store_ok_def ids_commit distinct_append by fastforce
  show "store_lookup sid d (commit_batch st sid d b) = store_lookup sid d st ++ map_of b"
  proof
    fix i
    have "store_lookup sid d st i = None \<or> map_of b i = None"
      using fresh by (metis map_of_eq_None_iff)
    then show "store_lookup sid d (commit_batch st sid d b) i = (store_lookup sid d st ++ map_of b) i"
      by (auto simp: store_lookup_def store_get_map_of entries_commit map_of_append map_add_def
          map_of_batch split: option.splits)
  qed
next
  fix st i
  show "is_ok (store_remove st sid d i) \<longleftrightarrow> store_lookup sid d st i \<noteq> None"
    by (auto simp: store_lookup_def store_get_def find_position store_remove_def is_ok_iff result_simps)
next
  fix st i st'
  assume ok: "store_ok st" and rm: "store_remove st sid d i = Inr st'"
  show ok': "store_ok st'" by (rule store_removeD(1) [OF rm ok])
  show "store_lookup sid d st' = (store_lookup sid d st)(i := None)"
  proof
    fix j
    have "store_lookup sid d st' j = Some k \<longleftrightarrow> ((store_lookup sid d st)(i := None)) j = Some k" for k
      using store_removeD(3) [OF rm ok]
      by (auto simp: store_lookup_def store_get_Some_iff ok ok' entry_id_def)
    then show "store_lookup sid d st' j = ((store_lookup sid d st)(i := None)) j"
      by (metis option.exhaust)
  qed
qed

section \<open>Bounds\<close>

lemma ensure_capacity_iff:
  "ensure_capacity_for st n = Inr u \<longleftrightarrow> length (entries st) + n \<le> MAX_SKIP"
  by (auto simp: ensure_capacity_for_def checked_add_usize_def usize_max_def split: if_splits)

lemma ensure_capacity_error:
  "ensure_capacity_for st n = Inl e \<longleftrightarrow> MAX_SKIP < length (entries st) + n \<and> e = SE_SkippedKeyLimit"
  by (auto simp: ensure_capacity_for_def checked_add_usize_def usize_max_def split: if_splits)

lemma length_commit_batch [simp]:
  "length (entries (commit_batch st sid d b)) = length (entries st) + length b"
  by (simp add: commit_batch_def)

lemma restore_entries_iff:
  "restore_entries seen es = Inr r \<longleftrightarrow>
     r = es \<and> distinct (map entry_id es) \<and> set (map entry_id es) \<inter> set seen = {}"
  by (induction es arbitrary: seen r) (auto simp: entry_id_def Let_def result_simps)

text \<open>A snapshot restores exactly when it is a store within its bound.\<close>

lemma store_snapshot_iff:
  "store_from_snapshot es = Inr st \<longleftrightarrow>
     store_export_snapshot st = es \<and> store_ok st \<and> store_len st \<le> MAX_SKIP"
  by (cases st) (auto simp: store_from_snapshot_def store_export_snapshot_def store_len_def
      store_ok_def result_simps restore_entries_iff)

end
