(* ===== verification/Replay_Window.thy ===== *)
theory Replay_Window
  imports Core_Types
begin

text \<open>
  The sliding replay window of \<open>hydra-core/src/protocol/replay.rs\<close>: the highest accepted index
  and a bitmap of 257 positions in five 64-bit words, shifted left when a higher index arrives.
  The bitmap is shown to implement the set of all indices accepted so far
  (\<open>represents\<close>, \<open>replay_spec_check\<close>); locale \<open>at_most_once\<close> is the contract
  a client relies on, with the lemma that no index is ever delivered twice.
\<close>

section \<open>The window\<close>

datatype ReplayError = Replay | TooOld

record ReplayWindow =
  highest_seen :: "u64 option"
  bits :: "u64 list"

definition replay_default :: ReplayWindow where
  "replay_default = \<lparr>highest_seen = None, bits = replicate REPLAY_WINDOW_WORDS 0\<rparr>"

definition replay_check :: "ReplayWindow \<Rightarrow> u64 \<Rightarrow> ReplayError + unit" where
  "replay_check w index =
     (case highest_seen w of
        None \<Rightarrow> Inr ()
      | Some highest \<Rightarrow>
          if highest < index then Inr ()
          else
            let delta = highest - index in
            if of_nat REPLAY_WINDOW_WIDTH \<le> delta then Inl TooOld
            else
              let word = unat (delta div 64); b = unat (delta mod 64) in
              if bits w ! word AND push_bit b 1 \<noteq> 0 then Inl Replay else Inr ())"

definition shifted_word :: "u64 list \<Rightarrow> nat \<Rightarrow> nat \<Rightarrow> nat \<Rightarrow> u64" where
  "shifted_word original whole_words bit_shift destination =
     (if destination < whole_words then 0
      else
        let source = destination - whole_words;
            word = push_bit bit_shift (original ! source)
        in if bit_shift \<noteq> 0 \<and> 0 < source
           then word OR drop_bit (64 - bit_shift) (original ! (source - 1))
           else word)"

definition replay_shift_left :: "u64 list \<Rightarrow> u64 \<Rightarrow> u64 list" where
  "replay_shift_left words shift =
     (if of_nat REPLAY_WINDOW_WIDTH \<le> shift then map (\<lambda>_. 0) words
      else
        let whole_words = unat (shift div 64);
            bit_shift = unat (shift mod 64);
            shifted = map (shifted_word words whole_words bit_shift) [0..<length words];
            used_bits = REPLAY_WINDOW_WIDTH mod 64
        in if used_bits \<noteq> 0
           then shifted[length words - 1 :=
                  shifted ! (length words - 1) AND (push_bit used_bits 1 - 1)]
           else shifted)"

definition replay_mark :: "ReplayWindow \<Rightarrow> u64 \<Rightarrow> ReplayError + ReplayWindow" where
  "replay_mark w index =
     rbind (replay_check w index) (\<lambda>_.
       Inr (case highest_seen w of
          None \<Rightarrow> w\<lparr>highest_seen := Some index, bits := (bits w)[0 := 1]\<rparr>
        | Some highest \<Rightarrow>
            if highest < index then
              let shifted = replay_shift_left (bits w) (index - highest)
              in w\<lparr>highest_seen := Some index, bits := shifted[0 := shifted ! 0 OR 1]\<rparr>
            else
              let delta = highest - index; word = unat (delta div 64)
              in w\<lparr>bits := (bits w)[word := bits w ! word OR push_bit (unat (delta mod 64)) 1]\<rparr>))"

definition replay_clear :: "ReplayWindow \<Rightarrow> ReplayWindow" where
  "replay_clear w = w\<lparr>highest_seen := None, bits := map (\<lambda>_. 0) (bits w)\<rparr>"

record ReplayWindowSnapshot =
  snap_highest_seen :: "u64 option"
  snap_bits :: "u64 list"

definition replay_export_snapshot :: "ReplayWindow \<Rightarrow> ReplayWindowSnapshot" where
  "replay_export_snapshot w = \<lparr>snap_highest_seen = highest_seen w, snap_bits = bits w\<rparr>"

definition replay_from_snapshot :: "ReplayWindowSnapshot \<Rightarrow> ReplayWindow" where
  "replay_from_snapshot s = \<lparr>highest_seen = snap_highest_seen s, bits = snap_bits s\<rparr>"

section \<open>What the window means\<close>

text \<open>
  The abstract filter remembers every accepted index. An index is too old when it is 257 or more
  below the highest one, and a replay when it was accepted before.
\<close>

definition replay_spec_check :: "nat set \<Rightarrow> nat \<Rightarrow> ReplayError + unit" where
  "replay_spec_check H i =
     (if H = {} \<or> Max H < i then Inr ()
      else if i + REPLAY_WINDOW_WIDTH \<le> Max H then Inl TooOld
      else if i \<in> H then Inl Replay else Inr ())"

text \<open>Position \<open>p\<close> of the bitmap: bit \<open>p mod 64\<close> of word \<open>p div 64\<close>.\<close>

definition bit_at :: "u64 list \<Rightarrow> nat \<Rightarrow> bool" where
  "bit_at ws p = bit (ws ! (p div 64)) (p mod 64)"

text \<open>
  \<open>represents w H\<close>: the window's bitmap is the history \<open>H\<close> seen from its highest index, with
  position \<open>p\<close> standing for the index \<open>p\<close> below it.
\<close>

definition represents :: "ReplayWindow \<Rightarrow> nat set \<Rightarrow> bool" where
  "represents w H \<longleftrightarrow> finite H \<and> length (bits w) = REPLAY_WINDOW_WORDS \<and>
     (case highest_seen w of
        None \<Rightarrow> H = {} \<and> bits w = replicate REPLAY_WINDOW_WORDS 0
      | Some h \<Rightarrow> H \<noteq> {} \<and> Max H = unat h \<and>
          (\<forall>p < 320. bit_at (bits w) p \<longleftrightarrow>
             p < REPLAY_WINDOW_WIDTH \<and> p \<le> unat h \<and> unat h - p \<in> H))"

section \<open>Bitmap lemmas\<close>

lemma window_words [simp]: "REPLAY_WINDOW_WORDS = 5"
  by simp

lemma unat_sub_u64: "b \<le> a \<Longrightarrow> unat (a - b) = unat a - unat (b :: u64)"
  by (rule unat_sub)

lemma width_le_iff [simp]: "257 \<le> (d :: u64) \<longleftrightarrow> 257 \<le> unat d"
  by (simp add: word_le_nat_alt)

lemma test_bit_mask: "w AND push_bit b 1 \<noteq> 0 \<longleftrightarrow> bit (w :: u64) b"
  by (simp add: bit_iff_and_push_bit_not_eq_0)

lemma bit_at_pos: "r < 64 \<Longrightarrow> bit_at ws (64 * j + r) \<longleftrightarrow> bit (ws ! j) r"
  by (simp add: bit_at_def)

lemma bit_at_set:
  assumes "d < 64 * length ws" and "p < 64 * length ws"
  shows "bit_at (ws[d div 64 := ws ! (d div 64) OR push_bit (d mod 64) 1]) p \<longleftrightarrow>
    p = d \<or> bit_at ws p"
proof -
  have bound: "d div 64 < length ws" "p div 64 < length ws"
    using assms by (simp_all add: div_less_iff_less_mult mult.commute)
  show ?thesis
  proof (cases "p div 64 = d div 64")
    case True
    then have "p = d \<longleftrightarrow> p mod 64 = d mod 64"
      by (metis div_mod_decomp)
    moreover have "bit (push_bit (d mod 64) 1 :: u64) (p mod 64) \<longleftrightarrow> p mod 64 = d mod 64"
      by (auto simp: bit_simps)
    ultimately show ?thesis
      using True bound by (auto simp: bit_at_def bit_or_iff)
  next
    case False
    then show ?thesis
      using bound by (auto simp: bit_at_def)
  qed
qed

text \<open>One destination word of the shift, read bit by bit.\<close>

lemma bit_shifted_word:
  assumes s: "s < 64" and r: "r < 64"
  shows "bit (shifted_word ws k s d) r \<longleftrightarrow>
    64 * k + s \<le> 64 * d + r \<and> bit_at ws (64 * d + r - (64 * k + s))"
proof (cases "d < k")
  case True
  then have "\<not> 64 * k + s \<le> 64 * d + r" using r by simp
  then show ?thesis using True by (simp add: shifted_word_def)
next
  case dk: False
  define j where "j = d - k"
  then have d: "d = k + j" using dk by simp
  have high: "\<not> bit w n" if "64 \<le> n" for w :: u64 and n
    using that bit_imp_le_length [of w n] by auto
  show ?thesis
  proof (cases "s \<le> r")
    case True
    have pos: "64 * d + r - (64 * k + s) = 64 * j + (r - s)"
      using d True by simp
    have "\<not> bit (ws ! (j - 1)) (64 - s + r)" using True s by (intro high) simp
    then show ?thesis
      using True r s d bit_at_pos [of "r - s" ws j]
      by (auto simp: shifted_word_def Let_def pos bit_simps)
  next
    case False
    show ?thesis
    proof (cases j)
      case 0
      then show ?thesis
        using False d r by (auto simp: shifted_word_def Let_def bit_simps)
    next
      case (Suc m)
      have pos: "64 * d + r - (64 * k + s) = 64 * m + (64 - s + r)"
        using d Suc s r False by simp
      have "64 - s + r < 64" using False s by linarith
      then show ?thesis
        using Suc False d r s bit_at_pos [of "64 - s + r" ws m] unfolding pos
        by (auto simp: shifted_word_def Let_def bit_simps)
    qed
  qed
qed

lemma bit_at_shift_left:
  assumes len: "length ws = 5" and sh: "unat shift < 257" and p: "p < 320"
  shows "bit_at (replay_shift_left ws shift) p \<longleftrightarrow>
    p < 257 \<and> unat shift \<le> p \<and> bit_at ws (p - unat shift)"
proof -
  define k s where "k = unat (shift div 64)" and "s = unat (shift mod 64)"
  have ks: "unat shift = 64 * k + s" and s: "s < 64"
    by (simp_all add: k_def s_def unat_div unat_mod)
  define d r where "d = p div 64" and "r = p mod 64"
  have pdr: "p = 64 * d + r" and r: "r < 64" and d: "d < 5"
    using p by (simp_all add: d_def r_def div_less_iff_less_mult)
  have not_wide: "\<not> of_nat REPLAY_WINDOW_WIDTH \<le> shift"
    using sh by (simp add: width_le_iff)
  have mask: "bit (push_bit 1 1 - 1 :: u64) r \<longleftrightarrow> r = 0"
    by (simp add: bit_1_iff)
  have sel: "replay_shift_left ws shift ! d =
      (if d = 4 then shifted_word ws k s 4 AND (push_bit 1 1 - 1) else shifted_word ws k s d)"
    using not_wide d len
    by (simp add: replay_shift_left_def k_def [symmetric] s_def [symmetric] Let_def)
  have "bit_at (replay_shift_left ws shift) p \<longleftrightarrow>
      bit (shifted_word ws k s d) r \<and> (d = 4 \<longrightarrow> r = 0)"
    unfolding bit_at_def d_def [symmetric] r_def [symmetric] sel
    using mask by (auto simp: bit_and_iff)
  also have "bit (shifted_word ws k s d) r \<longleftrightarrow> unat shift \<le> p \<and> bit_at ws (p - unat shift)"
    using bit_shifted_word [OF s r] by (simp add: ks pdr)
  also have "(d = 4 \<longrightarrow> r = 0) \<longleftrightarrow> p < 257"
    using pdr r d by auto
  finally show ?thesis by blast
qed

lemma bit_at_wide_shift: "257 \<le> unat shift \<Longrightarrow> p < 64 * length ws \<Longrightarrow>
    \<not> bit_at (replay_shift_left ws shift) p"
  by (simp add: replay_shift_left_def width_le_iff bit_at_def div_less_iff_less_mult mult.commute)

lemma length_shift_left [simp]: "length (replay_shift_left ws shift) = length ws"
  by (simp add: replay_shift_left_def Let_def)

section \<open>The bitmap implements the history\<close>

lemma bit_at_zero: "p < 64 * n \<Longrightarrow> \<not> bit_at (replicate n 0) p"
  by (simp add: bit_at_def div_less_iff_less_mult mult.commute)

lemma represents_default [simp]: "represents replay_default {}"
  by (simp add: represents_def replay_default_def)

lemma represents_clear: "length (bits w) = REPLAY_WINDOW_WORDS \<Longrightarrow> represents (replay_clear w) {}"
  by (simp add: represents_def replay_clear_def map_replicate_const)

lemma represents_length: "represents w H \<Longrightarrow> length (bits w) = 5"
  by (simp add: represents_def)

lemma represents_SomeD:
  assumes "represents w H" and "highest_seen w = Some h"
  shows "finite H" and "H \<noteq> {}" and "Max H = unat h" and "length (bits w) = 5"
    and "\<And>p. p < 320 \<Longrightarrow> bit_at (bits w) p \<longleftrightarrow> p < 257 \<and> p \<le> unat h \<and> unat h - p \<in> H"
  using assms by (simp_all add: represents_def)

lemma represents_bounded: "represents w H \<Longrightarrow> highest_seen w = Some h \<Longrightarrow> j \<in> H \<Longrightarrow> j \<le> unat h"
  using represents_SomeD by (metis Max_ge)

lemma check_delta:
  "bits w ! unat (d div 64) AND push_bit (unat (d mod 64)) 1 \<noteq> 0 \<longleftrightarrow>
    bit_at (bits w) (unat (d :: u64))"
  unfolding test_bit_mask bit_at_def by (simp add: unat_div unat_mod)

lemma replay_check_correct:
  assumes rep: "represents w H"
  shows "replay_check w i = replay_spec_check H (unat i)"
proof (cases "highest_seen w")
  case None
  with rep show ?thesis
    by (simp add: replay_check_def replay_spec_check_def represents_def)
next
  case (Some h)
  note facts = represents_SomeD [OF rep Some]
  show ?thesis
  proof (cases "h < i")
    case True
    then show ?thesis
      using facts Some by (simp add: replay_check_def replay_spec_check_def word_less_nat_alt)
  next
    case False
    then have le: "i \<le> h" by simp
    then have d: "unat (h - i) = unat h - unat i" by (rule unat_sub_u64)
    have le': "unat i \<le> unat h" using le by (simp add: word_le_nat_alt)
    show ?thesis
    proof (cases "257 \<le> unat (h - i)")
      case True
      then show ?thesis
        using facts Some False le' d
        by (simp add: replay_check_def replay_spec_check_def Let_def)
    next
      case narrow: False
      have "bit_at (bits w) (unat (h - i)) \<longleftrightarrow> unat i \<in> H"
        using facts(5) [of "unat (h - i)"] narrow d le' by simp
      then show ?thesis
        using facts Some False le' d narrow check_delta [of w "h - i"]
        by (simp add: replay_check_def replay_spec_check_def Let_def)
    qed
  qed
qed

lemma replay_mark_first:
  assumes rep: "represents w H" and None: "highest_seen w = None"
  shows "represents (w\<lparr>highest_seen := Some i, bits := (bits w)[0 := 1]\<rparr>) (insert (unat i) H)"
proof -
  have ws: "bits w = replicate 5 0" and H: "H = {}"
    using rep None by (simp_all add: represents_def)
  have "bit_at ((bits w)[0 := 1]) p \<longleftrightarrow> p = 0" if "p < 320" for p
    using bit_at_set [of 0 "bits w" p] bit_at_zero [of p 5] that ws by simp
  then show ?thesis
    using ws H by (auto simp: represents_def)
qed

lemma replay_mark_higher:
  assumes rep: "represents w H" and Some: "highest_seen w = Some h" and less: "h < i"
  defines "shifted \<equiv> replay_shift_left (bits w) (i - h)"
  shows "represents (w\<lparr>highest_seen := Some i, bits := shifted[0 := shifted ! 0 OR 1]\<rparr>)
    (insert (unat i) H)"
proof -
  note facts = represents_SomeD [OF rep Some]
  have hi: "unat h < unat i" using less by (simp add: word_less_nat_alt)
  have sh: "unat (i - h) = unat i - unat h" using less by (intro unat_sub_u64) simp
  have mx: "Max (insert (unat i) H) = unat i"
    using facts hi by simp
  have old: "bit_at shifted p \<longleftrightarrow> p < 257 \<and> p \<le> unat i \<and> unat i - p \<in> H" if p: "p < 320" for p
  proof (cases "257 \<le> unat (i - h)")
    case True
    have "\<not> (p < 257 \<and> p \<le> unat i \<and> unat i - p \<in> H)"
      using True sh hi represents_bounded [OF rep Some, of "unat i - p"] by auto
    moreover have "\<not> bit_at shifted p"
      unfolding shifted_def using True p facts(4) by (intro bit_at_wide_shift) simp_all
    ultimately show ?thesis by blast
  next
    case False
    have "bit_at shifted p \<longleftrightarrow> p < 257 \<and> unat i - unat h \<le> p \<and> bit_at (bits w) (p - (unat i - unat h))"
      unfolding shifted_def using bit_at_shift_left [OF facts(4) _ p, of "i - h"] False sh by simp
    moreover have "unat i - p \<in> H \<Longrightarrow> unat i - unat h \<le> p"
      using represents_bounded [OF rep Some, of "unat i - p"] by linarith
    moreover have "unat h - (p - (unat i - unat h)) = unat i - p" if "unat i - unat h \<le> p"
      using that hi by linarith
    ultimately show ?thesis
      using facts(5) [of "p - (unat i - unat h)"] p hi by auto
  qed
  have "bit_at (shifted[0 := shifted ! 0 OR 1]) p \<longleftrightarrow> p = 0 \<or> bit_at shifted p" if "p < 320" for p
    using bit_at_set [of 0 shifted p] that facts(4) by (simp add: shifted_def)
  then show ?thesis
    using old mx facts by (auto simp: represents_def shifted_def)
qed

lemma replay_mark_lower:
  assumes rep: "represents w H" and Some: "highest_seen w = Some h" and ge: "i \<le> h"
    and narrow: "unat (h - i) < 257"
  shows "represents (w\<lparr>bits := (bits w)[unat ((h - i) div 64) :=
      bits w ! unat ((h - i) div 64) OR push_bit (unat ((h - i) mod 64)) 1]\<rparr>) (insert (unat i) H)"
proof -
  note facts = represents_SomeD [OF rep Some]
  have le: "unat i \<le> unat h" using ge by (simp add: word_le_nat_alt)
  define d where "d = unat h - unat i"
  have d: "unat (h - i) = d" unfolding d_def using ge by (rule unat_sub_u64)
  have mx: "Max (insert (unat i) H) = unat h"
    using facts le by simp
  define ws' where "ws' = (bits w)[d div 64 := bits w ! (d div 64) OR push_bit (d mod 64) 1]"
  have ws'_eq: "(bits w)[unat ((h - i) div 64) :=
      bits w ! unat ((h - i) div 64) OR push_bit (unat ((h - i) mod 64)) 1] = ws'"
    unfolding ws'_def unat_div unat_mod d by simp
  have new: "bit_at ws' p \<longleftrightarrow> p < 257 \<and> p \<le> unat h \<and> unat h - p \<in> insert (unat i) H"
    if p: "p < 320" for p
  proof -
    have "bit_at ws' p \<longleftrightarrow> p = d \<or> bit_at (bits w) p"
      unfolding ws'_def using p facts(4) narrow d by (intro bit_at_set) simp_all
    moreover have "p = d \<longleftrightarrow> p \<le> unat h \<and> unat h - p = unat i"
      using le by (auto simp: d_def)
    ultimately show ?thesis
      using facts(5) [OF p] narrow d by auto
  qed
  have len: "length ws' = 5"
    using facts(4) by (simp add: ws'_def)
  show ?thesis
    unfolding ws'_eq represents_def using new len mx facts(1) Some by simp
qed

lemma replay_mark_represents:
  assumes rep: "represents w H" and mark: "replay_mark w i = Inr w'"
  shows "unat i \<notin> H" and "represents w' (insert (unat i) H)"
proof -
  have check: "replay_check w i = Inr ()"
    using mark by (auto simp: replay_mark_def rbind_Inr_iff)
  then have spec: "replay_spec_check H (unat i) = Inr ()"
    using replay_check_correct [OF rep] by simp
  have "finite H" using rep by (simp add: represents_def)
  then show "unat i \<notin> H"
    using spec by (auto simp: replay_spec_check_def not_less split: if_splits dest: leD [OF Max_ge])
  show "represents w' (insert (unat i) H)"
  proof (cases "highest_seen w")
    case None
    then have "w' = w\<lparr>highest_seen := Some i, bits := (bits w)[0 := 1]\<rparr>"
      using mark check by (simp add: replay_mark_def)
    then show ?thesis using replay_mark_first [OF rep None] by simp
  next
    case (Some h)
    show ?thesis
    proof (cases "h < i")
      case True
      then show ?thesis
        using replay_mark_higher [OF rep Some True] mark check Some
        by (simp add: replay_mark_def Let_def)
    next
      case False
      then have "i \<le> h" and "unat (h - i) < 257"
        using check Some by (auto simp: replay_check_def Let_def split: if_splits)
      then show ?thesis
        using replay_mark_lower [OF rep Some, of i] mark check Some False
        by (auto simp: replay_mark_def Let_def)
    qed
  qed
qed

lemma replay_mark_accepts_iff:
  "represents w H \<Longrightarrow> (\<exists>w'. replay_mark w i = Inr w') \<longleftrightarrow> replay_spec_check H (unat i) = Inr ()"
  using replay_check_correct [of w H i] by (auto simp: replay_mark_def rbind_Inr_iff)

lemma replay_mark_error:
  "represents w H \<Longrightarrow> replay_mark w i = Inl e \<longleftrightarrow> replay_spec_check H (unat i) = Inl e"
  using replay_check_correct [of w H i] by (auto simp: replay_mark_def rbind_Inl_iff)

section \<open>At-most-once delivery\<close>

text \<open>
  \<open>deliveries step s cs\<close> feeds a sequence of inputs to a component and collects the indices it
  delivers. The contract of locale \<open>at_most_once\<close>: \<open>R s H\<close> relates the state to the set of
  indices delivered so far, a delivery is of a fresh index, and a refusal changes nothing that
  matters.
\<close>

fun deliveries :: "('s \<Rightarrow> 'c \<Rightarrow> 'i option \<times> 's) \<Rightarrow> 's \<Rightarrow> 'c list \<Rightarrow> 'i list" where
  "deliveries step s [] = []"
| "deliveries step s (c # cs) =
     (case step s c of
        (Some i, s') \<Rightarrow> i # deliveries step s' cs
      | (None, s') \<Rightarrow> deliveries step s' cs)"

locale at_most_once =
  fixes step :: "'s \<Rightarrow> 'c \<Rightarrow> 'i option \<times> 's"
    and R :: "'s \<Rightarrow> 'i set \<Rightarrow> bool"
  assumes deliver: "R s H \<Longrightarrow> step s c = (Some i, s') \<Longrightarrow> i \<notin> H \<and> R s' (insert i H)"
    and refuse: "R s H \<Longrightarrow> step s c = (None, s') \<Longrightarrow> R s' H"
begin

lemma deliveries_fresh:
  "R s H \<Longrightarrow> distinct (deliveries step s cs) \<and> set (deliveries step s cs) \<inter> H = {}"
proof (induction cs arbitrary: s H)
  case Nil
  then show ?case by simp
next
  case (Cons c cs)
  obtain r s' where st: "step s c = (r, s')" by (cases "step s c")
  show ?case
  proof (cases r)
    case None
    with st Cons.prems have "R s' H" using refuse by blast
    then show ?thesis using Cons.IH None st by simp
  next
    case (Some i)
    with st Cons.prems have "i \<notin> H" and "R s' (insert i H)" using deliver by blast+
    then show ?thesis using Cons.IH [of s' "insert i H"] Some st by auto
  qed
qed

end

text \<open>Feeding indices to a window: the index when it is accepted, and the window afterwards.\<close>

definition replay_step :: "ReplayWindow \<Rightarrow> u64 \<Rightarrow> u64 option \<times> ReplayWindow" where
  "replay_step w i = (case replay_mark w i of Inl _ \<Rightarrow> (None, w) | Inr w' \<Rightarrow> (Some i, w'))"

interpretation window: at_most_once replay_step "\<lambda>w H. represents w (unat ` H)"
proof unfold_locales
  fix w i w' and H :: "u64 set" and c
  assume "represents w (unat ` H)" and "replay_step w c = (Some i, w')"
  then show "i \<notin> H \<and> represents w' (unat ` insert i H)"
    using replay_mark_represents [of w "unat ` H" c w']
    by (auto simp: replay_step_def split: sum.splits)
next
  fix w w' and H :: "u64 set" and c
  assume "represents w (unat ` H)" and "replay_step w c = (None, w')"
  then show "represents w' (unat ` H)"
    by (auto simp: replay_step_def split: sum.splits)
qed


section \<open>Properties\<close>

text \<open>C9: The bitmap window refines the history of all accepted indices: marking an index answers
  exactly as the abstract filter does (fresh above the highest; too old from 257 below it; a replay
  when it is in the history), a refusal gives the filter's error, and an acceptance leaves a window
  that represents the extended history, for every 64-bit index.\<close>

theorem replay_window_refines_history:
  assumes "represents w H"
  shows "case replay_mark w i of
      Inl e \<Rightarrow> replay_spec_check H (unat i) = Inl e
    | Inr w' \<Rightarrow> replay_spec_check H (unat i) = Inr () \<and> unat i \<notin> H \<and> represents w' (insert (unat i) H)"
  using replay_mark_error [OF assms] replay_mark_accepts_iff [OF assms] replay_mark_represents [OF assms]
  by (auto split: sum.splits)

theorem replay_window_refines_history_witness:
  "\<exists>w'. replay_mark replay_default 5 = Inr w' \<and> represents w' {5}"
proof -
  have "replay_mark replay_default 5 \<noteq> Inl e" for e
    by (simp add: replay_mark_def replay_check_def replay_default_def)
  then show ?thesis
    using replay_window_refines_history [OF represents_default, of 5] by (auto split: sum.splits)
qed

end
