(* ===== verification/Session_State.thy ===== *)
theory Session_State
  imports Skipped_Keys Replay_Window
begin

text \<open>
  The session state of \<open>hydra-session/src/session/\<close>: \<open>mod.rs\<close> (roles, phases, the state record,
  \<open>established\<close>, the route tags an inbound envelope may carry), \<open>envelope_bounds.rs\<close>,
  \<open>lifecycle.rs\<close> and \<open>snapshot.rs\<close>. The invariant of the component, \<open>session_inv\<close>, ties the
  replay window, the skipped-key store and the receiving chain to the set of delivered indices.
\<close>

section \<open>State\<close>

datatype SessionRole = Initiator | Responder

datatype SessionPhase = Established | Refreshing | Closing | Closed

datatype RefreshIdDecision = Accepted | ReplacedLocal

record OutboundMessage =
  out_index :: u64
  envelope :: bytes

record ReceivedMessage =
  rm_index :: u64
  rm_content_kind :: ContentKind
  rm_content :: bytes

record SessionState =
  role :: SessionRole
  phase :: SessionPhase
  session_id :: bytes
  transcript_hash :: bytes
  local_identity_fingerprint :: bytes
  remote_identity_fingerprint :: bytes
  refresh_root :: Secret32
  sending_chain :: DirectionChain
  receiving_chain :: DirectionChain
  skipped_keys :: SkippedKeyStore
  replay :: ReplayWindow
  active_refresh_id :: "bytes option"

definition MAX_COMPACT_CONTENT_SIZE :: nat where
  "MAX_COMPACT_CONTENT_SIZE = 64 * 1024"

definition established ::
    "SessionRole \<Rightarrow> bytes \<Rightarrow> bytes \<Rightarrow> bytes \<Rightarrow> InitialSessionSecrets \<Rightarrow> SessionState" where
  "established r th local_fp remote_fp secrets =
     (let (sending, receiving) =
        (case r of
           Initiator \<Rightarrow>
             (DirectionChain_new (is_chain_i2r secrets), DirectionChain_new (is_chain_r2i secrets))
         | Responder \<Rightarrow>
             (DirectionChain_new (is_chain_r2i secrets), DirectionChain_new (is_chain_i2r secrets)))
      in \<lparr>role = r, phase = Established, session_id = is_session_id secrets, transcript_hash = th,
          local_identity_fingerprint = local_fp, remote_identity_fingerprint = remote_fp,
          refresh_root = is_refresh_root secrets, sending_chain = sending,
          receiving_chain = receiving, skipped_keys = store_default, replay = replay_default,
          active_refresh_id = None\<rparr>)"

definition receiving_direction :: "SessionState \<Rightarrow> Direction" where
  "receiving_direction s =
     (case role s of Initiator \<Rightarrow> ResponderToInitiator | Responder \<Rightarrow> InitiatorToResponder)"

definition next_send_index :: "SessionState \<Rightarrow> u64" where
  "next_send_index s = next_index (sending_chain s)"

definition next_receive_index :: "SessionState \<Rightarrow> u64" where
  "next_receive_index s = next_index (receiving_chain s)"

text \<open>The look-ahead loop of \<open>candidate_receive_route_tags\<close>, \<open>n\<close> rounds from a chain key.\<close>

fun future_route_tags ::
    "CryptoPrims \<Rightarrow> bytes \<Rightarrow> nat \<Rightarrow> Secret32 \<Rightarrow> u64 \<Rightarrow> SessionError + bytes list" where
  "future_route_tags P sid 0 key cursor = Inr []"
| "future_route_tags P sid (Suc n) key cursor =
     (if cursor = u64_max then Inr []
      else
        rbind (derive_step P sid key cursor) (\<lambda>step.
        rbind (ok_or (checked_add_u64 cursor 1) SE_CounterExhausted) (\<lambda>cursor'.
        rbind (future_route_tags P sid n (next_chain_key step) cursor') (\<lambda>tags.
          Inr (step_route_tag step # tags)))))"

definition candidate_receive_route_tags ::
    "CryptoPrims \<Rightarrow> SessionState \<Rightarrow> SessionError + bytes list" where
  "candidate_receive_route_tags P s =
     (let tags = append_receive_route_tags P (skipped_keys s) (session_id s)
                   (receiving_direction s) []
      in rbind (ok_or (checked_sub_usize MAX_SKIP (store_len (skipped_keys s))) SE_InvalidState)
           (\<lambda>free.
         rbind (future_route_tags P (session_id s) (min (free + 1) usize_max)
                  (chain_key (receiving_chain s)) (next_index (receiving_chain s))) (\<lambda>future.
           Inr (tags @ future))))"

section \<open>Envelope classes for a content length\<close>

definition smallest_class :: "nat \<Rightarrow> EnvelopeClass option" where
  "smallest_class n = find (\<lambda>c. n \<le> max_content_size c) [Lite, Standard, Full]"

definition smallest_standard_or_full :: "nat \<Rightarrow> EnvelopeClass option" where
  "smallest_standard_or_full n = find (\<lambda>c. n \<le> max_content_size c) [Standard, Full]"

definition bounded_data_class :: "nat \<Rightarrow> nat \<Rightarrow> nat \<Rightarrow> EnvelopeClass option" where
  "bounded_data_class n min_envelope_size max_envelope_size =
     find (\<lambda>c. n \<le> max_content_size c \<and> min_envelope_size \<le> envelope_size c \<and>
                envelope_size c \<le> max_envelope_size) [Lite, Standard, Full]"

section \<open>Wiping and snapshots\<close>

definition full_wipe :: "SessionState \<Rightarrow> SessionState" where
  "full_wipe s =
     s\<lparr>refresh_root := replicate 32 0,
       sending_chain := DirectionChain_new (replicate 32 0),
       receiving_chain := DirectionChain_new (replicate 32 0),
       skipped_keys := store_clear (skipped_keys s),
       replay := replay_clear (replay s),
       active_refresh_id := None,
       session_id := map (\<lambda>_. 0) (session_id s),
       transcript_hash := map (\<lambda>_. 0) (transcript_hash s),
       phase := Closed\<rparr>"

record SessionStateSnapshot =
  sn_role :: SessionRole
  sn_phase :: SessionPhase
  sn_session_id :: bytes
  sn_transcript_hash :: bytes
  sn_local_identity_fingerprint :: bytes
  sn_remote_identity_fingerprint :: bytes
  sn_refresh_root :: bytes
  sn_sending_chain :: DirectionChain
  sn_receiving_chain :: DirectionChain
  sn_skipped_keys :: "SkippedMessageKey list"
  sn_replay :: ReplayWindowSnapshot
  sn_active_refresh_id :: "bytes option"

definition session_export_snapshot :: "SessionState \<Rightarrow> SessionStateSnapshot" where
  "session_export_snapshot s =
     \<lparr>sn_role = role s, sn_phase = phase s, sn_session_id = session_id s,
      sn_transcript_hash = transcript_hash s,
      sn_local_identity_fingerprint = local_identity_fingerprint s,
      sn_remote_identity_fingerprint = remote_identity_fingerprint s,
      sn_refresh_root = refresh_root s, sn_sending_chain = sending_chain s,
      sn_receiving_chain = receiving_chain s,
      sn_skipped_keys = store_export_snapshot (skipped_keys s),
      sn_replay = replay_export_snapshot (replay s), sn_active_refresh_id = active_refresh_id s\<rparr>"

definition session_from_snapshot :: "SessionStateSnapshot \<Rightarrow> SessionError + SessionState" where
  "session_from_snapshot sn =
     rbind (store_from_snapshot (sn_skipped_keys sn)) (\<lambda>store.
       Inr \<lparr>role = sn_role sn, phase = sn_phase sn, session_id = sn_session_id sn,
            transcript_hash = sn_transcript_hash sn,
            local_identity_fingerprint = sn_local_identity_fingerprint sn,
            remote_identity_fingerprint = sn_remote_identity_fingerprint sn,
            refresh_root = sn_refresh_root sn, sending_chain = sn_sending_chain sn,
            receiving_chain = sn_receiving_chain sn, skipped_keys = store,
            replay = replay_from_snapshot (sn_replay sn),
            active_refresh_id = sn_active_refresh_id sn\<rparr>)"

section \<open>The invariant\<close>

text \<open>What the array types of the source guarantee.\<close>

definition chain_wf :: "DirectionChain \<Rightarrow> bool" where
  "chain_wf c \<longleftrightarrow> length (chain_key c) = 32"

definition session_wf :: "SessionState \<Rightarrow> bool" where
  "session_wf s \<longleftrightarrow> length (session_id s) = 32 \<and> length (transcript_hash s) = 64 \<and>
     length (refresh_root s) = 32 \<and> chain_wf (sending_chain s) \<and> chain_wf (receiving_chain s) \<and>
     list_all (\<lambda>e. length (sk_key e) = 32) (entries (skipped_keys s)) \<and>
     length (bits (replay s)) = REPLAY_WINDOW_WORDS"

text \<open>The indices whose keys are stored for a late message.\<close>

definition skipped_indices :: "SessionState \<Rightarrow> nat set" where
  "skipped_indices s = (unat \<circ> sk_index) ` set (entries (skipped_keys s))"

text \<open>
  \<open>session_inv s H\<close> for the set \<open>H\<close> of indices delivered under the current session id: the window
  implements \<open>H\<close>; the store is within its bound, has no duplicates and only holds keys of this
  session and direction; below the receiving chain's next index every index is either delivered or
  stored, never both; a refresh identifier is active exactly while refreshing.
\<close>

definition session_inv :: "SessionState \<Rightarrow> nat set \<Rightarrow> bool" where
  "session_inv s H \<longleftrightarrow> session_wf s \<and> represents (replay s) H \<and>
     store_ok (skipped_keys s) \<and> store_len (skipped_keys s) \<le> MAX_SKIP \<and>
     (\<forall>e \<in> set (entries (skipped_keys s)).
        sk_session_id e = session_id s \<and> sk_direction e = receiving_direction s) \<and>
     skipped_indices s \<union> H = {..< unat (next_receive_index s)} \<and>
     skipped_indices s \<inter> H = {} \<and>
     (phase s = Refreshing \<longleftrightarrow> active_refresh_id s \<noteq> None)"

text \<open>
  The receiving side is on the chain that starts at key \<open>k\<close>: its chain key and every stored message
  key are the chain's.
\<close>

definition receiver_on_chain :: "CryptoPrims \<Rightarrow> Secret32 \<Rightarrow> SessionState \<Rightarrow> bool" where
  "receiver_on_chain P k s \<longleftrightarrow>
     chain_key (receiving_chain s) =
       ratchet_key (derive_step P (session_id s)) next_chain_key k (unat (next_receive_index s)) \<and>
     (\<forall>e \<in> set (entries (skipped_keys s)).
        sk_key e = message_key (ratchet_step (derive_step P (session_id s)) next_chain_key k
          (unat (sk_index e))))"

definition sender_on_chain :: "CryptoPrims \<Rightarrow> Secret32 \<Rightarrow> SessionState \<Rightarrow> bool" where
  "sender_on_chain P k s \<longleftrightarrow>
     chain_key (sending_chain s) =
       ratchet_key (derive_step P (session_id s)) next_chain_key k (unat (next_send_index s))"

section \<open>Lemmas\<close>

lemma find_class_iff:
  "find p [Lite, Standard, Full] = Some c \<longleftrightarrow> p c \<and> (\<forall>d. p d \<longrightarrow> envelope_size c \<le> envelope_size d)"
proof -
  have all: "(\<forall>d. Q d) \<longleftrightarrow> Q Lite \<and> Q Standard \<and> Q Full" for Q
    by (metis EnvelopeClass.exhaust)
  show ?thesis by (cases c) (auto simp: all)
qed

lemma smallest_standard_or_fullD:
  "smallest_standard_or_full n = Some c \<Longrightarrow> n \<le> max_content_size c \<and> c \<noteq> Lite"
  by (auto simp: smallest_standard_or_full_def split: if_splits)

lemma smallest_classD: "smallest_class n = Some c \<Longrightarrow> n \<le> max_content_size c"
  unfolding smallest_class_def find_class_iff by simp

lemma bounded_data_classD: "bounded_data_class n lo hi = Some c \<Longrightarrow> n \<le> max_content_size c"
  unfolding bounded_data_class_def find_class_iff by simp

lemma established_simps [simp]:
  "role (established r th a b sec) = r"
  "phase (established r th a b sec) = Established"
  "session_id (established r th a b sec) = is_session_id sec"
  "transcript_hash (established r th a b sec) = th"
  "refresh_root (established r th a b sec) = is_refresh_root sec"
  "skipped_keys (established r th a b sec) = store_default"
  "replay (established r th a b sec) = replay_default"
  "active_refresh_id (established r th a b sec) = None"
  "sending_chain (established r th a b sec) =
     DirectionChain_new (case r of Initiator \<Rightarrow> is_chain_i2r sec | Responder \<Rightarrow> is_chain_r2i sec)"
  "receiving_chain (established r th a b sec) =
     DirectionChain_new (case r of Initiator \<Rightarrow> is_chain_r2i sec | Responder \<Rightarrow> is_chain_i2r sec)"
  by (simp_all add: established_def split: SessionRole.splits)

lemma established_inv:
  assumes "derive_initial_secrets P k t = Inr sec" and "length th = 64"
  shows "session_inv (established r th a b sec) {}"
  using derive_initial_secretsD [OF assms(1)] assms(2) represents_length [OF represents_default]
  by (auto simp: session_inv_def session_wf_def chain_wf_def DirectionChain_new_def store_default_def
      store_len_def store_ok_def skipped_indices_def next_receive_index_def split: SessionRole.splits)

lemma full_wipe_simps [simp]:
  "role (full_wipe s) = role s"
  "phase (full_wipe s) = Closed"
  "active_refresh_id (full_wipe s) = None"
  "entries (skipped_keys (full_wipe s)) = []"
  "chain_key (sending_chain (full_wipe s)) = replicate 32 0"
  "chain_key (receiving_chain (full_wipe s)) = replicate 32 0"
  "next_index (sending_chain (full_wipe s)) = 0"
  "next_index (receiving_chain (full_wipe s)) = 0"
  "refresh_root (full_wipe s) = replicate 32 0"
  "session_id (full_wipe s) = replicate (length (session_id s)) 0"
  "transcript_hash (full_wipe s) = replicate (length (transcript_hash s)) 0"
  "replay (full_wipe s) = replay_clear (replay s)"
  by (simp_all add: full_wipe_def store_clear_def DirectionChain_new_def map_replicate_const)

lemma full_wipe_inv:
  assumes "session_wf s"
  shows "session_inv (full_wipe s) {}"
  using assms represents_clear [of "replay s"]
  by (auto simp: session_inv_def session_wf_def chain_wf_def store_len_def store_ok_def
      skipped_indices_def next_receive_index_def replay_clear_def)

text \<open>A snapshot of a state within the store's bound restores that state.\<close>

lemma session_snapshot_roundtrip:
  assumes "store_ok (skipped_keys s)" and "store_len (skipped_keys s) \<le> MAX_SKIP"
  shows "session_from_snapshot (session_export_snapshot s) = Inr s"
proof -
  have "store_from_snapshot (store_export_snapshot (skipped_keys s)) = Inr (skipped_keys s)"
    using assms by (simp add: store_snapshot_iff)
  then show ?thesis
    by (simp add: session_from_snapshot_def session_export_snapshot_def
        replay_from_snapshot_def replay_export_snapshot_def)
qed

end
