(* ===== verification/Session_Send.thy ===== *)
theory Session_Send
  imports Session_State
begin

text \<open>
  The sending half of a session, \<open>hydra-session/src/session/send.rs\<close>: every public send operation
  down to the sealed envelope. The lemmas give the exact outcome of a send on every branch: which
  error, that an error leaves the session untouched, and for a success the bytes of the envelope and
  the advanced chain.
\<close>

section \<open>Sealing\<close>

definition session_record :: "SessionState \<Rightarrow> ContentKind \<Rightarrow> u64 \<Rightarrow> bytes \<Rightarrow> ProtectedRecord" where
  "session_record s kind index bs =
     \<lparr>content_kind = kind, session_or_group_id = session_id s, sender_id = replicate 32 0,
      epoch = 0, state_version = 0, message_index = index, content = bs\<rparr>"

text \<open>Header, body and envelope, before any state changes.\<close>

definition seal_envelope ::
    "CryptoPrims \<Rightarrow> EnvelopeClass \<Rightarrow> u64 \<Rightarrow> RatchetStep \<Rightarrow> bytes \<Rightarrow> SessionError + bytes" where
  "seal_envelope P cls index step plaintext =
     rbind (map_err (\<lambda>_. SE_InvalidEnvelope)
              (encode_outer_header (OuterHeader_new Protected cls (step_route_tag step) index)))
       (\<lambda>header.
     rbind (map_err (\<lambda>_. SE_AuthenticationFailed)
              (aead_seal P (aead_key step) (replicate 12 0) header plaintext)) (\<lambda>body.
       Inr (header @ body)))"

definition install_sending :: "RatchetStep \<Rightarrow> u64 \<Rightarrow> SessionState \<Rightarrow> SessionState" where
  "install_sending step index s =
     s\<lparr>sending_chain := chain_install (sending_chain s) (next_chain_key step) (index + 1)\<rparr>"

definition seal_plaintext ::
    "CryptoPrims \<Rightarrow> EnvelopeClass \<Rightarrow> u64 \<Rightarrow> RatchetStep \<Rightarrow> bytes \<Rightarrow>
       (SessionState, SessionError, OutboundMessage) st" where
  "seal_plaintext P cls index step plaintext =
     st_bind (st_lift (seal_envelope P cls index step plaintext)) (\<lambda>env.
     st_bind (st_modify (install_sending step index)) (\<lambda>_.
       st_lift (Inr \<lparr>out_index = index, envelope = env\<rparr>)))"

definition seal_record ::
    "CryptoPrims \<Rightarrow> EnvelopeClass \<Rightarrow> ProtectedRecord \<Rightarrow>
       (SessionState, SessionError, OutboundMessage) st" where
  "seal_record P cls rec s =
     (let index = next_index (sending_chain s) in
      st_bind (st_lift (
        rbind (ensure (index \<noteq> u64_max) SE_CounterExhausted) (\<lambda>_.
        rbind (ensure (message_index rec = index) SE_InvalidState) (\<lambda>_.
        rbind (derive_step P (session_id s) (chain_key (sending_chain s)) index) (\<lambda>step.
        rbind (map_err (\<lambda>_. SE_InvalidPayload) (encode_protected_record cls rec)) (\<lambda>plaintext.
          Inr (step, plaintext)))))))
        (\<lambda>(step, plaintext). seal_plaintext P cls index step plaintext) s)"

definition send_record ::
    "CryptoPrims \<Rightarrow> ContentKind \<Rightarrow> EnvelopeClass \<Rightarrow> bytes \<Rightarrow>
       (SessionState, SessionError, OutboundMessage) st" where
  "send_record P kind cls bs s =
     seal_record P cls (session_record s kind (next_index (sending_chain s)) bs) s"

section \<open>Public operations\<close>

definition send_data :: "CryptoPrims \<Rightarrow> bytes \<Rightarrow> (SessionState, SessionError, OutboundMessage) st" where
  "send_data P bs s =
     st_bind (st_lift (
       rbind (ensure (phase s = Established) SE_InvalidState) (\<lambda>_.
         ok_or (smallest_class (length bs)) SE_InvalidPayload)))
       (\<lambda>cls. send_record P Data cls bs) s"

definition send_compact_data ::
    "CryptoPrims \<Rightarrow> bytes \<Rightarrow> (SessionState, SessionError, OutboundMessage) st" where
  "send_compact_data P bs s =
     (let index = next_index (sending_chain s) in
      st_bind (st_lift (
        rbind (ensure (phase s = Established) SE_InvalidState) (\<lambda>_.
        rbind (ensure (\<not> MAX_COMPACT_CONTENT_SIZE < length bs) SE_InvalidPayload) (\<lambda>_.
        rbind (ensure (index \<noteq> u64_max) SE_CounterExhausted) (\<lambda>_.
        rbind (map_err (\<lambda>_. SE_InvalidPayload)
                 (encode_compact_protected_record (session_record s Data index bs))) (\<lambda>plaintext.
        rbind (derive_step P (session_id s) (chain_key (sending_chain s)) index) (\<lambda>step.
        rbind (seal_envelope P Lite index step plaintext) (\<lambda>env.
          Inr (step, env)))))))))
        (\<lambda>(step, env).
      st_bind (st_modify (install_sending step index)) (\<lambda>_.
        st_lift (Inr \<lparr>out_index = index, envelope = env\<rparr>))) s)"

definition send_data_with_envelope_bounds ::
    "CryptoPrims \<Rightarrow> bytes \<Rightarrow> nat \<Rightarrow> nat \<Rightarrow> (SessionState, SessionError, OutboundMessage) st" where
  "send_data_with_envelope_bounds P bs min_envelope_size max_envelope_size s =
     st_bind (st_lift (
       rbind (ensure (phase s = Established) SE_InvalidState) (\<lambda>_.
         ok_or (bounded_data_class (length bs) min_envelope_size max_envelope_size)
           SE_InvalidPayload)))
       (\<lambda>cls. send_record P Data cls bs) s"

definition send_refresh_control ::
    "CryptoPrims \<Rightarrow> ContentKind \<Rightarrow> bytes \<Rightarrow> (SessionState, SessionError, OutboundMessage) st" where
  "send_refresh_control P kind bs s =
     st_bind (st_lift (ensure (phase s = Refreshing \<and> kind \<in> {RefreshInit, RefreshResp})
                SE_InvalidState))
       (\<lambda>_. send_record P kind Standard bs) s"

definition send_signed_control ::
    "CryptoPrims \<Rightarrow> ContentKind \<Rightarrow> bytes \<Rightarrow> (SessionState, SessionError, OutboundMessage) st" where
  "send_signed_control P kind bs s =
     st_bind (st_lift (
       rbind (ensure (phase s = Established) SE_InvalidState) (\<lambda>_.
         case kind of
           IdentityRotation \<Rightarrow> Inr Standard
         | DeviceRevocation \<Rightarrow> ok_or (smallest_standard_or_full (length bs)) SE_InvalidPayload
         | _ \<Rightarrow> Inl SE_InvalidState)))
       (\<lambda>cls. send_record P kind cls bs) s"

definition send_close ::
    "CryptoPrims \<Rightarrow> u16 \<Rightarrow> (SessionState, SessionError, OutboundMessage) st" where
  "send_close P generic_reason_code s =
     st_bind (st_lift (ensure (phase s \<in> {Established, Refreshing}) SE_InvalidState)) (\<lambda>_.
     st_bind (send_record P Close Lite (be_bytes 2 generic_reason_code)) (\<lambda>outbound.
     st_bind (st_modify (\<lambda>s. s\<lparr>phase := Closing, active_refresh_id := None\<rparr>)) (\<lambda>_.
       st_lift (Inr outbound)))) s"

section \<open>Outcomes\<close>

definition protected_header :: "EnvelopeClass \<Rightarrow> RatchetStep \<Rightarrow> u64 \<Rightarrow> OuterHeader" where
  "protected_header cls step index = OuterHeader_new Protected cls (step_route_tag step) index"

lemma protected_header_ok: "length (step_route_tag st) = 16 \<Longrightarrow> header_ok (protected_header c st i)"
  by (simp add: protected_header_def OuterHeader_new_def header_ok_def)

lemma protected_header_fields [simp]:
  "mode (protected_header c st i) = Protected"
  "envelope_class (protected_header c st i) = c"
  "route_tag (protected_header c st i) = step_route_tag st"
  "counter (protected_header c st i) = i"
  by (simp_all add: protected_header_def OuterHeader_new_def)

text \<open>
  \<open>sealed P cls step index plaintext env\<close>: the envelope is the header followed by the sealed
  plaintext under the step's key with the header as associated data.
\<close>

definition sealed ::
    "CryptoPrims \<Rightarrow> EnvelopeClass \<Rightarrow> RatchetStep \<Rightarrow> u64 \<Rightarrow> bytes \<Rightarrow> bytes \<Rightarrow> bool" where
  "sealed P cls step index plaintext env \<longleftrightarrow>
     (\<exists>body. aead_seal P (aead_key step) (replicate 12 0)
               (header_layout (protected_header cls step index)) plaintext = Inr body \<and>
             env = header_layout (protected_header cls step index) @ body)"

lemma seal_envelope_iff:
  assumes "length (step_route_tag step) = 16"
  shows "seal_envelope P c i step p = Inr env \<longleftrightarrow> sealed P c step i p env"
  using encode_outer_header_layout [OF protected_header_ok [OF assms, of c i]]
  by (auto simp: seal_envelope_def sealed_def protected_header_def result_simps)

lemma seal_envelope_total:
  assumes "length (step_route_tag step) = 16" and "aead_ok P" and "length p \<le> AEAD_MESSAGE_LIMIT"
  shows "\<exists>env. seal_envelope P c i step p = Inr env"
  using aead_seal_total [OF assms(2) _ assms(3), of "replicate 12 0"]
  by (simp add: seal_envelope_iff [OF assms(1)] sealed_def)

lemma encode_protected_record_length:
  assumes "record_ids_ok r" and "encode_protected_record c r = Inr p"
  shows "length p = protected_record_size c" and "length p \<le> AEAD_MESSAGE_LIMIT"
proof -
  show l: "length p = protected_record_size c"
    using assms by (auto simp: encode_protected_record_Inr_iff length_record_layout record_ok_def
        protected_record_size_split)
  show "length p \<le> AEAD_MESSAGE_LIMIT"
    unfolding l by (cases c) (simp_all add: protected_record_size_def body_size_def AEAD_MESSAGE_LIMIT_def)
qed

lemma session_record_ids: "session_wf s \<Longrightarrow> record_ids_ok (session_record s k i bs)"
  by (simp add: record_ids_ok_def session_record_def session_wf_def)

lemma session_record_ok:
  "session_wf s \<Longrightarrow> record_ok c (session_record s k i bs) \<longleftrightarrow> length bs \<le> max_content_size c"
  by (simp add: record_ok_def session_record_ids) (simp add: session_record_def)

lemma message_index_session: "message_index (session_record s k i bs) = i"
  by (simp add: session_record_def)

text \<open>The effect of a successful send on the state.\<close>

definition advanced_by :: "RatchetStep \<Rightarrow> SessionState \<Rightarrow> SessionState" where
  "advanced_by step s = install_sending step (next_index (sending_chain s)) s"

lemma advanced_by_simps [simp]:
  "role (advanced_by st s) = role s"
  "phase (advanced_by st s) = phase s"
  "session_id (advanced_by st s) = session_id s"
  "transcript_hash (advanced_by st s) = transcript_hash s"
  "refresh_root (advanced_by st s) = refresh_root s"
  "receiving_chain (advanced_by st s) = receiving_chain s"
  "skipped_keys (advanced_by st s) = skipped_keys s"
  "replay (advanced_by st s) = replay s"
  "active_refresh_id (advanced_by st s) = active_refresh_id s"
  "chain_key (sending_chain (advanced_by st s)) = next_chain_key st"
  "next_index (sending_chain (advanced_by st s)) = next_index (sending_chain s) + 1"
  by (simp_all add: advanced_by_def install_sending_def chain_install_def)

lemma seal_record_Inr:
  assumes "seal_record P c r s = (Inr m, s')" and "hash_ok P"
  shows "\<exists>step p. next_index (sending_chain s) \<noteq> u64_max \<and>
    message_index r = next_index (sending_chain s) \<and>
    derive_step P (session_id s) (chain_key (sending_chain s)) (next_index (sending_chain s)) = Inr step \<and>
    encode_protected_record c r = Inr p \<and>
    out_index m = next_index (sending_chain s) \<and>
    sealed P c step (out_index m) p (envelope m) \<and> s' = advanced_by step s"
proof -
  obtain step p env where
    "next_index (sending_chain s) \<noteq> u64_max" "message_index r = next_index (sending_chain s)"
    and step: "derive_step P (session_id s) (chain_key (sending_chain s)) (next_index (sending_chain s)) = Inr step"
    and "encode_protected_record c r = Inr p"
    and env: "seal_envelope P c (next_index (sending_chain s)) step p = Inr env"
    and "m = \<lparr>out_index = next_index (sending_chain s), envelope = env\<rparr>" "s' = advanced_by step s"
    using assms(1)
    by (auto simp: seal_record_def seal_plaintext_def Let_def result_simps advanced_by_def)
  then show ?thesis
    using derive_stepD(5) [OF step] route_tag_length [OF assms(2)] by (auto simp: seal_envelope_iff)
qed

lemma seal_record_succeeds:
  assumes P: "hash_ok P" "kdf_ok P" "aead_ok P" and wf: "session_wf s"
    and i: "next_index (sending_chain s) \<noteq> u64_max" "message_index r = next_index (sending_chain s)"
    and r: "record_ok c r"
  shows "\<exists>m s'. seal_record P c r s = (Inr m, s')"
proof -
  obtain step where step: "derive_step P (session_id s) (chain_key (sending_chain s))
      (next_index (sending_chain s)) = Inr step"
    using derive_step_total [OF P(2), of "chain_key (sending_chain s)"] wf
    by (auto simp: session_wf_def chain_wf_def)
  have ids: "record_ids_ok r" using r by (simp add: record_ok_def)
  then obtain p where p: "encode_protected_record c r = Inr p"
    using r by (auto simp: encode_protected_record_Inr_iff)
  obtain env where "seal_envelope P c (next_index (sending_chain s)) step p = Inr env"
    using seal_envelope_total [OF _ P(3) encode_protected_record_length(2) [OF ids p]]
      derive_stepD(5) [OF step] route_tag_length [OF P(1)] by metis
  then show ?thesis
    using i step p by (simp add: seal_record_def seal_plaintext_def Let_def st_lift_def st_modify_def)
qed

lemma send_record_Inr:
  assumes "send_record P k c bs s = (Inr m, s')" and "hash_ok P"
  shows "\<exists>step p. next_index (sending_chain s) \<noteq> u64_max \<and>
    derive_step P (session_id s) (chain_key (sending_chain s)) (next_index (sending_chain s)) = Inr step \<and>
    encode_protected_record c (session_record s k (next_index (sending_chain s)) bs) = Inr p \<and>
    out_index m = next_index (sending_chain s) \<and>
    sealed P c step (out_index m) p (envelope m) \<and> s' = advanced_by step s"
  using seal_record_Inr [OF assms(1) [unfolded send_record_def] assms(2)] by auto

lemma send_record_succeeds:
  assumes "hash_ok P" "kdf_ok P" "aead_ok P" and "session_wf s"
    and "next_index (sending_chain s) \<noteq> u64_max" and "length bs \<le> max_content_size c"
  shows "\<exists>m s'. send_record P k c bs s = (Inr m, s')"
  unfolding send_record_def
  by (rule seal_record_succeeds) (use assms in \<open>simp_all add: session_record_ok message_index_session\<close>)

section \<open>Errors leave the session untouched\<close>

named_theorems atomic_intros \<open>the operations of the session that are failure-atomic\<close>

lemma seal_plaintext_atomic: "failure_atomic (seal_plaintext P c i st p)"
  unfolding seal_plaintext_def
  by (intro failure_atomic_then_total failure_atomic_lift)
    (auto simp: st_bind_Inl_iff st_modify_iff st_lift_iff)

lemma seal_record_atomic: "failure_atomic (seal_record P c r)"
  unfolding seal_record_def [abs_def] Let_def
  by (auto simp: failure_atomic_def st_bind_Inl_iff st_lift_iff
      dest: failure_atomicD [OF seal_plaintext_atomic])

lemma send_record_atomic: "failure_atomic (send_record P k c bs)"
  unfolding send_record_def [abs_def]
  by (auto simp: failure_atomic_def dest: failure_atomicD [OF seal_record_atomic])

lemma send_data_atomic [atomic_intros]: "failure_atomic (send_data P bs)"
  unfolding send_data_def [abs_def]
  by (intro failure_atomic_read_first send_record_atomic)

lemma send_bounds_atomic [atomic_intros]: "failure_atomic (send_data_with_envelope_bounds P bs lo hi)"
  unfolding send_data_with_envelope_bounds_def [abs_def]
  by (intro failure_atomic_read_first send_record_atomic)

lemma send_refresh_control_atomic [atomic_intros]: "failure_atomic (send_refresh_control P k bs)"
  unfolding send_refresh_control_def [abs_def]
  by (intro failure_atomic_read_first send_record_atomic)

lemma send_signed_control_atomic [atomic_intros]: "failure_atomic (send_signed_control P k bs)"
  unfolding send_signed_control_def [abs_def]
  by (intro failure_atomic_read_first send_record_atomic)

lemma send_compact_data_atomic [atomic_intros]: "failure_atomic (send_compact_data P bs)"
  unfolding send_compact_data_def [abs_def] Let_def
  by (auto simp: failure_atomic_def st_bind_Inl_iff st_lift_iff st_modify_iff)

lemma send_close_atomic [atomic_intros]: "failure_atomic (send_close P code)"
  unfolding send_close_def [abs_def]
  by (intro failure_atomic_read_first failure_atomic_then_total send_record_atomic)
    (auto simp: st_bind_Inl_iff st_modify_iff st_lift_iff)

end
