(* ===== verification/Session_Receive.thy ===== *)
theory Session_Receive
  imports Session_Send
begin

text \<open>
  The receiving half of a session, \<open>hydra-session/src/session/receive.rs\<close>: header checks, replay
  check, the skipped-key path and the ratcheting path, opening and validating the record, and only
  then the state change. The lemmas show that a failure changes nothing, that the invariant is kept,
  and exactly which envelopes a receiver on a chain accepts.
\<close>

section \<open>Validation\<close>

datatype EnvelopeEncoding = Fixed | Compact

fun map_replay_error :: "ReplayError \<Rightarrow> SessionError" where
  "map_replay_error Replay = SE_ReplayDetected"
| "map_replay_error TooOld = SE_MessageTooOld"

definition valid_class_and_content :: "ProtectedRecord \<Rightarrow> EnvelopeClass \<Rightarrow> bool" where
  "valid_class_and_content r cls =
     (case content_kind r of
        Data \<Rightarrow> length (content r) \<le> max_content_size cls
      | RefreshInit \<Rightarrow> cls = Standard
      | RefreshResp \<Rightarrow> cls = Standard
      | IdentityRotation \<Rightarrow> cls = Standard
      | DeviceRevocation \<Rightarrow> smallest_standard_or_full (length (content r)) = Some cls
      | Close \<Rightarrow> cls = Lite \<and> length (content r) = 2
      | _ \<Rightarrow> False)"

definition valid_encoding_and_content ::
    "ProtectedRecord \<Rightarrow> EnvelopeClass \<Rightarrow> EnvelopeEncoding \<Rightarrow> bool" where
  "valid_encoding_and_content r cls encoding =
     (case encoding of
        Fixed \<Rightarrow> valid_class_and_content r cls
      | Compact \<Rightarrow> cls = Lite \<and> content_kind r = Data \<and>
          length (content r) \<le> MAX_COMPACT_CONTENT_SIZE)"

definition open_and_validate ::
    "CryptoPrims \<Rightarrow> Secret32 \<Rightarrow> OuterHeader \<Rightarrow> bytes \<Rightarrow> bytes \<Rightarrow> SessionPhase \<Rightarrow> EnvelopeEncoding \<Rightarrow>
       SessionError + ProtectedRecord" where
  "open_and_validate P key header env sid ph encoding =
     rbind (map_err (\<lambda>_. SE_AuthenticationFailed)
              (aead_open P key (replicate 12 0) (take OUTER_HEADER_SIZE env)
                (drop OUTER_HEADER_SIZE env))) (\<lambda>plaintext.
     rbind (map_err (\<lambda>_. SE_AuthenticationFailed)
              (case encoding of
                 Fixed \<Rightarrow> decode_protected_record (envelope_class header) plaintext
               | Compact \<Rightarrow> decode_compact_protected_record plaintext)) (\<lambda>r.
     rbind (ensure (\<not> (session_or_group_id r \<noteq> sid \<or> sender_id r \<noteq> replicate 32 0 \<or> epoch r \<noteq> 0 \<or>
                state_version r \<noteq> 0 \<or> message_index r \<noteq> counter header \<or>
                \<not> valid_encoding_and_content r (envelope_class header) encoding \<or>
                (ph = Closing \<and> content_kind r \<noteq> Close))) SE_AuthenticationFailed) (\<lambda>_.
       Inr r)))"

section \<open>The two receive paths\<close>

type_synonym validator = "ProtectedRecord \<Rightarrow> SessionError + unit"

definition receive_skipped ::
    "CryptoPrims \<Rightarrow> OuterHeader \<Rightarrow> bytes \<Rightarrow> EnvelopeEncoding \<Rightarrow> validator \<Rightarrow>
       (SessionState, SessionError, ProtectedRecord) st" where
  "receive_skipped P header env encoding validate s =
     (let direction = receiving_direction s in
      st_bind (st_lift (
        rbind (ok_or (store_get (skipped_keys s) (session_id s) direction (counter header))
                 SE_MessageTooOld) (\<lambda>key.
        rbind (ensure (constant_time_tag_eq (derive_route_tag P key (session_id s) (counter header))
                 (route_tag header)) SE_AuthenticationFailed) (\<lambda>_.
        rbind (derive_aead_key P key (session_id s) (counter header)) (\<lambda>aead.
        rbind (open_and_validate P aead header env (session_id s) (phase s) encoding) (\<lambda>r.
        rbind (validate r) (\<lambda>_.
        rbind (map_err map_replay_error (replay_mark (replay s) (counter header))) (\<lambda>window.
          Inr (r, window)))))))))
        (\<lambda>(r, window).
      st_bind (st_try (\<lambda>s.
          rbind (store_remove (skipped_keys s) (session_id s) direction (counter header))
            (\<lambda>store. Inr (s\<lparr>skipped_keys := store\<rparr>)))) (\<lambda>_.
      st_bind (st_modify (\<lambda>s. s\<lparr>replay := window\<rparr>)) (\<lambda>_.
        st_lift (Inr r)))) s)"

definition receive_current_or_future ::
    "CryptoPrims \<Rightarrow> OuterHeader \<Rightarrow> bytes \<Rightarrow> EnvelopeEncoding \<Rightarrow> validator \<Rightarrow>
       (SessionState, SessionError, ProtectedRecord) st" where
  "receive_current_or_future P header env encoding validate s =
     (let start = next_index (receiving_chain s) in
      st_bind (st_lift (
        rbind (ok_or (checked_sub_u64 (counter header) start) SE_InvalidState) (\<lambda>gap.
        rbind (ensure (\<not> of_nat MAX_SKIP < gap) SE_MessageTooFarAhead) (\<lambda>_.
        rbind (ensure_capacity_for (skipped_keys s) (unat gap)) (\<lambda>_.
        rbind (ratchet_walk (derive_step P (session_id s)) next_chain_key
                 (\<lambda>cursor step. (cursor, message_key step)) SE_CounterExhausted
                 (chain_key (receiving_chain s)) start (counter header)) (\<lambda>(skipped, final_step).
        rbind (ensure (constant_time_tag_eq (step_route_tag final_step) (route_tag header))
                 SE_AuthenticationFailed) (\<lambda>_.
        rbind (open_and_validate P (aead_key final_step) header env (session_id s) (phase s)
                 encoding) (\<lambda>r.
        rbind (validate r) (\<lambda>_.
        rbind (map_err map_replay_error (replay_mark (replay s) (counter header))) (\<lambda>window.
          Inr (r, window, skipped, final_step)))))))))))
        (\<lambda>(r, window, skipped, final_step).
      st_bind (st_modify (\<lambda>s. s\<lparr>skipped_keys :=
          commit_batch (skipped_keys s) (session_id s) (receiving_direction s) skipped\<rparr>)) (\<lambda>_.
      st_bind (st_modify (\<lambda>s. s\<lparr>receiving_chain :=
          chain_install (receiving_chain s) (next_chain_key final_step) (counter header + 1)\<rparr>)) (\<lambda>_.
      st_bind (st_modify (\<lambda>s. s\<lparr>replay := window\<rparr>)) (\<lambda>_.
        st_lift (Inr r))))) s)"

section \<open>Public operations\<close>

definition receive_with_encoding ::
    "CryptoPrims \<Rightarrow> bytes \<Rightarrow> EnvelopeEncoding \<Rightarrow> validator \<Rightarrow>
       (SessionState, SessionError, ReceivedMessage) st" where
  "receive_with_encoding P env encoding validate s =
     st_bind (st_lift (
       rbind (ensure (phase s \<in> {Established, Refreshing, Closing}) SE_InvalidState) (\<lambda>_.
       rbind (map_err (\<lambda>_. SE_InvalidEnvelope)
                (case encoding of
                   Fixed \<Rightarrow> decode_outer_header env
                 | Compact \<Rightarrow> decode_outer_header_prefix env)) (\<lambda>header.
       rbind (ensure (\<not> (mode header \<noteq> Protected \<or> counter header = u64_max \<or>
                 (encoding = Compact \<and> envelope_class header \<noteq> Lite))) SE_InvalidEnvelope) (\<lambda>_.
       rbind (map_err map_replay_error (replay_check (replay s) (counter header))) (\<lambda>_.
         Inr header))))))
       (\<lambda>header.
     st_bind (if counter header < next_index (receiving_chain s)
              then receive_skipped P header env encoding validate
              else receive_current_or_future P header env encoding validate) (\<lambda>r.
     st_bind (st_modify (\<lambda>s. if content_kind r = Close then full_wipe s else s)) (\<lambda>_.
       st_lift (Inr \<lparr>rm_index = message_index r, rm_content_kind = content_kind r,
                      rm_content = content r\<rparr>)))) s"

definition receive_validator :: validator where
  "receive_validator r =
     (if content_kind r \<in> {Data, Close} then Inr () else Inl SE_AuthenticationFailed)"

definition receive :: "CryptoPrims \<Rightarrow> bytes \<Rightarrow> (SessionState, SessionError, ReceivedMessage) st" where
  "receive P env = receive_with_encoding P env Fixed receive_validator"

definition receive_validated ::
    "CryptoPrims \<Rightarrow> bytes \<Rightarrow> validator \<Rightarrow> (SessionState, SessionError, ReceivedMessage) st" where
  "receive_validated P env validate = receive_with_encoding P env Fixed validate"

definition receive_compact ::
    "CryptoPrims \<Rightarrow> bytes \<Rightarrow> (SessionState, SessionError, ReceivedMessage) st" where
  "receive_compact P env =
     (let minimum = OUTER_HEADER_SIZE + AEAD_TAG_SIZE + INNER_HEADER_SIZE;
          maximum = minimum + MAX_COMPACT_CONTENT_SIZE
      in st_bind (st_lift (ensure (minimum \<le> length env \<and> length env \<le> maximum)
                   SE_InvalidEnvelope))
           (\<lambda>_. receive_with_encoding P env Compact (\<lambda>_. Inr ())))"

section \<open>A failure changes nothing\<close>

lemma receive_current_or_future_atomic: "failure_atomic (receive_current_or_future P h env enc v)"
  unfolding receive_current_or_future_def [abs_def] Let_def
  by (intro failure_atomic_read_first)
    (auto simp: failure_atomic_def st_bind_Inl_iff st_modify_iff st_lift_iff)

lemma receive_skipped_atomic: "failure_atomic (receive_skipped P h env enc v)"
  unfolding receive_skipped_def [abs_def] Let_def
  by (auto simp: failure_atomic_def st_bind_Inl_iff st_modify_iff st_lift_iff st_try_Inl_iff
      split: prod.splits)

lemma receive_with_encoding_atomic [atomic_intros]:
  "failure_atomic (receive_with_encoding P env enc v)"
  unfolding receive_with_encoding_def [abs_def]
  by (auto simp: failure_atomic_def st_bind_Inl_iff st_modify_iff st_lift_iff split: if_splits
      dest: failure_atomicD [OF receive_skipped_atomic]
        failure_atomicD [OF receive_current_or_future_atomic])

lemma receive_atomic [atomic_intros]: "failure_atomic (receive P env)"
  by (simp add: receive_def receive_with_encoding_atomic)

lemma receive_validated_atomic [atomic_intros]: "failure_atomic (receive_validated P env v)"
  by (simp add: receive_validated_def receive_with_encoding_atomic)

lemma receive_compact_atomic [atomic_intros]: "failure_atomic (receive_compact P env)"
  unfolding receive_compact_def Let_def
  by (auto simp: failure_atomic_def st_bind_Inl_iff st_lift_iff
      dest: failure_atomicD [OF receive_with_encoding_atomic])

section \<open>Which envelopes are accepted\<close>

text \<open>The step of index \<open>i\<close> on the chain that starts at \<open>k\<close>.\<close>

abbreviation step_at :: "CryptoPrims \<Rightarrow> bytes \<Rightarrow> Secret32 \<Rightarrow> nat \<Rightarrow> RatchetStep" where
  "step_at P sid k i \<equiv> ratchet_step (derive_step P sid) next_chain_key k i"

definition encode_as :: "EnvelopeEncoding \<Rightarrow> EnvelopeClass \<Rightarrow> ProtectedRecord \<Rightarrow> WireError + bytes" where
  "encode_as encoding cls r =
     (case encoding of
        Fixed \<Rightarrow> encode_protected_record cls r
      | Compact \<Rightarrow> encode_compact_protected_record r)"

text \<open>The record is one of this session, at this index, in a form the class admits.\<close>

definition record_matches ::
    "bytes \<Rightarrow> EnvelopeEncoding \<Rightarrow> EnvelopeClass \<Rightarrow> u64 \<Rightarrow> ProtectedRecord \<Rightarrow> bool" where
  "record_matches sid encoding cls i r \<longleftrightarrow> record_ids_ok r \<and> session_or_group_id r = sid \<and>
     sender_id r = replicate 32 0 \<and> epoch r = 0 \<and> state_version r = 0 \<and> message_index r = i \<and>
     valid_encoding_and_content r cls encoding"

text \<open>
  \<open>genuine\<close>: the envelope is what a sender on the chain from \<open>k\<close> produces for record \<open>r\<close> at index
  \<open>i\<close>.
\<close>

definition genuine ::
    "CryptoPrims \<Rightarrow> Secret32 \<Rightarrow> bytes \<Rightarrow> EnvelopeEncoding \<Rightarrow> EnvelopeClass \<Rightarrow> u64 \<Rightarrow> ProtectedRecord \<Rightarrow>
       bytes \<Rightarrow> bool" where
  "genuine P k sid encoding cls i r env \<longleftrightarrow> record_matches sid encoding cls i r \<and>
     (\<exists>p. encode_as encoding cls r = Inr p \<and> sealed P cls (step_at P sid k (unat i)) i p env)"

lemma open_and_validate_iff:
  assumes P: "aead_ok P" and env: "take 64 env = header_layout h"
  shows "open_and_validate P key h env sid ph enc = Inr r \<longleftrightarrow>
    record_matches sid enc (envelope_class h) (counter h) r \<and> (ph = Closing \<longrightarrow> content_kind r = Close) \<and>
    (\<exists>p. encode_as enc (envelope_class h) r = Inr p \<and>
       aead_seal P key (replicate 12 0) (header_layout h) p = Inr (drop 64 env))"
proof -
  have dec: "(case enc of Fixed \<Rightarrow> decode_protected_record (envelope_class h) p
      | Compact \<Rightarrow> decode_compact_protected_record p) = Inr r \<longleftrightarrow>
      record_ids_ok r \<and> encode_as enc (envelope_class h) r = Inr p" for p
    by (cases enc) (simp_all add: encode_as_def protected_record.dec_accepts_iff
        compact_record.dec_accepts_iff)
  show ?thesis
    unfolding open_and_validate_def record_matches_def
    by (simp add: env result_simps aead_open_iff [OF P] dec del: de_Morgan_disj) blast
qed

lemma sealed_tag_header:
  assumes "header_ok h" and "mode h = Protected" and "route_tag h = step_route_tag st"
  shows "h = protected_header (envelope_class h) st (counter h)"
  using assms by (simp add: header_ok_def protected_header_def OuterHeader_new_def)

lemma sealed_iff:
  assumes "header_ok h" and "take 64 env = header_layout h" and "64 \<le> length env"
    and "mode h = Protected" and tag: "length (step_route_tag st) = 16"
  shows "route_tag h = step_route_tag st \<and>
      aead_seal P (aead_key st) (replicate 12 0) (header_layout h) p = Inr (drop 64 env) \<longleftrightarrow>
    sealed P (envelope_class h) st (counter h) p env"
proof
  assume l: "route_tag h = step_route_tag st \<and>
      aead_seal P (aead_key st) (replicate 12 0) (header_layout h) p = Inr (drop 64 env)"
  then have "h = protected_header (envelope_class h) st (counter h)"
    using assms sealed_tag_header by blast
  then show "sealed P (envelope_class h) st (counter h) p env"
    using l assms(2) append_take_drop_id [of 64 env] unfolding sealed_def by metis
next
  assume "sealed P (envelope_class h) st (counter h) p env"
  then obtain body where body: "aead_seal P (aead_key st) (replicate 12 0)
      (header_layout (protected_header (envelope_class h) st (counter h))) p = Inr body"
    and env: "env = header_layout (protected_header (envelope_class h) st (counter h)) @ body"
    by (auto simp: sealed_def)
  have ok: "header_ok (protected_header (envelope_class h) st (counter h))"
    by (rule protected_header_ok [OF tag])
  have "header_layout h = header_layout (protected_header (envelope_class h) st (counter h))"
    using assms(2) env length_header_layout [OF ok] by simp
  moreover from this have "h = protected_header (envelope_class h) st (counter h)"
    using decode_header_layout [OF ok, of "[]"] decode_header_layout [OF assms(1), of "[]"] by simp
  ultimately show "route_tag h = step_route_tag st \<and>
      aead_seal P (aead_key st) (replicate 12 0) (header_layout h) p = Inr (drop 64 env)"
    using body env length_header_layout [OF ok] protected_header_fields(3) by (metis append_eq_conv_conj)
qed

text \<open>Route tag and body together: what the two receive paths check of an envelope.\<close>

lemma tag_and_open_iff:
  assumes P: "aead_ok P" and h: "header_ok h" "take 64 env = header_layout h" "64 \<le> length env"
    and m: "mode h = Protected" and tag: "length (step_route_tag st) = 16"
  shows "constant_time_tag_eq (step_route_tag st) (route_tag h) \<and>
      open_and_validate P (aead_key st) h env sid ph enc = Inr r \<longleftrightarrow>
    record_matches sid enc (envelope_class h) (counter h) r \<and> (ph = Closing \<longrightarrow> content_kind r = Close) \<and>
    (\<exists>p. encode_as enc (envelope_class h) r = Inr p \<and> sealed P (envelope_class h) st (counter h) p env)"
proof -
  have "length (route_tag h) = 16" using h(1) by (simp add: header_ok_def)
  then have "constant_time_tag_eq (step_route_tag st) (route_tag h) \<longleftrightarrow> route_tag h = step_route_tag st"
    using tag by (auto simp: constant_time_tag_eq_iff)
  then show ?thesis
    using sealed_iff [OF h m tag, of P] open_and_validate_iff [OF P h(2), of "aead_key st" sid ph enc r]
    by blast
qed

section \<open>The paths on a chain\<close>

text \<open>
  A receiver whose state is consistent with the delivered indices \<open>H\<close> and whose keys are those of
  the chain from \<open>k\<close>.
\<close>

definition receiver_ok :: "CryptoPrims \<Rightarrow> Secret32 \<Rightarrow> SessionState \<Rightarrow> nat set \<Rightarrow> bool" where
  "receiver_ok P k s H \<longleftrightarrow> length k = 32 \<and> session_inv s H \<and> receiver_on_chain P k s"

text \<open>Index \<open>i\<close> is new, inside the window, and close enough for the store.\<close>

definition arrival_ok :: "SessionState \<Rightarrow> nat set \<Rightarrow> u64 \<Rightarrow> bool" where
  "arrival_ok s H i \<longleftrightarrow> i \<noteq> u64_max \<and> replay_spec_check H (unat i) = Inr () \<and>
     (next_receive_index s \<le> i \<longrightarrow>
        store_len (skipped_keys s) + (unat i - unat (next_receive_index s)) \<le> MAX_SKIP)"

text \<open>The state after delivering index \<open>i\<close>: the old key is used up, or the chain has moved past it.\<close>

definition delivered ::
    "CryptoPrims \<Rightarrow> Secret32 \<Rightarrow> SessionState \<Rightarrow> u64 \<Rightarrow> SessionState \<Rightarrow> bool" where
  "delivered P k s i s' \<longleftrightarrow> (\<exists>window. replay_mark (replay s) i = Inr window \<and>
     (if i < next_receive_index s
      then \<exists>store. store_remove (skipped_keys s) (session_id s) (receiving_direction s) i = Inr store \<and>
        s' = s\<lparr>skipped_keys := store, replay := window\<rparr>
      else s' = s\<lparr>skipped_keys := commit_batch (skipped_keys s) (session_id s) (receiving_direction s)
               (map (\<lambda>j. (of_nat j, message_key (step_at P (session_id s) k j)))
                  [unat (next_receive_index s)..<unat i]),
             receiving_chain := \<lparr>chain_key = next_chain_key (step_at P (session_id s) k (unat i)),
               next_index = i + 1\<rparr>,
             replay := window\<rparr>))"

lemma step_at_derive:
  assumes "crypto_ok P" and "length k = 32"
  shows "derive_step P sid (ratchet_key (derive_step P sid) next_chain_key k (unat i)) i =
    Inr (step_at P sid k (unat i))"
  using session_ratchet.derive_on_chain [where P = P and sid = sid] assms by (simp add: crypto_ok_def)

lemma step_at_fields:
  assumes "crypto_ok P" and "length k = 32"
  shows "derive_aead_key P (message_key (step_at P sid k (unat i))) sid i =
      Inr (aead_key (step_at P sid k (unat i)))"
    and "derive_route_tag P (message_key (step_at P sid k (unat i))) sid i =
      step_route_tag (step_at P sid k (unat i))"
    and "length (step_route_tag (step_at P sid k (unat i))) = 16"
    and "length (message_key (step_at P sid k (unat i))) = 32"
    and "length (next_chain_key (step_at P sid k (unat i))) = 32"
  using derive_stepD [OF step_at_derive [OF assms]] route_tag_length [of P] assms(1)
  by (simp_all add: crypto_ok_def)

lemma spec_check_fresh: "finite H \<Longrightarrow> replay_spec_check H i = Inr () \<Longrightarrow> i \<notin> H"
  by (auto simp: replay_spec_check_def split: if_splits dest: Max_ge)

lemma session_inv_finite: "session_inv s H \<Longrightarrow> finite H"
  by (simp add: session_inv_def represents_def)

lemma skipped_lookup:
  assumes ok: "receiver_ok P k s H" and less: "i < next_receive_index s" and new: "unat i \<notin> H"
  shows "store_get (skipped_keys s) (session_id s) (receiving_direction s) i =
    Some (message_key (step_at P (session_id s) k (unat i)))"
proof -
  have inv: "session_inv s H" and chain: "receiver_on_chain P k s"
    using ok by (simp_all add: receiver_ok_def)
  have "unat i \<in> skipped_indices s"
    using inv less new unfolding session_inv_def by (auto simp: word_less_nat_alt)
  then obtain e where e: "e \<in> set (entries (skipped_keys s))" and idx: "sk_index e = i"
    by (auto simp: skipped_indices_def word_unat_eq_iff)
  have "e = \<lparr>sk_session_id = session_id s, sk_direction = receiving_direction s, sk_index = i,
      sk_key = message_key (step_at P (session_id s) k (unat i))\<rparr>"
    using e idx inv chain entry_eta [of e] by (auto simp: session_inv_def receiver_on_chain_def)
  then show ?thesis
    using e inv by (simp add: store_get_Some_iff session_inv_def)
qed

lemma replay_mark_spec:
  assumes "session_inv s H"
  shows "(\<exists>w. replay_mark (replay s) i = Inr w) \<longleftrightarrow> replay_spec_check H (unat i) = Inr ()"
    and "replay_check (replay s) i = replay_spec_check H (unat i)"
  using assms replay_mark_accepts_iff replay_check_correct by (auto simp: session_inv_def)

lemma receive_skipped_iff:
  assumes P: "crypto_ok P" and ok: "receiver_ok P k s H"
    and h: "header_ok h" "take 64 env = header_layout h" "64 \<le> length env" "mode h = Protected"
    and less: "counter h < next_receive_index s" and chk: "replay_spec_check H (unat (counter h)) = Inr ()"
  shows "receive_skipped P h env enc v s = (Inr r, s') \<longleftrightarrow>
    genuine P k (session_id s) enc (envelope_class h) (counter h) r env \<and>
    (phase s = Closing \<longrightarrow> content_kind r = Close) \<and> v r = Inr () \<and> delivered P k s (counter h) s'"
proof -
  have k: "length k = 32" and aead: "aead_ok P" and inv: "session_inv s H"
    using P ok by (simp_all add: crypto_ok_def receiver_ok_def)
  have new: "unat (counter h) \<notin> H"
    using chk spec_check_fresh session_inv_finite [OF inv] by blast
  note get = skipped_lookup [OF ok less new]
  note f = step_at_fields [OF P k, of "session_id s" "counter h"]
  have "receive_skipped P h env enc v s = (Inr r, s') \<longleftrightarrow>
      (constant_time_tag_eq (step_route_tag (step_at P (session_id s) k (unat (counter h)))) (route_tag h) \<and>
       open_and_validate P (aead_key (step_at P (session_id s) k (unat (counter h)))) h env (session_id s)
         (phase s) enc = Inr r) \<and> v r = Inr () \<and> delivered P k s (counter h) s'"
    using less
    by (auto simp: receive_skipped_def Let_def result_simps get f(1,2) delivered_def)
  then show ?thesis
    using tag_and_open_iff [OF aead h f(3)] by (auto simp: genuine_def)
qed

lemma receive_future_iff:
  assumes P: "crypto_ok P" and ok: "receiver_ok P k s H"
    and h: "header_ok h" "take 64 env = header_layout h" "64 \<le> length env" "mode h = Protected"
    and ge: "\<not> counter h < next_receive_index s"
  shows "receive_current_or_future P h env enc v s = (Inr r, s') \<longleftrightarrow>
    store_len (skipped_keys s) + (unat (counter h) - unat (next_receive_index s)) \<le> MAX_SKIP \<and>
    genuine P k (session_id s) enc (envelope_class h) (counter h) r env \<and>
    (phase s = Closing \<longrightarrow> content_kind r = Close) \<and> v r = Inr () \<and> delivered P k s (counter h) s'"
proof -
  have k: "length k = 32" and aead: "aead_ok P" and chain: "receiver_on_chain P k s"
    using P ok by (simp_all add: crypto_ok_def receiver_ok_def)
  note f = step_at_fields [OF P k, of "session_id s" "counter h"]
  let ?i = "counter h" and ?n = "next_receive_index s" and ?sid = "session_id s"
  have le: "?n \<le> ?i" using ge by simp
  have gap: "unat (?i - ?n) = unat ?i - unat ?n" by (rule unat_sub [OF le])
  have cap: "\<not> of_nat MAX_SKIP < ?i - ?n \<and> ensure_capacity_for (skipped_keys s) (unat (?i - ?n)) = Inr () \<longleftrightarrow>
      store_len (skipped_keys s) + (unat ?i - unat ?n) \<le> MAX_SKIP"
    by (auto simp: ensure_capacity_iff gap store_len_def word_less_nat_alt)
  have walk: "ratchet_walk (derive_step P ?sid) next_chain_key (\<lambda>cursor step. (cursor, message_key step))
      SE_CounterExhausted (chain_key (receiving_chain s)) ?n ?i =
    Inr (map (\<lambda>j. (of_nat j, message_key (step_at P ?sid k j))) [unat ?n..<unat ?i],
      step_at P ?sid k (unat ?i))"
    using session_ratchet.ratchet_walk_on_chain [where P = P and sid = ?sid, OF _ le, of k
        "\<lambda>cursor step. (cursor, message_key step)" SE_CounterExhausted] P k chain
    by (simp add: crypto_ok_def receiver_on_chain_def)
  have "receive_current_or_future P h env enc v s = (Inr r, s') \<longleftrightarrow>
      (\<not> of_nat MAX_SKIP < ?i - ?n \<and> ensure_capacity_for (skipped_keys s) (unat (?i - ?n)) = Inr ()) \<and>
      (constant_time_tag_eq (step_route_tag (step_at P ?sid k (unat ?i))) (route_tag h) \<and>
       open_and_validate P (aead_key (step_at P ?sid k (unat ?i))) h env ?sid (phase s) enc = Inr r) \<and>
      v r = Inr () \<and> delivered P k s ?i s'"
    using ge le walk
    by (auto simp: receive_current_or_future_def Let_def result_simps delivered_def checked_sub_u64_def
        next_receive_index_def [symmetric] chain_install_def)
  then show ?thesis
    using tag_and_open_iff [OF aead h f(3)] cap by (auto simp: genuine_def)
qed


section \<open>Deliveries keep the invariant\<close>

lemma delivered_frame:
  assumes "delivered P k s i s'"
  shows "role s' = role s" and "phase s' = phase s" and "session_id s' = session_id s"
    and "transcript_hash s' = transcript_hash s" and "refresh_root s' = refresh_root s"
    and "sending_chain s' = sending_chain s" and "active_refresh_id s' = active_refresh_id s"
    and "receiving_direction s' = receiving_direction s"
  using assms by (auto simp: delivered_def receiving_direction_def split: if_splits)

lemma delivered_skipped_ok:
  assumes ok: "receiver_ok P k s H" and less: "i < next_receive_index s"
    and st: "store_remove (skipped_keys s) (session_id s) (receiving_direction s) i = Inr store"
    and w: "replay_mark (replay s) i = Inr window"
  shows "receiver_ok P k (s\<lparr>skipped_keys := store, replay := window\<rparr>) (insert (unat i) H)"
proof -
  have inv: "session_inv s H" and chain: "receiver_on_chain P k s" and k: "length k = 32"
    using ok by (simp_all add: receiver_ok_def)
  let ?s = "s\<lparr>skipped_keys := store, replay := window\<rparr>"
  have store: "store_ok (skipped_keys s)" and rep: "represents (replay s) H"
    using inv by (simp_all add: session_inv_def)
  note rm = store_removeD [OF st store]
  note rep' = replay_mark_represents [OF rep w]
  have ent: "e \<in> set (entries store) \<longleftrightarrow> e \<in> set (entries (skipped_keys s)) \<and> sk_index e \<noteq> i" for e
    using rm(3) [of e] inv by (auto simp: entry_id_def session_inv_def)
  have idx: "skipped_indices ?s = skipped_indices s - {unat i}"
    by (force simp: skipped_indices_def ent word_unat_eq_iff)
  have lens: "length (entries store) \<le> 256" "list_all (\<lambda>e. length (sk_key e) = 32) (entries store)"
    using rm(2) ent inv by (auto simp: session_inv_def store_len_def session_wf_def list_all_iff)
  have set: "(skipped_indices s - {unat i}) \<union> insert (unat i) H = {..< unat (next_receive_index s)}"
      "(skipped_indices s - {unat i}) \<inter> insert (unat i) H = {}"
    using inv less by (auto simp: session_inv_def word_less_nat_alt)
  have "session_inv ?s (insert (unat i) H)"
    using inv idx set rm(1) rep'(2) lens represents_length [OF rep'(2)] ent
    by (simp add: session_inv_def session_wf_def store_len_def receiving_direction_def
        next_receive_index_def)
  moreover have "receiver_on_chain P k ?s"
    using chain ent by (simp add: receiver_on_chain_def next_receive_index_def)
  ultimately show ?thesis using k by (simp add: receiver_ok_def)
qed

lemma delivered_future_ok:
  assumes P: "crypto_ok P" and ok: "receiver_ok P k s H" and arr: "arrival_ok s H i"
    and ge: "\<not> i < next_receive_index s" and w: "replay_mark (replay s) i = Inr window"
  shows "receiver_ok P k (s\<lparr>skipped_keys := commit_batch (skipped_keys s) (session_id s) (receiving_direction s)
               (map (\<lambda>j. (of_nat j, message_key (step_at P (session_id s) k j)))
                  [unat (next_receive_index s)..<unat i]),
             receiving_chain := \<lparr>chain_key = next_chain_key (step_at P (session_id s) k (unat i)),
               next_index = i + 1\<rparr>,
             replay := window\<rparr>) (insert (unat i) H)" (is "receiver_ok P k ?s _")
proof -
  have inv: "session_inv s H" and chain: "receiver_on_chain P k s" and k: "length k = 32"
    using ok by (simp_all add: receiver_ok_def)
  let ?n = "next_receive_index s" and ?sid = "session_id s" and ?d = "receiving_direction s"
  let ?b = "map (\<lambda>j. (of_nat j :: u64, message_key (step_at P ?sid k j))) [unat ?n..<unat i]"
  have rep: "represents (replay s) H" and store: "store_ok (skipped_keys s)"
    using inv by (simp_all add: session_inv_def)
  note rep' = replay_mark_represents [OF rep w]
  have i: "unat (i + 1) = Suc (unat i)" and le: "unat ?n \<le> unat i"
    using arr ge by (simp_all add: arrival_ok_def unat_u64_Suc word_less_nat_alt)
  have small: "unat (of_nat j :: u64) = j" if "j < unat i" for j
    using that unat_u64_bound [of i] by (simp add: unat_of_nat)
  have fsts: "map fst ?b = map of_nat [unat ?n..<unat i]" by simp
  have dist: "distinct (map fst ?b)"
    unfolding fsts by (auto simp: distinct_map inj_on_def dest!: arg_cong [where f = unat] simp: small)
  have fresh: "store_lookup ?sid ?d (skipped_keys s) j = None" if j: "j \<in> fst ` set ?b" for j
  proof -
    have "unat ?n \<le> unat j" using j by (auto simp: small)
    moreover have "unat (sk_index e) < unat ?n" if "e \<in> set (entries (skipped_keys s))" for e
      using inv that by (auto simp: session_inv_def skipped_indices_def)
    ultimately show ?thesis
      by (fastforce simp: store_lookup_def store_get_None_iff entry_id_def)
  qed
  have st': "store_ok (commit_batch (skipped_keys s) ?sid ?d ?b)"
    using skipped_store.add_inv [OF store dist] fresh by blast
  have ent: "set (entries (commit_batch (skipped_keys s) ?sid ?d ?b)) =
      set (entries (skipped_keys s)) \<union> (\<lambda>j. \<lparr>sk_session_id = ?sid, sk_direction = ?d,
        sk_index = of_nat j, sk_key = message_key (step_at P ?sid k j)\<rparr>) ` {unat ?n..<unat i}"
    by (auto simp: commit_batch_def)
  have "(\<lambda>j. unat (of_nat j :: u64)) ` {unat ?n..<unat i} = {unat ?n..<unat i}"
    by (auto simp: small image_iff)
  then have idx: "skipped_indices ?s = skipped_indices s \<union> {unat ?n..<unat i}"
    by (simp add: skipped_indices_def ent image_Un image_image)
  have keys: "length (message_key (step_at P ?sid k j)) = 32" if "j < unat i" for j
    using step_at_fields(4) [OF P k, of ?sid "of_nat j"] small [OF that] by simp
  have lens: "length (entries (skipped_keys s)) + (unat i - unat ?n) \<le> 256"
    using arr ge by (simp add: arrival_ok_def store_len_def)
  have "session_wf ?s"
    using inv keys step_at_fields(5) [OF P k, of ?sid i] represents_length [OF rep'(2)]
    by (auto simp: session_inv_def session_wf_def chain_wf_def list_all_iff ent)
  moreover have "skipped_indices s \<union> {unat ?n..<unat i} \<union> insert (unat i) H = {..< unat (i + 1)}"
      "(skipped_indices s \<union> {unat ?n..<unat i}) \<inter> insert (unat i) H = {}"
  proof -
    have u: "skipped_indices s \<union> H = {..< unat ?n}" and d: "skipped_indices s \<inter> H = {}"
      using inv by (simp_all add: session_inv_def)
    have "{..< unat ?n} \<union> {unat ?n..<unat i} \<union> {unat i} = {..< unat (i + 1)}"
      using le i by auto
    then show "skipped_indices s \<union> {unat ?n..<unat i} \<union> insert (unat i) H = {..< unat (i + 1)}"
      using u by blast
    have "skipped_indices s \<subseteq> {..< unat ?n}" "H \<subseteq> {..< unat ?n}" using u by blast+
    then show "(skipped_indices s \<union> {unat ?n..<unat i}) \<inter> insert (unat i) H = {}"
      using d le by fastforce
  qed
  ultimately have "session_inv ?s (insert (unat i) H)"
    using inv st' lens idx rep'(2) ent
    by (auto simp: session_inv_def store_len_def receiving_direction_def next_receive_index_def)
  moreover have "next_receive_index ?s = i + 1"
    by (simp add: next_receive_index_def)
  then have "receiver_on_chain P k ?s"
    using chain small
    by (auto simp: receiver_on_chain_def ent i ratchet_key_Suc simp del: ratchet_key.simps)
  ultimately show ?thesis using k by (simp add: receiver_ok_def)
qed

lemma delivered_ok:
  assumes "crypto_ok P" and "receiver_ok P k s H" and "arrival_ok s H i" and "delivered P k s i s'"
  shows "receiver_ok P k s' (insert (unat i) H)"
proof (cases "i < next_receive_index s")
  case True
  with assms(4) show ?thesis
    by (auto simp: delivered_def intro: delivered_skipped_ok [OF assms(2) True])
next
  case False
  with assms(4) show ?thesis
    by (auto simp: delivered_def intro: delivered_future_ok [OF assms(1-3) False])
qed

section \<open>Exactly which envelopes are received\<close>

lemma decode_iff:
  "(case enc of Fixed \<Rightarrow> decode_outer_header env | Compact \<Rightarrow> decode_outer_header_prefix env) = Inr h \<longleftrightarrow>
     header_ok h \<and> 64 \<le> length env \<and> take 64 env = header_layout h \<and>
     (enc = Fixed \<longrightarrow> length env = envelope_size (envelope_class h))"
proof -
  have "64 \<le> length env" if "header_ok h" "take 64 env = header_layout h"
    using length_header_layout [OF that(1)] that(2) by (metis length_take min.cobounded1)
  then show ?thesis
    by (cases enc) (auto simp: decode_outer_header_iff decode_outer_header_prefix_iff)
qed

lemma genuine_header:
  assumes P: "crypto_ok P" and k: "length k = 32" and g: "genuine P k sid enc c i r env"
  shows "\<exists>h. header_ok h \<and> 64 \<le> length env \<and> take 64 env = header_layout h \<and>
    (enc = Fixed \<longrightarrow> length env = envelope_size (envelope_class h)) \<and>
    mode h = Protected \<and> envelope_class h = c \<and> counter h = i \<and> (enc = Compact \<longrightarrow> c = Lite)"
proof -
  let ?st = "step_at P sid k (unat i)"
  let ?h = "protected_header c ?st i"
  obtain p body where p: "encode_as enc c r = Inr p" and ids: "record_ids_ok r"
    and body: "aead_seal P (aead_key ?st) (replicate 12 0) (header_layout ?h) p = Inr body"
    and env: "env = header_layout ?h @ body" and v: "valid_encoding_and_content r c enc"
    using g by (auto simp: genuine_def sealed_def record_matches_def)
  have ok: "header_ok ?h"
    by (rule protected_header_ok [OF step_at_fields(3) [OF P k]])
  have "length body = length p + 16"
    using aead_seal_length [OF _ body] P by (simp add: crypto_ok_def)
  then have "enc = Fixed \<longrightarrow> length env = envelope_size c"
    using p encode_protected_record_length(1) [OF ids] length_header_layout [OF ok] env
    by (auto simp: encode_as_def envelope_size_record)
  then show ?thesis
    using ok env length_header_layout [OF ok] v
    by (intro exI [of _ ?h]) (auto simp: valid_encoding_and_content_def)
qed

lemma receive_with_encoding_iff:
  assumes P: "crypto_ok P" and ok: "receiver_ok P k s H"
  shows "receive_with_encoding P env enc v s = (Inr m, s') \<longleftrightarrow>
    (\<exists>c i r t. phase s \<noteq> Closed \<and> arrival_ok s H i \<and> genuine P k (session_id s) enc c i r env \<and>
       (phase s = Closing \<longrightarrow> content_kind r = Close) \<and> v r = Inr () \<and> delivered P k s i t \<and>
       m = \<lparr>rm_index = i, rm_content_kind = content_kind r, rm_content = content r\<rparr> \<and>
       s' = (if content_kind r = Close then full_wipe t else t))" (is "_ \<longleftrightarrow> ?R")
proof -
  have k: "length k = 32" and inv: "session_inv s H"
    using ok by (simp_all add: receiver_ok_def)
  have ph: "phase s \<in> {Established, Refreshing, Closing} \<longleftrightarrow> phase s \<noteq> Closed"
    by (cases "phase s") auto
  have chk: "replay_check (replay s) i = replay_spec_check H (unat i)" for i
    by (rule replay_mark_spec(2) [OF inv])
  have paths: "(if counter h < next_index (receiving_chain s) then receive_skipped P h env enc v
        else receive_current_or_future P h env enc v) s = (Inr r, t) \<longleftrightarrow>
      (next_receive_index s \<le> counter h \<longrightarrow>
        store_len (skipped_keys s) + (unat (counter h) - unat (next_receive_index s)) \<le> MAX_SKIP) \<and>
      genuine P k (session_id s) enc (envelope_class h) (counter h) r env \<and>
      (phase s = Closing \<longrightarrow> content_kind r = Close) \<and> v r = Inr () \<and> delivered P k s (counter h) t"
    if "header_ok h" "take 64 env = header_layout h" "64 \<le> length env" "mode h = Protected"
      "replay_spec_check H (unat (counter h)) = Inr ()" for h r t
    using receive_skipped_iff [OF P ok that(1-4), of enc v r t]
      receive_future_iff [OF P ok that(1-4), of enc v r t] that(5)
    by (auto simp: next_receive_index_def not_le)
  show ?thesis
  proof
    assume "receive_with_encoding P env enc v s = (Inr m, s')"
    then obtain h r t where h: "header_ok h" "64 \<le> length env" "take 64 env = header_layout h"
        "mode h = Protected" "counter h \<noteq> u64_max" "phase s \<noteq> Closed"
        "replay_spec_check H (unat (counter h)) = Inr ()"
      and path: "(if counter h < next_index (receiving_chain s) then receive_skipped P h env enc v
        else receive_current_or_future P h env enc v) s = (Inr r, t)"
      and m: "m = \<lparr>rm_index = message_index r, rm_content_kind = content_kind r, rm_content = content r\<rparr>"
      and s': "s' = (if content_kind r = Close then full_wipe t else t)"
      unfolding receive_with_encoding_def ph by (auto simp: result_simps decode_iff chk)
    note p = paths [OF h(1,3,2,4,7), THEN iffD1, OF path]
    then have "message_index r = counter h"
      by (simp add: genuine_def record_matches_def)
    then show ?R
      using h p m s' by (auto simp: arrival_ok_def)
  next
    assume ?R
    then obtain c i r t where r: "phase s \<noteq> Closed" "arrival_ok s H i"
        and g: "genuine P k (session_id s) enc c i r env"
        and rest: "phase s = Closing \<longrightarrow> content_kind r = Close" "v r = Inr ()" "delivered P k s i t"
        and m: "m = \<lparr>rm_index = i, rm_content_kind = content_kind r, rm_content = content r\<rparr>"
        and s': "s' = (if content_kind r = Close then full_wipe t else t)" by blast
    obtain h where h: "header_ok h" "64 \<le> length env" "take 64 env = header_layout h"
        "enc = Fixed \<longrightarrow> length env = envelope_size (envelope_class h)"
        "mode h = Protected" "envelope_class h = c" "counter h = i" "enc = Compact \<longrightarrow> c = Lite"
      using genuine_header [OF P k g] by blast
    have chk_i: "replay_spec_check H (unat (counter h)) = Inr ()"
      using r(2) h(7) by (simp add: arrival_ok_def)
    have "(if counter h < next_index (receiving_chain s) then receive_skipped P h env enc v
        else receive_current_or_future P h env enc v) s = (Inr r, t)"
      using paths [OF h(1,3,2,5) chk_i, of r t] r(2) g rest h(6,7) by (simp add: arrival_ok_def)
    moreover have "message_index r = i"
      using g by (simp add: genuine_def record_matches_def)
    moreover have "i \<noteq> u64_max" using r(2) by (simp add: arrival_ok_def)
    moreover have "(case enc of Fixed \<Rightarrow> decode_outer_header env
        | Compact \<Rightarrow> decode_outer_header_prefix env) = Inr h"
      using h by (simp add: decode_iff)
    moreover have "enc = Compact \<longrightarrow> envelope_class h = Lite" using h by simp
    ultimately show "receive_with_encoding P env enc v s = (Inr m, s')"
      unfolding receive_with_encoding_def ph
      using h(5,7) r(1) chk_i m s' by (simp add: st_lift_def st_modify_def chk)
  qed
qed

text \<open>The state a successful receive leaves behind.\<close>

lemma receive_keeps_inv:
  assumes P: "crypto_ok P" and ok: "receiver_ok P k s H"
    and rcv: "receive_with_encoding P env enc v s = (Inr m, s')"
  shows "unat (rm_index m) \<notin> H"
    and "phase s' \<noteq> Closed \<Longrightarrow> receiver_ok P k s' (insert (unat (rm_index m)) H) \<and> phase s' = phase s \<and>
      session_id s' = session_id s \<and> sending_chain s' = sending_chain s"
    and "phase s' = Closed \<Longrightarrow> \<exists>t. session_wf t \<and> s' = full_wipe t"
proof -
  obtain c i t and r :: ProtectedRecord where arr: "arrival_ok s H i" and ph: "phase s \<noteq> Closed" and d: "delivered P k s i t"
    and msg: "m = \<lparr>rm_index = i, rm_content_kind = content_kind r, rm_content = content r\<rparr>"
    and s': "s' = (if content_kind r = Close then full_wipe t else t)"
    using receive_with_encoding_iff [OF P ok, THEN iffD1, OF rcv]
    by blast
  have m: "rm_index m = i" by (simp add: msg)
  have inv: "session_inv s H" using ok by (simp add: receiver_ok_def)
  show "unat (rm_index m) \<notin> H"
    using arr m spec_check_fresh session_inv_finite [OF inv] by (simp add: arrival_ok_def)
  note t = delivered_ok [OF P ok arr d] delivered_frame [OF d]
  show "receiver_ok P k s' (insert (unat (rm_index m)) H) \<and> phase s' = phase s \<and>
      session_id s' = session_id s \<and> sending_chain s' = sending_chain s" if "phase s' \<noteq> Closed"
    using that t m s' by (auto split: if_splits)
  show "\<exists>t. session_wf t \<and> s' = full_wipe t" if "phase s' = Closed"
    using that s' t ph by (auto simp: receiver_ok_def session_inv_def split: if_splits)
qed

end
