(* ===== verification/Session_Refresh.thy ===== *)
theory Session_Refresh
  imports Session_Receive
begin

text \<open>
  Session refresh: \<open>hydra-session/src/refresh.rs\<close> (deriving a candidate from the old refresh root
  and the mixed secret, the response confirmation, sealing and opening the finish envelope) and
  \<open>session/refresh_state.rs\<close> (beginning with the tie-break on identifiers, aborting, installing).
  The type-state of the source (\<open>RefreshCandidate\<close>, \<open>ConfirmedRefresh\<close>, \<open>VerifiedRefresh\<close>) is
  kept as three types.
\<close>

section \<open>Candidates\<close>

datatype RefreshRole = RefreshInitiator | RefreshResponder

record RefreshCandidate =
  rc_local_role :: RefreshRole
  rc_old_session_id :: bytes
  rc_new_session_id :: bytes
  rc_pretranscript :: bytes
  rc_transcript_hash :: bytes
  rc_chain_i2r :: Secret32
  rc_chain_r2i :: Secret32
  rc_refresh_root :: Secret32
  rc_confirm_key :: Secret32
  rc_finish_key :: Secret32

datatype ConfirmedRefresh = ConfirmedRefresh RefreshCandidate

datatype VerifiedRefresh = VerifiedRefresh RefreshCandidate

definition LABEL_CONFIRM_KEY :: bytes where
  "LABEL_CONFIRM_KEY = ascii ''HYDRA-MSG/v1/confirm-key''"

definition LABEL_FINISH_KEY :: bytes where
  "LABEL_FINISH_KEY = ascii ''HYDRA-MSG/v1/finish-key''"

definition LABEL_RESP_CONFIRM :: bytes where
  "LABEL_RESP_CONFIRM = ascii ''HYDRA-MSG/v1/resp-confirm''"

definition derive_refresh_candidate ::
    "CryptoPrims \<Rightarrow> RefreshRole \<Rightarrow> bytes \<Rightarrow> Secret32 \<Rightarrow> bytes \<Rightarrow> bytes \<Rightarrow> bytes \<Rightarrow>
       SessionError + RefreshCandidate" where
  "derive_refresh_candidate P local_role old_session_id old_refresh_root refresh_mix pretranscript
       transcript =
     (let candidate_secret = hkdf_extract P old_refresh_root refresh_mix in
      rbind (expand32 P candidate_secret LABEL_SESSION_ID pretranscript) (\<lambda>new_session_id.
      rbind (expand32 P candidate_secret LABEL_INIT_I2R transcript) (\<lambda>chain_i2r.
      rbind (expand32 P candidate_secret LABEL_INIT_R2I transcript) (\<lambda>chain_r2i.
      rbind (expand32 P candidate_secret LABEL_REFRESH_ROOT transcript) (\<lambda>root.
      rbind (expand32 P candidate_secret LABEL_CONFIRM_KEY pretranscript) (\<lambda>confirm_key.
      rbind (expand32 P candidate_secret LABEL_FINISH_KEY transcript) (\<lambda>finish_key.
        Inr \<lparr>rc_local_role = local_role, rc_old_session_id = old_session_id,
             rc_new_session_id = new_session_id, rc_pretranscript = pretranscript,
             rc_transcript_hash = transcript, rc_chain_i2r = chain_i2r, rc_chain_r2i = chain_r2i,
             rc_refresh_root = root, rc_confirm_key = confirm_key,
             rc_finish_key = finish_key\<rparr>)))))))"

definition confirmation_input :: "RefreshCandidate \<Rightarrow> bytes" where
  "confirmation_input c = LABEL_RESP_CONFIRM @ rc_pretranscript c @ rc_new_session_id c"

definition response_confirmation :: "CryptoPrims \<Rightarrow> RefreshCandidate \<Rightarrow> bytes" where
  "response_confirmation P c = hmac_sha3_256 P (rc_confirm_key c) (confirmation_input c)"

definition confirm_response ::
    "CryptoPrims \<Rightarrow> RefreshCandidate \<Rightarrow> bytes \<Rightarrow> SessionError + ConfirmedRefresh" where
  "confirm_response P c expected =
     rbind (map_err (\<lambda>_. SE_AuthenticationFailed)
              (verify_hmac_sha3_256 P (rc_confirm_key c) (confirmation_input c) expected)) (\<lambda>_.
       Inr (ConfirmedRefresh c))"

section \<open>The finish envelope\<close>

definition finish_route_tag :: "CryptoPrims \<Rightarrow> RefreshCandidate \<Rightarrow> bytes" where
  "finish_route_tag P c =
     slice 0 16 (hmac_sha3_256 P (rc_finish_key c)
       (LABEL_ROUTE_TAG @ rc_new_session_id c @ rc_transcript_hash c))"

definition finish_record :: "RefreshCandidate \<Rightarrow> ProtectedRecord" where
  "finish_record c =
     \<lparr>content_kind = RefreshFinish, session_or_group_id = rc_new_session_id c,
      sender_id = replicate 32 0, epoch = 0, state_version = 0, message_index = 0,
      content = rc_transcript_hash c @ rc_new_session_id c\<rparr>"

definition finish_plaintext :: "RefreshCandidate \<Rightarrow> SessionError + bytes" where
  "finish_plaintext c =
     map_err (\<lambda>_. SE_InvalidPayload) (encode_protected_record Lite (finish_record c))"

fun seal_finish :: "CryptoPrims \<Rightarrow> ConfirmedRefresh \<Rightarrow> SessionError + bytes \<times> VerifiedRefresh" where
  "seal_finish P (ConfirmedRefresh c) =
     rbind (map_err (\<lambda>_. SE_InvalidEnvelope)
              (encode_outer_header (OuterHeader_new Protected Lite (finish_route_tag P c) 0)))
       (\<lambda>header.
     rbind (finish_plaintext c) (\<lambda>plaintext.
     rbind (map_err (\<lambda>_. SE_AuthenticationFailed)
              (aead_seal P (rc_finish_key c) (replicate 12 0) header plaintext)) (\<lambda>body.
       Inr (header @ body, VerifiedRefresh c))))"

fun open_finish :: "CryptoPrims \<Rightarrow> ConfirmedRefresh \<Rightarrow> bytes \<Rightarrow> SessionError + VerifiedRefresh" where
  "open_finish P (ConfirmedRefresh c) env =
     rbind (map_err (\<lambda>_. SE_InvalidEnvelope) (decode_outer_header env)) (\<lambda>header.
     rbind (ensure (\<not> (mode header \<noteq> Protected \<or> envelope_class header \<noteq> Lite \<or> counter header \<noteq> 0 \<or>
               \<not> constant_time_tag_eq (route_tag header) (finish_route_tag P c)))
              SE_AuthenticationFailed) (\<lambda>_.
     rbind (map_err (\<lambda>_. SE_AuthenticationFailed)
              (aead_open P (rc_finish_key c) (replicate 12 0) (take OUTER_HEADER_SIZE env)
                (drop OUTER_HEADER_SIZE env))) (\<lambda>plaintext.
     rbind (map_err (\<lambda>_. SE_AuthenticationFailed) (decode_protected_record Lite plaintext)) (\<lambda>r.
     rbind (ensure (\<not> (content_kind r \<noteq> RefreshFinish \<or> session_or_group_id r \<noteq> rc_new_session_id c \<or>
               sender_id r \<noteq> replicate 32 0 \<or> epoch r \<noteq> 0 \<or> state_version r \<noteq> 0 \<or>
               message_index r \<noteq> 0 \<or> content r \<noteq> rc_transcript_hash c @ rc_new_session_id c))
              SE_AuthenticationFailed) (\<lambda>_.
       Inr (VerifiedRefresh c))))))"

fun into_parts ::
    "VerifiedRefresh \<Rightarrow>
       bytes \<times> bytes \<times> bytes \<times> RefreshRole \<times> DirectionChain \<times> DirectionChain \<times> Secret32" where
  "into_parts (VerifiedRefresh c) =
     (rc_old_session_id c, rc_new_session_id c, rc_transcript_hash c, rc_local_role c,
      DirectionChain_new (rc_chain_i2r c), DirectionChain_new (rc_chain_r2i c), rc_refresh_root c)"

section \<open>The refresh operations of a session\<close>

text \<open>Array comparison of the source: lexicographic on bytes of equal length.\<close>

fun bytes_less :: "bytes \<Rightarrow> bytes \<Rightarrow> bool" where
  "bytes_less [] bs = (bs \<noteq> [])"
| "bytes_less (a # as) [] = False"
| "bytes_less (a # as) (b # bs) = (a < b \<or> a = b \<and> bytes_less as bs)"

definition begin_refresh ::
    "bytes \<Rightarrow> (SessionState, SessionError, RefreshIdDecision) st" where
  "begin_refresh refresh_id s =
     (case (phase s, active_refresh_id s) of
        (Established, None) \<Rightarrow>
          (Inr Accepted, s\<lparr>phase := Refreshing, active_refresh_id := Some refresh_id\<rparr>)
      | (Refreshing, Some active) \<Rightarrow>
          if bytes_less refresh_id active
          then (Inr ReplacedLocal, s\<lparr>active_refresh_id := Some refresh_id\<rparr>)
          else if refresh_id = active then (Inr Accepted, s)
          else (Inl SE_RefreshConflict, s)
      | _ \<Rightarrow> (Inl SE_InvalidState, s))"

definition abort_refresh :: "(SessionState, SessionError, unit) st" where
  "abort_refresh s =
     (if phase s \<noteq> Refreshing then (Inl SE_InvalidState, s)
      else (Inr (), s\<lparr>active_refresh_id := None, phase := Established\<rparr>))"

definition session_derive_refresh_candidate ::
    "CryptoPrims \<Rightarrow> SessionState \<Rightarrow> RefreshRole \<Rightarrow> bytes \<Rightarrow> bytes \<Rightarrow> bytes \<Rightarrow>
       SessionError + RefreshCandidate" where
  "session_derive_refresh_candidate P s local_role refresh_mix pretranscript transcript =
     rbind (ensure (phase s = Refreshing) SE_InvalidState) (\<lambda>_.
       derive_refresh_candidate P local_role (session_id s) (refresh_root s) refresh_mix pretranscript
         transcript)"

definition install_refresh :: "VerifiedRefresh \<Rightarrow> (SessionState, SessionError, unit) st" where
  "install_refresh verified s =
     (if phase s \<noteq> Refreshing then (Inl SE_InvalidState, s)
      else case into_parts verified of
        (old_id, new_id, transcript, local_role, chain_i2r, chain_r2i, root) \<Rightarrow>
          if old_id \<noteq> session_id s then (Inl SE_InvalidState, s)
          else
            let (sending, receiving) =
                  (case local_role of
                     RefreshInitiator \<Rightarrow> (chain_i2r, chain_r2i)
                   | RefreshResponder \<Rightarrow> (chain_r2i, chain_i2r))
            in (Inr (), s\<lparr>session_id := new_id, transcript_hash := transcript,
                  refresh_root := root, sending_chain := sending, receiving_chain := receiving,
                  skipped_keys := store_clear (skipped_keys s), replay := replay_clear (replay s),
                  active_refresh_id := None, phase := Established\<rparr>))"

section \<open>Lemmas\<close>

lemma refresh_atomic [atomic_intros]:
  "failure_atomic (begin_refresh rid)" "failure_atomic abort_refresh"
  "failure_atomic (install_refresh vr)"
  by (auto simp: failure_atomic_def begin_refresh_def abort_refresh_def install_refresh_def Let_def
      split: SessionPhase.splits option.splits prod.splits if_splits RefreshRole.splits)

lemma derive_refresh_candidateD:
  assumes "derive_refresh_candidate P lr old root mix pre th = Inr c"
  shows "length (rc_new_session_id c) = 32" and "length (rc_chain_i2r c) = 32"
    and "length (rc_chain_r2i c) = 32" and "length (rc_refresh_root c) = 32"
    and "length (rc_confirm_key c) = 32" and "length (rc_finish_key c) = 32"
    and "rc_old_session_id c = old" and "rc_transcript_hash c = th" and "rc_local_role c = lr"
    and "rc_pretranscript c = pre"
  using assms by (auto simp: derive_refresh_candidate_def Let_def result_simps dest: expand32_length)

text \<open>Both sides derive the same candidate, up to the local role.\<close>

lemma derive_refresh_candidate_role:
  "derive_refresh_candidate P lr old root mix pre th = Inr c \<longleftrightarrow>
     rc_local_role c = lr \<and>
     derive_refresh_candidate P lr' old root mix pre th = Inr (c\<lparr>rc_local_role := lr'\<rparr>)"
  by (cases c) (auto simp: derive_refresh_candidate_def Let_def result_simps)

lemma derive_refresh_candidate_total:
  assumes "kdf_ok P"
  shows "\<exists>c. derive_refresh_candidate P lr old root mix pre th = Inr c"
proof -
  have "\<forall>l x. \<exists>out. expand32 P (hkdf_extract P root mix) l x = Inr out"
    using expand32_total [OF assms] hkdf_extract_length [OF assms] by blast
  then obtain f where "\<And>l x. expand32 P (hkdf_extract P root mix) l x = Inr (f l x)"
    by metis
  then show ?thesis by (simp add: derive_refresh_candidate_def Let_def)
qed

lemma finish_record_ids:
  "length (rc_new_session_id c) = 32 \<Longrightarrow> record_ids_ok (finish_record c)"
  by (simp add: record_ids_ok_def finish_record_def)

text \<open>The finish envelope opens exactly when it is the one the same candidate seals.\<close>

definition finish_envelope :: "CryptoPrims \<Rightarrow> RefreshCandidate \<Rightarrow> bytes \<Rightarrow> bool" where
  "finish_envelope P c env \<longleftrightarrow> seal_finish P (ConfirmedRefresh c) = Inr (env, VerifiedRefresh c)"

lemma finish_header_ok:
  "hash_ok P \<Longrightarrow> header_ok (OuterHeader_new Protected Lite (finish_route_tag P c) 0)"
  by (simp add: header_ok_def OuterHeader_new_def finish_route_tag_def slice_def)

lemma finish_envelope_iff:
  assumes "hash_ok P"
  shows "finish_envelope P c env \<longleftrightarrow>
    (\<exists>p body. encode_protected_record Lite (finish_record c) = Inr p \<and>
      aead_seal P (rc_finish_key c) (replicate 12 0)
        (header_layout (OuterHeader_new Protected Lite (finish_route_tag P c) 0)) p = Inr body \<and>
      env = header_layout (OuterHeader_new Protected Lite (finish_route_tag P c) 0) @ body)"
  using encode_outer_header_layout [OF finish_header_ok [OF assms]]
  by (auto simp: finish_envelope_def finish_plaintext_def result_simps)

lemma open_finish_iff:
  assumes P: "hash_ok P" "aead_ok P" and len: "length (rc_new_session_id c) = 32"
  shows "open_finish P (ConfirmedRefresh c) env = Inr v \<longleftrightarrow>
    v = VerifiedRefresh c \<and> finish_envelope P c env"
proof -
  let ?h = "OuterHeader_new Protected Lite (finish_route_tag P c) 0"
  have ok: "header_ok ?h" by (rule finish_header_ok [OF P(1)])
  have ids: "record_ids_ok (finish_record c)" by (rule finish_record_ids [OF len])
  have head: "header_ok h \<and> mode h = Protected \<and> envelope_class h = Lite \<and> counter h = 0 \<and>
      constant_time_tag_eq (route_tag h) (finish_route_tag P c) \<longleftrightarrow> h = ?h" for h :: OuterHeader
    using ok by (cases h) (auto simp: header_ok_def OuterHeader_new_def constant_time_tag_eq_iff)
  have rec: "r = finish_record c \<longleftrightarrow> content_kind r = RefreshFinish \<and>
      session_or_group_id r = rc_new_session_id c \<and> sender_id r = replicate 32 0 \<and> epoch r = 0 \<and>
      state_version r = 0 \<and> message_index r = 0 \<and>
      content r = rc_transcript_hash c @ rc_new_session_id c" for r :: ProtectedRecord
    by (cases r) (auto simp: finish_record_def)
  have "open_finish P (ConfirmedRefresh c) env = Inr v \<longleftrightarrow>
      v = VerifiedRefresh c \<and> decode_outer_header env = Inr ?h \<and>
      (\<exists>p. aead_seal P (rc_finish_key c) (replicate 12 0) (take 64 env) p = Inr (drop 64 env) \<and>
         encode_protected_record Lite (finish_record c) = Inr p)"
  proof
    assume "open_finish P (ConfirmedRefresh c) env = Inr v"
    then obtain h p r where "decode_outer_header env = Inr h" and h: "h = ?h"
      and "aead_seal P (rc_finish_key c) (replicate 12 0) (take 64 env) p = Inr (drop 64 env)"
      and "decode_protected_record Lite p = Inr r" and "r = finish_record c" "v = VerifiedRefresh c"
      unfolding head [symmetric] rec
      by (auto simp: result_simps aead_open_iff [OF P(2)] decode_outer_header_iff)
    then show "v = VerifiedRefresh c \<and> decode_outer_header env = Inr ?h \<and>
      (\<exists>p. aead_seal P (rc_finish_key c) (replicate 12 0) (take 64 env) p = Inr (drop 64 env) \<and>
         encode_protected_record Lite (finish_record c) = Inr p)"
      by (auto simp: protected_record.dec_accepts_iff)
  next
    assume a: "v = VerifiedRefresh c \<and> decode_outer_header env = Inr ?h \<and>
      (\<exists>p. aead_seal P (rc_finish_key c) (replicate 12 0) (take 64 env) p = Inr (drop 64 env) \<and>
         encode_protected_record Lite (finish_record c) = Inr p)"
    then obtain p where p: "aead_open P (rc_finish_key c) (replicate 12 0) (take 64 env) (drop 64 env) = Inr p"
      and "decode_protected_record Lite p = Inr (finish_record c)"
      using ids by (auto simp: aead_open_iff [OF P(2)] protected_record.dec_accepts_iff)
    then show "open_finish P (ConfirmedRefresh c) env = Inr v"
      using a head [of ?h] rec [of "finish_record c"] by simp
  qed
  also have "\<dots> \<longleftrightarrow> v = VerifiedRefresh c \<and> finish_envelope P c env"
  proof -
    have "decode_outer_header env = Inr ?h \<longleftrightarrow>
        length env = 4096 \<and> take 64 env = header_layout ?h"
      using ok by (auto simp: decode_outer_header_iff) (simp_all add: OuterHeader_new_def)
    moreover have "length env = 4096" if "encode_protected_record Lite (finish_record c) = Inr p"
      "aead_seal P (rc_finish_key c) (replicate 12 0) (header_layout ?h) p = Inr body"
      "env = header_layout ?h @ body" for p body
      using that aead_seal_length [OF P(2) that(2)] encode_protected_record_length(1) [OF ids that(1)]
        length_header_layout [OF ok] by (simp add: protected_record_size_def body_size_def)
    ultimately show ?thesis
      unfolding finish_envelope_iff [OF P(1)] using length_header_layout [OF ok]
      by (metis append_eq_conv_conj append_take_drop_id)
  qed
  finally show ?thesis .
qed

end
