(* ===== verification/Session_Machine.thy ===== *)
theory Session_Machine
  imports Session_Refresh
begin

text \<open>
  The session as a state machine. \<open>SessionCall\<close> names every public operation that changes a session
  except the installation of a refresh, \<open>run_call\<close> executes one, and \<open>session_step\<close> adds the
  refresh, whose candidate must have gone through the source's type-state, and the wipe. The lemmas
  are the invariants of all reachable states, the phase diagram, and at-most-once delivery over
  arbitrary interleavings of calls.
\<close>

section \<open>Calls and steps\<close>

datatype SessionCall =
    CallSendData bytes
  | CallSendCompactData bytes
  | CallSendDataBounded bytes nat nat
  | CallSendRefreshControl ContentKind bytes
  | CallSendSignedControl ContentKind bytes
  | CallSendClose u16
  | CallReceive bytes
  | CallReceiveValidated bytes validator
  | CallReceiveCompact bytes
  | CallBeginRefresh bytes
  | CallAbortRefresh

text \<open>What a call returns: an outbound message, a received one, or nothing of either.\<close>

datatype CallResult = Sent OutboundMessage | Received ReceivedMessage | Done

definition wrap :: "('a \<Rightarrow> CallResult) \<Rightarrow> ('s, 'e, 'a) st \<Rightarrow> ('s, 'e, CallResult) st" where
  "wrap f m = st_bind m (\<lambda>x. st_lift (Inr (f x)))"

fun run_call :: "CryptoPrims \<Rightarrow> SessionCall \<Rightarrow> (SessionState, SessionError, CallResult) st" where
  "run_call P (CallSendData bs) = wrap Sent (send_data P bs)"
| "run_call P (CallSendCompactData bs) = wrap Sent (send_compact_data P bs)"
| "run_call P (CallSendDataBounded bs lo hi) = wrap Sent (send_data_with_envelope_bounds P bs lo hi)"
| "run_call P (CallSendRefreshControl k bs) = wrap Sent (send_refresh_control P k bs)"
| "run_call P (CallSendSignedControl k bs) = wrap Sent (send_signed_control P k bs)"
| "run_call P (CallSendClose code) = wrap Sent (send_close P code)"
| "run_call P (CallReceive env) = wrap Received (receive P env)"
| "run_call P (CallReceiveValidated env v) = wrap Received (receive_validated P env v)"
| "run_call P (CallReceiveCompact env) = wrap Received (receive_compact P env)"
| "run_call P (CallBeginRefresh rid) = wrap (\<lambda>_. Done) (begin_refresh rid)"
| "run_call P CallAbortRefresh = wrap (\<lambda>_. Done) abort_refresh"

text \<open>
  A verified refresh for state \<open>s\<close>: derived from it, confirmed by the peer's response, and then
  either sealed as the sender of the finish envelope or opened as its receiver.
\<close>

definition verified_for :: "CryptoPrims \<Rightarrow> SessionState \<Rightarrow> VerifiedRefresh \<Rightarrow> bool" where
  "verified_for P s v \<longleftrightarrow> (\<exists>lr mix pre th c tag conf.
     length th = 64 \<and> session_derive_refresh_candidate P s lr mix pre th = Inr c \<and>
     confirm_response P c tag = Inr conf \<and>
     ((\<exists>env. seal_finish P conf = Inr (env, v)) \<or> (\<exists>env. open_finish P conf env = Inr v)))"

inductive session_step :: "CryptoPrims \<Rightarrow> SessionState \<Rightarrow> SessionState \<Rightarrow> bool" for P where
  step_call: "run_call P c s = (r, s') \<Longrightarrow> session_step P s s'"
| step_install: "verified_for P s v \<Longrightarrow> install_refresh v s = (r, s') \<Longrightarrow> session_step P s s'"
| step_wipe: "session_step P s (full_wipe s)"

inductive_cases session_stepE: "session_step P s s'"

section \<open>Lemmas on single calls\<close>

lemma wrap_Inr_iff [result_simps]:
  "wrap f m s = (Inr y, s') \<longleftrightarrow> (\<exists>x. m s = (Inr x, s') \<and> y = f x)"
  by (auto simp: wrap_def result_simps)

lemma wrap_Inl_iff: "wrap f m s = (Inl e, s') \<longleftrightarrow> m s = (Inl e, s')"
  by (auto simp: wrap_def st_bind_Inl_iff st_lift_iff)

lemma wrap_atomic: "failure_atomic m \<Longrightarrow> failure_atomic (wrap f m)"
  by (simp add: failure_atomic_def wrap_Inl_iff)

lemma run_call_atomic: "failure_atomic (run_call P c)"
  by (cases c) (simp_all add: wrap_atomic atomic_intros)

text \<open>A successful send: the sending chain has moved one step, and closing changes the phase.\<close>

definition send_effect :: "SessionState \<Rightarrow> SessionState \<Rightarrow> bool" where
  "send_effect s s' \<longleftrightarrow> next_index (sending_chain s) \<noteq> u64_max \<and> phase s \<in> {Established, Refreshing} \<and>
     (\<exists>step. length (next_chain_key step) = 32 \<and>
       (s' = advanced_by step s \<or>
        s' = (advanced_by step s)\<lparr>phase := Closing, active_refresh_id := None\<rparr>))"

lemma send_record_effect:
  assumes "send_record P k c bs s = (Inr m, s')"
  shows "next_index (sending_chain s) \<noteq> u64_max \<and> out_index m = next_index (sending_chain s) \<and>
    (\<exists>step. length (next_chain_key step) = 32 \<and> s' = advanced_by step s)"
  using assms
  by (auto simp: send_record_def seal_record_def seal_plaintext_def Let_def result_simps
      advanced_by_def dest: derive_stepD(2))

lemma send_call_effect:
  assumes "run_call P c s = (Inr (Sent m), s')"
  shows "send_effect s s' \<and> out_index m = next_index (sending_chain s)"
proof -
  have compact: "send_effect s s' \<and> out_index m = next_index (sending_chain s)"
    if "send_compact_data P bs s = (Inr m, s')" for bs
    using that
    by (auto simp: send_compact_data_def Let_def result_simps send_effect_def advanced_by_def
        dest!: derive_stepD(2))
  show ?thesis
    using assms
    by (cases c)
      (auto simp: result_simps send_data_def send_data_with_envelope_bounds_def
        send_refresh_control_def send_signed_control_def send_close_def send_effect_def
        dest!: send_record_effect compact [unfolded send_effect_def])
qed

lemma call_result_cases:
  assumes "run_call P c s = (Inr r, s')"
  shows "(\<exists>m. r = Sent m) \<or> (\<exists>env enc v m. r = Received m \<and> receive_with_encoding P env enc v s = (Inr m, s'))
    \<or> (r = Done \<and> ((\<exists>rid d. begin_refresh rid s = (Inr d, s')) \<or> abort_refresh s = (Inr (), s')))"
  using assms
  by (cases c) (auto simp: result_simps receive_def receive_validated_def receive_compact_def Let_def; blast)+

section \<open>The invariant\<close>

definition session_ok :: "CryptoPrims \<Rightarrow> SessionState \<Rightarrow> bool" where
  "session_ok P s \<longleftrightarrow> (\<exists>k H. receiver_ok P k s H)"

text \<open>What an operation must leave alone, and the phase condition it must restore.\<close>

lemma receiver_ok_transfer:
  assumes "receiver_ok P k s H" and "role s' = role s" and "session_id s' = session_id s"
    and "transcript_hash s' = transcript_hash s" and "refresh_root s' = refresh_root s"
    and "receiving_chain s' = receiving_chain s" and "skipped_keys s' = skipped_keys s"
    and "replay s' = replay s" and "chain_wf (sending_chain s')"
    and "phase s' = Refreshing \<longleftrightarrow> active_refresh_id s' \<noteq> None"
  shows "receiver_ok P k s' H"
  using assms
  by (auto simp: receiver_ok_def session_inv_def session_wf_def receiver_on_chain_def
      skipped_indices_def next_receive_index_def receiving_direction_def)

lemma send_effect_receiver_ok:
  assumes "receiver_ok P k s H" and "send_effect s s'"
  shows "receiver_ok P k s' H"
proof -
  have "phase s = Refreshing \<longleftrightarrow> active_refresh_id s \<noteq> None"
    using assms(1) by (simp add: receiver_ok_def session_inv_def)
  then show ?thesis
    using assms(2)
    by (auto simp: send_effect_def chain_wf_def intro!: receiver_ok_transfer [OF assms(1)])
qed

lemma begin_refresh_Inr:
  assumes "begin_refresh rid s = (Inr d, s')"
  shows "s' = s \<or> s' = s\<lparr>phase := Refreshing, active_refresh_id := Some rid\<rparr>"
  using assms
  by (cases "phase s"; cases "active_refresh_id s") (auto simp: begin_refresh_def split: if_splits)

lemma refresh_control_receiver_ok:
  assumes "receiver_ok P k s H" and "(\<exists>rid d. begin_refresh rid s = (Inr d, s')) \<or> abort_refresh s = (Inr (), s')"
  shows "receiver_ok P k s' H"
proof -
  have "chain_wf (sending_chain s)"
    using assms(1) by (simp add: receiver_ok_def session_inv_def session_wf_def)
  moreover have "s' = s \<or> (\<exists>rid. s' = s\<lparr>phase := Refreshing, active_refresh_id := Some rid\<rparr>) \<or>
      s' = s\<lparr>active_refresh_id := None, phase := Established\<rparr>"
    using assms(2) by (auto simp: abort_refresh_def dest: begin_refresh_Inr split: if_splits)
  ultimately show ?thesis
    using assms(1) by (auto intro!: receiver_ok_transfer [OF assms(1)])
qed

lemma session_okI: "receiver_ok P k s H \<Longrightarrow> session_ok P s"
  by (auto simp: session_ok_def)

lemma session_ok_wf: "session_ok P s \<Longrightarrow> session_wf s"
  by (auto simp: session_ok_def receiver_ok_def session_inv_def)

lemma full_wipe_receiver_ok:
  assumes "session_wf s"
  shows "receiver_ok P (replicate 32 0) (full_wipe s) {}"
  using full_wipe_inv [OF assms]
  by (simp add: receiver_ok_def receiver_on_chain_def next_receive_index_def)

lemma verified_forD:
  assumes "verified_for P s v"
  shows "\<exists>lr mix pre th c. length th = 64 \<and> v = VerifiedRefresh c \<and>
    session_derive_refresh_candidate P s lr mix pre th = Inr c"
proof -
  have "v = VerifiedRefresh c" if "seal_finish P (ConfirmedRefresh c) = Inr (env, v)" for c env
    using that by (auto simp: result_simps)
  moreover have "v = VerifiedRefresh c" if "open_finish P (ConfirmedRefresh c) env = Inr v" for c env
    using that by (auto simp: result_simps)
  moreover have "conf = ConfirmedRefresh c" if "confirm_response P c tag = Inr conf" for c tag conf
    using that by (auto simp: confirm_response_def result_simps)
  ultimately show ?thesis
    using assms unfolding verified_for_def by blast
qed

lemma install_refresh_receiver_ok:
  assumes s: "session_wf s" and v: "verified_for P s v" and i: "install_refresh v s = (Inr (), s')"
  shows "\<exists>k. receiver_ok P k s' {} \<and> phase s' = Established"
proof -
  obtain lr mix pre th c where th: "length th = 64" and v: "v = VerifiedRefresh c"
    and c: "session_derive_refresh_candidate P s lr mix pre th = Inr c"
    using verified_forD [OF v] by blast
  have d: "derive_refresh_candidate P lr (session_id s) (refresh_root s) mix pre th = Inr c"
    using c by (simp add: session_derive_refresh_candidate_def result_simps)
  note f = derive_refresh_candidateD [OF d]
  let ?k = "case rc_local_role c of RefreshInitiator \<Rightarrow> rc_chain_r2i c | RefreshResponder \<Rightarrow> rc_chain_i2r c"
  have "represents (replay_clear (replay s)) {}" "length (bits (replay_clear (replay s))) = 5"
    using represents_clear [of "replay s"] s by (simp_all add: session_wf_def replay_clear_def)
  then have "receiver_ok P ?k s' {} \<and> phase s' = Established"
    using i f th s v
    by (auto simp: install_refresh_def receiver_ok_def session_inv_def session_wf_def chain_wf_def
        receiver_on_chain_def DirectionChain_new_def store_clear_def store_ok_def store_len_def
        skipped_indices_def next_receive_index_def split: if_splits RefreshRole.splits)
  then show ?thesis by blast
qed

lemma session_ok_call:
  assumes P: "crypto_ok P" and ok: "session_ok P s" and c: "run_call P c s = (r, s')"
  shows "session_ok P s'"
proof (cases r)
  case (Inl e)
  then show ?thesis using c ok failure_atomicD [OF run_call_atomic] by metis
next
  case (Inr x)
  obtain k H where rk: "receiver_ok P k s H" using ok by (auto simp: session_ok_def)
  consider (sent) m where "x = Sent m"
    | (rcvd) env enc v m where "receive_with_encoding P env enc v s = (Inr m, s')"
    | (ctl) "(\<exists>rid d. begin_refresh rid s = (Inr d, s')) \<or> abort_refresh s = (Inr (), s')"
    using call_result_cases [OF c [unfolded Inr]] by blast
  then show ?thesis
  proof cases
    case sent
    then show ?thesis
      using send_call_effect [OF c [unfolded Inr sent]] send_effect_receiver_ok [OF rk]
      by (auto simp: session_ok_def)
  next
    case rcvd
    then show ?thesis
      using receive_keeps_inv(2,3) [OF P rk rcvd] full_wipe_receiver_ok
      by (cases "phase s' = Closed") (blast intro: session_okI)+
  next
    case ctl
    then show ?thesis by (rule session_okI [OF refresh_control_receiver_ok [OF rk]])
  qed
qed

lemma session_ok_step:
  assumes "crypto_ok P" and "session_step P s s'" and "session_ok P s"
  shows "session_ok P s'"
  using assms(2)
proof (cases rule: session_step.cases)
  case (step_call c r)
  then show ?thesis using session_ok_call assms by blast
next
  case (step_install v r)
  have wf: "session_wf s" by (rule session_ok_wf [OF assms(3)])
  show ?thesis
  proof (cases r)
    case (Inl e)
    then show ?thesis using step_install assms(3) failure_atomicD [OF refresh_atomic(3)] by metis
  next
    case (Inr u)
    then show ?thesis
      using install_refresh_receiver_ok [OF wf step_install(1)] step_install(2) by (auto simp: session_ok_def)
  qed
next
  case step_wipe
  then show ?thesis
    using session_okI [OF full_wipe_receiver_ok [OF session_ok_wf [OF assms(3)]]] by simp
qed

lemma session_ok_reachable:
  assumes "crypto_ok P" and "(session_step P)\<^sup>*\<^sup>* s s'" and "session_ok P s"
  shows "session_ok P s'"
  using assms(2,3) by (induction rule: rtranclp_induct) (auto intro: session_ok_step [OF assms(1)])

section \<open>The phase diagram\<close>

definition phase_edge :: "SessionPhase \<Rightarrow> SessionPhase \<Rightarrow> bool" where
  "phase_edge p q \<longleftrightarrow> p = q \<or> q = Closed \<or>
     (p, q) \<in> {(Established, Refreshing), (Refreshing, Established),
               (Established, Closing), (Refreshing, Closing)}"

lemma call_phase:
  assumes P: "crypto_ok P" and ok: "session_ok P s" and c: "run_call P c s = (r, s')"
  shows "phase_edge (phase s) (phase s')"
proof (cases r)
  case (Inl e)
  then have "s' = s" using c failure_atomicD [OF run_call_atomic] by metis
  then show ?thesis by (simp add: phase_edge_def)
next
  case (Inr x)
  obtain k H where rk: "receiver_ok P k s H" using ok by (auto simp: session_ok_def)
  consider (sent) m where "x = Sent m"
    | (rcvd) env enc v m where "receive_with_encoding P env enc v s = (Inr m, s')"
    | (refresh) rid d where "begin_refresh rid s = (Inr d, s')"
    | (abort) "abort_refresh s = (Inr (), s')"
    using call_result_cases [OF c [unfolded Inr]] by blast
  then show ?thesis
  proof cases
    case sent
    then show ?thesis
      using send_call_effect [OF c [unfolded Inr sent]] by (auto simp: send_effect_def phase_edge_def)
  next
    case rcvd
    then show ?thesis
      using receive_keeps_inv(2) [OF P rk rcvd] by (auto simp: phase_edge_def)
  next
    case refresh
    then show ?thesis
      by (cases "phase s"; cases "active_refresh_id s")
        (auto simp: begin_refresh_def phase_edge_def split: if_splits)
  next
    case abort
    then show ?thesis by (auto simp: abort_refresh_def phase_edge_def split: if_splits)
  qed
qed

lemma step_phase:
  assumes "crypto_ok P" and "session_ok P s" and "session_step P s s'"
  shows "phase_edge (phase s) (phase s')"
  using assms(3)
proof (cases rule: session_step.cases)
  case (step_call c r)
  then show ?thesis using call_phase assms by blast
next
  case (step_install v r)
  then show ?thesis
    by (cases v) (auto simp: install_refresh_def phase_edge_def split: if_splits RefreshRole.splits)
next
  case step_wipe
  then show ?thesis by (simp add: phase_edge_def)
qed

section \<open>At-most-once delivery\<close>

definition call_step :: "CryptoPrims \<Rightarrow> SessionState \<Rightarrow> SessionCall \<Rightarrow> u64 option \<times> SessionState" where
  "call_step P s c =
     (case run_call P c s of
        (Inr (Received m), s') \<Rightarrow> (Some (rm_index m), s')
      | (_, s') \<Rightarrow> (None, s'))"

text \<open>Closed sessions deliver nothing, whatever the history; open ones have it in their window.\<close>

definition delivery_rel :: "CryptoPrims \<Rightarrow> SessionState \<Rightarrow> u64 set \<Rightarrow> bool" where
  "delivery_rel P s D \<longleftrightarrow> crypto_ok P \<and> session_ok P s \<and>
     (phase s \<noteq> Closed \<longrightarrow> (\<exists>k. receiver_ok P k s (unat ` D)))"

lemma closed_receives_nothing:
  "phase s = Closed \<Longrightarrow> receive_with_encoding P env enc v s = (Inl SE_InvalidState, s)"
  by (simp add: receive_with_encoding_def st_lift_def)

lemma unat_image_insert: "insert (unat i) (unat ` D) = unat ` insert i D"
  by simp

interpretation session_delivery: at_most_once "call_step P" "delivery_rel P" for P
proof unfold_locales
  fix s s' c i and D :: "u64 set"
  assume R: "delivery_rel P s D" and st: "call_step P s c = (Some i, s')"
  have P: "crypto_ok P" and ok: "session_ok P s" using R by (simp_all add: delivery_rel_def)
  obtain m where c: "run_call P c s = (Inr (Received m), s')" and i: "i = rm_index m"
    using st by (auto simp: call_step_def split: prod.splits sum.splits CallResult.splits)
  obtain env enc v where rcv: "receive_with_encoding P env enc v s = (Inr m, s')"
    using call_result_cases [OF c] by auto
  have "phase s \<noteq> Closed" using closed_receives_nothing [of s P env enc v] rcv by auto
  then obtain k where rk: "receiver_ok P k s (unat ` D)" using R by (auto simp: delivery_rel_def)
  note keep = receive_keeps_inv [OF P rk rcv]
  show "i \<notin> D \<and> delivery_rel P s' (insert i D)"
    using keep P session_ok_call [OF P ok c] by (auto simp: delivery_rel_def i simp flip: image_insert)
next
  fix s s' c and D :: "u64 set"
  assume R: "delivery_rel P s D" and st: "call_step P s c = (None, s')"
  have P: "crypto_ok P" and ok: "session_ok P s" using R by (simp_all add: delivery_rel_def)
  obtain r where c: "run_call P c s = (r, s')" using st
    by (auto simp: call_step_def split: prod.splits sum.splits CallResult.splits)
  show "delivery_rel P s' D"
  proof (cases r)
    case (Inl e)
    then have "s' = s" using c failure_atomicD [OF run_call_atomic] by metis
    then show ?thesis using R by simp
  next
    case (Inr x)
    have open': "phase s' \<noteq> Closed \<Longrightarrow> phase s \<noteq> Closed"
      using call_phase [OF P ok c] by (auto simp: phase_edge_def)
    have keep: "receiver_ok P k s' H" if "receiver_ok P k s H" for k H
    proof (cases x)
      case (Sent m)
      then show ?thesis
        using send_call_effect [OF c [unfolded Inr Sent]] send_effect_receiver_ok [OF that] by blast
    next
      case (Received m)
      then show ?thesis using st c Inr by (simp add: call_step_def)
    next
      case Done
      then show ?thesis
        using call_result_cases [OF c [unfolded Inr]] refresh_control_receiver_ok [OF that, of s'] by auto
    qed
    show ?thesis
      using R P keep open' session_ok_call [OF P ok c] by (auto simp: delivery_rel_def)
  qed
qed

section \<open>No send index is used twice\<close>

definition send_step :: "CryptoPrims \<Rightarrow> SessionState \<Rightarrow> SessionCall \<Rightarrow> u64 option \<times> SessionState" where
  "send_step P s c =
     (case run_call P c s of
        (Inr (Sent m), s') \<Rightarrow> (Some (out_index m), s')
      | (_, s') \<Rightarrow> (None, s'))"

definition sending_rel :: "CryptoPrims \<Rightarrow> SessionState \<Rightarrow> u64 set \<Rightarrow> bool" where
  "sending_rel P s D \<longleftrightarrow> crypto_ok P \<and> session_ok P s \<and>
     (phase s \<noteq> Closed \<longrightarrow> (\<forall>i \<in> D. i < next_send_index s))"

interpretation session_sending: at_most_once "send_step P" "sending_rel P" for P
proof unfold_locales
  fix s s' c i and D :: "u64 set"
  assume R: "sending_rel P s D" and st: "send_step P s c = (Some i, s')"
  have P: "crypto_ok P" and ok: "session_ok P s" using R by (simp_all add: sending_rel_def)
  obtain m where c: "run_call P c s = (Inr (Sent m), s')" and i: "i = out_index m"
    using st by (auto simp: send_step_def split: prod.splits sum.splits CallResult.splits)
  have e: "send_effect s s'" and m: "i = next_send_index s"
    using send_call_effect [OF c] i by (auto simp: next_send_index_def)
  have "next_send_index s' = i + 1" "i \<noteq> u64_max" "phase s \<noteq> Closed"
    using e m by (auto simp: send_effect_def next_send_index_def)
  moreover from this have "j < i + 1" if "j \<le> i" for j
    using that by (simp add: word_less_nat_alt word_le_nat_alt unat_u64_Suc)
  ultimately show "i \<notin> D \<and> sending_rel P s' (insert i D)"
    using R P session_ok_call [OF P ok c] m by (auto simp: sending_rel_def less_imp_le)
next
  fix s s' c and D :: "u64 set"
  assume R: "sending_rel P s D" and st: "send_step P s c = (None, s')"
  have P: "crypto_ok P" and ok: "session_ok P s" using R by (simp_all add: sending_rel_def)
  obtain r where c: "run_call P c s = (r, s')" using st
    by (auto simp: send_step_def split: prod.splits sum.splits CallResult.splits)
  have same: "next_send_index s' = next_send_index s" if "phase s' \<noteq> Closed"
  proof (cases r)
    case (Inl e)
    then show ?thesis using c failure_atomicD [OF run_call_atomic] by metis
  next
    case (Inr x)
    obtain k H where rk: "receiver_ok P k s H" using ok by (auto simp: session_ok_def)
    have "x \<noteq> Sent m" for m using st c Inr by (auto simp: send_step_def)
    then consider (rcvd) env enc v m where "receive_with_encoding P env enc v s = (Inr m, s')"
      | (ctl) "(\<exists>rid d. begin_refresh rid s = (Inr d, s')) \<or> abort_refresh s = (Inr (), s')"
      using call_result_cases [OF c [unfolded Inr]] by blast
    then show ?thesis
    proof cases
      case rcvd
      then show ?thesis
        using receive_keeps_inv(2) [OF P rk rcvd that] by (simp add: next_send_index_def)
    next
      case ctl
      then show ?thesis
        by (auto simp: abort_refresh_def next_send_index_def dest: begin_refresh_Inr split: if_splits)
    qed
  qed
  have "phase s' \<noteq> Closed \<Longrightarrow> phase s \<noteq> Closed"
    using call_phase [OF P ok c] by (auto simp: phase_edge_def)
  then show "sending_rel P s' D"
    using R P same session_ok_call [OF P ok c] by (auto simp: sending_rel_def)
qed

section \<open>Wiped sessions\<close>

definition wiped :: "SessionState \<Rightarrow> bool" where
  "wiped s \<longleftrightarrow> session_id s = replicate 32 0 \<and> transcript_hash s = replicate 64 0 \<and>
     refresh_root s = replicate 32 0 \<and> chain_key (sending_chain s) = replicate 32 0 \<and>
     chain_key (receiving_chain s) = replicate 32 0 \<and> entries (skipped_keys s) = [] \<and>
     highest_seen (replay s) = None \<and> active_refresh_id s = None"

lemma full_wipe_wiped: "session_wf s \<Longrightarrow> wiped (full_wipe s)"
  by (simp add: wiped_def session_wf_def replay_clear_def)

lemma closed_call: 
  assumes "phase s = Closed"
  shows "snd (run_call P c s) = s"
proof (cases "run_call P c s")
  case (Pair r s')
  show ?thesis
  proof (cases r)
    case (Inl e)
    then show ?thesis using Pair failure_atomicD [OF run_call_atomic] by (metis snd_conv)
  next
    case (Inr x)
    then show ?thesis
      using call_result_cases [OF Pair [unfolded Inr]] assms closed_receives_nothing [OF assms]
        send_call_effect [of P c s _ s'] Pair
      by (auto simp: begin_refresh_def abort_refresh_def send_effect_def)
  qed
qed

lemma step_closed_wiped:
  assumes P: "crypto_ok P" and ok: "session_ok P s" and st: "session_step P s s'"
    and inv: "phase s = Closed \<longrightarrow> wiped s" and closed: "phase s' = Closed"
  shows "wiped s'"
  using st
proof (cases rule: session_step.cases)
  case (step_call c r)
  show ?thesis
  proof (cases "phase s = Closed")
    case True
    then show ?thesis using closed_call [OF True, of P c] step_call inv by simp
  next
    case False
    obtain k H where rk: "receiver_ok P k s H" using ok by (auto simp: session_ok_def)
    obtain x where r: "r = Inr x"
      using False closed step_call failure_atomicD [OF run_call_atomic] by (cases r) blast+
    note c = step_call [unfolded r]
    have "x \<noteq> Sent m" for m
      using send_call_effect [of P c s m s'] c closed False by (auto simp: send_effect_def)
    then obtain env enc v m where "receive_with_encoding P env enc v s = (Inr m, s')"
      using call_result_cases [OF c] closed False
      by (auto simp: abort_refresh_def dest: begin_refresh_Inr split: if_splits)
    then show ?thesis
      using receive_keeps_inv(3) [OF P rk _ closed] full_wipe_wiped by blast
  qed
next
  case (step_install v r)
  then have "s' = s" using closed
    by (cases v) (auto simp: install_refresh_def Let_def split: if_splits prod.splits)
  then show ?thesis using inv closed by simp
next
  case step_wipe
  then show ?thesis using full_wipe_wiped [OF session_ok_wf [OF ok]] by simp
qed

lemma reachable_closed_wiped:
  assumes P: "crypto_ok P" and r: "(session_step P)\<^sup>*\<^sup>* s s'" and ok: "session_ok P s" and op: "phase s \<noteq> Closed"
  shows "phase s' = Closed \<longrightarrow> wiped s'"
  using r
proof (induction rule: rtranclp_induct)
  case base
  then show ?case using op by simp
next
  case (step t u)
  then show ?case
    using step_closed_wiped [OF P session_ok_reachable [OF P step.hyps(1) ok] step.hyps(2)] by blast
qed

text \<open>The two fresh ends of one handshake: the key of the chain a role sends on.\<close>

definition sending_root :: "InitialSessionSecrets \<Rightarrow> SessionRole \<Rightarrow> Secret32" where
  "sending_root sec r = (case r of Initiator \<Rightarrow> is_chain_i2r sec | Responder \<Rightarrow> is_chain_r2i sec)"

lemma established_ends:
  fixes r r' :: SessionRole and sec :: InitialSessionSecrets
  assumes "derive_initial_secrets P hs th = Inr sec" and th: "length th = 64"
    and k_def: "k = sending_root sec r"
  shows "length k = 32"
    and "sender_on_chain P k (established r th x y sec)"
    and "session_wf (established r th x y sec)"
    and "r' \<noteq> r \<Longrightarrow> receiver_ok P k (established r' th u v sec) {}"
proof -
  note d = derive_initial_secretsD [OF assms(1)]
  show k: "length k = 32" using d by (cases r) (simp_all add: k_def sending_root_def)
  show "sender_on_chain P k (established r th x y sec)"
    by (cases r) (simp_all add: sender_on_chain_def next_send_index_def DirectionChain_new_def k_def sending_root_def)
  show "session_wf (established r th x y sec)"
    using established_inv [OF assms(1) th] by (simp add: session_inv_def)
  show "receiver_ok P k (established r' th u v sec) {}" if "r' \<noteq> r"
    using that k established_inv [OF assms(1) th, of r' u v]
    by (cases r; cases r') (simp_all add: receiver_ok_def receiver_on_chain_def next_receive_index_def
        DirectionChain_new_def store_default_def k_def sending_root_def)
qed

lemma established_receiver_ok:
  assumes "derive_initial_secrets P hs th = Inr sec" and "length th = 64"
  shows "\<exists>k. receiver_ok P k (established r th x y sec) {}"
proof -
  obtain r0 where "r \<noteq> r0" by (cases r) auto
  then show ?thesis using established_ends(4) [OF assms refl] by blast
qed

lemma established_session_ok:
  assumes "derive_initial_secrets P hs th = Inr sec" and "length th = 64"
  shows "session_ok P (established r th x y sec)"
  using established_receiver_ok [OF assms] session_okI by blast

lemma toy_secrets: "\<exists>sec. derive_initial_secrets toy_prims (replicate 32 7) (replicate 64 9) = Inr sec"
  using derive_initial_secrets_total [of toy_prims "replicate 32 7"] by simp

section \<open>Properties\<close>

text \<open>C4: At-most-once delivery: whatever sequence of calls (sends, receives of arbitrary bytes in
  either encoding, refresh starts and aborts, closes) runs on a fresh session, no message index is
  ever delivered twice.\<close>

theorem session_at_most_once:
  assumes "crypto_ok P" and "derive_initial_secrets P hs th = Inr sec" and "length th = 64"
  shows "distinct (deliveries (call_step P) (established r th x y sec) calls)"
proof -
  have "delivery_rel P (established r th x y sec) {}"
    using assms(1) established_session_ok [OF assms(2,3)] established_receiver_ok [OF assms(2,3)]
    by (simp add: delivery_rel_def)
  then show ?thesis using session_delivery.deliveries_fresh by blast
qed

theorem session_at_most_once_witness:
  "\<exists>sec. distinct (deliveries (call_step toy_prims) (established Responder (replicate 64 9) [] [] sec)
     [CallReceive [1, 2, 3], CallSendData [1], CallReceive [1, 2, 3], CallBeginRefresh [7]])"
proof -
  obtain sec where sec: "derive_initial_secrets toy_prims (replicate 32 7) (replicate 64 9) = Inr sec"
    using toy_secrets by blast
  show ?thesis
    by (rule exI [of _ sec], rule session_at_most_once [OF toy_crypto_ok sec]) simp
qed

text \<open>C5: Failure atomicity: an operation of a session that returns an error, for whatever reason
  and on whichever path, leaves the session exactly as it was.\<close>

theorem session_errors_change_nothing:
  "failure_atomic (run_call P c) \<and> failure_atomic (install_refresh v)"
  by (intro conjI run_call_atomic refresh_atomic)



text \<open>C7: No send index is ever used twice, so no message key encrypts two messages: over any
  sequence of calls on a fresh session the indices of the sent envelopes are distinct.\<close>

theorem session_send_indices_unique:
  assumes "crypto_ok P" and "derive_initial_secrets P hs th = Inr sec" and "length th = 64"
  shows "distinct (deliveries (send_step P) (established r th x y sec) calls)"
proof -
  have "sending_rel P (established r th x y sec) {}"
    using assms established_session_ok [OF assms(2,3)] by (simp add: sending_rel_def)
  then show ?thesis using session_sending.deliveries_fresh by blast
qed

theorem session_send_indices_unique_witness:
  "\<exists>sec. distinct (deliveries (send_step toy_prims) (established Initiator (replicate 64 9) [] [] sec)
     [CallSendData [1], CallSendData [1], CallSendClose 0, CallSendData [2]])"
proof -
  obtain sec where sec: "derive_initial_secrets toy_prims (replicate 32 7) (replicate 64 9) = Inr sec"
    using toy_secrets by blast
  show ?thesis
    by (rule exI [of _ sec], rule session_send_indices_unique [OF toy_crypto_ok sec]) simp
qed



text \<open>C11: A session that has reached the closed phase, by a received close or by wiping, holds no key
  material: session id, transcript, refresh root, both chain keys are zero and no skipped key is
  left.\<close>

theorem closed_session_is_wiped:
  assumes "crypto_ok P" and "derive_initial_secrets P hs th = Inr sec" and "length th = 64"
    and "(session_step P)\<^sup>*\<^sup>* (established r th x y sec) s" and "phase s = Closed"
  shows "session_id s = replicate 32 0 \<and> transcript_hash s = replicate 64 0 \<and>
     refresh_root s = replicate 32 0 \<and> chain_key (sending_chain s) = replicate 32 0 \<and>
     chain_key (receiving_chain s) = replicate 32 0 \<and> entries (skipped_keys s) = [] \<and>
     active_refresh_id s = None"
  using reachable_closed_wiped [OF assms(1,4) established_session_ok [OF assms(2,3)]] assms(5)
  by (simp add: wiped_def)

theorem closed_session_is_wiped_witness:
  "\<exists>sec. chain_key (sending_chain (full_wipe (established Initiator (replicate 64 9) [] [] sec))) =
     replicate 32 0"
proof -
  obtain sec where sec: "derive_initial_secrets toy_prims (replicate 32 7) (replicate 64 9) = Inr sec"
    using toy_secrets by blast
  have "(session_step toy_prims)\<^sup>*\<^sup>* (established Initiator (replicate 64 9) [] [] sec)
      (full_wipe (established Initiator (replicate 64 9) [] [] sec))"
    by (blast intro: step_wipe)
  then show ?thesis using closed_session_is_wiped [OF toy_crypto_ok sec] by auto
qed

end
