(* ===== verification/Session_Channel.thy ===== *)
theory Session_Channel
  imports Session_Machine "HOL-Library.Multiset"
begin

text \<open>
  The two ends of a session together: what one side's send produces, the other side's receive
  returns, also when envelopes arrive in another order.
\<close>

section \<open>One message\<close>

lemma delivered_exists:
  assumes P: "crypto_ok P" and ok: "receiver_ok P k s H" and arr: "arrival_ok s H i"
  shows "\<exists>t. delivered P k s i t"
proof -
  have inv: "session_inv s H" using ok by (simp add: receiver_ok_def)
  have chk: "replay_spec_check H (unat i) = Inr ()" using arr by (simp add: arrival_ok_def)
  then obtain w where w: "replay_mark (replay s) i = Inr w"
    using replay_mark_spec(1) [OF inv] by blast
  have "\<exists>store. store_remove (skipped_keys s) (session_id s) (receiving_direction s) i = Inr store"
    if "i < next_receive_index s"
  proof -
    have "store_lookup (session_id s) (receiving_direction s) (skipped_keys s) i \<noteq> None"
      using skipped_lookup [OF ok that spec_check_fresh [OF session_inv_finite [OF inv] chk]]
      by (simp add: store_lookup_def)
    then show ?thesis
      using skipped_store.remove_defined inv by (simp add: session_inv_def is_ok_iff)
  qed
  then show ?thesis using w by (auto simp: delivered_def)
qed

lemma delivered_next:
  "delivered P k s i t \<Longrightarrow>
     next_receive_index t = (if i < next_receive_index s then next_receive_index s else i + 1)"
  by (cases "i < next_receive_index s") (auto simp: delivered_def, simp_all add: next_receive_index_def)

lemma send_record_genuine:
  assumes P: "crypto_ok P" and k: "length k = 32" and wf: "session_wf a" and on: "sender_on_chain P k a"
    and snd: "send_record P kind c bs a = (Inr m, a')"
    and v: "valid_class_and_content (session_record a kind (out_index m) bs) c"
  shows "genuine P k (session_id a) Fixed c (out_index m) (session_record a kind (out_index m) bs) (envelope m)"
    and "sender_on_chain P k a'" and "session_wf a'" and "out_index m = next_send_index a"
    and "session_id a' = session_id a" and "phase a' = phase a" and "next_send_index a' = out_index m + 1"
    and "out_index m \<noteq> u64_max"
proof -
  have "hash_ok P" using P by (simp add: crypto_ok_def)
  then obtain step p where max: "next_index (sending_chain a) \<noteq> u64_max"
    and step: "derive_step P (session_id a) (chain_key (sending_chain a)) (next_index (sending_chain a)) = Inr step"
    and p: "encode_protected_record c (session_record a kind (next_index (sending_chain a)) bs) = Inr p"
    and idx: "out_index m = next_index (sending_chain a)"
    and sealed: "sealed P c step (out_index m) p (envelope m)" and a': "a' = advanced_by step a"
    using send_record_Inr [OF snd] by blast
  have st: "step = step_at P (session_id a) k (unat (out_index m))"
    using step step_at_derive [OF P k, of "session_id a" "out_index m"] on idx
    by (simp add: sender_on_chain_def next_send_index_def)
  have "record_matches (session_id a) Fixed c (out_index m) (session_record a kind (out_index m) bs)"
    using v session_record_ids [OF wf]
    by (simp add: record_matches_def valid_encoding_and_content_def) (simp add: session_record_def)
  then show "genuine P k (session_id a) Fixed c (out_index m) (session_record a kind (out_index m) bs) (envelope m)"
    using p idx sealed st by (auto simp: genuine_def encode_as_def)
  show "sender_on_chain P k a'"
    using a' idx st max
    by (simp add: sender_on_chain_def next_send_index_def unat_u64_Suc ratchet_key_Suc
        del: ratchet_key.simps)
  show "session_wf a'"
    using wf a' derive_stepD(2) [OF step] by (simp add: session_wf_def chain_wf_def)
  show "out_index m = next_send_index a" "session_id a' = session_id a" "phase a' = phase a"
    "next_send_index a' = out_index m + 1" "out_index m \<noteq> u64_max"
    using idx a' max by (simp_all add: next_send_index_def)
qed

lemma send_data_genuine:
  assumes P: "crypto_ok P" and k: "length k = 32" and wf: "session_wf a" and on: "sender_on_chain P k a"
    and snd: "send_data P bs a = (Inr m, a')"
  shows "\<exists>c. genuine P k (session_id a) Fixed c (out_index m) (session_record a Data (out_index m) bs) (envelope m)"
    and "sender_on_chain P k a'" and "session_wf a'" and "out_index m = next_send_index a"
    and "session_id a' = session_id a" and "phase a' = phase a" and "next_send_index a' = out_index m + 1"
    and "out_index m \<noteq> u64_max"
proof -
  obtain c where c: "smallest_class (length bs) = Some c" and snd: "send_record P Data c bs a = (Inr m, a')"
    using snd by (auto simp: send_data_def result_simps)
  have "valid_class_and_content (session_record a Data (out_index m) bs) c"
    using smallest_classD [OF c] by (simp add: valid_class_and_content_def session_record_def)
  note g = send_record_genuine [OF P k wf on snd this]
  show "\<exists>c. genuine P k (session_id a) Fixed c (out_index m) (session_record a Data (out_index m) bs) (envelope m)"
    using g(1) by blast
  show "sender_on_chain P k a'" "session_wf a'" "out_index m = next_send_index a"
    "session_id a' = session_id a" "phase a' = phase a" "next_send_index a' = out_index m + 1"
    "out_index m \<noteq> u64_max"
    by (rule g)+
qed

lemma receive_genuine_data:
  assumes P: "crypto_ok P" and ok: "receiver_ok P k b H" and ph: "phase b \<in> {Established, Refreshing}"
    and g: "genuine P k (session_id b) Fixed c i r env" and r: "content_kind r = Data"
    and arr: "arrival_ok b H i"
  shows "\<exists>b'. receive P env b = (Inr \<lparr>rm_index = i, rm_content_kind = Data, rm_content = content r\<rparr>, b') \<and>
    receiver_ok P k b' (insert (unat i) H) \<and> phase b' = phase b \<and> session_id b' = session_id b \<and>
    next_receive_index b' = (if i < next_receive_index b then next_receive_index b else i + 1)"
proof -
  obtain t where d: "delivered P k b i t" using delivered_exists [OF P ok arr] by blast
  have "receive P env b = (Inr \<lparr>rm_index = i, rm_content_kind = Data, rm_content = content r\<rparr>, t)"
    unfolding receive_def receive_with_encoding_iff [OF P ok]
    using ph arr g d r by (intro exI [of _ c] exI [of _ i] exI [of _ r] exI [of _ t])
      (auto simp: receive_validator_def)
  moreover have "next_receive_index t = (if i < next_receive_index b then next_receive_index b else i + 1)"
    by (rule delivered_next [OF d])
  ultimately show ?thesis
    using delivered_ok [OF P ok arr d] delivered_frame [OF d] by auto
qed

section \<open>Many messages, any order\<close>

fun send_all :: "CryptoPrims \<Rightarrow> bytes list \<Rightarrow> (SessionState, SessionError, OutboundMessage list) st" where
  "send_all P [] = st_lift (Inr [])"
| "send_all P (bs # rest) =
     st_bind (send_data P bs) (\<lambda>m. st_bind (send_all P rest) (\<lambda>ms. st_lift (Inr (m # ms))))"

fun receive_all :: "CryptoPrims \<Rightarrow> bytes list \<Rightarrow> (SessionState, SessionError, ReceivedMessage list) st" where
  "receive_all P [] = st_lift (Inr [])"
| "receive_all P (env # rest) =
     st_bind (receive P env) (\<lambda>m. st_bind (receive_all P rest) (\<lambda>ms. st_lift (Inr (m # ms))))"

lemma send_all_genuine:
  assumes P: "crypto_ok P" and k: "length k = 32"
  shows "session_wf a \<Longrightarrow> sender_on_chain P k a \<Longrightarrow> send_all P cs a = (Inr ms, a') \<Longrightarrow>
    length ms = length cs \<and>
    (\<forall>j < length cs. unat (out_index (ms ! j)) = unat (next_send_index a) + j \<and>
      out_index (ms ! j) \<noteq> u64_max \<and>
      (\<exists>c r. genuine P k (session_id a) Fixed c (out_index (ms ! j)) r (envelope (ms ! j)) \<and>
         content_kind r = Data \<and> content r = cs ! j))"
proof (induction cs arbitrary: a ms)
  case Nil
  then show ?case by (simp add: st_lift_iff)
next
  case (Cons bs cs)
  obtain m a1 ms' where snd: "send_data P bs a = (Inr m, a1)" and rest: "send_all P cs a1 = (Inr ms', a')"
    and ms: "ms = m # ms'"
    using Cons.prems(3) by (auto simp: result_simps)
  note g = send_data_genuine [OF P k Cons.prems(1,2) snd]
  note IH = Cons.IH [OF g(3,2) rest, unfolded g(5)]
  have nx: "unat (next_send_index a1) = Suc (unat (next_send_index a))"
    using g(4,7,8) by (simp add: unat_u64_Suc)
  obtain c where "genuine P k (session_id a) Fixed c (out_index m) (session_record a Data (out_index m) bs) (envelope m)"
    using g(1) by blast
  moreover have "content_kind (session_record a Data (out_index m) bs) = Data"
    "content (session_record a Data (out_index m) bs) = bs"
    by (simp_all add: session_record_def)
  ultimately have first: "\<exists>c r. genuine P k (session_id a) Fixed c (out_index m) r (envelope m) \<and>
      content_kind r = Data \<and> content r = bs" by blast
  show ?case
  proof (intro conjI allI impI)
    show "length ms = length (bs # cs)" using IH ms by simp
    fix j assume j: "j < length (bs # cs)"
    show "unat (out_index (ms ! j)) = unat (next_send_index a) + j"
      using j ms g(4) IH nx by (cases j) auto
    show "out_index (ms ! j) \<noteq> u64_max"
      using j ms g(8) IH by (cases j) auto
    show "\<exists>c r. genuine P k (session_id a) Fixed c (out_index (ms ! j)) r (envelope (ms ! j)) \<and>
         content_kind r = Data \<and> content r = (bs # cs) ! j"
      using j ms first IH by (cases j) auto
  qed
qed

text \<open>
  An item is a content with the message that carries it. Inside a block of 257 indices every
  arrival is in order for the window and the store, whatever came before.
\<close>

lemma arrival_in_block:
  assumes inv: "session_inv b H" and low: "{..< n} \<subseteq> H" and up: "H \<subseteq> {..< n + 257}"
    and i: "n \<le> unat i" "unat i < n + 257" "unat i \<notin> H" "i \<noteq> u64_max"
  shows "arrival_ok b H i"
proof -
  have fin: "finite H" by (rule session_inv_finite [OF inv])
  have "H = {} \<or> Max H < n + 257" using up fin by (meson Max_in lessThan_iff subsetD)
  then have chk: "replay_spec_check H (unat i) = Inr ()"
    using i by (auto simp: replay_spec_check_def)
  have split: "skipped_indices b \<union> H = {..< unat (next_receive_index b)}" "skipped_indices b \<inter> H = {}"
    using inv by (simp_all add: session_inv_def)
  have "inj_on (unat \<circ> sk_index) (set (entries (skipped_keys b)))"
  proof (rule inj_onI)
    fix x y assume "x \<in> set (entries (skipped_keys b))" "y \<in> set (entries (skipped_keys b))"
      and "(unat \<circ> sk_index) x = (unat \<circ> sk_index) y"
    moreover from this have "entry_id x = entry_id y"
      using inv by (simp add: session_inv_def entry_id_def word_unat_eq_iff)
    ultimately show "x = y"
      using inv by (auto simp: session_inv_def store_ok_def distinct_map inj_on_def)
  qed
  moreover have "distinct (entries (skipped_keys b))"
    using inv by (auto simp: session_inv_def store_ok_def distinct_map)
  ultimately have card: "card (skipped_indices b) = store_len (skipped_keys b)"
    unfolding skipped_indices_def store_len_def by (metis card_image distinct_card)
  have "card (skipped_indices b) + card H = unat (next_receive_index b)"
    using split fin by (metis card_Un_disjoint card_lessThan finite_Un finite_lessThan)
  moreover have "n \<le> card H" using low fin by (metis card_lessThan card_mono)
  ultimately show ?thesis
    using chk i card by (auto simp: arrival_ok_def word_le_nat_alt)
qed

lemma receive_all_block:
  assumes P: "crypto_ok P"
  shows "receiver_ok P k b H \<Longrightarrow> phase b \<in> {Established, Refreshing} \<Longrightarrow> {..< n} \<subseteq> H \<Longrightarrow>
    H \<subseteq> {..< n + 257} \<Longrightarrow> distinct (map (out_index \<circ> snd) ps) \<Longrightarrow>
    (\<And>bs m. (bs, m) \<in> set ps \<Longrightarrow> n \<le> unat (out_index m) \<and> unat (out_index m) < n + 257 \<and>
       unat (out_index m) \<notin> H \<and> out_index m \<noteq> u64_max \<and>
       (\<exists>c r. genuine P k (session_id b) Fixed c (out_index m) r (envelope m) \<and>
         content_kind r = Data \<and> content r = bs)) \<Longrightarrow>
    \<exists>b'. receive_all P (map (envelope \<circ> snd) ps) b =
      (Inr (map (\<lambda>(bs, m). \<lparr>rm_index = out_index m, rm_content_kind = Data, rm_content = bs\<rparr>) ps), b')"
proof (induction ps arbitrary: b H)
  case Nil
  then show ?case by (simp add: st_lift_iff)
next
  case (Cons p ps)
  obtain bs m where p: "p = (bs, m)" by (cases p)
  have m: "n \<le> unat (out_index m)" "unat (out_index m) < n + 257" "unat (out_index m) \<notin> H"
      "out_index m \<noteq> u64_max"
    using Cons.prems(6) [of bs m] p by auto
  obtain c r where g: "genuine P k (session_id b) Fixed c (out_index m) r (envelope m)"
    and r: "content_kind r = Data" "content r = bs"
    using Cons.prems(6) [of bs m] p by auto
  have arr: "arrival_ok b H (out_index m)"
    using arrival_in_block [OF _ Cons.prems(3,4) m] Cons.prems(1) by (simp add: receiver_ok_def)
  obtain b1 where rcv: "receive P (envelope m) b =
      (Inr \<lparr>rm_index = out_index m, rm_content_kind = Data, rm_content = content r\<rparr>, b1)"
    and ok: "receiver_ok P k b1 (insert (unat (out_index m)) H)"
    and ph: "phase b1 = phase b" and sid: "session_id b1 = session_id b"
    using receive_genuine_data [OF P Cons.prems(1,2) g r(1) arr] by blast
  have other: "out_index m' \<noteq> out_index m" if "(bs', m') \<in> set ps" for bs' m'
    using Cons.prems(5) that p by (force simp: image_iff)
  obtain b' where "receive_all P (map (envelope \<circ> snd) ps) b1 =
      (Inr (map (\<lambda>(bs, m). \<lparr>rm_index = out_index m, rm_content_kind = Data, rm_content = bs\<rparr>) ps), b')"
  proof -
    have "\<exists>b'. receive_all P (map (envelope \<circ> snd) ps) b1 =
      (Inr (map (\<lambda>(bs, m). \<lparr>rm_index = out_index m, rm_content_kind = Data, rm_content = bs\<rparr>) ps), b')"
      using Cons.prems(2-5) Cons.prems(6) m(2) other p ph sid
      by (intro Cons.IH [OF ok]) (auto simp: word_unat_eq_iff)
    then show ?thesis using that by blast
  qed
  then show ?case using p rcv r(2) by (simp add: st_lift_def comp_def)
qed

lemma send_all_succeeds:
  assumes P: "crypto_ok P" and k: "length k = 32"
  shows "session_wf a \<Longrightarrow> sender_on_chain P k a \<Longrightarrow> phase a = Established \<Longrightarrow>
    unat (next_send_index a) + length cs < 2 ^ 64 \<Longrightarrow>
    (\<And>bs. bs \<in> set cs \<Longrightarrow> length bs \<le> FULL_MAX_CONTENT_SIZE) \<Longrightarrow>
    \<exists>ms a'. send_all P cs a = (Inr ms, a')"
proof (induction cs arbitrary: a)
  case Nil
  then show ?case by (simp add: st_lift_def)
next
  case (Cons bs cs)
  have "\<exists>c. smallest_class (length bs) = Some c"
    using Cons.prems(5) [of bs] by (simp add: smallest_class_def max_content_size_eq)
  then obtain c where c: "smallest_class (length bs) = Some c" by blast
  have ne: "next_index (sending_chain a) \<noteq> u64_max"
    using Cons.prems(4) by (simp add: next_send_index_def u64_not_max_iff)
  obtain m a1 where "send_record P Data c bs a = (Inr m, a1)"
    using send_record_succeeds [OF _ _ _ Cons.prems(1) ne smallest_classD [OF c]] P
    unfolding crypto_ok_def by blast
  then have snd: "send_data P bs a = (Inr m, a1)"
    using c Cons.prems(3) by (simp add: send_data_def st_lift_def)
  note g = send_data_genuine [OF P k Cons.prems(1,2) snd]
  have "unat (next_send_index a1) = Suc (unat (next_send_index a))"
    using g(4,7,8) by (simp add: unat_u64_Suc)
  then obtain ms a' where "send_all P cs a1 = (Inr ms, a')"
    using Cons.IH [OF g(3,2)] Cons.prems g(6) by auto
  then show ?case using snd by (simp add: st_lift_def)
qed

text \<open>Any reordering of a block of at most 257 messages is received completely and unchanged.\<close>

lemma block_reordering:
  assumes P: "crypto_ok P" and rcv: "receiver_ok P k b {..< n}" "phase b \<in> {Established, Refreshing}"
    and snd: "session_wf a" "sender_on_chain P k a" "phase a = Established"
    and sync: "session_id a = session_id b" "unat (next_send_index a) = n"
    and cs: "length cs \<le> 257" "n + length cs < 2 ^ 64"
      "\<And>bs. bs \<in> set cs \<Longrightarrow> length bs \<le> FULL_MAX_CONTENT_SIZE"
  shows "\<exists>ms a'. send_all P cs a = (Inr ms, a') \<and> length ms = length cs \<and>
    (\<forall>ps. mset ps = mset (zip cs ms) \<longrightarrow>
      (\<exists>b'. receive_all P (map (envelope \<circ> snd) ps) b =
        (Inr (map (\<lambda>(bs, m). \<lparr>rm_index = out_index m, rm_content_kind = Data, rm_content = bs\<rparr>) ps), b')))"
proof -
  have k: "length k = 32" using rcv(1) by (simp add: receiver_ok_def)
  obtain ms a' where sent: "send_all P cs a = (Inr ms, a')"
    using send_all_succeeds [OF P k snd] sync(2) cs by blast
  note g = send_all_genuine [OF P k snd(1,2) sent, unfolded sync]
  have len: "length ms = length cs" using g by simp
  have idx: "unat (out_index (ms ! j)) = n + j" if "j < length cs" for j using g that by simp
  have "\<exists>b'. receive_all P (map (envelope \<circ> snd) ps) b =
        (Inr (map (\<lambda>(bs, m). \<lparr>rm_index = out_index m, rm_content_kind = Data, rm_content = bs\<rparr>) ps), b')"
    if ps: "mset ps = mset (zip cs ms)" for ps
  proof (rule receive_all_block [OF P rcv, where n = n])
    have "map (out_index \<circ> snd) (zip cs ms) = map out_index ms"
      using len by (simp flip: map_map)
    moreover have "distinct (map out_index ms)"
      using idx len by (auto simp: distinct_conv_nth) (metis add_left_cancel)
    ultimately show "distinct (map (out_index \<circ> snd) ps)"
      using ps by (metis mset_map mset_eq_imp_distinct_iff)
    fix bs m assume "(bs, m) \<in> set ps"
    then have "(bs, m) \<in> set (zip cs ms)" using ps by (metis set_mset_mset)
    then obtain j where j: "j < length cs" "bs = cs ! j" "m = ms ! j"
      using len by (auto simp: set_zip)
    then show "n \<le> unat (out_index m) \<and> unat (out_index m) < n + 257 \<and> unat (out_index m) \<notin> {..< n} \<and>
       out_index m \<noteq> u64_max \<and> (\<exists>c r. genuine P k (session_id b) Fixed c (out_index m) r (envelope m) \<and>
         content_kind r = Data \<and> content r = bs)"
      using g cs(1) by simp
  qed simp_all
  then show ?thesis using sent len by blast
qed

section \<open>Dispatch by route tag\<close>

lemma future_route_tags_on_chain:
  assumes P: "crypto_ok P" and k: "length k = 32"
  shows "future_route_tags P sid n (ratchet_key (derive_step P sid) next_chain_key k (unat cursor)) cursor =
    Inr (map (\<lambda>j. step_route_tag (step_at P sid k j))
      [unat cursor..<min (unat cursor + n) (unat u64_max)])"
proof (induction n arbitrary: cursor)
  case 0
  then show ?case by simp
next
  case (Suc n)
  show ?case
  proof (cases "cursor = u64_max")
    case True
    then show ?thesis by simp
  next
    case False
    then have next': "unat (cursor + 1) = Suc (unat cursor)" and less: "unat cursor < unat u64_max"
      by (simp_all add: unat_u64_Suc u64_not_max_iff)
    have upt: "[unat cursor..<min (unat cursor + Suc n) (unat u64_max)] =
        unat cursor # [Suc (unat cursor)..<min (Suc (unat cursor) + n) (unat u64_max)]"
      using less by (subst upt_conv_Cons) simp_all
    show ?thesis
      using Suc.IH [of "cursor + 1"] False
      unfolding upt next' ratchet_key_Suc
      by (simp add: step_at_derive [OF P k] checked_add_u64_one)
  qed
qed

lemma candidate_tags_on_chain:
  assumes P: "crypto_ok P" and ok: "receiver_ok P k s H"
  shows "candidate_receive_route_tags P s =
    Inr (map (\<lambda>e. step_route_tag (step_at P (session_id s) k (unat (sk_index e)))) (entries (skipped_keys s)) @
      map (\<lambda>j. step_route_tag (step_at P (session_id s) k j))
        [unat (next_receive_index s)..<
          min (unat (next_receive_index s) + (257 - store_len (skipped_keys s))) (unat u64_max)])"
proof -
  have k: "length k = 32" and inv: "session_inv s H" and chain: "receiver_on_chain P k s"
    using ok by (simp_all add: receiver_ok_def)
  have le: "store_len (skipped_keys s) \<le> 256" using inv by (simp add: session_inv_def)
  have all: "filter (\<lambda>e. sk_session_id e = session_id s \<and> sk_direction e = receiving_direction s)
      (entries (skipped_keys s)) = entries (skipped_keys s)"
    using inv by (simp add: session_inv_def filter_id_conv)
  have tags: "map (\<lambda>e. derive_route_tag P (sk_key e) (session_id s) (sk_index e)) (entries (skipped_keys s)) =
      map (\<lambda>e. step_route_tag (step_at P (session_id s) k (unat (sk_index e)))) (entries (skipped_keys s))"
    using chain step_at_fields(2) [OF P k] by (simp add: receiver_on_chain_def)
  have "min (256 - store_len (skipped_keys s) + 1) usize_max = 257 - store_len (skipped_keys s)"
    using le by (simp add: usize_max_def)
  then show ?thesis
    using le future_route_tags_on_chain [OF P k, of "session_id s" "257 - store_len (skipped_keys s)"
        "next_receive_index s"] chain
    by (simp add: candidate_receive_route_tags_def append_receive_route_tags_def all tags
        checked_sub_usize_def receiver_on_chain_def next_receive_index_def del: upt_conv_Cons)
qed

text \<open>Concrete exchanges for the witnesses: fresh ends, and messages from one to the other.\<close>

lemma toy_many_sent:
  assumes "n \<le> 1000"
  shows "\<exists>k b (ms :: OutboundMessage list). receiver_ok toy_prims k b {} \<and> phase b = Established \<and> next_receive_index b = 0 \<and>
    entries (skipped_keys b) = [] \<and>
    (\<forall>j < n. unat (out_index (ms ! j)) = j \<and> out_index (ms ! j) \<noteq> u64_max \<and>
      (\<exists>c r. genuine toy_prims k (session_id b) Fixed c (out_index (ms ! j)) r (envelope (ms ! j)) \<and>
         content_kind r = Data \<and> content r = [1]))"
proof -
  obtain sec where sec: "derive_initial_secrets toy_prims (replicate 32 7) (replicate 64 9) = Inr sec"
    using toy_secrets by blast
  define a where "a = established Initiator (replicate 64 9) [] [] sec"
  define b where "b = established Responder (replicate 64 9) [] [] sec"
  define k where "k = sending_root sec Initiator"
  note e = established_ends [OF sec _ k_def]
  have k: "length k = 32" and on: "sender_on_chain toy_prims k a" and wf: "session_wf a"
    and ok: "receiver_ok toy_prims k b {}"
    unfolding a_def b_def by (rule e; simp)+
  have a: "phase a = Established" "next_send_index a = 0"
    and b: "phase b = Established" "next_receive_index b = 0" "session_id a = session_id b"
      "entries (skipped_keys b) = []"
    by (simp_all add: a_def b_def next_send_index_def next_receive_index_def DirectionChain_new_def
        store_default_def)
  obtain ms a' where "send_all toy_prims (replicate n [1]) a = (Inr ms, a')"
    using send_all_succeeds [OF toy_crypto_ok k wf on a(1), of "replicate n [1]"] a(2) assms
    by (auto simp: FULL_MAX_CONTENT_SIZE_def simp del: send_all.simps)
  note g = send_all_genuine [OF toy_crypto_ok k wf on this, unfolded b(3)]
  then show ?thesis
    using ok b a(2) by (intro exI [of _ k] exI [of _ b] exI [of _ ms]) auto
qed

lemma toy_exchange:
  "\<exists>k b (m :: OutboundMessage) b'. receiver_ok toy_prims k b {} \<and> phase b = Established \<and>
    receive toy_prims (envelope m) b =
      (Inr \<lparr>rm_index = out_index m, rm_content_kind = Data, rm_content = [1]\<rparr>, b')"
proof -
  obtain k b and ms :: "OutboundMessage list" where ok: "receiver_ok toy_prims k b {}"
    and ph: "phase b = Established" and nx: "next_receive_index b = 0"
    and em: "entries (skipped_keys b) = []"
    and g: "\<forall>j < 1. unat (out_index (ms ! j)) = j \<and> out_index (ms ! j) \<noteq> u64_max \<and>
      (\<exists>c r. genuine toy_prims k (session_id b) Fixed c (out_index (ms ! j)) r (envelope (ms ! j)) \<and>
         content_kind r = Data \<and> content r = [1])"
    using toy_many_sent [OF one_le_numeral] by blast
  then have arr: "arrival_ok b {} (out_index (ms ! 0))"
    by (simp add: arrival_ok_def replay_spec_check_def store_len_def)
  obtain c r where gen: "genuine toy_prims k (session_id b) Fixed c (out_index (ms ! 0)) r (envelope (ms ! 0))"
    and r: "content_kind r = Data" "content r = [1]"
    using g by auto
  have "phase b \<in> {Established, Refreshing}" using ph by simp
  from receive_genuine_data [OF toy_crypto_ok ok this gen r(1) arr] show ?thesis
    using ok ph r(2) by auto
qed

section \<open>Properties\<close>

text \<open>C1: End to end, two sessions established from the same handshake secret and transcript in
  opposite roles: sending up to 257 contents of admissible size succeeds, and whatever order the
  envelopes arrive in, every one is received, with the index it was sent under and its content
  unchanged.\<close>

theorem session_delivers_reordered:
  assumes "crypto_ok P" and "length hs = 32" and "length th = 64"
    and "derive_initial_secrets P hs th = Inr sec" and "r' \<noteq> r" and "length cs \<le> 257"
    and "\<forall>bs \<in> set cs. length bs \<le> FULL_MAX_CONTENT_SIZE"
  shows "\<exists>ms a'. send_all P cs (established r th x y sec) = (Inr ms, a') \<and> length ms = length cs \<and>
    (\<forall>ps. mset ps = mset (zip cs ms) \<longrightarrow>
      (\<exists>b'. receive_all P (map (envelope \<circ> snd) ps) (established r' th u v sec) =
        (Inr (map (\<lambda>(bs, m). \<lparr>rm_index = out_index m, rm_content_kind = Data, rm_content = bs\<rparr>) ps), b')))"
proof -
  note e = established_ends [OF assms(4,3) refl, where r = r]
  show ?thesis
    using assms(6,7)
    by (intro block_reordering [OF assms(1) _ _ e(3,2), where n = 0])
      (simp_all add: e(4) [OF assms(5)] next_send_index_def DirectionChain_new_def)
qed

theorem session_delivers_reordered_witness:
  "\<exists>sec ms a'. derive_initial_secrets toy_prims (replicate 32 7) (replicate 64 9) = Inr sec \<and>
    send_all toy_prims [[1], [2, 3], []] (established Initiator (replicate 64 9) [] [] sec) = (Inr ms, a') \<and>
    (\<exists>b'. receive_all toy_prims (map (envelope \<circ> snd) (rev (zip [[1], [2, 3], [] :: bytes] ms)))
        (established Responder (replicate 64 9) [] [] sec) =
      (Inr (map (\<lambda>(bs, m). \<lparr>rm_index = out_index m, rm_content_kind = Data, rm_content = bs\<rparr>)
         (rev (zip [[1], [2, 3], []] ms))), b'))"
proof -
  obtain sec where sec: "derive_initial_secrets toy_prims (replicate 32 7) (replicate 64 9) = Inr sec"
    using derive_initial_secrets_total [of toy_prims "replicate 32 7"] by auto
  have small: "\<forall>bs \<in> set [[1], [2, 3], [] :: bytes]. length bs \<le> FULL_MAX_CONTENT_SIZE"
    by (simp add: FULL_MAX_CONTENT_SIZE_def)
  show ?thesis
    using session_delivers_reordered [OF toy_crypto_ok _ _ sec, of Responder Initiator "[[1], [2, 3], []]" "[]" "[]" "[]" "[]",
        OF _ _ _ _ small] sec by (auto simp del: send_all.simps receive_all.simps)
qed

text \<open>C12: The route tags a session offers to the dispatcher are at most 257, and every envelope the
  session would accept, in whichever order and encoding, carries one of them.\<close>

theorem candidate_tags_complete:
  assumes "crypto_ok P" and "receiver_ok P k s H"
    and "receive_with_encoding P env enc v s = (Inr m, s')"
  shows "\<exists>tags h. candidate_receive_route_tags P s = Inr tags \<and> length tags \<le> 257 \<and>
    decode_outer_header_prefix env = Inr h \<and> route_tag h \<in> set tags"
proof -
  have k: "length k = 32" and inv: "session_inv s H" using assms(2) by (simp_all add: receiver_ok_def)
  obtain c i t and r :: ProtectedRecord where arr: "arrival_ok s H i"
    and g: "genuine P k (session_id s) enc c i r env"
    using receive_with_encoding_iff [OF assms(1,2), THEN iffD1, OF assms(3)] by blast
  let ?st = "step_at P (session_id s) k (unat i)"
  let ?tags = "map (\<lambda>e. step_route_tag (step_at P (session_id s) k (unat (sk_index e)))) (entries (skipped_keys s)) @
      map (\<lambda>j. step_route_tag (step_at P (session_id s) k j))
        [unat (next_receive_index s)..<
          min (unat (next_receive_index s) + (257 - store_len (skipped_keys s))) (unat u64_max)]"
  obtain body where env: "env = header_layout (protected_header c ?st i) @ body"
    using g by (auto simp: genuine_def sealed_def)
  have dec: "decode_outer_header_prefix env = Inr (protected_header c ?st i)"
    unfolding env by (rule decode_header_layout [OF protected_header_ok [OF step_at_fields(3) [OF assms(1) k]]])
  have len: "store_len (skipped_keys s) \<le> 256" using inv by (simp add: session_inv_def)
  then have "length ?tags \<le> 257" by (simp add: store_len_def)
  moreover have "step_route_tag ?st \<in> set ?tags"
  proof (cases "i < next_receive_index s")
    case True
    have "unat i \<notin> H"
      using arr spec_check_fresh session_inv_finite [OF inv] by (simp add: arrival_ok_def)
    then have "unat i \<in> skipped_indices s"
      using True inv unfolding session_inv_def by (auto simp: word_less_nat_alt)
    then show ?thesis by (auto simp: skipped_indices_def)
  next
    case False
    then have "unat i \<in> {unat (next_receive_index s)..<
          min (unat (next_receive_index s) + (257 - store_len (skipped_keys s))) (unat u64_max)}"
      using arr len by (auto simp: arrival_ok_def word_less_nat_alt word_le_nat_alt u64_not_max_iff)
    then show ?thesis by auto
  qed
  ultimately show ?thesis
    using candidate_tags_on_chain [OF assms(1,2)] dec by (intro exI [of _ ?tags]) auto
qed

theorem candidate_tags_complete_witness:
  "\<exists>s env m s' tags h. receive_with_encoding toy_prims env Fixed receive_validator s = (Inr m, s') \<and>
    candidate_receive_route_tags toy_prims s = Inr tags \<and>
    decode_outer_header_prefix env = Inr h \<and> route_tag h \<in> set tags"
proof -
  obtain k b b' mm and m :: OutboundMessage where "receiver_ok toy_prims k b {}"
    "receive_with_encoding toy_prims (envelope m) Fixed receive_validator b = (Inr mm, b')"
    using toy_exchange unfolding receive_def by blast
  then show ?thesis
    using candidate_tags_complete [OF toy_crypto_ok] by blast
qed

text \<open>C2: Exactly which envelopes a session accepts, and what it does with them. A receiver that is
  on the chain from key \<open>k\<close> and has delivered \<open>H\<close> returns a message for the bytes \<open>env\<close> if and only
  if it is open, \<open>env\<close> is the sealed encoding of a record of this session at some index of the chain
  (right route tag, right key, header as associated data, canonical padding), the index is new,
  inside the replay window and within reach of the skipped-key store, a closing session sees a
  close, and the caller's validator agrees; then the message carries the record's index, kind and
  content, and a close wipes the session.\<close>

theorem receive_accepts_exactly:
  assumes "crypto_ok P" and "receiver_ok P k s H"
  shows "receive_with_encoding P env enc validate s = (Inr m, s') \<longleftrightarrow>
    (\<exists>c i r t. phase s \<noteq> Closed \<and> arrival_ok s H i \<and> genuine P k (session_id s) enc c i r env \<and>
       (phase s = Closing \<longrightarrow> content_kind r = Close) \<and> validate r = Inr () \<and> delivered P k s i t \<and>
       m = \<lparr>rm_index = i, rm_content_kind = content_kind r, rm_content = content r\<rparr> \<and>
       s' = (if content_kind r = Close then full_wipe t else t))"
  by (rule receive_with_encoding_iff [OF assms])

theorem receive_accepts_exactly_witness:
  "\<exists>k b env m b' c i r t. receiver_ok toy_prims k b {} \<and> receive toy_prims env b = (Inr m, b') \<and>
     genuine toy_prims k (session_id b) Fixed c i r env \<and> delivered toy_prims k b i t \<and> rm_index m = i"
proof -
  obtain k b b' mm and m :: OutboundMessage where ok: "receiver_ok toy_prims k b {}"
    and r: "receive toy_prims (envelope m) b = (Inr mm, b')"
    using toy_exchange by auto
  obtain c i t and rec :: ProtectedRecord where
    "genuine toy_prims k (session_id b) Fixed c i rec (envelope m)" "delivered toy_prims k b i t"
    and "mm = \<lparr>rm_index = i, rm_content_kind = content_kind rec, rm_content = content rec\<rparr>"
    using receive_accepts_exactly [OF toy_crypto_ok ok, THEN iffD1, OF r [unfolded receive_def]] by blast
  moreover from this have "rm_index mm = i" by simp
  ultimately show ?thesis using ok r by blast
qed

text \<open>C39: A stored key that has fallen out of the replay window is dead weight: while the highest
  delivered index is 257 or more above it, no envelope for its index is accepted, in any encoding and
  with any validator, so the key is never removed by a receive and keeps counting against the limit
  of 256.\<close>

theorem stale_skipped_key_unusable:
  assumes "crypto_ok P" and "receiver_ok P k s H" and "i \<in> skipped_indices s" and "j \<in> H"
    and "i + REPLAY_WINDOW_WIDTH \<le> j"
    and "receive_with_encoding P env enc validate s = (Inr m, s')"
  shows "unat (rm_index m) \<noteq> i \<and> (phase s' \<noteq> Closed \<longrightarrow> i \<in> skipped_indices s')"
proof -
  have inv: "session_inv s H" using assms(2) by (simp add: receiver_ok_def)
  obtain c l t and r :: ProtectedRecord where arr: "arrival_ok s H l" and d: "delivered P k s l t"
    and m: "m = \<lparr>rm_index = l, rm_content_kind = content_kind r, rm_content = content r\<rparr>"
    and s': "s' = (if content_kind r = Close then full_wipe t else t)"
    using receive_with_encoding_iff [OF assms(1,2), THEN iffD1, OF assms(6)] by blast
  have fin: "finite H" by (rule session_inv_finite [OF inv])
  have "i + 257 \<le> Max H" using assms(4,5) Max_ge [OF fin assms(4)] by simp
  then have "unat l \<noteq> i"
    using arr assms(4) by (auto simp: arrival_ok_def replay_spec_check_def split: if_splits)
  moreover have "i \<in> skipped_indices s'" if "phase s' \<noteq> Closed"
  proof -
    have "receiver_ok P k t (insert (unat l) H)" by (rule delivered_ok [OF assms(1,2) arr d])
    then have t: "session_inv t (insert (unat l) H)" by (simp add: receiver_ok_def)
    have "s' = t" using that s' by (auto split: if_splits)
    moreover have "i \<notin> H" "i < unat (next_receive_index s)"
      using inv assms(3) by (auto simp: session_inv_def)
    moreover have "unat (next_receive_index s) \<le> unat (next_receive_index t)"
      using d arr by (auto simp: delivered_def arrival_ok_def next_receive_index_def word_less_nat_alt
          unat_u64_Suc split: if_splits)
    ultimately show ?thesis
      using t \<open>unat l \<noteq> i\<close> unfolding session_inv_def by (metis Un_iff insert_iff lessThan_iff order_less_le_trans)
  qed
  ultimately show ?thesis using m by simp
qed

theorem stale_skipped_key_unusable_witness:
  "\<exists>k s env m s'. receiver_ok toy_prims k s {257, 256} \<and> 0 \<in> skipped_indices s \<and>
     receive toy_prims env s = (Inr m, s') \<and> unat (rm_index m) \<noteq> 0 \<and> (phase s' \<noteq> Closed \<longrightarrow> 0 \<in> skipped_indices s')"
proof -
  obtain k b and ms :: "OutboundMessage list" where ok: "receiver_ok toy_prims k b {}"
    and ph: "phase b = Established" and nx: "next_receive_index b = 0"
    and em: "entries (skipped_keys b) = []"
    and g: "\<And>j. j < 259 \<Longrightarrow> unat (out_index (ms ! j)) = j \<and> out_index (ms ! j) \<noteq> u64_max \<and>
      (\<exists>c r. genuine toy_prims k (session_id b) Fixed c (out_index (ms ! j)) r (envelope (ms ! j)) \<and>
         content_kind r = Data \<and> content r = [1])"
    using toy_many_sent [of 259] by auto
  have step: "\<exists>s'. receive toy_prims (envelope (ms ! j)) s =
        (Inr \<lparr>rm_index = out_index (ms ! j), rm_content_kind = Data, rm_content = [1]\<rparr>, s') \<and>
      receiver_ok toy_prims k s' (insert j H) \<and> phase s' = Established \<and> session_id s' = session_id b \<and>
      next_receive_index s' = out_index (ms ! j) + 1"
    if j: "j < 259" "unat (next_receive_index s) \<le> j"
      and ok': "receiver_ok toy_prims k s H" "phase s = Established" "session_id s = session_id b"
      and H: "\<forall>i \<in> H. i < j" and len: "store_len (skipped_keys s) + (j - unat (next_receive_index s)) \<le> 256"
    for j s H
  proof -
    have "finite H" using ok'(1) session_inv_finite by (auto simp: receiver_ok_def)
    then have "H = {} \<or> Max H < j" using H Max_in by blast
    then have "arrival_ok s H (out_index (ms ! j))"
      using g [OF j(1)] len by (auto simp: arrival_ok_def replay_spec_check_def)
    moreover have "\<not> out_index (ms ! j) < next_receive_index s"
      using g [OF j(1)] j(2) by (simp add: word_less_nat_alt)
    ultimately show ?thesis
      using receive_genuine_data [OF toy_crypto_ok ok'(1)] ok'(2,3) g [OF j(1)] by (metis insertI1)
  qed
  have len: "store_len (skipped_keys s) \<le> 256" if "receiver_ok toy_prims k s H" for s H
    using that by (simp add: receiver_ok_def session_inv_def)
  have nx': "unat (out_index (ms ! j) + 1) = Suc j" if "j < 259" for j
    using g [OF that] by (simp add: unat_u64_Suc)
  obtain s1 where s1: "receiver_ok toy_prims k s1 {256}" "phase s1 = Established"
      "session_id s1 = session_id b" "next_receive_index s1 = out_index (ms ! 256) + 1"
    using step [where s = b and j = 256 and H = "{}"] ok ph nx em by (auto simp: store_len_def)
  obtain s2 where s2: "receiver_ok toy_prims k s2 {257, 256}" "phase s2 = Established"
      "session_id s2 = session_id b" "next_receive_index s2 = out_index (ms ! 257) + 1"
    using step [where s = s1 and j = 257 and H = "{256}"] s1 len [OF s1(1)] nx' [of 256] by auto
  obtain s3 m where s3: "receive toy_prims (envelope (ms ! 258)) s2 = (Inr m, s3)"
    using step [where s = s2 and j = 258 and H = "{257, 256}"] s2 len [OF s2(1)] nx' [of 257] by auto
  have "skipped_indices s2 \<union> {257, 256} = {..< unat (next_receive_index s2)}"
    using s2(1) by (simp add: receiver_ok_def session_inv_def)
  moreover have "(0 :: nat) \<in> {..< unat (next_receive_index s2)}"
    using s2(4) nx' [of 257] by simp
  ultimately have "0 \<in> skipped_indices s2 \<union> {257, 256}" by simp
  then have "0 \<in> skipped_indices s2" by simp
  then show ?thesis
    using stale_skipped_key_unusable [OF toy_crypto_ok s2(1) _ _ _ s3 [unfolded receive_def], of 0 257]
      s2(1) s3 by (intro exI [of _ k] exI [of _ s2] exI [of _ "envelope (ms ! 258)"] exI) auto
qed

section \<open>Refresh from both ends\<close>

lemma bytes_less_irrefl: "\<not> bytes_less x x"
  by (induction x) auto

lemma bytes_less_Nil [simp]: "\<not> bytes_less x []"
  by (cases x) simp_all

lemma bytes_less_asym: "bytes_less x y \<Longrightarrow> \<not> bytes_less y x"
  by (induction x y rule: bytes_less.induct) auto

lemma bytes_less_linear: "length x = length y \<Longrightarrow> x \<noteq> y \<Longrightarrow> bytes_less x y \<or> bytes_less y x"
  by (induction x y rule: bytes_less.induct) auto

text \<open>Two ends that can talk in both directions, each with fresh counters.\<close>

definition in_sync :: "CryptoPrims \<Rightarrow> SessionState \<Rightarrow> SessionState \<Rightarrow> bool" where
  "in_sync P a b \<longleftrightarrow> session_id a = session_id b \<and> phase a = Established \<and> phase b = Established \<and>
     (\<exists>k. sender_on_chain P k a \<and> receiver_ok P k b {} \<and> next_send_index a = 0) \<and>
     (\<exists>k. sender_on_chain P k b \<and> receiver_ok P k a {} \<and> next_send_index b = 0)"

lemma install_refresh_effect:
  assumes wf: "session_wf s" and ph: "phase s = Refreshing" and old: "rc_old_session_id c = session_id s"
    and len: "length (rc_new_session_id c) = 32" "length (rc_chain_i2r c) = 32" "length (rc_chain_r2i c) = 32"
      "length (rc_refresh_root c) = 32" "length (rc_transcript_hash c) = 64"
  defines "snd_key \<equiv> case rc_local_role c of RefreshInitiator \<Rightarrow> rc_chain_i2r c | RefreshResponder \<Rightarrow> rc_chain_r2i c"
    and "rcv_key \<equiv> case rc_local_role c of RefreshInitiator \<Rightarrow> rc_chain_r2i c | RefreshResponder \<Rightarrow> rc_chain_i2r c"
  shows "\<exists>s'. install_refresh (VerifiedRefresh c) s = (Inr (), s') \<and> session_id s' = rc_new_session_id c \<and>
    phase s' = Established \<and> sender_on_chain P snd_key s' \<and> next_send_index s' = 0 \<and>
    receiver_ok P rcv_key s' {}"
proof -
  obtain s' where s': "install_refresh (VerifiedRefresh c) s = (Inr (), s')"
    using ph old by (cases "rc_local_role c") (simp_all add: install_refresh_def)
  have "represents (replay_clear (replay s)) {}" "length (bits (replay_clear (replay s))) = 5"
    using represents_clear [of "replay s"] wf by (simp_all add: session_wf_def replay_clear_def)
  then have "session_id s' = rc_new_session_id c \<and> phase s' = Established \<and>
      sender_on_chain P snd_key s' \<and> next_send_index s' = 0 \<and> receiver_ok P rcv_key s' {}"
    using s' ph old len wf
    by (cases "rc_local_role c") (auto simp: install_refresh_def receiver_ok_def session_inv_def
        session_wf_def chain_wf_def receiver_on_chain_def sender_on_chain_def DirectionChain_new_def
        store_clear_def store_ok_def store_len_def skipped_indices_def next_receive_index_def
        next_send_index_def snd_key_def rcv_key_def)
  then show ?thesis using s' by blast
qed

lemma seal_finish_total:
  assumes P: "crypto_ok P" and len: "length (rc_new_session_id c) = 32" "length (rc_transcript_hash c) = 64"
  shows "\<exists>env. finish_envelope P c env"
proof -
  have h: "hash_ok P" and a: "aead_ok P" using P by (simp_all add: crypto_ok_def)
  have ids: "record_ids_ok (finish_record c)" by (rule finish_record_ids [OF len(1)])
  have "length (content (finish_record c)) \<le> max_content_size Lite"
    using len by (simp add: finish_record_def max_content_size_eq LITE_MAX_CONTENT_SIZE_def)
  then obtain p where p: "encode_protected_record Lite (finish_record c) = Inr p"
    using ids by (auto simp: encode_protected_record_Inr_iff record_ok_def)
  obtain body where "aead_seal P (rc_finish_key c) (replicate 12 0)
      (header_layout (OuterHeader_new Protected Lite (finish_route_tag P c) 0)) p = Inr body"
    using aead_seal_total [OF a _ encode_protected_record_length(2) [OF ids p], of "replicate 12 0"] by auto
  then show ?thesis using p by (auto simp: finish_envelope_iff [OF h])
qed

lemma role_update_same [simp]:
  "response_confirmation P (c\<lparr>rc_local_role := lr\<rparr>) = response_confirmation P c"
  "finish_envelope P (c\<lparr>rc_local_role := lr\<rparr>) env \<longleftrightarrow> finish_envelope P c env"
  by (simp_all add: response_confirmation_def confirmation_input_def finish_envelope_def
      finish_plaintext_def finish_record_def finish_route_tag_def rbind_Inr_iff)

lemma confirm_own: "hash_ok P \<Longrightarrow> confirm_response P c (response_confirmation P c) = Inr (ConfirmedRefresh c)"
  by (simp add: confirm_response_def response_confirmation_def result_simps verify_hmac_iff)

section \<open>Refresh properties\<close>



text \<open>C13: Simultaneous refresh attempts converge. Two ends see the same two identifiers in opposite
  orders (their own first, then the peer's): whichever order, the session is left refreshing under
  the smaller of the two.\<close>

theorem refresh_tie_break_converges:
  assumes "phase s = Established" and "active_refresh_id s = None" and "length x = length y"
  shows "snd (begin_refresh y (snd (begin_refresh x s))) = snd (begin_refresh x (snd (begin_refresh y s))) \<and>
    active_refresh_id (snd (begin_refresh y (snd (begin_refresh x s)))) = Some (if bytes_less y x then y else x)"
  using assms bytes_less_linear [OF assms(3)] bytes_less_asym [of x y] bytes_less_asym [of y x]
  by (auto simp: begin_refresh_def)

theorem refresh_tie_break_converges_witness:
  "\<exists>s. active_refresh_id (snd (begin_refresh [1, 9] (snd (begin_refresh [2, 3] s)))) = Some [1, 9]"
proof -
  obtain sec where sec: "derive_initial_secrets toy_prims (replicate 32 7) (replicate 64 9) = Inr sec"
    using toy_secrets by blast
  show ?thesis
    using refresh_tie_break_converges [of "established Initiator (replicate 64 9) [] [] sec" "[2, 3]" "[1, 9]"]
    by (intro exI [of _ "established Initiator (replicate 64 9) [] [] sec"]) (auto simp del: bytes_less.simps(2))
qed

end
