(* ===== verification/Group_Types.thy ===== *)
theory Group_Types
  imports Core_Types "HOL-Library.List_Lexorder"
begin

text \<open>
  The vocabulary of \<open>hydra-group\<close>: the closed enumerations with their discriminants, the mode
  tables (mechanism, roster size, skip bound), the role tables, the roster entry, the governance and
  mode policies (\<open>types.rs\<close>), and the error type (\<open>error.rs\<close>). Array types are byte lists;
  \<open>MemberId\<close>, \<open>Epoch\<close> and \<open>StateVersion\<close> are the values they wrap, and byte arrays are ordered
  lexicographically, as Rust orders them.
\<close>

section \<open>Enumerations\<close>

datatype GroupMode = GM_Interactive | GM_Broadcast | GM_Lite

datatype MembershipMechanism = TreeKem | DirectWrap

datatype GroupRole = Member | Presenter | Moderator | Audience

datatype MemberStatus = MS_Active | MS_Removed

datatype CommitKind = CK_Create | CK_Join | CK_Leave | CK_RemoveOrRevoke | CK_GovernanceChange | CK_IdentityRotate | CK_RoleChange | CK_ModeChange | CK_TreeSelfUpdate

datatype GroupPhase = GP_Active | GP_Forked | GP_Closed

type_synonym MemberId = bytes
type_synonym Epoch = u64
type_synonym StateVersion = u64
type_synonym GroupId = bytes

datatype GroupError =
    GE_CounterExhausted
  | GE_InvalidDiscriminant string u8
  | GE_InvalidModeMechanism GroupMode MembershipMechanism
  | GE_InvalidLength string nat nat
  | GE_InvalidRoster
  | GE_InvalidTreeSlot u32 u32
  | GE_InvalidTreeNode u32
  | GE_InvalidTreeNodeKeyFlag u8
  | GE_InvalidTreePath
  | GE_InvalidTreeResolution
  | GE_InvalidUpdatePath
  | GE_InvalidSenderChain
  | GE_InvalidEnvelope
  | GE_AuthenticationFailed
  | GE_InvalidGroupSignature
  | GE_ReplayDetected
  | GE_MessageTooOld
  | GE_MessageTooFarAhead
  | GE_InvalidRoleForMode GroupMode GroupRole
  | GE_InvalidGovernancePolicy
  | GE_InvalidSignatureSet
  | GE_InvalidCommitCore
  | GE_InvalidCommitParent
  | GE_InsufficientGovernanceSignatures
  | GE_MissingUpdatePath
  | GE_MissingEpochSecret
  | GE_InvalidState
  | GE_InvalidGovernanceSigner MemberId
  | GE_MemberAlreadyExists MemberId
  | GE_MemberNotFound MemberId
  | GE_MemberInactive MemberId
  | GE_SenderNotAllowed MemberId
  | GE_Unsupported string

fun group_mode_u8 :: "GroupMode \<Rightarrow> u8" where
  "group_mode_u8 GM_Interactive = 0x01"
| "group_mode_u8 GM_Broadcast = 0x02"
| "group_mode_u8 GM_Lite = 0x03"

definition group_mode_try_from :: "u8 \<Rightarrow> GroupError + GroupMode" where
  "group_mode_try_from v =
     (if v = 0x01 then Inr GM_Interactive
      else if v = 0x02 then Inr GM_Broadcast
      else if v = 0x03 then Inr GM_Lite
      else Inl (GE_InvalidDiscriminant ''GroupMode'' v))"

fun membership_mechanism_u8 :: "MembershipMechanism \<Rightarrow> u8" where
  "membership_mechanism_u8 TreeKem = 0x01"
| "membership_mechanism_u8 DirectWrap = 0x02"

definition membership_mechanism_try_from :: "u8 \<Rightarrow> GroupError + MembershipMechanism" where
  "membership_mechanism_try_from v =
     (if v = 0x01 then Inr TreeKem
      else if v = 0x02 then Inr DirectWrap
      else Inl (GE_InvalidDiscriminant ''MembershipMechanism'' v))"

fun group_role_u8 :: "GroupRole \<Rightarrow> u8" where
  "group_role_u8 Member = 0x01"
| "group_role_u8 Presenter = 0x02"
| "group_role_u8 Moderator = 0x03"
| "group_role_u8 Audience = 0x04"

definition group_role_try_from :: "u8 \<Rightarrow> GroupError + GroupRole" where
  "group_role_try_from v =
     (if v = 0x01 then Inr Member
      else if v = 0x02 then Inr Presenter
      else if v = 0x03 then Inr Moderator
      else if v = 0x04 then Inr Audience
      else Inl (GE_InvalidDiscriminant ''GroupRole'' v))"

fun member_status_u8 :: "MemberStatus \<Rightarrow> u8" where
  "member_status_u8 MS_Active = 0x01"
| "member_status_u8 MS_Removed = 0x02"

definition member_status_try_from :: "u8 \<Rightarrow> GroupError + MemberStatus" where
  "member_status_try_from v =
     (if v = 0x01 then Inr MS_Active
      else if v = 0x02 then Inr MS_Removed
      else Inl (GE_InvalidDiscriminant ''MemberStatus'' v))"

fun commit_kind_u8 :: "CommitKind \<Rightarrow> u8" where
  "commit_kind_u8 CK_Create = 0x01"
| "commit_kind_u8 CK_Join = 0x02"
| "commit_kind_u8 CK_Leave = 0x03"
| "commit_kind_u8 CK_RemoveOrRevoke = 0x04"
| "commit_kind_u8 CK_GovernanceChange = 0x05"
| "commit_kind_u8 CK_IdentityRotate = 0x06"
| "commit_kind_u8 CK_RoleChange = 0x07"
| "commit_kind_u8 CK_ModeChange = 0x08"
| "commit_kind_u8 CK_TreeSelfUpdate = 0x09"

definition commit_kind_try_from :: "u8 \<Rightarrow> GroupError + CommitKind" where
  "commit_kind_try_from v =
     (if v = 0x01 then Inr CK_Create
      else if v = 0x02 then Inr CK_Join
      else if v = 0x03 then Inr CK_Leave
      else if v = 0x04 then Inr CK_RemoveOrRevoke
      else if v = 0x05 then Inr CK_GovernanceChange
      else if v = 0x06 then Inr CK_IdentityRotate
      else if v = 0x07 then Inr CK_RoleChange
      else if v = 0x08 then Inr CK_ModeChange
      else if v = 0x09 then Inr CK_TreeSelfUpdate
      else Inl (GE_InvalidDiscriminant ''CommitKind'' v))"

fun group_phase_u8 :: "GroupPhase \<Rightarrow> u8" where
  "group_phase_u8 GP_Active = 0x01"
| "group_phase_u8 GP_Forked = 0x02"
| "group_phase_u8 GP_Closed = 0x03"

definition group_phase_try_from :: "u8 \<Rightarrow> GroupError + GroupPhase" where
  "group_phase_try_from v =
     (if v = 0x01 then Inr GP_Active
      else if v = 0x02 then Inr GP_Forked
      else if v = 0x03 then Inr GP_Closed
      else Inl (GE_InvalidDiscriminant ''GroupPhase'' v))"

section \<open>Mode and role tables\<close>

fun required_mechanism :: "GroupMode \<Rightarrow> MembershipMechanism" where
  "required_mechanism GM_Interactive = TreeKem"
| "required_mechanism GM_Broadcast = TreeKem"
| "required_mechanism GM_Lite = DirectWrap"

fun max_roster_entries :: "GroupMode \<Rightarrow> nat" where
  "max_roster_entries GM_Interactive = MAX_INTERACTIVE_MEMBERS"
| "max_roster_entries GM_Broadcast = MAX_BROADCAST_MEMBERS"
| "max_roster_entries GM_Lite = MAX_LITE_MEMBERS"

fun sender_skip_bound :: "GroupMode \<Rightarrow> nat" where
  "sender_skip_bound GM_Interactive = 64"
| "sender_skip_bound GM_Broadcast = 256"
| "sender_skip_bound GM_Lite = 32"

definition is_active_in_mode :: "GroupRole \<Rightarrow> GroupMode \<Rightarrow> bool" where
  "is_active_in_mode r m \<longleftrightarrow>
     (m \<in> {GM_Interactive, GM_Lite} \<and> r \<in> {Member, Moderator}) \<or>
     (m = GM_Broadcast \<and> r \<in> {Presenter, Moderator, Audience})"

definition can_send_in_mode :: "GroupRole \<Rightarrow> GroupMode \<Rightarrow> bool" where
  "can_send_in_mode r m \<longleftrightarrow>
     (m \<in> {GM_Interactive, GM_Lite} \<and> r \<in> {Member, Moderator}) \<or>
     (m = GM_Broadcast \<and> r \<in> {Presenter, Moderator})"

definition mechanism_for_mode :: "GroupMode \<Rightarrow> MembershipMechanism" where
  "mechanism_for_mode m = required_mechanism m"

definition validate_mode_mechanism :: "GroupMode \<Rightarrow> MembershipMechanism \<Rightarrow> GroupError + unit" where
  "validate_mode_mechanism m mechanism =
     (if mechanism = required_mechanism m then Inr ()
      else Inl (GE_InvalidModeMechanism m mechanism))"

section \<open>Policies and roster entries\<close>

record ModePolicy =
  mode_policy_bytes :: bytes

record GovernancePolicy =
  policy_version :: u8
  threshold :: u8
  authorized_signers :: "MemberId list"

definition single_signer :: "MemberId \<Rightarrow> GovernancePolicy" where
  "single_signer m = \<lparr>policy_version = 1, threshold = 1, authorized_signers = [m]\<rparr>"

record RosterEntry =
  member_id :: MemberId
  device_identity_fingerprint :: bytes
  role :: GroupRole
  status :: MemberStatus
  tree_leaf_slot :: u32
  joined_epoch :: Epoch
  removed_epoch :: Epoch

definition is_active :: "RosterEntry \<Rightarrow> bool" where
  "is_active e \<longleftrightarrow> status e = MS_Active"

record GroupContext =
  gc_group_id :: GroupId
  gc_mode :: GroupMode
  gc_mechanism :: MembershipMechanism
  gc_epoch :: Epoch
  gc_state_version :: StateVersion

definition GroupContext_new ::
    "GroupId \<Rightarrow> GroupMode \<Rightarrow> MembershipMechanism \<Rightarrow> Epoch \<Rightarrow> StateVersion \<Rightarrow> GroupError + GroupContext" where
  "GroupContext_new gid m mechanism e v =
     rbind (validate_mode_mechanism m mechanism) (\<lambda>_.
       Inr \<lparr>gc_group_id = gid, gc_mode = m, gc_mechanism = mechanism, gc_epoch = e,
            gc_state_version = v\<rparr>)"

section \<open>The enumerations are canonical codes\<close>

interpretation group_mode: wire_enum group_mode_u8 group_mode_try_from
proof unfold_locales
  fix x show "group_mode_try_from (group_mode_u8 x) = Inr x"
    by (cases x) (simp_all add: group_mode_try_from_def)
qed (auto simp: group_mode_try_from_def split: if_splits)

interpretation membership_mechanism: wire_enum membership_mechanism_u8 membership_mechanism_try_from
proof unfold_locales
  fix x show "membership_mechanism_try_from (membership_mechanism_u8 x) = Inr x"
    by (cases x) (simp_all add: membership_mechanism_try_from_def)
qed (auto simp: membership_mechanism_try_from_def split: if_splits)

interpretation group_role: wire_enum group_role_u8 group_role_try_from
proof unfold_locales
  fix x show "group_role_try_from (group_role_u8 x) = Inr x"
    by (cases x) (simp_all add: group_role_try_from_def)
qed (auto simp: group_role_try_from_def split: if_splits)

interpretation member_status: wire_enum member_status_u8 member_status_try_from
proof unfold_locales
  fix x show "member_status_try_from (member_status_u8 x) = Inr x"
    by (cases x) (simp_all add: member_status_try_from_def)
qed (auto simp: member_status_try_from_def split: if_splits)

interpretation commit_kind: wire_enum commit_kind_u8 commit_kind_try_from
proof unfold_locales
  fix x show "commit_kind_try_from (commit_kind_u8 x) = Inr x"
    by (cases x) (simp_all add: commit_kind_try_from_def)
qed (auto simp: commit_kind_try_from_def split: if_splits)

interpretation group_phase: wire_enum group_phase_u8 group_phase_try_from
proof unfold_locales
  fix x show "group_phase_try_from (group_phase_u8 x) = Inr x"
    by (cases x) (simp_all add: group_phase_try_from_def)
qed (auto simp: group_phase_try_from_def split: if_splits)

section \<open>Lemmas on the tables\<close>

lemma validate_mode_mechanism_iff [result_simps]:
  "validate_mode_mechanism m mech = Inr u \<longleftrightarrow> mech = required_mechanism m"
  by (simp add: validate_mode_mechanism_def)

lemma can_send_active: "can_send_in_mode r m \<Longrightarrow> is_active_in_mode r m"
  by (auto simp: can_send_in_mode_def is_active_in_mode_def)

text \<open>No role can act in both an interactive and a broadcast group but the moderator.\<close>

lemma role_of_both_modes:
  "is_active_in_mode r GM_Interactive \<and> is_active_in_mode r GM_Broadcast \<longleftrightarrow> r = Moderator"
  by (cases r) (simp_all add: is_active_in_mode_def)

lemma interactive_lite_roles: "is_active_in_mode r GM_Interactive = is_active_in_mode r GM_Lite"
  by (simp add: is_active_in_mode_def)

lemma skip_bound_le_window: "sender_skip_bound m < REPLAY_WINDOW_WIDTH"
  by (cases m) simp_all

lemma max_roster_entries_bound: "max_roster_entries m \<le> 8192"
  by (cases m) simp_all

end
