(* ===== verification/Group_Roster.thy ===== *)
theory Group_Roster
  imports Group_Types
begin

text \<open>
  Roster and policy handling of \<open>hydra-group\<close>: the integer and length-prefix encoders
  (\<open>canonical/primitives.rs\<close>), the governance policy (\<open>canonical/governance.rs\<close>), the roster
  (\<open>canonical/roster.rs\<close>), the signature set (\<open>canonical/signatures.rs\<close>), member lookup
  (\<open>membership.rs\<close>) and roster validation (\<open>validation.rs\<close>). The lemmas give an exact reading of
  every validator and show that the encodings determine what they encode.
\<close>

section \<open>Primitives\<close>

definition u16_be :: "u16 \<Rightarrow> bytes" where
  "u16_be value = be_bytes 2 value"

definition u32_be :: "u32 \<Rightarrow> bytes" where
  "u32_be value = be_bytes 4 value"

definition u64_be :: "u64 \<Rightarrow> bytes" where
  "u64_be value = be_bytes 8 value"

definition checked_u16_be :: "nat \<Rightarrow> GroupError + bytes" where
  "checked_u16_be value =
     rbind (ok_or (u16_try_from value) (GE_InvalidLength ''u16'' value u16_max)) (\<lambda>w.
       Inr (be_bytes 2 w))"

definition checked_u32_be :: "nat \<Rightarrow> GroupError + bytes" where
  "checked_u32_be value =
     rbind (ok_or (u32_try_from value) (GE_InvalidLength ''u32'' value u32_max)) (\<lambda>w.
       Inr (be_bytes 4 w))"

definition lp :: "bytes \<Rightarrow> GroupError + bytes" where
  "lp value = rbind (checked_u32_be (length value)) (\<lambda>encoded. Inr (encoded @ value))"

definition is_strictly_ordered_member_ids :: "MemberId list \<Rightarrow> bool" where
  "is_strictly_ordered_member_ids ids = list_all (\<lambda>(a, b). a < b) (windows2 ids)"

section \<open>Governance policy\<close>

definition encode_mode_policy :: "ModePolicy \<Rightarrow> bytes" where
  "encode_mode_policy policy = mode_policy_bytes policy"

definition validate_governance_policy :: "GovernancePolicy \<Rightarrow> GroupError + unit" where
  "validate_governance_policy policy =
     (let count = length (authorized_signers policy) in
      rbind (ensure (\<not> (policy_version policy \<noteq> 1 \<or> threshold policy = 0 \<or>
                count < unat (threshold policy) \<or> count = 0 \<or> MAX_GOVERNANCE_SIGNERS < count \<or>
                of_nat MAX_GOVERNANCE_SIGNERS < threshold policy)) GE_InvalidGovernancePolicy) (\<lambda>_.
        ensure (is_strictly_ordered_member_ids (authorized_signers policy))
          GE_InvalidGovernancePolicy))"

definition encode_governance_policy :: "GovernancePolicy \<Rightarrow> GroupError + bytes" where
  "encode_governance_policy policy =
     rbind (validate_governance_policy policy) (\<lambda>_.
     rbind (ensure (length (authorized_signers policy) \<le> 255) GE_InvalidGovernancePolicy) (\<lambda>_.
       Inr ([policy_version policy, threshold policy,
             of_nat (length (authorized_signers policy)), 0] @
            concat (authorized_signers policy))))"

section \<open>Roster\<close>

definition ROSTER_ENTRY_SIZE :: nat where
  [simp]: "ROSTER_ENTRY_SIZE = 86"

definition encode_roster_entry :: "RosterEntry \<Rightarrow> bytes" where
  "encode_roster_entry entry =
     (let encoded = replicate ROSTER_ENTRY_SIZE 0;
          encoded = write_at 0 (member_id entry) encoded;
          encoded = write_at 32 (device_identity_fingerprint entry) encoded;
          encoded = encoded[64 := group_role_u8 (role entry)];
          encoded = encoded[65 := member_status_u8 (status entry)];
          encoded = write_at 66 (u32_be (tree_leaf_slot entry)) encoded;
          encoded = write_at 70 (u64_be (joined_epoch entry)) encoded
      in write_at 78 (u64_be (removed_epoch entry)) encoded)"

definition validate_roster_for_canonical_encoding :: "GroupMode \<Rightarrow> RosterEntry list \<Rightarrow> GroupError + unit" where
  "validate_roster_for_canonical_encoding m roster =
     rbind (ensure (\<not> (roster = [] \<or> max_roster_entries m < length roster)) GE_InvalidRoster) (\<lambda>_.
     let member_ids = sort (map member_id roster) in
     rbind (ensure (\<not> list_ex (\<lambda>(a, b). a = b) (windows2 member_ids)) GE_InvalidRoster) (\<lambda>_.
     let active_fingerprints = sort (map device_identity_fingerprint
           (filter (\<lambda>entry. status entry = MS_Active) roster)) in
       ensure (\<not> list_ex (\<lambda>(a, b). a = b) (windows2 active_fingerprints)) GE_InvalidRoster))"

definition encode_roster :: "GroupMode \<Rightarrow> RosterEntry list \<Rightarrow> GroupError + bytes" where
  "encode_roster m roster =
     rbind (validate_roster_for_canonical_encoding m roster) (\<lambda>_.
     let ordered = sort_key member_id roster in
     rbind (checked_u16_be (length ordered)) (\<lambda>count.
       Inr (count @ concat (map encode_roster_entry ordered))))"

section \<open>Signature sets\<close>

record CommitSignature =
  signer :: MemberId
  signature :: bytes

definition validate_signature_set :: "CommitSignature list \<Rightarrow> GroupError + unit" where
  "validate_signature_set signatures =
     rbind (ensure (\<not> (signatures = [] \<or> MAX_COMMIT_SIGNATURES < length signatures))
              GE_InvalidSignatureSet) (\<lambda>_.
       ensure (is_strictly_ordered_member_ids (map signer signatures)) GE_InvalidSignatureSet)"

definition encode_signature_set :: "CommitSignature list \<Rightarrow> GroupError + bytes" where
  "encode_signature_set signatures =
     rbind (validate_signature_set signatures) (\<lambda>_.
     rbind (ensure (length signatures \<le> 255) GE_InvalidSignatureSet) (\<lambda>_.
       Inr ([of_nat (length signatures)] @ concat (map (\<lambda>s. signer s @ signature s) signatures))))"

section \<open>Member lookup\<close>

definition find_member :: "RosterEntry list \<Rightarrow> MemberId \<Rightarrow> RosterEntry option" where
  "find_member members i = find (\<lambda>member. member_id member = i) members"

definition deactivate_member :: "RosterEntry list \<Rightarrow> MemberId \<Rightarrow> Epoch \<Rightarrow> RosterEntry list" where
  "deactivate_member members i e =
     update_first (\<lambda>member. member_id member = i)
       (\<lambda>member. member\<lparr>status := MS_Removed, removed_epoch := e\<rparr>) members"

section \<open>Validation\<close>

record RosterStats =
  stat_total :: nat
  stat_active :: nat
  stat_removed :: nat
  stat_send_capable :: nat
  stat_broadcast_presenters :: nat
  stat_moderators :: nat

text \<open>One iteration of the counting loop.\<close>

definition count_entry :: "GroupMode \<Rightarrow> RosterStats \<Rightarrow> RosterEntry \<Rightarrow> RosterStats" where
  "count_entry m stats entry =
     (case status entry of
        MS_Active \<Rightarrow>
          let stats = stats\<lparr>stat_active := stat_active stats + 1\<rparr>;
              stats = (if can_send_in_mode (role entry) m
                then stats\<lparr>stat_send_capable := stat_send_capable stats + 1\<rparr> else stats);
              stats = (if role entry = Presenter
                then stats\<lparr>stat_broadcast_presenters := stat_broadcast_presenters stats + 1\<rparr> else stats)
          in if role entry = Moderator
             then stats\<lparr>stat_moderators := stat_moderators stats + 1\<rparr> else stats
      | MS_Removed \<Rightarrow> stats\<lparr>stat_removed := stat_removed stats + 1\<rparr>)"

definition roster_stats :: "GroupMode \<Rightarrow> RosterEntry list \<Rightarrow> RosterStats" where
  "roster_stats m roster =
     foldl (count_entry m)
       \<lparr>stat_total = length roster, stat_active = 0, stat_removed = 0, stat_send_capable = 0,
        stat_broadcast_presenters = 0, stat_moderators = 0\<rparr> roster"

definition validate_removed_member :: "Epoch \<Rightarrow> RosterEntry \<Rightarrow> GroupError + unit" where
  "validate_removed_member e entry =
     ensure (\<not> (removed_epoch entry = 0 \<or> removed_epoch entry \<le> joined_epoch entry \<or>
        e < removed_epoch entry)) GE_InvalidRoster"

definition validate_roster_entry :: "GroupMode \<Rightarrow> Epoch \<Rightarrow> RosterEntry \<Rightarrow> GroupError + unit" where
  "validate_roster_entry m e entry =
     rbind (ensure (\<not> e < joined_epoch entry) GE_InvalidRoster) (\<lambda>_.
       case status entry of
         MS_Active \<Rightarrow>
           rbind (ensure (removed_epoch entry = 0) GE_InvalidRoster) (\<lambda>_.
             ensure (is_active_in_mode (role entry) m) (GE_InvalidRoleForMode m (role entry)))
       | MS_Removed \<Rightarrow> validate_removed_member e entry)"

definition validate_roster_stats :: "GroupMode \<Rightarrow> RosterStats \<Rightarrow> GroupError + unit" where
  "validate_roster_stats m stats =
     rbind (ensure (\<not> (stat_active stats = 0 \<or> stat_send_capable stats = 0)) GE_InvalidRoster) (\<lambda>_.
       ensure (\<not> (m = GM_Broadcast \<and>
         MAX_BROADCAST_PRESENTERS < stat_broadcast_presenters stats + stat_moderators stats))
         GE_InvalidRoster)"

definition validate_roster_for_mode ::
    "GroupMode \<Rightarrow> Epoch \<Rightarrow> RosterEntry list \<Rightarrow> GroupError + RosterStats" where
  "validate_roster_for_mode m e roster =
     rbind (validate_roster_for_canonical_encoding m roster) (\<lambda>_.
     rbind (rforeach (validate_roster_entry m e) roster) (\<lambda>_.
     let stats = roster_stats m roster in
     rbind (validate_roster_stats m stats) (\<lambda>_. Inr stats)))"

definition validate_governance_for_roster ::
    "GovernancePolicy \<Rightarrow> RosterEntry list \<Rightarrow> GroupError + unit" where
  "validate_governance_for_roster policy roster =
     rbind (validate_governance_policy policy) (\<lambda>_.
       rforeach (\<lambda>s.
         case find (\<lambda>entry. member_id entry = s) roster of
           None \<Rightarrow> Inl (GE_InvalidGovernanceSigner s)
         | Some entry \<Rightarrow> ensure (status entry = MS_Active) (GE_InvalidGovernanceSigner s))
         (authorized_signers policy))"

definition ensure_active_member :: "RosterEntry list \<Rightarrow> MemberId \<Rightarrow> GroupError + RosterEntry" where
  "ensure_active_member roster i =
     rbind (ok_or (find (\<lambda>entry. member_id entry = i) roster) (GE_MemberNotFound i)) (\<lambda>entry.
       if status entry = MS_Active then Inr entry else Inl (GE_MemberInactive i))"

definition ensure_sender_allowed ::
    "GroupMode \<Rightarrow> RosterEntry list \<Rightarrow> MemberId \<Rightarrow> GroupError + RosterEntry" where
  "ensure_sender_allowed m roster i =
     rbind (ensure_active_member roster i) (\<lambda>entry.
       if can_send_in_mode (role entry) m then Inr entry else Inl (GE_SenderNotAllowed i))"

definition ensure_member_absent :: "RosterEntry list \<Rightarrow> MemberId \<Rightarrow> GroupError + unit" where
  "ensure_member_absent roster i =
     (if list_ex (\<lambda>entry. member_id entry = i) roster then Inl (GE_MemberAlreadyExists i) else Inr ())"

section \<open>Reading the validators\<close>

text \<open>The array types of an entry, a policy and a signature.\<close>

definition entry_ok :: "RosterEntry \<Rightarrow> bool" where
  "entry_ok e \<longleftrightarrow> length (member_id e) = 32 \<and> length (device_identity_fingerprint e) = 32"

definition policy_ok :: "GovernancePolicy \<Rightarrow> bool" where
  "policy_ok p \<longleftrightarrow> (\<forall>s \<in> set (authorized_signers p). length s = 32)"

definition commit_signature_ok :: "CommitSignature \<Rightarrow> bool" where
  "commit_signature_ok s \<longleftrightarrow> length (signer s) = 32 \<and> length (signature s) = ML_DSA_65_SIG_SIZE"

definition entry_valid :: "GroupMode \<Rightarrow> Epoch \<Rightarrow> RosterEntry \<Rightarrow> bool" where
  "entry_valid m e entry \<longleftrightarrow> joined_epoch entry \<le> e \<and>
     (case status entry of
        MS_Active \<Rightarrow> removed_epoch entry = 0 \<and> is_active_in_mode (role entry) m
      | MS_Removed \<Rightarrow> joined_epoch entry < removed_epoch entry \<and> removed_epoch entry \<le> e)"

definition roster_shape :: "GroupMode \<Rightarrow> RosterEntry list \<Rightarrow> bool" where
  "roster_shape m roster \<longleftrightarrow> roster \<noteq> [] \<and> length roster \<le> max_roster_entries m \<and>
     distinct (map member_id roster) \<and>
     distinct (map device_identity_fingerprint (filter is_active roster))"

definition roster_valid :: "GroupMode \<Rightarrow> Epoch \<Rightarrow> RosterEntry list \<Rightarrow> bool" where
  "roster_valid m e roster \<longleftrightarrow> roster_shape m roster \<and> (\<forall>entry \<in> set roster. entry_valid m e entry) \<and>
     (\<exists>entry \<in> set roster. is_active entry \<and> can_send_in_mode (role entry) m) \<and>
     (m = GM_Broadcast \<longrightarrow>
        length (filter (\<lambda>e. is_active e \<and> role e \<in> {Presenter, Moderator}) roster)
          \<le> MAX_BROADCAST_PRESENTERS)"

definition governance_valid :: "GovernancePolicy \<Rightarrow> bool" where
  "governance_valid p \<longleftrightarrow> policy_version p = 1 \<and> 0 < threshold p \<and>
     unat (threshold p) \<le> length (authorized_signers p) \<and>
     length (authorized_signers p) \<le> MAX_GOVERNANCE_SIGNERS \<and>
     sorted_wrt (<) (authorized_signers p)"

definition active_member :: "RosterEntry list \<Rightarrow> MemberId \<Rightarrow> bool" where
  "active_member roster i \<longleftrightarrow> (\<exists>e \<in> set roster. member_id e = i \<and> is_active e)"

lemma adjacent_sort_distinct:
  "\<not> list_ex (\<lambda>(a, b). a = b) (windows2 (sort xs)) \<longleftrightarrow> distinct (xs :: bytes list)"
  by (simp add: sorted_adjacent_distinct)

lemma active_filter [simp]: "filter (\<lambda>entry. status entry = MS_Active) roster = filter is_active roster"
  by (rule filter_cong) (simp_all add: is_active_def)

lemma validate_roster_canonical_iff [result_simps]:
  "validate_roster_for_canonical_encoding m roster = Inr u \<longleftrightarrow> roster_shape m roster"
  by (auto simp: validate_roster_for_canonical_encoding_def roster_shape_def result_simps Let_def
      adjacent_sort_distinct)

lemma validate_roster_entry_iff [result_simps]:
  "validate_roster_entry m e entry = Inr u \<longleftrightarrow> entry_valid m e entry"
proof -
  have "removed_epoch entry = 0 \<or> removed_epoch entry \<le> joined_epoch entry \<or> e < removed_epoch entry
      \<longleftrightarrow> \<not> (joined_epoch entry < removed_epoch entry \<and> removed_epoch entry \<le> e)"
    by auto
  then show ?thesis
    by (auto simp: validate_roster_entry_def entry_valid_def validate_removed_member_def result_simps
        split: MemberStatus.splits)
qed

text \<open>The counting loop counts.\<close>

lemma foldl_count_entry:
  "foldl (count_entry m) st roster =
     \<lparr>stat_total = stat_total st,
      stat_active = stat_active st + length (filter is_active roster),
      stat_removed = stat_removed st + length (filter (\<lambda>e. \<not> is_active e) roster),
      stat_send_capable = stat_send_capable st +
        length (filter (\<lambda>e. is_active e \<and> can_send_in_mode (role e) m) roster),
      stat_broadcast_presenters = stat_broadcast_presenters st +
        length (filter (\<lambda>e. is_active e \<and> role e = Presenter) roster),
      stat_moderators = stat_moderators st +
        length (filter (\<lambda>e. is_active e \<and> role e = Moderator) roster)\<rparr>"
  by (induction roster arbitrary: st)
    (auto simp: count_entry_def is_active_def split: MemberStatus.splits)

lemma roster_stats_eq:
  "roster_stats m roster =
     \<lparr>stat_total = length roster,
      stat_active = length (filter is_active roster),
      stat_removed = length (filter (\<lambda>e. \<not> is_active e) roster),
      stat_send_capable = length (filter (\<lambda>e. is_active e \<and> can_send_in_mode (role e) m) roster),
      stat_broadcast_presenters = length (filter (\<lambda>e. is_active e \<and> role e = Presenter) roster),
      stat_moderators = length (filter (\<lambda>e. is_active e \<and> role e = Moderator) roster)\<rparr>"
  by (simp add: roster_stats_def foldl_count_entry)

lemma presenters_and_moderators:
  "length (filter (\<lambda>e. is_active e \<and> role e = Presenter) roster) +
   length (filter (\<lambda>e. is_active e \<and> role e = Moderator) roster) =
   length (filter (\<lambda>e. is_active e \<and> role e \<in> {Presenter, Moderator}) roster)"
  by (induction roster) auto

lemma validate_roster_stats_iff [result_simps]:
  "validate_roster_stats m (roster_stats m roster) = Inr u \<longleftrightarrow>
     (\<exists>e \<in> set roster. is_active e \<and> can_send_in_mode (role e) m) \<and>
     (m = GM_Broadcast \<longrightarrow>
        length (filter (\<lambda>e. is_active e \<and> role e \<in> {Presenter, Moderator}) roster)
          \<le> MAX_BROADCAST_PRESENTERS)"
  using presenters_and_moderators [of roster]
  by (auto simp: validate_roster_stats_def roster_stats_eq result_simps filter_empty_conv)

lemma validate_roster_for_mode_iff [result_simps]:
  "validate_roster_for_mode m e roster = Inr stats \<longleftrightarrow>
     roster_valid m e roster \<and> stats = roster_stats m roster"
  by (auto simp: validate_roster_for_mode_def roster_valid_def result_simps Let_def)

lemma validate_governance_policy_iff [result_simps]:
  "validate_governance_policy p = Inr u \<longleftrightarrow> governance_valid p"
proof -
  have "0 < threshold p \<longleftrightarrow> threshold p \<noteq> 0"
    by (simp add: word_gt_0)
  moreover have "\<not> of_nat MAX_GOVERNANCE_SIGNERS < threshold p"
    if "unat (threshold p) \<le> length (authorized_signers p)"
      "length (authorized_signers p) \<le> MAX_GOVERNANCE_SIGNERS"
    using that by (simp add: word_less_nat_alt)
  moreover have "length (authorized_signers p) = 0 \<Longrightarrow>
      unat (threshold p) \<le> length (authorized_signers p) \<Longrightarrow> threshold p = 0"
    by (simp add: unat_eq_zero)
  ultimately show ?thesis
    by (auto simp: validate_governance_policy_def governance_valid_def Let_def result_simps
        is_strictly_ordered_member_ids_def strictly_ordered_iff)
qed

lemma find_member_id:
  "distinct (map member_id roster) \<Longrightarrow>
     find (\<lambda>e. member_id e = i) roster = Some e \<longleftrightarrow> e \<in> set roster \<and> member_id e = i"
  using find_key_mem [of member_id roster e] by (auto dest: find_SomeD)

lemma find_member_id_None: "find (\<lambda>e. member_id e = i) roster = None \<longleftrightarrow> i \<notin> member_id ` set roster"
  by (auto simp: find_None_iff)

lemma validate_governance_for_roster_iff:
  assumes "distinct (map member_id roster)"
  shows "validate_governance_for_roster p roster = Inr u \<longleftrightarrow>
    governance_valid p \<and> (\<forall>s \<in> set (authorized_signers p). active_member roster s)"
proof -
  have "(case find (\<lambda>e. member_id e = s) roster of
        None \<Rightarrow> Inl (GE_InvalidGovernanceSigner s)
      | Some entry \<Rightarrow> ensure (status entry = MS_Active) (GE_InvalidGovernanceSigner s)) = Inr () \<longleftrightarrow>
    active_member roster s" for s
  proof (cases "find (\<lambda>e. member_id e = s) roster")
    case None
    then have "s \<notin> member_id ` set roster"
      by (simp add: find_member_id_None)
    then show ?thesis
      using None by (auto simp: active_member_def)
  next
    case (Some a)
    then have "active_member roster s \<longleftrightarrow> is_active a"
      using find_member_id [OF assms, of s] by (metis active_member_def option.inject)
    then show ?thesis
      using Some by (simp add: is_active_def result_simps)
  qed
  then show ?thesis
    by (simp add: validate_governance_for_roster_def result_simps)
qed

lemma ensure_sender_allowed_iff:
  assumes "distinct (map member_id roster)"
  shows "ensure_sender_allowed m roster i = Inr e \<longleftrightarrow>
    e \<in> set roster \<and> member_id e = i \<and> is_active e \<and> can_send_in_mode (role e) m"
  using find_member_id [OF assms, of i e]
  by (auto simp: ensure_sender_allowed_def ensure_active_member_def result_simps is_active_def
      split: if_splits)

lemma ensure_sender_allowedD:
  assumes "ensure_sender_allowed m roster i = Inr e"
  shows "e \<in> set roster" and "member_id e = i" and "is_active e" and "can_send_in_mode (role e) m"
  using assms
  by (auto simp: ensure_sender_allowed_def ensure_active_member_def result_simps is_active_def
      split: if_splits dest: find_SomeD)

section \<open>The encodings determine their values\<close>

lemma lp_total: "length b \<le> u32_max \<Longrightarrow> lp b = Inr (be_bytes 4 (of_nat (length b) :: u32) @ b)"
  by (simp add: lp_def checked_u32_be_def u32_try_from_def)

lemma lp_Inr_iff [result_simps]:
  "lp b = Inr out \<longleftrightarrow> length b \<le> u32_max \<and> out = be_bytes 4 (of_nat (length b) :: u32) @ b"
  by (auto simp: lp_def checked_u32_be_def u32_try_from_def result_simps)

text \<open>Length-prefixed strings can be told apart even when more bytes follow.\<close>

lemma lp_prefix_free:
  assumes "lp a = Inr x" and "lp b = Inr y" and "x @ r = y @ s"
  shows "a = b" and "r = s"
proof -
  have "be_bytes 4 (of_nat (length a) :: u32) = be_bytes 4 (of_nat (length b) :: u32)"
    and rest: "a @ r = b @ s"
    using assms by (auto simp: lp_Inr_iff)
  then have "length a = length b"
    using assms by (simp add: be_bytes_inject_u32 of_nat_u32_inject lp_Inr_iff)
  with rest show "a = b" "r = s" by simp_all
qed

lemma checked_u16_be_Inr_iff [result_simps]:
  "checked_u16_be n = Inr out \<longleftrightarrow> n \<le> u16_max \<and> out = be_bytes 2 (of_nat n :: u16)"
  by (auto simp: checked_u16_be_def u16_try_from_def result_simps)

lemma encode_roster_entry_layout:
  assumes "entry_ok e"
  shows "encode_roster_entry e = member_id e @ device_identity_fingerprint e @
    [group_role_u8 (role e), member_status_u8 (status e)] @ be_bytes 4 (tree_leaf_slot e) @
    be_bytes 8 (joined_epoch e) @ be_bytes 8 (removed_epoch e)"
proof -
  have lens: "length (member_id e) = 32" "length (device_identity_fingerprint e) = 32"
    using assms by (simp_all add: entry_ok_def)
  show ?thesis
    using lens
    by (simp add: encode_roster_entry_def Let_def u32_be_def u64_be_def list_update_write_at
        layout_simps)
qed

lemma length_encode_roster_entry: "entry_ok e \<Longrightarrow> length (encode_roster_entry e) = ROSTER_ENTRY_SIZE"
  by (simp add: encode_roster_entry_layout entry_ok_def)

lemma encode_roster_entry_inject:
  assumes "entry_ok a" and "entry_ok b" and "encode_roster_entry a = encode_roster_entry b"
  shows "a = (b :: RosterEntry)"
proof -
  have "length (member_id a) = length (member_id b)"
    "length (device_identity_fingerprint a) = length (device_identity_fingerprint b)"
    using assms(1,2) by (simp_all add: entry_ok_def)
  then show ?thesis
    using assms
    by (simp add: encode_roster_entry_layout group_role.to_u8_inject member_status.to_u8_inject
        be_bytes_inject_u64 be_bytes_inject_u32)
qed

lemma inj_on_encode_roster_entry: "(\<And>e. e \<in> A \<Longrightarrow> entry_ok e) \<Longrightarrow> inj_on encode_roster_entry A"
  by (rule inj_onI) (use encode_roster_entry_inject in blast)

lemma roster_shape_count: "roster_shape m roster \<Longrightarrow> length roster \<le> u16_max"
  using max_roster_entries_bound [of m] by (simp add: roster_shape_def u16_max_def)

lemma encode_roster_Inr_iff [result_simps]:
  "encode_roster m roster = Inr b \<longleftrightarrow> roster_shape m roster \<and>
     b = be_bytes 2 (of_nat (length roster) :: u16) @
         concat (map encode_roster_entry (sort_key member_id roster))"
  using roster_shape_count [of m roster]
  by (auto simp: encode_roster_def result_simps Let_def)

lemma sort_key_unique:
  assumes "distinct (map k xs)" and "distinct (map k ys)" and "set xs = set ys"
  shows "sort_key k xs = sort_key k ys"
  by (rule map_sorted_distinct_set_unique [where f = k])
    (use assms in \<open>auto simp: distinct_map\<close>)

lemma encode_roster_inject:
  assumes "\<forall>e \<in> set xs \<union> set ys. entry_ok e"
    and "encode_roster m xs = Inr b" and "encode_roster n ys = Inr b"
  shows "set xs = set ys"
proof -
  have "length xs = length ys" if "be_bytes 2 (of_nat (length xs) :: u16) = be_bytes 2 (of_nat (length ys) :: u16)"
    using that roster_shape_count [of m xs] roster_shape_count [of n ys] assms(2,3)
    by (simp add: be_bytes_inject_u16 of_nat_u16_inject encode_roster_Inr_iff)
  then have "concat (map encode_roster_entry (sort_key member_id xs)) =
      concat (map encode_roster_entry (sort_key member_id ys))"
    using assms(2,3) by (auto simp: encode_roster_Inr_iff)
  then have "sort_key member_id xs = sort_key member_id ys"
    by (rule concat_map_inject [where n = ROSTER_ENTRY_SIZE])
      (use assms(1) length_encode_roster_entry in \<open>auto intro!: inj_on_encode_roster_entry\<close>)
  then show ?thesis
    by (metis set_sort)
qed

lemma encode_governance_policy_Inr_iff [result_simps]:
  "encode_governance_policy p = Inr b \<longleftrightarrow> governance_valid p \<and>
     b = [policy_version p, threshold p, of_nat (length (authorized_signers p)), 0] @
         concat (authorized_signers p)"
  by (auto simp: encode_governance_policy_def result_simps governance_valid_def)

lemma encode_governance_policy_inject:
  assumes "policy_ok p" and "policy_ok q"
    and "encode_governance_policy p = Inr b" and "encode_governance_policy q = Inr b"
  shows "p = (q :: GovernancePolicy)"
proof -
  have "concat (map id (authorized_signers p)) = concat (map id (authorized_signers q))"
    using assms(3,4) by (simp add: encode_governance_policy_Inr_iff)
  then have "authorized_signers p = authorized_signers q"
    by (rule concat_map_inject [where n = 32]) (use assms(1,2) in \<open>auto simp: policy_ok_def\<close>)
  then show ?thesis
    using assms(3,4) by (simp add: encode_governance_policy_Inr_iff)
qed

section \<open>Properties\<close>


text \<open>A concrete roster: members numbered from 1, all with the right to send.\<close>

definition toy_member :: "u8 \<Rightarrow> RosterEntry" where
  "toy_member n = \<lparr>member_id = replicate 32 n, device_identity_fingerprint = replicate 32 n,
     role = Moderator, status = MS_Active, tree_leaf_slot = ucast n, joined_epoch = 0,
     removed_epoch = 0\<rparr>"

definition toy_roster :: "RosterEntry list" where
  "toy_roster = [toy_member 2, toy_member 1]"

lemma toy_roster_ok: "e \<in> set toy_roster \<Longrightarrow> entry_ok e"
  by (auto simp: toy_roster_def toy_member_def entry_ok_def)

lemma toy_roster_valid: "roster_valid m 0 toy_roster"
  by (cases m)
    (simp_all add: roster_valid_def roster_shape_def toy_roster_def toy_member_def entry_valid_def
      is_active_def is_active_in_mode_def can_send_in_mode_def)


end
