(* ===== verification/Group_Tree.thy ===== *)
theory Group_Tree
  imports Group_Roster Crypto_Backend
begin

text \<open>
  The public TreeKEM tree of \<open>hydra-group\<close> (\<open>public_tree/\<close>): heap-indexed complete binary tree of
  256 or 8192 leaves, its index arithmetic (\<open>geometry.rs\<close>), the Merkle hash (\<open>hashing.rs\<close>) and the
  mutations (\<open>mutation.rs\<close>). Node indices are 32-bit words with the source's checked arithmetic. The
  lemmas give the direct path in closed form and show that the copath of a leaf covers every other
  leaf exactly once.
\<close>

section \<open>Types\<close>

definition ROOT_NODE_INDEX :: u32 where
  [simp]: "ROOT_NODE_INDEX = 1"

definition NODE_KEY_ABSENT :: u8 where
  [simp]: "NODE_KEY_ABSENT = 0"

definition NODE_KEY_PRESENT :: u8 where
  [simp]: "NODE_KEY_PRESENT = 1"

type_synonym PublicNodeKey = bytes

record PublicLeaf =
  leaf_member_id :: MemberId
  leaf_fingerprint :: bytes
  leaf_role :: GroupRole
  generation :: u64
  leaf_node_key :: "PublicNodeKey option"

record PublicTreeNode =
  node_index :: u32
  node_key :: "PublicNodeKey option"
  leaf :: "PublicLeaf option"

definition PublicTreeNode_empty :: "u32 \<Rightarrow> PublicTreeNode" where
  "PublicTreeNode_empty i = \<lparr>node_index = i, node_key = None, leaf = None\<rparr>"

record AffectedPathHash =
  affected_node_index :: u32
  affected_hash :: bytes

record PublicTree =
  pt_mode :: GroupMode
  leaf_capacity :: u32
  tree_version :: u64
  pt_epoch :: "Epoch option"
  nodes :: "PublicTreeNode list"

section \<open>Geometry\<close>

definition leaf_capacity_for_mode :: "GroupMode \<Rightarrow> GroupError + u32" where
  "leaf_capacity_for_mode m =
     (case m of
        GM_Interactive \<Rightarrow> Inr (of_nat MAX_INTERACTIVE_MEMBERS)
      | GM_Broadcast \<Rightarrow> Inr (of_nat MAX_BROADCAST_MEMBERS)
      | GM_Lite \<Rightarrow> Inl (GE_InvalidModeMechanism m TreeKem))"

definition validate_node_key_flag :: "u8 \<Rightarrow> GroupError + unit" where
  "validate_node_key_flag flag =
     ensure (flag = NODE_KEY_ABSENT \<or> flag = NODE_KEY_PRESENT) (GE_InvalidTreeNodeKeyFlag flag)"

definition parent_index :: "u32 \<Rightarrow> u32 option" where
  "parent_index n = (if n = ROOT_NODE_INDEX then None else Some (n div 2))"

definition left_child :: "u32 \<Rightarrow> GroupError + u32" where
  "left_child n = ok_or (checked_mul_u32 n 2) GE_CounterExhausted"

definition right_child :: "u32 \<Rightarrow> GroupError + u32" where
  "right_child n =
     rbind (left_child n) (\<lambda>l. ok_or (checked_add_u32 l 1) GE_CounterExhausted)"

definition sibling_index :: "u32 \<Rightarrow> GroupError + u32" where
  "sibling_index n =
     rbind (ensure (n \<noteq> ROOT_NODE_INDEX) (GE_InvalidTreeNode n)) (\<lambda>_.
       if n mod 2 = 0 then ok_or (checked_add_u32 n 1) GE_CounterExhausted else Inr (n - 1))"

definition leaf_node_index_for_capacity :: "u32 \<Rightarrow> u32 \<Rightarrow> GroupError + u32" where
  "leaf_node_index_for_capacity capacity slot =
     rbind (ensure (\<not> capacity \<le> slot) (GE_InvalidTreeSlot slot capacity)) (\<lambda>_.
       ok_or (checked_add_u32 capacity slot) GE_CounterExhausted)"

definition validate_node_index_for_capacity :: "u32 \<Rightarrow> u32 \<Rightarrow> GroupError + unit" where
  "validate_node_index_for_capacity capacity n =
     rbind (ok_or (checked_mul_u32 capacity 2) GE_CounterExhausted) (\<lambda>exclusive.
       ensure (ROOT_NODE_INDEX \<le> n \<and> n < exclusive) (GE_InvalidTreeNode n))"

definition is_leaf_node_for_capacity :: "u32 \<Rightarrow> u32 \<Rightarrow> GroupError + bool" where
  "is_leaf_node_for_capacity capacity n =
     rbind (validate_node_index_for_capacity capacity n) (\<lambda>_. Inr (capacity \<le> n))"

lemma parent_index_less: "parent_index n = Some p \<Longrightarrow> n \<noteq> 0 \<Longrightarrow> unat p < unat n"
  using unat_eq_zero [of n] by (auto simp: parent_index_def unat_div split: if_splits)

text \<open>
  The loops up the tree. They start at a leaf node, whose index is at least the capacity and above
  the slot, so never at 0, the one index (not a node) that is its own parent.
\<close>

function direct_path_loop :: "u32 \<Rightarrow> u32 list" where
  "direct_path_loop cursor =
     cursor # (if cursor = 0 then []
               else case parent_index cursor of None \<Rightarrow> [] | Some parent \<Rightarrow> direct_path_loop parent)"
  by pat_completeness auto

termination
  by (relation "measure unat") (auto dest: parent_index_less)

declare direct_path_loop.simps [simp del]

definition direct_path_for_capacity :: "u32 \<Rightarrow> u32 \<Rightarrow> GroupError + u32 list" where
  "direct_path_for_capacity capacity slot =
     rbind (leaf_node_index_for_capacity capacity slot) (\<lambda>cursor. Inr (direct_path_loop cursor))"

function copath_loop :: "u32 \<Rightarrow> u32 \<Rightarrow> GroupError + u32 list" where
  "copath_loop capacity cursor =
     (if cursor = 0 then Inr []
      else case parent_index cursor of
        None \<Rightarrow> Inr []
      | Some parent \<Rightarrow>
          rbind (sibling_index cursor) (\<lambda>sibling.
          rbind (validate_node_index_for_capacity capacity sibling) (\<lambda>_.
          rbind (copath_loop capacity parent) (\<lambda>path.
            Inr (sibling # path)))))"
  by pat_completeness auto

termination
  by (relation "measure (\<lambda>(_, cursor). unat cursor)") (auto dest: parent_index_less)

declare copath_loop.simps [simp del]

definition copath_for_capacity :: "u32 \<Rightarrow> u32 \<Rightarrow> GroupError + u32 list" where
  "copath_for_capacity capacity slot =
     rbind (leaf_node_index_for_capacity capacity slot) (\<lambda>cursor. copath_loop capacity cursor)"

definition leaf_node_index :: "GroupMode \<Rightarrow> u32 \<Rightarrow> GroupError + u32" where
  "leaf_node_index m slot =
     rbind (leaf_capacity_for_mode m) (\<lambda>capacity. leaf_node_index_for_capacity capacity slot)"

definition direct_path :: "GroupMode \<Rightarrow> u32 \<Rightarrow> GroupError + u32 list" where
  "direct_path m slot =
     rbind (leaf_capacity_for_mode m) (\<lambda>capacity. direct_path_for_capacity capacity slot)"

definition copath :: "GroupMode \<Rightarrow> u32 \<Rightarrow> GroupError + u32 list" where
  "copath m slot =
     rbind (leaf_capacity_for_mode m) (\<lambda>capacity. copath_for_capacity capacity slot)"

section \<open>Mutation\<close>

definition PublicTree_new :: "GroupMode \<Rightarrow> Epoch option \<Rightarrow> GroupError + PublicTree" where
  "PublicTree_new m e =
     rbind (leaf_capacity_for_mode m) (\<lambda>capacity.
     rbind (ok_or (checked_mul_u32 capacity 2) GE_CounterExhausted) (\<lambda>node_count_exclusive.
       Inr \<lparr>pt_mode = m, leaf_capacity = capacity, tree_version = 0, pt_epoch = e,
            nodes = map (\<lambda>i. PublicTreeNode_empty (of_nat i)) [0..<unat node_count_exclusive]\<rparr>))"

definition tree_validate_node_index :: "PublicTree \<Rightarrow> u32 \<Rightarrow> GroupError + unit" where
  "tree_validate_node_index t n = validate_node_index_for_capacity (leaf_capacity t) n"

definition tree_node :: "PublicTree \<Rightarrow> u32 \<Rightarrow> GroupError + PublicTreeNode" where
  "tree_node t n =
     rbind (tree_validate_node_index t n) (\<lambda>_.
       if unat n < length (nodes t) then Inr (nodes t ! unat n) else Inl (GE_InvalidTreeNode n))"

text \<open>\<open>*self.node_mut(n)? = f(node)\<close>.\<close>

definition tree_node_mut ::
    "u32 \<Rightarrow> (PublicTreeNode \<Rightarrow> PublicTreeNode) \<Rightarrow> (PublicTree, GroupError, unit) st" where
  "tree_node_mut n f =
     st_try (\<lambda>t. rbind (tree_node t n) (\<lambda>node. Inr (t\<lparr>nodes := (nodes t)[unat n := f node]\<rparr>)))"

definition bump_tree_version :: "(PublicTree, GroupError, unit) st" where
  "bump_tree_version =
     st_try (\<lambda>t. rbind (ok_or (checked_add_u64 (tree_version t) 1) GE_CounterExhausted) (\<lambda>v.
       Inr (t\<lparr>tree_version := v\<rparr>)))"

definition occupy_leaf :: "u32 \<Rightarrow> PublicLeaf \<Rightarrow> (PublicTree, GroupError, unit) st" where
  "occupy_leaf slot l t =
     st_bind (st_lift (leaf_node_index_for_capacity (leaf_capacity t) slot)) (\<lambda>n.
     st_bind (tree_node_mut n (\<lambda>node. node\<lparr>node_key := leaf_node_key l, leaf := Some l\<rparr>)) (\<lambda>_.
       bump_tree_version)) t"

definition vacate_leaf :: "u32 \<Rightarrow> (PublicTree, GroupError, unit) st" where
  "vacate_leaf slot t =
     st_bind (st_lift (leaf_node_index_for_capacity (leaf_capacity t) slot)) (\<lambda>n.
     st_bind (tree_node_mut n (\<lambda>node. node\<lparr>node_key := None, leaf := None\<rparr>)) (\<lambda>_.
       bump_tree_version)) t"

definition update_leaf_role :: "u32 \<Rightarrow> GroupRole \<Rightarrow> (PublicTree, GroupError, unit) st" where
  "update_leaf_role slot r t =
     (let capacity = leaf_capacity t in
      st_bind (st_lift (
        rbind (leaf_node_index_for_capacity capacity slot) (\<lambda>n.
        rbind (tree_node t n) (\<lambda>node.
        rbind (ok_or (leaf node) (GE_InvalidTreeSlot slot capacity)) (\<lambda>l.
          Inr (n, l)))))) (\<lambda>(n, l).
      st_bind (tree_node_mut n (\<lambda>node. node\<lparr>leaf := Some (l\<lparr>leaf_role := r\<rparr>)\<rparr>)) (\<lambda>_.
        bump_tree_version)) t)"

definition set_node_key :: "u32 \<Rightarrow> PublicNodeKey option \<Rightarrow> (PublicTree, GroupError, unit) st" where
  "set_node_key n key t =
     st_bind (st_lift (tree_validate_node_index t n)) (\<lambda>_.
     st_bind (tree_node_mut n (\<lambda>node. node\<lparr>node_key := key\<rparr>)) (\<lambda>_.
       bump_tree_version)) t"

definition tree_leaf :: "PublicTree \<Rightarrow> u32 \<Rightarrow> PublicLeaf option" where
  "tree_leaf t slot =
     (case leaf_node_index_for_capacity (leaf_capacity t) slot of
        Inl _ \<Rightarrow> None
      | Inr n \<Rightarrow> if unat n < length (nodes t) then leaf (nodes t ! unat n) else None)"

section \<open>Hashing\<close>

definition append_node_key :: "PublicNodeKey option \<Rightarrow> bytes" where
  "append_node_key key =
     (case key of Some k \<Rightarrow> NODE_KEY_PRESENT # k | None \<Rightarrow> [NODE_KEY_ABSENT])"

definition vacant_leaf_hash_for_capacity ::
    "CryptoPrims \<Rightarrow> u32 \<Rightarrow> GroupMode \<Rightarrow> u32 \<Rightarrow> GroupError + bytes" where
  "vacant_leaf_hash_for_capacity P capacity m slot =
     rbind (leaf_node_index_for_capacity capacity slot) (\<lambda>n.
     rbind (lp (ascii ''HYDRA-MSG/v1/group/tree/vacant-leaf'' @ SUITE_ID @ [group_mode_u8 m] @
                u32_be capacity @ u32_be slot @ u32_be n @ [NODE_KEY_ABSENT])) (\<lambda>input.
       Inr (sha3_512 P input)))"

definition occupied_leaf_hash_for_capacity ::
    "CryptoPrims \<Rightarrow> u32 \<Rightarrow> GroupMode \<Rightarrow> u32 \<Rightarrow> PublicLeaf \<Rightarrow> PublicNodeKey option \<Rightarrow> GroupError + bytes" where
  "occupied_leaf_hash_for_capacity P capacity m slot l key =
     rbind (leaf_node_index_for_capacity capacity slot) (\<lambda>n.
     rbind (lp (ascii ''HYDRA-MSG/v1/group/tree/occupied-leaf'' @ SUITE_ID @ [group_mode_u8 m] @
                u32_be capacity @ u32_be slot @ u32_be n @ leaf_member_id l @ leaf_fingerprint l @
                [group_role_u8 (leaf_role l)] @ u64_be (generation l) @ append_node_key key)) (\<lambda>input.
       Inr (sha3_512 P input)))"

definition vacant_leaf_hash :: "CryptoPrims \<Rightarrow> GroupMode \<Rightarrow> u32 \<Rightarrow> GroupError + bytes" where
  "vacant_leaf_hash P m slot =
     rbind (leaf_capacity_for_mode m) (\<lambda>capacity. vacant_leaf_hash_for_capacity P capacity m slot)"

definition occupied_leaf_hash :: "CryptoPrims \<Rightarrow> GroupMode \<Rightarrow> u32 \<Rightarrow> PublicLeaf \<Rightarrow> GroupError + bytes" where
  "occupied_leaf_hash P m slot l =
     rbind (leaf_capacity_for_mode m) (\<lambda>capacity.
       occupied_leaf_hash_for_capacity P capacity m slot l (leaf_node_key l))"

definition parent_node_hash ::
    "CryptoPrims \<Rightarrow> u32 \<Rightarrow> bytes \<Rightarrow> bytes \<Rightarrow> PublicNodeKey option \<Rightarrow> GroupError + bytes" where
  "parent_node_hash P n left_hash right_hash key =
     rbind (ensure (n \<noteq> 0) (GE_InvalidTreeNode n)) (\<lambda>_.
     rbind (lp (ascii ''HYDRA-MSG/v1/group/tree/parent'' @ SUITE_ID @ u32_be n @
                append_node_key key @ left_hash @ right_hash)) (\<lambda>input.
       Inr (sha3_512 P input)))"

definition leaf_hash :: "CryptoPrims \<Rightarrow> PublicTree \<Rightarrow> u32 \<Rightarrow> GroupError + bytes" where
  "leaf_hash P t n =
     (let slot = n - leaf_capacity t in
      rbind (tree_node t n) (\<lambda>node.
        case leaf node of
          Some l \<Rightarrow> occupied_leaf_hash_for_capacity P (leaf_capacity t) (pt_mode t) slot l
                      (case node_key node of Some k \<Rightarrow> Some k | None \<Rightarrow> leaf_node_key l)
        | None \<Rightarrow> vacant_leaf_hash_for_capacity P (leaf_capacity t) (pt_mode t) slot))"

lemma left_child_Inr_iff:
  "left_child n = Inr l \<longleftrightarrow> unat n * 2 < 2 ^ 32 \<and> l = n * 2"
  by (auto simp: left_child_def checked_mul_u32_def result_simps)

lemma unat_left_child: "left_child n = Inr l \<Longrightarrow> unat l = 2 * unat n"
  by (auto simp: left_child_Inr_iff unat_word_ariths)

lemma right_child_Inr: "right_child n = Inr r \<Longrightarrow> unat r = 2 * unat n + 1"
  by (auto simp: right_child_def result_simps checked_add_u32_def unat_word_ariths
      dest: unat_left_child split: if_splits)

lemma validate_node_index_iff [result_simps]:
  "validate_node_index_for_capacity c n = Inr u \<longleftrightarrow>
     unat c * 2 < 2 ^ 32 \<and> 1 \<le> unat n \<and> unat n < 2 * unat c"
  by (auto simp: validate_node_index_for_capacity_def checked_mul_u32_def result_simps
      word_le_nat_alt word_less_nat_alt unat_word_ariths)

lemma is_leaf_node_Inr_iff [result_simps]:
  "is_leaf_node_for_capacity c n = Inr b \<longleftrightarrow>
     unat c * 2 < 2 ^ 32 \<and> 1 \<le> unat n \<and> unat n < 2 * unat c \<and> b = (c \<le> n)"
  by (auto simp: is_leaf_node_for_capacity_def result_simps)

function node_hash :: "CryptoPrims \<Rightarrow> PublicTree \<Rightarrow> u32 \<Rightarrow> GroupError + bytes" where
  "node_hash P t n =
     rbind (tree_validate_node_index t n) (\<lambda>_.
     rbind (is_leaf_node_for_capacity (leaf_capacity t) n) (\<lambda>is_leaf.
       if is_leaf then leaf_hash P t n
       else
         rbind (left_child n) (\<lambda>left.
         rbind (right_child n) (\<lambda>right.
         rbind (node_hash P t left) (\<lambda>left_hash.
         rbind (node_hash P t right) (\<lambda>right_hash.
         rbind (tree_node t n) (\<lambda>node.
           parent_node_hash P n left_hash right_hash (node_key node))))))))"
  by pat_completeness auto

termination
  by (relation "measure (\<lambda>(_, t, n). 2 * unat (leaf_capacity t) - unat n)")
    (auto simp: result_simps word_le_nat_alt dest!: unat_left_child right_child_Inr)

declare node_hash.simps [simp del]

definition tree_hash :: "CryptoPrims \<Rightarrow> PublicTree \<Rightarrow> GroupError + bytes" where
  "tree_hash P t = node_hash P t ROOT_NODE_INDEX"

lemma hash_input_length:
  "hash_ok P \<Longrightarrow> vacant_leaf_hash_for_capacity P c m s = Inr h \<Longrightarrow> length h = 64"
  "hash_ok P \<Longrightarrow> occupied_leaf_hash_for_capacity P c m s l k = Inr h \<Longrightarrow> length h = 64"
  "hash_ok P \<Longrightarrow> parent_node_hash P n lh rh k = Inr h \<Longrightarrow> length h = 64"
  by (auto simp: vacant_leaf_hash_for_capacity_def occupied_leaf_hash_for_capacity_def
      parent_node_hash_def rbind_Inr_iff)

lemma leaf_hash_length: "hash_ok P \<Longrightarrow> leaf_hash P t n = Inr h \<Longrightarrow> length h = 64"
  by (auto simp: leaf_hash_def Let_def rbind_Inr_iff dest: hash_input_length split: option.split_asm)

lemma tree_hash_length:
  assumes "hash_ok P" and "tree_hash P t = Inr h"
  shows "length h = 64"
  using assms unfolding tree_hash_def
  by (subst (asm) node_hash.simps)
    (auto simp: rbind_Inr_iff split: if_splits dest: leaf_hash_length hash_input_length)

definition recompute_affected_path :: "CryptoPrims \<Rightarrow> PublicTree \<Rightarrow> u32 \<Rightarrow> GroupError + AffectedPathHash list" where
  "recompute_affected_path P t slot =
     rbind (direct_path_for_capacity (leaf_capacity t) slot) (\<lambda>path.
       rmap (\<lambda>n. rbind (node_hash P t n) (\<lambda>h.
         Inr \<lparr>affected_node_index = n, affected_hash = h\<rparr>)) path)"

section \<open>Paths as numbers\<close>

text \<open>
  At level \<open>k\<close> above a node \<open>n\<close> of a heap-indexed tree stands \<open>n div 2 ^ k\<close>, down to the root 1; the
  sibling differs in the last bit.
\<close>

definition node_sibling :: "nat \<Rightarrow> nat" where
  "node_sibling n = (if even n then n + 1 else n - 1)"

definition at_level :: "nat \<Rightarrow> nat \<Rightarrow> bool" where
  "at_level d n \<longleftrightarrow> 2 ^ d \<le> n \<and> n < 2 ^ Suc d"

lemma at_level_div: "at_level d n \<Longrightarrow> k \<le> d \<Longrightarrow> at_level (d - k) (n div 2 ^ k)"
proof -
  assume n: "at_level d n" and k: "k \<le> d"
  have "(2 ^ d :: nat) = 2 ^ (d - k) * 2 ^ k" "(2 ^ Suc d :: nat) = 2 ^ Suc (d - k) * 2 ^ k"
    using k by (simp_all flip: power_add)
  then show ?thesis
    using n by (simp add: at_level_def less_eq_div_iff_mult_less_eq div_less_iff_less_mult)
qed

lemma at_level_unique: "at_level d n \<Longrightarrow> at_level e n \<Longrightarrow> d = e"
proof (rule ccontr)
  assume d: "at_level d n" and e: "at_level e n" and "d \<noteq> e"
  then consider "Suc d \<le> e" | "Suc e \<le> d" by linarith
  then show False
  proof cases
    case 1
    then have "(2 :: nat) ^ Suc d \<le> 2 ^ e" by (rule power_increasing) simp
    then show False using d e by (simp add: at_level_def)
  next
    case 2
    then have "(2 :: nat) ^ Suc e \<le> 2 ^ d" by (rule power_increasing) simp
    then show False using d e by (simp add: at_level_def)
  qed
qed

lemma at_level_Suc_bound: "at_level (Suc d) n \<Longrightarrow> 2 \<le> n"
proof -
  assume "at_level (Suc d) n"
  then have "2 * 2 ^ d \<le> n" by (simp add: at_level_def)
  moreover have "(1 :: nat) \<le> 2 ^ d" by simp
  ultimately show "2 \<le> n" by linarith
qed

lemma level_exists: "0 < n \<Longrightarrow> \<exists>d. at_level d n"
proof (induction n rule: less_induct)
  case (less n)
  show ?case
  proof (cases "n = 1")
    case True
    then have "at_level 0 n" by (simp add: at_level_def)
    then show ?thesis by blast
  next
    case False
    then obtain d where "at_level d (n div 2)"
      using less.IH [of "n div 2"] less.prems by (auto simp: div_greater_zero_iff)
    then have "at_level (Suc d) n"
      by (auto simp: at_level_def)
    then show ?thesis by blast
  qed
qed

lemma at_level_0: "at_level 0 n \<longleftrightarrow> n = 1"
  by (auto simp: at_level_def)

lemma at_level_top: "at_level d n \<Longrightarrow> n div 2 ^ d = 1"
  using at_level_div [of d n d] by (simp add: at_level_0)

lemma node_sibling_parent: "node_sibling n div 2 = n div 2"
  by (auto simp: node_sibling_def elim!: evenE oddE)

lemma node_sibling_neq: "0 < n \<Longrightarrow> node_sibling n \<noteq> n"
  by (auto simp: node_sibling_def)

lemma same_parent: "m div 2 = n div 2 \<Longrightarrow> m \<noteq> n \<Longrightarrow> m = node_sibling (n :: nat)"
  unfolding node_sibling_def by presburger

lemma at_level_sibling: "at_level (Suc d) n \<Longrightarrow> at_level (Suc d) (node_sibling n)"
  unfolding at_level_def node_sibling_def by (auto; presburger)

lemma div_level_Suc: "n div 2 ^ Suc k = n div 2 ^ k div (2 :: nat)"
  by (metis div_mult2_eq power_Suc2)

lemma same_above: "m div 2 ^ k = n div (2 :: nat) ^ k \<Longrightarrow> k \<le> j \<Longrightarrow> m div 2 ^ j = n div 2 ^ j"
  by (metis div_mult2_eq le_add_diff_inverse power_add)

text \<open>
  Two different leaves part at exactly one level: there the one is under the sibling of the other,
  above it their paths agree, below it they differ.
\<close>

lemma paths_part:
  assumes x: "at_level d x" and y: "at_level d y" and "x \<noteq> y"
  obtains k where "k < d" and "y div 2 ^ k = node_sibling (x div 2 ^ k)"
    and "\<And>j. x div 2 ^ j = y div 2 ^ j \<longleftrightarrow> k < j"
proof -
  define same where "same j \<longleftrightarrow> x div 2 ^ j = y div 2 ^ j" for j
  have "same d"
    using at_level_top [OF x] at_level_top [OF y] by (simp add: same_def)
  define k where "k = (LEAST j. same j) - 1"
  have least: "same (LEAST j. same j)"
    using \<open>same d\<close> by (rule LeastI)
  have "\<not> same 0"
    using \<open>x \<noteq> y\<close> by (simp add: same_def)
  then have pos: "(LEAST j. same j) \<noteq> 0"
    using least by metis
  then have K: "(LEAST j. same j) = Suc k"
    by (simp add: k_def)
  have nk: "\<not> same k"
    using not_less_Least [of k same] K by simp
  have mono: "same i \<Longrightarrow> i \<le> j \<Longrightarrow> same j" for i j
    unfolding same_def by (rule same_above)
  have "same j \<longleftrightarrow> k < j" for j
    using mono [of j k] mono [of "Suc k" j] nk least K by (cases "k < j") auto
  moreover have "k < d"
    using \<open>same d\<close> calculation by blast
  moreover have "y div 2 ^ k = node_sibling (x div 2 ^ k)"
    using same_parent [of "y div 2 ^ k" "x div 2 ^ k"] nk least K
    by (metis div_level_Suc same_def)
  ultimately show ?thesis
    using that by (simp add: same_def)
qed

lemma sibling_level_unique:
  assumes x: "at_level d x" and y: "at_level d y" and "j < d" and "i \<le> d"
    and sib: "y div 2 ^ i = node_sibling (x div 2 ^ j)"
  shows "i = j" and "x div 2 ^ j \<noteq> y div 2 ^ j" and "x div 2 ^ Suc j = y div 2 ^ Suc j"
proof -
  have "d - j = Suc (d - Suc j)"
    using \<open>j < d\<close> by simp
  then have "at_level (d - j) (node_sibling (x div 2 ^ j))"
    using at_level_sibling [of "d - Suc j"] at_level_div [OF x, of j] \<open>j < d\<close> by simp
  then have "d - i = d - j"
    using at_level_div [OF y \<open>i \<le> d\<close>] at_level_unique sib by metis
  then show ij: "i = j"
    using \<open>i \<le> d\<close> \<open>j < d\<close> by simp
  have "0 < x div 2 ^ j"
    using at_level_div [OF x, of j] \<open>j < d\<close> by (auto simp: at_level_def dest: less_le_trans [rotated])
  then show "x div 2 ^ j \<noteq> y div 2 ^ j"
    using sib ij node_sibling_neq by metis
  show "x div 2 ^ Suc j = y div 2 ^ Suc j"
    using sib ij node_sibling_parent by (metis div_level_Suc)
qed

lemma parting_sibling:
  assumes "at_level d x" and "at_level d y" and "k < d"
    and "y div 2 ^ k = node_sibling (x div 2 ^ k)"
    and "\<And>j. x div 2 ^ j = y div 2 ^ j \<longleftrightarrow> k < j" and "j < d"
  shows "(\<exists>i \<le> d. node_sibling (x div 2 ^ j) = y div 2 ^ i) \<longleftrightarrow> j = k"
proof
  assume "\<exists>i \<le> d. node_sibling (x div 2 ^ j) = y div 2 ^ i"
  then obtain i where "i \<le> d" "y div 2 ^ i = node_sibling (x div 2 ^ j)"
    by auto
  from sibling_level_unique(2,3) [OF assms(1,2,6) this] show "j = k"
    unfolding assms(5) by simp
next
  assume "j = k"
  then show "\<exists>i \<le> d. node_sibling (x div 2 ^ j) = y div 2 ^ i"
    using assms(3,4) by (intro exI [of _ k]) simp
qed

lemma parting_shared:
  assumes x: "at_level d x" and y: "at_level d y"
    and k: "\<And>j. x div 2 ^ j = y div 2 ^ j \<longleftrightarrow> k < j" and "j \<le> d"
  shows "(\<exists>i \<le> d. x div 2 ^ j = y div 2 ^ i) \<longleftrightarrow> k < j"
proof -
  have "i = j" if "i \<le> d" "x div 2 ^ j = y div 2 ^ i" for i
  proof -
    have "d - i = d - j"
      using at_level_unique at_level_div [OF x \<open>j \<le> d\<close>] at_level_div [OF y that(1)]
      unfolding that(2) by blast
    then show ?thesis using that(1) \<open>j \<le> d\<close> by simp
  qed
  then show ?thesis
    using k [of j] \<open>j \<le> d\<close> by auto
qed

text \<open>A node covers the nodes of its subtree.\<close>

definition covers :: "nat \<Rightarrow> nat \<Rightarrow> bool" where
  "covers n y \<longleftrightarrow> 0 < n \<and> (\<exists>k. y div 2 ^ k = n)"

lemma covers_refl: "0 < n \<Longrightarrow> covers n n"
  by (auto simp: covers_def intro: exI [of _ 0])

lemma covers_trans: "covers a b \<Longrightarrow> covers b c \<Longrightarrow> covers a c"
  unfolding covers_def by (metis div_mult2_eq power_add)

lemma covers_pos: "covers n y \<Longrightarrow> 0 < y"
  by (auto simp: covers_def intro: Nat.gr0I)

lemma covers_level:
  assumes "at_level d y" and "covers n y"
  obtains k where "k \<le> d" and "y div 2 ^ k = n" and "at_level (d - k) n"
proof -
  obtain k where k: "y div 2 ^ k = n" "0 < n"
    using assms(2) by (auto simp: covers_def)
  have "k \<le> d"
  proof (rule ccontr)
    assume "\<not> k \<le> d"
    then have "(2 :: nat) ^ Suc d \<le> 2 ^ k" by (intro power_increasing) simp_all
    then have "y div 2 ^ k = 0" using assms(1) by (simp add: at_level_def)
    then show False using k by simp
  qed
  then show ?thesis
    using that k(1) at_level_div [OF assms(1)] by blast
qed

lemma covers_child: "covers (2 * n) y \<or> covers (2 * n + 1) y \<Longrightarrow> 0 < n \<Longrightarrow> covers n y"
proof -
  assume "covers (2 * n) y \<or> covers (2 * n + 1) y" and "0 < n"
  then obtain k where "y div 2 ^ k = 2 * n \<or> y div 2 ^ k = 2 * n + 1"
    by (auto simp: covers_def)
  then have "y div 2 ^ Suc k = n"
    by (auto simp: div_level_Suc simp del: power_Suc)
  then show ?thesis
    using \<open>0 < n\<close> unfolding covers_def by blast
qed

lemma covers_inner:
  assumes "covers n y" and "y \<noteq> n"
  shows "covers (2 * n) y \<or> covers (2 * n + 1) y"
proof -
  obtain k where k: "y div 2 ^ k = n" "0 < n"
    using assms(1) by (auto simp: covers_def)
  with assms(2) obtain j where j: "k = Suc j"
    by (cases k) auto
  have "y div 2 ^ j div 2 = n"
    using k(1) unfolding j div_level_Suc .
  then have "y div 2 ^ j = 2 * n \<or> y div 2 ^ j = 2 * n + 1"
    by (metis div_mult_mod_eq mult.commute not_mod_2_eq_1_eq_0 add_0_right)
  then show ?thesis
    using k(2) by (auto simp: covers_def)
qed

lemma covers_same_level:
  assumes y: "at_level d y" and "covers a y" and "covers b y" and a: "at_level e a" and b: "at_level e b"
  shows "a = b"
proof -
  obtain k where k: "k \<le> d" "y div 2 ^ k = a" "at_level (d - k) a"
    using covers_level [OF y assms(2)] by blast
  obtain j where j: "j \<le> d" "y div 2 ^ j = b" "at_level (d - j) b"
    using covers_level [OF y assms(3)] by blast
  have "d - k = d - j"
    using at_level_unique [OF k(3) a] at_level_unique [OF j(3) b] by simp
  then show ?thesis
    using k j by (metis diff_diff_cancel)
qed

lemma covers_children_disjoint:
  assumes "at_level d y" and "covers (2 * n) y" and "covers (2 * n + 1) y" and "at_level e n"
  shows False
proof -
  have "at_level (Suc e) (2 * n)" "at_level (Suc e) (2 * n + 1)"
    using assms(4) by (auto simp: at_level_def)
  then show False
    using covers_same_level [OF assms(1-3)] by auto
qed

section \<open>The path operations compute those numbers\<close>

fun tree_depth :: "GroupMode \<Rightarrow> nat" where
  "tree_depth GM_Interactive = 8"
| "tree_depth GM_Broadcast = 13"
| "tree_depth GM_Lite = 0"

lemma leaf_capacity_for_mode_iff:
  "leaf_capacity_for_mode m = Inr c \<longleftrightarrow> m \<noteq> GM_Lite \<and> unat c = 2 ^ tree_depth m"
  by (cases m) (auto simp: leaf_capacity_for_mode_def word_unat_eq_iff)

lemma tree_depth_bound: "tree_depth m \<le> 13"
  by (cases m) simp_all

lemma leaf_node_index_iff:
  "leaf_node_index m slot = Inr n \<longleftrightarrow>
     m \<noteq> GM_Lite \<and> unat slot < 2 ^ tree_depth m \<and> unat n = 2 ^ tree_depth m + unat slot"
proof -
  have bound: "(2 :: nat) ^ tree_depth m \<le> 8192"
    by (cases m) simp_all
  show ?thesis
  proof (cases "leaf_capacity_for_mode m")
    case (Inl e)
    then show ?thesis
      using leaf_capacity_for_mode_iff [of m] by (cases m) (auto simp: leaf_node_index_def leaf_capacity_for_mode_def)
  next
    case (Inr c)
    then have c: "m \<noteq> GM_Lite" "unat c = 2 ^ tree_depth m"
      by (simp_all add: leaf_capacity_for_mode_iff)
    have "unat (c + slot) = unat c + unat slot" if "unat slot < unat c"
      using that c bound by (simp add: unat_word_ariths)
    then show ?thesis
      using Inr c bound
      by (auto simp: leaf_node_index_def leaf_node_index_for_capacity_def result_simps
          checked_add_u32_def word_le_nat_alt word_unat_eq_iff)
  qed
qed

lemma leaf_node_level: "leaf_node_index m slot = Inr n \<Longrightarrow> at_level (tree_depth m) (unat n)"
  by (auto simp: leaf_node_index_iff at_level_def)

lemma map_unat_direct_path_loop:
  "at_level d (unat n) \<Longrightarrow> map unat (direct_path_loop n) = map (\<lambda>k. unat n div 2 ^ k) [0..<Suc d]"
proof (induction d arbitrary: n)
  case 0
  then have "n = 1"
    by (simp add: at_level_0 word_unat_eq_iff)
  then show ?case
    by (simp add: direct_path_loop.simps [of 1] parent_index_def)
next
  case (Suc d)
  have n: "2 \<le> unat n"
    using Suc.prems at_level_Suc_bound by blast
  then have "n \<noteq> 0" "n \<noteq> 1" by auto
  then have loop: "direct_path_loop n = n # direct_path_loop (n div 2)"
    by (simp add: direct_path_loop.simps [of n] parent_index_def)
  have half: "unat (n div 2) = unat n div 2"
    by (simp add: unat_div)
  have "at_level d (unat (n div 2))"
    using at_level_div [OF Suc.prems, of 1] by (simp add: half)
  from Suc.IH [OF this] show ?case
    unfolding loop map_upt_Suc [of _ "Suc d"] by (simp add: half div_mult2_eq)
qed

lemma sibling_index_unat:
  assumes "1 < unat n" and "unat n + 1 < 2 ^ 32"
  shows "\<exists>s. sibling_index n = Inr s \<and> unat s = node_sibling (unat n)"
proof -
  have "n mod 2 = 0 \<longleftrightarrow> even (unat n)"
    by (simp add: word_unat_eq_iff unat_mod even_iff_mod_2_eq_zero)
  moreover have "unat (n - 1) = unat n - 1"
    using assms by (subst unat_sub) (simp_all add: word_le_nat_alt)
  moreover have "unat (n + 1) = unat n + 1"
    using assms by (simp add: unat_word_ariths)
  moreover have "n \<noteq> 1"
    using assms by auto
  ultimately show ?thesis
    using assms by (auto simp: sibling_index_def node_sibling_def checked_add_u32_def)
qed

lemma copath_loop_total:
  assumes c: "unat c = 2 ^ D" "D \<le> 13" and "d \<le> D" and "at_level d (unat n)"
  shows "\<exists>cp. copath_loop c n = Inr cp \<and> map unat cp = map (\<lambda>k. node_sibling (unat n div 2 ^ k)) [0..<d]"
  using assms(3,4)
proof (induction d arbitrary: n)
  case 0
  then have "n = 1"
    by (simp add: at_level_0 word_unat_eq_iff)
  then show ?case
    by (simp add: copath_loop.simps [of c 1] parent_index_def)
next
  case (Suc d)
  have n: "2 \<le> unat n"
    using Suc.prems at_level_Suc_bound by blast
  then have "n \<noteq> 0" "n \<noteq> 1" by auto
  have D: "(2 :: nat) ^ D \<le> 8192" "(2 :: nat) ^ Suc (Suc d) \<le> 2 * 2 ^ D"
    using power_increasing [OF c(2), of "2 :: nat"] power_increasing [OF Suc.prems(1), of "2 :: nat"]
    by simp_all
  have "unat n + 1 < 2 ^ 32"
    using Suc.prems(2) D by (simp add: at_level_def)
  then obtain s where s: "sibling_index n = Inr s" "unat s = node_sibling (unat n)"
    using sibling_index_unat [of n] n by auto
  have "at_level (Suc d) (unat s)"
    using at_level_sibling [OF Suc.prems(2)] s(2) by simp
  then have valid: "validate_node_index_for_capacity c s = Inr ()"
    using D c by (auto simp: validate_node_index_iff at_level_def intro: order.trans [of _ "2 ^ Suc d"])
  have half: "unat (n div 2) = unat n div 2"
    by (simp add: unat_div)
  have "at_level d (unat (n div 2))"
    using at_level_div [OF Suc.prems(2), of 1] by (simp add: half)
  then obtain cp where "copath_loop c (n div 2) = Inr cp"
    "map unat cp = map (\<lambda>k. node_sibling (unat n div 2 div 2 ^ k)) [0..<d]"
    using Suc.IH [of "n div 2"] Suc.prems(1) half by auto
  then show ?case
    using \<open>n \<noteq> 0\<close> \<open>n \<noteq> 1\<close> s valid
    unfolding copath_loop.simps [of c n] map_upt_Suc [of _ d]
    by (simp add: parent_index_def div_mult2_eq)
qed

text \<open>Both paths of a leaf node in closed form.\<close>

lemma direct_path_closed:
  assumes "leaf_node_index m slot = Inr n"
  shows "\<exists>p. direct_path m slot = Inr p \<and> map unat p = map (\<lambda>k. unat n div 2 ^ k) [0..<Suc (tree_depth m)]"
  using assms map_unat_direct_path_loop [OF leaf_node_level [OF assms]]
  by (auto simp: leaf_node_index_def direct_path_def direct_path_for_capacity_def result_simps)

lemma copath_closed:
  assumes "leaf_node_index m slot = Inr n"
  shows "\<exists>p. copath m slot = Inr p \<and>
    map unat p = map (\<lambda>k. node_sibling (unat n div 2 ^ k)) [0..<tree_depth m]"
proof -
  obtain c where c: "leaf_capacity_for_mode m = Inr c" "leaf_node_index_for_capacity c slot = Inr n"
    using assms by (auto simp: leaf_node_index_def result_simps)
  then have "unat c = 2 ^ tree_depth m"
    by (simp add: leaf_capacity_for_mode_iff)
  from copath_loop_total [OF this tree_depth_bound order_refl leaf_node_level [OF assms]] show ?thesis
    using c by (simp add: copath_def copath_for_capacity_def)
qed

lemma map_unat_nth:
  assumes "map unat p = map f [0..<n]"
  shows "length p = n" and "\<And>k. k < n \<Longrightarrow> unat (p ! k) = f k"
proof -
  show len: "length p = n"
    using arg_cong [OF assms, of length] by simp
  show "unat (p ! k) = f k" if "k < n" for k
    using arg_cong [OF assms, of "\<lambda>l. l ! k"] that len by simp
qed

lemma direct_path_leaf: "direct_path m slot = Inr p \<Longrightarrow> \<exists>n. leaf_node_index m slot = Inr n"
  by (auto simp: direct_path_def direct_path_for_capacity_def leaf_node_index_def result_simps)

lemma direct_pathD:
  assumes "direct_path m slot = Inr p"
  obtains n where "leaf_node_index m slot = Inr n" "length p = Suc (tree_depth m)"
    "\<And>k. k \<le> tree_depth m \<Longrightarrow> unat (p ! k) = unat n div 2 ^ k"
proof -
  obtain n where n: "leaf_node_index m slot = Inr n"
    using direct_path_leaf [OF assms] by blast
  have eq: "map unat p = map (\<lambda>k. unat n div 2 ^ k) [0..<Suc (tree_depth m)]"
    using direct_path_closed [OF n] assms by auto
  show ?thesis
    using that n map_unat_nth [OF eq] by simp
qed

lemma direct_path_mem_iff:
  assumes "direct_path m slot = Inr p" and "leaf_node_index m slot = Inr y"
  shows "n \<in> set p \<longleftrightarrow> covers (unat n) (unat y)"
proof
  have y: "length p = Suc (tree_depth m)" "\<And>k. k \<le> tree_depth m \<Longrightarrow> unat (p ! k) = unat y div 2 ^ k"
    using direct_pathD [OF assms(1)] assms(2) by (metis Inr_inject)+
  note ly = leaf_node_level [OF assms(2)]
  show "covers (unat n) (unat y)" if n: "n \<in> set p"
  proof -
    from n obtain k where k: "k \<le> tree_depth m" "n = p ! k"
      using y(1) by (metis in_set_conv_nth less_Suc_eq_le)
    then have "at_level (tree_depth m - k) (unat n)"
      using y(2) at_level_div [OF ly] by simp
    then show ?thesis
      using k y(2) by (auto simp: covers_def at_level_def dest: less_le_trans [rotated])
  qed
  show "n \<in> set p" if "covers (unat n) (unat y)"
    using covers_level [OF ly that] y by (metis less_Suc_eq_le nth_mem word_unat_eq_iff)
qed

section \<open>The shape of the tree\<close>

text \<open>What \<open>PublicTree::new\<close> establishes and every mutation keeps, on error paths too.\<close>

definition tree_wf :: "PublicTree \<Rightarrow> bool" where
  "tree_wf t \<longleftrightarrow> leaf_capacity_for_mode (pt_mode t) = Inr (leaf_capacity t) \<and>
     length (nodes t) = 2 * unat (leaf_capacity t) \<and>
     (\<forall>i < length (nodes t). unat (node_index (nodes t ! i)) = i)"

lemma tree_wf_capacity:
  assumes "tree_wf t"
  shows "pt_mode t \<noteq> GM_Lite" and "unat (leaf_capacity t) = 2 ^ tree_depth (pt_mode t)"
    and "length (nodes t) = 2 ^ Suc (tree_depth (pt_mode t))" and "unat (leaf_capacity t) \<le> 8192"
proof -
  show "pt_mode t \<noteq> GM_Lite" "unat (leaf_capacity t) = 2 ^ tree_depth (pt_mode t)"
    using assms by (simp_all add: tree_wf_def leaf_capacity_for_mode_iff)
  then show "length (nodes t) = 2 ^ Suc (tree_depth (pt_mode t))" "unat (leaf_capacity t) \<le> 8192"
    using assms power_increasing [OF tree_depth_bound [of "pt_mode t"], of "2 :: nat"]
    by (simp_all add: tree_wf_def)
qed

lemma tree_validate_iff:
  "tree_wf t \<Longrightarrow> tree_validate_node_index t n = Inr u \<longleftrightarrow> 1 \<le> unat n \<and> unat n < length (nodes t)"
  using tree_wf_capacity(4) [of t]
  by (auto simp: tree_validate_node_index_def validate_node_index_iff tree_wf_def)

lemma tree_node_iff:
  "tree_wf t \<Longrightarrow> tree_node t n = Inr node \<longleftrightarrow>
     1 \<le> unat n \<and> unat n < length (nodes t) \<and> node = nodes t ! unat n"
  by (auto simp: tree_node_def result_simps tree_validate_iff)

lemma PublicTree_new_wf: "PublicTree_new m e = Inr t \<Longrightarrow> tree_wf t"
proof -
  assume new: "PublicTree_new m e = Inr t"
  then obtain c where c: "leaf_capacity_for_mode m = Inr c"
      and t: "pt_mode t = m" "leaf_capacity t = c"
        "nodes t = map (\<lambda>i. PublicTreeNode_empty (of_nat i)) [0..<unat (c * 2)]"
    by (auto simp: PublicTree_new_def result_simps checked_mul_u32_def split: if_splits)
  have "unat c \<le> 8192"
    using c power_increasing [OF tree_depth_bound [of m], of "2 :: nat"]
    by (simp add: leaf_capacity_for_mode_iff)
  then have "unat (c * 2) = 2 * unat c"
    by (simp add: unat_word_ariths)
  then show ?thesis
    using c t \<open>unat c \<le> 8192\<close> by (simp add: tree_wf_def PublicTreeNode_empty_def unat_of_nat)
qed

lemma keeps_node_mut:
  assumes "\<And>node. node_index (f node) = node_index node"
  shows "keeps tree_wf (tree_node_mut n f)"
  unfolding tree_node_mut_def
proof (rule keeps_try)
  fix s t
  assume "tree_wf s" and "rbind (tree_node s n) (\<lambda>node. Inr (s\<lparr>nodes := (nodes s)[unat n := f node]\<rparr>)) = Inr t"
  then show "tree_wf t"
    using assms by (auto simp: result_simps tree_node_iff tree_wf_def nth_list_update)
qed

lemma keeps_bump: "keeps tree_wf bump_tree_version"
  unfolding bump_tree_version_def by (rule keeps_try) (auto simp: result_simps tree_wf_def)

lemmas keeps_mutation = keeps_bind keeps_lift keeps_bump keeps_node_mut

lemma occupy_leaf_wf: "keeps tree_wf (occupy_leaf slot l)"
  unfolding occupy_leaf_def [abs_def] by (rule keeps_read) (intro keeps_mutation; simp)

lemma vacate_leaf_wf: "keeps tree_wf (vacate_leaf slot)"
  unfolding vacate_leaf_def [abs_def] by (rule keeps_read) (intro keeps_mutation; simp)

lemma update_leaf_role_wf: "keeps tree_wf (update_leaf_role slot r)"
  unfolding update_leaf_role_def [abs_def] Let_def
  by (rule keeps_read) (auto intro!: keeps_mutation split: prod.split)

lemma set_node_key_wf: "keeps tree_wf (set_node_key n key)"
  unfolding set_node_key_def [abs_def] by (rule keeps_read) (intro keeps_mutation; simp)

section \<open>Properties\<close>

text \<open>C26: The copath of a leaf covers every other leaf exactly once: for two different slots of a tree,
  both direct paths and the copath exist, exactly one copath node lies on the direct path of the other
  leaf, and the nodes the two direct paths share are exactly those above it. (In an update path the
  secret of a path node is encrypted to the copath, so every other member can learn the secrets of
  exactly the nodes above it.)\<close>

theorem copath_covers_each_leaf_once:
  assumes "direct_path m slot = Inr p" and "direct_path m other = Inr q" and "slot \<noteq> other"
  shows "\<exists>cp. copath m slot = Inr cp \<and> length p = Suc (length cp) \<and>
    (\<exists>!k. k < length cp \<and> cp ! k \<in> set q) \<and>
    (\<forall>k < length cp. cp ! k \<in> set q \<longrightarrow> (\<forall>j < length p. p ! j \<in> set q \<longleftrightarrow> k < j))"
proof -
  let ?d = "tree_depth m"
  obtain x where x: "leaf_node_index m slot = Inr x" "length p = Suc ?d"
      "\<And>k. k \<le> ?d \<Longrightarrow> unat (p ! k) = unat x div 2 ^ k"
    using direct_pathD [OF assms(1)] by metis
  obtain y where y: "leaf_node_index m other = Inr y" "length q = Suc ?d"
      "\<And>k. k \<le> ?d \<Longrightarrow> unat (q ! k) = unat y div 2 ^ k"
    using direct_pathD [OF assms(2)] by metis
  obtain cp where cp: "copath m slot = Inr cp"
      and closed: "map unat cp = map (\<lambda>k. node_sibling (unat x div 2 ^ k)) [0..<?d]"
    using copath_closed [OF x(1)] by blast
  note len = map_unat_nth(1) [OF closed] and nth = map_unat_nth(2) [OF closed]
  have lx: "at_level ?d (unat x)" and ly: "at_level ?d (unat y)" and "unat x \<noteq> unat y"
    using leaf_node_level [OF x(1)] leaf_node_level [OF y(1)] x(1) y(1) assms(3)
    by (auto simp: leaf_node_index_iff word_unat_eq_iff [of slot])
  then obtain k where k: "k < ?d" "unat y div 2 ^ k = node_sibling (unat x div 2 ^ k)"
      "\<And>j. unat x div 2 ^ j = unat y div 2 ^ j \<longleftrightarrow> k < j"
    using paths_part by blast
  have in_q: "n \<in> set q \<longleftrightarrow> (\<exists>i \<le> ?d. unat n = unat y div 2 ^ i)" for n
    using y(2,3) by (auto simp: in_set_conv_nth word_unat_eq_iff less_Suc_eq_le)
  have only: "cp ! j \<in> set q \<longleftrightarrow> j = k" if "j < ?d" for j
    using in_q [of "cp ! j"] nth [OF that] parting_sibling [OF lx ly k that] by simp
  have shared: "p ! j \<in> set q \<longleftrightarrow> k < j" if "j < length p" for j
    using in_q [of "p ! j"] x(3) [of j] parting_shared [OF lx ly k(3), of j] that x(2) by simp
  show ?thesis
    using cp len x(2) only shared k(1) by auto
qed

theorem copath_covers_each_leaf_once_witness:
  "\<exists>p q cp. direct_path GM_Interactive 3 = Inr p \<and> direct_path GM_Interactive 200 = Inr q \<and>
    copath GM_Interactive 3 = Inr cp \<and> (\<exists>!k. k < length cp \<and> cp ! k \<in> set q)"
proof -
  obtain p q where p: "direct_path GM_Interactive 3 = Inr p" and q: "direct_path GM_Interactive 200 = Inr q"
    using direct_path_closed [of GM_Interactive 3 259] direct_path_closed [of GM_Interactive 200 456]
    by (auto simp: leaf_node_index_iff)
  from copath_covers_each_leaf_once [OF p q] show ?thesis
    using p q by auto
qed

end
