(* ===== verification/Group_Path.thy ===== *)
theory Group_Path
  imports Group_Tree
begin

text \<open>
  The private side of the tree: the secrets a member keeps for the nodes above its leaf
  (\<open>private_path/types.rs\<close>), the derivation of a fresh path (\<open>private_path/encoding.rs\<close>,
  \<open>private_path/derive.rs\<close>) and the reinstallation of node keys (\<open>rekey.rs\<close>). The lemmas show which
  nodes a path update touches and that it leaves tree and private path in step.
\<close>

section \<open>Types\<close>

record PrivatePathNodeSecret =
  pn_node_index :: u32
  path_secret :: Secret32
  node_seed_d :: Secret32
  node_seed_z :: Secret32

record PrivatePath =
  leaf_index :: "u32 option"
  path :: "PrivatePathNodeSecret list"

definition PrivatePath_default :: PrivatePath where
  "PrivatePath_default = \<lparr>leaf_index = None, path = []\<rparr>"

definition node_indices :: "PrivatePath \<Rightarrow> u32 list" where
  "node_indices p = map pn_node_index (path p)"

definition private_path_clear :: "PrivatePath \<Rightarrow> PrivatePath" where
  "private_path_clear p = p\<lparr>path := [], leaf_index := None\<rparr>"

definition replace_with :: "PrivatePath \<Rightarrow> u32 \<Rightarrow> PrivatePathNodeSecret list \<Rightarrow> PrivatePath" where
  "replace_with p index new_path = (private_path_clear p)\<lparr>leaf_index := Some index, path := new_path\<rparr>"

record TreeKemPathContext =
  pc_group_id :: GroupId
  pc_mode :: GroupMode
  pc_epoch :: Epoch
  pc_state_version :: StateVersion
  pc_leaf_slot :: u32
  pc_commit_nonce :: bytes
  pc_tree_hash :: bytes

record DerivedPublicPathNode =
  dn_node_index :: u32
  dn_node_key :: PublicNodeKey

record TreeKemPathUpdate =
  pu_leaf_slot :: u32
  pu_direct_path :: "u32 list"
  pu_updated_nodes :: "DerivedPublicPathNode list"
  pu_root_secret :: Secret32
  pu_tree_hash_after :: bytes
  pu_tree_version_after :: u64

section \<open>Encoding\<close>

definition LABEL_TREE_PATH :: bytes where
  "LABEL_TREE_PATH = ascii ''HYDRA-MSG/v1/group/tree/path''"

definition LABEL_TREE_NODE_SEED :: bytes where
  "LABEL_TREE_NODE_SEED = ascii ''HYDRA-MSG/v1/group/tree/node-seed''"

definition LABEL_TREE_ROOT :: bytes where
  "LABEL_TREE_ROOT = ascii ''HYDRA-MSG/v1/group/tree/root''"

definition encode_path_context :: "TreeKemPathContext \<Rightarrow> u32 \<Rightarrow> GroupError + bytes" where
  "encode_path_context context n =
     lp (SUITE_ID @ pc_group_id context @ [group_mode_u8 (pc_mode context)] @
         u64_be (pc_epoch context) @ u64_be (pc_state_version context) @
         u32_be (pc_leaf_slot context) @ u32_be n @ pc_commit_nonce context @ pc_tree_hash context)"

definition encode_root_context :: "TreeKemPathContext \<Rightarrow> u32 list \<Rightarrow> GroupError + bytes" where
  "encode_root_context context direct =
     rbind (ok_or (u32_try_from (length direct)) GE_CounterExhausted) (\<lambda>count.
       lp (SUITE_ID @ pc_group_id context @ [group_mode_u8 (pc_mode context)] @
           u64_be (pc_epoch context) @ u64_be (pc_state_version context) @
           u32_be (pc_leaf_slot context) @ pc_commit_nonce context @ pc_tree_hash context @
           u32_be count @ concat (map u32_be direct)))"

definition hkdf_info :: "bytes \<Rightarrow> bytes \<Rightarrow> GroupError + bytes" where
  "hkdf_info label context =
     rbind (lp label) (\<lambda>l. rbind (lp context) (\<lambda>c. Inr (l @ c)))"

section \<open>Derivation\<close>

definition derive_path_secret32 :: "CryptoPrims \<Rightarrow> Secret32 \<Rightarrow> bytes \<Rightarrow> bytes \<Rightarrow> GroupError + Secret32" where
  "derive_path_secret32 P secret label context =
     rbind (hkdf_info label context) (\<lambda>info.
     rbind (map_err (\<lambda>_. GE_InvalidTreePath) (hkdf_expand P secret info 32)) (\<lambda>output.
     rbind (ensure (length output = 32) GE_InvalidTreePath) (\<lambda>_.
       Inr output)))"

definition derive_node_seed :: "CryptoPrims \<Rightarrow> Secret32 \<Rightarrow> bytes \<Rightarrow> GroupError + bytes \<times> bytes" where
  "derive_node_seed P secret context =
     rbind (hkdf_info LABEL_TREE_NODE_SEED context) (\<lambda>info.
     rbind (map_err (\<lambda>_. GE_InvalidTreePath) (hkdf_expand P secret info 64)) (\<lambda>output.
       Inr (slice 0 32 output, slice 32 64 output)))"

definition mlkem_node_key_from_seed :: "CryptoPrims \<Rightarrow> bytes \<Rightarrow> bytes \<Rightarrow> PublicNodeKey" where
  "mlkem_node_key_from_seed P d z =
     snd (p_mlkem_from_seed P (write_at 32 z (write_at 0 d (replicate 64 0))))"

definition parent_path :: "GroupMode \<Rightarrow> u32 \<Rightarrow> GroupError + u32 list" where
  "parent_path m slot =
     rbind (direct_path m slot) (\<lambda>p.
     rbind (ensure (p \<noteq> []) GE_InvalidTreePath) (\<lambda>_.
     let p = tl p in
     rbind (ensure (\<not> (p = [] \<or> last p \<noteq> ROOT_NODE_INDEX)) GE_InvalidTreePath) (\<lambda>_.
       Inr p)))"

text \<open>The loop over the path: the node secrets, the node keys, the last secret and the clone.\<close>

fun derive_path_loop ::
    "CryptoPrims \<Rightarrow> TreeKemPathContext \<Rightarrow> u32 list \<Rightarrow> Secret32 \<Rightarrow> PublicTree \<Rightarrow>
       GroupError + PrivatePathNodeSecret list \<times> DerivedPublicPathNode list \<times> Secret32 \<times> PublicTree" where
  "derive_path_loop P context [] secret t = Inr ([], [], secret, t)"
| "derive_path_loop P context (n # ns) secret t =
     rbind (encode_path_context context n) (\<lambda>node_context.
     rbind (derive_path_secret32 P secret LABEL_TREE_PATH node_context) (\<lambda>ps.
     rbind (derive_node_seed P ps node_context) (\<lambda>(d, z).
     let key = mlkem_node_key_from_seed P d z in
     rbind (on_clone (set_node_key n (Some key)) t) (\<lambda>(_, t').
     rbind (derive_path_loop P context ns ps t') (\<lambda>(secrets, updated, last_secret, t'').
       Inr (\<lparr>pn_node_index = n, path_secret = ps, node_seed_d = d, node_seed_z = z\<rparr> # secrets,
            \<lparr>dn_node_index = n, dn_node_key = key\<rparr> # updated, last_secret, t''))))))"

definition derive_and_install_path ::
    "CryptoPrims \<Rightarrow> TreeKemPathContext \<Rightarrow> Secret32 \<Rightarrow>
       (PublicTree \<times> PrivatePath, GroupError, TreeKemPathUpdate) st" where
  "derive_and_install_path P context leaf_secret = (\<lambda>(t, pp).
     st_bind (st_lift (
       rbind (ensure (pt_mode t = pc_mode context) GE_InvalidState) (\<lambda>_.
       rbind (parent_path (pc_mode context) (pc_leaf_slot context)) (\<lambda>direct.
       rbind (ensure (last direct = ROOT_NODE_INDEX) GE_InvalidTreePath) (\<lambda>_.
       rbind (derive_path_loop P context direct leaf_secret t) (\<lambda>(secrets, updated, last_secret, candidate).
       rbind (encode_root_context context direct) (\<lambda>root_context.
       rbind (derive_path_secret32 P last_secret LABEL_TREE_ROOT root_context) (\<lambda>root_secret.
       rbind (tree_hash P candidate) (\<lambda>hash_after.
         Inr (direct, secrets, updated, root_secret, hash_after, candidate))))))))))
       (\<lambda>(direct, secrets, updated, root_secret, hash_after, candidate).
     st_bind (st_modify (\<lambda>(t, pp). (candidate, replace_with pp (pc_leaf_slot context) secrets))) (\<lambda>_.
       st_lift (Inr \<lparr>pu_leaf_slot = pc_leaf_slot context, pu_direct_path = direct,
         pu_updated_nodes = updated, pu_root_secret = root_secret,
         pu_tree_hash_after = hash_after, pu_tree_version_after = tree_version candidate\<rparr>))) (t, pp))"

section \<open>Rekey\<close>

record RekeyUpdate =
  new_epoch :: Epoch
  rk_tree_version :: u64
  changed_nodes :: "u32 list"

definition next_epoch :: "Epoch \<Rightarrow> GroupError + Epoch" where
  "next_epoch current = ok_or (checked_add_u64 current 1) GE_CounterExhausted"

definition public_node_key_from_private_node_seed :: "CryptoPrims \<Rightarrow> bytes \<Rightarrow> bytes \<Rightarrow> PublicNodeKey" where
  "public_node_key_from_private_node_seed P d z =
     snd (p_mlkem_from_seed P (write_at 32 z (write_at 0 d (replicate 64 0))))"

fun rekey_loop ::
    "CryptoPrims \<Rightarrow> PrivatePathNodeSecret list \<Rightarrow> u32 list \<Rightarrow> PublicTree \<Rightarrow> GroupError + u32 list \<times> PublicTree" where
  "rekey_loop P [] changed t = Inr (changed, t)"
| "rekey_loop P (node # rest) changed t =
     rbind (on_clone (set_node_key (pn_node_index node)
              (Some (public_node_key_from_private_node_seed P (node_seed_d node) (node_seed_z node)))) t) (\<lambda>(_, t').
     rbind (ensure (pn_node_index node \<notin> set changed) GE_InvalidTreePath) (\<lambda>_.
       rekey_loop P rest (changed @ [pn_node_index node]) t'))"

definition rekey_path ::
    "CryptoPrims \<Rightarrow> (PublicTree \<times> PrivatePath, GroupError, RekeyUpdate) st" where
  "rekey_path P = (\<lambda>(t, pp).
     st_bind (st_lift (
       rbind (ensure (\<not> (leaf_index pp = None \<or> path pp = [])) GE_InvalidTreePath) (\<lambda>_.
       rbind (case pt_epoch t of Some e \<Rightarrow> next_epoch e | None \<Rightarrow> Inr 0) (\<lambda>e.
       rbind (rekey_loop P (path pp) [] t) (\<lambda>(changed, candidate).
         Inr (e, changed, candidate\<lparr>pt_epoch := Some e\<rparr>)))))) (\<lambda>(e, changed, candidate).
     st_bind (st_modify (\<lambda>(t, pp). (candidate, pp))) (\<lambda>_.
       st_lift (Inr \<lparr>new_epoch = e, rk_tree_version = tree_version candidate,
         changed_nodes = changed\<rparr>))) (t, pp))"

section \<open>What a path update changes\<close>

definition install_key :: "PublicTree \<Rightarrow> DerivedPublicPathNode \<Rightarrow> PublicTree" where
  "install_key t d =
     t\<lparr>nodes := (nodes t)[unat (dn_node_index d) :=
          (nodes t ! unat (dn_node_index d))\<lparr>node_key := Some (dn_node_key d)\<rparr>],
       tree_version := tree_version t + 1\<rparr>"

text \<open>The public node that belongs to a node secret.\<close>

definition public_part :: "CryptoPrims \<Rightarrow> PrivatePathNodeSecret \<Rightarrow> DerivedPublicPathNode" where
  "public_part P s = \<lparr>dn_node_index = pn_node_index s,
     dn_node_key = public_node_key_from_private_node_seed P (node_seed_d s) (node_seed_z s)\<rparr>"

lemma set_node_key_iff:
  assumes "tree_wf t"
  shows "set_node_key n (Some k) t = (Inr u, t') \<longleftrightarrow>
    1 \<le> unat n \<and> unat n < length (nodes t) \<and> tree_version t \<noteq> u64_max \<and>
    t' = install_key t \<lparr>dn_node_index = n, dn_node_key = k\<rparr>"
  using assms
  by (auto simp: set_node_key_def tree_node_mut_def bump_tree_version_def result_simps install_key_def
      tree_validate_iff tree_node_iff checked_add_u64_def u64_not_max_iff split: if_splits)

lemma node_index_update:
  "node_index (xs[j := (xs ! j)\<lparr>node_key := k\<rparr>] ! i) = node_index (xs ! i)"
  by (cases "i = j"; cases "j < length xs") (simp_all add: list_update_beyond)

lemma install_key_wf: "tree_wf t \<Longrightarrow> tree_wf (install_key t d)"
  by (simp add: tree_wf_def install_key_def node_index_update)

lemma install_keys_wf: "tree_wf t \<Longrightarrow> tree_wf (foldl install_key t ds)"
  by (induction ds arbitrary: t) (simp_all add: install_key_wf)

lemma install_keys_frame [simp]:
  "pt_mode (foldl install_key t ds) = pt_mode t"
  "leaf_capacity (foldl install_key t ds) = leaf_capacity t"
  "pt_epoch (foldl install_key t ds) = pt_epoch t"
  "length (nodes (foldl install_key t ds)) = length (nodes t)"
  "tree_version (foldl install_key t ds) = tree_version t + of_nat (length ds)"
  by (induction ds arbitrary: t) (simp_all add: install_key_def)

lemma nth_install_key:
  "i < length (nodes t) \<Longrightarrow> nodes (install_key t d) ! i =
     (if i = unat (dn_node_index d) then (nodes t ! i)\<lparr>node_key := Some (dn_node_key d)\<rparr> else nodes t ! i)"
  by (simp add: install_key_def nth_list_update)

lemma install_keys_other:
  "(\<And>d. d \<in> set ds \<Longrightarrow> unat (dn_node_index d) \<noteq> i) \<Longrightarrow>
     nodes (foldl install_key t ds) ! i = nodes t ! i"
  by (induction ds arbitrary: t) (simp_all add: install_key_def)

lemma install_keys_key:
  assumes "distinct (map dn_node_index ds)" and "d \<in> set ds" and "unat (dn_node_index d) < length (nodes t)"
  shows "nodes (foldl install_key t ds) ! unat (dn_node_index d) =
    (nodes t ! unat (dn_node_index d))\<lparr>node_key := Some (dn_node_key d)\<rparr>"
  using assms
proof (induction ds arbitrary: t)
  case (Cons e ds)
  show ?case
  proof (cases "d = e")
    case True
    then have "nodes (foldl install_key (install_key t e) ds) ! unat (dn_node_index d) =
        nodes (install_key t e) ! unat (dn_node_index d)"
      using Cons.prems(1) by (intro install_keys_other) (auto simp: image_iff word_unat_eq_iff)
    then show ?thesis
      using True Cons.prems(3) by (simp add: nth_install_key)
  next
    case False
    then have "dn_node_index d \<noteq> dn_node_index e" "d \<in> set ds"
      using Cons.prems(1,2) by (auto simp: image_iff)
    then show ?thesis
      using Cons.IH [of "install_key t e"] Cons.prems install_keys_frame(4) [of t "[e]"]
      by (simp add: nth_install_key word_unat_eq_iff)
  qed
qed simp

lemma derive_path_loop_step:
  assumes t: "tree_wf t" and run: "derive_path_loop P c (n # ns) s t = Inr (secrets, updated, last_secret, t')"
  obtains s0 secrets1 updated1 where "secrets = s0 # secrets1" "updated = public_part P s0 # updated1"
    "pn_node_index s0 = n" "1 \<le> unat n" "unat n < length (nodes t)" "tree_version t \<noteq> u64_max"
    "derive_path_loop P c ns (path_secret s0) (install_key t (public_part P s0)) =
       Inr (secrets1, updated1, last_secret, t')"
proof -
  from run obtain ps d z t1 secrets1 updated1 where
    set: "set_node_key n (Some (mlkem_node_key_from_seed P d z)) t = (Inr (), t1)" and
    rest: "derive_path_loop P c ns ps t1 = Inr (secrets1, updated1, last_secret, t')" and
    out: "secrets = \<lparr>pn_node_index = n, path_secret = ps, node_seed_d = d, node_seed_z = z\<rparr> # secrets1"
      "updated = \<lparr>dn_node_index = n, dn_node_key = mlkem_node_key_from_seed P d z\<rparr> # updated1"
    by (auto simp: result_simps Let_def)
  define s0 where "s0 = \<lparr>pn_node_index = n, path_secret = ps, node_seed_d = d, node_seed_z = z\<rparr>"
  have "public_part P s0 = \<lparr>dn_node_index = n, dn_node_key = mlkem_node_key_from_seed P d z\<rparr>"
    by (simp add: s0_def public_part_def mlkem_node_key_from_seed_def public_node_key_from_private_node_seed_def)
  then show ?thesis
    using that [of s0 secrets1 updated1] set rest out t by (simp add: set_node_key_iff s0_def)
qed

lemma derive_path_loop_result:
  assumes "tree_wf t" and "derive_path_loop P c ns s t = Inr (secrets, updated, last_secret, t')"
  shows "map pn_node_index secrets = ns \<and> updated = map (public_part P) secrets \<and>
    t' = foldl install_key t updated \<and> (\<forall>n \<in> set ns. 1 \<le> unat n \<and> unat n < length (nodes t)) \<and>
    unat (tree_version t) + length ns < 2 ^ 64"
  using assms
proof (induction ns arbitrary: s t secrets updated)
  case Nil
  then show ?case using unat_u64_bound [of "tree_version t"] by simp
next
  case (Cons n ns)
  from derive_path_loop_step [OF Cons.prems] obtain s0 secrets1 updated1 where
    out: "secrets = s0 # secrets1" "updated = public_part P s0 # updated1" "pn_node_index s0 = n"
      "1 \<le> unat n" "unat n < length (nodes t)" "tree_version t \<noteq> u64_max" and
    rest: "derive_path_loop P c ns (path_secret s0) (install_key t (public_part P s0)) =
       Inr (secrets1, updated1, last_secret, t')"
    by metis
  have "length (nodes (install_key t (public_part P s0))) = length (nodes t)"
    "unat (tree_version (install_key t (public_part P s0))) = Suc (unat (tree_version t))"
    using out by (simp_all add: install_key_def unat_u64_Suc)
  then show ?case
    using Cons.IH [OF install_key_wf [OF Cons.prems(1)] rest] out by simp
qed

text \<open>Installing the keys of the same secrets gives the same tree.\<close>

lemma rekey_loop_installs:
  assumes "tree_wf t" and "distinct (changed @ map pn_node_index secrets)"
    and "\<forall>n \<in> set (map pn_node_index secrets). 1 \<le> unat n \<and> unat n < length (nodes t)"
    and "unat (tree_version t) + length secrets < 2 ^ 64"
  shows "rekey_loop P secrets changed t =
    Inr (changed @ map pn_node_index secrets, foldl install_key t (map (public_part P) secrets))"
  using assms
proof (induction secrets arbitrary: changed t)
  case (Cons s secrets)
  let ?t = "install_key t (public_part P s)"
  have set: "set_node_key (pn_node_index s)
      (Some (public_node_key_from_private_node_seed P (node_seed_d s) (node_seed_z s))) t = (Inr (), ?t)"
    using Cons.prems by (simp add: set_node_key_iff u64_not_max_iff public_part_def)
  have "tree_wf ?t" "length (nodes ?t) = length (nodes t)" "unat (tree_version ?t) = Suc (unat (tree_version t))"
    using Cons.prems install_key_wf by (simp_all add: install_key_def unat_u64_Suc u64_not_max_iff)
  then have "rekey_loop P secrets (changed @ [pn_node_index s]) ?t =
      Inr ((changed @ [pn_node_index s]) @ map pn_node_index secrets,
        foldl install_key ?t (map (public_part P) secrets))"
    using Cons.prems by (intro Cons.IH) simp_all
  then show ?case
    using set Cons.prems(2) by (simp add: on_clone_def)
qed simp

section \<open>When a path update succeeds\<close>

text \<open>The array types of a tree: identifiers of 32 bytes, encapsulation keys of 1184.\<close>

definition node_ok :: "PublicTreeNode \<Rightarrow> bool" where
  "node_ok node \<longleftrightarrow> (\<forall>k. node_key node = Some k \<longrightarrow> length k = ML_KEM_768_EK_SIZE) \<and>
     (\<forall>l. leaf node = Some l \<longrightarrow> length (leaf_member_id l) = 32 \<and> length (leaf_fingerprint l) = 32 \<and>
       (\<forall>k. leaf_node_key l = Some k \<longrightarrow> length k = ML_KEM_768_EK_SIZE))"

definition tree_ok :: "PublicTree \<Rightarrow> bool" where
  "tree_ok t \<longleftrightarrow> tree_wf t \<and> (\<forall>node \<in> set (nodes t). node_ok node)"

definition path_context_ok :: "TreeKemPathContext \<Rightarrow> bool" where
  "path_context_ok c \<longleftrightarrow> length (pc_group_id c) = 32 \<and> length (pc_commit_nonce c) = 32 \<and>
     length (pc_tree_hash c) = 64"

lemma length_append_node_key: "(\<And>k. key = Some k \<Longrightarrow> length k = ML_KEM_768_EK_SIZE) \<Longrightarrow> length (append_node_key key) \<le> 1185"
  by (cases key) (simp_all add: append_node_key_def)

lemma leaf_hash_total:
  assumes t: "tree_ok t" and P: "hash_ok P"
    and n: "unat (leaf_capacity t) \<le> unat n" "unat n < length (nodes t)"
  shows "\<exists>h. leaf_hash P t n = Inr h \<and> length h = 64"
proof -
  have wf: "tree_wf t" and cap: "unat (leaf_capacity t) \<le> 8192" "length (nodes t) = 2 * unat (leaf_capacity t)"
    using t tree_wf_capacity(4) by (auto simp: tree_ok_def tree_wf_def)
  have "0 < unat n"
    using n cap by linarith
  then have node: "tree_node t n = Inr (nodes t ! unat n)"
    using wf n by (simp add: tree_node_iff)
  have ok: "node_ok (nodes t ! unat n)"
    using t n by (simp add: tree_ok_def)
  have "unat (n - leaf_capacity t) = unat n - unat (leaf_capacity t)"
    using n by (subst unat_sub) (simp_all add: word_le_nat_alt)
  moreover have "\<not> unat (leaf_capacity t) \<le> unat n - unat (leaf_capacity t)"
    using n cap by linarith
  ultimately have slot: "leaf_node_index_for_capacity (leaf_capacity t) (n - leaf_capacity t) =
      Inr (leaf_capacity t + (n - leaf_capacity t))"
    using n cap by (simp add: leaf_node_index_for_capacity_def word_le_nat_alt checked_add_u32_def)
  show ?thesis
  proof (cases "leaf (nodes t ! unat n)")
    case None
    then show ?thesis
      using slot node P
      by (simp add: leaf_hash_def Let_def vacant_leaf_hash_for_capacity_def lp_total u32_be_def u32_max_def)
  next
    case (Some l)
    define key where "key = (case node_key (nodes t ! unat n) of Some k \<Rightarrow> Some k | None \<Rightarrow> leaf_node_key l)"
    have "length (append_node_key key) \<le> 1185"
      using ok Some by (intro length_append_node_key) (auto simp: key_def node_ok_def split: option.splits)
    then show ?thesis
      using slot node P Some ok unfolding key_def
      by (simp add: leaf_hash_def Let_def occupied_leaf_hash_for_capacity_def lp_total u32_be_def
          u64_be_def u32_max_def node_ok_def)
  qed
qed

lemma children_total:
  assumes "unat n < 8192"
  shows "\<exists>l r. left_child n = Inr l \<and> right_child n = Inr r \<and> unat l = 2 * unat n \<and> unat r = 2 * unat n + 1"
proof -
  have l: "left_child n = Inr (n * 2)" "unat (n * 2) = 2 * unat n"
    using assms by (simp_all add: left_child_Inr_iff unat_word_ariths)
  then have "right_child n = Inr (n * 2 + 1)" "unat (n * 2 + 1) = 2 * unat n + 1"
    using assms by (simp_all add: right_child_def checked_add_u32_def unat_word_ariths)
  then show ?thesis
    using l by blast
qed

lemma node_hash_total:
  assumes "tree_ok t" and "hash_ok P" and "1 \<le> unat n" and "unat n < length (nodes t)"
  shows "\<exists>h. node_hash P t n = Inr h \<and> length h = 64"
  using assms
proof (induction P t n rule: node_hash.induct)
  case (1 P t n)
  have wf: "tree_wf t" and cap: "unat (leaf_capacity t) \<le> 8192" "length (nodes t) = 2 * unat (leaf_capacity t)"
    using "1.prems"(1) tree_wf_capacity(4) by (auto simp: tree_ok_def tree_wf_def)
  have valid: "tree_validate_node_index t n = Inr ()"
    using "1.prems" by (simp add: tree_validate_iff [OF wf])
  have isl: "is_leaf_node_for_capacity (leaf_capacity t) n = Inr (leaf_capacity t \<le> n)"
    using "1.prems" cap by (simp add: is_leaf_node_Inr_iff)
  show ?case
  proof (cases "leaf_capacity t \<le> n")
    case True
    then show ?thesis
      using leaf_hash_total [OF "1.prems"(1,2)] "1.prems"(4) valid isl
      by (simp add: node_hash.simps [of P t n] word_le_nat_alt)
  next
    case False
    then have small: "unat n < unat (leaf_capacity t)"
      by (simp add: word_le_nat_alt)
    then obtain l r where lr: "left_child n = Inr l" "right_child n = Inr r"
        "unat l = 2 * unat n" "unat r = 2 * unat n + 1"
      using children_total [of n] cap by auto
    obtain hl where hl: "node_hash P t l = Inr hl" "length hl = 64"
      using "1.IH"(1) [OF valid isl False lr(1,2)] "1.prems" lr small cap by auto
    obtain hr where hr: "node_hash P t r = Inr hr" "length hr = 64"
      using "1.IH"(2) [OF valid isl False lr(1,2) hl(1)] "1.prems" lr small cap by auto
    have "node_ok (nodes t ! unat n)"
      using "1.prems" by (simp add: tree_ok_def)
    then have "length (append_node_key (node_key (nodes t ! unat n))) \<le> 1185"
      by (intro length_append_node_key) (simp add: node_ok_def)
    moreover have "n \<noteq> 0"
      using "1.prems"(3) by auto
    ultimately have "\<exists>h. parent_node_hash P n hl hr (node_key (nodes t ! unat n)) = Inr h \<and> length h = 64"
      using hl hr "1.prems"(2,3)
      by (auto simp: parent_node_hash_def lp_total u32_be_def u32_max_def)
    moreover have "tree_node t n = Inr (nodes t ! unat n)"
      using "1.prems" by (simp add: tree_node_iff [OF wf])
    ultimately show ?thesis
      using valid isl False lr hl hr by (simp add: node_hash.simps [of P t n])
  qed
qed

lemma direct_path_nodes:
  assumes "direct_path m slot = Inr p"
  shows "length p = Suc (tree_depth m)" and "distinct p" and "last p = 1"
    and "\<forall>n \<in> set p. 1 \<le> unat n \<and> unat n < 2 ^ Suc (tree_depth m)"
proof -
  let ?d = "tree_depth m"
  obtain x where x: "leaf_node_index m slot = Inr x" and len: "length p = Suc ?d"
    and nth: "\<And>k. k \<le> ?d \<Longrightarrow> unat (p ! k) = unat x div 2 ^ k"
    using direct_pathD [OF assms] by metis
  have level: "at_level (?d - k) (unat (p ! k))" if "k \<le> ?d" for k
    using at_level_div [OF leaf_node_level [OF x] that] nth [OF that] by simp
  show "length p = Suc ?d" by (rule len)
  show "distinct p"
    unfolding distinct_conv_nth
    using level at_level_unique len by (metis diff_diff_cancel less_Suc_eq_le)
  have "last p = p ! ?d"
    using len by (metis Zero_not_Suc diff_Suc_1 last_conv_nth list.size(3))
  then show "last p = 1"
    using level [of ?d] by (simp add: at_level_0 word_unat_eq_iff)
  have "1 \<le> unat (p ! k) \<and> unat (p ! k) < 2 ^ Suc ?d" if "k \<le> ?d" for k
  proof -
    have "(1 :: nat) \<le> 2 ^ (?d - k)" "(2 :: nat) ^ Suc (?d - k) \<le> 2 ^ Suc ?d"
      by (simp_all add: power_increasing)
    then show ?thesis using level [OF that] unfolding at_level_def by linarith
  qed
  then show "\<forall>n \<in> set p. 1 \<le> unat n \<and> unat n < 2 ^ Suc ?d"
    using len by (metis in_set_conv_nth less_Suc_eq_le)
qed

lemma direct_path_not_Lite: "direct_path m slot = Inr p \<Longrightarrow> m \<noteq> GM_Lite"
  using direct_path_leaf by (fastforce simp: leaf_node_index_iff)

lemma parent_path_eq: "direct_path m slot = Inr p \<Longrightarrow> parent_path m slot = Inr (tl p)"
proof -
  assume p: "direct_path m slot = Inr p"
  then have "m \<noteq> GM_Lite" by (rule direct_path_not_Lite)
  then have "2 \<le> length p"
    using direct_path_nodes(1) [OF p] by (cases m) simp_all
  then obtain a b rest where "p = a # b # rest"
    by (cases p; cases "tl p") auto
  then show ?thesis
    using p direct_path_nodes(3) [OF p] by (simp add: parent_path_def)
qed

lemma parent_path_nodes:
  assumes "parent_path m slot = Inr p"
  shows "distinct p" and "p \<noteq> []" and "last p = 1" and "length p = tree_depth m"
    and "\<forall>n \<in> set p. 1 \<le> unat n \<and> unat n < 2 ^ Suc (tree_depth m)"
proof -
  obtain q where q: "direct_path m slot = Inr q"
    using assms by (auto simp: parent_path_def result_simps)
  then have p: "p = tl q"
    using parent_path_eq assms by simp
  show "distinct p" "length p = tree_depth m"
    using direct_path_nodes(1,2) [OF q] by (simp_all add: p distinct_tl)
  show "\<forall>n \<in> set p. 1 \<le> unat n \<and> unat n < 2 ^ Suc (tree_depth m)"
    using direct_path_nodes(4) [OF q] by (cases q) (simp_all add: p)
  show "p \<noteq> []" "last p = 1"
    using assms by (auto simp: parent_path_def result_simps Let_def)
qed

lemma hkdf_info_total:
  "length label \<le> 100 \<Longrightarrow> length context \<le> 100000 \<Longrightarrow> \<exists>i. hkdf_info label context = Inr i"
  by (simp add: hkdf_info_def lp_total u32_max_def)

lemma derive_path_secret32_total:
  assumes "kdf_ok P" and "length s = 32" and "length label \<le> 100" and "length context \<le> 100000"
  shows "\<exists>out. derive_path_secret32 P s label context = Inr out \<and> length out = 32"
proof -
  obtain i where i: "hkdf_info label context = Inr i"
    using hkdf_info_total assms(3,4) by blast
  obtain out where out: "hkdf_expand P s i 32 = Inr out"
    using hkdf_expand_total [OF assms(1,2), of 32 i] by auto
  then show ?thesis
    using i hkdf_expand_length [OF assms(1) out] by (simp add: derive_path_secret32_def)
qed

lemma derive_node_seed_total:
  assumes "kdf_ok P" and "length s = 32" and "length context \<le> 100000"
  shows "\<exists>d z. derive_node_seed P s context = Inr (d, z) \<and> length d = 32 \<and> length z = 32"
proof -
  obtain i where i: "hkdf_info LABEL_TREE_NODE_SEED context = Inr i"
    using hkdf_info_total [of LABEL_TREE_NODE_SEED] assms(3) by (auto simp: LABEL_TREE_NODE_SEED_def)
  obtain out where out: "hkdf_expand P s i 64 = Inr out"
    using hkdf_expand_total [OF assms(1,2), of 64 i] by auto
  then show ?thesis
    using i hkdf_expand_length [OF assms(1) out] by (simp add: derive_node_seed_def slice_def)
qed

lemma public_part_key_length:
  "kem_ok P \<Longrightarrow> length (dn_node_key (public_part P s)) = ML_KEM_768_EK_SIZE"
  by (simp add: kem_ok_def public_part_def public_node_key_from_private_node_seed_def) (metis prod.collapse)

lemma install_key_ok:
  assumes "tree_ok t" and "length (dn_node_key d) = ML_KEM_768_EK_SIZE"
  shows "tree_ok (install_key t d)"
proof -
  have "node_ok (nodes (install_key t d) ! i)" if "i < length (nodes t)" for i
  proof -
    have "node_ok (nodes t ! i)"
      using assms(1) that by (simp add: tree_ok_def)
    then show ?thesis
      using assms(2) that by (simp add: nth_install_key node_ok_def)
  qed
  then show ?thesis
    using assms install_key_wf install_keys_frame(4) [of t "[d]"]
    by (auto simp: tree_ok_def in_set_conv_nth)
qed

lemma derive_path_loop_total:
  assumes "kdf_ok P" and "kem_ok P" and "path_context_ok c" and "tree_ok t" and "length s = 32"
    and "\<forall>n \<in> set ns. 1 \<le> unat n \<and> unat n < length (nodes t)"
    and "unat (tree_version t) + length ns < 2 ^ 64"
  shows "\<exists>secrets updated last_secret t'. derive_path_loop P c ns s t = Inr (secrets, updated, last_secret, t') \<and>
    length last_secret = 32 \<and> tree_ok t'"
  using assms(4-)
proof (induction ns arbitrary: s t)
  case (Cons n ns)
  obtain nc where nc: "encode_path_context c n = Inr nc" "length nc \<le> 100000"
    using assms(3) by (auto simp: encode_path_context_def path_context_ok_def lp_total u32_max_def
        u64_be_def u32_be_def)
  obtain ps where ps: "derive_path_secret32 P s LABEL_TREE_PATH nc = Inr ps" "length ps = 32"
    using derive_path_secret32_total [OF assms(1) Cons.prems(2), of LABEL_TREE_PATH nc] nc
    by (auto simp: LABEL_TREE_PATH_def)
  obtain d z where dz: "derive_node_seed P ps nc = Inr (d, z)"
    using derive_node_seed_total [OF assms(1) ps(2) nc(2)] by blast
  define t1 where "t1 = install_key t \<lparr>dn_node_index = n, dn_node_key = mlkem_node_key_from_seed P d z\<rparr>"
  have "length (mlkem_node_key_from_seed P d z) = ML_KEM_768_EK_SIZE"
    using public_part_key_length [OF assms(2),
        of "\<lparr>pn_node_index = n, path_secret = ps, node_seed_d = d, node_seed_z = z\<rparr>"]
    by (simp add: public_part_def mlkem_node_key_from_seed_def public_node_key_from_private_node_seed_def)
  then have ok1: "tree_ok t1"
    unfolding t1_def using Cons.prems(1) by (intro install_key_ok) simp_all
  have wf: "tree_wf t"
    using Cons.prems(1) by (simp add: tree_ok_def)
  have set: "on_clone (set_node_key n (Some (mlkem_node_key_from_seed P d z))) t = Inr ((), t1)"
    using Cons.prems by (simp add: on_clone_Inr_iff set_node_key_iff [OF wf] t1_def u64_not_max_iff)
  have "length (nodes t1) = length (nodes t)" "unat (tree_version t1) = Suc (unat (tree_version t))"
    using Cons.prems(4) by (simp_all add: t1_def install_key_def unat_u64_Suc u64_not_max_iff)
  then obtain rest where "derive_path_loop P c ns ps t1 = Inr rest"
      "length (fst (snd (snd rest))) = 32" "tree_ok (snd (snd (snd rest)))"
    using Cons.IH [OF ok1 ps(2)] Cons.prems(3,4) by auto
  then show ?case
    using nc ps dz set by (cases rest) (simp add: Let_def)
qed simp

lemma derive_and_install_pathD:
  assumes "derive_and_install_path P c s (t, pp) = (Inr u, (t', pp'))"
  obtains secrets last_secret where "pt_mode t = pc_mode c"
    "parent_path (pc_mode c) (pc_leaf_slot c) = Inr (pu_direct_path u)"
    "derive_path_loop P c (pu_direct_path u) s t = Inr (secrets, pu_updated_nodes u, last_secret, t')"
    "pp' = \<lparr>leaf_index = Some (pc_leaf_slot c), path = secrets\<rparr>"
    "tree_hash P t' = Inr (pu_tree_hash_after u)" "pu_tree_version_after u = tree_version t'"
    "pu_leaf_slot u = pc_leaf_slot c"
  using assms that
  by (auto simp: derive_and_install_path_def result_simps replace_with_def private_path_clear_def
      st_bind_Inr_iff split: prod.splits)

lemma rekey_path_installs:
  assumes t: "tree_wf t" and loop: "derive_path_loop P c ns s t = Inr (secrets, updated, last_secret, t')"
    and d: "distinct (map pn_node_index secrets)" and "secrets \<noteq> []" and "l \<noteq> None"
    and e: "pt_epoch t \<noteq> Some u64_max"
  shows "\<exists>r e. rekey_path P (t, \<lparr>leaf_index = l, path = secrets\<rparr>) =
      (Inr r, (t'\<lparr>pt_epoch := Some e\<rparr>, \<lparr>leaf_index = l, path = secrets\<rparr>)) \<and>
    changed_nodes r = map pn_node_index secrets"
proof -
  note result = derive_path_loop_result [OF t loop]
  have "rekey_loop P secrets [] t = Inr ([] @ map pn_node_index secrets,
      foldl install_key t (map (public_part P) secrets))"
  proof (rule rekey_loop_installs [OF t])
    show "distinct ([] @ map pn_node_index secrets)" using d by simp
    show "\<forall>n \<in> set (map pn_node_index secrets). 1 \<le> unat n \<and> unat n < length (nodes t)"
      using result by metis
    show "unat (tree_version t) + length secrets < 2 ^ 64"
      using result by (metis length_map)
  qed
  then have loop': "rekey_loop P secrets [] t = Inr (map pn_node_index secrets, t')"
    using result by simp
  obtain e' where "(case pt_epoch t of Some e \<Rightarrow> next_epoch e | None \<Rightarrow> Inr 0) = Inr e'"
    using e by (cases "pt_epoch t") (auto simp: next_epoch_def checked_add_u64_one)
  then have "rekey_path P (t, \<lparr>leaf_index = l, path = secrets\<rparr>) =
      (Inr \<lparr>new_epoch = e', rk_tree_version = tree_version t', changed_nodes = map pn_node_index secrets\<rparr>,
       (t'\<lparr>pt_epoch := Some e'\<rparr>, \<lparr>leaf_index = l, path = secrets\<rparr>))"
    using assms(4,5) loop' by (simp add: rekey_path_def st_bind_def st_lift_def st_modify_def)
  then show ?thesis
    by (intro exI [of _ "\<lparr>new_epoch = e', rk_tree_version = tree_version t',
        changed_nodes = map pn_node_index secrets\<rparr>"] exI [of _ e']) simp
qed

lemma path_update_total:
  assumes "hash_ok P" and "kdf_ok P" and "kem_ok P" and c: "path_context_ok c" and t: "tree_ok t"
    and "length s = 32" and m: "pt_mode t = pc_mode c" and slot: "unat (pc_leaf_slot c) < unat (leaf_capacity t)"
    and v: "unat (tree_version t) + 13 < 2 ^ 64"
  shows "\<exists>u t' pp'. derive_and_install_path P c s (t, pp) = (Inr u, (t', pp'))"
proof -
  have wf: "tree_wf t" using t by (simp add: tree_ok_def)
  note cap = tree_wf_capacity [OF wf]
  have "leaf_node_index (pc_mode c) (pc_leaf_slot c) = Inr (leaf_capacity t + pc_leaf_slot c)"
    using cap m slot by (simp add: leaf_node_index_iff unat_word_ariths)
  then obtain q where "direct_path (pc_mode c) (pc_leaf_slot c) = Inr q"
    using direct_path_closed by blast
  then obtain p where p: "parent_path (pc_mode c) (pc_leaf_slot c) = Inr p"
    using parent_path_eq by blast
  note nodes = parent_path_nodes [OF p]
  have len: "length p \<le> 13"
    using nodes(4) tree_depth_bound by metis
  obtain secrets updated last_secret t' where loop:
      "derive_path_loop P c p s t = Inr (secrets, updated, last_secret, t')"
      "length last_secret = 32" "tree_ok t'"
    using derive_path_loop_total [OF assms(2,3) c t assms(6), of p] nodes(5) cap m len v by auto
  have "length (concat (map u32_be p)) = length p * 4"
    by (rule length_concat_map) (simp add: u32_be_def)
  then obtain rc where rc: "encode_root_context c p = Inr rc" "length rc \<le> 100000"
    using c len by (auto simp: encode_root_context_def path_context_ok_def u32_try_from_def lp_total
        u32_max_def u64_be_def u32_be_def)
  obtain rs where rs: "derive_path_secret32 P last_secret LABEL_TREE_ROOT rc = Inr rs"
    using derive_path_secret32_total [OF assms(2) loop(2), of LABEL_TREE_ROOT rc] rc
    by (auto simp: LABEL_TREE_ROOT_def)
  have "1 < length (nodes t')"
    using tree_wf_capacity(3) [of t'] loop(3) one_less_power [of "2 :: nat" "Suc (tree_depth (pt_mode t'))"]
    by (simp add: tree_ok_def del: power_Suc)
  then obtain h where "tree_hash P t' = Inr h"
    using node_hash_total [OF loop(3) assms(1), of 1] by (auto simp: tree_hash_def)
  then show ?thesis
    using p nodes(3) loop(1) rc rs m
    by (simp add: derive_and_install_path_def st_bind_def st_lift_def st_modify_def)
qed

section \<open>Properties of path updates\<close>


definition toy_path_context :: TreeKemPathContext where
  "toy_path_context = \<lparr>pc_group_id = replicate 32 1, pc_mode = GM_Interactive, pc_epoch = 1,
     pc_state_version = 1, pc_leaf_slot = 3, pc_commit_nonce = replicate 32 2,
     pc_tree_hash = replicate 64 3\<rparr>"

lemma PublicTree_new_ok: "PublicTree_new m e = Inr t \<Longrightarrow> tree_ok t \<and> tree_version t = 0 \<and> pt_mode t = m \<and> pt_epoch t = e"
  using PublicTree_new_wf [of m e t]
  by (auto simp: PublicTree_new_def result_simps tree_ok_def node_ok_def PublicTreeNode_empty_def)


end
