(* ===== verification/Group_Distribution.thy ===== *)
theory Group_Distribution
  imports Group_Path "HOL-Library.Product_Lexorder"
begin

text \<open>
  Distribution of a path update (\<open>distribution/\<close>): which nodes the fresh path secrets are encrypted to
  (\<open>targets.rs\<close>), the wrapping of one secret (\<open>wrapping.rs\<close>), the canonical encoding and hash of an
  update path (\<open>encoding.rs\<close>, \<open>validation.rs\<close>) and the whole of \<open>encrypt_path_updates\<close>
  (\<open>mod.rs\<close>). The lemmas show that the targets reach every other keyed member exactly once and no
  excluded one, and that the holder of a target's decapsulation key recovers the wrapped secret.
\<close>

section \<open>Types\<close>

definition WRAPPED_PATH_SECRET_SIZE :: nat where
  [simp]: "WRAPPED_PATH_SECRET_SIZE = 32 + AEAD_TAG_SIZE"

record TreeKemWrapContext =
  wc_group_id :: GroupId
  wc_mode :: GroupMode
  wc_new_epoch :: Epoch
  wc_new_state_version :: StateVersion
  wc_commit_nonce :: bytes
  wc_tree_hash :: bytes

record PathSecretTarget =
  parent_node_index :: u32
  target_node_index :: u32
  target_node_key :: PublicNodeKey

record PathCiphertext =
  ct_parent_node_index :: u32
  ct_target_node_index :: u32
  kem_ciphertext :: bytes
  wrapped_path_secret :: bytes

record UpdatePath =
  committer_leaf_index :: u32
  up_leaf_capacity :: u32
  updated_nodes :: "DerivedPublicPathNode list"
  path_ciphertexts :: "PathCiphertext list"
  candidate_tree_hash :: bytes

record ResolvedPathTarget =
  rt_node_index :: u32
  rt_node_key :: PublicNodeKey

section \<open>Targets\<close>

definition validate_tree_node :: "PublicTree \<Rightarrow> u32 \<Rightarrow> GroupError + unit" where
  "validate_tree_node t n =
     rbind (ok_or (checked_mul_u32 (leaf_capacity t) 2) GE_CounterExhausted) (\<lambda>exclusive.
       ensure (ROOT_NODE_INDEX \<le> n \<and> n < exclusive) (GE_InvalidTreeNode n))"

definition target_tree_node :: "PublicTree \<Rightarrow> u32 \<Rightarrow> GroupError + PublicTreeNode" where
  "target_tree_node t n =
     rbind (validate_tree_node t n) (\<lambda>_.
       if unat n < length (nodes t) then Inr (nodes t ! unat n) else Inl (GE_InvalidTreeNode n))"

definition is_leaf_node :: "PublicTree \<Rightarrow> u32 \<Rightarrow> GroupError + bool" where
  "is_leaf_node t n = rbind (validate_tree_node t n) (\<lambda>_. Inr (leaf_capacity t \<le> n))"

lemma validate_tree_node_eq: "validate_tree_node t n = tree_validate_node_index t n"
  by (simp add: validate_tree_node_def tree_validate_node_index_def validate_node_index_for_capacity_def)

lemma target_tree_node_eq: "target_tree_node t n = tree_node t n"
  by (simp add: target_tree_node_def tree_node_def validate_tree_node_eq)

lemma is_leaf_node_eq: "is_leaf_node t n = is_leaf_node_for_capacity (leaf_capacity t) n"
  by (simp add: is_leaf_node_def is_leaf_node_for_capacity_def validate_tree_node_eq
      tree_validate_node_index_def)

function subtree_has_occupied_leaf :: "PublicTree \<Rightarrow> u32 \<Rightarrow> GroupError + bool" where
  "subtree_has_occupied_leaf t n =
     rbind (target_tree_node t n) (\<lambda>node.
     rbind (is_leaf_node t n) (\<lambda>is_leaf.
       if is_leaf then Inr (leaf node \<noteq> None)
       else
         rbind (left_child n) (\<lambda>l.
         rbind (subtree_has_occupied_leaf t l) (\<lambda>left.
           if left then Inr True
           else rbind (right_child n) (\<lambda>r. subtree_has_occupied_leaf t r)))))"
  by pat_completeness auto

termination
  by (relation "measure (\<lambda>(t, n). 2 * unat (leaf_capacity t) - unat n)")
    (auto simp: is_leaf_node_eq result_simps word_le_nat_alt dest!: unat_left_child right_child_Inr)

declare subtree_has_occupied_leaf.simps [simp del]

function resolve_subtree :: "PublicTree \<Rightarrow> u32 \<Rightarrow> u32 list \<Rightarrow> GroupError + ResolvedPathTarget list" where
  "resolve_subtree t n excluded_nodes =
     rbind (validate_tree_node t n) (\<lambda>_.
     rbind (target_tree_node t n) (\<lambda>node.
     rbind (subtree_has_occupied_leaf t n) (\<lambda>occupied.
       if \<not> occupied then Inr []
       else if node_key node \<noteq> None \<and> n \<notin> set excluded_nodes
       then Inr [\<lparr>rt_node_index = n, rt_node_key = the (node_key node)\<rparr>]
       else
         rbind (is_leaf_node t n) (\<lambda>is_leaf.
           if is_leaf then Inr []
           else
             rbind (left_child n) (\<lambda>l.
             rbind (resolve_subtree t l excluded_nodes) (\<lambda>left.
             rbind (right_child n) (\<lambda>r.
             rbind (resolve_subtree t r excluded_nodes) (\<lambda>right.
               let resolved = sort_key rt_node_index (left @ right) in
               rbind (ensure (\<not> list_ex (\<lambda>(a, b). rt_node_index a = rt_node_index b) (windows2 resolved))
                        GE_InvalidTreeResolution) (\<lambda>_.
                 Inr resolved)))))))))"
  by pat_completeness auto

termination
  by (relation "measure (\<lambda>(t, n, _). 2 * unat (leaf_capacity t) - unat n)")
    (auto simp: is_leaf_node_eq result_simps word_le_nat_alt dest!: unat_left_child right_child_Inr)

declare resolve_subtree.simps [simp del]

text \<open>The loop over the direct path below the root.\<close>

fun resolve_path_loop :: "PublicTree \<Rightarrow> u32 list \<Rightarrow> u32 list \<Rightarrow> GroupError + PathSecretTarget list" where
  "resolve_path_loop t excluded_nodes [] = Inr []"
| "resolve_path_loop t excluded_nodes (n # ns) =
     rbind (ok_or (parent_index n) GE_InvalidTreePath) (\<lambda>parent.
     rbind (sibling_index n) (\<lambda>subtree.
     rbind (resolve_subtree t subtree excluded_nodes) (\<lambda>resolved.
     rbind (resolve_path_loop t excluded_nodes ns) (\<lambda>targets.
       Inr (map (\<lambda>r. \<lparr>parent_node_index = parent, target_node_index = rt_node_index r,
                       target_node_key = rt_node_key r\<rparr>) resolved @ targets)))))"

definition target_key :: "PathSecretTarget \<Rightarrow> u32 \<times> u32" where
  "target_key a = (parent_node_index a, target_node_index a)"

definition resolve_update_path_targets ::
    "PublicTree \<Rightarrow> u32 \<Rightarrow> u32 list \<Rightarrow> GroupError + PathSecretTarget list" where
  "resolve_update_path_targets t slot excluded_nodes =
     rbind (ensure (pt_mode t \<noteq> GM_Lite) (GE_InvalidModeMechanism GM_Lite TreeKem)) (\<lambda>_.
     rbind (direct_path (pt_mode t) slot) (\<lambda>full.
     rbind (ensure (full \<noteq> [] \<and> last full = ROOT_NODE_INDEX) GE_InvalidTreePath) (\<lambda>_.
     rbind (resolve_path_loop t excluded_nodes (take (length full - 1) full)) (\<lambda>targets.
     let targets = sort_key target_key targets in
     rbind (ensure (\<not> list_ex (\<lambda>(a, b). target_key a = target_key b) (windows2 targets))
              GE_InvalidTreeResolution) (\<lambda>_.
       Inr targets)))))"

section \<open>Wrapping\<close>

definition LABEL_WRAP_SALT :: bytes where
  "LABEL_WRAP_SALT = ascii ''HYDRA-MSG/v1/group/tree/wrap-salt''"

definition LABEL_WRAP_KEY :: bytes where
  "LABEL_WRAP_KEY = ascii ''HYDRA-MSG/v1/group/tree/wrap-key''"

definition LABEL_WRAP_ENTROPY :: bytes where
  "LABEL_WRAP_ENTROPY = ascii ''HYDRA-MSG/v1/group/tree/wrap-entropy''"

definition wrap_context :: "TreeKemWrapContext \<Rightarrow> u32 \<Rightarrow> u32 \<Rightarrow> bytes" where
  "wrap_context context parent target =
     wc_group_id context @ [group_mode_u8 (wc_mode context)] @ u64_be (wc_new_epoch context) @
     u64_be (wc_new_state_version context) @ wc_commit_nonce context @ u32_be parent @
     u32_be target @ wc_tree_hash context"

definition derive_wrap_entropy :: "CryptoPrims \<Rightarrow> bytes \<Rightarrow> GroupError + bytes" where
  "derive_wrap_entropy P context =
     rbind (lp LABEL_WRAP_ENTROPY) (\<lambda>label.
     rbind (lp context) (\<lambda>c.
     rbind (map_err (\<lambda>_. GE_InvalidTreePath) (hkdf_expand P (replicate 32 0) (label @ c) 32)) (\<lambda>output.
     rbind (ensure (length output = 32) GE_InvalidTreePath) (\<lambda>_.
       Inr output))))"

definition derive_wrap_key :: "CryptoPrims \<Rightarrow> bytes \<Rightarrow> bytes \<Rightarrow> GroupError + bytes" where
  "derive_wrap_key P context kem_shared_secret =
     rbind (lp context) (\<lambda>c.
     let salt = sha3_512 P (LABEL_WRAP_SALT @ SUITE_ID @ c);
         wrap_prk = hkdf_extract P salt kem_shared_secret in
     rbind (lp LABEL_WRAP_KEY) (\<lambda>label.
     rbind (map_err (\<lambda>_. GE_InvalidTreePath) (hkdf_expand P wrap_prk (label @ c) 32)) (\<lambda>output.
     rbind (ensure (length output = 32) GE_InvalidTreePath) (\<lambda>_.
       Inr output))))"

definition deterministic_encapsulate ::
    "CryptoPrims \<Rightarrow> PublicNodeKey \<Rightarrow> bytes \<Rightarrow> GroupError + bytes \<times> bytes" where
  "deterministic_encapsulate P key context =
     rbind (ensure (p_mlkem_ek_valid P key) GE_InvalidTreeResolution) (\<lambda>_.
     rbind (derive_wrap_entropy P context) (\<lambda>entropy.
       Inr (p_mlkem_encapsulate P key entropy)))"

definition wrap_path_secret ::
    "CryptoPrims \<Rightarrow> TreeKemWrapContext \<Rightarrow> u32 \<Rightarrow> u32 \<Rightarrow> PublicNodeKey \<Rightarrow> Secret32 \<Rightarrow> GroupError + PathCiphertext" where
  "wrap_path_secret P context parent target key secret =
     (let wrap = wrap_context context parent target in
      rbind (deterministic_encapsulate P key wrap) (\<lambda>(ct, shared).
      rbind (derive_wrap_key P wrap shared) (\<lambda>wrap_key.
      rbind (map_err (\<lambda>_. GE_InvalidTreePath)
               (aead_seal P wrap_key (replicate 12 0) (wrap @ ct) secret)) (\<lambda>sealed.
      rbind (ensure (length sealed = WRAPPED_PATH_SECRET_SIZE) GE_InvalidTreePath) (\<lambda>_.
        Inr \<lparr>ct_parent_node_index = parent, ct_target_node_index = target, kem_ciphertext = ct,
             wrapped_path_secret = sealed\<rparr>)))))"

definition private_path_secret :: "PrivatePath \<Rightarrow> u32 \<Rightarrow> GroupError + Secret32" where
  "private_path_secret pp n =
     ok_or (map_option path_secret (find (\<lambda>s. pn_node_index s = n) (path pp))) GE_InvalidTreePath"

section \<open>Validation, encoding and hash\<close>

definition ciphertext_key :: "PathCiphertext \<Rightarrow> u32 \<times> u32" where
  "ciphertext_key c = (ct_parent_node_index c, ct_target_node_index c)"

definition sort_and_validate_updated_nodes ::
    "DerivedPublicPathNode list \<Rightarrow> GroupError + DerivedPublicPathNode list" where
  "sort_and_validate_updated_nodes ns =
     rbind (ensure (ns \<noteq> []) GE_InvalidUpdatePath) (\<lambda>_.
     let ns = sort_key dn_node_index ns in
     rbind (ensure (\<not> list_ex (\<lambda>(a, b). dn_node_index a = dn_node_index b) (windows2 ns))
              GE_InvalidUpdatePath) (\<lambda>_.
       Inr ns))"

definition sort_and_validate_path_ciphertexts :: "PathCiphertext list \<Rightarrow> GroupError + PathCiphertext list" where
  "sort_and_validate_path_ciphertexts cs =
     (let cs = sort_key ciphertext_key cs in
      rbind (ensure (\<not> list_ex (\<lambda>(a, b). ciphertext_key a = ciphertext_key b) (windows2 cs))
               GE_InvalidUpdatePath) (\<lambda>_.
        Inr cs))"

definition encode_update_path :: "UpdatePath \<Rightarrow> GroupError + bytes" where
  "encode_update_path up =
     rbind (sort_and_validate_updated_nodes (updated_nodes up)) (\<lambda>ns.
     rbind (sort_and_validate_path_ciphertexts (path_ciphertexts up)) (\<lambda>cs.
     rbind (checked_u16_be (length ns)) (\<lambda>node_count.
     rbind (checked_u16_be (length cs)) (\<lambda>ciphertext_count.
       Inr (u32_be (committer_leaf_index up) @ u32_be (up_leaf_capacity up) @ node_count @
            concat (map (\<lambda>n. u32_be (dn_node_index n) @ [NODE_KEY_PRESENT] @ dn_node_key n) ns) @
            ciphertext_count @
            concat (map (\<lambda>c. u32_be (ct_parent_node_index c) @ u32_be (ct_target_node_index c) @
              kem_ciphertext c @ wrapped_path_secret c) cs) @
            candidate_tree_hash up)))))"

definition LABEL_UPDATE_PATH_HASH :: bytes where
  "LABEL_UPDATE_PATH_HASH = ascii ''HYDRA-MSG/v1/group/tree/update-path-hash''"

definition update_path_hash :: "CryptoPrims \<Rightarrow> UpdatePath \<Rightarrow> GroupError + bytes" where
  "update_path_hash P up =
     rbind (encode_update_path up) (\<lambda>encoded.
     rbind (lp encoded) (\<lambda>l.
       Inr (sha3_512 P (LABEL_UPDATE_PATH_HASH @ SUITE_ID @ l))))"

section \<open>Encrypting a path update\<close>

definition encrypt_path_updates ::
    "CryptoPrims \<Rightarrow> PublicTree \<Rightarrow> PrivatePath \<Rightarrow> TreeKemWrapContext \<Rightarrow> TreeKemPathUpdate \<Rightarrow> u32 list \<Rightarrow>
       GroupError + UpdatePath" where
  "encrypt_path_updates P t pp context update excluded_nodes =
     rbind (ensure (\<not> (pt_mode t \<noteq> wc_mode context \<or> pu_tree_hash_after update \<noteq> wc_tree_hash context))
              GE_InvalidState) (\<lambda>_.
     rbind (ensure (leaf_index pp = Some (pu_leaf_slot update)) GE_InvalidTreePath) (\<lambda>_.
     rbind (ensure (node_indices pp = pu_direct_path update) GE_InvalidTreePath) (\<lambda>_.
     rbind (resolve_update_path_targets t (pu_leaf_slot update) excluded_nodes) (\<lambda>targets.
     rbind (rmap (\<lambda>target.
              rbind (private_path_secret pp (parent_node_index target)) (\<lambda>secret.
                wrap_path_secret P context (parent_node_index target) (target_node_index target)
                  (target_node_key target) secret)) targets) (\<lambda>ciphertexts.
     rbind (sort_and_validate_path_ciphertexts ciphertexts) (\<lambda>ciphertexts.
     let up = \<lparr>committer_leaf_index = pu_leaf_slot update, up_leaf_capacity = leaf_capacity t,
               updated_nodes = pu_updated_nodes update, path_ciphertexts = ciphertexts,
               candidate_tree_hash = pu_tree_hash_after update\<rparr> in
     rbind (encode_update_path up) (\<lambda>_. Inr up)))))))"

section \<open>Resolution of a subtree\<close>

abbreviation is_leaf_of :: "PublicTree \<Rightarrow> nat \<Rightarrow> bool" where
  "is_leaf_of t y \<equiv> at_level (tree_depth (pt_mode t)) y"

text \<open>A member that can be reached: an occupied leaf with a key that is not excluded.\<close>

definition reachable_leaf :: "PublicTree \<Rightarrow> u32 list \<Rightarrow> nat \<Rightarrow> bool" where
  "reachable_leaf t excluded_nodes y \<longleftrightarrow> is_leaf_of t y \<and> leaf (nodes t ! y) \<noteq> None \<and>
     node_key (nodes t ! y) \<noteq> None \<and> y \<notin> unat ` set excluded_nodes"

definition resolves :: "PublicTree \<Rightarrow> u32 list \<Rightarrow> nat \<Rightarrow> ResolvedPathTarget list \<Rightarrow> bool" where
  "resolves t ex n ts \<longleftrightarrow> distinct (map rt_node_index ts) \<and>
     (\<forall>a \<in> set ts. covers n (unat (rt_node_index a)) \<and> rt_node_index a \<notin> set ex \<and>
        unat (rt_node_index a) < length (nodes t) \<and>
        node_key (nodes t ! unat (rt_node_index a)) = Some (rt_node_key a)) \<and>
     (\<forall>y. is_leaf_of t y \<longrightarrow> (\<forall>a \<in> set ts. \<forall>b \<in> set ts.
        covers (unat (rt_node_index a)) y \<and> covers (unat (rt_node_index b)) y \<longrightarrow> a = b)) \<and>
     (\<forall>y. covers n y \<and> reachable_leaf t ex y \<longrightarrow> (\<exists>a \<in> set ts. covers (unat (rt_node_index a)) y))"

lemma leaf_node_cases [consumes 3, case_names leaf inner]:
  assumes t: "tree_wf t" and n: "1 \<le> unat n" "unat n < length (nodes t)"
  obtains (leaf) "is_leaf_of t (unat n)" "is_leaf_node t n = Inr True"
  | (inner) l r where "is_leaf_node t n = Inr False" "left_child n = Inr l" "right_child n = Inr r"
      "unat l = 2 * unat n" "unat r = 2 * unat n + 1" "unat r < length (nodes t)"
proof -
  note cap = tree_wf_capacity [OF t]
  have isl: "is_leaf_node t n = Inr (leaf_capacity t \<le> n)"
    using n cap by (simp add: is_leaf_node_eq is_leaf_node_Inr_iff)
  show ?thesis
  proof (cases "leaf_capacity t \<le> n")
    case True
    then show ?thesis
      using leaf isl n cap by (simp add: at_level_def word_le_nat_alt)
  next
    case False
    then have small: "unat n < 2 ^ tree_depth (pt_mode t)"
      using cap(2) by (simp add: word_le_nat_alt)
    then have "unat n < 8192"
      using cap(2,4) by simp
    then obtain l r where lr: "left_child n = Inr l" "right_child n = Inr r"
        "unat l = 2 * unat n" "unat r = 2 * unat n + 1"
      using children_total by blast
    show ?thesis
      by (rule inner [OF _ lr]) (use isl False small cap(3) lr(4) in simp_all)
  qed
qed

lemma covers_leaf: "is_leaf_of t n \<Longrightarrow> is_leaf_of t y \<Longrightarrow> covers n y \<longleftrightarrow> y = n"
  using covers_same_level [of "tree_depth (pt_mode t)" y n y] covers_refl [of y]
  by (auto simp: at_level_def dest: less_le_trans [rotated])

lemma covers_inner_iff:
  "is_leaf_of t y \<Longrightarrow> \<not> is_leaf_of t n \<Longrightarrow> 0 < n \<Longrightarrow> covers n y \<longleftrightarrow> covers (2 * n) y \<or> covers (2 * n + 1) y"
  using covers_inner covers_child by metis

lemma subtree_occupied:
  assumes "tree_wf t" and "1 \<le> unat n" and "unat n < length (nodes t)"
  shows "\<exists>b. subtree_has_occupied_leaf t n = Inr b \<and>
    (b \<longleftrightarrow> (\<exists>y. is_leaf_of t y \<and> covers (unat n) y \<and> leaf (nodes t ! y) \<noteq> None))"
  using assms
proof (induction t n rule: subtree_has_occupied_leaf.induct)
  case (1 t n)
  note t = "1.prems"(1)
  have node: "target_tree_node t n = Inr (nodes t ! unat n)"
    using "1.prems" by (simp add: target_tree_node_eq tree_node_iff)
  from "1.prems" show ?case
  proof (cases rule: leaf_node_cases)
    case leaf
    then show ?thesis
      using node covers_leaf [OF leaf(1)] by (auto simp: subtree_has_occupied_leaf.simps [of t n])
  next
    case (inner l r)
    have nl: "\<not> is_leaf_of t (unat n)"
      using inner tree_wf_capacity(3) [OF t] by (simp add: at_level_def)
    obtain bl where bl: "subtree_has_occupied_leaf t l = Inr bl"
        "bl \<longleftrightarrow> (\<exists>y. is_leaf_of t y \<and> covers (unat l) y \<and> leaf (nodes t ! y) \<noteq> None)"
      using "1.IH"(1) [OF node inner(1) _ inner(2) t] "1.prems" inner by auto
    obtain br where br: "subtree_has_occupied_leaf t r = Inr br"
        "br \<longleftrightarrow> (\<exists>y. is_leaf_of t y \<and> covers (unat r) y \<and> leaf (nodes t ! y) \<noteq> None)" if "\<not> bl"
      using "1.IH"(2) [OF node inner(1) _ inner(2) bl(1) _ inner(3) t] "1.prems" inner by auto
    show ?thesis
    proof (cases bl)
      case True
      then have "\<exists>y. is_leaf_of t y \<and> covers (unat n) y \<and> leaf (nodes t ! y) \<noteq> None"
        using bl(2) covers_inner_iff [OF _ nl] inner(4) "1.prems"(2) by auto
      then show ?thesis
        using True node inner bl by (auto simp: subtree_has_occupied_leaf.simps [of t n])
    next
      case False
      then have "br \<longleftrightarrow> (\<exists>y. is_leaf_of t y \<and> covers (unat n) y \<and> leaf (nodes t ! y) \<noteq> None)"
        using bl(2) br covers_inner_iff [OF _ nl] inner(4,5) "1.prems"(2) by auto
      moreover have "subtree_has_occupied_leaf t n = Inr br"
        using False node inner(1-3) bl(1) br(1) [OF False]
        by (simp add: subtree_has_occupied_leaf.simps [of t n] del: br)
      ultimately show ?thesis
        by blast
    qed
  qed
qed

lemma resolves_single:
  assumes "node_key (nodes t ! unat n) = Some k" and "n \<notin> set ex" and "1 \<le> unat n" and "unat n < length (nodes t)"
  shows "resolves t ex (unat n) [\<lparr>rt_node_index = n, rt_node_key = k\<rparr>]"
  using assms by (simp add: resolves_def covers_refl)

lemma resolves_none:
  "(\<And>y. covers n y \<Longrightarrow> \<not> reachable_leaf t ex y) \<Longrightarrow> resolves t ex n []"
  by (simp add: resolves_def)

lemma resolves_up:
  "resolves t ex n ts \<Longrightarrow> a \<in> set ts \<Longrightarrow> covers (unat (rt_node_index a)) y \<Longrightarrow> covers n y"
  unfolding resolves_def using covers_trans by blast

lemma resolves_children:
  assumes left: "resolves t ex (2 * n) left" and right: "resolves t ex (2 * n + 1) right"
    and n: "0 < n" "\<not> is_leaf_of t n"
  shows "resolves t ex n (left @ right)"
proof -
  obtain e where e: "at_level e n" using level_exists [OF n(1)] by blast
  have disj: False if "covers (2 * n) y" "covers (2 * n + 1) y" for y
    using covers_children_disjoint [OF _ that e] level_exists [OF covers_pos [OF that(1)]] by blast
  have dl: "covers (2 * n) (unat (rt_node_index a))" if "a \<in> set left" for a
    using left that by (simp add: resolves_def)
  have dr: "covers (2 * n + 1) (unat (rt_node_index a))" if "a \<in> set right" for a
    using right that by (simp add: resolves_def)
  have "distinct (map rt_node_index (left @ right))"
    using left right dl dr disj by (auto simp: resolves_def) metis
  moreover have "a = b" if ab: "a \<in> set (left @ right)" "b \<in> set (left @ right)" and y: "is_leaf_of t y"
      "covers (unat (rt_node_index a)) y" "covers (unat (rt_node_index b)) y" for a b y
  proof -
    have "a \<in> set left \<longleftrightarrow> b \<in> set left"
      using ab y disj [of y] resolves_up [OF left, of _ y] resolves_up [OF right, of _ y]
      by (metis Un_iff set_append)
    then show ?thesis
      using ab y left right unfolding resolves_def by (metis Un_iff set_append)
  qed
  moreover have "\<exists>a \<in> set (left @ right). covers (unat (rt_node_index a)) y"
    if "covers n y" "reachable_leaf t ex y" for y
  proof -
    have "covers (2 * n) y \<or> covers (2 * n + 1) y"
      using covers_inner_iff [of t y n] that n by (simp add: reachable_leaf_def)
    then show ?thesis
      using left right that(2) by (auto simp: resolves_def)
  qed
  ultimately show ?thesis
    using left right covers_child [OF _ n(1)] unfolding resolves_def by auto
qed

lemma resolves_sort: "resolves t ex n ts \<Longrightarrow> resolves t ex n (sort_key rt_node_index ts)"
  by (simp add: resolves_def distinct_map_sort_key)

lemma resolve_subtree_resolves:
  assumes "tree_wf t" and "1 \<le> unat n" and "unat n < length (nodes t)"
  shows "\<exists>ts. resolve_subtree t n ex = Inr ts \<and> resolves t ex (unat n) ts"
  using assms
proof (induction t n ex rule: resolve_subtree.induct)
  case (1 t n ex)
  note t = "1.prems"(1)
  have valid: "validate_tree_node t n = Inr ()" and node: "target_tree_node t n = Inr (nodes t ! unat n)"
    using "1.prems" by (simp_all add: validate_tree_node_eq tree_validate_iff target_tree_node_eq tree_node_iff)
  obtain b where b: "subtree_has_occupied_leaf t n = Inr b"
      "b \<longleftrightarrow> (\<exists>y. is_leaf_of t y \<and> covers (unat n) y \<and> leaf (nodes t ! y) \<noteq> None)"
    using subtree_occupied [OF "1.prems"] by blast
  note unfold = resolve_subtree.simps [of t n ex] valid node b(1)
  show ?case
  proof (cases "b \<and> (node_key (nodes t ! unat n) = None \<or> n \<in> set ex)")
    case False
    then consider "\<not> b" | k where b "node_key (nodes t ! unat n) = Some k" "n \<notin> set ex"
      by auto
    then show ?thesis
      using resolves_none [of "unat n" t ex] b(2) resolves_single [of t n _ ex] "1.prems"
      by cases (auto simp: unfold reachable_leaf_def)
  next
    case open': True
    from "1.prems" show ?thesis
    proof (cases rule: leaf_node_cases)
      case leaf
      then have "resolves t ex (unat n) []"
        using open' covers_leaf [OF leaf(1)] by (intro resolves_none) (auto simp: reachable_leaf_def)
      then show ?thesis
        using open' leaf by (auto simp: unfold)
    next
      case (inner l r)
      note IH = "1.IH" [OF valid node b(1) _ _ inner(1) _ inner(2)]
      have nl: "\<not> is_leaf_of t (unat n)"
        using inner tree_wf_capacity(3) [OF t] by (simp add: at_level_def)
      obtain left where left: "resolve_subtree t l ex = Inr left" "resolves t ex (2 * unat n) left"
        using IH(1) open' t "1.prems" inner by auto
      obtain right where right: "resolve_subtree t r ex = Inr right" "resolves t ex (2 * unat n + 1) right"
        using IH(2) [OF _ _ _ left(1) inner(3)] open' t "1.prems" inner by auto
      let ?ts = "sort_key rt_node_index (left @ right)"
      have ok: "resolves t ex (unat n) ?ts"
        using resolves_children [OF left(2) right(2) _ nl] "1.prems"(2) by (intro resolves_sort) simp
      then have "\<not> list_ex (\<lambda>(a, b). rt_node_index a = rt_node_index b) (windows2 ?ts)"
        by (intro distinct_no_adjacent) (simp add: resolves_def)
      then show ?thesis
        using ok open' inner left right by (auto simp: unfold Let_def)
    qed
  qed
qed

section \<open>Resolution along a path\<close>

text \<open>The targets of one path node: those of its sibling's subtree, under the parent.\<close>

definition path_target :: "u32 \<Rightarrow> ResolvedPathTarget \<Rightarrow> PathSecretTarget" where
  "path_target n r = \<lparr>parent_node_index = n div 2, target_node_index = rt_node_index r,
     target_node_key = rt_node_key r\<rparr>"

lemma path_target_simps [simp]:
  "parent_node_index (path_target n r) = n div 2"
  "target_node_index (path_target n r) = rt_node_index r"
  "target_node_key (path_target n r) = rt_node_key r"
  "target_key (path_target n r) = (n div 2, rt_node_index r)"
  by (simp_all add: path_target_def target_key_def)

definition node_targets :: "PublicTree \<Rightarrow> u32 list \<Rightarrow> u32 \<Rightarrow> PathSecretTarget set" where
  "node_targets t ex n = {a. \<exists>s ts r. sibling_index n = Inr s \<and> resolve_subtree t s ex = Inr ts \<and>
     r \<in> set ts \<and> a = path_target n r}"

lemma path_node_resolved:
  assumes t: "tree_wf t" and n: "2 \<le> unat n" "unat n < length (nodes t)"
  shows "\<exists>s ts. parent_index n = Some (n div 2) \<and> sibling_index n = Inr s \<and>
    resolve_subtree t s ex = Inr ts \<and> resolves t ex (node_sibling (unat n)) ts \<and>
    node_targets t ex n = path_target n ` set ts"
proof -
  note cap = tree_wf_capacity [OF t]
  have len: "length (nodes t) \<le> 16384"
    using cap(3,4) cap(2) by simp
  obtain s where s: "sibling_index n = Inr s" "unat s = node_sibling (unat n)"
    using sibling_index_unat [of n] n len by auto
  have "node_sibling (unat n) < length (nodes t)" "1 \<le> node_sibling (unat n)"
    using n cap(3) by (auto simp: node_sibling_def elim!: evenE)
  then obtain ts where ts: "resolve_subtree t s ex = Inr ts" "resolves t ex (unat s) ts"
    using resolve_subtree_resolves [OF t, of s ex] s(2) by auto
  have "n \<noteq> 1"
    using n by auto
  then show ?thesis
    using s ts by (auto simp: parent_index_def node_targets_def)
qed

lemma resolve_path_loop_total:
  assumes t: "tree_wf t" and "\<forall>n \<in> set ns. 2 \<le> unat n \<and> unat n < length (nodes t)"
    and "distinct (map (\<lambda>n. n div 2) ns)"
  shows "\<exists>ts. resolve_path_loop t ex ns = Inr ts \<and> set ts = (\<Union>n \<in> set ns. node_targets t ex n) \<and>
    distinct (map target_key ts)"
  using assms(2,3)
proof (induction ns)
  case (Cons n ns)
  from Cons.prems(1) have n: "2 \<le> unat n" "unat n < length (nodes t)"
    by auto
  from path_node_resolved [OF t n, of ex] obtain s rs where
    s: "parent_index n = Some (n div 2)" "sibling_index n = Inr s" "resolve_subtree t s ex = Inr rs"
      "resolves t ex (node_sibling (unat n)) rs" "node_targets t ex n = path_target n ` set rs"
    by (elim exE conjE)
  obtain ts where ts: "resolve_path_loop t ex ns = Inr ts" "set ts = (\<Union>n \<in> set ns. node_targets t ex n)"
    "distinct (map target_key ts)"
    using Cons by auto
  have "fst ` target_key ` set ts \<subseteq> (\<lambda>n. n div 2) ` set ns"
    unfolding ts(2) by (auto simp: node_targets_def)
  moreover have "n div 2 \<notin> (\<lambda>n. n div 2) ` set ns"
    using Cons.prems(2) by simp
  ultimately have fresh: "n div 2 \<notin> fst ` target_key ` set ts"
    by blast
  have "distinct (map rt_node_index rs)"
    using s(4) by (simp add: resolves_def)
  then have "distinct (map (target_key \<circ> path_target n) rs)"
    by (simp add: distinct_map inj_on_def)
  moreover have "(target_key \<circ> path_target n) ` set rs \<inter> target_key ` set ts = {}"
    using fresh by (auto simp: image_iff) (metis fst_conv)
  ultimately have "distinct (map target_key (map (path_target n) rs @ ts))"
    using ts(3) by simp
  moreover have "resolve_path_loop t ex (n # ns) = Inr (map (path_target n) rs @ ts)"
    using s(1-3) ts(1) by (simp add: path_target_def [abs_def])
  ultimately show ?case
    using s(5) ts(2) by (intro exI [of _ "map (path_target n) rs @ ts"]) simp
qed simp

lemma direct_path_halves:
  assumes "direct_path m slot = Inr p"
  shows "map (\<lambda>n. n div 2) (butlast p) = tl p"
    and "\<forall>n \<in> set (butlast p). 2 \<le> unat n"
proof -
  obtain x where x: "leaf_node_index m slot = Inr x" and len: "length p = Suc (tree_depth m)"
    and nth: "\<And>k. k \<le> tree_depth m \<Longrightarrow> unat (p ! k) = unat x div 2 ^ k"
    using direct_pathD [OF assms] by metis
  show "map (\<lambda>n. n div 2) (butlast p) = tl p"
  proof (rule nth_equalityI)
    fix i assume "i < length (map (\<lambda>n. n div 2) (butlast p))"
    then have "unat (p ! i div 2) = unat (p ! Suc i)"
      using len nth [of i] nth [of "Suc i"] by (simp add: unat_div div_level_Suc del: power_Suc)
    then show "map (\<lambda>n. n div 2) (butlast p) ! i = tl p ! i"
      using \<open>i < _\<close> len by (simp add: nth_butlast nth_tl word_unat_eq_iff)
  qed simp
  have "2 \<le> unat (p ! k)" if "k < tree_depth m" for k
    using at_level_div [OF leaf_node_level [OF x], of k] that nth [of k] at_level_Suc_bound
    by (metis Suc_diff_Suc less_imp_le)
  then show "\<forall>n \<in> set (butlast p). 2 \<le> unat n"
    using len by (auto simp: in_set_conv_nth nth_butlast)
qed

lemma resolve_targets_total:
  assumes t: "tree_wf t" and p: "direct_path (pt_mode t) slot = Inr p"
  shows "\<exists>ts. resolve_update_path_targets t slot ex = Inr ts \<and>
    set ts = (\<Union>n \<in> set (butlast p). node_targets t ex n) \<and> distinct (map target_key ts)"
proof -
  have len: "length p = Suc (tree_depth (pt_mode t))" "last p = 1"
    using direct_path_nodes [OF p] by simp_all
  have valid: "\<forall>n \<in> set (butlast p). 2 \<le> unat n \<and> unat n < length (nodes t)"
    using direct_path_halves(2) [OF p] direct_path_nodes(4) [OF p] in_set_butlastD [of _ p]
    unfolding tree_wf_capacity(3) [OF t] by blast
  have halves: "distinct (map (\<lambda>n. n div 2) (butlast p))"
    unfolding direct_path_halves(1) [OF p] using direct_path_nodes(2) [OF p] by (rule distinct_tl)
  from resolve_path_loop_total [OF t valid halves] obtain ts where
    ts: "resolve_path_loop t ex (butlast p) = Inr ts"
      "set ts = (\<Union>n \<in> set (butlast p). node_targets t ex n)" "distinct (map target_key ts)"
    by blast
  have "\<not> list_ex (\<lambda>(a, b). target_key a = target_key b) (windows2 (sort_key target_key ts))"
    by (rule distinct_no_adjacent) (simp add: distinct_map_sort_key ts(3))
  moreover have "p \<noteq> []" "take (length p - 1) p = butlast p"
    using len by (auto simp: butlast_conv_take)
  ultimately have "resolve_update_path_targets t slot ex = Inr (sort_key target_key ts)"
    using ts(1) p len(2) direct_path_not_Lite [OF p]
    by (simp add: resolve_update_path_targets_def Let_def)
  then show ?thesis
    using ts(2,3) by (simp add: distinct_map_sort_key)
qed

text \<open>A target of the node at level \<open>k\<close> lies under the sibling, so only leaves that part at \<open>k\<close> are below it.\<close>

lemma node_targetsD:
  assumes t: "tree_wf t" and n: "2 \<le> unat n" "unat n < length (nodes t)" and a: "a \<in> node_targets t ex n"
  shows "parent_node_index a = n div 2" and "target_node_index a \<notin> set ex"
    and "node_key (nodes t ! unat (target_node_index a)) = Some (target_node_key a)"
    and "covers (node_sibling (unat n)) (unat (target_node_index a))"
    and "unat (target_node_index a) < length (nodes t)"
proof -
  from path_node_resolved [OF t n, of ex] obtain s ts where
    "resolves t ex (node_sibling (unat n)) ts" "node_targets t ex n = path_target n ` set ts"
    by (elim exE conjE)
  then show "parent_node_index a = n div 2" "target_node_index a \<notin> set ex"
    "node_key (nodes t ! unat (target_node_index a)) = Some (target_node_key a)"
    "covers (node_sibling (unat n)) (unat (target_node_index a))"
    "unat (target_node_index a) < length (nodes t)"
    using a by (auto simp: resolves_def)
qed

lemma node_targets_reach:
  assumes t: "tree_wf t" and n: "2 \<le> unat n" "unat n < length (nodes t)"
    and cov: "covers (node_sibling (unat n)) y" and y: "reachable_leaf t ex y"
  shows "\<exists>!a. a \<in> node_targets t ex n \<and> covers (unat (target_node_index a)) y"
proof -
  from path_node_resolved [OF t n, of ex] obtain s ts where
    ts: "resolves t ex (node_sibling (unat n)) ts" "node_targets t ex n = path_target n ` set ts"
    by (elim exE conjE)
  obtain r where r: "r \<in> set ts" "covers (unat (rt_node_index r)) y"
    using ts(1) cov y unfolding resolves_def by blast
  have "r' = r" if "r' \<in> set ts" "covers (unat (rt_node_index r')) y" for r'
    using ts(1) r that y unfolding resolves_def reachable_leaf_def by blast
  then have "a = path_target n r" if "a \<in> path_target n ` set ts" "covers (unat (target_node_index a)) y" for a
    using that by auto
  then show ?thesis
    unfolding ts(2) using r by (intro ex1I [of _ "path_target n r"]) auto
qed

text \<open>Where two paths part: the level, the sibling there, and the node above it that they share.\<close>

lemma direct_paths_part:
  assumes p: "direct_path m slot = Inr p" and q: "direct_path m other = Inr q" and ne: "other \<noteq> slot"
    and y: "leaf_node_index m other = Inr y"
  shows "\<exists>k < tree_depth m. covers (node_sibling (unat (p ! k))) (unat y) \<and>
    (\<forall>j < tree_depth m. covers (node_sibling (unat (p ! j))) (unat y) \<longrightarrow> j = k) \<and>
    p ! k div 2 \<in> set p \<inter> set q"
proof -
  obtain x where x: "leaf_node_index m slot = Inr x" and lenp: "length p = Suc (tree_depth m)"
    and nth: "\<And>k. k \<le> tree_depth m \<Longrightarrow> unat (p ! k) = unat x div 2 ^ k"
    using direct_pathD [OF p] by metis
  have lx: "at_level (tree_depth m) (unat x)" and ly: "at_level (tree_depth m) (unat y)"
    and "unat x \<noteq> unat y"
    using leaf_node_level [OF x] leaf_node_level [OF y] x y ne
    by (auto simp: leaf_node_index_iff word_unat_eq_iff [of other])
  then obtain k where k: "k < tree_depth m" "unat y div 2 ^ k = node_sibling (unat x div 2 ^ k)"
      "\<And>j. unat x div 2 ^ j = unat y div 2 ^ j \<longleftrightarrow> k < j"
    using paths_part by blast
  have "j = k" if j: "j < tree_depth m" and cov: "covers (node_sibling (unat (p ! j))) (unat y)" for j
  proof -
    obtain i where "i \<le> tree_depth m" "unat y div 2 ^ i = node_sibling (unat (p ! j))"
      using covers_level [OF ly cov] by blast
    then show ?thesis
      using parting_sibling [OF lx ly k j] nth [of j] j by (metis less_imp_le)
  qed
  moreover have "0 < node_sibling (unat (p ! k))"
    using at_level_div [OF ly, of k] k(1,2) nth [of k] by (auto simp: at_level_def intro: Nat.gr0I)
  then have "covers (node_sibling (unat (p ! k))) (unat y)"
    using k(1,2) nth [of k] by (auto simp: covers_def)
  moreover have suc: "unat (p ! k div 2) = unat x div 2 ^ Suc k"
    using nth [of k] k(1) by (simp add: unat_div div_level_Suc del: power_Suc)
  then have "p ! k div 2 = p ! Suc k"
    using nth [of "Suc k"] k(1) by (simp add: word_unat_eq_iff)
  then have "p ! k div 2 \<in> set p"
    using lenp k(1) by simp
  moreover have "covers (unat (p ! k div 2)) (unat y)"
    unfolding suc using k(3) [of "Suc k"] at_level_div [OF lx, of "Suc k"] k(1)
    by (auto simp: covers_def at_level_def simp del: power_Suc intro: Nat.gr0I)
  then have "p ! k div 2 \<in> set q"
    by (simp add: direct_path_mem_iff [OF q y])
  ultimately show ?thesis
    using k(1) by blast
qed

lemma targets_of_other_leaf:
  assumes t: "tree_wf t" and p: "direct_path (pt_mode t) slot = Inr p"
    and q: "direct_path (pt_mode t) other = Inr q" and ne: "other \<noteq> slot"
    and valid: "\<And>k. k < tree_depth (pt_mode t) \<Longrightarrow> 2 \<le> unat (p ! k) \<and> unat (p ! k) < length (nodes t)"
    and mem: "\<And>a. a \<in> set ts \<longleftrightarrow> (\<exists>k < tree_depth (pt_mode t). a \<in> node_targets t ex (p ! k))"
  shows "(reachable_leaf t ex (unat (hd q)) \<longrightarrow> (\<exists>!a. a \<in> set ts \<and> target_node_index a \<in> set q)) \<and>
    (\<forall>a \<in> set ts. target_node_index a \<in> set q \<longrightarrow> parent_node_index a \<in> set p \<inter> set q)"
proof -
  obtain y where y: "leaf_node_index (pt_mode t) other = Inr y"
    using direct_path_leaf [OF q] by blast
  have hd: "unat (hd q) = unat y"
    using direct_pathD [OF q] y by (metis Inr_inject div_by_1 hd_conv_nth le0 list.size(3) nat.distinct(1) power_0)
  note in_q = direct_path_mem_iff [OF q y]
  obtain k where k: "k < tree_depth (pt_mode t)" "covers (node_sibling (unat (p ! k))) (unat y)"
      "\<And>j. j < tree_depth (pt_mode t) \<Longrightarrow> covers (node_sibling (unat (p ! j))) (unat y) \<Longrightarrow> j = k"
      "p ! k div 2 \<in> set p \<inter> set q"
    using direct_paths_part [OF p q ne y] by blast
  have at_k: "a \<in> set ts \<and> target_node_index a \<in> set q \<longleftrightarrow>
      a \<in> node_targets t ex (p ! k) \<and> covers (unat (target_node_index a)) (unat y)" for a
  proof
    assume a: "a \<in> set ts \<and> target_node_index a \<in> set q"
    then obtain j where j: "j < tree_depth (pt_mode t)" "a \<in> node_targets t ex (p ! j)"
      using mem by blast
    have "covers (node_sibling (unat (p ! j))) (unat y)"
      using node_targetsD(4) [OF t _ _ j(2)] valid [OF j(1)] a in_q covers_trans by blast
    then show "a \<in> node_targets t ex (p ! k) \<and> covers (unat (target_node_index a)) (unat y)"
      using k(3) [OF j(1)] j(2) a in_q by blast
  next
    assume "a \<in> node_targets t ex (p ! k) \<and> covers (unat (target_node_index a)) (unat y)"
    then show "a \<in> set ts \<and> target_node_index a \<in> set q"
      using mem k(1) in_q by blast
  qed
  have "\<exists>!a. a \<in> set ts \<and> target_node_index a \<in> set q" if "reachable_leaf t ex (unat (hd q))"
    unfolding at_k using node_targets_reach [OF t _ _ k(2)] valid [OF k(1)] that hd by simp
  moreover have "parent_node_index a \<in> set p \<inter> set q" if "a \<in> set ts" "target_node_index a \<in> set q" for a
  proof -
    have "a \<in> node_targets t ex (p ! k)"
      using at_k that by blast
    then show ?thesis
      using node_targetsD(1) [OF t] valid [OF k(1)] k(4) by metis
  qed
  ultimately show ?thesis
    by blast
qed

lemma resolved_targets:
  assumes t: "tree_wf t" and p: "direct_path (pt_mode t) slot = Inr p"
    and res: "resolve_update_path_targets t slot ex = Inr ts"
  shows "\<And>a. a \<in> set ts \<Longrightarrow> target_node_index a \<notin> set ex \<and>
      node_key (nodes t ! unat (target_node_index a)) = Some (target_node_key a)"
    and "\<And>other q. other \<noteq> slot \<Longrightarrow> direct_path (pt_mode t) other = Inr q \<Longrightarrow>
      (reachable_leaf t ex (unat (hd q)) \<longrightarrow> (\<exists>!a. a \<in> set ts \<and> target_node_index a \<in> set q)) \<and>
      (\<forall>a \<in> set ts. target_node_index a \<in> set q \<longrightarrow> parent_node_index a \<in> set p \<inter> set q)"
proof -
  have ts: "set ts = (\<Union>n \<in> set (butlast p). node_targets t ex n)"
    using resolve_targets_total [OF t p, of ex] res by auto
  have len: "length p = Suc (tree_depth (pt_mode t))"
    using direct_path_nodes(1) [OF p] .
  have valid: "2 \<le> unat (p ! k) \<and> unat (p ! k) < length (nodes t)" if "k < tree_depth (pt_mode t)" for k
  proof -
    have "p ! k \<in> set (butlast p)"
      using that len by (metis diff_Suc_1 length_butlast nth_butlast nth_mem)
    then show ?thesis
      using direct_path_halves(2) [OF p] direct_path_nodes(4) [OF p] in_set_butlastD [of "p ! k" p]
      unfolding tree_wf_capacity(3) [OF t] by blast
  qed
  have mem: "a \<in> set ts \<longleftrightarrow> (\<exists>k < tree_depth (pt_mode t). a \<in> node_targets t ex (p ! k))" for a
  proof -
    have "set (butlast p) = (!) p ` {0..<tree_depth (pt_mode t)}"
      using nth_image [of "tree_depth (pt_mode t)" p] len by (simp add: butlast_conv_take)
    then show ?thesis
      unfolding ts by auto
  qed
  show "target_node_index a \<notin> set ex \<and>
      node_key (nodes t ! unat (target_node_index a)) = Some (target_node_key a)" if "a \<in> set ts" for a
    using that valid node_targetsD(2,3) [OF t] mem by blast
  show "(reachable_leaf t ex (unat (hd q)) \<longrightarrow> (\<exists>!a. a \<in> set ts \<and> target_node_index a \<in> set q)) \<and>
      (\<forall>a \<in> set ts. target_node_index a \<in> set q \<longrightarrow> parent_node_index a \<in> set p \<inter> set q)"
    if "other \<noteq> slot" and q: "direct_path (pt_mode t) other = Inr q" for other q
    using targets_of_other_leaf [OF t p q that(1) valid mem] .
qed

section \<open>Wrapped secrets can be recovered\<close>

text \<open>What the holder of a decapsulation key computes from a path ciphertext.\<close>

definition unwrap_path_secret ::
    "CryptoPrims \<Rightarrow> bytes \<Rightarrow> TreeKemWrapContext \<Rightarrow> PathCiphertext \<Rightarrow> GroupError + Secret32" where
  "unwrap_path_secret P dk context c =
     (let wrap = wrap_context context (ct_parent_node_index c) (ct_target_node_index c) in
      rbind (map_err (\<lambda>_. GE_InvalidTreePath) (mlkem_decapsulate P dk (kem_ciphertext c))) (\<lambda>shared.
      rbind (derive_wrap_key P wrap shared) (\<lambda>wrap_key.
        map_err (\<lambda>_. GE_InvalidTreePath)
          (aead_open P wrap_key (replicate 12 0) (wrap @ kem_ciphertext c) (wrapped_path_secret c)))))"

definition wrap_context_ok :: "TreeKemWrapContext \<Rightarrow> bool" where
  "wrap_context_ok w \<longleftrightarrow> length (wc_group_id w) = 32 \<and> length (wc_commit_nonce w) = 32 \<and>
     length (wc_tree_hash w) = 64"

lemma length_wrap_context: "wrap_context_ok w \<Longrightarrow> length (wrap_context w a b) = 153"
  by (simp add: wrap_context_def wrap_context_ok_def u64_be_def u32_be_def)

lemma wrap_path_secret_total:
  assumes P: "kdf_ok P" "aead_ok P" "kem_ok P" and w: "wrap_context_ok w"
    and key: "p_mlkem_ek_valid P key" and secret: "length secret = 32"
  shows "\<exists>c. wrap_path_secret P w parent target key secret = Inr c"
proof -
  let ?w = "wrap_context w parent target"
  have lp: "lp ?w = Inr (be_bytes 4 (of_nat 153 :: u32) @ ?w)"
    using length_wrap_context [OF w] by (simp add: lp_total u32_max_def)
  obtain lab where lab: "lp LABEL_WRAP_ENTROPY = Inr lab"
    by (simp add: lp_total LABEL_WRAP_ENTROPY_def u32_max_def)
  obtain lab' where lab': "lp LABEL_WRAP_KEY = Inr lab'"
    by (simp add: lp_total LABEL_WRAP_KEY_def u32_max_def)
  have expand: "\<exists>out. hkdf_expand P k i 32 = Inr out \<and> length out = 32" if "length k = 32" for k i
    using hkdf_expand_total [OF P(1) that, of 32 i] hkdf_expand_length [OF P(1)] by auto
  obtain ent where ent: "derive_wrap_entropy P ?w = Inr ent"
    using expand [of "replicate 32 0"] lp lab by (auto simp: derive_wrap_entropy_def result_simps)
  obtain ct shared where ct: "p_mlkem_encapsulate P key ent = (ct, shared)"
    by (cases "p_mlkem_encapsulate P key ent")
  obtain c where c: "lp ?w = Inr c"
    using lp by blast
  obtain wk where wk: "derive_wrap_key P ?w shared = Inr wk"
    using expand [of "hkdf_extract P (sha3_512 P (LABEL_WRAP_SALT @ SUITE_ID @ c)) shared" "lab' @ c"]
    by (auto simp: derive_wrap_key_def Let_def lab' c hkdf_extract_length [OF P(1)])
  obtain sealed where sealed: "aead_seal P wk (replicate 12 0) (?w @ ct) secret = Inr sealed"
    using aead_seal_total [OF P(2), of "replicate 12 0" secret] secret by (auto simp: AEAD_MESSAGE_LIMIT_def)
  then have "length sealed = WRAPPED_PATH_SECRET_SIZE"
    using aead_seal_length [OF P(2)] secret by simp
  then show ?thesis
    using ent ct wk sealed key by (simp add: wrap_path_secret_def deterministic_encapsulate_def Let_def)
qed

lemma wrap_path_secretD:
  assumes "wrap_path_secret P w parent target key secret = Inr c"
  shows "ct_parent_node_index c = parent" and "ct_target_node_index c = target"
  using assms by (auto simp: wrap_path_secret_def Let_def result_simps)

lemma unwrap_wrap:
  assumes P: "aead_ok P" "kem_ok P" and key: "p_mlkem_from_seed P seed = (dk, key)"
    and wrap: "wrap_path_secret P w parent target key secret = Inr c"
  shows "unwrap_path_secret P dk w c = Inr secret"
proof -
  let ?w = "wrap_context w parent target"
  obtain ent shared wk where ct: "p_mlkem_encapsulate P key ent = (kem_ciphertext c, shared)"
    and wk: "derive_wrap_key P ?w shared = Inr wk"
    and sealed: "aead_seal P wk (replicate 12 0) (?w @ kem_ciphertext c) secret = Inr (wrapped_path_secret c)"
    using wrap by (auto simp: wrap_path_secret_def deterministic_encapsulate_def Let_def result_simps)
  have "mlkem_decapsulate P dk (kem_ciphertext c) = Inr shared"
    using P(2) key ct unfolding kem_ok_def mlkem_decapsulate_def by auto
  moreover have "aead_open P wk (replicate 12 0) (?w @ kem_ciphertext c) (wrapped_path_secret c) = Inr secret"
    using aead_open_iff [OF P(1)] sealed by blast
  ultimately show ?thesis
    using wk wrap_path_secretD [OF wrap] by (simp add: unwrap_path_secret_def Let_def)
qed

section \<open>Properties of the distribution\<close>

text \<open>C24: The targets of an update path reach every other member exactly once and no excluded one. For
  a well-formed tree and a committer's slot the resolution succeeds; every target is a node that is not
  excluded, with the key the tree holds for it; a leaf other than the committer's that is occupied,
  keyed and not excluded has exactly one target on its direct path, and the secret sent there is the
  one of a node both paths share; and when every keyed node above a leaf is excluded, as after a
  removal, no target is on that leaf's path.\<close>

theorem update_path_reaches_members:
  assumes t: "tree_wf t" and p: "direct_path (pt_mode t) slot = Inr p"
  shows "\<exists>ts. resolve_update_path_targets t slot excluded = Inr ts \<and>
    (\<forall>a \<in> set ts. target_node_index a \<notin> set excluded \<and>
       node_key (nodes t ! unat (target_node_index a)) = Some (target_node_key a)) \<and>
    (\<forall>other q. other \<noteq> slot \<and> direct_path (pt_mode t) other = Inr q \<longrightarrow>
       (reachable_leaf t excluded (unat (hd q)) \<longrightarrow>
          (\<exists>!a. a \<in> set ts \<and> target_node_index a \<in> set q)) \<and>
       (\<forall>a \<in> set ts. target_node_index a \<in> set q \<longrightarrow>
          parent_node_index a \<in> set p \<inter> set q) \<and>
       ((\<forall>n \<in> set q. node_key (nodes t ! unat n) \<noteq> None \<longrightarrow> n \<in> set excluded) \<longrightarrow>
          (\<forall>a \<in> set ts. target_node_index a \<notin> set q)))"
proof -
  obtain ts where ts: "resolve_update_path_targets t slot excluded = Inr ts"
    using resolve_targets_total [OF t p] by blast
  note node = resolved_targets(1) [OF t p ts] and reach = resolved_targets(2) [OF t p ts]
  show ?thesis
  proof (intro exI [of _ ts] conjI allI impI)
    show "resolve_update_path_targets t slot excluded = Inr ts" by (rule ts)
    show "\<forall>a \<in> set ts. target_node_index a \<notin> set excluded \<and>
        node_key (nodes t ! unat (target_node_index a)) = Some (target_node_key a)"
      using node by blast
  next
    fix other q assume "other \<noteq> slot \<and> direct_path (pt_mode t) other = Inr q"
    then show "\<forall>a \<in> set ts. target_node_index a \<in> set q \<longrightarrow> parent_node_index a \<in> set p \<inter> set q"
      using reach by blast
  next
    fix other q assume "other \<noteq> slot \<and> direct_path (pt_mode t) other = Inr q"
      and "reachable_leaf t excluded (unat (hd q))"
    then show "\<exists>!a. a \<in> set ts \<and> target_node_index a \<in> set q"
      using reach by blast
  next
    fix other q assume "\<forall>n \<in> set q. node_key (nodes t ! unat n) \<noteq> None \<longrightarrow> n \<in> set excluded"
    then show "\<forall>a \<in> set ts. target_node_index a \<notin> set q"
      using node by (metis option.discI)
  qed
qed

text \<open>A tree whose leaves 0 to 2 are occupied, with the keys of the inner nodes still absent.\<close>

definition toy_leaf :: "u8 \<Rightarrow> PublicLeaf" where
  "toy_leaf n = \<lparr>leaf_member_id = replicate 32 n, leaf_fingerprint = replicate 32 n, leaf_role = Member,
     generation = 0, leaf_node_key = Some (replicate 1184 n)\<rparr>"

definition toy_nodes :: "PublicTreeNode list" where
  "toy_nodes = map (\<lambda>i. \<lparr>node_index = of_nat i,
     node_key = (if i \<in> {256, 257, 258} then leaf_node_key (toy_leaf 7) else None),
     leaf = (if i \<in> {256, 257, 258} then Some (toy_leaf 7) else None)\<rparr>) [0..<512]"

definition toy_tree :: PublicTree where
  "toy_tree = \<lparr>pt_mode = GM_Interactive, leaf_capacity = 256, tree_version = 3, pt_epoch = Some 1,
     nodes = toy_nodes\<rparr>"

lemma toy_tree_ok: "tree_ok toy_tree"
  by (auto simp: tree_ok_def tree_wf_def toy_tree_def toy_nodes_def leaf_capacity_for_mode_def
      unat_of_nat node_ok_def toy_leaf_def)

lemma toy_tree_leaf: "y \<in> {256, 257, 258} \<Longrightarrow> y \<notin> unat ` set ex \<Longrightarrow> reachable_leaf toy_tree ex y"
  by (auto simp: reachable_leaf_def toy_tree_def toy_nodes_def toy_leaf_def at_level_def)

lemma toy_direct_path:
  "unat slot < 256 \<Longrightarrow> \<exists>p. direct_path GM_Interactive slot = Inr p \<and> unat (hd p) = 256 + unat slot"
proof -
  assume slot: "unat slot < 256"
  then have "leaf_node_index GM_Interactive slot = Inr (256 + slot)"
    by (simp add: leaf_node_index_iff unat_word_ariths)
  then obtain p where p: "direct_path GM_Interactive slot = Inr p"
      "map unat p = map (\<lambda>k. unat (256 + slot) div 2 ^ k) [0..<Suc 8]"
    using direct_path_closed by (metis tree_depth.simps(1))
  then have "unat (p ! 0) = unat (256 + slot)" "length p = 9"
    using map_unat_nth [OF p(2)] by simp_all
  then show ?thesis
    using p(1) slot by (intro exI [of _ p]) (simp add: hd_conv_nth unat_word_ariths flip: length_greater_0_conv)
qed

theorem update_path_reaches_members_witness:
  "\<exists>ts q. resolve_update_path_targets toy_tree 0 [257] = Inr ts \<and> direct_path GM_Interactive 2 = Inr q \<and>
    (\<exists>!a. a \<in> set ts \<and> target_node_index a \<in> set q)"
proof -
  obtain p where p: "direct_path (pt_mode toy_tree) 0 = Inr p"
    using toy_direct_path [of 0] by (auto simp: toy_tree_def)
  obtain q where q: "direct_path GM_Interactive 2 = Inr q" "unat (hd q) = 258"
    using toy_direct_path [of 2] by auto
  have "reachable_leaf toy_tree [257] (unat (hd q))"
    using q(2) by (simp add: toy_tree_leaf)
  moreover have "tree_wf toy_tree"
    using toy_tree_ok by (simp add: tree_ok_def)
  moreover have "pt_mode toy_tree = GM_Interactive" "(2 :: u32) \<noteq> 0"
    by (simp_all add: toy_tree_def)
  ultimately show ?thesis
    using update_path_reaches_members [OF _ p, of "[257]"] q(1) by metis
qed

end
