(* ===== verification/Group_Delivery.thy ===== *)
theory Group_Delivery
  imports Group_Distribution
begin

text \<open>
  Path updates end to end: \<open>derive_and_install_path\<close> (\<open>private_path/\<close>) followed by
  \<open>encrypt_path_updates\<close> (\<open>distribution/\<close>). The lemmas show that the subtrees hanging off a path are
  disjoint, so that the targets of an update path fit its 16-bit count, that every target's secret is on
  the private path, and that the encryption of a derived path therefore always succeeds.
\<close>

section \<open>The subtrees off a path are disjoint\<close>

lemma path_siblings_apart:
  assumes p: "direct_path m slot = Inr p" and jk: "j < k" "k < tree_depth m"
    and cov: "covers (node_sibling (unat (p ! j))) n" "covers (node_sibling (unat (p ! k))) n"
  shows False
proof -
  let ?d = "tree_depth m"
  obtain x where x: "leaf_node_index m slot = Inr x"
    and nth: "\<And>k. k \<le> ?d \<Longrightarrow> unat (p ! k) = unat x div 2 ^ k"
    using direct_pathD [OF p] by metis
  have level: "at_level (?d - i) (unat (p ! i))" "at_level (?d - i) (node_sibling (unat (p ! i)))" if "i < ?d" for i
  proof -
    show l: "at_level (?d - i) (unat (p ! i))"
      using at_level_div [OF leaf_node_level [OF x], of i] nth [of i] that by simp
    show "at_level (?d - i) (node_sibling (unat (p ! i)))"
      using l that at_level_sibling by (metis Suc_diff_Suc)
  qed
  obtain a b where ab: "n div 2 ^ a = node_sibling (unat (p ! j))" "n div 2 ^ b = node_sibling (unat (p ! k))"
    using cov by (auto simp: covers_def)
  have small: "node_sibling (unat (p ! k)) < node_sibling (unat (p ! j))"
  proof -
    have "(2 :: nat) ^ Suc (?d - k) \<le> 2 ^ (?d - j)"
      using jk by (intro power_increasing) auto
    then show ?thesis
      using level(2) [of j] level(2) [of k] jk unfolding at_level_def by linarith
  qed
  have "a < b"
  proof (rule ccontr)
    assume "\<not> a < b"
    then have "node_sibling (unat (p ! j)) = node_sibling (unat (p ! k)) div 2 ^ (a - b)"
      using ab by (metis div_mult2_eq le_add_diff_inverse not_less power_add)
    then show False
      using small div_le_dividend by (metis not_less)
  qed
  then have up: "node_sibling (unat (p ! k)) = node_sibling (unat (p ! j)) div 2 ^ (b - a)"
    using ab by (metis div_mult2_eq le_add_diff_inverse less_imp_le power_add)
  have le: "b - a \<le> ?d - j"
  proof (rule ccontr)
    assume "\<not> b - a \<le> ?d - j"
    then have "(2 :: nat) ^ Suc (?d - j) \<le> 2 ^ (b - a)"
      by (intro power_increasing) auto
    then have "node_sibling (unat (p ! j)) < 2 ^ (b - a)"
      using level(2) [of j] jk unfolding at_level_def by linarith
    then show False
      using up cov(2) by (simp add: covers_def)
  qed
  then have "at_level (?d - j - (b - a)) (node_sibling (unat (p ! k)))"
    using at_level_div [OF level(2) [of j] le] jk up by simp
  then have "?d - j - (b - a) = ?d - k"
    using at_level_unique level(2) [of k] jk by blast
  then have "b - a = Suc (k - j - 1)"
    using le jk by simp
  then have "node_sibling (unat (p ! j)) div 2 ^ (b - a) = node_sibling (unat (p ! j)) div 2 div 2 ^ (k - j - 1)"
    by (simp add: div_mult2_eq)
  also have "\<dots> = unat (p ! j) div 2 ^ Suc (k - j - 1)"
    by (simp add: node_sibling_parent div_mult2_eq)
  also have "\<dots> = unat x div 2 ^ k"
    using nth [of j] jk by (simp flip: power_Suc div_mult2_eq power_add)
  finally have "node_sibling (unat (p ! k)) = unat (p ! k)"
    using up nth [of k] jk by simp
  moreover have "0 < unat (p ! k)"
    using level(1) [of k] jk by (auto simp: at_level_def intro: Nat.gr0I)
  ultimately show False
    using node_sibling_neq by blast
qed

lemma targets_distinct:
  assumes t: "tree_wf t" and p: "direct_path (pt_mode t) slot = Inr p"
    and ts: "set ts = (\<Union>n \<in> set (butlast p). node_targets t ex n)" "distinct (map target_key ts)"
  shows "distinct (map target_node_index ts)" and "length ts \<le> 16384"
    and "\<forall>a \<in> set ts. parent_node_index a \<in> set (tl p)"
    and "\<forall>a \<in> set ts. unat (target_node_index a) < length (nodes t)"
proof -
  let ?d = "tree_depth (pt_mode t)"
  have len: "length p = Suc ?d"
    using direct_path_nodes(1) [OF p] .
  have level: "\<exists>k < ?d. a \<in> node_targets t ex (p ! k) \<and> 2 \<le> unat (p ! k) \<and> unat (p ! k) < length (nodes t) \<and>
      p ! k \<in> set (butlast p)"
    if "a \<in> set ts" for a
  proof -
    obtain n where n: "n \<in> set (butlast p)" "a \<in> node_targets t ex n"
      using \<open>a \<in> set ts\<close> ts(1) by blast
    then obtain k where "k < ?d" "p ! k = n"
      using len by (auto simp: in_set_conv_nth nth_butlast)
    then show ?thesis
      using n direct_path_halves(2) [OF p] direct_path_nodes(4) [OF p] in_set_butlastD [of n p]
      unfolding tree_wf_capacity(3) [OF t] by blast
  qed
  have same: "parent_node_index a = parent_node_index b"
    if ab: "a \<in> set ts" "b \<in> set ts" "target_node_index a = target_node_index b" for a b
  proof -
    obtain j k where j: "j < ?d" "a \<in> node_targets t ex (p ! j)" "2 \<le> unat (p ! j)" "unat (p ! j) < length (nodes t)"
      and k: "k < ?d" "b \<in> node_targets t ex (p ! k)" "2 \<le> unat (p ! k)" "unat (p ! k) < length (nodes t)"
      using level [OF ab(1)] level [OF ab(2)] by blast
    have cov: "covers (node_sibling (unat (p ! j))) (unat (target_node_index a))"
      "covers (node_sibling (unat (p ! k))) (unat (target_node_index a))"
      using node_targetsD(4) [OF t j(3,4,2)] node_targetsD(4) [OF t k(3,4,2)] ab(3) by simp_all
    have "j = k"
      using path_siblings_apart [OF p _ k(1) cov] path_siblings_apart [OF p _ j(1) cov(2,1)] by (metis nat_neq_iff)
    then show ?thesis
      using node_targetsD(1) [OF t j(3,4,2)] node_targetsD(1) [OF t k(3,4,2)] by simp
  qed
  have "a = b" if "a \<in> set ts" "b \<in> set ts" "target_node_index a = target_node_index b" for a b
    using inj_onD [of target_key "set ts" a b] ts(2) that same [OF that] by (simp add: distinct_map target_key_def)
  then show d: "distinct (map target_node_index ts)"
    using ts(2) unfolding distinct_map inj_on_def by blast
  show bound: "\<forall>a \<in> set ts. unat (target_node_index a) < length (nodes t)"
    using level node_targetsD(5) [OF t] by blast
  then have "(unat \<circ> target_node_index) ` set ts \<subseteq> {..<length (nodes t)}"
    by auto
  moreover have "distinct (map (unat \<circ> target_node_index) ts)"
    using d by (simp add: distinct_map inj_on_def word_unat_eq_iff)
  ultimately have "length ts \<le> length (nodes t)"
    by (metis card_lessThan card_mono distinct_card finite_lessThan length_map list.set_map)
  then show "length ts \<le> 16384"
    using tree_wf_capacity(2-4) [OF t] by simp
  show "\<forall>a \<in> set ts. parent_node_index a \<in> set (tl p)"
  proof
    fix a assume "a \<in> set ts"
    then obtain k where "p ! k \<in> set (butlast p)" "parent_node_index a = p ! k div 2"
      using level node_targetsD(1) [OF t] by metis
    then show "parent_node_index a \<in> set (tl p)"
      unfolding direct_path_halves(1) [OF p, symmetric] by auto
  qed
qed

section \<open>Encrypting a derived path\<close>

text \<open>Every key of the tree is one the key encapsulation accepts.\<close>

definition keys_valid :: "CryptoPrims \<Rightarrow> PublicTree \<Rightarrow> bool" where
  "keys_valid P t \<longleftrightarrow> (\<forall>n \<in> set (nodes t). \<forall>k. node_key n = Some k \<longrightarrow> p_mlkem_ek_valid P k)"

lemma install_keys_valid:
  assumes P: "kem_ok P" and t: "keys_valid P t"
  shows "keys_valid P (foldl install_key t (map (public_part P) ss))"
  using t
proof (induction ss arbitrary: t)
  case (Cons s ss)
  have "p_mlkem_ek_valid P (dn_node_key (public_part P s))"
    using P unfolding kem_ok_def public_part_def public_node_key_from_private_node_seed_def
    by (metis PrivatePathNodeSecret.ext_inject DerivedPublicPathNode.select_convs(2) prod.collapse)
  then have "keys_valid P (install_key t (public_part P s))"
    using Cons.prems set_update_subset_insert
    unfolding keys_valid_def install_key_def by fastforce
  then show ?case
    using Cons.IH by simp
qed simp

lemma derive_path_loop_secrets:
  assumes P: "kdf_ok P" and run: "derive_path_loop P c ns s t = Inr (secrets, updated, last_secret, t')"
  shows "\<forall>x \<in> set secrets. length (path_secret x) = 32"
  using run
proof (induction ns arbitrary: s t secrets updated)
  case (Cons n ns)
  from Cons.prems obtain nc ps d z t1 secrets1 updated1 where
    ps: "derive_path_secret32 P s LABEL_TREE_PATH nc = Inr ps" and
    rest: "derive_path_loop P c ns ps t1 = Inr (secrets1, updated1, last_secret, t')" and
    out: "secrets = \<lparr>pn_node_index = n, path_secret = ps, node_seed_d = d, node_seed_z = z\<rparr> # secrets1"
    by (auto simp: result_simps Let_def)
  have "length ps = 32"
    using ps hkdf_expand_length [OF P] by (auto simp: derive_path_secret32_def result_simps)
  then show ?case
    using Cons.IH [OF rest] out by simp
qed simp

text \<open>The result of \<open>encrypt_path_updates\<close> on a derived path: one ciphertext for each resolved target,
  holding the private path's secret of the target's parent.\<close>

definition wrapped_for ::
    "CryptoPrims \<Rightarrow> PrivatePath \<Rightarrow> TreeKemWrapContext \<Rightarrow> PathSecretTarget \<Rightarrow> PathCiphertext \<Rightarrow> bool" where
  "wrapped_for P pp w a c \<longleftrightarrow> (\<exists>secret. private_path_secret pp (parent_node_index a) = Inr secret \<and>
     wrap_path_secret P w (parent_node_index a) (target_node_index a) (target_node_key a) secret = Inr c)"

lemma wrapped_forD:
  "wrapped_for P pp w a c \<Longrightarrow> ct_parent_node_index c = parent_node_index a \<and> ct_target_node_index c = target_node_index a"
  by (auto simp: wrapped_for_def wrap_path_secretD)

lemma wrap_targets:
  assumes P: "kdf_ok P" "aead_ok P" "kem_ok P" and w: "wrap_context_ok w"
    and d: "distinct (map pn_node_index (path pp))" "\<forall>x \<in> set (path pp). length (path_secret x) = 32"
    and a: "parent_node_index a \<in> set (node_indices pp)" "p_mlkem_ek_valid P (target_node_key a)"
  shows "\<exists>c. wrapped_for P pp w a c"
proof -
  obtain x where x: "x \<in> set (path pp)" "pn_node_index x = parent_node_index a"
    using a(1) by (auto simp: node_indices_def)
  then have "private_path_secret pp (parent_node_index a) = Inr (path_secret x)"
    using find_key_mem [OF d(1) x(1)] by (simp add: private_path_secret_def ok_or_def)
  then show ?thesis
    using wrap_path_secret_total [OF P w a(2)] d(2) x(1) unfolding wrapped_for_def by blast
qed

lemma encode_update_path_total:
  assumes "updated_nodes up \<noteq> []" and "distinct (map dn_node_index (updated_nodes up))"
    and "distinct (map ciphertext_key (path_ciphertexts up))"
    and "length (updated_nodes up) \<le> 65535" and "length (path_ciphertexts up) \<le> 65535"
  shows "\<exists>bs. encode_update_path up = Inr bs"
proof -
  have "sort_and_validate_updated_nodes (updated_nodes up) = Inr (sort_key dn_node_index (updated_nodes up))"
    using assms(1,2) distinct_no_adjacent [of dn_node_index "sort_key dn_node_index (updated_nodes up)"]
    by (simp add: sort_and_validate_updated_nodes_def Let_def distinct_map_sort_key)
  moreover have "sort_and_validate_path_ciphertexts (path_ciphertexts up) = Inr (sort_key ciphertext_key (path_ciphertexts up))"
    using assms(3) distinct_no_adjacent [of ciphertext_key "sort_key ciphertext_key (path_ciphertexts up)"]
    by (simp add: sort_and_validate_path_ciphertexts_def Let_def distinct_map_sort_key)
  ultimately show ?thesis
    using assms(4,5) by (simp add: encode_update_path_def checked_u16_be_def u16_try_from_def u16_max_def)
qed

lemma install_keys_reachable:
  assumes "reachable_leaf t ex y" and "y < length (nodes t)"
  shows "reachable_leaf (foldl install_key t ds) ex y"
  using assms
proof (induction ds arbitrary: t)
  case (Cons d ds)
  have "reachable_leaf (install_key t d) ex y"
    using Cons.prems by (auto simp: reachable_leaf_def nth_install_key) (simp_all add: install_key_def)
  then show ?case
    using Cons install_keys_frame(4) [of t "[d]"] by simp
qed simp

lemma derived_tree:
  assumes "tree_wf t" and "derive_and_install_path P c s (t, pp) = (Inr u, (t', pp'))"
  shows "tree_wf t'" and "pt_mode t' = pt_mode t" and "reachable_leaf t ex y \<Longrightarrow> reachable_leaf t' ex y"
proof -
  obtain secrets last_secret where
    "derive_path_loop P c (pu_direct_path u) s t = Inr (secrets, pu_updated_nodes u, last_secret, t')"
    using derive_and_install_pathD [OF assms(2)] by metis
  then have "t' = foldl install_key t (pu_updated_nodes u)"
    using derive_path_loop_result [OF assms(1)] by blast
  then show "tree_wf t'" "pt_mode t' = pt_mode t" "reachable_leaf t ex y \<Longrightarrow> reachable_leaf t' ex y"
    using install_keys_wf [OF assms(1)] install_keys_reachable [of t ex y] tree_wf_capacity(3) [OF assms(1)]
    by (simp_all add: reachable_leaf_def at_level_def)
qed

lemma encrypt_derived_path:
  assumes P: "kdf_ok P" "aead_ok P" "kem_ok P" and t: "tree_wf t" "keys_valid P t"
    and run: "derive_and_install_path P c s (t, pp) = (Inr u, (t', pp'))"
    and w: "wrap_context_ok w" "wc_mode w = pt_mode t" "wc_tree_hash w = pu_tree_hash_after u"
  shows "\<exists>up ts g. encrypt_path_updates P t' pp' w u ex = Inr up \<and>
    resolve_update_path_targets t' (pc_leaf_slot c) ex = Inr ts \<and>
    set (path_ciphertexts up) = g ` set ts \<and> (\<forall>a \<in> set ts. wrapped_for P pp' w a (g a))"
proof -
  obtain secrets last_secret where direct: "parent_path (pt_mode t) (pc_leaf_slot c) = Inr (pu_direct_path u)"
    and loop: "derive_path_loop P c (pu_direct_path u) s t = Inr (secrets, pu_updated_nodes u, last_secret, t')"
    and pp: "pp' = \<lparr>leaf_index = Some (pc_leaf_slot c), path = secrets\<rparr>"
    and slot: "pu_leaf_slot u = pc_leaf_slot c"
    using derive_and_install_pathD [OF run] by metis
  note result = derive_path_loop_result [OF t(1) loop]
  have idx: "node_indices pp' = pu_direct_path u" "map pn_node_index (path pp') = pu_direct_path u"
    and upd: "pu_updated_nodes u = map (public_part P) secrets"
    and t': "t' = foldl install_key t (map (public_part P) secrets)"
    using result by (simp_all add: pp node_indices_def)
  have wf': "tree_wf t'" and mode: "pt_mode t' = pt_mode t" and valid: "keys_valid P t'"
    using derived_tree [OF t(1) run] install_keys_valid [OF P(3) t(2)] by (simp_all add: t')
  obtain p where p: "direct_path (pt_mode t') (pc_leaf_slot c) = Inr p" and tl: "tl p = node_indices pp'"
    using direct parent_path_eq mode idx by (fastforce simp: parent_path_def result_simps)
  obtain ts where ts: "resolve_update_path_targets t' (pc_leaf_slot c) ex = Inr ts"
      "set ts = (\<Union>n \<in> set (butlast p). node_targets t' ex n)" "distinct (map target_key ts)"
    using resolve_targets_total [OF wf' p] by blast
  note few = targets_distinct [OF wf' p ts(2,3)]
  have "p_mlkem_ek_valid P (target_node_key a)" if "a \<in> set ts" for a
    using resolved_targets(1) [OF wf' p ts(1) that] valid few(4) that nth_mem unfolding keys_valid_def by blast
  then have "\<forall>a \<in> set ts. \<exists>x. wrapped_for P pp' w a x"
    using wrap_targets [OF P w(1)] few(3) tl derive_path_loop_secrets [OF P(1) loop] idx
      parent_path_nodes(1) [OF direct] pp by simp
  then obtain g where g: "\<forall>a \<in> set ts. wrapped_for P pp' w a (g a)"
    by (rule bchoice [THEN exE])
  have map: "rmap (\<lambda>target. rbind (private_path_secret pp' (parent_node_index target)) (\<lambda>secret.
      wrap_path_secret P w (parent_node_index target) (target_node_index target)
        (target_node_key target) secret)) ts = Inr (map g ts)"
    using g by (intro rmap_total) (auto simp: wrapped_for_def)
  have "map ciphertext_key (map g ts) = map target_key ts"
    using g wrapped_forD by (auto simp: ciphertext_key_def target_key_def)
  then have d: "distinct (map ciphertext_key (map g ts))"
    using ts(3) by (simp only:)
  let ?cs = "sort_key ciphertext_key (map g ts)"
  have cs: "sort_and_validate_path_ciphertexts (map g ts) = Inr ?cs"
    using d distinct_no_adjacent [of ciphertext_key ?cs]
    by (simp only: sort_and_validate_path_ciphertexts_def Let_def distinct_map_sort_key) simp
  define up where "up = \<lparr>committer_leaf_index = pu_leaf_slot u, up_leaf_capacity = leaf_capacity t',
      updated_nodes = pu_updated_nodes u, path_ciphertexts = ?cs, candidate_tree_hash = pu_tree_hash_after u\<rparr>"
  have "map dn_node_index (pu_updated_nodes u) = pu_direct_path u"
    using result by (simp add: upd o_def public_part_def)
  moreover have "length (pu_updated_nodes u) \<le> 13" "pu_updated_nodes u \<noteq> []"
    using parent_path_nodes(2,4) [OF direct] tree_depth_bound [of "pt_mode t"] calculation
    by (metis length_map, metis list.map_disc_iff)
  ultimately obtain bs where "encode_update_path up = Inr bs"
    using encode_update_path_total [of up] d few(2) parent_path_nodes(1) [OF direct]
    by (simp only: up_def UpdatePath.select_convs distinct_map_sort_key) auto
  then have "encrypt_path_updates P t' pp' w u ex = Inr up"
    using w mode slot idx ts(1) map cs pp
    by (simp add: encrypt_path_updates_def up_def Let_def)
  then show ?thesis
    using ts(1) g by (intro exI [of _ up] exI [of _ ts] exI [of _ g]) (simp add: up_def)
qed

section \<open>Delivery\<close>

text \<open>C23: A path update reaches the group. When the keys of the tree are valid encapsulation keys, the
  encryption of a freshly derived path always succeeds; every other member whose leaf is occupied, keyed
  and not excluded finds exactly one ciphertext for a node on its own path; every ciphertext goes to a
  keyed node that is not excluded, and whoever holds the decapsulation key of that node recovers from it
  the private path's secret for the parent named in the ciphertext, which for a member's ciphertext is a
  node on the committer's path and on the member's.\<close>

theorem path_update_delivered:
  assumes P: "kdf_ok P" "aead_ok P" "kem_ok P" and t: "tree_wf t" "keys_valid P t"
    and run: "derive_and_install_path P c s (t, pp) = (Inr u, (t', pp'))"
    and w: "wrap_context_ok w" "wc_mode w = pt_mode t" "wc_tree_hash w = pu_tree_hash_after u"
  shows "\<exists>up. encrypt_path_updates P t' pp' w u excluded = Inr up \<and>
    (\<forall>x \<in> set (path_ciphertexts up). ct_target_node_index x \<notin> set excluded \<and>
       (\<exists>key secret. node_key (nodes t' ! unat (ct_target_node_index x)) = Some key \<and>
          private_path_secret pp' (ct_parent_node_index x) = Inr secret \<and>
          (\<forall>seed dk. p_mlkem_from_seed P seed = (dk, key) \<longrightarrow> unwrap_path_secret P dk w x = Inr secret))) \<and>
    (\<forall>other q. other \<noteq> pc_leaf_slot c \<and> direct_path (pt_mode t) other = Inr q \<and>
         reachable_leaf t excluded (unat (hd q)) \<longrightarrow>
       (\<exists>!x. x \<in> set (path_ciphertexts up) \<and> ct_target_node_index x \<in> set q) \<and>
       (\<forall>x \<in> set (path_ciphertexts up). ct_target_node_index x \<in> set q \<longrightarrow>
          ct_parent_node_index x \<in> set (node_indices pp') \<inter> set q))"
proof -
  obtain up ts g where up: "encrypt_path_updates P t' pp' w u excluded = Inr up"
    and ts: "resolve_update_path_targets t' (pc_leaf_slot c) excluded = Inr ts"
    and cs: "set (path_ciphertexts up) = g ` set ts" and wrapped: "\<forall>a \<in> set ts. wrapped_for P pp' w a (g a)"
    using encrypt_derived_path [OF P t run w, of excluded] by (elim exE conjE)
  note g = bspec [OF wrapped]
  have wf': "tree_wf t'" and mode: "pt_mode t' = pt_mode t"
    using derived_tree [OF t(1) run] by simp_all
  obtain p where p: "direct_path (pt_mode t') (pc_leaf_slot c) = Inr p"
    using ts by (auto simp: resolve_update_path_targets_def result_simps)
  note targets = resolved_targets [OF wf' p ts]
  have names: "ct_parent_node_index (g a) = parent_node_index a" "ct_target_node_index (g a) = target_node_index a"
    if "a \<in> set ts" for a
    using wrapped_forD [OF g [OF that]] by simp_all
  have recover: "ct_target_node_index x \<notin> set excluded \<and>
      (\<exists>key secret. node_key (nodes t' ! unat (ct_target_node_index x)) = Some key \<and>
         private_path_secret pp' (ct_parent_node_index x) = Inr secret \<and>
         (\<forall>seed dk. p_mlkem_from_seed P seed = (dk, key) \<longrightarrow> unwrap_path_secret P dk w x = Inr secret))"
    if x: "x \<in> set (path_ciphertexts up)" for x
  proof -
    obtain a where a: "a \<in> set ts" "x = g a"
      using x unfolding cs by (elim imageE)
    obtain secret where secret: "private_path_secret pp' (parent_node_index a) = Inr secret"
        "wrap_path_secret P w (parent_node_index a) (target_node_index a) (target_node_key a) secret = Inr x"
      using g [OF a(1)] unfolding wrapped_for_def a(2) by (elim exE conjE)
    have "unwrap_path_secret P dk w x = Inr secret" if "p_mlkem_from_seed P seed = (dk, target_node_key a)" for seed dk
      by (rule unwrap_wrap [OF P(2,3) that secret(2)])
    then show ?thesis
      using secret(1) names [OF a(1)] targets(1) [OF a(1)] a(2) by simp
  qed
  have parents: "parent_node_index a \<in> set (node_indices pp')" if "a \<in> set ts" for a
    using g [OF that] by (auto simp: wrapped_for_def private_path_secret_def result_simps node_indices_def
        dest!: find_SomeD intro: rev_image_eqI)
  have reach: "(\<exists>!x. x \<in> set (path_ciphertexts up) \<and> ct_target_node_index x \<in> set q) \<and>
      (\<forall>x \<in> set (path_ciphertexts up). ct_target_node_index x \<in> set q \<longrightarrow>
         ct_parent_node_index x \<in> set (node_indices pp') \<inter> set q)"
    if ne: "other \<noteq> pc_leaf_slot c" and q: "direct_path (pt_mode t) other = Inr q"
      and leaf: "reachable_leaf t excluded (unat (hd q))" for other q
  proof -
    note leaf' = derived_tree(3) [OF t(1) run leaf]
    note paths = targets(2) [OF ne q [folded mode]]
    obtain a where a: "a \<in> set ts" "target_node_index a \<in> set q"
        "\<And>b. b \<in> set ts \<Longrightarrow> target_node_index b \<in> set q \<Longrightarrow> b = a"
      using paths leaf' by (elim conjE) (erule impE, assumption, erule ex1E, blast)
    have only: "x = g a" if "x \<in> set (path_ciphertexts up)" "ct_target_node_index x \<in> set q" for x
      using that names a(3) unfolding cs by auto
    have "parent_node_index a \<in> set q"
      using paths a(1,2) by blast
    then have "ct_parent_node_index (g a) \<in> set (node_indices pp') \<inter> set q"
      using names(1) [OF a(1)] parents [OF a(1)] by simp
    moreover have "g a \<in> set (path_ciphertexts up) \<and> ct_target_node_index (g a) \<in> set q"
      using names(2) [OF a(1)] a(1,2) unfolding cs by simp
    ultimately show ?thesis
      using only by blast
  qed
  show ?thesis
    using up recover reach by blast
qed

definition toy_wrap_context :: "bytes \<Rightarrow> TreeKemWrapContext" where
  "toy_wrap_context h = \<lparr>wc_group_id = replicate 32 1, wc_mode = GM_Interactive, wc_new_epoch = 2,
     wc_new_state_version = 2, wc_commit_nonce = replicate 32 5, wc_tree_hash = h\<rparr>"

theorem path_update_delivered_witness:
  "\<exists>u t' pp' up q. derive_and_install_path toy_prims (toy_path_context\<lparr>pc_leaf_slot := 0\<rparr>) (replicate 32 9)
      (toy_tree, PrivatePath_default) = (Inr u, (t', pp')) \<and>
    encrypt_path_updates toy_prims t' pp' (toy_wrap_context (pu_tree_hash_after u)) u [257] = Inr up \<and>
    direct_path GM_Interactive 2 = Inr q \<and>
    (\<exists>!x. x \<in> set (path_ciphertexts up) \<and> ct_target_node_index x \<in> set q)"
proof -
  let ?c = "toy_path_context\<lparr>pc_leaf_slot := 0\<rparr>"
  have ok: "tree_wf toy_tree" "keys_valid toy_prims toy_tree"
    using toy_tree_ok by (simp add: tree_ok_def, simp add: keys_valid_def toy_prims_def)
  obtain u t' pp' where run: "derive_and_install_path toy_prims ?c (replicate 32 9) (toy_tree, PrivatePath_default) =
      (Inr u, (t', pp'))"
    using path_update_total [of toy_prims ?c toy_tree "replicate 32 9" PrivatePath_default] toy_tree_ok
    by (auto simp: toy_path_context_def path_context_ok_def toy_tree_def)
  obtain q where q: "direct_path GM_Interactive 2 = Inr q" "unat (hd q) = 258"
    using toy_direct_path [of 2] by auto
  have "hash_ok toy_prims" "tree_hash toy_prims t' = Inr (pu_tree_hash_after u)"
    using derive_and_install_pathD [OF run] by (simp, metis)
  then have w: "wrap_context_ok (toy_wrap_context (pu_tree_hash_after u))"
    using tree_hash_length [of toy_prims t'] by (simp add: wrap_context_ok_def toy_wrap_context_def)
  have w': "wc_mode (toy_wrap_context h) = pt_mode toy_tree" "wc_tree_hash (toy_wrap_context h) = h" for h
    by (simp_all add: toy_wrap_context_def toy_tree_def)
  have leaf: "2 \<noteq> pc_leaf_slot ?c \<and> direct_path (pt_mode toy_tree) 2 = Inr q \<and>
      reachable_leaf toy_tree [257] (unat (hd q))"
    using q(1) toy_tree_leaf [of 258 "[257]"] by (simp add: q(2)) (simp add: toy_tree_def)
  show ?thesis
    using path_update_delivered [OF toy_kdf_ok toy_aead_ok toy_kem_ok ok run w w', of "[257]"] leaf run q(1) by metis
qed

end
