(* ===== verification/Group_Epoch.thy ===== *)
theory Group_Epoch
  imports Group_Path Ratchet
begin

text \<open>
  Epoch keys of a group and the sender chains derived from them (\<open>epoch.rs\<close>): the epoch context that
  every key is bound to, the chain key of a sender, and one step of a sender chain with its message key,
  next chain key and route tag. A step satisfies the contract of locale \<open>ratchet\<close>, so the group
  chains inherit the lemmas of the two-party ratchet.
\<close>

section \<open>Types and labels\<close>

record EpochKeyContext =
  ek_group_id :: GroupId
  ek_mode :: GroupMode
  ek_epoch :: Epoch
  ek_state_version :: StateVersion
  ek_roster_hash :: bytes
  ek_tree_hash :: bytes
  ek_commit_hash :: bytes

record SenderMessageStep =
  sm_sender :: MemberId
  sm_index :: u64
  sm_message_key :: Secret32
  sm_next_chain_key :: Secret32
  sm_route_tag :: bytes

definition LABEL_EPOCH_KEY :: bytes where
  "LABEL_EPOCH_KEY = ascii ''HYDRA-MSG/v1/group/epoch-key''"

definition LABEL_EPOCH_KEY_CONTEXT :: bytes where
  "LABEL_EPOCH_KEY_CONTEXT = ascii ''HYDRA-MSG/v1/group/epoch-key/context''"

definition LABEL_SENDER_CHAIN :: bytes where
  "LABEL_SENDER_CHAIN = ascii ''HYDRA-MSG/v1/group/sender-chain''"

definition LABEL_SENDER_MESSAGE_KEY :: bytes where
  "LABEL_SENDER_MESSAGE_KEY = ascii ''HYDRA-MSG/v1/group/sender-message-key''"

definition LABEL_SENDER_CHAIN_ADVANCE :: bytes where
  "LABEL_SENDER_CHAIN_ADVANCE = ascii ''HYDRA-MSG/v1/group/sender-chain-advance''"

definition LABEL_SENDER_ROUTE_TAG :: bytes where
  "LABEL_SENDER_ROUTE_TAG = ascii ''HYDRA-MSG/v1/group/sender-route-tag''"

definition LABEL_SENDER_CHAIN_COMMITMENT :: bytes where
  "LABEL_SENDER_CHAIN_COMMITMENT = ascii ''HYDRA-MSG/v1/group/sender-chain-commitment''"

section \<open>Encodings\<close>

definition encode_epoch_context :: "EpochKeyContext \<Rightarrow> GroupError + bytes" where
  "encode_epoch_context c =
     lp (SUITE_ID @ ek_group_id c @ [group_mode_u8 (ek_mode c)] @ u64_be (ek_epoch c) @
         u64_be (ek_state_version c) @ ek_roster_hash c @ ek_tree_hash c @ ek_commit_hash c)"

definition encode_sender_step_context :: "EpochKeyContext \<Rightarrow> MemberId \<Rightarrow> u64 \<Rightarrow> GroupError + bytes" where
  "encode_sender_step_context c sender index =
     rbind (encode_epoch_context c) (\<lambda>encoded. lp (encoded @ sender @ u64_be index))"

definition route_tag_input :: "bytes \<Rightarrow> GroupError + bytes" where
  "route_tag_input encoded_sender_context =
     rbind (lp encoded_sender_context) (\<lambda>l. Inr (LABEL_SENDER_ROUTE_TAG @ SUITE_ID @ l))"

section \<open>Key derivation\<close>

definition derive_epoch_secret32 :: "CryptoPrims \<Rightarrow> Secret32 \<Rightarrow> bytes \<Rightarrow> bytes \<Rightarrow> GroupError + Secret32" where
  "derive_epoch_secret32 P secret label context =
     rbind (lp label) (\<lambda>l.
     rbind (lp context) (\<lambda>c.
     rbind (map_err (\<lambda>_. GE_InvalidSenderChain) (hkdf_expand P secret (l @ c) 32)) (\<lambda>output.
     rbind (ensure (length output = 32) GE_InvalidSenderChain) (\<lambda>_.
       Inr output))))"

definition derive_epoch_key :: "CryptoPrims \<Rightarrow> Secret32 \<Rightarrow> Epoch \<Rightarrow> GroupError + Secret32" where
  "derive_epoch_key P root_path_secret epoch =
     derive_epoch_secret32 P root_path_secret LABEL_EPOCH_KEY (SUITE_ID @ u64_be epoch)"

definition derive_epoch_key_for_context ::
    "CryptoPrims \<Rightarrow> Secret32 \<Rightarrow> EpochKeyContext \<Rightarrow> GroupError + Secret32" where
  "derive_epoch_key_for_context P root_epoch_secret context =
     rbind (encode_epoch_context context) (\<lambda>encoded.
       derive_epoch_secret32 P root_epoch_secret LABEL_EPOCH_KEY_CONTEXT encoded)"

definition derive_sender_chain_key ::
    "CryptoPrims \<Rightarrow> Secret32 \<Rightarrow> EpochKeyContext \<Rightarrow> MemberId \<Rightarrow> GroupError + Secret32" where
  "derive_sender_chain_key P epoch_key context sender =
     rbind (encode_epoch_context context) (\<lambda>encoded.
       derive_epoch_secret32 P epoch_key LABEL_SENDER_CHAIN (encoded @ sender))"

definition derive_sender_message_step ::
    "CryptoPrims \<Rightarrow> Secret32 \<Rightarrow> EpochKeyContext \<Rightarrow> MemberId \<Rightarrow> u64 \<Rightarrow> GroupError + SenderMessageStep" where
  "derive_sender_message_step P chain_key context sender index =
     rbind (encode_sender_step_context context sender index) (\<lambda>encoded.
     rbind (derive_epoch_secret32 P chain_key LABEL_SENDER_MESSAGE_KEY encoded) (\<lambda>message_key.
     rbind (derive_epoch_secret32 P chain_key LABEL_SENDER_CHAIN_ADVANCE encoded) (\<lambda>next_chain_key.
     rbind (route_tag_input encoded) (\<lambda>input.
       Inr \<lparr>sm_sender = sender, sm_index = index, sm_message_key = message_key,
            sm_next_chain_key = next_chain_key,
            sm_route_tag = slice 0 16 (hmac_sha3_256 P message_key input)\<rparr>))))"

definition sender_chain_commitment :: "CryptoPrims \<Rightarrow> MemberId \<Rightarrow> u64 \<Rightarrow> Secret32 \<Rightarrow> bytes" where
  "sender_chain_commitment P sender next_index chain_key =
     sha3_256 P (LABEL_SENDER_CHAIN_COMMITMENT @ SUITE_ID @ sender @ u64_be next_index @ chain_key)"

section \<open>When derivation succeeds\<close>

definition epoch_context_ok :: "EpochKeyContext \<Rightarrow> bool" where
  "epoch_context_ok c \<longleftrightarrow> length (ek_group_id c) = 32 \<and> length (ek_roster_hash c) = 64 \<and>
     length (ek_tree_hash c) = 64 \<and> length (ek_commit_hash c) = 64"

text \<open>Encodings that stay far below the 32-bit length prefix.\<close>

lemma encode_epoch_context_total:
  "epoch_context_ok c \<Longrightarrow> \<exists>b. encode_epoch_context c = Inr b \<and> length b \<le> 1000"
  by (simp add: encode_epoch_context_def epoch_context_ok_def lp_total u32_max_def u64_be_def)

lemma encode_sender_step_context_total:
  assumes "epoch_context_ok c" and "length sender = 32"
  shows "\<exists>b. encode_sender_step_context c sender i = Inr b \<and> length b \<le> 2000"
proof -
  obtain b where "encode_epoch_context c = Inr b" "length b \<le> 1000"
    using encode_epoch_context_total [OF assms(1)] by blast
  then show ?thesis
    using assms(2) by (simp add: encode_sender_step_context_def lp_total u32_max_def u64_be_def)
qed

lemma derive_epoch_secret32_total:
  assumes "kdf_ok P" and "length s = 32" and "length label \<le> 100" and "length context \<le> 2000"
  shows "\<exists>out. derive_epoch_secret32 P s label context = Inr out \<and> length out = 32"
proof -
  obtain l c where "lp label = Inr l" "lp context = Inr c"
    using assms(3,4) by (simp add: lp_total u32_max_def)
  moreover obtain out where "hkdf_expand P s (l @ c) 32 = Inr out"
    using hkdf_expand_total [OF assms(1,2), of 32] by auto
  ultimately show ?thesis
    using hkdf_expand_length [OF assms(1)] by (simp add: derive_epoch_secret32_def)
qed

lemma derive_sender_chain_key_total:
  assumes "kdf_ok P" and "length s = 32" and "epoch_context_ok c" and "length sender = 32"
  shows "\<exists>k. derive_sender_chain_key P s c sender = Inr k \<and> length k = 32"
proof -
  obtain b where "encode_epoch_context c = Inr b" "length b \<le> 1000"
    using encode_epoch_context_total [OF assms(3)] by blast
  then show ?thesis
    using derive_epoch_secret32_total [OF assms(1,2), of LABEL_SENDER_CHAIN "b @ sender"] assms(4)
    by (simp add: derive_sender_chain_key_def LABEL_SENDER_CHAIN_def)
qed

lemma derive_sender_message_step_total:
  assumes P: "kdf_ok P" and k: "length k = 32" and c: "epoch_context_ok c" and s: "length sender = 32"
  shows "\<exists>s. derive_sender_message_step P k c sender i = Inr s"
proof -
  obtain b where b: "encode_sender_step_context c sender i = Inr b" "length b \<le> 2000"
    using encode_sender_step_context_total [OF c s] by blast
  obtain mk where mk: "derive_epoch_secret32 P k LABEL_SENDER_MESSAGE_KEY b = Inr mk"
    using derive_epoch_secret32_total [OF P k, of LABEL_SENDER_MESSAGE_KEY b] b
    by (auto simp: LABEL_SENDER_MESSAGE_KEY_def)
  obtain nk where nk: "derive_epoch_secret32 P k LABEL_SENDER_CHAIN_ADVANCE b = Inr nk"
    using derive_epoch_secret32_total [OF P k, of LABEL_SENDER_CHAIN_ADVANCE b] b
    by (auto simp: LABEL_SENDER_CHAIN_ADVANCE_def)
  obtain r where "route_tag_input b = Inr r"
    using b(2) by (simp add: route_tag_input_def lp_total u32_max_def)
  then show ?thesis
    using b(1) mk nk by (simp add: derive_sender_message_step_def)
qed

lemma derive_epoch_secret32_length: "derive_epoch_secret32 P s l c = Inr k \<Longrightarrow> length k = 32"
  by (auto simp: derive_epoch_secret32_def rbind_Inr_iff ensure_Inr_iff)

lemma derive_sender_message_stepD:
  assumes "derive_sender_message_step P k c sender i = Inr s"
  shows "sm_sender s = sender" and "sm_index s = i" and "length (sm_message_key s) = 32"
    and "length (sm_next_chain_key s) = 32" and "hash_ok P \<Longrightarrow> length (sm_route_tag s) = 16"
  using assms
  by (auto simp: derive_sender_message_step_def rbind_Inr_iff slice_def dest: derive_epoch_secret32_length)

text \<open>The sender chain of one member as a ratchet.\<close>

definition sender_derive ::
    "CryptoPrims \<Rightarrow> EpochKeyContext \<Rightarrow> MemberId \<Rightarrow> Secret32 \<Rightarrow> u64 \<Rightarrow> GroupError + SenderMessageStep" where
  "sender_derive P c sender k i = derive_sender_message_step P k c sender i"

interpretation sender_ratchet: ratchet "sender_derive P c sender" sm_next_chain_key
  "\<lambda>k. kdf_ok P \<and> epoch_context_ok c \<and> length sender = 32 \<and> length k = 32" for P c sender
proof unfold_locales
  fix k :: Secret32 and i assume "kdf_ok P \<and> epoch_context_ok c \<and> length sender = 32 \<and> length k = 32"
  then show "\<exists>s. sender_derive P c sender k i = Inr s \<and> kdf_ok P \<and> epoch_context_ok c \<and>
      length sender = 32 \<and> length (sm_next_chain_key s) = 32"
    using derive_sender_message_step_total derive_sender_message_stepD(4) unfolding sender_derive_def by blast
qed

section \<open>Domain separation\<close>

lemma encode_epoch_context_inject:
  assumes ok: "epoch_context_ok c" "epoch_context_ok d"
    and enc: "encode_epoch_context c = Inr x" "encode_epoch_context d = Inr y" and eq: "x @ r = y @ s"
  shows "c = d" and "r = s"
proof -
  note apart = lp_prefix_free [OF enc [unfolded encode_epoch_context_def] eq]
  then have "ek_group_id c = ek_group_id d" "ek_mode c = ek_mode d" "ek_epoch c = ek_epoch d"
    "ek_state_version c = ek_state_version d" "ek_roster_hash c = ek_roster_hash d"
    "ek_tree_hash c = ek_tree_hash d" "ek_commit_hash c = ek_commit_hash d"
    using ok by (auto simp: epoch_context_ok_def u64_be_def be_bytes_inject_u64 group_mode.to_u8_inject)
  then show "c = d" by simp
  show "r = s" by (rule apart(2))
qed

text \<open>C29: Every sender key is bound to its place: the context under which a step of a sender chain is
  derived determines the group, mode, epoch, state version, roster, tree and commit hashes, the sender and
  the index, so no two different steps share an HKDF context.\<close>

theorem sender_step_context_injective:
  assumes "epoch_context_ok c" and "epoch_context_ok d" and "length s = 32" and "length t = 32"
    and "encode_sender_step_context c s i = Inr b" and "encode_sender_step_context d t j = Inr b"
  shows "c = d \<and> s = t \<and> i = j"
proof -
  obtain x y where enc: "encode_epoch_context c = Inr x" "encode_epoch_context d = Inr y"
    and l: "lp (x @ s @ u64_be i) = Inr b" "lp (y @ t @ u64_be j) = Inr b"
    using assms(5,6) by (auto simp: encode_sender_step_context_def rbind_Inr_iff)
  have eq: "x @ s @ u64_be i = y @ t @ u64_be j"
    using lp_prefix_free(1) [OF l, of "[]" "[]"] by simp
  have "c = d" "s @ u64_be i = t @ u64_be j"
    by (rule encode_epoch_context_inject [OF assms(1,2) enc eq])+
  then show ?thesis
    using assms(3,4) by (simp add: u64_be_def be_bytes_inject_u64)
qed

definition toy_epoch_context :: EpochKeyContext where
  "toy_epoch_context = \<lparr>ek_group_id = replicate 32 1, ek_mode = GM_Interactive, ek_epoch = 2,
     ek_state_version = 3, ek_roster_hash = replicate 64 4, ek_tree_hash = replicate 64 5,
     ek_commit_hash = replicate 64 6\<rparr>"

theorem sender_step_context_injective_witness:
  "encode_sender_step_context toy_epoch_context (replicate 32 7) 8 \<noteq>
   encode_sender_step_context toy_epoch_context (replicate 32 7) 9"
proof
  assume eq: "encode_sender_step_context toy_epoch_context (replicate 32 7) 8 =
    encode_sender_step_context toy_epoch_context (replicate 32 7) 9"
  have ok: "epoch_context_ok toy_epoch_context"
    by (simp add: toy_epoch_context_def epoch_context_ok_def)
  obtain b where "encode_sender_step_context toy_epoch_context (replicate 32 7) 8 = Inr b"
    using encode_sender_step_context_total [OF ok, of "replicate 32 7" 8] by auto
  then show False
    using sender_step_context_injective [OF ok ok _ _ _ _, of "replicate 32 7" "replicate 32 7" 8 b 9] eq by simp
qed

end
