(* ===== verification/Group_Senders.thy ===== *)
theory Group_Senders
  imports Group_Epoch
begin

text \<open>
  Sender chains of a group (\<open>state/sender_chain.rs\<close>, \<open>sender_chain/snapshot_restore.rs\<close> and the
  roster view they use): one cursor per active sender, a bounded store of skipped message keys per
  sender, resolution of a route tag to a sender and a step, and snapshots. Secrets that the source wipes
  when they are dropped are not part of a state and are left out.
\<close>

section \<open>Types\<close>

record SenderChainCursor =
  sc_sender :: MemberId
  sc_next_index :: u64
  sc_chain_key :: Secret32

record SkippedGroupMessageKey =
  sg_sender :: MemberId
  sg_index :: u64
  sg_route_tag :: bytes
  sg_message_key :: Secret32

datatype SenderChainResolution =
    Res_Skipped SenderMessageStep
  | Res_CurrentOrFuture SenderMessageStep "SkippedGroupMessageKey list"

fun resolution_step :: "SenderChainResolution \<Rightarrow> SenderMessageStep" where
  "resolution_step (Res_Skipped step) = step"
| "resolution_step (Res_CurrentOrFuture step _) = step"

record SenderChainState =
  chain_senders :: "SenderChainCursor list"
  chain_skipped :: "SkippedGroupMessageKey list"

definition SenderChainCursor_new :: "MemberId \<Rightarrow> Secret32 \<Rightarrow> SenderChainCursor" where
  "SenderChainCursor_new sender chain_key =
     \<lparr>sc_sender = sender, sc_next_index = 0, sc_chain_key = chain_key\<rparr>"

definition skipped_from_step :: "SenderMessageStep \<Rightarrow> SkippedGroupMessageKey" where
  "skipped_from_step step =
     \<lparr>sg_sender = sm_sender step, sg_index = sm_index step, sg_route_tag = sm_route_tag step,
      sg_message_key = sm_message_key step\<rparr>"

definition skipped_to_step :: "SkippedGroupMessageKey \<Rightarrow> SenderMessageStep" where
  "skipped_to_step e =
     \<lparr>sm_sender = sg_sender e, sm_index = sg_index e, sm_message_key = sg_message_key e,
      sm_next_chain_key = secret32_zero, sm_route_tag = sg_route_tag e\<rparr>"

definition SenderChainState_default :: SenderChainState where
  "SenderChainState_default = \<lparr>chain_senders = [], chain_skipped = []\<rparr>"

definition sender_chains_clear :: "SenderChainState \<Rightarrow> SenderChainState" where
  "sender_chains_clear s = s\<lparr>chain_senders := [], chain_skipped := []\<rparr>"

section \<open>Roster view\<close>

definition active_sender_entries :: "GroupMode \<Rightarrow> RosterEntry list \<Rightarrow> RosterEntry list" where
  "active_sender_entries m roster = filter (\<lambda>e. status e = MS_Active \<and> can_send_in_mode (role e) m) roster"

definition route_tag_eq :: "bytes \<Rightarrow> bytes \<Rightarrow> bool" where
  "route_tag_eq left right = (differences left right = 0)"

section \<open>Operations\<close>

definition chains_install_epoch ::
    "CryptoPrims \<Rightarrow> EpochKeyContext \<Rightarrow> Secret32 \<Rightarrow> RosterEntry list \<Rightarrow> (SenderChainState, GroupError, unit) st" where
  "chains_install_epoch P context epoch_key roster =
     st_bind (st_lift (
       rbind (rmap (\<lambda>entry.
                rbind (derive_sender_chain_key P epoch_key context (member_id entry)) (\<lambda>key.
                  Inr (SenderChainCursor_new (member_id entry) key)))
              (active_sender_entries (ek_mode context) roster)) (\<lambda>candidate.
       let candidate = sort_key sc_sender candidate in
       rbind (ensure (candidate \<noteq> []) GE_InvalidSenderChain) (\<lambda>_. Inr candidate)))) (\<lambda>candidate.
     st_modify (\<lambda>s. (sender_chains_clear s)\<lparr>chain_senders := candidate\<rparr>))"

definition chains_next_index :: "SenderChainState \<Rightarrow> MemberId \<Rightarrow> u64 option" where
  "chains_next_index s sender = map_option sc_next_index (find (\<lambda>e. sc_sender e = sender) (chain_senders s))"

definition update_cursor ::
    "MemberId \<Rightarrow> (SenderChainCursor \<Rightarrow> SenderChainCursor) \<Rightarrow> SenderChainState \<Rightarrow> SenderChainState" where
  "update_cursor sender f s = s\<lparr>chain_senders := update_first (\<lambda>e. sc_sender e = sender) f (chain_senders s)\<rparr>"

definition next_send_step ::
    "CryptoPrims \<Rightarrow> EpochKeyContext \<Rightarrow> MemberId \<Rightarrow> (SenderChainState, GroupError, SenderMessageStep) st" where
  "next_send_step P context sender s =
     st_bind (st_lift (
       rbind (ok_or (find (\<lambda>e. sc_sender e = sender) (chain_senders s)) (GE_SenderNotAllowed sender)) (\<lambda>cursor.
       rbind (ensure (sc_next_index cursor \<noteq> u64_max) GE_CounterExhausted) (\<lambda>_.
       rbind (derive_sender_message_step P (sc_chain_key cursor) context sender (sc_next_index cursor)) (\<lambda>step.
         Inr (cursor, step)))))) (\<lambda>(cursor, step).
     st_bind (st_modify (update_cursor sender (\<lambda>c. c\<lparr>sc_chain_key := sm_next_chain_key step\<rparr>))) (\<lambda>_.
     st_bind (st_lift (ok_or (checked_add_u64 (sc_next_index cursor) 1) GE_CounterExhausted)) (\<lambda>index.
     st_bind (st_modify (update_cursor sender (\<lambda>c. c\<lparr>sc_next_index := index\<rparr>))) (\<lambda>_.
       st_lift (Inr step))))) s"

definition merge_unique_resolution ::
    "SenderChainResolution option \<Rightarrow> SenderChainResolution \<Rightarrow> GroupError + SenderChainResolution option" where
  "merge_unique_resolution matched candidate =
     rbind (ensure (matched = None) GE_InvalidSenderChain) (\<lambda>_. Inr (Some candidate))"

fun matching_skipped_loop ::
    "bytes \<Rightarrow> u64 \<Rightarrow> SenderChainResolution option \<Rightarrow> SkippedGroupMessageKey list \<Rightarrow>
       GroupError + SenderChainResolution option" where
  "matching_skipped_loop route_tag index matched [] = Inr matched"
| "matching_skipped_loop route_tag index matched (e # es) =
     (if sg_index e = index \<and> route_tag_eq (sg_route_tag e) route_tag
      then rbind (merge_unique_resolution matched (Res_Skipped (skipped_to_step e))) (\<lambda>matched.
             matching_skipped_loop route_tag index matched es)
      else matching_skipped_loop route_tag index matched es)"

definition matching_skipped_key ::
    "SkippedGroupMessageKey list \<Rightarrow> bytes \<Rightarrow> u64 \<Rightarrow> GroupError + SenderChainResolution option" where
  "matching_skipped_key skipped_keys route_tag index = matching_skipped_loop route_tag index None skipped_keys"

definition derive_resolution_for_cursor ::
    "CryptoPrims \<Rightarrow> EpochKeyContext \<Rightarrow> SenderChainCursor \<Rightarrow> u64 \<Rightarrow> GroupError + SenderChainResolution" where
  "derive_resolution_for_cursor P context cursor target_index =
     rbind (ratchet_walk (sender_derive P context (sc_sender cursor)) sm_next_chain_key
              (\<lambda>_. skipped_from_step) GE_CounterExhausted (sc_chain_key cursor) (sc_next_index cursor)
              target_index) (\<lambda>(skipped, step).
       Inr (Res_CurrentOrFuture step skipped))"

fun matching_sender_loop ::
    "CryptoPrims \<Rightarrow> EpochKeyContext \<Rightarrow> bytes \<Rightarrow> u64 \<Rightarrow> u64 \<Rightarrow>
       SenderChainResolution option \<times> bool \<times> bool \<Rightarrow> SenderChainCursor list \<Rightarrow>
       GroupError + SenderChainResolution option \<times> bool \<times> bool" where
  "matching_sender_loop P context route_tag index skip_bound acc [] = Inr acc"
| "matching_sender_loop P context route_tag index skip_bound (matched, too_far, older) (c # cs) =
     (if index < sc_next_index c
      then matching_sender_loop P context route_tag index skip_bound (matched, too_far, True) cs
      else if skip_bound < index - sc_next_index c
      then matching_sender_loop P context route_tag index skip_bound (matched, True, older) cs
      else
        rbind (derive_resolution_for_cursor P context c index) (\<lambda>resolution.
        if route_tag_eq (sm_route_tag (resolution_step resolution)) route_tag
        then rbind (merge_unique_resolution matched resolution) (\<lambda>matched.
               matching_sender_loop P context route_tag index skip_bound (matched, too_far, older) cs)
        else matching_sender_loop P context route_tag index skip_bound (matched, too_far, older) cs))"

definition matching_sender_chain ::
    "CryptoPrims \<Rightarrow> SenderChainCursor list \<Rightarrow> EpochKeyContext \<Rightarrow> bytes \<Rightarrow> u64 \<Rightarrow> u64 \<Rightarrow>
       GroupError + SenderChainResolution option \<times> bool \<times> bool" where
  "matching_sender_chain P senders context route_tag index skip_bound =
     matching_sender_loop P context route_tag index skip_bound (None, False, False) senders"

definition resolve_route_match ::
    "SenderChainResolution option \<Rightarrow> bool \<Rightarrow> bool \<Rightarrow> GroupError + SenderChainResolution" where
  "resolve_route_match matched too_far_ahead older_than_cursor =
     (case matched of
        Some resolution \<Rightarrow> Inr resolution
      | None \<Rightarrow>
          if too_far_ahead then Inl GE_MessageTooFarAhead
          else if older_than_cursor then Inl GE_MessageTooOld
          else Inl GE_AuthenticationFailed)"

definition resolution_for_route ::
    "CryptoPrims \<Rightarrow> SenderChainState \<Rightarrow> EpochKeyContext \<Rightarrow> bytes \<Rightarrow> u64 \<Rightarrow> u64 \<Rightarrow>
       GroupError + SenderChainResolution" where
  "resolution_for_route P s context route_tag index skip_bound =
     rbind (matching_skipped_key (chain_skipped s) route_tag index) (\<lambda>matched.
     rbind (matching_sender_chain P (chain_senders s) context route_tag index skip_bound)
       (\<lambda>(current, too_far_ahead, older_than_cursor).
     rbind (case current of
              Some r \<Rightarrow> merge_unique_resolution matched r
            | None \<Rightarrow> Inr matched) (\<lambda>matched.
       resolve_route_match matched too_far_ahead older_than_cursor)))"

fun commit_resolution ::
    "SenderChainResolution \<Rightarrow> nat \<Rightarrow> (SenderChainState, GroupError, unit) st" where
  "commit_resolution (Res_Skipped step) skip_bound s =
     st_bind (st_lift (ok_or (position (\<lambda>e. sg_sender e = sm_sender step \<and> sg_index e = sm_index step \<and>
                 route_tag_eq (sg_route_tag e) (sm_route_tag step)) (chain_skipped s)) GE_InvalidSenderChain))
       (\<lambda>pos. st_modify (\<lambda>s. s\<lparr>chain_skipped := remove_nth pos (chain_skipped s)\<rparr>)) s"
| "commit_resolution (Res_CurrentOrFuture step skipped) skip_bound s =
     st_bind (st_lift (
       rbind (ok_or (find (\<lambda>e. sc_sender e = sm_sender step) (chain_senders s))
                (GE_SenderNotAllowed (sm_sender step))) (\<lambda>cursor.
       rbind (ensure (\<not> sm_index step < sc_next_index cursor) GE_InvalidSenderChain) (\<lambda>_.
       let skipped_for_sender = length (filter (\<lambda>e. sg_sender e = sm_sender step) (chain_skipped s)) in
       ensure (case checked_add_usize skipped_for_sender (length skipped) of
                 None \<Rightarrow> False | Some n \<Rightarrow> \<not> skip_bound < n) GE_InvalidSenderChain)))) (\<lambda>_.
     st_bind (st_modify (update_cursor (sm_sender step) (\<lambda>c. c\<lparr>sc_chain_key := sm_next_chain_key step\<rparr>))) (\<lambda>_.
     st_bind (st_lift (ok_or (checked_add_u64 (sm_index step) 1) GE_CounterExhausted)) (\<lambda>index.
     st_bind (st_modify (update_cursor (sm_sender step) (\<lambda>c. c\<lparr>sc_next_index := index\<rparr>))) (\<lambda>_.
       st_modify (\<lambda>s. s\<lparr>chain_skipped := chain_skipped s @ skipped\<rparr>))))) s"

section \<open>Snapshots\<close>

record SenderChainCursorSnapshot =
  scs_sender :: MemberId
  scs_next_index :: u64
  scs_chain_key :: bytes

record SkippedGroupMessageKeySnapshot =
  sgs_sender :: MemberId
  sgs_index :: u64
  sgs_route_tag :: bytes
  sgs_message_key :: bytes

record SenderChainStateSnapshot =
  css_senders :: "SenderChainCursorSnapshot list"
  css_skipped :: "SkippedGroupMessageKeySnapshot list"

definition chains_export_snapshot :: "SenderChainState \<Rightarrow> SenderChainStateSnapshot" where
  "chains_export_snapshot s =
     \<lparr>css_senders = map (\<lambda>e. \<lparr>scs_sender = sc_sender e, scs_next_index = sc_next_index e,
        scs_chain_key = sc_chain_key e\<rparr>) (chain_senders s),
      css_skipped = map (\<lambda>e. \<lparr>sgs_sender = sg_sender e, sgs_index = sg_index e,
        sgs_route_tag = sg_route_tag e, sgs_message_key = sg_message_key e\<rparr>) (chain_skipped s)\<rparr>"

text \<open>
  The two checks that the restoring functions of sender chains and replay state share. In the first,
  \<open>seen\<close> is the hash set the identifiers are inserted into; in the second, \<open>seen\<close> are the entries
  already visited, whose keys are in the hash sets (\<open>clash\<close> says that two entries share a key), and
  \<open>counts\<close> is the hash map of entries per sender.
\<close>

fun any_not_inserted :: "MemberId set \<Rightarrow> MemberId list \<Rightarrow> MemberId list \<Rightarrow> bool" where
  "any_not_inserted allowed seen [] = False"
| "any_not_inserted allowed seen (x # xs) =
     (if x \<notin> allowed \<or> x \<in> set seen then True else any_not_inserted allowed (x # seen) xs)"

fun restore_loop ::
    "('a \<Rightarrow> MemberId) \<Rightarrow> ('a \<Rightarrow> 'a \<Rightarrow> bool) \<Rightarrow> MemberId set \<Rightarrow> nat \<Rightarrow> 'a list \<Rightarrow> (MemberId \<Rightarrow> nat) \<Rightarrow> 'a list \<Rightarrow>
       GroupError + unit" where
  "restore_loop sender clash allowed bound seen counts [] = Inr ()"
| "restore_loop sender clash allowed bound seen counts (x # xs) =
     rbind (ensure (\<not> (sender x \<notin> allowed \<or> list_ex (clash x) seen)) GE_InvalidSenderChain) (\<lambda>_.
     let count = counts (sender x) + 1 in
     rbind (ensure (\<not> bound < count) GE_InvalidSenderChain) (\<lambda>_.
       restore_loop sender clash allowed bound (x # seen) (counts(sender x := count)) xs))"

definition skipped_clash :: "SkippedGroupMessageKeySnapshot \<Rightarrow> SkippedGroupMessageKeySnapshot \<Rightarrow> bool" where
  "skipped_clash a b \<longleftrightarrow> (sgs_sender a, sgs_index a) = (sgs_sender b, sgs_index b)"

definition chains_from_snapshot ::
    "SenderChainStateSnapshot \<Rightarrow> GroupMode \<Rightarrow> RosterEntry list \<Rightarrow> GroupError + SenderChainState" where
  "chains_from_snapshot snapshot m roster =
     (let allowed = set (map member_id (active_sender_entries m roster)) in
      rbind (ensure (\<not> card allowed < length (css_senders snapshot)) GE_InvalidSenderChain) (\<lambda>_.
      rbind (ensure (\<not> any_not_inserted allowed [] (map scs_sender (css_senders snapshot)))
               GE_InvalidSenderChain) (\<lambda>_.
      let skip_bound = sender_skip_bound m in
      rbind (ok_or (checked_mul_usize (card allowed) skip_bound) GE_InvalidSenderChain) (\<lambda>max_skipped.
      rbind (ensure (\<not> max_skipped < length (css_skipped snapshot)) GE_InvalidSenderChain) (\<lambda>_.
      rbind (restore_loop sgs_sender skipped_clash allowed skip_bound [] (\<lambda>_. 0) (css_skipped snapshot)) (\<lambda>_.
        Inr \<lparr>chain_senders = map (\<lambda>e. \<lparr>sc_sender = scs_sender e, sc_next_index = scs_next_index e,
               sc_chain_key = scs_chain_key e\<rparr>) (css_senders snapshot),
             chain_skipped = map (\<lambda>e. \<lparr>sg_sender = sgs_sender e, sg_index = sgs_index e,
               sg_route_tag = sgs_route_tag e, sg_message_key = sgs_message_key e\<rparr>) (css_skipped snapshot)\<rparr>))))))"

section \<open>What the restoring checks accept\<close>

lemma any_not_inserted_iff:
  "any_not_inserted A seen xs \<longleftrightarrow> \<not> (set xs \<subseteq> A \<and> distinct xs \<and> set xs \<inter> set seen = {})"
  by (induction xs arbitrary: seen) auto

lemma restore_loop_iff:
  "restore_loop sender clash A b seen counts xs = Inr u \<longleftrightarrow>
     sender ` set xs \<subseteq> A \<and> (\<forall>x \<in> set xs. \<forall>y \<in> set seen. \<not> clash x y) \<and>
     sorted_wrt (\<lambda>y x. \<not> clash x y) xs \<and>
     (\<forall>m \<in> sender ` set xs. counts m + length (filter (\<lambda>x. sender x = m) xs) \<le> b)"
proof (induction xs arbitrary: seen counts)
  case (Cons x xs)
  have counted: "(\<forall>m \<in> sender ` set xs. (counts(sender x := counts (sender x) + 1)) m +
        length (filter (\<lambda>x. sender x = m) xs) \<le> b) \<and> counts (sender x) + 1 \<le> b \<longleftrightarrow>
      (\<forall>m \<in> sender ` set (x # xs). counts m + length (filter (\<lambda>y. sender y = m) (x # xs)) \<le> b)"
  proof (cases "sender x \<in> sender ` set xs")
    case True
    then show ?thesis by force
  next
    case False
    then have "filter (\<lambda>y. sender y = sender x) xs = []"
      by (metis (mono_tags) filter_False image_eqI)
    then show ?thesis
      using False by auto
  qed
  show ?case
    unfolding restore_loop.simps Let_def rbind_Inr_iff ensure_Inr_iff Cons.IH
    using counted by (auto simp: list_ex_iff not_less)
qed simp

section \<open>The invariant of sender chains\<close>

text \<open>
  One cursor per sender; every skipped key belongs to a cursor that has passed its index, no two for
  the same message; and no sender has more than \<open>bound\<close> skipped keys.
\<close>

definition skipped_id :: "SkippedGroupMessageKey \<Rightarrow> MemberId \<times> u64" where
  "skipped_id e = (sg_sender e, sg_index e)"

definition chains_ok :: "nat \<Rightarrow> SenderChainState \<Rightarrow> bool" where
  "chains_ok bound s \<longleftrightarrow> distinct (map sc_sender (chain_senders s)) \<and> distinct (map skipped_id (chain_skipped s)) \<and>
     (\<forall>e \<in> set (chain_skipped s). \<exists>c \<in> set (chain_senders s). sc_sender c = sg_sender e \<and> sg_index e < sc_next_index c) \<and>
     (\<forall>m. length (filter (\<lambda>e. sg_sender e = m) (chain_skipped s)) \<le> bound)"

lemma chains_ok_default: "chains_ok b SenderChainState_default"
  by (simp add: chains_ok_def SenderChainState_default_def)

lemma chains_ok_clear: "chains_ok b (sender_chains_clear s)"
  by (simp add: chains_ok_def sender_chains_clear_def)

lemma find_cursor:
  assumes "chains_ok b s" and "c \<in> set (chain_senders s)"
  shows "find (\<lambda>e. sc_sender e = sc_sender c) (chain_senders s) = Some c"
  using assms find_key_mem [of sc_sender "chain_senders s" c] by (simp add: chains_ok_def)

lemma install_epoch_chains:
  assumes run: "chains_install_epoch P c ek roster s0 = (Inr u, s)" and d: "distinct (map member_id roster)"
  shows "chains_ok b s" and "set (map sc_sender (chain_senders s)) = member_id ` set (active_sender_entries (ek_mode c) roster)"
    and "chain_skipped s = []"
    and "\<forall>x \<in> set (chain_senders s). sc_next_index x = 0 \<and>
      derive_sender_chain_key P ek c (sc_sender x) = Inr (sc_chain_key x)"
proof -
  let ?es = "active_sender_entries (ek_mode c) roster"
  obtain cs where cs: "rmap (\<lambda>entry. rbind (derive_sender_chain_key P ek c (member_id entry)) (\<lambda>key.
        Inr (SenderChainCursor_new (member_id entry) key))) ?es = Inr cs"
    and s: "s = \<lparr>chain_senders = sort_key sc_sender cs, chain_skipped = []\<rparr>"
    using run by (auto simp: chains_install_epoch_def st_bind_Inr_iff result_simps Let_def sender_chains_clear_def)
  have ids: "map sc_sender cs = map member_id ?es"
    by (rule rmap_map [OF cs]) (auto simp: rbind_Inr_iff SenderChainCursor_new_def)
  have "distinct (map member_id ?es)"
    using d by (simp add: active_sender_entries_def distinct_map_filter)
  then have "distinct (map sc_sender (sort_key sc_sender cs))"
    by (simp add: distinct_map_sort_key ids)
  then show "chains_ok b s" "chain_skipped s = []"
    by (simp_all add: chains_ok_def s)
  show "set (map sc_sender (chain_senders s)) = member_id ` set ?es"
    using ids by (simp add: s) (metis list.set_map)
  have "sc_next_index x = 0 \<and> derive_sender_chain_key P ek c (sc_sender x) = Inr (sc_chain_key x)"
    if x: "x \<in> set cs" for x
    using rmap_mem [OF cs x] by (auto simp: rbind_Inr_iff SenderChainCursor_new_def)
  then show "\<forall>x \<in> set (chain_senders s). sc_next_index x = 0 \<and>
      derive_sender_chain_key P ek c (sc_sender x) = Inr (sc_chain_key x)"
    by (simp add: s)
qed

section \<open>Resolutions\<close>

text \<open>The shape of a resolution, whatever the keys are: its step has the sender and the index that were
  asked for, and a walk passes exactly the indices from the cursor up to the target.\<close>

fun resolution_shape :: "SenderChainState \<Rightarrow> u64 \<Rightarrow> SenderChainResolution \<Rightarrow> bool" where
  "resolution_shape s i (Res_Skipped step) \<longleftrightarrow> sm_index step = i \<and>
     (\<exists>e \<in> set (chain_skipped s). step = skipped_to_step e)"
| "resolution_shape s i (Res_CurrentOrFuture step sk) \<longleftrightarrow> sm_index step = i \<and>
     (\<exists>c \<in> set (chain_senders s). sc_sender c = sm_sender step \<and> sc_next_index c \<le> i \<and>
        (\<forall>e \<in> set sk. sg_sender e = sm_sender step) \<and>
        map (unat \<circ> sg_index) sk = [unat (sc_next_index c)..<unat i])"

lemma ratchet_walk_shape:
  assumes "ratchet_walk (sender_derive P c m) sm_next_chain_key (\<lambda>_. skipped_from_step) ex k cursor target = Inr (sk, step)"
  shows "cursor \<le> target \<and> sm_sender step = m \<and> sm_index step = target \<and>
    (\<forall>e \<in> set sk. sg_sender e = m) \<and> map (unat \<circ> sg_index) sk = [unat cursor..<unat target]"
  using assms
proof (induction "sender_derive P c m" "sm_next_chain_key :: SenderMessageStep \<Rightarrow> Secret32"
    "\<lambda>_ :: u64. skipped_from_step" ex k cursor target
    arbitrary: sk step rule: ratchet_walk.induct)
  case (1 ex k cursor target)
  obtain s0 where s0: "sender_derive P c m k cursor = Inr s0"
    using "1.prems" by (subst (asm) ratchet_walk.simps) (auto simp: rbind_Inr_iff)
  then have d: "sm_sender s0 = m" "sm_index s0 = cursor"
    using derive_sender_message_stepD(1,2) unfolding sender_derive_def by blast+
  show ?case
  proof (cases "cursor = target")
    case True
    then show ?thesis
      using "1.prems" s0 d by (subst (asm) ratchet_walk.simps) simp
  next
    case False
    obtain cursor' sk' where add: "ok_or (checked_add_u64 cursor 1) ex = Inr cursor'"
      and rest: "ratchet_walk (sender_derive P c m) sm_next_chain_key (\<lambda>_. skipped_from_step) ex
          (sm_next_chain_key s0) cursor' target = Inr (sk', step)"
      and sk: "sk = skipped_from_step s0 # sk'"
      using "1.prems" s0 False by (subst (asm) ratchet_walk.simps) (auto simp: rbind_Inr_iff)
    have "unat cursor' = Suc (unat cursor)"
      using add by (auto simp: ok_or_Inr_iff checked_add_u64_def unat_word_ariths split: if_splits)
    moreover note "1.hyps" [OF s0 False add rest]
    ultimately show ?thesis
      using d by (auto simp: sk skipped_from_step_def word_le_nat_alt upt_conv_Cons)
  qed
qed

lemma derive_resolution_shape:
  assumes "c \<in> set (chain_senders s)" and "derive_resolution_for_cursor P ctx c i = Inr r"
  shows "resolution_shape s i r"
proof -
  obtain sk step where walk: "ratchet_walk (sender_derive P ctx (sc_sender c)) sm_next_chain_key
      (\<lambda>_. skipped_from_step) GE_CounterExhausted (sc_chain_key c) (sc_next_index c) i = Inr (sk, step)"
    and r: "r = Res_CurrentOrFuture step sk"
    using assms(2) by (auto simp: derive_resolution_for_cursor_def rbind_Inr_iff)
  from ratchet_walk_shape [OF walk] show ?thesis
    unfolding r resolution_shape.simps using assms(1) by (intro conjI bexI [of _ c]) simp_all
qed

lemma merge_unique_iff: "merge_unique_resolution m r = Inr m' \<longleftrightarrow> m = None \<and> m' = Some r"
  by (auto simp: merge_unique_resolution_def result_simps)

text \<open>Where a resolution comes from: a stored key with the index and the tag, or the walk of a cursor that is
  not ahead of the index and at most the skip bound behind it.\<close>

inductive resolution_origin ::
    "CryptoPrims \<Rightarrow> SenderChainState \<Rightarrow> EpochKeyContext \<Rightarrow> bytes \<Rightarrow> u64 \<Rightarrow> u64 \<Rightarrow> SenderChainResolution \<Rightarrow> bool"
  for P s ctx tag i b where
  origin_stored: "e \<in> set (chain_skipped s) \<Longrightarrow> sg_index e = i \<Longrightarrow> route_tag_eq (sg_route_tag e) tag \<Longrightarrow>
    resolution_origin P s ctx tag i b (Res_Skipped (skipped_to_step e))"
| origin_walked: "c \<in> set (chain_senders s) \<Longrightarrow> sc_next_index c \<le> i \<Longrightarrow> i - sc_next_index c \<le> b \<Longrightarrow>
    derive_resolution_for_cursor P ctx c i = Inr r \<Longrightarrow> route_tag_eq (sm_route_tag (resolution_step r)) tag \<Longrightarrow>
    resolution_origin P s ctx tag i b r"

lemma matching_skipped_origin:
  assumes "matching_skipped_loop tag i m es = Inr (Some r)" and "set es \<subseteq> set (chain_skipped s)"
  shows "m = Some r \<or> resolution_origin P s ctx tag i b r"
  using assms
proof (induction es arbitrary: m)
  case (Cons e es)
  show ?case
  proof (cases "sg_index e = i \<and> route_tag_eq (sg_route_tag e) tag")
    case True
    then have "resolution_origin P s ctx tag i b (Res_Skipped (skipped_to_step e))"
      using Cons.prems(2) origin_stored [of e s i tag] by simp
    moreover have "matching_skipped_loop tag i (Some (Res_Skipped (skipped_to_step e))) es = Inr (Some r)"
      using Cons.prems(1) True by (auto simp: rbind_Inr_iff merge_unique_iff)
    ultimately show ?thesis
      using Cons.IH Cons.prems(2) by fastforce
  next
    case False
    then show ?thesis
      using Cons.IH Cons.prems by (metis insert_subset list.simps(15) matching_skipped_loop.simps(2))
  qed
qed simp

lemma matching_sender_origin:
  assumes "matching_sender_loop P ctx tag i b (m, tf, old) cs = Inr (Some r, x)" and "set cs \<subseteq> set (chain_senders s)"
  shows "m = Some r \<or> resolution_origin P s ctx tag i b r"
  using assms
proof (induction cs arbitrary: m tf old)
  case (Cons c cs)
  show ?case
  proof (cases "i < sc_next_index c \<or> b < i - sc_next_index c")
    case True
    then show ?thesis using Cons by (auto split: if_splits)
  next
    case False
    then obtain r' where r': "derive_resolution_for_cursor P ctx c i = Inr r'"
      and rest: "(if route_tag_eq (sm_route_tag (resolution_step r')) tag
        then rbind (merge_unique_resolution m r') (\<lambda>m. matching_sender_loop P ctx tag i b (m, tf, old) cs)
        else matching_sender_loop P ctx tag i b (m, tf, old) cs) = Inr (Some r, x)"
      using Cons.prems(1) by (auto elim: rbindE)
    have origin: "route_tag_eq (sm_route_tag (resolution_step r')) tag \<Longrightarrow> resolution_origin P s ctx tag i b r'"
      using origin_walked [of c s i b P ctx r' tag] r' False Cons.prems(2) by (simp add: not_less)
    show ?thesis
      using rest Cons.IH Cons.prems(2) origin
      by (auto simp: rbind_Inr_iff merge_unique_iff split: if_splits)
  qed
qed simp

lemma resolution_for_route_origin:
  assumes "resolution_for_route P s ctx tag i b = Inr r"
  shows "resolution_origin P s ctx tag i b r"
proof -
  obtain m where m: "matching_skipped_loop tag i None (chain_skipped s) = Inr m"
    and rest: "rbind (matching_sender_chain P (chain_senders s) ctx tag i b) (\<lambda>(current, tf, old).
        rbind (case current of Some r \<Rightarrow> merge_unique_resolution m r | None \<Rightarrow> Inr m) (\<lambda>matched.
          resolve_route_match matched tf old)) = Inr r"
    using assms unfolding resolution_for_route_def matching_skipped_key_def by (rule rbindE)
  obtain cur tf old where cur: "matching_sender_loop P ctx tag i b (None, False, False) (chain_senders s) = Inr (cur, tf, old)"
    and last: "rbind (case cur of Some r \<Rightarrow> merge_unique_resolution m r | None \<Rightarrow> Inr m) (\<lambda>matched.
          resolve_route_match matched tf old) = Inr r"
    using rest unfolding matching_sender_chain_def by (rule rbindE) (simp split: prod.splits)
  obtain m' where m': "(case cur of Some r \<Rightarrow> merge_unique_resolution m r | None \<Rightarrow> Inr m) = Inr m'"
    and r: "m' = Some r"
    using last by (rule rbindE) (simp add: resolve_route_match_def split: option.splits if_splits)
  show ?thesis
  proof (cases cur)
    case None
    then show ?thesis
      using matching_skipped_origin [of tag i None "chain_skipped s" r s P ctx b] m m' r by simp
  next
    case (Some r')
    then show ?thesis
      using matching_sender_origin [of P ctx tag i b None False False "chain_senders s" r "(tf, old)" s] cur m' r
      by (simp add: merge_unique_iff)
  qed
qed

lemma resolution_for_route_shape:
  assumes "resolution_for_route P s ctx tag i b = Inr r"
  shows "resolution_shape s i r"
  using resolution_for_route_origin [OF assms]
proof cases
  case (origin_stored e)
  then show ?thesis by (auto simp: skipped_to_step_def)
next
  case (origin_walked c)
  then show ?thesis using derive_resolution_shape by blast
qed

text \<open>Route tags have 16 bytes.\<close>

definition tags_ok :: "SenderChainState \<Rightarrow> bool" where
  "tags_ok s \<longleftrightarrow> (\<forall>e \<in> set (chain_skipped s). length (sg_route_tag e) = 16)"

fun resolution_tags_ok :: "SenderChainResolution \<Rightarrow> bool" where
  "resolution_tags_ok (Res_Skipped step) \<longleftrightarrow> length (sm_route_tag step) = 16"
| "resolution_tags_ok (Res_CurrentOrFuture step sk) \<longleftrightarrow>
     length (sm_route_tag step) = 16 \<and> (\<forall>e \<in> set sk. length (sg_route_tag e) = 16)"

lemma ratchet_walk_tags:
  assumes P: "hash_ok P"
    and "ratchet_walk (sender_derive P c m) sm_next_chain_key (\<lambda>_. skipped_from_step) ex k cursor target = Inr (sk, step)"
  shows "length (sm_route_tag step) = 16 \<and> (\<forall>e \<in> set sk. length (sg_route_tag e) = 16)"
  using assms(2)
proof (induction "sender_derive P c m" "sm_next_chain_key :: SenderMessageStep \<Rightarrow> Secret32"
    "\<lambda>_ :: u64. skipped_from_step" ex k cursor target
    arbitrary: sk step rule: ratchet_walk.induct)
  case (1 ex k cursor target)
  obtain s0 where s0: "sender_derive P c m k cursor = Inr s0"
    using "1.prems" by (subst (asm) ratchet_walk.simps) (auto simp: rbind_Inr_iff)
  then have tag: "length (sm_route_tag s0) = 16"
    using derive_sender_message_stepD(5) [OF _ P] unfolding sender_derive_def by blast
  show ?case
  proof (cases "cursor = target")
    case True
    then show ?thesis
      using "1.prems" s0 tag by (subst (asm) ratchet_walk.simps) simp
  next
    case False
    obtain cursor' sk' where add: "ok_or (checked_add_u64 cursor 1) ex = Inr cursor'"
      and rest: "ratchet_walk (sender_derive P c m) sm_next_chain_key (\<lambda>_. skipped_from_step) ex
          (sm_next_chain_key s0) cursor' target = Inr (sk', step)"
      and sk: "sk = skipped_from_step s0 # sk'"
      using "1.prems" s0 False by (subst (asm) ratchet_walk.simps) (auto simp: rbind_Inr_iff)
    show ?thesis
      using "1.hyps" [OF s0 False add rest] tag by (simp add: sk skipped_from_step_def)
  qed
qed

lemma resolution_for_route_tags:
  assumes P: "hash_ok P" and s: "tags_ok s" and run: "resolution_for_route P s ctx tag i b = Inr r"
  shows "resolution_tags_ok r"
  using resolution_for_route_origin [OF run]
proof cases
  case (origin_stored e)
  then show ?thesis using s by (simp add: tags_ok_def skipped_to_step_def)
next
  case (origin_walked c)
  then show ?thesis
    using ratchet_walk_tags [OF P] by (auto simp: derive_resolution_for_cursor_def rbind_Inr_iff)
qed

lemma resolution_tag_length: "resolution_tags_ok r \<Longrightarrow> length (sm_route_tag (resolution_step r)) = 16"
  by (cases r) simp_all

section \<open>Effects\<close>

text \<open>Moving a sender's cursor: the only change an accepted step makes to the cursors.\<close>

abbreviation advance :: "MemberId \<Rightarrow> Secret32 \<Rightarrow> u64 \<Rightarrow> SenderChainState \<Rightarrow> SenderChainState" where
  "advance m k i \<equiv> update_cursor m (\<lambda>c. c\<lparr>sc_chain_key := k, sc_next_index := i\<rparr>)"

lemma update_first_twice:
  "(\<And>x. p x \<Longrightarrow> p (f x)) \<Longrightarrow> update_first p g (update_first p f xs) = update_first p (g \<circ> f) xs"
  by (induction xs) auto

lemma update_cursor_twice:
  "update_cursor m (\<lambda>c. c\<lparr>sc_next_index := i\<rparr>) (update_cursor m (\<lambda>c. c\<lparr>sc_chain_key := k\<rparr>) s) = advance m k i s"
  by (simp add: update_cursor_def update_first_twice o_def)

lemma next_send_step_cases:
  obtains (refused) e where "next_send_step P ctx m s = (Inl e, s)"
  | (sent) c step where "find (\<lambda>e. sc_sender e = m) (chain_senders s) = Some c" "sc_next_index c \<noteq> u64_max"
      "derive_sender_message_step P (sc_chain_key c) ctx m (sc_next_index c) = Inr step"
      "next_send_step P ctx m s = (Inr step, advance m (sm_next_chain_key step) (sc_next_index c + 1) s)"
proof (cases "rbind (ok_or (find (\<lambda>e. sc_sender e = m) (chain_senders s)) (GE_SenderNotAllowed m)) (\<lambda>cursor.
       rbind (ensure (sc_next_index cursor \<noteq> u64_max) GE_CounterExhausted) (\<lambda>_.
       rbind (derive_sender_message_step P (sc_chain_key cursor) ctx m (sc_next_index cursor)) (\<lambda>step.
         Inr (cursor, step))))")
  case (Inl e)
  then have "next_send_step P ctx m s = (Inl e, s)"
    by (simp add: next_send_step_def st_bind_def st_lift_def)
  then show thesis by (rule refused)
next
  case (Inr cs)
  then obtain c step where cs: "cs = (c, step)" and
    c: "find (\<lambda>e. sc_sender e = m) (chain_senders s) = Some c" "sc_next_index c \<noteq> u64_max"
      "derive_sender_message_step P (sc_chain_key c) ctx m (sc_next_index c) = Inr step"
    by (auto simp: result_simps)
  have "next_send_step P ctx m s = (Inr step, advance m (sm_next_chain_key step) (sc_next_index c + 1) s)"
    using Inr c(2) update_cursor_twice
    by (simp add: next_send_step_def cs st_bind_def st_lift_def st_modify_def checked_add_u64_one)
  then show thesis using sent c by blast
qed

lemma commit_resolution_cases [consumes 2]:
  assumes "resolution_shape s i r" and "i \<noteq> u64_max"
  obtains (refused) e where "commit_resolution r b s = (Inl e, s)"
  | (skipped) step pos where "r = Res_Skipped step"
      "position (\<lambda>e. sg_sender e = sm_sender step \<and> sg_index e = sm_index step \<and>
         route_tag_eq (sg_route_tag e) (sm_route_tag step)) (chain_skipped s) = Some pos"
      "commit_resolution r b s = (Inr (), s\<lparr>chain_skipped := remove_nth pos (chain_skipped s)\<rparr>)"
  | (walked) step sk c where "r = Res_CurrentOrFuture step sk"
      "find (\<lambda>e. sc_sender e = sm_sender step) (chain_senders s) = Some c" "sc_next_index c \<le> i"
      "length (filter (\<lambda>e. sg_sender e = sm_sender step) (chain_skipped s)) + length sk \<le> b"
      "commit_resolution r b s = (Inr (), (advance (sm_sender step) (sm_next_chain_key step) (i + 1) s)
         \<lparr>chain_skipped := chain_skipped s @ sk\<rparr>)"
proof (cases r)
  case (Res_Skipped step)
  show thesis
  proof (cases "position (\<lambda>e. sg_sender e = sm_sender step \<and> sg_index e = sm_index step \<and>
         route_tag_eq (sg_route_tag e) (sm_route_tag step)) (chain_skipped s)")
    case None
    then have "commit_resolution r b s = (Inl GE_InvalidSenderChain, s)"
      by (simp add: Res_Skipped st_bind_def st_lift_def)
    then show thesis by (rule refused)
  next
    case (Some pos)
    then have "commit_resolution r b s = (Inr (), s\<lparr>chain_skipped := remove_nth pos (chain_skipped s)\<rparr>)"
      by (simp add: Res_Skipped st_bind_def st_lift_def st_modify_def)
    then show thesis using skipped Res_Skipped Some by blast
  qed
next
  case (Res_CurrentOrFuture step sk)
  let ?check = "rbind (ok_or (find (\<lambda>e. sc_sender e = sm_sender step) (chain_senders s))
                (GE_SenderNotAllowed (sm_sender step))) (\<lambda>cursor.
       rbind (ensure (\<not> sm_index step < sc_next_index cursor) GE_InvalidSenderChain) (\<lambda>_.
       let skipped_for_sender = length (filter (\<lambda>e. sg_sender e = sm_sender step) (chain_skipped s)) in
       ensure (case checked_add_usize skipped_for_sender (length sk) of
                 None \<Rightarrow> False | Some n \<Rightarrow> \<not> b < n) GE_InvalidSenderChain))"
  have i: "sm_index step = i"
    using assms(1) by (simp add: Res_CurrentOrFuture)
  show thesis
  proof (cases ?check)
    case (Inl e)
    then have "commit_resolution r b s = (Inl e, s)"
      by (simp add: Res_CurrentOrFuture st_bind_def st_lift_def)
    then show thesis by (rule refused)
  next
    case (Inr u)
    then obtain c where c: "find (\<lambda>e. sc_sender e = sm_sender step) (chain_senders s) = Some c" "sc_next_index c \<le> i"
      "length (filter (\<lambda>e. sg_sender e = sm_sender step) (chain_skipped s)) + length sk \<le> b"
      by (auto simp: result_simps Let_def i checked_add_usize_def not_less split: if_splits option.splits)
    have "chain_skipped (advance (sm_sender step) k j s) = chain_skipped s" for k j
      by (simp add: update_cursor_def)
    then have "commit_resolution r b s = (Inr (), (advance (sm_sender step) (sm_next_chain_key step) (i + 1) s)
         \<lparr>chain_skipped := chain_skipped s @ sk\<rparr>)"
      using Inr assms(2) update_cursor_twice
      by (simp add: Res_CurrentOrFuture st_bind_def st_lift_def st_modify_def checked_add_u64_one i)
    then show thesis using walked Res_CurrentOrFuture c by blast
  qed
qed

section \<open>Which messages can still be opened\<close>

text \<open>A message can be opened while its key is stored or its sender's cursor has not passed it.\<close>

definition stored :: "SenderChainState \<Rightarrow> MemberId \<Rightarrow> u64 \<Rightarrow> bool" where
  "stored s m i \<longleftrightarrow> (m, i) \<in> skipped_id ` set (chain_skipped s)"

definition ahead :: "SenderChainState \<Rightarrow> MemberId \<Rightarrow> u64 \<Rightarrow> bool" where
  "ahead s m i \<longleftrightarrow> (\<exists>c \<in> set (chain_senders s). sc_sender c = m \<and> sc_next_index c \<le> i)"

definition available :: "SenderChainState \<Rightarrow> MemberId \<Rightarrow> u64 \<Rightarrow> bool" where
  "available s m i \<longleftrightarrow> stored s m i \<or> ahead s m i"

lemma stored_cursor:
  assumes "chains_ok b s" and "stored s m i"
  obtains c where "c \<in> set (chain_senders s)" "sc_sender c = m" "i < sc_next_index c"
proof -
  obtain e where e: "e \<in> set (chain_skipped s)" "sg_sender e = m" "sg_index e = i"
    using assms(2) unfolding stored_def skipped_id_def by blast
  then show ?thesis
    using assms(1) that unfolding chains_ok_def by blast
qed

lemma ahead_iff:
  assumes ok: "chains_ok b s" and c: "find (\<lambda>e. sc_sender e = m) (chain_senders s) = Some c"
  shows "ahead s m i \<longleftrightarrow> sc_next_index c \<le> i"
proof -
  have "c \<in> set (chain_senders s)" "sc_sender c = m"
    using find_SomeD [OF c] by simp_all
  moreover have "x = c" if "x \<in> set (chain_senders s)" "sc_sender x = m" for x
    using find_cursor [OF ok that(1)] c that(2) by simp
  ultimately show ?thesis
    unfolding ahead_def by blast
qed

lemma stored_not_ahead: "chains_ok b s \<Longrightarrow> stored s m i \<Longrightarrow> \<not> ahead s m i"
proof -
  assume ok: "chains_ok b s" and "stored s m i"
  then obtain c where c: "c \<in> set (chain_senders s)" "sc_sender c = m" "i < sc_next_index c"
    by (rule stored_cursor)
  then show "\<not> ahead s m i"
    using ahead_iff [OF ok, of m c i] find_cursor [OF ok c(1)] by simp
qed

lemma chain_senders_advance:
  assumes "chains_ok b s"
  shows "chain_senders (advance m k j s) =
    map (\<lambda>c. if sc_sender c = m then c\<lparr>sc_chain_key := k, sc_next_index := j\<rparr> else c) (chain_senders s)"
  using assms by (simp add: chains_ok_def update_cursor_def update_first_eq_map)

lemma chain_skipped_advance [simp]: "chain_skipped (update_cursor m f s) = chain_skipped s"
  by (simp add: update_cursor_def)

lemma advance_ok:
  assumes ok: "chains_ok b s" and c: "find (\<lambda>e. sc_sender e = m) (chain_senders s) = Some c" and j: "sc_next_index c \<le> j"
  shows "chains_ok b (advance m k j s)"
proof -
  have mem: "c \<in> set (chain_senders s)" "sc_sender c = m"
    using find_SomeD [OF c] by simp_all
  have uniq: "c' = c" if "c' \<in> set (chain_senders s)" "sc_sender c' = m" for c'
    using find_cursor [OF ok that(1)] c that(2) by simp
  let ?f = "\<lambda>c. if sc_sender c = m then c\<lparr>sc_chain_key := k, sc_next_index := j\<rparr> else c"
  have "map sc_sender (map ?f (chain_senders s)) = map sc_sender (chain_senders s)"
    by simp
  moreover have "\<exists>x \<in> set (map ?f (chain_senders s)). sc_sender x = sg_sender e \<and> sg_index e < sc_next_index x"
    if e: "e \<in> set (chain_skipped s)" for e
  proof -
    obtain x where x: "x \<in> set (chain_senders s)" "sc_sender x = sg_sender e" "sg_index e < sc_next_index x"
      using ok e unfolding chains_ok_def by blast
    then show ?thesis
      using uniq [OF x(1)] j by (intro bexI [of _ "?f x"]) (auto simp: word_less_nat_alt word_le_nat_alt)
  qed
  ultimately show ?thesis
    using ok unfolding chains_ok_def chain_senders_advance [OF ok] chain_skipped_advance by (simp only: simp_thms) blast
qed

lemma ahead_advance:
  assumes ok: "chains_ok b s" and c: "find (\<lambda>e. sc_sender e = m) (chain_senders s) = Some c"
  shows "ahead (advance m k j s) m' i \<longleftrightarrow> (if m' = m then j \<le> i else ahead s m' i)"
proof -
  let ?f = "\<lambda>c. if sc_sender c = m then c\<lparr>sc_chain_key := k, sc_next_index := j\<rparr> else c"
  have mem: "c \<in> set (chain_senders s)" "sc_sender c = m"
    using find_SomeD [OF c] by simp_all
  have f: "sc_sender (?f x) = m' \<and> sc_next_index (?f x) \<le> i \<longleftrightarrow>
      sc_sender x = m' \<and> (if m' = m then j \<le> i else sc_next_index x \<le> i)" for x
    by simp
  have "ahead (advance m k j s) m' i \<longleftrightarrow> (\<exists>x \<in> set (chain_senders s). sc_sender (?f x) = m' \<and> sc_next_index (?f x) \<le> i)"
    unfolding ahead_def chain_senders_advance [OF ok] set_map by blast
  also have "\<dots> \<longleftrightarrow> (if m' = m then j \<le> i else ahead s m' i)"
    unfolding f ahead_def using mem by (cases "m' = m") auto
  finally show ?thesis .
qed

text \<open>What opening a message at \<open>i\<close> from \<open>m\<close> does to the chains.\<close>

lemma commit_skipped_effect:
  assumes ok: "chains_ok b s" and p: "position (\<lambda>e. sg_sender e = m \<and> sg_index e = i \<and> Q e) (chain_skipped s) = Some pos"
  defines "s' \<equiv> s\<lparr>chain_skipped := remove_nth pos (chain_skipped s)\<rparr>"
  shows "chains_ok b s'" and "\<And>m' j. available s' m' j \<Longrightarrow> available s m' j"
    and "available s m i" and "\<not> available s' m i"
proof -
  have pos: "pos < length (chain_skipped s)" "skipped_id (chain_skipped s ! pos) = (m, i)"
    using position_Some [OF p] by (simp_all add: skipped_id_def)
  have d: "distinct (map skipped_id (chain_skipped s))"
    using ok by (simp add: chains_ok_def)
  note rem = distinct_map_remove_nth [OF d pos(1)]
  have sub: "set (remove_nth pos (chain_skipped s)) \<subseteq> set (chain_skipped s)"
    by (rule set_remove_nth_subset)
  have "length (filter Q (remove_nth pos (chain_skipped s))) \<le> length (filter Q (chain_skipped s))" for Q
  proof -
    have "filter Q (chain_skipped s) = filter Q (take pos (chain_skipped s)) @ filter Q (drop pos (chain_skipped s))"
      by (metis append_take_drop_id filter_append)
    moreover have "drop pos (chain_skipped s) = chain_skipped s ! pos # drop (Suc pos) (chain_skipped s)"
      using pos(1) by (simp add: Cons_nth_drop_Suc)
    ultimately show ?thesis by (simp add: remove_nth_def)
  qed
  then have "length (filter (\<lambda>e. sg_sender e = m) (remove_nth pos (chain_skipped s))) \<le> b" for m
    using ok unfolding chains_ok_def by (meson order_trans)
  then show "chains_ok b s'"
    using ok rem(1) sub unfolding chains_ok_def s'_def by auto
  have stored: "stored s' m' j \<longleftrightarrow> stored s m' j \<and> (m', j) \<noteq> (m, i)" for m' j
    unfolding stored_def s'_def using rem(2) pos(2) by (fastforce simp: image_iff)
  have ahead: "ahead s' m' j = ahead s m' j" for m' j
    by (simp add: ahead_def s'_def)
  show "available s m' j" if "available s' m' j" for m' j
    using that unfolding available_def stored ahead by blast
  have "stored s m i"
    unfolding stored_def using pos nth_mem by (metis image_eqI)
  then show "available s m i" "\<not> available s' m i"
    using stored_not_ahead [OF ok] by (simp_all add: available_def stored ahead)
qed

lemma commit_walk_effect:
  fixes k :: Secret32
  assumes ok: "chains_ok b s" and shape: "resolution_shape s i (Res_CurrentOrFuture step sk)"
    and c: "find (\<lambda>e. sc_sender e = sm_sender step) (chain_senders s) = Some c" and i: "i \<noteq> u64_max"
    and room: "length (filter (\<lambda>e. sg_sender e = sm_sender step) (chain_skipped s)) + length sk \<le> b"
  defines "s' \<equiv> (advance (sm_sender step) k (i + 1) s)\<lparr>chain_skipped := chain_skipped s @ sk\<rparr>"
  shows "chains_ok b s'" and "\<And>m' j. available s' m' j \<Longrightarrow> available s m' j"
    and "available s (sm_sender step) i" and "\<not> available s' (sm_sender step) i"
proof -
  let ?m = "sm_sender step" and ?a = "advance (sm_sender step) k (i + 1) s"
  have mem: "c \<in> set (chain_senders s)" "sc_sender c = ?m"
    using find_SomeD [OF c] by simp_all
  obtain c' where "c' \<in> set (chain_senders s)" "sc_sender c' = ?m" "sc_next_index c' \<le> i"
    "\<forall>e \<in> set sk. sg_sender e = ?m" "map (unat \<circ> sg_index) sk = [unat (sc_next_index c')..<unat i]"
    using shape by auto
  moreover have "c' = c" if "c' \<in> set (chain_senders s)" "sc_sender c' = ?m" for c'
    using find_cursor [OF ok that(1)] c that(2) by simp
  ultimately have sk: "sc_next_index c \<le> i" "\<forall>e \<in> set sk. sg_sender e = ?m"
      "map (unat \<circ> sg_index) sk = [unat (sc_next_index c)..<unat i]"
    by blast+
  have suc: "unat (i + 1) = Suc (unat i)"
    using i by (simp add: unat_u64_Suc)
  have range: "sc_next_index c \<le> sg_index e \<and> sg_index e < i" if "e \<in> set sk" for e
  proof -
    have "unat (sg_index e) \<in> set (map (unat \<circ> sg_index) sk)"
      using that by simp
    then show ?thesis
      unfolding sk(3) by (simp add: word_le_nat_alt word_less_nat_alt)
  qed
  have j: "sc_next_index c \<le> i + 1"
    using sk(1) suc by (simp add: word_le_nat_alt)
  note a = advance_ok [OF ok c j, where k = k] and av = ahead_advance [OF ok c, where k = k and j = "i + 1"]
  have old: "\<not> stored s ?m j" if "sc_next_index c \<le> j" for j
    using stored_not_ahead [OF ok] ahead_iff [OF ok c] that by blast
  have "distinct (map skipped_id sk)"
  proof -
    have "distinct (map (unat \<circ> sg_index) sk)"
      unfolding sk(3) by simp
    then show ?thesis
      by (auto simp: distinct_map inj_on_def skipped_id_def)
  qed
  moreover have "skipped_id ` set sk \<inter> skipped_id ` set (chain_skipped s) = {}"
  proof -
    have "skipped_id e \<notin> skipped_id ` set (chain_skipped s)" if "e \<in> set sk" for e
      using old [of "sg_index e"] range [OF that] sk(2) that by (simp add: stored_def skipped_id_def)
    then show ?thesis by blast
  qed
  ultimately have d: "distinct (map skipped_id (chain_skipped s @ sk))"
    using ok by (auto simp: chains_ok_def)
  have new: "\<exists>x \<in> set (chain_senders ?a). sc_sender x = sg_sender e \<and> sg_index e < sc_next_index x" if "e \<in> set sk" for e
    unfolding chain_senders_advance [OF ok] using mem sk(2) range [OF that] that suc
    by (intro bexI [of _ "c\<lparr>sc_chain_key := k, sc_next_index := i + 1\<rparr>"])
      (auto simp: word_less_nat_alt image_iff intro!: bexI [of _ c])
  have "length (filter (\<lambda>e. sg_sender e = m) (chain_skipped s @ sk)) \<le> b" for m
  proof (cases "m = ?m")
    case True
    then show ?thesis using room order_trans [OF add_left_mono [OF length_filter_le]] by simp
  next
    case False
    then have "filter (\<lambda>e. sg_sender e = m) sk = []"
      using sk(2) by (simp add: filter_empty_conv)
    then show ?thesis using ok by (simp add: chains_ok_def)
  qed
  then show "chains_ok b s'"
    using a d new unfolding chains_ok_def s'_def by auto
  have stored: "stored s' m' j \<longleftrightarrow> stored s m' j \<or> (m', j) \<in> skipped_id ` set sk" for m' j
    unfolding stored_def s'_def by auto
  have ahead: "ahead s' m' j \<longleftrightarrow> (if m' = ?m then i + 1 \<le> j else ahead s m' j)" for m' j
    using av [of m' j] by (simp add: ahead_def s'_def)
  have walked: "ahead s m' j \<and> j < i" if "(m', j) \<in> skipped_id ` set sk" for m' j
    using that sk(2) range ahead_iff [OF ok c] unfolding skipped_id_def by auto
  show "available s m' j" if "available s' m' j" for m' j
  proof -
    have "ahead s ?m j" if "i + 1 \<le> j"
      using ahead_iff [OF ok c] j that order_trans by blast
    then show ?thesis
      using that walked [of m' j] by (auto simp: available_def stored ahead split: if_splits)
  qed
  show "available s ?m i"
    using ahead_iff [OF ok c] sk(1) by (simp add: available_def)
  have "\<not> i + 1 \<le> i"
    using suc by (simp add: word_le_nat_alt)
  then show "\<not> available s' ?m i"
    using old [OF sk(1)] walked [of ?m i] by (auto simp: available_def stored ahead)
qed

lemma senders_advance [simp]: "map sc_sender (chain_senders (advance m k j s)) = map sc_sender (chain_senders s)"
  by (simp add: update_cursor_def map_update_first)

text \<open>Sending and accepting use up a message that was available, and make no message available again.\<close>

lemma next_send_step_effect:
  assumes ok: "chains_ok b s" and run: "next_send_step P ctx m s = (res, s')"
  shows "chains_ok b s'" and "\<And>m' j. available s' m' j \<Longrightarrow> available s m' j"
    and "map sc_sender (chain_senders s') = map sc_sender (chain_senders s)"
    and "res = Inl e \<Longrightarrow> s' = s"
    and "res = Inr step \<Longrightarrow> sm_sender step = m \<and> ahead s m (sm_index step) \<and> \<not> available s' m (sm_index step)"
proof -
  have "chains_ok b s' \<and> (\<forall>m' j. available s' m' j \<longrightarrow> available s m' j) \<and>
      map sc_sender (chain_senders s') = map sc_sender (chain_senders s) \<and> (\<forall>e. res = Inl e \<longrightarrow> s' = s) \<and>
      (\<forall>step. res = Inr step \<longrightarrow> sm_sender step = m \<and> ahead s m (sm_index step) \<and> \<not> available s' m (sm_index step))"
  proof (cases rule: next_send_step_cases [of P ctx m s])
    case (refused e)
    then show ?thesis using run ok by simp
  next
    case (sent c step)
    let ?i = "sc_next_index c"
    have s': "s' = advance m (sm_next_chain_key step) (?i + 1) s" and res: "res = Inr step"
      using run sent(4) by simp_all
    have suc: "unat (?i + 1) = Suc (unat ?i)"
      using sent(2) by (simp add: unat_u64_Suc)
    have j: "?i \<le> ?i + 1" "\<not> ?i + 1 \<le> ?i"
      using suc by (simp_all add: word_le_nat_alt)
    note d = derive_sender_message_stepD(1,2) [OF sent(3)]
    note av = ahead_advance [OF ok sent(1), where k = "sm_next_chain_key step" and j = "?i + 1"]
    have stored: "stored s' m' j = stored s m' j" for m' j
      by (simp add: stored_def s')
    have "ahead s m j" if "?i + 1 \<le> j" for j
      using ahead_iff [OF ok sent(1)] that j(1) order_trans by blast
    then have "available s m' j" if "available s' m' j" for m' j
      using that av [of m' j] stored unfolding available_def s' by (auto split: if_splits)
    moreover have "ahead s m ?i" "\<not> stored s m ?i"
      using ahead_iff [OF ok sent(1)] stored_not_ahead [OF ok] by auto
    moreover have "\<not> available s' m ?i"
      using av [of m ?i] j(2) stored calculation(3) unfolding available_def s' by simp
    ultimately show ?thesis
      using advance_ok [OF ok sent(1) j(1)] res d by (simp add: s')
  qed
  then show "chains_ok b s'" "\<And>m' j. available s' m' j \<Longrightarrow> available s m' j"
    "map sc_sender (chain_senders s') = map sc_sender (chain_senders s)" "res = Inl e \<Longrightarrow> s' = s"
    "res = Inr step \<Longrightarrow> sm_sender step = m \<and> ahead s m (sm_index step) \<and> \<not> available s' m (sm_index step)"
    by blast+
qed

lemma commit_resolution_effect:
  assumes ok: "chains_ok b s" and shape: "resolution_shape s i r" and i: "i \<noteq> u64_max"
    and run: "commit_resolution r b' s = (res, s')" and b: "b' \<le> b"
  shows "chains_ok b s'" and "\<And>m' j. available s' m' j \<Longrightarrow> available s m' j"
    and "map sc_sender (chain_senders s') = map sc_sender (chain_senders s)"
    and "res = Inl e \<Longrightarrow> s' = s"
    and "res = Inr u \<Longrightarrow> available s (sm_sender (resolution_step r)) i \<and>
      \<not> available s' (sm_sender (resolution_step r)) i"
proof -
  have "chains_ok b s' \<and> (\<forall>m' j. available s' m' j \<longrightarrow> available s m' j) \<and>
      map sc_sender (chain_senders s') = map sc_sender (chain_senders s) \<and> (\<forall>e. res = Inl e \<longrightarrow> s' = s) \<and>
      (\<forall>u. res = Inr u \<longrightarrow> available s (sm_sender (resolution_step r)) i \<and>
        \<not> available s' (sm_sender (resolution_step r)) i)"
    using shape i
  proof (cases rule: commit_resolution_cases [where b = b'])
    case (refused e)
    then show ?thesis using run ok by simp
  next
    case (skipped step pos)
    have s': "s' = s\<lparr>chain_skipped := remove_nth pos (chain_skipped s)\<rparr>" and res: "res = Inr ()"
      using run skipped(3) by simp_all
    have "sm_index step = i"
      using shape skipped(1) by simp
    with commit_skipped_effect [OF ok skipped(2)] show ?thesis
      unfolding s' skipped(1) res by simp
  next
    case (walked step sk c)
    have s': "s' = (advance (sm_sender step) (sm_next_chain_key step) (i + 1) s)\<lparr>chain_skipped := chain_skipped s @ sk\<rparr>"
      and res: "res = Inr ()"
      using run walked(5) by simp_all
    note effect = commit_walk_effect [OF ok shape [unfolded walked(1)] walked(2) i order_trans [OF walked(4) b]]
    have "map sc_sender (chain_senders s') = map sc_sender (chain_senders s)"
      by (simp add: s' update_cursor_def map_update_first)
    then show ?thesis
      using effect(1,2,4) [where k = "sm_next_chain_key step", folded s'] effect(3) res walked(1) by simp
  qed
  then show "chains_ok b s'" "\<And>m' j. available s' m' j \<Longrightarrow> available s m' j"
    "map sc_sender (chain_senders s') = map sc_sender (chain_senders s)" "res = Inl e \<Longrightarrow> s' = s"
    "res = Inr u \<Longrightarrow> available s (sm_sender (resolution_step r)) i \<and> \<not> available s' (sm_sender (resolution_step r)) i"
    by blast+
qed

lemma next_send_step_tags: "next_send_step P ctx m s = (r, s') \<Longrightarrow> tags_ok s \<Longrightarrow> tags_ok s'"
  by (cases rule: next_send_step_cases [of P ctx m s]) (auto simp: tags_ok_def)

lemma commit_resolution_tags:
  assumes "resolution_shape s i r" and "i \<noteq> u64_max" and "commit_resolution r b s = (res, s')"
    and "tags_ok s" and "resolution_tags_ok r"
  shows "tags_ok s'"
  using assms(1,2)
proof (cases rule: commit_resolution_cases [where b = b])
  case (refused e)
  then show ?thesis using assms(3,4) by simp
next
  case (skipped step pos)
  then have "s' = s\<lparr>chain_skipped := remove_nth pos (chain_skipped s)\<rparr>" using assms(3) by simp
  then show ?thesis
    using assms(4) by (auto simp: tags_ok_def remove_nth_def dest: in_set_takeD in_set_dropD)
next
  case (walked step sk c)
  then have "chain_skipped s' = chain_skipped s @ sk" using assms(3) by auto
  then show ?thesis
    using assms(4,5) walked(1) by (auto simp: tags_ok_def)
qed

section \<open>Snapshots restore\<close>

lemma length_by_key:
  assumes "finite A" and "key ` set xs \<subseteq> A"
  shows "length xs = (\<Sum>m \<in> A. length (filter (\<lambda>x. key x = m) xs))"
  using assms(2)
proof (induction xs)
  case (Cons x xs)
  have "length (filter (\<lambda>y. key y = m) (x # xs)) = length (filter (\<lambda>y. key y = m) xs) + (if m = key x then 1 else 0)" for m
    by simp
  then have "(\<Sum>m \<in> A. length (filter (\<lambda>y. key y = m) (x # xs))) = (\<Sum>m \<in> A. length (filter (\<lambda>y. key y = m) xs)) + 1"
    using Cons.prems assms(1) by (simp only: sum.distrib) (simp add: sum.delta')
  then show ?case
    using Cons by simp
qed simp

lemma length_by_key_bound:
  assumes "finite A" and "key ` set xs \<subseteq> A" and "\<And>m. length (filter (\<lambda>x. key x = m) xs) \<le> b"
  shows "length xs \<le> card A * b"
  unfolding length_by_key [OF assms(1,2)] using assms(3) sum_bounded_above [of A _ b] by simp

lemma sorted_wrt_distinct: "distinct (map key xs) \<Longrightarrow> sorted_wrt (\<lambda>y x. \<not> key x = key y) xs"
  by (induction xs) (auto simp: image_iff)

definition allowed_senders :: "GroupMode \<Rightarrow> RosterEntry list \<Rightarrow> MemberId set" where
  "allowed_senders m roster = member_id ` set (active_sender_entries m roster)"

lemma card_allowed: "length roster \<le> 8192 \<Longrightarrow> card (allowed_senders m roster) \<le> 8192"
proof -
  assume "length roster \<le> 8192"
  moreover have "length (active_sender_entries m roster) \<le> length roster"
    by (simp add: active_sender_entries_def)
  moreover have "card (allowed_senders m roster) \<le> length (active_sender_entries m roster)"
    unfolding allowed_senders_def by (metis card_length length_map list.set_map)
  ultimately show ?thesis by linarith
qed

lemma snapshot_eta:
  "map (\<lambda>x. \<lparr>sc_sender = sc_sender x, sc_next_index = sc_next_index x, sc_chain_key = sc_chain_key x\<rparr>) cs = cs"
  "map (\<lambda>x. \<lparr>sg_sender = sg_sender x, sg_index = sg_index x, sg_route_tag = sg_route_tag x,
     sg_message_key = sg_message_key x\<rparr>) es = es"
  by (rule map_idI, simp)+

lemma chains_snapshot_restores:
  assumes ok: "chains_ok (sender_skip_bound m) s" and len: "length roster \<le> 8192"
    and senders: "sc_sender ` set (chain_senders s) \<subseteq> allowed_senders m roster"
  shows "chains_from_snapshot (chains_export_snapshot s) m roster = Inr s"
proof -
  let ?A = "allowed_senders m roster" and ?b = "sender_skip_bound m"
  let ?snap = "chains_export_snapshot s"
  have A: "set (map member_id (active_sender_entries m roster)) = ?A"
    by (simp add: allowed_senders_def)
  have fin: "finite ?A" by (simp add: allowed_senders_def)
  have ids: "map scs_sender (css_senders ?snap) = map sc_sender (chain_senders s)"
    by (simp add: chains_export_snapshot_def)
  have d: "distinct (map sc_sender (chain_senders s))" and ds: "distinct (map skipped_id (chain_skipped s))"
    and cnt: "\<And>m. length (filter (\<lambda>e. sg_sender e = m) (chain_skipped s)) \<le> ?b"
    using ok by (simp_all add: chains_ok_def)
  have "length (css_senders ?snap) \<le> card ?A"
    using d senders fin card_mono [OF fin, of "set (map sc_sender (chain_senders s))"] distinct_card [OF d] ids
    by (metis length_map list.set_map)
  moreover have "\<not> any_not_inserted ?A [] (map scs_sender (css_senders ?snap))"
    unfolding ids any_not_inserted_iff using d senders by simp
  moreover have "card ?A * ?b \<le> usize_max"
    using mult_le_mono [OF card_allowed [OF len, of m], of ?b 257] skip_bound_le_window [of m]
    by (simp add: usize_max_def)
  then have "checked_mul_usize (card ?A) ?b = Some (card ?A * ?b)"
    by (simp add: checked_mul_usize_def)
  moreover have key: "sg_sender ` set (chain_skipped s) \<subseteq> ?A"
    using ok senders unfolding chains_ok_def by fastforce
  have "length (css_skipped ?snap) \<le> card ?A * ?b"
    using length_by_key_bound [OF fin key cnt] by (simp add: chains_export_snapshot_def)
  moreover have "restore_loop sgs_sender skipped_clash ?A ?b [] (\<lambda>_. 0) (css_skipped ?snap) = Inr ()"
  proof -
    let ?g = "\<lambda>e. \<lparr>sgs_sender = sg_sender e, sgs_index = sg_index e, sgs_route_tag = sg_route_tag e,
        sgs_message_key = sg_message_key e\<rparr>"
    have snap: "css_skipped ?snap = map ?g (chain_skipped s)"
      by (simp add: chains_export_snapshot_def)
    have "sorted_wrt (\<lambda>y x. \<not> skipped_clash x y) (map ?g (chain_skipped s))"
      using sorted_wrt_distinct [OF ds] by (simp add: sorted_wrt_map skipped_clash_def skipped_id_def)
    moreover have "sgs_sender ` set (map ?g (chain_skipped s)) \<subseteq> ?A"
      using key by auto
    ultimately show ?thesis
      unfolding snap restore_loop_iff by (simp add: filter_map o_def cnt)
  qed
  ultimately show ?thesis
    unfolding chains_from_snapshot_def A Let_def
    by (simp add: chains_export_snapshot_def not_less o_def snapshot_eta)
qed

end
