(* ===== verification/Group_Replay.thy ===== *)
theory Group_Replay
  imports Group_Senders Replay_Window
begin

text \<open>
  Replay protection of a group (\<open>state/replay.rs\<close>): one replay window per active sender and the list
  of route tags accepted inside the windows.
\<close>

section \<open>Types\<close>

record AcceptedGroupMessage =
  am_sender :: MemberId
  am_index :: u64
  am_route_tag :: bytes

record SenderReplayState =
  sr_sender :: MemberId
  sr_replay :: ReplayWindow

record GroupReplayState =
  replay_senders :: "SenderReplayState list"
  accepted_messages :: "AcceptedGroupMessage list"

definition GroupReplayState_default :: GroupReplayState where
  "GroupReplayState_default = \<lparr>replay_senders = [], accepted_messages = []\<rparr>"

section \<open>Operations\<close>

fun map_group_replay_error :: "ReplayError \<Rightarrow> GroupError" where
  "map_group_replay_error Replay = GE_ReplayDetected"
| "map_group_replay_error TooOld = GE_MessageTooOld"

definition replay_install_epoch :: "GroupMode \<Rightarrow> RosterEntry list \<Rightarrow> (GroupReplayState, GroupError, unit) st" where
  "replay_install_epoch m roster =
     (let candidate = sort_key sr_sender
            (map (\<lambda>e. \<lparr>sr_sender = member_id e, sr_replay = replay_default\<rparr>) (active_sender_entries m roster)) in
      st_bind (st_lift (ensure (candidate \<noteq> []) GE_InvalidSenderChain)) (\<lambda>_.
        st_modify (\<lambda>s. s\<lparr>replay_senders := candidate, accepted_messages := []\<rparr>)))"

definition contains_route_tag :: "GroupReplayState \<Rightarrow> bytes \<Rightarrow> u64 \<Rightarrow> bool" where
  "contains_route_tag s route_tag index =
     list_ex (\<lambda>e. am_index e = index \<and> route_tag_eq (am_route_tag e) route_tag) (accepted_messages s)"

definition mark_accepted :: "MemberId \<Rightarrow> u64 \<Rightarrow> bytes \<Rightarrow> (GroupReplayState, GroupError, unit) st" where
  "mark_accepted sender index route_tag s =
     st_bind (st_lift (
       rbind (ensure (\<not> contains_route_tag s route_tag index) GE_ReplayDetected) (\<lambda>_.
       rbind (ok_or (find (\<lambda>e. sr_sender e = sender) (replay_senders s)) GE_InvalidSenderChain) (\<lambda>entry.
         map_err map_group_replay_error (replay_mark (sr_replay entry) index))))) (\<lambda>window.
     st_bind (st_modify (\<lambda>s. s\<lparr>replay_senders :=
         update_first (\<lambda>e. sr_sender e = sender) (\<lambda>e. e\<lparr>sr_replay := window\<rparr>) (replay_senders s)\<rparr>)) (\<lambda>_.
     let minimum_index = saturating_sub_u64 index (of_nat (REPLAY_WINDOW_WIDTH - 1)) in
     st_modify (\<lambda>s. s\<lparr>accepted_messages :=
         filter (\<lambda>e. am_sender e \<noteq> sender \<or> minimum_index \<le> am_index e) (accepted_messages s) @
         [\<lparr>am_sender = sender, am_index = index, am_route_tag = route_tag\<rparr>]\<rparr>))) s"

definition group_replay_clear :: "GroupReplayState \<Rightarrow> GroupReplayState" where
  "group_replay_clear s = s\<lparr>replay_senders := [], accepted_messages := []\<rparr>"

section \<open>Snapshots\<close>

record SenderReplayStateSnapshot =
  srs_sender :: MemberId
  srs_replay :: ReplayWindowSnapshot

record GroupReplayStateSnapshot =
  grs_senders :: "SenderReplayStateSnapshot list"
  grs_accepted_messages :: "AcceptedGroupMessage list"

definition group_replay_export_snapshot :: "GroupReplayState \<Rightarrow> GroupReplayStateSnapshot" where
  "group_replay_export_snapshot s =
     \<lparr>grs_senders = map (\<lambda>e. \<lparr>srs_sender = sr_sender e, srs_replay = replay_export_snapshot (sr_replay e)\<rparr>)
        (replay_senders s),
      grs_accepted_messages = accepted_messages s\<rparr>"

definition accepted_clash :: "AcceptedGroupMessage \<Rightarrow> AcceptedGroupMessage \<Rightarrow> bool" where
  "accepted_clash a b \<longleftrightarrow> (am_sender a, am_index a) = (am_sender b, am_index b) \<or>
     (am_index a, am_route_tag a) = (am_index b, am_route_tag b)"

definition group_replay_from_snapshot ::
    "GroupReplayStateSnapshot \<Rightarrow> GroupMode \<Rightarrow> RosterEntry list \<Rightarrow> GroupError + GroupReplayState" where
  "group_replay_from_snapshot snapshot m roster =
     (let allowed = set (map member_id (active_sender_entries m roster)) in
      rbind (ensure (\<not> card allowed < length (grs_senders snapshot)) GE_InvalidSenderChain) (\<lambda>_.
      rbind (ensure (\<not> any_not_inserted allowed [] (map srs_sender (grs_senders snapshot)))
               GE_InvalidSenderChain) (\<lambda>_.
      rbind (ok_or (checked_mul_usize (card allowed) REPLAY_WINDOW_WIDTH) GE_InvalidSenderChain) (\<lambda>max_accepted.
      rbind (ensure (\<not> max_accepted < length (grs_accepted_messages snapshot)) GE_InvalidSenderChain) (\<lambda>_.
      rbind (restore_loop am_sender accepted_clash allowed REPLAY_WINDOW_WIDTH [] (\<lambda>_. 0)
               (grs_accepted_messages snapshot)) (\<lambda>_.
        Inr \<lparr>replay_senders = map (\<lambda>e. \<lparr>sr_sender = srs_sender e, sr_replay = replay_from_snapshot (srs_replay e)\<rparr>)
               (grs_senders snapshot),
             accepted_messages = grs_accepted_messages snapshot\<rparr>))))))"

section \<open>What the replay state remembers\<close>

text \<open>
  \<open>replay_tracks s H\<close>: \<open>H\<close> is the set of messages accepted since the epoch was installed, by sender and
  index. Every sender's window represents its part of \<open>H\<close>, and the listed messages are in \<open>H\<close>, inside
  the window of their sender, with no index of a sender and no tagged index twice.
\<close>

definition accepted_id :: "AcceptedGroupMessage \<Rightarrow> MemberId \<times> u64" where
  "accepted_id a = (am_sender a, am_index a)"

definition accepted_tag :: "AcceptedGroupMessage \<Rightarrow> u64 \<times> bytes" where
  "accepted_tag a = (am_index a, am_route_tag a)"

definition of_sender :: "(MemberId \<times> u64) set \<Rightarrow> MemberId \<Rightarrow> nat set" where
  "of_sender H m = {unat i | i. (m, i) \<in> H}"

definition listed_ok :: "(MemberId \<times> u64) set \<Rightarrow> AcceptedGroupMessage \<Rightarrow> bool" where
  "listed_ok H a \<longleftrightarrow> accepted_id a \<in> H \<and> length (am_route_tag a) = 16 \<and>
     (\<forall>n \<in> of_sender H (am_sender a). n < unat (am_index a) + REPLAY_WINDOW_WIDTH)"

definition replay_tracks :: "GroupReplayState \<Rightarrow> (MemberId \<times> u64) set \<Rightarrow> bool" where
  "replay_tracks s H \<longleftrightarrow> distinct (map sr_sender (replay_senders s)) \<and>
     (\<forall>r \<in> set (replay_senders s). represents (sr_replay r) (of_sender H (sr_sender r))) \<and>
     fst ` H \<subseteq> sr_sender ` set (replay_senders s) \<and>
     (\<forall>a \<in> set (accepted_messages s). listed_ok H a) \<and>
     distinct (map accepted_id (accepted_messages s)) \<and> distinct (map accepted_tag (accepted_messages s))"

lemma route_tag_eq_iff: "length l = length r \<Longrightarrow> route_tag_eq l r \<longleftrightarrow> l = r"
  by (simp add: route_tag_eq_def differences_zero_iff)

lemma of_sender_insert: "of_sender (insert (m, i) H) m' = (if m' = m then insert (unat i) (of_sender H m) else of_sender H m')"
  by (auto simp: of_sender_def)

lemma of_sender_iff: "unat i \<in> of_sender H m \<longleftrightarrow> (m, i) \<in> H"
  by (auto simp: of_sender_def simp flip: word_unat_eq_iff)

lemma replay_tracks_default: "replay_tracks GroupReplayState_default {}"
  by (simp add: replay_tracks_def GroupReplayState_default_def)

lemma replay_install_tracks:
  assumes run: "replay_install_epoch m roster s0 = (Inr u, s)" and d: "distinct (map member_id roster)"
  shows "replay_tracks s {}" and "sr_sender ` set (replay_senders s) = allowed_senders m roster"
proof -
  have s: "s = s0\<lparr>replay_senders := sort_key sr_sender (map (\<lambda>e. \<lparr>sr_sender = member_id e, sr_replay = replay_default\<rparr>)
      (active_sender_entries m roster)), accepted_messages := []\<rparr>"
    using run by (auto simp: replay_install_epoch_def Let_def result_simps)
  have "distinct (map member_id (active_sender_entries m roster))"
    using d by (simp add: active_sender_entries_def distinct_map_filter)
  then show "replay_tracks s {}"
    by (simp add: replay_tracks_def s distinct_map_sort_key o_def of_sender_def)
  show "sr_sender ` set (replay_senders s) = allowed_senders m roster"
    by (simp add: s allowed_senders_def image_image)
qed

text \<open>Marking a message fails without a change, or records a message that is not in the history.\<close>

lemma mark_accepted_cases:
  obtains (refused) e where "mark_accepted m i tag s = (Inl e, s)"
  | (marked) r w where "\<not> contains_route_tag s tag i" "find (\<lambda>e. sr_sender e = m) (replay_senders s) = Some r"
      "replay_mark (sr_replay r) i = Inr w"
      "mark_accepted m i tag s = (Inr (), s
        \<lparr>replay_senders := update_first (\<lambda>e. sr_sender e = m) (\<lambda>e. e\<lparr>sr_replay := w\<rparr>) (replay_senders s),
         accepted_messages := filter (\<lambda>e. am_sender e \<noteq> m \<or> saturating_sub_u64 i 256 \<le> am_index e) (accepted_messages s) @
           [\<lparr>am_sender = m, am_index = i, am_route_tag = tag\<rparr>]\<rparr>)"
proof (cases "rbind (ensure (\<not> contains_route_tag s tag i) GE_ReplayDetected) (\<lambda>_.
       rbind (ok_or (find (\<lambda>e. sr_sender e = m) (replay_senders s)) GE_InvalidSenderChain) (\<lambda>entry.
         map_err map_group_replay_error (replay_mark (sr_replay entry) i)))")
  case (Inl e)
  then have "mark_accepted m i tag s = (Inl e, s)"
    by (simp add: mark_accepted_def st_bind_def st_lift_def)
  then show thesis by (rule refused)
next
  case (Inr w)
  then obtain r where r: "\<not> contains_route_tag s tag i" "find (\<lambda>e. sr_sender e = m) (replay_senders s) = Some r"
      "replay_mark (sr_replay r) i = Inr w"
    by (auto simp: result_simps)
  show thesis
    by (rule marked [OF r]) (use Inr in \<open>simp add: mark_accepted_def st_bind_def st_lift_def st_modify_def Let_def\<close>)
qed

lemma mark_accepted_tracks:
  assumes s: "replay_tracks s H" and tag: "length tag = 16" and run: "mark_accepted m i tag s = (res, s')"
  shows "res = Inl e \<Longrightarrow> s' = s" and "res = Inr u \<Longrightarrow> (m, i) \<notin> H \<and> replay_tracks s' (insert (m, i) H)"
    and "map sr_sender (replay_senders s') = map sr_sender (replay_senders s)"
proof -
  have "(\<forall>e. res = Inl e \<longrightarrow> s' = s) \<and> (\<forall>u. res = Inr u \<longrightarrow> (m, i) \<notin> H \<and> replay_tracks s' (insert (m, i) H)) \<and>
      map sr_sender (replay_senders s') = map sr_sender (replay_senders s)"
  proof (cases rule: mark_accepted_cases [of m i tag s])
    case (refused e)
    then show ?thesis using run by simp
  next
    case (marked r w)
    let ?H = "insert (m, i) H"
    let ?kept = "filter (\<lambda>e. am_sender e \<noteq> m \<or> saturating_sub_u64 i 256 \<le> am_index e) (accepted_messages s)"
    let ?new = "\<lparr>am_sender = m, am_index = i, am_route_tag = tag\<rparr>"
    have s': "replay_senders s' = update_first (\<lambda>e. sr_sender e = m) (\<lambda>e. e\<lparr>sr_replay := w\<rparr>) (replay_senders s)"
        "accepted_messages s' = ?kept @ [?new]" and res: "res = Inr ()"
      using run marked(4) by auto
    have d: "distinct (map sr_sender (replay_senders s))"
      and win: "\<And>r. r \<in> set (replay_senders s) \<Longrightarrow> represents (sr_replay r) (of_sender H (sr_sender r))"
      and listed: "\<And>a. a \<in> set (accepted_messages s) \<Longrightarrow> listed_ok H a"
      and ids: "distinct (map accepted_id (accepted_messages s))" "distinct (map accepted_tag (accepted_messages s))"
      and dom: "fst ` H \<subseteq> sr_sender ` set (replay_senders s)"
      using s by (simp_all add: replay_tracks_def)
    have r: "r \<in> set (replay_senders s)" "sr_sender r = m"
      using find_SomeD [OF marked(2)] by simp_all
    have rep: "represents (sr_replay r) (of_sender H m)"
      using win [OF r(1)] r(2) by simp
    note mark = replay_mark_represents [OF rep marked(3)]
    have fresh: "(m, i) \<notin> H"
      using mark(1) by (simp add: of_sender_iff)
    have spec: "replay_spec_check (of_sender H m) (unat i) = Inr ()" and fin: "finite (of_sender H m)"
      using replay_mark_accepts_iff [OF rep, of i] marked(3) rep by (blast, simp add: represents_def)
    have inwin: "n < unat i + REPLAY_WINDOW_WIDTH" if n: "n \<in> of_sender H m" for n
    proof -
      have "Max (of_sender H m) < unat i + REPLAY_WINDOW_WIDTH"
        using spec n by (simp add: replay_spec_check_def split: if_splits) (use n in auto)
      then show ?thesis using Max_ge [OF fin n] by linarith
    qed
    have new: "listed_ok ?H ?new"
      using tag inwin by (auto simp: listed_ok_def accepted_id_def of_sender_insert)
    have keep: "listed_ok ?H a" if a: "a \<in> set ?kept" for a
    proof -
      have "unat i < unat (am_index a) + REPLAY_WINDOW_WIDTH" if "am_sender a = m"
        using a that by (auto simp: saturating_sub_u64_def word_le_nat_alt unat_sub split: if_splits)
      then show ?thesis
        using listed [of a] a by (auto simp: listed_ok_def of_sender_insert)
    qed
    have senders: "replay_senders s' = map (\<lambda>x. if sr_sender x = m then x\<lparr>sr_replay := w\<rparr> else x) (replay_senders s)"
      by (simp add: s' update_first_eq_map [OF d])
    have wins: "represents (sr_replay x) (of_sender ?H (sr_sender x))" if "x \<in> set (replay_senders s')" for x
      using that win mark(2) unfolding senders by (auto simp: of_sender_insert)
    have "accepted_id ?new \<notin> accepted_id ` set ?kept"
      using fresh listed by (fastforce simp: accepted_id_def listed_ok_def)
    moreover have "accepted_tag ?new \<notin> accepted_tag ` set ?kept"
    proof
      assume "accepted_tag ?new \<in> accepted_tag ` set ?kept"
      then obtain a where a: "a \<in> set (accepted_messages s)" "am_index a = i" "am_route_tag a = tag"
        by (auto simp: accepted_tag_def)
      then show False
        using marked(1) route_tag_eq_iff [of tag tag] by (auto simp: contains_route_tag_def list_ex_iff)
    qed
    ultimately have "distinct (map accepted_id (accepted_messages s'))" "distinct (map accepted_tag (accepted_messages s'))"
      using ids by (simp_all add: s' distinct_map_filter)
    moreover have names: "map sr_sender (replay_senders s') = map sr_sender (replay_senders s)"
      by (simp add: s' map_update_first)
    moreover have "fst ` ?H \<subseteq> sr_sender ` set (replay_senders s')"
      using dom r names by (metis image_insert fst_conv insert_subset list.set_map rev_image_eqI)
    ultimately have "replay_tracks s' ?H"
      using d wins keep new by (auto simp: replay_tracks_def s'(2))
    then show ?thesis
      using fresh res names by simp
  qed
  then show "res = Inl e \<Longrightarrow> s' = s" "res = Inr u \<Longrightarrow> (m, i) \<notin> H \<and> replay_tracks s' (insert (m, i) H)"
    "map sr_sender (replay_senders s') = map sr_sender (replay_senders s)"
    by blast+
qed

text \<open>At most 257 messages of one sender are listed: their indices are distinct and lie in one window.\<close>

lemma listed_bound:
  assumes s: "replay_tracks s H"
  shows "length (filter (\<lambda>a. am_sender a = m) (accepted_messages s)) \<le> REPLAY_WINDOW_WIDTH"
proof -
  let ?as = "filter (\<lambda>a. am_sender a = m) (accepted_messages s)"
  let ?N = "(\<lambda>a. unat (am_index a)) ` set ?as"
  have listed: "listed_ok H a" if "a \<in> set ?as" for a
    using s that by (auto simp: replay_tracks_def)
  have "distinct (map accepted_id ?as)"
    using s by (simp add: replay_tracks_def distinct_map_filter)
  then have "inj_on (\<lambda>a. unat (am_index a)) (set ?as)" "distinct ?as"
    by (auto simp: distinct_map inj_on_def accepted_id_def simp flip: word_unat_eq_iff)
  then have card: "card ?N = length ?as"
    by (metis card_image distinct_card)
  have "card ?N \<le> REPLAY_WINDOW_WIDTH"
  proof (cases "?N = {}")
    case False
    have "?N \<subseteq> {Max ?N - (REPLAY_WINDOW_WIDTH - 1)..Max ?N}"
    proof
      fix n assume n: "n \<in> ?N"
      then obtain a where a: "a \<in> set ?as" "n = unat (am_index a)" by auto
      have "Max ?N \<in> of_sender H m"
        using Max_in [OF _ False] listed by (auto simp: listed_ok_def accepted_id_def of_sender_iff)
      then have "Max ?N < n + REPLAY_WINDOW_WIDTH"
        using listed [OF a(1)] a by (auto simp: listed_ok_def)
      then show "n \<in> {Max ?N - (REPLAY_WINDOW_WIDTH - 1)..Max ?N}"
        using n by simp
    qed
    then have "card ?N \<le> card {Max ?N - (REPLAY_WINDOW_WIDTH - 1)..Max ?N}"
      by (intro card_mono) simp_all
    then show ?thesis by simp
  qed simp
  then show ?thesis using card by simp
qed

lemma sorted_wrt_conj: "sorted_wrt P xs \<Longrightarrow> sorted_wrt Q xs \<Longrightarrow> sorted_wrt (\<lambda>x y. P x y \<and> Q x y) xs"
  by (induction xs) auto

lemma not_clash_iff: "(\<not> accepted_clash x y) = (\<not> accepted_id x = accepted_id y \<and> \<not> accepted_tag x = accepted_tag y)"
  by (simp add: accepted_clash_def accepted_id_def accepted_tag_def)

lemma replay_snapshot_restores:
  assumes s: "replay_tracks s H" and len: "length roster \<le> 8192"
    and senders: "sr_sender ` set (replay_senders s) \<subseteq> allowed_senders m roster"
  shows "group_replay_from_snapshot (group_replay_export_snapshot s) m roster = Inr s"
proof -
  let ?A = "allowed_senders m roster" and ?snap = "group_replay_export_snapshot s"
  have A: "set (map member_id (active_sender_entries m roster)) = ?A"
    by (simp add: allowed_senders_def)
  have fin: "finite ?A" by (simp add: allowed_senders_def)
  have ids: "map srs_sender (grs_senders ?snap) = map sr_sender (replay_senders s)"
    by (simp add: group_replay_export_snapshot_def)
  have d: "distinct (map sr_sender (replay_senders s))"
    using s by (simp add: replay_tracks_def)
  have "length (grs_senders ?snap) \<le> card ?A"
    using d senders fin card_mono [OF fin, of "set (map sr_sender (replay_senders s))"] distinct_card [OF d] ids
    by (metis length_map list.set_map)
  moreover have "\<not> any_not_inserted ?A [] (map srs_sender (grs_senders ?snap))"
    unfolding ids any_not_inserted_iff using d senders by simp
  moreover have "checked_mul_usize (card ?A) REPLAY_WINDOW_WIDTH = Some (card ?A * REPLAY_WINDOW_WIDTH)"
    using card_allowed [OF len, of m] by (simp add: checked_mul_usize_def usize_max_def)
  moreover have key: "am_sender ` set (accepted_messages s) \<subseteq> ?A"
  proof -
    have "fst ` H \<subseteq> sr_sender ` set (replay_senders s)" "\<forall>a \<in> set (accepted_messages s). accepted_id a \<in> H"
      using s by (simp_all add: replay_tracks_def listed_ok_def)
    moreover from this(1) senders have "fst ` H \<subseteq> ?A"
      by (rule order_trans)
    ultimately show ?thesis by (force simp: accepted_id_def)
  qed
  have "length (grs_accepted_messages ?snap) \<le> card ?A * REPLAY_WINDOW_WIDTH"
    using length_by_key_bound [OF fin key listed_bound [OF s]] by (simp add: group_replay_export_snapshot_def)
  moreover have "distinct (map accepted_id (accepted_messages s))" "distinct (map accepted_tag (accepted_messages s))"
    using s by (simp_all add: replay_tracks_def)
  then have "sorted_wrt (\<lambda>y x. \<not> accepted_clash x y) (accepted_messages s)"
    unfolding not_clash_iff by (intro sorted_wrt_conj sorted_wrt_distinct)
  then have "restore_loop am_sender accepted_clash ?A REPLAY_WINDOW_WIDTH [] (\<lambda>_. 0) (grs_accepted_messages ?snap) = Inr ()"
    using key listed_bound [OF s] unfolding restore_loop_iff by (simp add: group_replay_export_snapshot_def)
  moreover have "map (\<lambda>x. \<lparr>sr_sender = sr_sender x, sr_replay = replay_from_snapshot (replay_export_snapshot (sr_replay x))\<rparr>)
      (replay_senders s) = replay_senders s"
    by (rule map_idI) (simp add: replay_from_snapshot_def replay_export_snapshot_def)
  ultimately show ?thesis
    unfolding group_replay_from_snapshot_def A Let_def
    by (simp add: group_replay_export_snapshot_def not_less o_def)
qed

end
