(* ===== verification/Group_Canonical.thy ===== *)
theory Group_Canonical
  imports Group_Epoch
begin

text \<open>
  Canonical encodings behind a commit (\<open>canonical/changes.rs\<close>, \<open>canonical/commit_core.rs\<close>) and the
  labelled hashes over them (\<open>canonical/hashes.rs\<close>). The commit core has a fixed layout of 676 bytes and
  its encoding is injective, so the commit hash binds every field.
\<close>

section \<open>Change payloads\<close>

datatype ChangePayload =
    CP_Create GovernancePolicy ModePolicy
  | CP_Join RosterEntry
  | CP_Leave MemberId
  | CP_RemoveOrRevoke MemberId u16
  | CP_GovernanceChange GovernancePolicy
  | CP_IdentityRotate MemberId RosterEntry bytes
  | CP_RoleChange MemberId GroupRole GroupRole
  | CP_ModeChange GroupMode GroupMode ModePolicy
  | CP_TreeSelfUpdate MemberId

fun change_payload_kind :: "ChangePayload \<Rightarrow> CommitKind" where
  "change_payload_kind (CP_Create _ _) = CK_Create"
| "change_payload_kind (CP_Join _) = CK_Join"
| "change_payload_kind (CP_Leave _) = CK_Leave"
| "change_payload_kind (CP_RemoveOrRevoke _ _) = CK_RemoveOrRevoke"
| "change_payload_kind (CP_GovernanceChange _) = CK_GovernanceChange"
| "change_payload_kind (CP_IdentityRotate _ _ _) = CK_IdentityRotate"
| "change_payload_kind (CP_RoleChange _ _ _) = CK_RoleChange"
| "change_payload_kind (CP_ModeChange _ _ _) = CK_ModeChange"
| "change_payload_kind (CP_TreeSelfUpdate _) = CK_TreeSelfUpdate"

fun encode_change_payload :: "ChangePayload \<Rightarrow> GroupError + bytes" where
  "encode_change_payload (CP_Create policy mode_policy) =
     rbind (encode_governance_policy policy) (\<lambda>g.
     rbind (lp g) (\<lambda>a.
     rbind (lp (encode_mode_policy mode_policy)) (\<lambda>b.
       Inr (a @ b))))"
| "encode_change_payload (CP_Join entry) = Inr (encode_roster_entry entry)"
| "encode_change_payload (CP_Leave mid) = Inr mid"
| "encode_change_payload (CP_RemoveOrRevoke mid reason_code) = Inr (mid @ u16_be reason_code)"
| "encode_change_payload (CP_GovernanceChange policy) =
     rbind (encode_governance_policy policy) (\<lambda>g. lp g)"
| "encode_change_payload (CP_IdentityRotate old entry rotation_digest) =
     Inr (old @ encode_roster_entry entry @ rotation_digest)"
| "encode_change_payload (CP_RoleChange mid old_role new_role) =
     Inr (mid @ [group_role_u8 old_role] @ [group_role_u8 new_role])"
| "encode_change_payload (CP_ModeChange old_mode new_mode mode_policy) =
     rbind (lp (encode_mode_policy mode_policy)) (\<lambda>b.
       Inr ([group_mode_u8 old_mode] @ [group_mode_u8 new_mode] @ b))"
| "encode_change_payload (CP_TreeSelfUpdate committer) = Inr committer"

section \<open>Commit core\<close>

record CommitCore =
  cc_commit_kind :: CommitKind
  cc_group_id :: GroupId
  cc_old_group_mode :: "GroupMode option"
  cc_new_group_mode :: GroupMode
  cc_new_membership_mechanism :: MembershipMechanism
  cc_old_epoch :: Epoch
  cc_new_epoch :: Epoch
  cc_old_state_version :: StateVersion
  cc_new_state_version :: StateVersion
  cc_parent_commit_hash :: bytes
  cc_old_roster_hash :: bytes
  cc_new_roster_hash :: bytes
  cc_old_tree_hash :: bytes
  cc_new_tree_hash :: bytes
  cc_commit_nonce :: bytes
  cc_change_payload_hash :: bytes
  cc_key_schedule_commitment :: bytes
  cc_governance_policy_hash :: bytes
  cc_mode_policy_hash :: bytes

definition COMMIT_CORE_SIZE :: nat where
  [simp]: "COMMIT_CORE_SIZE = 676"

definition commit_core_bytes :: "CommitCore \<Rightarrow> bytes" where
  "commit_core_bytes core =
     [commit_kind_u8 (cc_commit_kind core)] @ cc_group_id core @
     [case cc_old_group_mode core of None \<Rightarrow> 0 | Some m \<Rightarrow> group_mode_u8 m] @
     [group_mode_u8 (cc_new_group_mode core)] @
     [membership_mechanism_u8 (cc_new_membership_mechanism core)] @
     u64_be (cc_old_epoch core) @ u64_be (cc_new_epoch core) @
     u64_be (cc_old_state_version core) @ u64_be (cc_new_state_version core) @
     cc_parent_commit_hash core @ cc_old_roster_hash core @ cc_new_roster_hash core @
     cc_old_tree_hash core @ cc_new_tree_hash core @ cc_commit_nonce core @
     cc_change_payload_hash core @ cc_key_schedule_commitment core @
     cc_governance_policy_hash core @ cc_mode_policy_hash core"

definition encode_commit_core :: "CommitCore \<Rightarrow> GroupError + bytes" where
  "encode_commit_core core =
     rbind (ensure (cc_new_membership_mechanism core = required_mechanism (cc_new_group_mode core))
              (GE_InvalidModeMechanism (cc_new_group_mode core) (cc_new_membership_mechanism core))) (\<lambda>_.
     rbind (ensure (\<not> (cc_old_group_mode core = None \<and> cc_commit_kind core \<noteq> CK_Create))
              GE_InvalidCommitCore) (\<lambda>_.
       Inr (commit_core_bytes core)))"

section \<open>Hashes\<close>

definition hash512_lp :: "CryptoPrims \<Rightarrow> bytes \<Rightarrow> bytes \<Rightarrow> GroupError + bytes" where
  "hash512_lp P label value = rbind (lp value) (\<lambda>l. Inr (sha3_512 P (label @ SUITE_ID @ l)))"

definition derive_member_id :: "CryptoPrims \<Rightarrow> GroupId \<Rightarrow> bytes \<Rightarrow> Epoch \<Rightarrow> MemberId" where
  "derive_member_id P gid fingerprint joined =
     sha3_256 P (ascii ''HYDRA-MSG/v1/group/member-id'' @ SUITE_ID @ gid @ fingerprint @ u64_be joined)"

definition roster_hash :: "CryptoPrims \<Rightarrow> bytes \<Rightarrow> GroupError + bytes" where
  "roster_hash P canonical_roster = hash512_lp P (ascii ''HYDRA-MSG/v1/group/roster-hash'') canonical_roster"

definition governance_policy_hash :: "CryptoPrims \<Rightarrow> bytes \<Rightarrow> GroupError + bytes" where
  "governance_policy_hash P canonical_governance_policy =
     hash512_lp P (ascii ''HYDRA-MSG/v1/group/policy-hash'') canonical_governance_policy"

definition mode_policy_hash :: "CryptoPrims \<Rightarrow> ModePolicy \<Rightarrow> GroupError + bytes" where
  "mode_policy_hash P mode_policy =
     hash512_lp P (ascii ''HYDRA-MSG/v1/group/mode-policy-hash'') (encode_mode_policy mode_policy)"

definition change_payload_hash :: "CryptoPrims \<Rightarrow> bytes \<Rightarrow> GroupError + bytes" where
  "change_payload_hash P change_payload =
     hash512_lp P (ascii ''HYDRA-MSG/v1/group/change-hash'') change_payload"

definition direct_wrap_key_schedule_commitment ::
    "CryptoPrims \<Rightarrow> GroupId \<Rightarrow> GroupMode \<Rightarrow> Epoch \<Rightarrow> bytes \<Rightarrow> Secret32 \<Rightarrow> bytes" where
  "direct_wrap_key_schedule_commitment P gid new_group_mode epoch commit_nonce epoch_secret =
     sha3_512 P (ascii ''HYDRA-MSG/v1/group/epoch-secret-commitment'' @ SUITE_ID @ gid @
       [group_mode_u8 new_group_mode] @ u64_be epoch @ commit_nonce @ epoch_secret)"

definition treekem_key_schedule_commitment ::
    "CryptoPrims \<Rightarrow> GroupId \<Rightarrow> GroupMode \<Rightarrow> Epoch \<Rightarrow> bytes \<Rightarrow> bytes \<Rightarrow> bytes" where
  "treekem_key_schedule_commitment P gid new_group_mode epoch new_tree_hash update_path_hash =
     sha3_512 P (ascii ''HYDRA-MSG/v1/group/tree/commitment'' @ SUITE_ID @ gid @
       [group_mode_u8 new_group_mode] @ u64_be epoch @ new_tree_hash @ update_path_hash)"

definition commit_sig_digest :: "CryptoPrims \<Rightarrow> bytes \<Rightarrow> GroupError + bytes" where
  "commit_sig_digest P commit_core = hash512_lp P (ascii ''HYDRA-MSG/v1/group/commit-signature'') commit_core"

definition commit_hash :: "CryptoPrims \<Rightarrow> bytes \<Rightarrow> GroupError + bytes" where
  "commit_hash P commit_core = hash512_lp P (ascii ''HYDRA-MSG/v1/group/commit-hash'') commit_core"

definition commit_confirmation_tag :: "CryptoPrims \<Rightarrow> GroupId \<Rightarrow> bytes \<Rightarrow> bytes \<Rightarrow> bytes" where
  "commit_confirmation_tag P gid hash key_schedule_commitment =
     sha3_256 P (ascii ''HYDRA-MSG/v1/group/commit-confirmation'' @ SUITE_ID @ gid @ hash @ key_schedule_commitment)"

definition verify_commit_confirmation_tag ::
    "CryptoPrims \<Rightarrow> GroupId \<Rightarrow> bytes \<Rightarrow> bytes \<Rightarrow> bytes \<Rightarrow> GroupError + unit" where
  "verify_commit_confirmation_tag P gid hash key_schedule_commitment candidate =
     ensure (commit_confirmation_tag P gid hash key_schedule_commitment = candidate) GE_InvalidCommitCore"

section \<open>Lemmas\<close>

lemma hash512_lp_length: "hash_ok P \<Longrightarrow> hash512_lp P label value = Inr h \<Longrightarrow> length h = 64"
  by (auto simp: hash512_lp_def rbind_Inr_iff)

lemma hash512_lp_total: "length value \<le> u32_max \<Longrightarrow> \<exists>h. hash512_lp P label value = Inr h"
  by (simp add: hash512_lp_def lp_total)

lemmas labelled_hash_defs = roster_hash_def governance_policy_hash_def mode_policy_hash_def
  change_payload_hash_def commit_sig_digest_def commit_hash_def

text \<open>The array fields of a commit core: identifiers and nonce of 32 bytes, hashes of 64.\<close>

definition commit_core_ok :: "CommitCore \<Rightarrow> bool" where
  "commit_core_ok c \<longleftrightarrow> length (cc_group_id c) = 32 \<and> length (cc_commit_nonce c) = 32 \<and>
     list_all (\<lambda>h. length h = 64) [cc_parent_commit_hash c, cc_old_roster_hash c, cc_new_roster_hash c,
       cc_old_tree_hash c, cc_new_tree_hash c, cc_change_payload_hash c, cc_key_schedule_commitment c,
       cc_governance_policy_hash c, cc_mode_policy_hash c]"

lemma commit_core_length:
  "commit_core_ok c \<Longrightarrow> encode_commit_core c = Inr b \<Longrightarrow> length b = COMMIT_CORE_SIZE"
  by (auto simp: encode_commit_core_def commit_core_bytes_def rbind_Inr_iff commit_core_ok_def u64_be_def)

lemma optional_mode_inject:
  "(case a of None \<Rightarrow> 0 | Some m \<Rightarrow> group_mode_u8 m) = (case b of None \<Rightarrow> 0 | Some m \<Rightarrow> group_mode_u8 m) \<longleftrightarrow> a = b"
proof -
  have "group_mode_u8 m \<noteq> 0" for m by (cases m) simp_all
  then show ?thesis
    by (auto simp: group_mode.to_u8_inject split: option.splits)
qed

text \<open>What a payload holds in fixed-size arrays and bounded sequences.\<close>

fun change_payload_ok :: "ChangePayload \<Rightarrow> bool" where
  "change_payload_ok (CP_Create g m) \<longleftrightarrow> policy_ok g \<and> length (mode_policy_bytes m) = 12"
| "change_payload_ok (CP_Join e) \<longleftrightarrow> entry_ok e"
| "change_payload_ok (CP_Leave i) \<longleftrightarrow> length i = 32"
| "change_payload_ok (CP_RemoveOrRevoke i _) \<longleftrightarrow> length i = 32"
| "change_payload_ok (CP_GovernanceChange g) \<longleftrightarrow> policy_ok g"
| "change_payload_ok (CP_IdentityRotate i e d) \<longleftrightarrow> length i = 32 \<and> entry_ok e \<and> length d = 64"
| "change_payload_ok (CP_RoleChange i _ _) \<longleftrightarrow> length i = 32"
| "change_payload_ok (CP_ModeChange _ _ m) \<longleftrightarrow> length (mode_policy_bytes m) = 12"
| "change_payload_ok (CP_TreeSelfUpdate i) \<longleftrightarrow> length i = 32"

text \<open>Length-prefixed fields of equal strings are equal; the parts that precede them have fixed sizes.\<close>

lemma lp_inject: "lp a = Inr x \<Longrightarrow> lp b = Inr x \<Longrightarrow> a = b"
  using lp_prefix_free(1) [of a x b x "[]" "[]"] by simp

lemma change_payload_inject:
  assumes "change_payload_ok p" and "change_payload_ok q" and "change_payload_kind p = change_payload_kind q"
    and "encode_change_payload p = Inr e" and "encode_change_payload q = Inr e"
  shows "p = q"
proof (cases p)
  case (CP_Create g m)
  then obtain h n where q: "q = CP_Create h n"
    using assms(3) by (cases q) simp_all
  obtain a b c d x y z w where "encode_governance_policy g = Inr a" "encode_governance_policy h = Inr b"
    "lp a = Inr x" "lp b = Inr z" "lp (encode_mode_policy m) = Inr y" "lp (encode_mode_policy n) = Inr w"
    "x @ y = z @ w"
    using assms(4,5) CP_Create q by (auto simp: rbind_Inr_iff)
  then have "a = b" "mode_policy_bytes m = mode_policy_bytes n" "encode_governance_policy h = Inr a"
    using lp_prefix_free [of a x b z y w] lp_inject [of "encode_mode_policy m" y "encode_mode_policy n"]
    by (auto simp: encode_mode_policy_def)
  then show ?thesis
    using encode_governance_policy_inject [of g h a] assms(1,2) CP_Create q
      \<open>encode_governance_policy g = Inr a\<close> by simp
next
  case (CP_GovernanceChange g)
  then obtain h where q: "q = CP_GovernanceChange h"
    using assms(3) by (cases q) simp_all
  obtain a b where "encode_governance_policy g = Inr a" "encode_governance_policy h = Inr b" "lp a = Inr e" "lp b = Inr e"
    using assms(4,5) CP_GovernanceChange q by (auto simp: rbind_Inr_iff)
  then show ?thesis
    using lp_inject [of a e b] encode_governance_policy_inject [of g h a] assms(1,2) CP_GovernanceChange q by simp
next
  case (CP_ModeChange o1 n1 m)
  then obtain o2 n2 n where q: "q = CP_ModeChange o2 n2 n"
    using assms(3) by (cases q) simp_all
  then show ?thesis
    using assms(4,5) CP_ModeChange lp_inject [of "encode_mode_policy m" _ "encode_mode_policy n"]
    by (auto simp: rbind_Inr_iff group_mode.to_u8_inject encode_mode_policy_def)
next
  case (CP_Join a)
  then show ?thesis
    using assms encode_roster_entry_inject by (cases q) auto
next
  case (CP_IdentityRotate i a d)
  then show ?thesis
    using assms encode_roster_entry_inject [of a] by (cases q) (auto simp: length_encode_roster_entry)
qed (use assms in \<open>cases q; auto simp: u16_be_def be_bytes_inject_u16 group_role.to_u8_inject\<close>)+

section \<open>Properties\<close>

lemma commit_core_inject:
  assumes ok: "commit_core_ok c" "commit_core_ok d"
    and enc: "encode_commit_core c = Inr b" "encode_commit_core d = Inr b"
  shows "c = d"
proof -
  have "commit_core_bytes c = commit_core_bytes d"
    using enc by (auto simp: encode_commit_core_def rbind_Inr_iff)
  then have "cc_commit_kind c = cc_commit_kind d" "cc_group_id c = cc_group_id d"
    "cc_old_group_mode c = cc_old_group_mode d" "cc_new_group_mode c = cc_new_group_mode d"
    "cc_new_membership_mechanism c = cc_new_membership_mechanism d" "cc_old_epoch c = cc_old_epoch d"
    "cc_new_epoch c = cc_new_epoch d" "cc_old_state_version c = cc_old_state_version d"
    "cc_new_state_version c = cc_new_state_version d" "cc_parent_commit_hash c = cc_parent_commit_hash d"
    "cc_old_roster_hash c = cc_old_roster_hash d" "cc_new_roster_hash c = cc_new_roster_hash d"
    "cc_old_tree_hash c = cc_old_tree_hash d" "cc_new_tree_hash c = cc_new_tree_hash d"
    "cc_commit_nonce c = cc_commit_nonce d" "cc_change_payload_hash c = cc_change_payload_hash d"
    "cc_key_schedule_commitment c = cc_key_schedule_commitment d"
    "cc_governance_policy_hash c = cc_governance_policy_hash d" "cc_mode_policy_hash c = cc_mode_policy_hash d"
    using ok
    by (simp_all add: commit_core_bytes_def commit_core_ok_def u64_be_def be_bytes_inject_u64
        commit_kind.to_u8_inject group_mode.to_u8_inject membership_mechanism.to_u8_inject optional_mode_inject)
  then show ?thesis by simp
qed

text \<open>C28: A commit binds what it changes: every encoded commit core has exactly 676 bytes and two cores
  with the same encoding are equal, so the signed digest and the commit hash are taken over an unambiguous
  string; and for a given commit kind the change payload is determined by its encoding.\<close>

theorem commit_encoding_injective:
  assumes "commit_core_ok c" and "commit_core_ok d" and "encode_commit_core c = Inr b"
    and "change_payload_ok p" and "change_payload_ok q" and "change_payload_kind p = change_payload_kind q"
    and "encode_change_payload p = Inr e"
  shows "length b = COMMIT_CORE_SIZE \<and> (encode_commit_core d = Inr b \<longrightarrow> c = d) \<and>
    (encode_change_payload q = Inr e \<longrightarrow> p = q)"
proof (intro conjI impI)
  show "length b = COMMIT_CORE_SIZE"
    using commit_core_length assms(1,3) .
  show "c = d" if "encode_commit_core d = Inr b"
    using commit_core_inject [OF assms(1-3) that] .
  show "p = q" if "encode_change_payload q = Inr e"
    using assms(4-7) that by (rule change_payload_inject)
qed

definition toy_commit_core :: CommitCore where
  "toy_commit_core = \<lparr>cc_commit_kind = CK_Leave, cc_group_id = replicate 32 1, cc_old_group_mode = Some GM_Lite,
     cc_new_group_mode = GM_Lite, cc_new_membership_mechanism = DirectWrap, cc_old_epoch = 4, cc_new_epoch = 5,
     cc_old_state_version = 6, cc_new_state_version = 7, cc_parent_commit_hash = replicate 64 2,
     cc_old_roster_hash = replicate 64 3, cc_new_roster_hash = replicate 64 4, cc_old_tree_hash = replicate 64 0,
     cc_new_tree_hash = replicate 64 0, cc_commit_nonce = replicate 32 9, cc_change_payload_hash = replicate 64 5,
     cc_key_schedule_commitment = replicate 64 6, cc_governance_policy_hash = replicate 64 7,
     cc_mode_policy_hash = replicate 64 8\<rparr>"

theorem commit_encoding_injective_witness:
  "\<exists>b. encode_commit_core toy_commit_core = Inr b \<and> length b = 676 \<and>
    encode_commit_core (toy_commit_core\<lparr>cc_new_epoch := 6\<rparr>) \<noteq> Inr b"
proof -
  have ok: "commit_core_ok toy_commit_core" "commit_core_ok (toy_commit_core\<lparr>cc_new_epoch := 6\<rparr>)"
    by (simp_all add: commit_core_ok_def toy_commit_core_def)
  have ne: "toy_commit_core \<noteq> toy_commit_core\<lparr>cc_new_epoch := 6\<rparr>"
    by (simp add: toy_commit_core_def)
  obtain b where b: "encode_commit_core toy_commit_core = Inr b"
    by (simp add: encode_commit_core_def toy_commit_core_def)
  have "length b = COMMIT_CORE_SIZE \<and>
      (encode_commit_core (toy_commit_core\<lparr>cc_new_epoch := 6\<rparr>) = Inr b \<longrightarrow>
        toy_commit_core = toy_commit_core\<lparr>cc_new_epoch := 6\<rparr>) \<and>
      (encode_change_payload (CP_Leave (replicate 32 1)) = Inr (replicate 32 1) \<longrightarrow>
        CP_Leave (replicate 32 1) = CP_Leave (replicate 32 1))"
    by (rule commit_encoding_injective [OF ok b]) simp_all
  then show ?thesis
    using b ne by auto
qed

end
