(* ===== verification/Group_State.thy ===== *)
theory Group_State
  imports Group_Replay Group_Canonical
begin

text \<open>
  The state of a group member (\<open>state/mod.rs\<close>, \<open>config.rs\<close>, \<open>membership_private.rs\<close>,
  \<open>roster_view.rs\<close>, \<open>snapshot.rs\<close>): authenticated public state, private membership state, sender
  chains and replay state; its constructors, roster operations, epoch installation, closing and snapshots.
\<close>

section \<open>Private membership state\<close>

datatype MembershipPrivateState =
    MPS_TreeKem (mps_public_tree: PublicTree) (mps_private_path: PrivatePath)
  | MPS_DirectWrap (mps_epoch_secret: Secret32)
  | MPS_Empty

definition membership_clear :: "MembershipPrivateState \<Rightarrow> MembershipPrivateState" where
  "membership_clear s = MPS_Empty"

fun membership_mechanism_of :: "MembershipPrivateState \<Rightarrow> MembershipMechanism option" where
  "membership_mechanism_of (MPS_TreeKem _ _) = Some TreeKem"
| "membership_mechanism_of (MPS_DirectWrap _) = Some DirectWrap"
| "membership_mechanism_of MPS_Empty = None"

record PrivatePathNodeSecretSnapshot =
  pns_node_index :: u32
  pns_path_secret :: bytes
  pns_node_seed_d :: bytes
  pns_node_seed_z :: bytes

datatype MembershipPrivateStateSnapshot =
    MPSS_TreeKem PublicTree "u32 option" "PrivatePathNodeSecretSnapshot list"
  | MPSS_DirectWrap bytes
  | MPSS_Empty

fun membership_export_snapshot :: "MembershipPrivateState \<Rightarrow> MembershipPrivateStateSnapshot option" where
  "membership_export_snapshot (MPS_TreeKem tree pp) =
     Some (MPSS_TreeKem tree (leaf_index pp)
       (map (\<lambda>n. \<lparr>pns_node_index = pn_node_index n, pns_path_secret = path_secret n,
          pns_node_seed_d = node_seed_d n, pns_node_seed_z = node_seed_z n\<rparr>) (path pp)))"
| "membership_export_snapshot (MPS_DirectWrap s) = Some (MPSS_DirectWrap s)"
| "membership_export_snapshot MPS_Empty = Some MPSS_Empty"

text \<open>\<open>path.iter().any(|node| !seen.insert(node.node_index))\<close>: some index occurs twice.\<close>

fun membership_from_snapshot ::
    "MembershipPrivateStateSnapshot \<Rightarrow> GroupMode \<Rightarrow> GroupError + MembershipPrivateState" where
  "membership_from_snapshot (MPSS_TreeKem tree li p) m =
     rbind (leaf_capacity_for_mode m) (\<lambda>capacity.
     rbind (ok_or (map_option unat (checked_mul_u32 capacity 2)) GE_CounterExhausted) (\<lambda>expected_nodes.
     rbind (ensure (\<not> (pt_mode tree \<noteq> m \<or> leaf_capacity tree \<noteq> capacity \<or>
                length (nodes tree) \<noteq> expected_nodes \<or>
                list_ex (\<lambda>(i, n). unat (node_index n) \<noteq> i) (enumerate 0 (nodes tree)))) GE_InvalidState) (\<lambda>_.
     rbind (direct_path m 0) (\<lambda>d.
     rbind (ensure (\<not> (length d < length p \<or> (case li of None \<Rightarrow> False | Some i \<Rightarrow> capacity \<le> i)))
              GE_InvalidState) (\<lambda>_.
     rbind (ensure (distinct (map pns_node_index p)) GE_InvalidState) (\<lambda>_.
       Inr (MPS_TreeKem tree \<lparr>leaf_index = li,
         path = map (\<lambda>n. \<lparr>pn_node_index = pns_node_index n, path_secret = pns_path_secret n,
           node_seed_d = pns_node_seed_d n, node_seed_z = pns_node_seed_z n\<rparr>) p\<rparr>)))))))"
| "membership_from_snapshot (MPSS_DirectWrap s) m = Inr (MPS_DirectWrap s)"
| "membership_from_snapshot MPSS_Empty m = Inr MPS_Empty"

section \<open>Group state\<close>

record GroupState =
  gs_group_id :: GroupId
  gs_mode :: GroupMode
  gs_mechanism :: MembershipMechanism
  gs_epoch :: Epoch
  gs_state_version :: StateVersion
  gs_last_commit_hash :: bytes
  gs_previous_commit_hash :: bytes
  gs_roster_hash :: bytes
  gs_tree_hash :: bytes
  gs_governance_policy :: GovernancePolicy
  gs_mode_policy :: ModePolicy
  gs_roster :: "RosterEntry list"
  gs_membership :: MembershipPrivateState
  gs_sender_chains :: SenderChainState
  gs_replay_state :: GroupReplayState
  gs_phase :: GroupPhase

record GroupStateConfig =
  cfg_group_id :: GroupId
  cfg_mode :: GroupMode
  cfg_mechanism :: MembershipMechanism
  cfg_epoch :: Epoch
  cfg_state_version :: StateVersion
  cfg_governance_policy :: GovernancePolicy
  cfg_mode_policy :: ModePolicy
  cfg_roster :: "RosterEntry list"

type_synonym 'a group_op = "(GroupState, GroupError, 'a) st"

definition compute_roster_hash :: "CryptoPrims \<Rightarrow> GroupMode \<Rightarrow> RosterEntry list \<Rightarrow> GroupError + bytes" where
  "compute_roster_hash P m roster = rbind (encode_roster m roster) (roster_hash P)"

definition group_new_empty ::
    "GroupId \<Rightarrow> GroupMode \<Rightarrow> MembershipMechanism \<Rightarrow> GovernancePolicy \<Rightarrow> ModePolicy \<Rightarrow> GroupError + GroupState" where
  "group_new_empty gid m mechanism governance_policy mode_policy =
     rbind (validate_mode_mechanism m mechanism) (\<lambda>_.
       Inr \<lparr>gs_group_id = gid, gs_mode = m, gs_mechanism = mechanism, gs_epoch = 0, gs_state_version = 0,
            gs_last_commit_hash = replicate 64 0, gs_previous_commit_hash = replicate 64 0,
            gs_roster_hash = replicate 64 0, gs_tree_hash = replicate 64 0,
            gs_governance_policy = governance_policy, gs_mode_policy = mode_policy, gs_roster = [],
            gs_membership = MPS_Empty, gs_sender_chains = SenderChainState_default,
            gs_replay_state = GroupReplayState_default, gs_phase = GP_Active\<rparr>)"

definition group_new_validated :: "CryptoPrims \<Rightarrow> GroupStateConfig \<Rightarrow> GroupError + GroupState" where
  "group_new_validated P config =
     rbind (validate_mode_mechanism (cfg_mode config) (cfg_mechanism config)) (\<lambda>_.
     rbind (validate_roster_for_mode (cfg_mode config) (cfg_epoch config) (cfg_roster config)) (\<lambda>_.
     rbind (validate_governance_for_roster (cfg_governance_policy config) (cfg_roster config)) (\<lambda>_.
     rbind (compute_roster_hash P (cfg_mode config) (cfg_roster config)) (\<lambda>hash.
       Inr \<lparr>gs_group_id = cfg_group_id config, gs_mode = cfg_mode config, gs_mechanism = cfg_mechanism config,
            gs_epoch = cfg_epoch config, gs_state_version = cfg_state_version config,
            gs_last_commit_hash = replicate 64 0, gs_previous_commit_hash = replicate 64 0,
            gs_roster_hash = hash, gs_tree_hash = replicate 64 0,
            gs_governance_policy = cfg_governance_policy config, gs_mode_policy = cfg_mode_policy config,
            gs_roster = cfg_roster config, gs_membership = MPS_Empty,
            gs_sender_chains = SenderChainState_default, gs_replay_state = GroupReplayState_default,
            gs_phase = GP_Active\<rparr>))))"

definition require_active :: "GroupState \<Rightarrow> GroupError + unit" where
  "require_active s = ensure (gs_phase s = GP_Active) GE_InvalidState"

definition require_sender :: "GroupState \<Rightarrow> MemberId \<Rightarrow> GroupError + RosterEntry" where
  "require_sender s mid =
     rbind (require_active s) (\<lambda>_. ensure_sender_allowed (gs_mode s) (gs_roster s) mid)"

section \<open>Roster operations\<close>

definition set_mode_and_mechanism :: "GroupMode \<Rightarrow> MembershipMechanism \<Rightarrow> unit group_op" where
  "set_mode_and_mechanism m mechanism s =
     st_bind (st_lift (
       rbind (require_active s) (\<lambda>_.
       rbind (validate_mode_mechanism m mechanism) (\<lambda>_.
         if gs_roster s \<noteq> []
         then rbind (validate_roster_for_mode m (gs_epoch s) (gs_roster s)) (\<lambda>_.
                validate_governance_for_roster (gs_governance_policy s) (gs_roster s))
         else Inr ())))) (\<lambda>_.
     st_modify (\<lambda>s. s\<lparr>gs_mode := m, gs_mechanism := mechanism\<rparr>)) s"

definition replace_roster :: "CryptoPrims \<Rightarrow> RosterEntry list \<Rightarrow> unit group_op" where
  "replace_roster P roster s =
     st_bind (st_lift (
       rbind (require_active s) (\<lambda>_.
       rbind (validate_roster_for_mode (gs_mode s) (gs_epoch s) roster) (\<lambda>_.
       rbind (validate_governance_for_roster (gs_governance_policy s) roster) (\<lambda>_.
         compute_roster_hash P (gs_mode s) roster))))) (\<lambda>new_roster_hash.
     st_modify (\<lambda>s. s\<lparr>gs_roster := roster, gs_roster_hash := new_roster_hash\<rparr>)) s"

definition group_add_member :: "CryptoPrims \<Rightarrow> RosterEntry \<Rightarrow> unit group_op" where
  "group_add_member P entry s =
     st_bind (st_lift (
       rbind (require_active s) (\<lambda>_.
         ensure (\<not> list_ex (\<lambda>existing. member_id existing = member_id entry) (gs_roster s))
           (GE_MemberAlreadyExists (member_id entry))))) (\<lambda>_.
     replace_roster P (gs_roster s @ [entry])) s"

definition group_remove_member :: "CryptoPrims \<Rightarrow> MemberId \<Rightarrow> Epoch \<Rightarrow> unit group_op" where
  "group_remove_member P mid removed s =
     st_bind (st_lift (
       rbind (require_active s) (\<lambda>_.
       rbind (ok_or (find (\<lambda>e. member_id e = mid) (gs_roster s)) (GE_MemberNotFound mid)) (\<lambda>entry.
         ensure (status entry = MS_Active) (GE_MemberInactive mid))))) (\<lambda>_.
     replace_roster P (update_first (\<lambda>e. member_id e = mid)
       (\<lambda>e. e\<lparr>status := MS_Removed, removed_epoch := removed\<rparr>) (gs_roster s))) s"

definition group_change_member_role :: "CryptoPrims \<Rightarrow> MemberId \<Rightarrow> GroupRole \<Rightarrow> unit group_op" where
  "group_change_member_role P mid new_role s =
     st_bind (st_lift (
       rbind (require_active s) (\<lambda>_.
       rbind (ensure (is_active_in_mode new_role (gs_mode s)) (GE_InvalidRoleForMode (gs_mode s) new_role)) (\<lambda>_.
       rbind (ok_or (find (\<lambda>e. member_id e = mid) (gs_roster s)) (GE_MemberNotFound mid)) (\<lambda>entry.
         ensure (status entry = MS_Active) (GE_MemberInactive mid)))))) (\<lambda>_.
     replace_roster P (update_first (\<lambda>e. member_id e = mid) (\<lambda>e. e\<lparr>role := new_role\<rparr>) (gs_roster s))) s"

section \<open>Epochs and chains\<close>

definition epoch_key_context :: "GroupState \<Rightarrow> EpochKeyContext" where
  "epoch_key_context s =
     \<lparr>ek_group_id = gs_group_id s, ek_mode = gs_mode s, ek_epoch = gs_epoch s,
      ek_state_version = gs_state_version s, ek_roster_hash = gs_roster_hash s, ek_tree_hash = gs_tree_hash s,
      ek_commit_hash = gs_last_commit_hash s\<rparr>"

definition install_epoch_sender_chains :: "CryptoPrims \<Rightarrow> Secret32 \<Rightarrow> unit group_op" where
  "install_epoch_sender_chains P epoch_key s =
     st_bind (st_lift (
       rbind (require_active s) (\<lambda>_.
       rbind (validate_roster_for_mode (gs_mode s) (gs_epoch s) (gs_roster s)) (\<lambda>_.
       rbind (on_clone (chains_install_epoch P (epoch_key_context s) epoch_key (gs_roster s))
                SenderChainState_default) (\<lambda>(_, sender_chains).
       rbind (on_clone (replay_install_epoch (gs_mode s) (gs_roster s)) GroupReplayState_default) (\<lambda>(_, replay_state).
         Inr (sender_chains, replay_state))))))) (\<lambda>(sender_chains, replay_state).
     st_modify (\<lambda>s. s\<lparr>gs_sender_chains := sender_chains, gs_replay_state := replay_state\<rparr>)) s"

text \<open>A component operation run inside the group state.\<close>

definition on_chains :: "(SenderChainState, GroupError, 'a) st \<Rightarrow> 'a group_op" where
  "on_chains f s = (case f (gs_sender_chains s) of (r, c) \<Rightarrow> (r, s\<lparr>gs_sender_chains := c\<rparr>))"

definition next_sender_message_step :: "CryptoPrims \<Rightarrow> MemberId \<Rightarrow> SenderMessageStep group_op" where
  "next_sender_message_step P sender s =
     st_bind (st_lift (require_sender s sender)) (\<lambda>_.
       on_chains (next_send_step P (epoch_key_context s) sender)) s"

definition next_sender_index :: "GroupState \<Rightarrow> MemberId \<Rightarrow> GroupError + u64" where
  "next_sender_index s sender =
     rbind (require_sender s sender) (\<lambda>_.
       ok_or (chains_next_index (gs_sender_chains s) sender) (GE_SenderNotAllowed sender))"

definition wipe_and_set_phase :: "GroupPhase \<Rightarrow> GroupState \<Rightarrow> GroupState" where
  "wipe_and_set_phase p s =
     s\<lparr>gs_membership := membership_clear (gs_membership s),
       gs_sender_chains := sender_chains_clear (gs_sender_chains s),
       gs_replay_state := group_replay_clear (gs_replay_state s), gs_phase := p\<rparr>"

definition mark_forked :: "GroupState \<Rightarrow> GroupState" where
  "mark_forked s = wipe_and_set_phase GP_Forked s"

definition group_close :: "GroupState \<Rightarrow> GroupState" where
  "group_close s = wipe_and_set_phase GP_Closed s"

section \<open>Snapshots\<close>

record GroupStateSnapshot =
  gss_group_id :: GroupId
  gss_mode :: GroupMode
  gss_mechanism :: MembershipMechanism
  gss_epoch :: Epoch
  gss_state_version :: StateVersion
  gss_last_commit_hash :: bytes
  gss_previous_commit_hash :: bytes
  gss_roster_hash :: bytes
  gss_tree_hash :: bytes
  gss_governance_policy :: GovernancePolicy
  gss_mode_policy :: ModePolicy
  gss_roster :: "RosterEntry list"
  gss_membership :: MembershipPrivateStateSnapshot
  gss_sender_chains :: SenderChainStateSnapshot
  gss_replay_state :: GroupReplayStateSnapshot
  gss_phase :: GroupPhase

definition group_export_snapshot :: "GroupState \<Rightarrow> GroupError + GroupStateSnapshot" where
  "group_export_snapshot s =
     rbind (ok_or (membership_export_snapshot (gs_membership s)) GE_InvalidState) (\<lambda>membership.
       Inr \<lparr>gss_group_id = gs_group_id s, gss_mode = gs_mode s, gss_mechanism = gs_mechanism s,
            gss_epoch = gs_epoch s, gss_state_version = gs_state_version s,
            gss_last_commit_hash = gs_last_commit_hash s, gss_previous_commit_hash = gs_previous_commit_hash s,
            gss_roster_hash = gs_roster_hash s, gss_tree_hash = gs_tree_hash s,
            gss_governance_policy = gs_governance_policy s, gss_mode_policy = gs_mode_policy s,
            gss_roster = gs_roster s, gss_membership = membership,
            gss_sender_chains = chains_export_snapshot (gs_sender_chains s),
            gss_replay_state = group_replay_export_snapshot (gs_replay_state s), gss_phase = gs_phase s\<rparr>)"

definition group_from_snapshot :: "GroupStateSnapshot \<Rightarrow> GroupError + GroupState" where
  "group_from_snapshot snap =
     rbind (validate_mode_mechanism (gss_mode snap) (gss_mechanism snap)) (\<lambda>_.
     rbind (if gss_roster snap \<noteq> []
            then rbind (validate_roster_for_mode (gss_mode snap) (gss_epoch snap) (gss_roster snap)) (\<lambda>_.
                   validate_governance_for_roster (gss_governance_policy snap) (gss_roster snap))
            else Inr ()) (\<lambda>_.
     rbind (membership_from_snapshot (gss_membership snap) (gss_mode snap)) (\<lambda>membership.
     rbind (chains_from_snapshot (gss_sender_chains snap) (gss_mode snap) (gss_roster snap)) (\<lambda>chains.
     rbind (group_replay_from_snapshot (gss_replay_state snap) (gss_mode snap) (gss_roster snap)) (\<lambda>replay.
       Inr \<lparr>gs_group_id = gss_group_id snap, gs_mode = gss_mode snap, gs_mechanism = gss_mechanism snap,
            gs_epoch = gss_epoch snap, gs_state_version = gss_state_version snap,
            gs_last_commit_hash = gss_last_commit_hash snap,
            gs_previous_commit_hash = gss_previous_commit_hash snap,
            gs_roster_hash = gss_roster_hash snap, gs_tree_hash = gss_tree_hash snap,
            gs_governance_policy = gss_governance_policy snap, gs_mode_policy = gss_mode_policy snap,
            gs_roster = gss_roster snap, gs_membership = membership, gs_sender_chains = chains,
            gs_replay_state = replay, gs_phase = gss_phase snap\<rparr>)))))"

end
