(* ===== verification/Group_Message.thy ===== *)
theory Group_Message
  imports Group_State Wire_Format
begin

text \<open>
  Group messages (\<open>message/\<close>): envelope classes per mode (\<open>sizing.rs\<close>), the message key
  (\<open>crypto.rs\<close>), sender signatures (\<open>signature.rs\<close>), sealing (\<open>seal.rs\<close>) and opening
  (\<open>open.rs\<close>). The entropy of a signature and the caller's lookup of verification keys are arguments.
\<close>

section \<open>Types and sizes\<close>

record GroupOutboundMessage =
  out_sender :: MemberId
  out_index :: u64
  out_envelope :: bytes

record GroupReceivedMessage =
  rec_sender :: MemberId
  rec_index :: u64
  rec_content :: bytes

definition group_smallest_class :: "nat \<Rightarrow> EnvelopeClass option" where
  "group_smallest_class content_length = find (\<lambda>c. content_length \<le> max_content_size c) [Lite, Standard, Full]"

fun group_skip_bound :: "GroupMode \<Rightarrow> u64" where
  "group_skip_bound GM_Lite = 32"
| "group_skip_bound GM_Interactive = 64"
| "group_skip_bound GM_Broadcast = 256"

fun group_data_record_class_allowed :: "GroupMode \<Rightarrow> nat \<Rightarrow> EnvelopeClass \<Rightarrow> bool" where
  "group_data_record_class_allowed GM_Interactive n c =
     (if n \<le> max_content_size Standard then c = Standard
      else if n \<le> max_content_size Full then c = Full
      else False)"
| "group_data_record_class_allowed GM_Broadcast n c = (group_smallest_class n = Some c)"
| "group_data_record_class_allowed GM_Lite n c = (c = Lite \<and> n \<le> max_content_size Lite)"

definition signed_group_data_content_len :: "nat \<Rightarrow> GroupError + nat" where
  "signed_group_data_content_len application_content_len =
     ok_or (Option.bind (checked_add_usize 4 application_content_len) (\<lambda>n. checked_add_usize n ML_DSA_65_SIG_SIZE))
       GE_InvalidEnvelope"

definition signed_group_data_class :: "GroupMode \<Rightarrow> nat \<Rightarrow> EnvelopeClass option" where
  "signed_group_data_class m application_content_len =
     (case signed_group_data_content_len application_content_len of
        Inl _ \<Rightarrow> None
      | Inr signed_len \<Rightarrow>
          (case m of
             GM_Lite \<Rightarrow>
               if application_content_len \<le> 607 \<and> signed_len \<le> max_content_size Lite then Some Lite else None
           | GM_Interactive \<Rightarrow>
               if signed_len \<le> max_content_size Standard then Some Standard
               else if signed_len \<le> max_content_size Full then Some Full
               else None
           | GM_Broadcast \<Rightarrow> group_smallest_class signed_len))"

section \<open>Keys, digests and fingerprints\<close>

definition LABEL_GROUP_MESSAGE_AEAD :: bytes where
  "LABEL_GROUP_MESSAGE_AEAD = ascii ''HYDRA-MSG/v1/group/message/aead-key''"

definition LABEL_GROUP_MESSAGE_SIGNATURE :: bytes where
  "LABEL_GROUP_MESSAGE_SIGNATURE = ascii ''HYDRA-MSG/v1/group/message/signature''"

definition LABEL_IDENTITY_FINGERPRINT :: bytes where
  "LABEL_IDENTITY_FINGERPRINT = ascii ''HYDRA-MSG/v1/fingerprint''"

definition group_message_aead_key :: "CryptoPrims \<Rightarrow> GroupState \<Rightarrow> SenderMessageStep \<Rightarrow> GroupError + bytes" where
  "group_message_aead_key P s step =
     rbind (lp LABEL_GROUP_MESSAGE_AEAD) (\<lambda>label.
     rbind (lp (SUITE_ID @ gs_group_id s @ [group_mode_u8 (gs_mode s)] @ u64_be (gs_epoch s) @
                u64_be (gs_state_version s) @ sm_sender step @ u64_be (sm_index step))) (\<lambda>context.
     rbind (map_err (\<lambda>_. GE_AuthenticationFailed) (hkdf_expand P (sm_message_key step) (label @ context) 32)) (\<lambda>output.
     rbind (ensure (length output = 32) GE_AuthenticationFailed) (\<lambda>_.
       Inr output))))"

definition seal_group_plaintext ::
    "CryptoPrims \<Rightarrow> GroupState \<Rightarrow> EnvelopeClass \<Rightarrow> SenderMessageStep \<Rightarrow> bytes \<Rightarrow> GroupError + bytes" where
  "seal_group_plaintext P s cls step plaintext =
     rbind (map_err (\<lambda>_. GE_InvalidEnvelope)
              (encode_outer_header (OuterHeader_new Protected cls (sm_route_tag step) (sm_index step)))) (\<lambda>header.
     rbind (group_message_aead_key P s step) (\<lambda>key.
     rbind (map_err (\<lambda>_. GE_AuthenticationFailed) (aead_seal P key (replicate 12 0) header plaintext)) (\<lambda>body.
       Inr (header @ body))))"

definition open_group_ciphertext ::
    "CryptoPrims \<Rightarrow> GroupState \<Rightarrow> SenderMessageStep \<Rightarrow> bytes \<Rightarrow> GroupError + bytes" where
  "open_group_ciphertext P s step envelope =
     rbind (group_message_aead_key P s step) (\<lambda>key.
       map_err (\<lambda>_. GE_AuthenticationFailed)
         (aead_open P key (replicate 12 0) (take OUTER_HEADER_SIZE envelope) (drop OUTER_HEADER_SIZE envelope)))"

definition group_data_signature_digest ::
    "CryptoPrims \<Rightarrow> GroupState \<Rightarrow> EnvelopeClass \<Rightarrow> SenderMessageStep \<Rightarrow> bytes \<Rightarrow> GroupError + bytes" where
  "group_data_signature_digest P s cls step application_content =
     rbind (lp (gs_group_id s @ [group_mode_u8 (gs_mode s)] @ [envelope_class_u8 cls] @ u64_be (gs_epoch s) @
                u64_be (gs_state_version s) @ gs_roster_hash s @ gs_tree_hash s @ gs_last_commit_hash s @
                sm_sender step @ u64_be (sm_index step) @ sm_route_tag step @ sha3_512 P application_content)) (\<lambda>core.
       Inr (sha3_512 P (LABEL_GROUP_MESSAGE_SIGNATURE @ SUITE_ID @ core)))"

definition identity_fingerprint :: "CryptoPrims \<Rightarrow> bytes \<Rightarrow> bytes" where
  "identity_fingerprint P verification_key =
     sha3_256 P (LABEL_IDENTITY_FINGERPRINT @ SUITE_ID @ verification_key)"

section \<open>Sealing\<close>

definition group_record :: "GroupState \<Rightarrow> MemberId \<Rightarrow> u64 \<Rightarrow> bytes \<Rightarrow> ProtectedRecord" where
  "group_record s sender index bs =
     \<lparr>content_kind = GroupData, session_or_group_id = gs_group_id s, sender_id = sender, epoch = gs_epoch s,
      state_version = gs_state_version s, message_index = index, content = bs\<rparr>"

definition seal_group_record ::
    "CryptoPrims \<Rightarrow> GroupState \<Rightarrow> EnvelopeClass \<Rightarrow> MemberId \<Rightarrow> SenderMessageStep \<Rightarrow> bytes \<Rightarrow>
       GroupError + GroupOutboundMessage" where
  "seal_group_record P s cls sender step bs =
     rbind (map_err (\<lambda>_. GE_InvalidEnvelope)
              (encode_protected_record cls (group_record s sender (sm_index step) bs))) (\<lambda>plaintext.
     rbind (seal_group_plaintext P s cls step plaintext) (\<lambda>envelope.
       Inr \<lparr>out_sender = sender, out_index = sm_index step, out_envelope = envelope\<rparr>))"

definition seal_group_data :: "CryptoPrims \<Rightarrow> MemberId \<Rightarrow> bytes \<Rightarrow> GroupOutboundMessage group_op" where
  "seal_group_data P sender bs s =
     st_bind (st_lift (
       rbind (require_sender s sender) (\<lambda>_.
         ok_or (group_smallest_class (length bs)) GE_InvalidEnvelope))) (\<lambda>cls.
     st_bind (next_sender_message_step P sender) (\<lambda>step s.
       st_lift (seal_group_record P s cls sender step bs) s)) s"

definition seal_signed_group_data ::
    "CryptoPrims \<Rightarrow> MemberId \<Rightarrow> bytes \<Rightarrow> bytes option \<Rightarrow> bytes \<Rightarrow> GroupOutboundMessage group_op" where
  "seal_signed_group_data P sender signing_key entropy bs s =
     st_bind (st_lift (
       rbind (require_sender s sender) (\<lambda>_.
       rbind (ok_or (signed_group_data_class (gs_mode s) (length bs)) GE_InvalidEnvelope) (\<lambda>cls.
       rbind (signed_group_data_content_len (length bs)) (\<lambda>_.
         Inr cls))))) (\<lambda>cls.
     st_bind (next_sender_message_step P sender) (\<lambda>step s.
       st_lift (
         rbind (group_data_signature_digest P s cls step bs) (\<lambda>digest.
         rbind (map_err (\<lambda>_. GE_InvalidGroupSignature) (mldsa_sign_digest P signing_key digest entropy)) (\<lambda>sig.
         rbind (ok_or (u32_try_from (length bs)) GE_InvalidEnvelope) (\<lambda>len.
           seal_group_record P s cls sender step (be_bytes 4 len @ bs @ sig))))) s)) s"

section \<open>Opening\<close>

definition validate_group_data_record ::
    "GroupState \<Rightarrow> OuterHeader \<Rightarrow> SenderMessageStep \<Rightarrow> ProtectedRecord \<Rightarrow> GroupError + unit" where
  "validate_group_data_record s header step r =
     ensure (\<not> (content_kind r \<noteq> GroupData \<or> session_or_group_id r \<noteq> gs_group_id s \<or>
                sender_id r \<noteq> sm_sender step \<or> epoch r \<noteq> gs_epoch s \<or>
                state_version r \<noteq> gs_state_version s \<or> message_index r \<noteq> counter header \<or>
                message_index r \<noteq> sm_index step \<or>
                \<not> group_data_record_class_allowed (gs_mode s) (length (content r)) (envelope_class header)))
       GE_AuthenticationFailed"

definition verify_group_data_signature_with_key ::
    "CryptoPrims \<Rightarrow> GroupState \<Rightarrow> OuterHeader \<Rightarrow> SenderMessageStep \<Rightarrow> ProtectedRecord \<Rightarrow> bytes option \<Rightarrow>
       GroupError + bytes" where
  "verify_group_data_signature_with_key P s header step r verification_key =
     rbind (ensure (\<not> length (content r) < 4 + ML_DSA_65_SIG_SIZE) GE_InvalidGroupSignature) (\<lambda>_.
     let application_len = unat (be_word (take 4 (content r)) :: u32) in
     rbind (ok_or (checked_add_usize 4 application_len) GE_InvalidGroupSignature) (\<lambda>signature_start.
     rbind (ok_or (checked_add_usize signature_start ML_DSA_65_SIG_SIZE) GE_InvalidGroupSignature) (\<lambda>expected_len.
     rbind (ensure (expected_len = length (content r)) GE_InvalidGroupSignature) (\<lambda>_.
     rbind (ensure (signed_group_data_class (gs_mode s) application_len = Some (envelope_class header))
              GE_InvalidGroupSignature) (\<lambda>_.
     let application = slice 4 signature_start (content r); sig = drop signature_start (content r) in
     rbind (ok_or verification_key GE_InvalidGroupSignature) (\<lambda>vk.
     rbind (ok_or (find (\<lambda>e. member_id e = sm_sender step) (gs_roster s)) GE_InvalidGroupSignature) (\<lambda>entry.
     rbind (ensure (device_identity_fingerprint entry = identity_fingerprint P vk) GE_InvalidGroupSignature) (\<lambda>_.
     rbind (group_data_signature_digest P s (envelope_class header) step application) (\<lambda>digest.
     rbind (map_err (\<lambda>_. GE_InvalidGroupSignature) (mldsa_verify_digest P vk digest sig)) (\<lambda>_.
       Inr application))))))))))"

definition verify_group_data_signature ::
    "CryptoPrims \<Rightarrow> GroupState \<Rightarrow> OuterHeader \<Rightarrow> SenderMessageStep \<Rightarrow> ProtectedRecord \<Rightarrow>
       (MemberId \<Rightarrow> bytes option) \<Rightarrow> GroupError + bytes" where
  "verify_group_data_signature P s header step r verification_key_for =
     verify_group_data_signature_with_key P s header step r (verification_key_for (sm_sender step))"

text \<open>Everything up to the first change of state: the resolution, the record's content and the new
  replay state.\<close>

definition open_group_checks ::
    "CryptoPrims \<Rightarrow> GroupState \<Rightarrow> bytes \<Rightarrow> (MemberId \<Rightarrow> bytes option) option \<Rightarrow>
       GroupError + SenderChainResolution \<times> bytes \<times> GroupReplayState" where
  "open_group_checks P s envelope verification_key_for =
     rbind (require_active s) (\<lambda>_.
     rbind (map_err (\<lambda>_. GE_InvalidEnvelope) (decode_outer_header envelope)) (\<lambda>header.
     rbind (ensure (\<not> (mode header \<noteq> Protected \<or> counter header = u64_max)) GE_InvalidEnvelope) (\<lambda>_.
     rbind (ensure (\<not> contains_route_tag (gs_replay_state s) (route_tag header) (counter header))
              GE_ReplayDetected) (\<lambda>_.
     rbind (resolution_for_route P (gs_sender_chains s) (epoch_key_context s) (route_tag header) (counter header)
              (group_skip_bound (gs_mode s))) (\<lambda>resolution.
     let step = resolution_step resolution in
     rbind (open_group_ciphertext P s step envelope) (\<lambda>plaintext.
     rbind (map_err (\<lambda>_. GE_AuthenticationFailed)
              (decode_protected_record (envelope_class header) plaintext)) (\<lambda>r.
     rbind (validate_group_data_record s header step r) (\<lambda>_.
     rbind (case verification_key_for of
              Some resolver \<Rightarrow> verify_group_data_signature P s header step r resolver
            | None \<Rightarrow> Inr (content r)) (\<lambda>received.
     rbind (on_clone (mark_accepted (sm_sender step) (sm_index step) (sm_route_tag step))
              (gs_replay_state s)) (\<lambda>(_, replay_state).
       Inr (resolution, received, replay_state)))))))))))"

definition open_group_data_inner ::
    "CryptoPrims \<Rightarrow> bytes \<Rightarrow> (MemberId \<Rightarrow> bytes option) option \<Rightarrow> GroupReceivedMessage group_op" where
  "open_group_data_inner P envelope verification_key_for s =
     st_bind (st_lift (open_group_checks P s envelope verification_key_for))
       (\<lambda>(resolution, received, replay_state).
     let step = resolution_step resolution in
     st_bind (on_chains (commit_resolution resolution (unat (group_skip_bound (gs_mode s))))) (\<lambda>_.
     st_bind (st_modify (\<lambda>s. s\<lparr>gs_replay_state := replay_state\<rparr>)) (\<lambda>_.
       st_lift (Inr \<lparr>rec_sender = sm_sender step, rec_index = sm_index step, rec_content = received\<rparr>)))) s"

definition open_group_data :: "CryptoPrims \<Rightarrow> bytes \<Rightarrow> GroupReceivedMessage group_op" where
  "open_group_data P envelope = open_group_data_inner P envelope None"

definition open_signed_group_data ::
    "CryptoPrims \<Rightarrow> bytes \<Rightarrow> (MemberId \<Rightarrow> bytes option) \<Rightarrow> GroupReceivedMessage group_op" where
  "open_signed_group_data P envelope verification_key_for =
     open_group_data_inner P envelope (Some verification_key_for)"

end
