(* ===== verification/Group_Commit.thy ===== *)
theory Group_Commit
  imports Group_State Group_Distribution
begin

text \<open>
  Commits (\<open>commit/\<close>): a plan is turned into a candidate state and a signed core
  (\<open>prepare.rs\<close>, \<open>transition.rs\<close>, \<open>tree_update.rs\<close>, \<open>membership.rs\<close>, \<open>key_schedule.rs\<close>,
  \<open>payload.rs\<close>, \<open>validation.rs\<close>), applied to the state (\<open>apply.rs\<close>) or installed with duplicate
  and fork handling (\<open>install.rs\<close>).
\<close>

section \<open>Types\<close>

datatype CommitChange =
    CC_Create "RosterEntry list" GovernancePolicy ModePolicy bytes
  | CC_Join RosterEntry
  | CC_Leave MemberId
  | CC_RemoveOrRevoke MemberId u16
  | CC_GovernanceChange GovernancePolicy
  | CC_IdentityRotate MemberId RosterEntry bytes
  | CC_RoleChange MemberId GroupRole
  | CC_ModeChange GroupMode ModePolicy
  | CC_TreeSelfUpdate MemberId

fun commit_change_kind :: "CommitChange \<Rightarrow> CommitKind" where
  "commit_change_kind (CC_Create _ _ _ _) = CK_Create"
| "commit_change_kind (CC_Join _) = CK_Join"
| "commit_change_kind (CC_Leave _) = CK_Leave"
| "commit_change_kind (CC_RemoveOrRevoke _ _) = CK_RemoveOrRevoke"
| "commit_change_kind (CC_GovernanceChange _) = CK_GovernanceChange"
| "commit_change_kind (CC_IdentityRotate _ _ _) = CK_IdentityRotate"
| "commit_change_kind (CC_RoleChange _ _) = CK_RoleChange"
| "commit_change_kind (CC_ModeChange _ _) = CK_ModeChange"
| "commit_change_kind (CC_TreeSelfUpdate _) = CK_TreeSelfUpdate"

record CommitPlan =
  plan_committer :: MemberId
  plan_commit_nonce :: bytes
  plan_change :: CommitChange
  plan_signatures :: "CommitSignature list"
  plan_update_path :: "UpdatePath option"
  plan_direct_epoch_secret :: "bytes option"

record CandidateState =
  ca_mode :: GroupMode
  ca_mechanism :: MembershipMechanism
  ca_epoch :: Epoch
  ca_state_version :: StateVersion
  ca_roster :: "RosterEntry list"
  ca_roster_hash :: bytes
  ca_tree_hash :: bytes
  ca_governance_policy :: GovernancePolicy
  ca_mode_policy :: ModePolicy
  ca_public_tree :: "PublicTree option"
  ca_direct_epoch_secret :: "Secret32 option"

record PreparedCommit =
  pc_core :: CommitCore
  pc_encoded_core :: bytes
  pc_signature_digest :: bytes
  pc_commit_hash :: bytes
  pc_signatures :: "CommitSignature list"
  pc_candidate :: CandidateState

datatype CommitInstallResult = CIR_Applied | CIR_Duplicate | CIR_Forked

record TransitionDraft =
  td_mode :: GroupMode
  td_mechanism :: MembershipMechanism
  td_roster :: "RosterEntry list"
  td_governance_policy :: GovernancePolicy
  td_mode_policy :: ModePolicy
  td_tree_hash :: bytes

section \<open>Membership changes\<close>

definition mark_removed :: "RosterEntry list \<Rightarrow> MemberId \<Rightarrow> Epoch \<Rightarrow> GroupError + RosterEntry list" where
  "mark_removed roster mid e =
     rbind (ok_or (find (\<lambda>x. member_id x = mid) roster) (GE_MemberNotFound mid)) (\<lambda>entry.
     rbind (ensure (status entry = MS_Active) (GE_MemberInactive mid)) (\<lambda>_.
       Inr (update_first (\<lambda>x. member_id x = mid) (\<lambda>x. x\<lparr>status := MS_Removed, removed_epoch := e\<rparr>) roster)))"

definition prune_removed_governance_signer :: "GovernancePolicy \<Rightarrow> MemberId \<Rightarrow> GovernancePolicy" where
  "prune_removed_governance_signer p mid =
     p\<lparr>authorized_signers := filter (\<lambda>authorized. authorized \<noteq> mid) (authorized_signers p)\<rparr>"

fun removed_member_for_change :: "CommitChange \<Rightarrow> MemberId option" where
  "removed_member_for_change (CC_Leave mid) = Some mid"
| "removed_member_for_change (CC_RemoveOrRevoke mid _) = Some mid"
| "removed_member_for_change _ = None"

fun assign_slots :: "(nat \<times> nat) list \<Rightarrow> RosterEntry list \<Rightarrow> GroupError + RosterEntry list" where
  "assign_slots [] roster = Inr roster"
| "assign_slots ((slot, index) # rest) roster =
     rbind (ok_or (u32_try_from slot) GE_CounterExhausted) (\<lambda>w.
       assign_slots rest (roster[index := (roster ! index)\<lparr>tree_leaf_slot := w\<rparr>]))"

definition active_indices :: "RosterEntry list \<Rightarrow> nat list" where
  "active_indices roster =
     sort_key (\<lambda>i. member_id (roster ! i)) (filter (\<lambda>i. status (roster ! i) = MS_Active) [0..<length roster])"

definition remap_roster_slots_for_mode :: "GroupMode \<Rightarrow> RosterEntry list \<Rightarrow> GroupError + RosterEntry list" where
  "remap_roster_slots_for_mode m roster =
     (let active = active_indices roster in
      case required_mechanism m of
        TreeKem \<Rightarrow>
          rbind (ensure (\<not> max_roster_entries m < length active) GE_InvalidRoster) (\<lambda>_.
            assign_slots (enumerate 0 active) roster)
      | DirectWrap \<Rightarrow>
          Inr (foldl (\<lambda>r i. r[i := (r ! i)\<lparr>tree_leaf_slot := of_nat u32_max\<rparr>]) roster active))"

definition install_membership_material ::
    "PublicTree option \<Rightarrow> Secret32 option \<Rightarrow> GroupState \<Rightarrow> GroupState" where
  "install_membership_material public_tree direct_epoch_secret s =
     (case (gs_mechanism s, public_tree, direct_epoch_secret) of
        (TreeKem, Some tree, _) \<Rightarrow>
          (case gs_membership s of
             MPS_TreeKem _ pp \<Rightarrow> s\<lparr>gs_membership := MPS_TreeKem tree pp\<rparr>
           | _ \<Rightarrow> s\<lparr>gs_membership := MPS_TreeKem tree PrivatePath_default\<rparr>)
      | (DirectWrap, _, Some epoch_secret) \<Rightarrow> s\<lparr>gs_membership := MPS_DirectWrap epoch_secret\<rparr>
      | _ \<Rightarrow> s)"

section \<open>The public tree of a commit\<close>

fun occupy_leaves ::
    "PublicTree option \<Rightarrow> RosterEntry list \<Rightarrow> PublicTree \<Rightarrow> GroupError + PublicTree" where
  "occupy_leaves old_tree [] t = Inr t"
| "occupy_leaves old_tree (entry # rest) t =
     (let old_leaf = Option.bind old_tree (\<lambda>old.
            find (\<lambda>l. leaf_member_id l = member_id entry) (List.map_filter leaf (nodes old)));
          l = \<lparr>leaf_member_id = member_id entry, leaf_fingerprint = device_identity_fingerprint entry,
               leaf_role = role entry,
               generation = (case old_leaf of None \<Rightarrow> 0 | Some l \<Rightarrow> generation l),
               leaf_node_key = Option.bind old_leaf leaf_node_key\<rparr> in
      rbind (on_clone (occupy_leaf (tree_leaf_slot entry) l) t) (\<lambda>(_, t').
        occupy_leaves old_tree rest t'))"

definition build_mode_change_public_tree ::
    "GroupState \<Rightarrow> GroupMode \<Rightarrow> PublicTree option \<Rightarrow> GroupError + PublicTree" where
  "build_mode_change_public_tree s target_mode old_tree =
     rbind (remap_roster_slots_for_mode target_mode (gs_roster s)) (\<lambda>roster.
     rbind (PublicTree_new target_mode (Some (gs_epoch s))) (\<lambda>t.
       occupy_leaves old_tree (filter (\<lambda>e. status e = MS_Active) roster) t))"

fun set_updated_nodes :: "DerivedPublicPathNode list \<Rightarrow> PublicTree \<Rightarrow> GroupError + PublicTree" where
  "set_updated_nodes [] t = Inr t"
| "set_updated_nodes (n # ns) t =
     rbind (on_clone (set_node_key (dn_node_index n) (Some (dn_node_key n))) t) (\<lambda>(_, t').
       set_updated_nodes ns t')"

fun is_mode_change :: "CommitChange \<Rightarrow> bool" where
  "is_mode_change (CC_ModeChange _ _) = True"
| "is_mode_change _ = False"

definition apply_update_path_to_public_tree ::
    "CryptoPrims \<Rightarrow> GroupState \<Rightarrow> UpdatePath \<Rightarrow> CommitChange \<Rightarrow> GroupError + PublicTree option" where
  "apply_update_path_to_public_tree P s up change =
     (let target_mode = (case change of CC_ModeChange new_mode _ \<Rightarrow> new_mode | _ \<Rightarrow> gs_mode s);
          old_tree = (case gs_membership s of MPS_TreeKem t _ \<Rightarrow> Some t | _ \<Rightarrow> None) in
      rbind (if is_mode_change change then build_mode_change_public_tree s target_mode old_tree
             else ok_or old_tree GE_InvalidState) (\<lambda>candidate.
      rbind (ensure (\<not> (pt_mode candidate \<noteq> target_mode \<or> up_leaf_capacity up \<noteq> leaf_capacity candidate))
               GE_InvalidUpdatePath) (\<lambda>_.
      rbind (case removed_member_for_change change of
               Some mid \<Rightarrow>
                 rbind (ok_or (find (\<lambda>e. member_id e = mid) (gs_roster s)) (GE_MemberNotFound mid)) (\<lambda>entry.
                 rbind (on_clone (vacate_leaf (tree_leaf_slot entry)) candidate) (\<lambda>(_, t). Inr t))
             | None \<Rightarrow> Inr candidate) (\<lambda>candidate.
      rbind (case change of
               CC_RoleChange mid new_role \<Rightarrow>
                 rbind (ok_or (find (\<lambda>e. member_id e = mid) (gs_roster s)) (GE_MemberNotFound mid)) (\<lambda>entry.
                 rbind (on_clone (update_leaf_role (tree_leaf_slot entry) new_role) candidate) (\<lambda>(_, t). Inr t))
             | _ \<Rightarrow> Inr candidate) (\<lambda>candidate.
      rbind (set_updated_nodes (updated_nodes up) candidate) (\<lambda>candidate.
      rbind (tree_hash P candidate) (\<lambda>h.
      rbind (ensure (h = candidate_tree_hash up) GE_InvalidUpdatePath) (\<lambda>_.
        Inr (Some candidate)))))))))"

section \<open>The candidate state\<close>

definition draft_from_state :: "GroupState \<Rightarrow> TransitionDraft" where
  "draft_from_state s =
     \<lparr>td_mode = gs_mode s, td_mechanism = gs_mechanism s, td_roster = gs_roster s,
      td_governance_policy = gs_governance_policy s, td_mode_policy = gs_mode_policy s,
      td_tree_hash = gs_tree_hash s\<rparr>"

definition draft_add_member :: "RosterEntry list \<Rightarrow> RosterEntry \<Rightarrow> GroupError + RosterEntry list" where
  "draft_add_member roster new_entry =
     rbind (ensure (\<not> list_ex (\<lambda>e. member_id e = member_id new_entry) roster)
              (GE_MemberAlreadyExists (member_id new_entry))) (\<lambda>_.
       Inr (roster @ [new_entry]))"

definition draft_change_member_role ::
    "GroupMode \<Rightarrow> RosterEntry list \<Rightarrow> MemberId \<Rightarrow> GroupRole \<Rightarrow> GroupError + RosterEntry list" where
  "draft_change_member_role m roster mid new_role =
     rbind (ensure (is_active_in_mode new_role m) (GE_InvalidRoleForMode m new_role)) (\<lambda>_.
     rbind (ok_or (find (\<lambda>e. member_id e = mid) roster) (GE_MemberNotFound mid)) (\<lambda>entry.
     rbind (ensure (status entry = MS_Active) (GE_MemberInactive mid)) (\<lambda>_.
       Inr (update_first (\<lambda>e. member_id e = mid) (\<lambda>e. e\<lparr>role := new_role\<rparr>) roster))))"

definition apply_mode_change :: "TransitionDraft \<Rightarrow> GroupMode \<Rightarrow> GroupError + TransitionDraft" where
  "apply_mode_change d new_mode =
     (let d = d\<lparr>td_mode := new_mode, td_mechanism := required_mechanism new_mode\<rparr> in
      rbind (remap_roster_slots_for_mode new_mode (td_roster d)) (\<lambda>roster.
      let d = d\<lparr>td_roster := roster\<rparr> in
        Inr (if td_mechanism d = DirectWrap then d\<lparr>td_tree_hash := replicate 64 0\<rparr> else d)))"

fun apply_commit_change :: "TransitionDraft \<Rightarrow> CommitChange \<Rightarrow> Epoch \<Rightarrow> GroupError + TransitionDraft" where
  "apply_commit_change d (CC_Create new_roster policy mode_policy new_tree_hash) e =
     Inr (d\<lparr>td_roster := new_roster, td_governance_policy := policy, td_mode_policy := mode_policy,
            td_tree_hash := new_tree_hash\<rparr>)"
| "apply_commit_change d (CC_Join new_entry) e =
     rbind (draft_add_member (td_roster d) new_entry) (\<lambda>r. Inr (d\<lparr>td_roster := r\<rparr>))"
| "apply_commit_change d (CC_Leave mid) e =
     rbind (mark_removed (td_roster d) mid e) (\<lambda>r.
       Inr (d\<lparr>td_roster := r,
              td_governance_policy := prune_removed_governance_signer (td_governance_policy d) mid\<rparr>))"
| "apply_commit_change d (CC_RemoveOrRevoke mid _) e =
     rbind (mark_removed (td_roster d) mid e) (\<lambda>r.
       Inr (d\<lparr>td_roster := r,
              td_governance_policy := prune_removed_governance_signer (td_governance_policy d) mid\<rparr>))"
| "apply_commit_change d (CC_GovernanceChange policy) e = Inr (d\<lparr>td_governance_policy := policy\<rparr>)"
| "apply_commit_change d (CC_IdentityRotate old new_entry _) e =
     rbind (mark_removed (td_roster d) old e) (\<lambda>r.
     rbind (draft_add_member r new_entry) (\<lambda>r.
       Inr (d\<lparr>td_roster := r\<rparr>)))"
| "apply_commit_change d (CC_RoleChange mid new_role) e =
     rbind (draft_change_member_role (td_mode d) (td_roster d) mid new_role) (\<lambda>r. Inr (d\<lparr>td_roster := r\<rparr>))"
| "apply_commit_change d (CC_ModeChange new_mode mode_policy) e =
     apply_mode_change (d\<lparr>td_mode_policy := mode_policy\<rparr>) new_mode"
| "apply_commit_change d (CC_TreeSelfUpdate _) e = Inr d"

definition apply_membership_material ::
    "CryptoPrims \<Rightarrow> GroupState \<Rightarrow> CommitPlan \<Rightarrow> MembershipMechanism \<Rightarrow> bytes \<Rightarrow>
       GroupError + bytes \<times> PublicTree option \<times> Secret32 option" where
  "apply_membership_material P s plan mechanism old_tree_hash =
     (case mechanism of
        TreeKem \<Rightarrow>
          if commit_change_kind (plan_change plan) \<noteq> CK_Create
          then rbind (ok_or (plan_update_path plan) GE_MissingUpdatePath) (\<lambda>up.
               rbind (apply_update_path_to_public_tree P s up (plan_change plan)) (\<lambda>t.
                 Inr (candidate_tree_hash up, t, None)))
          else Inr (old_tree_hash, None, None)
      | DirectWrap \<Rightarrow>
          rbind (ok_or (plan_direct_epoch_secret plan) GE_MissingEpochSecret) (\<lambda>secret.
            Inr (old_tree_hash, None, Some secret)))"

definition next_transition_counters :: "GroupState \<Rightarrow> CommitKind \<Rightarrow> GroupError + Epoch \<times> StateVersion" where
  "next_transition_counters s kind =
     (if kind = CK_Create
      then rbind (ensure (\<not> (gs_epoch s \<noteq> 0 \<or> gs_state_version s \<noteq> 0)) GE_InvalidCommitParent) (\<lambda>_. Inr (0, 0))
      else
        rbind (ok_or (checked_add_u64 (gs_epoch s) 1) GE_CounterExhausted) (\<lambda>e.
        rbind (ok_or (checked_add_u64 (gs_state_version s) 1) GE_CounterExhausted) (\<lambda>v.
          Inr (e, v))))"

definition build_transition :: "CryptoPrims \<Rightarrow> GroupState \<Rightarrow> CommitPlan \<Rightarrow> GroupError + CandidateState" where
  "build_transition P s plan =
     rbind (next_transition_counters s (commit_change_kind (plan_change plan))) (\<lambda>(e, v).
     rbind (apply_commit_change (draft_from_state s) (plan_change plan) e) (\<lambda>d.
     rbind (validate_mode_mechanism (td_mode d) (td_mechanism d)) (\<lambda>_.
     rbind (validate_roster_for_mode (td_mode d) e (td_roster d)) (\<lambda>_.
     rbind (validate_governance_for_roster (td_governance_policy d) (td_roster d)) (\<lambda>_.
     rbind (encode_roster (td_mode d) (td_roster d)) (\<lambda>encoded_roster.
     rbind (roster_hash P encoded_roster) (\<lambda>rh.
     rbind (apply_membership_material P s plan (td_mechanism d) (td_tree_hash d)) (\<lambda>(th, tree, secret).
       Inr \<lparr>ca_mode = td_mode d, ca_mechanism = td_mechanism d, ca_epoch = e, ca_state_version = v,
            ca_roster = td_roster d, ca_roster_hash = rh, ca_tree_hash = th,
            ca_governance_policy = td_governance_policy d, ca_mode_policy = td_mode_policy d,
            ca_public_tree = tree, ca_direct_epoch_secret = secret\<rparr>))))))))"

section \<open>Validation\<close>

definition verify_prepared_commit_integrity :: "CryptoPrims \<Rightarrow> PreparedCommit \<Rightarrow> GroupError + unit" where
  "verify_prepared_commit_integrity P prepared =
     rbind (encode_commit_core (pc_core prepared)) (\<lambda>encoded.
       if encoded \<noteq> pc_encoded_core prepared then Inl GE_InvalidCommitCore
       else
         rbind (commit_sig_digest P encoded) (\<lambda>d.
           if d \<noteq> pc_signature_digest prepared then Inl GE_InvalidCommitCore
           else
             rbind (commit_hash P encoded) (\<lambda>h.
               ensure (h = pc_commit_hash prepared) GE_InvalidCommitCore)))"

definition check_governance_signer ::
    "GovernancePolicy \<Rightarrow> RosterEntry list \<Rightarrow> CommitSignature \<Rightarrow> GroupError + unit" where
  "check_governance_signer policy roster sig =
     rbind (ensure (list_ex (\<lambda>x. x = signer sig) (authorized_signers policy))
              (GE_InvalidGovernanceSigner (signer sig))) (\<lambda>_.
     rbind (ok_or (find (\<lambda>e. member_id e = signer sig) roster) (GE_InvalidGovernanceSigner (signer sig))) (\<lambda>entry.
       ensure (status entry = MS_Active) (GE_InvalidGovernanceSigner (signer sig))))"

definition validate_governance_signatures ::
    "GovernancePolicy \<Rightarrow> RosterEntry list \<Rightarrow> CommitSignature list \<Rightarrow> GroupError + unit" where
  "validate_governance_signatures policy roster signatures =
     rbind (validate_governance_policy policy) (\<lambda>_.
     rbind (validate_signature_set signatures) (\<lambda>_.
     rbind (encode_signature_set signatures) (\<lambda>_.
     rbind (ensure (\<not> length signatures < unat (threshold policy)) GE_InsufficientGovernanceSignatures) (\<lambda>_.
       rforeach (check_governance_signer policy roster) signatures))))"

definition validate_change_specific_signatures ::
    "CommitChange \<Rightarrow> CommitSignature list \<Rightarrow> GroupError + unit" where
  "validate_change_specific_signatures change signatures =
     (case change of
        CC_Leave mid \<Rightarrow> ensure (list_ex (\<lambda>x. signer x = mid) signatures) GE_InvalidCommitCore
      | _ \<Rightarrow> Inr ())"

definition validate_parent_for_change :: "GroupState \<Rightarrow> MemberId \<Rightarrow> CommitChange \<Rightarrow> GroupError + unit" where
  "validate_parent_for_change s committer change =
     (case change of
        CC_Create _ _ _ _ \<Rightarrow>
          ensure (\<not> (gs_epoch s \<noteq> 0 \<or> gs_state_version s \<noteq> 0 \<or> gs_roster s \<noteq> [] \<or>
                     gs_last_commit_hash s \<noteq> replicate 64 0)) GE_InvalidCommitParent
      | CC_Leave mid \<Rightarrow>
          rbind (ensure (mid = committer) GE_InvalidCommitCore) (\<lambda>_.
          rbind (require_sender s committer) (\<lambda>_. Inr ()))
      | CC_TreeSelfUpdate mid \<Rightarrow>
          rbind (ensure (mid = committer) GE_InvalidCommitCore) (\<lambda>_.
          rbind (require_sender s committer) (\<lambda>_. Inr ()))
      | _ \<Rightarrow> rbind (require_sender s committer) (\<lambda>_. Inr ()))"

section \<open>Payload and key schedule\<close>

fun build_change_payload :: "GroupState \<Rightarrow> CommitChange \<Rightarrow> GroupError + ChangePayload" where
  "build_change_payload s (CC_Create _ policy mode_policy _) = Inr (CP_Create policy mode_policy)"
| "build_change_payload s (CC_Join new_entry) = Inr (CP_Join new_entry)"
| "build_change_payload s (CC_Leave mid) = Inr (CP_Leave mid)"
| "build_change_payload s (CC_RemoveOrRevoke mid reason_code) = Inr (CP_RemoveOrRevoke mid reason_code)"
| "build_change_payload s (CC_GovernanceChange policy) = Inr (CP_GovernanceChange policy)"
| "build_change_payload s (CC_IdentityRotate old new_entry digest) = Inr (CP_IdentityRotate old new_entry digest)"
| "build_change_payload s (CC_RoleChange mid new_role) =
     rbind (ok_or (find (\<lambda>e. member_id e = mid) (gs_roster s)) (GE_MemberNotFound mid)) (\<lambda>entry.
       Inr (CP_RoleChange mid (role entry) new_role))"
| "build_change_payload s (CC_ModeChange new_mode mode_policy) = Inr (CP_ModeChange (gs_mode s) new_mode mode_policy)"
| "build_change_payload s (CC_TreeSelfUpdate mid) = Inr (CP_TreeSelfUpdate mid)"

definition key_schedule_commitment ::
    "CryptoPrims \<Rightarrow> GroupState \<Rightarrow> CandidateState \<Rightarrow> CommitPlan \<Rightarrow> GroupError + bytes" where
  "key_schedule_commitment P s ca plan =
     (case ca_mechanism ca of
        TreeKem \<Rightarrow>
          if commit_change_kind (plan_change plan) = CK_Create
          then Inr (treekem_key_schedule_commitment P (gs_group_id s) (ca_mode ca) (ca_epoch ca) (ca_tree_hash ca)
                 (replicate 64 0))
          else
            rbind (ok_or (plan_update_path plan) GE_MissingUpdatePath) (\<lambda>up.
            rbind (update_path_hash P up) (\<lambda>update_hash.
              Inr (treekem_key_schedule_commitment P (gs_group_id s) (ca_mode ca) (ca_epoch ca) (ca_tree_hash ca)
                 update_hash)))
      | DirectWrap \<Rightarrow>
          rbind (ok_or (ca_direct_epoch_secret ca) GE_MissingEpochSecret) (\<lambda>secret.
            Inr (direct_wrap_key_schedule_commitment P (gs_group_id s) (ca_mode ca) (ca_epoch ca)
               (plan_commit_nonce plan) secret)))"

section \<open>Prepare\<close>

definition prepared_core ::
    "GroupState \<Rightarrow> CommitPlan \<Rightarrow> CandidateState \<Rightarrow> bytes \<Rightarrow> bytes \<Rightarrow> bytes \<Rightarrow> bytes \<Rightarrow> CommitCore" where
  "prepared_core s plan ca payload_hash key_commitment governance_hash mode_hash =
     \<lparr>cc_commit_kind = commit_change_kind (plan_change plan), cc_group_id = gs_group_id s,
      cc_old_group_mode = (if commit_change_kind (plan_change plan) = CK_Create then None else Some (gs_mode s)),
      cc_new_group_mode = ca_mode ca, cc_new_membership_mechanism = ca_mechanism ca,
      cc_old_epoch = gs_epoch s, cc_new_epoch = ca_epoch ca,
      cc_old_state_version = gs_state_version s, cc_new_state_version = ca_state_version ca,
      cc_parent_commit_hash = gs_last_commit_hash s,
      cc_old_roster_hash = gs_roster_hash s, cc_new_roster_hash = ca_roster_hash ca,
      cc_old_tree_hash = gs_tree_hash s, cc_new_tree_hash = ca_tree_hash ca,
      cc_commit_nonce = plan_commit_nonce plan, cc_change_payload_hash = payload_hash,
      cc_key_schedule_commitment = key_commitment, cc_governance_policy_hash = governance_hash,
      cc_mode_policy_hash = mode_hash\<rparr>"

definition prepare_commit :: "CryptoPrims \<Rightarrow> GroupState \<Rightarrow> CommitPlan \<Rightarrow> GroupError + PreparedCommit" where
  "prepare_commit P s plan =
     rbind (require_active s) (\<lambda>_.
     rbind (validate_parent_for_change s (plan_committer plan) (plan_change plan)) (\<lambda>_.
     rbind (build_transition P s plan) (\<lambda>ca.
     rbind (if commit_change_kind (plan_change plan) = CK_Create
            then validate_governance_signatures (ca_governance_policy ca) (ca_roster ca) (plan_signatures plan)
            else validate_governance_signatures (gs_governance_policy s) (gs_roster s) (plan_signatures plan)) (\<lambda>_.
     rbind (validate_change_specific_signatures (plan_change plan) (plan_signatures plan)) (\<lambda>_.
     rbind (build_change_payload s (plan_change plan)) (\<lambda>payload.
     rbind (encode_change_payload payload) (\<lambda>encoded_payload.
     rbind (change_payload_hash P encoded_payload) (\<lambda>payload_hash.
     rbind (key_schedule_commitment P s ca plan) (\<lambda>key_commitment.
     rbind (encode_governance_policy (ca_governance_policy ca)) (\<lambda>canonical_governance.
     rbind (governance_policy_hash P canonical_governance) (\<lambda>governance_hash.
     rbind (mode_policy_hash P (ca_mode_policy ca)) (\<lambda>mode_hash.
     let core = prepared_core s plan ca payload_hash key_commitment governance_hash mode_hash in
     rbind (encode_commit_core core) (\<lambda>encoded_core.
     rbind (commit_sig_digest P encoded_core) (\<lambda>signature_digest.
     rbind (commit_hash P encoded_core) (\<lambda>hash.
       Inr \<lparr>pc_core = core, pc_encoded_core = encoded_core, pc_signature_digest = signature_digest,
            pc_commit_hash = hash, pc_signatures = plan_signatures plan, pc_candidate = ca\<rparr>)))))))))))))))"

section \<open>Apply and install\<close>

definition adopt_candidate :: "PreparedCommit \<Rightarrow> GroupState \<Rightarrow> GroupState" where
  "adopt_candidate prepared s =
     (let ca = pc_candidate prepared in
      s\<lparr>gs_previous_commit_hash := gs_last_commit_hash s, gs_mode := ca_mode ca, gs_mechanism := ca_mechanism ca,
        gs_epoch := ca_epoch ca, gs_state_version := ca_state_version ca,
        gs_last_commit_hash := pc_commit_hash prepared, gs_roster_hash := ca_roster_hash ca,
        gs_tree_hash := ca_tree_hash ca, gs_governance_policy := ca_governance_policy ca,
        gs_mode_policy := ca_mode_policy ca, gs_roster := ca_roster ca\<rparr>)"

definition extends_state :: "GroupState \<Rightarrow> CommitCore \<Rightarrow> bool" where
  "extends_state s core \<longleftrightarrow>
     \<not> (cc_group_id core \<noteq> gs_group_id s \<or> cc_parent_commit_hash core \<noteq> gs_last_commit_hash s \<or>
        cc_old_roster_hash core \<noteq> gs_roster_hash s \<or> cc_old_tree_hash core \<noteq> gs_tree_hash s \<or>
        cc_old_epoch core \<noteq> gs_epoch s \<or> cc_old_state_version core \<noteq> gs_state_version s \<or>
        (cc_commit_kind core \<noteq> CK_Create \<and> cc_old_group_mode core \<noteq> Some (gs_mode s)))"

definition apply_prepared_commit :: "CryptoPrims \<Rightarrow> PreparedCommit \<Rightarrow> unit group_op" where
  "apply_prepared_commit P prepared s =
     (let ca = pc_candidate prepared in
      st_bind (st_lift (
        rbind (require_active s) (\<lambda>_.
        rbind (ensure (extends_state s (pc_core prepared)) GE_InvalidCommitParent) (\<lambda>_.
        rbind (if cc_commit_kind (pc_core prepared) = CK_Create
               then validate_governance_signatures (ca_governance_policy ca) (ca_roster ca) (pc_signatures prepared)
               else validate_governance_signatures (gs_governance_policy s) (gs_roster s) (pc_signatures prepared)) (\<lambda>_.
          verify_prepared_commit_integrity P prepared))))) (\<lambda>_.
      st_bind (st_modify (adopt_candidate prepared)) (\<lambda>_ s.
      st_bind (st_lift (case (ca_direct_epoch_secret ca, gs_mechanism s) of
                 (Some secret, DirectWrap) \<Rightarrow>
                   rbind (derive_epoch_key_for_context P secret (epoch_key_context s)) (\<lambda>k. Inr (Some k))
               | _ \<Rightarrow> Inr None)) (\<lambda>sender_epoch_key.
      st_bind (st_modify (install_membership_material (ca_public_tree ca) (ca_direct_epoch_secret ca))) (\<lambda>_.
        case sender_epoch_key of
          Some epoch_key \<Rightarrow> install_epoch_sender_chains P epoch_key
        | None \<Rightarrow> st_modify (\<lambda>s. s\<lparr>gs_sender_chains := sender_chains_clear (gs_sender_chains s),
                     gs_replay_state := group_replay_clear (gs_replay_state s)\<rparr>))) s)) s)"

definition is_duplicate_commit :: "GroupState \<Rightarrow> PreparedCommit \<Rightarrow> bool" where
  "is_duplicate_commit s prepared \<longleftrightarrow>
     pc_commit_hash prepared = gs_last_commit_hash s \<and> cc_new_epoch (pc_core prepared) = gs_epoch s \<and>
     cc_new_state_version (pc_core prepared) = gs_state_version s \<and>
     cc_new_roster_hash (pc_core prepared) = gs_roster_hash s \<and>
     cc_new_tree_hash (pc_core prepared) = gs_tree_hash s"

definition extends_current_commit :: "GroupState \<Rightarrow> PreparedCommit \<Rightarrow> bool" where
  "extends_current_commit s prepared \<longleftrightarrow>
     cc_parent_commit_hash (pc_core prepared) = gs_last_commit_hash s \<and>
     cc_old_epoch (pc_core prepared) = gs_epoch s \<and> cc_old_state_version (pc_core prepared) = gs_state_version s"

definition forks_current_commit :: "GroupState \<Rightarrow> PreparedCommit \<Rightarrow> bool" where
  "forks_current_commit s prepared \<longleftrightarrow>
     cc_parent_commit_hash (pc_core prepared) = gs_previous_commit_hash s \<and>
     cc_new_epoch (pc_core prepared) = gs_epoch s \<and> cc_new_state_version (pc_core prepared) = gs_state_version s \<and>
     pc_commit_hash prepared \<noteq> gs_last_commit_hash s"

definition install_prepared_commit :: "CryptoPrims \<Rightarrow> PreparedCommit \<Rightarrow> CommitInstallResult group_op" where
  "install_prepared_commit P prepared s =
     st_bind (st_lift (
       rbind (require_active s) (\<lambda>_. verify_prepared_commit_integrity P prepared))) (\<lambda>_.
     if is_duplicate_commit s prepared then st_lift (Inr CIR_Duplicate)
     else if extends_current_commit s prepared
     then st_bind (apply_prepared_commit P prepared) (\<lambda>_. st_lift (Inr CIR_Applied))
     else if forks_current_commit s prepared
     then st_bind (st_modify mark_forked) (\<lambda>_. st_lift (Inr CIR_Forked))
     else st_lift (Inl GE_InvalidCommitParent)) s"

end
