(* ===== verification/Group_Machine.thy ===== *)
theory Group_Machine
  imports Group_Message Group_Commit
begin

text \<open>
  A member's group state as a state machine. \<open>GroupCall\<close> names every public operation that works inside
  an epoch: sealing, opening, taking a sender step, the roster operations, fork and close. Installing an
  epoch or a commit starts new sender chains and is treated in \<open>Group_Commit\<close>. The lemmas show which
  calls fail without a trace, what every call keeps of the sender chains, and that no chain step is used
  twice.
\<close>

section \<open>Opening\<close>

lemma open_group_checksD:
  assumes "open_group_checks P s env vk = Inr (res, bs, rep)"
  obtains header where "gs_phase s = GP_Active" "decode_outer_header env = Inr header" "mode header = Protected"
    "counter header \<noteq> u64_max" "\<not> contains_route_tag (gs_replay_state s) (route_tag header) (counter header)"
    "resolution_for_route P (gs_sender_chains s) (epoch_key_context s) (route_tag header) (counter header)
       (group_skip_bound (gs_mode s)) = Inr res"
    "mark_accepted (sm_sender (resolution_step res)) (sm_index (resolution_step res))
       (sm_route_tag (resolution_step res)) (gs_replay_state s) = (Inr (), rep)"
  using assms by (auto simp: open_group_checks_def require_active_def Let_def result_simps)

lemma open_group_data_cases:
  obtains (refused) e where "open_group_data_inner P env vk s = (Inl e, s)"
  | (opened) header res bs rep ch where "gs_phase s = GP_Active" "decode_outer_header env = Inr header"
      "open_group_checks P s env vk = Inr (res, bs, rep)"
      "resolution_shape (gs_sender_chains s) (counter header) res" "counter header \<noteq> u64_max"
      "commit_resolution res (unat (group_skip_bound (gs_mode s))) (gs_sender_chains s) = (Inr (), ch)"
      "mark_accepted (sm_sender (resolution_step res)) (sm_index (resolution_step res))
         (sm_route_tag (resolution_step res)) (gs_replay_state s) = (Inr (), rep)"
      "open_group_data_inner P env vk s =
         (Inr \<lparr>rec_sender = sm_sender (resolution_step res), rec_index = sm_index (resolution_step res), rec_content = bs\<rparr>,
          s\<lparr>gs_sender_chains := ch, gs_replay_state := rep\<rparr>)"
proof (cases "open_group_checks P s env vk")
  case (Inl e)
  then have "open_group_data_inner P env vk s = (Inl e, s)"
    by (simp add: open_group_data_inner_def st_bind_def st_lift_def)
  then show thesis by (rule refused)
next
  case (Inr x)
  obtain res bs rep where x: "x = (res, bs, rep)" by (cases x)
  note checks = Inr [unfolded x]
  obtain header where h: "gs_phase s = GP_Active" "decode_outer_header env = Inr header" "counter header \<noteq> u64_max"
      "resolution_for_route P (gs_sender_chains s) (epoch_key_context s) (route_tag header) (counter header)
         (group_skip_bound (gs_mode s)) = Inr res"
      "mark_accepted (sm_sender (resolution_step res)) (sm_index (resolution_step res))
         (sm_route_tag (resolution_step res)) (gs_replay_state s) = (Inr (), rep)"
    by (rule open_group_checksD [OF checks])
  note shape = resolution_for_route_shape [OF h(4)]
  obtain r ch where run: "commit_resolution res (unat (group_skip_bound (gs_mode s))) (gs_sender_chains s) = (r, ch)"
    by fastforce
  show thesis
  proof (cases r)
    case (Inl e)
    have "ch = gs_sender_chains s"
      using shape h(3) by (cases rule: commit_resolution_cases [where b = "unat (group_skip_bound (gs_mode s))"])
        (use run Inl in simp_all)
    then have "open_group_data_inner P env vk s = (Inl e, s)"
      using checks run Inl by (simp add: open_group_data_inner_def st_bind_def st_lift_def on_chains_def Let_def)
    then show thesis by (rule refused)
  next
    case (Inr u)
    have run': "open_group_data_inner P env vk s =
         (Inr \<lparr>rec_sender = sm_sender (resolution_step res), rec_index = sm_index (resolution_step res), rec_content = bs\<rparr>,
          s\<lparr>gs_sender_chains := ch, gs_replay_state := rep\<rparr>)"
      using checks run Inr
      by (simp add: open_group_data_inner_def st_bind_def st_lift_def st_modify_def on_chains_def Let_def)
    show thesis
      by (rule opened [OF h(1,2) checks shape h(3) _ h(5) run']) (use run Inr in simp)
  qed
qed

section \<open>Calls\<close>

datatype GroupCall =
    GCall_Seal MemberId bytes
  | GCall_SealSigned MemberId bytes "bytes option" bytes
  | GCall_NextStep MemberId
  | GCall_Open bytes
  | GCall_OpenSigned bytes "MemberId \<Rightarrow> bytes option"
  | GCall_SetMode GroupMode MembershipMechanism
  | GCall_ReplaceRoster "RosterEntry list"
  | GCall_AddMember RosterEntry
  | GCall_RemoveMember MemberId Epoch
  | GCall_ChangeRole MemberId GroupRole
  | GCall_MarkForked
  | GCall_Close

text \<open>What a call returns: the chain step it used, if any.\<close>

datatype GroupResult = UsedStep MemberId u64 | NoStep

definition gwrap :: "('a \<Rightarrow> GroupResult) \<Rightarrow> 'a group_op \<Rightarrow> GroupResult group_op" where
  "gwrap f m = st_bind m (\<lambda>x. st_lift (Inr (f x)))"

fun run_group_call :: "CryptoPrims \<Rightarrow> GroupCall \<Rightarrow> GroupResult group_op" where
  "run_group_call P (GCall_Seal m bs) = gwrap (\<lambda>o'. UsedStep (out_sender o') (out_index o')) (seal_group_data P m bs)"
| "run_group_call P (GCall_SealSigned m k ent bs) =
     gwrap (\<lambda>o'. UsedStep (out_sender o') (out_index o')) (seal_signed_group_data P m k ent bs)"
| "run_group_call P (GCall_NextStep m) = gwrap (\<lambda>st. UsedStep (sm_sender st) (sm_index st)) (next_sender_message_step P m)"
| "run_group_call P (GCall_Open env) = gwrap (\<lambda>r. UsedStep (rec_sender r) (rec_index r)) (open_group_data P env)"
| "run_group_call P (GCall_OpenSigned env vk) =
     gwrap (\<lambda>r. UsedStep (rec_sender r) (rec_index r)) (open_signed_group_data P env vk)"
| "run_group_call P (GCall_SetMode m mech) = gwrap (\<lambda>_. NoStep) (set_mode_and_mechanism m mech)"
| "run_group_call P (GCall_ReplaceRoster es) = gwrap (\<lambda>_. NoStep) (replace_roster P es)"
| "run_group_call P (GCall_AddMember e) = gwrap (\<lambda>_. NoStep) (group_add_member P e)"
| "run_group_call P (GCall_RemoveMember m ep) = gwrap (\<lambda>_. NoStep) (group_remove_member P m ep)"
| "run_group_call P (GCall_ChangeRole m r) = gwrap (\<lambda>_. NoStep) (group_change_member_role P m r)"
| "run_group_call P GCall_MarkForked = gwrap (\<lambda>_. NoStep) (st_modify mark_forked)"
| "run_group_call P GCall_Close = gwrap (\<lambda>_. NoStep) (st_modify group_close)"

fun is_seal :: "GroupCall \<Rightarrow> bool" where
  "is_seal (GCall_Seal _ _) = True"
| "is_seal (GCall_SealSigned _ _ _ _) = True"
| "is_seal _ = False"

definition group_step :: "CryptoPrims \<Rightarrow> GroupState \<Rightarrow> GroupCall \<Rightarrow> (MemberId \<times> u64) option \<times> GroupState" where
  "group_step P s c =
     (case run_group_call P c s of
        (Inr (UsedStep m i), s') \<Rightarrow> (Some (m, i), s')
      | (_, s') \<Rightarrow> (None, s'))"

lemma gwrap_Inr_iff [result_simps]:
  "gwrap f m s = (Inr y, s') \<longleftrightarrow> (\<exists>x. m s = (Inr x, s') \<and> y = f x)"
  by (auto simp: gwrap_def result_simps)

lemma gwrap_Inl_iff [result_simps]: "gwrap f m s = (Inl e, s') \<longleftrightarrow> m s = (Inl e, s')"
  by (auto simp: gwrap_def st_bind_Inl_iff st_lift_iff)

section \<open>What calls do to the chains\<close>

text \<open>A method that checks, takes one step of the sender's chain and then only computes.\<close>

definition took_step :: "CryptoPrims \<Rightarrow> MemberId \<Rightarrow> GroupState \<Rightarrow> SenderMessageStep \<Rightarrow> GroupState \<Rightarrow> bool" where
  "took_step P m s step s' \<longleftrightarrow> is_ok (require_sender s m) \<and>
     (\<exists>ch. next_send_step P (epoch_key_context s) m (gs_sender_chains s) = (Inr step, ch) \<and>
        s' = s\<lparr>gs_sender_chains := ch\<rparr>)"

lemma next_sender_message_step_iff:
  "next_sender_message_step P m s = (Inr step, s') \<longleftrightarrow> took_step P m s step s'"
  by (auto simp: next_sender_message_step_def took_step_def on_chains_def result_simps is_ok_iff split: prod.splits)

lemma next_sender_message_step_Inl:
  assumes "next_sender_message_step P m s = (Inl e, s')"
  shows "s' = s"
proof (cases rule: next_send_step_cases [of P "epoch_key_context s" m "gs_sender_chains s"])
  case (refused e')
  then show ?thesis
    using assms by (auto simp: next_sender_message_step_def st_bind_Inl_iff st_lift_iff on_chains_def)
next
  case (sent c step)
  then show ?thesis
    using assms by (auto simp: next_sender_message_step_def st_bind_Inl_iff st_lift_iff on_chains_def)
qed

lemma seal_record_result:
  "seal_group_record P s cls m step bs = Inr o' \<Longrightarrow> out_sender o' = m \<and> out_index o' = sm_index step"
  by (auto simp: seal_group_record_def result_simps)

lemma seal_effect:
  assumes "seal_group_data P m bs s = (r, s')"
  shows "(\<exists>e. r = Inl e \<and> s' = s) \<or>
    (\<exists>step. took_step P m s step s' \<and> (\<forall>o'. r = Inr o' \<longrightarrow> out_sender o' = m \<and> out_index o' = sm_index step))"
proof (cases r)
  case (Inl e)
  then show ?thesis
    using assms by (auto simp: seal_group_data_def st_bind_Inl_iff st_lift_iff next_sender_message_step_iff
        dest: next_sender_message_step_Inl)
next
  case (Inr o')
  then show ?thesis
    using assms by (auto simp: seal_group_data_def st_bind_Inr_iff st_lift_iff next_sender_message_step_iff
        dest: seal_record_result)
qed

lemma seal_signed_effect:
  assumes "seal_signed_group_data P m k ent bs s = (r, s')"
  shows "(\<exists>e. r = Inl e \<and> s' = s) \<or>
    (\<exists>step. took_step P m s step s' \<and> (\<forall>o'. r = Inr o' \<longrightarrow> out_sender o' = m \<and> out_index o' = sm_index step))"
proof (cases r)
  case (Inl e)
  then show ?thesis
    using assms by (auto simp: seal_signed_group_data_def st_bind_Inl_iff st_lift_iff next_sender_message_step_iff
        dest: next_sender_message_step_Inl)
next
  case (Inr o')
  then show ?thesis
    using assms by (auto simp: seal_signed_group_data_def st_bind_Inr_iff st_lift_iff rbind_Inr_iff
        next_sender_message_step_iff dest: seal_record_result)
qed

text \<open>
  The invariant of the public state: the mechanism is the mode's, and a roster that is present is valid
  for the mode and the epoch, is governed by active members, and is the one the roster hash commits to.
\<close>

definition governed :: "GovernancePolicy \<Rightarrow> RosterEntry list \<Rightarrow> bool" where
  "governed p roster \<longleftrightarrow> governance_valid p \<and> (\<forall>i \<in> set (authorized_signers p). active_member roster i)"

definition public_ok :: "CryptoPrims \<Rightarrow> GroupState \<Rightarrow> bool" where
  "public_ok P s \<longleftrightarrow> gs_mechanism s = required_mechanism (gs_mode s) \<and>
     (gs_roster s \<noteq> [] \<longrightarrow> roster_valid (gs_mode s) (gs_epoch s) (gs_roster s) \<and>
        governed (gs_governance_policy s) (gs_roster s) \<and>
        compute_roster_hash P (gs_mode s) (gs_roster s) = Inr (gs_roster_hash s))"

lemma roster_valid_distinct: "roster_valid m e roster \<Longrightarrow> distinct (map member_id roster)"
  by (simp add: roster_valid_def roster_shape_def)

lemma validate_governance_governed:
  "roster_valid m e roster \<Longrightarrow> validate_governance_for_roster p roster = Inr u \<Longrightarrow> governed p roster"
  using validate_governance_for_roster_iff [OF roster_valid_distinct] by (simp add: governed_def)

text \<open>The roster hash does not depend on the mode.\<close>

lemma compute_roster_hash_mode:
  "compute_roster_hash P m roster = Inr h \<Longrightarrow> roster_valid n e roster \<Longrightarrow> compute_roster_hash P n roster = Inr h"
  by (auto simp: compute_roster_hash_def rbind_Inr_iff encode_roster_Inr_iff roster_valid_def)

text \<open>Roster operations and a change of mode fail without a trace, keep the public invariant and never touch
  the private state.\<close>

definition quiet_step :: "CryptoPrims \<Rightarrow> GroupState \<Rightarrow> GroupState \<Rightarrow> bool" where
  "quiet_step P s s' \<longleftrightarrow> gs_phase s = GP_Active \<and> gs_phase s' = GP_Active \<and>
     gs_group_id s' = gs_group_id s \<and> gs_epoch s' = gs_epoch s \<and> gs_membership s' = gs_membership s \<and>
     gs_sender_chains s' = gs_sender_chains s \<and> gs_replay_state s' = gs_replay_state s \<and> (public_ok P s \<longrightarrow> public_ok P s')"

lemma replace_roster_Inr:
  assumes "replace_roster P es s = (Inr u, s')"
  shows "quiet_step P s s'"
proof -
  obtain h where "gs_phase s = GP_Active" and v: "roster_valid (gs_mode s) (gs_epoch s) es"
    and g: "validate_governance_for_roster (gs_governance_policy s) es = Inr ()"
    and h: "compute_roster_hash P (gs_mode s) es = Inr h" and s': "s' = s\<lparr>gs_roster := es, gs_roster_hash := h\<rparr>"
    using assms by (auto simp: replace_roster_def require_active_def result_simps)
  with validate_governance_governed [OF v g] show ?thesis
    by (simp add: quiet_step_def public_ok_def)
qed

lemma replace_roster_effect:
  "replace_roster P es s = (r, s') \<Longrightarrow> (\<exists>e. r = Inl e \<and> s' = s) \<or> is_ok r \<and> quiet_step P s s'"
proof (cases r)
  case (Inl e)
  assume "replace_roster P es s = (r, s')"
  then have "s' = s" using Inl by (auto simp: replace_roster_def st_bind_Inl_iff st_lift_iff st_modify_iff)
  then show ?thesis by (simp add: Inl)
next
  case (Inr u)
  assume "replace_roster P es s = (r, s')"
  with Inr show ?thesis using replace_roster_Inr [of P es s u s'] by simp
qed

lemma set_mode_Inr:
  assumes "set_mode_and_mechanism m mech s = (Inr u, s')"
  shows "quiet_step P s s'"
proof -
  have act: "gs_phase s = GP_Active" and mech: "mech = required_mechanism m"
    and v: "gs_roster s \<noteq> [] \<Longrightarrow> roster_valid m (gs_epoch s) (gs_roster s)"
    and g: "gs_roster s \<noteq> [] \<Longrightarrow> validate_governance_for_roster (gs_governance_policy s) (gs_roster s) = Inr ()"
    and s': "s' = s\<lparr>gs_mode := m, gs_mechanism := mech\<rparr>"
    using assms by (auto simp: set_mode_and_mechanism_def require_active_def result_simps split: if_splits)
  have "public_ok P s \<Longrightarrow> public_ok P s'"
    using mech v validate_governance_governed [OF v g] compute_roster_hash_mode [OF _ v]
    by (auto simp: public_ok_def s')
  then show ?thesis
    by (simp add: quiet_step_def s' act)
qed

lemma roster_call_effect:
  "set_mode_and_mechanism m mech s = (r, s') \<Longrightarrow> (\<exists>e. r = Inl e \<and> s' = s) \<or> is_ok r \<and> quiet_step P s s'"
  "group_add_member P e s = (r, s') \<Longrightarrow> (\<exists>e. r = Inl e \<and> s' = s) \<or> is_ok r \<and> quiet_step P s s'"
  "group_remove_member P i ep s = (r, s') \<Longrightarrow> (\<exists>e. r = Inl e \<and> s' = s) \<or> is_ok r \<and> quiet_step P s s'"
  "group_change_member_role P i rl s = (r, s') \<Longrightarrow> (\<exists>e. r = Inl e \<and> s' = s) \<or> is_ok r \<and> quiet_step P s s'"
proof -
  show "set_mode_and_mechanism m mech s = (r, s') \<Longrightarrow> (\<exists>e. r = Inl e \<and> s' = s) \<or> is_ok r \<and> quiet_step P s s'"
    using set_mode_Inr [of m mech s _ s' P]
    by (cases r) (auto simp: set_mode_and_mechanism_def st_bind_Inl_iff st_lift_iff st_modify_iff)
qed (cases r; auto simp: group_add_member_def group_remove_member_def group_change_member_role_def
    st_bind_Inl_iff st_bind_Inr_iff st_lift_iff dest: replace_roster_effect)+

text \<open>
  Everything a call can do: fail without a trace, use one step of a sending chain (and fail afterwards
  only when sealing), open a message, change the roster or the mode, or wipe the private state.
\<close>

inductive group_effect :: "CryptoPrims \<Rightarrow> bool \<Rightarrow> GroupState \<Rightarrow> GroupError + GroupResult \<Rightarrow> GroupState \<Rightarrow> bool"
  for P seal s where
  effect_refused: "group_effect P seal s (Inl e) s"
| effect_lost: "took_step P m s step s' \<Longrightarrow> seal \<Longrightarrow> group_effect P seal s (Inl e) s'"
| effect_stepped: "took_step P m s step s' \<Longrightarrow> group_effect P seal s (Inr (UsedStep m (sm_index step))) s'"
| effect_opened: "gs_phase s = GP_Active \<Longrightarrow> decode_outer_header env = Inr header \<Longrightarrow>
    open_group_checks P s env vk = Inr (res, bs, rep) \<Longrightarrow>
    resolution_shape (gs_sender_chains s) (counter header) res \<Longrightarrow> counter header \<noteq> u64_max \<Longrightarrow>
    commit_resolution res (unat (group_skip_bound (gs_mode s))) (gs_sender_chains s) = (Inr (), ch) \<Longrightarrow>
    mark_accepted (sm_sender (resolution_step res)) (sm_index (resolution_step res))
      (sm_route_tag (resolution_step res)) (gs_replay_state s) = (Inr (), rep) \<Longrightarrow>
    group_effect P seal s (Inr (UsedStep (sm_sender (resolution_step res)) (sm_index (resolution_step res))))
      (s\<lparr>gs_sender_chains := ch, gs_replay_state := rep\<rparr>)"
| effect_kept: "quiet_step P s s' \<Longrightarrow> group_effect P seal s (Inr NoStep) s'"
| effect_wiped: "p \<noteq> GP_Active \<Longrightarrow> group_effect P seal s (Inr NoStep) (wipe_and_set_phase p s)"

inductive_cases group_effect_errorE: "group_effect P seal s (Inl e) s'"

lemma open_call_effect:
  assumes "gwrap (\<lambda>r. UsedStep (rec_sender r) (rec_index r)) (open_group_data_inner P env vk) s = (r, s')"
  shows "group_effect P seal s r s'"
proof (cases rule: open_group_data_cases [of P env vk s])
  case (refused e)
  then have "r = Inl e" "s' = s" using assms by (simp_all add: gwrap_def)
  then show ?thesis by (simp add: effect_refused)
next
  case (opened header res bs rep ch)
  then have "r = Inr (UsedStep (sm_sender (resolution_step res)) (sm_index (resolution_step res)))"
    "s' = s\<lparr>gs_sender_chains := ch, gs_replay_state := rep\<rparr>"
    using assms by (simp_all add: gwrap_def st_lift_def)
  then show ?thesis using effect_opened [OF opened(1-7)] by simp
qed

lemma quiet_call_effect:
  assumes o': "gwrap (\<lambda>_. NoStep) m s = (r, s')"
    and eff: "\<And>r. m s = (r, s') \<Longrightarrow> (\<exists>e. r = Inl e \<and> s' = s) \<or> is_ok r \<and> quiet_step P s s'"
  shows "group_effect P seal s r s'"
proof (cases r)
  case (Inl e)
  then have "m s = (Inl e, s')" using o' by (simp add: gwrap_Inl_iff)
  then have "s' = s" using eff by fastforce
  then show ?thesis by (simp add: Inl effect_refused)
next
  case (Inr x)
  then obtain y where "m s = (Inr y, s')" "x = NoStep" using o' by (auto simp: gwrap_Inr_iff)
  then have "quiet_step P s s'" using eff by fastforce
  then show ?thesis by (simp add: Inr \<open>x = NoStep\<close> effect_kept)
qed

lemma seal_call_effect:
  assumes o': "gwrap (\<lambda>o'. UsedStep (out_sender o') (out_index o')) f s = (r, s')"
    and eff: "\<And>r. f s = (r, s') \<Longrightarrow> (\<exists>e. r = Inl e \<and> s' = s) \<or> (\<exists>step. took_step P m s step s' \<and>
      (\<forall>o'. r = Inr o' \<longrightarrow> out_sender o' = m \<and> out_index o' = sm_index step))"
  shows "group_effect P True s r s'"
proof (cases r)
  case (Inl e)
  then have "f s = (Inl e, s')" using o' by (simp add: gwrap_Inl_iff)
  then have "s' = s \<or> (\<exists>step. took_step P m s step s')" using eff [of "Inl e"] by auto
  then show ?thesis unfolding Inl by (auto intro: effect_refused effect_lost)
next
  case (Inr x)
  then obtain o' where "f s = (Inr o', s')" "x = UsedStep (out_sender o') (out_index o')"
    using o' by (auto simp: gwrap_Inr_iff)
  then show ?thesis using eff [of "Inr o'"] Inr effect_stepped by fastforce
qed

lemma next_step_call_effect:
  assumes "gwrap (\<lambda>st. UsedStep (sm_sender st) (sm_index st)) (next_sender_message_step P m) s = (r, s')"
  shows "group_effect P seal s r s'"
proof (cases r)
  case (Inl e)
  then have "s' = s" using assms by (auto simp: gwrap_Inl_iff dest: next_sender_message_step_Inl)
  then show ?thesis using Inl by (simp add: effect_refused)
next
  case (Inr x)
  then obtain step where st: "took_step P m s step s'" "x = UsedStep (sm_sender step) (sm_index step)"
    using assms by (auto simp: gwrap_Inr_iff next_sender_message_step_iff)
  moreover from st(1) have "sm_sender step = m"
    by (auto simp: took_step_def next_send_step_def result_simps dest: derive_sender_message_stepD(1))
  ultimately show ?thesis using Inr effect_stepped by fastforce
qed

lemma wipe_call_effect:
  "gwrap (\<lambda>_. NoStep) (st_modify (wipe_and_set_phase p)) s = (r, s') \<Longrightarrow> p \<noteq> GP_Active \<Longrightarrow> group_effect P seal s r s'"
  using effect_wiped by (auto simp: gwrap_def st_lift_def st_modify_def)

lemma group_call_effect: "run_group_call P c s = (r, s') \<Longrightarrow> group_effect P (is_seal c) s r s'"
  by (cases c, simp_all only: run_group_call.simps is_seal.simps open_group_data_def open_signed_group_data_def
      mark_forked_def [abs_def] group_close_def [abs_def])
    (erule seal_call_effect [OF _ seal_effect] seal_call_effect [OF _ seal_signed_effect] next_step_call_effect
        open_call_effect quiet_call_effect [OF _ replace_roster_effect] quiet_call_effect [OF _ roster_call_effect(1)]
        quiet_call_effect [OF _ roster_call_effect(2)] quiet_call_effect [OF _ roster_call_effect(3)]
        quiet_call_effect [OF _ roster_call_effect(4)] wipe_call_effect; simp)+

section \<open>The chains under every effect\<close>

lemma group_skip_bound_eq: "unat (group_skip_bound m) = sender_skip_bound m"
  by (cases m) simp_all

lemma sender_skip_bound_max: "sender_skip_bound m \<le> 256"
  by (cases m) simp_all

lemma wiped_chains [simp]:
  "gs_sender_chains (wipe_and_set_phase p s) = SenderChainState_default"
  "gs_replay_state (wipe_and_set_phase p s) = GroupReplayState_default"
  "gs_membership (wipe_and_set_phase p s) = MPS_Empty" "gs_phase (wipe_and_set_phase p s) = p"
  by (simp_all add: wipe_and_set_phase_def sender_chains_clear_def SenderChainState_default_def
      group_replay_clear_def GroupReplayState_default_def membership_clear_def)

lemma default_available: "\<not> available SenderChainState_default m i"
  by (simp add: available_def stored_def ahead_def SenderChainState_default_def)

definition unused :: "GroupState \<Rightarrow> (MemberId \<times> u64) set \<Rightarrow> bool" where
  "unused s H \<longleftrightarrow> chains_ok 256 (gs_sender_chains s) \<and> (\<forall>(m, i) \<in> H. \<not> available (gs_sender_chains s) m i)"

lemma effect_unused:
  assumes "group_effect P seal s r s'" and "unused s H"
  shows "unused s' H" and "r = Inr (UsedStep m i) \<Longrightarrow> (m, i) \<notin> H \<and> unused s' (insert (m, i) H)"
proof -
  have ok: "chains_ok 256 (gs_sender_chains s)" and H: "\<forall>(m, i) \<in> H. \<not> available (gs_sender_chains s) m i"
    using assms(2) by (simp_all add: unused_def)
  have step: "unused s' H \<and> (m, sm_index step) \<notin> H \<and> unused s' (insert (m, sm_index step) H)"
    if took: "took_step P m s step s'" for m step
  proof -
    obtain ch where run: "next_send_step P (epoch_key_context s) m (gs_sender_chains s) = (Inr step, ch)"
      and s': "gs_sender_chains s' = ch"
      using took by (auto simp: took_step_def)
    note effect = next_send_step_effect [OF ok run]
    from effect(5) [of step] have "available (gs_sender_chains s) m (sm_index step)" "\<not> available ch m (sm_index step)"
      by (simp_all add: available_def)
    with H effect(1,2) show ?thesis
      unfolding unused_def s' by blast
  qed
  have "unused s' H \<and> (\<forall>m i. r = Inr (UsedStep m i) \<longrightarrow> (m, i) \<notin> H \<and> unused s' (insert (m, i) H))"
    using assms(1)
  proof cases
    case effect_refused
    then show ?thesis using assms(2) by simp
  next
    case (effect_lost m step e)
    then show ?thesis using step by auto
  next
    case (effect_stepped m step)
    then show ?thesis using step by auto
  next
    case (effect_opened env header vk res bs rep ch)
    let ?m = "sm_sender (resolution_step res)" and ?i = "sm_index (resolution_step res)"
    have i: "counter header = ?i" using effect_opened(6) by (cases res) auto
    have "unat (group_skip_bound (gs_mode s)) \<le> 256"
      using group_skip_bound_eq sender_skip_bound_max by simp
    note effect = commit_resolution_effect [OF ok effect_opened(6) effect_opened(7) effect_opened(8) this]
    from effect(5) have "available (gs_sender_chains s) ?m ?i" "\<not> available ch ?m ?i"
      unfolding i by simp_all
    with H effect(1,2) show ?thesis
      unfolding unused_def effect_opened(2) by (simp add: effect_opened(1)) blast
  next
    case effect_kept
    then show ?thesis using assms(2) by (simp add: unused_def quiet_step_def)
  next
    case (effect_wiped p)
    then show ?thesis by (simp add: unused_def chains_ok_default default_available)
  qed
  then show "unused s' H" "r = Inr (UsedStep m i) \<Longrightarrow> (m, i) \<notin> H \<and> unused s' (insert (m, i) H)"
    by blast+
qed

interpretation group_steps: at_most_once "group_step P" unused for P
proof unfold_locales
  fix s s' :: GroupState and c and i :: "MemberId \<times> u64" and H :: "(MemberId \<times> u64) set"
  assume R: "unused s H" and st: "group_step P s c = (Some i, s')"
  obtain m k where run: "run_group_call P c s = (Inr (UsedStep m k), s')" and i: "i = (m, k)"
    using st by (auto simp: group_step_def split: prod.splits sum.splits GroupResult.splits)
  show "i \<notin> H \<and> unused s' (insert i H)"
    unfolding i using effect_unused(2) [OF group_call_effect [OF run] R] by simp
next
  fix s s' :: GroupState and c and H :: "(MemberId \<times> u64) set"
  assume R: "unused s H" and st: "group_step P s c = (None, s')"
  obtain r where run: "run_group_call P c s = (r, s')"
    using st by (auto simp: group_step_def split: prod.splits sum.splits GroupResult.splits)
  show "unused s' H"
    by (rule effect_unused(1) [OF group_call_effect [OF run] R])
qed

section \<open>Installing an epoch\<close>

lemma install_epoch_iff:
  "install_epoch_sender_chains P k s = (Inr u, s') \<longleftrightarrow> gs_phase s = GP_Active \<and>
     roster_valid (gs_mode s) (gs_epoch s) (gs_roster s) \<and>
     (\<exists>ch rep. chains_install_epoch P (epoch_key_context s) k (gs_roster s) SenderChainState_default = (Inr (), ch) \<and>
        replay_install_epoch (gs_mode s) (gs_roster s) GroupReplayState_default = (Inr (), rep) \<and>
        s' = s\<lparr>gs_sender_chains := ch, gs_replay_state := rep\<rparr>)"
  by (auto simp: install_epoch_sender_chains_def require_active_def result_simps)

lemma install_epoch_Inl: "install_epoch_sender_chains P k s = (Inl e, s') \<Longrightarrow> s' = s"
  by (auto simp: install_epoch_sender_chains_def st_bind_Inl_iff st_lift_iff st_modify_iff)

lemma roster_valid_sender: "roster_valid m e roster \<Longrightarrow> active_sender_entries m roster \<noteq> []"
  by (auto simp: roster_valid_def active_sender_entries_def filter_empty_conv is_active_def)

lemma install_epoch_unused:
  assumes "install_epoch_sender_chains P k s0 = (Inr u, s)"
  shows "unused s {}" and "gs_roster s = gs_roster s0" and "chains_ok b (gs_sender_chains s)"
    and "sc_sender ` set (chain_senders (gs_sender_chains s)) = allowed_senders (gs_mode s) (gs_roster s)"
proof -
  obtain ch rep where v: "roster_valid (gs_mode s0) (gs_epoch s0) (gs_roster s0)"
    and run: "chains_install_epoch P (epoch_key_context s0) k (gs_roster s0) SenderChainState_default = (Inr (), ch)"
    and s: "s = s0\<lparr>gs_sender_chains := ch, gs_replay_state := rep\<rparr>"
    using assms by (auto simp: install_epoch_iff)
  note chain = install_epoch_chains [OF run roster_valid_distinct [OF v]]
  show "chains_ok b (gs_sender_chains s)" for b
    using chain(1) by (simp add: s)
  then show "unused s {}" "gs_roster s = gs_roster s0"
    by (simp_all add: unused_def s)
  show "sc_sender ` set (chain_senders (gs_sender_chains s)) = allowed_senders (gs_mode s) (gs_roster s)"
    using chain(2) by (simp add: s allowed_senders_def epoch_key_context_def)
qed

lemma sort_key_Nil [simp]: "sort_key f xs = [] \<longleftrightarrow> xs = []"
  by (metis length_0_conv length_sort)

lemma install_epoch_total:
  assumes "kdf_ok P" and "gs_phase s = GP_Active" and v: "roster_valid (gs_mode s) (gs_epoch s) (gs_roster s)"
    and "\<forall>e \<in> set (gs_roster s). entry_ok e" and "length k = 32" and "epoch_context_ok (epoch_key_context s)"
  shows "\<exists>s'. install_epoch_sender_chains P k s = (Inr (), s')"
proof -
  let ?es = "active_sender_entries (gs_mode s) (gs_roster s)"
  have "\<exists>key. derive_sender_chain_key P k (epoch_key_context s) (member_id e) = Inr key" if "e \<in> set ?es" for e
    using derive_sender_chain_key_total [OF assms(1,5,6), of "member_id e"] assms(4) that
    by (auto simp: active_sender_entries_def entry_ok_def)
  then obtain f where "\<And>e. e \<in> set ?es \<Longrightarrow> derive_sender_chain_key P k (epoch_key_context s) (member_id e) = Inr (f e)"
    by metis
  then have keys: "rmap (\<lambda>e. rbind (derive_sender_chain_key P k (epoch_key_context s) (member_id e)) (\<lambda>key.
      Inr (SenderChainCursor_new (member_id e) key))) ?es = Inr (map (\<lambda>e. SenderChainCursor_new (member_id e) (f e)) ?es)"
    by (intro rmap_total) simp
  have "\<exists>ch. chains_install_epoch P (epoch_key_context s) k (gs_roster s) SenderChainState_default = (Inr (), ch)"
    using roster_valid_sender [OF v] keys
    by (simp add: chains_install_epoch_def Let_def epoch_key_context_def st_bind_def st_lift_def st_modify_def rbind_def ensure_def)
  moreover have "\<exists>rep. replay_install_epoch (gs_mode s) (gs_roster s) GroupReplayState_default = (Inr (), rep)"
    using roster_valid_sender [OF v] by (simp add: replay_install_epoch_def Let_def st_bind_def st_lift_def st_modify_def)
  ultimately show ?thesis
    using assms(2) v by (auto simp: install_epoch_iff)
qed

section \<open>A concrete group\<close>

definition toy_policy :: GovernancePolicy where
  "toy_policy = \<lparr>policy_version = 1, threshold = 1, authorized_signers = [replicate 32 1]\<rparr>"

definition toy_group :: GroupState where
  "toy_group = \<lparr>gs_group_id = replicate 32 9, gs_mode = GM_Lite, gs_mechanism = DirectWrap, gs_epoch = 0,
     gs_state_version = 0, gs_last_commit_hash = replicate 64 0, gs_previous_commit_hash = replicate 64 0,
     gs_roster_hash = replicate 64 0, gs_tree_hash = replicate 64 0, gs_governance_policy = toy_policy,
     gs_mode_policy = \<lparr>mode_policy_bytes = replicate 12 0\<rparr>, gs_roster = toy_roster, gs_membership = MPS_Empty,
     gs_sender_chains = SenderChainState_default, gs_replay_state = GroupReplayState_default,
     gs_phase = GP_Active\<rparr>"

lemma toy_group_installs: "\<exists>s. install_epoch_sender_chains toy_prims (replicate 32 5) toy_group = (Inr (), s)"
  by (rule install_epoch_total)
    (use toy_crypto_ok toy_roster_ok toy_roster_valid [of GM_Lite] in
      \<open>simp_all add: toy_group_def crypto_ok_def epoch_context_ok_def epoch_key_context_def\<close>)

section \<open>Properties\<close>

text \<open>C15: From the installation of an epoch's sender chains on, no step of a sender chain is used twice: over
  any sequence of calls (sealing, opening, taking steps, roster and mode changes, fork and close, in any
  order and failing at any point), the pairs of sender and index that were sealed for or opened are
  distinct. So a member delivers no message twice, sends no index twice, and no message key encrypts or
  opens more than one message, which the all-zero nonce of group envelopes depends on.\<close>

theorem group_steps_used_once:
  assumes "install_epoch_sender_chains P k s0 = (Inr u, s)"
  shows "distinct (deliveries (group_step P) s calls)"
  using group_steps.deliveries_fresh [OF install_epoch_unused(1) [OF assms]] by simp

theorem group_steps_used_once_witness:
  "\<exists>s. install_epoch_sender_chains toy_prims (replicate 32 5) toy_group = (Inr (), s) \<and>
     distinct (deliveries (group_step toy_prims) s
       [GCall_Seal (replicate 32 1) [104, 105], GCall_NextStep (replicate 32 1), GCall_Open [1, 2, 3], GCall_Close])"
  using toy_group_installs group_steps_used_once by blast

text \<open>C21: A call that fails leaves the group as it was, with one exception: sealing takes the sender's step
  before it seals, so a seal that fails after that has moved the sender's chain by one step, and nothing
  else. Opening never changes anything when it fails, although it derives keys, clones the replay state
  and updates the chains on the way.\<close>

theorem group_errors_change_nothing:
  assumes "run_group_call P c s = (Inl e, s')"
  shows "s' = s \<or> (is_seal c \<and> (\<exists>m step. took_step P m s step s'))"
  using group_call_effect [OF assms] by (cases rule: group_effect_errorE) blast+

theorem group_errors_change_nothing_witness:
  "run_group_call toy_prims (GCall_Open [1, 2, 3]) toy_group = (Inl GE_InvalidEnvelope, toy_group)"
proof -
  obtain r s' where run: "run_group_call toy_prims (GCall_Open [1, 2, 3]) toy_group = (r, s')" by fastforce
  have "r = Inl GE_InvalidEnvelope"
    using run by (simp add: open_group_data_def open_group_data_inner_def open_group_checks_def require_active_def
        toy_group_def decode_outer_header_def decode_outer_header_prefix_def OUTER_HEADER_SIZE_def gwrap_def st_bind_def st_lift_def)
  with run have "run_group_call toy_prims (GCall_Open [1, 2, 3]) toy_group = (Inl GE_InvalidEnvelope, s')" by simp
  from group_errors_change_nothing [OF this] this show ?thesis by simp
qed

end
