(* ===== verification/Group_Install.thy ===== *)
theory Group_Install
  imports Group_Machine
begin

text \<open>
  Commits as transitions of a member's state: what a prepared commit is known to satisfy, how installing it
  changes the state, and the properties of the commit life cycle: a commit that cannot be applied changes
  nothing, installing it twice is recognised, a sibling commit forks the group, and members that agree on
  the public state keep agreeing.
\<close>

section \<open>What preparation establishes\<close>

definition candidate_ok :: "CryptoPrims \<Rightarrow> CandidateState \<Rightarrow> bool" where
  "candidate_ok P ca \<longleftrightarrow> ca_mechanism ca = required_mechanism (ca_mode ca) \<and>
     roster_valid (ca_mode ca) (ca_epoch ca) (ca_roster ca) \<and>
     governed (ca_governance_policy ca) (ca_roster ca) \<and>
     compute_roster_hash P (ca_mode ca) (ca_roster ca) = Inr (ca_roster_hash ca) \<and>
     (ca_mechanism ca = DirectWrap \<longleftrightarrow> ca_direct_epoch_secret ca \<noteq> None)"

text \<open>The array types of a candidate.\<close>

definition candidate_typed :: "CandidateState \<Rightarrow> bool" where
  "candidate_typed ca \<longleftrightarrow> (\<forall>e \<in> set (ca_roster ca). entry_ok e) \<and> length (ca_tree_hash ca) = 64 \<and>
     (\<forall>k. ca_direct_epoch_secret ca = Some k \<longrightarrow> length k = 32)"

lemma build_transitionD:
  assumes "build_transition P s plan = Inr ca"
  obtains d b where "apply_commit_change (draft_from_state s) (plan_change plan) (ca_epoch ca) = Inr d"
    "ca_mechanism ca = required_mechanism (ca_mode ca)" "roster_valid (ca_mode ca) (ca_epoch ca) (ca_roster ca)"
    "validate_governance_for_roster (ca_governance_policy ca) (ca_roster ca) = Inr ()"
    "encode_roster (ca_mode ca) (ca_roster ca) = Inr b" "roster_hash P b = Inr (ca_roster_hash ca)"
    "apply_membership_material P s plan (ca_mechanism ca) (td_tree_hash d) =
       Inr (ca_tree_hash ca, ca_public_tree ca, ca_direct_epoch_secret ca)"
    "ca_roster ca = td_roster d"
proof -
  obtain ev where rest: "(\<lambda>(e, v). rbind (apply_commit_change (draft_from_state s) (plan_change plan) e) (\<lambda>d.
     rbind (validate_mode_mechanism (td_mode d) (td_mechanism d)) (\<lambda>_.
     rbind (validate_roster_for_mode (td_mode d) e (td_roster d)) (\<lambda>_.
     rbind (validate_governance_for_roster (td_governance_policy d) (td_roster d)) (\<lambda>_.
     rbind (encode_roster (td_mode d) (td_roster d)) (\<lambda>encoded_roster.
     rbind (roster_hash P encoded_roster) (\<lambda>rh.
     rbind (apply_membership_material P s plan (td_mechanism d) (td_tree_hash d)) (\<lambda>(th, tree, secret).
       Inr \<lparr>ca_mode = td_mode d, ca_mechanism = td_mechanism d, ca_epoch = e, ca_state_version = v,
            ca_roster = td_roster d, ca_roster_hash = rh, ca_tree_hash = th,
            ca_governance_policy = td_governance_policy d, ca_mode_policy = td_mode_policy d,
            ca_public_tree = tree, ca_direct_epoch_secret = secret\<rparr>)))))))) ev = Inr ca"
    using assms unfolding build_transition_def by (rule rbindE)
  obtain e v where ev: "ev = (e, v)" by (cases ev)
  show thesis
    using rest unfolding ev split_conv
  proof (elim rbindE)
    fix d u stats w b rh m
    assume change: "apply_commit_change (draft_from_state s) (plan_change plan) e = Inr d"
      and mech: "validate_mode_mechanism (td_mode d) (td_mechanism d) = Inr u"
      and roster: "validate_roster_for_mode (td_mode d) e (td_roster d) = Inr stats"
      and gov: "validate_governance_for_roster (td_governance_policy d) (td_roster d) = Inr w"
      and b: "encode_roster (td_mode d) (td_roster d) = Inr b" and rh: "roster_hash P b = Inr rh"
      and mat: "apply_membership_material P s plan (td_mechanism d) (td_tree_hash d) = Inr m"
      and ca': "(case m of (th, tree, secret) \<Rightarrow>
       Inr \<lparr>ca_mode = td_mode d, ca_mechanism = td_mechanism d, ca_epoch = e, ca_state_version = v,
            ca_roster = td_roster d, ca_roster_hash = rh, ca_tree_hash = th,
            ca_governance_policy = td_governance_policy d, ca_mode_policy = td_mode_policy d,
            ca_public_tree = tree, ca_direct_epoch_secret = secret\<rparr>) = (Inr ca :: GroupError + CandidateState)"
    obtain th tree secret where m: "m = (th, tree, secret)" by (cases m)
    from ca' have ca: "ca = \<lparr>ca_mode = td_mode d, ca_mechanism = td_mechanism d, ca_epoch = e, ca_state_version = v,
            ca_roster = td_roster d, ca_roster_hash = rh, ca_tree_hash = th,
            ca_governance_policy = td_governance_policy d, ca_mode_policy = td_mode_policy d,
            ca_public_tree = tree, ca_direct_epoch_secret = secret\<rparr>" by (simp add: m)
    show thesis
      by (rule that [of d b])
        (use change mech roster gov b rh mat in \<open>simp_all add: ca m validate_mode_mechanism_iff validate_roster_for_mode_iff\<close>)
  qed
qed

lemma build_transition_ok:
  assumes "build_transition P s plan = Inr ca"
  shows "candidate_ok P ca"
proof (rule build_transitionD [OF assms])
  fix d b
  assume mech: "ca_mechanism ca = required_mechanism (ca_mode ca)"
    and roster: "roster_valid (ca_mode ca) (ca_epoch ca) (ca_roster ca)"
    and gov: "validate_governance_for_roster (ca_governance_policy ca) (ca_roster ca) = Inr ()"
    and rh: "encode_roster (ca_mode ca) (ca_roster ca) = Inr b" "roster_hash P b = Inr (ca_roster_hash ca)"
    and mat: "apply_membership_material P s plan (ca_mechanism ca) (td_tree_hash d) =
       Inr (ca_tree_hash ca, ca_public_tree ca, ca_direct_epoch_secret ca)"
  have "ca_mechanism ca = DirectWrap \<longleftrightarrow> ca_direct_epoch_secret ca \<noteq> None"
    using mat by (auto simp: apply_membership_material_def result_simps dest: sym split: MembershipMechanism.splits if_splits)
  with mech roster validate_governance_governed [OF roster gov] rh show ?thesis
    unfolding candidate_ok_def compute_roster_hash_def by simp
qed

lemma transition_counters:
  assumes "build_transition P s plan = Inr ca"
  shows "ca_epoch ca = (if commit_change_kind (plan_change plan) = CK_Create then 0 else gs_epoch s + 1)"
    and "ca_state_version ca = (if commit_change_kind (plan_change plan) = CK_Create then 0 else gs_state_version s + 1)"
    and "commit_change_kind (plan_change plan) = CK_Create \<Longrightarrow> gs_epoch s = 0 \<and> gs_state_version s = 0"
    and "commit_change_kind (plan_change plan) \<noteq> CK_Create \<Longrightarrow> gs_epoch s \<noteq> u64_max"
proof -
  obtain e v where ev: "next_transition_counters s (commit_change_kind (plan_change plan)) = Inr (e, v)"
    and ca: "ca_epoch ca = e" "ca_state_version ca = v"
    using assms by (auto simp: build_transition_def result_simps)
  have max: "checked_add_u64 x 1 = Some y \<longleftrightarrow> x \<noteq> u64_max \<and> y = x + 1" for x y
    using checked_add_u64_one [of x] by (cases "x = u64_max") (auto simp: checked_add_u64_def u64_max_def)
  show "ca_epoch ca = (if commit_change_kind (plan_change plan) = CK_Create then 0 else gs_epoch s + 1)"
    "ca_state_version ca = (if commit_change_kind (plan_change plan) = CK_Create then 0 else gs_state_version s + 1)"
    "commit_change_kind (plan_change plan) = CK_Create \<Longrightarrow> gs_epoch s = 0 \<and> gs_state_version s = 0"
    "commit_change_kind (plan_change plan) \<noteq> CK_Create \<Longrightarrow> gs_epoch s \<noteq> u64_max"
    using ev by (auto simp: ca next_transition_counters_def result_simps max split: if_splits)
qed

text \<open>What a prepared commit says of itself and of the state it was prepared from.\<close>

definition prepared_ok :: "CryptoPrims \<Rightarrow> PreparedCommit \<Rightarrow> bool" where
  "prepared_ok P pc \<longleftrightarrow> candidate_ok P (pc_candidate pc) \<and> verify_prepared_commit_integrity P pc = Inr () \<and>
     cc_new_epoch (pc_core pc) = ca_epoch (pc_candidate pc) \<and>
     cc_new_state_version (pc_core pc) = ca_state_version (pc_candidate pc) \<and>
     cc_new_roster_hash (pc_core pc) = ca_roster_hash (pc_candidate pc) \<and>
     cc_new_tree_hash (pc_core pc) = ca_tree_hash (pc_candidate pc)"

lemma prepare_commitD:
  assumes "prepare_commit P s plan = Inr pc"
  obtains ph kc gh mh where "gs_phase s = GP_Active"
    "validate_parent_for_change s (plan_committer plan) (plan_change plan) = Inr ()"
    "build_transition P s plan = Inr (pc_candidate pc)"
    "(if commit_change_kind (plan_change plan) = CK_Create
      then validate_governance_signatures (ca_governance_policy (pc_candidate pc)) (ca_roster (pc_candidate pc)) (plan_signatures plan)
      else validate_governance_signatures (gs_governance_policy s) (gs_roster s) (plan_signatures plan)) = Inr ()"
    "pc_core pc = prepared_core s plan (pc_candidate pc) ph kc gh mh"
    "pc_signatures pc = plan_signatures plan"
    "encode_commit_core (pc_core pc) = Inr (pc_encoded_core pc)"
    "commit_sig_digest P (pc_encoded_core pc) = Inr (pc_signature_digest pc)"
    "commit_hash P (pc_encoded_core pc) = Inr (pc_commit_hash pc)"
proof -
  obtain ca ph kc gh mh ec sd h where
    "gs_phase s = GP_Active"
    "validate_parent_for_change s (plan_committer plan) (plan_change plan) = Inr ()"
    "build_transition P s plan = Inr ca"
    "(if commit_change_kind (plan_change plan) = CK_Create
      then validate_governance_signatures (ca_governance_policy ca) (ca_roster ca) (plan_signatures plan)
      else validate_governance_signatures (gs_governance_policy s) (gs_roster s) (plan_signatures plan)) = Inr ()"
    "encode_commit_core (prepared_core s plan ca ph kc gh mh) = Inr ec"
    "commit_sig_digest P ec = Inr sd" "commit_hash P ec = Inr h"
    "pc = \<lparr>pc_core = prepared_core s plan ca ph kc gh mh, pc_encoded_core = ec, pc_signature_digest = sd,
            pc_commit_hash = h, pc_signatures = plan_signatures plan, pc_candidate = ca\<rparr>"
    using assms unfolding prepare_commit_def Let_def require_active_def
    by (elim rbindE) (simp add: result_simps)
  then show ?thesis
    by (intro that [of ph kc gh mh]) (simp_all split: if_splits)
qed

lemma prepare_commit_ok:
  assumes "prepare_commit P s plan = Inr pc"
  shows "prepared_ok P pc"
proof (rule prepare_commitD [OF assms])
  fix ph kc gh mh
  assume build: "build_transition P s plan = Inr (pc_candidate pc)"
    and core: "pc_core pc = prepared_core s plan (pc_candidate pc) ph kc gh mh"
    and enc: "encode_commit_core (pc_core pc) = Inr (pc_encoded_core pc)"
      "commit_sig_digest P (pc_encoded_core pc) = Inr (pc_signature_digest pc)"
      "commit_hash P (pc_encoded_core pc) = Inr (pc_commit_hash pc)"
  have "verify_prepared_commit_integrity P pc = Inr ()"
    using enc by (simp add: verify_prepared_commit_integrity_def)
  with build_transition_ok [OF build] show ?thesis
    by (simp add: prepared_ok_def core prepared_core_def)
qed

section \<open>What applying does\<close>

text \<open>The state between the adoption of the candidate and the installation of the sender chains.\<close>

definition adopted :: "PreparedCommit \<Rightarrow> GroupState \<Rightarrow> GroupState" where
  "adopted pc s = install_membership_material (ca_public_tree (pc_candidate pc))
     (ca_direct_epoch_secret (pc_candidate pc)) (adopt_candidate pc s)"

definition after_commit :: "CryptoPrims \<Rightarrow> PreparedCommit \<Rightarrow> GroupState \<Rightarrow> GroupState \<Rightarrow> bool" where
  "after_commit P pc s s' \<longleftrightarrow>
     (case ca_direct_epoch_secret (pc_candidate pc) of
        Some secret \<Rightarrow> \<exists>k. derive_epoch_key_for_context P secret (epoch_key_context (adopt_candidate pc s)) = Inr k \<and>
          install_epoch_sender_chains P k (adopted pc s) = (Inr (), s')
      | None \<Rightarrow> s' = (adopted pc s)\<lparr>gs_sender_chains := SenderChainState_default,
          gs_replay_state := GroupReplayState_default\<rparr>)"

lemma adopted_material:
  "gs_group_id (adopted pc s) = gs_group_id s" "gs_phase (adopted pc s) = gs_phase s"
  "gs_mode (adopted pc s) = ca_mode (pc_candidate pc)" "gs_mechanism (adopted pc s) = ca_mechanism (pc_candidate pc)"
  "gs_epoch (adopted pc s) = ca_epoch (pc_candidate pc)"
  "gs_state_version (adopted pc s) = ca_state_version (pc_candidate pc)"
  "gs_last_commit_hash (adopted pc s) = pc_commit_hash pc" "gs_previous_commit_hash (adopted pc s) = gs_last_commit_hash s"
  "gs_roster_hash (adopted pc s) = ca_roster_hash (pc_candidate pc)" "gs_tree_hash (adopted pc s) = ca_tree_hash (pc_candidate pc)"
  "gs_governance_policy (adopted pc s) = ca_governance_policy (pc_candidate pc)"
  "gs_mode_policy (adopted pc s) = ca_mode_policy (pc_candidate pc)" "gs_roster (adopted pc s) = ca_roster (pc_candidate pc)"
  by (simp_all add: adopted_def install_membership_material_def adopt_candidate_def Let_def
      split: MembershipMechanism.split option.split MembershipPrivateState.split)

lemma adopted_context: "epoch_key_context (adopted pc s) = epoch_key_context (adopt_candidate pc s)"
  by (simp add: epoch_key_context_def adopted_material) (simp add: adopt_candidate_def Let_def)

lemma after_commit_public:
  assumes "after_commit P pc s s'"
  shows "gs_group_id s' = gs_group_id s" "gs_phase s' = gs_phase s"
    "gs_mode s' = ca_mode (pc_candidate pc)" "gs_mechanism s' = ca_mechanism (pc_candidate pc)"
    "gs_epoch s' = ca_epoch (pc_candidate pc)" "gs_state_version s' = ca_state_version (pc_candidate pc)"
    "gs_last_commit_hash s' = pc_commit_hash pc" "gs_previous_commit_hash s' = gs_last_commit_hash s"
    "gs_roster_hash s' = ca_roster_hash (pc_candidate pc)" "gs_tree_hash s' = ca_tree_hash (pc_candidate pc)"
    "gs_governance_policy s' = ca_governance_policy (pc_candidate pc)"
    "gs_mode_policy s' = ca_mode_policy (pc_candidate pc)" "gs_roster s' = ca_roster (pc_candidate pc)"
  using assms by (auto simp: after_commit_def install_epoch_iff adopted_material split: option.splits)

lemma derive_epoch_key_total:
  assumes "kdf_ok P" and "length secret = 32" and "epoch_context_ok c"
  shows "\<exists>k. derive_epoch_key_for_context P secret c = Inr k \<and> length k = 32"
proof -
  obtain b where "encode_epoch_context c = Inr b" "length b \<le> 1000"
    using encode_epoch_context_total [OF assms(3)] by blast
  then show ?thesis
    using derive_epoch_secret32_total [OF assms(1,2), of LABEL_EPOCH_KEY_CONTEXT b]
    by (simp add: derive_epoch_key_for_context_def LABEL_EPOCH_KEY_CONTEXT_def)
qed

lemma prepared_context_ok:
  assumes "crypto_ok P" and ok: "prepared_ok P pc" and typed: "candidate_typed (pc_candidate pc)"
    and "length (gs_group_id s) = 32"
  shows "epoch_context_ok (epoch_key_context (adopt_candidate pc s))"
proof -
  have P: "hash_ok P" using assms(1) by (simp add: crypto_ok_def)
  obtain b where "roster_hash P b = Inr (ca_roster_hash (pc_candidate pc))"
    using ok by (auto simp: prepared_ok_def candidate_ok_def compute_roster_hash_def rbind_Inr_iff)
  then have "length (ca_roster_hash (pc_candidate pc)) = 64"
    using hash512_lp_length [OF P] by (simp add: roster_hash_def)
  moreover obtain b where "commit_hash P b = Inr (pc_commit_hash pc)"
    using ok by (auto simp: prepared_ok_def verify_prepared_commit_integrity_def result_simps split: if_splits)
  then have "length (pc_commit_hash pc) = 64"
    using hash512_lp_length [OF P] by (simp add: commit_hash_def)
  ultimately show ?thesis
    using typed assms(4)
    by (simp add: epoch_context_ok_def epoch_key_context_def adopt_candidate_def Let_def candidate_typed_def)
qed

lemma commit_effect_total:
  assumes P: "crypto_ok P" and ok: "prepared_ok P pc" and typed: "candidate_typed (pc_candidate pc)"
    and gid: "length (gs_group_id s) = 32" and act: "gs_phase s = GP_Active"
  shows "\<exists>s'. after_commit P pc s s'"
proof (cases "ca_direct_epoch_secret (pc_candidate pc)")
  case None
  then show ?thesis by (simp add: after_commit_def)
next
  case (Some secret)
  have kdf: "kdf_ok P" using P by (simp add: crypto_ok_def)
  note ctx = prepared_context_ok [OF P ok typed gid]
  have "length secret = 32" using typed Some by (simp add: candidate_typed_def)
  then obtain k where k: "derive_epoch_key_for_context P secret (epoch_key_context (adopt_candidate pc s)) = Inr k"
      "length k = 32"
    using derive_epoch_key_total [OF kdf _ ctx] by blast
  have "\<exists>s'. install_epoch_sender_chains P k (adopted pc s) = (Inr (), s')"
    by (rule install_epoch_total)
      (use kdf act ok typed k(2) ctx in \<open>simp_all add: adopted_material adopted_context prepared_ok_def
        candidate_ok_def candidate_typed_def\<close>)
  then show ?thesis
    using Some k(1) by (auto simp: after_commit_def)
qed

text \<open>The checks of \<open>apply_prepared_commit\<close> before it changes the state.\<close>

definition commit_accepted :: "GroupState \<Rightarrow> PreparedCommit \<Rightarrow> bool" where
  "commit_accepted s pc \<longleftrightarrow> gs_phase s = GP_Active \<and> extends_state s (pc_core pc) \<and>
     (if cc_commit_kind (pc_core pc) = CK_Create
      then validate_governance_signatures (ca_governance_policy (pc_candidate pc)) (ca_roster (pc_candidate pc)) (pc_signatures pc)
      else validate_governance_signatures (gs_governance_policy s) (gs_roster s) (pc_signatures pc)) = Inr ()"

definition commit_checks :: "CryptoPrims \<Rightarrow> GroupState \<Rightarrow> PreparedCommit \<Rightarrow> GroupError + unit" where
  "commit_checks P s pc =
     rbind (require_active s) (\<lambda>_.
     rbind (ensure (extends_state s (pc_core pc)) GE_InvalidCommitParent) (\<lambda>_.
     rbind (if cc_commit_kind (pc_core pc) = CK_Create
            then validate_governance_signatures (ca_governance_policy (pc_candidate pc)) (ca_roster (pc_candidate pc))
                   (pc_signatures pc)
            else validate_governance_signatures (gs_governance_policy s) (gs_roster s) (pc_signatures pc)) (\<lambda>_.
       verify_prepared_commit_integrity P pc)))"

lemma commit_checks_iff:
  "prepared_ok P pc \<Longrightarrow> commit_checks P s pc = Inr () \<longleftrightarrow> commit_accepted s pc"
  unfolding commit_checks_def commit_accepted_def rbind_Inr_iff
  by (auto simp: require_active_def ensure_Inr_iff prepared_ok_def)

lemma apply_refused: "commit_checks P s pc = Inl e \<Longrightarrow> apply_prepared_commit P pc s = (Inl e, s)"
  by (simp add: commit_checks_def apply_prepared_commit_def Let_def st_bind_def st_lift_def)

lemma apply_accepted:
  assumes acc: "commit_accepted s pc" and ok: "prepared_ok P pc" and post: "after_commit P pc s s'"
  shows "apply_prepared_commit P pc s = (Inr (), s')"
proof -
  have checks: "verify_prepared_commit_integrity P pc = Inr ()" "require_active s = Inr ()"
    using ok acc by (simp_all add: prepared_ok_def commit_accepted_def require_active_def)
  have mech: "ca_mechanism (pc_candidate pc) = DirectWrap \<longleftrightarrow> ca_direct_epoch_secret (pc_candidate pc) \<noteq> None"
    using ok unfolding prepared_ok_def candidate_ok_def by blast
  have adopt: "gs_mechanism (adopt_candidate pc s) = ca_mechanism (pc_candidate pc)"
    by (simp add: adopt_candidate_def Let_def)
  show ?thesis
  proof (cases "ca_direct_epoch_secret (pc_candidate pc)")
    case None
    then have "ca_mechanism (pc_candidate pc) = TreeKem" using mech by (cases "ca_mechanism (pc_candidate pc)") auto
    then show ?thesis
      using acc checks None post adopt
      by (simp add: apply_prepared_commit_def Let_def st_bind_def st_lift_def st_modify_def commit_accepted_def
          after_commit_def adopted_def sender_chains_clear_def group_replay_clear_def
          SenderChainState_default_def GroupReplayState_default_def)
  next
    case (Some secret)
    then have "ca_mechanism (pc_candidate pc) = DirectWrap" using mech by simp
    then show ?thesis
      using acc checks Some post adopt
      by (auto simp: apply_prepared_commit_def Let_def st_bind_def st_lift_def st_modify_def commit_accepted_def
          after_commit_def adopted_def)
  qed
qed

lemma apply_prepared_cases:
  assumes P: "crypto_ok P" and ok: "prepared_ok P pc" and typed: "candidate_typed (pc_candidate pc)"
    and gid: "length (gs_group_id s) = 32"
  obtains (refused) e where "commit_checks P s pc = Inl e" "apply_prepared_commit P pc s = (Inl e, s)"
  | (applied) s' where "commit_accepted s pc" "after_commit P pc s s'" "apply_prepared_commit P pc s = (Inr (), s')"
proof (cases "commit_accepted s pc")
  case False
  then obtain e where "commit_checks P s pc = Inl e"
    using commit_checks_iff [OF ok, of s] by (cases "commit_checks P s pc") auto
  with apply_refused show thesis by (intro refused)
next
  case True
  then have "gs_phase s = GP_Active" by (simp add: commit_accepted_def)
  from commit_effect_total [OF P ok typed gid this] obtain s' where s': "after_commit P pc s s'" ..
  from apply_accepted [OF True ok s'] True s' show thesis by (intro applied)
qed

section \<open>What installing does\<close>

lemma install_prepared_eq:
  assumes "prepared_ok P pc" and "gs_phase s = GP_Active"
  shows "install_prepared_commit P pc s =
    (if is_duplicate_commit s pc then (Inr CIR_Duplicate, s)
     else if extends_current_commit s pc
     then (case apply_prepared_commit P pc s of (Inl e, t) \<Rightarrow> (Inl e, t) | (Inr _, t) \<Rightarrow> (Inr CIR_Applied, t))
     else if forks_current_commit s pc then (Inr CIR_Forked, mark_forked s)
     else (Inl GE_InvalidCommitParent, s))"
  using assms
  by (simp add: install_prepared_commit_def prepared_ok_def require_active_def st_bind_def st_lift_def st_modify_def
      split: prod.split sum.split)

lemma install_inactive:
  "gs_phase s \<noteq> GP_Active \<Longrightarrow> install_prepared_commit P pc s = (Inl GE_InvalidState, s)"
  by (simp add: install_prepared_commit_def require_active_def st_bind_def st_lift_def)

text \<open>The outcomes of an installation, as a relation on states.\<close>

inductive install_effect :: "CryptoPrims \<Rightarrow> PreparedCommit \<Rightarrow> GroupState \<Rightarrow> GroupError + CommitInstallResult \<Rightarrow> GroupState \<Rightarrow> bool"
  for P pc s where
  install_refused: "install_effect P pc s (Inl e) s"
| install_duplicate: "is_duplicate_commit s pc \<Longrightarrow> install_effect P pc s (Inr CIR_Duplicate) s"
| install_applied: "commit_accepted s pc \<Longrightarrow> after_commit P pc s s' \<Longrightarrow> install_effect P pc s (Inr CIR_Applied) s'"
| install_forked: "forks_current_commit s pc \<Longrightarrow> gs_phase s = GP_Active \<Longrightarrow>
    install_effect P pc s (Inr CIR_Forked) (mark_forked s)"

lemma install_prepared_effect:
  assumes P: "crypto_ok P" and ok: "prepared_ok P pc" and typed: "candidate_typed (pc_candidate pc)"
    and gid: "length (gs_group_id s) = 32" and run: "install_prepared_commit P pc s = (r, s')"
  shows "install_effect P pc s r s'"
proof (cases "gs_phase s = GP_Active")
  case False
  then show ?thesis using run install_inactive install_refused by fastforce
next
  case True
  note eq = install_prepared_eq [OF ok True]
  show ?thesis
  proof (cases "\<not> is_duplicate_commit s pc \<and> extends_current_commit s pc")
    case False
    then show ?thesis
      using run True by (auto simp: eq install_refused install_duplicate install_forked split: if_splits)
  next
    case ext: True
    show ?thesis
    proof (cases rule: apply_prepared_cases [OF P ok typed gid, case_names refused applied])
      case (refused e)
      then show ?thesis using run ext by (auto simp: eq install_refused)
    next
      case (applied t)
      then show ?thesis using run ext by (auto simp: eq install_applied)
    qed
  qed
qed

section \<open>The public part of the state\<close>

definition public_of :: "GroupState \<Rightarrow> GroupState" where
  "public_of s =
     \<lparr>gs_group_id = gs_group_id s, gs_mode = gs_mode s, gs_mechanism = gs_mechanism s, gs_epoch = gs_epoch s,
      gs_state_version = gs_state_version s, gs_last_commit_hash = gs_last_commit_hash s,
      gs_previous_commit_hash = gs_previous_commit_hash s, gs_roster_hash = gs_roster_hash s,
      gs_tree_hash = gs_tree_hash s, gs_governance_policy = gs_governance_policy s,
      gs_mode_policy = gs_mode_policy s, gs_roster = gs_roster s, gs_membership = MPS_Empty,
      gs_sender_chains = SenderChainState_default, gs_replay_state = GroupReplayState_default,
      gs_phase = gs_phase s\<rparr>"

lemma public_of_eqD:
  assumes "public_of a = public_of b"
  shows "gs_group_id b = gs_group_id a" "gs_mode b = gs_mode a" "gs_mechanism b = gs_mechanism a"
    "gs_epoch b = gs_epoch a" "gs_state_version b = gs_state_version a"
    "gs_last_commit_hash b = gs_last_commit_hash a" "gs_previous_commit_hash b = gs_previous_commit_hash a"
    "gs_roster_hash b = gs_roster_hash a" "gs_tree_hash b = gs_tree_hash a"
    "gs_governance_policy b = gs_governance_policy a" "gs_mode_policy b = gs_mode_policy a"
    "gs_roster b = gs_roster a" "gs_phase b = gs_phase a"
  using assms unfolding public_of_def GroupState.ext_inject by simp_all

lemma public_of_eqI:
  assumes "gs_group_id b = gs_group_id a" "gs_mode b = gs_mode a" "gs_mechanism b = gs_mechanism a"
    "gs_epoch b = gs_epoch a" "gs_state_version b = gs_state_version a"
    "gs_last_commit_hash b = gs_last_commit_hash a" "gs_previous_commit_hash b = gs_previous_commit_hash a"
    "gs_roster_hash b = gs_roster_hash a" "gs_tree_hash b = gs_tree_hash a"
    "gs_governance_policy b = gs_governance_policy a" "gs_mode_policy b = gs_mode_policy a"
    "gs_roster b = gs_roster a" "gs_phase b = gs_phase a"
  shows "public_of a = public_of b"
  unfolding public_of_def GroupState.ext_inject using assms by simp

text \<open>The private part that messages depend on.\<close>

definition same_private :: "GroupState \<Rightarrow> GroupState \<Rightarrow> bool" where
  "same_private a b \<longleftrightarrow> gs_sender_chains a = gs_sender_chains b \<and> gs_replay_state a = gs_replay_state b"

lemma public_commit:
  assumes "public_of a = public_of b"
  shows "commit_checks P b pc = commit_checks P a pc" and "commit_accepted b pc = commit_accepted a pc"
    and "is_duplicate_commit b pc = is_duplicate_commit a pc" and "extends_current_commit b pc = extends_current_commit a pc"
    and "forks_current_commit b pc = forks_current_commit a pc"
    and "epoch_key_context (adopt_candidate pc b) = epoch_key_context (adopt_candidate pc a)"
  using public_of_eqD [OF assms]
  by (simp_all add: commit_checks_def commit_accepted_def require_active_def extends_state_def
      is_duplicate_commit_def extends_current_commit_def forks_current_commit_def epoch_key_context_def
      adopt_candidate_def Let_def)

lemma after_commit_agree:
  assumes pub: "public_of a = public_of b" and post: "after_commit P pc a a'" "after_commit P pc b b'"
  shows "public_of a' = public_of b'" and "same_private a' b'"
proof -
  show "public_of a' = public_of b'"
    by (rule public_of_eqI)
      (simp_all only: after_commit_public [OF post(1)] after_commit_public [OF post(2)] public_of_eqD [OF pub])
  show "same_private a' b'"
    using post public_commit(6) [OF pub, of pc]
    by (auto simp: after_commit_def same_private_def install_epoch_iff adopted_material adopted_context
        split: option.splits)
qed

section \<open>Preparation succeeds\<close>

definition state_typed :: "GroupState \<Rightarrow> bool" where
  "state_typed s \<longleftrightarrow> length (gs_group_id s) = 32 \<and> length (gs_roster_hash s) = 64 \<and>
     length (gs_tree_hash s) = 64 \<and> length (gs_last_commit_hash s) = 64"

lemma governance_encoding_length:
  "governance_valid p \<Longrightarrow> policy_ok p \<Longrightarrow> \<exists>b. encode_governance_policy p = Inr b \<and> length b \<le> u32_max"
proof -
  assume "governance_valid p" and ok: "policy_ok p"
  moreover have "length (concat (authorized_signers p)) = 32 * length (authorized_signers p)"
    using ok by (simp add: policy_ok_def length_concat sum_list_triv cong: map_cong)
  ultimately show ?thesis
    by (auto simp: encode_governance_policy_Inr_iff governance_valid_def u32_max_def)
qed

text \<open>In a direct-wrap group a plan whose change is valid and signed is always prepared.\<close>

lemma prepare_direct_total:
  assumes P: "hash_ok P" and act: "gs_phase s = GP_Active" and typed: "state_typed s"
    and parent: "validate_parent_for_change s (plan_committer plan) (plan_change plan) = Inr ()"
    and build: "build_transition P s plan = Inr ca" and direct: "ca_mechanism ca = DirectWrap"
    and sigs: "(if commit_change_kind (plan_change plan) = CK_Create
      then validate_governance_signatures (ca_governance_policy ca) (ca_roster ca) (plan_signatures plan)
      else validate_governance_signatures (gs_governance_policy s) (gs_roster s) (plan_signatures plan)) = Inr ()"
    and own: "validate_change_specific_signatures (plan_change plan) (plan_signatures plan) = Inr ()"
    and payload: "build_change_payload s (plan_change plan) = Inr pl" "encode_change_payload pl = Inr ep"
      "length ep \<le> u32_max"
    and lens: "length (plan_commit_nonce plan) = 32" "length (mode_policy_bytes (ca_mode_policy ca)) = 12"
      "policy_ok (ca_governance_policy ca)" "length (ca_tree_hash ca) = 64"
  shows "\<exists>pc. prepare_commit P s plan = Inr pc \<and> pc_candidate pc = ca"
proof -
  note cand = build_transition_ok [OF build]
  obtain secret where secret: "ca_direct_epoch_secret ca = Some secret"
    using cand direct by (auto simp: candidate_ok_def)
  then have key: "key_schedule_commitment P s ca plan = Inr (direct_wrap_key_schedule_commitment P (gs_group_id s)
      (ca_mode ca) (ca_epoch ca) (plan_commit_nonce plan) secret)" (is "_ = Inr ?kc")
    by (simp add: key_schedule_commitment_def direct)
  have kc: "length ?kc = 64" using P by (simp add: direct_wrap_key_schedule_commitment_def)
  obtain ph where ph: "change_payload_hash P ep = Inr ph"
    using hash512_lp_total [OF payload(3)] by (auto simp: change_payload_hash_def)
  obtain gb where gb: "encode_governance_policy (ca_governance_policy ca) = Inr gb" "length gb \<le> u32_max"
    using governance_encoding_length [OF _ lens(3)] cand unfolding candidate_ok_def governed_def by blast
  obtain gh where gh: "governance_policy_hash P gb = Inr gh"
    using hash512_lp_total [OF gb(2)] by (auto simp: governance_policy_hash_def)
  obtain mh where mh: "mode_policy_hash P (ca_mode_policy ca) = Inr mh"
    using hash512_lp_total [of "encode_mode_policy (ca_mode_policy ca)"] lens(2)
    by (auto simp: mode_policy_hash_def encode_mode_policy_def u32_max_def)
  obtain rb where rb: "roster_hash P rb = Inr (ca_roster_hash ca)"
    using cand by (auto simp: candidate_ok_def compute_roster_hash_def rbind_Inr_iff)
  have hashes: "length ph = 64" "length gh = 64" "length mh = 64" "length (ca_roster_hash ca) = 64"
    using hash512_lp_length [OF P] ph gh mh rb by (simp_all add: labelled_hash_defs)
  let ?core = "prepared_core s plan ca ph ?kc gh mh"
  have enc: "encode_commit_core ?core = Inr (commit_core_bytes ?core)"
    using cand by (simp add: encode_commit_core_def prepared_core_def candidate_ok_def)
  have "commit_core_ok ?core"
    using typed lens kc hashes by (simp add: commit_core_ok_def prepared_core_def state_typed_def)
  then have "length (commit_core_bytes ?core) \<le> u32_max"
    using commit_core_length [OF _ enc] by (simp add: u32_max_def)
  then obtain sd h where "commit_sig_digest P (commit_core_bytes ?core) = Inr sd"
      "commit_hash P (commit_core_bytes ?core) = Inr h"
    using hash512_lp_total by (fastforce simp: commit_sig_digest_def commit_hash_def)
  then show ?thesis
    using act parent build sigs own payload ph key gb gh mh enc
    by (simp add: prepare_commit_def require_active_def Let_def)
qed

section \<open>A concrete commit\<close>

text \<open>Member 1 removes member 2 from a two-member Lite group.\<close>

definition toy_base :: GroupState where
  "toy_base = toy_group\<lparr>gs_last_commit_hash := 1 # replicate 63 0\<rparr>"

definition toy_plan :: CommitPlan where
  "toy_plan = \<lparr>plan_committer = replicate 32 1, plan_commit_nonce = replicate 32 3,
     plan_change = CC_RemoveOrRevoke (replicate 32 2) 7,
     plan_signatures = [\<lparr>signer = replicate 32 1, signature = replicate 3309 0\<rparr>],
     plan_update_path = None, plan_direct_epoch_secret = Some (replicate 32 8)\<rparr>"

definition toy_left :: "RosterEntry list" where
  "toy_left = [(toy_member 2)\<lparr>status := MS_Removed, removed_epoch := 1\<rparr>, toy_member 1]"

lemma toy_left_valid: "roster_valid GM_Lite 1 toy_left" "\<forall>e \<in> set toy_left. entry_ok e"
  by (simp_all add: roster_valid_def roster_shape_def toy_left_def toy_member_def entry_valid_def entry_ok_def
      is_active_def is_active_in_mode_def can_send_in_mode_def)

lemma toy_transition:
  "\<exists>rh. build_transition toy_prims toy_base toy_plan = Inr
     \<lparr>ca_mode = GM_Lite, ca_mechanism = DirectWrap, ca_epoch = 1, ca_state_version = 1, ca_roster = toy_left,
      ca_roster_hash = rh, ca_tree_hash = replicate 64 0, ca_governance_policy = toy_policy,
      ca_mode_policy = \<lparr>mode_policy_bytes = replicate 12 0\<rparr>, ca_public_tree = None,
      ca_direct_epoch_secret = Some (replicate 32 8)\<rparr>"
proof -
  have roster: "mark_removed toy_roster (replicate 32 2) 1 = Inr toy_left"
    by (simp add: mark_removed_def toy_roster_def toy_left_def toy_member_def)
  have policy: "prune_removed_governance_signer toy_policy (replicate 32 2) = toy_policy"
    by (simp add: prune_removed_governance_signer_def toy_policy_def)
  have "distinct (map member_id toy_left)" by (rule roster_valid_distinct [OF toy_left_valid(1)])
  then have gov: "validate_governance_for_roster toy_policy toy_left = Inr ()"
    by (simp add: validate_governance_for_roster_iff governance_valid_def toy_policy_def active_member_def
        toy_left_def toy_member_def is_active_def)
  obtain b where b: "encode_roster GM_Lite toy_left = Inr b"
    using toy_left_valid(1) by (simp add: encode_roster_Inr_iff roster_valid_def)
  have "length b \<le> u32_max"
    using b by (auto simp: encode_roster_Inr_iff toy_left_def length_concat sort_key_def toy_member_def
      length_encode_roster_entry entry_ok_def u32_max_def)
  then obtain rh where "roster_hash toy_prims b = Inr rh"
    using hash512_lp_total by (fastforce simp: roster_hash_def)
  then show ?thesis
    using roster policy gov b toy_left_valid(1)
    by (simp add: build_transition_def next_transition_counters_def draft_from_state_def toy_base_def toy_group_def
        toy_plan_def validate_mode_mechanism_def checked_add_u64_one apply_membership_material_def u64_max_def
        validate_roster_for_mode_iff [THEN iffD2])
qed

lemma toy_commit_prepared:
  "\<exists>pc. prepare_commit toy_prims toy_base toy_plan = Inr pc \<and> candidate_typed (pc_candidate pc) \<and>
     pc_commit_hash pc \<noteq> gs_last_commit_hash toy_base"
proof -
  obtain rh where build: "build_transition toy_prims toy_base toy_plan = Inr
     \<lparr>ca_mode = GM_Lite, ca_mechanism = DirectWrap, ca_epoch = 1, ca_state_version = 1, ca_roster = toy_left,
      ca_roster_hash = rh, ca_tree_hash = replicate 64 0, ca_governance_policy = toy_policy,
      ca_mode_policy = \<lparr>mode_policy_bytes = replicate 12 0\<rparr>, ca_public_tree = None,
      ca_direct_epoch_secret = Some (replicate 32 8)\<rparr>" (is "_ = Inr ?ca")
    using toy_transition by blast
  have "governance_valid toy_policy"
    by (simp add: governance_valid_def toy_policy_def)
  then have policy: "validate_governance_policy toy_policy = Inr ()"
    by (simp add: validate_governance_policy_iff)
  have signer: "check_governance_signer toy_policy toy_roster \<lparr>signer = replicate 32 1, signature = replicate 3309 0\<rparr> = Inr ()"
    by (simp add: check_governance_signer_def toy_policy_def toy_roster_def toy_member_def)
  have threshold: "threshold toy_policy = 1"
    by (simp add: toy_policy_def)
  have sigs: "validate_governance_signatures toy_policy toy_roster (plan_signatures toy_plan) = Inr ()"
    using policy signer threshold
    by (simp add: validate_governance_signatures_def toy_plan_def validate_signature_set_def encode_signature_set_def
        is_strictly_ordered_member_ids_def windows2_def)
  have "\<exists>pc. prepare_commit toy_prims toy_base toy_plan = Inr pc \<and> pc_candidate pc = ?ca"
    by (rule prepare_direct_total [OF _ _ _ _ build, of "CP_RemoveOrRevoke (replicate 32 2) 7" "replicate 32 2 @ u16_be 7"])
      (use sigs in \<open>simp_all add: toy_base_def toy_group_def toy_plan_def state_typed_def validate_parent_for_change_def
        require_sender_def require_active_def ensure_sender_allowed_def ensure_active_member_def toy_roster_def
        toy_member_def can_send_in_mode_def validate_change_specific_signatures_def toy_policy_def policy_ok_def
        u16_be_def u32_max_def\<close>)
  then obtain pc where pc: "prepare_commit toy_prims toy_base toy_plan = Inr pc" "pc_candidate pc = ?ca" by blast
  obtain b where "commit_hash toy_prims b = Inr (pc_commit_hash pc)"
    by (rule prepare_commitD [OF pc(1)])
  then obtain x where "replicate 64 x = pc_commit_hash pc"
    by (auto simp: commit_hash_def hash512_lp_def result_simps toy_prims_def sha3_512_def toy_digest_def)
  moreover have "replicate 64 x ! 0 = replicate 64 x ! 1" by simp
  ultimately have "pc_commit_hash pc ! 0 = pc_commit_hash pc ! 1" by simp
  then have "pc_commit_hash pc \<noteq> gs_last_commit_hash toy_base" by (auto simp: toy_base_def toy_group_def)
  then show ?thesis
    using pc toy_left_valid(2) by (auto simp: candidate_typed_def)
qed

section \<open>Properties\<close>

text \<open>C19: Installing a prepared commit is all or nothing, whatever state it meets: it is refused without a
  change, recognised as a duplicate without a change, applied completely (the whole public state is the
  candidate's, and a direct-wrap commit has new sender chains and an empty replay state for its epoch), or
  recognised as a sibling of the current commit, which wipes the private state. No failure of the key
  derivation or of the chain installation can leave a half-applied commit behind, although the code
  changes the state before it runs them.\<close>

theorem commit_install_all_or_nothing:
  assumes "crypto_ok P" and "prepare_commit P s0 plan = Inr pc" and "candidate_typed (pc_candidate pc)"
    and "length (gs_group_id s) = 32" and "install_prepared_commit P pc s = (r, s')"
  shows "(\<exists>e. r = Inl e \<and> s' = s) \<or> (r = Inr CIR_Duplicate \<and> s' = s) \<or>
    (r = Inr CIR_Applied \<and> commit_accepted s pc \<and> after_commit P pc s s') \<or>
    (r = Inr CIR_Forked \<and> forks_current_commit s pc \<and> s' = mark_forked s)"
  using install_prepared_effect [OF assms(1) prepare_commit_ok [OF assms(2)] assms(3-5)]
  by cases simp_all

theorem commit_install_all_or_nothing_witness:
  "\<exists>pc r s'. prepare_commit toy_prims toy_base toy_plan = Inr pc \<and>
     install_prepared_commit toy_prims pc toy_group = (r, s') \<and>
     ((\<exists>e. r = Inl e \<and> s' = toy_group) \<or> (r = Inr CIR_Duplicate \<and> s' = toy_group) \<or>
      (r = Inr CIR_Applied \<and> commit_accepted toy_group pc \<and> after_commit toy_prims pc toy_group s') \<or>
      (r = Inr CIR_Forked \<and> forks_current_commit toy_group pc \<and> s' = mark_forked toy_group))"
proof -
  obtain pc where pc: "prepare_commit toy_prims toy_base toy_plan = Inr pc" "candidate_typed (pc_candidate pc)"
    using toy_commit_prepared by blast
  obtain r s' where run: "install_prepared_commit toy_prims pc toy_group = (r, s')" by fastforce
  have "length (gs_group_id toy_group) = 32" by (simp add: toy_group_def)
  from commit_install_all_or_nothing [OF toy_crypto_ok pc this run] pc(1) run show ?thesis by blast
qed

lemma prepare_commit_accepted:
  assumes "prepare_commit P s plan = Inr pc"
  shows "commit_accepted s pc" and "extends_current_commit s pc"
    and "cc_parent_commit_hash (pc_core pc) = gs_last_commit_hash s"
    and "cc_commit_kind (pc_core pc) = CK_Create \<longleftrightarrow> gs_roster s = []"
    and "cc_new_epoch (pc_core pc) = (if gs_roster s = [] then 0 else gs_epoch s + 1)"
    and "cc_new_state_version (pc_core pc) = (if gs_roster s = [] then 0 else gs_state_version s + 1)"
proof (rule_tac [!] prepare_commitD [OF assms])
  fix ph kc gh mh
  assume act: "gs_phase s = GP_Active"
    and parent: "validate_parent_for_change s (plan_committer plan) (plan_change plan) = Inr ()"
    and build: "build_transition P s plan = Inr (pc_candidate pc)"
    and sigs: "(if commit_change_kind (plan_change plan) = CK_Create
      then validate_governance_signatures (ca_governance_policy (pc_candidate pc)) (ca_roster (pc_candidate pc)) (plan_signatures plan)
      else validate_governance_signatures (gs_governance_policy s) (gs_roster s) (plan_signatures plan)) = Inr ()"
    and core: "pc_core pc = prepared_core s plan (pc_candidate pc) ph kc gh mh"
    and ps: "pc_signatures pc = plan_signatures plan"
  have kind: "cc_commit_kind (pc_core pc) = commit_change_kind (plan_change plan)"
    by (simp add: core prepared_core_def)
  have create: "commit_change_kind (plan_change plan) = CK_Create \<longleftrightarrow> gs_roster s = []"
    using parent
    by (cases "plan_change plan") (auto simp: validate_parent_for_change_def result_simps require_sender_def
        ensure_sender_allowed_def ensure_active_member_def require_active_def)
  show "commit_accepted s pc"
    using act sigs by (simp add: commit_accepted_def core ps extends_state_def prepared_core_def split: if_splits)
  show "extends_current_commit s pc" "cc_parent_commit_hash (pc_core pc) = gs_last_commit_hash s"
    by (simp_all add: extends_current_commit_def core prepared_core_def)
  show "cc_commit_kind (pc_core pc) = CK_Create \<longleftrightarrow> gs_roster s = []"
    using create kind by simp
  show "cc_new_epoch (pc_core pc) = (if gs_roster s = [] then 0 else gs_epoch s + 1)"
    "cc_new_state_version (pc_core pc) = (if gs_roster s = [] then 0 else gs_state_version s + 1)"
    using transition_counters(1,2) [OF build] create by (simp_all add: core prepared_core_def)
qed

text \<open>C14: The life of a commit: a commit prepared from the current state installs there, gives the group the
  prepared candidate and names the old commit as its parent; installing it again is recognised as a
  duplicate and changes nothing; and any other commit that was prepared from the same parent is then
  recognised as a sibling, which marks the group forked and wipes its private state.\<close>

theorem commit_lifecycle:
  assumes "crypto_ok P" and prep: "prepare_commit P s plan = Inr pc" and "candidate_typed (pc_candidate pc)"
    and "length (gs_group_id s) = 32" and fresh: "pc_commit_hash pc \<noteq> gs_last_commit_hash s"
  shows "\<exists>s'. install_prepared_commit P pc s = (Inr CIR_Applied, s') \<and> after_commit P pc s s' \<and>
    gs_previous_commit_hash s' = gs_last_commit_hash s \<and> gs_last_commit_hash s' = pc_commit_hash pc \<and>
    install_prepared_commit P pc s' = (Inr CIR_Duplicate, s') \<and>
    (\<forall>plan2 pc2. prepare_commit P s plan2 = Inr pc2 \<and> pc_commit_hash pc2 \<noteq> pc_commit_hash pc \<longrightarrow>
       install_prepared_commit P pc2 s' = (Inr CIR_Forked, mark_forked s'))"
proof -
  note ok = prepare_commit_ok [OF prep] and acc = prepare_commit_accepted [OF prep]
  have act: "gs_phase s = GP_Active" using acc(1) by (simp add: commit_accepted_def)
  obtain s' where post: "after_commit P pc s s'"
    using commit_effect_total [OF assms(1) ok assms(3,4) act] ..
  have "\<not> is_duplicate_commit s pc" using fresh by (simp add: is_duplicate_commit_def)
  then have run: "install_prepared_commit P pc s = (Inr CIR_Applied, s')"
    using acc(2) apply_accepted [OF acc(1) ok post] by (simp add: install_prepared_eq [OF ok act])
  note pub = after_commit_public [OF post]
  have act': "gs_phase s' = GP_Active" using act by (simp add: pub)
  have "is_duplicate_commit s' pc"
    using ok by (simp add: is_duplicate_commit_def pub prepared_ok_def)
  then have dup: "install_prepared_commit P pc s' = (Inr CIR_Duplicate, s')"
    by (simp add: install_prepared_eq [OF ok act'])
  have "install_prepared_commit P pc2 s' = (Inr CIR_Forked, mark_forked s')"
    if prep2: "prepare_commit P s plan2 = Inr pc2" and other: "pc_commit_hash pc2 \<noteq> pc_commit_hash pc" for plan2 pc2
  proof -
    note acc2 = prepare_commit_accepted [OF prep2]
    have "ca_epoch (pc_candidate pc) = cc_new_epoch (pc_core pc)" "ca_state_version (pc_candidate pc) = cc_new_state_version (pc_core pc)"
      using ok by (simp_all add: prepared_ok_def)
    then have "forks_current_commit s' pc2"
      using other by (simp add: forks_current_commit_def pub acc2(3,5,6) acc(5,6))
    moreover have "\<not> is_duplicate_commit s' pc2" "\<not> extends_current_commit s' pc2"
      using other fresh by (simp_all add: is_duplicate_commit_def extends_current_commit_def pub acc2(3))
    ultimately show ?thesis
      by (simp add: install_prepared_eq [OF prepare_commit_ok [OF prep2] act'])
  qed
  moreover have "gs_previous_commit_hash s' = gs_last_commit_hash s" "gs_last_commit_hash s' = pc_commit_hash pc"
    by (simp_all add: pub)
  ultimately show ?thesis
    using run post dup by blast
qed

theorem commit_lifecycle_witness:
  "\<exists>pc s'. prepare_commit toy_prims toy_base toy_plan = Inr pc \<and>
     install_prepared_commit toy_prims pc toy_base = (Inr CIR_Applied, s') \<and>
     install_prepared_commit toy_prims pc s' = (Inr CIR_Duplicate, s')"
proof -
  obtain pc where pc: "prepare_commit toy_prims toy_base toy_plan = Inr pc" "candidate_typed (pc_candidate pc)"
      "pc_commit_hash pc \<noteq> gs_last_commit_hash toy_base"
    using toy_commit_prepared by blast
  have "length (gs_group_id toy_base) = 32" by (simp add: toy_base_def toy_group_def)
  from commit_lifecycle [OF toy_crypto_ok pc(1,2) this pc(3)] pc(1) show ?thesis by blast
qed

text \<open>Members that a change takes out of the group.\<close>

fun removed_by :: "CommitChange \<Rightarrow> MemberId option" where
  "removed_by (CC_Leave mid) = Some mid"
| "removed_by (CC_RemoveOrRevoke mid _) = Some mid"
| "removed_by (CC_IdentityRotate old _ _) = Some old"
| "removed_by _ = None"

lemma mark_removed_entry:
  assumes "mark_removed roster mid e = Inr roster'"
  shows "\<exists>x \<in> set roster'. member_id x = mid \<and> status x = MS_Removed"
proof -
  obtain entry where "find (\<lambda>x. member_id x = mid) roster = Some entry"
    and r: "roster' = update_first (\<lambda>x. member_id x = mid) (\<lambda>x. x\<lparr>status := MS_Removed, removed_epoch := e\<rparr>) roster"
    using assms by (auto simp: mark_removed_def result_simps)
  then show ?thesis
    unfolding r by (induction roster) (auto split: if_splits)
qed

lemma change_removes:
  assumes "apply_commit_change d change e = Inr d'" and "removed_by change = Some mid"
  shows "\<exists>x \<in> set (td_roster d'). member_id x = mid \<and> status x = MS_Removed"
  using assms mark_removed_entry
  by (cases change) (fastforce simp: rbind_Inr_iff draft_add_member_def result_simps)+

lemma transition_removes:
  assumes "build_transition P s plan = Inr ca" and "removed_by (plan_change plan) = Some mid"
  shows "\<exists>x \<in> set (ca_roster ca). member_id x = mid \<and> status x = MS_Removed"
  by (rule build_transitionD [OF assms(1)]) (use change_removes [OF _ assms(2)] in simp)

lemma removed_entry_rejected:
  assumes "roster_valid m ep roster" and "x \<in> set roster" and "status x = MS_Removed"
  shows "ensure_sender_allowed m roster (member_id x) = Inl (GE_MemberInactive (member_id x))"
    and "member_id x \<notin> allowed_senders m roster"
proof -
  have d: "distinct (map member_id roster)" using assms(1) by (rule roster_valid_distinct)
  then have f: "find (\<lambda>e. member_id e = member_id x) roster = Some x"
    using assms(2) by (simp add: find_member_id)
  then show "ensure_sender_allowed m roster (member_id x) = Inl (GE_MemberInactive (member_id x))"
    using assms(3) by (simp add: ensure_sender_allowed_def ensure_active_member_def)
  have "y = x" if "y \<in> set roster" "member_id y = member_id x" for y
  proof -
    have "find (\<lambda>e. member_id e = member_id x) roster = Some y"
      by (rule find_member_id [OF d, THEN iffD2]) (rule conjI [OF that])
    with f show ?thesis by (simp only: option.inject)
  qed
  then show "member_id x \<notin> allowed_senders m roster"
    using assms(3) by (auto simp: allowed_senders_def active_sender_entries_def)
qed

text \<open>C18: Removal takes effect with the commit: once a commit that removes, revokes or rotates out a member
  has been applied, that member can neither seal nor take a sender step, and no message of theirs can be
  opened, because no sender chain for them exists in the new epoch.\<close>

theorem removed_member_silenced:
  assumes prep: "prepare_commit P s0 plan = Inr pc" and mid: "removed_by (plan_change plan) = Some mid"
    and post: "after_commit P pc s s'" and act: "gs_phase s = GP_Active"
  shows "seal_group_data P mid bs s' = (Inl (GE_MemberInactive mid), s') \<and>
    seal_signed_group_data P mid key ent bs s' = (Inl (GE_MemberInactive mid), s') \<and>
    next_sender_message_step P mid s' = (Inl (GE_MemberInactive mid), s') \<and>
    \<not> available (gs_sender_chains s') mid i"
proof -
  note pub = after_commit_public [OF post]
  have valid: "roster_valid (gs_mode s') (gs_epoch s') (gs_roster s')"
    using prepare_commit_ok [OF prep] unfolding prepared_ok_def candidate_ok_def pub by blast
  have build: "build_transition P s0 plan = Inr (pc_candidate pc)"
    by (rule prepare_commitD [OF prep])
  obtain x where x: "x \<in> set (gs_roster s')" "member_id x = mid" "status x = MS_Removed"
    using transition_removes [OF build mid] unfolding pub by blast
  have sender: "require_sender s' mid = Inl (GE_MemberInactive mid)"
    using removed_entry_rejected(1) [OF valid x(1,3)] act by (simp add: require_sender_def require_active_def pub x(2))
  have "mid \<notin> sc_sender ` set (chain_senders (gs_sender_chains s')) \<and> chains_ok 256 (gs_sender_chains s')"
  proof (cases "ca_direct_epoch_secret (pc_candidate pc)")
    case None
    then show ?thesis
      using post by (simp add: after_commit_def SenderChainState_default_def chains_ok_def)
  next
    case (Some secret)
    then obtain k where "install_epoch_sender_chains P k (adopted pc s) = (Inr (), s')"
      using post by (auto simp: after_commit_def)
    note inst = install_epoch_unused [OF this]
    show ?thesis
      using removed_entry_rejected(2) [OF valid x(1,3)] inst(3,4) by (simp add: x(2))
  qed
  then have "\<not> available (gs_sender_chains s') mid i"
    unfolding available_def using stored_cursor by (metis ahead_def imageI)
  with sender show ?thesis
    by (simp add: seal_group_data_def seal_signed_group_data_def next_sender_message_step_def st_bind_def st_lift_def)
qed

theorem removed_member_silenced_witness:
  "\<exists>pc s'. prepare_commit toy_prims toy_base toy_plan = Inr pc \<and> after_commit toy_prims pc toy_base s' \<and>
     seal_group_data toy_prims (replicate 32 2) [104, 105] s' = (Inl (GE_MemberInactive (replicate 32 2)), s')"
proof -
  obtain pc where pc: "prepare_commit toy_prims toy_base toy_plan = Inr pc" "candidate_typed (pc_candidate pc)"
      "pc_commit_hash pc \<noteq> gs_last_commit_hash toy_base"
    using toy_commit_prepared by blast
  have toy: "length (gs_group_id toy_base) = 32" "gs_phase toy_base = GP_Active" by (simp_all add: toy_base_def toy_group_def)
  obtain s' where post: "after_commit toy_prims pc toy_base s'"
    using commit_effect_total [OF toy_crypto_ok prepare_commit_ok [OF pc(1)] pc(2) toy] ..
  have "removed_by (plan_change toy_plan) = Some (replicate 32 2)" by (simp add: toy_plan_def)
  from removed_member_silenced [OF pc(1) this post toy(2)] pc(1) post show ?thesis by blast
qed

section \<open>Members that install the same commits\<close>

lemma apply_agree:
  assumes P: "crypto_ok P" and ok: "prepared_ok P pc" and typed: "candidate_typed (pc_candidate pc)"
    and gid: "length (gs_group_id a) = 32" and pub: "public_of a = public_of b"
    and run: "apply_prepared_commit P pc a = (r, a')" "apply_prepared_commit P pc b = (r', b')"
  shows "r' = r \<and> public_of a' = public_of b' \<and> (is_ok r \<or> same_private a b \<longrightarrow> same_private a' b')"
proof -
  have gid': "length (gs_group_id b) = 32" using gid public_of_eqD(1) [OF pub] by simp
  have checks: "commit_checks P b pc = commit_checks P a pc" by (rule public_commit(1) [OF pub])
  show ?thesis
  proof (cases "commit_checks P a pc")
    case (Inl e)
    then have "apply_prepared_commit P pc a = (Inl e, a)" "apply_prepared_commit P pc b = (Inl e, b)"
      using checks by (simp_all add: apply_refused)
    then show ?thesis using run pub by auto
  next
    case (Inr u)
    then have acc: "commit_accepted a pc" "commit_accepted b pc"
      using commit_checks_iff [OF ok, of a] public_commit(2) [OF pub, of pc] by simp_all
    then have act: "gs_phase a = GP_Active" "gs_phase b = GP_Active" by (simp_all add: commit_accepted_def)
    obtain a1 where a1: "after_commit P pc a a1" using commit_effect_total [OF P ok typed gid act(1)] ..
    obtain b1 where b1: "after_commit P pc b b1" using commit_effect_total [OF P ok typed gid' act(2)] ..
    show ?thesis
      using run apply_accepted [OF acc(1) ok a1] apply_accepted [OF acc(2) ok b1] after_commit_agree [OF pub a1 b1]
      by simp
  qed
qed

lemma mark_forked_agree:
  "public_of a = public_of b \<Longrightarrow> public_of (mark_forked a) = public_of (mark_forked b) \<and> same_private (mark_forked a) (mark_forked b)"
  by (simp add: public_of_def mark_forked_def same_private_def) (simp add: wipe_and_set_phase_def)

lemma install_agree:
  assumes P: "crypto_ok P" and ok: "prepared_ok P pc" and typed: "candidate_typed (pc_candidate pc)"
    and gid: "length (gs_group_id a) = 32" and pub: "public_of a = public_of b"
    and run: "install_prepared_commit P pc a = (r, a')" "install_prepared_commit P pc b = (r', b')"
  shows "r' = r \<and> public_of a' = public_of b' \<and> gs_group_id a' = gs_group_id a \<and>
    (r = Inr CIR_Applied \<or> r = Inr CIR_Forked \<or> same_private a b \<longrightarrow> same_private a' b')"
proof (cases "gs_phase a = GP_Active")
  case False
  then have "gs_phase b \<noteq> GP_Active" using public_of_eqD(13) [OF pub] by simp
  then show ?thesis using run False pub by (auto simp: install_inactive)
next
  case act: True
  then have act': "gs_phase b = GP_Active" using public_of_eqD(13) [OF pub] by simp
  note eq = install_prepared_eq [OF ok act] install_prepared_eq [OF ok act']
  note same = public_commit(3-5) [OF pub, of pc]
  have gid': "gs_group_id a' = gs_group_id a"
    using install_prepared_effect [OF P ok typed gid run(1)]
    by cases (simp_all add: after_commit_public(1) mark_forked_def wipe_and_set_phase_def)
  show ?thesis
  proof (cases "\<not> is_duplicate_commit a pc \<and> extends_current_commit a pc")
    case False
    then show ?thesis
      using run mark_forked_agree [OF pub] pub gid' by (auto simp: eq same split: if_splits)
  next
    case True
    obtain ra a1 where a1: "apply_prepared_commit P pc a = (ra, a1)" by fastforce
    obtain rb b1 where b1: "apply_prepared_commit P pc b = (rb, b1)" by fastforce
    note agree = apply_agree [OF P ok typed gid pub a1 b1]
    show ?thesis
    proof (cases ra)
      case (Inl e)
      then show ?thesis using run True agree a1 b1 gid' by (auto simp: eq same)
    next
      case (Inr u)
      then show ?thesis using run True agree a1 b1 gid' by (auto simp: eq same)
    qed
  qed
qed

fun install_all :: "CryptoPrims \<Rightarrow> PreparedCommit list \<Rightarrow> GroupState \<Rightarrow> (GroupError + CommitInstallResult) list \<times> GroupState" where
  "install_all P [] s = ([], s)"
| "install_all P (pc # pcs) s =
     (case install_prepared_commit P pc s of (r, s1) \<Rightarrow>
      case install_all P pcs s1 of (rs, s2) \<Rightarrow> (r # rs, s2))"

text \<open>C16: Members who agree on the public state of a group keep agreeing: whatever sequence of prepared
  commits both install, each installation gives both the same result (applied, duplicate, forked or the
  same error), both end with the same public state, and as soon as one commit has been applied (or has
  forked the group) both hold the same sender chains and the same replay state, so what one seals the
  other can open.\<close>

theorem members_converge:
  assumes "crypto_ok P" and "public_of a = public_of b" and "length (gs_group_id a) = 32"
    and "\<forall>pc \<in> set pcs. (\<exists>s plan. prepare_commit P s plan = Inr pc) \<and> candidate_typed (pc_candidate pc)"
    and "install_all P pcs a = (rs, a')" and "install_all P pcs b = (rs', b')"
  shows "rs' = rs \<and> public_of a' = public_of b' \<and>
    (Inr CIR_Applied \<in> set rs \<or> Inr CIR_Forked \<in> set rs \<or> same_private a b \<longrightarrow> same_private a' b')"
  using assms(2-)
proof (induction pcs arbitrary: a b rs rs')
  case Nil
  then show ?case by simp
next
  case (Cons pc pcs)
  have ok: "prepared_ok P pc" and typed: "candidate_typed (pc_candidate pc)"
    using Cons.prems(3) prepare_commit_ok by auto
  obtain r a1 ra where a1: "install_prepared_commit P pc a = (r, a1)" "install_all P pcs a1 = (ra, a')" "rs = r # ra"
    using Cons.prems(4) by (auto split: prod.splits)
  obtain r' b1 rb where b1: "install_prepared_commit P pc b = (r', b1)" "install_all P pcs b1 = (rb, b')" "rs' = r' # rb"
    using Cons.prems(5) by (auto split: prod.splits)
  have one: "r' = r \<and> public_of a1 = public_of b1 \<and> gs_group_id a1 = gs_group_id a \<and>
      (r = Inr CIR_Applied \<or> r = Inr CIR_Forked \<or> same_private a b \<longrightarrow> same_private a1 b1)"
    by (rule install_agree [OF assms(1) ok typed Cons.prems(2,1) a1(1) b1(1)])
  have "rb = ra \<and> public_of a' = public_of b' \<and>
      (Inr CIR_Applied \<in> set ra \<or> Inr CIR_Forked \<in> set ra \<or> same_private a1 b1 \<longrightarrow> same_private a' b')"
    using Cons.IH [OF _ _ _ a1(2) b1(2)] one Cons.prems(2,3) by simp
  with one show ?case
    unfolding a1(3) b1(3) by auto
qed

theorem members_converge_witness:
  "\<exists>pc rs a' b'. prepare_commit toy_prims toy_base toy_plan = Inr pc \<and>
     install_all toy_prims [pc] toy_base = (rs, a') \<and>
     install_all toy_prims [pc] (toy_base\<lparr>gs_membership := MPS_DirectWrap (replicate 32 4)\<rparr>) = (rs, b') \<and>
     public_of a' = public_of b'"
proof -
  obtain pc where pc: "prepare_commit toy_prims toy_base toy_plan = Inr pc" "candidate_typed (pc_candidate pc)"
    using toy_commit_prepared by blast
  let ?b = "toy_base\<lparr>gs_membership := MPS_DirectWrap (replicate 32 4)\<rparr>"
  have pub: "public_of toy_base = public_of ?b" by (simp add: public_of_def)
  have gid: "length (gs_group_id toy_base) = 32" by (simp add: toy_base_def toy_group_def)
  have all: "\<forall>x \<in> set [pc]. (\<exists>s plan. prepare_commit toy_prims s plan = Inr x) \<and> candidate_typed (pc_candidate x)"
    using pc by auto
  obtain rs a' where a: "install_all toy_prims [pc] toy_base = (rs, a')" by fastforce
  obtain rs' b' where b: "install_all toy_prims [pc] ?b = (rs', b')" by fastforce
  from members_converge [OF toy_crypto_ok pub gid all a b] pc(1) a b show ?thesis by blast
qed

end
