(* ===== verification/Group_Reachable.thy ===== *)
theory Group_Reachable
  imports Group_Install
begin

text \<open>
  The states a member can reach: from an empty or a validated group through calls, epoch installations and
  commits, in any order and whatever their outcome. The lemmas are the invariant of these states, the
  phases, and the restoration of snapshots.
\<close>

section \<open>Reachable states\<close>

inductive group_reachable :: "CryptoPrims \<Rightarrow> GroupState \<Rightarrow> bool" for P where
  reach_empty: "group_new_empty gid m mech gov mp = Inr s \<Longrightarrow> length gid = 32 \<Longrightarrow> group_reachable P s"
| reach_validated: "group_new_validated P config = Inr s \<Longrightarrow> length (cfg_group_id config) = 32 \<Longrightarrow> group_reachable P s"
| reach_call: "group_reachable P s \<Longrightarrow> run_group_call P c s = (r, s') \<Longrightarrow> group_reachable P s'"
| reach_epoch: "group_reachable P s \<Longrightarrow> install_epoch_sender_chains P k s = (r, s') \<Longrightarrow> group_reachable P s'"
| reach_commit: "group_reachable P s \<Longrightarrow> prepare_commit P s0 plan = Inr pc \<Longrightarrow> candidate_typed (pc_candidate pc) \<Longrightarrow>
    install_prepared_commit P pc s = (r, s') \<Longrightarrow> group_reachable P s'"
| reach_apply: "group_reachable P s \<Longrightarrow> prepare_commit P s0 plan = Inr pc \<Longrightarrow> candidate_typed (pc_candidate pc) \<Longrightarrow>
    apply_prepared_commit P pc s = (r, s') \<Longrightarrow> group_reachable P s'"

text \<open>
  The invariant: the public state is consistent, no sender has two cursors and no message two keys, the
  replay windows represent the messages accepted in this epoch, and a group that is not active holds no
  private state.
\<close>

definition private_ok :: "GroupState \<Rightarrow> bool" where
  "private_ok s \<longleftrightarrow> chains_ok 256 (gs_sender_chains s) \<and> tags_ok (gs_sender_chains s) \<and>
     (\<exists>H. replay_tracks (gs_replay_state s) H)"

definition wiped :: "GroupState \<Rightarrow> bool" where
  "wiped s \<longleftrightarrow> gs_membership s = MPS_Empty \<and> gs_sender_chains s = SenderChainState_default \<and>
     gs_replay_state s = GroupReplayState_default"

definition group_inv :: "CryptoPrims \<Rightarrow> GroupState \<Rightarrow> bool" where
  "group_inv P s \<longleftrightarrow> length (gs_group_id s) = 32 \<and> public_ok P s \<and> private_ok s \<and>
     (gs_phase s \<noteq> GP_Active \<longrightarrow> wiped s)"

lemma tags_ok_default: "tags_ok SenderChainState_default"
  by (simp add: tags_ok_def SenderChainState_default_def)

lemma private_ok_default:
  "gs_sender_chains s = SenderChainState_default \<Longrightarrow> gs_replay_state s = GroupReplayState_default \<Longrightarrow> private_ok s"
  using replay_tracks_default by (auto simp: private_ok_def chains_ok_default tags_ok_default)

lemma group_inv_wipe: "group_inv P s \<Longrightarrow> p \<noteq> GP_Active \<Longrightarrow> group_inv P (wipe_and_set_phase p s)"
  by (auto simp: group_inv_def wiped_def public_ok_def intro: private_ok_default)
    (simp_all add: wipe_and_set_phase_def)

lemma group_inv_chains:
  assumes "group_inv P s" and "gs_phase s = GP_Active" and "private_ok (s\<lparr>gs_sender_chains := ch, gs_replay_state := rep\<rparr>)"
  shows "group_inv P (s\<lparr>gs_sender_chains := ch, gs_replay_state := rep\<rparr>)"
  using assms by (simp add: group_inv_def public_ok_def)

lemma took_step_inv:
  assumes inv: "group_inv P s" and took: "took_step P m s step s'"
  shows "group_inv P s'"
proof -
  obtain ch where run: "next_send_step P (epoch_key_context s) m (gs_sender_chains s) = (Inr step, ch)"
    and s': "s' = s\<lparr>gs_sender_chains := ch\<rparr>" and "gs_phase s = GP_Active"
    using took by (auto simp: took_step_def require_sender_def require_active_def is_ok_iff result_simps)
  moreover have "private_ok (s\<lparr>gs_sender_chains := ch, gs_replay_state := gs_replay_state s\<rparr>)"
    using inv next_send_step_effect(1) [OF _ run] next_send_step_tags [OF run]
    by (simp add: group_inv_def private_ok_def)
  ultimately show ?thesis
    using group_inv_chains [OF inv, where ch = ch and rep = "gs_replay_state s"] by simp
qed

lemma opened_tags:
  assumes P: "hash_ok P" and tags: "tags_ok (gs_sender_chains s)" and checks: "open_group_checks P s env vk = Inr (res, bs, rep)"
  shows "resolution_tags_ok res"
proof -
  obtain tag i where "resolution_for_route P (gs_sender_chains s) (epoch_key_context s) tag i
      (group_skip_bound (gs_mode s)) = Inr res"
    by (rule open_group_checksD [OF checks]) (rule that)
  then show ?thesis by (rule resolution_for_route_tags [OF P tags])
qed

lemma effect_inv:
  assumes P: "hash_ok P" and inv: "group_inv P s" and eff: "group_effect P seal s r s'"
  shows "group_inv P s'"
  using eff
proof cases
  case effect_refused
  then show ?thesis using inv by simp
next
  case (effect_lost m step e)
  then show ?thesis using took_step_inv [OF inv] by blast
next
  case (effect_stepped m step)
  then show ?thesis using took_step_inv [OF inv] by blast
next
  case (effect_opened env header vk res bs rep ch)
  have ok: "chains_ok 256 (gs_sender_chains s)" and tags: "tags_ok (gs_sender_chains s)"
    using inv by (simp_all add: group_inv_def private_ok_def)
  obtain H where H: "replay_tracks (gs_replay_state s) H"
    using inv by (auto simp: group_inv_def private_ok_def)
  have rtags: "resolution_tags_ok res" by (rule opened_tags [OF P tags effect_opened(5)])
  have "unat (group_skip_bound (gs_mode s)) \<le> 256"
    using group_skip_bound_eq sender_skip_bound_max by simp
  then have "chains_ok 256 ch"
    using commit_resolution_effect(1) [OF ok effect_opened(6,7,8)] by blast
  moreover have "tags_ok ch"
    by (rule commit_resolution_tags [OF effect_opened(6,7,8) tags rtags])
  moreover have "\<exists>H. replay_tracks rep H"
    using mark_accepted_tracks(2) [OF H resolution_tag_length [OF rtags] effect_opened(9)] by blast
  ultimately show ?thesis
    unfolding effect_opened(2) by (intro group_inv_chains [OF inv effect_opened(3)]) (simp add: private_ok_def)
next
  case effect_kept
  then show ?thesis
    using inv by (auto simp: quiet_step_def group_inv_def private_ok_def)
next
  case (effect_wiped p)
  then show ?thesis using group_inv_wipe [OF inv] by simp
qed

lemma install_epoch_private:
  assumes "install_epoch_sender_chains P k s0 = (Inr u, s)"
  shows "chains_ok b (gs_sender_chains s)" and "tags_ok (gs_sender_chains s)" and "replay_tracks (gs_replay_state s) {}"
    and "sr_sender ` set (replay_senders (gs_replay_state s)) = allowed_senders (gs_mode s) (gs_roster s)"
    and "s = s0\<lparr>gs_sender_chains := gs_sender_chains s, gs_replay_state := gs_replay_state s\<rparr>" and "gs_phase s0 = GP_Active"
    and "roster_valid (gs_mode s) (gs_epoch s) (gs_roster s)"
proof -
  obtain ch rep where v: "roster_valid (gs_mode s0) (gs_epoch s0) (gs_roster s0)" and "gs_phase s0 = GP_Active"
    and run: "chains_install_epoch P (epoch_key_context s0) k (gs_roster s0) SenderChainState_default = (Inr (), ch)"
    and rep: "replay_install_epoch (gs_mode s0) (gs_roster s0) GroupReplayState_default = (Inr (), rep)"
    and s: "s = s0\<lparr>gs_sender_chains := ch, gs_replay_state := rep\<rparr>"
    using assms by (auto simp: install_epoch_iff)
  note d = roster_valid_distinct [OF v]
  show "chains_ok b (gs_sender_chains s)" "tags_ok (gs_sender_chains s)"
    using install_epoch_chains(1,3) [OF run d] by (simp_all add: s tags_ok_def)
  show "replay_tracks (gs_replay_state s) {}"
    "sr_sender ` set (replay_senders (gs_replay_state s)) = allowed_senders (gs_mode s) (gs_roster s)"
    using replay_install_tracks [OF rep d] by (simp_all add: s)
  show "s = s0\<lparr>gs_sender_chains := gs_sender_chains s, gs_replay_state := gs_replay_state s\<rparr>"
    "gs_phase s0 = GP_Active" "roster_valid (gs_mode s) (gs_epoch s) (gs_roster s)"
    using v \<open>gs_phase s0 = GP_Active\<close> by (simp_all add: s)
qed

lemma install_epoch_inv:
  assumes "group_inv P s" and "install_epoch_sender_chains P k s = (r, s')"
  shows "group_inv P s'"
proof (cases r)
  case (Inl e)
  then show ?thesis using assms install_epoch_Inl by blast
next
  case (Inr u)
  note inst = install_epoch_private [OF assms(2) [unfolded Inr]]
  have "private_ok s'" using inst(1-3) by (auto simp: private_ok_def)
  then show ?thesis
    using group_inv_chains [OF assms(1) inst(6), where ch = "gs_sender_chains s'" and rep = "gs_replay_state s'"] inst(5)
    by simp
qed

lemma after_commit_inv:
  assumes inv: "group_inv P s" and ok: "prepared_ok P pc" and act: "gs_phase s = GP_Active" and post: "after_commit P pc s s'"
  shows "group_inv P s'"
proof -
  note pub = after_commit_public [OF post]
  have "public_ok P s'"
    using ok by (simp add: public_ok_def pub prepared_ok_def candidate_ok_def)
  moreover have "private_ok s'"
  proof (cases "ca_direct_epoch_secret (pc_candidate pc)")
    case None
    then show ?thesis
      using post by (intro private_ok_default) (simp_all add: after_commit_def)
  next
    case (Some secret)
    then obtain k where "install_epoch_sender_chains P k (adopted pc s) = (Inr (), s')"
      using post by (auto simp: after_commit_def)
    from install_epoch_private(1-3) [OF this] show ?thesis by (auto simp: private_ok_def)
  qed
  ultimately show ?thesis
    using inv act by (simp add: group_inv_def pub)
qed

lemma install_commit_inv:
  assumes P: "crypto_ok P" and inv: "group_inv P s" and ok: "prepared_ok P pc" and typed: "candidate_typed (pc_candidate pc)"
    and run: "install_prepared_commit P pc s = (r, s')"
  shows "group_inv P s'"
proof -
  have gid: "length (gs_group_id s) = 32" using inv by (simp add: group_inv_def)
  from install_prepared_effect [OF P ok typed gid run] show ?thesis
  proof cases
    case install_applied
    then show ?thesis using after_commit_inv [OF inv ok] by (simp add: commit_accepted_def)
  next
    case install_forked
    then show ?thesis using group_inv_wipe [OF inv, of GP_Forked] by (simp add: mark_forked_def)
  qed (use inv in simp_all)
qed

lemma apply_commit_inv:
  assumes P: "crypto_ok P" and inv: "group_inv P s" and ok: "prepared_ok P pc" and typed: "candidate_typed (pc_candidate pc)"
    and run: "apply_prepared_commit P pc s = (r, s')"
  shows "group_inv P s'"
proof -
  have gid: "length (gs_group_id s) = 32" using inv by (simp add: group_inv_def)
  show ?thesis
  proof (cases rule: apply_prepared_cases [OF P ok typed gid, case_names refused applied])
    case (refused e)
    then show ?thesis using run inv by simp
  next
    case (applied t)
    then show ?thesis using run after_commit_inv [OF inv ok] by (simp add: commit_accepted_def)
  qed
qed

lemma group_new_inv:
  "group_new_empty gid m mech gov mp = Inr s \<Longrightarrow> length gid = 32 \<Longrightarrow> group_inv P s"
  "group_new_validated P config = Inr s \<Longrightarrow> length (cfg_group_id config) = 32 \<Longrightarrow> group_inv P s"
proof -
  show "group_new_empty gid m mech gov mp = Inr s \<Longrightarrow> length gid = 32 \<Longrightarrow> group_inv P s"
    by (auto simp: group_new_empty_def result_simps group_inv_def public_ok_def intro!: private_ok_default)
  assume new: "group_new_validated P config = Inr s" and gid: "length (cfg_group_id config) = 32"
  obtain h where v: "roster_valid (cfg_mode config) (cfg_epoch config) (cfg_roster config)"
    and g: "validate_governance_for_roster (cfg_governance_policy config) (cfg_roster config) = Inr ()"
    and rest: "cfg_mechanism config = required_mechanism (cfg_mode config)"
      "compute_roster_hash P (cfg_mode config) (cfg_roster config) = Inr h"
    and s: "gs_group_id s = cfg_group_id config" "gs_mode s = cfg_mode config" "gs_mechanism s = cfg_mechanism config"
      "gs_epoch s = cfg_epoch config" "gs_roster s = cfg_roster config" "gs_roster_hash s = h" "gs_phase s = GP_Active"
      "gs_governance_policy s = cfg_governance_policy config" "gs_sender_chains s = SenderChainState_default"
      "gs_replay_state s = GroupReplayState_default"
    using new by (auto simp: group_new_validated_def result_simps)
  show "group_inv P s"
    using v validate_governance_governed [OF v g] rest gid private_ok_default [of s]
    by (simp add: group_inv_def public_ok_def s)
qed


section \<open>Snapshots\<close>

text \<open>Private membership state that a snapshot can carry: direct-wrap groups always, tree groups with a tree of
  the right shape and a path of distinct nodes no longer than a direct path.\<close>

fun membership_ok :: "GroupMode \<Rightarrow> MembershipPrivateState \<Rightarrow> bool" where
  "membership_ok m (MPS_TreeKem tree pp) \<longleftrightarrow> tree_wf tree \<and> pt_mode tree = m \<and>
     length (path pp) \<le> Suc (tree_depth m) \<and> distinct (map pn_node_index (path pp)) \<and>
     (\<forall>i. leaf_index pp = Some i \<longrightarrow> i < leaf_capacity tree)"
| "membership_ok m (MPS_DirectWrap s) \<longleftrightarrow> True"
| "membership_ok m MPS_Empty \<longleftrightarrow> True"

lemma membership_restores:
  assumes "membership_ok m ms"
  shows "\<exists>snap. membership_export_snapshot ms = Some snap \<and> membership_from_snapshot snap m = Inr ms"
proof (cases ms)
  case (MPS_TreeKem tree pp)
  note ok = assms [unfolded MPS_TreeKem, simplified]
  have wf: "tree_wf tree" and m: "pt_mode tree = m" using ok by simp_all
  have cap: "leaf_capacity_for_mode m = Inr (leaf_capacity tree)" and len: "length (nodes tree) = 2 * unat (leaf_capacity tree)"
    and idx: "\<And>i. i < length (nodes tree) \<Longrightarrow> unat (node_index (nodes tree ! i)) = i"
    using wf m by (simp_all add: tree_wf_def)
  have small: "unat (leaf_capacity tree) \<le> 8192" by (rule tree_wf_capacity(4) [OF wf])
  then have "unat (leaf_capacity tree * 2) = unat (leaf_capacity tree) * 2"
    by (subst unat_mult_lem [THEN iffD1]) simp_all
  then obtain z where twice: "checked_mul_u32 (leaf_capacity tree) 2 = Some z" "unat z = length (nodes tree)"
    using small by (simp add: checked_mul_u32_def len)
  have "leaf_node_index m 0 = Inr (word_of_nat (2 ^ tree_depth m))"
    using tree_wf_capacity(1) [OF wf] m by (cases m) (simp_all add: leaf_node_index_iff)
  then obtain d where d: "direct_path m 0 = Inr d" and dl: "length d = Suc (tree_depth m)"
    using direct_path_closed direct_pathD by metis
  have shape: "\<not> list_ex (\<lambda>(i, n). unat (node_index n) \<noteq> i) (enumerate 0 (nodes tree))"
    using idx by (auto simp: list_ex_iff in_set_enumerate_eq)
  have again: "map ((\<lambda>n. \<lparr>pn_node_index = pns_node_index n, path_secret = pns_path_secret n,
        node_seed_d = pns_node_seed_d n, node_seed_z = pns_node_seed_z n\<rparr>) \<circ>
      (\<lambda>n. \<lparr>pns_node_index = pn_node_index n, path_secret = path_secret n,
        pns_node_seed_d = node_seed_d n, pns_node_seed_z = node_seed_z n\<rparr>)) (path pp) = path pp"
    by (simp add: map_idI)
  show ?thesis
    using ok cap twice d dl shape again
    by (auto simp: MPS_TreeKem ensure_def ok_or_def comp_def not_le split: option.split)
qed simp_all

definition snapshot_ok :: "CryptoPrims \<Rightarrow> GroupState \<Rightarrow> bool" where
  "snapshot_ok P s \<longleftrightarrow> public_ok P s \<and> membership_ok (gs_mode s) (gs_membership s) \<and>
     chains_ok (sender_skip_bound (gs_mode s)) (gs_sender_chains s) \<and> tags_ok (gs_sender_chains s) \<and>
     (\<exists>H. replay_tracks (gs_replay_state s) H) \<and>
     sc_sender ` set (chain_senders (gs_sender_chains s)) \<subseteq> allowed_senders (gs_mode s) (gs_roster s) \<and>
     sr_sender ` set (replay_senders (gs_replay_state s)) \<subseteq> allowed_senders (gs_mode s) (gs_roster s)"

lemma snapshot_ok_restores:
  assumes "snapshot_ok P s"
  shows "\<exists>snap. group_export_snapshot s = Inr snap \<and> group_from_snapshot snap = Inr s"
proof -
  have ok: "public_ok P s" "membership_ok (gs_mode s) (gs_membership s)"
    and chains: "chains_ok (sender_skip_bound (gs_mode s)) (gs_sender_chains s)"
      "sc_sender ` set (chain_senders (gs_sender_chains s)) \<subseteq> allowed_senders (gs_mode s) (gs_roster s)"
    and senders: "sr_sender ` set (replay_senders (gs_replay_state s)) \<subseteq> allowed_senders (gs_mode s) (gs_roster s)"
    using assms by (simp_all add: snapshot_ok_def)
  obtain H where H: "replay_tracks (gs_replay_state s) H" using assms by (auto simp: snapshot_ok_def)
  have len: "length (gs_roster s) \<le> 8192"
    using ok(1) max_roster_entries_bound [of "gs_mode s"]
    by (cases "gs_roster s = []") (auto simp: public_ok_def roster_valid_def roster_shape_def)
  obtain snap where snap: "membership_export_snapshot (gs_membership s) = Some snap"
      "membership_from_snapshot snap (gs_mode s) = Inr (gs_membership s)"
    using membership_restores [OF ok(2)] by blast
  have "validate_governance_for_roster (gs_governance_policy s) (gs_roster s) = Inr () \<and>
      (\<exists>st. validate_roster_for_mode (gs_mode s) (gs_epoch s) (gs_roster s) = Inr st)" if "gs_roster s \<noteq> []"
    using ok(1) that validate_governance_for_roster_iff [OF roster_valid_distinct, of "gs_mode s" "gs_epoch s"]
    by (auto simp: public_ok_def governed_def validate_roster_for_mode_iff)
  then show ?thesis
    using ok(1) snap chains_snapshot_restores [OF chains(1) len chains(2)] replay_snapshot_restores [OF H len senders]
    by (cases s) (auto simp: group_export_snapshot_def group_from_snapshot_def ok_or_def validate_mode_mechanism_def public_ok_def)
qed

text \<open>Calls that only exchange messages keep a group restorable.\<close>

fun is_messaging :: "GroupCall \<Rightarrow> bool" where
  "is_messaging (GCall_Seal _ _) = True"
| "is_messaging (GCall_SealSigned _ _ _ _) = True"
| "is_messaging (GCall_NextStep _) = True"
| "is_messaging (GCall_Open _) = True"
| "is_messaging (GCall_OpenSigned _ _) = True"
| "is_messaging _ = False"

definition run_group_calls :: "CryptoPrims \<Rightarrow> GroupCall list \<Rightarrow> GroupState \<Rightarrow> GroupState" where
  "run_group_calls P cs s = fold (\<lambda>c s. snd (run_group_call P c s)) cs s"

lemma snapshot_ok_chains:
  "snapshot_ok P s \<Longrightarrow> chains_ok (sender_skip_bound (gs_mode s)) ch \<Longrightarrow> tags_ok ch \<Longrightarrow>
   map sc_sender (chain_senders ch) = map sc_sender (chain_senders (gs_sender_chains s)) \<Longrightarrow>
   \<exists>H. replay_tracks rep H \<Longrightarrow> map sr_sender (replay_senders rep) = map sr_sender (replay_senders (gs_replay_state s)) \<Longrightarrow>
   snapshot_ok P (s\<lparr>gs_sender_chains := ch, gs_replay_state := rep\<rparr>)"
  by (simp add: snapshot_ok_def public_ok_def) (metis list.set_map)

lemma took_step_snapshot_ok:
  assumes ok: "snapshot_ok P s" and took: "took_step P m s step s'"
  shows "snapshot_ok P s'"
proof -
  obtain ch where run: "next_send_step P (epoch_key_context s) m (gs_sender_chains s) = (Inr step, ch)"
    and s': "s' = s\<lparr>gs_sender_chains := ch\<rparr>"
    using took by (auto simp: took_step_def)
  have chains: "chains_ok (sender_skip_bound (gs_mode s)) (gs_sender_chains s)" "tags_ok (gs_sender_chains s)"
    and rep: "\<exists>H. replay_tracks (gs_replay_state s) H"
    using ok by (simp_all add: snapshot_ok_def)
  note eff = next_send_step_effect(1) [OF chains(1) run] next_send_step_tags [OF run chains(2)]
    next_send_step_effect(3) [OF chains(1) run]
  show ?thesis using snapshot_ok_chains [OF ok eff rep] by (simp add: s')
qed

lemma messaging_no_step:
  "is_messaging c \<Longrightarrow> run_group_call P c s \<noteq> (Inr NoStep, s')"
  by (cases c) (auto simp: gwrap_Inr_iff)

lemma messaging_snapshot_ok:
  assumes P: "hash_ok P" and ok: "snapshot_ok P s" and msg: "is_messaging c"
  shows "snapshot_ok P (snd (run_group_call P c s))"
proof -
  obtain r s' where run: "run_group_call P c s = (r, s')" by fastforce
  from group_call_effect [OF run] have "snapshot_ok P s'"
  proof cases
    case effect_refused
    then show ?thesis using ok by simp
  next
    case (effect_lost m step e)
    then show ?thesis using took_step_snapshot_ok [OF ok] by blast
  next
    case (effect_stepped m step)
    then show ?thesis using took_step_snapshot_ok [OF ok] by blast
  next
    case (effect_opened env header vk res bs rep ch)
    have chains: "chains_ok (sender_skip_bound (gs_mode s)) (gs_sender_chains s)" "tags_ok (gs_sender_chains s)"
      using ok by (simp_all add: snapshot_ok_def)
    obtain H where H: "replay_tracks (gs_replay_state s) H" using ok by (auto simp: snapshot_ok_def)
    have rtags: "resolution_tags_ok res" by (rule opened_tags [OF P chains(2) effect_opened(5)])
    have b: "unat (group_skip_bound (gs_mode s)) \<le> sender_skip_bound (gs_mode s)" by (simp add: group_skip_bound_eq)
    note eff = commit_resolution_effect(1) [OF chains(1) effect_opened(6,7,8) b]
      commit_resolution_tags [OF effect_opened(6,7,8) chains(2) rtags]
      commit_resolution_effect(3) [OF chains(1) effect_opened(6,7,8) b]
    note rep = mark_accepted_tracks(2,3) [OF H resolution_tag_length [OF rtags] effect_opened(9)]
    show ?thesis
      unfolding effect_opened(2) by (rule snapshot_ok_chains [OF ok eff]) (use rep in blast)+
  qed (use run messaging_no_step [OF msg] in simp_all)
  with run show ?thesis by simp
qed

lemma run_messaging_ok:
  "hash_ok P \<Longrightarrow> snapshot_ok P s \<Longrightarrow> list_all is_messaging cs \<Longrightarrow> snapshot_ok P (run_group_calls P cs s)"
  unfolding run_group_calls_def by (induction cs arbitrary: s) (simp_all add: messaging_snapshot_ok)

lemma install_epoch_snapshot_ok:
  assumes run: "install_epoch_sender_chains P k s0 = (Inr u, s)" and pub: "public_ok P s0"
    and mem: "membership_ok (gs_mode s0) (gs_membership s0)"
  shows "snapshot_ok P s"
proof -
  note inst = install_epoch_private [OF run]
  have same: "public_ok P s \<longleftrightarrow> public_ok P s0" "gs_mode s = gs_mode s0" "gs_membership s = gs_membership s0"
    by (subst inst(5), simp add: public_ok_def)+
  have "sc_sender ` set (chain_senders (gs_sender_chains s)) = allowed_senders (gs_mode s) (gs_roster s)"
    by (rule install_epoch_unused(4) [OF run])
  then show ?thesis
    using inst(1-4) pub mem by (auto simp: snapshot_ok_def same)
qed

lemma group_reachable_inv:
  assumes P: "crypto_ok P" and "group_reachable P s"
  shows "group_inv P s"
  using assms(2)
proof induction
  case (reach_call s c r s')
  have "hash_ok P" using P by (simp add: crypto_ok_def)
  then show ?case using effect_inv reach_call group_call_effect by blast
next
  case (reach_commit s s0 plan pc r s')
  then show ?case using install_commit_inv [OF P] prepare_commit_ok by blast
next
  case (reach_apply s s0 plan pc r s')
  then show ?case using apply_commit_inv [OF P] prepare_commit_ok by blast
qed (use group_new_inv install_epoch_inv in blast)+

definition toy_empty :: GroupState where
  "toy_empty = toy_group\<lparr>gs_roster := []\<rparr>"

lemma toy_empty_reachable: "group_reachable toy_prims toy_empty"
  by (rule reach_empty [of "replicate 32 9" GM_Lite DirectWrap toy_policy "\<lparr>mode_policy_bytes = replicate 12 0\<rparr>"])
    (simp_all add: group_new_empty_def toy_empty_def toy_group_def validate_mode_mechanism_def)

lemma toy_consistent:
  "\<exists>h s. public_ok toy_prims (toy_group\<lparr>gs_roster_hash := h\<rparr>) \<and>
     install_epoch_sender_chains toy_prims (replicate 32 5) (toy_group\<lparr>gs_roster_hash := h\<rparr>) = (Inr (), s)"
proof -
  have valid: "roster_valid GM_Lite 0 toy_roster" by (rule toy_roster_valid)
  obtain b where b: "encode_roster GM_Lite toy_roster = Inr b"
    using valid by (simp add: encode_roster_Inr_iff roster_valid_def)
  have "length b \<le> u32_max"
    using b by (auto simp: encode_roster_Inr_iff toy_roster_def length_concat sort_key_def toy_member_def
      length_encode_roster_entry entry_ok_def u32_max_def)
  then obtain h where h: "compute_roster_hash toy_prims GM_Lite toy_roster = Inr h"
    using hash512_lp_total b by (fastforce simp: compute_roster_hash_def roster_hash_def)
  then have "length h = 64"
    using hash512_lp_length [of toy_prims] toy_crypto_ok by (auto simp: compute_roster_hash_def roster_hash_def crypto_ok_def rbind_Inr_iff)
  have gov: "governed toy_policy toy_roster"
    by (simp add: governed_def governance_valid_def toy_policy_def active_member_def toy_roster_def toy_member_def is_active_def)
  let ?s = "toy_group\<lparr>gs_roster_hash := h\<rparr>"
  have "public_ok toy_prims ?s"
    using valid gov h by (simp add: public_ok_def toy_group_def)
  moreover have "\<exists>s. install_epoch_sender_chains toy_prims (replicate 32 5) ?s = (Inr (), s)"
    by (rule install_epoch_total)
      (use toy_crypto_ok toy_roster_ok valid \<open>length h = 64\<close> in
        \<open>simp_all add: toy_group_def crypto_ok_def epoch_context_ok_def epoch_key_context_def\<close>)
  ultimately show ?thesis by blast
qed

section \<open>Properties\<close>

text \<open>C17: In every state a member can reach, from an empty or validated group through any calls, epoch
  installations and commits, in any order and whatever their outcome: the mechanism is the one of the
  mode; a non-empty roster is valid, contains every governance signer as an active member, and hashes to
  the stored roster hash; no sender has two cursors and no message two stored keys, at most 256 per
  sender; the replay windows represent one set of accepted messages; and a group that is not active holds
  no membership secrets, no chains and no replay state.\<close>

theorem group_reachable_invariant:
  assumes "crypto_ok P" and "group_reachable P s"
  shows "group_inv P s"
  using assms by (rule group_reachable_inv)

theorem group_reachable_invariant_witness:
  "gs_phase toy_empty = GP_Active \<and> (\<forall>c. group_inv toy_prims (snd (run_group_call toy_prims c toy_empty)))"
proof -
  have "group_inv toy_prims (snd (run_group_call toy_prims c toy_empty))" for c
    by (rule group_reachable_invariant [OF toy_crypto_ok reach_call [OF toy_empty_reachable surjective_pairing]])
  then show ?thesis by (simp add: toy_empty_def toy_group_def)
qed

text \<open>C22: A closed or forked group stays so for good: it holds no private state, no call takes a message
  step, no epoch and no commit can be installed, and only the name of its phase can still change between
  closed and forked.\<close>

theorem group_terminal_absorbing:
  assumes P: "crypto_ok P" and reach: "group_reachable P s" and dead: "gs_phase s \<noteq> GP_Active"
  shows "(\<forall>c r s'. run_group_call P c s = (r, s') \<longrightarrow>
        gs_phase s' \<noteq> GP_Active \<and> wiped s' \<and> (\<forall>m i. r \<noteq> Inr (UsedStep m i))) \<and>
     (\<forall>k. install_epoch_sender_chains P k s = (Inl GE_InvalidState, s)) \<and>
     (\<forall>pc. install_prepared_commit P pc s = (Inl GE_InvalidState, s)) \<and>
     (\<forall>pc. apply_prepared_commit P pc s = (Inl GE_InvalidState, s))"
proof (intro conjI allI impI)
  have wiped: "wiped s"
    using group_reachable_inv [OF P reach] dead by (simp add: group_inv_def)
  show "gs_phase s' \<noteq> GP_Active" "wiped s'" "r \<noteq> Inr (UsedStep m i)"
    if "run_group_call P c s = (r, s')" for c r s' m i
    using group_call_effect [OF that] dead wiped
    by (cases; auto simp: took_step_def require_sender_def require_active_def is_ok_def quiet_step_def wiped_def)+
  show "install_epoch_sender_chains P k s = (Inl GE_InvalidState, s)" for k
    using dead by (simp add: install_epoch_sender_chains_def require_active_def st_bind_def st_lift_def)
  show "install_prepared_commit P pc s = (Inl GE_InvalidState, s)" for pc
    by (rule install_inactive [OF dead])
  show "apply_prepared_commit P pc s = (Inl GE_InvalidState, s)" for pc
    using dead by (simp add: apply_prepared_commit_def Let_def require_active_def st_bind_def st_lift_def)
qed

theorem group_terminal_absorbing_witness:
  "\<exists>s. run_group_call toy_prims GCall_Close toy_empty = (Inr NoStep, s) \<and>
     (\<forall>c. gs_phase (snd (run_group_call toy_prims c s)) \<noteq> GP_Active) \<and>
     install_epoch_sender_chains toy_prims (replicate 32 5) s = (Inl GE_InvalidState, s)"
proof -
  obtain s where s: "run_group_call toy_prims GCall_Close toy_empty = (Inr NoStep, s)" "gs_phase s \<noteq> GP_Active"
    by (auto simp: gwrap_def st_modify_def st_bind_def st_lift_def group_close_def)
  have "group_reachable toy_prims s" by (rule reach_call [OF toy_empty_reachable s(1)])
  note gone = group_terminal_absorbing [OF toy_crypto_ok this s(2)]
  have "gs_phase (snd (run_group_call toy_prims c s)) \<noteq> GP_Active" for c
    using gone by (cases "run_group_call toy_prims c s") auto
  with s(1) gone show ?thesis by blast
qed

text \<open>C20: From a consistent group, the installation of an epoch and any number of sealed, opened or
  rejected messages leave a state whose snapshot can be exported, and importing that snapshot gives
  back exactly the same state: public state, membership secrets, every cursor, every stored message
  key, the replay windows and the accepted messages.\<close>

theorem group_snapshot_restores:
  assumes "crypto_ok P" and "install_epoch_sender_chains P k s0 = (Inr u, s)"
    and "public_ok P s0" and "membership_ok (gs_mode s0) (gs_membership s0)" and "list_all is_messaging cs"
  shows "\<exists>snap. group_export_snapshot (run_group_calls P cs s) = Inr snap \<and>
    group_from_snapshot snap = Inr (run_group_calls P cs s)"
  using snapshot_ok_restores [OF run_messaging_ok [OF _ install_epoch_snapshot_ok [OF assms(2-4)] assms(5)]] assms(1)
  by (simp add: crypto_ok_def)

theorem group_snapshot_restores_witness:
  "\<exists>h s snap. install_epoch_sender_chains toy_prims (replicate 32 5) (toy_group\<lparr>gs_roster_hash := h\<rparr>) = (Inr (), s) \<and>
     (let s' = run_group_calls toy_prims [GCall_NextStep (replicate 32 1), GCall_Open [1, 2]] s in
      group_export_snapshot s' = Inr snap \<and> group_from_snapshot snap = Inr s')"
proof -
  obtain h s where pub: "public_ok toy_prims (toy_group\<lparr>gs_roster_hash := h\<rparr>)"
    and s: "install_epoch_sender_chains toy_prims (replicate 32 5) (toy_group\<lparr>gs_roster_hash := h\<rparr>) = (Inr (), s)"
    using toy_consistent by blast
  have mem: "membership_ok (gs_mode (toy_group\<lparr>gs_roster_hash := h\<rparr>)) (gs_membership (toy_group\<lparr>gs_roster_hash := h\<rparr>))"
    by (simp add: toy_group_def)
  have "list_all is_messaging [GCall_NextStep (replicate 32 1), GCall_Open [1, 2]]" by simp
  from group_snapshot_restores [OF toy_crypto_ok s pub mem this] s show ?thesis by (auto simp: Let_def)
qed

end
