(* ===== verification/Msg_Util.thy ===== *)
theory Msg_Util
  imports Core_Types
begin

text \<open>
  The ground of \<open>hydra-msg\<close>: its error type (\<open>lib.rs\<close>), the resource limits (\<open>limits.rs\<close>), and the byte reader,
  the array and the hexadecimal helpers of \<open>codec/util.rs\<close>. The interface \<open>reader_codec\<close> states what a parser
  promises: it reads back what was written and accepts nothing else. The lemmas are the laws that build such
  parsers from smaller ones, and the round trips of the hexadecimal form.
\<close>

section \<open>Errors and limits\<close>

datatype HydraMsgError =
    HE_Io string
  | HE_EntropyUnavailable
  | HE_InvalidInput string
  | HE_InvalidEncoding string
  | HE_InvalidPassword
  | HE_IdentityNotFound
  | HE_ContactNotFound
  | HE_SessionNotFound
  | HE_SessionRefreshRequired
  | HE_StateRollbackDetected
  | HE_LobbyNotFound
  | HE_MessageNotFound
  | HE_Unsupported string
  | HE_Crypto string
  | HE_Session string

type_synonym 'a HydraResult = "HydraMsgError + 'a"

definition MAX_STATE_SNAPSHOT_BYTES :: nat where "MAX_STATE_SNAPSHOT_BYTES = 64 * 1024 * 1024"
definition MAX_MESSAGES :: nat where "MAX_MESSAGES = 100000"
definition MAX_MESSAGES_PER_CONTACT :: nat where "MAX_MESSAGES_PER_CONTACT = 10000"
definition MAX_MESSAGE_IMPORT_BYTES :: nat where "MAX_MESSAGE_IMPORT_BYTES = MAX_STATE_SNAPSHOT_BYTES"
definition MAX_LABEL_BYTES :: nat where "MAX_LABEL_BYTES = 256"
definition MAX_ATTACHMENT_FILENAME_BYTES :: nat where "MAX_ATTACHMENT_FILENAME_BYTES = 255"
definition MAX_MESSAGE_PLAINTEXT_BYTES :: nat where "MAX_MESSAGE_PLAINTEXT_BYTES = 4 * 1024 * 1024"
definition MAX_ATTACHMENTS_PER_MESSAGE :: nat where "MAX_ATTACHMENTS_PER_MESSAGE = 16"
definition MAX_ATTACHMENT_BYTES :: nat where "MAX_ATTACHMENT_BYTES = 16 * 1024 * 1024"
definition MAX_PACKED_MESSAGE_BYTES :: nat where "MAX_PACKED_MESSAGE_BYTES = 32 * 1024 * 1024"
definition MAX_FRAGMENTED_PAYLOAD_BYTES :: nat where
  "MAX_FRAGMENTED_PAYLOAD_BYTES = MAX_PACKED_MESSAGE_BYTES + 64 * 1024"
definition MAX_STORED_MESSAGE_BYTES :: nat where "MAX_STORED_MESSAGE_BYTES = 256 * 1024 * 1024"
definition MAX_STORED_MESSAGE_BYTES_PER_CONTACT :: nat where
  "MAX_STORED_MESSAGE_BYTES_PER_CONTACT = 64 * 1024 * 1024"
definition MAX_FRAGMENTS_PER_MESSAGE :: nat where "MAX_FRAGMENTS_PER_MESSAGE = 16384"
definition MAX_PENDING_FRAGMENTS :: nat where "MAX_PENDING_FRAGMENTS = 16384"
definition MAX_INCOMPLETE_MESSAGES :: nat where "MAX_INCOMPLETE_MESSAGES = 128"
definition MAX_INCOMPLETE_MESSAGES_PER_CONTACT :: nat where "MAX_INCOMPLETE_MESSAGES_PER_CONTACT = 8"
definition MAX_INCOMPLETE_MESSAGES_PER_LOBBY :: nat where "MAX_INCOMPLETE_MESSAGES_PER_LOBBY = 8"
definition MAX_PENDING_FRAGMENT_BYTES :: nat where "MAX_PENDING_FRAGMENT_BYTES = 64 * 1024 * 1024"
definition MAX_FRAGMENT_AGE_SECS :: nat where "MAX_FRAGMENT_AGE_SECS = 10 * 60"

lemmas message_limits [simp] = MAX_MESSAGE_PLAINTEXT_BYTES_def MAX_ATTACHMENTS_PER_MESSAGE_def
  MAX_ATTACHMENT_BYTES_def MAX_ATTACHMENT_FILENAME_BYTES_def MAX_PACKED_MESSAGE_BYTES_def
lemmas store_limits = MAX_MESSAGES_def MAX_MESSAGES_PER_CONTACT_def MAX_STORED_MESSAGE_BYTES_def
  MAX_STORED_MESSAGE_BYTES_PER_CONTACT_def
lemmas fragment_limits = MAX_FRAGMENTED_PAYLOAD_BYTES_def MAX_FRAGMENTS_PER_MESSAGE_def MAX_PENDING_FRAGMENTS_def
  MAX_INCOMPLETE_MESSAGES_def MAX_INCOMPLETE_MESSAGES_PER_CONTACT_def MAX_INCOMPLETE_MESSAGES_PER_LOBBY_def
  MAX_PENDING_FRAGMENT_BYTES_def

definition reject_input_size :: "nat \<Rightarrow> nat \<Rightarrow> string \<Rightarrow> unit HydraResult" where
  "reject_input_size len mx description = ensure (\<not> mx < len) (HE_InvalidInput description)"

definition reject_encoded_size :: "nat \<Rightarrow> nat \<Rightarrow> string \<Rightarrow> unit HydraResult" where
  "reject_encoded_size len mx description = ensure (\<not> mx < len) (HE_InvalidEncoding description)"

definition reject_collection_growth :: "nat \<Rightarrow> nat \<Rightarrow> nat \<Rightarrow> string \<Rightarrow> unit HydraResult" where
  "reject_collection_growth current additional mx description =
     ensure (case checked_add_usize current additional of None \<Rightarrow> False | Some n \<Rightarrow> \<not> mx < n)
       (HE_InvalidInput description)"

definition reject_decoded_collection_growth :: "nat \<Rightarrow> nat \<Rightarrow> nat \<Rightarrow> string \<Rightarrow> unit HydraResult" where
  "reject_decoded_collection_growth current additional mx description =
     ensure (case checked_add_usize current additional of None \<Rightarrow> False | Some n \<Rightarrow> \<not> mx < n)
       (HE_InvalidEncoding description)"

lemma reject_Inr_iff [result_simps]:
  "reject_input_size len mx d = Inr u \<longleftrightarrow> len \<le> mx"
  "reject_encoded_size len mx d = Inr u \<longleftrightarrow> len \<le> mx"
  by (simp_all add: reject_input_size_def reject_encoded_size_def result_simps not_less)

lemma reject_growth_Inr_iff [result_simps]:
  "mx \<le> usize_max \<Longrightarrow> reject_collection_growth a b mx d = Inr u \<longleftrightarrow> a + b \<le> mx"
  "mx \<le> usize_max \<Longrightarrow> reject_decoded_collection_growth a b mx d = Inr u \<longleftrightarrow> a + b \<le> mx"
  by (auto simp: reject_collection_growth_def reject_decoded_collection_growth_def result_simps checked_add_usize_def)

section \<open>The byte reader\<close>

record BytesReader =
  rd_bytes :: bytes
  rd_offset :: nat

type_synonym 'a reader = "(BytesReader, HydraMsgError, 'a) st"

definition BytesReader_new :: "bytes \<Rightarrow> BytesReader" where
  "BytesReader_new bs = \<lparr>rd_bytes = bs, rd_offset = 0\<rparr>"

definition reader_read :: "nat \<Rightarrow> bytes reader" where
  "reader_read len r =
     st_bind (st_lift (
       rbind (ok_or (checked_add_usize (rd_offset r) len) (HE_InvalidEncoding ''length overflow'')) (\<lambda>end.
       rbind (ensure (\<not> length (rd_bytes r) < end) (HE_InvalidEncoding ''truncated payload'')) (\<lambda>_.
         Inr end)))) (\<lambda>end.
     st_bind (st_modify (\<lambda>r. r\<lparr>rd_offset := end\<rparr>)) (\<lambda>_.
       st_lift (Inr (slice (rd_offset r) end (rd_bytes r))))) r"

definition reader_expect :: "bytes \<Rightarrow> unit reader" where
  "reader_expect expected =
     st_bind (reader_read (length expected)) (\<lambda>got.
       st_lift (ensure (got = expected) (HE_InvalidEncoding ''payload magic'')))"

definition exact_array_from_vec :: "nat \<Rightarrow> bytes \<Rightarrow> bytes HydraResult" where
  "exact_array_from_vec n bs = rbind (ensure (length bs = n) (HE_InvalidEncoding ''array length'')) (\<lambda>_. Inr bs)"

definition read_vec :: "nat \<Rightarrow> bytes reader" where
  "read_vec len = reader_read len"

definition read_u8 :: "u8 reader" where
  "read_u8 = st_bind (reader_read 1) (\<lambda>bs.
     st_lift (case bs of [] \<Rightarrow> Inl (HE_InvalidEncoding ''u8'') | b # _ \<Rightarrow> Inr b))"

definition read_u32 :: "u32 reader" where
  "read_u32 = st_bind (reader_read 4) (\<lambda>bs.
     st_lift (rbind (exact_array_from_vec 4 bs) (\<lambda>bs. Inr (be_word bs))))"

definition read_u64 :: "u64 reader" where
  "read_u64 = st_bind (reader_read 8) (\<lambda>bs.
     st_lift (rbind (exact_array_from_vec 8 bs) (\<lambda>bs. Inr (be_word bs))))"

definition is_finished :: "BytesReader \<Rightarrow> bool" where
  "is_finished r \<longleftrightarrow> rd_offset r = length (rd_bytes r)"

definition read_array :: "nat \<Rightarrow> bytes reader" where
  "read_array n = st_bind (reader_read n) (\<lambda>bs. st_lift (exact_array_from_vec n bs))"

definition random_array :: "(nat \<Rightarrow> bytes option) \<Rightarrow> nat \<Rightarrow> bytes HydraResult" where
  "random_array rng n = ok_or (rng n) HE_EntropyUnavailable"

text \<open>
  What a reader promises about a form \<open>enc\<close> of its values: it reads the form of every good value wherever it
  stands in the buffer and moves behind it, and whatever it reads is good and stood there in that form.
\<close>

definition reader_at :: "bytes \<Rightarrow> bytes \<Rightarrow> BytesReader" where
  "reader_at pre rest = \<lparr>rd_bytes = pre @ rest, rd_offset = length pre\<rparr>"

locale reader_codec =
  fixes p :: "'a reader" and enc :: "'a \<Rightarrow> bytes" and wf :: "'a \<Rightarrow> bool"
  assumes reads: "wf v \<Longrightarrow> length (pre @ enc v @ rest) \<le> usize_max \<Longrightarrow>
      p (reader_at pre (enc v @ rest)) = (Inr v, reader_at (pre @ enc v) rest)"
    and reads_only: "p (reader_at pre bs) = (Inr v, r) \<Longrightarrow>
      wf v \<and> (\<exists>rest. bs = enc v @ rest \<and> r = reader_at (pre @ enc v) rest)"
begin

lemma reads_whole:
  assumes "wf v" and "length (enc v) \<le> usize_max"
  shows "p (BytesReader_new (enc v)) = (Inr v, reader_at (enc v) [])"
  using reads [OF assms(1), of "[]" "[]"] assms(2) by (simp add: reader_at_def BytesReader_new_def)

lemma reads_whole_iff:
  assumes "length bs \<le> usize_max"
  shows "(\<exists>r. p (BytesReader_new bs) = (Inr v, r) \<and> is_finished r) \<longleftrightarrow> wf v \<and> bs = enc v"
proof
  assume "\<exists>r. p (BytesReader_new bs) = (Inr v, r) \<and> is_finished r"
  then show "wf v \<and> bs = enc v"
    using reads_only [of "[]" bs v] by (auto simp: reader_at_def BytesReader_new_def is_finished_def)
next
  assume "wf v \<and> bs = enc v"
  then show "\<exists>r. p (BytesReader_new bs) = (Inr v, r) \<and> is_finished r"
    using reads_whole [of v] assms by (auto simp: reader_at_def is_finished_def)
qed

end

lemma reader_at_simps [simp]:
  "rd_bytes (reader_at pre rest) = pre @ rest" "rd_offset (reader_at pre rest) = length pre"
  by (simp_all add: reader_at_def)

lemma is_finished_at [simp]: "is_finished (reader_at pre rest) \<longleftrightarrow> rest = []"
  by (simp add: is_finished_def)

lemma fst_st_bind_Inr_iff:
  "fst (st_bind p f s) = Inr v \<longleftrightarrow> (\<exists>x t. p s = (Inr x, t) \<and> fst (f x t) = Inr v)"
  by (simp add: st_bind_def split: prod.split sum.split)

lemma reader_read_at:
  assumes "length (pre @ xs @ rest) \<le> usize_max"
  shows "reader_read (length xs) (reader_at pre (xs @ rest)) = (Inr xs, reader_at (pre @ xs) rest)"
  using assms
  by (simp add: reader_read_def reader_at_def checked_add_usize_def st_bind_def st_lift_def st_modify_def slice_def)

lemma reader_read_only:
  assumes "reader_read n (reader_at pre bs) = (Inr xs, r)"
  shows "length xs = n \<and> (\<exists>rest. bs = xs @ rest \<and> r = reader_at (pre @ xs) rest)"
proof -
  have n: "n \<le> length bs" and xs: "xs = take n bs" and r: "r = (reader_at pre bs)\<lparr>rd_offset := length pre + n\<rparr>"
    using assms by (auto simp: reader_read_def result_simps checked_add_usize_def slice_def split: if_splits)
  show ?thesis
    using n by (intro conjI exI [of _ "drop n bs"]) (simp_all add: xs r reader_at_def)
qed

lemma reader_codec_read: "reader_codec (reader_read n) (\<lambda>bs. bs) (\<lambda>bs. length bs = n)"
  by unfold_locales (use reader_read_at reader_read_only in fastforce)+

text \<open>The laws by which the code composes its parsers.\<close>

lemma reader_codec_cong:
  assumes "reader_codec p e w" and "\<And>v. w' v \<longleftrightarrow> w v" and "\<And>v. w v \<Longrightarrow> e' v = e v"
  shows "reader_codec p e' w'"
proof -
  note reads = reader_codec.reads [OF assms(1)] and only = reader_codec.reads_only [OF assms(1)]
  show ?thesis
    by unfold_locales (use reads only assms(2,3) in fastforce)+
qed

lemma reader_codec_bind:
  assumes p: "reader_codec p ea wa" and q: "\<And>v. wa v \<Longrightarrow> reader_codec (q v) (eb v) (\<lambda>c. f c = v \<and> w c)"
    and w: "\<And>c. w c \<Longrightarrow> wa (f c)"
  shows "reader_codec (st_bind p q) (\<lambda>c. ea (f c) @ eb (f c) c) w"
proof -
  note reads = reader_codec.reads and only = reader_codec.reads_only
  show ?thesis
  proof
    fix c pre rest assume c: "w c" and len: "length (pre @ (ea (f c) @ eb (f c) c) @ rest) \<le> usize_max"
    have "p (reader_at pre (ea (f c) @ eb (f c) c @ rest)) = (Inr (f c), reader_at (pre @ ea (f c)) (eb (f c) c @ rest))"
      using reads [OF p w [OF c], of pre "eb (f c) c @ rest"] len by simp
    moreover have "q (f c) (reader_at (pre @ ea (f c)) (eb (f c) c @ rest)) =
        (Inr c, reader_at (pre @ ea (f c) @ eb (f c) c) rest)"
      using reads [OF q [OF w [OF c]], of c "pre @ ea (f c)" rest] c len by simp
    ultimately show "st_bind p q (reader_at pre ((ea (f c) @ eb (f c) c) @ rest)) =
        (Inr c, reader_at (pre @ ea (f c) @ eb (f c) c) rest)"
      by simp
  next
    fix pre bs c r assume "st_bind p q (reader_at pre bs) = (Inr c, r)"
    then obtain v t where v: "p (reader_at pre bs) = (Inr v, t)" and c: "q v t = (Inr c, r)"
      by (auto simp: result_simps)
    from only [OF p v] obtain bs' where wv: "wa v" and bs: "bs = ea v @ bs'" and t: "t = reader_at (pre @ ea v) bs'"
      by blast
    from only [OF q [OF wv] c [unfolded t]] obtain rest where "f c = v" "w c" "bs' = eb v c @ rest"
        "r = reader_at ((pre @ ea v) @ eb v c) rest"
      by blast
    then show "w c \<and> (\<exists>rest. bs = (ea (f c) @ eb (f c) c) @ rest \<and> r = reader_at (pre @ ea (f c) @ eb (f c) c) rest)"
      using bs by auto
  qed
qed

lemma reader_codec_seq:
  assumes "reader_codec p ea wa" and "\<And>v. wa v \<Longrightarrow> reader_codec (q v) (eb v) (wb v)"
    and "\<And>v c. wa v \<Longrightarrow> wb v c \<Longrightarrow> f c = v"
    and "\<And>c. w c \<longleftrightarrow> wa (f c) \<and> wb (f c) c" and "\<And>c. w c \<Longrightarrow> e c = ea (f c) @ eb (f c) c"
  shows "reader_codec (st_bind p q) e w"
proof (rule reader_codec_cong [OF reader_codec_bind [OF assms(1), where f = f and eb = eb and w = w]])
  show "reader_codec (q v) (eb v) (\<lambda>c. f c = v \<and> w c)" if v: "wa v" for v
    by (rule reader_codec_cong [OF assms(2) [OF v]]) (use assms(3,4) v in blast)+
qed (use assms(4,5) in blast)+

lemma reader_codec_comp:
  assumes "reader_codec p ea wa" and "\<And>v. wa v \<Longrightarrow> reader_codec (q v) (eb v) (wb v)"
    and "\<And>v c. wa v \<Longrightarrow> wb v c \<Longrightarrow> f c = v"
  shows "reader_codec (st_bind p q) (\<lambda>c. ea (f c) @ eb (f c) c) (\<lambda>c. wa (f c) \<and> wb (f c) c)"
  by (rule reader_codec_seq [OF assms]) simp_all

lemma reader_codec_end:
  assumes "\<And>c. w c \<longleftrightarrow> r = Inr c" and "\<And>c. w c \<Longrightarrow> e c = []"
  shows "reader_codec (st_lift r) e w"
  by unfold_locales (auto simp: st_lift_def assms)

lemma reader_codec_map:
  assumes "reader_codec p ea wa" and "\<And>v c. wa v \<Longrightarrow> g v = Inr c \<longleftrightarrow> f c = v \<and> w c" and "\<And>c. w c \<Longrightarrow> wa (f c)"
  shows "reader_codec (st_bind p (\<lambda>v. st_lift (g v))) (\<lambda>c. ea (f c)) w"
  by (rule reader_codec_seq [OF assms(1), where f = f and wb = "\<lambda>v c. f c = v \<and> w c"])
    (rule reader_codec_end, use assms(2,3) in auto)

lemma reader_codec_ensure:
  assumes "b \<Longrightarrow> reader_codec q e w"
  shows "reader_codec (st_bind (st_lift (ensure b err)) (\<lambda>_. q)) e (\<lambda>c. b \<and> w c)"
proof (cases b)
  case True
  show ?thesis
    using reader_codec.reads [OF assms [OF True]] reader_codec.reads_only [OF assms [OF True]] True by unfold_locales (auto simp: st_bind_def st_lift_def)
qed (unfold_locales, auto simp: st_bind_def st_lift_def)

lemma reader_codec_when:
  assumes "\<And>v. r = Inr v \<Longrightarrow> reader_codec (q v) e w" and "\<And>x c. r = Inl x \<Longrightarrow> \<not> w c"
  shows "reader_codec (st_bind (st_lift r) q) e w"
proof (cases r)
  case (Inl x)
  then show ?thesis using assms(2) by unfold_locales (auto simp: st_bind_def st_lift_def)
next
  case (Inr v)
  show ?thesis
    using reader_codec.reads [OF assms(1) [OF Inr]] reader_codec.reads_only [OF assms(1) [OF Inr]] Inr by unfold_locales (auto simp: st_bind_def st_lift_def)
qed

text \<open>\<open>for _ in 0..n { out.push(p) }\<close>\<close>

fun reader_repeat :: "nat \<Rightarrow> 'a reader \<Rightarrow> 'a list reader" where
  "reader_repeat 0 p = st_lift (Inr [])"
| "reader_repeat (Suc n) p = st_bind p (\<lambda>x. st_bind (reader_repeat n p) (\<lambda>xs. st_lift (Inr (x # xs))))"

lemma reader_codec_repeat:
  assumes p: "reader_codec p e w"
  shows "reader_codec (reader_repeat n p) (\<lambda>xs. concat (map e xs)) (\<lambda>xs. length xs = n \<and> list_all w xs)"
proof (induction n)
  case 0
  show ?case
    unfolding reader_repeat.simps by (rule reader_codec_end) auto
next
  case (Suc n)
  have tail: "reader_codec (st_bind (reader_repeat n p) (\<lambda>xs. st_lift (Inr (x # xs))))
      (\<lambda>c. concat (map e (tl c))) (\<lambda>c. c \<noteq> [] \<and> hd c = x \<and> length (tl c) = n \<and> list_all w (tl c))" for x
    by (rule reader_codec_map [OF Suc]) (auto simp: neq_Nil_conv)
  show ?case
    unfolding reader_repeat.simps
    by (rule reader_codec_seq [OF p tail, where f = hd]) (auto simp: length_Suc_conv neq_Nil_conv)
qed

lemma reader_codec_expect: "reader_codec (reader_expect magic) (\<lambda>_. magic) (\<lambda>_. True)"
  by unfold_locales
    (auto simp: reader_expect_def result_simps reader_codec.reads [OF reader_codec_read [of "length magic"]]
      dest!: reader_codec.reads_only [OF reader_codec_read [of "length magic"]])

lemma reader_codec_array: "reader_codec (read_array n) (\<lambda>bs. bs) (\<lambda>bs. length bs = n)"
  unfolding read_array_def
  by (rule reader_codec_map [OF reader_codec_read]) (auto simp: exact_array_from_vec_def)

lemma reader_codec_vec: "reader_codec (read_vec n) (\<lambda>bs. bs) (\<lambda>bs. length bs = n)"
  unfolding read_vec_def by (rule reader_codec_read)

lemma reader_codec_u8: "reader_codec read_u8 (\<lambda>b. [b]) (\<lambda>_. True)"
  unfolding read_u8_def
  by (rule reader_codec_map [OF reader_codec_read]) (auto simp: length_Suc_conv split: list.split)

lemma reader_codec_u32: "reader_codec read_u32 (be_bytes 4) (\<lambda>_. True)"
  unfolding read_u32_def
  by (rule reader_codec_map [OF reader_codec_read]) (auto simp: exact_array_from_vec_def be_bytes_be_word_u32)

lemma reader_codec_u64: "reader_codec read_u64 (be_bytes 8) (\<lambda>_. True)"
  unfolding read_u64_def
  by (rule reader_codec_map [OF reader_codec_read]) (auto simp: exact_array_from_vec_def be_bytes_be_word_u64)

interpretation u32_reader: reader_codec read_u32 "be_bytes 4" "\<lambda>_. True" by (rule reader_codec_u32)
interpretation u64_reader: reader_codec read_u64 "be_bytes 8" "\<lambda>_. True" by (rule reader_codec_u64)

section \<open>Hexadecimal text\<close>

text \<open>A Rust \<open>str\<close> is the list of its UTF-8 bytes.\<close>

definition HEX :: bytes where
  "HEX = ascii ''0123456789abcdef''"

fun hex_encode :: "bytes \<Rightarrow> bytes" where
  "hex_encode [] = []"
| "hex_encode (byte # bs) = HEX ! unat (drop_bit 4 byte) # HEX ! unat (byte AND 0x0F) # hex_encode bs"

definition hex_nibble :: "u8 \<Rightarrow> u8 HydraResult" where
  "hex_nibble byte =
     (if 48 \<le> byte \<and> byte \<le> 57 then Inr (byte - 48)
      else if 97 \<le> byte \<and> byte \<le> 102 then Inr (byte - 97 + 10)
      else if 65 \<le> byte \<and> byte \<le> 70 then Inr (byte - 65 + 10)
      else Inl (HE_InvalidEncoding ''hex character''))"

text \<open>\<open>str::trim\<close> removes the Unicode \<open>White_Space\<close> characters at both ends: their UTF-8 forms.\<close>

definition white_space :: "bytes list" where
  "white_space = map (\<lambda>b. [b]) [9, 10, 11, 12, 13, 32] @ [[0xC2, 0x85], [0xC2, 0xA0], [0xE1, 0x9A, 0x80]] @
     map (\<lambda>b. [0xE2, 0x80, b]) ([0x80, 0x81, 0x82, 0x83, 0x84, 0x85, 0x86, 0x87, 0x88, 0x89, 0x8A, 0xA8, 0xA9, 0xAF]) @
     [[0xE2, 0x81, 0x9F], [0xE3, 0x80, 0x80]]"

lemma white_space_nonempty: "w \<in> set white_space \<Longrightarrow> 0 < length w"
proof -
  have "list_all (\<lambda>w. 0 < length w) white_space" by (simp add: white_space_def)
  then show "w \<in> set white_space \<Longrightarrow> 0 < length w" by (simp add: list_all_iff)
qed

function trim_start :: "bytes \<Rightarrow> bytes" where
  "trim_start s = (case find (\<lambda>w. take (length w) s = w) white_space of
     None \<Rightarrow> s | Some w \<Rightarrow> trim_start (drop (length w) s))"
  by auto
termination
proof (relation "measure length")
  fix s w assume "find (\<lambda>w. take (length w) s = w) white_space = Some w"
  then have "0 < length w" "take (length w) s = w"
    by (auto dest!: find_SomeD white_space_nonempty)
  then show "(drop (length w) s, s) \<in> measure length" by (cases s) auto
qed simp

function trim_end :: "bytes \<Rightarrow> bytes" where
  "trim_end s = (case find (\<lambda>w. drop (length s - length w) s = w) white_space of
     None \<Rightarrow> s | Some w \<Rightarrow> trim_end (take (length s - length w) s))"
  by auto
termination
proof (relation "measure length")
  fix s w assume "find (\<lambda>w. drop (length s - length w) s = w) white_space = Some w"
  then have "0 < length w" "drop (length s - length w) s = w"
    by (auto dest!: find_SomeD white_space_nonempty)
  then show "(take (length s - length w) s, s) \<in> measure length" by (cases s) auto
qed simp

declare trim_start.simps [simp del] trim_end.simps [simp del]

definition str_trim :: "bytes \<Rightarrow> bytes" where
  "str_trim s = trim_end (trim_start s)"

text \<open>The loop over pairs; the length is even, so a single last character cannot occur.\<close>

fun hex_pairs :: "bytes \<Rightarrow> bytes HydraResult" where
  "hex_pairs (h # l # rest) =
     rbind (hex_nibble h) (\<lambda>high.
     rbind (hex_nibble l) (\<lambda>low.
     rbind (hex_pairs rest) (\<lambda>out.
       Inr ((push_bit 4 high OR low) # out))))"
| "hex_pairs _ = Inr []"

definition hex_decode :: "bytes \<Rightarrow> bytes HydraResult" where
  "hex_decode input =
     (let input = str_trim input in
      rbind (ensure (even (length input)) (HE_InvalidEncoding ''hex length'')) (\<lambda>_. hex_pairs input))"

definition hex_digit :: "u8 \<Rightarrow> bool" where
  "hex_digit b \<longleftrightarrow> is_ok (hex_nibble b)"

lemma trim_start_id:
  "(\<And>w. w \<in> set white_space \<Longrightarrow> take (length w) s \<noteq> w) \<Longrightarrow> trim_start s = s"
  by (subst trim_start.simps) (auto split: option.split dest!: find_SomeD)

lemma trim_end_id:
  "(\<And>w. w \<in> set white_space \<Longrightarrow> drop (length s - length w) s \<noteq> w) \<Longrightarrow> trim_end s = s"
  by (subst trim_end.simps) (auto split: option.split dest!: find_SomeD)

lemma white_space_not_hex: "w \<in> set white_space \<Longrightarrow> \<forall>b \<in> set w. \<not> hex_digit b"
proof -
  have "list_all (list_all (\<lambda>b. \<not> hex_digit b)) white_space"
    by (simp add: white_space_def hex_digit_def hex_nibble_def)
  then show "w \<in> set white_space \<Longrightarrow> \<forall>b \<in> set w. \<not> hex_digit b"
    by (auto simp: list_all_iff)
qed

lemma str_trim_hex:
  assumes "\<forall>b \<in> set s. hex_digit b"
  shows "str_trim s = s"
proof -
  have no: "\<exists>b. b \<in> set w \<and> b \<notin> set s" if "w \<in> set white_space" for w
    using white_space_not_hex [OF that] white_space_nonempty [OF that] assms by (cases w) auto
  have "take (length w) s \<noteq> w" "drop (length s - length w) s \<noteq> w" if "w \<in> set white_space" for w
    using no [OF that] by (auto dest: in_set_takeD in_set_dropD) (metis in_set_takeD in_set_dropD)+
  then show ?thesis by (simp add: str_trim_def trim_start_id trim_end_id)
qed

lemma HEX_nibbles: "list_all (\<lambda>n. hex_nibble (HEX ! n) = Inr (of_nat n)) [0..<16]"
  by (simp add: HEX_def ascii_def hex_nibble_def upt_rec)

lemma hex_nibble_HEX: "unat n < 16 \<Longrightarrow> hex_nibble (HEX ! unat n) = Inr n"
  using HEX_nibbles by (auto simp: list_all_iff)

lemma nibble_bounds: "unat (drop_bit 4 (b :: u8)) < 16" "unat (b AND 0x0F) < 16"
proof -
  have "unat b < 256" using unsigned_less [of b, where ?'a = nat] by simp
  then show "unat (drop_bit 4 b) < 16" by (simp only: unsigned_drop_bit_eq) (simp add: drop_bit_eq_div take_bit_nat_eq_self)
  have "b AND 0x0F = take_bit 4 b" by (simp add: take_bit_eq_mask mask_eq_exp_minus_1)
  then show "unat (b AND 0x0F) < 16"
    by (simp only: unsigned_take_bit_eq) (simp add: take_bit_eq_mod)
qed

lemma nibbles_join: "push_bit 4 (drop_bit 4 b) OR (b AND 0x0F) = (b :: u8)"
proof -
  have "b AND 0x0F = take_bit 4 b" by (simp add: take_bit_eq_mask mask_eq_exp_minus_1)
  then show ?thesis by (simp, intro bit_word_eqI) (auto simp: bit_simps)
qed

lemma hex_pairs_encode: "hex_pairs (hex_encode bs) = Inr bs"
  by (induction bs) (simp_all add: hex_nibble_HEX nibble_bounds nibbles_join)

lemma length_hex_encode [simp]: "length (hex_encode bs) = 2 * length bs"
  by (induction bs) simp_all

lemma hex_encode_digits: "\<forall>c \<in> set (hex_encode bs). hex_digit c"
  by (induction bs) (simp_all add: hex_digit_def hex_nibble_HEX nibble_bounds)

lemma hex_decode_encode [simp]: "hex_decode (hex_encode bs) = Inr bs"
  by (simp add: hex_decode_def str_trim_hex hex_encode_digits hex_pairs_encode)

lemma hex_encode_inject: "hex_encode a = hex_encode b \<longleftrightarrow> a = b"
  by (metis hex_decode_encode Inr_inject)

end
