(* ===== verification/Msg_Fragments.thy ===== *)
theory Msg_Fragments
  imports Msg_Util "HOL-Library.AList"
begin

text \<open>
  \<open>hydra-msg/src/packet_fragments\<close> and \<open>envelope/limits.rs\<close>: splitting a payload into packets that fit the
  envelope class chosen for the transport, the fragment record, and the bounded reassembly of fragments that
  arrive out of order, twice, or never. A \<open>HashMap\<close> is an association list: the code only looks up, updates,
  removes, filters, counts and adds up. The clock is one reading \<open>now\<close> in nanoseconds per call.
\<close>

section \<open>Fragment records\<close>

type_synonym ContactId = bytes
type_synonym LobbyId = bytes

definition FRAGMENT_MAGIC :: bytes where
  "FRAGMENT_MAGIC = ascii ''HYDRA-MSG-FRAGMENT'' @ [10]"

definition LEGACY_FRAGMENT_HEADER_BYTES :: nat where
  "LEGACY_FRAGMENT_HEADER_BYTES = length FRAGMENT_MAGIC + 1 + 32 + 4 + 4 + 4"

definition SCOPED_FRAGMENT_HEADER_BYTES :: nat where
  "SCOPED_FRAGMENT_HEADER_BYTES = LEGACY_FRAGMENT_HEADER_BYTES + 32"

datatype FragmentKind = FK_Direct | FK_Lobby

datatype FragmentScope = FS_Direct | FS_Lobby LobbyId

record FragmentRecord =
  fr_kind :: FragmentKind
  fr_lobby_id :: "LobbyId option"
  fr_fragment_id :: bytes
  fr_total :: nat
  fr_index :: nat
  fr_bytes :: bytes

definition starts_with :: "bytes \<Rightarrow> bytes \<Rightarrow> bool" where
  "starts_with bs magic \<longleftrightarrow> take (length magic) bs = magic"

definition payload_needs_fragment_record :: "bytes \<Rightarrow> nat \<Rightarrow> bool" where
  "payload_needs_fragment_record payload max_payload_size \<longleftrightarrow>
     max_payload_size < length payload \<or> starts_with payload FRAGMENT_MAGIC"

fun fragment_header_bytes :: "FragmentScope \<Rightarrow> nat" where
  "fragment_header_bytes FS_Direct = LEGACY_FRAGMENT_HEADER_BYTES"
| "fragment_header_bytes (FS_Lobby _) = SCOPED_FRAGMENT_HEADER_BYTES"

definition encode_fragment_record :: "FragmentScope \<Rightarrow> bytes \<Rightarrow> u32 \<Rightarrow> u32 \<Rightarrow> bytes \<Rightarrow> bytes" where
  "encode_fragment_record scope fragment_id n index bs =
     FRAGMENT_MAGIC @ (case scope of FS_Direct \<Rightarrow> [1] | FS_Lobby lobby_id \<Rightarrow> 3 # lobby_id) @ fragment_id @
     be_bytes 4 n @ be_bytes 4 index @ be_bytes 4 (of_nat (length bs) :: u32) @ bs"

definition read_fragment_scope :: "(FragmentKind \<times> LobbyId option) reader" where
  "read_fragment_scope = st_bind read_u8 (\<lambda>k.
     if k = 1 then st_lift (Inr (FK_Direct, None))
     else if k = 2 then st_lift (Inr (FK_Lobby, None))
     else if k = 3 then st_bind (read_array 32) (\<lambda>lobby_id. st_lift (Inr (FK_Lobby, Some lobby_id)))
     else st_lift (Inl (HE_InvalidEncoding ''fragment kind'')))"

definition read_fragment_fields :: "FragmentRecord reader" where
  "read_fragment_fields =
     st_bind (reader_expect FRAGMENT_MAGIC) (\<lambda>_.
     st_bind read_fragment_scope (\<lambda>s.
     st_bind (read_array 32) (\<lambda>fragment_id.
     st_bind read_u32 (\<lambda>n.
     st_bind read_u32 (\<lambda>index.
     st_bind read_u32 (\<lambda>len.
     st_bind (st_lift (ensure (\<not> FULL_MAX_CONTENT_SIZE < unat len) (HE_InvalidEncoding ''fragment part size''))) (\<lambda>_.
     st_bind (read_vec (unat len)) (\<lambda>part.
       st_lift (Inr \<lparr>fr_kind = fst s, fr_lobby_id = snd s, fr_fragment_id = fragment_id, fr_total = unat n,
         fr_index = unat index, fr_bytes = part\<rparr>)))))))))"

definition decode_fragment_record :: "bytes \<Rightarrow> FragmentRecord option HydraResult" where
  "decode_fragment_record bs =
     (if \<not> starts_with bs FRAGMENT_MAGIC then Inr None
      else fst (st_bind read_fragment_fields (\<lambda>record r.
        st_lift (
          rbind (ensure (is_finished r) (HE_InvalidEncoding ''fragment trailing bytes'')) (\<lambda>_.
          rbind (ensure (\<not> (fr_total record = 0 \<or> MAX_FRAGMENTS_PER_MESSAGE < fr_total record \<or>
                   fr_total record \<le> fr_index record)) (HE_InvalidEncoding ''fragment part index'')) (\<lambda>_.
            Inr (Some record)))) r) (BytesReader_new bs)))"

section \<open>Envelope classes and splitting\<close>

definition STATE_GENERATION_BINDING_OVERHEAD :: nat where
  "STATE_GENERATION_BINDING_OVERHEAD = 22"

definition largest_class_at_or_below :: "nat \<Rightarrow> EnvelopeClass option" where
  "largest_class_at_or_below packet_size = find (\<lambda>c. envelope_size c \<le> packet_size) [Full, Standard, Lite]"

definition selected_packet_class :: "nat \<Rightarrow> EnvelopeClass HydraResult" where
  "selected_packet_class packet_size = ok_or (largest_class_at_or_below packet_size)
     (HE_InvalidInput ''packet size is smaller than the HYDRA Lite envelope'')"

definition validate_packet_size :: "nat \<Rightarrow> unit HydraResult" where
  "validate_packet_size n = rbind (selected_packet_class n) (\<lambda>_. Inr ())"

text \<open>The field \<open>packet_size\<close> of the facade is the argument and, for the setter, the state.\<close>

definition set_packet_size :: "nat \<Rightarrow> (nat, HydraMsgError, unit) st" where
  "set_packet_size n = st_bind (st_lift (validate_packet_size n)) (\<lambda>_. st_modify (\<lambda>_. n))"

definition envelope_size_bounds :: "nat \<Rightarrow> (nat \<times> nat) HydraResult" where
  "envelope_size_bounds packet_size =
     rbind (selected_packet_class packet_size) (\<lambda>c. Inr (envelope_size c, envelope_size c))"

definition max_payload_content_size :: "nat \<Rightarrow> nat HydraResult" where
  "max_payload_content_size packet_size =
     rbind (selected_packet_class packet_size) (\<lambda>c.
       ok_or (checked_sub_usize (max_content_size c) STATE_GENERATION_BINDING_OVERHEAD)
         (HE_InvalidInput ''packet class cannot hold state generation binding''))"

definition validate_inbound_envelope_size :: "nat \<Rightarrow> nat \<Rightarrow> unit HydraResult" where
  "validate_inbound_envelope_size packet_size len =
     ensure (list_ex (\<lambda>c. envelope_size c = len \<and> len \<le> packet_size) [Lite, Standard, Full])
       (HE_InvalidInput ''inbound packet is not an allowed fixed HYDRA envelope size'')"

definition fragment_payload_size :: "FragmentScope \<Rightarrow> nat \<Rightarrow> nat HydraResult" where
  "fragment_payload_size scope max_payload_size =
     ok_or (case checked_sub_usize max_payload_size (fragment_header_bytes scope) of
              None \<Rightarrow> None | Some n \<Rightarrow> if 0 < n then Some n else None)
       (HE_InvalidInput ''configured envelope size cannot carry HYDRA fragment records'')"

definition div_ceil :: "nat \<Rightarrow> nat \<Rightarrow> nat" where
  "div_ceil a b = (if a mod b = 0 then a div b else a div b + 1)"

definition split_payload_for_packets ::
    "(nat \<Rightarrow> bytes option) \<Rightarrow> FragmentScope \<Rightarrow> bytes \<Rightarrow> nat \<Rightarrow> bytes list HydraResult" where
  "split_payload_for_packets rng scope payload max_payload_size =
     rbind (ensure (\<not> MAX_FRAGMENTED_PAYLOAD_BYTES < length payload) (HE_InvalidInput ''fragmented payload size'')) (\<lambda>_.
     if \<not> payload_needs_fragment_record payload max_payload_size then Inr [payload]
     else
       rbind (fragment_payload_size scope max_payload_size) (\<lambda>part_size.
       let n = max (div_ceil (length payload) part_size) 1 in
       rbind (ensure (\<not> (MAX_FRAGMENTS_PER_MESSAGE < n \<or> u32_max < n))
                (HE_InvalidInput ''message requires too many packet fragments'')) (\<lambda>_.
       rbind (random_array rng 32) (\<lambda>fragment_id.
         Inr (map (\<lambda>index.
           let start = index * part_size; stop = min (length payload) (start + part_size) in
           encode_fragment_record scope fragment_id (of_nat n) (of_nat index) (slice start stop payload))
           [0..<n])))))"

definition payloads_for_packets ::
    "(nat \<Rightarrow> bytes option) \<Rightarrow> nat \<Rightarrow> FragmentScope \<Rightarrow> bytes \<Rightarrow> bytes list HydraResult" where
  "payloads_for_packets rng packet_size scope payload =
     rbind (max_payload_content_size packet_size) (split_payload_for_packets rng scope payload)"

section \<open>Reassembly\<close>

datatype FragmentScopeKey = SK_Direct | SK_Lobby LobbyId | SK_LegacyLobby

record PendingFragmentKey =
  pk_from :: ContactId
  pk_scope :: FragmentScopeKey
  pk_kind :: FragmentKind
  pk_fragment_id :: bytes

definition pk_lobby_id :: "PendingFragmentKey \<Rightarrow> LobbyId option" where
  "pk_lobby_id k = (case pk_scope k of SK_Lobby lobby_id \<Rightarrow> Some lobby_id | _ \<Rightarrow> None)"

record PendingInboundFragments =
  pi_parts :: "(nat \<times> bytes) list"
  pi_total :: nat
  pi_received_bytes :: nat
  pi_created_at :: nat

type_synonym PendingMap = "(PendingFragmentKey \<times> PendingInboundFragments) list"
type_synonym 'a pending_op = "(PendingMap, HydraMsgError, 'a) st"

record ReassembledPayload =
  rp_bytes :: bytes
  rp_lobby_id :: "LobbyId option"

fun fragment_scope :: "FragmentKind \<Rightarrow> LobbyId option \<Rightarrow> FragmentScopeKey HydraResult" where
  "fragment_scope FK_Direct None = Inr SK_Direct"
| "fragment_scope FK_Lobby (Some lobby_id) = Inr (SK_Lobby lobby_id)"
| "fragment_scope FK_Lobby None = Inr SK_LegacyLobby"
| "fragment_scope FK_Direct (Some _) = Inl (HE_InvalidEncoding ''direct fragment scope'')"

definition update_pending_entry :: "nat \<Rightarrow> PendingFragmentKey \<Rightarrow> FragmentRecord \<Rightarrow> bool pending_op" where
  "update_pending_entry now key part pending =
     (let entry = (case map_of pending key of
            Some entry \<Rightarrow> entry
          | None \<Rightarrow> \<lparr>pi_parts = [], pi_total = fr_total part, pi_received_bytes = 0, pi_created_at = now\<rparr>);
          pending = AList.update key entry pending in
      if pi_total entry \<noteq> fr_total part then (Inl (HE_InvalidEncoding ''fragment part count''), pending)
      else case map_of (pi_parts entry) (fr_index part) of
        Some existing \<Rightarrow>
          if existing \<noteq> fr_bytes part then (Inl (HE_InvalidEncoding ''conflicting duplicate fragment''), pending)
          else (Inr (length (pi_parts entry) = pi_total entry), pending)
      | None \<Rightarrow>
          (case checked_add_usize (pi_received_bytes entry) (length (fr_bytes part)) of
             None \<Rightarrow> (Inl (HE_InvalidEncoding ''fragmented payload size''), pending)
           | Some n \<Rightarrow>
               if \<not> n \<le> MAX_FRAGMENTED_PAYLOAD_BYTES
               then (Inl (HE_InvalidEncoding ''fragmented payload size''), pending)
               else
                 let entry = entry\<lparr>pi_received_bytes := n,
                       pi_parts := AList.update (fr_index part) (fr_bytes part) (pi_parts entry)\<rparr> in
                 (Inr (length (pi_parts entry) = pi_total entry), AList.update key entry pending)))"

text \<open>The loop over \<open>0..entry.total\<close>: it removes each part from the map as it goes.\<close>

fun assemble_parts :: "nat list \<Rightarrow> (nat \<times> bytes) list \<Rightarrow> bytes HydraResult" where
  "assemble_parts [] parts = Inr []"
| "assemble_parts (index # rest) parts =
     rbind (ok_or (map_of parts index) (HE_InvalidEncoding ''fragment part'')) (\<lambda>part.
     rbind (assemble_parts rest (AList.delete index parts)) (\<lambda>out. Inr (part @ out)))"

definition assemble_payload :: "PendingFragmentKey \<Rightarrow> LobbyId option \<Rightarrow> ReassembledPayload pending_op" where
  "assemble_payload key lobby_id pending =
     (case map_of pending key of
        None \<Rightarrow> (Inl (HE_InvalidEncoding ''fragment state''), pending)
      | Some entry \<Rightarrow>
          (rbind (assemble_parts [0..<pi_total entry] (pi_parts entry)) (\<lambda>out.
             Inr \<lparr>rp_bytes = out, rp_lobby_id = lobby_id\<rparr>), AList.delete key pending))"

definition expire_stale_fragments :: "nat \<Rightarrow> PendingMap \<Rightarrow> PendingMap" where
  "expire_stale_fragments now pending =
     filter (\<lambda>(_, entry). now - pi_created_at entry \<le> MAX_FRAGMENT_AGE_SECS * 10 ^ 9) pending"

definition reject_new_incomplete_message :: "PendingMap \<Rightarrow> ContactId \<Rightarrow> FragmentScopeKey \<Rightarrow> unit HydraResult" where
  "reject_new_incomplete_message pending contact scope =
     rbind (ensure (\<not> MAX_INCOMPLETE_MESSAGES \<le> length pending)
              (HE_InvalidInput ''too many incomplete fragmented messages'')) (\<lambda>_.
     let contact_count = length (filter (\<lambda>(k, _). pk_from k = contact) pending);
         lobby_count = (case scope of
             SK_Lobby lobby_id \<Rightarrow> length (filter (\<lambda>(k, _). pk_lobby_id k = Some lobby_id) pending)
           | _ \<Rightarrow> 0) in
     ensure (\<not> (MAX_INCOMPLETE_MESSAGES_PER_CONTACT \<le> contact_count \<or>
                MAX_INCOMPLETE_MESSAGES_PER_LOBBY \<le> lobby_count))
       (HE_InvalidInput ''too many incomplete messages for fragment scope''))"

definition saturating_add_usize :: "nat \<Rightarrow> nat \<Rightarrow> nat" where
  "saturating_add_usize a b = min usize_max (a + b)"

definition reject_global_fragment_budget :: "PendingMap \<Rightarrow> PendingFragmentKey \<Rightarrow> FragmentRecord \<Rightarrow> unit HydraResult" where
  "reject_global_fragment_budget pending key part =
     (let already_present = (case map_of pending key of
            None \<Rightarrow> False | Some entry \<Rightarrow> map_of (pi_parts entry) (fr_index part) \<noteq> None) in
      if already_present then Inr ()
      else
        let pending_parts = foldl (\<lambda>n (_, entry). saturating_add_usize n (length (pi_parts entry))) 0 pending in
        rbind (ensure (\<not> MAX_PENDING_FRAGMENTS \<le> pending_parts) (HE_InvalidInput ''too many pending fragments'')) (\<lambda>_.
        let pending_bytes = foldl (\<lambda>n (_, entry). saturating_add_usize n (pi_received_bytes entry)) 0 pending in
        ensure (case checked_add_usize pending_bytes (length (fr_bytes part)) of
                  None \<Rightarrow> False | Some n \<Rightarrow> \<not> MAX_PENDING_FRAGMENT_BYTES < n)
          (HE_InvalidInput ''pending fragment byte budget exceeded'')))"

definition apply_fragment_record ::
    "nat \<Rightarrow> ContactId \<Rightarrow> FragmentKind \<Rightarrow> FragmentRecord \<Rightarrow> ReassembledPayload option pending_op" where
  "apply_fragment_record now contact expected_kind part =
     st_bind (st_lift (ensure (\<not> fr_kind part \<noteq> expected_kind) (HE_InvalidEncoding ''fragment kind''))) (\<lambda>_.
     st_bind (st_modify (expire_stale_fragments now)) (\<lambda>_.
     st_bind (st_lift (fragment_scope (fr_kind part) (fr_lobby_id part))) (\<lambda>scope pending.
       let key = \<lparr>pk_from = contact, pk_scope = scope, pk_kind = expected_kind, pk_fragment_id = fr_fragment_id part\<rparr> in
       st_bind (st_lift (
         rbind (if map_of pending key = None then reject_new_incomplete_message pending contact scope else Inr ()) (\<lambda>_.
           reject_global_fragment_budget pending key part))) (\<lambda>_ pending.
       case update_pending_entry now key part pending of
         (Inl e, pending) \<Rightarrow> (Inl e, AList.delete key pending)
       | (Inr complete, pending) \<Rightarrow>
           if \<not> complete then (Inr None, pending)
           else st_bind (assemble_payload key (fr_lobby_id part)) (\<lambda>payload. st_lift (Inr (Some payload))) pending) pending)))"

definition receive_fragmented_payload ::
    "nat \<Rightarrow> ContactId \<Rightarrow> FragmentKind \<Rightarrow> bytes \<Rightarrow> (bytes \<times> LobbyId option) option pending_op" where
  "receive_fragmented_payload now contact kind payload =
     st_bind (st_lift (decode_fragment_record payload)) (\<lambda>decoded.
       case decoded of
         None \<Rightarrow> st_lift (Inr (Some (payload, None)))
       | Some part \<Rightarrow>
           st_bind (apply_fragment_record now contact kind part) (\<lambda>result.
             st_lift (Inr (map_option (\<lambda>completed. (rp_bytes completed, rp_lobby_id completed)) result))))"

definition is_packet_fragment_for_kind :: "FragmentKind \<Rightarrow> bytes \<Rightarrow> bool" where
  "is_packet_fragment_for_kind kind payload \<longleftrightarrow>
     (case decode_fragment_record payload of Inr (Some part) \<Rightarrow> fr_kind part = kind | _ \<Rightarrow> False)"

section \<open>The record is a canonical code\<close>

definition scope_bytes :: "FragmentKind \<times> LobbyId option \<Rightarrow> bytes" where
  "scope_bytes s = (case snd s of
     Some lobby_id \<Rightarrow> 3 # lobby_id
   | None \<Rightarrow> (case fst s of FK_Direct \<Rightarrow> [1] | FK_Lobby \<Rightarrow> [2]))"

definition scope_wf :: "FragmentKind \<times> LobbyId option \<Rightarrow> bool" where
  "scope_wf s \<longleftrightarrow> (\<forall>lobby_id. snd s = Some lobby_id \<longrightarrow> fst s = FK_Lobby \<and> length lobby_id = 32)"

definition record_bytes :: "FragmentRecord \<Rightarrow> bytes" where
  "record_bytes r = FRAGMENT_MAGIC @ scope_bytes (fr_kind r, fr_lobby_id r) @ fr_fragment_id r @
     be_bytes 4 (of_nat (fr_total r) :: u32) @ be_bytes 4 (of_nat (fr_index r) :: u32) @
     be_bytes 4 (of_nat (length (fr_bytes r)) :: u32) @ fr_bytes r"

definition record_wf :: "FragmentRecord \<Rightarrow> bool" where
  "record_wf r \<longleftrightarrow> scope_wf (fr_kind r, fr_lobby_id r) \<and> length (fr_fragment_id r) = 32 \<and>
     fr_total r \<le> u32_max \<and> fr_index r \<le> u32_max \<and> length (fr_bytes r) \<le> FULL_MAX_CONTENT_SIZE"

lemma reader_codec_scope: "reader_codec read_fragment_scope scope_bytes scope_wf"
proof -
  have tail: "reader_codec
      (if k = 1 then st_lift (Inr (FK_Direct, None))
       else if k = 2 then st_lift (Inr (FK_Lobby, None))
       else if k = 3 then st_bind (read_array 32) (\<lambda>lobby_id. st_lift (Inr (FK_Lobby, Some lobby_id)))
       else st_lift (Inl (HE_InvalidEncoding ''fragment kind'')))
      (\<lambda>s. tl (scope_bytes s)) (\<lambda>s. scope_wf s \<and> hd (scope_bytes s) = k)" for k
  proof (cases "k = 3")
    case True
    have "reader_codec (st_bind (read_array 32) (\<lambda>lobby_id. st_lift (Inr (FK_Lobby, Some lobby_id))))
        (\<lambda>s. the (snd s)) (\<lambda>s. scope_wf s \<and> hd (scope_bytes s) = 3)"
      by (rule reader_codec_map [OF reader_codec_array])
        (auto simp: scope_wf_def scope_bytes_def split: option.splits FragmentKind.splits prod.splits)
    then have "reader_codec (st_bind (read_array 32) (\<lambda>lobby_id. st_lift (Inr (FK_Lobby, Some lobby_id))))
        (\<lambda>s. tl (scope_bytes s)) (\<lambda>s. scope_wf s \<and> hd (scope_bytes s) = 3)"
      by (rule reader_codec_cong) (auto simp: scope_bytes_def split: option.splits FragmentKind.splits)
    with True show ?thesis by simp
  next
    case False
    then have "reader_codec (st_lift (if k = 1 then Inr (FK_Direct, None) else if k = 2 then Inr (FK_Lobby, None)
         else Inl (HE_InvalidEncoding ''fragment kind''))) (\<lambda>s. tl (scope_bytes s)) (\<lambda>s. scope_wf s \<and> hd (scope_bytes s) = k)"
      by (intro reader_codec_end)
        (auto simp: scope_wf_def scope_bytes_def split: option.splits FragmentKind.splits prod.splits)
    then show ?thesis using False by (simp split: if_splits)
  qed
  show ?thesis
    unfolding read_fragment_scope_def
    by (rule reader_codec_seq [OF reader_codec_u8 tail, where f = "\<lambda>s. hd (scope_bytes s)"])
      (auto simp: scope_bytes_def split: option.splits FragmentKind.splits)
qed

lemma unat_of_nat_u32_iff:
  "unat (of_nat n :: u32) = n \<longleftrightarrow> n \<le> u32_max" "n = unat (of_nat n :: u32) \<longleftrightarrow> n \<le> u32_max"
  using unat_u32_bound [of "of_nat n"] by (auto simp: unat_of_nat_u32 u32_max_def)

lemma reader_codec_record: "reader_codec read_fragment_fields record_bytes record_wf"
proof -
  have part: "reader_codec
      (st_bind (st_lift (ensure (\<not> FULL_MAX_CONTENT_SIZE < unat len) (HE_InvalidEncoding ''fragment part size''))) (\<lambda>_.
       st_bind (read_vec (unat len)) (\<lambda>part.
         st_lift (Inr \<lparr>fr_kind = fst s, fr_lobby_id = snd s, fr_fragment_id = fragment_id, fr_total = unat n,
           fr_index = unat index, fr_bytes = part\<rparr>))))
      fr_bytes (\<lambda>r. \<not> FULL_MAX_CONTENT_SIZE < unat len \<and> length (fr_bytes r) = unat len \<and>
        fr_index r = unat index \<and> fr_total r = unat n \<and> fr_fragment_id r = fragment_id \<and>
        (fr_kind r, fr_lobby_id r) = s)"
    for s fragment_id and n index len :: u32
    by (rule reader_codec_ensure, rule reader_codec_map [OF reader_codec_vec]) auto
  note fields = reader_codec_cong [OF reader_codec_comp [OF reader_codec_expect [of FRAGMENT_MAGIC], where f = "\<lambda>_. ()",
      OF reader_codec_comp [OF reader_codec_scope, where f = "\<lambda>r. (fr_kind r, fr_lobby_id r)",
      OF reader_codec_comp [OF reader_codec_array [of 32], where f = fr_fragment_id,
      OF reader_codec_comp [OF reader_codec_u32, where f = "\<lambda>r. of_nat (fr_total r)",
      OF reader_codec_comp [OF reader_codec_u32, where f = "\<lambda>r. of_nat (fr_index r)",
      OF reader_codec_comp [OF reader_codec_u32, where f = "\<lambda>r. of_nat (length (fr_bytes r))", OF part]]]]]]]
  show ?thesis
    unfolding read_fragment_fields_def
    by (rule fields)
      (auto simp: record_bytes_def record_wf_def unat_of_nat_u32_iff unat_of_nat_u32
        FULL_MAX_CONTENT_SIZE_def u32_max_def)
qed

interpretation fragment_record: reader_codec read_fragment_fields record_bytes record_wf
  by (rule reader_codec_record)

lemma starts_with_append [simp]: "starts_with (magic @ bs) magic"
  by (simp add: starts_with_def)

lemma record_bytes_magic [simp]: "starts_with (record_bytes r) FRAGMENT_MAGIC"
  by (simp add: record_bytes_def)

definition position_ok :: "FragmentRecord \<Rightarrow> bool" where
  "position_ok r \<longleftrightarrow> fr_index r < fr_total r \<and> fr_total r \<le> MAX_FRAGMENTS_PER_MESSAGE"

lemma decode_fragment_Some_iff:
  assumes "length bs \<le> usize_max"
  shows "decode_fragment_record bs = Inr (Some r) \<longleftrightarrow> record_wf r \<and> position_ok r \<and> bs = record_bytes r"
proof -
  have "decode_fragment_record bs = Inr (Some r) \<longleftrightarrow> starts_with bs FRAGMENT_MAGIC \<and> position_ok r \<and>
      (\<exists>t. read_fragment_fields (BytesReader_new bs) = (Inr r, t) \<and> is_finished t)"
    by (auto simp: decode_fragment_record_def fst_st_bind_Inr_iff st_lift_def rbind_Inr_iff ensure_Inr_iff position_ok_def not_le)
  then show ?thesis
    unfolding fragment_record.reads_whole_iff [OF assms] by auto
qed

lemma decode_fragment_None_iff: "decode_fragment_record bs = Inr None \<longleftrightarrow> \<not> starts_with bs FRAGMENT_MAGIC"
  by (simp add: decode_fragment_record_def fst_st_bind_Inr_iff st_lift_def rbind_Inr_iff)

fun scope_parts :: "FragmentScope \<Rightarrow> FragmentKind \<times> LobbyId option" where
  "scope_parts FS_Direct = (FK_Direct, None)"
| "scope_parts (FS_Lobby lobby_id) = (FK_Lobby, Some lobby_id)"

lemma encode_fragment_record_eq:
  assumes "n \<le> u32_max" and "i \<le> u32_max"
  shows "encode_fragment_record scope fid (of_nat n) (of_nat i) bs =
    record_bytes \<lparr>fr_kind = fst (scope_parts scope), fr_lobby_id = snd (scope_parts scope), fr_fragment_id = fid,
      fr_total = n, fr_index = i, fr_bytes = bs\<rparr>"
  by (cases scope) (simp_all add: encode_fragment_record_def record_bytes_def scope_bytes_def)

section \<open>What splitting produces\<close>

definition part_of :: "nat \<Rightarrow> bytes \<Rightarrow> nat \<Rightarrow> bytes" where
  "part_of sz payload i = slice (i * sz) (min (length payload) (i * sz + sz)) payload"

lemma length_part_of: "length (part_of sz payload i) \<le> sz"
  by (simp add: part_of_def length_slice)

lemma concat_parts_take: "concat (map (part_of sz payload) [0..<k]) = take (k * sz) payload"
proof (induction k)
  case (Suc k)
  have "part_of sz payload k = take sz (drop (k * sz) payload)"
    by (simp add: part_of_def slice_def min_def)
  with Suc show ?case
    by (simp add: take_add [symmetric] add.commute)
qed simp

lemma div_ceil_mult: "0 < b \<Longrightarrow> a \<le> div_ceil a b * b"
  by (metis add.commute add_le_cancel_left div_ceil_def div_mult_mod_eq add_0 add_mult_distrib less_or_eq_imp_le
      mod_less_divisor mult_1)

lemma split_payload_cases:
  assumes "split_payload_for_packets rng scope payload mx = Inr packets"
  obtains (whole) "\<not> payload_needs_fragment_record payload mx" "packets = [payload]"
  | (split) sz n fid where "payload_needs_fragment_record payload mx"
      "0 < sz" "mx = fragment_header_bytes scope + sz"
      "0 < n" "n \<le> MAX_FRAGMENTS_PER_MESSAGE" "rng 32 = Some fid" "length payload \<le> MAX_FRAGMENTED_PAYLOAD_BYTES"
      "concat (map (part_of sz payload) [0..<n]) = payload"
      "packets = map (\<lambda>i. record_bytes \<lparr>fr_kind = fst (scope_parts scope), fr_lobby_id = snd (scope_parts scope),
          fr_fragment_id = fid, fr_total = n, fr_index = i, fr_bytes = part_of sz payload i\<rparr>) [0..<n]"
proof (cases "payload_needs_fragment_record payload mx")
  case False
  then show thesis using assms whole by (auto simp: split_payload_for_packets_def rbind_Inr_iff)
next
  case True
  obtain sz fid where len: "length payload \<le> MAX_FRAGMENTED_PAYLOAD_BYTES" and psz: "fragment_payload_size scope mx = Inr sz"
    and n: "max (div_ceil (length payload) sz) 1 \<le> MAX_FRAGMENTS_PER_MESSAGE" and fid: "rng 32 = Some fid"
    and packets: "packets = map (\<lambda>index. encode_fragment_record scope fid (of_nat (max (div_ceil (length payload) sz) 1))
        (of_nat index) (part_of sz payload index)) [0..<max (div_ceil (length payload) sz) 1]"
    using assms True
    by (auto simp: split_payload_for_packets_def rbind_Inr_iff ensure_Inr_iff random_array_def ok_or_Inr_iff Let_def
        not_less part_of_def)
  have szs: "0 < sz" "mx = fragment_header_bytes scope + sz"
    using psz by (auto simp: fragment_payload_size_def ok_or_Inr_iff checked_sub_usize_def split: option.splits if_splits)
  let ?n = "max (div_ceil (length payload) sz) 1"
  have "length payload \<le> ?n * sz"
    using div_ceil_mult [OF szs(1), of "length payload"]
    by (meson max.cobounded1 mult_le_mono1 order_trans)
  then have "concat (map (part_of sz payload) [0..<?n]) = payload"
    by (simp add: concat_parts_take)
  moreover have "packets = map (\<lambda>i. record_bytes \<lparr>fr_kind = fst (scope_parts scope), fr_lobby_id = snd (scope_parts scope),
      fr_fragment_id = fid, fr_total = ?n, fr_index = i, fr_bytes = part_of sz payload i\<rparr>) [0..<?n]"
    unfolding packets
    by (rule map_cong [OF refl], rule encode_fragment_record_eq)
      (use n in \<open>simp_all add: MAX_FRAGMENTS_PER_MESSAGE_def u32_max_def\<close>)
  ultimately show thesis
    using split [OF True szs _ n fid len] by simp
qed

end
