(* ===== verification/Msg_Reassembly.thy ===== *)
theory Msg_Reassembly
  imports Msg_Fragments
begin

text \<open>
  Reassembly as a state machine: what one fragment does to the table of pending messages, the limits that hold
  in every reachable table, where the bytes of a reassembled message come from, and that a message whose
  packets arrive in any order, some of them more than once, is delivered exactly once and whole.
\<close>

section \<open>Association lists\<close>

lemma sum_alist_update:
  "distinct (map fst xs) \<Longrightarrow> sum_list (map (\<lambda>(_, v). g v) (AList.update k v xs)) +
     (case map_of xs k of None \<Rightarrow> 0 | Some w \<Rightarrow> g w) = sum_list (map (\<lambda>(_, v). g v) xs) + (g v :: nat)"
proof (induction xs)
  case (Cons x xs)
  obtain j w where x: "x = (j, w)" by fastforce
  show ?case
  proof (cases "j = k")
    case True
    then have "map_of xs k = None" using Cons.prems x by (simp add: map_of_eq_None_iff)
    then show ?thesis using True x by simp
  next
    case False
    then show ?thesis using Cons x by simp
  qed
qed simp

lemma sum_alist_filter: "sum_list (map (\<lambda>(_, v). g v) (filter P xs)) \<le> (sum_list (map (\<lambda>(_, v). g v) xs) :: nat)"
  by (induction xs) (auto simp: trans_le_add2)

lemma alist_delete_filter: "AList.delete k xs = filter (\<lambda>(j, _). j \<noteq> k) xs"
  by (induction xs) auto

lemma count_filter_filter: "length (filter P (filter Q xs)) \<le> length (filter P xs)"
  by (induction xs) auto

lemma count_alist_update:
  "length (filter (\<lambda>(j, _). P j) (AList.update k v xs)) =
     length (filter (\<lambda>(j, _). P j) xs) + (if map_of xs k = None \<and> P k then 1 else 0)"
  by (induction xs) auto

lemma foldl_saturating:
  "a \<le> usize_max \<Longrightarrow> foldl (\<lambda>n (_, v). saturating_add_usize n (g v)) a xs =
     min usize_max (a + sum_list (map (\<lambda>(_, v). g v) xs))"
proof (induction xs arbitrary: a)
  case (Cons x xs)
  have "saturating_add_usize a (g (snd x)) \<le> usize_max" by (simp add: saturating_add_usize_def)
  from Cons.IH [OF this] show ?case
    by (cases x) (auto simp: saturating_add_usize_def min_def)
qed simp

lemma update_mem: "(j, w) \<in> set (AList.update k v xs) \<Longrightarrow> (j = k \<and> w = v) \<or> (j, w) \<in> set xs"
  by (induction xs) (auto split: if_splits)

lemma update_mem_distinct:
  "distinct (map fst xs) \<Longrightarrow> (j, w) \<in> set (AList.update k v xs) \<longleftrightarrow> (j = k \<and> w = v) \<or> (j \<noteq> k \<and> (j, w) \<in> set xs)"
  by (induction xs) force+

section \<open>Assembling\<close>

lemma assemble_parts_total:
  assumes "distinct idx" and "\<forall>i \<in> set idx. map_of parts i \<noteq> None"
  shows "assemble_parts idx parts = Inr (concat (map (\<lambda>i. the (map_of parts i)) idx))"
  using assms
proof (induction idx arbitrary: parts)
  case (Cons i idx)
  obtain b where b: "map_of parts i = Some b" using Cons.prems(2) by auto
  have same: "map_of (AList.delete i parts) j = map_of parts j" if "j \<in> set idx" for j
    using that Cons.prems(1) by (auto simp: delete_conv')
  then have "assemble_parts idx (AList.delete i parts) =
      Inr (concat (map (\<lambda>j. the (map_of (AList.delete i parts) j)) idx))"
    using Cons.prems by (intro Cons.IH) auto
  also have "map (\<lambda>j. the (map_of (AList.delete i parts) j)) idx = map (\<lambda>j. the (map_of parts j)) idx"
    using same by (intro map_cong [OF refl]) simp
  finally show ?case using b by simp
qed simp

lemma assemble_parts_all:
  assumes "distinct idx" and "\<forall>i \<in> set idx. map_of parts i = Some (f i)"
  shows "assemble_parts idx parts = Inr (concat (map f idx))"
proof -
  have "assemble_parts idx parts = Inr (concat (map (\<lambda>i. the (map_of parts i)) idx))"
    by (rule assemble_parts_total [OF assms(1)]) (use assms(2) in simp)
  also have "map (\<lambda>i. the (map_of parts i)) idx = map f idx"
    using assms(2) by (intro map_cong [OF refl]) simp
  finally show ?thesis .
qed

lemma complete_parts:
  assumes d: "distinct (map fst parts)" and b: "\<forall>(i, _) \<in> set parts. i < n" and l: "length parts = n"
  shows "\<forall>i \<in> set [0..<n]. map_of parts i \<noteq> None"
proof -
  have "fst ` set parts \<subseteq> {..<n}" using b by auto
  moreover have "card (fst ` set parts) = n"
    using distinct_card [OF d] l by simp
  ultimately have "fst ` set parts = {..<n}" by (intro card_subset_eq) auto
  then show ?thesis by (auto simp: map_of_eq_None_iff)
qed

section \<open>One fragment\<close>

definition key_of :: "ContactId \<Rightarrow> FragmentScopeKey \<Rightarrow> FragmentKind \<Rightarrow> FragmentRecord \<Rightarrow> PendingFragmentKey" where
  "key_of contact scope kind part =
     \<lparr>pk_from = contact, pk_scope = scope, pk_kind = kind, pk_fragment_id = fr_fragment_id part\<rparr>"

definition entry_for :: "nat \<Rightarrow> PendingFragmentKey \<Rightarrow> FragmentRecord \<Rightarrow> PendingMap \<Rightarrow> PendingInboundFragments" where
  "entry_for now key part pending = (case map_of pending key of
      Some entry \<Rightarrow> entry
    | None \<Rightarrow> \<lparr>pi_parts = [], pi_total = fr_total part, pi_received_bytes = 0, pi_created_at = now\<rparr>)"

definition add_part :: "FragmentRecord \<Rightarrow> PendingInboundFragments \<Rightarrow> PendingInboundFragments" where
  "add_part part entry = entry\<lparr>pi_received_bytes := pi_received_bytes entry + length (fr_bytes part),
     pi_parts := AList.update (fr_index part) (fr_bytes part) (pi_parts entry)\<rparr>"

definition admitted :: "PendingMap \<Rightarrow> ContactId \<Rightarrow> FragmentScopeKey \<Rightarrow> PendingFragmentKey \<Rightarrow> FragmentRecord \<Rightarrow> bool" where
  "admitted pending contact scope key part \<longleftrightarrow>
     (map_of pending key = None \<longrightarrow> reject_new_incomplete_message pending contact scope = Inr ()) \<and>
     reject_global_fragment_budget pending key part = Inr ()"

definition new_part :: "PendingInboundFragments \<Rightarrow> FragmentRecord \<Rightarrow> bool" where
  "new_part entry part \<longleftrightarrow> pi_total entry = fr_total part \<and> map_of (pi_parts entry) (fr_index part) = None \<and>
     pi_received_bytes entry + length (fr_bytes part) \<le> MAX_FRAGMENTED_PAYLOAD_BYTES"

lemmas update_pending_eq = update_pending_entry_def [of now key part pending, folded entry_for_def, unfolded Let_def]
  for now key part pending

lemma update_pending_again:
  "pi_total (entry_for now key part pending) = fr_total part \<Longrightarrow>
   map_of (pi_parts (entry_for now key part pending)) (fr_index part) = Some (fr_bytes part) \<Longrightarrow>
   update_pending_entry now key part pending = (Inr (length (pi_parts (entry_for now key part pending)) = fr_total part),
     AList.update key (entry_for now key part pending) pending)"
  by (simp add: update_pending_eq)

lemma update_pending_new:
  "new_part (entry_for now key part pending) part \<Longrightarrow>
   update_pending_entry now key part pending =
     (Inr (length (pi_parts (add_part part (entry_for now key part pending))) = fr_total part),
      AList.update key (add_part part (entry_for now key part pending)) pending)"
  by (auto simp: update_pending_eq new_part_def add_part_def checked_add_usize_def MAX_FRAGMENTED_PAYLOAD_BYTES_def usize_max_def)

lemma update_pending_cases:
  obtains (failed) e where "update_pending_entry now key part pending =
      (Inl e, AList.update key (entry_for now key part pending) pending)"
  | (again) "pi_total (entry_for now key part pending) = fr_total part"
      "map_of (pi_parts (entry_for now key part pending)) (fr_index part) = Some (fr_bytes part)"
  | (added) "new_part (entry_for now key part pending) part"
proof -
  let ?e = "entry_for now key part pending"
  consider "pi_total ?e \<noteq> fr_total part" | b where "pi_total ?e = fr_total part" "map_of (pi_parts ?e) (fr_index part) = Some b"
    | "pi_total ?e = fr_total part" "map_of (pi_parts ?e) (fr_index part) = None"
    by (cases "map_of (pi_parts ?e) (fr_index part)") auto
  then show thesis
  proof cases
    case 1
    then show ?thesis by (intro failed) (simp add: update_pending_eq)
  next
    case (2 b)
    then show ?thesis
      by (cases "b = fr_bytes part") (auto simp: update_pending_eq intro: failed again)
  next
    case 3
    then show ?thesis
      by (cases "new_part ?e part") (auto simp: update_pending_eq new_part_def checked_add_usize_def intro: failed added)
  qed
qed

text \<open>
  What a fragment does to the table once expired entries have been dropped: nothing, dropping its own message,
  nothing because it is a repetition, storing a part of an unfinished message, or finishing one.
\<close>

inductive fragment_effect ::
    "nat \<Rightarrow> ContactId \<Rightarrow> FragmentScopeKey \<Rightarrow> PendingFragmentKey \<Rightarrow> FragmentRecord \<Rightarrow> PendingMap \<Rightarrow>
     ReassembledPayload option HydraResult \<Rightarrow> PendingMap \<Rightarrow> bool"
  for now contact scope key part pending where
  fragment_refused: "\<not> admitted pending contact scope key part \<Longrightarrow> fragment_effect now contact scope key part pending (Inl e) pending"
| fragment_dropped: "fragment_effect now contact scope key part pending (Inl e) (AList.delete key pending)"
| fragment_repeated: "map_of pending key = Some entry \<Longrightarrow> pi_total entry = fr_total part \<Longrightarrow>
    map_of (pi_parts entry) (fr_index part) = Some (fr_bytes part) \<Longrightarrow> length (pi_parts entry) \<noteq> fr_total part \<Longrightarrow>
    fragment_effect now contact scope key part pending (Inr None) pending"
| fragment_stored: "admitted pending contact scope key part \<Longrightarrow> entry = entry_for now key part pending \<Longrightarrow>
    new_part entry part \<Longrightarrow> length (pi_parts (add_part part entry)) \<noteq> fr_total part \<Longrightarrow>
    fragment_effect now contact scope key part pending (Inr None) (AList.update key (add_part part entry) pending)"
| fragment_completed: "entry = entry_for now key part pending \<Longrightarrow>
    new_part entry part \<and> final = add_part part entry \<or>
      map_of pending key = Some entry \<and> pi_total entry = fr_total part \<and>
      map_of (pi_parts entry) (fr_index part) = Some (fr_bytes part) \<and> final = entry \<Longrightarrow>
    length (pi_parts final) = fr_total part \<Longrightarrow> assemble_parts [0..<fr_total part] (pi_parts final) = Inr out \<Longrightarrow>
    fragment_effect now contact scope key part pending
      (Inr (Some \<lparr>rp_bytes = out, rp_lobby_id = fr_lobby_id part\<rparr>)) (AList.delete key pending)"

lemma admitted_rbind:
  "rbind (if map_of pending key = None then reject_new_incomplete_message pending contact scope else Inr ())
     (\<lambda>_. reject_global_fragment_budget pending key part) = Inr () \<longleftrightarrow> admitted pending contact scope key part"
  by (auto simp: admitted_def rbind_Inr_iff)

lemma entry_for_again:
  "map_of (pi_parts (entry_for now key part pending)) i = Some b \<Longrightarrow> map_of pending key = Some (entry_for now key part pending)"
  by (auto simp: entry_for_def split: option.splits)

lemma assemble_updated:
  "assemble_payload key lobby (AList.update key e pending) =
     (rbind (assemble_parts [0..<pi_total e] (pi_parts e)) (\<lambda>out. Inr \<lparr>rp_bytes = out, rp_lobby_id = lobby\<rparr>),
      AList.delete key pending)"
  by (simp add: assemble_payload_def update_conv' delete_update_same)

definition finish_entry :: "PendingFragmentKey \<Rightarrow> LobbyId option \<Rightarrow> PendingInboundFragments \<Rightarrow> PendingMap \<Rightarrow>
    ReassembledPayload option HydraResult \<times> PendingMap" where
  "finish_entry key lobby e pending =
     (if length (pi_parts e) \<noteq> pi_total e then (Inr None, AList.update key e pending)
      else case assemble_parts [0..<pi_total e] (pi_parts e) of
        Inl err \<Rightarrow> (Inl err, AList.delete key pending)
      | Inr out \<Rightarrow> (Inr (Some \<lparr>rp_bytes = out, rp_lobby_id = lobby\<rparr>), AList.delete key pending))"

lemma finish_entry:
  "(if \<not> length (pi_parts e) = pi_total e then (Inr None, AList.update key e pending)
    else st_bind (assemble_payload key lobby) (\<lambda>payload. st_lift (Inr (Some payload))) (AList.update key e pending)) =
   finish_entry key lobby e pending"
  by (simp add: finish_entry_def assemble_updated st_bind_def st_lift_def split: sum.split)

definition table_step :: "nat \<Rightarrow> PendingFragmentKey \<Rightarrow> FragmentRecord \<Rightarrow> PendingMap \<Rightarrow>
    ReassembledPayload option HydraResult \<times> PendingMap" where
  "table_step now key part pending =
     (case update_pending_entry now key part pending of
        (Inl e, pending) \<Rightarrow> (Inl e, AList.delete key pending)
      | (Inr complete, pending) \<Rightarrow>
          if \<not> complete then (Inr None, pending)
          else st_bind (assemble_payload key (fr_lobby_id part)) (\<lambda>payload. st_lift (Inr (Some payload))) pending)"

lemma table_step_again:
  assumes "pi_total (entry_for now key part pending) = fr_total part"
    and "map_of (pi_parts (entry_for now key part pending)) (fr_index part) = Some (fr_bytes part)"
  shows "table_step now key part pending = finish_entry key (fr_lobby_id part) (entry_for now key part pending) pending"
  unfolding table_step_def update_pending_again [OF assms] finish_entry [symmetric] using assms by simp

lemma table_step_new:
  assumes "new_part (entry_for now key part pending) part"
  shows "table_step now key part pending =
    finish_entry key (fr_lobby_id part) (add_part part (entry_for now key part pending)) pending"
proof -
  have "pi_total (add_part part (entry_for now key part pending)) = fr_total part"
    using assms by (simp add: new_part_def add_part_def)
  then show ?thesis
    unfolding table_step_def update_pending_new [OF assms] finish_entry [symmetric] by simp
qed

lemma apply_fragment_eq:
  assumes kind: "fr_kind part = kind" and scope: "fragment_scope (fr_kind part) (fr_lobby_id part) = Inr scope"
  shows "apply_fragment_record now contact kind part pending0 =
    (let key = key_of contact scope kind part; pending = expire_stale_fragments now pending0 in
     case rbind (if map_of pending key = None then reject_new_incomplete_message pending contact scope else Inr ())
       (\<lambda>_. reject_global_fragment_budget pending key part) of
       Inl e \<Rightarrow> (Inl e, pending) | Inr _ \<Rightarrow> table_step now key part pending)"
  using kind scope unfolding apply_fragment_record_def key_of_def Let_def st_bind_def st_lift_def st_modify_def table_step_def
  by (simp split: sum.split)

lemma apply_fragment_effect:
  assumes kind: "fr_kind part = kind" and scope: "fragment_scope (fr_kind part) (fr_lobby_id part) = Inr scope"
    and run: "apply_fragment_record now contact kind part pending0 = (r, pending')"
  shows "fragment_effect now contact scope (key_of contact scope kind part) part (expire_stale_fragments now pending0) r pending'"
proof -
  let ?key = "key_of contact scope kind part" and ?p = "expire_stale_fragments now pending0"
  let ?e = "entry_for now ?key part ?p"
  let ?adm = "rbind (if map_of ?p ?key = None then reject_new_incomplete_message ?p contact scope else Inr ())
     (\<lambda>_. reject_global_fragment_budget ?p ?key part)"
  note eq = apply_fragment_eq [OF kind scope, of now contact pending0, unfolded Let_def]
  show ?thesis
  proof (cases ?adm)
    case (Inl e)
    then have "\<not> admitted ?p contact scope ?key part" using admitted_rbind [of ?p ?key contact scope part] by auto
    then show ?thesis using run Inl by (auto simp: eq intro: fragment_refused)
  next
    case (Inr u)
    then have adm: "admitted ?p contact scope ?key part"
      using admitted_rbind [of ?p ?key contact scope part] by simp
    have step: "table_step now ?key part ?p = (r, pending')" using run Inr by (simp add: eq)
    show ?thesis
    proof (cases rule: update_pending_cases [of now ?key part ?p])
      case (failed e)
      then show ?thesis using step by (auto simp: table_step_def delete_update_same intro: fragment_dropped)
    next
      case again
      note present = entry_for_again [OF again(2)]
      have "AList.update ?key ?e ?p = ?p" by (rule update_triv [OF present])
      then show ?thesis
        using again fragment_repeated [OF present again(1,2)] present step [unfolded table_step_again [OF again]]
        by (auto simp: finish_entry_def split: if_splits sum.splits
            intro: fragment_dropped fragment_completed [OF refl, where final = ?e])
    next
      case added
      have n: "pi_total (add_part part ?e) = fr_total part" using added by (simp add: new_part_def add_part_def)
      then show ?thesis
        using added fragment_stored [OF adm refl added] step [unfolded table_step_new [OF added]]
        by (auto simp: finish_entry_def split: if_splits sum.splits
            intro: fragment_dropped fragment_completed [OF refl, where final = "add_part part ?e"])
    qed
  qed
qed

section \<open>The limits\<close>

definition total_of :: "(PendingInboundFragments \<Rightarrow> nat) \<Rightarrow> PendingMap \<Rightarrow> nat" where
  "total_of g pending = sum_list (map (\<lambda>(_, e). g e) pending)"

definition count_of :: "(PendingFragmentKey \<Rightarrow> bool) \<Rightarrow> PendingMap \<Rightarrow> nat" where
  "count_of P pending = length (filter (\<lambda>(k, _). P k) pending)"

definition entry_ok :: "PendingInboundFragments \<Rightarrow> bool" where
  "entry_ok e \<longleftrightarrow> distinct (map fst (pi_parts e)) \<and> pi_parts e \<noteq> [] \<and> (\<forall>(i, _) \<in> set (pi_parts e). i < pi_total e) \<and>
     length (pi_parts e) < pi_total e \<and> pi_total e \<le> MAX_FRAGMENTS_PER_MESSAGE \<and>
     pi_received_bytes e = sum_list (map (\<lambda>(_, b). length b) (pi_parts e)) \<and>
     pi_received_bytes e \<le> MAX_FRAGMENTED_PAYLOAD_BYTES"

definition pending_ok :: "PendingMap \<Rightarrow> bool" where
  "pending_ok pending \<longleftrightarrow> distinct (map fst pending) \<and> (\<forall>(_, e) \<in> set pending. entry_ok e) \<and>
     count_of (\<lambda>_. True) pending \<le> MAX_INCOMPLETE_MESSAGES \<and>
     (\<forall>c. count_of (\<lambda>k. pk_from k = c) pending \<le> MAX_INCOMPLETE_MESSAGES_PER_CONTACT) \<and>
     (\<forall>l. count_of (\<lambda>k. pk_lobby_id k = Some l) pending \<le> MAX_INCOMPLETE_MESSAGES_PER_LOBBY) \<and>
     total_of (\<lambda>e. length (pi_parts e)) pending \<le> MAX_PENDING_FRAGMENTS \<and>
     total_of pi_received_bytes pending \<le> MAX_PENDING_FRAGMENT_BYTES"

lemma pending_ok_Nil [simp]: "pending_ok []"
  by (simp add: pending_ok_def count_of_def total_of_def)

lemma filter_smaller:
  "count_of Q (filter P pending) \<le> count_of Q pending" "total_of g (filter P pending) \<le> total_of g pending"
  unfolding count_of_def total_of_def by (rule count_filter_filter sum_alist_filter)+

lemma pending_ok_filter: "pending_ok pending \<Longrightarrow> pending_ok (filter P pending)"
  unfolding pending_ok_def by (auto simp: distinct_map_filter intro: order_trans [OF filter_smaller(1)] order_trans [OF filter_smaller(2)])

lemma reject_new_iff:
  "reject_new_incomplete_message pending contact scope = Inr u \<longleftrightarrow>
     count_of (\<lambda>_. True) pending < MAX_INCOMPLETE_MESSAGES \<and>
     count_of (\<lambda>k. pk_from k = contact) pending < MAX_INCOMPLETE_MESSAGES_PER_CONTACT \<and>
     (\<forall>l. scope = SK_Lobby l \<longrightarrow> count_of (\<lambda>k. pk_lobby_id k = Some l) pending < MAX_INCOMPLETE_MESSAGES_PER_LOBBY)"
  by (cases scope)
    (auto simp: reject_new_incomplete_message_def Let_def rbind_Inr_iff ensure_Inr_iff count_of_def not_le
      MAX_INCOMPLETE_MESSAGES_PER_LOBBY_def case_prod_beta)

lemma budget_iff:
  assumes "map_of (pi_parts (entry_for now key part pending)) (fr_index part) = None"
  shows "reject_global_fragment_budget pending key part = Inr u \<longleftrightarrow>
    total_of (\<lambda>e. length (pi_parts e)) pending < MAX_PENDING_FRAGMENTS \<and>
    total_of pi_received_bytes pending + length (fr_bytes part) \<le> MAX_PENDING_FRAGMENT_BYTES"
proof -
  have "(case map_of pending key of None \<Rightarrow> False | Some e \<Rightarrow> map_of (pi_parts e) (fr_index part) \<noteq> None) = False"
    using assms by (simp add: entry_for_def split: option.splits)
  then show ?thesis
    using foldl_saturating [of 0 "\<lambda>e. length (pi_parts e)" pending] foldl_saturating [of 0 pi_received_bytes pending]
    by (auto simp: reject_global_fragment_budget_def Let_def rbind_Inr_iff ensure_Inr_iff total_of_def case_prod_beta
        checked_add_usize_def MAX_PENDING_FRAGMENTS_def MAX_PENDING_FRAGMENT_BYTES_def usize_max_def min_def split: if_splits)
qed

lemma total_of_update:
  assumes "distinct (map fst pending)" and "g (entry_for now key part []) = 0"
  shows "total_of g (AList.update key e pending) + g (entry_for now key part pending) = total_of g pending + g e"
  using sum_alist_update [OF assms(1), of g key e] assms(2)
  by (auto simp: total_of_def entry_for_def split: option.splits)

lemma entry_for_cases:
  assumes "pending_ok pending"
  shows "entry_for now key part pending = entry_for now key part [] \<and> map_of pending key = None \<or>
    map_of pending key = Some (entry_for now key part pending) \<and> entry_ok (entry_for now key part pending)"
  using assms by (auto simp: entry_for_def pending_ok_def dest!: map_of_SomeD split: option.splits)

lemma add_part_ok:
  assumes ok: "pending_ok pending" and new: "new_part (entry_for now key part pending) part" and pos: "position_ok part"
    and e': "e' = add_part part (entry_for now key part pending)"
  shows "distinct (map fst (pi_parts e'))" and "\<forall>(i, _) \<in> set (pi_parts e'). i < fr_total part" and "pi_total e' = fr_total part"
    and "length (pi_parts e') = Suc (length (pi_parts (entry_for now key part pending)))" and "pi_parts e' \<noteq> []"
    and "pi_received_bytes e' = sum_list (map (\<lambda>(_, b). length b) (pi_parts e'))"
    and "pi_received_bytes e' \<le> MAX_FRAGMENTED_PAYLOAD_BYTES" and "length (pi_parts e') \<le> fr_total part"
proof -
  let ?e = "entry_for now key part pending"
  have old: "distinct (map fst (pi_parts ?e))" "\<forall>(i, _) \<in> set (pi_parts ?e). i < fr_total part"
      "pi_received_bytes ?e = sum_list (map (\<lambda>(_, b). length b) (pi_parts ?e))" "length (pi_parts ?e) < fr_total part"
    using entry_for_cases [OF ok, of now key part] new pos
    by (auto simp: entry_ok_def new_part_def entry_for_def position_ok_def)
  have none: "map_of (pi_parts ?e) (fr_index part) = None" and n: "pi_total ?e = fr_total part"
    using new by (simp_all add: new_part_def)
  show "distinct (map fst (pi_parts e'))" using old(1) by (simp add: e' add_part_def distinct_update)
  show "\<forall>(i, _) \<in> set (pi_parts e'). i < fr_total part"
    using old(2) pos by (auto simp: e' add_part_def position_ok_def dest!: update_mem)
  show "pi_total e' = fr_total part" by (simp add: e' add_part_def n)
  have "length (pi_parts e') = Suc (length (pi_parts ?e))"
    using count_alist_update [of "\<lambda>_. True" "fr_index part" "fr_bytes part" "pi_parts ?e"] none
    by (simp add: e' add_part_def case_prod_beta)
  then show "length (pi_parts e') = Suc (length (pi_parts ?e))" "length (pi_parts e') \<le> fr_total part" "pi_parts e' \<noteq> []"
    using old(4) by auto
  show "pi_received_bytes e' = sum_list (map (\<lambda>(_, b). length b) (pi_parts e'))"
    using sum_alist_update [OF old(1), of length "fr_index part" "fr_bytes part"] none old(3) by (simp add: e' add_part_def)
  show "pi_received_bytes e' \<le> MAX_FRAGMENTED_PAYLOAD_BYTES"
    using new by (simp add: e' add_part_def new_part_def)
qed

lemma fragment_effect_ok:
  assumes ok: "pending_ok pending" and pos: "position_ok part" and key: "pk_from key = contact" "pk_scope key = scope"
    and eff: "fragment_effect now contact scope key part pending r pending'"
  shows "pending_ok pending'"
  using eff
proof cases
  case (fragment_stored e)
  let ?e' = "add_part part e"
  note part = add_part_ok [OF ok fragment_stored(5) [unfolded fragment_stored(4)] pos refl, folded fragment_stored(4)]
  have d: "distinct (map fst pending)" using ok by (simp add: pending_ok_def)
  have none: "map_of (pi_parts (entry_for now key part pending)) (fr_index part) = None"
    using fragment_stored(4,5) by (simp add: new_part_def)
  have fresh: "map_of pending key = None \<Longrightarrow> reject_new_incomplete_message pending contact scope = Inr ()"
    and budget: "reject_global_fragment_budget pending key part = Inr ()"
    using fragment_stored(3) by (simp_all add: admitted_def)
  have "total_of (\<lambda>e. length (pi_parts e)) pending' = Suc (total_of (\<lambda>e. length (pi_parts e)) pending)"
    using total_of_update [OF d, of "\<lambda>e. length (pi_parts e)" now key part ?e'] part(4) fragment_stored(2,4)
    by (simp add: entry_for_def)
  moreover have "total_of pi_received_bytes pending' = total_of pi_received_bytes pending + length (fr_bytes part)"
    using total_of_update [OF d, of pi_received_bytes now key part ?e'] fragment_stored(2,4)
    by (simp add: entry_for_def add_part_def)
  moreover have "entry_ok ?e'"
    using part fragment_stored(6) pos by (simp add: entry_ok_def position_ok_def)
  moreover have "count_of P pending' = count_of P pending + (if map_of pending key = None \<and> P key then 1 else 0)" for P
    unfolding count_of_def fragment_stored(2) by (rule count_alist_update)
  moreover have "pk_lobby_id key = Some l \<longleftrightarrow> scope = SK_Lobby l" for l
    using key by (cases scope) (simp_all add: pk_lobby_id_def)
  ultimately show ?thesis
    using ok d fresh budget key unfolding budget_iff [OF none]
    by (auto simp: pending_ok_def fragment_stored(2) distinct_update reject_new_iff dest!: update_mem)
qed (use ok pending_ok_filter in \<open>simp_all add: alist_delete_filter\<close>)

lemma receive_cases:
  assumes run: "receive_fragmented_payload now contact kind payload pending = (r, pending')" and len: "length payload \<le> usize_max"
  obtains (same) "pending' = pending" "(\<exists>e. r = Inl e) \<or> r = Inr (Some (payload, None)) \<and> \<not> starts_with payload FRAGMENT_MAGIC"
  | (expired) e where "pending' = expire_stale_fragments now pending" "r = Inl e"
  | (fragment) part scope res where "payload = record_bytes part" "record_wf part" "position_ok part" "fr_kind part = kind"
      "fragment_scope kind (fr_lobby_id part) = Inr scope"
      "fragment_effect now contact scope (key_of contact scope kind part) part (expire_stale_fragments now pending) res pending'"
      "r = rbind res (\<lambda>o'. Inr (map_option (\<lambda>p. (rp_bytes p, rp_lobby_id p)) o'))"
proof (cases "decode_fragment_record payload")
  case (Inl e)
  then show thesis using run same by (auto simp: receive_fragmented_payload_def st_bind_def st_lift_def)
next
  case (Inr decoded)
  show thesis
  proof (cases decoded)
    case None
    then show thesis
      using run same Inr decode_fragment_None_iff [of payload] by (simp add: receive_fragmented_payload_def st_bind_def st_lift_def)
  next
    case (Some part)
    note wf = decode_fragment_Some_iff [OF len, THEN iffD1, OF Inr [unfolded Some]]
    obtain res where app: "apply_fragment_record now contact kind part pending = (res, pending')"
        and r: "r = rbind res (\<lambda>o'. Inr (map_option (\<lambda>p. (rp_bytes p, rp_lobby_id p)) o'))"
      using run Inr Some
      by (auto simp: receive_fragmented_payload_def st_bind_def st_lift_def split: prod.splits sum.splits)
    show thesis
    proof (cases "fr_kind part = kind")
      case False
      then show thesis using app r same by (auto simp: apply_fragment_record_def st_bind_def st_lift_def)
    next
      case kind: True
      show thesis
      proof (cases "fragment_scope (fr_kind part) (fr_lobby_id part)")
        case (Inl e)
        then show thesis
          using app r kind expired by (auto simp: apply_fragment_record_def st_bind_def st_lift_def st_modify_def)
      next
        case (Inr scope)
        then show thesis
          using fragment [of part scope res] wf kind r apply_fragment_effect [OF kind Inr app] by simp
      qed
    qed
  qed
qed

lemma receive_pending_ok:
  assumes "pending_ok pending" and "receive_fragmented_payload now contact kind payload pending = (r, pending')"
    and "length payload \<le> usize_max"
  shows "pending_ok pending'"
  using assms(2,3)
proof (cases rule: receive_cases)
  case (fragment part scope res)
  then show ?thesis
    using fragment_effect_ok [OF _ fragment(3) _ _ fragment(6)] pending_ok_filter [OF assms(1)]
    by (simp add: expire_stale_fragments_def key_of_def)
qed (use assms(1) pending_ok_filter in \<open>simp_all add: expire_stale_fragments_def\<close>)

section \<open>Where the bytes come from\<close>

text \<open>\<open>received_part H k n i b\<close>: a packet in the history \<open>H\<close> of (contact, kind, packet) carried part \<open>i\<close> of \<open>n\<close> of
  the message with key \<open>k\<close>.\<close>

definition received_part :: "(ContactId \<times> FragmentKind \<times> bytes) set \<Rightarrow> PendingFragmentKey \<Rightarrow> nat \<Rightarrow> nat \<Rightarrow> bytes \<Rightarrow> bool" where
  "received_part H k n i b \<longleftrightarrow> (\<exists>lobby. fragment_scope (pk_kind k) lobby = Inr (pk_scope k) \<and>
     (pk_from k, pk_kind k, record_bytes \<lparr>fr_kind = pk_kind k, fr_lobby_id = lobby, fr_fragment_id = pk_fragment_id k,
        fr_total = n, fr_index = i, fr_bytes = b\<rparr>) \<in> H)"

definition stored_from :: "(ContactId \<times> FragmentKind \<times> bytes) set \<Rightarrow> PendingMap \<Rightarrow> bool" where
  "stored_from H pending \<longleftrightarrow> (\<forall>(k, e) \<in> set pending. \<forall>(i, b) \<in> set (pi_parts e). received_part H k (pi_total e) i b)"

lemma stored_fromD:
  "stored_from H pending \<Longrightarrow> (k, e) \<in> set pending \<Longrightarrow> (i, b) \<in> set (pi_parts e) \<Longrightarrow> received_part H k (pi_total e) i b"
  by (auto simp: stored_from_def)

lemma received_part_mono: "received_part H k n i b \<Longrightarrow> H \<subseteq> H' \<Longrightarrow> received_part H' k n i b"
  by (auto simp: received_part_def)

lemma stored_from_mono: "stored_from H pending \<Longrightarrow> H \<subseteq> H' \<Longrightarrow> stored_from H' pending"
  unfolding stored_from_def by (blast intro: received_part_mono)

lemma stored_from_filter: "stored_from H pending \<Longrightarrow> stored_from H (filter P pending)"
  by (auto simp: stored_from_def)

lemma received_now:
  assumes "fragment_scope (fr_kind part) (fr_lobby_id part) = Inr scope" and "(contact, fr_kind part, record_bytes part) \<in> H"
  shows "received_part H (key_of contact scope (fr_kind part) part) (fr_total part) (fr_index part) (fr_bytes part)"
  using assms by (cases part) (auto simp: received_part_def key_of_def)

lemma fragment_effect_stored:
  assumes ok: "pending_ok pending" and H: "stored_from H pending" and pos: "position_ok part"
    and now: "received_part H key (fr_total part) (fr_index part) (fr_bytes part)"
    and eff: "fragment_effect now contact scope key part pending r pending'"
  shows "stored_from H pending'"
    and "r = Inr (Some p) \<Longrightarrow> \<exists>f. rp_bytes p = concat (map f [0..<fr_total part]) \<and> rp_lobby_id p = fr_lobby_id part \<and>
      (\<forall>i < fr_total part. received_part H key (fr_total part) i (f i))"
proof -
  have new: "\<forall>(i, b) \<in> set (pi_parts (add_part part e)). received_part H key (fr_total part) i b"
    if e: "e = entry_for now key part pending" and np: "new_part e part" for e
  proof -
    have "\<forall>(i, b) \<in> set (pi_parts e). received_part H key (fr_total part) i b"
    proof (cases "map_of pending key")
      case (Some e')
      then have "(key, e) \<in> set pending" "pi_total e = fr_total part"
        using np by (auto simp: e entry_for_def new_part_def dest: map_of_SomeD)
      then show ?thesis using stored_fromD [OF H] by fastforce
    qed (simp add: e entry_for_def)
    then show ?thesis
      using now by (auto simp: add_part_def dest!: update_mem)
  qed
  show "stored_from H pending'"
    using eff
  proof cases
    case (fragment_stored e)
    then show ?thesis
      using H new [of e] add_part_ok(3) [OF ok _ pos refl, of now key]
      by (auto simp: stored_from_def dest!: update_mem)
  qed (use H in \<open>simp_all add: alist_delete_filter stored_from_filter\<close>)
  show "\<exists>f. rp_bytes p = concat (map f [0..<fr_total part]) \<and> rp_lobby_id p = fr_lobby_id part \<and>
      (\<forall>i < fr_total part. received_part H key (fr_total part) i (f i))" if r: "r = Inr (Some p)"
    using eff
  proof cases
    case (fragment_completed e final out)
    have np: "new_part e part" and final: "final = add_part part e"
      using fragment_completed ok by (auto simp: pending_ok_def entry_ok_def dest!: map_of_SomeD)
    note part = add_part_ok [OF ok np [unfolded fragment_completed(3)] pos refl, folded fragment_completed(3) final]
    note all = complete_parts [OF part(1,2) fragment_completed(5)]
    have "out = concat (map (\<lambda>i. the (map_of (pi_parts final) i)) [0..<fr_total part])"
      using fragment_completed(6) assemble_parts_total [OF _ all] by simp
    moreover have "received_part H key (fr_total part) i (the (map_of (pi_parts final) i))" if i: "i < fr_total part" for i
    proof -
      obtain b where b: "map_of (pi_parts final) i = Some b" using all i by fastforce
      then show ?thesis using new [OF fragment_completed(3) np] map_of_SomeD [OF b] by (auto simp: final)
    qed
    ultimately show ?thesis using fragment_completed(1) r by auto
  qed (use r in simp_all)
qed

type_synonym arrival = "nat \<times> ContactId \<times> FragmentKind \<times> bytes"

text \<open>A run of the table over arrivals (time, contact, kind, packet).\<close>

fun receive_all :: "arrival list \<Rightarrow> PendingMap \<Rightarrow> (bytes \<times> LobbyId option) option HydraResult list \<times> PendingMap" where
  "receive_all [] pending = ([], pending)"
| "receive_all ((now, contact, kind, payload) # rest) pending =
     (case receive_fragmented_payload now contact kind payload pending of (r, pending) \<Rightarrow>
      case receive_all rest pending of (rs, pending) \<Rightarrow> (r # rs, pending))"

definition arrived :: "arrival list \<Rightarrow> (ContactId \<times> FragmentKind \<times> bytes) set" where
  "arrived as = (\<lambda>(now, contact, kind, payload). (contact, kind, payload)) ` set as"

lemma receive_all_append:
  "receive_all (xs @ ys) pending = (case receive_all xs pending of (rs, p) \<Rightarrow>
     case receive_all ys p of (qs, q) \<Rightarrow> (rs @ qs, q))"
  by (induction xs pending rule: receive_all.induct) (auto split: prod.split)

lemma receive_stored:
  assumes ok: "pending_ok pending" and H: "stored_from H pending" and len: "length payload \<le> usize_max"
    and run: "receive_fragmented_payload now contact kind payload pending = (r, pending')"
    and H': "H' = insert (contact, kind, payload) H"
  shows "stored_from H' pending'"
    and "r = Inr (Some (out, lobby)) \<Longrightarrow> out = payload \<and> lobby = None \<and> \<not> starts_with payload FRAGMENT_MAGIC \<or>
      (\<exists>n fid f. out = concat (map f [0..<n]) \<and> (\<forall>i < n. (contact, kind, record_bytes
         \<lparr>fr_kind = kind, fr_lobby_id = lobby, fr_fragment_id = fid, fr_total = n, fr_index = i, fr_bytes = f i\<rparr>) \<in> H'))"
proof -
  have sub: "H \<subseteq> H'" by (auto simp: H')
  have same_lobby: "l = l'" if "fragment_scope k l = Inr s" "fragment_scope k l' = Inr s" for k l l' s
    using that by (cases k; cases l; cases l') auto
  have "stored_from H' pending' \<and> (r = Inr (Some (out, lobby)) \<longrightarrow> out = payload \<and> lobby = None \<and> \<not> starts_with payload FRAGMENT_MAGIC \<or>
      (\<exists>n fid f. out = concat (map f [0..<n]) \<and> (\<forall>i < n. (contact, kind, record_bytes
         \<lparr>fr_kind = kind, fr_lobby_id = lobby, fr_fragment_id = fid, fr_total = n, fr_index = i, fr_bytes = f i\<rparr>) \<in> H')))"
    using run len
  proof (cases rule: receive_cases)
    case same
    then show ?thesis using stored_from_mono [OF H sub] by auto
  next
    case (expired e)
    then show ?thesis
      using stored_from_filter [OF stored_from_mono [OF H sub]] by (simp add: expire_stale_fragments_def)
  next
    case (fragment part scope res)
    let ?p = "expire_stale_fragments now pending" and ?key = "key_of contact scope kind part"
    have okp: "pending_ok ?p" and Hp: "stored_from H' ?p"
      using pending_ok_filter [OF ok] stored_from_filter [OF stored_from_mono [OF H sub]]
      by (simp_all add: expire_stale_fragments_def)
    have now: "received_part H' ?key (fr_total part) (fr_index part) (fr_bytes part)"
      using received_now [of part scope contact H'] fragment(1,4,5) by (simp add: H')
    note eff = fragment_effect_stored [OF okp Hp fragment(3) now fragment(6)]
    show ?thesis
    proof (intro conjI impI disjI2)
      show "stored_from H' pending'" by (rule eff(1))
      assume "r = Inr (Some (out, lobby))"
      then obtain p where res: "res = Inr (Some p)" and p: "out = rp_bytes p" "lobby = rp_lobby_id p"
        using fragment(7) by (cases res) auto
      from eff(2) [OF res] obtain f where f: "rp_bytes p = concat (map f [0..<fr_total part])" "rp_lobby_id p = fr_lobby_id part"
          "\<forall>i < fr_total part. received_part H' ?key (fr_total part) i (f i)"
        by blast
      have "(contact, kind, record_bytes \<lparr>fr_kind = kind, fr_lobby_id = lobby, fr_fragment_id = fr_fragment_id part,
          fr_total = fr_total part, fr_index = i, fr_bytes = f i\<rparr>) \<in> H'" if i: "i < fr_total part" for i
      proof -
        obtain l where "fragment_scope kind l = Inr scope" "(contact, kind, record_bytes \<lparr>fr_kind = kind, fr_lobby_id = l,
            fr_fragment_id = fr_fragment_id part, fr_total = fr_total part, fr_index = i, fr_bytes = f i\<rparr>) \<in> H'"
          using f(3) i by (auto simp: received_part_def key_of_def)
        moreover have "l = lobby" using same_lobby [OF calculation(1) fragment(5)] p(2) f(2) by simp
        ultimately show ?thesis by simp
      qed
      then show "\<exists>n fid f. out = concat (map f [0..<n]) \<and> (\<forall>i < n. (contact, kind, record_bytes
         \<lparr>fr_kind = kind, fr_lobby_id = lobby, fr_fragment_id = fid, fr_total = n, fr_index = i, fr_bytes = f i\<rparr>) \<in> H')"
        using p f(1) by blast
    qed
  qed
  then show "stored_from H' pending'"
    "r = Inr (Some (out, lobby)) \<Longrightarrow> out = payload \<and> lobby = None \<and> \<not> starts_with payload FRAGMENT_MAGIC \<or>
      (\<exists>n fid f. out = concat (map f [0..<n]) \<and> (\<forall>i < n. (contact, kind, record_bytes
         \<lparr>fr_kind = kind, fr_lobby_id = lobby, fr_fragment_id = fid, fr_total = n, fr_index = i, fr_bytes = f i\<rparr>) \<in> H'))"
    by blast+
qed

lemma receive_all_ok:
  assumes "receive_all as pending = (rs, pending')" and "pending_ok pending" and "stored_from H pending"
    and "\<forall>(now, contact, kind, payload) \<in> set as. length payload \<le> usize_max"
  shows "pending_ok pending' \<and> stored_from (H \<union> arrived as) pending'"
  using assms
proof (induction as pending arbitrary: H rs rule: receive_all.induct)
  case (1 pending)
  then show ?case by (simp add: arrived_def)
next
  case (2 now contact kind payload rest pending)
  obtain r p where r: "receive_fragmented_payload now contact kind payload pending = (r, p)" by fastforce
  have len: "length payload \<le> usize_max" using "2.prems"(4) by simp
  have p: "pending_ok p" "stored_from (insert (contact, kind, payload) H) p"
    using receive_pending_ok [OF "2.prems"(2) r len] receive_stored(1) [OF "2.prems"(2,3) len r refl] by simp_all
  obtain rs' where "receive_all rest p = (rs', pending')" using "2.prems"(1) r by (auto split: prod.splits)
  from "2.IH" [OF r [symmetric] this p] "2.prems"(4) show ?case by (simp add: arrived_def)
qed

section \<open>A whole message\<close>

text \<open>The table while the parts \<open>S\<close> of one message have arrived on top of \<open>base\<close>.\<close>

definition progress :: "PendingFragmentKey \<Rightarrow> nat \<Rightarrow> (nat \<Rightarrow> bytes) \<Rightarrow> nat \<Rightarrow> PendingMap \<Rightarrow> nat set \<Rightarrow> PendingMap \<Rightarrow> bool" where
  "progress key n f t0 base S pending \<longleftrightarrow> (if S = {} then pending = base else
     \<exists>acc. distinct (map fst acc) \<and> set acc = (\<lambda>i. (i, f i)) ` S \<and>
       pending = base @ [(key, \<lparr>pi_parts = acc, pi_total = n,
         pi_received_bytes = sum_list (map (\<lambda>(_, b). length b) acc), pi_created_at = t0\<rparr>)])"

definition fresh_at :: "nat \<Rightarrow> PendingMap \<Rightarrow> bool" where
  "fresh_at now pending \<longleftrightarrow> (\<forall>(_, e) \<in> set pending. now - pi_created_at e \<le> MAX_FRAGMENT_AGE_SECS * 10 ^ 9)"

text \<open>Room for a message of \<open>n\<close> fragments and \<open>bytes\<close> bytes.\<close>

definition room_for :: "ContactId \<Rightarrow> FragmentScopeKey \<Rightarrow> nat \<Rightarrow> nat \<Rightarrow> PendingMap \<Rightarrow> bool" where
  "room_for contact scope n m pending \<longleftrightarrow> reject_new_incomplete_message pending contact scope = Inr () \<and>
     total_of (\<lambda>e. length (pi_parts e)) pending + n \<le> MAX_PENDING_FRAGMENTS \<and>
     total_of pi_received_bytes pending + m \<le> MAX_PENDING_FRAGMENT_BYTES"

lemma fresh_expire: "fresh_at now pending \<Longrightarrow> expire_stale_fragments now pending = pending"
  by (auto simp: fresh_at_def expire_stale_fragments_def intro!: filter_True)

lemma total_of_snoc [simp]: "total_of g (pending @ [(k, e)]) = total_of g pending + g e"
  by (simp add: total_of_def)

lemma alist_snoc:
  "map_of xs k = None \<Longrightarrow> AList.update k v xs = xs @ [(k, v)]"
  "map_of xs k = None \<Longrightarrow> map_of (xs @ [(k, w)]) k = Some w"
  "map_of xs k = None \<Longrightarrow> AList.update k v (xs @ [(k, w)]) = xs @ [(k, v)]"
  "map_of xs k = None \<Longrightarrow> AList.delete k xs = xs"
  "map_of xs k = None \<Longrightarrow> AList.delete k (xs @ [(k, w)]) = xs"
  by (induction xs) (auto split: if_splits)

lemma sum_parts_le:
  assumes "distinct (map fst acc)" and "set acc = (\<lambda>i. (i, f i)) ` S" and "S \<subseteq> {..<n}"
  shows "sum_list (map (\<lambda>(_, b). length b) acc) \<le> length (concat (map f [0..<n]))" and "length acc = card S"
proof -
  have d: "distinct acc" using assms(1) by (simp add: distinct_map)
  have inj: "inj_on (\<lambda>i. (i, f i)) S" by (auto simp: inj_on_def)
  have "sum_list (map (\<lambda>(_, b). length b) acc) = (\<Sum>x \<in> set acc. (\<lambda>(_, b). length b) x)"
    by (rule sum_list_distinct_conv_sum_set [OF d])
  also have "\<dots> = (\<Sum>i \<in> S. length (f i))" by (simp add: assms(2) sum.reindex [OF inj])
  also have "\<dots> \<le> (\<Sum>i \<in> {..<n}. length (f i))" by (rule sum_mono2) (use assms(3) in auto)
  also have "\<dots> = length (concat (map f [0..<n]))"
    by (simp add: length_concat sum_list_distinct_conv_sum_set atLeast0LessThan comp_def)
  finally show "sum_list (map (\<lambda>(_, b). length b) acc) \<le> length (concat (map f [0..<n]))" .
  show "length acc = card S"
    using distinct_card [OF d] assms(2) card_image [OF inj] by simp
qed

lemma progress_step:
  assumes key: "key = \<lparr>pk_from = contact, pk_scope = scope, pk_kind = kind, pk_fragment_id = fid\<rparr>"
    and part: "part = \<lparr>fr_kind = kind, fr_lobby_id = lobby, fr_fragment_id = fid, fr_total = n, fr_index = i, fr_bytes = f i\<rparr>"
    and scope: "fragment_scope kind lobby = Inr scope" and base: "map_of base key = None"
    and room: "room_for contact scope n (length (concat (map f [0..<n]))) base"
    and small: "length (concat (map f [0..<n])) \<le> MAX_FRAGMENTED_PAYLOAD_BYTES"
    and i: "i < n" and S: "S \<subset> {..<n}" and prog: "progress key n f t0 base S pending" and fresh: "fresh_at now pending"
  shows "apply_fragment_record now contact kind part pending =
      (if insert i S = {..<n} then (Inr (Some \<lparr>rp_bytes = concat (map f [0..<n]), rp_lobby_id = lobby\<rparr>), base)
       else (Inr None, snd (apply_fragment_record now contact kind part pending)))" (is ?result)
    and "insert i S \<noteq> {..<n} \<Longrightarrow> progress key n f (if S = {} then now else t0) base (insert i S)
      (snd (apply_fragment_record now contact kind part pending))" (is "_ \<Longrightarrow> ?progress")
proof -
  define t where "t = (if S = {} then now else t0)"
  define E where "E acc = \<lparr>pi_parts = acc, pi_total = n, pi_received_bytes = sum_list (map (\<lambda>(_, b). length b) acc),
      pi_created_at = t\<rparr>" for acc :: "(nat \<times> bytes) list"
  obtain acc where acc: "distinct (map fst acc)" "set acc = (\<lambda>i. (i, f i)) ` S"
      and pending: "pending = (if S = {} then base else base @ [(key, E acc)])"
    using prog by (cases "S = {}") (auto simp: progress_def E_def t_def intro: that [of "[]"])
  have e: "entry_for now key part pending = E acc"
    using acc(2) base by (cases "S = {}") (simp_all add: entry_for_def pending map_add_def part E_def t_def)
  have sums: "sum_list (map (\<lambda>(_, b). length b) acc) \<le> length (concat (map f [0..<n]))" "length acc = card S"
    using sum_parts_le [OF acc] S by auto
  have S': "finite S" "card S < n" using S psubset_card_mono [OF _ S] by (auto intro: finite_subset [of S "{..<n}"])
  have key': "key_of contact scope kind part = key" by (simp add: key_of_def key part)
  have new: "map_of pending key = None \<longleftrightarrow> S = {}" using base by (simp add: pending map_add_def)
  have fields: "fr_kind part = kind" "fragment_scope (fr_kind part) (fr_lobby_id part) = Inr scope"
    using scope by (simp_all add: part)
  have eq: "apply_fragment_record now contact kind part pending = table_step now key part pending"
    if "reject_global_fragment_budget pending key part = Inr ()"
  proof -
    have "admitted pending contact scope key part"
      using that new room by (simp add: admitted_def room_for_def pending)
    then show ?thesis
      unfolding apply_fragment_eq [OF fields] Let_def key' fresh_expire [OF fresh] by (simp add: admitted_rbind [THEN iffD2])
  qed
  have "?result \<and> (insert i S \<noteq> {..<n} \<longrightarrow> ?progress)"
  proof (cases "i \<in> S")
    case True
    then have present: "map_of acc i = Some (f i)" using acc by (auto simp: map_of_eq_Some_iff)
    have "map_of pending key = Some (E acc)" using base True by (auto simp: pending map_add_def)
    then have "reject_global_fragment_budget pending key part = Inr ()"
      using present by (simp add: reject_global_fragment_budget_def part E_def)
    then have "apply_fragment_record now contact kind part pending = finish_entry key lobby (E acc) pending"
      using eq table_step_again [of now key part pending] present by (simp add: e) (simp add: part E_def)
    also have "\<dots> = (Inr None, pending)"
      using S'(2) \<open>map_of pending key = Some (E acc)\<close> by (simp add: finish_entry_def E_def sums(2) update_triv)
    finally show ?thesis
      using True S prog by (auto simp: insert_absorb)
  next
    case False
    let ?acc = "acc @ [(i, f i)]"
    have none: "map_of acc i = None" using False acc(2) by (auto simp: map_of_eq_None_iff)
    have acc': "distinct (map fst ?acc)" "set ?acc = (\<lambda>i. (i, f i)) ` insert i S"
      using acc none by (auto simp: map_of_eq_None_iff)
    have sub: "insert i S \<subseteq> {..<n}" using S i by auto
    note sums' = sum_parts_le [OF acc' sub]
    have bytes: "sum_list (map (\<lambda>(_, b). length b) acc) + length (f i) \<le> length (concat (map f [0..<n]))"
      using sums'(1) by simp
    have np: "new_part (E acc) part" using none small bytes by (simp add: new_part_def E_def part)
    have add: "add_part part (E acc) = E ?acc"
      using none by (simp add: add_part_def E_def part alist_snoc(1))
    have none': "map_of (pi_parts (entry_for now key part pending)) (fr_index part) = None"
      unfolding e using none by (simp add: E_def part)
    have "reject_global_fragment_budget pending key part = Inr ()"
      unfolding budget_iff [OF none'] using room S' bytes sums(2) by (auto simp: part E_def pending room_for_def)
    then have run: "apply_fragment_record now contact kind part pending = finish_entry key lobby (E ?acc) pending"
      using eq table_step_new [of now key part pending] np by (simp add: e add) (simp add: part)
    have upd: "AList.update key (E ?acc) pending = base @ [(key, E ?acc)]" "AList.delete key pending = base"
      using base by (simp_all add: pending alist_snoc)
    show ?thesis
    proof (cases "insert i S = {..<n}")
      case True
      have all: "\<forall>j \<in> set [0..<n]. map_of ?acc j = Some (f j)"
        using acc' True by (auto simp: map_of_eq_Some_iff simp del: map_of_append)
      have "length ?acc = n" using sums'(2) True by simp
      moreover have "assemble_parts [0..<n] ?acc = Inr (concat (map f [0..<n]))"
        by (rule assemble_parts_all [OF _ all]) simp
      ultimately show ?thesis using True upd(2) by (simp add: run finish_entry_def E_def)
    next
      case neq: False
      have "card (insert i S) < n" using psubset_card_mono [of "{..<n}" "insert i S"] sub neq by auto
      then have "length ?acc \<noteq> n" using sums'(2) by simp
      then have "apply_fragment_record now contact kind part pending = (Inr None, base @ [(key, E ?acc)])"
        using upd(1) by (simp add: run finish_entry_def E_def)
      then show ?thesis
        using neq acc' by (auto simp: progress_def E_def t_def intro!: exI [of _ ?acc])
    qed
  qed
  then show ?result "insert i S \<noteq> {..<n} \<Longrightarrow> ?progress" by blast+
qed

definition message_part :: "FragmentKind \<Rightarrow> LobbyId option \<Rightarrow> bytes \<Rightarrow> nat \<Rightarrow> (nat \<Rightarrow> bytes) \<Rightarrow> nat \<Rightarrow> FragmentRecord" where
  "message_part kind lobby fid n f i =
     \<lparr>fr_kind = kind, fr_lobby_id = lobby, fr_fragment_id = fid, fr_total = n, fr_index = i, fr_bytes = f i\<rparr>"

definition message_fits :: "ContactId \<Rightarrow> FragmentScopeKey \<Rightarrow> FragmentKind \<Rightarrow> LobbyId option \<Rightarrow> bytes \<Rightarrow> nat \<Rightarrow>
    (nat \<Rightarrow> bytes) \<Rightarrow> PendingMap \<Rightarrow> bool" where
  "message_fits contact scope kind lobby fid n f base \<longleftrightarrow> fragment_scope kind lobby = Inr scope \<and>
     map_of base \<lparr>pk_from = contact, pk_scope = scope, pk_kind = kind, pk_fragment_id = fid\<rparr> = None \<and>
     room_for contact scope n (length (concat (map f [0..<n]))) base \<and>
     length (concat (map f [0..<n])) \<le> MAX_FRAGMENTED_PAYLOAD_BYTES \<and> n \<le> MAX_FRAGMENTS_PER_MESSAGE \<and>
     (\<forall>i < n. record_wf (message_part kind lobby fid n f i))"

lemma record_bytes_small:
  assumes "record_wf r"
  shows "length (record_bytes r) \<le> usize_max"
proof -
  have "length (scope_bytes (fr_kind r, fr_lobby_id r)) \<le> 33"
    using assms by (auto simp: record_wf_def scope_wf_def scope_bytes_def split: option.split FragmentKind.split)
  then show ?thesis
    using assms by (simp add: record_bytes_def record_wf_def FRAGMENT_MAGIC_def FULL_MAX_CONTENT_SIZE_def usize_max_def)
qed

lemma receive_record:
  assumes "record_wf part" and "position_ok part"
  shows "receive_fragmented_payload now contact kind (record_bytes part) pending =
    (case apply_fragment_record now contact kind part pending of (r, p) \<Rightarrow>
       (rbind r (\<lambda>o'. Inr (map_option (\<lambda>c. (rp_bytes c, rp_lobby_id c)) o')), p))"
proof -
  have "decode_fragment_record (record_bytes part) = Inr (Some part)"
    using decode_fragment_Some_iff [OF record_bytes_small [OF assms(1)]] assms by simp
  then show ?thesis
    by (simp add: receive_fragmented_payload_def st_bind_def st_lift_def split: prod.split sum.split)
qed

lemma progress_fresh:
  assumes "progress key n f t0 base S pending" and "fresh_at t base" and "S \<noteq> {} \<longrightarrow> t - t0 \<le> MAX_FRAGMENT_AGE_SECS * 10 ^ 9"
  shows "fresh_at t pending"
  using assms by (auto simp: progress_def fresh_at_def split: if_splits)

definition in_time :: "nat \<Rightarrow> PendingMap \<Rightarrow> nat \<Rightarrow> bool" where
  "in_time t0 base t \<longleftrightarrow> fresh_at t base \<and> t - t0 \<le> MAX_FRAGMENT_AGE_SECS * 10 ^ 9"

lemma message_step:
  assumes fits: "message_fits contact scope kind lobby fid n f base"
    and key: "key = \<lparr>pk_from = contact, pk_scope = scope, pk_kind = kind, pk_fragment_id = fid\<rparr>"
    and i: "i < n" and S: "S \<subset> {..<n}" and prog: "progress key n f t0 base S pending" and time: "in_time t0 base t"
    and first: "S = {} \<longrightarrow> t = t0"
  shows "insert i S = {..<n} \<Longrightarrow> receive_fragmented_payload t contact kind (record_bytes (message_part kind lobby fid n f i)) pending =
      (Inr (Some (concat (map f [0..<n]), lobby)), base)"
    and "insert i S \<noteq> {..<n} \<Longrightarrow> \<exists>p. receive_fragmented_payload t contact kind (record_bytes (message_part kind lobby fid n f i)) pending =
      (Inr None, p) \<and> progress key n f t0 base (insert i S) p"
proof -
  let ?part = "message_part kind lobby fid n f i"
  have fresh: "fresh_at t pending" using progress_fresh [OF prog] time by (simp add: in_time_def)
  have fit: "fragment_scope kind lobby = Inr scope" "map_of base key = None"
      "room_for contact scope n (length (concat (map f [0..<n]))) base"
      "length (concat (map f [0..<n])) \<le> MAX_FRAGMENTED_PAYLOAD_BYTES"
    using fits by (simp_all add: message_fits_def key)
  note step = progress_step [OF key message_part_def [of kind lobby fid n f i] fit i S prog fresh]
  have "record_wf ?part" "position_ok ?part"
    using fits i by (auto simp: message_fits_def position_ok_def message_part_def)
  note rec = receive_record [OF this, of t contact kind pending]
  show "receive_fragmented_payload t contact kind (record_bytes ?part) pending = (Inr (Some (concat (map f [0..<n]), lobby)), base)"
    if "insert i S = {..<n}"
    using step(1) that unfolding rec by simp
  show "\<exists>p. receive_fragmented_payload t contact kind (record_bytes ?part) pending = (Inr None, p) \<and>
      progress key n f t0 base (insert i S) p" if ne: "insert i S \<noteq> {..<n}"
  proof -
    obtain p where "apply_fragment_record t contact kind ?part pending = (Inr None, p)"
      using step(1) ne by (metis (no_types, lifting))
    moreover have "(if S = {} then t else t0) = t0" using first by simp
    ultimately show ?thesis using step(2) [OF ne] unfolding rec by simp
  qed
qed

definition arrivals :: "ContactId \<Rightarrow> FragmentKind \<Rightarrow> bytes list \<Rightarrow> (nat \<times> nat) list \<Rightarrow> arrival list" where
  "arrivals contact kind packets ds = map (\<lambda>(t, i). (t, contact, kind, packets ! i)) ds"

lemma message_run:
  assumes fits: "message_fits contact scope kind lobby fid n f base"
    and key: "key = \<lparr>pk_from = contact, pk_scope = scope, pk_kind = kind, pk_fragment_id = fid\<rparr>"
    and packets: "packets = map (\<lambda>i. record_bytes (message_part kind lobby fid n f i)) [0..<n]"
    and "\<forall>(t, i) \<in> set ds. i < n \<and> in_time t0 base t" and "S \<union> snd ` set ds \<subset> {..<n}"
    and "progress key n f t0 base S pending" and "S = {} \<longrightarrow> ds \<noteq> [] \<longrightarrow> fst (hd ds) = t0"
  shows "\<exists>p. receive_all (arrivals contact kind packets ds) pending = (replicate (length ds) (Inr None), p) \<and>
    progress key n f t0 base (S \<union> snd ` set ds) p"
  using assms(4-7)
proof (induction ds arbitrary: S pending)
  case Nil
  then show ?case by (simp add: arrivals_def)
next
  case (Cons d ds)
  obtain t i where d: "d = (t, i)" by fastforce
  have i: "i < n" and time: "in_time t0 base t" and first: "S = {} \<longrightarrow> t = t0" using Cons.prems by (auto simp: d)
  have S: "S \<subset> {..<n}" "insert i S \<noteq> {..<n}" using Cons.prems(2) by (auto simp: d)
  have packet: "packets ! i = record_bytes (message_part kind lobby fid n f i)" using i by (simp add: packets)
  from message_step(2) [OF fits key i S(1) Cons.prems(3) time first S(2)] obtain p where
      p: "receive_fragmented_payload t contact kind (packets ! i) pending = (Inr None, p)"
        "progress key n f t0 base (insert i S) p"
    unfolding packet by blast
  have "\<exists>q. receive_all (arrivals contact kind packets ds) p = (replicate (length ds) (Inr None), q) \<and>
      progress key n f t0 base (insert i S \<union> snd ` set ds) q"
    by (rule Cons.IH [OF _ _ p(2)]) (use Cons.prems(1,2) in \<open>auto simp: d\<close>)
  then show ?case using p(1) by (auto simp: arrivals_def d)
qed

lemma message_completes:
  assumes fits: "message_fits contact scope kind lobby fid n f base"
    and packets: "packets = map (\<lambda>i. record_bytes (message_part kind lobby fid n f i)) [0..<n]"
    and times: "\<forall>(t, i) \<in> set ds. i < n \<and> in_time (fst (hd ds)) base t" and all: "snd ` set ds = {..<n}"
    and last: "snd ` set (butlast ds) \<noteq> {..<n}" and n: "0 < n"
  shows "receive_all (arrivals contact kind packets ds) base =
    (replicate (length ds - 1) (Inr None) @ [Inr (Some (concat (map f [0..<n]), lobby))], base)"
proof -
  let ?key = "\<lparr>pk_from = contact, pk_scope = scope, pk_kind = kind, pk_fragment_id = fid\<rparr>"
  obtain xs t i where ds: "ds = xs @ [(t, i)]" using all n by (cases ds rule: rev_cases) auto
  let ?t0 = "fst (hd ds)"
  have xs: "snd ` set xs \<subset> {..<n}" using all last by (auto simp: ds)
  have "progress ?key n f ?t0 base {} base" by (simp add: progress_def)
  moreover have "\<forall>(t, i) \<in> set xs. i < n \<and> in_time ?t0 base t" using times by (auto simp: ds)
  moreover have "xs \<noteq> [] \<longrightarrow> fst (hd xs) = ?t0" by (simp add: ds)
  ultimately obtain p where p: "receive_all (arrivals contact kind packets xs) base = (replicate (length xs) (Inr None), p)"
      "progress ?key n f ?t0 base (snd ` set xs) p"
    using message_run [OF fits refl packets, of xs ?t0 "{}" base] xs by auto
  have i: "i < n" "insert i (snd ` set xs) = {..<n}" and time: "in_time ?t0 base t" using times all by (auto simp: ds)
  have "snd ` set xs = {} \<longrightarrow> t = ?t0" by (auto simp: ds)
  from message_step(1) [OF fits refl i(1) xs p(2) time this i(2)] show ?thesis
    using p(1) i(1) by (simp add: ds arrivals_def receive_all_append packets)
qed

lemma max_payload_bounds:
  assumes "max_payload_content_size packet_size = Inr mx"
  shows "\<exists>c. mx + STATE_GENERATION_BINDING_OVERHEAD = max_content_size c \<and> envelope_size c \<le> packet_size"
    and "mx \<le> FULL_MAX_CONTENT_SIZE"
proof -
  obtain c where c: "largest_class_at_or_below packet_size = Some c"
    and mx: "checked_sub_usize (max_content_size c) STATE_GENERATION_BINDING_OVERHEAD = Some mx"
    using assms by (auto simp: max_payload_content_size_def selected_packet_class_def result_simps)
  have "envelope_size c \<le> packet_size" using c by (auto simp: largest_class_at_or_below_def dest: find_SomeD split: if_splits)
  moreover have eq: "mx + STATE_GENERATION_BINDING_OVERHEAD = max_content_size c"
    using mx by (auto simp: checked_sub_usize_def split: if_splits)
  ultimately show "\<exists>c. mx + STATE_GENERATION_BINDING_OVERHEAD = max_content_size c \<and> envelope_size c \<le> packet_size"
    by blast
  have "max_content_size c \<le> FULL_MAX_CONTENT_SIZE"
    by (cases c) (simp_all add: max_content_size_eq LITE_MAX_CONTENT_SIZE_def STANDARD_MAX_CONTENT_SIZE_def FULL_MAX_CONTENT_SIZE_def)
  with eq show "mx \<le> FULL_MAX_CONTENT_SIZE" by simp
qed

fun scope_key :: "FragmentScope \<Rightarrow> FragmentScopeKey" where
  "scope_key FS_Direct = SK_Direct"
| "scope_key (FS_Lobby lobby_id) = SK_Lobby lobby_id"

definition scope_ok :: "FragmentScope \<Rightarrow> bool" where
  "scope_ok scope \<longleftrightarrow> (\<forall>lobby_id. scope = FS_Lobby lobby_id \<longrightarrow> length lobby_id = 32)"

lemma scope_parts_key: "fragment_scope (fst (scope_parts scope)) (snd (scope_parts scope)) = Inr (scope_key scope)"
  by (cases scope) simp_all

text \<open>The fragment id drawn for the message is not in use.\<close>

definition id_unused :: "(nat \<Rightarrow> bytes option) \<Rightarrow> PendingMap \<Rightarrow> bool" where
  "id_unused rng pending \<longleftrightarrow> (\<forall>(k, _) \<in> set pending. Some (pk_fragment_id k) \<noteq> rng 32) \<and>
     (case rng 32 of None \<Rightarrow> True | Some fid \<Rightarrow> length fid = 32)"

lemma split_message_fits:
  assumes size: "max_payload_content_size packet_size = Inr mx" and "0 < sz" and mx: "mx = fragment_header_bytes scope + sz"
    and n: "n \<le> MAX_FRAGMENTS_PER_MESSAGE" and rng: "rng 32 = Some fid" and small: "length payload \<le> MAX_FRAGMENTED_PAYLOAD_BYTES"
    and cat: "concat (map (part_of sz payload) [0..<n]) = payload"
    and "scope_ok scope" and "id_unused rng base" and "room_for contact (scope_key scope) n (length payload) base"
  shows "message_fits contact (scope_key scope) (fst (scope_parts scope)) (snd (scope_parts scope)) fid n (part_of sz payload) base"
proof -
  have "length (part_of sz payload i) \<le> FULL_MAX_CONTENT_SIZE" for i
    using length_part_of [of sz payload i] max_payload_bounds(2) [OF size] mx by simp
  then have "record_wf (message_part (fst (scope_parts scope)) (snd (scope_parts scope)) fid n (part_of sz payload) i)"
    if "i < n" for i
    using that assms(8,9) n rng
    by (cases scope) (auto simp: record_wf_def message_part_def scope_wf_def scope_ok_def id_unused_def u32_max_def
        MAX_FRAGMENTS_PER_MESSAGE_def)
  moreover have "map_of base \<lparr>pk_from = contact, pk_scope = scope_key scope, pk_kind = fst (scope_parts scope),
      pk_fragment_id = fid\<rparr> = None"
    using assms(9) rng by (force simp: map_of_eq_None_iff id_unused_def)
  ultimately show ?thesis
    using assms by (simp add: message_fits_def scope_parts_key)
qed

section \<open>Properties\<close>

text \<open>C30: A payload split for the transport arrives whole: whatever envelope class is configured, and whether the
  payload travels as one packet or as many fragments, delivering its packets in any order, with any
  repetitions, returns nothing until the last missing packet comes and then exactly the payload (and the
  lobby it was sent to), and leaves the table of pending messages as it was, provided the packets arrive
  within the age limit, the fragment id is not in use and the table has room.\<close>

theorem fragments_reassemble:
  assumes size: "max_payload_content_size packet_size = Inr mx"
    and packets: "payloads_for_packets rng packet_size scope payload = Inr packets"
    and "scope_ok scope" and "id_unused rng base"
    and "room_for contact (scope_key scope) (length packets) (length payload) base"
    and "\<forall>(t, i) \<in> set ds. in_time (fst (hd ds)) base t"
    and all: "snd ` set ds = {..<length packets}" and last: "snd ` set (butlast ds) \<noteq> {..<length packets}"
  shows "receive_all (arrivals contact (fst (scope_parts scope)) packets ds) base =
    (replicate (length ds - 1) (Inr None) @
       [Inr (Some (payload, if payload_needs_fragment_record payload mx then snd (scope_parts scope) else None))], base)"
proof -
  have "split_payload_for_packets rng scope payload mx = Inr packets"
    using packets size by (simp add: payloads_for_packets_def)
  then show ?thesis
  proof (cases rule: split_payload_cases)
    case whole
    have "\<not> starts_with payload FRAGMENT_MAGIC" using whole(1) by (simp add: payload_needs_fragment_record_def)
    then have decode: "decode_fragment_record payload = Inr None" by (simp add: decode_fragment_None_iff)
    obtain xs d where ds: "ds = xs @ [d]" using all whole(2) by (cases ds rule: rev_cases) auto
    have "snd ` set ds = {0}" using all whole(2) by auto
    moreover have "snd ` set xs \<noteq> {0}" using last whole(2) by (auto simp: ds)
    ultimately have "xs = []" "snd d = 0" by (auto simp: ds) (cases xs; auto)
    then show ?thesis
      using decode whole
      by (cases d) (simp add: ds arrivals_def receive_fragmented_payload_def st_bind_def st_lift_def)
  next
    case (split sz n fid)
    have n: "length packets = n" using split(9) by simp
    have fits: "message_fits contact (scope_key scope) (fst (scope_parts scope)) (snd (scope_parts scope)) fid n (part_of sz payload) base"
      by (rule split_message_fits [OF size split(2,3,5-8) assms(3,4)]) (use assms(5) n in simp)
    have form: "packets = map (\<lambda>i. record_bytes
        (message_part (fst (scope_parts scope)) (snd (scope_parts scope)) fid n (part_of sz payload) i)) [0..<n]"
      using split(9) by (simp add: message_part_def)
    have "\<forall>(t, i) \<in> set ds. i < n \<and> in_time (fst (hd ds)) base t" using assms(6) all n by force
    from message_completes [OF fits form this _ _ split(4)] show ?thesis
      using all last n split(1,8) by simp
  qed
qed

definition toy_rng :: "nat \<Rightarrow> bytes option" where
  "toy_rng n = Some (replicate n 5)"

definition toy_payload :: bytes where
  "toy_payload = replicate 10000 7"

lemma length_toy_payload: "length toy_payload = 10000"
  unfolding toy_payload_def by (rule length_replicate)

lemma toy_size: "max_payload_content_size LITE_ENVELOPE_SIZE = Inr 3898"
  by (simp add: max_payload_content_size_def selected_packet_class_def largest_class_at_or_below_def max_content_size_eq
      checked_sub_usize_def STATE_GENERATION_BINDING_OVERHEAD_def LITE_MAX_CONTENT_SIZE_def)

lemma toy_split:
  "\<exists>packets. payloads_for_packets toy_rng LITE_ENVELOPE_SIZE FS_Direct toy_payload = Inr packets \<and> length packets = 3"
proof -
  have "fragment_payload_size FS_Direct 3898 = Inr 3834"
    by (simp add: fragment_payload_size_def checked_sub_usize_def LEGACY_FRAGMENT_HEADER_BYTES_def FRAGMENT_MAGIC_def)
  then show ?thesis
    unfolding payloads_for_packets_def toy_size
    by (simp add: split_payload_for_packets_def payload_needs_fragment_record_def length_toy_payload
        MAX_FRAGMENTED_PAYLOAD_BYTES_def div_ceil_def MAX_FRAGMENTS_PER_MESSAGE_def u32_max_def random_array_def toy_rng_def)
qed

theorem fragments_reassemble_witness:
  "\<exists>packets. payloads_for_packets toy_rng LITE_ENVELOPE_SIZE FS_Direct toy_payload = Inr packets \<and>
     receive_all (arrivals (replicate 32 1) FK_Direct packets [(10, 2), (20, 0), (30, 2), (40, 1)]) [] =
       ([Inr None, Inr None, Inr None, Inr (Some (toy_payload, None))], [])"
proof -
  obtain packets where packets: "payloads_for_packets toy_rng LITE_ENVELOPE_SIZE FS_Direct toy_payload = Inr packets"
      "length packets = 3"
    using toy_split by blast
  have two: "{2, 0, 2 :: nat} \<noteq> {2, Suc 0, 0}"
  proof
    assume h: "{2, 0, 2 :: nat} = {2, Suc 0, 0}"
    have "Suc 0 \<in> {2, 0, 2 :: nat}" unfolding h by simp
    then show False by simp
  qed
  have "receive_all (arrivals (replicate 32 1) (fst (scope_parts FS_Direct)) packets [(10, 2), (20, 0), (30, 2), (40, 1)]) [] =
      (replicate (length [(10 :: nat, 2 :: nat), (20, 0), (30, 2), (40, 1)] - 1) (Inr None) @
        [Inr (Some (toy_payload, if payload_needs_fragment_record toy_payload 3898 then snd (scope_parts FS_Direct) else None))], [])"
    by (rule fragments_reassemble [OF toy_size packets(1)])
      (auto simp: scope_ok_def id_unused_def toy_rng_def room_for_def reject_new_iff count_of_def total_of_def fragment_limits
        packets(2) length_toy_payload in_time_def fresh_at_def MAX_FRAGMENT_AGE_SECS_def lessThan_nat_numeral lessThan_Suc two)
  then show ?thesis using packets(1) by (simp add: numeral_3_eq_3)
qed

text \<open>C32: However packets arrive, from whomever and whatever they contain, the table of pending messages stays
  within its limits: at most 128 messages, 8 per contact and 8 per lobby, 16384 stored parts and 64 MiB in
  total; every pending message is incomplete, its stored parts are distinct and inside its declared count,
  its byte count is the sum of its parts and at most the largest payload.\<close>

theorem reassembly_within_limits:
  assumes "receive_all as [] = (rs, pending)" and "\<forall>(now, contact, kind, payload) \<in> set as. length payload \<le> usize_max"
  shows "pending_ok pending"
  using receive_all_ok [OF assms(1) _ _ assms(2), of "{}"] by (simp add: stored_from_def)

theorem reassembly_within_limits_witness:
  "pending_ok (snd (receive_all [(0, replicate 32 1, FK_Direct, [1, 2]), (5, replicate 32 2, FK_Lobby, FRAGMENT_MAGIC)] []))"
proof -
  obtain rs pending where run: "receive_all [(0, replicate 32 1, FK_Direct, [1, 2]), (5, replicate 32 2, FK_Lobby, FRAGMENT_MAGIC)] [] = (rs, pending)"
    by fastforce
  have "pending_ok pending"
    by (rule reassembly_within_limits [OF run]) (simp add: FRAGMENT_MAGIC_def usize_max_def)
  then show ?thesis unfolding run by simp
qed

text \<open>C31: A reassembled message is made only of what arrived for it: after any run from an empty table, a payload
  that is returned either is the packet just received (which is not a fragment), or is the concatenation of
  all the parts of one message, each of which arrived in a record with the same contact, kind, lobby,
  fragment id and part count. No part of another message, contact or lobby can enter it.\<close>

theorem reassembly_only_received:
  assumes "receive_all as [] = (rs, pending)" and "\<forall>(now, contact, kind, payload) \<in> set as. length payload \<le> usize_max"
    and "receive_fragmented_payload now contact kind payload pending = (Inr (Some (out, lobby)), pending')"
    and "length payload \<le> usize_max"
  shows "out = payload \<and> lobby = None \<and> \<not> starts_with payload FRAGMENT_MAGIC \<or>
    (\<exists>n fid f. out = concat (map f [0..<n]) \<and>
       (\<forall>i < n. (contact, kind, record_bytes \<lparr>fr_kind = kind, fr_lobby_id = lobby, fr_fragment_id = fid, fr_total = n,
          fr_index = i, fr_bytes = f i\<rparr>) \<in> insert (contact, kind, payload) (arrived as)))"
proof -
  have "pending_ok pending" "stored_from (arrived as) pending"
    using receive_all_ok [OF assms(1) _ _ assms(2), of "{}"] by (simp_all add: stored_from_def)
  then show ?thesis
    using receive_stored(2) [OF _ _ assms(4,3) refl, of "arrived as"] by blast
qed

definition toy_fragment :: "nat \<Rightarrow> FragmentRecord" where
  "toy_fragment = message_part FK_Direct None (replicate 32 5) 1 (\<lambda>_. [9])"

lemma toy_fragment_fits: "message_fits (replicate 32 1) SK_Direct FK_Direct None (replicate 32 5) 1 (\<lambda>_. [9]) []"
  by (simp add: message_fits_def room_for_def reject_new_iff count_of_def total_of_def fragment_limits record_wf_def
      message_part_def scope_wf_def u32_max_def FULL_MAX_CONTENT_SIZE_def)

theorem reassembly_only_received_witness:
  "receive_fragmented_payload 0 (replicate 32 1) FK_Direct (record_bytes (toy_fragment 0)) [] = (Inr (Some ([9], None)), []) \<and>
   (\<exists>n fid f. [9] = concat (map f [0..<n]) \<and> {i. i < n \<and> (replicate 32 1, FK_Direct, record_bytes \<lparr>fr_kind = FK_Direct,
      fr_lobby_id = None, fr_fragment_id = fid, fr_total = n, fr_index = i, fr_bytes = f i\<rparr>) \<in>
      insert (replicate 32 1, FK_Direct, record_bytes (toy_fragment 0)) (arrived [])} = {..<n})"
proof -
  let ?c = "replicate 32 1 :: bytes"
  have run: "receive_fragmented_payload 0 ?c FK_Direct (record_bytes (toy_fragment 0)) [] = (Inr (Some ([9], None)), [])"
  proof -
    have "insert 0 {} = {..<1 :: nat}" by auto
    moreover have "{} \<subset> {..<1 :: nat}" by auto
    ultimately have "receive_fragmented_payload 0 ?c FK_Direct (record_bytes (toy_fragment 0)) [] =
        (Inr (Some (concat (map (\<lambda>_. [9]) [0..<1]), None)), [])"
      unfolding toy_fragment_def
      by (intro message_step(1) [OF toy_fragment_fits refl, where S = "{}" and t0 = 0])
        (simp_all add: progress_def in_time_def fresh_at_def)
    then show ?thesis by (simp only: upt_rec [of 0 1]) simp
  qed
  have wf: "record_wf (toy_fragment 0)"
    by (simp add: toy_fragment_def message_part_def record_wf_def scope_wf_def u32_max_def FULL_MAX_CONTENT_SIZE_def)
  have "receive_all [] [] = ([], [])" by simp
  from reassembly_only_received [OF this _ run record_bytes_small [OF wf]]
  obtain n fid f where "[9] = concat (map f [0..<n])" "\<forall>i < n. (?c, FK_Direct, record_bytes \<lparr>fr_kind = FK_Direct,
      fr_lobby_id = None, fr_fragment_id = fid, fr_total = n, fr_index = i, fr_bytes = f i\<rparr>) \<in>
      insert (?c, FK_Direct, record_bytes (toy_fragment 0)) (arrived [])"
    by auto
  then have "{i. i < n \<and> (?c, FK_Direct, record_bytes \<lparr>fr_kind = FK_Direct,
      fr_lobby_id = None, fr_fragment_id = fid, fr_total = n, fr_index = i, fr_bytes = f i\<rparr>) \<in>
      insert (?c, FK_Direct, record_bytes (toy_fragment 0)) (arrived [])} = {..<n}" by blast
  with run \<open>[9] = concat (map f [0..<n])\<close> show ?thesis by blast
qed

end
