(* ===== verification/Msg_Messages.thy ===== *)
theory Msg_Messages
  imports Msg_Fragments
begin

text \<open>
  Application messages: \<open>messages/types.rs\<close>, the binary payload and the text line of \<open>codec/messages.rs\<close>, and the
  message history of \<open>messages/mod.rs\<close> with its running totals per contact. A Rust \<open>String\<close> is the list of its
  UTF-8 bytes; a \<open>HashMap\<close> is an association list. Methods that end with \<open>persist\<close> are modelled up to it.
\<close>

section \<open>Text\<close>

text \<open>Well-formed UTF-8 (\<open>String::from_utf8\<close>), by the table of well-formed byte sequences.\<close>

definition cont_byte :: "u8 \<Rightarrow> bool" where
  "cont_byte b \<longleftrightarrow> 0x80 \<le> b \<and> b \<le> 0xBF"

fun utf8_valid :: "bytes \<Rightarrow> bool" where
  "utf8_valid [] \<longleftrightarrow> True"
| "utf8_valid (a # s) \<longleftrightarrow>
     (if a \<le> 0x7F then utf8_valid s
      else case s of
        [] \<Rightarrow> False
      | b # s \<Rightarrow>
          if 0xC2 \<le> a \<and> a \<le> 0xDF then cont_byte b \<and> utf8_valid s
          else case s of
            [] \<Rightarrow> False
          | c # s \<Rightarrow>
              if 0xE0 \<le> a \<and> a \<le> 0xEF
              then (if a = 0xE0 then 0xA0 \<le> b \<and> b \<le> 0xBF else if a = 0xED then 0x80 \<le> b \<and> b \<le> 0x9F else cont_byte b) \<and>
                cont_byte c \<and> utf8_valid s
              else case s of
                [] \<Rightarrow> False
              | d # s \<Rightarrow>
                  0xF0 \<le> a \<and> a \<le> 0xF4 \<and>
                  (if a = 0xF0 then 0x90 \<le> b \<and> b \<le> 0xBF else if a = 0xF4 then 0x80 \<le> b \<and> b \<le> 0x8F else cont_byte b) \<and>
                  cont_byte c \<and> cont_byte d \<and> utf8_valid s)"

definition from_utf8 :: "bytes \<Rightarrow> HydraMsgError \<Rightarrow> bytes HydraResult" where
  "from_utf8 bs e = (if utf8_valid bs then Inr bs else Inl e)"

text \<open>\<open>str::split\<close> at an ASCII character and \<open>[str]::join\<close>.\<close>

fun split_on :: "u8 \<Rightarrow> bytes \<Rightarrow> bytes list" where
  "split_on c [] = [[]]"
| "split_on c (x # xs) = (if x = c then [] # split_on c xs
     else case split_on c xs of [] \<Rightarrow> [[x]] | y # ys \<Rightarrow> (x # y) # ys)"

fun join_with :: "u8 \<Rightarrow> bytes list \<Rightarrow> bytes" where
  "join_with c [] = []"
| "join_with c [x] = x"
| "join_with c (x # y # ys) = x @ c # join_with c (y # ys)"

text \<open>\<open>str::lines\<close>: every line ends at a line feed, which is removed with a carriage return before it.\<close>

definition strip_cr :: "bytes \<Rightarrow> bytes" where
  "strip_cr line = (if line \<noteq> [] \<and> last line = 13 then butlast line else line)"

definition str_lines :: "bytes \<Rightarrow> bytes list" where
  "str_lines text = (let pieces = split_on 10 text in
     map strip_cr (butlast pieces) @ (if last pieces = [] then [] else [last pieces]))"

text \<open>\<open>u64::to_string\<close> and \<open>str::parse\<close> of \<open>u64\<close> and \<open>usize\<close>.\<close>

fun decimal :: "nat \<Rightarrow> bytes" where
  "decimal n = (if n < 10 then [48 + of_nat n] else decimal (n div 10) @ [48 + of_nat (n mod 10)])"

declare decimal.simps [simp del]

fun parse_digits :: "nat \<Rightarrow> bytes \<Rightarrow> nat option" where
  "parse_digits acc [] = Some acc"
| "parse_digits acc (c # s) =
     (if 48 \<le> c \<and> c \<le> 57 \<and> acc * 10 + unat (c - 48) \<le> usize_max
      then parse_digits (acc * 10 + unat (c - 48)) s else None)"

definition parse_u64 :: "bytes \<Rightarrow> nat option" where
  "parse_u64 s = (case s of
     [] \<Rightarrow> None
   | c # rest \<Rightarrow> if c = 43 then (if rest = [] then None else parse_digits 0 rest) else parse_digits 0 s)"

section \<open>Messages\<close>

type_synonym MessageId = u64

datatype HydraAttachmentSource = AS_File | AS_Bytes

record HydraAttachment =
  at_filename :: bytes
  at_bytes :: bytes
  at_source :: HydraAttachmentSource

record HydraMessage =
  hm_plaintext :: bytes
  hm_attachments :: "HydraAttachment list"

record ReceivedHydraMessage =
  rm_from :: ContactId
  rm_message_id :: MessageId
  rm_lobby_id :: "LobbyId option"
  rm_plaintext :: bytes
  rm_attachments :: "HydraAttachment list"

record StoredMessage =
  st_id :: MessageId
  st_contact_id :: ContactId
  st_inbound :: bool
  st_plaintext :: bytes
  st_attachments :: "HydraAttachment list"

record MessageUsage =
  mu_count :: nat
  mu_bytes :: nat

definition MessageUsage_default :: MessageUsage where
  "MessageUsage_default = \<lparr>mu_count = 0, mu_bytes = 0\<rparr>"

definition PAYLOAD_MAGIC :: bytes where
  "PAYLOAD_MAGIC = ascii ''HYDRA-MSG-PAYLOAD'' @ [10]"

definition MESSAGES_MAGIC :: bytes where
  "MESSAGES_MAGIC = ascii ''HYDRA-MSG-MESSAGES'' @ [10]"

definition validate_attachment_filename_input :: "bytes \<Rightarrow> unit HydraResult" where
  "validate_attachment_filename_input filename =
     rbind (ensure (filename \<noteq> []) (HE_InvalidInput ''attachment filename is empty'')) (\<lambda>_.
       reject_input_size (length filename) MAX_ATTACHMENT_FILENAME_BYTES ''attachment filename size'')"

definition from_named_bytes :: "bytes \<Rightarrow> bytes \<Rightarrow> HydraAttachment HydraResult" where
  "from_named_bytes filename bs =
     rbind (validate_attachment_filename_input filename) (\<lambda>_.
     rbind (reject_input_size (length bs) MAX_ATTACHMENT_BYTES ''attachment size'') (\<lambda>_.
       Inr \<lparr>at_filename = filename, at_bytes = bs, at_source = AS_Bytes\<rparr>))"

definition with_filename :: "bytes \<Rightarrow> HydraAttachment \<Rightarrow> HydraAttachment HydraResult" where
  "with_filename filename a =
     rbind (validate_attachment_filename_input filename) (\<lambda>_. Inr (a\<lparr>at_filename := filename\<rparr>))"

definition attach_bytes :: "bytes \<Rightarrow> bytes \<Rightarrow> HydraMessage \<Rightarrow> HydraMessage HydraResult" where
  "attach_bytes filename bs m =
     rbind (ensure (\<not> MAX_ATTACHMENTS_PER_MESSAGE \<le> length (hm_attachments m)) (HE_InvalidInput ''attachment count'')) (\<lambda>_.
     rbind (from_named_bytes filename bs) (\<lambda>a. Inr (m\<lparr>hm_attachments := hm_attachments m @ [a]\<rparr>)))"

section \<open>The binary payload\<close>

definition size_error :: "bool \<Rightarrow> string \<Rightarrow> HydraMsgError" where
  "size_error encoded description = (if encoded then HE_InvalidEncoding description else HE_InvalidInput description)"

fun add_attachment_sizes :: "HydraMsgError \<Rightarrow> nat \<Rightarrow> HydraAttachment list \<Rightarrow> nat HydraResult" where
  "add_attachment_sizes e n [] = Inr n"
| "add_attachment_sizes e n (a # as) =
     rbind (ok_or (Option.bind (checked_add_usize n (1 + 4 + 8)) (\<lambda>n.
            Option.bind (checked_add_usize n (length (at_filename a))) (\<lambda>n.
              checked_add_usize n (length (at_bytes a))))) e) (\<lambda>n.
       add_attachment_sizes e n as)"

definition encoded_message_len :: "HydraMessage \<Rightarrow> bool \<Rightarrow> nat HydraResult" where
  "encoded_message_len m encoded =
     rbind (ok_or (Option.bind (checked_add_usize (length PAYLOAD_MAGIC) (8 + 4)) (\<lambda>n.
              checked_add_usize n (length (hm_plaintext m)))) (size_error encoded ''message size'')) (\<lambda>n.
     rbind (add_attachment_sizes (size_error encoded ''message size'') n (hm_attachments m)) (\<lambda>n.
     rbind (ensure (\<not> MAX_PACKED_MESSAGE_BYTES < n) (size_error encoded ''message size'')) (\<lambda>_. Inr n)))"

definition validate_attachment :: "bool \<Rightarrow> HydraAttachment \<Rightarrow> unit HydraResult" where
  "validate_attachment encoded a =
     rbind (ensure (at_filename a \<noteq> []) (size_error encoded ''attachment filename is empty'')) (\<lambda>_.
     rbind (ensure (\<not> MAX_ATTACHMENT_FILENAME_BYTES < length (at_filename a))
              (size_error encoded ''attachment filename size'')) (\<lambda>_.
       ensure (\<not> MAX_ATTACHMENT_BYTES < length (at_bytes a)) (size_error encoded ''attachment size'')))"

definition validate_message :: "HydraMessage \<Rightarrow> bool \<Rightarrow> unit HydraResult" where
  "validate_message m encoded =
     rbind (ensure (\<not> MAX_MESSAGE_PLAINTEXT_BYTES < length (hm_plaintext m))
              (size_error encoded ''message plaintext size'')) (\<lambda>_.
     rbind (ensure (\<not> MAX_ATTACHMENTS_PER_MESSAGE < length (hm_attachments m)) (size_error encoded ''attachment count'')) (\<lambda>_.
     rbind (rforeach (validate_attachment encoded) (hm_attachments m)) (\<lambda>_.
     rbind (encoded_message_len m encoded) (\<lambda>_. Inr ()))))"

fun source_byte :: "HydraAttachmentSource \<Rightarrow> u8" where
  "source_byte AS_File = 1"
| "source_byte AS_Bytes = 2"

definition attachment_bytes :: "HydraAttachment \<Rightarrow> bytes" where
  "attachment_bytes a = [source_byte (at_source a)] @ be_bytes 4 (of_nat (length (at_filename a)) :: u32) @ at_filename a @
     be_bytes 8 (of_nat (length (at_bytes a)) :: u64) @ at_bytes a"

definition pack_message :: "HydraMessage \<Rightarrow> bytes HydraResult" where
  "pack_message m =
     rbind (validate_message m False) (\<lambda>_.
     rbind (encoded_message_len m False) (\<lambda>_.
       Inr (PAYLOAD_MAGIC @ be_bytes 8 (of_nat (length (hm_plaintext m)) :: u64) @ hm_plaintext m @
            be_bytes 4 (of_nat (length (hm_attachments m)) :: u32) @ concat (map attachment_bytes (hm_attachments m)))))"

definition validate_decoded_filename :: "bytes \<Rightarrow> unit HydraResult" where
  "validate_decoded_filename filename =
     rbind (ensure (filename \<noteq> []) (HE_InvalidEncoding ''attachment filename is empty'')) (\<lambda>_.
       reject_encoded_size (length filename) MAX_ATTACHMENT_FILENAME_BYTES ''attachment filename size'')"

definition read_attachment :: "HydraAttachment reader" where
  "read_attachment =
     st_bind read_u8 (\<lambda>k.
     st_bind (st_lift (if k = 1 then Inr AS_File else if k = 2 then Inr AS_Bytes
                else Inl (HE_InvalidEncoding ''attachment source''))) (\<lambda>source.
     st_bind read_u32 (\<lambda>name_len.
     st_bind (st_lift (reject_encoded_size (unat name_len) MAX_ATTACHMENT_FILENAME_BYTES ''attachment filename size'')) (\<lambda>_.
     st_bind (read_vec (unat name_len)) (\<lambda>name.
     st_bind (st_lift (from_utf8 name (HE_InvalidEncoding ''attachment filename''))) (\<lambda>filename.
     st_bind (st_lift (validate_decoded_filename filename)) (\<lambda>_.
     st_bind read_u64 (\<lambda>bytes_len.
     st_bind (st_lift (reject_encoded_size (unat bytes_len) MAX_ATTACHMENT_BYTES ''attachment size'')) (\<lambda>_.
     st_bind (read_vec (unat bytes_len)) (\<lambda>content.
       st_lift (Inr \<lparr>at_filename = filename, at_bytes = content, at_source = source\<rparr>)))))))))))"

definition read_message :: "HydraMessage reader" where
  "read_message =
     st_bind (reader_expect PAYLOAD_MAGIC) (\<lambda>_.
     st_bind read_u64 (\<lambda>plaintext_len.
     st_bind (st_lift (reject_encoded_size (unat plaintext_len) MAX_MESSAGE_PLAINTEXT_BYTES ''message plaintext size'')) (\<lambda>_.
     st_bind (read_vec (unat plaintext_len)) (\<lambda>plaintext.
     st_bind read_u32 (\<lambda>attachment_count.
     st_bind (st_lift (ensure (\<not> MAX_ATTACHMENTS_PER_MESSAGE < unat attachment_count)
                (HE_InvalidEncoding ''attachment count''))) (\<lambda>_.
     st_bind (reader_repeat (unat attachment_count) read_attachment) (\<lambda>attachments.
       st_lift (Inr \<lparr>hm_plaintext = plaintext, hm_attachments = attachments\<rparr>))))))))"

definition unpack_message :: "bytes \<Rightarrow> ContactId \<Rightarrow> MessageId \<Rightarrow> LobbyId option \<Rightarrow> ReceivedHydraMessage HydraResult" where
  "unpack_message bs contact message_id lobby_id =
     rbind (reject_encoded_size (length bs) MAX_PACKED_MESSAGE_BYTES ''message size'') (\<lambda>_.
       fst (st_bind read_message (\<lambda>m r.
         st_lift (
           rbind (ensure (is_finished r) (HE_InvalidEncoding ''message trailing bytes'')) (\<lambda>_.
             Inr \<lparr>rm_from = contact, rm_message_id = message_id, rm_lobby_id = lobby_id, rm_plaintext = hm_plaintext m,
               rm_attachments = hm_attachments m\<rparr>)) r) (BytesReader_new bs)))"

fun add_stored_sizes :: "nat \<Rightarrow> HydraAttachment list \<Rightarrow> nat HydraResult" where
  "add_stored_sizes n [] = Inr n"
| "add_stored_sizes n (a # as) =
     rbind (validate_attachment True a) (\<lambda>_.
     rbind (add_attachment_sizes (HE_InvalidEncoding ''message size'') n [a]) (\<lambda>n. add_stored_sizes n as))"

definition stored_message_size :: "bytes \<Rightarrow> HydraAttachment list \<Rightarrow> nat HydraResult" where
  "stored_message_size plaintext attachments =
     rbind (ensure (\<not> MAX_MESSAGE_PLAINTEXT_BYTES < length plaintext) (HE_InvalidEncoding ''message plaintext size'')) (\<lambda>_.
     rbind (ensure (\<not> MAX_ATTACHMENTS_PER_MESSAGE < length attachments) (HE_InvalidEncoding ''attachment count'')) (\<lambda>_.
     rbind (ok_or (Option.bind (checked_add_usize (length PAYLOAD_MAGIC) (8 + 4)) (\<lambda>n.
              checked_add_usize n (length plaintext))) (HE_InvalidEncoding ''message size'')) (\<lambda>n.
     rbind (add_stored_sizes n attachments) (\<lambda>n.
     rbind (reject_encoded_size n MAX_PACKED_MESSAGE_BYTES ''message size'') (\<lambda>_. Inr n)))))"

section \<open>The text line\<close>

fun source_name :: "HydraAttachmentSource \<Rightarrow> bytes" where
  "source_name AS_File = ascii ''file''"
| "source_name AS_Bytes = ascii ''bytes''"

definition message_fields :: "StoredMessage \<Rightarrow> bytes list" where
  "message_fields m =
     [ascii ''message'', decimal (unat (st_id m)), hex_encode (st_contact_id m),
      if st_inbound m then ascii ''in'' else ascii ''out'', hex_encode (st_plaintext m),
      decimal (length (st_attachments m))] @
     concat (map (\<lambda>a. [source_name (at_source a), hex_encode (at_filename a), hex_encode (at_bytes a)]) (st_attachments m))"

definition encode_message_line :: "StoredMessage \<Rightarrow> bytes" where
  "encode_message_line m = join_with 9 (message_fields m)"

definition reject_hex_decoded_size :: "bytes \<Rightarrow> nat \<Rightarrow> string \<Rightarrow> unit HydraResult" where
  "reject_hex_decoded_size value mx description =
     rbind (ok_or (checked_mul_usize mx 2) (HE_InvalidEncoding description)) (\<lambda>max_hex.
       ensure (\<not> max_hex < length value) (HE_InvalidEncoding description))"

fun decode_attachment_fields :: "nat \<Rightarrow> nat \<Rightarrow> bytes list \<Rightarrow> HydraAttachment list HydraResult" where
  "decode_attachment_fields (Suc n) decoded_size (src # name # content # rest) =
     rbind (if src = ascii ''file'' then Inr AS_File else if src = ascii ''bytes'' then Inr AS_Bytes
            else Inl (HE_InvalidEncoding ''attachment source'')) (\<lambda>source.
     rbind (reject_hex_decoded_size name MAX_ATTACHMENT_FILENAME_BYTES ''attachment filename size'') (\<lambda>_.
     rbind (hex_decode name) (\<lambda>name.
     rbind (from_utf8 name (HE_InvalidEncoding ''attachment filename'')) (\<lambda>filename.
     rbind (validate_decoded_filename filename) (\<lambda>_.
     rbind (reject_hex_decoded_size content MAX_ATTACHMENT_BYTES ''attachment size'') (\<lambda>_.
     rbind (hex_decode content) (\<lambda>bs.
     rbind (ok_or (checked_add_usize decoded_size (1 + 4 + length filename + 8 + length bs))
              (HE_InvalidEncoding ''message size'')) (\<lambda>decoded_size.
     rbind (reject_encoded_size decoded_size MAX_PACKED_MESSAGE_BYTES ''message size'') (\<lambda>_.
     rbind (decode_attachment_fields n decoded_size rest) (\<lambda>attachments.
       Inr (\<lparr>at_filename = filename, at_bytes = bs, at_source = source\<rparr> # attachments)))))))))))"
| "decode_attachment_fields _ _ _ = Inr []"

definition MAX_MESSAGE_LINE_FIELDS :: nat where
  "MAX_MESSAGE_LINE_FIELDS = 6 + MAX_ATTACHMENTS_PER_MESSAGE * 3"

definition decode_message_line :: "bytes \<Rightarrow> StoredMessage HydraResult" where
  "decode_message_line line =
     (let parts = take (MAX_MESSAGE_LINE_FIELDS + 1) (split_on 9 line) in
      rbind (ensure (\<not> MAX_MESSAGE_LINE_FIELDS < length parts) (HE_InvalidEncoding ''message state record'')) (\<lambda>_.
      rbind (ensure (\<not> (length parts < 6 \<or> parts ! 0 \<noteq> ascii ''message'')) (HE_InvalidEncoding ''message state record'')) (\<lambda>_.
      rbind (ok_or (parse_u64 (parts ! 1)) (HE_InvalidEncoding ''message id'')) (\<lambda>id.
      rbind (ensure (length (parts ! 2) = 32 * 2) (HE_InvalidEncoding ''message contact id size'')) (\<lambda>_.
      rbind (hex_decode (parts ! 2)) (\<lambda>contact.
      rbind (exact_array_from_vec 32 contact) (\<lambda>contact_id.
      rbind (if parts ! 3 = ascii ''in'' then Inr True else if parts ! 3 = ascii ''out'' then Inr False
             else Inl (HE_InvalidEncoding ''message direction'')) (\<lambda>inbound.
      rbind (reject_hex_decoded_size (parts ! 4) MAX_MESSAGE_PLAINTEXT_BYTES ''message plaintext size'') (\<lambda>_.
      rbind (hex_decode (parts ! 4)) (\<lambda>plaintext.
      rbind (ok_or (parse_u64 (parts ! 5)) (HE_InvalidEncoding ''attachment count'')) (\<lambda>attachment_count.
      rbind (ensure (\<not> MAX_ATTACHMENTS_PER_MESSAGE < attachment_count) (HE_InvalidEncoding ''attachment count'')) (\<lambda>_.
      rbind (ok_or (Option.bind (checked_mul_usize attachment_count 3) (\<lambda>n. checked_add_usize n 6))
               (HE_InvalidEncoding ''attachment record length'')) (\<lambda>expected_parts.
      rbind (ensure (length parts = expected_parts) (HE_InvalidEncoding ''attachment record length'')) (\<lambda>_.
      rbind (decode_attachment_fields attachment_count (length PAYLOAD_MAGIC + 8 + length plaintext + 4) (drop 6 parts))
        (\<lambda>attachments.
          Inr \<lparr>st_id = of_nat id, st_contact_id = contact_id, st_inbound = inbound, st_plaintext = plaintext,
            st_attachments = attachments\<rparr>)))))))))))))))"

section \<open>The binary payload is a canonical code\<close>

lemma reader_codec_sized:
  fixes p :: "'a::len word reader"
  assumes p: "reader_codec p (be_bytes k) (\<lambda>_. True)" and mx: "mx < 2 ^ LENGTH('a)"
    and q: "\<And>bs. length bs \<le> mx \<Longrightarrow> reader_codec (q bs) eq (wq bs)" and g: "\<And>bs c. wq bs c \<Longrightarrow> g c = bs"
  shows "reader_codec (st_bind p (\<lambda>n. st_bind (st_lift (reject_encoded_size (unat n) mx d)) (\<lambda>_. st_bind (read_vec (unat n)) q)))
    (\<lambda>c. be_bytes k (of_nat (length (g c)) :: 'a word) @ g c @ eq c) (\<lambda>c. length (g c) \<le> mx \<and> wq (g c) c)"
proof -
  have n: "unat (of_nat m :: 'a word) = m" if "m \<le> mx" for m
    using that mx by (simp add: unat_of_nat)
  have vec: "reader_codec (st_bind (read_vec m) q) (\<lambda>c. g c @ eq c) (\<lambda>c. length (g c) = m \<and> wq (g c) c)" if "m \<le> mx" for m
    by (rule reader_codec_seq [OF reader_codec_vec, where f = g]) (use q g that in auto)
  have tail: "reader_codec (st_bind (st_lift (reject_encoded_size (unat n) mx d)) (\<lambda>_. st_bind (read_vec (unat n)) q))
      (\<lambda>c. g c @ eq c) (\<lambda>c. \<not> mx < unat n \<and> length (g c) = unat n \<and> wq (g c) c)" for n
    unfolding reject_encoded_size_def by (rule reader_codec_ensure, rule vec) simp
  show ?thesis
    by (rule reader_codec_seq [OF p tail, where f = "\<lambda>c. of_nat (length (g c))"]) (use n in \<open>auto simp: not_less\<close>)
qed

definition attachment_wf :: "HydraAttachment \<Rightarrow> bool" where
  "attachment_wf a \<longleftrightarrow> at_filename a \<noteq> [] \<and> utf8_valid (at_filename a) \<and>
     length (at_filename a) \<le> MAX_ATTACHMENT_FILENAME_BYTES \<and> length (at_bytes a) \<le> MAX_ATTACHMENT_BYTES"

lemma validate_decoded_filename_iff [result_simps]:
  "validate_decoded_filename name = Inr u \<longleftrightarrow> name \<noteq> [] \<and> length name \<le> MAX_ATTACHMENT_FILENAME_BYTES"
  by (simp add: validate_decoded_filename_def result_simps)

lemma validate_decoded_filename_Inl:
  "validate_decoded_filename name = Inl e \<Longrightarrow> name = [] \<or> MAX_ATTACHMENT_FILENAME_BYTES < length name"
  using validate_decoded_filename_iff [of name "()"] by force

lemma reader_codec_attachment: "reader_codec read_attachment attachment_bytes attachment_wf"
proof -
  have content: "reader_codec
     (st_bind read_u64 (\<lambda>n. st_bind (st_lift (reject_encoded_size (unat n) MAX_ATTACHMENT_BYTES ''attachment size'')) (\<lambda>_.
      st_bind (read_vec (unat n)) (\<lambda>content.
        st_lift (Inr \<lparr>at_filename = filename, at_bytes = content, at_source = source\<rparr>)))))
     (\<lambda>a. be_bytes 8 (of_nat (length (at_bytes a)) :: u64) @ at_bytes a @ [])
     (\<lambda>a. length (at_bytes a) \<le> MAX_ATTACHMENT_BYTES \<and>
        at_bytes a = at_bytes a \<and> at_filename a = filename \<and> at_source a = source)" for filename source
    by (rule reader_codec_sized [OF reader_codec_u64, where g = at_bytes and
          wq = "\<lambda>bs a. at_bytes a = bs \<and> at_filename a = filename \<and> at_source a = source"])
      (auto intro!: reader_codec_end)
  have named: "reader_codec
     (st_bind (st_lift (from_utf8 name e)) (\<lambda>filename.
      st_bind (st_lift (validate_decoded_filename filename)) (\<lambda>_.
      st_bind read_u64 (\<lambda>n. st_bind (st_lift (reject_encoded_size (unat n) MAX_ATTACHMENT_BYTES ''attachment size'')) (\<lambda>_.
      st_bind (read_vec (unat n)) (\<lambda>content.
        st_lift (Inr \<lparr>at_filename = filename, at_bytes = content, at_source = source\<rparr>)))))))
     (\<lambda>a. be_bytes 8 (of_nat (length (at_bytes a)) :: u64) @ at_bytes a)
     (\<lambda>a. at_filename a = name \<and> at_source a = source \<and> attachment_wf a)"
    if "length name \<le> MAX_ATTACHMENT_FILENAME_BYTES" for name source e
  proof (intro reader_codec_when reader_codec_cong [OF content])
  qed (use that in \<open>auto simp: attachment_wf_def validate_decoded_filename_iff from_utf8_def
      dest: validate_decoded_filename_Inl split: if_splits\<close>)
  have sourced: "reader_codec
     (st_bind read_u32 (\<lambda>n. st_bind (st_lift (reject_encoded_size (unat n) MAX_ATTACHMENT_FILENAME_BYTES ''attachment filename size'')) (\<lambda>_.
      st_bind (read_vec (unat n)) (\<lambda>name.
      st_bind (st_lift (from_utf8 name (HE_InvalidEncoding ''attachment filename''))) (\<lambda>filename.
      st_bind (st_lift (validate_decoded_filename filename)) (\<lambda>_.
      st_bind read_u64 (\<lambda>n. st_bind (st_lift (reject_encoded_size (unat n) MAX_ATTACHMENT_BYTES ''attachment size'')) (\<lambda>_.
      st_bind (read_vec (unat n)) (\<lambda>content.
        st_lift (Inr \<lparr>at_filename = filename, at_bytes = content, at_source = source\<rparr>))))))))))
     (\<lambda>a. be_bytes 4 (of_nat (length (at_filename a)) :: u32) @ at_filename a @
        be_bytes 8 (of_nat (length (at_bytes a)) :: u64) @ at_bytes a)
     (\<lambda>a. length (at_filename a) \<le> MAX_ATTACHMENT_FILENAME_BYTES \<and>
        at_filename a = at_filename a \<and> at_source a = source \<and> attachment_wf a)" for source
    by (rule reader_codec_sized [OF reader_codec_u32 _ named, where g = at_filename]) auto
  have kind: "reader_codec (st_bind (st_lift (if k = 1 then Inr AS_File else if k = 2 then Inr AS_Bytes
                else Inl (HE_InvalidEncoding ''attachment source''))) (\<lambda>source.
      st_bind read_u32 (\<lambda>n. st_bind (st_lift (reject_encoded_size (unat n) MAX_ATTACHMENT_FILENAME_BYTES ''attachment filename size'')) (\<lambda>_.
      st_bind (read_vec (unat n)) (\<lambda>name.
      st_bind (st_lift (from_utf8 name (HE_InvalidEncoding ''attachment filename''))) (\<lambda>filename.
      st_bind (st_lift (validate_decoded_filename filename)) (\<lambda>_.
      st_bind read_u64 (\<lambda>n. st_bind (st_lift (reject_encoded_size (unat n) MAX_ATTACHMENT_BYTES ''attachment size'')) (\<lambda>_.
      st_bind (read_vec (unat n)) (\<lambda>content.
        st_lift (Inr \<lparr>at_filename = filename, at_bytes = content, at_source = source\<rparr>)))))))))))
     (\<lambda>a. be_bytes 4 (of_nat (length (at_filename a)) :: u32) @ at_filename a @
        be_bytes 8 (of_nat (length (at_bytes a)) :: u64) @ at_bytes a)
     (\<lambda>a. source_byte (at_source a) = k \<and> attachment_wf a)" for k
  proof (intro reader_codec_when reader_codec_cong [OF sourced])
    fix a show "\<not> (source_byte (at_source a) = k \<and> attachment_wf a)"
      if "(if k = 1 then Inr AS_File else if k = 2 then Inr AS_Bytes else Inl (HE_InvalidEncoding ''attachment source'')) = Inl x" for x
      using that by (cases "at_source a") (auto split: if_splits)
  next
    fix a source
    assume "(if k = 1 then Inr AS_File else if k = 2 then Inr AS_Bytes else Inl (HE_InvalidEncoding ''attachment source'')) = Inr source"
    then show "(source_byte (at_source a) = k \<and> attachment_wf a) \<longleftrightarrow> length (at_filename a) \<le> MAX_ATTACHMENT_FILENAME_BYTES \<and>
        at_filename a = at_filename a \<and> at_source a = source \<and> attachment_wf a"
      by (cases "at_source a") (auto simp: attachment_wf_def split: if_splits)
  qed simp
  show ?thesis
    unfolding read_attachment_def
    by (rule reader_codec_seq [OF reader_codec_u8 kind, where f = "\<lambda>a. source_byte (at_source a)"])
      (auto simp: attachment_bytes_def)
qed

lemma reader_codec_message: "reader_codec read_message
    (\<lambda>m. PAYLOAD_MAGIC @ be_bytes 8 (of_nat (length (hm_plaintext m)) :: u64) @ hm_plaintext m @
       be_bytes 4 (of_nat (length (hm_attachments m)) :: u32) @ concat (map attachment_bytes (hm_attachments m)))
    (\<lambda>m. length (hm_plaintext m) \<le> MAX_MESSAGE_PLAINTEXT_BYTES \<and> length (hm_attachments m) \<le> MAX_ATTACHMENTS_PER_MESSAGE \<and>
       list_all attachment_wf (hm_attachments m))"
proof -
  have list: "reader_codec (st_bind (reader_repeat n read_attachment) (\<lambda>attachments.
       st_lift (Inr \<lparr>hm_plaintext = plaintext, hm_attachments = attachments\<rparr>)))
     (\<lambda>m. concat (map attachment_bytes (hm_attachments m)))
     (\<lambda>m. hm_plaintext m = plaintext \<and> length (hm_attachments m) = n \<and> list_all attachment_wf (hm_attachments m))" for n plaintext
    by (rule reader_codec_map [OF reader_codec_repeat [OF reader_codec_attachment]]) auto
  have counted: "reader_codec (st_bind read_u32 (\<lambda>attachment_count.
     st_bind (st_lift (ensure (\<not> MAX_ATTACHMENTS_PER_MESSAGE < unat attachment_count)
                (HE_InvalidEncoding ''attachment count''))) (\<lambda>_.
     st_bind (reader_repeat (unat attachment_count) read_attachment) (\<lambda>attachments.
       st_lift (Inr \<lparr>hm_plaintext = plaintext, hm_attachments = attachments\<rparr>)))))
     (\<lambda>m. be_bytes 4 (of_nat (length (hm_attachments m)) :: u32) @ concat (map attachment_bytes (hm_attachments m)))
     (\<lambda>m. hm_plaintext m = plaintext \<and> length (hm_attachments m) \<le> MAX_ATTACHMENTS_PER_MESSAGE \<and>
        list_all attachment_wf (hm_attachments m))" for plaintext
    by (rule reader_codec_seq [OF reader_codec_u32 reader_codec_ensure [OF list], where f = "\<lambda>m. of_nat (length (hm_attachments m))"])
      (auto simp: unat_of_nat not_less)
  note whole = reader_codec_seq [OF reader_codec_expect reader_codec_sized [OF reader_codec_u64 _ counted, where g = hm_plaintext],
      where f = "\<lambda>_. ()"]
  show ?thesis
    unfolding read_message_def by (rule whole) auto
qed

definition attachment_len :: "HydraAttachment \<Rightarrow> nat" where
  "attachment_len a = 13 + length (at_filename a) + length (at_bytes a)"

definition message_len :: "bytes \<Rightarrow> HydraAttachment list \<Rightarrow> nat" where
  "message_len plaintext attachments = 30 + length plaintext + sum_list (map attachment_len attachments)"

definition attachment_fits :: "HydraAttachment \<Rightarrow> bool" where
  "attachment_fits a \<longleftrightarrow> at_filename a \<noteq> [] \<and> length (at_filename a) \<le> MAX_ATTACHMENT_FILENAME_BYTES \<and>
     length (at_bytes a) \<le> MAX_ATTACHMENT_BYTES"

definition message_fits_limits :: "bytes \<Rightarrow> HydraAttachment list \<Rightarrow> bool" where
  "message_fits_limits plaintext attachments \<longleftrightarrow> length plaintext \<le> MAX_MESSAGE_PLAINTEXT_BYTES \<and>
     length attachments \<le> MAX_ATTACHMENTS_PER_MESSAGE \<and> list_all attachment_fits attachments \<and>
     message_len plaintext attachments \<le> MAX_PACKED_MESSAGE_BYTES"

definition message_bytes :: "HydraMessage \<Rightarrow> bytes" where
  "message_bytes m = PAYLOAD_MAGIC @ be_bytes 8 (of_nat (length (hm_plaintext m)) :: u64) @ hm_plaintext m @
     be_bytes 4 (of_nat (length (hm_attachments m)) :: u32) @ concat (map attachment_bytes (hm_attachments m))"

lemma length_PAYLOAD_MAGIC [simp]: "length PAYLOAD_MAGIC = 18"
  by (simp add: PAYLOAD_MAGIC_def)

lemma length_message_bytes: "length (message_bytes m) = message_len (hm_plaintext m) (hm_attachments m)"
proof -
  have "length (concat (map attachment_bytes as)) = sum_list (map attachment_len as)" for as
    by (induction as) (simp_all add: attachment_bytes_def attachment_len_def)
  then show ?thesis by (simp add: message_bytes_def message_len_def)
qed

lemma add_sizes_iff:
  "n \<le> usize_max \<Longrightarrow> add_attachment_sizes e n as = Inr k \<longleftrightarrow>
     k = n + sum_list (map attachment_len as) \<and> k \<le> usize_max"
proof (induction as arbitrary: n)
  case (Cons a as)
  show ?case
  proof (cases "n + attachment_len a \<le> usize_max")
    case True
    then show ?thesis
      using Cons.IH [OF True] by (simp add: checked_add_usize_def attachment_len_def add.assoc)
  next
    case False
    then show ?thesis
      by (auto simp: checked_add_usize_def attachment_len_def result_simps bind_eq_Some_conv split: if_splits)
  qed
qed auto

lemma encoded_len_iff:
  "encoded_message_len m encoded = Inr n \<longleftrightarrow>
     n = message_len (hm_plaintext m) (hm_attachments m) \<and> n \<le> MAX_PACKED_MESSAGE_BYTES"
proof (cases "30 + length (hm_plaintext m) \<le> usize_max")
  case True
  then show ?thesis
    using add_sizes_iff [OF True, of "size_error encoded ''message size''" "hm_attachments m"]
    by (auto simp: encoded_message_len_def result_simps checked_add_usize_def usize_max_def message_len_def)
next
  case False
  then show ?thesis
    by (auto simp: encoded_message_len_def result_simps checked_add_usize_def usize_max_def message_len_def
        bind_eq_Some_conv split: if_splits)
qed

lemma validate_attachment_iff [result_simps]: "validate_attachment encoded a = Inr u \<longleftrightarrow> attachment_fits a"
  by (simp add: validate_attachment_def result_simps attachment_fits_def not_less)

lemma pack_message_iff:
  "pack_message m = Inr bs \<longleftrightarrow> message_fits_limits (hm_plaintext m) (hm_attachments m) \<and> bs = message_bytes m"
  by (auto simp: pack_message_def validate_message_def result_simps encoded_len_iff message_fits_limits_def not_less
      list_all_iff message_bytes_def)

lemma stored_size_iff:
  "stored_message_size plaintext attachments = Inr n \<longleftrightarrow>
     message_fits_limits plaintext attachments \<and> n = message_len plaintext attachments"
proof -
  have add: "add_stored_sizes k as = Inr n \<longleftrightarrow> list_all attachment_fits as \<and> n = k + sum_list (map attachment_len as) \<and> n \<le> usize_max"
    if "k \<le> usize_max" for k as n
    using that
  proof (induction as arbitrary: k)
    case (Cons a as)
    then show ?case
      using add_sizes_iff [OF Cons.prems, of _ "[a]"]
      by (cases "k + attachment_len a \<le> usize_max") (auto simp: result_simps)
  qed auto
  show ?thesis
  proof (cases "30 + length plaintext \<le> usize_max")
    case True
    then show ?thesis
      using add [OF True]
      by (auto simp: stored_message_size_def result_simps checked_add_usize_def usize_max_def message_len_def
          message_fits_limits_def not_less)
  next
    case False
    then show ?thesis
      by (auto simp: stored_message_size_def result_simps checked_add_usize_def usize_max_def message_fits_limits_def message_len_def
          bind_eq_Some_conv split: if_splits)
  qed
qed

definition received_as :: "ContactId \<Rightarrow> MessageId \<Rightarrow> LobbyId option \<Rightarrow> HydraMessage \<Rightarrow> ReceivedHydraMessage" where
  "received_as contact mid lobby m = \<lparr>rm_from = contact, rm_message_id = mid, rm_lobby_id = lobby,
     rm_plaintext = hm_plaintext m, rm_attachments = hm_attachments m\<rparr>"

definition names_utf8 :: "HydraAttachment list \<Rightarrow> bool" where
  "names_utf8 as \<longleftrightarrow> list_all (\<lambda>a. utf8_valid (at_filename a)) as"

lemma received_as_inject: "received_as c i l m = received_as c' i' l' m' \<longleftrightarrow> c = c' \<and> i = i' \<and> l = l' \<and> m = m'"
  by (cases m; cases m') (auto simp: received_as_def)

lemma unpack_message_iff:
  "unpack_message bs contact mid lobby = Inr r \<longleftrightarrow>
     (\<exists>m. r = received_as contact mid lobby m \<and> message_fits_limits (hm_plaintext m) (hm_attachments m) \<and>
        names_utf8 (hm_attachments m) \<and> bs = message_bytes m)"
proof (cases "length bs \<le> MAX_PACKED_MESSAGE_BYTES")
  case True
  note codec = reader_codec_message [folded message_bytes_def]
  have small: "length bs \<le> usize_max" using True by (simp add: usize_max_def)
  have "unpack_message bs contact mid lobby = Inr r \<longleftrightarrow>
      (\<exists>m. (\<exists>t. read_message (BytesReader_new bs) = (Inr m, t) \<and> is_finished t) \<and> r = received_as contact mid lobby m)"
    using True
    by (auto simp: unpack_message_def fst_st_bind_Inr_iff st_lift_def rbind_Inr_iff ensure_Inr_iff received_as_def
        reject_encoded_size_def)
  also have "\<dots> \<longleftrightarrow> (\<exists>m. r = received_as contact mid lobby m \<and> message_fits_limits (hm_plaintext m) (hm_attachments m) \<and>
      names_utf8 (hm_attachments m) \<and> bs = message_bytes m)"
    unfolding reader_codec.reads_whole_iff [OF codec small] using True
    by (auto simp: message_fits_limits_def names_utf8_def attachment_wf_def attachment_fits_def list_all_iff length_message_bytes)
  finally show ?thesis .
next
  case False
  then show ?thesis
    by (auto simp: unpack_message_def result_simps message_fits_limits_def length_message_bytes)
qed

section \<open>The text line reads back\<close>

lemma split_on_nonempty [simp]: "split_on c s \<noteq> []"
  by (cases s) (auto split: list.split)

lemma split_on_plain: "c \<notin> set s \<Longrightarrow> split_on c s = [s]"
  by (induction s) auto

lemma split_on_sep: "c \<notin> set x \<Longrightarrow> split_on c (x @ c # s) = x # split_on c s"
  by (induction x) auto

lemma split_on_join: "xs \<noteq> [] \<Longrightarrow> \<forall>x \<in> set xs. c \<notin> set x \<Longrightarrow> split_on c (join_with c xs) = xs"
  by (induction c xs rule: join_with.induct) (simp_all add: split_on_plain split_on_sep)

lemma digit_bytes: "list_all (\<lambda>d. 48 \<le> (48 + of_nat d :: u8) \<and> (48 + of_nat d :: u8) \<le> 57 \<and> unat ((48 + of_nat d :: u8) - 48) = d) [0..<10]"
  by (simp add: upt_rec)

lemma digit_byte:
  assumes "d < 10"
  shows "48 \<le> (48 + of_nat d :: u8)" and "(48 + of_nat d :: u8) \<le> 57" and "unat ((48 + of_nat d :: u8) - 48) = d"
  using digit_bytes assms by (auto simp: list_all_iff)

lemma decimal_digits: "\<forall>c \<in> set (decimal n). 48 \<le> c \<and> c \<le> 57"
proof (induction n rule: decimal.induct)
  case (1 n)
  then show ?case
    using digit_byte [of n] digit_byte [of "n mod 10"] by (subst decimal.simps) auto
qed

lemma decimal_nonempty: "decimal n \<noteq> []"
  by (subst decimal.simps) simp

lemma parse_digits_append: "parse_digits acc (xs @ ys) = Option.bind (parse_digits acc xs) (\<lambda>acc. parse_digits acc ys)"
  by (induction acc xs rule: parse_digits.induct) auto

lemma parse_digits_decimal: "n \<le> usize_max \<Longrightarrow> parse_digits 0 (decimal n) = Some n"
proof (induction n rule: decimal.induct)
  case (1 n)
  show ?case
  proof (cases "n < 10")
    case True
    then show ?thesis using digit_byte [OF True] 1 by (subst decimal.simps) simp
  next
    case False
    have small: "n mod 10 < 10" by simp
    have "parse_digits 0 (decimal (n div 10)) = Some (n div 10)"
      using 1 False by (meson div_le_dividend order_trans)
    moreover have "n div 10 * 10 + n mod 10 = n" by simp
    ultimately show ?thesis
      using digit_byte [OF small] False 1(2)
      by (subst decimal.simps) (simp del: div_mult_mod_eq add: parse_digits_append)
  qed
qed

lemma parse_u64_decimal [simp]: "n \<le> usize_max \<Longrightarrow> parse_u64 (decimal n) = Some n"
  using parse_digits_decimal [of n] decimal_digits [of n] decimal_nonempty [of n]
  by (auto simp: parse_u64_def split: list.split)

lemma hex_digit_range: "hex_digit c \<Longrightarrow> 48 \<le> c"
  by (auto simp: hex_digit_def hex_nibble_def split: if_splits intro: order_trans [of 48 97] order_trans [of 48 65])

lemma no_tab: "\<forall>c \<in> set s. (48 :: u8) \<le> c \<Longrightarrow> 9 \<notin> set s" "\<forall>c \<in> set s. (48 :: u8) \<le> c \<Longrightarrow> 10 \<notin> set s"
  by auto

definition stored_ok :: "StoredMessage \<Rightarrow> bool" where
  "stored_ok m \<longleftrightarrow> length (st_contact_id m) = 32 \<and> message_fits_limits (st_plaintext m) (st_attachments m) \<and>
     names_utf8 (st_attachments m)"

lemma message_fields_plain: "x \<in> set (message_fields m) \<Longrightarrow> \<forall>c \<in> set x. 48 \<le> c"
proof -
  have hex: "\<forall>c \<in> set (hex_encode bs). 48 \<le> c" for bs using hex_encode_digits hex_digit_range by blast
  have dec: "\<forall>c \<in> set (decimal n). 48 \<le> c" for n using decimal_digits by blast
  have name: "\<forall>c \<in> set (source_name s). 48 \<le> c" for s by (cases s) (simp_all add: ascii_def)
  have "list_all (\<lambda>c. 48 \<le> c) (ascii ''message'') \<and> list_all (\<lambda>c. 48 \<le> c) (ascii ''in'') \<and> list_all (\<lambda>c. 48 \<le> c) (ascii ''out'')"
    by (simp add: ascii_def)
  then show "x \<in> set (message_fields m) \<Longrightarrow> \<forall>c \<in> set x. 48 \<le> c"
    using hex dec name by (auto simp: message_fields_def list_all_iff split: if_splits)
qed

lemma length_message_fields: "length (message_fields m) = 6 + length (st_attachments m) * 3"
  by (simp add: message_fields_def length_concat comp_def sum_list_triv)

lemma reject_hex_iff [result_simps]: "mx \<le> usize_max div 2 \<Longrightarrow> reject_hex_decoded_size v mx d = Inr u \<longleftrightarrow> length v \<le> mx * 2"
  by (auto simp: reject_hex_decoded_size_def result_simps checked_mul_usize_def)

lemma decode_attachments_encode:
  assumes "list_all attachment_wf as" and "n + sum_list (map attachment_len as) \<le> MAX_PACKED_MESSAGE_BYTES"
  shows "decode_attachment_fields (length as) n
    (concat (map (\<lambda>a. [source_name (at_source a), hex_encode (at_filename a), hex_encode (at_bytes a)]) as)) = Inr as"
  using assms
proof (induction as arbitrary: n)
  case (Cons a as)
  have a: "attachment_wf a" using Cons.prems by simp
  have n: "n + attachment_len a \<le> MAX_PACKED_MESSAGE_BYTES" using Cons.prems by simp
  have "ascii ''file'' \<noteq> ascii ''bytes''" by (simp add: ascii_def)
  then have src: "(if source_name s = ascii ''file'' then Inr AS_File else if source_name s = ascii ''bytes'' then Inr AS_Bytes
      else Inl e) = Inr s" for s and e :: HydraMsgError
    by (cases s) auto
  have rej: "reject_hex_decoded_size (hex_encode (at_filename a)) MAX_ATTACHMENT_FILENAME_BYTES d = Inr ()"
      "reject_hex_decoded_size (hex_encode (at_bytes a)) MAX_ATTACHMENT_BYTES d = Inr ()" for d
    using a by (simp_all add: reject_hex_decoded_size_def checked_mul_usize_def usize_max_def attachment_wf_def)
  have name: "from_utf8 (at_filename a) e = Inr (at_filename a)" "validate_decoded_filename (at_filename a) = Inr ()" for e
    using a by (simp_all add: from_utf8_def attachment_wf_def validate_decoded_filename_iff)
  have total: "n + (1 + 4 + length (at_filename a) + 8 + length (at_bytes a)) = n + attachment_len a"
    by (simp add: attachment_len_def)
  have sizes: "checked_add_usize n (1 + 4 + length (at_filename a) + 8 + length (at_bytes a)) = Some (n + attachment_len a)"
      "reject_encoded_size (n + attachment_len a) MAX_PACKED_MESSAGE_BYTES d = Inr ()" for d
    unfolding checked_add_usize_def total using n by (simp_all add: usize_max_def reject_encoded_size_def)
  have "decode_attachment_fields (length as) (n + attachment_len a)
      (concat (map (\<lambda>a. [source_name (at_source a), hex_encode (at_filename a), hex_encode (at_bytes a)]) as)) = Inr as"
    using Cons.prems by (intro Cons.IH) (simp_all add: add.assoc)
  then show ?case
    unfolding list.map concat.simps append.simps list.size add_0_right add_Suc_right decode_attachment_fields.simps src rej
      hex_decode_encode rbind_simps name sizes ok_or_simps
    by simp
qed simp

lemma decode_encode_message_line:
  assumes "stored_ok m"
  shows "decode_message_line (encode_message_line m) = Inr m"
proof -
  have "split_on 9 (encode_message_line m) = message_fields m"
    unfolding encode_message_line_def
    using message_fields_plain no_tab(1) by (intro split_on_join) (auto simp: message_fields_def)
  moreover have len: "length (message_fields m) \<le> MAX_MESSAGE_LINE_FIELDS"
    using assms by (simp add: length_message_fields MAX_MESSAGE_LINE_FIELDS_def stored_ok_def message_fits_limits_def)
  ultimately have parts: "take (MAX_MESSAGE_LINE_FIELDS + 1) (split_on 9 (encode_message_line m)) = message_fields m"
    by simp
  have wf: "list_all attachment_wf (st_attachments m)"
    using assms by (auto simp: stored_ok_def message_fits_limits_def names_utf8_def attachment_wf_def attachment_fits_def list_all_iff)
  have "length PAYLOAD_MAGIC + 8 + length (st_plaintext m) + 4 + sum_list (map attachment_len (st_attachments m))
      \<le> MAX_PACKED_MESSAGE_BYTES"
    using assms by (simp add: stored_ok_def message_fits_limits_def message_len_def)
  note atts = decode_attachments_encode [OF wf this]
  have id: "unat (st_id m) \<le> usize_max" using unat_u64_bound [of "st_id m"] by (simp add: usize_max_def)
  have io: "ascii ''out'' \<noteq> ascii ''in''" by (simp add: ascii_def)
  have pl: "reject_hex_decoded_size (hex_encode (st_plaintext m)) MAX_MESSAGE_PLAINTEXT_BYTES d = Inr ()" for d
    using assms by (simp add: reject_hex_decoded_size_def checked_mul_usize_def usize_max_def stored_ok_def message_fits_limits_def)
  have n: "length (st_attachments m) \<le> MAX_ATTACHMENTS_PER_MESSAGE" and c: "length (st_contact_id m) = 32"
    using assms by (simp_all add: stored_ok_def message_fits_limits_def)
  have nth: "message_fields m ! 0 = ascii ''message''" "message_fields m ! 1 = decimal (unat (st_id m))"
      "message_fields m ! 2 = hex_encode (st_contact_id m)"
      "message_fields m ! 3 = (if st_inbound m then ascii ''in'' else ascii ''out'')"
      "message_fields m ! 4 = hex_encode (st_plaintext m)" "message_fields m ! 5 = decimal (length (st_attachments m))"
      "drop 6 (message_fields m) = concat (map (\<lambda>a. [source_name (at_source a), hex_encode (at_filename a), hex_encode (at_bytes a)])
         (st_attachments m))"
    by (simp_all add: message_fields_def)
  show ?thesis
    unfolding decode_message_line_def Let_def parts nth
    using len n c id io pl atts
    by (simp add: length_message_fields exact_array_from_vec_def checked_mul_usize_def checked_add_usize_def usize_max_def)
qed

section \<open>Properties\<close>

definition as_sent :: "ReceivedHydraMessage \<Rightarrow> HydraMessage" where
  "as_sent r = \<lparr>hm_plaintext = rm_plaintext r, hm_attachments = rm_attachments r\<rparr>"

lemma as_sent_received [simp]: "as_sent (received_as contact mid lobby m) = m"
  by (simp add: as_sent_def received_as_def)

interpretation message_payload: canonical_codec pack_message
  "\<lambda>bs. rbind (unpack_message bs contact mid lobby) (\<lambda>r. Inr (as_sent r))" "\<lambda>m. names_utf8 (hm_attachments m)"
  for contact mid lobby
  by unfold_locales (auto simp: result_simps pack_message_iff unpack_message_iff)

text \<open>C36: The binary payload of a message is a canonical code: a byte string unpacks to a message exactly if it is what packing
  a message within the limits, with UTF-8 file names, produces, and that message is the one received, under the sender and
  the identifier of the caller.\<close>

theorem message_payload_canonical:
  "unpack_message bs contact mid lobby = Inr r \<longleftrightarrow>
     (\<exists>m. r = received_as contact mid lobby m \<and> names_utf8 (hm_attachments m) \<and> pack_message m = Inr bs)"
proof -
  have sent: "unpack_message bs contact mid lobby = Inr r \<Longrightarrow> r = received_as contact mid lobby (as_sent r)" for r
    by (auto simp: unpack_message_iff)
  have "rbind (unpack_message bs contact mid lobby) (\<lambda>r. Inr (as_sent r)) = Inr m \<longleftrightarrow>
      unpack_message bs contact mid lobby = Inr (received_as contact mid lobby m)" for m
    using sent by (auto simp: rbind_Inr_iff)
  then have each: "unpack_message bs contact mid lobby = Inr (received_as contact mid lobby m) \<longleftrightarrow>
      names_utf8 (hm_attachments m) \<and> pack_message m = Inr bs" for m
    using message_payload.dec_accepts_iff [of bs contact mid lobby m] by simp
  show ?thesis
  proof
    assume r: "unpack_message bs contact mid lobby = Inr r"
    then have "unpack_message bs contact mid lobby = Inr (received_as contact mid lobby (as_sent r))" using sent [OF r] by simp
    with each sent [OF r] show "\<exists>m. r = received_as contact mid lobby m \<and> names_utf8 (hm_attachments m) \<and> pack_message m = Inr bs" by blast
  qed (use each in auto)
qed

end
