(* ===== verification/Msg_Store.thy ===== *)
theory Msg_Store
  imports Msg_Messages
begin

text \<open>
  The message history of \<open>messages/mod.rs\<close>: messages with running totals of their number and size per contact.
  Methods that end by writing the state to disk are modelled up to that call. A \<open>HashMap\<close> is an association
  list.
\<close>

section \<open>Operations\<close>

record MessageStore =
  ms_messages :: "StoredMessage list"
  ms_usage :: "(ContactId \<times> MessageUsage) list"
  ms_bytes :: nat
  ms_next_id :: MessageId

type_synonym 'a store_op = "(MessageStore, HydraMsgError, 'a) st"

definition usage_of :: "ContactId \<Rightarrow> (ContactId \<times> MessageUsage) list \<Rightarrow> MessageUsage" where
  "usage_of c usage = (case map_of usage c of None \<Rightarrow> MessageUsage_default | Some u \<Rightarrow> u)"

definition saturating_add_u64 :: "u64 \<Rightarrow> u64 \<Rightarrow> u64" where
  "saturating_add_u64 a b = (case checked_add_u64 a b of None \<Rightarrow> u64_max | Some c \<Rightarrow> c)"

definition list_messages :: "ContactId \<Rightarrow> MessageStore \<Rightarrow> MessageId list" where
  "list_messages contact_id s = map st_id (filter (\<lambda>m. st_contact_id m = contact_id) (ms_messages s))"

definition get_message :: "MessageId \<Rightarrow> MessageStore \<Rightarrow> ReceivedHydraMessage HydraResult" where
  "get_message message_id s =
     rbind (ok_or (find (\<lambda>m. st_id m = message_id) (ms_messages s)) HE_MessageNotFound) (\<lambda>stored.
       Inr \<lparr>rm_from = st_contact_id stored, rm_message_id = st_id stored, rm_lobby_id = None,
         rm_plaintext = st_plaintext stored, rm_attachments = st_attachments stored\<rparr>)"

definition ensure_message_capacity :: "ContactId \<Rightarrow> nat \<Rightarrow> MessageStore \<Rightarrow> unit HydraResult" where
  "ensure_message_capacity contact_id additional_bytes s =
     rbind (reject_collection_growth (length (ms_messages s)) 1 MAX_MESSAGES ''message limit reached'') (\<lambda>_.
     rbind (reject_collection_growth (ms_bytes s) additional_bytes MAX_STORED_MESSAGE_BYTES
              ''stored message byte limit reached'') (\<lambda>_.
     let usage = usage_of contact_id (ms_usage s) in
     rbind (reject_collection_growth (mu_count usage) 1 MAX_MESSAGES_PER_CONTACT ''contact message limit reached'') (\<lambda>_.
       reject_collection_growth (mu_bytes usage) additional_bytes MAX_STORED_MESSAGE_BYTES_PER_CONTACT
         ''contact message byte limit reached'')))"

definition record_message_usage :: "ContactId \<Rightarrow> nat \<Rightarrow> MessageStore \<Rightarrow> MessageStore" where
  "record_message_usage contact_id sz s =
     (let usage = usage_of contact_id (ms_usage s) in
      s\<lparr>ms_bytes := ms_bytes s + sz,
        ms_usage := AList.update contact_id \<lparr>mu_count = mu_count usage + 1, mu_bytes = mu_bytes usage + sz\<rparr> (ms_usage s)\<rparr>)"

definition store_message :: "ContactId \<Rightarrow> bool \<Rightarrow> bytes \<Rightarrow> HydraAttachment list \<Rightarrow> MessageId store_op" where
  "store_message contact_id inbound plaintext attachments =
     st_bind (st_lift (stored_message_size plaintext attachments)) (\<lambda>sz s.
     st_bind (st_lift (ensure_message_capacity contact_id sz s)) (\<lambda>_ s.
     let mid = ms_next_id s in
     st_bind (st_modify (\<lambda>s. s\<lparr>ms_next_id := saturating_add_u64 mid 1,
       ms_messages := ms_messages s @ [\<lparr>st_id = mid, st_contact_id = contact_id, st_inbound = inbound,
         st_plaintext = plaintext, st_attachments = attachments\<rparr>]\<rparr>)) (\<lambda>_.
     st_bind (st_modify (record_message_usage contact_id sz)) (\<lambda>_.
       st_lift (Inr mid))) s) s)"

text \<open>The recount: the loop over the messages with the totals so far.\<close>

fun count_usage :: "StoredMessage list \<Rightarrow> (ContactId \<times> MessageUsage) list \<Rightarrow> nat \<Rightarrow>
    ((ContactId \<times> MessageUsage) list \<times> nat) HydraResult" where
  "count_usage [] usage total_bytes = Inr (usage, total_bytes)"
| "count_usage (m # ms) usage total_bytes =
     rbind (stored_message_size (st_plaintext m) (st_attachments m)) (\<lambda>sz.
     rbind (ok_or (checked_add_usize total_bytes sz) (HE_InvalidEncoding ''stored message byte count'')) (\<lambda>total_bytes.
     rbind (ensure (\<not> MAX_STORED_MESSAGE_BYTES < total_bytes) (HE_InvalidEncoding ''stored message byte limit'')) (\<lambda>_.
     let entry = usage_of (st_contact_id m) usage in
     rbind (ok_or (checked_add_usize (mu_count entry) 1) (HE_InvalidEncoding ''stored message count'')) (\<lambda>count.
     rbind (ok_or (checked_add_usize (mu_bytes entry) sz) (HE_InvalidEncoding ''stored message byte count'')) (\<lambda>bs.
     rbind (ensure (\<not> (MAX_MESSAGES_PER_CONTACT < count \<or> MAX_STORED_MESSAGE_BYTES_PER_CONTACT < bs))
              (HE_InvalidEncoding ''stored messages per-contact limit'')) (\<lambda>_.
       count_usage ms (AList.update (st_contact_id m) \<lparr>mu_count = count, mu_bytes = bs\<rparr> usage) total_bytes))))))"

definition rebuild_message_usage :: "unit store_op" where
  "rebuild_message_usage s =
     st_bind (st_lift (count_usage (ms_messages s) [] 0)) (\<lambda>(usage, total_bytes).
       st_modify (\<lambda>s. s\<lparr>ms_usage := usage, ms_bytes := total_bytes\<rparr>)) s"

definition release_message_usage :: "ContactId \<Rightarrow> nat \<Rightarrow> unit store_op" where
  "release_message_usage contact_id sz s =
     st_bind (st_lift (ok_or (checked_sub_usize (ms_bytes s) sz) (HE_InvalidEncoding ''stored message byte count''))) (\<lambda>n.
     st_bind (st_modify (\<lambda>s. s\<lparr>ms_bytes := n\<rparr>)) (\<lambda>_.
     st_bind (st_lift (ok_or (map_of (ms_usage s) contact_id) (HE_InvalidEncoding ''stored message usage''))) (\<lambda>usage.
     st_bind (st_lift (ok_or (checked_sub_usize (mu_count usage) 1) (HE_InvalidEncoding ''stored message count''))) (\<lambda>count.
     st_bind (st_modify (\<lambda>s. s\<lparr>ms_usage := AList.update contact_id (usage\<lparr>mu_count := count\<rparr>) (ms_usage s)\<rparr>)) (\<lambda>_.
     st_bind (st_lift (ok_or (checked_sub_usize (mu_bytes usage) sz) (HE_InvalidEncoding ''stored message byte count''))) (\<lambda>bs.
     st_bind (st_modify (\<lambda>s. s\<lparr>ms_usage := AList.update contact_id \<lparr>mu_count = count, mu_bytes = bs\<rparr> (ms_usage s)\<rparr>)) (\<lambda>_.
       if count = 0 then st_modify (\<lambda>s. s\<lparr>ms_usage := AList.delete contact_id (ms_usage s)\<rparr>) else st_lift (Inr ())))))))) s"

text \<open>\<open>delete_message\<close> between taking the snapshot it can fall back to and writing the state.\<close>

definition delete_message :: "MessageId \<Rightarrow> unit store_op" where
  "delete_message message_id s =
     st_bind (st_lift (ok_or (position (\<lambda>m. st_id m = message_id) (ms_messages s)) HE_MessageNotFound)) (\<lambda>pos.
     let m = ms_messages s ! pos in
     st_bind (st_lift (stored_message_size (st_plaintext m) (st_attachments m))) (\<lambda>sz.
     st_bind (st_modify (\<lambda>s. s\<lparr>ms_messages := remove_nth pos (ms_messages s)\<rparr>)) (\<lambda>_.
       release_message_usage (st_contact_id m) sz))) s"

definition clear_messages :: "ContactId \<Rightarrow> unit store_op" where
  "clear_messages contact_id =
     st_bind (st_modify (\<lambda>s. s\<lparr>ms_messages := filter (\<lambda>m. st_contact_id m \<noteq> contact_id) (ms_messages s)\<rparr>)) (\<lambda>_.
       rebuild_message_usage)"

fun export_lines :: "bytes \<Rightarrow> StoredMessage list \<Rightarrow> bytes HydraResult" where
  "export_lines out [] = Inr out"
| "export_lines out (m # ms) =
     (let out = out @ encode_message_line m @ [10] in
      rbind (reject_input_size (length out) MAX_MESSAGE_IMPORT_BYTES ''messages export size'') (\<lambda>_.
        export_lines out ms))"

definition export_messages :: "MessageStore \<Rightarrow> bytes HydraResult" where
  "export_messages s = export_lines MESSAGES_MAGIC (ms_messages s)"

record ImportState =
  im_messages :: "StoredMessage list"
  im_usage :: "(ContactId \<times> MessageUsage) list"
  im_bytes :: nat
  im_seen :: "MessageId set"

fun import_lines :: "bytes list \<Rightarrow> ImportState \<Rightarrow> ImportState HydraResult" where
  "import_lines [] i = Inr i"
| "import_lines (line # rest) i =
     (if str_trim line = [] then import_lines rest i
      else
        rbind (reject_decoded_collection_growth (length (im_messages i)) 1 MAX_MESSAGES ''messages import count'') (\<lambda>_.
        rbind (decode_message_line line) (\<lambda>m.
        rbind (ensure (st_id m \<notin> im_seen i) (HE_InvalidEncoding ''message id duplicate'')) (\<lambda>_.
        rbind (stored_message_size (st_plaintext m) (st_attachments m)) (\<lambda>sz.
        rbind (ok_or (checked_add_usize (im_bytes i) sz) (HE_InvalidEncoding ''messages import byte count'')) (\<lambda>n.
        rbind (reject_encoded_size n MAX_STORED_MESSAGE_BYTES ''messages import byte count'') (\<lambda>_.
        let usage = usage_of (st_contact_id m) (im_usage i) in
        rbind (ok_or (checked_add_usize (mu_count usage) 1) (HE_InvalidEncoding ''messages import count'')) (\<lambda>count.
        rbind (ok_or (checked_add_usize (mu_bytes usage) sz) (HE_InvalidEncoding ''messages import byte count'')) (\<lambda>bs.
        rbind (ensure (\<not> (MAX_MESSAGES_PER_CONTACT < count \<or> MAX_STORED_MESSAGE_BYTES_PER_CONTACT < bs))
                 (HE_InvalidEncoding ''messages import per-contact limit'')) (\<lambda>_.
          import_lines rest \<lparr>im_messages = im_messages i @ [m],
            im_usage = AList.update (st_contact_id m) \<lparr>mu_count = count, mu_bytes = bs\<rparr> (im_usage i),
            im_bytes = n, im_seen = insert (st_id m) (im_seen i)\<rparr>))))))))))"

definition adopt_imported :: "ImportState \<Rightarrow> MessageStore \<Rightarrow> MessageStore" where
  "adopt_imported i s =
     (let s = foldl (\<lambda>s m. s\<lparr>ms_next_id := max (ms_next_id s) (saturating_add_u64 (st_id m) 1),
                ms_messages := ms_messages s @ [m]\<rparr>) s (im_messages i) in
      foldl (\<lambda>s (c, additional). let usage = usage_of c (ms_usage s) in
          s\<lparr>ms_usage := AList.update c \<lparr>mu_count = mu_count usage + mu_count additional,
              mu_bytes = mu_bytes usage + mu_bytes additional\<rparr> (ms_usage s)\<rparr>)
        (s\<lparr>ms_bytes := ms_bytes s + im_bytes i\<rparr>) (im_usage i))"

text \<open>\<open>import_messages\<close>: everything is read and checked before the state changes.\<close>

definition usage_fits :: "MessageStore \<Rightarrow> ContactId \<times> MessageUsage \<Rightarrow> unit HydraResult" where
  "usage_fits s = (\<lambda>(c, additional).
     let existing = usage_of c (ms_usage s) in
     rbind (reject_collection_growth (mu_count existing) (mu_count additional) MAX_MESSAGES_PER_CONTACT
              ''contact message limit reached'') (\<lambda>_.
       reject_collection_growth (mu_bytes existing) (mu_bytes additional) MAX_STORED_MESSAGE_BYTES_PER_CONTACT
         ''contact message byte limit reached''))"

definition read_import :: "bytes \<Rightarrow> MessageStore \<Rightarrow> ImportState HydraResult" where
  "read_import bs s =
     rbind (reject_encoded_size (length bs) MAX_MESSAGE_IMPORT_BYTES ''messages import size'') (\<lambda>_.
     rbind (from_utf8 bs (HE_InvalidEncoding ''messages export is not utf-8'')) (\<lambda>text.
     rbind (ensure (starts_with text MESSAGES_MAGIC) (HE_InvalidEncoding ''messages export magic'')) (\<lambda>_.
     rbind (import_lines (drop 1 (str_lines text))
              \<lparr>im_messages = [], im_usage = [], im_bytes = 0, im_seen = st_id ` set (ms_messages s)\<rparr>) (\<lambda>i.
     rbind (reject_collection_growth (length (ms_messages s)) (length (im_messages i)) MAX_MESSAGES
              ''message limit reached'') (\<lambda>_.
     rbind (reject_collection_growth (ms_bytes s) (im_bytes i) MAX_STORED_MESSAGE_BYTES
              ''stored message byte limit reached'') (\<lambda>_.
     rbind (rforeach (usage_fits s) (im_usage i)) (\<lambda>_. Inr i)))))))"

definition import_messages :: "bytes \<Rightarrow> unit store_op" where
  "import_messages bs s =
     st_bind (st_lift (read_import bs s)) (\<lambda>i. st_modify (adopt_imported i)) s"

section \<open>What the totals mean\<close>

definition stored_len :: "StoredMessage \<Rightarrow> nat" where
  "stored_len m = message_len (st_plaintext m) (st_attachments m)"

definition total_len :: "StoredMessage list \<Rightarrow> nat" where
  "total_len ms = sum_list (map stored_len ms)"

definition of_contact :: "ContactId \<Rightarrow> StoredMessage list \<Rightarrow> StoredMessage list" where
  "of_contact c ms = filter (\<lambda>m. st_contact_id m = c) ms"

definition recount :: "StoredMessage list \<Rightarrow> ContactId \<Rightarrow> MessageUsage" where
  "recount ms c = \<lparr>mu_count = length (of_contact c ms), mu_bytes = total_len (of_contact c ms)\<rparr>"

definition tally :: "StoredMessage list \<Rightarrow> ContactId \<rightharpoonup> MessageUsage" where
  "tally ms c = (if of_contact c ms = [] then None else Some (recount ms c))"

definition usage_within :: "MessageUsage \<Rightarrow> bool" where
  "usage_within u \<longleftrightarrow> mu_count u \<le> MAX_MESSAGES_PER_CONTACT \<and> mu_bytes u \<le> MAX_STORED_MESSAGE_BYTES_PER_CONTACT"

definition add_usage :: "MessageUsage \<Rightarrow> MessageUsage \<Rightarrow> MessageUsage" where
  "add_usage u v = \<lparr>mu_count = mu_count u + mu_count v, mu_bytes = mu_bytes u + mu_bytes v\<rparr>"

definition message_usage :: "StoredMessage \<Rightarrow> MessageUsage" where
  "message_usage m = \<lparr>mu_count = 1, mu_bytes = stored_len m\<rparr>"

named_theorems tally_simps

lemma total_len_simps [tally_simps]:
  "total_len [] = 0" "total_len (m # ms) = stored_len m + total_len ms" "total_len (ms @ ns) = total_len ms + total_len ns"
  by (simp_all add: total_len_def)

lemma of_contact_simps [tally_simps]:
  "of_contact c [] = []" "of_contact c (m # ms) = (if st_contact_id m = c then m # of_contact c ms else of_contact c ms)"
  "of_contact c (ms @ ns) = of_contact c ms @ of_contact c ns"
  by (simp_all add: of_contact_def)

lemma recount_append: "recount (ms @ ns) c = add_usage (recount ms c) (recount ns c)"
  by (simp add: recount_def add_usage_def tally_simps)

lemma recount_one: "recount [m] c = (if c = st_contact_id m then message_usage m else MessageUsage_default)"
  by (simp add: recount_def message_usage_def MessageUsage_default_def tally_simps)

lemma add_usage_default [simp]: "add_usage u MessageUsage_default = u" "add_usage MessageUsage_default u = u"
  by (simp_all add: add_usage_def MessageUsage_default_def)

lemma recount_none: "of_contact c ms = [] \<Longrightarrow> recount ms c = MessageUsage_default"
  by (simp add: recount_def MessageUsage_default_def tally_simps)

lemma usage_of_tally: "map_of usage = tally ms \<Longrightarrow> usage_of c usage = recount ms c"
  by (simp add: usage_of_def tally_def recount_none)

lemma tally_append: "tally (ms @ ns) c = (if of_contact c ms = [] \<and> of_contact c ns = [] then None
    else Some (add_usage (recount ms c) (recount ns c)))"
  by (simp add: tally_def recount_append of_contact_simps)

lemma tally_snoc: "tally (ms @ [m]) = (tally ms)(st_contact_id m \<mapsto> add_usage (recount ms (st_contact_id m)) (message_usage m))"
  by (rule ext) (auto simp: tally_append recount_append recount_one of_contact_simps tally_def)

lemma tally_Nil [simp]: "tally [] = Map.empty"
  by (rule ext) (simp add: tally_def tally_simps)

lemma map_of_update_tally:
  "map_of usage = tally ms \<Longrightarrow>
     map_of (AList.update (st_contact_id m) (add_usage (usage_of (st_contact_id m) usage) (message_usage m)) usage) = tally (ms @ [m])"
  by (simp add: update_conv' tally_snoc usage_of_tally)

section \<open>The invariant of the history\<close>

definition messages_within :: "StoredMessage list \<Rightarrow> bool" where
  "messages_within ms \<longleftrightarrow> total_len ms \<le> MAX_STORED_MESSAGE_BYTES \<and> (\<forall>c. usage_within (recount ms c)) \<and>
     list_all (\<lambda>m. message_fits_limits (st_plaintext m) (st_attachments m)) ms"

definition totals_ok :: "MessageStore \<Rightarrow> bool" where
  "totals_ok s \<longleftrightarrow> map_of (ms_usage s) = tally (ms_messages s) \<and> distinct (map fst (ms_usage s)) \<and>
     ms_bytes s = total_len (ms_messages s)"

definition ids_ok :: "MessageStore \<Rightarrow> bool" where
  "ids_ok s \<longleftrightarrow> ms_next_id s = u64_max \<or>
     distinct (map st_id (ms_messages s)) \<and> (\<forall>m \<in> set (ms_messages s). st_id m < ms_next_id s)"

definition history_ok :: "MessageStore \<Rightarrow> bool" where
  "history_ok s \<longleftrightarrow> totals_ok s \<and> messages_within (ms_messages s) \<and> length (ms_messages s) \<le> MAX_MESSAGES \<and> ids_ok s \<and>
     list_all stored_ok (ms_messages s)"

lemma history_okD:
  assumes "history_ok s"
  shows "map_of (ms_usage s) = tally (ms_messages s)" "distinct (map fst (ms_usage s))" "ms_bytes s = total_len (ms_messages s)"
    "messages_within (ms_messages s)" "length (ms_messages s) \<le> MAX_MESSAGES" "ids_ok s" "list_all stored_ok (ms_messages s)"
    "totals_ok s"
  using assms by (simp_all add: history_ok_def totals_ok_def)

text \<open>Counting again from totals that are right gives totals that are right, and succeeds exactly within the limits.\<close>

lemma usage_limits: "MAX_MESSAGES_PER_CONTACT < usize_max" "2 * MAX_STORED_MESSAGE_BYTES < usize_max"
    "MAX_MESSAGES < usize_max" "MAX_STORED_MESSAGE_BYTES_PER_CONTACT \<le> MAX_STORED_MESSAGE_BYTES" "MAX_PACKED_MESSAGE_BYTES \<le> MAX_STORED_MESSAGE_BYTES"
  by (simp_all add: usize_max_def MAX_MESSAGES_PER_CONTACT_def MAX_STORED_MESSAGE_BYTES_def MAX_MESSAGES_def
      MAX_STORED_MESSAGE_BYTES_PER_CONTACT_def MAX_PACKED_MESSAGE_BYTES_def)

lemma counted_sums:
  assumes "messages_within pre" and "message_fits_limits (st_plaintext m) (st_attachments m)"
  shows "checked_add_usize (total_len pre) (stored_len m) = Some (total_len (pre @ [m]))"
    and "checked_add_usize (mu_count (recount pre (st_contact_id m))) 1 = Some (mu_count (recount (pre @ [m]) (st_contact_id m)))"
    and "checked_add_usize (mu_bytes (recount pre (st_contact_id m))) (stored_len m) = Some (mu_bytes (recount (pre @ [m]) (st_contact_id m)))"
proof -
  have len: "stored_len m \<le> MAX_PACKED_MESSAGE_BYTES" using assms(2) by (simp add: message_fits_limits_def stored_len_def)
  have w: "usage_within (recount pre (st_contact_id m))" "total_len pre \<le> MAX_STORED_MESSAGE_BYTES"
    using assms(1) by (simp_all add: messages_within_def)
  show "checked_add_usize (total_len pre) (stored_len m) = Some (total_len (pre @ [m]))"
    "checked_add_usize (mu_count (recount pre (st_contact_id m))) 1 = Some (mu_count (recount (pre @ [m]) (st_contact_id m)))"
    "checked_add_usize (mu_bytes (recount pre (st_contact_id m))) (stored_len m) = Some (mu_bytes (recount (pre @ [m]) (st_contact_id m)))"
    using len w usage_limits
    by (simp_all add: checked_add_usize_def tally_simps recount_append recount_one add_usage_def message_usage_def usage_within_def)
qed

lemma count_usage_Cons:
  assumes "map_of usage = tally pre" and "messages_within pre"
  shows "count_usage (m # ms) usage (total_len pre) = Inr r \<longleftrightarrow>
    message_fits_limits (st_plaintext m) (st_attachments m) \<and> total_len (pre @ [m]) \<le> MAX_STORED_MESSAGE_BYTES \<and>
    usage_within (recount (pre @ [m]) (st_contact_id m)) \<and>
    count_usage ms (AList.update (st_contact_id m) (add_usage (usage_of (st_contact_id m) usage) (message_usage m)) usage)
      (total_len (pre @ [m])) = Inr r"
proof (cases "message_fits_limits (st_plaintext m) (st_attachments m)")
  case True
  note sums = counted_sums [OF assms(2) True]
  have eq: "\<lparr>mu_count = mu_count (recount (pre @ [m]) (st_contact_id m)), mu_bytes = mu_bytes (recount (pre @ [m]) (st_contact_id m))\<rparr>
      = add_usage (recount pre (st_contact_id m)) (message_usage m)"
    by (simp add: recount_append recount_one)
  have sz: "stored_message_size (st_plaintext m) (st_attachments m) = Inr (stored_len m)"
    using True by (simp add: stored_size_iff stored_len_def)
  show ?thesis
    unfolding count_usage.simps sz rbind_simps usage_of_tally [OF assms(1)] Let_def sums ok_or_simps eq
    using True by (auto simp: result_simps usage_within_def)
next
  case False
  then show ?thesis by (auto simp: result_simps stored_size_iff)
qed

lemma messages_within_snoc:
  "messages_within (ms @ [m]) \<longleftrightarrow> messages_within ms \<and> message_fits_limits (st_plaintext m) (st_attachments m) \<and>
     total_len (ms @ [m]) \<le> MAX_STORED_MESSAGE_BYTES \<and> usage_within (recount (ms @ [m]) (st_contact_id m))"
proof -
  have other: "recount (ms @ [m]) c = recount ms c" if "c \<noteq> st_contact_id m" for c
    using that by (simp add: recount_append recount_one)
  have mono: "usage_within (recount (ms @ [m]) c) \<Longrightarrow> usage_within (recount ms c)" for c
    by (simp add: recount_append usage_within_def add_usage_def)
  have "(\<forall>c. usage_within (recount (ms @ [m]) c)) \<longleftrightarrow>
      (\<forall>c. usage_within (recount ms c)) \<and> usage_within (recount (ms @ [m]) (st_contact_id m))"
    using other mono by metis
  then show ?thesis by (auto simp: messages_within_def total_len_simps)
qed

lemma messages_within_appendD: "messages_within (ms @ ns) \<Longrightarrow> messages_within ms"
  by (auto simp: messages_within_def total_len_simps recount_append usage_within_def add_usage_def intro: add_leD1 order_trans)

lemma count_usage_iff:
  assumes "map_of usage = tally pre" and "messages_within pre"
  shows "(\<exists>r. count_usage ms usage (total_len pre) = Inr r) \<longleftrightarrow> messages_within (pre @ ms)"
    and "count_usage ms usage (total_len pre) = Inr (usage', n) \<Longrightarrow> map_of usage' = tally (pre @ ms) \<and> n = total_len (pre @ ms)"
    and "count_usage ms usage (total_len pre) = Inr (usage', n) \<Longrightarrow> distinct (map fst usage) \<Longrightarrow> distinct (map fst usage')"
proof -
  have "((\<exists>r. count_usage ms usage (total_len pre) = Inr r) \<longleftrightarrow> messages_within (pre @ ms)) \<and>
    (count_usage ms usage (total_len pre) = Inr (usage', n) \<longrightarrow> map_of usage' = tally (pre @ ms) \<and> n = total_len (pre @ ms) \<and>
      (distinct (map fst usage) \<longrightarrow> distinct (map fst usage')))"
    using assms
  proof (induction ms arbitrary: pre usage)
    case (Cons m ms)
    let ?usage = "AList.update (st_contact_id m) (add_usage (usage_of (st_contact_id m) usage) (message_usage m)) usage"
    have step: "count_usage (m # ms) usage (total_len pre) = Inr r \<longleftrightarrow>
        messages_within (pre @ [m]) \<and> count_usage ms ?usage (total_len (pre @ [m])) = Inr r" for r
      using count_usage_Cons [OF Cons.prems, of m ms r] Cons.prems(2) by (auto simp: messages_within_snoc)
    show ?case
    proof (cases "messages_within (pre @ [m])")
      case True
      show ?thesis
        using Cons.IH [OF map_of_update_tally [OF Cons.prems(1)] True] step True
        by (auto simp del: count_usage.simps simp: distinct_update)
    next
      case False
      then show ?thesis using step messages_within_appendD [of "pre @ [m]" ms]
        by (auto simp del: count_usage.simps)
    qed
  qed auto
  then show "(\<exists>r. count_usage ms usage (total_len pre) = Inr r) \<longleftrightarrow> messages_within (pre @ ms)"
    and "count_usage ms usage (total_len pre) = Inr (usage', n) \<Longrightarrow> map_of usage' = tally (pre @ ms) \<and> n = total_len (pre @ ms)"
    and "count_usage ms usage (total_len pre) = Inr (usage', n) \<Longrightarrow> distinct (map fst usage) \<Longrightarrow> distinct (map fst usage')"
    by blast+
qed

lemma rebuild_exact:
  assumes "messages_within (ms_messages s)"
  obtains usage where "rebuild_message_usage s = (Inr (), s\<lparr>ms_usage := usage, ms_bytes := total_len (ms_messages s)\<rparr>)"
    and "map_of usage = tally (ms_messages s)" and "distinct (map fst usage)"
proof -
  have nil: "messages_within []" by (simp add: messages_within_def tally_simps usage_within_def recount_def)
  have nilt: "map_of [] = tally []" by simp
  obtain usage n where ok: "count_usage (ms_messages s) [] (total_len []) = Inr (usage, n)"
    using count_usage_iff(1) [OF nilt nil, of "ms_messages s"] assms by auto
  moreover have "map_of usage = tally (ms_messages s)" "n = total_len (ms_messages s)" "distinct (map fst usage)"
    using count_usage_iff(2,3) [OF nilt nil ok] by simp_all
  ultimately show thesis
    using that [of usage] by (simp add: rebuild_message_usage_def st_bind_def st_lift_def st_modify_def total_len_simps)
qed

section \<open>Every operation keeps the invariant\<close>

lemma growth_iff: "mx < usize_max \<Longrightarrow> reject_collection_growth k n mx d = Inr u \<longleftrightarrow> k + n \<le> mx"
  by (auto simp: reject_collection_growth_def checked_add_usize_def result_simps split: if_splits option.splits)

lemma capacity_iff:
  assumes "totals_ok s"
  shows "ensure_message_capacity c n s = Inr u \<longleftrightarrow>
    length (ms_messages s) + 1 \<le> MAX_MESSAGES \<and> total_len (ms_messages s) + n \<le> MAX_STORED_MESSAGE_BYTES \<and>
    usage_within (add_usage (recount (ms_messages s) c) \<lparr>mu_count = 1, mu_bytes = n\<rparr>)"
proof -
  have "MAX_STORED_MESSAGE_BYTES < usize_max" "MAX_STORED_MESSAGE_BYTES_PER_CONTACT < usize_max" using usage_limits by simp_all
  then show ?thesis
    using assms usage_limits
    by (auto simp: ensure_message_capacity_def result_simps growth_iff Let_def totals_ok_def usage_of_tally usage_within_def add_usage_def)
qed

lemma saturating_next: "saturating_add_u64 n 1 = u64_max \<or> n < saturating_add_u64 n 1"
proof (cases "n = u64_max")
  case False
  then have "n < n + 1" by (simp add: word_less_nat_alt unat_u64_Suc)
  then show ?thesis using False by (simp add: saturating_add_u64_def checked_add_u64_one)
next
  case True
  have "checked_add_u64 u64_max 1 = None" by (simp add: checked_add_u64_def u64_max_def)
  then show ?thesis using True by (simp add: saturating_add_u64_def)
qed

definition new_message :: "MessageId \<Rightarrow> ContactId \<Rightarrow> bool \<Rightarrow> bytes \<Rightarrow> HydraAttachment list \<Rightarrow> StoredMessage" where
  "new_message mid contact_id inbound plaintext attachments =
     \<lparr>st_id = mid, st_contact_id = contact_id, st_inbound = inbound, st_plaintext = plaintext, st_attachments = attachments\<rparr>"

lemma store_message_iff:
  "store_message c inbound pt as s = (Inr mid, s') \<longleftrightarrow>
     mid = ms_next_id s \<and> message_fits_limits pt as \<and> ensure_message_capacity c (message_len pt as) s = Inr () \<and>
     s' = record_message_usage c (message_len pt as) (s\<lparr>ms_next_id := saturating_add_u64 (ms_next_id s) 1,
        ms_messages := ms_messages s @ [new_message (ms_next_id s) c inbound pt as]\<rparr>)"
proof (cases "message_fits_limits pt as")
  case True
  then have "stored_message_size pt as = Inr (message_len pt as)" by (simp add: stored_size_iff)
  then show ?thesis
    using True by (auto simp: store_message_def st_bind_def st_lift_def st_modify_def Let_def new_message_def split: sum.splits)
next
  case False
  then obtain e where "stored_message_size pt as = Inl e" using stored_size_iff [of pt as] by (cases "stored_message_size pt as") auto
  then show ?thesis using False by (simp add: store_message_def st_bind_def st_lift_def)
qed

lemma store_message_fails: "store_message c inbound pt as s = (Inl e, s') \<Longrightarrow> s' = s"
  by (auto simp: store_message_def st_bind_def st_lift_def st_modify_def Let_def split: sum.splits)

lemma message_usage_alt: "\<lparr>mu_count = 1, mu_bytes = message_len pt as\<rparr> = message_usage (new_message mid c inbound pt as)"
  by (simp add: message_usage_def new_message_def stored_len_def)

lemma record_usage_totals:
  assumes "totals_ok s" and "s1 = s\<lparr>ms_next_id := n, ms_messages := ms_messages s @ [m]\<rparr>"
  shows "totals_ok (record_message_usage (st_contact_id m) (stored_len m) s1)"
    and "ms_messages (record_message_usage c k s1) = ms_messages s @ [m]" and "ms_next_id (record_message_usage c k s1) = n"
proof -
  have "\<lparr>mu_count = mu_count u + 1, mu_bytes = mu_bytes u + stored_len m\<rparr> = add_usage u (message_usage m)" for u
    by (simp add: add_usage_def message_usage_def)
  then show "totals_ok (record_message_usage (st_contact_id m) (stored_len m) s1)"
    using assms map_of_update_tally [of "ms_usage s" "ms_messages s" m]
    by (simp add: totals_ok_def record_message_usage_def Let_def distinct_update tally_simps)
  show "ms_messages (record_message_usage c k s1) = ms_messages s @ [m]" "ms_next_id (record_message_usage c k s1) = n"
    using assms(2) by (simp_all add: record_message_usage_def Let_def)
qed

lemma ids_ok_new:
  assumes "ids_ok s" and "ms_messages s' = ms_messages s @ [m]" and "st_id m = ms_next_id s"
    and "ms_next_id s' = saturating_add_u64 (ms_next_id s) 1"
  shows "ids_ok s'"
proof (cases "ms_next_id s' = u64_max")
  case False
  then have "ms_next_id s < ms_next_id s'" using saturating_next [of "ms_next_id s"] assms(4) by simp
  moreover from this have "ms_next_id s \<noteq> u64_max" using u64_max_top [of "ms_next_id s'"] by auto
  ultimately show ?thesis using assms(1-3) by (auto simp: ids_ok_def)
qed (simp add: ids_ok_def)

lemma store_message_keeps:
  assumes "history_ok s" and "length c = 32" and "names_utf8 as" and "store_message c inbound pt as s = (r, s')"
  shows "history_ok s'"
proof (cases r)
  case (Inl e)
  then show ?thesis using assms store_message_fails by blast
next
  case (Inr mid)
  let ?m = "new_message (ms_next_id s) c inbound pt as"
  have step: "message_fits_limits pt as" "ensure_message_capacity c (stored_len ?m) s = Inr ()"
      "s' = record_message_usage c (stored_len ?m) (s\<lparr>ms_next_id := saturating_add_u64 (ms_next_id s) 1, ms_messages := ms_messages s @ [?m]\<rparr>)"
    using assms(4) Inr by (simp_all add: store_message_iff stored_len_def new_message_def)
  note ok = history_okD [OF assms(1)]
  have c: "st_contact_id ?m = c" "st_plaintext ?m = pt" "st_attachments ?m = as" by (simp_all add: new_message_def)
  have msgs: "ms_messages s' = ms_messages s @ [?m]" and nxt: "ms_next_id s' = saturating_add_u64 (ms_next_id s) 1"
    and tot: "totals_ok s'"
    using record_usage_totals(1) [OF ok(8) refl, where m = ?m and n = "saturating_add_u64 (ms_next_id s) 1"]
      record_usage_totals(2,3) [OF ok(8) refl, where m = ?m and n = "saturating_add_u64 (ms_next_id s) 1"]
    unfolding step(3) c by simp_all
  have cap: "length (ms_messages s) + 1 \<le> MAX_MESSAGES" "total_len (ms_messages s @ [?m]) \<le> MAX_STORED_MESSAGE_BYTES"
      "usage_within (recount (ms_messages s @ [?m]) c)"
    using step(2) ok(8) by (simp_all add: capacity_iff tally_simps recount_append recount_one c message_usage_def)
  have ids: "ids_ok s'"
    using ids_ok_new [OF ok(6) msgs _ nxt] by (simp add: new_message_def)
  have "messages_within (ms_messages s')"
    using ok(4) step(1) cap by (simp add: msgs messages_within_snoc c)
  then show ?thesis
    using tot cap ok(7) assms(2,3) step(1) ids by (simp add: history_ok_def msgs stored_ok_def c)
qed

lemma messages_within_filter: "messages_within ms \<Longrightarrow> messages_within (filter P ms)"
proof -
  have total: "total_len (filter P xs) \<le> total_len xs" for xs by (induction xs) (simp_all add: tally_simps)
  have own: "of_contact c (filter P ms) = filter P (of_contact c ms)" for c
    by (simp add: of_contact_def conj_commute)
  have "usage_within (recount ms c) \<Longrightarrow> usage_within (recount (filter P ms) c)" for c
    using total [of "of_contact c ms"] by (auto simp: usage_within_def recount_def own intro: order_trans [OF length_filter_le])
  then show "messages_within ms \<Longrightarrow> messages_within (filter P ms)"
    using total [of ms] by (simp add: messages_within_def list_all_iff)
qed

lemma ids_ok_subset:
  assumes "ids_ok s" and "ms_next_id s' = ms_next_id s" and "set (ms_messages s') \<subseteq> set (ms_messages s)"
    and "distinct (map st_id (ms_messages s)) \<Longrightarrow> distinct (map st_id (ms_messages s'))"
  shows "ids_ok s'"
  using assms by (auto simp: ids_ok_def)

lemma clear_messages_exact:
  assumes "history_ok s"
  obtains usage where "clear_messages c s = (Inr (), s\<lparr>ms_messages := filter (\<lambda>m. st_contact_id m \<noteq> c) (ms_messages s), ms_usage := usage,
       ms_bytes := total_len (filter (\<lambda>m. st_contact_id m \<noteq> c) (ms_messages s))\<rparr>)"
    and "history_ok (snd (clear_messages c s))"
proof -
  note ok = history_okD [OF assms]
  let ?ms = "filter (\<lambda>m. st_contact_id m \<noteq> c) (ms_messages s)" and ?s1 = "s\<lparr>ms_messages := filter (\<lambda>m. st_contact_id m \<noteq> c) (ms_messages s)\<rparr>"
  have w: "messages_within (ms_messages ?s1)" using messages_within_filter [OF ok(4)] by simp
  obtain usage where u: "rebuild_message_usage ?s1 = (Inr (), ?s1\<lparr>ms_usage := usage, ms_bytes := total_len (ms_messages ?s1)\<rparr>)"
      "map_of usage = tally ?ms" "distinct (map fst usage)"
    using rebuild_exact [OF w] by auto
  have run: "clear_messages c s = (Inr (), s\<lparr>ms_messages := ?ms, ms_usage := usage, ms_bytes := total_len ?ms\<rparr>)"
    using u(1) by (simp add: clear_messages_def st_bind_def st_modify_def)
  have "length ?ms \<le> MAX_MESSAGES" using ok(5) length_filter_le order_trans by blast
  moreover have "ids_ok (s\<lparr>ms_messages := ?ms, ms_usage := usage, ms_bytes := total_len ?ms\<rparr>)"
    by (rule ids_ok_subset [OF ok(6)]) (auto simp: distinct_map_filter)
  ultimately have "history_ok (snd (clear_messages c s))"
    using w u ok(7) by (simp add: run history_ok_def totals_ok_def list_all_iff)
  with run show thesis using that by blast
qed

lemma split_at: "i < length xs \<Longrightarrow> remove_nth i xs = take i xs @ drop (Suc i) xs \<and> xs = take i xs @ xs ! i # drop (Suc i) xs"
  by (simp add: remove_nth_def id_take_nth_drop [symmetric])

lemma recount_remove:
  assumes "i < length ms"
  shows "recount ms c = add_usage (recount (remove_nth i ms) c) (recount [ms ! i] c)"
    and "total_len ms = total_len (remove_nth i ms) + stored_len (ms ! i)"
proof -
  have "recount (xs @ m # ys) c = add_usage (recount (xs @ ys) c) (recount [m] c)" for xs ys m
    using recount_append [of xs "m # ys" c] recount_append [of "[m]" ys c]
    by (simp add: recount_append add_usage_def)
  moreover have "total_len (xs @ m # ys) = total_len (xs @ ys) + stored_len m" for xs ys m
    by (simp add: tally_simps)
  ultimately show "recount ms c = add_usage (recount (remove_nth i ms) c) (recount [ms ! i] c)"
    "total_len ms = total_len (remove_nth i ms) + stored_len (ms ! i)"
    using split_at [OF assms] by metis+
qed

lemma release_exact:
  assumes "totals_ok s" and "i < length (ms_messages s)" and "m = ms_messages s ! i"
  obtains usage where "release_message_usage (st_contact_id m) (stored_len m) (s\<lparr>ms_messages := remove_nth i (ms_messages s)\<rparr>) =
      (Inr (), s\<lparr>ms_messages := remove_nth i (ms_messages s), ms_bytes := total_len (remove_nth i (ms_messages s)), ms_usage := usage\<rparr>)"
    and "map_of usage = tally (remove_nth i (ms_messages s))" and "distinct (map fst usage)"
proof -
  let ?c = "st_contact_id m" and ?rest = "remove_nth i (ms_messages s)"
  let ?u = "recount ?rest ?c"
  have tot: "map_of (ms_usage s) = tally (ms_messages s)" "distinct (map fst (ms_usage s))" "ms_bytes s = total_len (ms_messages s)"
    using assms(1) by (simp_all add: totals_ok_def)
  have rc: "recount (ms_messages s) c = add_usage (recount ?rest c) (recount [m] c)" for c
    unfolding assms(3) by (rule recount_remove(1) [OF assms(2)])
  have own: "recount (ms_messages s) ?c = add_usage ?u (message_usage m)" using rc by (simp add: recount_one)
  have len: "length (of_contact c (ms_messages s)) = length (of_contact c ?rest) + (if c = ?c then 1 else 0)" for c
    using rc [of c] by (simp add: add_usage_def recount_def of_contact_simps split: if_splits)
  have tc: "tally (ms_messages s) ?c = Some (add_usage ?u (message_usage m))"
    using len [of ?c] own by (auto simp: tally_def)
  have bytes: "checked_sub_usize (ms_bytes s) (stored_len m) = Some (total_len ?rest)"
    using recount_remove(2) [OF assms(2)] by (simp add: checked_sub_usize_def tot assms(3))
  have eta: "\<lparr>mu_count = mu_count ?u, mu_bytes = mu_bytes ?u\<rparr> = ?u" by simp
  have sub: "checked_sub_usize (mu_count (add_usage ?u (message_usage m))) 1 = Some (mu_count ?u)"
      "checked_sub_usize (mu_bytes (add_usage ?u (message_usage m))) (stored_len m) = Some (mu_bytes ?u)"
    by (simp_all add: checked_sub_usize_def add_usage_def message_usage_def)
  have other: "tally ?rest c = tally (ms_messages s) c" if "c \<noteq> ?c" for c
    using len [of c] rc [of c] that by (auto simp: tally_def recount_one)
  let ?al1 = "AList.update ?c ((add_usage ?u (message_usage m))\<lparr>mu_count := mu_count ?u\<rparr>) (ms_usage s)"
  let ?al2 = "AList.update ?c ?u ?al1"
  have run: "release_message_usage ?c (stored_len m) (s\<lparr>ms_messages := ?rest\<rparr>) =
      (Inr (), s\<lparr>ms_messages := ?rest, ms_bytes := total_len ?rest,
         ms_usage := if mu_count ?u = 0 then AList.delete ?c ?al2 else ?al2\<rparr>)"
    by (simp add: release_message_usage_def st_bind_def st_lift_def st_modify_def bytes tot(1) tc sub eta del: One_nat_def)
  have "map_of (if mu_count ?u = 0 then AList.delete ?c ?al2 else ?al2) = tally ?rest"
  proof (rule ext)
    show "map_of (if mu_count ?u = 0 then AList.delete ?c ?al2 else ?al2) c = tally ?rest c" for c
      using other [of c] by (cases "c = ?c") (auto simp: update_conv' delete_conv' tot(1) tally_def recount_def)
  qed
  moreover have "distinct (map fst (if mu_count ?u = 0 then AList.delete ?c ?al2 else ?al2))"
    using tot(2) by (simp add: distinct_update distinct_delete)
  ultimately show thesis using that run by blast
qed

lemma messages_within_remove:
  assumes "i < length ms" and "messages_within ms"
  shows "messages_within (remove_nth i ms)"
proof -
  have "usage_within (recount ms c) \<Longrightarrow> usage_within (recount (remove_nth i ms) c)" for c
    by (simp add: recount_remove(1) [OF assms(1)] usage_within_def add_usage_def)
  then show ?thesis
    using assms(2) recount_remove(2) [OF assms(1)] set_remove_nth_subset [of i ms]
    by (auto simp: messages_within_def list_all_iff)
qed

lemma delete_message_exact:
  assumes "history_ok s"
  shows "position (\<lambda>m. st_id m = mid) (ms_messages s) = None \<Longrightarrow> delete_message mid s = (Inl HE_MessageNotFound, s)"
    and "position (\<lambda>m. st_id m = mid) (ms_messages s) = Some i \<Longrightarrow>
      fst (delete_message mid s) = Inr () \<and> ms_messages (snd (delete_message mid s)) = remove_nth i (ms_messages s) \<and>
      ms_next_id (snd (delete_message mid s)) = ms_next_id s \<and> history_ok (snd (delete_message mid s))"
proof -
  show "delete_message mid s = (Inl HE_MessageNotFound, s)" if "position (\<lambda>m. st_id m = mid) (ms_messages s) = None"
    using that by (simp add: delete_message_def st_bind_def st_lift_def)
next
  assume pos: "position (\<lambda>m. st_id m = mid) (ms_messages s) = Some i"
  note ok = history_okD [OF assms]
  have i: "i < length (ms_messages s)" using position_Some [OF pos] by blast
  let ?m = "ms_messages s ! i"
  have "message_fits_limits (st_plaintext ?m) (st_attachments ?m)" using ok(4) i by (simp add: messages_within_def list_all_length)
  then have sz: "stored_message_size (st_plaintext ?m) (st_attachments ?m) = Inr (stored_len ?m)"
    by (simp add: stored_size_iff stored_len_def)
  obtain usage where u: "release_message_usage (st_contact_id ?m) (stored_len ?m) (s\<lparr>ms_messages := remove_nth i (ms_messages s)\<rparr>) =
      (Inr (), s\<lparr>ms_messages := remove_nth i (ms_messages s), ms_bytes := total_len (remove_nth i (ms_messages s)), ms_usage := usage\<rparr>)"
      "map_of usage = tally (remove_nth i (ms_messages s))" "distinct (map fst usage)"
    using release_exact [OF ok(8) i refl] by blast
  have run: "delete_message mid s = (Inr (), s\<lparr>ms_messages := remove_nth i (ms_messages s),
      ms_bytes := total_len (remove_nth i (ms_messages s)), ms_usage := usage\<rparr>)"
    by (simp add: delete_message_def st_bind_def st_lift_def st_modify_def pos Let_def sz u(1))
  have "ids_ok (snd (delete_message mid s))"
    by (rule ids_ok_subset [OF ok(6)]) (use set_remove_nth_subset [of i "ms_messages s"] distinct_map_remove_nth(1) [OF _ i] in \<open>simp_all add: run\<close>)
  moreover have "list_all stored_ok (remove_nth i (ms_messages s))"
    using ok(7) set_remove_nth_subset [of i "ms_messages s"] by (auto simp: list_all_iff)
  ultimately show "fst (delete_message mid s) = Inr () \<and> ms_messages (snd (delete_message mid s)) = remove_nth i (ms_messages s) \<and>
      ms_next_id (snd (delete_message mid s)) = ms_next_id s \<and> history_ok (snd (delete_message mid s))"
    using messages_within_remove [OF i ok(4)] length_remove_nth [OF i] ok(5) u(2,3) by (simp add: run history_ok_def totals_ok_def)
qed

text \<open>Imports: the messages read so far are well formed, counted, and new.\<close>

definition import_ok :: "MessageId set \<Rightarrow> ImportState \<Rightarrow> bool" where
  "import_ok seen i \<longleftrightarrow> map_of (im_usage i) = tally (im_messages i) \<and> distinct (map fst (im_usage i)) \<and>
     im_bytes i = total_len (im_messages i) \<and> messages_within (im_messages i) \<and> length (im_messages i) \<le> MAX_MESSAGES \<and>
     list_all stored_ok (im_messages i) \<and> distinct (map st_id (im_messages i)) \<and>
     im_seen i = seen \<union> st_id ` set (im_messages i) \<and> seen \<inter> st_id ` set (im_messages i) = {}"

definition import_add :: "StoredMessage \<Rightarrow> ImportState \<Rightarrow> ImportState" where
  "import_add m i = \<lparr>im_messages = im_messages i @ [m],
     im_usage = AList.update (st_contact_id m) (add_usage (usage_of (st_contact_id m) (im_usage i)) (message_usage m)) (im_usage i),
     im_bytes = total_len (im_messages i @ [m]), im_seen = insert (st_id m) (im_seen i)\<rparr>"

lemma decoded_growth_iff: "mx < usize_max \<Longrightarrow> reject_decoded_collection_growth k n mx d = Inr u \<longleftrightarrow> k + n \<le> mx"
  by (auto simp: reject_decoded_collection_growth_def checked_add_usize_def result_simps split: if_splits option.splits)

lemma import_line_iff:
  assumes "import_ok seen i" and "str_trim line \<noteq> []"
  shows "import_lines (line # rest) i = Inr r \<longleftrightarrow>
    (\<exists>m. decode_message_line line = Inr m \<and> length (im_messages i) + 1 \<le> MAX_MESSAGES \<and> st_id m \<notin> im_seen i \<and>
       messages_within (im_messages i @ [m]) \<and> import_lines rest (import_add m i) = Inr r)"
proof -
  have w: "messages_within (im_messages i)" "map_of (im_usage i) = tally (im_messages i)" "im_bytes i = total_len (im_messages i)"
    using assms(1) by (simp_all add: import_ok_def)
  have step: "rbind (stored_message_size (st_plaintext m) (st_attachments m)) (\<lambda>sz.
        rbind (ok_or (checked_add_usize (im_bytes i) sz) (HE_InvalidEncoding ''messages import byte count'')) (\<lambda>n.
        rbind (reject_encoded_size n MAX_STORED_MESSAGE_BYTES ''messages import byte count'') (\<lambda>_.
        let usage = usage_of (st_contact_id m) (im_usage i) in
        rbind (ok_or (checked_add_usize (mu_count usage) 1) (HE_InvalidEncoding ''messages import count'')) (\<lambda>count.
        rbind (ok_or (checked_add_usize (mu_bytes usage) sz) (HE_InvalidEncoding ''messages import byte count'')) (\<lambda>bs.
        rbind (ensure (\<not> (MAX_MESSAGES_PER_CONTACT < count \<or> MAX_STORED_MESSAGE_BYTES_PER_CONTACT < bs))
                 (HE_InvalidEncoding ''messages import per-contact limit'')) (\<lambda>_.
          import_lines rest \<lparr>im_messages = im_messages i @ [m],
            im_usage = AList.update (st_contact_id m) \<lparr>mu_count = count, mu_bytes = bs\<rparr> (im_usage i),
            im_bytes = n, im_seen = insert (st_id m) (im_seen i)\<rparr>)))))) = Inr r \<longleftrightarrow>
      messages_within (im_messages i @ [m]) \<and> import_lines rest (import_add m i) = Inr r" for m
  proof (cases "message_fits_limits (st_plaintext m) (st_attachments m)")
    case True
    have sz: "stored_message_size (st_plaintext m) (st_attachments m) = Inr (stored_len m)"
      using True by (simp add: stored_size_iff stored_len_def)
    note sums = counted_sums [OF w(1) True]
    have eq: "\<lparr>mu_count = mu_count (recount (im_messages i @ [m]) (st_contact_id m)),
        mu_bytes = mu_bytes (recount (im_messages i @ [m]) (st_contact_id m))\<rparr>
      = add_usage (recount (im_messages i) (st_contact_id m)) (message_usage m)"
      by (simp add: recount_append recount_one)
    show ?thesis
      unfolding sz rbind_simps usage_of_tally [OF w(2)] w(3) Let_def sums ok_or_simps eq
      using True w(1) by (auto simp: result_simps messages_within_snoc import_add_def usage_of_tally [OF w(2)] usage_within_def)
  next
    case False
    then show ?thesis by (auto simp: result_simps stored_size_iff messages_within_snoc)
  qed
  note cap = decoded_growth_iff [OF usage_limits(3), of "length (im_messages i)" 1 "''messages import count''" "()"]
  show ?thesis
  proof (cases "length (im_messages i) + 1 \<le> MAX_MESSAGES \<and> (\<exists>m. decode_message_line line = Inr m \<and> st_id m \<notin> im_seen i)")
    case True
    then obtain m where m: "decode_message_line line = Inr m" "st_id m \<notin> im_seen i" by blast
    have "reject_decoded_collection_growth (length (im_messages i)) 1 MAX_MESSAGES ''messages import count'' = Inr ()"
      "ensure (st_id m \<notin> im_seen i) e = Inr ()" for e :: HydraMsgError
      using cap True m(2) by (simp_all add: ensure_def)
    then have "import_lines (line # rest) i = Inr r \<longleftrightarrow> messages_within (im_messages i @ [m]) \<and> import_lines rest (import_add m i) = Inr r"
      unfolding import_lines.simps if_not_P [OF assms(2)] m(1) rbind_simps using step [of m] by (simp only: rbind_simps)
    then show ?thesis using True m by auto
  next
    case False
    have "import_lines (line # rest) i = Inr r \<Longrightarrow> length (im_messages i) + 1 \<le> MAX_MESSAGES \<and>
        (\<exists>m. decode_message_line line = Inr m \<and> st_id m \<notin> im_seen i)"
      unfolding import_lines.simps if_not_P [OF assms(2)] rbind_Inr_iff ensure_Inr_iff using cap by auto
    then show ?thesis using False by blast
  qed
qed

lemma decode_line_typed: "decode_message_line line = Inr m \<Longrightarrow> length (st_contact_id m) = 32 \<and> names_utf8 (st_attachments m)"
proof -
  have names: "decode_attachment_fields n k parts = Inr as \<Longrightarrow> names_utf8 as" for n k parts as
    by (induction n k parts arbitrary: as rule: decode_attachment_fields.induct)
      (auto simp: result_simps names_utf8_def from_utf8_def split: if_splits)
  show "decode_message_line line = Inr m \<Longrightarrow> length (st_contact_id m) = 32 \<and> names_utf8 (st_attachments m)"
    by (auto simp: decode_message_line_def Let_def result_simps exact_array_from_vec_def split: if_splits dest: names)
qed

lemma import_add_ok:
  assumes "import_ok seen i" and "decode_message_line line = Inr m" and "length (im_messages i) + 1 \<le> MAX_MESSAGES"
    and "st_id m \<notin> im_seen i" and "messages_within (im_messages i @ [m])"
  shows "import_ok seen (import_add m i)"
proof -
  have "stored_ok m"
    using decode_line_typed [OF assms(2)] assms(5) by (simp add: stored_ok_def messages_within_snoc)
  then show ?thesis
    using assms map_of_update_tally [of "im_usage i" "im_messages i" m] by (auto simp: import_ok_def import_add_def distinct_update)
qed

lemma import_lines_ok:
  "import_ok seen i \<Longrightarrow> import_lines lines i = Inr i' \<Longrightarrow> import_ok seen i'"
proof (induction lines arbitrary: i)
  case (Cons line rest)
  show ?case
  proof (cases "str_trim line = []")
    case True
    then show ?thesis using Cons by simp
  next
    case False
    then show ?thesis
      using Cons.prems(2) Cons.IH import_add_ok [OF Cons.prems(1)] unfolding import_line_iff [OF Cons.prems(1) False] by blast
  qed
qed simp

lemma adopt_messages:
  "foldl (\<lambda>s m. s\<lparr>ms_next_id := max (ms_next_id s) (saturating_add_u64 (st_id m) 1), ms_messages := ms_messages s @ [m]\<rparr>) s ns =
     s\<lparr>ms_next_id := foldl (\<lambda>n m. max n (saturating_add_u64 (st_id m) 1)) (ms_next_id s) ns, ms_messages := ms_messages s @ ns\<rparr>"
  by (induction ns arbitrary: s) simp_all

lemma adopt_next:
  "foldl (\<lambda>n m. max n (saturating_add_u64 (st_id m) 1)) n ns = n' \<Longrightarrow>
     n \<le> n' \<and> (\<forall>m \<in> set ns. saturating_add_u64 (st_id m) 1 \<le> n')"
proof (induction ns arbitrary: n)
  case (Cons m ns)
  have "max n (saturating_add_u64 (st_id m) 1) \<le> n' \<and> (\<forall>m \<in> set ns. saturating_add_u64 (st_id m) 1 \<le> n')"
    using Cons.prems by (intro Cons.IH) simp
  then show ?case by simp
qed simp

lemma adopt_usage:
  assumes "distinct (map fst al)" and "distinct (map fst (ms_usage s))"
  obtains usage where "foldl (\<lambda>s (c, additional). let usage = usage_of c (ms_usage s) in
          s\<lparr>ms_usage := AList.update c \<lparr>mu_count = mu_count usage + mu_count additional,
              mu_bytes = mu_bytes usage + mu_bytes additional\<rparr> (ms_usage s)\<rparr>) s al = s\<lparr>ms_usage := usage\<rparr>"
    and "distinct (map fst usage)"
    and "\<And>c. map_of usage c = (case map_of al c of None \<Rightarrow> map_of (ms_usage s) c
           | Some additional \<Rightarrow> Some (add_usage (usage_of c (ms_usage s)) additional))"
  using assms
proof (induction al arbitrary: s thesis)
  case Nil
  show ?case by (rule Nil.prems(1) [of "ms_usage s"]) (use Nil.prems in auto)
next
  case (Cons a al)
  obtain c u where a: "a = (c, u)" by (cases a)
  let ?s1 = "s\<lparr>ms_usage := AList.update c (add_usage (usage_of c (ms_usage s)) u) (ms_usage s)\<rparr>"
  have d: "distinct (map fst al)" "c \<notin> fst ` set al" "distinct (map fst (ms_usage ?s1))"
    using Cons.prems(2,3) by (auto simp: a distinct_update)
  obtain usage where u: "foldl (\<lambda>s (c, additional). let usage = usage_of c (ms_usage s) in
          s\<lparr>ms_usage := AList.update c \<lparr>mu_count = mu_count usage + mu_count additional,
              mu_bytes = mu_bytes usage + mu_bytes additional\<rparr> (ms_usage s)\<rparr>) ?s1 al = ?s1\<lparr>ms_usage := usage\<rparr>"
      "distinct (map fst usage)"
      "\<And>c. map_of usage c = (case map_of al c of None \<Rightarrow> map_of (ms_usage ?s1) c
           | Some additional \<Rightarrow> Some (add_usage (usage_of c (ms_usage ?s1)) additional))"
    using Cons.IH [OF _ d(1,3)] by blast
  have none: "map_of al c = None" using d(2) by (simp add: map_of_eq_None_iff)
  show ?case
    using u none by (intro Cons.prems(1) [of usage]) (auto simp: a Let_def add_usage_def update_conv' usage_of_def split: option.splits)
qed

definition imports_into :: "ImportState \<Rightarrow> MessageStore \<Rightarrow> bool" where
  "imports_into i s \<longleftrightarrow> length (ms_messages s) + length (im_messages i) \<le> MAX_MESSAGES \<and>
     ms_bytes s + im_bytes i \<le> MAX_STORED_MESSAGE_BYTES \<and>
     list_all (\<lambda>(c, additional). usage_within (add_usage (usage_of c (ms_usage s)) additional)) (im_usage i)"

lemma adopt_exact:
  assumes "history_ok s" and "import_ok (st_id ` set (ms_messages s)) i" and "imports_into i s"
  shows "history_ok (adopt_imported i s)" and "ms_messages (adopt_imported i s) = ms_messages s @ im_messages i"
proof -
  note ok = history_okD [OF assms(1)]
  have im: "map_of (im_usage i) = tally (im_messages i)" "distinct (map fst (im_usage i))" "im_bytes i = total_len (im_messages i)"
      "messages_within (im_messages i)" "list_all stored_ok (im_messages i)" "distinct (map st_id (im_messages i))"
      "st_id ` set (ms_messages s) \<inter> st_id ` set (im_messages i) = {}"
    using assms(2) by (simp_all add: import_ok_def)
  define next_id where "next_id = foldl (\<lambda>n m. max n (saturating_add_u64 (st_id m) 1)) (ms_next_id s) (im_messages i)"
  let ?ms = "ms_messages s @ im_messages i"
  let ?s1 = "s\<lparr>ms_next_id := next_id, ms_messages := ?ms, ms_bytes := ms_bytes s + im_bytes i\<rparr>"
  have "distinct (map fst (ms_usage ?s1))" using ok(2) by simp
  then obtain usage where u: "adopt_imported i s = ?s1\<lparr>ms_usage := usage\<rparr>" "distinct (map fst usage)"
      "\<And>c. map_of usage c = (case map_of (im_usage i) c of None \<Rightarrow> map_of (ms_usage ?s1) c
           | Some additional \<Rightarrow> Some (add_usage (usage_of c (ms_usage ?s1)) additional))"
    using adopt_usage [OF im(2), of ?s1] unfolding adopt_imported_def Let_def adopt_messages next_id_def [symmetric] by auto
  then show msgs: "ms_messages (adopt_imported i s) = ?ms" by simp
  have tally: "map_of usage = tally ?ms"
  proof (rule ext)
    show "map_of usage c = tally ?ms c" for c
      using fun_cong [OF ok(1), of c] by (simp add: u(3) im(1) usage_of_tally [OF ok(1)] tally_append) (simp add: tally_def recount_none usage_of_tally [OF ok(1)])
  qed
  have "usage_within (recount ?ms c)" for c
  proof (cases "tally (im_messages i) c")
    case None
    then have "recount (im_messages i) c = MessageUsage_default" by (simp add: tally_def recount_none split: if_splits)
    then show ?thesis using ok(4) by (simp add: recount_append messages_within_def)
  next
    case (Some v)
    then have "v = recount (im_messages i) c" "(c, v) \<in> set (im_usage i)"
      using im(1) map_of_SomeD [of "im_usage i" c v] by (auto simp: tally_def split: if_splits)
    then show ?thesis
      using assms(3) by (auto simp: imports_into_def list_all_iff recount_append usage_of_tally [OF ok(1)])
  qed
  then have within: "messages_within ?ms"
    using assms(3) ok(3,4) im(3,4) by (simp add: messages_within_def imports_into_def total_len_simps)
  have grow: "ms_next_id s \<le> next_id" "\<forall>m \<in> set (im_messages i). saturating_add_u64 (st_id m) 1 \<le> next_id"
    using adopt_next [OF next_id_def [symmetric]] by blast+
  have "ids_ok (adopt_imported i s)"
  proof (cases "next_id = u64_max")
    case False
    have "ms_next_id s \<noteq> u64_max" using grow(1) False u64_max_top [of next_id] by auto
    moreover have "st_id m < next_id" if "m \<in> set (im_messages i)" for m
      using grow(2) that saturating_next [of "st_id m"] False u64_max_top [of next_id] by fastforce
    ultimately show ?thesis
      using ok(6) grow(1) im(6,7) by (auto simp: ids_ok_def u(1) intro: less_le_trans)
  qed (simp add: ids_ok_def u(1))
  then show "history_ok (adopt_imported i s)"
    using within tally u(2) ok(3,5,7) im(3,5) assms(3) by (simp add: history_ok_def totals_ok_def u(1) imports_into_def total_len_simps)
qed

lemma usage_fits_iff [result_simps]:
  "usage_fits s x = Inr u \<longleftrightarrow> (case x of (c, additional) \<Rightarrow> usage_within (add_usage (usage_of c (ms_usage s)) additional))"
proof -
  have "MAX_STORED_MESSAGE_BYTES_PER_CONTACT < usize_max" using usage_limits by simp
  then show ?thesis
    using usage_limits by (auto simp: usage_fits_def result_simps growth_iff Let_def usage_within_def add_usage_def split: prod.split)
qed

lemma read_import_iff:
  "read_import bs s = Inr i \<longleftrightarrow>
     length bs \<le> MAX_MESSAGE_IMPORT_BYTES \<and> utf8_valid bs \<and> starts_with bs MESSAGES_MAGIC \<and>
     import_lines (drop 1 (str_lines bs))
       \<lparr>im_messages = [], im_usage = [], im_bytes = 0, im_seen = st_id ` set (ms_messages s)\<rparr> = Inr i \<and>
     imports_into i s"
proof -
  have "MAX_STORED_MESSAGE_BYTES < usize_max" using usage_limits by simp
  then show ?thesis
    using usage_limits by (auto simp: read_import_def result_simps growth_iff from_utf8_def imports_into_def list_all_iff split: if_splits)
qed

lemma import_messages_iff:
  "import_messages bs s = (Inr (), s') \<longleftrightarrow> (\<exists>i. read_import bs s = Inr i \<and> s' = adopt_imported i s)"
  by (auto simp: import_messages_def st_bind_def st_lift_def st_modify_def split: sum.splits)

lemma import_messages_fails: "import_messages bs s = (Inl e, s') \<Longrightarrow> s' = s"
  by (auto simp: import_messages_def st_bind_def st_lift_def st_modify_def split: sum.splits)

lemma import_start_ok: "import_ok seen \<lparr>im_messages = [], im_usage = [], im_bytes = 0, im_seen = seen\<rparr>"
  by (simp add: import_ok_def messages_within_def tally_simps usage_within_def recount_def)

lemma import_messages_keeps:
  assumes "history_ok s" and "import_messages bs s = (r, s')"
  shows "history_ok s'"
proof (cases r)
  case (Inl e)
  then show ?thesis using assms import_messages_fails by blast
next
  case (Inr u)
  then obtain i where "import_lines (drop 1 (str_lines bs))
         \<lparr>im_messages = [], im_usage = [], im_bytes = 0, im_seen = st_id ` set (ms_messages s)\<rparr> = Inr i"
      "imports_into i s" "s' = adopt_imported i s"
    using assms(2) by (auto simp: import_messages_iff read_import_iff)
  then show ?thesis using adopt_exact(1) [OF assms(1) import_lines_ok [OF import_start_ok]] by blast
qed

section \<open>An export is imported back\<close>

lemma trim_keeps:
  assumes "33 \<le> b" and "b \<le> 0x7F" and "b \<in> set s"
  shows "b \<in> set (str_trim s)"
proof -
  have "list_all (list_all (\<lambda>b. \<not> (33 \<le> b \<and> b \<le> 0x7F))) white_space" by (simp add: white_space_def)
  then have no: "b \<notin> set w" if "w \<in> set white_space" for w using that assms(1,2) by (auto simp: list_all_iff)
  have start: "b \<in> set s \<Longrightarrow> b \<in> set (trim_start s)" for s
  proof (induction s rule: trim_start.induct)
    case (1 s)
    show ?case
    proof (cases "find (\<lambda>w. take (length w) s = w) white_space")
      case None
      then show ?thesis using 1 by (simp add: trim_start.simps [of s])
    next
      case (Some w)
      then have w: "take (length w) s = w" "w \<in> set white_space" by (auto simp: find_Some_iff)
      have "set s = set w \<union> set (drop (length w) s)" by (metis w(1) append_take_drop_id set_append)
      then show ?thesis using 1 Some no [OF w(2)] by (simp add: trim_start.simps [of s])
    qed
  qed
  have "b \<in> set s \<Longrightarrow> b \<in> set (trim_end s)" for s
  proof (induction s rule: trim_end.induct)
    case (1 s)
    show ?case
    proof (cases "find (\<lambda>w. drop (length s - length w) s = w) white_space")
      case None
      then show ?thesis using 1 by (simp add: trim_end.simps [of s])
    next
      case (Some w)
      then have w: "drop (length s - length w) s = w" "w \<in> set white_space" by (auto simp: find_Some_iff)
      have "set s = set (take (length s - length w) s) \<union> set w" by (metis w(1) append_take_drop_id set_append)
      then show ?thesis using 1 Some no [OF w(2)] by (simp add: trim_end.simps [of s])
    qed
  qed
  with start show ?thesis using assms by (simp add: str_trim_def)
qed

lemma utf8_ascii: "\<forall>b \<in> set s. b \<le> 0x7F \<Longrightarrow> utf8_valid s"
  by (induction s) auto

definition text_line :: "bytes \<Rightarrow> bool" where
  "text_line l \<longleftrightarrow> (\<forall>b \<in> set l. b \<le> 0x7F \<and> b \<noteq> 10 \<and> b \<noteq> 13)"

definition lines_text :: "bytes list \<Rightarrow> bytes" where
  "lines_text ls = concat (map (\<lambda>l. l @ [10]) ls)"

lemma str_lines_text:
  assumes "\<forall>l \<in> set ls. text_line l"
  shows "str_lines (lines_text ls) = ls"
proof -
  have "split_on 10 (lines_text ls) = ls @ [[]]"
    using assms by (induction ls) (auto simp: lines_text_def split_on_sep text_line_def)
  moreover have "strip_cr l = l" if "l \<in> set ls" for l
    using assms that last_in_set [of l] by (auto simp: strip_cr_def text_line_def)
  ultimately show ?thesis by (simp add: str_lines_def map_idI)
qed

lemma join_set: "set (join_with c xs) \<subseteq> insert c (\<Union> (set ` set xs))"
  by (induction c xs rule: join_with.induct) auto

lemma hex_encode_low: "b \<in> set (hex_encode bs) \<Longrightarrow> b \<le> 0x7F"
proof -
  have "hex_digit b \<Longrightarrow> b \<le> 0x7F"
    by (auto simp: hex_digit_def hex_nibble_def split: if_splits intro: order_trans [of b 57] order_trans [of b 102] order_trans [of b 70])
  then show "b \<in> set (hex_encode bs) \<Longrightarrow> b \<le> 0x7F" using hex_encode_digits by blast
qed

lemma encoded_line:
  shows "text_line (encode_message_line m)" and "109 \<in> set (encode_message_line m)"
proof -
  have dec: "b \<in> set (decimal n) \<Longrightarrow> b \<le> 0x7F" for b n
    using decimal_digits [of n] order_trans [of b 57 "0x7F"] by auto
  have name: "list_all (\<lambda>b. b \<le> 0x7F) (source_name s)" for s by (cases s) (simp_all add: ascii_def)
  have "list_all (\<lambda>b. b \<le> 0x7F) (ascii ''message'') \<and> list_all (\<lambda>b. b \<le> 0x7F) (ascii ''in'') \<and> list_all (\<lambda>b. b \<le> 0x7F) (ascii ''out'')"
    by (simp add: ascii_def)
  then have low: "x \<in> set (message_fields m) \<Longrightarrow> b \<in> set x \<Longrightarrow> b \<le> 0x7F" for x b
    using hex_encode_low dec name by (auto simp: message_fields_def list_all_iff split: if_splits)
  have "b \<le> 0x7F \<and> (48 \<le> b \<or> b = 9)" if "b \<in> set (encode_message_line m)" for b
    using that join_set [of 9 "message_fields m"] low message_fields_plain unfolding encode_message_line_def by fastforce
  then show "text_line (encode_message_line m)" by (fastforce simp: text_line_def)
  have "109 \<in> set (ascii ''message'')" by (simp add: ascii_def)
  then show "109 \<in> set (encode_message_line m)" by (simp add: encode_message_line_def message_fields_def)
qed

lemma export_exact:
  assumes "export_messages s = Inr bs"
  shows "bs = lines_text (ascii ''HYDRA-MSG-MESSAGES'' # map encode_message_line (ms_messages s)) \<and> length bs \<le> MAX_MESSAGE_IMPORT_BYTES"
proof -
  have gen: "export_lines out ms = Inr bs \<Longrightarrow> length out \<le> MAX_MESSAGE_IMPORT_BYTES \<Longrightarrow>
      bs = out @ lines_text (map encode_message_line ms) \<and> length bs \<le> MAX_MESSAGE_IMPORT_BYTES" for out ms
  proof (induction ms arbitrary: out)
    case (Cons m ms)
    have "length (out @ encode_message_line m @ [10]) \<le> MAX_MESSAGE_IMPORT_BYTES"
      "export_lines (out @ encode_message_line m @ [10]) ms = Inr bs"
      using Cons.prems(1) by (auto simp: result_simps Let_def)
    from Cons.IH [OF this(2,1)] have "bs = (out @ encode_message_line m @ [10]) @ lines_text (map encode_message_line ms)"
      "length bs \<le> MAX_MESSAGE_IMPORT_BYTES" by blast+
    then show ?case by (auto simp: lines_text_def)
  qed (simp add: lines_text_def)
  have "length MESSAGES_MAGIC \<le> MAX_MESSAGE_IMPORT_BYTES"
    by (simp add: MESSAGES_MAGIC_def MAX_MESSAGE_IMPORT_BYTES_def MAX_STATE_SNAPSHOT_BYTES_def)
  then show ?thesis using assms gen by (fastforce simp: export_messages_def MESSAGES_MAGIC_def lines_text_def)
qed

lemma import_encoded:
  assumes "import_ok seen i" and "messages_within (im_messages i @ ms)" and "length (im_messages i @ ms) \<le> MAX_MESSAGES"
    and "list_all stored_ok ms" and "distinct (map st_id ms)" and "im_seen i \<inter> st_id ` set ms = {}"
  shows "\<exists>i'. import_lines (map encode_message_line ms) i = Inr i' \<and> im_messages i' = im_messages i @ ms"
  using assms
proof (induction ms arbitrary: i)
  case (Cons m ms)
  have line: "str_trim (encode_message_line m) \<noteq> []" using trim_keeps [OF _ _ encoded_line(2), of m] by auto
  have dec: "decode_message_line (encode_message_line m) = Inr m"
    using Cons.prems(4) by (simp add: decode_encode_message_line)
  have m: "length (im_messages i) + 1 \<le> MAX_MESSAGES" "st_id m \<notin> im_seen i" "messages_within (im_messages i @ [m])"
    using Cons.prems(2,3,6) messages_within_appendD [of "im_messages i @ [m]" ms] by auto
  have "\<exists>i'. import_lines (map encode_message_line ms) (import_add m i) = Inr i' \<and> im_messages i' = im_messages (import_add m i) @ ms"
    using Cons.prems by (intro Cons.IH import_add_ok [OF Cons.prems(1) dec m]) (auto simp: import_add_def)
  then show ?case
    using dec m by (auto simp: import_line_iff [OF Cons.prems(1) line] import_add_def simp del: import_lines.simps(2))
qed simp

definition empty_store :: MessageStore where
  "empty_store = \<lparr>ms_messages = [], ms_usage = [], ms_bytes = 0, ms_next_id = 1\<rparr>"

lemma empty_history_ok: "history_ok empty_store"
  by (simp add: history_ok_def empty_store_def totals_ok_def messages_within_def ids_ok_def tally_simps usage_within_def recount_def)

lemma import_export:
  assumes "history_ok s" and "ms_next_id s \<noteq> u64_max" and "export_messages s = Inr bs"
  shows "\<exists>t. import_messages bs empty_store = (Inr (), t) \<and> ms_messages t = ms_messages s \<and> history_ok t"
proof -
  note ok = history_okD [OF assms(1)]
  let ?i0 = "\<lparr>im_messages = [], im_usage = [], im_bytes = 0, im_seen = {}\<rparr>"
  have bs: "bs = lines_text (ascii ''HYDRA-MSG-MESSAGES'' # map encode_message_line (ms_messages s))" "length bs \<le> MAX_MESSAGE_IMPORT_BYTES"
    using export_exact [OF assms(3)] by blast+
  have "list_all (\<lambda>b. b \<le> 0x7F \<and> b \<noteq> 10 \<and> b \<noteq> 13) (ascii ''HYDRA-MSG-MESSAGES'')" by (simp add: ascii_def)
  then have plain: "\<forall>l \<in> set (ascii ''HYDRA-MSG-MESSAGES'' # map encode_message_line (ms_messages s)). text_line l"
    using encoded_line(1) by (auto simp: list_all_iff text_line_def)
  then have lines: "drop 1 (str_lines bs) = map encode_message_line (ms_messages s)" by (simp add: bs(1) str_lines_text [OF plain])
  have utf8: "utf8_valid bs" using plain by (intro utf8_ascii) (auto simp: bs(1) lines_text_def text_line_def)
  have magic: "starts_with bs MESSAGES_MAGIC" by (simp add: bs(1) lines_text_def starts_with_def MESSAGES_MAGIC_def)
  obtain i where i: "import_lines (map encode_message_line (ms_messages s)) ?i0 = Inr i" "im_messages i = ms_messages s"
    using import_encoded [of "{}" ?i0 "ms_messages s"] import_start_ok [of "{}"] ok assms(2) by (auto simp: ids_ok_def)
  have iok: "import_ok {} i" by (rule import_lines_ok [OF import_start_ok i(1)])
  have "usage_within u" if "(c, u) \<in> set (im_usage i)" for c u
    using that iok ok(4) map_of_is_SomeI [of "im_usage i" c u]
    by (auto simp: import_ok_def i(2) tally_def messages_within_def split: if_splits)
  then have into: "imports_into i empty_store"
    using ok(4,5) iok
    by (auto simp: imports_into_def empty_store_def i(2) list_all_iff usage_of_def messages_within_def import_ok_def)
  have "import_messages bs empty_store = (Inr (), adopt_imported i empty_store)"
    using bs(2) utf8 magic into i(1) lines by (auto simp: import_messages_iff read_import_iff empty_store_def)
  moreover have "history_ok (adopt_imported i empty_store)" "ms_messages (adopt_imported i empty_store) = ms_messages s"
    using adopt_exact [OF empty_history_ok _ into] iok by (simp_all add: empty_store_def i(2))
  ultimately show ?thesis by blast
qed

section \<open>Histories\<close>

datatype StoreCall =
  StoreMessage ContactId bool bytes "HydraAttachment list"
| DeleteMessage MessageId
| ClearMessages ContactId
| ImportMessages bytes

fun store_call :: "StoreCall \<Rightarrow> MessageStore \<Rightarrow> MessageStore" where
  "store_call (StoreMessage c inbound plaintext attachments) s = snd (store_message c inbound plaintext attachments s)"
| "store_call (DeleteMessage mid) s = snd (delete_message mid s)"
| "store_call (ClearMessages c) s = snd (clear_messages c s)"
| "store_call (ImportMessages bs) s = snd (import_messages bs s)"

text \<open>A call is typed as Rust types it: a contact id has 32 bytes and a file name is a \<open>String\<close>.\<close>

fun call_typed :: "StoreCall \<Rightarrow> bool" where
  "call_typed (StoreMessage c inbound plaintext attachments) \<longleftrightarrow> length c = 32 \<and> names_utf8 attachments"
| "call_typed _ \<longleftrightarrow> True"

inductive store_reachable :: "MessageStore \<Rightarrow> bool" where
  initial: "store_reachable empty_store"
| call: "store_reachable s \<Longrightarrow> call_typed c \<Longrightarrow> store_reachable (store_call c s)"

lemma store_call_keeps:
  assumes "history_ok s" and "call_typed c"
  shows "history_ok (store_call c s)"
proof (cases c)
  case (StoreMessage contact inbound plaintext attachments)
  then show ?thesis
    using store_message_keeps [OF assms(1), of contact attachments inbound plaintext "fst (store_message contact inbound plaintext attachments s)"]
      assms(2) by simp
next
  case (DeleteMessage mid)
  then show ?thesis using delete_message_exact [OF assms(1), of mid] assms(1)
    by (cases "position (\<lambda>m. st_id m = mid) (ms_messages s)") auto
next
  case (ClearMessages contact)
  have "history_ok (snd (clear_messages contact s))" by (rule clear_messages_exact [OF assms(1)])
  then show ?thesis by (simp add: ClearMessages)
next
  case (ImportMessages bs)
  then show ?thesis using import_messages_keeps [OF assms(1), of bs "fst (import_messages bs s)"] by simp
qed

lemma store_reachable_ok: "store_reachable s \<Longrightarrow> history_ok s"
  by (induction rule: store_reachable.induct) (simp_all add: empty_history_ok store_call_keeps)

text \<open>C33: In every message history reached from the empty one by storing, deleting, clearing and importing messages, failed
  calls included, the running totals are exact: the total of every contact is the number and the size of its messages, a
  contact without messages has no entry, and the totals are within the limits of contacts and of the whole history. Every
  message is within the limits of one message with UTF-8 file names, and the identifiers are distinct and smaller than the
  next one, unless the identifiers are used up.\<close>

theorem message_store_invariant:
  assumes "store_reachable s"
  shows "ms_bytes s = total_len (ms_messages s) \<and> ms_bytes s \<le> MAX_STORED_MESSAGE_BYTES \<and> length (ms_messages s) \<le> MAX_MESSAGES \<and>
    (\<forall>c. map_of (ms_usage s) c = (if of_contact c (ms_messages s) = [] then None
       else Some \<lparr>mu_count = length (of_contact c (ms_messages s)), mu_bytes = total_len (of_contact c (ms_messages s))\<rparr>) \<and>
      length (of_contact c (ms_messages s)) \<le> MAX_MESSAGES_PER_CONTACT \<and>
      total_len (of_contact c (ms_messages s)) \<le> MAX_STORED_MESSAGE_BYTES_PER_CONTACT) \<and>
    list_all stored_ok (ms_messages s) \<and>
    (ms_next_id s = u64_max \<or>
      distinct (map st_id (ms_messages s)) \<and> list_all (\<lambda>m. st_id m < ms_next_id s) (ms_messages s))"
proof -
  note ok = history_okD [OF store_reachable_ok [OF assms]]
  have within: "total_len (ms_messages s) \<le> MAX_STORED_MESSAGE_BYTES" "usage_within (recount (ms_messages s) c)" for c
    using ok(4) by (simp_all add: messages_within_def)
  have own: "map_of (ms_usage s) c = (if of_contact c (ms_messages s) = [] then None
       else Some \<lparr>mu_count = length (of_contact c (ms_messages s)), mu_bytes = total_len (of_contact c (ms_messages s))\<rparr>) \<and>
      length (of_contact c (ms_messages s)) \<le> MAX_MESSAGES_PER_CONTACT \<and>
      total_len (of_contact c (ms_messages s)) \<le> MAX_STORED_MESSAGE_BYTES_PER_CONTACT" for c
    using within(2) [of c] by (simp add: ok(1) tally_def recount_def usage_within_def)
  have ids: "ms_next_id s = u64_max \<or> distinct (map st_id (ms_messages s)) \<and> list_all (\<lambda>m. st_id m < ms_next_id s) (ms_messages s)"
    using ok(6) by (simp only: ids_ok_def list_all_iff)
  show ?thesis using own ok(3,5,7) within(1) ids by (intro conjI allI) (blast | simp)+
qed

text \<open>C35: Recounting is the reference for the running totals: in every history reached from the empty one,
  \<open>rebuild_message_usage\<close> succeeds and gives the totals that are already there, in an order of its own.\<close>

theorem recount_changes_nothing:
  assumes "store_reachable s"
  shows "\<exists>usage. rebuild_message_usage s = (Inr (), s\<lparr>ms_usage := usage\<rparr>) \<and> map_of usage = map_of (ms_usage s)"
proof -
  note ok = history_okD [OF store_reachable_ok [OF assms]]
  obtain usage where "rebuild_message_usage s = (Inr (), s\<lparr>ms_usage := usage, ms_bytes := total_len (ms_messages s)\<rparr>)"
      "map_of usage = tally (ms_messages s)"
    using rebuild_exact [OF ok(4)] by blast
  moreover have "s\<lparr>ms_usage := usage, ms_bytes := total_len (ms_messages s)\<rparr> = s\<lparr>ms_usage := usage\<rparr>"
    using ok(3) by (cases s) simp
  ultimately show ?thesis using ok(1) by auto
qed

text \<open>C34: An export of a history is imported into an empty history as the same messages in the same order, with the same
  totals, provided the identifiers are not used up.\<close>

theorem exported_messages_import:
  assumes "store_reachable s" and "ms_next_id s \<noteq> u64_max" and "export_messages s = Inr bs"
  shows "fst (import_messages bs empty_store) = Inr () \<and> ms_messages (snd (import_messages bs empty_store)) = ms_messages s \<and>
    ms_bytes (snd (import_messages bs empty_store)) = ms_bytes s \<and>
    map_of (ms_usage (snd (import_messages bs empty_store))) = map_of (ms_usage s)"
proof -
  note ok = history_okD [OF store_reachable_ok [OF assms(1)]]
  obtain t where "import_messages bs empty_store = (Inr (), t)" "ms_messages t = ms_messages s" "history_ok t"
    using import_export [OF store_reachable_ok [OF assms(1)] assms(2,3)] by blast
  then show ?thesis using history_okD [of t] ok by simp
qed

text \<open>The identifiers can be used up by an import; from then on every stored message gets the same one.\<close>

lemma exhausted_ids_repeat:
  assumes "ms_next_id s = u64_max" and "store_message c inbound pt as s = (Inr mid, t)"
    and "store_message c' inbound' pt' as' t = (Inr mid', u)"
  shows "mid' = mid"
proof -
  have "checked_add_u64 u64_max 1 = None" by (simp add: checked_add_u64_def u64_max_def)
  then show ?thesis
    using assms by (auto simp: store_message_iff saturating_add_u64_def record_message_usage_def Let_def)
qed

text \<open>Two messages of one contact and one of another, the first of them deleted again.\<close>

definition toy_contact :: "u8 \<Rightarrow> ContactId" where
  "toy_contact c = replicate 32 c"

definition toy_call :: "u8 \<Rightarrow> bytes \<Rightarrow> StoreCall" where
  "toy_call c pt = StoreMessage (toy_contact c) True pt [\<lparr>at_filename = [120], at_bytes = [1, 2], at_source = AS_Bytes\<rparr>]"

definition toy_history :: MessageStore where
  "toy_history = store_call (DeleteMessage 1) (store_call (toy_call 2 [107]) (store_call (toy_call 1 []) (store_call (toy_call 1 [104, 105]) empty_store)))"

lemma toy_history_reachable: "store_reachable toy_history"
proof -
  have "call_typed (toy_call c pt)" for c pt
    by (simp add: toy_call_def names_utf8_def toy_contact_def)
  then show ?thesis unfolding toy_history_def by (intro store_reachable.intros) simp_all
qed

lemma toy_contact_eq [simp]: "toy_contact c = toy_contact d \<longleftrightarrow> c = d"
  by (auto simp: toy_contact_def)

lemmas store_eval = store_message_def st_bind_def st_lift_def st_modify_def stored_message_size_def ensure_message_capacity_def
  record_message_usage_def usage_of_def reject_collection_growth_def reject_encoded_size_def validate_attachment_def ensure_def
  checked_add_usize_def usize_max_def MAX_MESSAGES_def MAX_MESSAGES_PER_CONTACT_def MAX_STORED_MESSAGE_BYTES_def
  MAX_STORED_MESSAGE_BYTES_PER_CONTACT_def Let_def MessageUsage_default_def saturating_add_u64_def checked_add_u64_def

lemma toy_history_value:
  "toy_history = \<lparr>ms_messages = map (\<lambda>(mid, c, pt). new_message mid (toy_contact c) True pt [\<lparr>at_filename = [120], at_bytes = [1, 2], at_source = AS_Bytes\<rparr>])
      [(2, 1, []), (3, 2, [107])],
    ms_usage = [(toy_contact 1, \<lparr>mu_count = 1, mu_bytes = 46\<rparr>), (toy_contact 2, \<lparr>mu_count = 1, mu_bytes = 47\<rparr>)],
    ms_bytes = 93, ms_next_id = 4\<rparr>"
proof -
  have "store_call (toy_call 2 [107]) (store_call (toy_call 1 []) (store_call (toy_call 1 [104, 105]) empty_store)) =
    \<lparr>ms_messages = map (\<lambda>(mid, c, pt). new_message mid (toy_contact c) True pt [\<lparr>at_filename = [120], at_bytes = [1, 2], at_source = AS_Bytes\<rparr>])
      [(1, 1, [104, 105]), (2, 1, []), (3, 2, [107])],
    ms_usage = [(toy_contact 1, \<lparr>mu_count = 2, mu_bytes = 94\<rparr>), (toy_contact 2, \<lparr>mu_count = 1, mu_bytes = 47\<rparr>)],
    ms_bytes = 141, ms_next_id = 4\<rparr>"
    by (simp add: toy_call_def store_eval empty_store_def new_message_def)
  then show ?thesis
    by (simp add: toy_history_def delete_message_def release_message_usage_def store_eval new_message_def remove_nth_def
        checked_sub_usize_def)
qed

theorem message_store_invariant_witness:
  "store_reachable toy_history \<and> map_of (ms_usage toy_history) (toy_contact 1) = Some \<lparr>mu_count = 1, mu_bytes = 46\<rparr> \<and>
     ms_bytes toy_history = 93 \<and> map st_id (ms_messages toy_history) = [2, 3] \<and> list_all stored_ok (ms_messages toy_history)"
  using message_store_invariant [OF toy_history_reachable] toy_history_reachable by (simp add: toy_history_value new_message_def)

theorem recount_changes_nothing_witness:
  "fst (rebuild_message_usage toy_history) = Inr () \<and> ms_bytes (snd (rebuild_message_usage toy_history)) = 93"
  using recount_changes_nothing [OF toy_history_reachable] by (auto simp: toy_history_value)

theorem exported_messages_import_witness:
  "\<exists>bs. export_messages toy_history = Inr bs \<and> ms_bytes (snd (import_messages bs empty_store)) = 93 \<and>
     map st_plaintext (ms_messages (snd (import_messages bs empty_store))) = [[], [107]]"
proof -
  have "ms_next_id toy_history \<noteq> u64_max" by (simp add: toy_history_value u64_max_def)
  note import = exported_messages_import [OF toy_history_reachable this]
  have "\<exists>bs. export_messages toy_history = Inr bs"
    by (simp add: export_messages_def toy_history_value new_message_def encode_message_line_def message_fields_def ascii_def decimal.simps
        reject_input_size_def ensure_def MAX_MESSAGE_IMPORT_BYTES_def MAX_STATE_SNAPSHOT_BYTES_def MESSAGES_MAGIC_def toy_contact_def)
  then show ?thesis using import by (auto simp: toy_history_value new_message_def)
qed

end
