(* ===== verification/Hs_Wire.thy ===== *)
theory Hs_Wire
  imports Wire_Format Crypto_Backend Msg_Util
begin

text \<open>
  The wire format of the handshake of \<open>hydra-msg\<close>: \<open>codec/handshake/wire.rs\<close> and \<open>codec/handshake.rs\<close>. An INIT and a
  RESP are standard-class bootstrap envelopes that carry a fixed-size core, its signature and an authenticator; a
  FINISH is a sealed record. The cursor over a core is the byte reader. Array types of the source are byte lists,
  with their lengths in the \<open>_wf\<close> predicates; what the operating system draws at random is an argument. The
  \<open>expect\<close>s of the source on lengths of protocol values cannot fail (\<open>length_prefixed_total\<close>, \<open>derive_expand32_total\<close>).
  The lemmas show that the bootstrap envelope and the cores are canonical codes, and that both ends derive the
  same material.
\<close>

section \<open>Errors of the lower crates as text\<close>

fun show_nat :: "nat \<Rightarrow> string" where
  "show_nat n = (if n < 10 then [char_of (48 + n)] else show_nat (n div 10) @ [char_of (48 + n mod 10)])"

declare show_nat.simps [simp del]

fun crypto_error_text :: "CryptoError \<Rightarrow> string" where
  "crypto_error_text (CE_InvalidLength field expected actual) =
     ''invalid '' @ field @ '' length: expected '' @ show_nat expected @ '', got '' @ show_nat actual"
| "crypto_error_text (CE_InvalidEncoding field) = ''invalid '' @ field @ '' encoding''"
| "crypto_error_text CE_AuthenticationFailed = ''authentication failed''"
| "crypto_error_text CE_WeakPublicKey = ''rejected weak public key''"
| "crypto_error_text CE_EntropyUnavailable = ''operating-system entropy unavailable''"
| "crypto_error_text CE_OutputTooLong = ''requested KDF output is too long''"
| "crypto_error_text CE_BackendFailure = ''cryptographic backend failure''"

text \<open>\<open>impl From<CryptoError> for HydraMsgError\<close>, applied by \<open>?\<close>.\<close>

definition from_crypto :: "CryptoError + 'a \<Rightarrow> 'a HydraResult" where
  "from_crypto = map_err (\<lambda>e. HE_Crypto (crypto_error_text e))"

section \<open>Hashes and derivations\<close>

definition append_lp :: "bytes \<Rightarrow> bytes \<Rightarrow> bytes HydraResult" where
  "append_lp out value =
     rbind (ok_or (u32_try_from (length value)) (HE_InvalidEncoding ''length-prefixed value'')) (\<lambda>len.
       Inr (out @ be_bytes 4 len @ value))"

definition length_prefixed :: "bytes \<Rightarrow> bytes" where
  "length_prefixed value = (case append_lp [] value of Inr out \<Rightarrow> out | Inl _ \<Rightarrow> [])"

definition hash512 :: "CryptoPrims \<Rightarrow> bytes list \<Rightarrow> bytes" where
  "hash512 P parts = sha3_512 P (concat parts)"

definition offer_signature_digest :: "CryptoPrims \<Rightarrow> bytes \<Rightarrow> bytes" where
  "offer_signature_digest P core = hash512 P [ascii ''HYDRA-MSG/v1/init-signature'', SUITE_ID, length_prefixed core]"

definition init_hash :: "CryptoPrims \<Rightarrow> bytes \<Rightarrow> bytes \<Rightarrow> bytes" where
  "init_hash P core signature = hash512 P [ascii ''HYDRA-MSG/v1/transcript'', length_prefixed (core @ signature)]"

definition answer_signature_digest :: "CryptoPrims \<Rightarrow> bytes \<Rightarrow> bytes \<Rightarrow> bytes" where
  "answer_signature_digest P ih core =
     hash512 P [ascii ''HYDRA-MSG/v1/resp-signature'', SUITE_ID, ih, length_prefixed core]"

definition derive_expand32 :: "CryptoPrims \<Rightarrow> Secret32 \<Rightarrow> bytes \<Rightarrow> bytes \<Rightarrow> Secret32" where
  "derive_expand32 P key label context =
     (let info = be_bytes 4 (of_nat (length label) :: u32) @ label @ be_bytes 4 (of_nat (length context) :: u32) @ context
      in case hkdf_expand P key info 32 of Inr output \<Rightarrow> output | Inl _ \<Rightarrow> [])"

definition msg_identity_fingerprint :: "CryptoPrims \<Rightarrow> bytes \<Rightarrow> bytes" where
  "msg_identity_fingerprint P public_key = sha3_256 P (ascii ''HYDRA-MSG/v1/fingerprint'' @ SUITE_ID @ public_key)"

section \<open>Bootstrap envelopes\<close>

definition INIT_CORE_SIZE :: nat where [simp]: "INIT_CORE_SIZE = 3249"
definition RESP_CORE_SIZE :: nat where [simp]: "RESP_CORE_SIZE = 3217"
definition BOOTSTRAP_CONTROL_LEN_SIZE :: nat where [simp]: "BOOTSTRAP_CONTROL_LEN_SIZE = 4"
definition FINISH_CONTENT_SIZE :: nat where "FINISH_CONTENT_SIZE = 96"
definition MAX_HANDSHAKE_OFFER_BYTES :: nat where "MAX_HANDSHAKE_OFFER_BYTES = 32 * 1024"
definition MAX_HANDSHAKE_ANSWER_BYTES :: nat where "MAX_HANDSHAKE_ANSWER_BYTES = 32 * 1024"
definition MAX_HANDSHAKE_FINISH_BYTES :: nat where "MAX_HANDSHAKE_FINISH_BYTES = 4 * 1024"

definition encode_bootstrap :: "OuterMode \<Rightarrow> bytes \<Rightarrow> bytes \<Rightarrow> bytes \<Rightarrow> bytes \<Rightarrow> bytes HydraResult" where
  "encode_bootstrap md tag control signature authenticator =
     rbind (map_err (\<lambda>_. HE_InvalidEncoding ''bootstrap outer header'')
              (encode_outer_header (OuterHeader_new md Standard tag 0))) (\<lambda>header.
     rbind (ok_or (u32_try_from (length control)) (HE_InvalidEncoding ''bootstrap control length'')) (\<lambda>control_len.
     let body = replicate (envelope_size Standard - OUTER_HEADER_SIZE) 0;
         body = write_at 0 (be_bytes 4 control_len) body;
         control_end = BOOTSTRAP_CONTROL_LEN_SIZE + length control;
         sig_end = control_end + length signature;
         auth_end = sig_end + length authenticator in
     rbind (ensure (\<not> length body < auth_end) (HE_InvalidEncoding ''bootstrap body size'')) (\<lambda>_.
       Inr (header @ write_at sig_end authenticator (write_at control_end signature
              (write_at BOOTSTRAP_CONTROL_LEN_SIZE control body))))))"

definition decode_bootstrap :: "bytes \<Rightarrow> OuterMode \<Rightarrow> nat \<Rightarrow> (bytes \<times> bytes \<times> bytes) HydraResult" where
  "decode_bootstrap bs expected_mode expected_control_size =
     rbind (ensure (length bs = envelope_size Standard) (HE_InvalidEncoding ''bootstrap envelope size'')) (\<lambda>_.
     rbind (map_err (\<lambda>_. HE_InvalidEncoding ''bootstrap outer header'') (decode_outer_header bs)) (\<lambda>header.
     rbind (ensure (\<not> (mode header \<noteq> expected_mode \<or> envelope_class header \<noteq> Standard \<or> counter header \<noteq> 0))
              (HE_InvalidEncoding ''bootstrap header mismatch'')) (\<lambda>_.
     let body = drop OUTER_HEADER_SIZE bs in
     rbind (ensure (4 \<le> length body) (HE_InvalidEncoding ''bootstrap control length'')) (\<lambda>_.
     let control_len = unat (be_word (slice 0 4 body) :: u32) in
     rbind (ensure (control_len = expected_control_size) (HE_InvalidEncoding ''bootstrap control size'')) (\<lambda>_.
     rbind (ok_or (checked_add_usize 4 control_len) (HE_InvalidEncoding ''bootstrap body offsets'')) (\<lambda>control_end.
     rbind (ok_or (checked_add_usize control_end ML_DSA_65_SIG_SIZE) (HE_InvalidEncoding ''bootstrap body offsets'')) (\<lambda>sig_end.
     rbind (ok_or (checked_add_usize sig_end 32) (HE_InvalidEncoding ''bootstrap body offsets'')) (\<lambda>auth_end.
     rbind (ensure (\<not> (length body < auth_end \<or> list_ex (\<lambda>b. b \<noteq> 0) (drop auth_end body)))
              (HE_InvalidEncoding ''bootstrap padding'')) (\<lambda>_.
       Inr (slice 4 control_end body, slice control_end sig_end body, slice sig_end auth_end body))))))))))"

section \<open>Reading a core\<close>

text \<open>\<open>require_byte\<close>, \<open>require_slice\<close> and \<open>take_array\<close> over a core and the position \<open>at\<close>.\<close>

definition require_byte :: "u8 \<Rightarrow> string \<Rightarrow> unit reader" where
  "require_byte expected description r =
     st_bind (st_lift (ensure (rd_offset r < length (rd_bytes r)) (HE_InvalidEncoding description))) (\<lambda>_.
     st_bind (st_modify (\<lambda>r. r\<lparr>rd_offset := rd_offset r + 1\<rparr>)) (\<lambda>_.
       st_lift (ensure (rd_bytes r ! rd_offset r = expected) (HE_InvalidEncoding description)))) r"

definition core_range :: "nat \<Rightarrow> string \<Rightarrow> BytesReader \<Rightarrow> nat HydraResult" where
  "core_range n description r = ok_or (checked_add_usize (rd_offset r) n) (HE_InvalidEncoding description)"

definition require_slice :: "bytes \<Rightarrow> string \<Rightarrow> unit reader" where
  "require_slice expected description r =
     st_bind (st_lift (core_range (length expected) description r)) (\<lambda>end.
     st_bind (st_lift (ensure (end \<le> length (rd_bytes r) \<and> slice (rd_offset r) end (rd_bytes r) = expected)
                (HE_InvalidEncoding description))) (\<lambda>_.
       st_modify (\<lambda>r. r\<lparr>rd_offset := end\<rparr>))) r"

definition take_array :: "nat \<Rightarrow> string \<Rightarrow> bytes reader" where
  "take_array n description r =
     st_bind (st_lift (core_range n description r)) (\<lambda>end.
     st_bind (st_lift (ensure (end \<le> length (rd_bytes r)) (HE_InvalidEncoding description))) (\<lambda>_.
     st_bind (st_modify (\<lambda>r. r\<lparr>rd_offset := end\<rparr>)) (\<lambda>_.
       st_lift (Inr (slice (rd_offset r) end (rd_bytes r)))))) r"

section \<open>Cores\<close>

definition encode_offer_core :: "bytes \<Rightarrow> bytes \<Rightarrow> bytes \<Rightarrow> bytes \<Rightarrow> bytes \<Rightarrow> bytes" where
  "encode_offer_core nonce expected_responder_fingerprint public_key x25519_public kem_public_key =
     [PROTOCOL_VERSION] @ SUITE_ID @ nonce @ expected_responder_fingerprint @ public_key @ x25519_public @ kem_public_key"

definition encode_answer_core :: "bytes \<Rightarrow> bytes \<Rightarrow> bytes \<Rightarrow> bytes \<Rightarrow> bytes \<Rightarrow> bytes \<Rightarrow> bytes" where
  "encode_answer_core ih nonce initiator_fingerprint public_key x25519_public kem_ciphertext =
     [PROTOCOL_VERSION] @ SUITE_ID @ ih @ nonce @ initiator_fingerprint @ public_key @ x25519_public @ kem_ciphertext"

text \<open>The fields of a core, as the decoders read them into local variables.\<close>

record OfferCore =
  oc_nonce :: bytes
  oc_expected_responder_fingerprint :: bytes
  oc_public_key :: bytes
  oc_x25519_public :: bytes
  oc_kem_public_key :: bytes

record AnswerCore =
  ac_init_hash :: bytes
  ac_nonce :: bytes
  ac_initiator_fingerprint :: bytes
  ac_public_key :: bytes
  ac_x25519_public :: bytes
  ac_kem_ciphertext :: bytes

definition read_offer_core :: "OfferCore reader" where
  "read_offer_core =
     st_bind (require_byte PROTOCOL_VERSION ''INIT protocol version'') (\<lambda>_.
     st_bind (require_slice SUITE_ID ''INIT suite'') (\<lambda>_.
     st_bind (take_array 32 ''INIT nonce'') (\<lambda>nonce.
     st_bind (take_array 32 ''INIT expected responder fingerprint'') (\<lambda>expected_responder_fingerprint.
     st_bind (take_array ML_DSA_65_VK_SIZE ''INIT verification key'') (\<lambda>public_key.
     st_bind (take_array 32 ''INIT X25519 key'') (\<lambda>x25519_public.
     st_bind (take_array ML_KEM_768_EK_SIZE ''INIT ML-KEM key'') (\<lambda>kem_public_key.
       st_lift (Inr \<lparr>oc_nonce = nonce, oc_expected_responder_fingerprint = expected_responder_fingerprint,
         oc_public_key = public_key, oc_x25519_public = x25519_public, oc_kem_public_key = kem_public_key\<rparr>))))))))"

definition read_answer_core :: "AnswerCore reader" where
  "read_answer_core =
     st_bind (require_byte PROTOCOL_VERSION ''RESP protocol version'') (\<lambda>_.
     st_bind (require_slice SUITE_ID ''RESP suite'') (\<lambda>_.
     st_bind (take_array TRANSCRIPT_HASH_SIZE ''RESP init hash'') (\<lambda>ih.
     st_bind (take_array 32 ''RESP nonce'') (\<lambda>nonce.
     st_bind (take_array 32 ''RESP initiator fingerprint'') (\<lambda>initiator_fingerprint.
     st_bind (take_array ML_DSA_65_VK_SIZE ''RESP verification key'') (\<lambda>public_key.
     st_bind (take_array 32 ''RESP X25519 key'') (\<lambda>x25519_public.
     st_bind (take_array ML_KEM_768_CT_SIZE ''RESP ML-KEM ciphertext'') (\<lambda>kem_ciphertext.
       st_lift (Inr \<lparr>ac_init_hash = ih, ac_nonce = nonce, ac_initiator_fingerprint = initiator_fingerprint,
         ac_public_key = public_key, ac_x25519_public = x25519_public, ac_kem_ciphertext = kem_ciphertext\<rparr>)))))))))"

section \<open>Offers, answers and the finish\<close>

record ParsedHandshakeOffer =
  of_peer_id :: bytes
  of_initiator_fingerprint :: bytes
  of_expected_responder_fingerprint :: bytes
  of_public_key :: bytes
  of_nonce :: bytes
  of_x25519_public :: bytes
  of_kem_public_key :: bytes
  of_signature :: bytes
  of_core :: bytes
  of_init_hash :: bytes

record ParsedHandshakeAnswer =
  an_peer_id :: bytes
  an_responder_fingerprint :: bytes
  an_initiator_fingerprint :: bytes
  an_public_key :: bytes
  an_init_hash :: bytes
  an_x25519_public :: bytes
  an_kem_ciphertext :: bytes
  an_signature :: bytes
  an_confirmation_tag :: bytes
  an_core :: bytes

record HandshakeMaterial =
  mat_handshake_secret :: Secret32
  mat_transcript_hash :: bytes
  mat_session_id :: bytes
  mat_finish_key :: Secret32

record HandshakeAnswerParts =
  ap_public_key :: bytes
  ap_nonce :: bytes
  ap_x25519_public :: bytes
  ap_kem_ciphertext :: bytes
  ap_offer :: ParsedHandshakeOffer
  ap_signing_key :: bytes
  ap_x25519_secret :: Secret32
  ap_kem_secret :: Secret32

definition derive_material_from_parts ::
    "CryptoPrims \<Rightarrow> ParsedHandshakeOffer \<Rightarrow> bytes \<Rightarrow> bytes \<Rightarrow> Secret32 \<Rightarrow> Secret32 \<Rightarrow> HandshakeMaterial" where
  "derive_material_from_parts P offer answer_core answer_signature x25519_secret kem_secret =
     (let init_signed = of_core offer @ of_signature offer;
          resp_signed = answer_core @ answer_signature;
          th = hash512 P [ascii ''HYDRA-MSG/v1/transcript'', length_prefixed init_signed, length_prefixed resp_signed];
          secret_len = be_bytes 4 (32 :: u32);
          hybrid_ikm = secret_len @ x25519_secret @ secret_len @ kem_secret;
          hybrid_prk = hkdf_extract P th hybrid_ikm;
          handshake_secret = derive_expand32 P hybrid_prk (ascii ''HYDRA-MSG/v1/root-key'') th;
          sid = derive_expand32 P handshake_secret (ascii ''HYDRA-MSG/v1/session-id'') th;
          finish_key = derive_expand32 P handshake_secret (ascii ''HYDRA-MSG/v1/finish-key'') th
      in \<lparr>mat_handshake_secret = handshake_secret, mat_transcript_hash = th, mat_session_id = sid, mat_finish_key = finish_key\<rparr>)"

definition handshake_confirmation_input :: "bytes \<Rightarrow> bytes \<Rightarrow> bytes" where
  "handshake_confirmation_input th sid = ascii ''HYDRA-MSG/v1/resp-confirm'' @ th @ sid"

definition handshake_response_confirmation :: "CryptoPrims \<Rightarrow> HandshakeMaterial \<Rightarrow> bytes" where
  "handshake_response_confirmation P material =
     (let confirm_key = derive_expand32 P (mat_handshake_secret material) (ascii ''HYDRA-MSG/v1/confirm-key'')
            (mat_transcript_hash material)
      in hmac_sha3_256 P confirm_key (handshake_confirmation_input (mat_transcript_hash material) (mat_session_id material)))"

definition encode_handshake_offer ::
    "CryptoPrims \<Rightarrow> bytes \<Rightarrow> bytes \<Rightarrow> bytes \<Rightarrow> bytes \<Rightarrow> bytes \<Rightarrow> bytes \<Rightarrow> bytes \<Rightarrow> bytes option \<Rightarrow> bytes HydraResult" where
  "encode_handshake_offer P public_key nonce expected_responder_fingerprint x25519_public kem_public_key signing_key tag entropy =
     (let core = encode_offer_core nonce expected_responder_fingerprint public_key x25519_public kem_public_key in
      rbind (from_crypto (mldsa_sign_digest P signing_key (offer_signature_digest P core) entropy)) (\<lambda>signature.
        encode_bootstrap BootstrapInit tag core signature (replicate 32 0)))"

definition encode_handshake_answer ::
    "CryptoPrims \<Rightarrow> HandshakeAnswerParts \<Rightarrow> bytes \<Rightarrow> bytes option \<Rightarrow> (bytes \<times> HandshakeMaterial) HydraResult" where
  "encode_handshake_answer P parts tag entropy =
     (let offer = ap_offer parts;
          core = encode_answer_core (of_init_hash offer) (ap_nonce parts) (of_initiator_fingerprint offer)
            (ap_public_key parts) (ap_x25519_public parts) (ap_kem_ciphertext parts) in
      rbind (from_crypto (mldsa_sign_digest P (ap_signing_key parts)
               (answer_signature_digest P (of_init_hash offer) core) entropy)) (\<lambda>signature.
      let material = derive_material_from_parts P offer core signature (ap_x25519_secret parts) (ap_kem_secret parts);
          confirmation_tag = handshake_response_confirmation P material in
      rbind (encode_bootstrap BootstrapResp tag core signature confirmation_tag) (\<lambda>encoded.
        Inr (encoded, material))))"

definition decode_handshake_offer :: "CryptoPrims \<Rightarrow> bytes \<Rightarrow> ParsedHandshakeOffer HydraResult" where
  "decode_handshake_offer P bs =
     rbind (reject_encoded_size (length bs) MAX_HANDSHAKE_OFFER_BYTES ''handshake INIT size'') (\<lambda>_.
     rbind (decode_bootstrap bs BootstrapInit INIT_CORE_SIZE) (\<lambda>(core, signature, authenticator).
     rbind (ensure (authenticator = replicate 32 0) (HE_InvalidEncoding ''INIT authenticator must be zero'')) (\<lambda>_.
       fst (st_bind read_offer_core (\<lambda>c r. st_lift (
         rbind (ensure (is_finished r) (HE_InvalidEncoding ''INIT core length'')) (\<lambda>_.
         rbind (from_crypto (mldsa_vk_from_bytes (oc_public_key c))) (\<lambda>verifying_key.
         rbind (from_crypto (mldsa_verify_digest P verifying_key (offer_signature_digest P core) signature)) (\<lambda>_.
           Inr \<lparr>of_peer_id = sha3_256 P (oc_public_key c),
             of_initiator_fingerprint = msg_identity_fingerprint P (oc_public_key c),
             of_expected_responder_fingerprint = oc_expected_responder_fingerprint c, of_public_key = oc_public_key c,
             of_nonce = oc_nonce c, of_x25519_public = oc_x25519_public c, of_kem_public_key = oc_kem_public_key c,
             of_signature = signature, of_core = core, of_init_hash = init_hash P core signature\<rparr>)))) r)
         (BytesReader_new core)))))"

definition decode_handshake_answer :: "CryptoPrims \<Rightarrow> bytes \<Rightarrow> ParsedHandshakeAnswer HydraResult" where
  "decode_handshake_answer P bs =
     rbind (reject_encoded_size (length bs) MAX_HANDSHAKE_ANSWER_BYTES ''handshake RESP size'') (\<lambda>_.
     rbind (decode_bootstrap bs BootstrapResp RESP_CORE_SIZE) (\<lambda>(core, signature, confirmation_tag).
       fst (st_bind read_answer_core (\<lambda>c r. st_lift (
         rbind (ensure (is_finished r) (HE_InvalidEncoding ''RESP core length'')) (\<lambda>_.
           Inr \<lparr>an_peer_id = sha3_256 P (ac_public_key c), an_responder_fingerprint = msg_identity_fingerprint P (ac_public_key c),
             an_initiator_fingerprint = ac_initiator_fingerprint c, an_public_key = ac_public_key c,
             an_init_hash = ac_init_hash c, an_x25519_public = ac_x25519_public c, an_kem_ciphertext = ac_kem_ciphertext c,
             an_signature = signature, an_confirmation_tag = confirmation_tag, an_core = core\<rparr>)) r)
         (BytesReader_new core))))"

definition verify_answer_and_derive ::
    "CryptoPrims \<Rightarrow> ParsedHandshakeAnswer \<Rightarrow> ParsedHandshakeOffer \<Rightarrow> Secret32 \<Rightarrow> Secret32 \<Rightarrow> HandshakeMaterial HydraResult" where
  "verify_answer_and_derive P answer offer x25519_secret kem_secret =
     rbind (ensure (an_init_hash answer = of_init_hash offer) (HE_InvalidEncoding ''RESP does not match INIT'')) (\<lambda>_.
     rbind (ensure (an_initiator_fingerprint answer = of_initiator_fingerprint offer)
              (HE_InvalidEncoding ''RESP initiator fingerprint mismatch'')) (\<lambda>_.
     rbind (ensure (an_responder_fingerprint answer = of_expected_responder_fingerprint offer)
              (HE_InvalidEncoding ''RESP responder fingerprint mismatch'')) (\<lambda>_.
     rbind (from_crypto (mldsa_vk_from_bytes (an_public_key answer))) (\<lambda>verifying_key.
     let signature_digest = answer_signature_digest P (an_init_hash answer) (an_core answer) in
     rbind (from_crypto (mldsa_verify_digest P verifying_key signature_digest (an_signature answer))) (\<lambda>_.
     let material = derive_material_from_parts P offer (an_core answer) (an_signature answer) x25519_secret kem_secret;
         confirm_key = derive_expand32 P (mat_handshake_secret material) (ascii ''HYDRA-MSG/v1/confirm-key'')
           (mat_transcript_hash material);
         confirmation = handshake_confirmation_input (mat_transcript_hash material) (mat_session_id material) in
     rbind (from_crypto (verify_hmac_sha3_256 P confirm_key confirmation (an_confirmation_tag answer))) (\<lambda>_.
       Inr material))))))"

definition handshake_finish_route_tag :: "CryptoPrims \<Rightarrow> HandshakeMaterial \<Rightarrow> bytes" where
  "handshake_finish_route_tag P material =
     slice 0 16 (hmac_sha3_256 P (mat_finish_key material)
       (ascii ''HYDRA-MSG/v1/route-tag'' @ mat_session_id material @ mat_transcript_hash material))"

definition handshake_finish_record :: "HandshakeMaterial \<Rightarrow> ProtectedRecord" where
  "handshake_finish_record material =
     \<lparr>content_kind = HandshakeFinish, session_or_group_id = mat_session_id material, sender_id = replicate 32 0,
      epoch = 0, state_version = 0, message_index = 0, content = mat_transcript_hash material @ mat_session_id material\<rparr>"

definition encode_handshake_finish :: "CryptoPrims \<Rightarrow> HandshakeMaterial \<Rightarrow> bytes HydraResult" where
  "encode_handshake_finish P material =
     rbind (map_err (\<lambda>_. HE_InvalidEncoding ''FINISH outer header'')
              (encode_outer_header (OuterHeader_new Protected Lite (handshake_finish_route_tag P material) 0))) (\<lambda>header.
     rbind (map_err (\<lambda>_. HE_InvalidEncoding ''FINISH protected record'')
              (encode_protected_record Lite (handshake_finish_record material))) (\<lambda>plaintext.
     rbind (from_crypto (aead_seal P (mat_finish_key material) (replicate 12 0) header plaintext)) (\<lambda>body.
       Inr (header @ body))))"

definition handshake_finish_header_matches :: "CryptoPrims \<Rightarrow> OuterHeader \<Rightarrow> HandshakeMaterial \<Rightarrow> bool" where
  "handshake_finish_header_matches P header material \<longleftrightarrow>
     mode header = Protected \<and> envelope_class header = Lite \<and> counter header = 0 \<and>
     route_tag header = handshake_finish_route_tag P material"

definition handshake_finish_record_matches :: "ProtectedRecord \<Rightarrow> HandshakeMaterial \<Rightarrow> bytes \<Rightarrow> bool" where
  "handshake_finish_record_matches record material expected \<longleftrightarrow>
     content_kind record = HandshakeFinish \<and> session_or_group_id record = mat_session_id material \<and>
     sender_id record = replicate 32 0 \<and> epoch record = 0 \<and> state_version record = 0 \<and> message_index record = 0 \<and>
     content record = expected"

definition verify_handshake_finish :: "CryptoPrims \<Rightarrow> bytes \<Rightarrow> HandshakeMaterial \<Rightarrow> unit HydraResult" where
  "verify_handshake_finish P finish material =
     rbind (reject_encoded_size (length finish) MAX_HANDSHAKE_FINISH_BYTES ''handshake FINISH size'') (\<lambda>_.
     rbind (ensure (length finish = envelope_size Lite) (HE_InvalidEncoding ''FINISH envelope size'')) (\<lambda>_.
     rbind (map_err (\<lambda>_. HE_InvalidEncoding ''FINISH outer header'') (decode_outer_header finish)) (\<lambda>header.
     rbind (ensure (handshake_finish_header_matches P header material) (HE_InvalidEncoding ''FINISH header mismatch'')) (\<lambda>_.
     rbind (from_crypto (aead_open P (mat_finish_key material) (replicate 12 0) (slice 0 OUTER_HEADER_SIZE finish)
              (drop OUTER_HEADER_SIZE finish))) (\<lambda>plaintext.
     rbind (map_err (\<lambda>_. HE_InvalidEncoding ''FINISH protected record'') (decode_protected_record Lite plaintext)) (\<lambda>record.
       ensure (handshake_finish_record_matches record material (mat_transcript_hash material @ mat_session_id material))
         (HE_InvalidEncoding ''FINISH transcript/session mismatch'')))))))"

section \<open>The parts that cannot fail\<close>

lemma from_crypto_Inr_iff [result_simps]: "from_crypto r = Inr x \<longleftrightarrow> r = Inr x"
  by (simp add: from_crypto_def map_err_Inr_iff)

lemma length_prefixed_total:
  "length value \<le> u32_max \<Longrightarrow> append_lp out value = Inr (out @ length_prefixed value)"
  by (simp add: length_prefixed_def append_lp_def u32_try_from_def)

lemma derive_expand32_total:
  assumes "kdf_ok P" and "length key = 32"
  shows "length (derive_expand32 P key label context) = 32"
proof -
  let ?info = "be_bytes 4 (of_nat (length label) :: u32) @ label @ be_bytes 4 (of_nat (length context) :: u32) @ context"
  obtain out where "hkdf_expand P key ?info 32 = Inr out" using hkdf_expand_total [OF assms, of 32] by auto
  then show ?thesis using hkdf_expand_length [OF assms(1)] by (simp add: derive_expand32_def)
qed

lemma material_lengths:
  assumes "crypto_ok P" and "m = derive_material_from_parts P offer core signature x k"
  shows "length (mat_handshake_secret m) = 32" and "length (mat_transcript_hash m) = 64"
    and "length (mat_session_id m) = 32" and "length (mat_finish_key m) = 32"
  using assms by (simp_all add: derive_material_from_parts_def Let_def derive_expand32_total hash512_def crypto_ok_def)

lemma handshake_finish_route_tag_length: "crypto_ok P \<Longrightarrow> length (handshake_finish_route_tag P m) = 16"
  by (simp add: handshake_finish_route_tag_def length_slice crypto_ok_def)

lemma fingerprint_length: "crypto_ok P \<Longrightarrow> length (msg_identity_fingerprint P k) = 32"
  by (simp add: msg_identity_fingerprint_def crypto_ok_def)

section \<open>The cores are canonical codes\<close>

lemma reader_codec_require_byte: "reader_codec (require_byte b d) (\<lambda>_. [b]) (\<lambda>_. True)"
proof
  fix v pre rest
  show "require_byte b d (reader_at pre ([b] @ rest)) = (Inr v, reader_at (pre @ [b]) rest)"
    by (simp add: require_byte_def st_bind_def st_lift_def st_modify_def reader_at_def)
next
  fix pre bs v r assume r: "require_byte b d (reader_at pre bs) = (Inr v, r)"
  then have bs: "bs \<noteq> []" "(pre @ bs) ! length pre = b" "r = (reader_at pre bs)\<lparr>rd_offset := length pre + 1\<rparr>"
    by (auto simp: require_byte_def result_simps st_lift_iff st_modify_iff)
  then show "True \<and> (\<exists>rest. bs = [b] @ rest \<and> r = reader_at (pre @ [b]) rest)"
    by (cases bs) (auto simp: reader_at_def)
qed

lemma core_range_Inr_iff [result_simps]:
  "core_range n d r = Inr m \<longleftrightarrow> m = rd_offset r + n \<and> m \<le> usize_max"
  by (auto simp: core_range_def checked_add_usize_def result_simps)

lemma reader_codec_take_array: "reader_codec (take_array n d) (\<lambda>bs. bs) (\<lambda>bs. length bs = n)"
proof
  fix v pre rest :: bytes assume "length v = n" and "length (pre @ v @ rest) \<le> usize_max"
  then show "take_array n d (reader_at pre (v @ rest)) = (Inr v, reader_at (pre @ v) rest)"
    by (simp add: take_array_def core_range_def checked_add_usize_def st_bind_def st_lift_def st_modify_def reader_at_def slice_def)
next
  fix pre bs v r assume r: "take_array n d (reader_at pre bs) = (Inr v, r)"
  then have "n \<le> length bs" "v = take n bs" "r = (reader_at pre bs)\<lparr>rd_offset := length pre + n\<rparr>"
    by (auto simp: take_array_def result_simps st_lift_iff st_modify_iff slice_def)
  then show "length v = n \<and> (\<exists>rest. bs = v @ rest \<and> r = reader_at (pre @ v) rest)"
    by (intro conjI exI [of _ "drop n bs"]) (simp_all add: reader_at_def)
qed

lemma reader_codec_require_slice: "reader_codec (require_slice xs d) (\<lambda>_. xs) (\<lambda>_. True)"
proof
  fix v pre rest assume "length (pre @ xs @ rest) \<le> usize_max"
  then show "require_slice xs d (reader_at pre (xs @ rest)) = (Inr v, reader_at (pre @ xs) rest)"
    by (simp add: require_slice_def core_range_def checked_add_usize_def st_bind_def st_lift_def st_modify_def reader_at_def slice_def)
next
  fix pre bs v r assume r: "require_slice xs d (reader_at pre bs) = (Inr v, r)"
  then have "length xs \<le> length bs" "take (length xs) bs = xs" "r = (reader_at pre bs)\<lparr>rd_offset := length pre + length xs\<rparr>"
    by (auto simp: require_slice_def result_simps st_lift_iff st_modify_iff slice_def)
  then show "True \<and> (\<exists>rest. bs = xs @ rest \<and> r = reader_at (pre @ xs) rest)"
    using append_take_drop_id [of "length xs" bs] by (intro conjI exI [of _ "drop (length xs) bs"]) (simp_all add: reader_at_def)
qed

definition offer_core_bytes :: "OfferCore \<Rightarrow> bytes" where
  "offer_core_bytes c = encode_offer_core (oc_nonce c) (oc_expected_responder_fingerprint c) (oc_public_key c)
     (oc_x25519_public c) (oc_kem_public_key c)"

definition offer_core_wf :: "OfferCore \<Rightarrow> bool" where
  "offer_core_wf c \<longleftrightarrow> length (oc_nonce c) = 32 \<and> length (oc_expected_responder_fingerprint c) = 32 \<and>
     length (oc_public_key c) = ML_DSA_65_VK_SIZE \<and> length (oc_x25519_public c) = 32 \<and>
     length (oc_kem_public_key c) = ML_KEM_768_EK_SIZE"

definition answer_core_bytes :: "AnswerCore \<Rightarrow> bytes" where
  "answer_core_bytes c = encode_answer_core (ac_init_hash c) (ac_nonce c) (ac_initiator_fingerprint c) (ac_public_key c)
     (ac_x25519_public c) (ac_kem_ciphertext c)"

definition answer_core_wf :: "AnswerCore \<Rightarrow> bool" where
  "answer_core_wf c \<longleftrightarrow> length (ac_init_hash c) = TRANSCRIPT_HASH_SIZE \<and> length (ac_nonce c) = 32 \<and>
     length (ac_initiator_fingerprint c) = 32 \<and> length (ac_public_key c) = ML_DSA_65_VK_SIZE \<and>
     length (ac_x25519_public c) = 32 \<and> length (ac_kem_ciphertext c) = ML_KEM_768_CT_SIZE"

text \<open>The fields read so far are collected in \<open>g\<close>.\<close>

lemma reader_codec_field:
  assumes "\<And>x. length x = n \<Longrightarrow> reader_codec (q x) e (\<lambda>c. (f c = x \<and> g c) \<and> w c)"
  shows "reader_codec (st_bind (take_array n d) q) (\<lambda>c. f c @ e c) (\<lambda>c. g c \<and> length (f c) = n \<and> w c)"
  by (rule reader_codec_seq [OF reader_codec_take_array assms, where f = f]) auto

lemma reader_codec_const:
  assumes "reader_codec (p :: unit reader) (\<lambda>_. k) (\<lambda>_. True)" and "reader_codec q e w"
  shows "reader_codec (st_bind p (\<lambda>_. q)) (\<lambda>c. k @ e c) w"
  by (rule reader_codec_seq [OF assms(1) assms(2), where f = "\<lambda>_. ()"]) auto

lemmas reader_codec_core = reader_codec_const [OF reader_codec_require_byte] reader_codec_const [OF reader_codec_require_slice]
  reader_codec_field

lemma reader_codec_offer_core: "reader_codec read_offer_core offer_core_bytes offer_core_wf"
proof -
  have "reader_codec read_offer_core
    (\<lambda>c. [PROTOCOL_VERSION] @ SUITE_ID @ oc_nonce c @ oc_expected_responder_fingerprint c @ oc_public_key c @ oc_x25519_public c @
       oc_kem_public_key c @ [])
    (\<lambda>c. True \<and> length (oc_nonce c) = 32 \<and> length (oc_expected_responder_fingerprint c) = 32 \<and>
       length (oc_public_key c) = ML_DSA_65_VK_SIZE \<and> length (oc_x25519_public c) = 32 \<and>
       length (oc_kem_public_key c) = ML_KEM_768_EK_SIZE \<and> True)"
    unfolding read_offer_core_def by (rule reader_codec_core)+ (rule reader_codec_end, auto)
  then show ?thesis by (rule reader_codec_cong) (simp_all add: offer_core_wf_def offer_core_bytes_def encode_offer_core_def)
qed

lemma reader_codec_answer_core: "reader_codec read_answer_core answer_core_bytes answer_core_wf"
proof -
  have "reader_codec read_answer_core
    (\<lambda>c. [PROTOCOL_VERSION] @ SUITE_ID @ ac_init_hash c @ ac_nonce c @ ac_initiator_fingerprint c @ ac_public_key c @
       ac_x25519_public c @ ac_kem_ciphertext c @ [])
    (\<lambda>c. True \<and> length (ac_init_hash c) = TRANSCRIPT_HASH_SIZE \<and> length (ac_nonce c) = 32 \<and>
       length (ac_initiator_fingerprint c) = 32 \<and> length (ac_public_key c) = ML_DSA_65_VK_SIZE \<and>
       length (ac_x25519_public c) = 32 \<and> length (ac_kem_ciphertext c) = ML_KEM_768_CT_SIZE \<and> True)"
    unfolding read_answer_core_def by (rule reader_codec_core)+ (rule reader_codec_end, auto)
  then show ?thesis by (rule reader_codec_cong) (simp_all add: answer_core_wf_def answer_core_bytes_def encode_answer_core_def)
qed

interpretation offer_core: reader_codec read_offer_core offer_core_bytes offer_core_wf
  by (rule reader_codec_offer_core)

interpretation answer_core: reader_codec read_answer_core answer_core_bytes answer_core_wf
  by (rule reader_codec_answer_core)

lemma core_lengths [simp]:
  "offer_core_wf c \<Longrightarrow> length (offer_core_bytes c) = INIT_CORE_SIZE"
  "answer_core_wf a \<Longrightarrow> length (answer_core_bytes a) = RESP_CORE_SIZE"
  by (simp_all add: offer_core_wf_def offer_core_bytes_def encode_offer_core_def answer_core_wf_def answer_core_bytes_def
      encode_answer_core_def)

section \<open>The bootstrap envelope is a canonical code\<close>

definition bootstrap_layout :: "OuterMode \<Rightarrow> bytes \<Rightarrow> bytes \<Rightarrow> bytes \<Rightarrow> bytes \<Rightarrow> bytes" where
  "bootstrap_layout md tag control signature authenticator =
     header_layout (OuterHeader_new md Standard tag 0) @ be_bytes 4 (of_nat (length control) :: u32) @ control @ signature @
     authenticator @ replicate (32704 - (4 + length control + length signature + length authenticator)) 0"

lemma bootstrap_header_ok: "length tag = 16 \<Longrightarrow> header_ok (OuterHeader_new md c tag n)"
  by (simp add: header_ok_def OuterHeader_new_def)

lemma encode_bootstrap_eq:
  assumes "length tag = 16" and "length control + length signature + length authenticator \<le> 32700"
  shows "encode_bootstrap md tag control signature authenticator = Inr (bootstrap_layout md tag control signature authenticator)"
  using assms
  by (simp add: encode_bootstrap_def encode_outer_header_layout bootstrap_header_ok u32_try_from_def u32_max_def Let_def
      layout_simps bootstrap_layout_def)

lemma header_eqI:
  "header_ok h \<Longrightarrow> mode h = md \<Longrightarrow> envelope_class h = c \<Longrightarrow> counter h = n \<Longrightarrow> h = OuterHeader_new md c (route_tag h) n"
  by (cases h) (simp add: header_ok_def OuterHeader_new_def)

lemma decode_bootstrap_iff:
  assumes n: "n \<le> 20000"
  shows "decode_bootstrap bs md n = Inr (control, signature, authenticator) \<longleftrightarrow>
    length control = n \<and> length signature = ML_DSA_65_SIG_SIZE \<and> length authenticator = 32 \<and>
    (\<exists>tag. length tag = 16 \<and> bs = bootstrap_layout md tag control signature authenticator)" (is "?dec \<longleftrightarrow> ?enc")
proof
  assume ?dec
  then obtain h where len: "length bs = 32768" and h: "decode_outer_header bs = Inr h" "mode h = md" "envelope_class h = Standard" "counter h = 0"
    and cl: "unat (be_word (slice 0 4 (drop 64 bs)) :: u32) = n"
    and zero: "\<not> list_ex (\<lambda>b. b \<noteq> 0) (drop (4 + n + 3309 + 32) (drop 64 bs))"
    and parts: "control = slice 4 (4 + n) (drop 64 bs)" "signature = slice (4 + n) (4 + n + 3309) (drop 64 bs)"
      "authenticator = slice (4 + n + 3309) (4 + n + 3309 + 32) (drop 64 bs)"
    by (auto simp: decode_bootstrap_def result_simps map_err_Inr_iff Let_def checked_add_usize_def add.commute split: if_splits)
  have ok: "header_ok h" "take 64 bs = header_layout h" using h(1) by (simp_all add: decode_outer_header_iff)
  have heq: "h = OuterHeader_new md Standard (route_tag h) 0" by (rule header_eqI [OF ok(1) h(2-4)])
  have prefix: "slice 0 4 (drop 64 bs) = be_bytes 4 (of_nat n :: u32)"
    using len cl [symmetric] be_bytes_be_word_u32 [of "slice 0 4 (drop 64 bs)"] by (simp add: length_slice)
  have lens: "length control = n" "length signature = 3309" "length authenticator = 32"
    using parts len n by (simp_all add: length_slice)
  have pad: "drop (4 + n + 3309 + 32) (drop 64 bs) = replicate (32704 - (4 + n + 3309 + 32)) 0"
    using zero len n unfolding zero_bytes_iff by simp
  have "drop 64 bs = slice 0 (4 + n + 3309 + 32) (drop 64 bs) @ drop (4 + n + 3309 + 32) (drop 64 bs)"
    by (simp only: slice_def diff_zero drop_0 append_take_drop_id)
  also have "slice 0 (4 + n + 3309 + 32) (drop 64 bs) = slice 0 4 (drop 64 bs) @ control @ signature @ authenticator"
    unfolding parts by (simp add: slice_join)
  finally have "drop 64 bs = be_bytes 4 (of_nat n :: u32) @ control @ signature @ authenticator @
      replicate (32704 - (4 + n + 3309 + 32)) 0"
    unfolding prefix pad by simp
  then have "bs = bootstrap_layout md (route_tag h) control signature authenticator"
    using ok(2) append_take_drop_id [of 64 bs] heq unfolding bootstrap_layout_def lens by (metis append.assoc)
  then show ?enc using lens ok(1) by (auto simp: header_ok_def)
next
  assume ?enc
  then obtain tag where lens: "length control = n" "length signature = 3309" "length authenticator = 32" "length tag = 16"
    and bs: "bs = bootstrap_layout md tag control signature authenticator" by auto
  let ?h = "OuterHeader_new md Standard tag 0"
  have hok: "header_ok ?h" by (rule bootstrap_header_ok [OF lens(4)])
  let ?body = "be_bytes 4 (of_nat n :: u32) @ control @ signature @ authenticator @ replicate (32704 - (4 + n + 3309 + 32)) 0"
  have body: "bs = header_layout ?h @ ?body" using lens by (simp add: bs bootstrap_layout_def)
  have hlen: "length (header_layout ?h) = 64" by (rule length_header_layout [OF hok])
  have len: "length bs = 32768" using lens n by (simp add: body hlen)
  have dec: "decode_outer_header bs = Inr ?h" using hok len hlen by (simp add: decode_outer_header_iff body) (simp add: OuterHeader_new_def)
  have drop: "drop 64 bs = ?body" using hlen by (simp add: body)
  have fields: "slice 0 4 ?body = be_bytes 4 (of_nat n :: u32)" "slice 4 (4 + n) ?body = control"
      "slice (4 + n) (4 + n + 3309) ?body = signature" "slice (4 + n + 3309) (4 + n + 3309 + 32) ?body = authenticator"
      "drop (4 + n + 3309 + 32) ?body = replicate (32704 - (4 + n + 3309 + 32)) 0" "length ?body = 32704"
    using lens n by (simp_all add: slice_def)
  have num: "unat (be_word (be_bytes 4 (of_nat n :: u32)) :: u32) = n" using n by (simp add: be_word_be_bytes_u32 unat_of_nat)
  show ?dec
    unfolding decode_bootstrap_def Let_def OUTER_HEADER_SIZE_def drop dec fields(1) num
    using len n fields(2-6) by (simp add: checked_add_usize_def usize_max_def OuterHeader_new_def list_ex_iff)
qed

section \<open>Offers and answers\<close>

definition parsed_offer :: "CryptoPrims \<Rightarrow> OfferCore \<Rightarrow> bytes \<Rightarrow> ParsedHandshakeOffer" where
  "parsed_offer P c signature =
     \<lparr>of_peer_id = sha3_256 P (oc_public_key c), of_initiator_fingerprint = msg_identity_fingerprint P (oc_public_key c),
      of_expected_responder_fingerprint = oc_expected_responder_fingerprint c, of_public_key = oc_public_key c,
      of_nonce = oc_nonce c, of_x25519_public = oc_x25519_public c, of_kem_public_key = oc_kem_public_key c,
      of_signature = signature, of_core = offer_core_bytes c, of_init_hash = init_hash P (offer_core_bytes c) signature\<rparr>"

definition parsed_answer :: "CryptoPrims \<Rightarrow> AnswerCore \<Rightarrow> bytes \<Rightarrow> bytes \<Rightarrow> ParsedHandshakeAnswer" where
  "parsed_answer P c signature tag =
     \<lparr>an_peer_id = sha3_256 P (ac_public_key c), an_responder_fingerprint = msg_identity_fingerprint P (ac_public_key c),
      an_initiator_fingerprint = ac_initiator_fingerprint c, an_public_key = ac_public_key c, an_init_hash = ac_init_hash c,
      an_x25519_public = ac_x25519_public c, an_kem_ciphertext = ac_kem_ciphertext c, an_signature = signature,
      an_confirmation_tag = tag, an_core = answer_core_bytes c\<rparr>"

lemma bootstrap_length:
  "length tag = 16 \<Longrightarrow> length control + length signature + length authenticator \<le> 32700 \<Longrightarrow>
     length (bootstrap_layout md tag control signature authenticator) = 32768"
  by (simp add: bootstrap_layout_def length_header_layout bootstrap_header_ok)

text \<open>Which bytes are an offer: the layout of a well-formed core with a valid signature by the key in it.\<close>

lemma decode_offer_iff:
  "decode_handshake_offer P bs = Inr offer \<longleftrightarrow>
     (\<exists>tag c signature. length tag = 16 \<and> offer_core_wf c \<and> length signature = ML_DSA_65_SIG_SIZE \<and>
        bs = bootstrap_layout BootstrapInit tag (offer_core_bytes c) signature (replicate 32 0) \<and>
        mldsa_verify_digest P (oc_public_key c) (offer_signature_digest P (offer_core_bytes c)) signature = Inr () \<and>
        offer = parsed_offer P c signature)"
proof -
  have core: "(\<exists>r. read_offer_core (BytesReader_new core) = (Inr c, r) \<and> is_finished r) \<longleftrightarrow> offer_core_wf c \<and> core = offer_core_bytes c"
    if "length core = 3249" for core c
    using offer_core.reads_whole_iff [of core c] that by (simp add: usize_max_def)
  have "fst (st_bind read_offer_core (\<lambda>c r. st_lift (
         rbind (ensure (is_finished r) (HE_InvalidEncoding ''INIT core length'')) (\<lambda>_.
         rbind (from_crypto (mldsa_vk_from_bytes (oc_public_key c))) (\<lambda>verifying_key.
         rbind (from_crypto (mldsa_verify_digest P verifying_key (offer_signature_digest P core) signature)) (\<lambda>_.
           Inr \<lparr>of_peer_id = sha3_256 P (oc_public_key c),
             of_initiator_fingerprint = msg_identity_fingerprint P (oc_public_key c),
             of_expected_responder_fingerprint = oc_expected_responder_fingerprint c, of_public_key = oc_public_key c,
             of_nonce = oc_nonce c, of_x25519_public = oc_x25519_public c, of_kem_public_key = oc_kem_public_key c,
             of_signature = signature, of_core = core, of_init_hash = init_hash P core signature\<rparr>)))) r)
         (BytesReader_new core)) = Inr offer \<longleftrightarrow>
      (\<exists>c. (\<exists>r. read_offer_core (BytesReader_new core) = (Inr c, r) \<and> is_finished r) \<and> length (oc_public_key c) = ML_DSA_65_VK_SIZE \<and>
         mldsa_verify_digest P (oc_public_key c) (offer_signature_digest P core) signature = Inr () \<and>
         offer = (parsed_offer P c signature)\<lparr>of_core := core, of_init_hash := init_hash P core signature\<rparr>)" for core signature
    by (auto simp: fst_st_bind_Inr_iff st_lift_def result_simps mldsa_vk_from_bytes_def parsed_offer_def split: if_splits)
  note read = this
  show ?thesis
  proof
    assume "decode_handshake_offer P bs = Inr offer"
    then obtain control signature authenticator where boot: "decode_bootstrap bs BootstrapInit 3249 = Inr (control, signature, authenticator)"
      and auth: "authenticator = replicate 32 0"
      and rest: "\<exists>c. (\<exists>r. read_offer_core (BytesReader_new control) = (Inr c, r) \<and> is_finished r) \<and> length (oc_public_key c) = ML_DSA_65_VK_SIZE \<and>
         mldsa_verify_digest P (oc_public_key c) (offer_signature_digest P control) signature = Inr () \<and>
         offer = (parsed_offer P c signature)\<lparr>of_core := control, of_init_hash := init_hash P control signature\<rparr>"
      unfolding decode_handshake_offer_def rbind_Inr_iff by (auto simp: rbind_Inr_iff ensure_Inr_iff read)
    obtain tag where b: "length control = 3249" "length signature = ML_DSA_65_SIG_SIZE" "length tag = 16"
        "bs = bootstrap_layout BootstrapInit tag control signature authenticator"
      using boot by (auto simp: decode_bootstrap_iff)
    show "\<exists>tag c signature. length tag = 16 \<and> offer_core_wf c \<and> length signature = ML_DSA_65_SIG_SIZE \<and>
        bs = bootstrap_layout BootstrapInit tag (offer_core_bytes c) signature (replicate 32 0) \<and>
        mldsa_verify_digest P (oc_public_key c) (offer_signature_digest P (offer_core_bytes c)) signature = Inr () \<and>
        offer = parsed_offer P c signature"
      using rest b auth unfolding core [OF b(1)] by (auto simp: parsed_offer_def)
  next
    assume "\<exists>tag c signature. length tag = 16 \<and> offer_core_wf c \<and> length signature = ML_DSA_65_SIG_SIZE \<and>
        bs = bootstrap_layout BootstrapInit tag (offer_core_bytes c) signature (replicate 32 0) \<and>
        mldsa_verify_digest P (oc_public_key c) (offer_signature_digest P (offer_core_bytes c)) signature = Inr () \<and>
        offer = parsed_offer P c signature"
    then obtain tag c signature where t: "length tag = 16" and c: "offer_core_wf c" and sg: "length signature = ML_DSA_65_SIG_SIZE"
      and bs: "bs = bootstrap_layout BootstrapInit tag (offer_core_bytes c) signature (replicate 32 0)"
      and ver: "mldsa_verify_digest P (oc_public_key c) (offer_signature_digest P (offer_core_bytes c)) signature = Inr ()"
      and offer: "offer = parsed_offer P c signature" by blast
    have n: "length (offer_core_bytes c) = 3249" using c by simp
    have boot: "decode_bootstrap bs BootstrapInit INIT_CORE_SIZE = Inr (offer_core_bytes c, signature, replicate 32 0)"
      using t sg n by (auto simp: decode_bootstrap_iff bs)
    have len: "length bs = 32768" using t sg n by (simp add: bs bootstrap_length)
    have "\<exists>r. read_offer_core (BytesReader_new (offer_core_bytes c)) = (Inr c, r) \<and> is_finished r"
      using core [OF n] c by simp
    then show "decode_handshake_offer P bs = Inr offer"
      unfolding decode_handshake_offer_def boot rbind_Inr_iff
      using len ver c by (auto simp: result_simps MAX_HANDSHAKE_OFFER_BYTES_def read offer parsed_offer_def offer_core_wf_def st_lift_def
          from_crypto_def mldsa_vk_from_bytes_def)
  qed
qed

lemma decode_answer_iff:
  "decode_handshake_answer P bs = Inr answer \<longleftrightarrow>
     (\<exists>tag c signature confirmation. length tag = 16 \<and> answer_core_wf c \<and> length signature = ML_DSA_65_SIG_SIZE \<and>
        length confirmation = 32 \<and> bs = bootstrap_layout BootstrapResp tag (answer_core_bytes c) signature confirmation \<and>
        answer = parsed_answer P c signature confirmation)"
proof -
  have core: "(\<exists>r. read_answer_core (BytesReader_new core) = (Inr c, r) \<and> is_finished r) \<longleftrightarrow> answer_core_wf c \<and> core = answer_core_bytes c"
    if "length core = 3217" for core c
    using answer_core.reads_whole_iff [of core c] that by (simp add: usize_max_def)
  have read: "fst (st_bind read_answer_core (\<lambda>c r. st_lift (
         rbind (ensure (is_finished r) (HE_InvalidEncoding ''RESP core length'')) (\<lambda>_.
           Inr \<lparr>an_peer_id = sha3_256 P (ac_public_key c), an_responder_fingerprint = msg_identity_fingerprint P (ac_public_key c),
             an_initiator_fingerprint = ac_initiator_fingerprint c, an_public_key = ac_public_key c,
             an_init_hash = ac_init_hash c, an_x25519_public = ac_x25519_public c, an_kem_ciphertext = ac_kem_ciphertext c,
             an_signature = signature, an_confirmation_tag = confirmation_tag, an_core = core\<rparr>)) r)
         (BytesReader_new core)) = Inr answer \<longleftrightarrow>
      (\<exists>c. (\<exists>r. read_answer_core (BytesReader_new core) = (Inr c, r) \<and> is_finished r) \<and>
         answer = (parsed_answer P c signature confirmation_tag)\<lparr>an_core := core\<rparr>)" for core signature confirmation_tag
    by (auto simp: fst_st_bind_Inr_iff st_lift_def result_simps parsed_answer_def)
  show ?thesis
  proof
    assume "decode_handshake_answer P bs = Inr answer"
    then obtain control signature confirmation where boot: "decode_bootstrap bs BootstrapResp 3217 = Inr (control, signature, confirmation)"
      and rest: "\<exists>c. (\<exists>r. read_answer_core (BytesReader_new control) = (Inr c, r) \<and> is_finished r) \<and>
         answer = (parsed_answer P c signature confirmation)\<lparr>an_core := control\<rparr>"
      unfolding decode_handshake_answer_def rbind_Inr_iff by (auto simp: rbind_Inr_iff ensure_Inr_iff read)
    obtain tag where b: "length control = 3217" "length signature = ML_DSA_65_SIG_SIZE" "length tag = 16" "length confirmation = 32"
        "bs = bootstrap_layout BootstrapResp tag control signature confirmation"
      using boot by (auto simp: decode_bootstrap_iff)
    show "\<exists>tag c signature confirmation. length tag = 16 \<and> answer_core_wf c \<and> length signature = ML_DSA_65_SIG_SIZE \<and>
        length confirmation = 32 \<and> bs = bootstrap_layout BootstrapResp tag (answer_core_bytes c) signature confirmation \<and>
        answer = parsed_answer P c signature confirmation"
      using rest b unfolding core [OF b(1)] by (auto simp: parsed_answer_def)
  next
    assume "\<exists>tag c signature confirmation. length tag = 16 \<and> answer_core_wf c \<and> length signature = ML_DSA_65_SIG_SIZE \<and>
        length confirmation = 32 \<and> bs = bootstrap_layout BootstrapResp tag (answer_core_bytes c) signature confirmation \<and>
        answer = parsed_answer P c signature confirmation"
    then obtain tag c signature confirmation where t: "length tag = 16" and c: "answer_core_wf c" and sg: "length signature = ML_DSA_65_SIG_SIZE"
      and cf: "length confirmation = 32"
      and bs: "bs = bootstrap_layout BootstrapResp tag (answer_core_bytes c) signature confirmation"
      and answer: "answer = parsed_answer P c signature confirmation" by blast
    have n: "length (answer_core_bytes c) = 3217" using c by simp
    have boot: "decode_bootstrap bs BootstrapResp RESP_CORE_SIZE = Inr (answer_core_bytes c, signature, confirmation)"
      using t sg cf n by (auto simp: decode_bootstrap_iff bs)
    have len: "length bs = 32768" using t sg cf n by (simp add: bs bootstrap_length)
    have "\<exists>r. read_answer_core (BytesReader_new (answer_core_bytes c)) = (Inr c, r) \<and> is_finished r"
      using core [OF n] c by simp
    then show "decode_handshake_answer P bs = Inr answer"
      unfolding decode_handshake_answer_def boot rbind_Inr_iff
      using len by (auto simp: result_simps MAX_HANDSHAKE_ANSWER_BYTES_def read answer parsed_answer_def st_lift_def)
  qed
qed

section \<open>Both ends agree\<close>

definition offer_of :: "CryptoPrims \<Rightarrow> bytes \<Rightarrow> bytes \<Rightarrow> bytes \<Rightarrow> bytes \<Rightarrow> bytes \<Rightarrow> OfferCore" where
  "offer_of P public_key nonce expected x25519_public kem_public_key =
     \<lparr>oc_nonce = nonce, oc_expected_responder_fingerprint = expected, oc_public_key = public_key,
      oc_x25519_public = x25519_public, oc_kem_public_key = kem_public_key\<rparr>"

lemma sign_verifies:
  assumes "crypto_ok P" and "p_mldsa_from_seed P seed = (sk, vk)" and "mldsa_sign_digest P sk d entropy = Inr signature"
  shows "mldsa_verify_digest P vk d signature = Inr ()" and "length signature = ML_DSA_65_SIG_SIZE" and "length vk = ML_DSA_65_VK_SIZE"
  using assms by (auto simp: crypto_ok_def sig_ok_def mldsa_sign_digest_def mldsa_verify_digest_def result_simps)

text \<open>An encoded offer is read back by the peer.\<close>

lemma decode_encode_offer:
  assumes "crypto_ok P" and "p_mldsa_from_seed P seed = (sk, vk)" and "length nonce = 32" and "length expected = 32"
    and "length x = 32" and "length ek = ML_KEM_768_EK_SIZE" and "length tag = 16"
    and "encode_handshake_offer P vk nonce expected x ek sk tag entropy = Inr bs"
  shows "\<exists>signature. decode_handshake_offer P bs = Inr (parsed_offer P (offer_of P vk nonce expected x ek) signature)"
proof -
  let ?c = "offer_of P vk nonce expected x ek"
  have core: "offer_core_bytes ?c = encode_offer_core nonce expected vk x ek" by (simp add: offer_core_bytes_def offer_of_def)
  obtain signature where sg: "mldsa_sign_digest P sk (offer_signature_digest P (offer_core_bytes ?c)) entropy = Inr signature"
    and enc: "encode_bootstrap BootstrapInit tag (offer_core_bytes ?c) signature (replicate 32 0) = Inr bs"
    using assms(8) by (auto simp: encode_handshake_offer_def Let_def result_simps core)
  note v = sign_verifies [OF assms(1,2) sg]
  have wf: "offer_core_wf ?c" using assms v(3) by (simp add: offer_core_wf_def offer_of_def)
  have "bs = bootstrap_layout BootstrapInit tag (offer_core_bytes ?c) signature (replicate 32 0)"
    using enc wf v(2) assms(7) by (simp add: encode_bootstrap_eq)
  moreover have "mldsa_verify_digest P (oc_public_key ?c) (offer_signature_digest P (offer_core_bytes ?c)) signature = Inr ()"
    using v(1) by (simp add: offer_of_def)
  ultimately have "decode_handshake_offer P bs = Inr (parsed_offer P ?c signature)"
    unfolding decode_offer_iff using v(2) wf assms(7) by blast
  then show ?thesis ..
qed

text \<open>
  An answer to an offer is accepted by the offering side, and both sides derive the same material, when they
  compute the same two shared secrets and the answer comes from the expected responder.
\<close>

lemma answer_agrees:
  assumes P: "crypto_ok P" and key: "p_mldsa_from_seed P seed = (sk, vk)" and keys: "ap_public_key parts = vk" "ap_signing_key parts = sk"
    and lens: "length (ap_nonce parts) = 32" "length (ap_x25519_public parts) = 32" "length (ap_kem_ciphertext parts) = ML_KEM_768_CT_SIZE"
      "length (of_init_hash (ap_offer parts)) = TRANSCRIPT_HASH_SIZE" "length (of_initiator_fingerprint (ap_offer parts)) = 32" "length tag = 16"
    and expected: "of_expected_responder_fingerprint (ap_offer parts) = msg_identity_fingerprint P vk"
    and enc: "encode_handshake_answer P parts tag entropy = Inr (bs, material)"
  shows "\<exists>answer. decode_handshake_answer P bs = Inr answer \<and> an_init_hash answer = of_init_hash (ap_offer parts) \<and>
    an_public_key answer = vk \<and> an_peer_id answer = sha3_256 P vk \<and> an_responder_fingerprint answer = msg_identity_fingerprint P vk \<and>
    an_x25519_public answer = ap_x25519_public parts \<and> an_kem_ciphertext answer = ap_kem_ciphertext parts \<and>
    verify_answer_and_derive P answer (ap_offer parts) (ap_x25519_secret parts) (ap_kem_secret parts) = Inr material"
proof -
  let ?c = "\<lparr>ac_init_hash = of_init_hash (ap_offer parts), ac_nonce = ap_nonce parts,
     ac_initiator_fingerprint = of_initiator_fingerprint (ap_offer parts), ac_public_key = vk,
     ac_x25519_public = ap_x25519_public parts, ac_kem_ciphertext = ap_kem_ciphertext parts\<rparr>"
  have core: "answer_core_bytes ?c = encode_answer_core (of_init_hash (ap_offer parts)) (ap_nonce parts)
      (of_initiator_fingerprint (ap_offer parts)) (ap_public_key parts) (ap_x25519_public parts) (ap_kem_ciphertext parts)"
    by (simp add: answer_core_bytes_def keys)
  obtain signature where sg: "mldsa_sign_digest P sk (answer_signature_digest P (of_init_hash (ap_offer parts)) (answer_core_bytes ?c)) entropy = Inr signature"
    and mat: "material = derive_material_from_parts P (ap_offer parts) (answer_core_bytes ?c) signature (ap_x25519_secret parts) (ap_kem_secret parts)"
    and boot: "encode_bootstrap BootstrapResp tag (answer_core_bytes ?c) signature (handshake_response_confirmation P material) = Inr bs"
    using enc by (auto simp: encode_handshake_answer_def Let_def result_simps core keys)
  note v = sign_verifies [OF P key sg]
  have wf: "answer_core_wf ?c" using lens v(3) by (simp add: answer_core_wf_def)
  have h: "hash_ok P" using P by (simp add: crypto_ok_def)
  have conf: "length (handshake_response_confirmation P material) = 32"
    by (simp add: handshake_response_confirmation_def Let_def h)
  have "bs = bootstrap_layout BootstrapResp tag (answer_core_bytes ?c) signature (handshake_response_confirmation P material)"
    using boot wf v(2) lens(6) conf by (simp add: encode_bootstrap_eq)
  then have dec: "decode_handshake_answer P bs = Inr (parsed_answer P ?c signature (handshake_response_confirmation P material))"
    using v(2) wf lens(6) conf by (auto simp: decode_answer_iff)
  have "verify_answer_and_derive P (parsed_answer P ?c signature (handshake_response_confirmation P material)) (ap_offer parts)
      (ap_x25519_secret parts) (ap_kem_secret parts) = Inr material"
    using v expected h
    by (auto simp: verify_answer_and_derive_def result_simps Let_def parsed_answer_def mldsa_vk_from_bytes_def mat [symmetric]
        handshake_response_confirmation_def verify_hmac_iff from_crypto_def)
  then show ?thesis using dec by (intro exI [of _ "parsed_answer P ?c signature (handshake_response_confirmation P material)"])
      (simp add: parsed_answer_def)
qed

text \<open>A FINISH is accepted exactly by the holder of the material it was made from.\<close>

lemma finish_agrees:
  assumes P: "crypto_ok P" and lens: "length (mat_transcript_hash m) = 64" "length (mat_session_id m) = 32"
  shows "\<exists>bs. encode_handshake_finish P m = Inr bs \<and> length bs = envelope_size Lite \<and> verify_handshake_finish P bs m = Inr () \<and>
    decode_outer_header bs = Inr (OuterHeader_new Protected Lite (handshake_finish_route_tag P m) 0)"
proof -
  let ?h = "OuterHeader_new Protected Lite (handshake_finish_route_tag P m) 0"
  have hok: "header_ok ?h" by (rule bootstrap_header_ok [OF handshake_finish_route_tag_length [OF P]])
  have aead: "aead_ok P" using P by (simp add: crypto_ok_def)
  have rok: "record_ok Lite (handshake_finish_record m)"
    using lens by (simp add: record_ok_def record_ids_ok_def handshake_finish_record_def max_content_size_def protected_record_size_def body_size_def)
  let ?p = "record_layout (handshake_finish_record m) @
    replicate (max_content_size Lite - length (content (handshake_finish_record m))) 0"
  note pr = encode_protected_record_layout [OF rok]
  have plen: "length ?p = protected_record_size Lite"
    using rok by (simp add: record_ok_def length_record_layout protected_record_size_split)
  obtain ct where ct: "aead_seal P (mat_finish_key m) (replicate 12 0) (header_layout ?h) ?p = Inr ct"
    using aead_seal_total [OF aead, of "replicate 12 0" ?p] plen by (auto simp: AEAD_MESSAGE_LIMIT_def protected_record_size_def body_size_def)
  have clen: "length ct = envelope_size Lite - 64"
    using aead_seal_length [OF aead ct] plen by (simp add: protected_record_size_def body_size_def)
  let ?bs = "header_layout ?h @ ct"
  have hl: "length (header_layout ?h) = 64" by (rule length_header_layout [OF hok])
  have enc: "encode_handshake_finish P m = Inr ?bs"
    by (simp add: encode_handshake_finish_def encode_outer_header_layout [OF hok] pr ct from_crypto_def)
  have dec: "decode_outer_header ?bs = Inr ?h"
    using hok hl clen by (simp add: decode_outer_header_iff) (simp add: OuterHeader_new_def)
  have open_ct: "aead_open P (mat_finish_key m) (replicate 12 0) (header_layout ?h) ct = Inr ?p"
    using ct by (simp add: aead_open_iff [OF aead])
  have rec: "decode_protected_record Lite ?p = Inr (handshake_finish_record m)"
    using protected_record.dec_enc [OF _ pr] rok by (simp add: record_ok_def)
  have "verify_handshake_finish P ?bs m = Inr ()"
    using hl clen
    by (simp add: verify_handshake_finish_def dec [unfolded OuterHeader_new_def] open_ct [unfolded OuterHeader_new_def] rec
        result_simps slice_def from_crypto_def MAX_HANDSHAKE_FINISH_BYTES_def
        handshake_finish_header_matches_def handshake_finish_record_matches_def OuterHeader_new_def)
       (simp add: handshake_finish_record_def)
  then show ?thesis using enc dec hl clen by (intro exI [of _ ?bs]) simp
qed

end
