(* ===== verification/App_State.thy ===== *)
theory App_State
  imports Hs_Wire Msg_Store Session_Channel
begin

text \<open>
  The state of the facade of \<open>hydra-msg\<close> (\<open>lib.rs\<close>, \<open>handshake/types.rs\<close>, the records of \<open>api/identity.rs\<close> and
  \<open>api/contacts.rs\<close>), the lookups every operation starts with, \<open>persist\<close> of \<open>api/storage.rs\<close>, and the receive-route
  index of \<open>handshake/routing.rs\<close>: two maps that are inverse to each other. A \<open>HashMap\<close> is an association list and
  is iterated in the order of the list; the clock is a number of nanoseconds; what writing the state to the
  profile returns is an argument. The data directory and the lock on it are not modelled.
\<close>

section \<open>Data\<close>

text \<open>\<open>impl Display for SessionError\<close> prints the name of the constructor.\<close>

fun session_error_text :: "SessionError \<Rightarrow> string" where
  "session_error_text SE_InvalidState = ''InvalidState''"
| "session_error_text SE_InvalidEnvelope = ''InvalidEnvelope''"
| "session_error_text SE_InvalidPayload = ''InvalidPayload''"
| "session_error_text SE_AuthenticationFailed = ''AuthenticationFailed''"
| "session_error_text SE_ReplayDetected = ''ReplayDetected''"
| "session_error_text SE_MessageTooOld = ''MessageTooOld''"
| "session_error_text SE_MessageTooFarAhead = ''MessageTooFarAhead''"
| "session_error_text SE_CounterExhausted = ''CounterExhausted''"
| "session_error_text SE_SkippedKeyLimit = ''SkippedKeyLimit''"
| "session_error_text SE_RefreshConflict = ''RefreshConflict''"

definition from_session :: "SessionError + 'a \<Rightarrow> 'a HydraResult" where
  "from_session = map_err (\<lambda>e. HE_Session (session_error_text e))"

type_synonym IdentityId = bytes

record PasswordKdfRecord =
  kdf_profile :: bytes
  kdf_log_n :: u8
  kdf_r :: u32
  kdf_p :: u32
  kdf_salt :: bytes

record IdentityRecord =
  id_id :: IdentityId
  id_label :: bytes
  id_seed :: "bytes option"
  id_public_key :: bytes
  id_password_kdf :: PasswordKdfRecord
  id_password_tag :: bytes
  id_seed_nonce :: bytes
  id_encrypted_seed :: bytes
  id_unlocked :: bool

record HydraContact =
  ct_id :: ContactId
  ct_label :: bytes
  ct_public_key :: bytes
  ct_verified :: bool
  ct_blocked :: bool

datatype HydraSessionStatus = SS_Missing | SS_Pending | SS_Active | SS_Closed

record SessionRecord =
  sr_state :: SessionState
  sr_closed :: bool
  sr_outbound_messages :: u64
  sr_rollback_generation_floor :: u64

datatype HandshakePurpose = HP_Standard | HP_SessionRefresh

record PendingOffer =
  po_contact_id :: ContactId
  po_offer_bytes :: bytes
  po_local_identity_id :: IdentityId
  po_offer :: ParsedHandshakeOffer
  po_x25519_secret :: Secret32
  po_kem_decapsulation_key :: bytes
  po_created_at :: nat
  po_purpose :: HandshakePurpose

record AcceptedInitKey =
  ai_initiator_fingerprint :: bytes
  ai_init_nonce :: bytes
  ai_init_hash :: bytes

record ResponderCandidate =
  cand_material :: HandshakeMaterial

record AcceptedInit =
  ac_contact_id :: ContactId
  ac_local_identity_id :: IdentityId
  ac_response :: bytes
  ac_finish_route_tag :: bytes
  ac_purpose :: HandshakePurpose
  ac_candidate :: "ResponderCandidate option"
  ac_accepted_finish_hash :: "bytes option"
  ac_created_at :: nat

record HydraSessionSecurityPolicy =
  max_outbound_messages_per_session :: "u64 option"

record HydraLobbyPolicy =
  lp_max_members :: nat
  lp_label :: bytes

record HydraLobby =
  lb_id :: LobbyId
  lb_policy :: HydraLobbyPolicy
  lb_members :: "ContactId list"

type_synonym RouteMap = "(bytes \<times> ContactId list) list"

record Hydra =
  hy_identities :: "(IdentityId \<times> IdentityRecord) list"
  hy_active_id :: "IdentityId option"
  hy_contacts :: "(ContactId \<times> HydraContact) list"
  hy_pending_offers :: "(bytes \<times> PendingOffer) list"
  hy_accepted_inits :: "(AcceptedInitKey \<times> AcceptedInit) list"
  hy_sessions :: "(ContactId \<times> SessionRecord) list"
  hy_session_security_policies :: "(ContactId \<times> HydraSessionSecurityPolicy) list"
  hy_receive_routes :: RouteMap
  hy_session_route_tags :: "(ContactId \<times> bytes list) list"
  hy_store :: MessageStore
  hy_lobbies :: "(LobbyId \<times> HydraLobby) list"
  hy_anonymous_auth_secret :: Secret32
  hy_anonymous_auth_spent :: "bytes list"
  hy_anonymous_auth_spent_index :: "bytes set"
  hy_state_key :: Secret32
  hy_state_kdf :: PasswordKdfRecord
  hy_state_generation :: u64
  hy_peer_generation_floors :: "(ContactId \<times> u64) list"
  hy_packet_size :: nat
  hy_pending_fragments :: PendingMap

type_synonym 'a hydra_op = "(Hydra, HydraMsgError, 'a) st"

definition MAX_IDENTITIES :: nat where "MAX_IDENTITIES = 256"
definition MAX_CONTACTS :: nat where "MAX_CONTACTS = 1024"
definition MAX_PENDING_HANDSHAKES :: nat where "MAX_PENDING_HANDSHAKES = 64"
definition MAX_PENDING_HANDSHAKE_AGE_SECS :: nat where "MAX_PENDING_HANDSHAKE_AGE_SECS = 10 * 60"
definition MAX_SESSION_ROUTE_TAGS_PER_SESSION :: nat where "MAX_SESSION_ROUTE_TAGS_PER_SESSION = MAX_SKIP + 1"
definition MAX_SESSION_ROUTE_TAGS :: nat where "MAX_SESSION_ROUTE_TAGS = MAX_CONTACTS * MAX_SESSION_ROUTE_TAGS_PER_SESSION"

section \<open>Lookups\<close>

definition require_contact :: "ContactId \<Rightarrow> Hydra \<Rightarrow> HydraContact HydraResult" where
  "require_contact contact_id h = ok_or (map_of (hy_contacts h) contact_id) HE_ContactNotFound"

definition active_record :: "Hydra \<Rightarrow> IdentityRecord HydraResult" where
  "active_record h =
     rbind (ok_or (hy_active_id h) HE_IdentityNotFound) (\<lambda>i.
       ok_or (map_of (hy_identities h) i) HE_IdentityNotFound)"

definition active_unlocked_record :: "Hydra \<Rightarrow> IdentityRecord HydraResult" where
  "active_unlocked_record h =
     rbind (active_record h) (\<lambda>record.
       if id_unlocked record \<and> id_seed record \<noteq> None then Inr record
       else Inl (HE_InvalidInput ''active identity is locked''))"

definition require_session :: "ContactId \<Rightarrow> Hydra \<Rightarrow> SessionRecord HydraResult" where
  "require_session contact_id h = ok_or (map_of (hy_sessions h) contact_id) HE_SessionNotFound"

section \<open>Writing the state\<close>

text \<open>
  \<open>disk\<close> is the outcome of encoding, sealing and writing the snapshot of the state, at its new generation, and the
  rollback guard; the generation is restored when that fails. The lemmas hold for every \<open>disk\<close>.
\<close>

type_synonym Disk = "Hydra \<Rightarrow> unit HydraResult"

definition persist :: "Disk \<Rightarrow> unit hydra_op" where
  "persist disk h =
     (let previous_generation = hy_state_generation h;
          h' = h\<lparr>hy_state_generation := saturating_add_u64 (hy_state_generation h) 1\<rparr>
      in case disk h' of
           Inr _ \<Rightarrow> (Inr (), h')
         | Inl e \<Rightarrow> (Inl e, h'\<lparr>hy_state_generation := previous_generation\<rparr>))"

section \<open>The receive-route index\<close>

definition remove_route :: "ContactId \<Rightarrow> bytes \<Rightarrow> RouteMap \<Rightarrow> RouteMap" where
  "remove_route contact_id tag routes =
     (case map_of routes tag of
        None \<Rightarrow> routes
      | Some contacts \<Rightarrow>
          let contacts = filter (\<lambda>existing. existing \<noteq> contact_id) contacts in
          if contacts = [] then AList.delete tag routes else AList.update tag contacts routes)"

definition remove_session_routes :: "ContactId \<Rightarrow> Hydra \<Rightarrow> Hydra" where
  "remove_session_routes contact_id h =
     (case map_of (hy_session_route_tags h) contact_id of
        None \<Rightarrow> h
      | Some route_tags \<Rightarrow>
          h\<lparr>hy_session_route_tags := AList.delete contact_id (hy_session_route_tags h),
            hy_receive_routes := fold (remove_route contact_id) route_tags (hy_receive_routes h)\<rparr>)"

definition add_route :: "ContactId \<Rightarrow> bytes \<Rightarrow> RouteMap \<Rightarrow> RouteMap" where
  "add_route contact_id tag routes =
     (let contacts = (case map_of routes tag of None \<Rightarrow> [] | Some contacts \<Rightarrow> contacts) in
      AList.update tag (if contact_id \<in> set contacts then contacts else contacts @ [contact_id]) routes)"

fun indexed_count :: "nat \<Rightarrow> (ContactId \<times> bytes list) list \<Rightarrow> nat option" where
  "indexed_count n [] = Some n"
| "indexed_count n ((c, tags) # rest) =
     (case checked_add_usize n (length tags) of None \<Rightarrow> None | Some m \<Rightarrow> indexed_count m rest)"

definition install_session_route_tags :: "ContactId \<Rightarrow> bytes list \<Rightarrow> unit hydra_op" where
  "install_session_route_tags contact_id route_tags h =
     st_bind (st_lift (
       rbind (ensure (\<not> MAX_SESSION_ROUTE_TAGS_PER_SESSION < length route_tags)
                (HE_InvalidInput ''session receive-route limit'')) (\<lambda>_.
       let unique_tags = remdups route_tags;
           existing_count = (case map_of (hy_session_route_tags h) contact_id of None \<Rightarrow> 0 | Some tags \<Rightarrow> length tags) in
       rbind (ok_or (indexed_count 0 (hy_session_route_tags h)) (HE_InvalidInput ''session receive-route count'')) (\<lambda>indexed.
       rbind (ok_or (case checked_sub_usize indexed existing_count of None \<Rightarrow> None
                     | Some n \<Rightarrow> checked_add_usize n (length unique_tags))
                (HE_InvalidInput ''session receive-route count'')) (\<lambda>new_total.
       rbind (ensure (\<not> MAX_SESSION_ROUTE_TAGS < new_total) (HE_InvalidInput ''session receive-route limit'')) (\<lambda>_.
         Inr unique_tags)))))) (\<lambda>unique_tags.
     st_bind (st_modify (remove_session_routes contact_id)) (\<lambda>_.
       st_modify (\<lambda>h. h\<lparr>hy_receive_routes := fold (add_route contact_id) unique_tags (hy_receive_routes h),
         hy_session_route_tags := AList.update contact_id unique_tags (hy_session_route_tags h)\<rparr>))) h"

definition refresh_session_routes :: "CryptoPrims \<Rightarrow> ContactId \<Rightarrow> unit hydra_op" where
  "refresh_session_routes P contact_id h =
     (case map_of (hy_sessions h) contact_id of
        Some session \<Rightarrow>
          if \<not> sr_closed session then
            st_bind (st_lift (from_session (candidate_receive_route_tags P (sr_state session))))
              (install_session_route_tags contact_id) h
          else st_modify (remove_session_routes contact_id) h
      | None \<Rightarrow> st_modify (remove_session_routes contact_id) h)"

definition route_bucket :: "bytes \<Rightarrow> Hydra \<Rightarrow> ContactId list" where
  "route_bucket tag h = (case map_of (hy_receive_routes h) tag of None \<Rightarrow> [] | Some contacts \<Rightarrow> contacts)"

definition receive_route_candidates :: "bytes \<Rightarrow> Hydra \<Rightarrow> ContactId list HydraResult" where
  "receive_route_candidates env h =
     rbind (map_err (\<lambda>_. HE_Session (session_error_text SE_InvalidEnvelope)) (decode_outer_header env)) (\<lambda>header.
       Inr (route_bucket (route_tag header) h))"

definition receive_compact_route_candidates :: "bytes \<Rightarrow> Hydra \<Rightarrow> ContactId list HydraResult" where
  "receive_compact_route_candidates env h =
     rbind (map_err (\<lambda>_. HE_Session (session_error_text SE_InvalidEnvelope)) (decode_outer_header_prefix env)) (\<lambda>header.
       Inr (route_bucket (route_tag header) h))"

definition install_session :: "CryptoPrims \<Rightarrow> ContactId \<Rightarrow> SessionState \<Rightarrow> unit hydra_op" where
  "install_session P contact_id state =
     st_bind (st_lift (from_session (candidate_receive_route_tags P state))) (\<lambda>route_tags.
     st_bind (install_session_route_tags contact_id route_tags) (\<lambda>_.
       st_modify (\<lambda>h.
         let rollback_generation_floor =
           (case map_of (hy_peer_generation_floors h) contact_id of None \<Rightarrow> 0 | Some n \<Rightarrow> n) in
         h\<lparr>hy_sessions := AList.update contact_id
             \<lparr>sr_state = state, sr_closed = False, sr_outbound_messages = 0,
              sr_rollback_generation_floor = rollback_generation_floor\<rparr> (hy_sessions h)\<rparr>)))"

section \<open>Burning sessions\<close>

text \<open>\<open>HashMap::retain\<close> with a test of the value.\<close>

definition retain :: "('v \<Rightarrow> bool) \<Rightarrow> ('k \<times> 'v) list \<Rightarrow> ('k \<times> 'v) list" where
  "retain keep m = filter (\<lambda>(k, v). keep v) m"

definition burn_contact_session :: "ContactId \<Rightarrow> Hydra \<Rightarrow> Hydra" where
  "burn_contact_session contact_id h =
     (let h = remove_session_routes contact_id h in
      h\<lparr>hy_sessions := AList.delete contact_id (hy_sessions h),
        hy_pending_offers := retain (\<lambda>p. po_contact_id p \<noteq> contact_id) (hy_pending_offers h),
        hy_accepted_inits := retain (\<lambda>a. ac_contact_id a \<noteq> contact_id) (hy_accepted_inits h)\<rparr>)"

definition burn_all_sessions :: "Hydra \<Rightarrow> Hydra" where
  "burn_all_sessions h =
     (let h = fold remove_session_routes (map fst (hy_sessions h)) h in
      h\<lparr>hy_sessions := [], hy_pending_offers := [], hy_accepted_inits := []\<rparr>)"

section \<open>Buckets\<close>

definition bucket_of :: "RouteMap \<Rightarrow> bytes \<Rightarrow> ContactId list" where
  "bucket_of routes tag = (case map_of routes tag of None \<Rightarrow> [] | Some contacts \<Rightarrow> contacts)"

definition routes_wf :: "RouteMap \<Rightarrow> bool" where
  "routes_wf routes \<longleftrightarrow> distinct (map fst routes) \<and>
     (\<forall>tag contacts. map_of routes tag = Some contacts \<longrightarrow> contacts \<noteq> [] \<and> distinct contacts)"

lemma route_bucket_eq: "route_bucket tag h = bucket_of (hy_receive_routes h) tag"
  by (simp add: route_bucket_def bucket_of_def)

lemma bucket_of_update [simp]: "bucket_of (AList.update t cs routes) = (bucket_of routes)(t := cs)"
  by (auto simp: bucket_of_def update_conv')

lemma routes_wf_update: "routes_wf routes \<Longrightarrow> cs \<noteq> [] \<Longrightarrow> distinct cs \<Longrightarrow> routes_wf (AList.update t cs routes)"
  by (auto simp: routes_wf_def update_conv' distinct_update)

lemma remove_route_bucket:
  assumes wf: "routes_wf routes"
  shows "routes_wf (remove_route c t routes)"
    and "bucket_of (remove_route c t routes) = (bucket_of routes)(t := filter (\<lambda>e. e \<noteq> c) (bucket_of routes t))"
proof -
  consider (none) "map_of routes t = None" | (some) cs where "map_of routes t = Some cs" by (cases "map_of routes t") auto
  then have "routes_wf (remove_route c t routes) \<and>
      bucket_of (remove_route c t routes) = (bucket_of routes)(t := filter (\<lambda>e. e \<noteq> c) (bucket_of routes t))"
  proof cases
    case none
    then show ?thesis using wf by (simp add: remove_route_def bucket_of_def fun_eq_iff)
  next
    case (some cs)
    let ?cs = "filter (\<lambda>e. e \<noteq> c) cs"
    have b: "bucket_of routes t = cs" using some by (simp add: bucket_of_def)
    show ?thesis
    proof (cases "?cs = []")
      case True
      have "routes_wf (AList.delete t routes)" using wf by (simp add: routes_wf_def distinct_delete delete_conv')
      moreover have "bucket_of (AList.delete t routes) = (bucket_of routes)(t := [])"
        by (simp add: bucket_of_def delete_conv' fun_eq_iff)
      ultimately show ?thesis using True some b unfolding remove_route_def by simp
    next
      case False
      have "distinct cs" using wf some unfolding routes_wf_def by blast
      then have "routes_wf (AList.update t ?cs routes)" using False wf by (intro routes_wf_update) simp_all
      then show ?thesis using False some b unfolding remove_route_def by simp
    qed
  qed
  then show "routes_wf (remove_route c t routes)"
    and "bucket_of (remove_route c t routes) = (bucket_of routes)(t := filter (\<lambda>e. e \<noteq> c) (bucket_of routes t))" by blast+
qed

lemma bucket_distinct: "routes_wf routes \<Longrightarrow> distinct (bucket_of routes t)"
  unfolding routes_wf_def bucket_of_def by (cases "map_of routes t") auto

lemma add_route_bucket:
  assumes wf: "routes_wf routes"
  shows "routes_wf (add_route c t routes)"
    and "bucket_of (add_route c t routes) =
      (bucket_of routes)(t := if c \<in> set (bucket_of routes t) then bucket_of routes t else bucket_of routes t @ [c])"
proof -
  have eq: "add_route c t routes =
      AList.update t (if c \<in> set (bucket_of routes t) then bucket_of routes t else bucket_of routes t @ [c]) routes"
    unfolding add_route_def bucket_of_def Let_def ..
  show "routes_wf (add_route c t routes)"
    using bucket_distinct [OF wf, of t] unfolding eq by (intro routes_wf_update [OF wf]) auto
  show "bucket_of (add_route c t routes) =
      (bucket_of routes)(t := if c \<in> set (bucket_of routes t) then bucket_of routes t else bucket_of routes t @ [c])"
    unfolding eq by simp
qed

lemma remove_routes_bucket:
  assumes "routes_wf routes"
  shows "routes_wf (fold (remove_route c) ts routes)"
    and "bucket_of (fold (remove_route c) ts routes) t =
      (if t \<in> set ts then filter (\<lambda>e. e \<noteq> c) (bucket_of routes t) else bucket_of routes t)"
  using assms by (induction ts arbitrary: routes) (auto simp: remove_route_bucket)

lemma add_routes_bucket:
  assumes "routes_wf routes"
  shows "routes_wf (fold (add_route c) ts routes)"
    and "bucket_of (fold (add_route c) ts routes) t =
      (if t \<in> set ts \<and> c \<notin> set (bucket_of routes t) then bucket_of routes t @ [c] else bucket_of routes t)"
  using assms by (induction ts arbitrary: routes) (auto simp: add_route_bucket)

section \<open>The two maps are inverse\<close>

definition tags_of :: "ContactId \<Rightarrow> Hydra \<Rightarrow> bytes list" where
  "tags_of c h = (case map_of (hy_session_route_tags h) c of None \<Rightarrow> [] | Some tags \<Rightarrow> tags)"

definition index_size :: "Hydra \<Rightarrow> nat" where
  "index_size h = sum_list (map (\<lambda>(c, tags). length tags) (hy_session_route_tags h))"

definition route_index_ok :: "Hydra \<Rightarrow> bool" where
  "route_index_ok h \<longleftrightarrow> routes_wf (hy_receive_routes h) \<and> distinct (map fst (hy_session_route_tags h)) \<and>
     (\<forall>c. distinct (tags_of c h) \<and> length (tags_of c h) \<le> MAX_SESSION_ROUTE_TAGS_PER_SESSION) \<and>
     (\<forall>t c. c \<in> set (route_bucket t h) \<longleftrightarrow> t \<in> set (tags_of c h)) \<and> index_size h \<le> MAX_SESSION_ROUTE_TAGS"

lemma indexed_count_Some: "indexed_count n m = Some k \<Longrightarrow> k = n + sum_list (map (\<lambda>(c, tags). length tags) m)"
  by (induction n m rule: indexed_count.induct) (auto simp: checked_add_usize_def split: if_splits)

lemma sum_list_delete:
  assumes "distinct (map fst m)"
  shows "sum_list (map (\<lambda>(c, v). f v) m) =
     sum_list (map (\<lambda>(c, v). f v) (AList.delete k m)) + (case map_of m k of None \<Rightarrow> 0 | Some v \<Rightarrow> (f v :: nat))"
  using assms
proof (induction m)
  case (Cons p m)
  obtain a v where p: "p = (a, v)" by fastforce
  show ?case
  proof (cases "a = k")
    case True
    then have "AList.delete k m = m" using Cons.prems p by (intro delete_id) simp
    then show ?thesis using True p by simp
  next
    case False
    then show ?thesis using Cons p by simp
  qed
qed simp

lemma sum_list_update:
  assumes "distinct (map fst m)" and "map_of m k = None"
  shows "sum_list (map (\<lambda>(c, v). f v) (AList.update k w m)) = sum_list (map (\<lambda>(c, v). f v) m) + (f w :: nat)"
  using assms by (induction m) auto

lemma remove_session_routes_effect:
  assumes ok: "route_index_ok h"
  shows "route_index_ok (remove_session_routes c h)"
    and "set (route_bucket t (remove_session_routes c h)) = set (route_bucket t h) - {c}"
    and "tags_of d (remove_session_routes c h) = (if d = c then [] else tags_of d h)"
    and "index_size h = index_size (remove_session_routes c h) + length (tags_of c h)"
    and "map_of (hy_session_route_tags (remove_session_routes c h)) c = None"
proof -
  have wf: "routes_wf (hy_receive_routes h)" and dk: "distinct (map fst (hy_session_route_tags h))"
    and tags: "distinct (tags_of d h)" "length (tags_of d h) \<le> MAX_SESSION_ROUTE_TAGS_PER_SESSION"
    and inv: "d \<in> set (route_bucket t h) \<longleftrightarrow> t \<in> set (tags_of d h)" and size: "index_size h \<le> MAX_SESSION_ROUTE_TAGS" for d t
    using ok unfolding route_index_ok_def by blast+
  let ?h = "remove_session_routes c h"
  have t: "tags_of d ?h = (if d = c then [] else tags_of d h)" for d
    by (auto simp: remove_session_routes_def tags_of_def delete_conv' split: option.splits)
  have b: "set (route_bucket t ?h) = set (route_bucket t h) - {c}" for t
  proof (cases "map_of (hy_session_route_tags h) c")
    case None
    then have "c \<notin> set (route_bucket t h)" using inv by (simp add: tags_of_def)
    then show ?thesis using None by (simp add: remove_session_routes_def)
  next
    case (Some ts)
    then have ts: "tags_of c h = ts" by (simp add: tags_of_def)
    have "set (route_bucket t ?h) = (if t \<in> set ts then set (route_bucket t h) - {c} else set (route_bucket t h))"
      using Some by (auto simp: remove_session_routes_def route_bucket_eq remove_routes_bucket [OF wf])
    then show ?thesis using inv [of c t] ts by auto
  qed
  have s: "index_size h = index_size ?h + length (tags_of c h)"
    using sum_list_delete [OF dk, of length c]
    by (cases "map_of (hy_session_route_tags h) c") (auto simp: remove_session_routes_def index_size_def tags_of_def)
  have w: "routes_wf (hy_receive_routes ?h)" "distinct (map fst (hy_session_route_tags ?h))"
    using wf dk by (cases "map_of (hy_session_route_tags h) c"; simp add: remove_session_routes_def remove_routes_bucket distinct_delete)+
  show "route_index_ok ?h"
    unfolding route_index_ok_def
  proof (intro conjI allI)
    show "d \<in> set (route_bucket t ?h) \<longleftrightarrow> t \<in> set (tags_of d ?h)" for t d using b t inv by simp
    show "distinct (tags_of d ?h)" and "length (tags_of d ?h) \<le> MAX_SESSION_ROUTE_TAGS_PER_SESSION" for d
      using t tags by simp_all
    show "index_size ?h \<le> MAX_SESSION_ROUTE_TAGS" using s size by simp
  qed (use w in simp_all)
  show "set (route_bucket t ?h) = set (route_bucket t h) - {c}" by (rule b)
  show "tags_of d ?h = (if d = c then [] else tags_of d h)" by (rule t)
  show "index_size h = index_size ?h + length (tags_of c h)" by (rule s)
  show "map_of (hy_session_route_tags ?h) c = None"
    by (cases "map_of (hy_session_route_tags h) c") (simp_all add: remove_session_routes_def delete_conv')
qed

text \<open>What an installation of route tags leaves alone, and its outcome.\<close>

definition same_but_routes :: "Hydra \<Rightarrow> Hydra \<Rightarrow> bool" where
  "same_but_routes h h' \<longleftrightarrow> h' = h\<lparr>hy_receive_routes := hy_receive_routes h', hy_session_route_tags := hy_session_route_tags h'\<rparr>"

lemma remove_session_routes_same: "same_but_routes h (remove_session_routes c h)"
  by (cases "map_of (hy_session_route_tags h) c") (simp_all add: remove_session_routes_def same_but_routes_def)

lemma install_routes_error: "install_session_route_tags c tags h = (Inl e, h') \<Longrightarrow> h' = h"
  by (auto simp: install_session_route_tags_def st_bind_Inl_iff st_lift_iff st_modify_iff)

lemma install_routes_Inr:
  assumes "install_session_route_tags c tags h = (Inr (), h')"
  shows "length tags \<le> MAX_SESSION_ROUTE_TAGS_PER_SESSION"
    and "index_size h - length (tags_of c h) + length (remdups tags) \<le> MAX_SESSION_ROUTE_TAGS"
    and "h' = (let g = remove_session_routes c h in g\<lparr>hy_receive_routes := fold (add_route c) (remdups tags) (hy_receive_routes g),
         hy_session_route_tags := AList.update c (remdups tags) (hy_session_route_tags g)\<rparr>)"
proof -
  have n: "indexed = index_size h" if "indexed_count 0 (hy_session_route_tags h) = Some indexed" for indexed
    using indexed_count_Some [OF that] by (simp add: index_size_def)
  have e: "(case map_of (hy_session_route_tags h) c of None \<Rightarrow> 0 | Some tags \<Rightarrow> length tags) = length (tags_of c h)"
    by (simp add: tags_of_def split: option.split)
  show "length tags \<le> MAX_SESSION_ROUTE_TAGS_PER_SESSION"
    and "index_size h - length (tags_of c h) + length (remdups tags) \<le> MAX_SESSION_ROUTE_TAGS"
    and "h' = (let g = remove_session_routes c h in g\<lparr>hy_receive_routes := fold (add_route c) (remdups tags) (hy_receive_routes g),
         hy_session_route_tags := AList.update c (remdups tags) (hy_session_route_tags g)\<rparr>)"
    using assms unfolding install_session_route_tags_def e
    by (auto simp: result_simps Let_def checked_sub_usize_def checked_add_usize_def dest!: n split: option.splits if_splits)
qed

lemma install_routes_effect:
  assumes ok: "route_index_ok h" and inst: "install_session_route_tags c tags h = (Inr (), h')"
  shows "route_index_ok h'" and "tags_of d h' = (if d = c then remdups tags else tags_of d h)"
    and "set (route_bucket t h') = (set (route_bucket t h) - {c}) \<union> (if t \<in> set tags then {c} else {})"
    and "same_but_routes h h'"
proof -
  let ?g = "remove_session_routes c h"
  note i = install_routes_Inr [OF inst] and g = remove_session_routes_effect [OF ok, where c = c]
  have wf: "routes_wf (hy_receive_routes ?g)" and dk: "distinct (map fst (hy_session_route_tags ?g))"
    and tags: "distinct (tags_of d ?g)" "length (tags_of d ?g) \<le> MAX_SESSION_ROUTE_TAGS_PER_SESSION"
    and inv: "d \<in> set (route_bucket t ?g) \<longleftrightarrow> t \<in> set (tags_of d ?g)" for d t
    using g(1) unfolding route_index_ok_def by blast+
  have t: "tags_of d h' = (if d = c then remdups tags else tags_of d h)" for d
    using g(3) [of d] by (auto simp: i(3) Let_def tags_of_def update_conv' split: option.splits if_splits)
  have b: "set (route_bucket t h') = (set (route_bucket t h) - {c}) \<union> (if t \<in> set tags then {c} else {})" for t
    using g(2) [of t] by (auto simp: i(3) Let_def route_bucket_eq add_routes_bucket [OF wf])
  have s: "index_size h' = index_size ?g + length (remdups tags)"
    using sum_list_update [OF dk g(5), of length "remdups tags"] by (simp add: i(3) Let_def index_size_def)
  have w: "routes_wf (hy_receive_routes h')" "distinct (map fst (hy_session_route_tags h'))"
    using dk by (simp_all add: i(3) Let_def add_routes_bucket [OF wf] distinct_update)
  show "route_index_ok h'"
    unfolding route_index_ok_def
  proof (intro conjI allI)
    show "d \<in> set (route_bucket t h') \<longleftrightarrow> t \<in> set (tags_of d h')" for t d
      using b t inv [of d t] g(2,3) by (cases "d = c") auto
    have "length (remdups tags) \<le> MAX_SESSION_ROUTE_TAGS_PER_SESSION" using i(1) length_remdups_leq [of tags] by linarith
    then show "distinct (tags_of d h')" and "length (tags_of d h') \<le> MAX_SESSION_ROUTE_TAGS_PER_SESSION" for d
      using t tags [of d] g(3) [of d] by auto
    show "index_size h' \<le> MAX_SESSION_ROUTE_TAGS" using i(2) g(4) s by simp
  qed (use w in simp_all)
  show "tags_of d h' = (if d = c then remdups tags else tags_of d h)" by (rule t)
  show "set (route_bucket t h') = (set (route_bucket t h) - {c}) \<union> (if t \<in> set tags then {c} else {})" by (rule b)
  show "same_but_routes h h'"
    by (cases "map_of (hy_session_route_tags h) c") (simp_all add: i(3) Let_def same_but_routes_def remove_session_routes_def)
qed

section \<open>The index follows the sessions\<close>

text \<open>Every contact in the index has an open session, and is indexed under the tags that session answers to now.\<close>

definition open_session :: "Hydra \<Rightarrow> ContactId \<Rightarrow> SessionState option" where
  "open_session h c = (case map_of (hy_sessions h) c of None \<Rightarrow> None
     | Some session \<Rightarrow> if sr_closed session then None else Some (sr_state session))"

definition current_tags :: "CryptoPrims \<Rightarrow> Hydra \<Rightarrow> ContactId \<Rightarrow> bytes set" where
  "current_tags P h c = (case open_session h c of None \<Rightarrow> {}
     | Some s \<Rightarrow> (case candidate_receive_route_tags P s of Inl _ \<Rightarrow> {} | Inr tags \<Rightarrow> set tags))"

definition index_current :: "CryptoPrims \<Rightarrow> Hydra \<Rightarrow> bool" where
  "index_current P h \<longleftrightarrow> (\<forall>c. tags_of c h \<noteq> [] \<longrightarrow> open_session h c \<noteq> None \<and> set (tags_of c h) = current_tags P h c)"

definition routing_ok :: "CryptoPrims \<Rightarrow> Hydra \<Rightarrow> bool" where
  "routing_ok P h \<longleftrightarrow> route_index_ok h \<and> index_current P h"

lemma routing_okD: "routing_ok P h \<Longrightarrow> route_index_ok h" "routing_ok P h \<Longrightarrow> index_current P h"
  by (simp_all add: routing_ok_def)

text \<open>The part of the state the index depends on.\<close>

definition same_routing :: "Hydra \<Rightarrow> Hydra \<Rightarrow> bool" where
  "same_routing h h' \<longleftrightarrow> hy_receive_routes h' = hy_receive_routes h \<and>
     hy_session_route_tags h' = hy_session_route_tags h \<and> hy_sessions h' = hy_sessions h"

lemma same_routingD:
  assumes "same_routing h h'"
  shows "tags_of c h' = tags_of c h" and "route_bucket t h' = route_bucket t h" and "index_size h' = index_size h"
    and "open_session h' c = open_session h c" and "current_tags P h' c = current_tags P h c"
    and "hy_receive_routes h' = hy_receive_routes h" and "hy_session_route_tags h' = hy_session_route_tags h"
  using assms by (simp_all add: same_routing_def tags_of_def route_bucket_def index_size_def open_session_def current_tags_def)

lemma routing_ok_cong:
  assumes "same_routing h h'" and "routing_ok P h"
  shows "routing_ok P h'"
  using assms(2) unfolding routing_ok_def route_index_ok_def index_current_def same_routingD [OF assms(1)] .

lemma same_but_routesD:
  assumes "same_but_routes h h'"
  shows "hy_sessions h' = hy_sessions h" and "hy_contacts h' = hy_contacts h" and "hy_pending_offers h' = hy_pending_offers h"
    and "hy_accepted_inits h' = hy_accepted_inits h" and "hy_peer_generation_floors h' = hy_peer_generation_floors h"
    and "hy_identities h' = hy_identities h" and "hy_active_id h' = hy_active_id h" and "hy_store h' = hy_store h"
    and "hy_state_generation h' = hy_state_generation h" and "hy_packet_size h' = hy_packet_size h"
    and "hy_pending_fragments h' = hy_pending_fragments h" and "hy_session_security_policies h' = hy_session_security_policies h"
    and "hy_lobbies h' = hy_lobbies h"
  by (subst assms [unfolded same_but_routes_def], simp)+

lemma current_tags_cong: "hy_sessions h' = hy_sessions h \<Longrightarrow> current_tags P h' c = current_tags P h c"
  "hy_sessions h' = hy_sessions h \<Longrightarrow> open_session h' c = open_session h c"
  by (simp_all add: current_tags_def open_session_def)

lemma routing_ok_remove:
  assumes "routing_ok P h"
  shows "routing_ok P (remove_session_routes c h)"
proof -
  note eq = remove_session_routes_effect [OF routing_okD(1) [OF assms], where c = c]
    current_tags_cong [OF same_but_routesD(1) [OF remove_session_routes_same]]
  show ?thesis
    using routing_okD(2) [OF assms] unfolding routing_ok_def index_current_def eq by (simp add: eq)
qed

text \<open>Changing or dropping the session of a contact that has no tags, and reinstalling its tags.\<close>

lemma index_current_frame:
  assumes "index_current P h" and "tags_of c h' = []" and "\<And>d. d \<noteq> c \<Longrightarrow> tags_of d h' = tags_of d h"
    and "\<And>d. d \<noteq> c \<Longrightarrow> map_of (hy_sessions h') d = map_of (hy_sessions h) d"
  shows "index_current P h'"
proof -
  have "tags_of d h' \<noteq> [] \<longrightarrow> open_session h' d \<noteq> None \<and> set (tags_of d h') = current_tags P h' d" for d
  proof (cases "d = c")
    case False
    have "open_session h' d = open_session h d" "current_tags P h' d = current_tags P h d"
      using assms(4) [OF False] by (simp_all add: open_session_def current_tags_def)
    then show ?thesis using assms(1) assms(3) [OF False] unfolding index_current_def by simp
  qed (simp add: assms(2))
  then show ?thesis unfolding index_current_def by blast
qed

lemma index_current_install:
  assumes "index_current P h" and "open_session h' c = Some s" and "candidate_receive_route_tags P s = Inr tags"
    and "set (tags_of c h') = set tags" and "\<And>d. d \<noteq> c \<Longrightarrow> tags_of d h' = tags_of d h"
    and "\<And>d. d \<noteq> c \<Longrightarrow> map_of (hy_sessions h') d = map_of (hy_sessions h) d"
  shows "index_current P h'"
proof -
  have "tags_of d h' \<noteq> [] \<longrightarrow> open_session h' d \<noteq> None \<and> set (tags_of d h') = current_tags P h' d" for d
  proof (cases "d = c")
    case False
    have "open_session h' d = open_session h d" "current_tags P h' d = current_tags P h d"
      using assms(6) [OF False] by (simp_all add: open_session_def current_tags_def)
    then show ?thesis using assms(1) assms(5) [OF False] unfolding index_current_def by simp
  qed (use assms(2-4) in \<open>simp add: current_tags_def\<close>)
  then show ?thesis unfolding index_current_def by blast
qed

lemma install_session_effect:
  assumes ok: "routing_ok P h" and inst: "install_session P c s h = (Inr (), h')"
  shows "routing_ok P h'" and "\<exists>tags. candidate_receive_route_tags P s = Inr tags \<and> tags_of c h' = remdups tags"
    and "map_of (hy_sessions h') = (map_of (hy_sessions h))(c \<mapsto> \<lparr>sr_state = s, sr_closed = False, sr_outbound_messages = 0,
      sr_rollback_generation_floor = (case map_of (hy_peer_generation_floors h) c of None \<Rightarrow> 0 | Some n \<Rightarrow> n)\<rparr>)"
    and "\<exists>g. same_but_routes h g \<and> h' = g\<lparr>hy_sessions := hy_sessions h'\<rparr>"
proof -
  obtain tags g where tags: "candidate_receive_route_tags P s = Inr tags"
    and g: "install_session_route_tags c tags h = (Inr (), g)"
    and h': "h' = g\<lparr>hy_sessions := AList.update c \<lparr>sr_state = s, sr_closed = False, sr_outbound_messages = 0,
       sr_rollback_generation_floor = (case map_of (hy_peer_generation_floors g) c of None \<Rightarrow> 0 | Some n \<Rightarrow> n)\<rparr> (hy_sessions g)\<rparr>"
    using inst by (auto simp: install_session_def result_simps from_session_def map_err_Inr_iff Let_def)
  note e = install_routes_effect [OF routing_okD(1) [OF ok] g]
  note same = same_but_routesD [OF e(4)]
  have t: "tags_of d h' = tags_of d g" "route_bucket t h' = route_bucket t g" "index_size h' = index_size g"
    "hy_receive_routes h' = hy_receive_routes g" "hy_session_route_tags h' = hy_session_route_tags g" for d t
    by (simp_all add: h' tags_of_def route_bucket_def index_size_def)
  have "route_index_ok h'" using e(1) unfolding route_index_ok_def t .
  moreover have "index_current P h'"
  proof (rule index_current_install [OF routing_okD(2) [OF ok] _ tags])
    show "open_session h' c = Some s" by (simp add: h' open_session_def update_conv')
    show "set (tags_of c h') = set tags" by (simp add: t e(2))
    show "tags_of d h' = tags_of d h" if "d \<noteq> c" for d using that by (simp add: t e(2))
    show "map_of (hy_sessions h') d = map_of (hy_sessions h) d" if "d \<noteq> c" for d
      using that by (simp add: h' update_conv' same)
  qed
  ultimately show "routing_ok P h'" by (simp add: routing_ok_def)
  show "\<exists>tags. candidate_receive_route_tags P s = Inr tags \<and> tags_of c h' = remdups tags" using tags e(2) by (simp add: t)
  show "map_of (hy_sessions h') = (map_of (hy_sessions h))(c \<mapsto> \<lparr>sr_state = s, sr_closed = False, sr_outbound_messages = 0,
      sr_rollback_generation_floor = (case map_of (hy_peer_generation_floors h) c of None \<Rightarrow> 0 | Some n \<Rightarrow> n)\<rparr>)"
    by (simp add: h' update_conv' same)
  show "\<exists>g. same_but_routes h g \<and> h' = g\<lparr>hy_sessions := hy_sessions h'\<rparr>"
    using e(4) h' by (intro exI [of _ g]) simp
qed

lemma install_session_error: "install_session P c s h = (Inl e, h') \<Longrightarrow> h' = h"
  by (auto simp: install_session_def st_bind_Inl_iff st_lift_iff st_modify_iff dest: install_routes_error)

lemma refresh_routes_error: "refresh_session_routes P c h = (Inl e, h') \<Longrightarrow> h' = h"
  by (auto simp: refresh_session_routes_def st_bind_Inl_iff st_lift_iff st_modify_iff dest: install_routes_error
      split: option.splits if_splits)

end
