(* ===== verification/App_Codec.thy ===== *)
theory App_Codec
  imports App_State
begin

text \<open>
  The text codecs of the facade: the key-derivation record of \<open>codec/kdf.rs\<close>, contact lines and cards of
  \<open>codec/contacts.rs\<close>, identity lines and exports of \<open>codec/identity.rs\<close>, lobby lines, invites and payloads of
  \<open>codec/lobbies.rs\<close>, tokens of \<open>codec/auth.rs\<close>, the policy value of \<open>handshake/security.rs\<close>. Text is a list of
  UTF-8 bytes; an iterator over the lines of a text is the list of the lines left. The package \<open>scrypt\<close> is an
  argument.
\<close>

section \<open>Text\<close>

definition HASH_SIZE :: nat where [simp]: "HASH_SIZE = 32"

fun split_once :: "u8 \<Rightarrow> bytes \<Rightarrow> (bytes \<times> bytes) option" where
  "split_once c [] = None"
| "split_once c (x # xs) = (if x = c then Some ([], xs) else map_option (\<lambda>(a, b). (x # a, b)) (split_once c xs))"

definition strip_prefix :: "bytes \<Rightarrow> bytes \<Rightarrow> bytes option" where
  "strip_prefix prefix s = (if starts_with s prefix then Some (drop (length prefix) s) else None)"

definition parse_uint :: "nat \<Rightarrow> bytes \<Rightarrow> nat option" where
  "parse_uint mx s = (case parse_u64 s of None \<Rightarrow> None | Some n \<Rightarrow> if n \<le> mx then Some n else None)"

definition validate_label_input :: "bytes \<Rightarrow> string \<Rightarrow> unit HydraResult" where
  "validate_label_input value description = reject_input_size (length value) MAX_LABEL_BYTES description"

definition validate_label_encoding :: "bytes \<Rightarrow> string \<Rightarrow> unit HydraResult" where
  "validate_label_encoding value description = reject_encoded_size (length value) MAX_LABEL_BYTES description"

definition decode_fixed_hex :: "nat \<Rightarrow> bytes \<Rightarrow> string \<Rightarrow> bytes HydraResult" where
  "decode_fixed_hex n value description =
     rbind (ensure (length value = n * 2) (HE_InvalidEncoding description)) (\<lambda>_.
     rbind (hex_decode value) (exact_array_from_vec n))"

definition decode_label :: "bytes \<Rightarrow> string \<Rightarrow> string \<Rightarrow> bytes HydraResult" where
  "decode_label value size_description utf8_description =
     rbind (reject_encoded_size (length value) (MAX_LABEL_BYTES * 2) size_description) (\<lambda>_.
     rbind (hex_decode value) (\<lambda>bs.
     rbind (from_utf8 bs (HE_InvalidEncoding utf8_description)) (\<lambda>label.
     rbind (validate_label_encoding label size_description) (\<lambda>_. Inr label))))"

section \<open>Key derivation\<close>

definition KDF_ALGORITHM_SCRYPT :: bytes where "KDF_ALGORITHM_SCRYPT = ascii ''scrypt''"
definition KDF_PROFILE_MOBILE :: bytes where "KDF_PROFILE_MOBILE = ascii ''mobile''"
definition KDF_PROFILE_INTERACTIVE :: bytes where "KDF_PROFILE_INTERACTIVE = ascii ''interactive''"
definition KDF_PROFILE_HIGH_SECURITY :: bytes where "KDF_PROFILE_HIGH_SECURITY = ascii ''high-security''"
definition MAX_PASSWORD_BYTES :: nat where "MAX_PASSWORD_BYTES = 1024"

definition params_for_profile :: "bytes \<Rightarrow> (u8 \<times> u32 \<times> u32) HydraResult" where
  "params_for_profile profile =
     (if profile = KDF_PROFILE_MOBILE \<or> profile = KDF_PROFILE_INTERACTIVE then Inr (17, 8, 1)
      else if profile = KDF_PROFILE_HIGH_SECURITY then Inr (18, 8, 1)
      else Inl (HE_Unsupported ''kdf profile''))"

definition legacy_params_for_profile :: "bytes \<Rightarrow> (u8 \<times> u32 \<times> u32) HydraResult" where
  "legacy_params_for_profile profile =
     (if profile = KDF_PROFILE_MOBILE then Inr (13, 8, 1)
      else if profile = KDF_PROFILE_INTERACTIVE then Inr (14, 8, 1)
      else if profile = KDF_PROFILE_HIGH_SECURITY then Inr (15, 8, 1)
      else Inl (HE_Unsupported ''kdf profile''))"

definition kdf_params :: "PasswordKdfRecord \<Rightarrow> u8 \<times> u32 \<times> u32" where
  "kdf_params kdf = (kdf_log_n kdf, kdf_r kdf, kdf_p kdf)"

definition kdf_validate :: "PasswordKdfRecord \<Rightarrow> unit HydraResult" where
  "kdf_validate kdf =
     rbind (params_for_profile (kdf_profile kdf)) (\<lambda>current.
     rbind (legacy_params_for_profile (kdf_profile kdf)) (\<lambda>legacy.
     rbind (ensure (\<not> (kdf_params kdf \<noteq> current \<and> kdf_params kdf \<noteq> legacy)) (HE_InvalidEncoding ''kdf parameters'')) (\<lambda>_.
       ensure (kdf_salt kdf \<noteq> replicate 32 0) (HE_InvalidEncoding ''kdf salt''))))"

definition kdf_needs_upgrade :: "PasswordKdfRecord \<Rightarrow> bool HydraResult" where
  "kdf_needs_upgrade kdf =
     rbind (kdf_validate kdf) (\<lambda>_.
     rbind (params_for_profile (kdf_profile kdf)) (\<lambda>current. Inr (kdf_params kdf \<noteq> current)))"

definition kdf_with_salt :: "bytes \<Rightarrow> bytes \<Rightarrow> PasswordKdfRecord HydraResult" where
  "kdf_with_salt profile salt =
     rbind (params_for_profile profile) (\<lambda>(log_n, r, p).
       Inr \<lparr>kdf_profile = profile, kdf_log_n = log_n, kdf_r = r, kdf_p = p, kdf_salt = salt\<rparr>)"

definition kdf_new_interactive :: "bytes option \<Rightarrow> PasswordKdfRecord HydraResult" where
  "kdf_new_interactive entropy = rbind (ok_or entropy HE_EntropyUnavailable) (kdf_with_salt KDF_PROFILE_INTERACTIVE)"

text \<open>The package \<open>scrypt\<close>: which parameters it takes, and the key for a password and a salt.\<close>

record Scrypt =
  sc_params_ok :: "u8 \<times> u32 \<times> u32 \<Rightarrow> bool"
  sc_derive :: "bytes \<Rightarrow> bytes \<Rightarrow> u8 \<times> u32 \<times> u32 \<Rightarrow> bytes option"

definition derive_password_key :: "Scrypt \<Rightarrow> bytes \<Rightarrow> bytes \<Rightarrow> PasswordKdfRecord \<Rightarrow> Secret32 HydraResult" where
  "derive_password_key S label password kdf =
     rbind (ensure (password \<noteq> []) HE_InvalidPassword) (\<lambda>_.
     rbind (ensure (\<not> MAX_PASSWORD_BYTES < length password) (HE_InvalidInput ''password size'')) (\<lambda>_.
     rbind (kdf_validate kdf) (\<lambda>_.
     rbind (ensure (sc_params_ok S (kdf_params kdf)) (HE_InvalidEncoding ''kdf parameters'')) (\<lambda>_.
       ok_or (sc_derive S (label @ [0] @ password) (kdf_salt kdf) (kdf_params kdf)) (HE_Crypto ''scrypt KDF failed'')))))"

definition decode_kdf_salt :: "bytes \<Rightarrow> bytes HydraResult" where
  "decode_kdf_salt value =
     rbind (ensure (length value = 64) (HE_InvalidEncoding ''kdf salt'')) (\<lambda>_.
     rbind (hex_decode value) (exact_array_from_vec 32))"

definition encode_kdf_columns :: "PasswordKdfRecord \<Rightarrow> bytes list" where
  "encode_kdf_columns kdf =
     [KDF_ALGORITHM_SCRYPT, kdf_profile kdf, decimal (unat (kdf_log_n kdf)), decimal (unat (kdf_r kdf)),
      decimal (unat (kdf_p kdf)), hex_encode (kdf_salt kdf)]"

definition parse_kdf_columns :: "bytes list \<Rightarrow> PasswordKdfRecord HydraResult" where
  "parse_kdf_columns parts =
     rbind (ensure (\<not> (length parts \<noteq> 6 \<or> parts ! 0 \<noteq> KDF_ALGORITHM_SCRYPT \<or> 32 < length (parts ! 1)))
              (HE_InvalidEncoding ''kdf columns'')) (\<lambda>_.
     rbind (ok_or (parse_uint 255 (parts ! 2)) (HE_InvalidEncoding ''kdf log_n'')) (\<lambda>log_n.
     rbind (ok_or (parse_uint u32_max (parts ! 3)) (HE_InvalidEncoding ''kdf r'')) (\<lambda>r.
     rbind (ok_or (parse_uint u32_max (parts ! 4)) (HE_InvalidEncoding ''kdf p'')) (\<lambda>p.
     rbind (decode_kdf_salt (parts ! 5)) (\<lambda>salt.
     let kdf = \<lparr>kdf_profile = parts ! 1, kdf_log_n = of_nat log_n, kdf_r = of_nat r, kdf_p = of_nat p, kdf_salt = salt\<rparr> in
     rbind (kdf_validate kdf) (\<lambda>_. Inr kdf))))))"

definition encode_kdf_fields :: "PasswordKdfRecord \<Rightarrow> bytes" where
  "encode_kdf_fields kdf = concat (map (\<lambda>(name, value). ascii name @ [9] @ value @ [10])
     [(''kdf'', KDF_ALGORITHM_SCRYPT), (''kdf_profile'', kdf_profile kdf), (''kdf_log_n'', decimal (unat (kdf_log_n kdf))),
      (''kdf_r'', decimal (unat (kdf_r kdf))), (''kdf_p'', decimal (unat (kdf_p kdf))), (''kdf_salt'', hex_encode (kdf_salt kdf))])"

type_synonym 'a line_op = "(bytes list, HydraMsgError, 'a) st"

definition next_line :: "string \<Rightarrow> bytes line_op" where
  "next_line description lines = (case lines of [] \<Rightarrow> (Inl (HE_InvalidEncoding description), []) | l # rest \<Rightarrow> (Inr l, rest))"

definition required_field :: "string \<Rightarrow> string \<Rightarrow> bytes line_op" where
  "required_field name description =
     st_bind (next_line description) (\<lambda>line.
     st_bind (st_lift (ok_or (split_once 9 line) (HE_InvalidEncoding ''kdf field''))) (\<lambda>(got, value).
       st_lift (if got = ascii name then Inr value else Inl (HE_InvalidEncoding ''kdf field name''))))"

definition decode_kdf_fields :: "PasswordKdfRecord line_op" where
  "decode_kdf_fields =
     st_bind (required_field ''kdf'' ''kdf algorithm'') (\<lambda>algorithm.
     st_bind (st_lift (ensure (algorithm = KDF_ALGORITHM_SCRYPT) (HE_Unsupported ''kdf algorithm''))) (\<lambda>_.
     st_bind (required_field ''kdf_profile'' ''kdf profile'') (\<lambda>profile.
     st_bind (st_lift (ensure (\<not> 32 < length profile) (HE_InvalidEncoding ''kdf profile''))) (\<lambda>_.
     st_bind (required_field ''kdf_log_n'' ''kdf log_n'') (\<lambda>log_n.
     st_bind (st_lift (ok_or (parse_uint 255 log_n) (HE_InvalidEncoding ''kdf log_n''))) (\<lambda>log_n.
     st_bind (required_field ''kdf_r'' ''kdf r'') (\<lambda>r.
     st_bind (st_lift (ok_or (parse_uint u32_max r) (HE_InvalidEncoding ''kdf r''))) (\<lambda>r.
     st_bind (required_field ''kdf_p'' ''kdf p'') (\<lambda>p.
     st_bind (st_lift (ok_or (parse_uint u32_max p) (HE_InvalidEncoding ''kdf p''))) (\<lambda>p.
     st_bind (required_field ''kdf_salt'' ''kdf salt'') (\<lambda>salt.
     st_bind (st_lift (decode_kdf_salt salt)) (\<lambda>salt.
     let kdf = \<lparr>kdf_profile = profile, kdf_log_n = of_nat log_n, kdf_r = of_nat r, kdf_p = of_nat p, kdf_salt = salt\<rparr> in
     st_bind (st_lift (kdf_validate kdf)) (\<lambda>_.
       st_lift (Inr kdf))))))))))))))"

section \<open>Contacts\<close>

definition bool_text :: "bool \<Rightarrow> bytes" where
  "bool_text b = (if b then ascii ''1'' else ascii ''0'')"

definition parse_bool :: "bytes \<Rightarrow> bool HydraResult" where
  "parse_bool value = (if value = ascii ''0'' then Inr False else if value = ascii ''1'' then Inr True
     else Inl (HE_InvalidEncoding ''contact boolean''))"

definition encode_contact_line :: "HydraContact \<Rightarrow> bytes" where
  "encode_contact_line contact = join_with 9
     [ascii ''contact'', hex_encode (ct_id contact), hex_encode (ct_label contact), hex_encode (ct_public_key contact),
      bool_text (ct_verified contact), bool_text (ct_blocked contact)]"

text \<open>\<open>required_part\<close> on the fields a split gives, in turn.\<close>

definition required_part :: "bytes list \<Rightarrow> nat \<Rightarrow> string \<Rightarrow> bytes HydraResult" where
  "required_part parts i description = (if i < length parts then Inr (parts ! i) else Inl (HE_InvalidEncoding description))"

definition decode_contact_line :: "CryptoPrims \<Rightarrow> bytes \<Rightarrow> HydraContact HydraResult" where
  "decode_contact_line P line =
     (let parts = split_on 9 line in
      rbind (ensure (hd parts = ascii ''contact'') (HE_InvalidEncoding ''contact state record'')) (\<lambda>_.
      rbind (required_part parts 1 ''contact id'') (\<lambda>id_hex.
      rbind (ensure (length id_hex = HASH_SIZE * 2) (HE_InvalidEncoding ''contact id size'')) (\<lambda>_.
      rbind (rbind (hex_decode id_hex) (exact_array_from_vec HASH_SIZE)) (\<lambda>cid.
      rbind (required_part parts 2 ''contact label'') (\<lambda>label_hex.
      rbind (decode_label label_hex ''contact label size'' ''contact label'') (\<lambda>label.
      rbind (required_part parts 3 ''contact public key'') (\<lambda>public_key_hex.
      rbind (reject_encoded_size (length public_key_hex) (ML_DSA_65_VK_SIZE * 2) ''contact public key size'') (\<lambda>_.
      rbind (rbind (hex_decode public_key_hex) (exact_array_from_vec ML_DSA_65_VK_SIZE)) (\<lambda>public_key.
      rbind (rbind (required_part parts 4 ''contact verified'') parse_bool) (\<lambda>verified.
      rbind (rbind (required_part parts 5 ''contact blocked'') parse_bool) (\<lambda>blocked.
      rbind (ensure (length parts \<le> 6) (HE_InvalidEncoding ''contact state record'')) (\<lambda>_.
      rbind (ensure (cid = sha3_256 P public_key) (HE_InvalidEncoding ''contact fingerprint mismatch'')) (\<lambda>_.
        Inr \<lparr>ct_id = cid, ct_label = label, ct_public_key = public_key, ct_verified = verified, ct_blocked = blocked\<rparr>))))))))))))))"

definition CONTACT_CARD_MAGIC :: bytes where "CONTACT_CARD_MAGIC = ascii ''HYDRA-MSG-CONTACT''"
definition MAX_CONTACT_CARD_BYTES :: nat where "MAX_CONTACT_CARD_BYTES = 16 * 1024"

definition encode_contact_card :: "bytes option \<Rightarrow> bytes \<Rightarrow> bytes" where
  "encode_contact_card label public_key =
     CONTACT_CARD_MAGIC @ [10] @ ascii ''public_key:'' @ hex_encode public_key @ [10] @
     (case label of None \<Rightarrow> [] | Some label \<Rightarrow>
        if str_trim label = [] then [] else ascii ''label:'' @ hex_encode (str_trim label) @ [10])"

text \<open>The loop over the lines of a card, with the fields found so far.\<close>

record CardFields =
  cf_label :: "bytes option"
  cf_public_key :: "bytes option"
  cf_count :: nat

fun card_lines :: "bytes list \<Rightarrow> CardFields \<Rightarrow> CardFields HydraResult" where
  "card_lines [] f = Inr f"
| "card_lines (line # lines) f =
     (if str_trim line = [] then card_lines lines f
      else
        rbind (ensure (\<not> 2 < cf_count f + 1) (HE_InvalidEncoding ''contact card field count'')) (\<lambda>_.
        case strip_prefix (ascii ''label:'') line of
          Some value \<Rightarrow>
            rbind (ensure (cf_label f = None) (HE_InvalidEncoding ''duplicate contact card label'')) (\<lambda>_.
            rbind (decode_label value ''contact label size'' ''contact card label'') (\<lambda>decoded.
              card_lines lines (f\<lparr>cf_label := Some decoded, cf_count := cf_count f + 1\<rparr>)))
        | None \<Rightarrow>
          (case strip_prefix (ascii ''public_key:'') line of
             Some value \<Rightarrow>
               rbind (ensure (cf_public_key f = None) (HE_InvalidEncoding ''duplicate contact public key'')) (\<lambda>_.
               rbind (reject_encoded_size (length value) (ML_DSA_65_VK_SIZE * 2) ''contact public key size'') (\<lambda>_.
               rbind (rbind (hex_decode value) (exact_array_from_vec ML_DSA_65_VK_SIZE)) (\<lambda>public_key.
                 card_lines lines (f\<lparr>cf_public_key := Some public_key, cf_count := cf_count f + 1\<rparr>))))
           | None \<Rightarrow> Inl (HE_InvalidEncoding ''contact card field''))))"

definition decode_contact_card :: "CryptoPrims \<Rightarrow> bytes \<Rightarrow> HydraContact HydraResult" where
  "decode_contact_card P bs =
     rbind (reject_encoded_size (length bs) MAX_CONTACT_CARD_BYTES ''contact card size'') (\<lambda>_.
     rbind (from_utf8 bs (HE_InvalidEncoding ''contact card utf-8'')) (\<lambda>text_bytes.
     let lines = str_lines text_bytes in
     rbind (ensure (lines \<noteq> [] \<and> hd lines = CONTACT_CARD_MAGIC) (HE_InvalidEncoding ''contact card magic'')) (\<lambda>_.
     rbind (card_lines (tl lines) \<lparr>cf_label = None, cf_public_key = None, cf_count = 0\<rparr>) (\<lambda>f.
     rbind (ok_or (cf_public_key f) (HE_InvalidEncoding ''contact public key'')) (\<lambda>public_key.
       Inr \<lparr>ct_id = sha3_256 P public_key, ct_label = (case cf_label f of None \<Rightarrow> [] | Some label \<Rightarrow> label),
         ct_public_key = public_key, ct_verified = False, ct_blocked = False\<rparr>)))))"

fun chunks :: "nat \<Rightarrow> bytes \<Rightarrow> bytes list" where
  "chunks n xs = (if xs = [] \<or> n = 0 then [] else take n xs # chunks n (drop n xs))"

declare chunks.simps [simp del]

definition safety_code_for_contact :: "ContactId \<Rightarrow> bytes" where
  "safety_code_for_contact contact_id = join_with 45 (take 6 (chunks 4 (hex_encode contact_id)))"

text \<open>\<open>ContactId::from_hex\<close> and the same function of the other identifiers.\<close>

definition id_from_hex :: "string \<Rightarrow> bytes \<Rightarrow> bytes HydraResult" where
  "id_from_hex description hex = decode_fixed_hex HASH_SIZE hex description"

end
