(* ===== verification/App_Records.thy ===== *)
theory App_Records
  imports App_Codec Group_Types
begin

text \<open>
  The records of the facade beside its contacts: identities (\<open>codec/identity.rs\<close>), lobbies, their invites and the
  payload of a lobby message (\<open>codec/lobbies.rs\<close>), anonymous authorization tokens (\<open>codec/auth.rs\<close> and the policy
  checks of \<open>api/anonymous_auth.rs\<close>), and the text form of a session security policy (\<open>handshake/security.rs\<close>).
\<close>

section \<open>Identities\<close>

definition IDENTITY_SEED_KEY_LABEL :: bytes where "IDENTITY_SEED_KEY_LABEL = ascii ''HYDRA-MSG/facade/identity-seed-key''"
definition IDENTITY_PASSWORD_TAG_LABEL :: bytes where
  "IDENTITY_PASSWORD_TAG_LABEL = ascii ''HYDRA-MSG/facade/identity-password-tag''"
definition ENCRYPTED_SEED_AAD :: bytes where "ENCRYPTED_SEED_AAD = ascii ''HYDRA-MSG/facade/encrypted-seed''"
definition ID_EXPORT_MAGIC :: bytes where "ID_EXPORT_MAGIC = ascii ''HYDRA-MSG-ID'' @ [10]"
definition MAX_IDENTITY_EXPORT_BYTES :: nat where "MAX_IDENTITY_EXPORT_BYTES = 1024"

definition derive_identity_seed_key :: "Scrypt \<Rightarrow> bytes \<Rightarrow> PasswordKdfRecord \<Rightarrow> Secret32 HydraResult" where
  "derive_identity_seed_key S password kdf = derive_password_key S IDENTITY_SEED_KEY_LABEL password kdf"

definition encrypt_seed_with_key :: "CryptoPrims \<Rightarrow> Secret32 \<Rightarrow> bytes \<Rightarrow> bytes \<Rightarrow> bytes HydraResult" where
  "encrypt_seed_with_key P key seed nonce = from_crypto (aead_seal P key nonce ENCRYPTED_SEED_AAD seed)"

definition password_tag :: "CryptoPrims \<Rightarrow> IdentityId \<Rightarrow> Secret32 \<Rightarrow> bytes" where
  "password_tag P i key = hmac_sha3_256 P key (IDENTITY_PASSWORD_TAG_LABEL @ i)"

definition verified_identity_seed_key :: "CryptoPrims \<Rightarrow> Scrypt \<Rightarrow> IdentityRecord \<Rightarrow> bytes \<Rightarrow> Secret32 HydraResult" where
  "verified_identity_seed_key P S record password =
     rbind (derive_identity_seed_key S password (id_password_kdf record)) (\<lambda>key.
       if id_password_tag record = password_tag P (id_id record) key then Inr key else Inl HE_InvalidPassword)"

definition decrypt_seed :: "CryptoPrims \<Rightarrow> Scrypt \<Rightarrow> IdentityRecord \<Rightarrow> bytes \<Rightarrow> bytes HydraResult" where
  "decrypt_seed P S record password =
     rbind (verified_identity_seed_key P S record password) (\<lambda>key.
     rbind (from_crypto (aead_open P key (id_seed_nonce record) ENCRYPTED_SEED_AAD (id_encrypted_seed record))) (\<lambda>plaintext.
       exact_array_from_vec 32 plaintext))"

definition verify_password :: "CryptoPrims \<Rightarrow> Scrypt \<Rightarrow> IdentityRecord \<Rightarrow> bytes \<Rightarrow> unit HydraResult" where
  "verify_password P S record password = rbind (verified_identity_seed_key P S record password) (\<lambda>_. Inr ())"

text \<open>The salt and the nonce are drawn.\<close>

definition identity_record_from_seed ::
    "CryptoPrims \<Rightarrow> Scrypt \<Rightarrow> bytes option \<Rightarrow> bytes option \<Rightarrow> bytes \<Rightarrow> bytes \<Rightarrow> bytes \<Rightarrow> bool \<Rightarrow> IdentityRecord HydraResult" where
  "identity_record_from_seed P S salt seed_nonce label seed password unlocked =
     rbind (from_crypto (mldsa_from_seed P seed)) (\<lambda>(signing_key, public_key).
     let i = sha3_256 P public_key in
     rbind (kdf_new_interactive salt) (\<lambda>kdf.
     rbind (derive_identity_seed_key S password kdf) (\<lambda>seed_key.
     rbind (ok_or seed_nonce HE_EntropyUnavailable) (\<lambda>nonce.
     rbind (encrypt_seed_with_key P seed_key seed nonce) (\<lambda>encrypted_seed.
       Inr \<lparr>id_id = i, id_label = label, id_seed = (if unlocked then Some seed else None), id_public_key = public_key,
         id_password_kdf = kdf, id_password_tag = password_tag P i seed_key, id_seed_nonce = nonce,
         id_encrypted_seed = encrypted_seed, id_unlocked = unlocked\<rparr>)))))"

definition rewrap_identity_record_with_kdf ::
    "CryptoPrims \<Rightarrow> Scrypt \<Rightarrow> bytes option \<Rightarrow> bytes \<Rightarrow> bytes \<Rightarrow> PasswordKdfRecord \<Rightarrow> IdentityRecord \<Rightarrow> IdentityRecord HydraResult" where
  "rewrap_identity_record_with_kdf P S nonce old_password new_password kdf record =
     rbind (decrypt_seed P S record old_password) (\<lambda>seed.
     rbind (derive_identity_seed_key S new_password kdf) (\<lambda>seed_key.
     rbind (ok_or nonce HE_EntropyUnavailable) (\<lambda>seed_nonce.
     rbind (encrypt_seed_with_key P seed_key seed seed_nonce) (\<lambda>encrypted_seed.
       Inr (record\<lparr>id_password_kdf := kdf, id_password_tag := password_tag P (id_id record) seed_key,
         id_seed_nonce := seed_nonce, id_encrypted_seed := encrypted_seed,
         id_seed := (if id_unlocked record then Some seed else None)\<rparr>)))))"

definition rewrap_identity_record ::
    "CryptoPrims \<Rightarrow> Scrypt \<Rightarrow> bytes option \<Rightarrow> bytes option \<Rightarrow> bytes \<Rightarrow> bytes \<Rightarrow> IdentityRecord \<Rightarrow> IdentityRecord HydraResult" where
  "rewrap_identity_record P S salt nonce old_password new_password record =
     rbind (kdf_new_interactive salt) (\<lambda>kdf.
       rewrap_identity_record_with_kdf P S nonce old_password new_password kdf record)"

definition encode_identity_line :: "IdentityRecord \<Rightarrow> bytes" where
  "encode_identity_line record = join_with 9
     ([ascii ''identity'', hex_encode (id_id record), hex_encode (id_label record), hex_encode (id_public_key record)] @
      encode_kdf_columns (id_password_kdf record) @
      [hex_encode (id_password_tag record), hex_encode (id_seed_nonce record), hex_encode (id_encrypted_seed record)])"

definition decode_identity_line :: "CryptoPrims \<Rightarrow> bytes \<Rightarrow> IdentityRecord HydraResult" where
  "decode_identity_line P line =
     (let parts = take 14 (split_on 9 line) in
      rbind (ensure (\<not> (length parts \<noteq> 13 \<or> parts ! 0 \<noteq> ascii ''identity'')) (HE_InvalidEncoding ''identity state record'')) (\<lambda>_.
      rbind (reject_encoded_size (length (parts ! 1)) (HASH_SIZE * 2) ''identity id size'') (\<lambda>_.
      rbind (decode_fixed_hex HASH_SIZE (parts ! 1) ''identity id size'') (\<lambda>i.
      rbind (decode_label (parts ! 2) ''identity label size'' ''identity label'') (\<lambda>label.
      rbind (decode_fixed_hex ML_DSA_65_VK_SIZE (parts ! 3) ''identity public key size'') (\<lambda>public_key.
      rbind (ensure (i = sha3_256 P public_key) (HE_InvalidEncoding ''identity fingerprint mismatch'')) (\<lambda>_.
      rbind (parse_kdf_columns (take 6 (drop 4 parts))) (\<lambda>kdf.
      rbind (decode_fixed_hex 32 (parts ! 10) ''identity password tag'') (\<lambda>tag.
      rbind (decode_fixed_hex 12 (parts ! 11) ''identity seed nonce'') (\<lambda>nonce.
      rbind (reject_encoded_size (length (parts ! 12)) 128 ''encrypted identity seed size'') (\<lambda>_.
      rbind (hex_decode (parts ! 12)) (\<lambda>encrypted_seed.
      rbind (ensure (length encrypted_seed = 48) (HE_InvalidEncoding ''encrypted identity seed size'')) (\<lambda>_.
        Inr \<lparr>id_id = i, id_label = label, id_seed = None, id_public_key = public_key, id_password_kdf = kdf,
          id_password_tag = tag, id_seed_nonce = nonce, id_encrypted_seed = encrypted_seed, id_unlocked = False\<rparr>)))))))))))))"

definition encode_identity_export :: "bytes \<Rightarrow> bytes" where
  "encode_identity_export seed = ID_EXPORT_MAGIC @ hex_encode seed @ [10]"

definition decode_identity_export :: "bytes \<Rightarrow> bytes HydraResult" where
  "decode_identity_export bs =
     rbind (reject_encoded_size (length bs) MAX_IDENTITY_EXPORT_BYTES ''identity export size'') (\<lambda>_.
     rbind (ensure (starts_with bs ID_EXPORT_MAGIC) (HE_InvalidEncoding ''identity export magic'')) (\<lambda>_.
     rbind (from_utf8 (drop (length ID_EXPORT_MAGIC) bs) (HE_InvalidEncoding ''identity export utf-8'')) (\<lambda>text_bytes.
       decode_fixed_hex 32 (str_trim text_bytes) ''identity export seed'')))"

section \<open>Lobbies\<close>

definition LOBBY_INVITE_MAGIC :: bytes where "LOBBY_INVITE_MAGIC = ascii ''HYDRA-MSG-LOBBY-INVITE''"
definition LOBBY_PAYLOAD_MAGIC :: bytes where "LOBBY_PAYLOAD_MAGIC = ascii ''HYDRA-MSG-LOBBY-PAYLOAD'' @ [10]"
definition MAX_LOBBY_INVITE_BYTES :: nat where "MAX_LOBBY_INVITE_BYTES = 64 * 1024"

definition validate_lobby_policy :: "HydraLobbyPolicy \<Rightarrow> unit HydraResult" where
  "validate_lobby_policy policy =
     rbind (ensure (lp_max_members policy \<noteq> 0) (HE_InvalidInput ''lobby max_members must be greater than zero'')) (\<lambda>_.
     rbind (ensure (\<not> max_roster_entries GM_Interactive < lp_max_members policy)
              (HE_InvalidInput ''lobby max_members exceeds HYDRA group limit'')) (\<lambda>_.
       validate_label_input (lp_label policy) ''lobby label size''))"

definition validate_decoded_lobby_member_limit :: "nat \<Rightarrow> unit HydraResult" where
  "validate_decoded_lobby_member_limit max_members =
     ensure (\<not> (max_members = 0 \<or> max_roster_entries GM_Interactive < max_members)) (HE_InvalidEncoding ''lobby max_members'')"

fun member_fields :: "nat \<Rightarrow> bytes list \<Rightarrow> ContactId list \<Rightarrow> ContactId list HydraResult" where
  "member_fields max_members [] members = Inr members"
| "member_fields max_members (member # rest) members =
     rbind (ensure (\<not> max_members \<le> length members) (HE_InvalidEncoding ''lobby member count'')) (\<lambda>_.
     rbind (reject_encoded_size (length member) (HASH_SIZE * 2) ''lobby member id size'') (\<lambda>_.
     rbind (rbind (hex_decode member) (exact_array_from_vec HASH_SIZE)) (\<lambda>contact_id.
     rbind (ensure (contact_id \<notin> set members) (HE_InvalidEncoding ''duplicate lobby member'')) (\<lambda>_.
       member_fields max_members rest (members @ [contact_id])))))"

definition decode_member_list :: "bytes \<Rightarrow> nat \<Rightarrow> ContactId list HydraResult" where
  "decode_member_list value max_members = (if value = [] then Inr [] else member_fields max_members (split_on 44 value) [])"

definition encode_lobby_line :: "HydraLobby \<Rightarrow> bytes" where
  "encode_lobby_line lobby = join_with 9
     [ascii ''lobby'', hex_encode (lb_id lobby), hex_encode (lp_label (lb_policy lobby)),
      decimal (lp_max_members (lb_policy lobby)), join_with 44 (map hex_encode (lb_members lobby))]"

definition decode_lobby_line :: "bytes \<Rightarrow> HydraLobby HydraResult" where
  "decode_lobby_line line =
     (let parts = take 6 (split_on 9 line) in
      rbind (ensure (\<not> (length parts \<noteq> 5 \<or> parts ! 0 \<noteq> ascii ''lobby'')) (HE_InvalidEncoding ''lobby state record'')) (\<lambda>_.
      rbind (decode_fixed_hex HASH_SIZE (parts ! 1) ''lobby id size'') (\<lambda>i.
      rbind (decode_label (parts ! 2) ''lobby label size'' ''lobby label'') (\<lambda>label.
      rbind (ok_or (parse_uint usize_max (parts ! 3)) (HE_InvalidEncoding ''lobby max_members'')) (\<lambda>max_members.
      rbind (validate_decoded_lobby_member_limit max_members) (\<lambda>_.
      rbind (decode_member_list (parts ! 4) max_members) (\<lambda>members.
        Inr \<lparr>lb_id = i, lb_policy = \<lparr>lp_max_members = max_members, lp_label = label\<rparr>, lb_members = members\<rparr>)))))))"

definition encode_lobby_invite :: "HydraLobby \<Rightarrow> bool \<Rightarrow> ContactId list option \<Rightarrow> bytes" where
  "encode_lobby_invite lobby include_label members =
     LOBBY_INVITE_MAGIC @ [10] @ ascii ''id:'' @ hex_encode (lb_id lobby) @ [10] @ ascii ''max_members:'' @
     decimal (lp_max_members (lb_policy lobby)) @
     (if include_label \<and> str_trim (lp_label (lb_policy lobby)) \<noteq> []
      then [10] @ ascii ''label:'' @ hex_encode (str_trim (lp_label (lb_policy lobby))) else []) @
     (case members of None \<Rightarrow> []
      | Some members \<Rightarrow> if members = [] then [] else [10] @ ascii ''members:'' @ join_with 44 (map hex_encode members)) @ [10]"

text \<open>The loop over the lines of an invite, with the fields found so far.\<close>

record InviteFields =
  if_id :: "LobbyId option"
  if_label :: "bytes option"
  if_max_members :: "nat option"
  if_members :: "bytes option"

definition set_once :: "'a option \<Rightarrow> string \<Rightarrow> unit HydraResult" where
  "set_once slot description = ensure (slot = None) (HE_InvalidEncoding description)"

definition invite_line :: "bytes \<Rightarrow> InviteFields \<Rightarrow> InviteFields HydraResult" where
  "invite_line line f =
     (case strip_prefix (ascii ''id:'') line of
        Some value \<Rightarrow>
          rbind (decode_fixed_hex HASH_SIZE value ''lobby invite id size'') (\<lambda>i.
          rbind (set_once (if_id f) ''lobby invite id'') (\<lambda>_. Inr (f\<lparr>if_id := Some i\<rparr>)))
      | None \<Rightarrow>
      case strip_prefix (ascii ''label:'') line of
        Some value \<Rightarrow>
          rbind (decode_label value ''lobby invite label size'' ''lobby invite label'') (\<lambda>label.
          rbind (set_once (if_label f) ''lobby invite label'') (\<lambda>_. Inr (f\<lparr>if_label := Some label\<rparr>)))
      | None \<Rightarrow>
      case strip_prefix (ascii ''max_members:'') line of
        Some value \<Rightarrow>
          rbind (ok_or (parse_uint usize_max value) (HE_InvalidEncoding ''lobby invite max_members'')) (\<lambda>n.
          rbind (validate_decoded_lobby_member_limit n) (\<lambda>_.
          rbind (set_once (if_max_members f) ''lobby invite max_members'') (\<lambda>_. Inr (f\<lparr>if_max_members := Some n\<rparr>))))
      | None \<Rightarrow>
      case strip_prefix (ascii ''members:'') line of
        Some value \<Rightarrow>
          rbind (set_once (if_members f) ''lobby invite members'') (\<lambda>_. Inr (f\<lparr>if_members := Some value\<rparr>))
      | None \<Rightarrow> Inl (HE_InvalidEncoding ''lobby invite field''))"

fun invite_lines :: "bytes list \<Rightarrow> InviteFields \<Rightarrow> InviteFields HydraResult" where
  "invite_lines [] f = Inr f"
| "invite_lines (line # lines) f =
     (if str_trim line = [] then invite_lines lines f else rbind (invite_line line f) (invite_lines lines))"

definition decode_lobby_invite :: "bytes \<Rightarrow> HydraLobby HydraResult" where
  "decode_lobby_invite bs =
     rbind (reject_encoded_size (length bs) MAX_LOBBY_INVITE_BYTES ''lobby invite size'') (\<lambda>_.
     rbind (from_utf8 bs (HE_InvalidEncoding ''lobby invite is not utf-8'')) (\<lambda>text_bytes.
     let lines = str_lines text_bytes in
     rbind (ensure (lines \<noteq> [] \<and> hd lines = LOBBY_INVITE_MAGIC) (HE_InvalidEncoding ''lobby invite magic'')) (\<lambda>_.
     rbind (invite_lines (tl lines) \<lparr>if_id = None, if_label = None, if_max_members = None, if_members = None\<rparr>) (\<lambda>f.
     rbind (ok_or (if_max_members f) (HE_InvalidEncoding ''lobby invite max_members'')) (\<lambda>max_members.
     rbind (decode_member_list (case if_members f of None \<Rightarrow> [] | Some v \<Rightarrow> v) max_members) (\<lambda>members.
     rbind (ok_or (if_id f) (HE_InvalidEncoding ''lobby invite id'')) (\<lambda>i.
       Inr \<lparr>lb_id = i, lb_policy = \<lparr>lp_max_members = max_members, lp_label = (case if_label f of None \<Rightarrow> [] | Some l \<Rightarrow> l)\<rparr>,
         lb_members = members\<rparr>)))))))"

definition pack_lobby_payload :: "LobbyId \<Rightarrow> bytes \<Rightarrow> bytes HydraResult" where
  "pack_lobby_payload lobby_id packed_message =
     rbind (reject_encoded_size (length packed_message) MAX_PACKED_MESSAGE_BYTES ''packed lobby message size'') (\<lambda>_.
     rbind (ok_or (checked_add_usize (length LOBBY_PAYLOAD_MAGIC + HASH_SIZE + 8) (length packed_message))
              (HE_InvalidInput ''lobby payload size'')) (\<lambda>capacity.
     rbind (ensure (\<not> MAX_FRAGMENTED_PAYLOAD_BYTES < capacity) (HE_InvalidInput ''lobby payload size'')) (\<lambda>_.
       Inr (LOBBY_PAYLOAD_MAGIC @ lobby_id @ be_bytes 8 (of_nat (length packed_message) :: u64) @ packed_message))))"

definition read_lobby_payload :: "(LobbyId \<times> bytes) reader" where
  "read_lobby_payload =
     st_bind (reader_expect LOBBY_PAYLOAD_MAGIC) (\<lambda>_.
     st_bind (read_array HASH_SIZE) (\<lambda>lobby_id.
     st_bind read_u64 (\<lambda>message_len.
     st_bind (st_lift (reject_encoded_size (unat message_len) MAX_PACKED_MESSAGE_BYTES ''packed lobby message size'')) (\<lambda>_.
     st_bind (read_vec (unat message_len)) (\<lambda>packed_message.
       st_lift (Inr (lobby_id, packed_message)))))))"

definition unpack_lobby_payload :: "bytes \<Rightarrow> (LobbyId \<times> bytes) HydraResult" where
  "unpack_lobby_payload bs =
     rbind (reject_encoded_size (length bs) MAX_FRAGMENTED_PAYLOAD_BYTES ''lobby payload size'') (\<lambda>_.
       fst (st_bind read_lobby_payload (\<lambda>v r. st_lift (
         rbind (ensure (is_finished r) (HE_InvalidEncoding ''lobby payload trailing bytes'')) (\<lambda>_. Inr v)) r) (BytesReader_new bs)))"

section \<open>Anonymous authorization\<close>

definition AUTH_TOKEN_MAGIC :: bytes where "AUTH_TOKEN_MAGIC = ascii ''HYDRA-MSG-AUTH-TOKEN''"
definition MAX_ANONYMOUS_AUTH_TOKEN_BYTES :: nat where "MAX_ANONYMOUS_AUTH_TOKEN_BYTES = 4 * 1024"
definition MAX_ANONYMOUS_AUTH_SPENT :: nat where "MAX_ANONYMOUS_AUTH_SPENT = 100000"

record HydraAnonymousAuthPolicy =
  au_scope :: bytes
  au_action :: bytes
  au_expires_at :: "u64 option"

record ParsedAnonymousAuthToken =
  at_policy :: HydraAnonymousAuthPolicy
  at_nonce :: bytes
  at_tag :: bytes

definition validate_anonymous_auth_field :: "bytes \<Rightarrow> string \<Rightarrow> unit HydraResult" where
  "validate_anonymous_auth_field value name =
     (let trimmed = str_trim value in
      rbind (ensure (trimmed \<noteq> []) (HE_InvalidInput name)) (\<lambda>_.
        ensure (\<not> 256 < length trimmed) (HE_InvalidInput name)))"

definition validate_anonymous_auth_policy :: "HydraAnonymousAuthPolicy \<Rightarrow> unit HydraResult" where
  "validate_anonymous_auth_policy policy =
     rbind (validate_anonymous_auth_field (au_scope policy) ''anonymous authorization scope'') (\<lambda>_.
       validate_anonymous_auth_field (au_action policy) ''anonymous authorization action'')"

definition encode_anonymous_auth_token :: "HydraAnonymousAuthPolicy \<Rightarrow> bytes \<Rightarrow> bytes \<Rightarrow> bytes" where
  "encode_anonymous_auth_token policy nonce tag =
     AUTH_TOKEN_MAGIC @ [10] @ ascii ''scope'' @ [9] @ hex_encode (au_scope policy) @
     [10] @ ascii ''action'' @ [9] @ hex_encode (au_action policy) @ [10] @ ascii ''expires_at'' @ [9] @
     (case au_expires_at policy of Some expires_at \<Rightarrow> decimal (unat expires_at) | None \<Rightarrow> ascii ''none'') @
     [10] @ ascii ''nonce'' @ [9] @ hex_encode nonce @ [10] @ ascii ''tag'' @ [9] @ hex_encode tag @ [10]"

definition decode_string_field :: "bytes \<Rightarrow> bytes HydraResult" where
  "decode_string_field value =
     rbind (reject_encoded_size (length value) (MAX_LABEL_BYTES * 2) ''anonymous auth token text size'') (\<lambda>_.
     rbind (hex_decode value) (\<lambda>bs. from_utf8 bs (HE_InvalidEncoding ''anonymous auth token text'')))"

definition decode_expiry :: "bytes \<Rightarrow> u64 option HydraResult" where
  "decode_expiry value =
     (if value = ascii ''none'' then Inr None
      else rbind (ok_or (parse_u64 value) (HE_InvalidEncoding ''anonymous auth token expiry'')) (\<lambda>n. Inr (Some (of_nat n))))"

definition token_fields :: "ParsedAnonymousAuthToken line_op" where
  "token_fields =
     st_bind (st_bind (required_field ''scope'' ''anonymous auth token scope'') (\<lambda>v. st_lift (decode_string_field v))) (\<lambda>scope.
     st_bind (st_bind (required_field ''action'' ''anonymous auth token action'') (\<lambda>v. st_lift (decode_string_field v))) (\<lambda>action.
     st_bind (st_bind (required_field ''expires_at'' ''anonymous auth token expiry'') (\<lambda>v. st_lift (decode_expiry v))) (\<lambda>expires_at.
     st_bind (st_bind (required_field ''nonce'' ''anonymous auth token nonce'')
       (\<lambda>v. st_lift (decode_fixed_hex 32 v ''anonymous auth token nonce''))) (\<lambda>nonce.
     st_bind (st_bind (required_field ''tag'' ''anonymous auth token tag'')
       (\<lambda>v. st_lift (decode_fixed_hex 32 v ''anonymous auth token tag''))) (\<lambda>tag.
       st_lift (Inr \<lparr>at_policy = \<lparr>au_scope = scope, au_action = action, au_expires_at = expires_at\<rparr>, at_nonce = nonce, at_tag = tag\<rparr>))))))"

definition decode_anonymous_auth_token :: "bytes \<Rightarrow> ParsedAnonymousAuthToken HydraResult" where
  "decode_anonymous_auth_token bs =
     rbind (reject_encoded_size (length bs) MAX_ANONYMOUS_AUTH_TOKEN_BYTES ''anonymous auth token size'') (\<lambda>_.
     rbind (from_utf8 bs (HE_InvalidEncoding ''anonymous auth token utf-8'')) (\<lambda>text_bytes.
       fst (st_bind (next_line ''anonymous auth token magic'') (\<lambda>magic.
            st_bind (st_lift (ensure (magic = AUTH_TOKEN_MAGIC) (HE_InvalidEncoding ''anonymous auth token magic''))) (\<lambda>_.
            st_bind token_fields (\<lambda>token lines. st_lift (
              rbind (ensure (\<not> list_ex (\<lambda>line. str_trim line \<noteq> []) lines) (HE_InvalidEncoding ''anonymous auth token trailing data'')) (\<lambda>_.
              rbind (map_err (\<lambda>_. HE_InvalidEncoding ''anonymous auth token policy'') (validate_anonymous_auth_policy (at_policy token))) (\<lambda>_.
                Inr token))) lines))) (str_lines text_bytes))))"

definition write_field :: "bytes \<Rightarrow> bytes" where
  "write_field value = be_bytes 8 (of_nat (length value) :: u64) @ value"

definition anonymous_auth_mac_input :: "HydraAnonymousAuthPolicy \<Rightarrow> bytes \<Rightarrow> bytes" where
  "anonymous_auth_mac_input policy nonce =
     ascii ''HYDRA-MSG/facade/anonymous-auth/token'' @ [0] @ write_field (au_scope policy) @ write_field (au_action policy) @
     (case au_expires_at policy of Some expires_at \<Rightarrow> be_bytes 8 expires_at | None \<Rightarrow> be_bytes 8 (0 :: u64)) @ nonce"

definition anonymous_auth_token_tag :: "CryptoPrims \<Rightarrow> Secret32 \<Rightarrow> HydraAnonymousAuthPolicy \<Rightarrow> bytes \<Rightarrow> bytes" where
  "anonymous_auth_token_tag P issuer_secret policy nonce = hmac_sha3_256 P issuer_secret (anonymous_auth_mac_input policy nonce)"

definition verify_anonymous_auth_token_tag :: "CryptoPrims \<Rightarrow> Secret32 \<Rightarrow> ParsedAnonymousAuthToken \<Rightarrow> unit HydraResult" where
  "verify_anonymous_auth_token_tag P issuer_secret token =
     from_crypto (verify_hmac_sha3_256 P issuer_secret (anonymous_auth_mac_input (at_policy token) (at_nonce token)) (at_tag token))"

definition anonymous_auth_token_nullifier :: "CryptoPrims \<Rightarrow> Secret32 \<Rightarrow> ParsedAnonymousAuthToken \<Rightarrow> bytes" where
  "anonymous_auth_token_nullifier P issuer_secret token =
     hmac_sha3_256 P issuer_secret (ascii ''HYDRA-MSG/facade/anonymous-auth/nullifier'' @ [0] @ at_nonce token @ at_tag token)"

definition encode_anonymous_auth_secret :: "Secret32 \<Rightarrow> bytes" where
  "encode_anonymous_auth_secret secret = hex_encode secret"

definition decode_anonymous_auth_secret :: "bytes \<Rightarrow> Secret32 HydraResult" where
  "decode_anonymous_auth_secret value = decode_fixed_hex 32 value ''anonymous auth secret''"

definition encode_anonymous_auth_spent :: "bytes \<Rightarrow> bytes" where
  "encode_anonymous_auth_spent nullifier = hex_encode nullifier"

definition decode_anonymous_auth_spent :: "bytes \<Rightarrow> bytes HydraResult" where
  "decode_anonymous_auth_spent value = decode_fixed_hex 32 value ''anonymous auth nullifier''"

section \<open>Session security policies\<close>

definition RATCHET_ONLY_SNAPSHOT_VALUE :: bytes where "RATCHET_ONLY_SNAPSHOT_VALUE = ascii ''ratchet-only''"

definition ratchet_only :: HydraSessionSecurityPolicy where
  "ratchet_only = \<lparr>max_outbound_messages_per_session = None\<rparr>"

definition every_messages :: "u64 \<Rightarrow> HydraSessionSecurityPolicy HydraResult" where
  "every_messages messages =
     rbind (ensure (messages \<noteq> 0) (HE_InvalidInput ''session refresh interval must be at least one message'')) (\<lambda>_.
       Inr \<lparr>max_outbound_messages_per_session = Some messages\<rparr>)"

definition snapshot_value :: "HydraSessionSecurityPolicy \<Rightarrow> bytes" where
  "snapshot_value policy = (case max_outbound_messages_per_session policy of
     Some limit \<Rightarrow> decimal (unat limit) | None \<Rightarrow> RATCHET_ONLY_SNAPSHOT_VALUE)"

definition from_snapshot_value :: "bytes \<Rightarrow> HydraSessionSecurityPolicy HydraResult" where
  "from_snapshot_value value =
     (if value = RATCHET_ONLY_SNAPSHOT_VALUE then Inr ratchet_only
      else rbind (ok_or (parse_u64 value) (HE_InvalidEncoding ''session security policy'')) (\<lambda>interval.
        map_err (\<lambda>_. HE_InvalidEncoding ''session security policy'') (every_messages (of_nat interval))))"

end
