(* ===== verification/Hs_Flow.thy ===== *)
theory Hs_Flow
  imports App_State
begin

text \<open>
  The handshake of \<open>hydra-msg\<close> as operations on the state of the facade: \<open>handshake/helpers.rs\<close>, \<open>initiate.rs\<close>,
  \<open>finish.rs\<close>, \<open>standard.rs\<close> and the session-refresh half of \<open>security.rs\<close>. An operation reads the clock once
  (\<open>now\<close>, nanoseconds) and takes what the system draws at random as a record; a refused draw is \<open>None\<close>.
\<close>

section \<open>Helpers\<close>

definition identity_signing_key :: "CryptoPrims \<Rightarrow> IdentityRecord \<Rightarrow> bytes HydraResult" where
  "identity_signing_key P record =
     rbind (ok_or (id_seed record) (HE_InvalidInput ''active identity is locked'')) (\<lambda>seed.
       rbind (from_crypto (mldsa_from_seed P seed)) (\<lambda>(signing_key, verification_key). Inr signing_key))"

definition handshake_fresh :: "nat \<Rightarrow> nat \<Rightarrow> bool" where
  "handshake_fresh now created_at \<longleftrightarrow> now - created_at \<le> MAX_PENDING_HANDSHAKE_AGE_SECS * 1000000000"

definition expire_handshakes :: "nat \<Rightarrow> Hydra \<Rightarrow> Hydra" where
  "expire_handshakes now h =
     h\<lparr>hy_pending_offers := retain (\<lambda>p. handshake_fresh now (po_created_at p)) (hy_pending_offers h),
       hy_accepted_inits := retain (\<lambda>a. handshake_fresh now (ac_created_at a)) (hy_accepted_inits h)\<rparr>"

definition pending_retry :: "Hydra \<Rightarrow> ContactId \<Rightarrow> IdentityId \<Rightarrow> HandshakePurpose \<Rightarrow> bytes option" where
  "pending_retry h contact_id local_identity_id purpose =
     map_option po_offer_bytes
       (find (\<lambda>p. po_contact_id p = contact_id \<and> po_local_identity_id p = local_identity_id \<and> po_purpose p = purpose)
         (map snd (hy_pending_offers h)))"

definition reject_other_pending_attempt ::
    "Hydra \<Rightarrow> ContactId \<Rightarrow> IdentityId \<Rightarrow> HandshakePurpose \<Rightarrow> unit HydraResult" where
  "reject_other_pending_attempt h contact_id local_identity_id purpose =
     ensure (\<not> list_ex (\<lambda>p. po_contact_id p = contact_id \<and> po_purpose p = purpose \<and>
                po_local_identity_id p \<noteq> local_identity_id) (map snd (hy_pending_offers h)))
       (HE_InvalidInput ''competing handshake already pending for another local identity'')"

definition has_inbound_candidate :: "Hydra \<Rightarrow> ContactId \<Rightarrow> HandshakePurpose \<Rightarrow> bool" where
  "has_inbound_candidate h contact_id purpose \<longleftrightarrow>
     list_ex (\<lambda>a. ac_contact_id a = contact_id \<and> ac_purpose a = purpose \<and> ac_candidate a \<noteq> None)
       (map snd (hy_accepted_inits h))"

definition prepare_local_initiator_attempt ::
    "CryptoPrims \<Rightarrow> Hydra \<Rightarrow> ContactId \<Rightarrow> bytes \<Rightarrow> bytes \<Rightarrow> HandshakePurpose \<Rightarrow> bool HydraResult" where
  "prepare_local_initiator_attempt P h contact_id local_public_key peer_public_key purpose =
     (if \<not> has_inbound_candidate h contact_id purpose then Inr False
      else let mine = msg_identity_fingerprint P local_public_key; theirs = msg_identity_fingerprint P peer_public_key in
        if bytes_less mine theirs then Inr True
        else if mine = theirs then Inl (HE_InvalidInput ''competing handshake identity collision'')
        else Inl (HE_InvalidInput ''competing responder handshake takes precedence''))"

definition drop_candidates :: "(AcceptedInitKey \<Rightarrow> AcceptedInit \<Rightarrow> bool) \<Rightarrow> Hydra \<Rightarrow> Hydra" where
  "drop_candidates which h =
     h\<lparr>hy_accepted_inits := map (\<lambda>(k, a). (k, if which k a then a\<lparr>ac_candidate := None\<rparr> else a)) (hy_accepted_inits h)\<rparr>"

definition supersede_inbound_candidates :: "ContactId \<Rightarrow> HandshakePurpose \<Rightarrow> Hydra \<Rightarrow> Hydra" where
  "supersede_inbound_candidates contact_id purpose =
     drop_candidates (\<lambda>k a. ac_contact_id a = contact_id \<and> ac_purpose a = purpose)"

definition prepare_inbound_responder_attempt ::
    "CryptoPrims \<Rightarrow> Hydra \<Rightarrow> ContactId \<Rightarrow> bytes \<Rightarrow> bytes \<Rightarrow> HandshakePurpose \<Rightarrow> bool HydraResult" where
  "prepare_inbound_responder_attempt P h contact_id local_public_key initiator_fingerprint purpose =
     (let local_fingerprint = msg_identity_fingerprint P local_public_key;
          has_outbound = list_ex (\<lambda>p. po_contact_id p = contact_id \<and> po_purpose p = purpose) (map snd (hy_pending_offers h)) in
      rbind (if has_outbound then
               (if bytes_less local_fingerprint initiator_fingerprint
                then Inl (HE_InvalidInput ''competing local initiator handshake takes precedence'')
                else if local_fingerprint = initiator_fingerprint
                then Inl (HE_InvalidInput ''competing handshake identity collision'')
                else Inr True)
             else Inr False) (\<lambda>supersede_outbound.
      rbind (ensure (\<not> has_inbound_candidate h contact_id purpose)
               (HE_InvalidInput ''competing INIT already has provisional responder state'')) (\<lambda>_.
        Inr supersede_outbound)))"

definition supersede_outbound_attempts :: "ContactId \<Rightarrow> HandshakePurpose \<Rightarrow> Hydra \<Rightarrow> Hydra" where
  "supersede_outbound_attempts contact_id purpose h =
     h\<lparr>hy_pending_offers := retain (\<lambda>p. po_contact_id p \<noteq> contact_id \<or> po_purpose p \<noteq> purpose) (hy_pending_offers h)\<rparr>"

definition retire_competing_handshakes :: "ContactId \<Rightarrow> AcceptedInitKey option \<Rightarrow> Hydra \<Rightarrow> Hydra" where
  "retire_competing_handshakes contact_id keep_accepted h =
     drop_candidates (\<lambda>k a. ac_contact_id a = contact_id \<and> Some k \<noteq> keep_accepted)
       (h\<lparr>hy_pending_offers := retain (\<lambda>p. po_contact_id p \<noteq> contact_id) (hy_pending_offers h)\<rparr>)"

section \<open>INIT\<close>

record InitDraws =
  dr_nonce :: "bytes option"
  dr_x25519 :: "bytes option"
  dr_kem_d :: "bytes option"
  dr_kem_z :: "bytes option"
  dr_route_tag :: "bytes option"
  dr_sign :: "bytes option"

text \<open>A new offer, its parsed form and the secrets kept for the answer.\<close>

definition make_offer ::
    "CryptoPrims \<Rightarrow> InitDraws \<Rightarrow> IdentityRecord \<Rightarrow> HydraContact \<Rightarrow>
       (bytes \<times> ParsedHandshakeOffer \<times> Secret32 \<times> bytes) HydraResult" where
  "make_offer P draws record contact =
     rbind (identity_signing_key P record) (\<lambda>signing_key.
     rbind (ok_or (dr_nonce draws) HE_EntropyUnavailable) (\<lambda>nonce.
     rbind (from_crypto (x25519_generate (dr_x25519 draws))) (\<lambda>x25519_secret.
     let x25519_public = p_x25519_public P x25519_secret in
     rbind (from_crypto (mlkem_generate P (dr_kem_d draws) (dr_kem_z draws))) (\<lambda>(decapsulation_key, kem_public_key).
     rbind (ok_or (dr_route_tag draws) HE_EntropyUnavailable) (\<lambda>tag.
     let expected_responder_fingerprint = msg_identity_fingerprint P (ct_public_key contact) in
     rbind (encode_handshake_offer P (id_public_key record) nonce expected_responder_fingerprint x25519_public
              kem_public_key signing_key tag (dr_sign draws)) (\<lambda>offer.
     rbind (decode_handshake_offer P offer) (\<lambda>parsed.
       Inr (offer, parsed, x25519_secret, decapsulation_key))))))))"

definition init_handshake_for ::
    "CryptoPrims \<Rightarrow> nat \<Rightarrow> InitDraws \<Rightarrow> ContactId \<Rightarrow> HandshakePurpose \<Rightarrow> bytes hydra_op" where
  "init_handshake_for P now draws contact_id purpose h =
     st_bind (st_lift (require_contact contact_id h)) (\<lambda>contact.
     st_bind (st_modify (expire_handshakes now)) (\<lambda>_ h.
     st_bind (st_lift (active_unlocked_record h)) (\<lambda>record.
     case pending_retry h contact_id (id_id record) purpose of
       Some offer \<Rightarrow> st_lift (Inr offer)
     | None \<Rightarrow>
     st_bind (st_lift (
       rbind (reject_other_pending_attempt h contact_id (id_id record) purpose) (\<lambda>_.
       rbind (prepare_local_initiator_attempt P h contact_id (id_public_key record) (ct_public_key contact) purpose)
         (\<lambda>supersede_inbound.
       rbind (reject_collection_growth (length (hy_pending_offers h)) 1 MAX_PENDING_HANDSHAKES ''pending handshake limit'') (\<lambda>_.
       rbind (make_offer P draws record contact) (\<lambda>made. Inr (supersede_inbound, made)))))))
       (\<lambda>(supersede_inbound, offer, parsed, x25519_secret, decapsulation_key).
     st_bind (st_modify (\<lambda>h. if supersede_inbound then supersede_inbound_candidates contact_id purpose h else h)) (\<lambda>_.
     st_bind (st_modify (\<lambda>h. h\<lparr>hy_pending_offers := AList.update (of_init_hash parsed)
       \<lparr>po_contact_id = contact_id, po_offer_bytes = offer, po_local_identity_id = id_id record, po_offer = parsed,
        po_x25519_secret = x25519_secret, po_kem_decapsulation_key = decapsulation_key, po_created_at = now,
        po_purpose = purpose\<rparr> (hy_pending_offers h)\<rparr>)) (\<lambda>_.
       st_lift (Inr offer))))) h)) h"

section \<open>RESP\<close>

record ReplyDraws =
  rd_x25519 :: "bytes option"
  rd_encapsulate :: "bytes option"
  rd_nonce :: "bytes option"
  rd_route_tag :: "bytes option"
  rd_sign :: "bytes option"

definition make_answer ::
    "CryptoPrims \<Rightarrow> ReplyDraws \<Rightarrow> IdentityRecord \<Rightarrow> ParsedHandshakeOffer \<Rightarrow> (bytes \<times> HandshakeMaterial) HydraResult" where
  "make_answer P draws active parsed =
     rbind (identity_signing_key P active) (\<lambda>signing_key.
     rbind (from_crypto (x25519_generate (rd_x25519 draws))) (\<lambda>x25519_secret.
     let x25519_public = p_x25519_public P x25519_secret in
     rbind (from_crypto (x25519_diffie_hellman P x25519_secret (of_x25519_public parsed))) (\<lambda>x25519_shared.
     rbind (from_crypto (mlkem_ek_from_bytes P (of_kem_public_key parsed))) (\<lambda>kem_public_key.
     rbind (from_crypto (mlkem_encapsulate P kem_public_key (rd_encapsulate draws))) (\<lambda>(kem_ciphertext, kem_shared).
     rbind (ok_or (rd_nonce draws) HE_EntropyUnavailable) (\<lambda>nonce.
     rbind (ok_or (rd_route_tag draws) HE_EntropyUnavailable) (\<lambda>tag.
       encode_handshake_answer P
         \<lparr>ap_public_key = id_public_key active, ap_nonce = nonce, ap_x25519_public = x25519_public,
          ap_kem_ciphertext = kem_ciphertext, ap_offer = parsed, ap_signing_key = signing_key,
          ap_x25519_secret = x25519_shared, ap_kem_secret = kem_shared\<rparr> tag (rd_sign draws))))))))"

text \<open>The contact a stranger's INIT adds.\<close>

definition offered_contact :: "Hydra \<Rightarrow> ParsedHandshakeOffer \<Rightarrow> HydraContact option HydraResult" where
  "offered_contact h parsed =
     (if map_of (hy_contacts h) (of_peer_id parsed) \<noteq> None then Inr None
      else rbind (reject_collection_growth (length (hy_contacts h)) 1 MAX_CONTACTS ''contact limit'') (\<lambda>_.
        Inr (Some \<lparr>ct_id = of_peer_id parsed, ct_label = ascii ''contact-'' @ hex_encode (of_peer_id parsed),
          ct_public_key = of_public_key parsed, ct_verified = False, ct_blocked = False\<rparr>)))"

definition init_key :: "ParsedHandshakeOffer \<Rightarrow> AcceptedInitKey" where
  "init_key parsed = \<lparr>ai_initiator_fingerprint = of_initiator_fingerprint parsed,
     ai_init_nonce = of_nonce parsed, ai_init_hash = of_init_hash parsed\<rparr>"

text \<open>The end of \<open>reply_handshake_for\<close>: nothing fails before the state is written.\<close>

definition record_candidate ::
    "CryptoPrims \<Rightarrow> Disk \<Rightarrow> nat \<Rightarrow> HandshakePurpose \<Rightarrow> ParsedHandshakeOffer \<Rightarrow> IdentityRecord \<Rightarrow> bool \<Rightarrow> HydraContact option \<Rightarrow>
       bytes \<Rightarrow> HandshakeMaterial \<Rightarrow> bytes hydra_op" where
  "record_candidate P disk now purpose parsed active supersede_outbound new_contact answer material =
     (let contact_id = of_peer_id parsed; cache_key = init_key parsed in
     st_bind (st_modify (\<lambda>h. if supersede_outbound then supersede_outbound_attempts contact_id purpose h else h)) (\<lambda>_.
     st_bind (st_modify (\<lambda>h. case new_contact of None \<Rightarrow> h
       | Some contact \<Rightarrow> h\<lparr>hy_contacts := AList.update contact_id contact (hy_contacts h)\<rparr>)) (\<lambda>_.
     st_bind (st_modify (\<lambda>h. h\<lparr>hy_accepted_inits := AList.update cache_key
       \<lparr>ac_contact_id = contact_id, ac_local_identity_id = id_id active, ac_response = answer,
        ac_finish_route_tag = handshake_finish_route_tag P material, ac_purpose = purpose,
        ac_candidate = Some \<lparr>cand_material = material\<rparr>, ac_accepted_finish_hash = None, ac_created_at = now\<rparr>
       (hy_accepted_inits h)\<rparr>)) (\<lambda>_.
     st_bind (persist disk) (\<lambda>_.
       st_lift (Inr answer))))))"

definition reply_handshake_for ::
    "CryptoPrims \<Rightarrow> Disk \<Rightarrow> nat \<Rightarrow> ReplyDraws \<Rightarrow> bytes \<Rightarrow> HandshakePurpose \<Rightarrow> bytes hydra_op" where
  "reply_handshake_for P disk now draws offer purpose h =
     st_bind (st_lift (
       rbind (decode_handshake_offer P offer) (\<lambda>parsed.
       rbind (active_unlocked_record h) (\<lambda>active.
       rbind (ensure (of_expected_responder_fingerprint parsed = msg_identity_fingerprint P (id_public_key active))
                (HE_InvalidInput ''INIT expected responder fingerprint mismatch'')) (\<lambda>_.
         Inr (parsed, active)))))) (\<lambda>(parsed, active).
     st_bind (st_modify (expire_handshakes now)) (\<lambda>_ h.
     let contact_id = of_peer_id parsed; cache_key = init_key parsed in
     st_bind (st_lift (ensure (\<not> (case map_of (hy_contacts h) contact_id of None \<Rightarrow> False | Some contact \<Rightarrow> ct_blocked contact))
       (HE_InvalidInput ''contact is blocked''))) (\<lambda>_.
     case map_of (hy_accepted_inits h) cache_key of
       Some cached \<Rightarrow> st_lift (rbind (ensure (ac_purpose cached = purpose)
         (HE_InvalidInput ''duplicate INIT has the wrong local purpose'')) (\<lambda>_. Inr (ac_response cached)))
     | None \<Rightarrow>
     st_bind (st_lift (
       rbind (prepare_inbound_responder_attempt P h contact_id (id_public_key active) (of_initiator_fingerprint parsed) purpose)
         (\<lambda>supersede_outbound.
       rbind (reject_collection_growth (length (hy_accepted_inits h)) 1 MAX_PENDING_HANDSHAKES ''accepted INIT cache limit'') (\<lambda>_.
       rbind (offered_contact h parsed) (\<lambda>new_contact.
       rbind (make_answer P draws active parsed) (\<lambda>(answer, material).
         Inr (supersede_outbound, new_contact, answer, material)))))))
       (\<lambda>(supersede_outbound, new_contact, answer, material).
         record_candidate P disk now purpose parsed active supersede_outbound new_contact answer material)) h)) h"

section \<open>FINISH\<close>

text \<open>The checks of an answer against the offer it belongs to, up to the new session.\<close>

definition finish_answer ::
    "CryptoPrims \<Rightarrow> ParsedHandshakeAnswer \<Rightarrow> HandshakePurpose \<Rightarrow> IdentityRecord \<Rightarrow> Hydra \<Rightarrow>
       (ContactId \<times> bytes \<times> SessionState) HydraResult" where
  "finish_answer P parsed expected_purpose active h =
     rbind (ok_or (map_of (hy_pending_offers h) (an_init_hash parsed)) (HE_InvalidInput ''unknown handshake answer'')) (\<lambda>pending.
     rbind (ensure (po_purpose pending = expected_purpose)
              (HE_InvalidInput ''handshake answer has the wrong local purpose'')) (\<lambda>_.
     rbind (ensure (po_local_identity_id pending = id_id active)
              (HE_InvalidInput ''active identity changed during handshake'')) (\<lambda>_.
     rbind (ensure (po_contact_id pending = an_peer_id parsed)
              (HE_InvalidInput ''handshake answer does not match pending contact'')) (\<lambda>_.
     rbind (require_contact (po_contact_id pending) h) (\<lambda>contact.
     rbind (ensure (an_responder_fingerprint parsed = msg_identity_fingerprint P (ct_public_key contact))
              (HE_InvalidInput ''RESP responder fingerprint does not match contact'')) (\<lambda>_.
     rbind (from_crypto (x25519_diffie_hellman P (po_x25519_secret pending) (an_x25519_public parsed))) (\<lambda>x25519_shared.
     rbind (from_crypto (mlkem_decapsulate P (po_kem_decapsulation_key pending) (an_kem_ciphertext parsed))) (\<lambda>kem_shared.
     rbind (verify_answer_and_derive P parsed (po_offer pending) x25519_shared kem_shared) (\<lambda>material.
     rbind (encode_handshake_finish P material) (\<lambda>finish.
     rbind (from_session (derive_initial_secrets P (mat_handshake_secret material) (mat_transcript_hash material))) (\<lambda>secrets.
       Inr (po_contact_id pending, finish,
         established Initiator (mat_transcript_hash material) (id_id active) (an_peer_id parsed) secrets))))))))))))"

definition finish_handshake_for :: "CryptoPrims \<Rightarrow> nat \<Rightarrow> bytes \<Rightarrow> HandshakePurpose \<Rightarrow> bytes hydra_op" where
  "finish_handshake_for P now answer expected_purpose =
     st_bind (st_lift (decode_handshake_answer P answer)) (\<lambda>parsed.
     st_bind (st_modify (expire_handshakes now)) (\<lambda>_ h.
     st_bind (st_lift (active_unlocked_record h)) (\<lambda>active.
     st_bind (st_lift (finish_answer P parsed expected_purpose active h)) (\<lambda>(contact_id, finish, state).
     st_bind (install_session P contact_id state) (\<lambda>_.
     st_bind (st_modify (retire_competing_handshakes contact_id None)) (\<lambda>_.
       st_lift (Inr finish))))) h))"

text \<open>
  The checks of a FINISH; \<open>None\<close> for a FINISH that was accepted before, otherwise the entry it completes and the new
  session.
\<close>

definition find_finish_entry :: "CryptoPrims \<Rightarrow> bytes \<Rightarrow> Hydra \<Rightarrow> AcceptedInitKey HydraResult" where
  "find_finish_entry P finish h =
     rbind (reject_encoded_size (length finish) MAX_HANDSHAKE_FINISH_BYTES ''handshake FINISH size'') (\<lambda>_.
     rbind (ensure (length finish = envelope_size Lite) (HE_InvalidEncoding ''FINISH envelope size'')) (\<lambda>_.
     rbind (map_err (\<lambda>_. HE_InvalidEncoding ''FINISH outer header'') (decode_outer_header finish)) (\<lambda>header.
     rbind (ensure (mode header = Protected) (HE_InvalidEncoding ''FINISH outer header'')) (\<lambda>_.
     rbind (ensure (counter header = 0) (HE_InvalidEncoding ''FINISH outer header'')) (\<lambda>_.
       rbind (ok_or (find (\<lambda>(key, entry). ac_finish_route_tag entry = route_tag header) (hy_accepted_inits h))
         (HE_InvalidInput ''unknown handshake FINISH'')) (\<lambda>(key, entry). Inr key))))))"

definition accept_finish_entry ::
    "CryptoPrims \<Rightarrow> bytes \<Rightarrow> HandshakePurpose \<Rightarrow> IdentityRecord \<Rightarrow> AcceptedInitKey \<Rightarrow> Hydra \<Rightarrow>
       (ContactId \<times> SessionState) option HydraResult" where
  "accept_finish_entry P finish expected_purpose active key h =
     rbind (ok_or (map_of (hy_accepted_inits h) key) (HE_InvalidInput ''unknown handshake FINISH'')) (\<lambda>entry.
     case ac_accepted_finish_hash entry of
       Some accepted \<Rightarrow>
         if accepted = sha3_256 P finish then Inr None else Inl (HE_InvalidInput ''conflicting handshake FINISH'')
     | None \<Rightarrow>
         rbind (ensure (ac_local_identity_id entry = id_id active)
                  (HE_InvalidInput ''active identity changed during handshake'')) (\<lambda>_.
         rbind (ok_or (ac_candidate entry) (HE_InvalidInput ''handshake FINISH has no provisional state'')) (\<lambda>candidate.
         rbind (ensure (ac_purpose entry = expected_purpose)
                  (HE_InvalidInput ''handshake FINISH has the wrong local purpose'')) (\<lambda>_.
         let material = cand_material candidate in
         rbind (verify_handshake_finish P finish material) (\<lambda>_.
         rbind (from_session (derive_initial_secrets P (mat_handshake_secret material) (mat_transcript_hash material))) (\<lambda>secrets.
           Inr (Some (ac_contact_id entry,
             established Responder (mat_transcript_hash material) (id_id active) (ac_contact_id entry) secrets))))))))"

definition accept_handshake_finish_for ::
    "CryptoPrims \<Rightarrow> Disk \<Rightarrow> nat \<Rightarrow> bytes \<Rightarrow> HandshakePurpose \<Rightarrow> unit hydra_op" where
  "accept_handshake_finish_for P disk now finish expected_purpose =
     st_bind (st_modify (expire_handshakes now)) (\<lambda>_ h.
     st_bind (st_lift (
       rbind (find_finish_entry P finish h) (\<lambda>key.
       rbind (active_unlocked_record h) (\<lambda>active.
       rbind (accept_finish_entry P finish expected_purpose active key h) (\<lambda>done. Inr (key, done)))))) (\<lambda>(key, done).
     case done of
       None \<Rightarrow> st_lift (Inr ())
     | Some (contact_id, state) \<Rightarrow>
         st_bind (install_session P contact_id state) (\<lambda>_.
         st_bind (st_modify (retire_competing_handshakes contact_id (Some key))) (\<lambda>_.
         st_bind (st_modify (\<lambda>h. case map_of (hy_accepted_inits h) key of None \<Rightarrow> h
           | Some entry \<Rightarrow> h\<lparr>hy_accepted_inits := AList.update key
               (entry\<lparr>ac_candidate := None, ac_accepted_finish_hash := Some (sha3_256 P finish)\<rparr>) (hy_accepted_inits h)\<rparr>)) (\<lambda>_.
           persist disk)))) h)"

section \<open>The public operations\<close>

definition init_handshake :: "CryptoPrims \<Rightarrow> nat \<Rightarrow> InitDraws \<Rightarrow> ContactId \<Rightarrow> bytes hydra_op" where
  "init_handshake P now draws contact_id = init_handshake_for P now draws contact_id HP_Standard"

definition reply_handshake :: "CryptoPrims \<Rightarrow> Disk \<Rightarrow> nat \<Rightarrow> ReplyDraws \<Rightarrow> bytes \<Rightarrow> bytes hydra_op" where
  "reply_handshake P disk now draws offer = reply_handshake_for P disk now draws offer HP_Standard"

definition finish_handshake :: "CryptoPrims \<Rightarrow> nat \<Rightarrow> bytes \<Rightarrow> bytes hydra_op" where
  "finish_handshake P now answer = finish_handshake_for P now answer HP_Standard"

definition accept_handshake_finish :: "CryptoPrims \<Rightarrow> Disk \<Rightarrow> nat \<Rightarrow> bytes \<Rightarrow> unit hydra_op" where
  "accept_handshake_finish P disk now finish = accept_handshake_finish_for P disk now finish HP_Standard"

definition require_open_session :: "ContactId \<Rightarrow> Hydra \<Rightarrow> unit HydraResult" where
  "require_open_session contact_id h =
     rbind (require_session contact_id h) (\<lambda>session. ensure (\<not> sr_closed session) HE_SessionNotFound)"

definition begin_session_refresh :: "CryptoPrims \<Rightarrow> nat \<Rightarrow> InitDraws \<Rightarrow> ContactId \<Rightarrow> bytes hydra_op" where
  "begin_session_refresh P now draws contact_id h =
     st_bind (st_lift (require_open_session contact_id h)) (\<lambda>_.
       init_handshake_for P now draws contact_id HP_SessionRefresh) h"

definition reply_session_refresh :: "CryptoPrims \<Rightarrow> Disk \<Rightarrow> nat \<Rightarrow> ReplyDraws \<Rightarrow> bytes \<Rightarrow> bytes hydra_op" where
  "reply_session_refresh P disk now draws offer h =
     st_bind (st_lift (rbind (decode_handshake_offer P offer) (\<lambda>parsed. require_open_session (of_peer_id parsed) h))) (\<lambda>_.
       reply_handshake_for P disk now draws offer HP_SessionRefresh) h"

definition finish_session_refresh :: "CryptoPrims \<Rightarrow> nat \<Rightarrow> bytes \<Rightarrow> bytes hydra_op" where
  "finish_session_refresh P now answer = finish_handshake_for P now answer HP_SessionRefresh"

definition accept_session_refresh_finish :: "CryptoPrims \<Rightarrow> Disk \<Rightarrow> nat \<Rightarrow> bytes \<Rightarrow> unit hydra_op" where
  "accept_session_refresh_finish P disk now finish = accept_handshake_finish_for P disk now finish HP_SessionRefresh"

end
