(* ===== verification/Hs_Agree.thy ===== *)
theory Hs_Agree
  imports Hs_Flow
begin

text \<open>
  What the handshake of \<open>Hs_Flow\<close> achieves: INIT, RESP and FINISH between two clients who know each other's keys end
  with the two ends of one session, and every step of it keeps the receive-route index exact.
\<close>

section \<open>Identities and contacts\<close>

text \<open>The active identity is unlocked and its keys come from its seed.\<close>

definition identity_keyed :: "CryptoPrims \<Rightarrow> IdentityRecord \<Rightarrow> bool" where
  "identity_keyed P r \<longleftrightarrow> (case id_seed r of None \<Rightarrow> False | Some seed \<Rightarrow> snd (p_mldsa_from_seed P seed) = id_public_key r) \<and>
     id_id r = sha3_256 P (id_public_key r)"

lemma identity_keyed_signs:
  assumes "identity_keyed P r" and "identity_signing_key P r = Inr sk"
  shows "\<exists>seed. p_mldsa_from_seed P seed = (sk, id_public_key r)"
  using assms
  by (auto simp: identity_keyed_def identity_signing_key_def result_simps mldsa_from_seed_def split: option.splits prod.splits)

text \<open>At most as many contacts as the limit, and only contacts are indexed: then an installation always has room.\<close>

definition directory_ok :: "Hydra \<Rightarrow> bool" where
  "directory_ok h \<longleftrightarrow> length (hy_contacts h) \<le> MAX_CONTACTS \<and>
     fst ` set (hy_session_route_tags h) \<subseteq> fst ` set (hy_contacts h)"

lemma sum_list_bounded:
  "(\<And>x. x \<in> set xs \<Longrightarrow> f x \<le> (m::nat)) \<Longrightarrow> sum_list (map f xs) \<le> length xs * m"
  by (induction xs) (auto intro: add_mono)

lemma index_size_without:
  assumes ok: "route_index_ok h" and dir: "directory_ok h" and c: "c \<in> fst ` set (hy_contacts h)"
  shows "index_size h - length (tags_of c h) + MAX_SESSION_ROUTE_TAGS_PER_SESSION \<le> MAX_SESSION_ROUTE_TAGS"
proof -
  let ?m = "hy_session_route_tags h" let ?d = "AList.delete c ?m" let ?k = MAX_SESSION_ROUTE_TAGS_PER_SESSION
  have dk: "distinct (map fst ?m)" and len: "length (tags_of d h) \<le> ?k" for d using ok by (simp_all add: route_index_ok_def)
  have bound: "length tags \<le> ?k" if "(d, tags) \<in> set ?m" for d tags
    using len [of d] that dk by (simp add: tags_of_def)
  have "sum_list (map (\<lambda>(c, tags). length tags) ?d) \<le> length ?d * ?k"
    using bound by (intro sum_list_bounded) (auto simp: AList.delete_eq)
  moreover have "index_size h = sum_list (map (\<lambda>(c, tags). length tags) ?d) + length (tags_of c h)"
    using sum_list_delete [OF dk, of length c] by (simp add: index_size_def tags_of_def split: option.splits)
  moreover have "length ?d + 1 \<le> MAX_CONTACTS"
  proof -
    have "distinct (map fst ?d)" using dk by (simp add: distinct_delete)
    then have "length ?d = card (fst ` set ?d)" by (metis distinct_card length_map set_map)
    also have "\<dots> \<le> card (fst ` set (hy_contacts h) - {c})"
      using dir by (intro card_mono) (auto simp: directory_ok_def AList.delete_eq)
    also have "\<dots> < card (fst ` set (hy_contacts h))" using c by (intro psubset_card_mono) auto
    also have "\<dots> \<le> length (hy_contacts h)" by (metis card_length length_map set_map)
    finally show ?thesis using dir by (simp add: directory_ok_def)
  qed
  then have "(length ?d + 1) * ?k \<le> MAX_CONTACTS * ?k" by (rule mult_le_mono1)
  ultimately show ?thesis by (simp add: MAX_SESSION_ROUTE_TAGS_def)
qed

lemma indexed_count_total:
  "n + sum_list (map (\<lambda>(c, tags). length tags) m) \<le> usize_max \<Longrightarrow>
     indexed_count n m = Some (n + sum_list (map (\<lambda>(c, tags). length tags) m))"
  by (induction m arbitrary: n) (auto simp: checked_add_usize_def)

lemma install_routes_total:
  assumes ok: "route_index_ok h" and dir: "directory_ok h" and c: "c \<in> fst ` set (hy_contacts h)"
    and len: "length tags \<le> MAX_SESSION_ROUTE_TAGS_PER_SESSION"
  shows "\<exists>h'. install_session_route_tags c tags h = (Inr (), h')"
proof -
  note room = index_size_without [OF ok dir c]
  have size: "index_size h \<le> MAX_SESSION_ROUTE_TAGS" using ok by (simp add: route_index_ok_def)
  have big: "MAX_SESSION_ROUTE_TAGS \<le> usize_max" by (simp add: MAX_SESSION_ROUTE_TAGS_def MAX_CONTACTS_def MAX_SESSION_ROUTE_TAGS_PER_SESSION_def MAX_SKIP_def usize_max_def)
  have cnt: "indexed_count 0 (hy_session_route_tags h) = Some (index_size h)"
    using indexed_count_total [of 0 "hy_session_route_tags h"] size big by (simp add: index_size_def)
  have e: "(case map_of (hy_session_route_tags h) c of None \<Rightarrow> 0 | Some tags \<Rightarrow> length tags) = length (tags_of c h)"
    by (simp add: tags_of_def split: option.split)
  have le: "length (tags_of c h) \<le> index_size h"
    using sum_list_delete [of "hy_session_route_tags h" length c] ok
    by (simp add: route_index_ok_def index_size_def tags_of_def split: option.splits)
  have dup: "length (remdups tags) \<le> MAX_SESSION_ROUTE_TAGS_PER_SESSION" using len length_remdups_leq [of tags] by linarith
  then have new: "index_size h - length (tags_of c h) + length (remdups tags) \<le> MAX_SESSION_ROUTE_TAGS" using room by linarith
  show ?thesis
    unfolding install_session_route_tags_def e cnt
    using len le new big by (simp add: st_bind_def st_lift_def st_modify_def checked_sub_usize_def checked_add_usize_def Let_def)
qed

lemma install_session_total:
  assumes ok: "routing_ok P h" and dir: "directory_ok h" and c: "c \<in> fst ` set (hy_contacts h)"
    and P: "crypto_ok P" and s: "receiver_ok P k s {}"
  shows "\<exists>h'. install_session P c s h = (Inr (), h')"
proof -
  obtain tags where tags: "candidate_receive_route_tags P s = Inr tags" and len: "length tags \<le> MAX_SESSION_ROUTE_TAGS_PER_SESSION"
  proof -
    have "length (entries (skipped_keys s)) \<le> 256"
      using s by (simp add: receiver_ok_def session_inv_def store_len_def)
    then show thesis
      using that [OF candidate_tags_on_chain [OF P s]]
      by (simp add: MAX_SESSION_ROUTE_TAGS_PER_SESSION_def MAX_SKIP_def store_len_def)
  qed
  obtain h' where "install_session_route_tags c tags h = (Inr (), h')"
    using install_routes_total [OF routing_okD(1) [OF ok] dir c len] by blast
  then show ?thesis
    by (simp add: install_session_def tags st_bind_def st_lift_def st_modify_def from_session_def map_err_def)
qed

section \<open>The three messages\<close>

text \<open>What the system draws has the lengths the code asks for.\<close>

definition init_draws_ok :: "InitDraws \<Rightarrow> bool" where
  "init_draws_ok d \<longleftrightarrow> (\<forall>nonce. dr_nonce d = Some nonce \<longrightarrow> length nonce = 32) \<and> (\<forall>tag. dr_route_tag d = Some tag \<longrightarrow> length tag = 16)"

definition reply_draws_ok :: "ReplyDraws \<Rightarrow> bool" where
  "reply_draws_ok d \<longleftrightarrow> (\<forall>nonce. rd_nonce d = Some nonce \<longrightarrow> length nonce = 32) \<and> (\<forall>tag. rd_route_tag d = Some tag \<longrightarrow> length tag = 16)"

text \<open>The secrets kept with an offer belong to the keys in it.\<close>

definition attempt_ok :: "CryptoPrims \<Rightarrow> PendingOffer \<Rightarrow> bool" where
  "attempt_ok P p \<longleftrightarrow> of_x25519_public (po_offer p) = p_x25519_public P (po_x25519_secret p) \<and>
     (\<exists>s. p_mlkem_from_seed P s = (po_kem_decapsulation_key p, of_kem_public_key (po_offer p)))"

lemma make_offer_effect:
  assumes P: "crypto_ok P" and key: "identity_keyed P r" and d: "init_draws_ok d"
    and make: "make_offer P d r contact = Inr (offer, parsed, x, dk)"
  shows "\<exists>c signature s. decode_handshake_offer P offer = Inr parsed \<and> parsed = parsed_offer P c signature \<and>
    offer_core_wf c \<and> oc_public_key c = id_public_key r \<and> oc_expected_responder_fingerprint c = msg_identity_fingerprint P (ct_public_key contact) \<and>
    oc_x25519_public c = p_x25519_public P x \<and> p_mlkem_from_seed P s = (dk, oc_kem_public_key c)"
proof -
  obtain sk nonce s ek tag where sk: "identity_signing_key P r = Inr sk" and nonce: "dr_nonce d = Some nonce"
    and kem: "p_mlkem_from_seed P s = (dk, ek)" and tag: "dr_route_tag d = Some tag"
    and enc: "encode_handshake_offer P (id_public_key r) nonce (msg_identity_fingerprint P (ct_public_key contact))
        (p_x25519_public P x) ek sk tag (dr_sign d) = Inr offer"
    and dec: "decode_handshake_offer P offer = Inr parsed"
    using make by (auto simp: make_offer_def Let_def result_simps x25519_generate_def mlkem_generate_def)
  obtain seed where seed: "p_mldsa_from_seed P seed = (sk, id_public_key r)" using identity_keyed_signs [OF key sk] ..
  have lens: "length nonce = 32" "length tag = 16" using d nonce tag by (simp_all add: init_draws_ok_def)
  have ek: "length ek = ML_KEM_768_EK_SIZE" "length (p_x25519_public P x) = 32"
    using P kem by (auto simp: crypto_ok_def kem_ok_def dh_ok_def)
  let ?c = "offer_of P (id_public_key r) nonce (msg_identity_fingerprint P (ct_public_key contact)) (p_x25519_public P x) ek"
  obtain signature where sg: "decode_handshake_offer P offer = Inr (parsed_offer P ?c signature)"
    using decode_encode_offer [OF P seed lens(1) fingerprint_length [OF P] ek(2,1) lens(2) enc] by blast
  have "offer_core_wf ?c"
    using seed P lens ek fingerprint_length [OF P]
    by (auto simp: offer_core_wf_def offer_of_def crypto_ok_def sig_ok_def)
  then show ?thesis using dec sg kem by (intro exI [of _ ?c] exI [of _ signature] exI [of _ s]) (simp add: offer_of_def)
qed

lemma distinct_retain: "distinct (map fst m) \<Longrightarrow> distinct (map fst (retain keep m))"
  by (simp add: retain_def distinct_map_filter)

text \<open>Only the tables of attempts change.\<close>

definition only_attempts :: "Hydra \<Rightarrow> Hydra \<Rightarrow> bool" where
  "only_attempts h h' \<longleftrightarrow> h' = h\<lparr>hy_pending_offers := hy_pending_offers h', hy_accepted_inits := hy_accepted_inits h'\<rparr>"

lemma only_attemptsD:
  assumes "only_attempts h h'"
  shows "hy_identities h' = hy_identities h" and "hy_active_id h' = hy_active_id h" and "hy_contacts h' = hy_contacts h"
    and "hy_sessions h' = hy_sessions h" and "hy_receive_routes h' = hy_receive_routes h"
    and "hy_session_route_tags h' = hy_session_route_tags h" and "same_routing h h'"
    and "active_unlocked_record h' = active_unlocked_record h"
  by (subst assms [unfolded only_attempts_def], simp add: same_routing_def active_unlocked_record_def active_record_def)+

lemma init_handshake_new:
  assumes P: "crypto_ok P" and act: "active_unlocked_record a = Inr ra" and key: "identity_keyed P ra" and d: "init_draws_ok d"
    and fresh: "pending_retry (expire_handshakes now a) c (id_id ra) purpose = None"
    and run: "init_handshake_for P now d c purpose a = (Inr offer, a1)"
  shows "\<exists>parsed pending contact. decode_handshake_offer P offer = Inr parsed \<and> map_of (hy_contacts a) c = Some contact \<and>
    of_peer_id parsed = id_id ra \<and> of_initiator_fingerprint parsed = msg_identity_fingerprint P (id_public_key ra) \<and>
    of_expected_responder_fingerprint parsed = msg_identity_fingerprint P (ct_public_key contact) \<and>
    length (of_init_hash parsed) = TRANSCRIPT_HASH_SIZE \<and>
    map_of (hy_pending_offers a1) (of_init_hash parsed) = Some pending \<and> attempt_ok P pending \<and> po_contact_id pending = c \<and>
    po_local_identity_id pending = id_id ra \<and> po_offer pending = parsed \<and> po_purpose pending = purpose \<and> po_created_at pending = now \<and>
    only_attempts a a1 \<and> (distinct (map fst (hy_pending_offers a)) \<longrightarrow> distinct (map fst (hy_pending_offers a1)))"
proof -
  let ?h = "expire_handshakes now a"
  have act': "active_unlocked_record ?h = Inr ra"
    using act by (simp add: active_unlocked_record_def active_record_def expire_handshakes_def)
  obtain contact where ct: "map_of (hy_contacts a) c = Some contact"
    using run by (auto simp: init_handshake_for_def result_simps require_contact_def)
  obtain sup parsed x dk where made: "make_offer P d ra contact = Inr (offer, parsed, x, dk)"
    and a1: "a1 = (let g = (if sup then supersede_inbound_candidates c purpose ?h else ?h) in
      g\<lparr>hy_pending_offers := AList.update (of_init_hash parsed) \<lparr>po_contact_id = c, po_offer_bytes = offer, po_local_identity_id = id_id ra,
         po_offer = parsed, po_x25519_secret = x, po_kem_decapsulation_key = dk, po_created_at = now, po_purpose = purpose\<rparr>
         (hy_pending_offers g)\<rparr>)"
    using run ct act' fresh
    by (auto simp: init_handshake_for_def result_simps require_contact_def Let_def)
  obtain co signature s where e: "decode_handshake_offer P offer = Inr parsed" "parsed = parsed_offer P co signature"
    "offer_core_wf co" "oc_public_key co = id_public_key ra" "oc_expected_responder_fingerprint co = msg_identity_fingerprint P (ct_public_key contact)"
    "oc_x25519_public co = p_x25519_public P x" "p_mlkem_from_seed P s = (dk, oc_kem_public_key co)"
    using make_offer_effect [OF P key d made] by blast
  have id: "id_id ra = sha3_256 P (id_public_key ra)" using key by (simp add: identity_keyed_def)
  have frame: "only_attempts a a1 \<and> (distinct (map fst (hy_pending_offers a)) \<longrightarrow> distinct (map fst (hy_pending_offers a1)))"
    by (cases sup) (simp_all add: a1 Let_def only_attempts_def expire_handshakes_def supersede_inbound_candidates_def drop_candidates_def
        distinct_update distinct_retain)
  let ?p = "\<lparr>po_contact_id = c, po_offer_bytes = offer, po_local_identity_id = id_id ra,
         po_offer = parsed, po_x25519_secret = x, po_kem_decapsulation_key = dk, po_created_at = now, po_purpose = purpose\<rparr>"
  have hash: "length (of_init_hash parsed) = TRANSCRIPT_HASH_SIZE"
    using P by (simp add: e(2) parsed_offer_def init_hash_def hash512_def crypto_ok_def)
  have pend: "map_of (hy_pending_offers a1) (of_init_hash parsed) = Some ?p" by (simp add: a1 Let_def update_conv')
  have "attempt_ok P ?p" using e by (auto simp: attempt_ok_def parsed_offer_def)
  then show ?thesis
    using e(1) ct hash pend frame e(4,5) id
    by (intro exI [of _ parsed] exI [of _ ?p] exI [of _ contact]) (simp add: e(2) parsed_offer_def)
qed

lemma directory_grow:
  assumes "directory_ok h" and "hy_session_route_tags h' = hy_session_route_tags h"
    and "fst ` set (hy_contacts h) \<subseteq> fst ` set (hy_contacts h')" and "length (hy_contacts h') \<le> MAX_CONTACTS"
  shows "directory_ok h'"
  using assms order_trans [of "fst ` set (hy_session_route_tags h)" "fst ` set (hy_contacts h)" "fst ` set (hy_contacts h')"] by (simp add: directory_ok_def)

lemma length_update_new: "map_of m k = None \<Longrightarrow> length (AList.update k v m) = length m + 1"
  by (induction m) (auto split: if_splits)

lemma make_answer_effect:
  assumes P: "crypto_ok P" and key: "identity_keyed P rb" and d: "reply_draws_ok d" and pend: "attempt_ok P pending"
    and offer: "po_offer pending = parsed" and hash: "length (of_init_hash parsed) = TRANSCRIPT_HASH_SIZE"
    and fp: "length (of_initiator_fingerprint parsed) = 32"
    and expected: "of_expected_responder_fingerprint parsed = msg_identity_fingerprint P (id_public_key rb)"
    and make: "make_answer P d rb parsed = Inr (answer, material)"
  shows "\<exists>an xs ks. decode_handshake_answer P answer = Inr an \<and> an_init_hash an = of_init_hash parsed \<and>
    an_peer_id an = id_id rb \<and> an_responder_fingerprint an = msg_identity_fingerprint P (id_public_key rb) \<and>
    x25519_diffie_hellman P (po_x25519_secret pending) (an_x25519_public an) = Inr xs \<and>
    mlkem_decapsulate P (po_kem_decapsulation_key pending) (an_kem_ciphertext an) = Inr ks \<and>
    verify_answer_and_derive P an parsed xs ks = Inr material"
    and "length (mat_handshake_secret material) = 32" and "length (mat_transcript_hash material) = 64"
    and "length (mat_session_id material) = 32"
proof -
  obtain s where xp: "of_x25519_public parsed = p_x25519_public P (po_x25519_secret pending)"
    and kp: "p_mlkem_from_seed P s = (po_kem_decapsulation_key pending, of_kem_public_key parsed)"
    using pend offer by (auto simp: attempt_ok_def)
  obtain sk y xs ct ks nonce tag entropy where sk: "identity_signing_key P rb = Inr sk"
    and xs: "x25519_diffie_hellman P y (of_x25519_public parsed) = Inr xs"
    and enc: "p_mlkem_encapsulate P (of_kem_public_key parsed) entropy = (ct, ks)"
    and nonce: "rd_nonce d = Some nonce" and tag: "rd_route_tag d = Some tag"
    and ans: "encode_handshake_answer P \<lparr>ap_public_key = id_public_key rb, ap_nonce = nonce, ap_x25519_public = p_x25519_public P y,
        ap_kem_ciphertext = ct, ap_offer = parsed, ap_signing_key = sk, ap_x25519_secret = xs, ap_kem_secret = ks\<rparr> tag (rd_sign d)
        = Inr (answer, material)" (is "encode_handshake_answer P ?parts _ _ = _")
    using make by (auto simp: make_answer_def Let_def result_simps x25519_generate_def mlkem_encapsulate_def mlkem_ek_from_bytes_def
        split: if_splits)
  obtain seed where seed: "p_mldsa_from_seed P seed = (sk, id_public_key rb)" using identity_keyed_signs [OF key sk] ..
  have kem: "length ct = ML_KEM_768_CT_SIZE" "p_mlkem_decapsulate P (po_kem_decapsulation_key pending) ct = ks"
    using P enc kp by (auto simp: crypto_ok_def kem_ok_def)
  have dh: "dh_ok P" and y: "length (p_x25519_public P y) = 32" using P by (auto simp: crypto_ok_def dh_ok_def)
  have lens: "length nonce = 32" "length tag = 16" using d nonce tag by (simp_all add: reply_draws_ok_def)
  obtain an where an: "decode_handshake_answer P answer = Inr an" "an_init_hash an = of_init_hash parsed"
      "an_peer_id an = sha3_256 P (id_public_key rb)" "an_responder_fingerprint an = msg_identity_fingerprint P (id_public_key rb)"
      "an_x25519_public an = p_x25519_public P y" "an_kem_ciphertext an = ct" "verify_answer_and_derive P an parsed xs ks = Inr material"
    using answer_agrees [OF P seed, of ?parts tag "rd_sign d" answer material] ans lens y kem(1) hash fp expected by auto
  show "\<exists>an xs ks. decode_handshake_answer P answer = Inr an \<and> an_init_hash an = of_init_hash parsed \<and>
    an_peer_id an = id_id rb \<and> an_responder_fingerprint an = msg_identity_fingerprint P (id_public_key rb) \<and>
    x25519_diffie_hellman P (po_x25519_secret pending) (an_x25519_public an) = Inr xs \<and>
    mlkem_decapsulate P (po_kem_decapsulation_key pending) (an_kem_ciphertext an) = Inr ks \<and>
    verify_answer_and_derive P an parsed xs ks = Inr material"
    using an key dh_agree [OF dh, of "po_x25519_secret pending" y] xs xp kem
    by (intro exI [of _ an] exI [of _ xs] exI [of _ ks]) (simp add: identity_keyed_def mlkem_decapsulate_def)
  obtain core signature x k where mat: "material = derive_material_from_parts P parsed core signature x k"
    using ans by (auto simp: encode_handshake_answer_def Let_def result_simps)
  show "length (mat_handshake_secret material) = 32" and "length (mat_transcript_hash material) = 64"
    and "length (mat_session_id material) = 32" by (rule material_lengths [OF P mat])+
qed

lemma reply_handshake_new:
  assumes act: "active_unlocked_record b = Inr rb" and dec: "decode_handshake_offer P offer = Inr parsed"
    and fresh: "map_of (hy_accepted_inits (expire_handshakes now b)) (init_key parsed) = None"
    and run: "reply_handshake_for P disk now d offer purpose b = (Inr answer, b1)"
  shows "\<exists>material. make_answer P d rb parsed = Inr (answer, material) \<and>
    of_expected_responder_fingerprint parsed = msg_identity_fingerprint P (id_public_key rb) \<and>
    map_of (hy_accepted_inits b1) (init_key parsed) = Some \<lparr>ac_contact_id = of_peer_id parsed, ac_local_identity_id = id_id rb,
      ac_response = answer, ac_finish_route_tag = handshake_finish_route_tag P material, ac_purpose = purpose,
      ac_candidate = Some \<lparr>cand_material = material\<rparr>, ac_accepted_finish_hash = None, ac_created_at = now\<rparr> \<and>
    active_unlocked_record b1 = Inr rb \<and> same_routing b b1 \<and> of_peer_id parsed \<in> fst ` set (hy_contacts b1) \<and>
    (directory_ok b \<longrightarrow> directory_ok b1) \<and>
    (distinct (map fst (hy_accepted_inits b)) \<longrightarrow> distinct (map fst (hy_accepted_inits b1)))"
proof -
  let ?h = "expire_handshakes now b"
  obtain sup new material where made: "make_answer P d rb parsed = Inr (answer, material)"
    and fp: "of_expected_responder_fingerprint parsed = msg_identity_fingerprint P (id_public_key rb)"
    and new: "offered_contact ?h parsed = Inr new"
    and b1: "\<exists>g. g = (if sup then supersede_outbound_attempts (of_peer_id parsed) purpose ?h else ?h) \<and>
      persist disk ((case new of None \<Rightarrow> g | Some contact \<Rightarrow> g\<lparr>hy_contacts := AList.update (of_peer_id parsed) contact (hy_contacts g)\<rparr>)
        \<lparr>hy_accepted_inits := AList.update (init_key parsed) \<lparr>ac_contact_id = of_peer_id parsed, ac_local_identity_id = id_id rb,
      ac_response = answer, ac_finish_route_tag = handshake_finish_route_tag P material, ac_purpose = purpose,
      ac_candidate = Some \<lparr>cand_material = material\<rparr>, ac_accepted_finish_hash = None, ac_created_at = now\<rparr> (hy_accepted_inits
        (case new of None \<Rightarrow> g | Some contact \<Rightarrow> g\<lparr>hy_contacts := AList.update (of_peer_id parsed) contact (hy_contacts g)\<rparr>))\<rparr>)
      = (Inr (), b1)"
    using run act dec fresh by (auto simp: reply_handshake_for_def record_candidate_def result_simps Let_def)
  define g where "g = (if sup then supersede_outbound_attempts (of_peer_id parsed) purpose ?h else ?h)"
  have g: "hy_contacts g = hy_contacts b" "hy_sessions g = hy_sessions b" "hy_receive_routes g = hy_receive_routes b"
    "hy_session_route_tags g = hy_session_route_tags b" "hy_identities g = hy_identities b" "hy_active_id g = hy_active_id b"
    "distinct (map fst (hy_accepted_inits b)) \<Longrightarrow> distinct (map fst (hy_accepted_inits g))"
    by (simp_all add: g_def supersede_outbound_attempts_def expire_handshakes_def distinct_retain)
  have ct: "hy_contacts ?h = hy_contacts b" by (simp add: expire_handshakes_def)
  have act2: "active_unlocked_record h' = Inr rb" if "hy_identities h' = hy_identities b" "hy_active_id h' = hy_active_id b" for h'
    using act that by (simp add: active_unlocked_record_def active_record_def)
  show ?thesis
  proof (cases new)
    case None
    then have known: "of_peer_id parsed \<in> fst ` set (hy_contacts b)"
      using new ct by (auto simp: offered_contact_def result_simps map_of_eq_None_iff split: if_splits)
    have "hy_contacts b1 = hy_contacts b" "hy_session_route_tags b1 = hy_session_route_tags b"
      using b1 unfolding g_def [symmetric] None by (auto simp: persist_def Let_def g split: sum.splits)
    then have "directory_ok b \<longrightarrow> directory_ok b1" by (simp add: directory_ok_def)
    then show ?thesis
      using made fp b1 known unfolding g_def [symmetric] None
      by (auto simp: persist_def Let_def update_conv' same_routing_def g distinct_update intro!: act2 split: sum.splits)
  next
    case (Some contact)
    have room: "length (hy_contacts b) + 1 \<le> MAX_CONTACTS" and unknown: "map_of (hy_contacts b) (of_peer_id parsed) = None"
      using new ct Some by (auto simp: offered_contact_def result_simps reject_collection_growth_def checked_add_usize_def split: if_splits option.splits)
    have len: "length (AList.update (of_peer_id parsed) contact (hy_contacts b)) = length (hy_contacts b) + 1"
      using unknown by (simp add: length_update_new)
    have b1': "hy_contacts b1 = AList.update (of_peer_id parsed) contact (hy_contacts b)" "hy_session_route_tags b1 = hy_session_route_tags b"
      using b1 unfolding g_def [symmetric] Some by (auto simp: persist_def Let_def g split: sum.splits)
    have keys: "fst ` set (hy_contacts b1) = insert (of_peer_id parsed) (fst ` set (hy_contacts b))"
      using dom_update [of "of_peer_id parsed" contact "hy_contacts b"] by (simp add: b1')
    then have "directory_ok b \<longrightarrow> directory_ok b1"
      using directory_grow [of b b1] len room b1' by auto
    then show ?thesis
      using made fp b1 keys unfolding g_def [symmetric] Some
      by (auto simp: persist_def Let_def update_conv' same_routing_def g distinct_update intro!: act2 split: sum.splits)
  qed
qed

lemma active_cong:
  "hy_identities h' = hy_identities h \<Longrightarrow> hy_active_id h' = hy_active_id h \<Longrightarrow> active_unlocked_record h' = active_unlocked_record h"
  by (simp add: active_unlocked_record_def active_record_def)

lemma expire_keeps:
  "hy_contacts (expire_handshakes now h) = hy_contacts h" "same_routing h (expire_handshakes now h)"
  "active_unlocked_record (expire_handshakes now h) = active_unlocked_record h"
  "directory_ok (expire_handshakes now h) = directory_ok h"
  by (simp_all add: expire_handshakes_def same_routing_def active_unlocked_record_def active_record_def directory_ok_def)

lemma map_of_retain:
  "distinct (map fst m) \<Longrightarrow> map_of (retain keep m) k = (case map_of m k of None \<Rightarrow> None | Some v \<Rightarrow> if keep v then Some v else None)"
  by (induction m) (auto simp: retain_def map_of_eq_None_iff image_iff split: option.splits)

lemma open_installed:
  "map_of (hy_sessions h) = m(c \<mapsto> \<lparr>sr_state = s, sr_closed = False, sr_outbound_messages = n, sr_rollback_generation_floor = f\<rparr>) \<Longrightarrow>
     open_session h c = Some s"
  by (simp add: open_session_def)

lemma find_unique: "distinct (map f xs) \<Longrightarrow> x \<in> set xs \<Longrightarrow> find (\<lambda>y. f y = f x) xs = Some x"
  by (induction xs) auto

lemma finish_handshake_effect:
  assumes P: "crypto_ok P" and act: "active_unlocked_record h = Inr ra" and dec: "decode_handshake_answer P answer = Inr an"
    and keys: "distinct (map fst (hy_pending_offers h))" and pend: "map_of (hy_pending_offers h) (an_init_hash an) = Some pending"
    and fresh: "handshake_fresh now (po_created_at pending)" and mine: "po_purpose pending = purpose" "po_local_identity_id pending = id_id ra"
    and peer: "po_contact_id pending = an_peer_id an" and ct: "map_of (hy_contacts h) (an_peer_id an) = Some contact"
    and fp: "an_responder_fingerprint an = msg_identity_fingerprint P (ct_public_key contact)"
    and xs: "x25519_diffie_hellman P (po_x25519_secret pending) (an_x25519_public an) = Inr xs"
    and ks: "mlkem_decapsulate P (po_kem_decapsulation_key pending) (an_kem_ciphertext an) = Inr ks"
    and mat: "verify_answer_and_derive P an (po_offer pending) xs ks = Inr material"
    and lens: "length (mat_handshake_secret material) = 32" "length (mat_transcript_hash material) = 64" "length (mat_session_id material) = 32"
    and ok: "routing_ok P h" and dir: "directory_ok h"
  shows "\<exists>finish secrets h'. finish_handshake_for P now answer purpose h = (Inr finish, h') \<and>
    encode_handshake_finish P material = Inr finish \<and>
    derive_initial_secrets P (mat_handshake_secret material) (mat_transcript_hash material) = Inr secrets \<and>
    open_session h' (an_peer_id an) = Some (established Initiator (mat_transcript_hash material) (id_id ra) (an_peer_id an) secrets) \<and>
    routing_ok P h'"
proof -
  let ?h = "expire_handshakes now h"
  obtain finish where fin: "encode_handshake_finish P material = Inr finish" using finish_agrees [OF P lens(2,3)] by blast
  have kd: "kdf_ok P" using P by (simp add: crypto_ok_def)
  obtain secrets where sec: "derive_initial_secrets P (mat_handshake_secret material) (mat_transcript_hash material) = Inr secrets"
    using derive_initial_secrets_total [OF kd lens(1)] by blast
  let ?s = "established Initiator (mat_transcript_hash material) (id_id ra) (an_peer_id an) secrets"
  have pend': "map_of (hy_pending_offers ?h) (an_init_hash an) = Some pending"
    using pend fresh by (simp add: expire_handshakes_def map_of_retain [OF keys])
  have fa: "finish_answer P an purpose ra ?h = Inr (an_peer_id an, finish, ?s)"
    using pend' mine peer ct fp xs ks mat fin sec
    by (simp add: finish_answer_def require_contact_def expire_keeps from_session_def map_err_def from_crypto_def)
  obtain k where rok: "receiver_ok P k ?s {}" using established_receiver_ok [OF sec lens(2)] by blast
  have ok': "routing_ok P ?h" by (rule routing_ok_cong [OF expire_keeps(2) ok])
  have c: "an_peer_id an \<in> fst ` set (hy_contacts ?h)" using ct by (force simp: expire_keeps dest: map_of_SomeD)
  obtain g where g: "install_session P (an_peer_id an) ?s ?h = (Inr (), g)"
    using install_session_total [OF ok' _ c P rok] dir by (auto simp: expire_keeps)
  note e = install_session_effect [OF ok' g]
  let ?g = "retire_competing_handshakes (an_peer_id an) None g"
  have sr: "same_routing g ?g" by (simp add: same_routing_def retire_competing_handshakes_def drop_candidates_def)
  have "finish_handshake_for P now answer purpose h = (Inr finish, ?g)"
    using dec act fa g by (simp add: finish_handshake_for_def st_bind_def st_lift_def st_modify_def expire_keeps)
  moreover have "open_session ?g (an_peer_id an) = Some ?s" unfolding same_routingD(4) [OF sr] by (rule open_installed [OF e(3)])
  ultimately show ?thesis using fin sec routing_ok_cong [OF sr e(1)] by blast
qed

lemma accept_finish_effect:
  assumes P: "crypto_ok P" and act: "active_unlocked_record h = Inr rb"
    and keys: "distinct (map fst (hy_accepted_inits h))" and tags: "distinct (map (\<lambda>(k, a). ac_finish_route_tag a) (hy_accepted_inits h))"
    and acc: "map_of (hy_accepted_inits h) key = Some entry" and fresh: "handshake_fresh now (ac_created_at entry)"
    and mine: "ac_accepted_finish_hash entry = None" "ac_local_identity_id entry = id_id rb" "ac_purpose entry = purpose"
      "ac_candidate entry = Some \<lparr>cand_material = material\<rparr>" "ac_finish_route_tag entry = handshake_finish_route_tag P material"
    and lens: "length (mat_handshake_secret material) = 32" "length (mat_transcript_hash material) = 64" "length (mat_session_id material) = 32"
    and fin: "encode_handshake_finish P material = Inr finish"
    and sec: "derive_initial_secrets P (mat_handshake_secret material) (mat_transcript_hash material) = Inr secrets"
    and ct: "ac_contact_id entry \<in> fst ` set (hy_contacts h)"
    and disk: "\<And>h. disk h = Inr ()" and ok: "routing_ok P h" and dir: "directory_ok h"
  shows "\<exists>h'. accept_handshake_finish_for P disk now finish purpose h = (Inr (), h') \<and>
    open_session h' (ac_contact_id entry) = Some (established Responder (mat_transcript_hash material) (id_id rb) (ac_contact_id entry) secrets) \<and>
    routing_ok P h'"
proof -
  let ?h = "expire_handshakes now h"
  have f: "length finish = envelope_size Lite" "verify_handshake_finish P finish material = Inr ()"
    "decode_outer_header finish = Inr (OuterHeader_new Protected Lite (handshake_finish_route_tag P material) 0)"
    using finish_agrees [OF P lens(2,3)] fin by auto
  have acc': "map_of (hy_accepted_inits ?h) key = Some entry"
    using acc fresh by (simp add: expire_handshakes_def map_of_retain [OF keys])
  have tags': "distinct (map (\<lambda>(k, a). ac_finish_route_tag a) (hy_accepted_inits ?h))"
    using tags by (simp add: expire_handshakes_def retain_def distinct_map_filter)
  have found: "find (\<lambda>(key, entry). ac_finish_route_tag entry = handshake_finish_route_tag P material) (hy_accepted_inits ?h) = Some (key, entry)"
    using find_unique [OF tags' map_of_SomeD [OF acc']] mine(5) by (simp add: case_prod_unfold)
  have ff: "find_finish_entry P finish ?h = Inr key"
    using f(1,3) found
    by (simp add: find_finish_entry_def reject_encoded_size_def MAX_HANDSHAKE_FINISH_BYTES_def OuterHeader_new_def case_prod_unfold)
  let ?s = "established Responder (mat_transcript_hash material) (id_id rb) (ac_contact_id entry) secrets"
  have af: "accept_finish_entry P finish purpose rb key ?h = Inr (Some (ac_contact_id entry, ?s))"
    using acc' mine f(2) sec by (simp add: accept_finish_entry_def from_session_def map_err_def)
  obtain k where rok: "receiver_ok P k ?s {}" using established_receiver_ok [OF sec lens(2)] by blast
  have ok': "routing_ok P ?h" by (rule routing_ok_cong [OF expire_keeps(2) ok])
  obtain g where g: "install_session P (ac_contact_id entry) ?s ?h = (Inr (), g)"
    using install_session_total [OF ok' _ _ P rok] dir ct by (auto simp: expire_keeps)
  note e = install_session_effect [OF ok' g]
  let ?g = "(\<lambda>h. case map_of (hy_accepted_inits h) key of None \<Rightarrow> h
           | Some entry \<Rightarrow> h\<lparr>hy_accepted_inits := AList.update key
               (entry\<lparr>ac_candidate := None, ac_accepted_finish_hash := Some (sha3_256 P finish)\<rparr>) (hy_accepted_inits h)\<rparr>)
       (retire_competing_handshakes (ac_contact_id entry) (Some key) g)"
  have g1: "same_routing g ?g"
    by (simp add: same_routing_def retire_competing_handshakes_def drop_candidates_def split: option.split)
  let ?h' = "?g\<lparr>hy_state_generation := saturating_add_u64 (hy_state_generation ?g) 1\<rparr>"
  have sr: "same_routing g ?h'" using g1 by (simp add: same_routing_def)
  have "accept_handshake_finish_for P disk now finish purpose h = (Inr (), ?h')"
    using ff act af g disk
    by (simp add: accept_handshake_finish_for_def st_bind_def st_lift_def st_modify_def expire_keeps persist_def Let_def)
  moreover have "open_session ?h' (ac_contact_id entry) = Some ?s" unfolding same_routingD(4) [OF sr] by (rule open_installed [OF e(3)])
  ultimately show ?thesis using routing_ok_cong [OF sr e(1)] by blast
qed

section \<open>The handshake completes\<close>

lemma established_in_sync:
  assumes "derive_initial_secrets P hs th = Inr sec" and "length th = 64"
  shows "in_sync P (established Initiator th x y sec) (established Responder th u v sec)"
proof -
  note i = established_ends [OF assms refl, of Initiator] and r = established_ends [OF assms refl, of Responder]
  have "session_id (established Initiator th x y sec) = session_id (established Responder th u v sec)"
    "phase (established r th x y sec) = Established" "next_send_index (established r th x y sec) = 0" for r x y
    by (cases r; simp add: established_def next_send_index_def DirectionChain_new_def)+
  moreover have "receiver_ok P (sending_root sec Initiator) (established Responder th u v sec) {}"
    "receiver_ok P (sending_root sec Responder) (established Initiator th x y sec) {}"
    by (rule i(4) r(4), simp)+
  ultimately show ?thesis
    unfolding in_sync_def using i(2) [of x y] r(2) [of u v] by blast
qed

text \<open>The messages are built when the system gives its random bytes.\<close>

lemma sign_total: "crypto_ok P \<Longrightarrow> length d = 64 \<Longrightarrow> \<exists>sg. mldsa_sign_digest P sk d (Some e) = Inr sg"
  by (simp add: mldsa_sign_digest_def exact_array_def)

lemma digest_lengths:
  "crypto_ok P \<Longrightarrow> length (offer_signature_digest P core) = 64"
  "crypto_ok P \<Longrightarrow> length (answer_signature_digest P ih core) = 64"
  by (simp_all add: offer_signature_digest_def answer_signature_digest_def hash512_def crypto_ok_def)

lemma make_offer_total:
  assumes P: "crypto_ok P" and key: "identity_keyed P r"
    and n: "length nonce = 32" "length tag = 16"
  shows "\<exists>made. make_offer P \<lparr>dr_nonce = Some nonce, dr_x25519 = Some x, dr_kem_d = Some kd, dr_kem_z = Some kz,
    dr_route_tag = Some tag, dr_sign = Some e\<rparr> r contact = Inr made"
proof -
  obtain seed sk where seed: "id_seed r = Some seed" "p_mldsa_from_seed P seed = (sk, id_public_key r)"
    using key by (auto simp: identity_keyed_def split: option.splits) (metis prod.collapse)
  obtain dk ek where kem: "p_mlkem_from_seed P (kd @ kz) = (dk, ek)" by fastforce
  let ?f = "msg_identity_fingerprint P (ct_public_key contact)"
  let ?core = "encode_offer_core nonce ?f (id_public_key r) (p_x25519_public P x) ek"
  obtain sg where sg: "mldsa_sign_digest P sk (offer_signature_digest P ?core) (Some e) = Inr sg"
    using sign_total [OF P digest_lengths(1) [OF P]] by blast
  have ek: "length ek = ML_KEM_768_EK_SIZE" "length (p_x25519_public P x) = 32"
    using P kem by (auto simp: crypto_ok_def kem_ok_def dh_ok_def)
  note v = sign_verifies [OF P seed(2) sg]
  have core: "offer_core_bytes (offer_of P (id_public_key r) nonce ?f (p_x25519_public P x) ek) = ?core"
    by (simp add: offer_core_bytes_def offer_of_def)
  have "offer_core_wf (offer_of P (id_public_key r) nonce ?f (p_x25519_public P x) ek)"
    using n ek v(3) fingerprint_length [OF P] by (simp add: offer_core_wf_def offer_of_def)
  from core_lengths(1) [OF this] have "length ?core = 3249" unfolding core by simp
  then obtain offer where enc: "encode_handshake_offer P (id_public_key r) nonce ?f (p_x25519_public P x) ek sk tag (Some e) = Inr offer"
    using sg v(2) n by (auto simp: encode_handshake_offer_def Let_def from_crypto_def encode_bootstrap_eq)
  obtain signature where dec: "decode_handshake_offer P offer = Inr (parsed_offer P (offer_of P (id_public_key r) nonce ?f (p_x25519_public P x) ek) signature)"
    using decode_encode_offer [OF P seed(2) n(1) fingerprint_length [OF P] ek(2,1) n(2) enc] by blast
  show ?thesis
    using seed kem enc dec
    by (simp add: make_offer_def identity_signing_key_def mldsa_from_seed_def from_crypto_def x25519_generate_def mlkem_generate_def Let_def)
qed

lemma make_answer_total:
  assumes P: "crypto_ok P" and key: "identity_keyed P r" and n: "length nonce = 32" "length tag = 16"
    and xs: "x25519_diffie_hellman P y (of_x25519_public parsed) = Inr xs"
    and kp: "p_mlkem_from_seed P s = (dk, of_kem_public_key parsed)"
    and hash: "length (of_init_hash parsed) = TRANSCRIPT_HASH_SIZE" and fp: "length (of_initiator_fingerprint parsed) = 32"
  shows "\<exists>made. make_answer P \<lparr>rd_x25519 = Some y, rd_encapsulate = Some ke, rd_nonce = Some nonce, rd_route_tag = Some tag,
    rd_sign = Some e\<rparr> r parsed = Inr made"
proof -
  obtain seed sk where seed: "id_seed r = Some seed" "p_mldsa_from_seed P seed = (sk, id_public_key r)"
    using key by (auto simp: identity_keyed_def split: option.splits) (metis prod.collapse)
  obtain ct ks where enc: "p_mlkem_encapsulate P (of_kem_public_key parsed) ke = (ct, ks)" by fastforce
  let ?c = "\<lparr>ac_init_hash = of_init_hash parsed, ac_nonce = nonce, ac_initiator_fingerprint = of_initiator_fingerprint parsed,
     ac_public_key = id_public_key r, ac_x25519_public = p_x25519_public P y, ac_kem_ciphertext = ct\<rparr>"
  let ?core = "encode_answer_core (of_init_hash parsed) nonce (of_initiator_fingerprint parsed) (id_public_key r) (p_x25519_public P y) ct"
  have core: "answer_core_bytes ?c = ?core" by (simp add: answer_core_bytes_def)
  obtain sg where sg: "mldsa_sign_digest P sk (answer_signature_digest P (of_init_hash parsed) ?core) (Some e) = Inr sg"
    using sign_total [OF P digest_lengths(2) [OF P]] by blast
  note v = sign_verifies [OF P seed(2) sg]
  have kem: "length ct = ML_KEM_768_CT_SIZE" "length (p_x25519_public P y) = 32" "p_mlkem_ek_valid P (of_kem_public_key parsed)"
    "length (of_kem_public_key parsed) = ML_KEM_768_EK_SIZE"
    using P enc kp by (auto simp: crypto_ok_def kem_ok_def dh_ok_def)
  have "answer_core_wf ?c" using n kem v(3) hash fp by (simp add: answer_core_wf_def)
  from core_lengths(2) [OF this] have "length ?core = 3217" unfolding core by simp
  moreover have "length (handshake_response_confirmation P m) = 32" for m
    using P by (simp add: handshake_response_confirmation_def Let_def crypto_ok_def)
  ultimately show ?thesis
    using seed enc sg v(2) n xs kem
    by (simp add: make_answer_def identity_signing_key_def mldsa_from_seed_def from_crypto_def x25519_generate_def mlkem_ek_from_bytes_def
        mlkem_encapsulate_def encode_handshake_answer_def encode_bootstrap_eq Let_def)
qed

text \<open>A client for the witnesses: one unlocked identity, which is also its only contact, and nothing else.\<close>

definition toy_identity :: IdentityRecord where
  "toy_identity = \<lparr>id_id = sha3_256 toy_prims (replicate 1952 0), id_label = [], id_seed = Some (replicate 32 5),
     id_public_key = replicate 1952 0,
     id_password_kdf = \<lparr>kdf_profile = [], kdf_log_n = 15, kdf_r = 8, kdf_p = 1, kdf_salt = replicate 16 0\<rparr>,
     id_password_tag = replicate 32 0, id_seed_nonce = replicate 12 0, id_encrypted_seed = replicate 48 0, id_unlocked = True\<rparr>"

definition toy_peer :: HydraContact where
  "toy_peer = \<lparr>ct_id = id_id toy_identity, ct_label = [], ct_public_key = replicate 1952 0, ct_verified = False, ct_blocked = False\<rparr>"

definition toy_client :: Hydra where
  "toy_client = \<lparr>hy_identities = [(id_id toy_identity, toy_identity)], hy_active_id = Some (id_id toy_identity),
     hy_contacts = [(id_id toy_identity, toy_peer)], hy_pending_offers = [], hy_accepted_inits = [], hy_sessions = [],
     hy_session_security_policies = [], hy_receive_routes = [], hy_session_route_tags = [], hy_store = empty_store,
     hy_lobbies = [], hy_anonymous_auth_secret = replicate 32 0, hy_anonymous_auth_spent = [], hy_anonymous_auth_spent_index = {},
     hy_state_key = replicate 32 0, hy_state_kdf = id_password_kdf toy_identity, hy_state_generation = 0,
     hy_peer_generation_floors = [], hy_packet_size = 1200, hy_pending_fragments = []\<rparr>"

lemma toy_client_ok:
  "active_unlocked_record toy_client = Inr toy_identity" "identity_keyed toy_prims toy_identity" "routing_ok toy_prims toy_client"
  "directory_ok toy_client" "map_of (hy_contacts toy_client) (id_id toy_identity) = Some toy_peer"
  "ct_public_key toy_peer = id_public_key toy_identity" "hy_pending_offers toy_client = []" "hy_accepted_inits toy_client = []"
  "id_public_key toy_identity = replicate 1952 0"
proof -
  show "identity_keyed toy_prims toy_identity" by (simp add: identity_keyed_def toy_identity_def toy_prims_def)
  show "routing_ok toy_prims toy_client"
    by (simp add: routing_ok_def route_index_ok_def index_current_def toy_client_def routes_wf_def tags_of_def route_bucket_def index_size_def)
qed (simp_all add: toy_client_def toy_identity_def toy_peer_def active_unlocked_record_def active_record_def directory_ok_def MAX_CONTACTS_def)

text \<open>C3: A handshake between two clients who hold each other's keys completes: when the initiator has produced a
  new INIT for the responder and the responder has answered it, the initiator accepts the RESP and the responder the
  resulting FINISH, within ten minutes, and each then has an open session for the other; the two sessions are the two
  ends of one channel (same session id, each sending chain is the receiving chain of the other side), and the receive
  routes of both clients are exact. It holds for standard handshakes and for session refreshes.\<close>

theorem handshake_completes:
  assumes P: "crypto_ok P" and a: "active_unlocked_record a = Inr ra" "identity_keyed P ra" "routing_ok P a" "directory_ok a"
      "distinct (map fst (hy_pending_offers a))"
    and b: "active_unlocked_record b = Inr rb" "identity_keyed P rb" "routing_ok P b" "directory_ok b" "distinct (map fst (hy_accepted_inits b))"
    and contact: "map_of (hy_contacts a) (id_id rb) = Some contact" "ct_public_key contact = id_public_key rb"
    and draws: "init_draws_ok d" "reply_draws_ok d'"
    and new: "pending_retry (expire_handshakes t1 a) (id_id rb) (id_id ra) purpose = None"
      "\<And>parsed. decode_handshake_offer P offer = Inr parsed \<Longrightarrow> map_of (hy_accepted_inits (expire_handshakes t2 b)) (init_key parsed) = None"
    and init: "init_handshake_for P t1 d (id_id rb) purpose a = (Inr offer, a1)"
    and reply: "reply_handshake_for P disk t2 d' offer purpose b = (Inr answer, b1)"
    and tags: "distinct (map (\<lambda>(k, i). ac_finish_route_tag i) (hy_accepted_inits b1))"
    and times: "handshake_fresh t3 t1" "handshake_fresh t4 t2" and disk: "\<And>h. disk h = Inr ()"
  shows "\<exists>finish a2 b2 sa sb. finish_handshake_for P t3 answer purpose a1 = (Inr finish, a2) \<and>
    accept_handshake_finish_for P disk t4 finish purpose b1 = (Inr (), b2) \<and>
    open_session a2 (id_id rb) = Some sa \<and> open_session b2 (id_id ra) = Some sb \<and> in_sync P sa sb \<and>
    routing_ok P a2 \<and> routing_ok P b2"
proof -
  obtain parsed pending where o: "decode_handshake_offer P offer = Inr parsed" "of_peer_id parsed = id_id ra"
      "of_initiator_fingerprint parsed = msg_identity_fingerprint P (id_public_key ra)"
      "of_expected_responder_fingerprint parsed = msg_identity_fingerprint P (id_public_key rb)"
      "length (of_init_hash parsed) = TRANSCRIPT_HASH_SIZE"
      "map_of (hy_pending_offers a1) (of_init_hash parsed) = Some pending" "attempt_ok P pending" "po_contact_id pending = id_id rb"
      "po_local_identity_id pending = id_id ra" "po_offer pending = parsed" "po_purpose pending = purpose" "po_created_at pending = t1"
      "only_attempts a a1" "distinct (map fst (hy_pending_offers a1))"
    using init_handshake_new [OF P a(1,2) draws(1) new(1) init] contact a(5) by auto
  obtain material where r: "make_answer P d' rb parsed = Inr (answer, material)"
      "map_of (hy_accepted_inits b1) (init_key parsed) = Some \<lparr>ac_contact_id = of_peer_id parsed, ac_local_identity_id = id_id rb,
        ac_response = answer, ac_finish_route_tag = handshake_finish_route_tag P material, ac_purpose = purpose,
        ac_candidate = Some \<lparr>cand_material = material\<rparr>, ac_accepted_finish_hash = None, ac_created_at = t2\<rparr>"
      "active_unlocked_record b1 = Inr rb" "same_routing b b1" "of_peer_id parsed \<in> fst ` set (hy_contacts b1)" "directory_ok b1"
      "distinct (map fst (hy_accepted_inits b1))"
    using reply_handshake_new [OF b(1) o(1) new(2) [OF o(1)] reply] b(4,5) by blast
  have fp: "length (of_initiator_fingerprint parsed) = 32" by (simp add: o(3) fingerprint_length [OF P])
  note m = make_answer_effect [OF P b(2) draws(2) o(7,10,5) fp o(4) r(1)]
  obtain an xs ks where an: "decode_handshake_answer P answer = Inr an" "an_init_hash an = of_init_hash parsed" "an_peer_id an = id_id rb"
    "an_responder_fingerprint an = msg_identity_fingerprint P (id_public_key rb)"
    "x25519_diffie_hellman P (po_x25519_secret pending) (an_x25519_public an) = Inr xs"
    "mlkem_decapsulate P (po_kem_decapsulation_key pending) (an_kem_ciphertext an) = Inr ks"
    "verify_answer_and_derive P an (po_offer pending) xs ks = Inr material" using m(1) o(10) by blast
  note keep = only_attemptsD [OF o(13)]
  have dir1: "directory_ok a1" using a(4) by (simp add: directory_ok_def keep)
  obtain finish secrets a2 where f: "finish_handshake_for P t3 answer purpose a1 = (Inr finish, a2)"
    "encode_handshake_finish P material = Inr finish"
    "derive_initial_secrets P (mat_handshake_secret material) (mat_transcript_hash material) = Inr secrets"
    "open_session a2 (id_id rb) = Some (established Initiator (mat_transcript_hash material) (id_id ra) (id_id rb) secrets)" "routing_ok P a2"
    using finish_handshake_effect [OF P _ an(1) o(14) _ _ o(11,9) _ _ _ an(5-7) m(2-4) routing_ok_cong [OF keep(7) a(3)] dir1,
        where contact = contact and now = t3] a(1) o(6,8,12) an(2-4) contact times(1) by (auto simp: keep)
  obtain b2 where g: "accept_handshake_finish_for P disk t4 finish purpose b1 = (Inr (), b2)"
    "open_session b2 (id_id ra) = Some (established Responder (mat_transcript_hash material) (id_id rb) (id_id ra) secrets)" "routing_ok P b2"
    using accept_finish_effect [where disk = disk and now = t4 and purpose = purpose, OF P r(3,7) tags r(2) _ _ _ _ _ _ m(2-4) f(2,3) _ disk routing_ok_cong [OF r(4) b(3)] r(6)]
      times(2) r(5) by (auto simp: o(2))
  have "in_sync P (established Initiator (mat_transcript_hash material) (id_id ra) (id_id rb) secrets)
      (established Responder (mat_transcript_hash material) (id_id rb) (id_id ra) secrets)"
    by (rule established_in_sync [OF f(3) m(3)])
  then show ?thesis using f(1,4,5) g by blast
qed

lemma sum_zeros: "foldl (+) (s :: u8) (replicate n 0) = s"
  by (induction n arbitrary: s) simp_all

theorem handshake_completes_witness:
  "\<exists>offer a1 answer b1 finish a2 b2 sa sb. init_handshake_for toy_prims 0
       \<lparr>dr_nonce = Some (replicate 32 1), dr_x25519 = Some (replicate 32 0), dr_kem_d = Some (replicate 32 2),
        dr_kem_z = Some (replicate 32 3), dr_route_tag = Some (replicate 16 4), dr_sign = Some (replicate 32 5)\<rparr>
       (id_id toy_identity) HP_Standard toy_client = (Inr offer, a1) \<and>
     reply_handshake_for toy_prims (\<lambda>_. Inr ()) 0
       \<lparr>rd_x25519 = Some (replicate 32 0), rd_encapsulate = Some (replicate 32 2), rd_nonce = Some (replicate 32 3),
        rd_route_tag = Some (replicate 16 4), rd_sign = Some (replicate 32 5)\<rparr> offer HP_Standard toy_client = (Inr answer, b1) \<and>
     finish_handshake_for toy_prims 0 answer HP_Standard a1 = (Inr finish, a2) \<and>
     accept_handshake_finish_for toy_prims (\<lambda>_. Inr ()) 0 finish HP_Standard b1 = (Inr (), b2) \<and>
     open_session a2 (id_id toy_identity) = Some sa \<and> open_session b2 (id_id toy_identity) = Some sb \<and> in_sync toy_prims sa sb"
proof -
  let ?d = "\<lparr>dr_nonce = Some (replicate 32 1), dr_x25519 = Some (replicate 32 0), dr_kem_d = Some (replicate 32 2),
        dr_kem_z = Some (replicate 32 3), dr_route_tag = Some (replicate 16 4), dr_sign = Some (replicate 32 5)\<rparr> :: InitDraws"
  let ?d' = "\<lparr>rd_x25519 = Some (replicate 32 0), rd_encapsulate = Some (replicate 32 2), rd_nonce = Some (replicate 32 3),
        rd_route_tag = Some (replicate 16 4), rd_sign = Some (replicate 32 5)\<rparr> :: ReplyDraws"
  note t = toy_client_ok
  have d: "init_draws_ok ?d" "reply_draws_ok ?d'" by (simp_all add: init_draws_ok_def reply_draws_ok_def)
  have empty: "expire_handshakes 0 toy_client = toy_client"
    using t(7,8) by (simp add: expire_handshakes_def retain_def)
  have new: "pending_retry (expire_handshakes 0 toy_client) (id_id toy_identity) (id_id toy_identity) HP_Standard = None"
    by (simp add: empty pending_retry_def t)
  obtain made where made: "make_offer toy_prims ?d toy_identity toy_peer = Inr made"
    using make_offer_total [OF toy_crypto_ok t(2), of "replicate 32 1" "replicate 16 4" "replicate 32 0" "replicate 32 2" "replicate 32 3"
        "replicate 32 5" toy_peer] by auto
  obtain offer parsed x dk where m: "made = (offer, parsed, x, dk)" by (cases made)
  obtain a1 where init: "init_handshake_for toy_prims 0 ?d (id_id toy_identity) HP_Standard toy_client = (Inr offer, a1)"
    using made t new
    by (auto simp: init_handshake_for_def st_bind_def st_lift_def st_modify_def require_contact_def empty m reject_other_pending_attempt_def
        prepare_local_initiator_attempt_def has_inbound_candidate_def reject_collection_growth_def MAX_PENDING_HANDSHAKES_def
        checked_add_usize_def usize_max_def)
  obtain c signature s where e: "decode_handshake_offer toy_prims offer = Inr parsed" "parsed = parsed_offer toy_prims c signature"
      "oc_expected_responder_fingerprint c = msg_identity_fingerprint toy_prims (ct_public_key toy_peer)"
      "oc_x25519_public c = p_x25519_public toy_prims x" "p_mlkem_from_seed toy_prims s = (dk, oc_kem_public_key c)"
      "oc_public_key c = id_public_key toy_identity"
    using make_offer_effect [OF toy_crypto_ok t(2) d(1) made [unfolded m]] by blast
  have x: "x = replicate 32 0" using made
    by (auto simp: m make_offer_def result_simps x25519_generate_def Let_def)
  have dh: "x25519_diffie_hellman toy_prims (replicate 32 0) (of_x25519_public parsed) = Inr (replicate 32 2)"
    by (simp add: sum_zeros list_all_iff x25519_diffie_hellman_def e(2) parsed_offer_def e(4) x toy_prims_def toy_digest_def exact_array_def Let_def)
  have h: "hash_ok toy_prims" by simp
  obtain mat where mat: "make_answer toy_prims ?d' toy_identity parsed = Inr mat"
    using make_answer_total [OF toy_crypto_ok t(2) _ _ dh, of "replicate 32 3" "replicate 16 4" s dk "replicate 32 2" "replicate 32 5"] e(5)
    by (auto simp: e(2) parsed_offer_def init_hash_def hash512_def fingerprint_length)
  obtain answer material where mm: "mat = (answer, material)" by (cases mat)
  have id: "of_peer_id parsed = id_id toy_identity" using e(2,6) t(9) by (simp add: parsed_offer_def toy_identity_def)
  obtain b1 where reply: "reply_handshake_for toy_prims (\<lambda>_. Inr ()) 0 ?d' offer HP_Standard toy_client = (Inr answer, b1)"
      and tags: "distinct (map (\<lambda>(k, i). ac_finish_route_tag i) (hy_accepted_inits b1))"
    using mat t e(1,3) id
    by (auto simp: reply_handshake_for_def record_candidate_def st_bind_def st_lift_def st_modify_def empty mm prepare_inbound_responder_attempt_def
        has_inbound_candidate_def reject_collection_growth_def MAX_PENDING_HANDSHAKES_def checked_add_usize_def usize_max_def
        offered_contact_def persist_def Let_def e(2) parsed_offer_def toy_peer_def)
  show ?thesis
    using handshake_completes [OF toy_crypto_ok t(1-4) _ t(1-4) _ t(5,6) d new _ init reply tags, of 0 0] init reply
    by (simp add: t empty handshake_fresh_def) blast
qed

end
