(* ===== verification/Hs_Invariant.thy ===== *)
theory Hs_Invariant
  imports Hs_Agree
begin

text \<open>
  What every operation keeps of the state of the facade (\<open>facade_ok\<close>): the receive-route index is exact, the tables
  have unique keys within their limits and only speak of known contacts, and for each contact and purpose there is at
  most one handshake attempt in flight, of either direction. Shown here for the operations of the handshake and for
  the burning of sessions, on success and on every error.
\<close>

section \<open>The invariant\<close>

definition peers_known :: "Hydra \<Rightarrow> bool" where
  "peers_known h \<longleftrightarrow> (let known = fst ` set (hy_contacts h) in
     po_contact_id ` snd ` set (hy_pending_offers h) \<subseteq> known \<and> ac_contact_id ` snd ` set (hy_accepted_inits h) \<subseteq> known \<and>
     fst ` set (hy_sessions h) \<subseteq> known \<and> fst ` set (hy_session_route_tags h) \<subseteq> known)"

definition tables_ok :: "Hydra \<Rightarrow> bool" where
  "tables_ok h \<longleftrightarrow> distinct (map fst (hy_contacts h)) \<and> distinct (map fst (hy_pending_offers h)) \<and>
     distinct (map fst (hy_accepted_inits h)) \<and> distinct (map fst (hy_sessions h)) \<and> length (hy_contacts h) \<le> MAX_CONTACTS \<and>
     length (hy_pending_offers h) \<le> MAX_PENDING_HANDSHAKES \<and> length (hy_accepted_inits h) \<le> MAX_PENDING_HANDSHAKES"

text \<open>The attempts in flight with a contact: offers of our own, and answered INITs that wait for their FINISH.\<close>

definition offers_to :: "ContactId \<Rightarrow> HandshakePurpose \<Rightarrow> (bytes \<times> PendingOffer) list \<Rightarrow> nat" where
  "offers_to c purpose m = length (filter (\<lambda>(k, p). po_contact_id p = c \<and> po_purpose p = purpose) m)"

definition candidates_of :: "ContactId \<Rightarrow> HandshakePurpose \<Rightarrow> (AcceptedInitKey \<times> AcceptedInit) list \<Rightarrow> nat" where
  "candidates_of c purpose m =
     length (filter (\<lambda>(k, a). ac_contact_id a = c \<and> ac_purpose a = purpose \<and> ac_candidate a \<noteq> None) m)"

definition single_attempts :: "Hydra \<Rightarrow> bool" where
  "single_attempts h \<longleftrightarrow>
     (\<forall>c purpose. offers_to c purpose (hy_pending_offers h) + candidates_of c purpose (hy_accepted_inits h) \<le> 1)"

definition facade_ok :: "CryptoPrims \<Rightarrow> Hydra \<Rightarrow> bool" where
  "facade_ok P h \<longleftrightarrow> routing_ok P h \<and> peers_known h \<and> tables_ok h \<and> single_attempts h"

lemma facade_okD:
  assumes "facade_ok P h"
  shows "routing_ok P h" and "peers_known h" and "tables_ok h" and "single_attempts h" and "directory_ok h"
  using assms by (simp_all add: facade_ok_def directory_ok_def peers_known_def tables_ok_def Let_def)

text \<open>The invariant only looks at some tables.\<close>

definition same_tables :: "Hydra \<Rightarrow> Hydra \<Rightarrow> bool" where
  "same_tables h h' \<longleftrightarrow> same_routing h h' \<and> hy_contacts h' = hy_contacts h \<and> hy_pending_offers h' = hy_pending_offers h \<and>
     hy_accepted_inits h' = hy_accepted_inits h"

lemma facade_ok_cong: "same_tables h h' \<Longrightarrow> facade_ok P h \<Longrightarrow> facade_ok P h'"
  by (simp add: same_tables_def facade_ok_def peers_known_def tables_ok_def single_attempts_def routing_ok_cong same_routing_def)

lemma persist_keeps: "keeps (facade_ok P) (persist disk)"
  unfolding keeps_def
proof (intro allI impI)
  fix h assume ok: "facade_ok P h"
  show "facade_ok P (snd (persist disk h))"
    by (rule facade_ok_cong [OF _ ok]) (simp add: persist_def Let_def same_tables_def same_routing_def split: sum.split)
qed

section \<open>Fewer attempts\<close>

text \<open>Dropping offers and candidates.\<close>

definition fewer_attempts :: "Hydra \<Rightarrow> Hydra \<Rightarrow> bool" where
  "fewer_attempts h h' \<longleftrightarrow> same_routing h h' \<and> hy_contacts h' = hy_contacts h \<and>
     (distinct (map fst (hy_pending_offers h)) \<longrightarrow> distinct (map fst (hy_pending_offers h'))) \<and>
     (distinct (map fst (hy_accepted_inits h)) \<longrightarrow> distinct (map fst (hy_accepted_inits h'))) \<and>
     length (hy_pending_offers h') \<le> length (hy_pending_offers h) \<and> length (hy_accepted_inits h') \<le> length (hy_accepted_inits h) \<and>
     po_contact_id ` snd ` set (hy_pending_offers h') \<subseteq> po_contact_id ` snd ` set (hy_pending_offers h) \<and>
     ac_contact_id ` snd ` set (hy_accepted_inits h') \<subseteq> ac_contact_id ` snd ` set (hy_accepted_inits h) \<and>
     (\<forall>c purpose. offers_to c purpose (hy_pending_offers h') \<le> offers_to c purpose (hy_pending_offers h) \<and>
        candidates_of c purpose (hy_accepted_inits h') \<le> candidates_of c purpose (hy_accepted_inits h))"

lemma offers_to_retain: "offers_to c purpose (retain keep m) \<le> offers_to c purpose m"
  by (induction m) (auto simp: offers_to_def retain_def)

lemma candidates_of_retain: "candidates_of c purpose (retain keep m) \<le> candidates_of c purpose m"
  by (induction m) (auto simp: candidates_of_def retain_def)

lemma candidates_of_drop:
  "candidates_of c purpose (map (\<lambda>(k, a). (k, if which k a then a\<lparr>ac_candidate := None\<rparr> else a)) m) \<le> candidates_of c purpose m"
proof (induction m)
  case (Cons x m)
  obtain k a where "x = (k, a)" by fastforce
  with Cons show ?case by (cases "which k a") (auto simp: candidates_of_def)
qed (simp add: candidates_of_def)

lemma drop_keys:
  "map fst (map (\<lambda>(k, a). (k, if which k a then a\<lparr>ac_candidate := None\<rparr> else a)) m) = map fst m"
  "ac_contact_id ` snd ` set (map (\<lambda>(k, a). (k, if which k a then a\<lparr>ac_candidate := None\<rparr> else a)) m) = ac_contact_id ` snd ` set m"
  by (induction m) auto

lemma retain_subset:
  "f ` snd ` set (retain keep m) \<subseteq> f ` snd ` set m" "length (retain keep m) \<le> length m"
  by (auto simp: retain_def)

lemma fewer_attempts_ok:
  assumes "fewer_attempts h h'" and "facade_ok P h"
  shows "facade_ok P h'"
proof -
  note f = assms(1) [unfolded fewer_attempts_def] and ok = facade_okD [OF assms(2)]
  have "offers_to c purpose (hy_pending_offers h') + candidates_of c purpose (hy_accepted_inits h') \<le> 1" for c purpose
    using ok(4) f unfolding single_attempts_def by (meson add_mono le_trans)
  moreover have "tables_ok h'" using ok(3) f by (auto simp: tables_ok_def same_routing_def)
  moreover have "peers_known h'"
  proof -
    have eq: "hy_contacts h' = hy_contacts h" "hy_sessions h' = hy_sessions h" "hy_session_route_tags h' = hy_session_route_tags h"
      and p: "po_contact_id ` snd ` set (hy_pending_offers h') \<subseteq> po_contact_id ` snd ` set (hy_pending_offers h)"
      and a: "ac_contact_id ` snd ` set (hy_accepted_inits h') \<subseteq> ac_contact_id ` snd ` set (hy_accepted_inits h)"
      using f unfolding same_routing_def by blast+
    show ?thesis using ok(2) order_trans [OF p] order_trans [OF a] unfolding peers_known_def Let_def eq by simp
  qed
  ultimately show ?thesis
    using routing_ok_cong [OF _ ok(1)] f by (simp add: facade_ok_def single_attempts_def)
qed

lemma fewer_drop: "fewer_attempts h (drop_candidates which h)"
  using candidates_of_drop drop_keys [of which "hy_accepted_inits h"]
  by (simp add: fewer_attempts_def drop_candidates_def same_routing_def del: map_map)

lemma fewer_retain:
  "fewer_attempts h (h\<lparr>hy_pending_offers := retain keep (hy_pending_offers h), hy_accepted_inits := retain keep' (hy_accepted_inits h)\<rparr>)"
  "fewer_attempts h (h\<lparr>hy_pending_offers := retain keep (hy_pending_offers h)\<rparr>)"
  by (simp_all add: fewer_attempts_def same_routing_def distinct_retain retain_subset offers_to_retain candidates_of_retain)

lemma fewer_trans: "fewer_attempts h g \<Longrightarrow> fewer_attempts g h' \<Longrightarrow> fewer_attempts h h'"
  unfolding fewer_attempts_def same_routing_def
  by (elim conjE, intro conjI allI impI) (simp; fail | metis order_trans)+

lemma fewer_steps:
  "fewer_attempts h (expire_handshakes now h)" "fewer_attempts h (supersede_inbound_candidates c purpose h)"
  "fewer_attempts h (supersede_outbound_attempts c purpose h)" "fewer_attempts h (retire_competing_handshakes c kept h)"
  unfolding expire_handshakes_def supersede_inbound_candidates_def supersede_outbound_attempts_def retire_competing_handshakes_def
  by (intro fewer_retain fewer_drop fewer_trans [OF fewer_retain(2) fewer_drop])+

section \<open>Stepping through an operation\<close>

text \<open>What a step keeps holds after the operation, whatever the step and the rest of the operation return.\<close>

lemma inv_lift: "I s \<Longrightarrow> (\<And>x. r = Inr x \<Longrightarrow> I (snd (f x s))) \<Longrightarrow> I (snd (st_bind (st_lift r) f s))"
  by (cases r) (simp_all add: st_bind_def st_lift_def)

lemma inv_modify: "I (snd (f () (g s))) \<Longrightarrow> I (snd (st_bind (st_modify g) f s))"
  by (simp add: st_bind_def st_modify_def)

lemma inv_end: "I s \<Longrightarrow> I (snd (st_lift r s))"
  by (simp add: st_lift_def)

lemma inv_bind:
  "(\<And>e t. m s = (Inl e, t) \<Longrightarrow> I t) \<Longrightarrow> (\<And>x t. m s = (Inr x, t) \<Longrightarrow> I (snd (f x t))) \<Longrightarrow> I (snd (st_bind m f s))"
  by (simp add: st_bind_def split: prod.split sum.split)

lemma inv_persist:
  assumes "facade_ok P s" and "\<And>t. facade_ok P t \<Longrightarrow> facade_ok P (snd (f () t))"
  shows "facade_ok P (snd (st_bind (persist disk) f s))"
proof (rule inv_bind)
  show "facade_ok P t" if "persist disk s = (Inl e, t)" for e t by (rule keepsD [OF persist_keeps that assms(1)])
  show "facade_ok P (snd (f x t))" if "persist disk s = (Inr x, t)" for x t
    using assms(2) [OF keepsD [OF persist_keeps that assms(1)]] by simp
qed

section \<open>New attempts\<close>

lemma length_update_le: "length (AList.update k v m) \<le> length m + 1"
  by (induction m) auto

lemma filter_update_le: "length (filter Q (AList.update k v m)) \<le> length (filter Q m) + (if Q (k, v) then 1 else 0)"
proof (induction m)
  case (Cons x m)
  show ?case
  proof (cases "fst x = k")
    case True
    then show ?thesis by (cases x) simp
  next
    case False
    then show ?thesis using Cons.IH by (cases x; cases "Q x") simp_all
  qed
qed simp

lemma update_values: "f ` snd ` set (AList.update k v m) \<subseteq> insert (f v) (f ` snd ` set m)"
proof (induction m)
  case (Cons x m)
  then show ?case by (cases x; cases "fst x = k") auto
qed simp

lemma add_offer_ok:
  assumes ok: "facade_ok P h" and known: "po_contact_id p \<in> fst ` set (hy_contacts h)"
    and none: "offers_to (po_contact_id p) (po_purpose p) (hy_pending_offers h) = 0"
      "candidates_of (po_contact_id p) (po_purpose p) (hy_accepted_inits h) = 0"
    and room: "length (hy_pending_offers h) + 1 \<le> MAX_PENDING_HANDSHAKES"
  shows "facade_ok P (h\<lparr>hy_pending_offers := AList.update k p (hy_pending_offers h)\<rparr>)" (is "facade_ok P ?h")
proof -
  note o = facade_okD [OF ok]
  have "routing_ok P ?h" by (rule routing_ok_cong [OF _ o(1)]) (simp add: same_routing_def)
  moreover have "peers_known ?h"
    using o(2) known order_trans [OF update_values [of po_contact_id k p "hy_pending_offers h"]] by (simp add: peers_known_def Let_def)
  moreover have "tables_ok ?h"
    using o(3) room length_update_le [of k p "hy_pending_offers h"] by (simp add: tables_ok_def distinct_update)
  moreover have "offers_to c purpose (AList.update k p (hy_pending_offers h)) + candidates_of c purpose (hy_accepted_inits h) \<le> 1" for c purpose
  proof -
    have "offers_to c purpose (hy_pending_offers h) + candidates_of c purpose (hy_accepted_inits h) \<le> 1"
      using o(4) by (simp add: single_attempts_def)
    then show ?thesis
      using none filter_update_le [of "\<lambda>(k, p). po_contact_id p = c \<and> po_purpose p = purpose" k p "hy_pending_offers h"]
      by (cases "po_contact_id p = c \<and> po_purpose p = purpose") (auto simp: offers_to_def)
  qed
  ultimately show ?thesis by (simp add: facade_ok_def single_attempts_def)
qed

lemma add_accepted_ok:
  assumes ok: "facade_ok P h" and known: "ac_contact_id a \<in> fst ` set (hy_contacts h)"
    and none: "ac_candidate a = None \<or> offers_to (ac_contact_id a) (ac_purpose a) (hy_pending_offers h) = 0 \<and>
      candidates_of (ac_contact_id a) (ac_purpose a) (hy_accepted_inits h) = 0"
    and room: "length (AList.update k a (hy_accepted_inits h)) \<le> MAX_PENDING_HANDSHAKES"
  shows "facade_ok P (h\<lparr>hy_accepted_inits := AList.update k a (hy_accepted_inits h)\<rparr>)" (is "facade_ok P ?h")
proof -
  note o = facade_okD [OF ok]
  have "routing_ok P ?h" by (rule routing_ok_cong [OF _ o(1)]) (simp add: same_routing_def)
  moreover have "peers_known ?h"
    using o(2) known order_trans [OF update_values [of ac_contact_id k a "hy_accepted_inits h"]] by (simp add: peers_known_def Let_def)
  moreover have "tables_ok ?h"
    using o(3) room by (simp add: tables_ok_def distinct_update)
  moreover have "offers_to c purpose (hy_pending_offers h) + candidates_of c purpose (AList.update k a (hy_accepted_inits h)) \<le> 1" for c purpose
  proof -
    have "offers_to c purpose (hy_pending_offers h) + candidates_of c purpose (hy_accepted_inits h) \<le> 1"
      using o(4) by (simp add: single_attempts_def)
    then show ?thesis
      using none filter_update_le [of "\<lambda>(k, a). ac_contact_id a = c \<and> ac_purpose a = purpose \<and> ac_candidate a \<noteq> None" k a "hy_accepted_inits h"]
      by (cases "ac_contact_id a = c \<and> ac_purpose a = purpose \<and> ac_candidate a \<noteq> None") (auto simp: candidates_of_def)
  qed
  ultimately show ?thesis by (simp add: facade_ok_def single_attempts_def)
qed

text \<open>The guards of INIT and RESP leave no other attempt.\<close>

lemma no_offer_left:
  assumes "pending_retry h c i purpose = None" and "reject_other_pending_attempt h c i purpose = Inr ()"
  shows "offers_to c purpose (hy_pending_offers h) = 0"
proof -
  have "False" if "(k, p) \<in> set (hy_pending_offers h)" "po_contact_id p = c" "po_purpose p = purpose" for k p
  proof -
    have "p \<in> set (map snd (hy_pending_offers h))" using that(1) by force
    then show False
      using assms that(2,3)
      by (auto simp: pending_retry_def reject_other_pending_attempt_def ensure_Inr_iff find_None_iff list_ex_iff simp del: set_map)
  qed
  then show ?thesis by (auto simp: offers_to_def filter_empty_conv)
qed

lemma no_candidate_iff: "candidates_of c purpose (hy_accepted_inits h) = 0 \<longleftrightarrow> \<not> has_inbound_candidate h c purpose"
  by (auto simp: has_inbound_candidate_def candidates_of_def list_ex_iff filter_empty_conv)

lemma no_candidate_left:
  assumes "prepare_local_initiator_attempt P h c mine theirs purpose = Inr over"
    and "g = (if over then supersede_inbound_candidates c purpose h else h)"
  shows "candidates_of c purpose (hy_accepted_inits g) = 0"
proof (cases "has_inbound_candidate h c purpose")
  case True
  then have "over" using assms(1) by (auto simp: prepare_local_initiator_attempt_def Let_def split: if_splits)
  then show ?thesis
    using assms(2) by (auto simp: supersede_inbound_candidates_def drop_candidates_def candidates_of_def filter_empty_conv split: if_splits)
next
  case False
  then have "\<not> over" using assms(1) by (simp add: prepare_local_initiator_attempt_def)
  then show ?thesis using False assms(2) by (simp add: no_candidate_iff)
qed

lemma no_attempt_left:
  assumes "prepare_inbound_responder_attempt P h c mine theirs purpose = Inr over"
    and "g = (if over then supersede_outbound_attempts c purpose h else h)"
  shows "offers_to c purpose (hy_pending_offers g) = 0" and "candidates_of c purpose (hy_accepted_inits g) = 0"
proof -
  have over: "over \<longleftrightarrow> list_ex (\<lambda>p. po_contact_id p = c \<and> po_purpose p = purpose) (map snd (hy_pending_offers h))"
    and none: "\<not> has_inbound_candidate h c purpose"
    using assms(1) by (auto simp: prepare_inbound_responder_attempt_def Let_def result_simps split: if_splits)
  show "offers_to c purpose (hy_pending_offers g) = 0"
    using over assms(2)
    by (cases over) (auto simp: supersede_outbound_attempts_def offers_to_def retain_def filter_empty_conv list_ex_iff)
  show "candidates_of c purpose (hy_accepted_inits g) = 0"
    using none assms(2) by (simp add: no_candidate_iff [symmetric] supersede_outbound_attempts_def split: if_splits)
qed

section \<open>INIT and RESP\<close>

lemma growth_room: "reject_collection_growth n k m d = Inr () \<Longrightarrow> n + k \<le> m"
  by (auto simp: reject_collection_growth_def checked_add_usize_def result_simps split: if_splits option.splits)

lemma init_handshake_error:
  "init_handshake_for P now d c purpose h = (Inl e, h') \<Longrightarrow> h' = h \<or> h' = expire_handshakes now h"
  by (auto simp: init_handshake_for_def st_bind_Inl_iff st_bind_Inr_iff st_lift_iff st_modify_iff split: option.splits)

lemma init_handshake_keeps: "keeps (facade_ok P) (init_handshake_for P now d c purpose)"
  unfolding keeps_def
proof (intro allI impI)
  fix h assume ok: "facade_ok P h"
  let ?h = "expire_handshakes now h"
  have okh: "facade_ok P ?h" by (rule fewer_attempts_ok [OF fewer_steps(1) ok])
  obtain r h' where run: "init_handshake_for P now d c purpose h = (r, h')" by fastforce
  show "facade_ok P (snd (init_handshake_for P now d c purpose h))"
  proof (cases r)
    case (Inl e)
    then show ?thesis using init_handshake_error run ok okh by fastforce
  next
    case (Inr offer)
    obtain me contact where act: "active_unlocked_record ?h = Inr me" and ct: "map_of (hy_contacts h) c = Some contact"
      using run Inr by (auto simp: init_handshake_for_def result_simps require_contact_def)
    show ?thesis
    proof (cases "pending_retry ?h c (id_id me) purpose")
      case (Some old)
      then have "h' = ?h"
        using run Inr act ct by (auto simp: init_handshake_for_def result_simps require_contact_def)
      then show ?thesis using okh run by simp
    next
      case None
      obtain over parsed x dk where rej: "reject_other_pending_attempt ?h c (id_id me) purpose = Inr ()"
        and prep: "prepare_local_initiator_attempt P ?h c (id_public_key me) (ct_public_key contact) purpose = Inr over"
        and room: "length (hy_pending_offers ?h) + 1 \<le> MAX_PENDING_HANDSHAKES"
        and h': "h' = (let g = (if over then supersede_inbound_candidates c purpose ?h else ?h) in
          g\<lparr>hy_pending_offers := AList.update (of_init_hash parsed) \<lparr>po_contact_id = c, po_offer_bytes = offer, po_local_identity_id = id_id me,
             po_offer = parsed, po_x25519_secret = x, po_kem_decapsulation_key = dk, po_created_at = now, po_purpose = purpose\<rparr>
             (hy_pending_offers g)\<rparr>)"
        using run Inr act ct None
        by (auto simp: init_handshake_for_def result_simps require_contact_def Let_def dest!: growth_room)
      define g where "g = (if over then supersede_inbound_candidates c purpose ?h else ?h)"
      have okg: "facade_ok P g" using okh fewer_attempts_ok [OF fewer_steps(2) okh] by (simp add: g_def)
      have same: "hy_pending_offers g = hy_pending_offers ?h" "hy_contacts g = hy_contacts h"
        by (simp_all add: g_def supersede_inbound_candidates_def drop_candidates_def expire_keeps)
      have "facade_ok P h'"
        unfolding h' Let_def g_def [symmetric]
        using map_of_SomeD [OF ct] no_offer_left [OF None rej] no_candidate_left [OF prep g_def] room
        by (intro add_offer_ok [OF okg]) (force simp: same)+
      then show ?thesis using run by simp
    qed
  qed
qed

lemma add_contact_ok:
  assumes ok: "facade_ok P h" and new: "map_of (hy_contacts h) (ct_id contact) = None" and room: "length (hy_contacts h) + 1 \<le> MAX_CONTACTS"
    and k: "k = ct_id contact"
  shows "facade_ok P (h\<lparr>hy_contacts := AList.update k contact (hy_contacts h)\<rparr>)" (is "facade_ok P ?h")
proof -
  note o = facade_okD [OF ok]
  have keys: "fst ` set (AList.update k contact (hy_contacts h)) = insert k (fst ` set (hy_contacts h))"
    using dom_update [of k contact "hy_contacts h"] by simp
  have "routing_ok P ?h" by (rule routing_ok_cong [OF _ o(1)]) (simp add: same_routing_def)
  moreover have "peers_known ?h" using o(2) by (simp add: peers_known_def Let_def keys subset_insertI2)
  moreover have "tables_ok ?h"
    using o(3) room new k by (simp add: tables_ok_def distinct_update length_update_new)
  moreover have "single_attempts ?h" using o(4) by (simp add: single_attempts_def)
  ultimately show ?thesis by (simp add: facade_ok_def)
qed

lemma record_candidate_keeps:
  assumes ok: "facade_ok P k" and k: "hy_contacts k = hy_contacts h"
    and prep: "prepare_inbound_responder_attempt P k (of_peer_id parsed) mine (of_initiator_fingerprint parsed) purpose = Inr over"
    and room: "length (hy_accepted_inits k) + 1 \<le> MAX_PENDING_HANDSHAKES" and new: "offered_contact k parsed = Inr new"
  shows "facade_ok P (snd (record_candidate P disk now purpose parsed active over new answer material k))"
proof -
  define g where "g = (if over then supersede_outbound_attempts (of_peer_id parsed) purpose k else k)"
  have okg: "facade_ok P g" using ok fewer_attempts_ok [OF fewer_steps(3) ok] by (simp add: g_def)
  have same: "hy_contacts g = hy_contacts k" "hy_accepted_inits g = hy_accepted_inits k"
    by (simp_all add: g_def supersede_outbound_attempts_def)
  define g' where "g' = (case new of None \<Rightarrow> g | Some contact \<Rightarrow> g\<lparr>hy_contacts := AList.update (of_peer_id parsed) contact (hy_contacts g)\<rparr>)"
  have okg': "facade_ok P g'"
  proof (cases new)
    case (Some contact)
    have "facade_ok P (g\<lparr>hy_contacts := AList.update (of_peer_id parsed) contact (hy_contacts g)\<rparr>)"
      by (rule add_contact_ok [OF okg])
         (use new Some same in \<open>auto simp: offered_contact_def result_simps split: if_splits dest!: growth_room\<close>)
    then show ?thesis by (simp add: g'_def Some)
  qed (simp add: g'_def okg)
  have known: "of_peer_id parsed \<in> fst ` set (hy_contacts g')"
    using new same dom_update [of "of_peer_id parsed" _ "hy_contacts g"]
    by (auto simp: g'_def offered_contact_def result_simps map_of_eq_None_iff split: if_splits option.splits)
  have t: "hy_pending_offers g' = hy_pending_offers g" "hy_accepted_inits g' = hy_accepted_inits g" by (simp_all add: g'_def split: option.split)
  have "length (AList.update key a (hy_accepted_inits g')) \<le> MAX_PENDING_HANDSHAKES" for key a
    using length_update_le [of key a "hy_accepted_inits g'"] room by (simp add: t same)
  then have final: "facade_ok P (g'\<lparr>hy_accepted_inits := AList.update (init_key parsed) a (hy_accepted_inits g')\<rparr>)"
    if "ac_contact_id a = of_peer_id parsed" "ac_purpose a = purpose" for a
    using known no_attempt_left [OF prep g_def] that by (intro add_accepted_ok [OF okg']) (simp_all add: t)
  have eq: "record_candidate P disk now purpose parsed active over new answer material k =
    st_bind (persist disk) (\<lambda>_. st_lift (Inr answer)) (g'\<lparr>hy_accepted_inits := AList.update (init_key parsed)
       \<lparr>ac_contact_id = of_peer_id parsed, ac_local_identity_id = id_id active, ac_response = answer,
        ac_finish_route_tag = handshake_finish_route_tag P material, ac_purpose = purpose,
        ac_candidate = Some \<lparr>cand_material = material\<rparr>, ac_accepted_finish_hash = None, ac_created_at = now\<rparr>
       (hy_accepted_inits g')\<rparr>)"
    unfolding record_candidate_def Let_def st_bind_step(2) [OF st_modify_iff [THEN iffD2, OF conjI, OF refl refl]]
      g_def [symmetric] g'_def [symmetric] ..
  show ?thesis unfolding eq by (intro inv_persist final inv_end [where I = "facade_ok P"]) simp_all
qed

lemma reply_handshake_keeps: "keeps (facade_ok P) (reply_handshake_for P disk now d offer purpose)"
  unfolding keeps_def
proof (intro allI impI)
  fix h assume ok: "facade_ok P h"
  let ?h = "expire_handshakes now h"
  have okh: "facade_ok P ?h" by (rule fewer_attempts_ok [OF fewer_steps(1) ok])
  have tail: "facade_ok P (snd (record_candidate P disk now purpose parsed active over new answer material ?h))"
    if "prepare_inbound_responder_attempt P ?h (of_peer_id parsed) (id_public_key active) (of_initiator_fingerprint parsed) purpose = Inr over"
      "reject_collection_growth (length (hy_accepted_inits ?h)) 1 MAX_PENDING_HANDSHAKES ''accepted INIT cache limit'' = Inr ()"
      "offered_contact ?h parsed = Inr new" for parsed active over new answer material
    by (rule record_candidate_keeps [OF okh _ that(1) growth_room [OF that(2)] that(3)]) simp
  show "facade_ok P (snd (reply_handshake_for P disk now d offer purpose h))"
    unfolding reply_handshake_for_def
    by (rule inv_lift [where I = "facade_ok P", OF ok])
       (auto simp: Let_def rbind_Inr_iff intro!: inv_modify [where I = "facade_ok P"] inv_lift [where I = "facade_ok P", OF okh]
          inv_end [where I = "facade_ok P", OF okh] tail split: option.split)
qed

section \<open>FINISH\<close>

lemma install_tags_keys:
  assumes "install_session_route_tags c tags h = (Inr (), h')"
  shows "fst ` set (hy_session_route_tags h') \<subseteq> insert c (fst ` set (hy_session_route_tags h))"
proof -
  have "fst ` set (AList.update c (remdups tags) (AList.delete c (hy_session_route_tags h))) \<subseteq> insert c (fst ` set (hy_session_route_tags h))"
    using dom_update [of c "remdups tags" "AList.delete c (hy_session_route_tags h)"] by (auto simp: AList.delete_eq)
  moreover have "fst ` set (AList.update c (remdups tags) (hy_session_route_tags h)) \<subseteq> insert c (fst ` set (hy_session_route_tags h))"
    using dom_update [of c "remdups tags" "hy_session_route_tags h"] by auto
  ultimately show ?thesis
    unfolding install_routes_Inr(3) [OF assms] Let_def
    by (cases "map_of (hy_session_route_tags h) c") (simp_all add: remove_session_routes_def)
qed

lemma install_session_Inr:
  assumes "install_session P c s h = (Inr (), h')"
  shows "\<exists>tags g. candidate_receive_route_tags P s = Inr tags \<and> install_session_route_tags c tags h = (Inr (), g) \<and>
    h' = g\<lparr>hy_sessions := AList.update c \<lparr>sr_state = s, sr_closed = False, sr_outbound_messages = 0,
       sr_rollback_generation_floor = (case map_of (hy_peer_generation_floors g) c of None \<Rightarrow> 0 | Some n \<Rightarrow> n)\<rparr> (hy_sessions g)\<rparr>"
  using assms by (auto simp: install_session_def result_simps from_session_def map_err_Inr_iff Let_def)

lemma install_session_keeps:
  assumes ok: "facade_ok P h" and c: "c \<in> fst ` set (hy_contacts h)" and run: "install_session P c s h = (r, h')"
  shows "facade_ok P h'"
proof (cases r)
  case (Inl e)
  then show ?thesis using install_session_error run ok by blast
next
  case (Inr u)
  note run' = run [unfolded Inr]
  obtain tags g v where g: "install_session_route_tags c tags h = (Inr (), g)" and h': "h' = g\<lparr>hy_sessions := AList.update c v (hy_sessions g)\<rparr>"
    using install_session_Inr [of P c s h h'] run' by auto
  note o = facade_okD [OF ok]
  note same = same_but_routesD [OF install_routes_effect(4) [OF routing_okD(1) [OF o(1)] g]]
  have "routing_ok P h'" using install_session_effect(1) [OF o(1)] run' by simp
  moreover have "peers_known h'"
  proof -
    have "fst ` set (AList.update c v (hy_sessions h)) = insert c (fst ` set (hy_sessions h))"
      using dom_update [of c v "hy_sessions h"] by simp
    then show ?thesis
      using o(2) c order_trans [OF install_tags_keys [OF g]] by (simp add: peers_known_def Let_def h' same)
  qed
  moreover have "tables_ok h'" using o(3) by (simp add: tables_ok_def h' same distinct_update)
  moreover have "single_attempts h'" using o(4) by (simp add: single_attempts_def h' same)
  ultimately show ?thesis by (simp add: facade_ok_def)
qed

lemma length_update_known: "map_of m k = Some v \<Longrightarrow> length (AList.update k w m) = length m"
  by (induction m) (auto split: if_splits)

lemma finish_handshake_keeps: "keeps (facade_ok P) (finish_handshake_for P now answer purpose)"
  unfolding keeps_def
proof (intro allI impI)
  fix h assume ok: "facade_ok P h"
  let ?h = "expire_handshakes now h"
  have okh: "facade_ok P ?h" by (rule fewer_attempts_ok [OF fewer_steps(1) ok])
  have known: "c \<in> fst ` set (hy_contacts ?h)" if "finish_answer P parsed purpose active ?h = Inr (c, finish, s)" for parsed active c finish s
    using that by (force simp: finish_answer_def require_contact_def result_simps dest: map_of_SomeD)
  have install: "facade_ok P (snd (st_bind (install_session P c s) (\<lambda>_. st_bind (st_modify (retire_competing_handshakes c None)) (\<lambda>_. st_lift (Inr finish))) ?h))"
    if "c \<in> fst ` set (hy_contacts ?h)" for c s finish
    using install_session_keeps [OF okh that]
    by (intro inv_bind [where I = "facade_ok P"] inv_modify [where I = "facade_ok P"] inv_end [where I = "facade_ok P"])
       (auto intro: fewer_attempts_ok [OF fewer_steps(4)])
  show "facade_ok P (snd (finish_handshake_for P now answer purpose h))"
    unfolding finish_handshake_for_def
    by (rule inv_lift [where I = "facade_ok P", OF ok], rule inv_modify [where I = "facade_ok P"],
        rule inv_lift [where I = "facade_ok P", OF okh], rule inv_lift [where I = "facade_ok P", OF okh])
       (auto intro!: install dest: known)
qed

lemma accept_finish_keeps: "keeps (facade_ok P) (accept_handshake_finish_for P disk now finish purpose)"
  unfolding keeps_def
proof (intro allI impI)
  fix h assume ok: "facade_ok P h"
  let ?h = "expire_handshakes now h"
  have okh: "facade_ok P ?h" by (rule fewer_attempts_ok [OF fewer_steps(1) ok])
  have known: "c \<in> fst ` set (hy_contacts ?h)" if acc: "accept_finish_entry P finish purpose active key ?h = Inr (Some (c, s))" for active key c s
  proof -
    obtain entry where e: "map_of (hy_accepted_inits ?h) key = Some entry"
      using acc unfolding accept_finish_entry_def rbind_Inr_iff ok_or_Inr_iff by blast
    have "c = ac_contact_id entry"
      using acc unfolding accept_finish_entry_def e
      by (cases "ac_accepted_finish_hash entry") (auto simp: Let_def result_simps split: if_splits)
    with e have "c \<in> ac_contact_id ` snd ` set (hy_accepted_inits ?h)" by (force dest: map_of_SomeD)
    then show ?thesis using facade_okD(2) [OF okh] unfolding peers_known_def Let_def by blast
  qed
  have retire: "facade_ok P (case map_of (hy_accepted_inits g) key of None \<Rightarrow> g
     | Some entry \<Rightarrow> g\<lparr>hy_accepted_inits := AList.update key (entry\<lparr>ac_candidate := None, ac_accepted_finish_hash := Some x\<rparr>) (hy_accepted_inits g)\<rparr>)"
    if "facade_ok P g" for g key x
  proof (cases "map_of (hy_accepted_inits g) key")
    case (Some entry)
    have "ac_contact_id entry \<in> ac_contact_id ` snd ` set (hy_accepted_inits g)" using map_of_SomeD [OF Some] by force
    then have "ac_contact_id entry \<in> fst ` set (hy_contacts g)"
      using facade_okD(2) [OF that] unfolding peers_known_def Let_def by blast
    moreover have "length (AList.update key v (hy_accepted_inits g)) \<le> MAX_PENDING_HANDSHAKES" for v
      using facade_okD(3) [OF that] Some length_update_known [of "hy_accepted_inits g" key] by (simp add: tables_ok_def)
    ultimately show ?thesis unfolding Some option.case by (intro add_accepted_ok [OF that]) simp_all
  qed (simp add: that)
  have install: "facade_ok P (snd (st_bind (install_session P c s) (\<lambda>_. st_bind (st_modify (retire_competing_handshakes c (Some key))) (\<lambda>_.
       st_bind (st_modify (\<lambda>h. case map_of (hy_accepted_inits h) key of None \<Rightarrow> h
           | Some entry \<Rightarrow> h\<lparr>hy_accepted_inits := AList.update key
               (entry\<lparr>ac_candidate := None, ac_accepted_finish_hash := Some (sha3_256 P finish)\<rparr>) (hy_accepted_inits h)\<rparr>)) (\<lambda>_.
           persist disk))) ?h))"
    if "c \<in> fst ` set (hy_contacts ?h)" for c s key
  proof (rule inv_bind [where I = "facade_ok P"])
    fix u t assume t: "install_session P c s ?h = (Inr u, t)"
    have "facade_ok P (retire_competing_handshakes c (Some key) t)"
      by (rule fewer_attempts_ok [OF fewer_steps(4) install_session_keeps [OF okh that t]])
    note last = retire [OF this, of key "sha3_256 P finish"]
    show "facade_ok P (snd (st_bind (st_modify (retire_competing_handshakes c (Some key))) (\<lambda>_.
       st_bind (st_modify (\<lambda>h. case map_of (hy_accepted_inits h) key of None \<Rightarrow> h
           | Some entry \<Rightarrow> h\<lparr>hy_accepted_inits := AList.update key
               (entry\<lparr>ac_candidate := None, ac_accepted_finish_hash := Some (sha3_256 P finish)\<rparr>) (hy_accepted_inits h)\<rparr>)) (\<lambda>_.
           persist disk)) t))"
      by (intro inv_modify [where I = "facade_ok P"]) (use persist_keeps [of P disk] last in \<open>simp add: keeps_def\<close>)
  qed (rule install_session_keeps [OF okh that])
  show "facade_ok P (snd (accept_handshake_finish_for P disk now finish purpose h))"
    unfolding accept_handshake_finish_for_def
    by (rule inv_modify [where I = "facade_ok P"], rule inv_lift [where I = "facade_ok P", OF okh])
       (auto simp: rbind_Inr_iff intro!: install inv_end [where I = "facade_ok P", OF okh] dest: known split: option.split)
qed

section \<open>Burning sessions\<close>

lemma delete_keys: "fst ` set (AList.delete c m) \<subseteq> fst ` set m"
  by (auto simp: AList.delete_eq)

lemma remove_routes_keeps: "facade_ok P h \<Longrightarrow> facade_ok P (remove_session_routes c h)"
proof -
  assume ok: "facade_ok P h"
  note o = facade_okD [OF ok] and same = same_but_routesD [OF remove_session_routes_same [of h c]]
  have "fst ` set (hy_session_route_tags (remove_session_routes c h)) \<subseteq> fst ` set (hy_session_route_tags h)"
    using delete_keys [of c "hy_session_route_tags h"]
    by (cases "map_of (hy_session_route_tags h) c") (simp_all add: remove_session_routes_def)
  from order_trans [OF this] have "peers_known (remove_session_routes c h)"
    using o(2) by (simp add: peers_known_def Let_def same)
  then show ?thesis
    using o routing_ok_remove [OF o(1)] by (simp add: facade_ok_def tables_ok_def single_attempts_def same)
qed

text \<open>Sessions that have no receive routes can be dropped or changed.\<close>

lemma change_sessions_keeps:
  assumes ok: "facade_ok P h" and t: "tags_of c h = []" and s: "\<And>d. d \<noteq> c \<Longrightarrow> map_of m d = map_of (hy_sessions h) d"
    and m: "distinct (map fst m)" "fst ` set m \<subseteq> fst ` set (hy_contacts h)"
  shows "facade_ok P (h\<lparr>hy_sessions := m\<rparr>)" (is "facade_ok P ?h")
proof -
  note o = facade_okD [OF ok]
  have same: "tags_of d ?h = tags_of d h" "route_bucket b ?h = route_bucket b h" "index_size ?h = index_size h" for d b
    by (simp_all add: tags_of_def route_bucket_def index_size_def)
  have "route_index_ok ?h" using routing_okD(1) [OF o(1)] unfolding route_index_ok_def same by simp
  moreover have "index_current P ?h"
    by (rule index_current_frame [OF routing_okD(2) [OF o(1)], where c = c]) (simp_all add: same t s)
  ultimately have "routing_ok P ?h" by (simp add: routing_ok_def)
  then show ?thesis
    using o m by (simp add: facade_ok_def peers_known_def tables_ok_def single_attempts_def Let_def)
qed

lemma burn_contact_keeps: "facade_ok P h \<Longrightarrow> facade_ok P (burn_contact_session c h)"
proof -
  assume ok: "facade_ok P h"
  let ?g = "remove_session_routes c h"
  have okg: "facade_ok P ?g" by (rule remove_routes_keeps [OF ok])
  have t: "tags_of c ?g = []" using remove_session_routes_effect(3) [OF routing_okD(1) [OF facade_okD(1) [OF ok]], of c c] by simp
  have "facade_ok P (?g\<lparr>hy_sessions := AList.delete c (hy_sessions ?g)\<rparr>)"
    using facade_okD(2,3) [OF okg] order_trans [OF delete_keys [of c "hy_sessions ?g"], of "fst ` set (hy_contacts ?g)"]
    by (intro change_sessions_keeps [OF okg t]) (simp_all add: delete_conv' tables_ok_def distinct_delete peers_known_def Let_def)
  from fewer_attempts_ok [OF fewer_retain(1) this]
  show ?thesis by (simp add: burn_contact_session_def Let_def)
qed

lemma same_but_routes_trans: "same_but_routes a b \<Longrightarrow> same_but_routes b c \<Longrightarrow> same_but_routes a c"
  unfolding same_but_routes_def by (metis (no_types, lifting) Hydra.surjective Hydra.update_convs(8,9))

lemma remove_all_routes:
  assumes "facade_ok P h"
  shows "facade_ok P (fold remove_session_routes cs h)" and "tags_of d (fold remove_session_routes cs h) = (if d \<in> set cs then [] else tags_of d h)"
    and "same_but_routes h (fold remove_session_routes cs h)"
  using assms
proof (induction cs arbitrary: h)
  case (Cons c cs)
  { case 1
    show ?case using Cons.IH(1) [OF remove_routes_keeps [OF 1]] by simp }
  { case 2
    show ?case
      using Cons.IH(2) [OF remove_routes_keeps [OF 2]] remove_session_routes_effect(3) [OF routing_okD(1) [OF facade_okD(1) [OF 2]], where c = c and d = d] by (cases "d = c") simp_all }
  { case 3
    show ?case
      using Cons.IH(3) [OF remove_routes_keeps [OF 3]] remove_session_routes_same [of h c] by (auto intro: same_but_routes_trans) }
qed (simp_all add: same_but_routes_def)

lemma burn_all_keeps: "facade_ok P h \<Longrightarrow> facade_ok P (burn_all_sessions h)"
proof -
  assume ok: "facade_ok P h"
  let ?g = "fold remove_session_routes (map fst (hy_sessions h)) h"
  note g = remove_all_routes [OF ok, where cs = "map fst (hy_sessions h)"] and o = facade_okD [OF remove_all_routes(1) [OF ok, where cs = "map fst (hy_sessions h)"]]
  have none: "tags_of d ?g = []" for d
  proof (cases "map_of (hy_sessions h) d")
    case None
    then have "open_session h d = None" by (simp add: open_session_def)
    then have "tags_of d h = []" using routing_okD(2) [OF facade_okD(1) [OF ok]] by (auto simp: index_current_def)
    then show ?thesis using g(2) [of d] by simp
  next
    case (Some s)
    then show ?thesis using g(2) [of d] by (force dest: map_of_SomeD)
  qed
  have same: "tags_of d (?g\<lparr>hy_sessions := []\<rparr>) = tags_of d ?g" "route_bucket b (?g\<lparr>hy_sessions := []\<rparr>) = route_bucket b ?g"
    "index_size (?g\<lparr>hy_sessions := []\<rparr>) = index_size ?g" for d b
    by (simp_all add: tags_of_def route_bucket_def index_size_def)
  have "route_index_ok (?g\<lparr>hy_sessions := []\<rparr>)" using routing_okD(1) [OF o(1)] unfolding route_index_ok_def same by simp
  moreover have "index_current P (?g\<lparr>hy_sessions := []\<rparr>)" by (simp add: index_current_def same none)
  ultimately have "facade_ok P (?g\<lparr>hy_sessions := []\<rparr>)"
    using o by (simp add: facade_ok_def routing_ok_def peers_known_def tables_ok_def single_attempts_def Let_def)
  from fewer_attempts_ok [OF fewer_retain(1) [of _ "\<lambda>_. False" "\<lambda>_. False"] this]
  show ?thesis by (simp add: burn_all_sessions_def Let_def retain_def case_prod_unfold)
qed

section \<open>Any sequence of handshake operations\<close>

datatype HsCall =
    InitCall nat InitDraws ContactId HandshakePurpose
  | ReplyCall nat ReplyDraws bytes HandshakePurpose
  | FinishCall nat bytes HandshakePurpose
  | AcceptCall nat bytes HandshakePurpose
  | BurnCall ContactId
  | BurnAllCall

fun hs_call :: "CryptoPrims \<Rightarrow> Disk \<Rightarrow> HsCall \<Rightarrow> Hydra \<Rightarrow> Hydra" where
  "hs_call P disk (InitCall now d c purpose) h = snd (init_handshake_for P now d c purpose h)"
| "hs_call P disk (ReplyCall now d offer purpose) h = snd (reply_handshake_for P disk now d offer purpose h)"
| "hs_call P disk (FinishCall now answer purpose) h = snd (finish_handshake_for P now answer purpose h)"
| "hs_call P disk (AcceptCall now finish purpose) h = snd (accept_handshake_finish_for P disk now finish purpose h)"
| "hs_call P disk (BurnCall c) h = burn_contact_session c h"
| "hs_call P disk BurnAllCall h = burn_all_sessions h"

lemma hs_call_ok: "facade_ok P h \<Longrightarrow> facade_ok P (hs_call P disk call h)"
  using init_handshake_keeps reply_handshake_keeps finish_handshake_keeps accept_finish_keeps
  by (cases call) (auto simp: keeps_def burn_contact_keeps burn_all_keeps)

end
