(* ===== verification/App_Channel.thy ===== *)
theory App_Channel
  imports App_Records Hs_Invariant
begin

text \<open>
  Messages through the facade: the generation binding of \<open>handshake/rollback.rs\<close>, sealing and opening over the
  sessions (\<open>handshake/channel.rs\<close>), the message limit of a session (\<open>handshake/security.rs\<close>), and the public send
  and receive operations of \<open>messages/mod.rs\<close>, \<open>api/receive.rs\<close> and \<open>lobby/delivery.rs\<close>. Random bytes are functions
  from a length (\<open>rng\<close>) or from the number of the draw (\<open>hints\<close>) to what the system returned.
\<close>

section \<open>Operations on a part of the state\<close>

definition on_store :: "'a store_op \<Rightarrow> 'a hydra_op" where
  "on_store m h = (let (r, s) = m (hy_store h) in (r, h\<lparr>hy_store := s\<rparr>))"

definition on_pending :: "'a pending_op \<Rightarrow> 'a hydra_op" where
  "on_pending m h = (let (r, pending) = m (hy_pending_fragments h) in (r, h\<lparr>hy_pending_fragments := pending\<rparr>))"

definition update_session :: "ContactId \<Rightarrow> (SessionRecord \<Rightarrow> SessionRecord) \<Rightarrow> Hydra \<Rightarrow> Hydra" where
  "update_session contact_id f h = (case map_of (hy_sessions h) contact_id of None \<Rightarrow> h
     | Some session \<Rightarrow> h\<lparr>hy_sessions := AList.update contact_id (f session) (hy_sessions h)\<rparr>)"

definition is_blocked :: "ContactId \<Rightarrow> Hydra \<Rightarrow> bool" where
  "is_blocked contact_id h = (case map_of (hy_contacts h) contact_id of None \<Rightarrow> False | Some contact \<Rightarrow> ct_blocked contact)"

section \<open>The generation binding\<close>

definition GENERATION_BINDING_MAGIC :: bytes where "GENERATION_BINDING_MAGIC = ascii ''HYDRA-MSG-GEN1''"

definition generation_bound_content :: "bytes \<Rightarrow> bytes option" where
  "generation_bound_content payload =
     (if length payload < STATE_GENERATION_BINDING_OVERHEAD \<or> take (length GENERATION_BINDING_MAGIC) payload \<noteq> GENERATION_BINDING_MAGIC
      then None else Some (drop STATE_GENERATION_BINDING_OVERHEAD payload))"

definition wrap_outbound_generation :: "bytes \<Rightarrow> Hydra \<Rightarrow> bytes" where
  "wrap_outbound_generation payload h =
     (let generation = saturating_add_u64 (hy_state_generation h) 1 in GENERATION_BINDING_MAGIC @ be_bytes 8 generation @ payload)"

definition accept_inbound_generation :: "ContactId \<Rightarrow> bytes \<Rightarrow> bytes hydra_op" where
  "accept_inbound_generation contact_id payload h =
     st_bind (st_lift (
       rbind (ok_or (generation_bound_content payload) (HE_InvalidEncoding ''state generation binding'')) (\<lambda>content.
       let generation_offset = length GENERATION_BINDING_MAGIC;
           generation = be_word (slice generation_offset (generation_offset + 8) payload) :: u64 in
       rbind (ok_or (map_of (hy_sessions h) contact_id) HE_SessionNotFound) (\<lambda>session.
         Inr (content, generation, sr_rollback_generation_floor session))))) (\<lambda>(content, generation, rollback_floor).
     if generation < rollback_floor
     then st_bind (st_modify (burn_contact_session contact_id)) (\<lambda>_. st_lift (Inl HE_StateRollbackDetected))
     else st_bind (st_modify (\<lambda>h. h\<lparr>hy_peer_generation_floors := AList.update contact_id
            (case map_of (hy_peer_generation_floors h) contact_id of None \<Rightarrow> generation | Some floor \<Rightarrow> max floor generation)
            (hy_peer_generation_floors h)\<rparr>)) (\<lambda>_. st_lift (Inr content))) h"

section \<open>The message limit of a session\<close>

definition session_security_policy :: "ContactId \<Rightarrow> Hydra \<Rightarrow> HydraSessionSecurityPolicy HydraResult" where
  "session_security_policy contact_id h =
     rbind (require_contact contact_id h) (\<lambda>_.
       Inr (case map_of (hy_session_security_policies h) contact_id of None \<Rightarrow> ratchet_only | Some policy \<Rightarrow> policy))"

definition limit_reached :: "HydraSessionSecurityPolicy \<Rightarrow> SessionRecord \<Rightarrow> bool" where
  "limit_reached policy session = (case max_outbound_messages_per_session policy of None \<Rightarrow> False
     | Some limit \<Rightarrow> limit \<le> sr_outbound_messages session)"

record HydraSessionSecurityStatus =
  ss_policy :: HydraSessionSecurityPolicy
  ss_outbound_messages_in_session :: u64
  ss_refresh_required :: bool

definition remaining_messages :: "HydraSessionSecurityStatus \<Rightarrow> u64 option" where
  "remaining_messages st = map_option (\<lambda>limit.
     if ss_outbound_messages_in_session st \<le> limit then limit - ss_outbound_messages_in_session st else 0)
     (max_outbound_messages_per_session (ss_policy st))"

definition session_security_status :: "ContactId \<Rightarrow> Hydra \<Rightarrow> HydraSessionSecurityStatus HydraResult" where
  "session_security_status contact_id h =
     rbind (session_security_policy contact_id h) (\<lambda>policy.
     rbind (require_session contact_id h) (\<lambda>session.
       Inr \<lparr>ss_policy = policy, ss_outbound_messages_in_session = sr_outbound_messages session,
         ss_refresh_required = limit_reached policy session\<rparr>))"

definition set_session_security_policy :: "Disk \<Rightarrow> ContactId \<Rightarrow> HydraSessionSecurityPolicy \<Rightarrow> unit hydra_op" where
  "set_session_security_policy disk contact_id policy h =
     st_bind (st_lift (require_contact contact_id h)) (\<lambda>_ h.
     let previous = map_of (hy_session_security_policies h) contact_id;
         h = h\<lparr>hy_session_security_policies := AList.update contact_id policy (hy_session_security_policies h)\<rparr> in
     case persist disk h of
       (Inr _, h) \<Rightarrow> (Inr (), h)
     | (Inl e, h) \<Rightarrow> (Inl e, h\<lparr>hy_session_security_policies := (case previous of
           Some policy \<Rightarrow> AList.update contact_id policy (hy_session_security_policies h)
         | None \<Rightarrow> AList.delete contact_id (hy_session_security_policies h))\<rparr>)) h"

definition set_session_refresh_interval :: "Disk \<Rightarrow> ContactId \<Rightarrow> u64 \<Rightarrow> unit hydra_op" where
  "set_session_refresh_interval disk contact_id messages =
     st_bind (st_lift (if messages = 0 then Inr ratchet_only else every_messages messages))
       (set_session_security_policy disk contact_id)"

definition clear_session_security_policy :: "Disk \<Rightarrow> ContactId \<Rightarrow> unit hydra_op" where
  "clear_session_security_policy disk contact_id h =
     st_bind (st_lift (require_contact contact_id h)) (\<lambda>_ h.
     let previous = map_of (hy_session_security_policies h) contact_id;
         h = h\<lparr>hy_session_security_policies := AList.delete contact_id (hy_session_security_policies h)\<rparr> in
     case persist disk h of
       (Inr _, h) \<Rightarrow> (Inr (), h)
     | (Inl e, h) \<Rightarrow> (Inl e, case previous of
           Some policy \<Rightarrow> h\<lparr>hy_session_security_policies := AList.update contact_id policy (hy_session_security_policies h)\<rparr>
         | None \<Rightarrow> h)) h"

definition reject_send_when_refresh_required :: "ContactId \<Rightarrow> Hydra \<Rightarrow> unit HydraResult" where
  "reject_send_when_refresh_required contact_id h =
     rbind (session_security_policy contact_id h) (\<lambda>policy.
     rbind (require_session contact_id h) (\<lambda>session.
     rbind (ensure (\<not> limit_reached policy session) HE_SessionRefreshRequired) (\<lambda>_.
       ensure (sr_outbound_messages session \<noteq> u64_max) (HE_InvalidInput ''session outbound message counter exhausted''))))"

definition record_outbound_application_message :: "ContactId \<Rightarrow> unit hydra_op" where
  "record_outbound_application_message contact_id h =
     st_bind (st_lift (require_session contact_id h)) (\<lambda>_.
       st_modify (update_session contact_id (\<lambda>session. session\<lparr>sr_outbound_messages := sr_outbound_messages session + 1\<rparr>))) h"

section \<open>Sealing\<close>

definition session_status :: "ContactId \<Rightarrow> Hydra \<Rightarrow> HydraSessionStatus" where
  "session_status contact_id h =
     (case map_of (hy_sessions h) contact_id of
        Some session \<Rightarrow> if sr_closed session then SS_Closed else SS_Active
      | None \<Rightarrow>
          if list_ex (\<lambda>p. po_contact_id p = contact_id) (map snd (hy_pending_offers h)) \<or>
             list_ex (\<lambda>a. ac_contact_id a = contact_id \<and> ac_candidate a \<noteq> None) (map snd (hy_accepted_inits h))
          then SS_Pending else SS_Missing)"

definition close_session :: "ContactId \<Rightarrow> unit hydra_op" where
  "close_session contact_id h =
     st_bind (st_lift (require_session contact_id h)) (\<lambda>_.
     st_bind (st_modify (update_session contact_id (\<lambda>session. session\<lparr>sr_closed := True\<rparr>))) (\<lambda>_.
       st_modify (remove_session_routes contact_id))) h"

text \<open>A method of the session state of an open session.\<close>

definition on_session :: "ContactId \<Rightarrow> (SessionState, SessionError, 'a) st \<Rightarrow> 'a hydra_op" where
  "on_session contact_id m h =
     st_bind (st_lift (rbind (require_session contact_id h) (\<lambda>session.
       if sr_closed session then Inl HE_SessionNotFound else Inr session))) (\<lambda>session h.
     let (r, state) = m (sr_state session) in
     (from_session r, update_session contact_id (\<lambda>session. session\<lparr>sr_state := state\<rparr>) h)) h"

definition seal_payload_for_contact :: "CryptoPrims \<Rightarrow> ContactId \<Rightarrow> bytes \<Rightarrow> bytes hydra_op" where
  "seal_payload_for_contact P contact_id payload h =
     st_bind (st_lift (
       rbind (require_contact contact_id h) (\<lambda>contact.
       rbind (ensure (\<not> ct_blocked contact) (HE_InvalidInput ''contact is blocked'')) (\<lambda>_.
       rbind (max_payload_content_size (hy_packet_size h)) (\<lambda>capacity.
       rbind (ensure (\<not> capacity < length payload) (HE_InvalidInput ''payload exceeds configured envelope capacity'')) (\<lambda>_.
         envelope_size_bounds (hy_packet_size h))))))) (\<lambda>(min_envelope_size, max_envelope_size).
     st_bind (on_session contact_id
       (send_data_with_envelope_bounds P (wrap_outbound_generation payload h) min_envelope_size max_envelope_size)) (\<lambda>outbound.
       st_lift (Inr (envelope outbound)))) h"

definition seal_compact_payload_for_contact :: "CryptoPrims \<Rightarrow> ContactId \<Rightarrow> bytes \<Rightarrow> bytes hydra_op" where
  "seal_compact_payload_for_contact P contact_id payload h =
     st_bind (st_lift (
       rbind (require_contact contact_id h) (\<lambda>contact.
       rbind (ensure (\<not> ct_blocked contact) (HE_InvalidInput ''contact is blocked'')) (\<lambda>_.
         ensure (\<not> MAX_COMPACT_CONTENT_SIZE - STATE_GENERATION_BINDING_OVERHEAD < length payload)
           (HE_InvalidInput ''payload exceeds compact carrier capacity''))))) (\<lambda>_.
     st_bind (on_session contact_id (send_compact_data P (wrap_outbound_generation payload h))) (\<lambda>outbound.
       st_lift (Inr (envelope outbound)))) h"

section \<open>Opening\<close>

definition validate_direct_record :: "ProtectedRecord \<Rightarrow> SessionError + unit" where
  "validate_direct_record r =
     (if content_kind r = Close then Inr ()
      else rbind (ok_or (generation_bound_content (content r)) SE_AuthenticationFailed) (\<lambda>content.
        ensure (content_kind r = Data \<and> \<not> is_packet_fragment_for_kind FK_Lobby content \<and> \<not> is_ok (unpack_lobby_payload content))
          SE_AuthenticationFailed))"

definition validate_lobby_record :: "ProtectedRecord \<Rightarrow> SessionError + unit" where
  "validate_lobby_record r =
     rbind (ok_or (generation_bound_content (content r)) SE_AuthenticationFailed) (\<lambda>content.
       ensure (content_kind r = Data \<and> (is_packet_fragment_for_kind FK_Lobby content \<or> is_ok (unpack_lobby_payload content)))
         SE_AuthenticationFailed)"

text \<open>What follows a successful receive; only a direct receive marks the record of the session closed.\<close>

definition deliver_opened :: "CryptoPrims \<Rightarrow> bool \<Rightarrow> ContactId \<Rightarrow> ReceivedMessage \<Rightarrow> (ContactId \<times> bytes) hydra_op" where
  "deliver_opened P closes contact_id message =
     st_bind (st_modify (\<lambda>h. if closes \<and> rm_content_kind message = Close
       then update_session contact_id (\<lambda>session. session\<lparr>sr_closed := True\<rparr>) h else h)) (\<lambda>_.
     st_bind (refresh_session_routes P contact_id) (\<lambda>_ h.
     st_bind (st_lift (ensure (\<not> is_blocked contact_id h) (HE_InvalidInput ''contact is blocked''))) (\<lambda>_.
     st_bind (accept_inbound_generation contact_id (rm_content message)) (\<lambda>content.
       st_lift (Inr (contact_id, content)))) h))"

text \<open>The loop over the candidates; \<open>open_with\<close> is the method of the session it tries.\<close>

fun open_from_candidates ::
    "CryptoPrims \<Rightarrow> bool \<Rightarrow> (SessionState, SessionError, ReceivedMessage) st \<Rightarrow> ContactId list \<Rightarrow> (ContactId \<times> bytes) hydra_op" where
  "open_from_candidates P closes open_with [] h = (Inl HE_SessionNotFound, h)"
| "open_from_candidates P closes open_with (contact_id # rest) h =
     (case map_of (hy_sessions h) contact_id of
        None \<Rightarrow> open_from_candidates P closes open_with rest h
      | Some session \<Rightarrow>
          if sr_closed session then open_from_candidates P closes open_with rest h
          else
            let (result, state) = open_with (sr_state session);
                h = update_session contact_id (\<lambda>session. session\<lparr>sr_state := state\<rparr>) h in
            case result of
              Inr message \<Rightarrow> deliver_opened P closes contact_id message h
            | Inl e \<Rightarrow> if e = SE_AuthenticationFailed then open_from_candidates P closes open_with rest h
                else (Inl (HE_Session (session_error_text e)), h))"

definition open_payload_from_contact :: "CryptoPrims \<Rightarrow> bytes \<Rightarrow> (ContactId \<times> bytes) hydra_op" where
  "open_payload_from_contact P packet h =
     st_bind (st_lift (rbind (validate_inbound_envelope_size (hy_packet_size h) (length packet)) (\<lambda>_.
       receive_route_candidates packet h)))
       (open_from_candidates P True (receive_validated P packet validate_direct_record)) h"

definition open_compact_payload_from_contact :: "CryptoPrims \<Rightarrow> bytes \<Rightarrow> (ContactId \<times> bytes) hydra_op" where
  "open_compact_payload_from_contact P packet h =
     st_bind (st_lift (receive_compact_route_candidates packet h))
       (open_from_candidates P False (receive_compact P packet)) h"

definition open_lobby_transport_payload_from_contact :: "CryptoPrims \<Rightarrow> bytes \<Rightarrow> (ContactId \<times> bytes) hydra_op" where
  "open_lobby_transport_payload_from_contact P packet h =
     st_bind (st_lift (rbind (validate_inbound_envelope_size (hy_packet_size h) (length packet)) (\<lambda>_.
       receive_route_candidates packet h)))
       (open_from_candidates P False (receive_validated P packet validate_lobby_record)) h"

section \<open>Sending messages\<close>

fun seal_packets :: "CryptoPrims \<Rightarrow> ContactId \<Rightarrow> bytes list \<Rightarrow> bytes list hydra_op" where
  "seal_packets P contact_id [] = st_lift (Inr [])"
| "seal_packets P contact_id (payload # payloads) =
     st_bind (seal_payload_for_contact P contact_id payload) (\<lambda>sealed.
     st_bind (seal_packets P contact_id payloads) (\<lambda>envelopes.
       st_lift (Inr (sealed # envelopes))))"

definition send :: "CryptoPrims \<Rightarrow> Disk \<Rightarrow> (nat \<Rightarrow> bytes option) \<Rightarrow> ContactId \<Rightarrow> HydraMessage \<Rightarrow> bytes list hydra_op" where
  "send P disk rng contact_id message h =
     st_bind (st_lift (
       rbind (active_unlocked_record h) (\<lambda>_.
       rbind (reject_send_when_refresh_required contact_id h) (\<lambda>_.
       rbind (pack_message message) (\<lambda>payload.
       rbind (ensure_message_capacity contact_id (length payload) (hy_store h)) (\<lambda>_.
         payloads_for_packets rng (hy_packet_size h) FS_Direct payload)))))) (\<lambda>payloads.
     st_bind (seal_packets P contact_id payloads) (\<lambda>packets.
     st_bind (on_store (store_message contact_id False (hm_plaintext message) (hm_attachments message))) (\<lambda>_.
     st_bind (persist disk) (\<lambda>_.
     st_bind (record_outbound_application_message contact_id) (\<lambda>_.
       st_lift (Inr packets)))))) h"

definition send_compact :: "CryptoPrims \<Rightarrow> Disk \<Rightarrow> ContactId \<Rightarrow> HydraMessage \<Rightarrow> bytes hydra_op" where
  "send_compact P disk contact_id message h =
     st_bind (st_lift (
       rbind (active_unlocked_record h) (\<lambda>_.
       rbind (reject_send_when_refresh_required contact_id h) (\<lambda>_.
       rbind (pack_message message) (\<lambda>payload.
       rbind (ensure (\<not> MAX_COMPACT_CONTENT_SIZE - STATE_GENERATION_BINDING_OVERHEAD < length payload)
                (HE_InvalidInput ''message exceeds compact carrier capacity'')) (\<lambda>_.
       rbind (ensure_message_capacity contact_id (length payload) (hy_store h)) (\<lambda>_. Inr payload))))))) (\<lambda>payload.
     st_bind (seal_compact_payload_for_contact P contact_id payload) (\<lambda>sealed.
     st_bind (on_store (store_message contact_id False (hm_plaintext message) (hm_attachments message))) (\<lambda>_.
     st_bind (persist disk) (\<lambda>_.
     st_bind (record_outbound_application_message contact_id) (\<lambda>_.
       st_lift (Inr sealed)))))) h"

section \<open>Receiving messages\<close>

definition store_received :: "ContactId \<Rightarrow> LobbyId option \<Rightarrow> bytes \<Rightarrow> ReceivedHydraMessage hydra_op" where
  "store_received contact_id lobby_id payload h =
     st_bind (st_lift (unpack_message payload contact_id (ms_next_id (hy_store h)) lobby_id)) (\<lambda>message.
     st_bind (on_store (store_message contact_id True (rm_plaintext message) (rm_attachments message))) (\<lambda>_.
       st_lift (Inr message))) h"

definition receive_message :: "CryptoPrims \<Rightarrow> Disk \<Rightarrow> nat \<Rightarrow> bytes \<Rightarrow> ReceivedHydraMessage option hydra_op" where
  "receive_message P disk now packet =
     st_bind (open_payload_from_contact P packet) (\<lambda>(contact_id, payload).
     st_bind (on_pending (receive_fragmented_payload now contact_id FK_Direct payload)) (\<lambda>received.
     case received of None \<Rightarrow> st_lift (Inr None)
     | Some (payload, fragment_lobby_id) \<Rightarrow>
         st_bind (st_lift (ensure (fragment_lobby_id = None) (HE_InvalidEncoding ''direct fragment lobby scope''))) (\<lambda>_.
         st_bind (store_received contact_id None payload) (\<lambda>message.
         st_bind (persist disk) (\<lambda>_.
           st_lift (Inr (Some message)))))))"

definition receive_compact_message :: "CryptoPrims \<Rightarrow> Disk \<Rightarrow> bytes \<Rightarrow> ReceivedHydraMessage hydra_op" where
  "receive_compact_message P disk packet =
     st_bind (open_compact_payload_from_contact P packet) (\<lambda>(contact_id, payload).
     st_bind (store_received contact_id None payload) (\<lambda>message.
     st_bind (persist disk) (\<lambda>_.
       st_lift (Inr message))))"

section \<open>Lobby messages\<close>

definition MAX_LOBBY_OUTBOUND_PACKETS :: nat where "MAX_LOBBY_OUTBOUND_PACKETS = 4096"
definition MAX_LOBBY_OUTBOUND_ENVELOPE_BYTES :: nat where "MAX_LOBBY_OUTBOUND_ENVELOPE_BYTES = 64 * 1024 * 1024"

record HydraLobbyEnvelope =
  le_recipient :: ContactId
  le_routing_hint :: bytes
  le_envelope :: bytes

definition get_lobby :: "LobbyId \<Rightarrow> Hydra \<Rightarrow> HydraLobby HydraResult" where
  "get_lobby lobby_id h = ok_or (map_of (hy_lobbies h) lobby_id) HE_LobbyNotFound"

definition lobby_member_ready :: "Hydra \<Rightarrow> ContactId \<Rightarrow> unit HydraResult" where
  "lobby_member_ready h member =
     rbind (require_contact member h) (\<lambda>contact.
     rbind (ensure (\<not> ct_blocked contact) (HE_InvalidInput ''lobby member is blocked'')) (\<lambda>_.
     rbind (ensure (\<not> (case map_of (hy_sessions h) member of None \<Rightarrow> True | Some session \<Rightarrow> sr_closed session)) HE_SessionNotFound) (\<lambda>_.
       reject_send_when_refresh_required member h)))"

text \<open>The two loops of \<open>send_lobby\<close> over the members and the payloads, as one list of pairs.\<close>

fun seal_lobby_packets :: "CryptoPrims \<Rightarrow> (nat \<Rightarrow> bytes option) \<Rightarrow> nat \<Rightarrow> (ContactId \<times> bytes) list \<Rightarrow> HydraLobbyEnvelope list hydra_op" where
  "seal_lobby_packets P hints n [] = st_lift (Inr [])"
| "seal_lobby_packets P hints n ((member, payload) # rest) =
     st_bind (st_lift (ok_or (hints n) HE_EntropyUnavailable)) (\<lambda>routing_hint.
     st_bind (seal_payload_for_contact P member payload) (\<lambda>sealed.
     st_bind (seal_lobby_packets P hints (n + 1) rest) (\<lambda>envelopes.
       st_lift (Inr (\<lparr>le_recipient = member, le_routing_hint = routing_hint, le_envelope = sealed\<rparr> # envelopes)))))"

fun record_outbound_all :: "ContactId list \<Rightarrow> unit hydra_op" where
  "record_outbound_all [] = st_lift (Inr ())"
| "record_outbound_all (member # rest) =
     st_bind (record_outbound_application_message member) (\<lambda>_. record_outbound_all rest)"

definition lobby_outbound ::
    "(nat \<Rightarrow> bytes option) \<Rightarrow> LobbyId \<Rightarrow> HydraMessage \<Rightarrow> Hydra \<Rightarrow> (ContactId list \<times> bytes list) HydraResult" where
  "lobby_outbound rng lobby_id message h =
     rbind (active_unlocked_record h) (\<lambda>_.
     rbind (get_lobby lobby_id h) (\<lambda>lobby.
     let members = lb_members lobby in
     rbind (ensure (members \<noteq> []) (HE_InvalidInput ''lobby has no members'')) (\<lambda>_.
     rbind (rforeach (lobby_member_ready h) members) (\<lambda>_.
     rbind (pack_message message) (\<lambda>packed_message.
     rbind (pack_lobby_payload lobby_id packed_message) (\<lambda>lobby_payload.
     rbind (payloads_for_packets rng (hy_packet_size h) (FS_Lobby lobby_id) lobby_payload) (\<lambda>payloads.
     rbind (ok_or (checked_mul_usize (length members) (length payloads)) (HE_InvalidInput ''lobby outbound packet count'')) (\<lambda>packet_count.
     rbind (ensure (\<not> MAX_LOBBY_OUTBOUND_PACKETS < packet_count) (HE_InvalidInput ''lobby outbound packet limit reached'')) (\<lambda>_.
     rbind (envelope_size_bounds (hy_packet_size h)) (\<lambda>(_, envelope_size).
     rbind (ok_or (checked_mul_usize packet_count envelope_size) (HE_InvalidInput ''lobby outbound byte count'')) (\<lambda>total_envelope_bytes.
     rbind (ensure (\<not> MAX_LOBBY_OUTBOUND_ENVELOPE_BYTES < total_envelope_bytes) (HE_InvalidInput ''lobby outbound byte limit reached'')) (\<lambda>_.
       Inr (members, payloads)))))))))))))"

definition send_lobby ::
    "CryptoPrims \<Rightarrow> Disk \<Rightarrow> (nat \<Rightarrow> bytes option) \<Rightarrow> (nat \<Rightarrow> bytes option) \<Rightarrow> LobbyId \<Rightarrow> HydraMessage \<Rightarrow> HydraLobbyEnvelope list hydra_op" where
  "send_lobby P disk rng hints lobby_id message h =
     st_bind (st_lift (lobby_outbound rng lobby_id message h)) (\<lambda>(members, payloads).
     st_bind (seal_lobby_packets P hints 0 (List.product members payloads)) (\<lambda>envelopes.
     st_bind (persist disk) (\<lambda>_.
     st_bind (record_outbound_all members) (\<lambda>_.
       st_lift (Inr envelopes))))) h"

definition receive_open_lobby_payload :: "ContactId \<Rightarrow> LobbyId \<Rightarrow> bytes \<Rightarrow> ReceivedHydraMessage hydra_op" where
  "receive_open_lobby_payload contact_id lobby_id packed_message h =
     st_bind (st_lift (rbind (get_lobby lobby_id h) (\<lambda>lobby.
       ensure (contact_id \<in> set (lb_members lobby)) (HE_InvalidInput ''lobby message sender is not a member'')))) (\<lambda>_.
       store_received contact_id (Some lobby_id) packed_message) h"

definition receive_lobby :: "CryptoPrims \<Rightarrow> Disk \<Rightarrow> nat \<Rightarrow> bytes \<Rightarrow> ReceivedHydraMessage option hydra_op" where
  "receive_lobby P disk now packet =
     st_bind (open_lobby_transport_payload_from_contact P packet) (\<lambda>(contact_id, payload).
     st_bind (on_pending (receive_fragmented_payload now contact_id FK_Lobby payload)) (\<lambda>received.
     case received of None \<Rightarrow> st_lift (Inr None)
     | Some (lobby_payload, fragment_lobby_id) \<Rightarrow>
         st_bind (st_lift (
           rbind (unpack_lobby_payload lobby_payload) (\<lambda>(lobby_id, packed_message).
           rbind (ensure (\<not> (case fragment_lobby_id of None \<Rightarrow> False | Some scoped_id \<Rightarrow> scoped_id \<noteq> lobby_id))
                    (HE_InvalidEncoding ''fragment lobby scope mismatch'')) (\<lambda>_. Inr (lobby_id, packed_message))))) (\<lambda>(lobby_id, packed_message).
         st_bind (receive_open_lobby_payload contact_id lobby_id packed_message) (\<lambda>message.
         st_bind (persist disk) (\<lambda>_.
           st_lift (Inr (Some message)))))))"

end
