(* ===== verification/App_Snapshot.thy ===== *)
theory App_Snapshot
  imports App_Channel
begin

text \<open>
  The plaintext snapshot of the state (\<open>persistence/snapshot.rs\<close> and \<open>persistence/snapshot/helpers.rs\<close>): writing it,
  checking it, and replacing the state by it. A \<open>HashSet\<close> of the validation is the list of its elements. What the
  proofs show is that the state comes back: every record, with identities locked and sessions gone.
\<close>

section \<open>Writing\<close>

definition STATE_SNAPSHOT_MAGIC :: bytes where "STATE_SNAPSHOT_MAGIC = ascii ''HYDRA-MSG-STATE-SNAPSHOT'' @ [10]"
definition MAX_STATE_SNAPSHOT_LINE_BYTES :: nat where "MAX_STATE_SNAPSHOT_LINE_BYTES = MAX_STATE_SNAPSHOT_BYTES"
definition MAX_LOBBIES :: nat where "MAX_LOBBIES = 256"

definition reject_runtime_collection_size :: "nat \<Rightarrow> nat \<Rightarrow> string \<Rightarrow> unit HydraResult" where
  "reject_runtime_collection_size current_count max_count description =
     ensure (\<not> max_count < current_count) (HE_InvalidInput description)"

definition append_snapshot_bytes :: "bytes \<Rightarrow> bytes \<Rightarrow> bytes HydraResult" where
  "append_snapshot_bytes out bs =
     rbind (ensure (case checked_add_usize (length out) (length bs) of None \<Rightarrow> False | Some n \<Rightarrow> \<not> MAX_STATE_SNAPSHOT_BYTES < n)
              (HE_InvalidInput ''state snapshot size'')) (\<lambda>_. Inr (out @ bs))"

definition append_snapshot_line :: "bytes \<Rightarrow> bytes \<Rightarrow> bytes HydraResult" where
  "append_snapshot_line out line =
     rbind (ensure (\<not> MAX_STATE_SNAPSHOT_LINE_BYTES < length line) (HE_InvalidInput ''state snapshot line length'')) (\<lambda>_.
     rbind (append_snapshot_bytes out line) (\<lambda>out. append_snapshot_bytes out [10]))"

fun append_snapshot_lines :: "bytes \<Rightarrow> bytes list \<Rightarrow> bytes HydraResult" where
  "append_snapshot_lines out [] = Inr out"
| "append_snapshot_lines out (line # lines) = rbind (append_snapshot_line out line) (\<lambda>out. append_snapshot_lines out lines)"

definition usage_entry :: "ContactId \<Rightarrow> (ContactId \<times> nat \<times> nat) list \<Rightarrow> nat \<times> nat" where
  "usage_entry contact_id usage = (case map_of usage contact_id of None \<Rightarrow> (0, 0) | Some u \<Rightarrow> u)"

text \<open>The loop over the messages, with the total and the usage of each contact so far.\<close>

fun check_message_usage :: "StoredMessage list \<Rightarrow> nat \<Rightarrow> (ContactId \<times> nat \<times> nat) list \<Rightarrow> unit HydraResult" where
  "check_message_usage [] total_message_bytes per_contact = Inr ()"
| "check_message_usage (m # ms) total_message_bytes per_contact =
     rbind (stored_message_size (st_plaintext m) (st_attachments m)) (\<lambda>sz.
     rbind (ok_or (checked_add_usize total_message_bytes sz) (HE_InvalidInput ''stored message byte count'')) (\<lambda>total_message_bytes.
     rbind (reject_runtime_collection_size total_message_bytes MAX_STORED_MESSAGE_BYTES ''stored message byte limit'') (\<lambda>_.
     let (count, byte_count) = usage_entry (st_contact_id m) per_contact in
     rbind (ok_or (checked_add_usize byte_count sz) (HE_InvalidInput ''stored message byte count'')) (\<lambda>byte_count.
     rbind (reject_runtime_collection_size (count + 1) MAX_MESSAGES_PER_CONTACT ''messages per contact limit'') (\<lambda>_.
     rbind (reject_runtime_collection_size byte_count MAX_STORED_MESSAGE_BYTES_PER_CONTACT ''message bytes per contact limit'') (\<lambda>_.
       check_message_usage ms total_message_bytes (AList.update (st_contact_id m) (count + 1, byte_count) per_contact)))))))"

definition tab_line :: "string \<Rightarrow> bytes list \<Rightarrow> bytes" where
  "tab_line kind columns = join_with 9 (ascii kind # columns)"

text \<open>The records, in the order they are written.\<close>

definition snapshot_lines :: "Hydra \<Rightarrow> bytes list" where
  "snapshot_lines h =
     [tab_line ''state_generation'' [decimal (unat (hy_state_generation h))],
      tab_line ''next_message_id'' [decimal (unat (ms_next_id (hy_store h)))],
      tab_line ''anonymous_auth_secret'' [encode_anonymous_auth_secret (hy_anonymous_auth_secret h)]] @
     map (\<lambda>nullifier. tab_line ''anonymous_auth_spent'' [encode_anonymous_auth_spent nullifier]) (hy_anonymous_auth_spent h) @
     map (encode_identity_line \<circ> snd) (hy_identities h) @
     map (encode_contact_line \<circ> snd) (hy_contacts h) @
     map (\<lambda>(contact_id, policy). tab_line ''session_security_policy'' [hex_encode contact_id, snapshot_value policy])
       (hy_session_security_policies h) @
     map (\<lambda>(contact_id, generation). tab_line ''peer_generation_floor'' [hex_encode contact_id, decimal (unat generation)])
       (hy_peer_generation_floors h) @
     map encode_message_line (ms_messages (hy_store h)) @
     map (encode_lobby_line \<circ> snd) (hy_lobbies h)"

definition encode_state_snapshot :: "Hydra \<Rightarrow> bytes HydraResult" where
  "encode_state_snapshot h =
     rbind (reject_runtime_collection_size (length (hy_identities h)) MAX_IDENTITIES ''identity limit'') (\<lambda>_.
     rbind (reject_runtime_collection_size (length (hy_contacts h)) MAX_CONTACTS ''contact limit'') (\<lambda>_.
     rbind (reject_runtime_collection_size (length (ms_messages (hy_store h))) MAX_MESSAGES ''message limit'') (\<lambda>_.
     rbind (reject_runtime_collection_size (length (hy_lobbies h)) MAX_LOBBIES ''lobby limit'') (\<lambda>_.
     rbind (reject_runtime_collection_size (length (hy_anonymous_auth_spent h)) MAX_ANONYMOUS_AUTH_SPENT
              ''anonymous authorization spent limit'') (\<lambda>_.
     rbind (check_message_usage (ms_messages (hy_store h)) 0 []) (\<lambda>_.
     rbind (append_snapshot_bytes [] STATE_SNAPSHOT_MAGIC) (\<lambda>out.
       append_snapshot_lines out (snapshot_lines h))))))))"

section \<open>Checking\<close>

record SnapshotValidationState =
  sv_saw_state_generation :: bool
  sv_saw_next_message_id :: bool
  sv_saw_anonymous_auth_secret :: bool
  sv_identity_ids :: "IdentityId list"
  sv_contact_ids :: "ContactId list"
  sv_session_security_policy_ids :: "ContactId list"
  sv_peer_generation_floor_ids :: "ContactId list"
  sv_message_ids :: "MessageId list"
  sv_lobby_ids :: "LobbyId list"
  sv_anonymous_auth_spent :: "bytes list"
  sv_messages_per_contact :: "(ContactId \<times> nat \<times> nat) list"
  sv_total_message_bytes :: nat

definition SnapshotValidationState_default :: SnapshotValidationState where
  "SnapshotValidationState_default = \<lparr>sv_saw_state_generation = False, sv_saw_next_message_id = False,
     sv_saw_anonymous_auth_secret = False, sv_identity_ids = [], sv_contact_ids = [], sv_session_security_policy_ids = [],
     sv_peer_generation_floor_ids = [], sv_message_ids = [], sv_lobby_ids = [], sv_anonymous_auth_spent = [],
     sv_messages_per_contact = [], sv_total_message_bytes = 0\<rparr>"

definition reject_collection_limit :: "nat \<Rightarrow> nat \<Rightarrow> string \<Rightarrow> unit HydraResult" where
  "reject_collection_limit current_count max_count description =
     ensure (\<not> max_count \<le> current_count) (HE_InvalidEncoding description)"

definition reject_duplicate_scalar :: "bool \<Rightarrow> string \<Rightarrow> unit HydraResult" where
  "reject_duplicate_scalar saw_record description = ensure (\<not> saw_record) (HE_InvalidEncoding description)"

definition reject_extra_snapshot_fields :: "bytes list \<Rightarrow> nat \<Rightarrow> string \<Rightarrow> unit HydraResult" where
  "reject_extra_snapshot_fields parts i description = ensure (\<not> i < length parts) (HE_InvalidEncoding description)"

text \<open>\<open>reject_duplicate_collection_record(set.insert(x))\<close>: the set with the element.\<close>

definition insert_new :: "'a \<Rightarrow> 'a list \<Rightarrow> string \<Rightarrow> 'a list HydraResult" where
  "insert_new x xs description = rbind (ensure (x \<notin> set xs) (HE_InvalidEncoding description)) (\<lambda>_. Inr (xs @ [x]))"

definition validate_u64_scalar :: "bytes list \<Rightarrow> bool \<Rightarrow> string \<Rightarrow> unit HydraResult" where
  "validate_u64_scalar parts saw label =
     rbind (reject_duplicate_scalar saw label) (\<lambda>_.
     rbind (required_part parts 1 label) (\<lambda>value.
     rbind (reject_extra_snapshot_fields parts 2 label) (\<lambda>_.
     rbind (ok_or (parse_u64 value) (HE_InvalidEncoding label)) (\<lambda>_. Inr ()))))"

definition validate_anonymous_auth_secret_scalar :: "bytes list \<Rightarrow> bool \<Rightarrow> unit HydraResult" where
  "validate_anonymous_auth_secret_scalar parts saw =
     rbind (reject_duplicate_scalar saw ''state anonymous auth secret'') (\<lambda>_.
     rbind (required_part parts 1 ''state anonymous auth secret'') (\<lambda>value.
     rbind (reject_extra_snapshot_fields parts 2 ''state anonymous auth secret'') (\<lambda>_.
     rbind (decode_anonymous_auth_secret value) (\<lambda>_. Inr ()))))"

definition validate_anonymous_auth_spent :: "bytes list \<Rightarrow> SnapshotValidationState \<Rightarrow> SnapshotValidationState HydraResult" where
  "validate_anonymous_auth_spent parts v =
     rbind (reject_collection_limit (length (sv_anonymous_auth_spent v)) MAX_ANONYMOUS_AUTH_SPENT
              ''state anonymous auth spent count'') (\<lambda>_.
     rbind (required_part parts 1 ''state anonymous auth spent'') (\<lambda>value.
     rbind (reject_extra_snapshot_fields parts 2 ''state anonymous auth spent'') (\<lambda>_.
     rbind (decode_anonymous_auth_spent value) (\<lambda>nullifier.
     rbind (insert_new nullifier (sv_anonymous_auth_spent v) ''state anonymous auth spent duplicate'') (\<lambda>seen.
       Inr (v\<lparr>sv_anonymous_auth_spent := seen\<rparr>))))))"

definition validate_identity :: "CryptoPrims \<Rightarrow> bytes \<Rightarrow> SnapshotValidationState \<Rightarrow> SnapshotValidationState HydraResult" where
  "validate_identity P line v =
     rbind (reject_collection_limit (length (sv_identity_ids v)) MAX_IDENTITIES ''state identity count'') (\<lambda>_.
     rbind (decode_identity_line P line) (\<lambda>record.
     rbind (insert_new (id_id record) (sv_identity_ids v) ''state identity duplicate'') (\<lambda>seen.
       Inr (v\<lparr>sv_identity_ids := seen\<rparr>))))"

definition validate_contact :: "CryptoPrims \<Rightarrow> bytes \<Rightarrow> SnapshotValidationState \<Rightarrow> SnapshotValidationState HydraResult" where
  "validate_contact P line v =
     rbind (reject_collection_limit (length (sv_contact_ids v)) MAX_CONTACTS ''state contact count'') (\<lambda>_.
     rbind (decode_contact_line P line) (\<lambda>contact.
     rbind (insert_new (ct_id contact) (sv_contact_ids v) ''state contact duplicate'') (\<lambda>seen.
       Inr (v\<lparr>sv_contact_ids := seen\<rparr>))))"

definition validate_session_security_policy :: "bytes list \<Rightarrow> SnapshotValidationState \<Rightarrow> SnapshotValidationState HydraResult" where
  "validate_session_security_policy parts v =
     rbind (reject_collection_limit (length (sv_session_security_policy_ids v)) MAX_CONTACTS
              ''state session security policy count'') (\<lambda>_.
     rbind (required_part parts 1 ''state session security policy contact'') (\<lambda>contact_hex.
     rbind (required_part parts 2 ''state session security policy value'') (\<lambda>policy_value.
     rbind (reject_extra_snapshot_fields parts 3 ''state session security policy'') (\<lambda>_.
     rbind (id_from_hex ''contact id size'' contact_hex) (\<lambda>contact_id.
     rbind (from_snapshot_value policy_value) (\<lambda>_.
     rbind (insert_new contact_id (sv_session_security_policy_ids v) ''state session security policy duplicate'') (\<lambda>seen.
       Inr (v\<lparr>sv_session_security_policy_ids := seen\<rparr>))))))))"

definition validate_peer_generation_floor :: "bytes list \<Rightarrow> SnapshotValidationState \<Rightarrow> SnapshotValidationState HydraResult" where
  "validate_peer_generation_floor parts v =
     rbind (reject_collection_limit (length (sv_peer_generation_floor_ids v)) MAX_CONTACTS
              ''state peer generation floor count'') (\<lambda>_.
     rbind (required_part parts 1 ''state peer generation floor contact'') (\<lambda>contact_hex.
     rbind (required_part parts 2 ''state peer generation floor value'') (\<lambda>generation.
     rbind (reject_extra_snapshot_fields parts 3 ''state peer generation floor'') (\<lambda>_.
     rbind (id_from_hex ''contact id size'' contact_hex) (\<lambda>contact_id.
     rbind (ok_or (parse_u64 generation) (HE_InvalidEncoding ''state peer generation floor value'')) (\<lambda>_.
     rbind (insert_new contact_id (sv_peer_generation_floor_ids v) ''state peer generation floor duplicate'') (\<lambda>seen.
       Inr (v\<lparr>sv_peer_generation_floor_ids := seen\<rparr>))))))))"

definition validate_message_contact_usage ::
    "(ContactId \<times> nat \<times> nat) list \<Rightarrow> ContactId \<Rightarrow> nat \<Rightarrow> (ContactId \<times> nat \<times> nat) list HydraResult" where
  "validate_message_contact_usage usage_by_contact contact_id sz =
     (let (count, byte_count) = usage_entry contact_id usage_by_contact in
      rbind (reject_collection_limit count MAX_MESSAGES_PER_CONTACT ''state messages per contact count'') (\<lambda>_.
      rbind (ok_or (checked_add_usize byte_count sz) (HE_InvalidEncoding ''state stored message byte count'')) (\<lambda>byte_count.
      rbind (ensure (\<not> MAX_STORED_MESSAGE_BYTES_PER_CONTACT < byte_count)
               (HE_InvalidEncoding ''state message bytes per contact limit'')) (\<lambda>_.
        Inr (AList.update contact_id (count + 1, byte_count) usage_by_contact)))))"

definition validate_stored_message :: "bytes \<Rightarrow> SnapshotValidationState \<Rightarrow> SnapshotValidationState HydraResult" where
  "validate_stored_message line v =
     rbind (reject_collection_limit (length (sv_message_ids v)) MAX_MESSAGES ''state message count'') (\<lambda>_.
     rbind (decode_message_line line) (\<lambda>m.
     rbind (insert_new (st_id m) (sv_message_ids v) ''state message duplicate'') (\<lambda>seen.
     rbind (stored_message_size (st_plaintext m) (st_attachments m)) (\<lambda>sz.
     rbind (ok_or (checked_add_usize (sv_total_message_bytes v) sz) (HE_InvalidEncoding ''state stored message byte count'')) (\<lambda>n.
     rbind (ensure (\<not> MAX_STORED_MESSAGE_BYTES < n) (HE_InvalidEncoding ''state stored message byte limit'')) (\<lambda>_.
     rbind (validate_message_contact_usage (sv_messages_per_contact v) (st_contact_id m) sz) (\<lambda>usage.
       Inr (v\<lparr>sv_message_ids := seen, sv_messages_per_contact := usage, sv_total_message_bytes := n\<rparr>))))))))"

definition validate_lobby :: "bytes \<Rightarrow> SnapshotValidationState \<Rightarrow> SnapshotValidationState HydraResult" where
  "validate_lobby line v =
     rbind (reject_collection_limit (length (sv_lobby_ids v)) MAX_LOBBIES ''state lobby count'') (\<lambda>_.
     rbind (decode_lobby_line line) (\<lambda>lobby.
     rbind (insert_new (lb_id lobby) (sv_lobby_ids v) ''state lobby duplicate'') (\<lambda>seen.
       Inr (v\<lparr>sv_lobby_ids := seen\<rparr>))))"

definition validate_line :: "CryptoPrims \<Rightarrow> bytes \<Rightarrow> SnapshotValidationState \<Rightarrow> SnapshotValidationState HydraResult" where
  "validate_line P line v =
     (let parts = split_on 9 line; kind = hd parts in
      if kind = ascii ''state_generation'' then
        rbind (validate_u64_scalar parts (sv_saw_state_generation v) ''state generation'') (\<lambda>_. Inr (v\<lparr>sv_saw_state_generation := True\<rparr>))
      else if kind = ascii ''next_message_id'' then
        rbind (validate_u64_scalar parts (sv_saw_next_message_id v) ''state next_message_id'') (\<lambda>_. Inr (v\<lparr>sv_saw_next_message_id := True\<rparr>))
      else if kind = ascii ''anonymous_auth_secret'' then
        rbind (validate_anonymous_auth_secret_scalar parts (sv_saw_anonymous_auth_secret v)) (\<lambda>_.
          Inr (v\<lparr>sv_saw_anonymous_auth_secret := True\<rparr>))
      else if kind = ascii ''anonymous_auth_spent'' then validate_anonymous_auth_spent parts v
      else if kind = ascii ''identity'' then validate_identity P line v
      else if kind = ascii ''contact'' then validate_contact P line v
      else if kind = ascii ''session_security_policy'' then validate_session_security_policy parts v
      else if kind = ascii ''peer_generation_floor'' then validate_peer_generation_floor parts v
      else if kind = ascii ''message'' then validate_stored_message line v
      else if kind = ascii ''lobby'' then validate_lobby line v
      else Inl (HE_InvalidEncoding ''state record kind''))"

fun validate_lines :: "CryptoPrims \<Rightarrow> bytes list \<Rightarrow> SnapshotValidationState \<Rightarrow> SnapshotValidationState HydraResult" where
  "validate_lines P [] v = Inr v"
| "validate_lines P (line # lines) v =
     (if str_trim line = [] then validate_lines P lines v else rbind (validate_line P line v) (validate_lines P lines))"

definition validation_finish :: "SnapshotValidationState \<Rightarrow> unit HydraResult" where
  "validation_finish v =
     rbind (ensure (list_all (\<lambda>c. c \<in> set (sv_contact_ids v)) (sv_session_security_policy_ids v))
              (HE_InvalidEncoding ''state session security policy contact'')) (\<lambda>_.
     rbind (ensure (list_all (\<lambda>c. c \<in> set (sv_contact_ids v)) (sv_peer_generation_floor_ids v))
              (HE_InvalidEncoding ''state peer generation floor contact'')) (\<lambda>_.
     rbind (ensure (sv_saw_state_generation v) (HE_InvalidEncoding ''state generation'')) (\<lambda>_.
     rbind (ensure (sv_saw_next_message_id v) (HE_InvalidEncoding ''state next_message_id'')) (\<lambda>_.
       ensure (sv_saw_anonymous_auth_secret v) (HE_InvalidEncoding ''state anonymous auth secret'')))))"

definition state_snapshot_text :: "bytes \<Rightarrow> bytes HydraResult" where
  "state_snapshot_text bs =
     rbind (ensure (\<not> MAX_STATE_SNAPSHOT_BYTES < length bs) (HE_InvalidEncoding ''state snapshot size'')) (\<lambda>_.
     rbind (from_utf8 bs (HE_InvalidEncoding ''state snapshot utf-8'')) (\<lambda>text_bytes.
     rbind (ensure (starts_with text_bytes STATE_SNAPSHOT_MAGIC) (HE_InvalidEncoding ''state snapshot magic'')) (\<lambda>_.
     rbind (ensure (list_all (\<lambda>line. \<not> MAX_STATE_SNAPSHOT_LINE_BYTES < length line) (str_lines text_bytes))
              (HE_InvalidEncoding ''state snapshot line length'')) (\<lambda>_. Inr text_bytes))))"

definition verify_state_snapshot :: "CryptoPrims \<Rightarrow> bytes \<Rightarrow> unit HydraResult" where
  "verify_state_snapshot P bs =
     rbind (state_snapshot_text bs) (\<lambda>text_bytes.
     rbind (validate_lines P (drop 1 (str_lines text_bytes)) SnapshotValidationState_default) validation_finish)"

section \<open>Loading\<close>

definition clear_state_for_snapshot_apply :: "Hydra \<Rightarrow> Hydra" where
  "clear_state_for_snapshot_apply h = h\<lparr>
     hy_identities := [], hy_active_id := None, hy_contacts := [], hy_session_security_policies := [],
     hy_peer_generation_floors := [], hy_pending_offers := [], hy_accepted_inits := [], hy_sessions := [],
     hy_receive_routes := [], hy_session_route_tags := [],
     hy_store := \<lparr>ms_messages = [], ms_usage = [], ms_bytes = 0, ms_next_id = 1\<rparr>,
     hy_lobbies := [], hy_anonymous_auth_spent := [], hy_anonymous_auth_spent_index := {}, hy_pending_fragments := [],
     hy_state_generation := 0\<rparr>"

definition apply_state_snapshot_line :: "CryptoPrims \<Rightarrow> bytes \<Rightarrow> unit hydra_op" where
  "apply_state_snapshot_line P line =
     (let parts = split_on 9 line; kind = hd parts in
      if kind = ascii ''state_generation'' then
        st_bind (st_lift (rbind (required_part parts 1 ''state generation'') (\<lambda>value.
          ok_or (parse_u64 value) (HE_InvalidEncoding ''state generation'')))) (\<lambda>n.
          st_modify (\<lambda>h. h\<lparr>hy_state_generation := of_nat n\<rparr>))
      else if kind = ascii ''next_message_id'' then
        st_bind (st_lift (rbind (required_part parts 1 ''state next_message_id'') (\<lambda>value.
          ok_or (parse_u64 value) (HE_InvalidEncoding ''state next_message_id'')))) (\<lambda>n.
          st_modify (\<lambda>h. h\<lparr>hy_store := (hy_store h)\<lparr>ms_next_id := of_nat n\<rparr>\<rparr>))
      else if kind = ascii ''anonymous_auth_secret'' then
        st_bind (st_lift (rbind (required_part parts 1 ''state anonymous auth secret'') decode_anonymous_auth_secret)) (\<lambda>secret.
          st_modify (\<lambda>h. h\<lparr>hy_anonymous_auth_secret := secret\<rparr>))
      else if kind = ascii ''anonymous_auth_spent'' then
        st_bind (st_lift (rbind (required_part parts 1 ''state anonymous auth spent'') decode_anonymous_auth_spent)) (\<lambda>nullifier.
          st_modify (\<lambda>h. h\<lparr>hy_anonymous_auth_spent := hy_anonymous_auth_spent h @ [nullifier],
            hy_anonymous_auth_spent_index := insert nullifier (hy_anonymous_auth_spent_index h)\<rparr>))
      else if kind = ascii ''identity'' then
        st_bind (st_lift (decode_identity_line P line)) (\<lambda>record.
          st_modify (\<lambda>h. h\<lparr>hy_identities := AList.update (id_id record) record (hy_identities h)\<rparr>))
      else if kind = ascii ''contact'' then
        st_bind (st_lift (decode_contact_line P line)) (\<lambda>contact.
          st_modify (\<lambda>h. h\<lparr>hy_contacts := AList.update (ct_id contact) contact (hy_contacts h)\<rparr>))
      else if kind = ascii ''session_security_policy'' then
        st_bind (st_lift (
          rbind (required_part parts 1 ''state session security policy contact'') (\<lambda>contact_hex.
          rbind (required_part parts 2 ''state session security policy value'') (\<lambda>policy_value.
          rbind (id_from_hex ''contact id size'' contact_hex) (\<lambda>contact_id.
          rbind (from_snapshot_value policy_value) (\<lambda>policy. Inr (contact_id, policy))))))) (\<lambda>(contact_id, policy).
          st_modify (\<lambda>h. h\<lparr>hy_session_security_policies := AList.update contact_id policy (hy_session_security_policies h)\<rparr>))
      else if kind = ascii ''peer_generation_floor'' then
        st_bind (st_lift (
          rbind (required_part parts 1 ''state peer generation floor contact'') (\<lambda>contact_hex.
          rbind (required_part parts 2 ''state peer generation floor value'') (\<lambda>generation.
          rbind (id_from_hex ''contact id size'' contact_hex) (\<lambda>contact_id.
          rbind (ok_or (parse_u64 generation) (HE_InvalidEncoding ''state peer generation floor value'')) (\<lambda>n.
            Inr (contact_id, n))))))) (\<lambda>(contact_id, n).
          st_modify (\<lambda>h. h\<lparr>hy_peer_generation_floors := AList.update contact_id (of_nat n) (hy_peer_generation_floors h)\<rparr>))
      else if kind = ascii ''message'' then
        st_bind (st_lift (decode_message_line line)) (\<lambda>m.
          st_modify (\<lambda>h. h\<lparr>hy_store := (hy_store h)\<lparr>ms_next_id := max (ms_next_id (hy_store h)) (saturating_add_u64 (st_id m) 1),
            ms_messages := ms_messages (hy_store h) @ [m]\<rparr>\<rparr>))
      else if kind = ascii ''lobby'' then
        st_bind (st_lift (decode_lobby_line line)) (\<lambda>lobby.
          st_modify (\<lambda>h. h\<lparr>hy_lobbies := AList.update (lb_id lobby) lobby (hy_lobbies h)\<rparr>))
      else st_lift (Inl (HE_InvalidEncoding ''state record kind'')))"

fun apply_snapshot_lines :: "CryptoPrims \<Rightarrow> bytes list \<Rightarrow> unit hydra_op" where
  "apply_snapshot_lines P [] = st_lift (Inr ())"
| "apply_snapshot_lines P (line # lines) =
     (if str_trim line = [] then apply_snapshot_lines P lines
      else st_bind (apply_state_snapshot_line P line) (\<lambda>_. apply_snapshot_lines P lines))"

definition apply_state_snapshot :: "CryptoPrims \<Rightarrow> bytes \<Rightarrow> unit hydra_op" where
  "apply_state_snapshot P bs =
     st_bind (st_lift (rbind (verify_state_snapshot P bs) (\<lambda>_. state_snapshot_text bs))) (\<lambda>text_bytes.
     st_bind (st_modify clear_state_for_snapshot_apply) (\<lambda>_.
     st_bind (apply_snapshot_lines P (drop 1 (str_lines text_bytes))) (\<lambda>_.
       on_store rebuild_message_usage)))"

end
