(* ===== verification/App_Storage.thy ===== *)
theory App_Storage
  imports App_Snapshot
begin

text \<open>
  The stored state: the chunked encrypted form of \<open>codec/storage.rs\<close>, backups (\<open>persistence/backup.rs\<close>), the two
  files of a profile (\<open>persistence/native_store.rs\<close>, \<open>persistence/rollback.rs\<close>), freshness anchors
  (\<open>persistence/freshness.rs\<close>), and opening, writing and restoring the state (\<open>api/storage.rs\<close>,
  \<open>api/storage_kdf.rs\<close>). What a write of a file returns is an argument; a write that fails leaves the old file.
\<close>

section \<open>The encrypted form\<close>

definition STATE_KEY_LABEL :: bytes where "STATE_KEY_LABEL = ascii ''HYDRA-MSG/facade/state-key''"
definition BACKUP_KEY_LABEL :: bytes where "BACKUP_KEY_LABEL = ascii ''HYDRA-MSG/facade/backup-key''"
definition STATE_MAGIC :: bytes where "STATE_MAGIC = ascii ''HYDRA-MSG-STATE'' @ [10]"
definition BACKUP_MAGIC :: bytes where "BACKUP_MAGIC = ascii ''HYDRA-MSG-BACKUP'' @ [10]"
definition STORAGE_PLAINTEXT_MAGIC :: bytes where "STORAGE_PLAINTEXT_MAGIC = ascii ''HYDRA-MSG-STORAGE-PLAINTEXT'' @ [10]"
definition STORAGE_CHUNK_PLAINTEXT_BYTES :: nat where "STORAGE_CHUNK_PLAINTEXT_BYTES = 64 * 1024"
definition STORAGE_FORMAT_VERSION :: nat where "STORAGE_FORMAT_VERSION = 1"
definition MAX_ENCRYPTED_STATE_BYTES :: nat where "MAX_ENCRYPTED_STATE_BYTES = MAX_STATE_SNAPSHOT_BYTES * 2 + 512 * 1024"
definition MAX_BACKUP_BYTES :: nat where "MAX_BACKUP_BYTES = MAX_STATE_SNAPSHOT_BYTES * 2 + 512 * 1024"

definition state_key :: "Scrypt \<Rightarrow> bytes \<Rightarrow> PasswordKdfRecord \<Rightarrow> Secret32 HydraResult" where
  "state_key S password kdf = derive_password_key S STATE_KEY_LABEL password kdf"

definition backup_key :: "Scrypt \<Rightarrow> bytes \<Rightarrow> PasswordKdfRecord \<Rightarrow> Secret32 HydraResult" where
  "backup_key S password kdf = derive_password_key S BACKUP_KEY_LABEL password kdf"

definition div_ceil :: "nat \<Rightarrow> nat \<Rightarrow> nat" where
  "div_ceil n m = n div m + (if n mod m = 0 then 0 else 1)"

definition pack_storage_plaintext :: "bytes \<Rightarrow> bytes HydraResult" where
  "pack_storage_plaintext snapshot =
     rbind (ok_or (checked_add_usize (length STORAGE_PLAINTEXT_MAGIC + 8) (length snapshot))
              (HE_InvalidInput ''state snapshot size'')) (\<lambda>_.
     let out = STORAGE_PLAINTEXT_MAGIC @ be_bytes 8 (of_nat (length snapshot) :: u64) @ snapshot;
         padded_len = div_ceil (length out) STORAGE_CHUNK_PLAINTEXT_BYTES * STORAGE_CHUNK_PLAINTEXT_BYTES in
     Inr (out @ replicate (padded_len - length out) 0))"

definition read_storage_plaintext :: "nat \<Rightarrow> bytes reader" where
  "read_storage_plaintext n =
     st_bind (reader_expect STORAGE_PLAINTEXT_MAGIC) (\<lambda>_.
     st_bind read_u64 (\<lambda>snapshot_len.
     st_bind (st_lift (reject_encoded_size (unat snapshot_len) MAX_STATE_SNAPSHOT_BYTES ''state snapshot size'')) (\<lambda>_.
     st_bind (read_vec (unat snapshot_len)) (\<lambda>snapshot.
     st_bind (st_lift (ok_or (checked_sub_usize n (length STORAGE_PLAINTEXT_MAGIC + 8 + unat snapshot_len))
       (HE_InvalidEncoding ''storage plaintext size''))) (\<lambda>remaining.
     st_bind (reader_read remaining) (\<lambda>padding.
       st_lift (rbind (ensure (list_all (\<lambda>b. b = 0) padding) (HE_InvalidEncoding ''storage padding'')) (\<lambda>_. Inr snapshot))))))))"

definition unpack_storage_plaintext :: "bytes \<Rightarrow> bytes HydraResult" where
  "unpack_storage_plaintext bs =
     rbind (ensure (\<not> (bs = [] \<or> length bs mod STORAGE_CHUNK_PLAINTEXT_BYTES \<noteq> 0)) (HE_InvalidEncoding ''storage plaintext size'')) (\<lambda>_.
       fst (read_storage_plaintext (length bs) (BytesReader_new bs)))"

definition storage_aad :: "bytes \<Rightarrow> PasswordKdfRecord \<Rightarrow> nat \<Rightarrow> nat \<Rightarrow> bytes \<Rightarrow> bytes" where
  "storage_aad magic kdf chunk_size chunk_count nonce_hex =
     magic @ encode_kdf_fields kdf @ ascii ''format_version'' @ [9] @ decimal STORAGE_FORMAT_VERSION @ [10] @
     ascii ''chunk_size'' @ [9] @ decimal chunk_size @ [10] @ ascii ''chunk_count'' @ [9] @ decimal chunk_count @ [10] @
     ascii ''nonce'' @ [9] @ nonce_hex @ [10]"

definition chunk_aad :: "bytes \<Rightarrow> nat \<Rightarrow> bytes" where
  "chunk_aad header_aad index = header_aad @ ascii ''chunk_index'' @ [9] @ decimal index @ [10]"

definition chunk_nonce :: "bytes \<Rightarrow> nat \<Rightarrow> bytes HydraResult" where
  "chunk_nonce base_nonce index =
     rbind (ensure (index \<le> u32_max) (HE_InvalidEncoding ''storage chunk index'')) (\<lambda>_.
       Inr (take 8 base_nonce @ be_bytes 4 (of_nat index :: u32)))"

definition max_storage_chunks :: nat where
  "max_storage_chunks = max 1 (div_ceil (length STORAGE_PLAINTEXT_MAGIC + 8 + MAX_STATE_SNAPSHOT_BYTES) STORAGE_CHUNK_PLAINTEXT_BYTES)"

definition reject_chunk_count :: "nat \<Rightarrow> unit HydraResult" where
  "reject_chunk_count chunk_count =
     ensure (\<not> (chunk_count = 0 \<or> max_storage_chunks < chunk_count)) (HE_InvalidEncoding ''storage chunk count'')"

definition chunk_line :: "nat \<Rightarrow> bytes \<Rightarrow> bytes" where
  "chunk_line index ciphertext = ascii ''chunk'' @ [9] @ decimal index @ [9] @ hex_encode ciphertext @ [10]"

text \<open>The loop over the chunks, from the chunk \<open>index\<close> on.\<close>

fun seal_chunks :: "CryptoPrims \<Rightarrow> Secret32 \<Rightarrow> bytes \<Rightarrow> bytes \<Rightarrow> bytes \<Rightarrow> nat list \<Rightarrow> bytes \<Rightarrow> bytes HydraResult" where
  "seal_chunks P key aad base_nonce plaintext [] out = Inr out"
| "seal_chunks P key aad base_nonce plaintext (index # rest) out =
     (let start = index * STORAGE_CHUNK_PLAINTEXT_BYTES;
          end' = min (length plaintext) (start + STORAGE_CHUNK_PLAINTEXT_BYTES);
          chunk = slice start end' plaintext in
      rbind (ensure (length chunk = STORAGE_CHUNK_PLAINTEXT_BYTES) (HE_InvalidEncoding ''storage chunk size'')) (\<lambda>_.
      rbind (chunk_nonce base_nonce index) (\<lambda>nonce.
      rbind (from_crypto (aead_seal P key nonce (chunk_aad aad index) chunk)) (\<lambda>ciphertext.
        seal_chunks P key aad base_nonce plaintext rest (out @ chunk_line index ciphertext)))))"

definition encode_chunked_storage ::
    "CryptoPrims \<Rightarrow> bytes \<Rightarrow> bytes \<Rightarrow> Secret32 \<Rightarrow> PasswordKdfRecord \<Rightarrow> bytes \<Rightarrow> nat \<Rightarrow> bytes HydraResult" where
  "encode_chunked_storage P snapshot magic key kdf base_nonce max_envelope_bytes =
     rbind (pack_storage_plaintext snapshot) (\<lambda>plaintext.
     let chunk_count = max 1 (div_ceil (length plaintext) STORAGE_CHUNK_PLAINTEXT_BYTES) in
     rbind (reject_chunk_count chunk_count) (\<lambda>_.
     let aad = storage_aad magic kdf STORAGE_CHUNK_PLAINTEXT_BYTES chunk_count (hex_encode base_nonce) in
     rbind (seal_chunks P key aad base_nonce plaintext [0..<chunk_count] aad) (\<lambda>out.
     rbind (reject_input_size (length out) max_envelope_bytes ''storage size'') (\<lambda>_. Inr out))))"

fun open_chunks :: "CryptoPrims \<Rightarrow> Secret32 \<Rightarrow> bytes \<Rightarrow> bytes \<Rightarrow> nat \<Rightarrow> nat \<Rightarrow> bytes list \<Rightarrow> bytes \<Rightarrow> bytes HydraResult" where
  "open_chunks P key aad base_nonce chunk_size index [] plaintext = Inr plaintext"
| "open_chunks P key aad base_nonce chunk_size index (ciphertext # rest) plaintext =
     rbind (ensure (length ciphertext = chunk_size + AEAD_TAG_SIZE) (HE_InvalidEncoding ''storage chunk ciphertext size'')) (\<lambda>_.
     rbind (chunk_nonce base_nonce index) (\<lambda>nonce.
     rbind (from_crypto (aead_open P key nonce (chunk_aad aad index) ciphertext)) (\<lambda>chunk.
     rbind (ensure (length chunk = chunk_size) (HE_InvalidEncoding ''storage chunk plaintext size'')) (\<lambda>_.
       open_chunks P key aad base_nonce chunk_size (index + 1) rest (plaintext @ chunk)))))"

definition decode_chunked_storage ::
    "CryptoPrims \<Rightarrow> Secret32 \<Rightarrow> bytes \<Rightarrow> bytes \<Rightarrow> nat \<Rightarrow> bytes list \<Rightarrow> bytes HydraResult" where
  "decode_chunked_storage P key aad base_nonce chunk_size ciphertexts =
     rbind (ensure (chunk_size = STORAGE_CHUNK_PLAINTEXT_BYTES) (HE_InvalidEncoding ''storage chunk size'')) (\<lambda>_.
     rbind (ok_or (checked_mul_usize (length ciphertexts) chunk_size) (HE_InvalidEncoding ''storage chunk count'')) (\<lambda>_.
     rbind (open_chunks P key aad base_nonce chunk_size 0 ciphertexts []) (\<lambda>plaintext.
     rbind (unpack_storage_plaintext plaintext) (\<lambda>snapshot.
     rbind (reject_encoded_size (length snapshot) MAX_STATE_SNAPSHOT_BYTES ''storage snapshot size'') (\<lambda>_. Inr snapshot)))))"

record ParsedStorage =
  ps_aad :: bytes
  ps_kdf :: PasswordKdfRecord
  ps_nonce :: bytes
  ps_chunk_size :: nat
  ps_chunks :: "bytes list"

definition parse_chunk_line :: "nat \<Rightarrow> nat \<Rightarrow> bytes line_op" where
  "parse_chunk_line chunk_size expected_index =
     st_bind (next_line ''storage chunk'') (\<lambda>line.
     let parts = split_on 9 line in
     st_lift (
       rbind (ensure (hd parts = ascii ''chunk'') (HE_InvalidEncoding ''storage chunk'')) (\<lambda>_.
       rbind (required_part parts 1 ''storage chunk index'') (\<lambda>index_text.
       rbind (ok_or (parse_uint usize_max index_text) (HE_InvalidEncoding ''storage chunk index'')) (\<lambda>got_index.
       rbind (ensure (got_index = expected_index) (HE_InvalidEncoding ''storage chunk index'')) (\<lambda>_.
       rbind (required_part parts 2 ''storage chunk ciphertext'') (\<lambda>ciphertext_hex.
       rbind (ensure (length parts \<le> 3) (HE_InvalidEncoding ''storage chunk'')) (\<lambda>_.
       rbind (reject_encoded_size (length ciphertext_hex) ((chunk_size + AEAD_TAG_SIZE) * 2) ''storage chunk ciphertext size'') (\<lambda>_.
         hex_decode ciphertext_hex)))))))))"

fun parse_chunk_lines :: "nat \<Rightarrow> nat list \<Rightarrow> bytes list line_op" where
  "parse_chunk_lines chunk_size [] = st_lift (Inr [])"
| "parse_chunk_lines chunk_size (index # rest) =
     st_bind (parse_chunk_line chunk_size index) (\<lambda>ciphertext.
     st_bind (parse_chunk_lines chunk_size rest) (\<lambda>ciphertexts. st_lift (Inr (ciphertext # ciphertexts))))"

definition reject_trailing_nonempty_lines :: "string \<Rightarrow> unit line_op" where
  "reject_trailing_nonempty_lines description lines =
     (ensure (list_all (\<lambda>line. str_trim line = []) lines) (HE_InvalidEncoding description), [])"

definition number_field :: "nat \<Rightarrow> string \<Rightarrow> string \<Rightarrow> nat line_op" where
  "number_field mx name description =
     st_bind (required_field name description) (\<lambda>value. st_lift (ok_or (parse_uint mx value) (HE_InvalidEncoding description)))"

definition storage_fields :: "bytes \<Rightarrow> ParsedStorage line_op" where
  "storage_fields magic =
     st_bind (next_line ''storage magic line'') (\<lambda>magic_line.
     st_bind (st_lift (ensure (magic_line = trim_end magic) (HE_InvalidEncoding ''storage magic line''))) (\<lambda>_.
     st_bind decode_kdf_fields (\<lambda>kdf.
     st_bind (number_field 255 ''format_version'' ''storage format version'') (\<lambda>version.
     st_bind (st_lift (ensure (version = STORAGE_FORMAT_VERSION) (HE_Unsupported ''storage format version''))) (\<lambda>_.
     st_bind (number_field usize_max ''chunk_size'' ''storage chunk size'') (\<lambda>chunk_size.
     st_bind (st_lift (ensure (chunk_size = STORAGE_CHUNK_PLAINTEXT_BYTES) (HE_InvalidEncoding ''storage chunk size''))) (\<lambda>_.
     st_bind (number_field usize_max ''chunk_count'' ''storage chunk count'') (\<lambda>chunk_count.
     st_bind (st_lift (reject_chunk_count chunk_count)) (\<lambda>_.
     st_bind (required_field ''nonce'' ''storage nonce'') (\<lambda>nonce_hex.
     st_bind (st_lift (decode_fixed_hex 12 nonce_hex ''storage nonce'')) (\<lambda>nonce.
     st_bind (parse_chunk_lines chunk_size [0..<chunk_count]) (\<lambda>ciphertexts.
     st_bind (reject_trailing_nonempty_lines ''storage trailing data'') (\<lambda>_.
       st_lift (Inr \<lparr>ps_aad = storage_aad magic kdf chunk_size chunk_count nonce_hex, ps_kdf = kdf, ps_nonce = nonce,
         ps_chunk_size = chunk_size, ps_chunks = ciphertexts\<rparr>))))))))))))))"

definition parse_chunked_storage :: "bytes \<Rightarrow> bytes \<Rightarrow> nat \<Rightarrow> ParsedStorage HydraResult" where
  "parse_chunked_storage bs magic max_bytes =
     rbind (ensure (\<not> max_bytes < length bs) (HE_InvalidEncoding ''storage size'')) (\<lambda>_.
     rbind (ensure (starts_with bs magic) (HE_InvalidEncoding ''storage magic'')) (\<lambda>_.
     rbind (from_utf8 bs (HE_InvalidEncoding ''storage utf-8'')) (\<lambda>text_bytes.
     rbind (ensure (list_all (\<lambda>line. \<not> max_bytes < length line) (str_lines text_bytes)) (HE_InvalidEncoding ''storage line length'')) (\<lambda>_.
       fst (storage_fields magic (str_lines text_bytes))))))"

definition encode_backup :: "CryptoPrims \<Rightarrow> Scrypt \<Rightarrow> bytes \<Rightarrow> bytes \<Rightarrow> PasswordKdfRecord \<Rightarrow> bytes \<Rightarrow> bytes HydraResult" where
  "encode_backup P S snapshot password kdf nonce =
     rbind (reject_input_size (length snapshot) MAX_STATE_SNAPSHOT_BYTES ''backup snapshot size'') (\<lambda>_.
     rbind (backup_key S password kdf) (\<lambda>key.
       encode_chunked_storage P snapshot BACKUP_MAGIC key kdf nonce MAX_BACKUP_BYTES))"

definition decode_backup :: "CryptoPrims \<Rightarrow> Scrypt \<Rightarrow> bytes \<Rightarrow> bytes \<Rightarrow> bytes HydraResult" where
  "decode_backup P S bs password =
     rbind (parse_chunked_storage bs BACKUP_MAGIC MAX_BACKUP_BYTES) (\<lambda>p.
     rbind (backup_key S password (ps_kdf p)) (\<lambda>key.
       decode_chunked_storage P key (ps_aad p) (ps_nonce p) (ps_chunk_size p) (ps_chunks p)))"

definition encode_encrypted_state :: "CryptoPrims \<Rightarrow> bytes \<Rightarrow> Secret32 \<Rightarrow> PasswordKdfRecord \<Rightarrow> bytes \<Rightarrow> bytes HydraResult" where
  "encode_encrypted_state P snapshot key kdf nonce =
     rbind (reject_input_size (length snapshot) MAX_STATE_SNAPSHOT_BYTES ''state snapshot size'') (\<lambda>_.
       encode_chunked_storage P snapshot STATE_MAGIC key kdf nonce MAX_ENCRYPTED_STATE_BYTES)"

definition decode_encrypted_state :: "CryptoPrims \<Rightarrow> bytes \<Rightarrow> Secret32 \<Rightarrow> bytes HydraResult" where
  "decode_encrypted_state P bs key =
     rbind (parse_chunked_storage bs STATE_MAGIC MAX_ENCRYPTED_STATE_BYTES) (\<lambda>p.
       decode_chunked_storage P key (ps_aad p) (ps_nonce p) (ps_chunk_size p) (ps_chunks p))"

definition parse_state_kdf :: "bytes \<Rightarrow> PasswordKdfRecord HydraResult" where
  "parse_state_kdf bs = rbind (parse_chunked_storage bs STATE_MAGIC MAX_ENCRYPTED_STATE_BYTES) (\<lambda>p. Inr (ps_kdf p))"

section \<open>Backups and the files of a profile\<close>

text \<open>Drawing the salt and the nonce is part of writing; \<open>salt\<close> and \<open>nonce\<close> are what was drawn.\<close>

definition seal_state_snapshot :: "CryptoPrims \<Rightarrow> bytes option \<Rightarrow> bytes \<Rightarrow> Secret32 \<Rightarrow> PasswordKdfRecord \<Rightarrow> bytes HydraResult" where
  "seal_state_snapshot P nonce snapshot key kdf =
     rbind (ok_or nonce HE_EntropyUnavailable) (encode_encrypted_state P snapshot key kdf)"

definition export_verified_backup_snapshot ::
    "CryptoPrims \<Rightarrow> Scrypt \<Rightarrow> bytes option \<Rightarrow> bytes option \<Rightarrow> bytes \<Rightarrow> bytes \<Rightarrow> bytes HydraResult" where
  "export_verified_backup_snapshot P S salt nonce snapshot password =
     rbind (verify_state_snapshot P snapshot) (\<lambda>_.
     rbind (kdf_new_interactive salt) (\<lambda>kdf.
     rbind (ok_or nonce HE_EntropyUnavailable) (\<lambda>nonce.
       encode_backup P S snapshot password kdf nonce)))"

definition open_verified_backup_snapshot :: "CryptoPrims \<Rightarrow> Scrypt \<Rightarrow> bytes \<Rightarrow> bytes \<Rightarrow> bytes HydraResult" where
  "open_verified_backup_snapshot P S bs password =
     rbind (decode_backup P S bs password) (\<lambda>snapshot.
     rbind (verify_state_snapshot P snapshot) (\<lambda>_. Inr snapshot))"

text \<open>The two files; \<open>io\<close> is what the file operations of a write return.\<close>

record NativeStateStore =
  ns_state :: "bytes option"
  ns_rollback :: "bytes option"

type_synonym 'a file_op = "(NativeStateStore, HydraMsgError, 'a) st"

definition read_encrypted_snapshot :: "NativeStateStore \<Rightarrow> bytes HydraResult" where
  "read_encrypted_snapshot store =
     rbind (ok_or (ns_state store) (HE_Io ''not found'')) (\<lambda>bs.
     rbind (ensure (\<not> MAX_ENCRYPTED_STATE_BYTES < length bs) (HE_InvalidEncoding ''encrypted state'')) (\<lambda>_. Inr bs))"

definition write_encrypted_snapshot :: "unit HydraResult \<Rightarrow> bytes \<Rightarrow> unit file_op" where
  "write_encrypted_snapshot io encrypted_snapshot =
     st_bind (st_lift (ensure (\<not> MAX_ENCRYPTED_STATE_BYTES < length encrypted_snapshot) (HE_InvalidInput ''encrypted state size''))) (\<lambda>_.
     st_bind (st_lift io) (\<lambda>_. st_modify (\<lambda>store. store\<lparr>ns_state := Some encrypted_snapshot\<rparr>)))"

definition read_rollback_guard :: "NativeStateStore \<Rightarrow> bytes option HydraResult" where
  "read_rollback_guard store = (case ns_rollback store of None \<Rightarrow> Inr None
     | Some bs \<Rightarrow>
         rbind (ensure (\<not> 64 < length bs) (HE_InvalidEncoding ''rollback guard size'')) (\<lambda>_.
         rbind (from_utf8 bs (HE_InvalidEncoding ''rollback guard utf-8'')) (\<lambda>value. Inr (Some value))))"

definition write_rollback_guard :: "unit HydraResult \<Rightarrow> u64 \<Rightarrow> unit file_op" where
  "write_rollback_guard io state_generation =
     st_bind (st_lift io) (\<lambda>_. st_modify (\<lambda>store. store\<lparr>ns_rollback := Some (decimal (unat state_generation) @ [10])\<rparr>))"

definition reject_state_rollback :: "NativeStateStore \<Rightarrow> u64 \<Rightarrow> unit HydraResult" where
  "reject_state_rollback store state_generation =
     rbind (read_rollback_guard store) (\<lambda>guard. case guard of None \<Rightarrow> Inr ()
     | Some value \<Rightarrow>
         rbind (ok_or (parse_u64 (str_trim value)) (HE_InvalidEncoding ''state rollback guard'')) (\<lambda>newest.
           ensure (\<not> unat state_generation < newest) (HE_InvalidEncoding ''state rollback detected'')))"

section \<open>Writing and opening the state\<close>

definition flush_encrypted_state_snapshot :: "CryptoPrims \<Rightarrow> bytes option \<Rightarrow> bytes hydra_op" where
  "flush_encrypted_state_snapshot P nonce h =
     (let previous_generation = hy_state_generation h;
          h = h\<lparr>hy_state_generation := saturating_add_u64 (hy_state_generation h) 1\<rparr>;
          persist_result = rbind (encode_state_snapshot h) (\<lambda>snapshot.
            seal_state_snapshot P nonce snapshot (hy_state_key h) (hy_state_kdf h)) in
      (persist_result, if is_ok persist_result then h else h\<lparr>hy_state_generation := previous_generation\<rparr>))"

text \<open>\<open>persist\<close> with the profile written out: a step on the state and the files.\<close>

definition native_persist ::
    "CryptoPrims \<Rightarrow> bytes option \<Rightarrow> unit HydraResult \<Rightarrow> unit HydraResult \<Rightarrow> (Hydra \<times> NativeStateStore, HydraMsgError, unit) st" where
  "native_persist P nonce state_io guard_io hs =
     (let (h, store) = hs; previous_generation = hy_state_generation h in
      case flush_encrypted_state_snapshot P nonce h of
        (Inl e, h) \<Rightarrow> (Inl e, (h, store))
      | (Inr encrypted, h) \<Rightarrow>
          let (persist_result, store) = st_bind (write_encrypted_snapshot state_io encrypted)
                (\<lambda>_. write_rollback_guard guard_io (hy_state_generation h)) store in
          (persist_result, (if is_ok persist_result then h else h\<lparr>hy_state_generation := previous_generation\<rparr>, store)))"

definition DEFAULT_PACKET_SIZE :: nat where "DEFAULT_PACKET_SIZE = 56 * 1024"

definition empty_hydra :: "bytes option \<Rightarrow> Secret32 \<Rightarrow> PasswordKdfRecord \<Rightarrow> Hydra HydraResult" where
  "empty_hydra auth_secret key kdf =
     rbind (ok_or auth_secret HE_EntropyUnavailable) (\<lambda>secret.
       Inr \<lparr>hy_identities = [], hy_active_id = None, hy_contacts = [], hy_pending_offers = [], hy_accepted_inits = [],
         hy_sessions = [], hy_session_security_policies = [], hy_receive_routes = [], hy_session_route_tags = [],
         hy_store = \<lparr>ms_messages = [], ms_usage = [], ms_bytes = 0, ms_next_id = 1\<rparr>, hy_lobbies = [],
         hy_anonymous_auth_secret = secret, hy_anonymous_auth_spent = [], hy_anonymous_auth_spent_index = {},
         hy_state_key = key, hy_state_kdf = kdf, hy_state_generation = 0, hy_peer_generation_floors = [],
         hy_packet_size = DEFAULT_PACKET_SIZE, hy_pending_fragments = []\<rparr>)"

definition prepare_state_kdf_upgrade :: "Scrypt \<Rightarrow> bytes option \<Rightarrow> bytes \<Rightarrow> unit hydra_op" where
  "prepare_state_kdf_upgrade S salt state_password =
     st_bind (st_lift (
       rbind (kdf_new_interactive salt) (\<lambda>new_kdf.
       rbind (state_key S state_password new_kdf) (\<lambda>new_key. Inr (new_kdf, new_key))))) (\<lambda>(new_kdf, new_key).
       st_modify (\<lambda>h. h\<lparr>hy_state_kdf := new_kdf, hy_state_key := new_key\<rparr>))"

definition persist_or_restore_kdf :: "Disk \<Rightarrow> PasswordKdfRecord \<Rightarrow> Secret32 \<Rightarrow> unit hydra_op" where
  "persist_or_restore_kdf disk previous_kdf previous_key h =
     (case persist disk h of (Inr _, h) \<Rightarrow> (Inr (), h)
      | (Inl e, h) \<Rightarrow> (Inl e, h\<lparr>hy_state_kdf := previous_kdf, hy_state_key := previous_key\<rparr>))"

definition upgrade_state_kdf :: "Scrypt \<Rightarrow> Disk \<Rightarrow> bytes option \<Rightarrow> bytes \<Rightarrow> unit hydra_op" where
  "upgrade_state_kdf S disk salt state_password h =
     st_bind (st_lift (state_key S state_password (hy_state_kdf h))) (\<lambda>previous_key.
     st_bind (prepare_state_kdf_upgrade S salt state_password) (\<lambda>_.
       persist_or_restore_kdf disk (hy_state_kdf h) previous_key)) h"

definition change_state_password :: "Scrypt \<Rightarrow> Disk \<Rightarrow> bytes option \<Rightarrow> bytes \<Rightarrow> bytes \<Rightarrow> unit hydra_op" where
  "change_state_password S disk salt old_password new_password h =
     st_bind (st_lift (
       rbind (state_key S old_password (hy_state_kdf h)) (\<lambda>old_key.
       if old_key \<noteq> hy_state_key h then Inl HE_InvalidPassword
       else state_key S old_password (hy_state_kdf h)))) (\<lambda>previous_key.
     st_bind (prepare_state_kdf_upgrade S salt new_password) (\<lambda>_.
       persist_or_restore_kdf disk (hy_state_kdf h) previous_key)) h"

text \<open>
  \<open>load_state\<close>: the guard is checked after the snapshot was applied, then written. \<open>Hydra::open\<close> with the files
  of the profile; its error loses the state that was being built.
\<close>

definition load_state :: "CryptoPrims \<Rightarrow> unit HydraResult \<Rightarrow> (Hydra \<times> NativeStateStore, HydraMsgError, unit) st" where
  "load_state P guard_io hs =
     (let (h, store) = hs in
      if ns_state store = None then (Inr (), hs)
      else case rbind (read_encrypted_snapshot store) (\<lambda>bs. decode_encrypted_state P bs (hy_state_key h)) of
        Inl e \<Rightarrow> (Inl e, hs)
      | Inr snapshot \<Rightarrow>
          (case apply_state_snapshot P snapshot h of
             (Inl e, h) \<Rightarrow> (Inl e, (h, store))
           | (Inr _, h) \<Rightarrow>
               let (r, store) = st_bind (st_lift (reject_state_rollback store (hy_state_generation h)))
                     (\<lambda>_. write_rollback_guard guard_io (hy_state_generation h)) store in
               (r, (h, store))))"

definition on_hydra :: "'a hydra_op \<Rightarrow> (Hydra \<times> NativeStateStore, HydraMsgError, 'a) st" where
  "on_hydra m hs = (let (h, store) = hs; (r, h) = m h in (r, (h, store)))"

record OpenDraws =
  op_salt :: "bytes option"
  op_auth_secret :: "bytes option"
  op_upgrade_salt :: "bytes option"
  op_nonce :: "bytes option"
  op_load_guard_io :: "unit HydraResult"
  op_state_io :: "unit HydraResult"
  op_guard_io :: "unit HydraResult"

definition open_profile :: "CryptoPrims \<Rightarrow> Scrypt \<Rightarrow> OpenDraws \<Rightarrow> bytes \<Rightarrow> (NativeStateStore, HydraMsgError, Hydra) st" where
  "open_profile P S d state_password store =
     st_bind (st_lift (
       rbind (if ns_state store \<noteq> None then rbind (read_encrypted_snapshot store) parse_state_kdf
              else kdf_new_interactive (op_salt d)) (\<lambda>state_kdf.
       rbind (kdf_needs_upgrade state_kdf) (\<lambda>migrate_kdf.
       rbind (state_key S state_password state_kdf) (\<lambda>key.
       rbind (empty_hydra (op_auth_secret d) key state_kdf) (\<lambda>h. Inr (h, migrate_kdf))))))) (\<lambda>(h, migrate_kdf) store.
     let (r, (h, store)) =
       st_bind (load_state P (op_load_guard_io d)) (\<lambda>_.
         if migrate_kdf then
           st_bind (on_hydra (\<lambda>h. st_bind (st_lift (state_key S state_password (hy_state_kdf h)))
             (\<lambda>_. prepare_state_kdf_upgrade S (op_upgrade_salt d) state_password) h)) (\<lambda>_.
             native_persist P (op_nonce d) (op_state_io d) (op_guard_io d))
         else st_lift (Inr ())) (h, store) in
     (rbind r (\<lambda>_. Inr h), store)) store"

definition export_backup :: "CryptoPrims \<Rightarrow> Scrypt \<Rightarrow> bytes option \<Rightarrow> bytes option \<Rightarrow> bytes \<Rightarrow> Hydra \<Rightarrow> bytes HydraResult" where
  "export_backup P S salt nonce password h =
     rbind (encode_state_snapshot h) (\<lambda>snapshot. export_verified_backup_snapshot P S salt nonce snapshot password)"

definition raise_floor :: "ContactId \<times> u64 \<Rightarrow> Hydra \<Rightarrow> Hydra" where
  "raise_floor entry h =
     (let (contact_id, floor) = entry in
      if map_of (hy_contacts h) contact_id \<noteq> None
      then h\<lparr>hy_peer_generation_floors := AList.update contact_id
        (case map_of (hy_peer_generation_floors h) contact_id of None \<Rightarrow> floor | Some current \<Rightarrow> max current floor)
        (hy_peer_generation_floors h)\<rparr>
      else h)"

definition restore_verified_backup_snapshot :: "CryptoPrims \<Rightarrow> Disk \<Rightarrow> bytes \<Rightarrow> unit hydra_op" where
  "restore_verified_backup_snapshot P disk snapshot h =
     st_bind (st_lift (encode_state_snapshot h)) (\<lambda>previous_snapshot.
     let previous_generation = hy_state_generation h; previous_peer_floors = hy_peer_generation_floors h in
     st_bind (apply_state_snapshot P snapshot) (\<lambda>_.
     st_bind (st_modify (\<lambda>h. h\<lparr>hy_state_generation := max (hy_state_generation h) previous_generation\<rparr>)) (\<lambda>_.
     st_bind (st_modify (fold raise_floor previous_peer_floors)) (\<lambda>_ h.
     case persist disk h of
       (Inr _, h) \<Rightarrow> (Inr (), h)
     | (Inl persist_error, h) \<Rightarrow> st_bind (apply_state_snapshot P previous_snapshot) (\<lambda>_. st_lift (Inl persist_error)) h)))) h"

definition import_backup :: "CryptoPrims \<Rightarrow> Scrypt \<Rightarrow> Disk \<Rightarrow> bytes \<Rightarrow> bytes \<Rightarrow> unit hydra_op" where
  "import_backup P S disk bs password =
     st_bind (st_lift (open_verified_backup_snapshot P S bs password)) (restore_verified_backup_snapshot P disk)"

section \<open>Freshness anchors\<close>

definition STATE_FRESHNESS_DOMAIN :: bytes where "STATE_FRESHNESS_DOMAIN = ascii ''HYDRA-MSG/state-freshness''"
definition STATE_FRESHNESS_ANCHOR_BYTES :: nat where "STATE_FRESHNESS_ANCHOR_BYTES = 40"

definition anchor_from_bytes :: "bytes \<Rightarrow> bytes HydraResult" where
  "anchor_from_bytes bs =
     rbind (ensure (length bs = STATE_FRESHNESS_ANCHOR_BYTES) (HE_InvalidEncoding ''state freshness anchor size'')) (\<lambda>_. Inr bs)"

definition anchor_generation :: "bytes \<Rightarrow> u64" where
  "anchor_generation anchor = be_word (take 8 anchor)"

definition freshness_tag :: "CryptoPrims \<Rightarrow> Hydra \<Rightarrow> u64 \<Rightarrow> bytes" where
  "freshness_tag P h generation = hmac_sha3_256 P (hy_state_key h) (STATE_FRESHNESS_DOMAIN @ be_bytes 8 generation)"

definition state_freshness_anchor :: "CryptoPrims \<Rightarrow> Hydra \<Rightarrow> bytes" where
  "state_freshness_anchor P h =
     (let generation = hy_state_generation h in be_bytes 8 generation @ freshness_tag P h generation)"

definition constant_time_eq :: "bytes \<Rightarrow> bytes \<Rightarrow> bool" where
  "constant_time_eq left right \<longleftrightarrow> length left = length right \<and>
     foldl (\<lambda>difference (a, b). difference OR (a XOR b)) 0 (zip left right) = 0"

definition verify_state_freshness_anchor :: "CryptoPrims \<Rightarrow> bytes \<Rightarrow> unit hydra_op" where
  "verify_state_freshness_anchor P anchor h =
     (let generation = anchor_generation anchor; expected = freshness_tag P h generation in
      if \<not> constant_time_eq (drop 8 anchor) expected then (Inl (HE_InvalidEncoding ''state freshness anchor authenticator''), h)
      else if hy_state_generation h < generation then (Inl HE_StateRollbackDetected, burn_all_sessions h)
      else (Inr (), h))"

end
