(* ===== verification/App_Ops.thy ===== *)
theory App_Ops
  imports App_Storage
begin

text \<open>
  The other public operations of the facade: contacts (\<open>api/contacts.rs\<close>), identities (\<open>api/identity.rs\<close>), lobbies
  (\<open>api/lobbies.rs\<close>), anonymous authorization (\<open>api/anonymous_auth.rs\<close>), and the message history with the writes
  of the state around it (\<open>messages/mod.rs\<close>). Several take a snapshot first and load it again when the state cannot
  be written.
\<close>

definition persist_or_reload :: "CryptoPrims \<Rightarrow> Disk \<Rightarrow> bytes \<Rightarrow> unit hydra_op" where
  "persist_or_reload P disk previous_snapshot h =
     (case persist disk h of (Inr _, h) \<Rightarrow> (Inr (), h)
      | (Inl e, h) \<Rightarrow> (Inl e, snd (apply_state_snapshot P previous_snapshot h)))"

section \<open>Contacts\<close>

definition CONTACTS_MAGIC :: bytes where "CONTACTS_MAGIC = ascii ''HYDRA-MSG-CONTACTS'' @ [10]"
definition MAX_CONTACT_IMPORT_BYTES :: nat where "MAX_CONTACT_IMPORT_BYTES = 16 * 1024 * 1024"
definition MAX_IMPORTED_CONTACTS :: nat where "MAX_IMPORTED_CONTACTS = MAX_CONTACTS"

definition update_contact :: "ContactId \<Rightarrow> (HydraContact \<Rightarrow> HydraContact) \<Rightarrow> unit hydra_op" where
  "update_contact contact_id f h =
     st_bind (st_lift (require_contact contact_id h)) (\<lambda>contact.
       st_modify (\<lambda>h. h\<lparr>hy_contacts := AList.update contact_id (f contact) (hy_contacts h)\<rparr>)) h"

definition create_contact_card :: "Hydra \<Rightarrow> bytes HydraResult" where
  "create_contact_card h = rbind (active_record h) (\<lambda>record. Inr (encode_contact_card None (id_public_key record)))"

definition create_labeled_contact_card :: "bytes \<Rightarrow> Hydra \<Rightarrow> bytes HydraResult" where
  "create_labeled_contact_card label h =
     rbind (active_record h) (\<lambda>record.
     let label = str_trim label in
     if label = [] then create_contact_card h
     else rbind (validate_label_input label ''contact label size'') (\<lambda>_. Inr (encode_contact_card (Some label) (id_public_key record))))"

definition add_contact :: "CryptoPrims \<Rightarrow> Disk \<Rightarrow> bytes \<Rightarrow> HydraContact hydra_op" where
  "add_contact P disk contact_card h =
     st_bind (st_lift (
       rbind (decode_contact_card P contact_card) (\<lambda>contact.
       rbind (if map_of (hy_contacts h) (ct_id contact) = None
              then reject_collection_growth (length (hy_contacts h)) 1 MAX_CONTACTS ''contact limit reached'' else Inr ()) (\<lambda>_.
         Inr contact)))) (\<lambda>contact.
     st_bind (st_modify (\<lambda>h. h\<lparr>hy_contacts := AList.update (ct_id contact) contact (hy_contacts h)\<rparr>)) (\<lambda>_.
     st_bind (persist disk) (\<lambda>_. st_lift (Inr contact)))) h"

text \<open>\<open>str::split\<close> at a text of several bytes.\<close>

function split_text :: "bytes \<Rightarrow> bytes \<Rightarrow> bytes \<Rightarrow> bytes list" where
  "split_text sep piece s =
     (if sep \<noteq> [] \<and> starts_with s sep then piece # split_text sep [] (drop (length sep) s)
      else case s of [] \<Rightarrow> [piece] | b # rest \<Rightarrow> split_text sep (piece @ [b]) rest)"

  by pat_completeness auto
termination
proof (relation "measure (\<lambda>(sep, piece, s). length s)")
  fix sep piece s :: bytes assume "sep \<noteq> [] \<and> starts_with s sep"
  then have "0 < length sep" "length sep \<le> length s" by (auto simp: starts_with_def) (metis length_take min.cobounded1)
  then show "((sep, [], drop (length sep) s), sep, piece, s) \<in> measure (\<lambda>(sep, piece, s). length s)" unfolding in_measure prod.case length_drop by linarith
qed auto

declare split_text.simps [simp del]

text \<open>The two loops of \<open>import_contacts\<close> differ in how one record is read.\<close>

fun import_contact_records ::
    "(bytes \<Rightarrow> HydraContact HydraResult) \<Rightarrow> bytes list \<Rightarrow> nat \<Rightarrow> (ContactId \<times> HydraContact) list \<Rightarrow>
      (ContactId \<times> HydraContact) list HydraResult" where
  "import_contact_records decode [] record_count parsed = Inr parsed"
| "import_contact_records decode (piece # rest) record_count parsed =
     (if str_trim piece = [] then import_contact_records decode rest record_count parsed
      else
        rbind (reject_decoded_collection_growth record_count 1 MAX_IMPORTED_CONTACTS ''contacts import count'') (\<lambda>_.
        rbind (decode piece) (\<lambda>contact.
        rbind (ensure (map_of parsed (ct_id contact) = None) (HE_InvalidEncoding ''duplicate contact import record'')) (\<lambda>_.
          import_contact_records decode rest (record_count + 1) (parsed @ [(ct_id contact, contact)])))))"

definition parse_contacts :: "CryptoPrims \<Rightarrow> bytes \<Rightarrow> (ContactId \<times> HydraContact) list HydraResult" where
  "parse_contacts P bs =
     rbind (reject_encoded_size (length bs) MAX_CONTACT_IMPORT_BYTES ''contacts import size'') (\<lambda>_.
     rbind (from_utf8 bs (HE_InvalidEncoding ''contacts export is not utf-8'')) (\<lambda>text_bytes.
       if starts_with text_bytes CONTACTS_MAGIC
       then import_contact_records (decode_contact_line P) (drop 1 (str_lines text_bytes)) 0 []
       else import_contact_records (decode_contact_card P) (split_text ([10] @ ascii ''---'' @ [10]) [] text_bytes) 0 []))"

fun refresh_contacts :: "CryptoPrims \<Rightarrow> ContactId list \<Rightarrow> unit hydra_op" where
  "refresh_contacts P [] = st_lift (Inr ())"
| "refresh_contacts P (contact_id # rest) =
     st_bind (\<lambda>h. if is_blocked contact_id h then st_modify (remove_session_routes contact_id) h
                  else refresh_session_routes P contact_id h) (\<lambda>_. refresh_contacts P rest)"

definition import_contacts :: "CryptoPrims \<Rightarrow> Disk \<Rightarrow> bytes \<Rightarrow> unit hydra_op" where
  "import_contacts P disk bs h =
     st_bind (st_lift (
       rbind (parse_contacts P bs) (\<lambda>parsed.
       rbind (reject_collection_growth (length (hy_contacts h))
                (length (filter (\<lambda>c. map_of (hy_contacts h) c = None) (map fst parsed))) MAX_CONTACTS ''contact limit reached'') (\<lambda>_.
         Inr parsed)))) (\<lambda>parsed.
     st_bind (st_modify (\<lambda>h. h\<lparr>hy_contacts := fold (\<lambda>(c, contact). AList.update c contact) parsed (hy_contacts h)\<rparr>)) (\<lambda>_.
     st_bind (refresh_contacts P (map fst parsed)) (\<lambda>_. persist disk))) h"

fun export_contact_lines :: "bytes \<Rightarrow> HydraContact list \<Rightarrow> bytes HydraResult" where
  "export_contact_lines out [] = Inr out"
| "export_contact_lines out (contact # rest) =
     (let out = out @ encode_contact_line contact @ [10] in
      rbind (reject_input_size (length out) MAX_CONTACT_IMPORT_BYTES ''contacts export size'') (\<lambda>_. export_contact_lines out rest))"

definition export_contacts :: "Hydra \<Rightarrow> bytes HydraResult" where
  "export_contacts h = export_contact_lines CONTACTS_MAGIC (map snd (hy_contacts h))"

definition verify_contact :: "Disk \<Rightarrow> ContactId \<Rightarrow> bytes \<Rightarrow> unit hydra_op" where
  "verify_contact disk contact_id safety_code =
     st_bind (st_lift (ensure (safety_code_for_contact contact_id = safety_code) (HE_InvalidInput ''contact safety code mismatch''))) (\<lambda>_.
     st_bind (update_contact contact_id (\<lambda>contact. contact\<lparr>ct_verified := True\<rparr>)) (\<lambda>_. persist disk))"

definition unverify_contact :: "Disk \<Rightarrow> ContactId \<Rightarrow> unit hydra_op" where
  "unverify_contact disk contact_id =
     st_bind (update_contact contact_id (\<lambda>contact. contact\<lparr>ct_verified := False\<rparr>)) (\<lambda>_. persist disk)"

definition rename_contact :: "Disk \<Rightarrow> ContactId \<Rightarrow> bytes \<Rightarrow> unit hydra_op" where
  "rename_contact disk contact_id label =
     st_bind (st_lift (validate_label_input label ''contact label size'')) (\<lambda>_.
     st_bind (update_contact contact_id (\<lambda>contact. contact\<lparr>ct_label := label\<rparr>)) (\<lambda>_. persist disk))"

definition drop_pending_of :: "ContactId \<Rightarrow> PendingMap \<Rightarrow> PendingMap" where
  "drop_pending_of contact_id pending = filter (\<lambda>(key, _). pk_from key \<noteq> contact_id) pending"

definition forget_attempts :: "ContactId \<Rightarrow> Hydra \<Rightarrow> Hydra" where
  "forget_attempts contact_id h = h\<lparr>
     hy_pending_offers := retain (\<lambda>p. po_contact_id p \<noteq> contact_id) (hy_pending_offers h),
     hy_accepted_inits := retain (\<lambda>a. ac_contact_id a \<noteq> contact_id) (hy_accepted_inits h)\<rparr>"

definition remove_contact :: "CryptoPrims \<Rightarrow> Disk \<Rightarrow> ContactId \<Rightarrow> unit hydra_op" where
  "remove_contact P disk contact_id h =
     st_bind (st_lift (rbind (encode_state_snapshot h) (\<lambda>previous_snapshot.
       rbind (require_contact contact_id h) (\<lambda>_. Inr previous_snapshot)))) (\<lambda>previous_snapshot.
     st_bind (st_modify (\<lambda>h. h\<lparr>hy_contacts := AList.delete contact_id (hy_contacts h)\<rparr>)) (\<lambda>_.
     st_bind (st_modify (remove_session_routes contact_id)) (\<lambda>_.
     st_bind (st_modify (\<lambda>h. h\<lparr>hy_sessions := AList.delete contact_id (hy_sessions h)\<rparr>)) (\<lambda>_.
     st_bind (st_modify (forget_attempts contact_id)) (\<lambda>_.
     st_bind (st_modify (\<lambda>h. h\<lparr>hy_session_security_policies := AList.delete contact_id (hy_session_security_policies h),
       hy_pending_fragments := drop_pending_of contact_id (hy_pending_fragments h)\<rparr>)) (\<lambda>_.
       persist_or_reload P disk previous_snapshot)))))) h"

definition block_contact :: "Disk \<Rightarrow> ContactId \<Rightarrow> unit hydra_op" where
  "block_contact disk contact_id =
     st_bind (update_contact contact_id (\<lambda>contact. contact\<lparr>ct_blocked := True\<rparr>)) (\<lambda>_.
     st_bind (st_modify (remove_session_routes contact_id)) (\<lambda>_.
     st_bind (st_modify (forget_attempts contact_id)) (\<lambda>_.
     st_bind (st_modify (\<lambda>h. h\<lparr>hy_pending_fragments := drop_pending_of contact_id (hy_pending_fragments h)\<rparr>)) (\<lambda>_.
       persist disk))))"

definition unblock_contact :: "CryptoPrims \<Rightarrow> Disk \<Rightarrow> ContactId \<Rightarrow> unit hydra_op" where
  "unblock_contact P disk contact_id =
     st_bind (update_contact contact_id (\<lambda>contact. contact\<lparr>ct_blocked := False\<rparr>)) (\<lambda>_.
     st_bind (refresh_session_routes P contact_id) (\<lambda>_. persist disk))"

section \<open>Identities\<close>

definition require_identity :: "IdentityId \<Rightarrow> Hydra \<Rightarrow> IdentityRecord HydraResult" where
  "require_identity i h = ok_or (map_of (hy_identities h) i) HE_IdentityNotFound"

definition change_identity :: "IdentityId \<Rightarrow> (IdentityRecord \<Rightarrow> IdentityRecord HydraResult) \<Rightarrow> unit hydra_op" where
  "change_identity i f h =
     st_bind (st_lift (rbind (require_identity i h) f)) (\<lambda>record.
       st_modify (\<lambda>h. h\<lparr>hy_identities := AList.update i record (hy_identities h)\<rparr>)) h"

text \<open>The random draws of the operations on identities.\<close>

record IdentityDraws =
  dr_seed :: "bytes option"
  dr_salt :: "bytes option"
  dr_nonce :: "bytes option"

definition generate_id :: "CryptoPrims \<Rightarrow> Scrypt \<Rightarrow> Disk \<Rightarrow> IdentityDraws \<Rightarrow> bytes \<Rightarrow> IdentityId hydra_op" where
  "generate_id P S disk d password h =
     st_bind (st_lift (
       rbind (reject_collection_growth (length (hy_identities h)) 1 MAX_IDENTITIES ''identity limit reached'') (\<lambda>_.
       rbind (ok_or (dr_seed d) HE_EntropyUnavailable) (\<lambda>seed.
         identity_record_from_seed P S (dr_salt d) (dr_nonce d)
           (ascii ''identity-'' @ decimal (length (hy_identities h) + 1)) seed password True)))) (\<lambda>record.
     st_bind (st_modify (\<lambda>h. h\<lparr>hy_identities := AList.update (id_id record) record (hy_identities h)\<rparr>)) (\<lambda>_.
     st_bind (persist disk) (\<lambda>_. st_lift (Inr (id_id record))))) h"

definition import_id :: "CryptoPrims \<Rightarrow> Scrypt \<Rightarrow> Disk \<Rightarrow> IdentityDraws \<Rightarrow> bytes \<Rightarrow> bytes \<Rightarrow> IdentityId hydra_op" where
  "import_id P S disk d bs password h =
     st_bind (st_lift (
       rbind (reject_collection_growth (length (hy_identities h)) 1 MAX_IDENTITIES ''identity limit reached'') (\<lambda>_.
       rbind (decode_identity_export bs) (\<lambda>seed.
         identity_record_from_seed P S (dr_salt d) (dr_nonce d)
           (ascii ''imported-'' @ decimal (length (hy_identities h) + 1)) seed password False)))) (\<lambda>record.
     st_bind (st_modify (\<lambda>h. h\<lparr>hy_identities := AList.update (id_id record) record (hy_identities h)\<rparr>)) (\<lambda>_.
     st_bind (persist disk) (\<lambda>_. st_lift (Inr (id_id record))))) h"

definition create_one_time_contact_card ::
    "CryptoPrims \<Rightarrow> Scrypt \<Rightarrow> Disk \<Rightarrow> IdentityDraws \<Rightarrow> bytes \<Rightarrow> (IdentityId \<times> bytes) hydra_op" where
  "create_one_time_contact_card P S disk d password h =
     st_bind (st_lift (
       rbind (reject_collection_growth (length (hy_identities h)) 1 MAX_IDENTITIES ''identity limit reached'') (\<lambda>_.
       rbind (ok_or (dr_seed d) HE_EntropyUnavailable) (\<lambda>seed.
         identity_record_from_seed P S (dr_salt d) (dr_nonce d) [] seed password True)))) (\<lambda>record.
     st_bind (st_modify (\<lambda>h. h\<lparr>hy_identities := AList.update (id_id record) record (hy_identities h),
       hy_active_id := Some (id_id record)\<rparr>)) (\<lambda>_.
     st_bind (persist disk) (\<lambda>_.
       st_lift (Inr (id_id record, encode_contact_card None (id_public_key record)))))) h"

definition identity_seed :: "CryptoPrims \<Rightarrow> Scrypt \<Rightarrow> IdentityRecord \<Rightarrow> bytes \<Rightarrow> bytes HydraResult" where
  "identity_seed P S record password = (case id_seed record of
       Some seed \<Rightarrow> rbind (verify_password P S record password) (\<lambda>_. Inr seed)
     | None \<Rightarrow> decrypt_seed P S record password)"

definition export_id :: "CryptoPrims \<Rightarrow> Scrypt \<Rightarrow> IdentityId \<Rightarrow> bytes \<Rightarrow> Hydra \<Rightarrow> bytes HydraResult" where
  "export_id P S i password h =
     rbind (require_identity i h) (\<lambda>record.
     rbind (verify_password P S record password) (\<lambda>_.
     rbind (identity_seed P S record password) (\<lambda>seed. Inr (encode_identity_export seed))))"

definition unlock_id :: "CryptoPrims \<Rightarrow> Scrypt \<Rightarrow> Disk \<Rightarrow> IdentityDraws \<Rightarrow> IdentityId \<Rightarrow> bytes \<Rightarrow> unit hydra_op" where
  "unlock_id P S disk d i password h =
     st_bind (st_lift (
       rbind (require_identity i h) (\<lambda>previous.
       rbind (verify_password P S previous password) (\<lambda>_.
       rbind (kdf_needs_upgrade (id_password_kdf previous)) (\<lambda>upgrade_kdf. Inr (previous, upgrade_kdf)))))) (\<lambda>(previous, upgrade_kdf).
     st_bind (if upgrade_kdf then change_identity i (rewrap_identity_record P S (dr_salt d) (dr_nonce d) password password)
              else st_lift (Inr ())) (\<lambda>_.
     st_bind (change_identity i (\<lambda>record. rbind (decrypt_seed P S record password) (\<lambda>seed.
         Inr (record\<lparr>id_seed := Some seed, id_unlocked := True\<rparr>)))) (\<lambda>_ h.
     if upgrade_kdf then
       (case persist disk h of (Inr _, h) \<Rightarrow> (Inr (), h)
        | (Inl e, h) \<Rightarrow> (Inl e, h\<lparr>hy_identities := AList.update i previous (hy_identities h)\<rparr>))
     else (Inr (), h)))) h"

definition set_active_id :: "CryptoPrims \<Rightarrow> Scrypt \<Rightarrow> Disk \<Rightarrow> IdentityDraws \<Rightarrow> IdentityId \<Rightarrow> bytes \<Rightarrow> unit hydra_op" where
  "set_active_id P S disk d i password =
     st_bind (unlock_id P S disk d i password) (\<lambda>_. st_modify (\<lambda>h. h\<lparr>hy_active_id := Some i\<rparr>))"

definition lock_id :: "IdentityId \<Rightarrow> unit hydra_op" where
  "lock_id i =
     st_bind (change_identity i (\<lambda>record. Inr (record\<lparr>id_seed := None, id_unlocked := False\<rparr>))) (\<lambda>_.
       st_modify (\<lambda>h. if hy_active_id h = Some i then h\<lparr>hy_active_id := None\<rparr> else h))"

definition lock_active_id :: "unit hydra_op" where
  "lock_active_id h = st_bind (st_lift (ok_or (hy_active_id h) HE_IdentityNotFound)) lock_id h"

definition rename_id :: "Disk \<Rightarrow> IdentityId \<Rightarrow> bytes \<Rightarrow> unit hydra_op" where
  "rename_id disk i label =
     st_bind (st_lift (validate_label_input label ''identity label size'')) (\<lambda>_.
     st_bind (change_identity i (\<lambda>record. Inr (record\<lparr>id_label := label\<rparr>))) (\<lambda>_. persist disk))"

definition change_id_password ::
    "CryptoPrims \<Rightarrow> Scrypt \<Rightarrow> Disk \<Rightarrow> IdentityDraws \<Rightarrow> IdentityId \<Rightarrow> bytes \<Rightarrow> bytes \<Rightarrow> unit hydra_op" where
  "change_id_password P S disk d i old_password new_password h =
     st_bind (st_lift (encode_state_snapshot h)) (\<lambda>previous_snapshot.
     st_bind (change_identity i (rewrap_identity_record P S (dr_salt d) (dr_nonce d) old_password new_password)) (\<lambda>_.
       persist_or_reload P disk previous_snapshot)) h"

definition delete_id :: "CryptoPrims \<Rightarrow> Scrypt \<Rightarrow> Disk \<Rightarrow> IdentityId \<Rightarrow> bytes \<Rightarrow> unit hydra_op" where
  "delete_id P S disk i password h =
     st_bind (st_lift (
       rbind (require_identity i h) (\<lambda>record.
       rbind (verify_password P S record password) (\<lambda>_. encode_state_snapshot h)))) (\<lambda>previous_snapshot.
     st_bind (st_modify (\<lambda>h. h\<lparr>hy_identities := AList.delete i (hy_identities h),
       hy_active_id := (if hy_active_id h = Some i then None else hy_active_id h)\<rparr>)) (\<lambda>_.
       persist_or_reload P disk previous_snapshot)) h"

section \<open>Lobbies\<close>

definition create_lobby :: "CryptoPrims \<Rightarrow> Disk \<Rightarrow> bytes option \<Rightarrow> HydraLobbyPolicy \<Rightarrow> HydraLobby hydra_op" where
  "create_lobby P disk random policy h =
     st_bind (st_lift (
       rbind (validate_lobby_policy policy) (\<lambda>_.
       rbind (validate_label_input (lp_label policy) ''lobby label size'') (\<lambda>_.
       rbind (reject_collection_growth (length (hy_lobbies h)) 1 MAX_LOBBIES ''lobby limit'') (\<lambda>_.
       rbind (ok_or random HE_EntropyUnavailable) (\<lambda>random.
         Inr \<lparr>lb_id = sha3_256 P (lp_label policy @ random), lb_policy = policy, lb_members = []\<rparr>)))))) (\<lambda>lobby.
     st_bind (st_modify (\<lambda>h. h\<lparr>hy_lobbies := AList.update (lb_id lobby) lobby (hy_lobbies h)\<rparr>)) (\<lambda>_.
     st_bind (persist disk) (\<lambda>_. st_lift (Inr lobby)))) h"

definition create_lobby_invite :: "LobbyId \<Rightarrow> Hydra \<Rightarrow> bytes HydraResult" where
  "create_lobby_invite lobby_id h = rbind (get_lobby lobby_id h) (\<lambda>lobby. Inr (encode_lobby_invite lobby False None))"

definition create_labeled_lobby_invite :: "LobbyId \<Rightarrow> Hydra \<Rightarrow> bytes HydraResult" where
  "create_labeled_lobby_invite lobby_id h = rbind (get_lobby lobby_id h) (\<lambda>lobby. Inr (encode_lobby_invite lobby True None))"

fun push_new :: "ContactId list \<Rightarrow> ContactId list \<Rightarrow> ContactId list" where
  "push_new members [] = members"
| "push_new members (m # ms) = push_new (if m \<in> set members then members else members @ [m]) ms"

definition lobby_invite_members :: "HydraLobby \<Rightarrow> Hydra \<Rightarrow> ContactId list" where
  "lobby_invite_members lobby h = push_new (case hy_active_id h of None \<Rightarrow> [] | Some active_id \<Rightarrow> [active_id]) (lb_members lobby)"

definition create_lobby_member_invite :: "LobbyId \<Rightarrow> Hydra \<Rightarrow> bytes HydraResult" where
  "create_lobby_member_invite lobby_id h =
     rbind (get_lobby lobby_id h) (\<lambda>lobby. Inr (encode_lobby_invite lobby True (Some (lobby_invite_members lobby h))))"

definition create_one_time_lobby_invite :: "CryptoPrims \<Rightarrow> Disk \<Rightarrow> bytes option \<Rightarrow> nat \<Rightarrow> (LobbyId \<times> bytes) hydra_op" where
  "create_one_time_lobby_invite P disk random max_members =
     st_bind (create_lobby P disk random \<lparr>lp_max_members = max_members, lp_label = []\<rparr>) (\<lambda>lobby h.
     st_bind (st_lift (create_lobby_invite (lb_id lobby) h)) (\<lambda>invite. st_lift (Inr (lb_id lobby, invite))) h)"

definition normalize_lobby_members_for_local_identity :: "HydraLobby \<Rightarrow> Hydra \<Rightarrow> HydraLobby" where
  "normalize_lobby_members_for_local_identity lobby h =
     lobby\<lparr>lb_members := push_new [] (filter (\<lambda>member. Some member \<noteq> hy_active_id h) (lb_members lobby))\<rparr>"

definition preview_lobby_invite :: "bytes \<Rightarrow> Hydra \<Rightarrow> HydraLobby HydraResult" where
  "preview_lobby_invite invite h =
     rbind (decode_lobby_invite invite) (\<lambda>lobby.
     rbind (validate_lobby_policy (lb_policy lobby)) (\<lambda>_.
     rbind (validate_label_input (lp_label (lb_policy lobby)) ''lobby label size'') (\<lambda>_.
       Inr (normalize_lobby_members_for_local_identity lobby h))))"

definition join_lobby :: "Disk \<Rightarrow> bytes \<Rightarrow> HydraLobby hydra_op" where
  "join_lobby disk invite h =
     st_bind (st_lift (
       rbind (preview_lobby_invite invite h) (\<lambda>lobby.
       rbind (if map_of (hy_lobbies h) (lb_id lobby) = None
              then reject_collection_growth (length (hy_lobbies h)) 1 MAX_LOBBIES ''lobby limit'' else Inr ()) (\<lambda>_. Inr lobby)))) (\<lambda>lobby.
     st_bind (st_modify (\<lambda>h. h\<lparr>hy_lobbies := AList.update (lb_id lobby) lobby (hy_lobbies h)\<rparr>)) (\<lambda>_.
     st_bind (persist disk) (\<lambda>_. st_lift (Inr lobby)))) h"

definition leave_lobby :: "Disk \<Rightarrow> LobbyId \<Rightarrow> unit hydra_op" where
  "leave_lobby disk lobby_id h =
     st_bind (st_lift (get_lobby lobby_id h)) (\<lambda>_.
     st_bind (st_modify (\<lambda>h. h\<lparr>hy_lobbies := AList.delete lobby_id (hy_lobbies h),
       hy_pending_fragments := filter (\<lambda>(key, _). pk_lobby_id key \<noteq> Some lobby_id) (hy_pending_fragments h)\<rparr>)) (\<lambda>_.
       persist disk)) h"

definition update_lobby :: "LobbyId \<Rightarrow> HydraLobby \<Rightarrow> Hydra \<Rightarrow> Hydra" where
  "update_lobby lobby_id lobby h = h\<lparr>hy_lobbies := AList.update lobby_id lobby (hy_lobbies h)\<rparr>"

definition add_lobby_member :: "Disk \<Rightarrow> LobbyId \<Rightarrow> ContactId \<Rightarrow> unit hydra_op" where
  "add_lobby_member disk lobby_id contact_id h =
     st_bind (st_lift (rbind (require_contact contact_id h) (\<lambda>_. get_lobby lobby_id h))) (\<lambda>lobby.
       if contact_id \<in> set (lb_members lobby) then st_lift (Inr ())
       else
         st_bind (st_lift (ensure (\<not> lp_max_members (lb_policy lobby) \<le> length (lb_members lobby))
           (HE_InvalidInput ''lobby member limit reached''))) (\<lambda>_.
         st_bind (st_modify (update_lobby lobby_id (lobby\<lparr>lb_members := lb_members lobby @ [contact_id]\<rparr>))) (\<lambda>_. persist disk))) h"

definition remove_lobby_member :: "Disk \<Rightarrow> LobbyId \<Rightarrow> ContactId \<Rightarrow> unit hydra_op" where
  "remove_lobby_member disk lobby_id contact_id h =
     st_bind (st_lift (get_lobby lobby_id h)) (\<lambda>lobby.
     st_bind (st_modify (update_lobby lobby_id (lobby\<lparr>lb_members := filter (\<lambda>member. member \<noteq> contact_id) (lb_members lobby)\<rparr>))) (\<lambda>_.
       persist disk)) h"

section \<open>Anonymous authorization\<close>

record HydraAnonymousAuthGrant =
  ag_policy :: HydraAnonymousAuthPolicy
  ag_nullifier :: bytes

definition issue_anonymous_auth_token :: "CryptoPrims \<Rightarrow> Disk \<Rightarrow> bytes option \<Rightarrow> HydraAnonymousAuthPolicy \<Rightarrow> bytes hydra_op" where
  "issue_anonymous_auth_token P disk nonce policy h =
     st_bind (st_lift (
       rbind (validate_anonymous_auth_policy policy) (\<lambda>_.
       rbind (ok_or nonce HE_EntropyUnavailable) (\<lambda>nonce.
         Inr (encode_anonymous_auth_token policy nonce (anonymous_auth_token_tag P (hy_anonymous_auth_secret h) policy nonce)))))) (\<lambda>token.
     st_bind (persist disk) (\<lambda>_. st_lift (Inr token))) h"

definition checked_token :: "CryptoPrims \<Rightarrow> bytes \<Rightarrow> Hydra \<Rightarrow> ParsedAnonymousAuthToken HydraResult" where
  "checked_token P token h =
     rbind (decode_anonymous_auth_token token) (\<lambda>parsed.
     rbind (verify_anonymous_auth_token_tag P (hy_anonymous_auth_secret h) parsed) (\<lambda>_. Inr parsed))"

definition anonymous_auth_nullifier :: "CryptoPrims \<Rightarrow> bytes \<Rightarrow> Hydra \<Rightarrow> bytes HydraResult" where
  "anonymous_auth_nullifier P token h =
     rbind (checked_token P token h) (\<lambda>parsed. Inr (anonymous_auth_token_nullifier P (hy_anonymous_auth_secret h) parsed))"

definition require_expected_policy :: "HydraAnonymousAuthPolicy \<Rightarrow> bytes \<Rightarrow> bytes \<Rightarrow> unit HydraResult" where
  "require_expected_policy policy expected_scope expected_action =
     ensure (\<not> (au_scope policy \<noteq> expected_scope \<or> au_action policy \<noteq> expected_action))
       (HE_InvalidInput ''anonymous authorization policy mismatch'')"

definition reject_expired_policy :: "HydraAnonymousAuthPolicy \<Rightarrow> u64 \<Rightarrow> unit HydraResult" where
  "reject_expired_policy policy now_unix_seconds = (case au_expires_at policy of None \<Rightarrow> Inr ()
     | Some expires_at \<Rightarrow> ensure (\<not> expires_at < now_unix_seconds) (HE_InvalidInput ''anonymous authorization token expired''))"

definition reject_spent_anonymous_auth_nullifier :: "bytes \<Rightarrow> Hydra \<Rightarrow> unit HydraResult" where
  "reject_spent_anonymous_auth_nullifier nullifier h =
     ensure (nullifier \<notin> hy_anonymous_auth_spent_index h) (HE_InvalidInput ''anonymous authorization token already spent'')"

definition spend :: "bytes \<Rightarrow> Hydra \<Rightarrow> Hydra" where
  "spend nullifier h = h\<lparr>hy_anonymous_auth_spent := hy_anonymous_auth_spent h @ [nullifier],
     hy_anonymous_auth_spent_index := insert nullifier (hy_anonymous_auth_spent_index h)\<rparr>"

definition accept_anonymous_auth_token ::
    "CryptoPrims \<Rightarrow> Disk \<Rightarrow> bytes \<Rightarrow> bytes \<Rightarrow> bytes \<Rightarrow> u64 \<Rightarrow> HydraAnonymousAuthGrant hydra_op" where
  "accept_anonymous_auth_token P disk token expected_scope expected_action now_unix_seconds h =
     st_bind (st_lift (
       rbind (checked_token P token h) (\<lambda>parsed.
       rbind (require_expected_policy (at_policy parsed) expected_scope expected_action) (\<lambda>_.
       rbind (reject_expired_policy (at_policy parsed) now_unix_seconds) (\<lambda>_.
       let nullifier = anonymous_auth_token_nullifier P (hy_anonymous_auth_secret h) parsed in
       rbind (reject_spent_anonymous_auth_nullifier nullifier h) (\<lambda>_.
       rbind (reject_collection_growth (length (hy_anonymous_auth_spent h)) 1 MAX_ANONYMOUS_AUTH_SPENT
                ''anonymous authorization spent limit'') (\<lambda>_.
         Inr \<lparr>ag_policy = at_policy parsed, ag_nullifier = nullifier\<rparr>))))))) (\<lambda>grant.
     st_bind (st_modify (spend (ag_nullifier grant))) (\<lambda>_.
     st_bind (persist disk) (\<lambda>_. st_lift (Inr grant)))) h"

definition revoke_anonymous_auth_token ::
    "CryptoPrims \<Rightarrow> Disk \<Rightarrow> bytes \<Rightarrow> bytes \<Rightarrow> bytes \<Rightarrow> bytes hydra_op" where
  "revoke_anonymous_auth_token P disk token expected_scope expected_action h =
     st_bind (st_lift (
       rbind (checked_token P token h) (\<lambda>parsed.
       rbind (require_expected_policy (at_policy parsed) expected_scope expected_action) (\<lambda>_.
         Inr (anonymous_auth_token_nullifier P (hy_anonymous_auth_secret h) parsed))))) (\<lambda>nullifier.
     st_bind (if nullifier \<in> hy_anonymous_auth_spent_index h then st_lift (Inr ())
       else
         st_bind (st_lift (reject_collection_growth (length (hy_anonymous_auth_spent h)) 1 MAX_ANONYMOUS_AUTH_SPENT
           ''anonymous authorization spent limit'')) (\<lambda>_.
         st_bind (st_modify (spend nullifier)) (\<lambda>_. persist disk))) (\<lambda>_.
       st_lift (Inr nullifier))) h"

section \<open>The history with the state around it\<close>

definition delete_message_saved :: "CryptoPrims \<Rightarrow> Disk \<Rightarrow> MessageId \<Rightarrow> unit hydra_op" where
  "delete_message_saved P disk message_id h =
     st_bind (st_lift (encode_state_snapshot h)) (\<lambda>previous_snapshot.
     st_bind (on_store (delete_message message_id)) (\<lambda>_.
       persist_or_reload P disk previous_snapshot)) h"

definition clear_messages_saved :: "Disk \<Rightarrow> ContactId \<Rightarrow> unit hydra_op" where
  "clear_messages_saved disk contact_id = st_bind (on_store (clear_messages contact_id)) (\<lambda>_. persist disk)"

definition import_messages_saved :: "Disk \<Rightarrow> bytes \<Rightarrow> unit hydra_op" where
  "import_messages_saved disk bs = st_bind (on_store (import_messages bs)) (\<lambda>_. persist disk)"

end
