(* ===== verification/App_Reload.thy ===== *)
theory App_Reload
  imports App_Ops Msg_Reassembly
begin

text \<open>
  The stored state comes back. The record lines of \<open>codec/*.rs\<close> are read back as they were written; a section of the
  snapshot is one kind of line, and the interface \<open>snapshot_section\<close> says what the check and the load of such a line
  do, once for all kinds. A state that is well formed (\<open>state_ok\<close>) is then loaded from its snapshot as it was, with
  its identities locked and its sessions gone.
\<close>

section \<open>Lines\<close>

lemma text_line_join: "(\<And>x. x \<in> set xs \<Longrightarrow> text_line x) \<Longrightarrow> text_line (join_with 9 xs)"
  using join_set [of 9 xs] by (fastforce simp: text_line_def)

lemma text_line_hex [simp, intro]: "text_line (hex_encode bs)"
  using hex_encode_low [of _ bs] hex_encode_digits [of bs] hex_digit_range by (fastforce simp: text_line_def)

lemma text_line_decimal [simp, intro]: "text_line (decimal n)"
  using decimal_digits [of n] order_trans [of _ 57 "0x7F :: u8"] by (fastforce simp: text_line_def)

lemma plain_hex [simp]: "9 \<notin> set (hex_encode bs)" "44 \<notin> set (hex_encode bs)"
  using hex_encode_digits [of bs] hex_digit_range by fastforce+

lemma plain_decimal [simp]: "9 \<notin> set (decimal n)" "44 \<notin> set (decimal n)"
  using decimal_digits [of n] by fastforce+

definition record_kinds :: "bytes list" where
  "record_kinds = map ascii [''state_generation'', ''next_message_id'', ''anonymous_auth_secret'', ''anonymous_auth_spent'', ''identity'',
     ''contact'', ''session_security_policy'', ''peer_generation_floor'', ''message'', ''lobby'']"

lemma kinds_plain: "list_all (\<lambda>k. text_line k \<and> 9 \<notin> set k \<and> list_ex (\<lambda>b. 33 \<le> b \<and> b \<le> 0x7F) k) record_kinds"
  unfolding record_kinds_def text_line_def by (simp add: ascii_def)

lemma kinds_distinct: "distinct record_kinds"
  unfolding record_kinds_def by (simp add: ascii_def)

lemma kind_line:
  assumes "k \<in> set record_kinds" and "\<And>x. x \<in> set xs \<Longrightarrow> 9 \<notin> set x"
  shows "split_on 9 (join_with 9 (k # xs)) = k # xs" and "str_trim (join_with 9 (k # xs)) \<noteq> []"
proof -
  have k: "9 \<notin> set k" "list_ex (\<lambda>b. 33 \<le> b \<and> b \<le> 0x7F) k" using kinds_plain assms(1) by (auto simp: list_all_iff)
  then show "split_on 9 (join_with 9 (k # xs)) = k # xs" using assms(2) by (intro split_on_join) auto
  obtain b where b: "b \<in> set k" "33 \<le> b" "b \<le> 0x7F" using k(2) by (auto simp: list_ex_iff)
  then have "b \<in> set (join_with 9 (k # xs))" by (cases xs) auto
  then show "str_trim (join_with 9 (k # xs)) \<noteq> []" using trim_keeps [OF b(2,3)] by fastforce
qed

lemma kind_text: "k \<in> set record_kinds \<Longrightarrow> text_line k"
  using kinds_plain by (auto simp: list_all_iff)

lemma parse_u64_decimal64 [simp]: "parse_u64 (decimal (unat (n :: u64))) = Some (unat n)"
  using unat_u64_bound [of n] by (simp add: usize_max_def)

lemma parse_uint_decimal: "n \<le> mx \<Longrightarrow> mx \<le> usize_max \<Longrightarrow> parse_uint mx (decimal n) = Some n"
  by (simp add: parse_uint_def)

lemma decode_fixed_hex_encode: "length bs = n \<Longrightarrow> decode_fixed_hex n (hex_encode bs) d = Inr bs"
  by (simp add: decode_fixed_hex_def exact_array_from_vec_def)

section \<open>Records\<close>

definition label_ok :: "bytes \<Rightarrow> bool" where
  "label_ok label \<longleftrightarrow> utf8_valid label \<and> length label \<le> MAX_LABEL_BYTES"

lemma decode_label_encode: "label_ok label \<Longrightarrow> decode_label (hex_encode label) d e = Inr label"
  by (simp add: label_ok_def decode_label_def reject_encoded_size_def from_utf8_def validate_label_encoding_def)

definition contact_ok :: "CryptoPrims \<Rightarrow> HydraContact \<Rightarrow> bool" where
  "contact_ok P contact \<longleftrightarrow> label_ok (ct_label contact) \<and> length (ct_public_key contact) = ML_DSA_65_VK_SIZE \<and>
     sha3_256 P (ct_public_key contact) = ct_id contact \<and> length (ct_id contact) = HASH_SIZE"

lemma bool_text_plain: "9 \<notin> set (bool_text b)" "text_line (bool_text b)"
proof -
  have "list_all (\<lambda>b. b \<le> 0x7F \<and> b \<noteq> 9 \<and> b \<noteq> 10 \<and> b \<noteq> 13) (ascii ''0'' @ ascii ''1'')" by (simp add: ascii_def)
  then show "9 \<notin> set (bool_text b)" "text_line (bool_text b)" by (auto simp: bool_text_def text_line_def list_all_iff)
qed

lemma parse_bool_text [simp]: "parse_bool (bool_text b) = Inr b"
  by (simp add: parse_bool_def bool_text_def ascii_def)

lemma contact_line_split:
  "split_on 9 (encode_contact_line contact) = [ascii ''contact'', hex_encode (ct_id contact), hex_encode (ct_label contact),
     hex_encode (ct_public_key contact), bool_text (ct_verified contact), bool_text (ct_blocked contact)]"
  unfolding encode_contact_line_def by (rule kind_line) (auto simp: record_kinds_def bool_text_plain)

lemma decode_encode_contact_line:
  assumes "contact_ok P contact"
  shows "decode_contact_line P (encode_contact_line contact) = Inr contact"
proof -
  have "label_ok (ct_label contact)" "length (ct_public_key contact) = ML_DSA_65_VK_SIZE"
      "sha3_256 P (ct_public_key contact) = ct_id contact" "length (ct_id contact) = HASH_SIZE"
    using assms by (simp_all add: contact_ok_def)
  then show ?thesis
    by (simp add: decode_contact_line_def contact_line_split required_part_def decode_label_encode reject_encoded_size_def
        exact_array_from_vec_def)
qed

definition kdf_record_ok :: "PasswordKdfRecord \<Rightarrow> bool" where
  "kdf_record_ok kdf \<longleftrightarrow> kdf_validate kdf = Inr () \<and> length (kdf_salt kdf) = 32"

lemma kdf_profiles:
  assumes "kdf_record_ok kdf"
  shows "9 \<notin> set (kdf_profile kdf)" "text_line (kdf_profile kdf)" "length (kdf_profile kdf) \<le> 32"
proof -
  have "list_all (\<lambda>p. list_all (\<lambda>b. b \<le> 0x7F \<and> b \<noteq> 9 \<and> b \<noteq> 10 \<and> b \<noteq> 13) p \<and> length p \<le> 32)
      [KDF_PROFILE_MOBILE, KDF_PROFILE_INTERACTIVE, KDF_PROFILE_HIGH_SECURITY]"
    by (simp add: KDF_PROFILE_MOBILE_def KDF_PROFILE_INTERACTIVE_def KDF_PROFILE_HIGH_SECURITY_def ascii_def)
  moreover have "kdf_profile kdf \<in> {KDF_PROFILE_MOBILE, KDF_PROFILE_INTERACTIVE, KDF_PROFILE_HIGH_SECURITY}"
    using assms by (auto simp: kdf_record_ok_def kdf_validate_def params_for_profile_def split: if_splits)
  ultimately have "list_all (\<lambda>b. b \<le> 0x7F \<and> b \<noteq> 9 \<and> b \<noteq> 10 \<and> b \<noteq> 13) (kdf_profile kdf) \<and> length (kdf_profile kdf) \<le> 32" by auto
  then show "9 \<notin> set (kdf_profile kdf)" "text_line (kdf_profile kdf)" "length (kdf_profile kdf) \<le> 32"
    by (auto simp: text_line_def list_all_iff)
qed

lemma kdf_columns_plain:
  assumes "kdf_record_ok kdf" and "x \<in> set (encode_kdf_columns kdf)"
  shows "9 \<notin> set x" "text_line x"
proof -
  have "list_all (\<lambda>b. b \<le> 0x7F \<and> b \<noteq> 9 \<and> b \<noteq> 10 \<and> b \<noteq> 13) KDF_ALGORITHM_SCRYPT" by (simp add: KDF_ALGORITHM_SCRYPT_def ascii_def)
  then have "9 \<notin> set KDF_ALGORITHM_SCRYPT \<and> text_line KDF_ALGORITHM_SCRYPT" by (auto simp: list_all_iff text_line_def)
  then have "list_all (\<lambda>x. 9 \<notin> set x \<and> text_line x) (encode_kdf_columns kdf)"
    using kdf_profiles [OF assms(1)] by (simp add: encode_kdf_columns_def)
  then show "9 \<notin> set x" "text_line x" using assms(2) by (simp_all add: list_all_iff)
qed

lemma u8_max: "unat (n :: u8) \<le> 255" and u32_bound: "unat (n32 :: u32) \<le> u32_max"
  using unsigned_less [of n, where ?'a = nat] unsigned_less [of n32, where ?'a = nat] by (simp_all add: u32_max_def)

lemma parse_kdf_encode:
  assumes "kdf_record_ok kdf"
  shows "parse_kdf_columns (encode_kdf_columns kdf) = Inr kdf"
proof (cases kdf)
  case (fields profile log_n r p salt)
  show ?thesis
    using assms kdf_profiles(3) [OF assms] u32_bound [of r] u32_bound [of p] unfolding fields
    by (simp add: parse_kdf_columns_def encode_kdf_columns_def kdf_record_ok_def parse_uint_decimal u8_max u32_max_def usize_max_def
        decode_kdf_salt_def exact_array_from_vec_def Let_def)
qed

definition identity_ok :: "CryptoPrims \<Rightarrow> IdentityRecord \<Rightarrow> bool" where
  "identity_ok P record \<longleftrightarrow> label_ok (id_label record) \<and> length (id_public_key record) = ML_DSA_65_VK_SIZE \<and>
     sha3_256 P (id_public_key record) = id_id record \<and> length (id_id record) = HASH_SIZE \<and> kdf_record_ok (id_password_kdf record) \<and>
     length (id_password_tag record) = 32 \<and> length (id_seed_nonce record) = 12 \<and> length (id_encrypted_seed record) = 48"

definition locked :: "IdentityRecord \<Rightarrow> IdentityRecord" where
  "locked record = record\<lparr>id_seed := None, id_unlocked := False\<rparr>"

lemma identity_line_split:
  assumes "kdf_record_ok (id_password_kdf record)"
  shows "split_on 9 (encode_identity_line record) =
     [ascii ''identity'', hex_encode (id_id record), hex_encode (id_label record), hex_encode (id_public_key record)] @
     encode_kdf_columns (id_password_kdf record) @
     [hex_encode (id_password_tag record), hex_encode (id_seed_nonce record), hex_encode (id_encrypted_seed record)]"
  unfolding encode_identity_line_def append_Cons append_Nil
  by (rule kind_line) (use kdf_columns_plain(1) [OF assms] in \<open>auto simp: record_kinds_def\<close>)

lemma decode_encode_identity_line:
  assumes "identity_ok P record"
  shows "decode_identity_line P (encode_identity_line record) = Inr (locked record)"
proof -
  have kdf: "kdf_record_ok (id_password_kdf record)" and ok: "label_ok (id_label record)" "length (id_public_key record) = ML_DSA_65_VK_SIZE"
      "sha3_256 P (id_public_key record) = id_id record" "length (id_id record) = HASH_SIZE"
      "length (id_password_tag record) = 32" "length (id_seed_nonce record) = 12" "length (id_encrypted_seed record) = 48"
    using assms by (simp_all add: identity_ok_def)
  have cols: "length (encode_kdf_columns k) = 6" for k by (simp add: encode_kdf_columns_def)
  obtain a b c d e f where k: "encode_kdf_columns (id_password_kdf record) = [a, b, c, d, e, f]"
    using cols [of "id_password_kdf record"] by (auto simp: length_Suc_conv numeral_eq_Suc)
  show ?thesis
    using ok parse_kdf_encode [OF kdf]
    by (simp add: decode_identity_line_def identity_line_split [OF kdf] k Let_def decode_fixed_hex_encode
        decode_label_encode reject_encoded_size_def locked_def)
qed

definition lobby_ok :: "HydraLobby \<Rightarrow> bool" where
  "lobby_ok lobby \<longleftrightarrow> length (lb_id lobby) = HASH_SIZE \<and> label_ok (lp_label (lb_policy lobby)) \<and>
     0 < lp_max_members (lb_policy lobby) \<and> lp_max_members (lb_policy lobby) \<le> max_roster_entries GM_Interactive \<and>
     length (lb_members lobby) \<le> lp_max_members (lb_policy lobby) \<and> distinct (lb_members lobby) \<and>
     list_all (\<lambda>c. length c = HASH_SIZE) (lb_members lobby)"

lemma member_fields_encode:
  assumes "list_all (\<lambda>c. length c = HASH_SIZE) cs" and "distinct (acc @ cs)" and "length acc + length cs \<le> n"
  shows "member_fields n (map hex_encode cs) acc = Inr (acc @ cs)"
  using assms by (induction cs arbitrary: acc) (auto simp: reject_encoded_size_def exact_array_from_vec_def)

lemma join_nonempty: "xs \<noteq> [] \<Longrightarrow> list_all (\<lambda>x. x \<noteq> []) xs \<Longrightarrow> join_with c xs \<noteq> []"
  by (induction c xs rule: join_with.induct) auto

lemma decode_members_encode:
  assumes "list_all (\<lambda>c. length c = HASH_SIZE) cs" and "distinct cs" and "length cs \<le> n"
  shows "decode_member_list (join_with 44 (map hex_encode cs)) n = Inr cs"
proof (cases "cs = []")
  case False
  have "hex_encode c \<noteq> []" if "c \<in> set cs" for c
    using assms(1) that length_hex_encode [of c] by (fastforce simp: list_all_iff)
  then have "join_with 44 (map hex_encode cs) \<noteq> []" using False by (intro join_nonempty) (auto simp: list_all_iff)
  moreover have "split_on 44 (join_with 44 (map hex_encode cs)) = map hex_encode cs" using False by (intro split_on_join) auto
  ultimately show ?thesis using member_fields_encode [of cs "[]" n] assms by (simp add: decode_member_list_def)
qed (simp add: decode_member_list_def)

lemma join_members_plain: "9 \<notin> set (join_with 44 (map hex_encode cs))" "text_line (join_with 44 (map hex_encode cs))"
proof -
  have "list_all (\<lambda>b. b \<noteq> 9 \<and> b \<le> 0x7F \<and> b \<noteq> 10 \<and> b \<noteq> 13) (join_with 44 (map hex_encode cs))"
    using join_set [of 44 "map hex_encode cs"] plain_hex(1) text_line_hex [unfolded text_line_def]
    by (fastforce simp: list_all_iff)
  then show "9 \<notin> set (join_with 44 (map hex_encode cs))" "text_line (join_with 44 (map hex_encode cs))"
    by (auto simp: list_all_iff text_line_def)
qed

lemma lobby_line_split:
  "split_on 9 (encode_lobby_line lobby) = [ascii ''lobby'', hex_encode (lb_id lobby), hex_encode (lp_label (lb_policy lobby)),
     decimal (lp_max_members (lb_policy lobby)), join_with 44 (map hex_encode (lb_members lobby))]"
  unfolding encode_lobby_line_def by (rule kind_line) (auto simp: record_kinds_def join_members_plain)

lemma decode_encode_lobby_line:
  assumes "lobby_ok lobby"
  shows "decode_lobby_line (encode_lobby_line lobby) = Inr lobby"
proof -
  have "lp_max_members (lb_policy lobby) \<le> usize_max"
    using assms max_roster_entries_bound [of GM_Interactive] by (simp add: lobby_ok_def usize_max_def)
  then show ?thesis
    using assms
    by (simp add: decode_lobby_line_def lobby_line_split lobby_ok_def Let_def decode_fixed_hex_encode decode_label_encode
        parse_uint_decimal validate_decoded_lobby_member_limit_def decode_members_encode)
qed

section \<open>Sections of a snapshot\<close>

text \<open>
  One kind of line: how a value of the kind is written, which key the check remembers, and what loading adds to the
  state. The laws are for one line; the lemmas are for a section.
\<close>

locale snapshot_section =
  fixes P :: CryptoPrims and line :: "'a \<Rightarrow> bytes" and ok :: "'a \<Rightarrow> bool" and key :: "'a \<Rightarrow> 'k"
    and seen :: "SnapshotValidationState \<Rightarrow> 'k list" and put :: "'k list \<Rightarrow> SnapshotValidationState \<Rightarrow> SnapshotValidationState"
    and limit :: nat and add :: "'a \<Rightarrow> Hydra \<Rightarrow> Hydra"
  assumes plain: "ok x \<Longrightarrow> text_line (line x) \<and> str_trim (line x) \<noteq> []"
    and checks: "ok x \<Longrightarrow> length (seen v) < limit \<Longrightarrow> key x \<notin> set (seen v) \<Longrightarrow>
      validate_line P (line x) v = Inr (put (seen v @ [key x]) v)"
    and loads: "ok x \<Longrightarrow> apply_state_snapshot_line P (line x) h = (Inr (), add x h)"
    and put_laws: "seen (put ks v) = ks" "put ks (put ks' v) = put ks v" "put (seen v) v = v"
begin

lemma checks_all:
  "list_all ok xs \<Longrightarrow> distinct (seen v @ map key xs) \<Longrightarrow> length (seen v) + length xs \<le> limit \<Longrightarrow>
     validate_lines P (map line xs) v = Inr (put (seen v @ map key xs) v)"
proof (induction xs arbitrary: v)
  case (Cons x xs)
  have "validate_line P (line x) v = Inr (put (seen v @ [key x]) v)" using Cons.prems by (intro checks) auto
  moreover have "validate_lines P (map line xs) (put (seen v @ [key x]) v) =
      Inr (put (seen v @ map key (x # xs)) v)"
    using Cons.prems by (subst Cons.IH) (auto simp: put_laws)
  ultimately show ?case using Cons.prems(1) plain [of x] by simp
qed (simp add: put_laws)

lemma loads_all: "list_all ok xs \<Longrightarrow> apply_snapshot_lines P (map line xs) h = (Inr (), fold add xs h)"
  by (induction xs arbitrary: h) (auto simp: loads plain st_bind_def st_lift_def)

lemma plain_all: "list_all ok xs \<Longrightarrow> \<forall>l \<in> set (map line xs). text_line l"
  using plain by (auto simp: list_all_iff)

end

lemma validate_lines_append:
  "validate_lines P (xs @ ys) v = rbind (validate_lines P xs v) (validate_lines P ys)"
  by (induction xs arbitrary: v) (simp_all add: rbind_def split: sum.split)

lemma apply_lines_append:
  "apply_snapshot_lines P (xs @ ys) = st_bind (apply_snapshot_lines P xs) (\<lambda>_. apply_snapshot_lines P ys)"
  by (induction xs) (auto simp: st_bind_def st_lift_def fun_eq_iff split: sum.split prod.split)

lemma kinds_neq_all:
  "distinct (map ascii [''state_generation'', ''next_message_id'', ''anonymous_auth_secret'', ''anonymous_auth_spent'', ''identity'',
     ''contact'', ''session_security_policy'', ''peer_generation_floor'', ''message'', ''lobby''])"
  "distinct (map ascii (rev [''state_generation'', ''next_message_id'', ''anonymous_auth_secret'', ''anonymous_auth_spent'', ''identity'',
     ''contact'', ''session_security_policy'', ''peer_generation_floor'', ''message'', ''lobby'']))"
  using kinds_distinct by (simp_all only: record_kinds_def rev_map [symmetric] distinct_rev)

lemmas kinds_neq [simp] = kinds_neq_all [unfolded rev.simps append.simps list.map distinct.simps list.set insert_iff empty_iff
  simp_thms de_Morgan_disj]

lemma kinds_text [simp]: "list_all text_line (map ascii [''state_generation'', ''next_message_id'', ''anonymous_auth_secret'',
     ''anonymous_auth_spent'', ''identity'', ''contact'', ''session_security_policy'', ''peer_generation_floor'', ''message'', ''lobby''])"
  using kinds_plain unfolding record_kinds_def by (auto simp: list_all_iff)

lemma kind_in:
  assumes "list_ex (\<lambda>l. l = k) [''state_generation'', ''next_message_id'', ''anonymous_auth_secret'', ''anonymous_auth_spent'', ''identity'',
     ''contact'', ''session_security_policy'', ''peer_generation_floor'', ''message'', ''lobby'']"
  shows "ascii k \<in> set record_kinds"
  using assms unfolding record_kinds_def set_map by (auto simp only: list_ex_iff)

lemma record_line:
  assumes "ascii k \<in> set record_kinds" and "list_all (\<lambda>x. 9 \<notin> set x \<and> text_line x) xs"
  shows "split_on 9 (join_with 9 (ascii k # xs)) = ascii k # xs" "text_line (join_with 9 (ascii k # xs))"
    "str_trim (join_with 9 (ascii k # xs)) \<noteq> []"
proof -
  have xs: "9 \<notin> set x" "text_line x" if "x \<in> set xs" for x using assms(2) that by (auto simp: list_all_iff)
  show "split_on 9 (join_with 9 (ascii k # xs)) = ascii k # xs" by (rule kind_line(1) [OF assms(1) xs(1)])
  show "str_trim (join_with 9 (ascii k # xs)) \<noteq> []" by (rule kind_line(2) [OF assms(1) xs(1)])
  show "text_line (join_with 9 (ascii k # xs))"
  proof (rule text_line_join)
    show "text_line x" if "x \<in> set (ascii k # xs)" for x using that xs(2) kind_text [OF assms(1)] by auto
  qed
qed

lemma validate_line_kinds:
  "hd (split_on 9 l) = ascii ''anonymous_auth_spent'' \<Longrightarrow> validate_line P l v = validate_anonymous_auth_spent (split_on 9 l) v"
  "hd (split_on 9 l) = ascii ''identity'' \<Longrightarrow> validate_line P l v = validate_identity P l v"
  "hd (split_on 9 l) = ascii ''contact'' \<Longrightarrow> validate_line P l v = validate_contact P l v"
  "hd (split_on 9 l) = ascii ''session_security_policy'' \<Longrightarrow> validate_line P l v = validate_session_security_policy (split_on 9 l) v"
  "hd (split_on 9 l) = ascii ''peer_generation_floor'' \<Longrightarrow> validate_line P l v = validate_peer_generation_floor (split_on 9 l) v"
  "hd (split_on 9 l) = ascii ''message'' \<Longrightarrow> validate_line P l v = validate_stored_message l v"
  "hd (split_on 9 l) = ascii ''lobby'' \<Longrightarrow> validate_line P l v = validate_lobby l v"
  unfolding validate_line_def Let_def by (simp_all only: kinds_neq if_False if_True simp_thms)

lemma apply_line_kinds:
  "hd (split_on 9 l) = ascii ''anonymous_auth_spent'' \<Longrightarrow> apply_state_snapshot_line P l =
     st_bind (st_lift (rbind (required_part (split_on 9 l) 1 ''state anonymous auth spent'') decode_anonymous_auth_spent)) (\<lambda>nullifier.
       st_modify (\<lambda>h. h\<lparr>hy_anonymous_auth_spent := hy_anonymous_auth_spent h @ [nullifier],
         hy_anonymous_auth_spent_index := insert nullifier (hy_anonymous_auth_spent_index h)\<rparr>))"
  "hd (split_on 9 l) = ascii ''identity'' \<Longrightarrow> apply_state_snapshot_line P l = st_bind (st_lift (decode_identity_line P l)) (\<lambda>r.
     st_modify (\<lambda>h. h\<lparr>hy_identities := AList.update (id_id r) r (hy_identities h)\<rparr>))"
  "hd (split_on 9 l) = ascii ''contact'' \<Longrightarrow> apply_state_snapshot_line P l = st_bind (st_lift (decode_contact_line P l)) (\<lambda>contact.
     st_modify (\<lambda>h. h\<lparr>hy_contacts := AList.update (ct_id contact) contact (hy_contacts h)\<rparr>))"
  "hd (split_on 9 l) = ascii ''message'' \<Longrightarrow> apply_state_snapshot_line P l = st_bind (st_lift (decode_message_line l)) (\<lambda>m.
     st_modify (\<lambda>h. h\<lparr>hy_store := (hy_store h)\<lparr>ms_next_id := max (ms_next_id (hy_store h)) (saturating_add_u64 (st_id m) 1),
       ms_messages := ms_messages (hy_store h) @ [m]\<rparr>\<rparr>))"
  "hd (split_on 9 l) = ascii ''lobby'' \<Longrightarrow> apply_state_snapshot_line P l = st_bind (st_lift (decode_lobby_line l)) (\<lambda>lobby.
     st_modify (\<lambda>h. h\<lparr>hy_lobbies := AList.update (lb_id lobby) lobby (hy_lobbies h)\<rparr>))"
  unfolding apply_state_snapshot_line_def Let_def by (simp_all only: kinds_neq if_False if_True simp_thms)

lemma apply_pair_kinds:
  "hd (split_on 9 l) = ascii ''session_security_policy'' \<Longrightarrow> apply_state_snapshot_line P l =
     st_bind (st_lift (
       rbind (required_part (split_on 9 l) 1 ''state session security policy contact'') (\<lambda>contact_hex.
       rbind (required_part (split_on 9 l) 2 ''state session security policy value'') (\<lambda>policy_value.
       rbind (id_from_hex ''contact id size'' contact_hex) (\<lambda>contact_id.
       rbind (from_snapshot_value policy_value) (\<lambda>policy. Inr (contact_id, policy))))))) (\<lambda>(contact_id, policy).
       st_modify (\<lambda>h. h\<lparr>hy_session_security_policies := AList.update contact_id policy (hy_session_security_policies h)\<rparr>))"
  "hd (split_on 9 l) = ascii ''peer_generation_floor'' \<Longrightarrow> apply_state_snapshot_line P l =
     st_bind (st_lift (
       rbind (required_part (split_on 9 l) 1 ''state peer generation floor contact'') (\<lambda>contact_hex.
       rbind (required_part (split_on 9 l) 2 ''state peer generation floor value'') (\<lambda>generation.
       rbind (id_from_hex ''contact id size'' contact_hex) (\<lambda>contact_id.
       rbind (ok_or (parse_u64 generation) (HE_InvalidEncoding ''state peer generation floor value'')) (\<lambda>n.
         Inr (contact_id, n))))))) (\<lambda>(contact_id, n).
       st_modify (\<lambda>h. h\<lparr>hy_peer_generation_floors := AList.update contact_id (of_nat n) (hy_peer_generation_floors h)\<rparr>))"
  unfolding apply_state_snapshot_line_def Let_def by (simp_all only: kinds_neq if_False if_True simp_thms)

lemmas st_run = st_bind_def st_lift_def st_modify_def
lemmas snapshot_checks = reject_collection_limit_def required_part_def reject_extra_snapshot_fields_def insert_new_def

interpretation spent: snapshot_section P "\<lambda>n. tab_line ''anonymous_auth_spent'' [encode_anonymous_auth_spent n]"
    "\<lambda>n. length n = 32" "\<lambda>n. n" sv_anonymous_auth_spent "\<lambda>ks v. v\<lparr>sv_anonymous_auth_spent := ks\<rparr>" MAX_ANONYMOUS_AUTH_SPENT
    "\<lambda>n h. h\<lparr>hy_anonymous_auth_spent := hy_anonymous_auth_spent h @ [n],
       hy_anonymous_auth_spent_index := insert n (hy_anonymous_auth_spent_index h)\<rparr>" for P
  unfolding tab_line_def encode_anonymous_auth_spent_def
proof unfold_locales
  fix n :: bytes and v :: SnapshotValidationState and h assume ok: "length n = 32"
  note line = record_line [OF kind_in, of "''anonymous_auth_spent''" "[hex_encode n]", simplified]
  show "text_line (join_with 9 [ascii ''anonymous_auth_spent'', hex_encode n]) \<and> str_trim (join_with 9 [ascii ''anonymous_auth_spent'', hex_encode n]) \<noteq> []"
    using line(2,3) by simp
  show "apply_state_snapshot_line P (join_with 9 [ascii ''anonymous_auth_spent'', hex_encode n]) h =
      (Inr (), h\<lparr>hy_anonymous_auth_spent := hy_anonymous_auth_spent h @ [n],
       hy_anonymous_auth_spent_index := insert n (hy_anonymous_auth_spent_index h)\<rparr>)"
    using ok by (simp add: apply_line_kinds(1) line(1) st_run required_part_def decode_anonymous_auth_spent_def decode_fixed_hex_encode)
  assume "length (sv_anonymous_auth_spent v) < MAX_ANONYMOUS_AUTH_SPENT" "n \<notin> set (sv_anonymous_auth_spent v)"
  then show "validate_line P (join_with 9 [ascii ''anonymous_auth_spent'', hex_encode n]) v =
      Inr (v\<lparr>sv_anonymous_auth_spent := sv_anonymous_auth_spent v @ [n]\<rparr>)"
    using ok by (simp add: validate_line_kinds(1) line(1) validate_anonymous_auth_spent_def snapshot_checks decode_anonymous_auth_spent_def
      decode_fixed_hex_encode)
qed simp_all

interpretation identities: snapshot_section P encode_identity_line "identity_ok P" id_id sv_identity_ids
    "\<lambda>ks v. v\<lparr>sv_identity_ids := ks\<rparr>" MAX_IDENTITIES
    "\<lambda>r h. h\<lparr>hy_identities := AList.update (id_id r) (locked r) (hy_identities h)\<rparr>" for P
proof unfold_locales
  fix r h and v :: SnapshotValidationState assume ok: "identity_ok P r"
  then have kdf: "kdf_record_ok (id_password_kdf r)" by (simp add: identity_ok_def)
  let ?xs = "[hex_encode (id_id r), hex_encode (id_label r), hex_encode (id_public_key r)] @ encode_kdf_columns (id_password_kdf r) @
    [hex_encode (id_password_tag r), hex_encode (id_seed_nonce r), hex_encode (id_encrypted_seed r)]"
  have "list_all (\<lambda>x. 9 \<notin> set x \<and> text_line x) ?xs" using kdf_columns_plain [OF kdf] by (auto simp: list_all_iff)
  note line = record_line [OF kind_in this, of "''identity''", simplified, folded append_Cons,
      unfolded encode_identity_line_def [of r, unfolded append_Cons append_Nil, symmetric]]
  have hd: "hd (split_on 9 (encode_identity_line r)) = ascii ''identity''" by (simp add: identity_line_split [OF kdf])
  show "text_line (encode_identity_line r) \<and> str_trim (encode_identity_line r) \<noteq> []"
    using line(2,3) by (simp add: encode_identity_line_def)
  show "apply_state_snapshot_line P (encode_identity_line r) h =
      (Inr (), h\<lparr>hy_identities := AList.update (id_id r) (locked r) (hy_identities h)\<rparr>)"
    by (simp add: apply_line_kinds(2) [OF hd] decode_encode_identity_line [OF ok] st_run locked_def)
  assume "length (sv_identity_ids v) < MAX_IDENTITIES" "id_id r \<notin> set (sv_identity_ids v)"
  then show "validate_line P (encode_identity_line r) v = Inr (v\<lparr>sv_identity_ids := sv_identity_ids v @ [id_id r]\<rparr>)"
    by (simp add: validate_line_kinds(2) [OF hd] validate_identity_def decode_encode_identity_line [OF ok] snapshot_checks locked_def)
qed simp_all

interpretation contacts: snapshot_section P encode_contact_line "contact_ok P" ct_id sv_contact_ids
    "\<lambda>ks v. v\<lparr>sv_contact_ids := ks\<rparr>" MAX_CONTACTS
    "\<lambda>contact h. h\<lparr>hy_contacts := AList.update (ct_id contact) contact (hy_contacts h)\<rparr>" for P
proof unfold_locales
  fix contact h and v :: SnapshotValidationState assume ok: "contact_ok P contact"
  note line = record_line [OF kind_in, of "''contact''" "[hex_encode (ct_id contact), hex_encode (ct_label contact),
    hex_encode (ct_public_key contact), bool_text (ct_verified contact), bool_text (ct_blocked contact)]", simplified]
  have hd: "hd (split_on 9 (encode_contact_line contact)) = ascii ''contact''" by (simp add: contact_line_split)
  show "text_line (encode_contact_line contact) \<and> str_trim (encode_contact_line contact) \<noteq> []"
    using line(2,3) bool_text_plain by (simp add: encode_contact_line_def)
  show "apply_state_snapshot_line P (encode_contact_line contact) h =
      (Inr (), h\<lparr>hy_contacts := AList.update (ct_id contact) contact (hy_contacts h)\<rparr>)"
    by (simp add: apply_line_kinds(3) [OF hd] decode_encode_contact_line [OF ok] st_run)
  assume "length (sv_contact_ids v) < MAX_CONTACTS" "ct_id contact \<notin> set (sv_contact_ids v)"
  then show "validate_line P (encode_contact_line contact) v = Inr (v\<lparr>sv_contact_ids := sv_contact_ids v @ [ct_id contact]\<rparr>)"
    by (simp add: validate_line_kinds(3) [OF hd] validate_contact_def decode_encode_contact_line [OF ok] snapshot_checks)
qed simp_all

interpretation lobbies: snapshot_section P encode_lobby_line lobby_ok lb_id sv_lobby_ids
    "\<lambda>ks v. v\<lparr>sv_lobby_ids := ks\<rparr>" MAX_LOBBIES
    "\<lambda>lobby h. h\<lparr>hy_lobbies := AList.update (lb_id lobby) lobby (hy_lobbies h)\<rparr>" for P
proof unfold_locales
  fix lobby h and v :: SnapshotValidationState assume ok: "lobby_ok lobby"
  note line = record_line [OF kind_in, of "''lobby''" "[hex_encode (lb_id lobby), hex_encode (lp_label (lb_policy lobby)),
     decimal (lp_max_members (lb_policy lobby)), join_with 44 (map hex_encode (lb_members lobby))]", simplified]
  have hd: "hd (split_on 9 (encode_lobby_line lobby)) = ascii ''lobby''" by (simp add: lobby_line_split)
  show "text_line (encode_lobby_line lobby) \<and> str_trim (encode_lobby_line lobby) \<noteq> []"
    using line(2,3) join_members_plain by (simp add: encode_lobby_line_def)
  show "apply_state_snapshot_line P (encode_lobby_line lobby) h =
      (Inr (), h\<lparr>hy_lobbies := AList.update (lb_id lobby) lobby (hy_lobbies h)\<rparr>)"
    by (simp add: apply_line_kinds(5) [OF hd] decode_encode_lobby_line [OF ok] st_run)
  assume "length (sv_lobby_ids v) < MAX_LOBBIES" "lb_id lobby \<notin> set (sv_lobby_ids v)"
  then show "validate_line P (encode_lobby_line lobby) v = Inr (v\<lparr>sv_lobby_ids := sv_lobby_ids v @ [lb_id lobby]\<rparr>)"
    by (simp add: validate_line_kinds(7) [OF hd] validate_lobby_def decode_encode_lobby_line [OF ok] snapshot_checks)
qed simp_all

definition policy_ok :: "ContactId \<times> HydraSessionSecurityPolicy \<Rightarrow> bool" where
  "policy_ok entry \<longleftrightarrow> length (fst entry) = HASH_SIZE \<and> max_outbound_messages_per_session (snd entry) \<noteq> Some 0"

definition policy_line :: "ContactId \<times> HydraSessionSecurityPolicy \<Rightarrow> bytes" where
  "policy_line entry = tab_line ''session_security_policy'' [hex_encode (fst entry), snapshot_value (snd entry)]"

lemma ratchet_only_plain: "9 \<notin> set RATCHET_ONLY_SNAPSHOT_VALUE" "text_line RATCHET_ONLY_SNAPSHOT_VALUE" "decimal n \<noteq> RATCHET_ONLY_SNAPSHOT_VALUE"
proof -
  have "list_all (\<lambda>b. b \<le> 0x7F \<and> b \<noteq> 9 \<and> b \<noteq> 10 \<and> b \<noteq> 13) RATCHET_ONLY_SNAPSHOT_VALUE \<and> 45 \<in> set RATCHET_ONLY_SNAPSHOT_VALUE"
    by (simp add: RATCHET_ONLY_SNAPSHOT_VALUE_def ascii_def)
  moreover have "(45 :: u8) \<notin> set (decimal n)" using decimal_digits [of n] by fastforce
  ultimately show "9 \<notin> set RATCHET_ONLY_SNAPSHOT_VALUE" "text_line RATCHET_ONLY_SNAPSHOT_VALUE" "decimal n \<noteq> RATCHET_ONLY_SNAPSHOT_VALUE"
    by (auto simp: text_line_def list_all_iff)
qed

lemma from_snapshot_value_value:
  assumes "max_outbound_messages_per_session policy \<noteq> Some 0"
  shows "from_snapshot_value (snapshot_value policy) = Inr policy"
proof -
  have "policy = \<lparr>max_outbound_messages_per_session = max_outbound_messages_per_session policy\<rparr>" by simp
  then show ?thesis
    using assms ratchet_only_plain(3)
    by (cases "max_outbound_messages_per_session policy")
      (simp_all add: snapshot_value_def from_snapshot_value_def ratchet_only_def every_messages_def)
qed

interpretation policies: snapshot_section P policy_line policy_ok fst sv_session_security_policy_ids
    "\<lambda>ks v. v\<lparr>sv_session_security_policy_ids := ks\<rparr>" MAX_CONTACTS
    "\<lambda>entry h. h\<lparr>hy_session_security_policies := AList.update (fst entry) (snd entry) (hy_session_security_policies h)\<rparr>" for P
proof unfold_locales
  fix e h and v :: SnapshotValidationState assume ok: "policy_ok e"
  have "list_all (\<lambda>x. 9 \<notin> set x \<and> text_line x) [hex_encode (fst e), snapshot_value (snd e)]"
    using ratchet_only_plain by (simp add: snapshot_value_def split: option.split)
  note line = record_line [OF kind_in this, of "''session_security_policy''", simplified, folded tab_line_def policy_line_def]
  have parts: "split_on 9 (policy_line e) = [ascii ''session_security_policy'', hex_encode (fst e), snapshot_value (snd e)]"
    using line(1) by (simp add: policy_line_def tab_line_def)
  have hd: "hd (split_on 9 (policy_line e)) = ascii ''session_security_policy''" by (simp add: parts)
  note pol = from_snapshot_value_value [of "snd e"] ok [unfolded policy_ok_def]
  have cid: "id_from_hex d (hex_encode (fst e)) = Inr (fst e)" for d
    using ok by (simp add: id_from_hex_def policy_ok_def decode_fixed_hex_encode)
  show "text_line (policy_line e) \<and> str_trim (policy_line e) \<noteq> []"
    using line(2,3) by (simp add: policy_line_def tab_line_def)
  show "apply_state_snapshot_line P (policy_line e) h =
      (Inr (), h\<lparr>hy_session_security_policies := AList.update (fst e) (snd e) (hy_session_security_policies h)\<rparr>)"
    using pol by (simp add: apply_pair_kinds(1) [OF hd] parts cid required_part_def st_run split_beta)
  assume "length (sv_session_security_policy_ids v) < MAX_CONTACTS" "fst e \<notin> set (sv_session_security_policy_ids v)"
  then show "validate_line P (policy_line e) v =
      Inr (v\<lparr>sv_session_security_policy_ids := sv_session_security_policy_ids v @ [fst e]\<rparr>)"
    using pol by (simp add: validate_line_kinds(4) [OF hd] validate_session_security_policy_def parts cid snapshot_checks)
qed simp_all

definition floor_line :: "ContactId \<times> u64 \<Rightarrow> bytes" where
  "floor_line entry = tab_line ''peer_generation_floor'' [hex_encode (fst entry), decimal (unat (snd entry))]"

interpretation floors: snapshot_section P floor_line "\<lambda>entry. length (fst entry) = HASH_SIZE" fst sv_peer_generation_floor_ids
    "\<lambda>ks v. v\<lparr>sv_peer_generation_floor_ids := ks\<rparr>" MAX_CONTACTS
    "\<lambda>entry h. h\<lparr>hy_peer_generation_floors := AList.update (fst entry) (snd entry) (hy_peer_generation_floors h)\<rparr>" for P
proof unfold_locales
  fix e :: "ContactId \<times> u64" and h and v :: SnapshotValidationState assume ok: "length (fst e) = HASH_SIZE"
  note line = record_line [OF kind_in, of "''peer_generation_floor''" "[hex_encode (fst e), decimal (unat (snd e))]", simplified]
  have parts: "split_on 9 (floor_line e) = [ascii ''peer_generation_floor'', hex_encode (fst e), decimal (unat (snd e))]"
    using line(1) by (simp add: floor_line_def tab_line_def)
  have hd: "hd (split_on 9 (floor_line e)) = ascii ''peer_generation_floor''" by (simp add: parts)
  have cid: "id_from_hex d (hex_encode (fst e)) = Inr (fst e)" for d
    using ok by (simp add: id_from_hex_def decode_fixed_hex_encode)
  show "text_line (floor_line e) \<and> str_trim (floor_line e) \<noteq> []"
    using line(2,3) by (simp add: floor_line_def tab_line_def)
  show "apply_state_snapshot_line P (floor_line e) h =
      (Inr (), h\<lparr>hy_peer_generation_floors := AList.update (fst e) (snd e) (hy_peer_generation_floors h)\<rparr>)"
    by (simp add: apply_pair_kinds(2) [OF hd] parts cid required_part_def st_run)
  assume "length (sv_peer_generation_floor_ids v) < MAX_CONTACTS" "fst e \<notin> set (sv_peer_generation_floor_ids v)"
  then show "validate_line P (floor_line e) v =
      Inr (v\<lparr>sv_peer_generation_floor_ids := sv_peer_generation_floor_ids v @ [fst e]\<rparr>)"
    by (simp add: validate_line_kinds(5) [OF hd] validate_peer_generation_floor_def parts cid snapshot_checks)
qed simp_all

section \<open>The messages and the scalars\<close>

definition usage_right :: "StoredMessage list \<Rightarrow> (ContactId \<times> nat \<times> nat) list \<Rightarrow> bool" where
  "usage_right pre usage \<longleftrightarrow> (\<forall>c. usage_entry c usage = (mu_count (recount pre c), mu_bytes (recount pre c)))"

definition after_message :: "StoredMessage list \<Rightarrow> StoredMessage \<Rightarrow> SnapshotValidationState \<Rightarrow> SnapshotValidationState" where
  "after_message pre m v = v\<lparr>sv_message_ids := sv_message_ids v @ [st_id m],
     sv_messages_per_contact := AList.update (st_contact_id m)
       (mu_count (recount (pre @ [m]) (st_contact_id m)), mu_bytes (recount (pre @ [m]) (st_contact_id m))) (sv_messages_per_contact v),
     sv_total_message_bytes := total_len (pre @ [m])\<rparr>"

lemma usage_right_step:
  assumes "usage_right pre usage"
  shows "usage_right (pre @ [m]) (AList.update (st_contact_id m)
    (mu_count (recount (pre @ [m]) (st_contact_id m)), mu_bytes (recount (pre @ [m]) (st_contact_id m))) usage)"
  using assms by (auto simp: usage_right_def usage_entry_def update_conv' recount_append recount_one)

lemma message_line_head: "hd (split_on 9 (encode_message_line m)) = ascii ''message''"
proof -
  have "split_on 9 (encode_message_line m) = message_fields m"
    unfolding encode_message_line_def using message_fields_plain no_tab(1) by (intro split_on_join) (auto simp: message_fields_def)
  then show ?thesis by (simp add: message_fields_def)
qed

lemma message_line_visible: "str_trim (encode_message_line m) \<noteq> []"
  using trim_keeps [OF _ _ encoded_line(2), of m] by auto

lemma validate_message_line:
  assumes "stored_ok m" and "messages_within (pre @ [m])" and "length (sv_message_ids v) < MAX_MESSAGES"
    and "st_id m \<notin> set (sv_message_ids v)" and "usage_right pre (sv_messages_per_contact v)"
    and "sv_total_message_bytes v = total_len pre"
  shows "validate_line P (encode_message_line m) v = Inr (after_message pre m v)"
proof -
  have within: "messages_within pre" "message_fits_limits (st_plaintext m) (st_attachments m)"
      "total_len (pre @ [m]) \<le> MAX_STORED_MESSAGE_BYTES" "usage_within (recount (pre @ [m]) (st_contact_id m))"
    using assms(2) by (simp_all add: messages_within_snoc)
  note sums = counted_sums [OF within(1,2)]
  have size: "stored_message_size (st_plaintext m) (st_attachments m) = Inr (stored_len m)"
    using within(2) by (simp add: stored_size_iff stored_len_def)
  have entry: "usage_entry (st_contact_id m) (sv_messages_per_contact v) =
      (mu_count (recount pre (st_contact_id m)), mu_bytes (recount pre (st_contact_id m)))"
    using assms(5) by (simp add: usage_right_def)
  have count: "mu_count (recount (pre @ [m]) (st_contact_id m)) = mu_count (recount pre (st_contact_id m)) + 1"
    by (simp add: recount_append recount_one add_usage_def message_usage_def)
  have "\<not> MAX_MESSAGES_PER_CONTACT \<le> mu_count (recount pre (st_contact_id m))"
      "\<not> MAX_STORED_MESSAGE_BYTES_PER_CONTACT < mu_bytes (recount (pre @ [m]) (st_contact_id m))"
    using within(4) unfolding usage_within_def count by simp_all
  then show ?thesis
    using assms(3,4) within(3)
    by (simp add: validate_line_kinds(6) [OF message_line_head] validate_stored_message_def decode_encode_message_line [OF assms(1)]
        size snapshot_checks assms(6) sums validate_message_contact_usage_def entry after_message_def count)
qed

lemma validate_messages:
  assumes "list_all stored_ok ms" and "messages_within (pre @ ms)" and "distinct (sv_message_ids v @ map st_id ms)"
    and "length (sv_message_ids v) + length ms \<le> MAX_MESSAGES" and "usage_right pre (sv_messages_per_contact v)"
    and "sv_total_message_bytes v = total_len pre"
  obtains usage where "validate_lines P (map encode_message_line ms) v = Inr (v\<lparr>sv_message_ids := sv_message_ids v @ map st_id ms,
    sv_messages_per_contact := usage, sv_total_message_bytes := total_len (pre @ ms)\<rparr>)"
proof -
  have "\<exists>usage. validate_lines P (map encode_message_line ms) v = Inr (v\<lparr>sv_message_ids := sv_message_ids v @ map st_id ms,
    sv_messages_per_contact := usage, sv_total_message_bytes := total_len (pre @ ms)\<rparr>)"
    using assms
  proof (induction ms arbitrary: pre v)
    case Nil
    then show ?case by (intro exI [of _ "sv_messages_per_contact v"]) simp
  next
    case (Cons m ms)
    have within: "messages_within (pre @ [m])" using Cons.prems(2) messages_within_appendD [of "pre @ [m]" ms] by simp
    have line: "validate_line P (encode_message_line m) v = Inr (after_message pre m v)"
      using Cons.prems by (intro validate_message_line within) auto
    have "\<exists>usage. validate_lines P (map encode_message_line ms) (after_message pre m v) =
        Inr ((after_message pre m v)\<lparr>sv_message_ids := sv_message_ids (after_message pre m v) @ map st_id ms,
          sv_messages_per_contact := usage, sv_total_message_bytes := total_len ((pre @ [m]) @ ms)\<rparr>)"
      using Cons.prems usage_right_step [OF Cons.prems(5), of m] by (intro Cons.IH) (auto simp: after_message_def)
    then obtain usage where "validate_lines P (map encode_message_line ms) (after_message pre m v) =
        Inr ((after_message pre m v)\<lparr>sv_message_ids := sv_message_ids (after_message pre m v) @ map st_id ms,
          sv_messages_per_contact := usage, sv_total_message_bytes := total_len ((pre @ [m]) @ ms)\<rparr>)" ..
    then show ?case using line message_line_visible [of m] by (intro exI [of _ usage]) (simp add: after_message_def)
  qed
  then show thesis using that by blast
qed

lemma next_id_bound:
  assumes "(i :: u64) < n"
  shows "saturating_add_u64 i 1 \<le> n"
proof -
  have "i \<noteq> u64_max" using assms unat_u64_bound [of n] by (auto simp: word_less_nat_alt u64_max_def)
  then show ?thesis
    using assms by (simp add: saturating_add_u64_def checked_add_u64_one word_le_nat_alt word_less_nat_alt unat_u64_Suc)
qed

lemma load_messages:
  assumes "list_all stored_ok ms" and "\<forall>m \<in> set ms. saturating_add_u64 (st_id m) 1 \<le> ms_next_id (hy_store h)"
  shows "apply_snapshot_lines P (map encode_message_line ms) h =
    (Inr (), h\<lparr>hy_store := (hy_store h)\<lparr>ms_messages := ms_messages (hy_store h) @ ms\<rparr>\<rparr>)"
  using assms
proof (induction ms arbitrary: h)
  case (Cons m ms)
  have "max (ms_next_id (hy_store h)) (saturating_add_u64 (st_id m) 1) = ms_next_id (hy_store h)" using Cons.prems(2) by simp
  then have "apply_state_snapshot_line P (encode_message_line m) h =
      (Inr (), h\<lparr>hy_store := (hy_store h)\<lparr>ms_messages := ms_messages (hy_store h) @ [m]\<rparr>\<rparr>)"
    using Cons.prems(1) by (simp add: apply_line_kinds(4) [OF message_line_head] decode_encode_message_line st_run)
  then show ?case using Cons message_line_visible [of m] by (simp add: st_run)
qed (simp add: st_run)

definition scalar_lines :: "Hydra \<Rightarrow> bytes list" where
  "scalar_lines h =
     [tab_line ''state_generation'' [decimal (unat (hy_state_generation h))],
      tab_line ''next_message_id'' [decimal (unat (ms_next_id (hy_store h)))],
      tab_line ''anonymous_auth_secret'' [encode_anonymous_auth_secret (hy_anonymous_auth_secret h)]]"

lemma scalar_line_facts:
  "split_on 9 (tab_line ''state_generation'' [decimal n]) = [ascii ''state_generation'', decimal n]"
  "split_on 9 (tab_line ''next_message_id'' [decimal n]) = [ascii ''next_message_id'', decimal n]"
  "split_on 9 (tab_line ''anonymous_auth_secret'' [hex_encode x]) = [ascii ''anonymous_auth_secret'', hex_encode x]"
  "str_trim (tab_line ''state_generation'' [decimal n]) \<noteq> []" "str_trim (tab_line ''next_message_id'' [decimal n]) \<noteq> []"
  "str_trim (tab_line ''anonymous_auth_secret'' [hex_encode x]) \<noteq> []"
  "text_line (tab_line ''state_generation'' [decimal n])" "text_line (tab_line ''next_message_id'' [decimal n])"
  "text_line (tab_line ''anonymous_auth_secret'' [hex_encode x])"
  unfolding tab_line_def by (rule record_line; (rule kind_in)?; simp)+

lemma validate_scalars:
  assumes "length (hy_anonymous_auth_secret h) = 32"
  shows "validate_lines P (scalar_lines h) SnapshotValidationState_default =
    Inr (SnapshotValidationState_default\<lparr>sv_saw_state_generation := True, sv_saw_next_message_id := True, sv_saw_anonymous_auth_secret := True\<rparr>)"
  using assms unfolding scalar_lines_def encode_anonymous_auth_secret_def validate_lines.simps validate_line_def Let_def scalar_line_facts list.sel
  by (simp add: scalar_line_facts SnapshotValidationState_default_def validate_u64_scalar_def validate_anonymous_auth_secret_scalar_def
      reject_duplicate_scalar_def snapshot_checks decode_anonymous_auth_secret_def decode_fixed_hex_encode)

lemma load_scalars:
  assumes "length (hy_anonymous_auth_secret h) = 32"
  shows "apply_snapshot_lines P (scalar_lines h) g = (Inr (), g\<lparr>hy_state_generation := hy_state_generation h,
    hy_store := (hy_store g)\<lparr>ms_next_id := ms_next_id (hy_store h)\<rparr>, hy_anonymous_auth_secret := hy_anonymous_auth_secret h\<rparr>)"
  using assms unfolding scalar_lines_def encode_anonymous_auth_secret_def apply_snapshot_lines.simps apply_state_snapshot_line_def Let_def
    scalar_line_facts list.sel
  by (simp add: scalar_line_facts st_run required_part_def decode_anonymous_auth_secret_def decode_fixed_hex_encode)

section \<open>Well-formed states\<close>

text \<open>
  \<open>records_ok\<close> is what the types and the operations give of the stored records; \<open>floors_known\<close> says that a generation
  floor belongs to a contact.
\<close>

definition records_ok :: "CryptoPrims \<Rightarrow> Hydra \<Rightarrow> bool" where
  "records_ok P h \<longleftrightarrow>
     length (hy_anonymous_auth_secret h) = 32 \<and>
     list_all (\<lambda>n. length n = 32) (hy_anonymous_auth_spent h) \<and> distinct (hy_anonymous_auth_spent h) \<and>
     hy_anonymous_auth_spent_index h = set (hy_anonymous_auth_spent h) \<and>
     list_all (\<lambda>(i, r). i = id_id r \<and> identity_ok P r) (hy_identities h) \<and> distinct (map fst (hy_identities h)) \<and>
     list_all (\<lambda>(c, contact). c = ct_id contact \<and> contact_ok P contact) (hy_contacts h) \<and> distinct (map fst (hy_contacts h)) \<and>
     list_all policy_ok (hy_session_security_policies h) \<and> distinct (map fst (hy_session_security_policies h)) \<and>
     fst ` set (hy_session_security_policies h) \<subseteq> fst ` set (hy_contacts h) \<and>
     list_all (\<lambda>e. length (fst e) = HASH_SIZE) (hy_peer_generation_floors h) \<and> distinct (map fst (hy_peer_generation_floors h)) \<and>
     length (hy_peer_generation_floors h) \<le> MAX_CONTACTS \<and>
     history_ok (hy_store h) \<and> ms_next_id (hy_store h) \<noteq> u64_max \<and>
     list_all (\<lambda>(i, lobby). i = lb_id lobby \<and> lobby_ok lobby) (hy_lobbies h) \<and> distinct (map fst (hy_lobbies h))"

definition floors_known :: "Hydra \<Rightarrow> bool" where
  "floors_known h \<longleftrightarrow> fst ` set (hy_peer_generation_floors h) \<subseteq> fst ` set (hy_contacts h)"

lemma keyed_map:
  assumes "list_all (\<lambda>(k, r). k = key r \<and> ok r) xs"
  shows "map (key \<circ> snd) xs = map fst xs" "list_all ok (map snd xs)"
  using assms by (induction xs) auto

lemma records_okD:
  assumes "records_ok P h"
  shows "length (hy_anonymous_auth_secret h) = 32" "list_all (\<lambda>n. length n = 32) (hy_anonymous_auth_spent h)"
    "distinct (hy_anonymous_auth_spent h)" "hy_anonymous_auth_spent_index h = set (hy_anonymous_auth_spent h)"
    "map (id_id \<circ> snd) (hy_identities h) = map fst (hy_identities h)" "list_all (identity_ok P) (map snd (hy_identities h))"
    "distinct (map fst (hy_identities h))"
    "map (ct_id \<circ> snd) (hy_contacts h) = map fst (hy_contacts h)" "list_all (contact_ok P) (map snd (hy_contacts h))"
    "distinct (map fst (hy_contacts h))"
    "list_all policy_ok (hy_session_security_policies h)" "distinct (map fst (hy_session_security_policies h))"
    "fst ` set (hy_session_security_policies h) \<subseteq> fst ` set (hy_contacts h)"
    "list_all (\<lambda>e. length (fst e) = HASH_SIZE) (hy_peer_generation_floors h)" "distinct (map fst (hy_peer_generation_floors h))"
    "length (hy_peer_generation_floors h) \<le> MAX_CONTACTS"
    "history_ok (hy_store h)" "ms_next_id (hy_store h) \<noteq> u64_max"
    "map (lb_id \<circ> snd) (hy_lobbies h) = map fst (hy_lobbies h)" "list_all lobby_ok (map snd (hy_lobbies h))"
    "distinct (map fst (hy_lobbies h))"
  using assms keyed_map [of id_id "identity_ok P" "hy_identities h"] keyed_map [of ct_id "contact_ok P" "hy_contacts h"]
    keyed_map [of lb_id lobby_ok "hy_lobbies h"]
  unfolding records_ok_def by blast+

lemma distinct_keys_length: "distinct (map fst xs) \<Longrightarrow> fst ` set xs \<subseteq> fst ` set ys \<Longrightarrow> length xs \<le> length ys"
  by (metis card_image_le card_mono distinct_card finite_imageI finite_set image_set le_trans length_map card_length)

lemma snapshot_lines_sections:
  "snapshot_lines h = scalar_lines h @ map (\<lambda>n. tab_line ''anonymous_auth_spent'' [encode_anonymous_auth_spent n]) (hy_anonymous_auth_spent h) @
     map encode_identity_line (map snd (hy_identities h)) @ map encode_contact_line (map snd (hy_contacts h)) @
     map policy_line (hy_session_security_policies h) @ map floor_line (hy_peer_generation_floors h) @
     map encode_message_line (ms_messages (hy_store h)) @ map encode_lobby_line (map snd (hy_lobbies h))"
  by (simp add: snapshot_lines_def scalar_lines_def policy_line_def [abs_def] floor_line_def [abs_def] split_beta comp_def)

lemma records_text:
  assumes "records_ok P h"
  shows "\<forall>l \<in> set (snapshot_lines h). text_line l"
proof -
  note r = records_okD [OF assms]
  have "\<forall>l \<in> set (scalar_lines h). text_line l"
    by (simp add: scalar_lines_def scalar_line_facts encode_anonymous_auth_secret_def)
  moreover have "\<forall>l \<in> set (map encode_message_line (ms_messages (hy_store h))). text_line l" using encoded_line(1) by auto
  ultimately show ?thesis
    using spent.plain_all [OF r(2)] identities.plain_all [OF r(6)] contacts.plain_all [OF r(9)] policies.plain_all [OF r(11)]
      floors.plain_all [OF r(14)] lobbies.plain_all [OF r(20)]
    unfolding snapshot_lines_sections set_append ball_Un by blast
qed

definition snapshot_counts :: "Hydra \<Rightarrow> bool" where
  "snapshot_counts h \<longleftrightarrow> length (hy_identities h) \<le> MAX_IDENTITIES \<and> length (hy_contacts h) \<le> MAX_CONTACTS \<and>
     length (hy_lobbies h) \<le> MAX_LOBBIES \<and> length (hy_anonymous_auth_spent h) \<le> MAX_ANONYMOUS_AUTH_SPENT"

definition validated :: "Hydra \<Rightarrow> (ContactId \<times> nat \<times> nat) list \<Rightarrow> SnapshotValidationState" where
  "validated h usage = \<lparr>sv_saw_state_generation = True, sv_saw_next_message_id = True, sv_saw_anonymous_auth_secret = True,
     sv_identity_ids = map fst (hy_identities h), sv_contact_ids = map fst (hy_contacts h),
     sv_session_security_policy_ids = map fst (hy_session_security_policies h),
     sv_peer_generation_floor_ids = map fst (hy_peer_generation_floors h), sv_message_ids = map st_id (ms_messages (hy_store h)),
     sv_lobby_ids = map fst (hy_lobbies h), sv_anonymous_auth_spent = hy_anonymous_auth_spent h,
     sv_messages_per_contact = usage, sv_total_message_bytes = total_len (ms_messages (hy_store h))\<rparr>"

lemma validate_snapshot_lines:
  assumes "records_ok P h" and "snapshot_counts h"
  obtains usage where "validate_lines P (snapshot_lines h) SnapshotValidationState_default = Inr (validated h usage)"
proof -
  note r = records_okD [OF assms(1)] and c = assms(2) [unfolded snapshot_counts_def]
  note keys = r(5,8,19) and hist = history_okD [OF r(17)]
  let ?v1 = "SnapshotValidationState_default\<lparr>sv_saw_state_generation := True, sv_saw_next_message_id := True, sv_saw_anonymous_auth_secret := True\<rparr>"
  let ?v2 = "?v1\<lparr>sv_anonymous_auth_spent := hy_anonymous_auth_spent h\<rparr>"
  let ?v3 = "?v2\<lparr>sv_identity_ids := map fst (hy_identities h)\<rparr>"
  let ?v4 = "?v3\<lparr>sv_contact_ids := map fst (hy_contacts h)\<rparr>"
  let ?v5 = "?v4\<lparr>sv_session_security_policy_ids := map fst (hy_session_security_policies h)\<rparr>"
  let ?v6 = "?v5\<lparr>sv_peer_generation_floor_ids := map fst (hy_peer_generation_floors h)\<rparr>"
  have 1: "validate_lines P (scalar_lines h) SnapshotValidationState_default = Inr ?v1" by (rule validate_scalars [OF r(1)])
  have 2: "validate_lines P (map (\<lambda>n. tab_line ''anonymous_auth_spent'' [encode_anonymous_auth_spent n]) (hy_anonymous_auth_spent h)) ?v1 = Inr ?v2"
    using r(2,3) c by (subst spent.checks_all) (simp_all add: SnapshotValidationState_default_def)
  have 3: "validate_lines P (map encode_identity_line (map snd (hy_identities h))) ?v2 = Inr ?v3"
    using r(6,7) c by (subst identities.checks_all) (simp_all add: SnapshotValidationState_default_def keys)
  have 4: "validate_lines P (map encode_contact_line (map snd (hy_contacts h))) ?v3 = Inr ?v4"
    using r(9,10) c by (subst contacts.checks_all) (simp_all add: SnapshotValidationState_default_def keys)
  have "length (hy_session_security_policies h) \<le> MAX_CONTACTS"
    using distinct_keys_length [OF r(12,13)] c by simp
  then have 5: "validate_lines P (map policy_line (hy_session_security_policies h)) ?v4 = Inr ?v5"
    using r(11,12) by (subst policies.checks_all) (simp_all add: SnapshotValidationState_default_def)
  have 6: "validate_lines P (map floor_line (hy_peer_generation_floors h)) ?v5 = Inr ?v6"
    using r(14-16) by (subst floors.checks_all) (simp_all add: SnapshotValidationState_default_def)
  have "distinct (map st_id (ms_messages (hy_store h)))" using hist(6) r(18) by (simp add: ids_ok_def)
  then obtain usage where 7: "validate_lines P (map encode_message_line (ms_messages (hy_store h))) ?v6 =
      Inr (?v6\<lparr>sv_message_ids := map st_id (ms_messages (hy_store h)), sv_messages_per_contact := usage,
        sv_total_message_bytes := total_len (ms_messages (hy_store h))\<rparr>)"
    using hist(4,5,7) validate_messages [of "ms_messages (hy_store h)" "[]" ?v6 P]
    by (auto simp: SnapshotValidationState_default_def usage_right_def usage_entry_def recount_def tally_simps)
  have 8: "validate_lines P (map encode_lobby_line (map snd (hy_lobbies h))) (?v6\<lparr>sv_message_ids := map st_id (ms_messages (hy_store h)),
      sv_messages_per_contact := usage, sv_total_message_bytes := total_len (ms_messages (hy_store h))\<rparr>) = Inr (validated h usage)"
    using r(20,21) c by (subst lobbies.checks_all) (simp_all add: SnapshotValidationState_default_def validated_def keys)
  show thesis
    using that [of usage]
    unfolding snapshot_lines_sections validate_lines_append 1 rbind_simps 2 3 4 5 6 7 8 by blast
qed

section \<open>The snapshot is loaded back\<close>

lemma append_lines_exact:
  "append_snapshot_lines out ls = Inr bs \<Longrightarrow> length out \<le> MAX_STATE_SNAPSHOT_BYTES \<Longrightarrow>
     bs = out @ lines_text ls \<and> length bs \<le> MAX_STATE_SNAPSHOT_BYTES"
proof (induction ls arbitrary: out)
  case (Cons l ls)
  have "append_snapshot_lines (out @ l @ [10]) ls = Inr bs" "length (out @ l @ [10]) \<le> MAX_STATE_SNAPSHOT_BYTES"
    using Cons.prems(1)
    by (auto simp: append_snapshot_line_def append_snapshot_bytes_def result_simps checked_add_usize_def split: if_splits option.splits)
  from Cons.IH [OF this] have c: "bs = (out @ l @ [10]) @ lines_text ls" "length bs \<le> MAX_STATE_SNAPSHOT_BYTES" by blast+
  have "(out @ l @ [10]) @ lines_text ls = out @ lines_text (l # ls)" by (simp add: lines_text_def)
  with c show ?case by metis
qed (simp add: lines_text_def)

lemma encode_exact:
  assumes "encode_state_snapshot h = Inr bs"
  shows "bs = lines_text (ascii ''HYDRA-MSG-STATE-SNAPSHOT'' # snapshot_lines h)" "length bs \<le> MAX_STATE_SNAPSHOT_BYTES" "snapshot_counts h"
proof -
  obtain out where out: "append_snapshot_bytes [] STATE_SNAPSHOT_MAGIC = Inr out" "append_snapshot_lines out (snapshot_lines h) = Inr bs"
    and "snapshot_counts h"
    using assms by (auto simp: encode_state_snapshot_def result_simps reject_runtime_collection_size_def snapshot_counts_def)
  then show "snapshot_counts h" by simp
  have "out = STATE_SNAPSHOT_MAGIC" "length out \<le> MAX_STATE_SNAPSHOT_BYTES"
    using out(1) by (auto simp: append_snapshot_bytes_def result_simps checked_add_usize_def split: if_splits option.splits)
  then have bs: "bs = STATE_SNAPSHOT_MAGIC @ lines_text (snapshot_lines h)" "length bs \<le> MAX_STATE_SNAPSHOT_BYTES"
    using append_lines_exact [OF out(2)] by blast+
  show "bs = lines_text (ascii ''HYDRA-MSG-STATE-SNAPSHOT'' # snapshot_lines h)"
    unfolding bs(1) by (simp add: lines_text_def STATE_SNAPSHOT_MAGIC_def)
  show "length bs \<le> MAX_STATE_SNAPSHOT_BYTES" by (rule bs(2))
qed

lemma lines_text_length: "l \<in> set ls \<Longrightarrow> length l \<le> length (lines_text ls)"
  by (induction ls) (auto simp: lines_text_def)

lemma encoded_text:
  assumes "records_ok P h" and "encode_state_snapshot h = Inr bs"
  shows "state_snapshot_text bs = Inr bs" "drop 1 (str_lines bs) = snapshot_lines h"
proof -
  note bs = encode_exact [OF assms(2)]
  have "list_all (\<lambda>b. b \<le> 0x7F \<and> b \<noteq> 10 \<and> b \<noteq> 13) (ascii ''HYDRA-MSG-STATE-SNAPSHOT'')" by (simp add: ascii_def)
  then have plain: "\<forall>l \<in> set (ascii ''HYDRA-MSG-STATE-SNAPSHOT'' # snapshot_lines h). text_line l"
    using records_text [OF assms(1)] by (auto simp: list_all_iff text_line_def)
  then have lines: "str_lines bs = ascii ''HYDRA-MSG-STATE-SNAPSHOT'' # snapshot_lines h" by (simp only: bs(1) str_lines_text)
  then show "drop 1 (str_lines bs) = snapshot_lines h" by simp
  have "utf8_valid bs" using plain by (intro utf8_ascii) (auto simp: bs(1) lines_text_def text_line_def)
  moreover have "starts_with bs STATE_SNAPSHOT_MAGIC" by (simp add: bs(1) lines_text_def starts_with_def STATE_SNAPSHOT_MAGIC_def)
  moreover have "list_all (\<lambda>line. \<not> MAX_STATE_SNAPSHOT_LINE_BYTES < length line) (str_lines bs)"
    using order_trans [OF lines_text_length bs(2) [unfolded bs(1)]]
    unfolding lines MAX_STATE_SNAPSHOT_LINE_BYTES_def list_all_iff not_less by blast
  ultimately show "state_snapshot_text bs = Inr bs" using bs(2) by (simp add: state_snapshot_text_def from_utf8_def)
qed

lemma verify_encoded:
  assumes "records_ok P h" and "encode_state_snapshot h = Inr bs"
  shows "verify_state_snapshot P bs = (if floors_known h then Inr () else Inl (HE_InvalidEncoding ''state peer generation floor contact''))"
proof -
  obtain usage where "validate_lines P (snapshot_lines h) SnapshotValidationState_default = Inr (validated h usage)"
    using validate_snapshot_lines [OF assms(1) encode_exact(3) [OF assms(2)]] .
  moreover have "list_all (\<lambda>c. c \<in> set (map fst (hy_contacts h))) (map fst (hy_session_security_policies h))"
    using records_okD(13) [OF assms(1)] by (auto simp: list_all_iff)
  moreover have "list_all (\<lambda>c. c \<in> set (map fst (hy_contacts h))) (map fst (hy_peer_generation_floors h)) \<longleftrightarrow> floors_known h"
    by (auto simp: list_all_iff floors_known_def)
  ultimately show ?thesis
    unfolding verify_state_snapshot_def encoded_text(1) [OF assms] rbind_simps encoded_text(2) [OF assms]
    by (simp add: validation_finish_def validated_def)
qed

lemma load_keyed:
  fixes field :: "Hydra \<Rightarrow> ('k \<times> 'v) list"
  assumes put: "\<And>g kvs. field (put kvs g) = kvs" "\<And>g kvs kvs'. put kvs (put kvs' g) = put kvs g" "\<And>g. put (field g) g = g"
    and add: "\<And>x g. add x g = put (AList.update (key x) (val x) (field g)) g"
    and "distinct (map fst (field g) @ map key xs)"
  shows "fold add xs g = put (field g @ map (\<lambda>x. (key x, val x)) xs) g"
  using assms(5)
proof (induction xs arbitrary: g)
  case (Cons x xs)
  have "AList.update (key x) (val x) (field g) = field g @ [(key x, val x)]"
    using Cons.prems by (intro alist_snoc(1)) (auto simp: map_of_eq_None_iff)
  then have "add x g = put (field g @ [(key x, val x)]) g" by (simp add: add)
  then show ?case using Cons.prems by (subst fold_Cons, unfold o_apply, subst Cons.IH) (auto simp: put)
qed (simp add: put(3))

lemma load_spent:
  "fold (\<lambda>n h. h\<lparr>hy_anonymous_auth_spent := hy_anonymous_auth_spent h @ [n],
     hy_anonymous_auth_spent_index := insert n (hy_anonymous_auth_spent_index h)\<rparr>) ns g =
   g\<lparr>hy_anonymous_auth_spent := hy_anonymous_auth_spent g @ ns,
     hy_anonymous_auth_spent_index := hy_anonymous_auth_spent_index g \<union> set ns\<rparr>"
  by (induction ns arbitrary: g) simp_all

lemma keyed_pairs: "map (key \<circ> snd) xs = map fst xs \<Longrightarrow> map ((\<lambda>x. (key x, f x)) \<circ> snd) xs = map (\<lambda>(k, x). (k, f x)) xs"
  by (induction xs) auto

text \<open>What is left of the state \<open>g\<close> when the snapshot of \<open>h\<close> was loaded into it.\<close>

definition reloaded :: "Hydra \<Rightarrow> (ContactId \<times> MessageUsage) list \<Rightarrow> Hydra \<Rightarrow> Hydra" where
  "reloaded h usage g = (clear_state_for_snapshot_apply g)\<lparr>
     hy_identities := map (\<lambda>(i, r). (i, locked r)) (hy_identities h), hy_contacts := hy_contacts h,
     hy_session_security_policies := hy_session_security_policies h, hy_peer_generation_floors := hy_peer_generation_floors h,
     hy_store := (hy_store h)\<lparr>ms_usage := usage\<rparr>, hy_lobbies := hy_lobbies h,
     hy_anonymous_auth_secret := hy_anonymous_auth_secret h, hy_anonymous_auth_spent := hy_anonymous_auth_spent h,
     hy_anonymous_auth_spent_index := hy_anonymous_auth_spent_index h, hy_state_generation := hy_state_generation h\<rparr>"

lemma load_snapshot_lines:
  assumes "records_ok P h"
  shows "apply_snapshot_lines P (snapshot_lines h) (clear_state_for_snapshot_apply g) =
    (Inr (), (reloaded h [] g)\<lparr>hy_store := \<lparr>ms_messages = ms_messages (hy_store h), ms_usage = [], ms_bytes = 0,
       ms_next_id = ms_next_id (hy_store h)\<rparr>\<rparr>)"
proof -
  note r = records_okD [OF assms] and hist = history_okD [OF records_okD(17) [OF assms]]
  let ?g = "clear_state_for_snapshot_apply g"
  let ?g1 = "?g\<lparr>hy_state_generation := hy_state_generation h, hy_store := (hy_store ?g)\<lparr>ms_next_id := ms_next_id (hy_store h)\<rparr>,
    hy_anonymous_auth_secret := hy_anonymous_auth_secret h\<rparr>"
  let ?g2 = "?g1\<lparr>hy_anonymous_auth_spent := hy_anonymous_auth_spent h, hy_anonymous_auth_spent_index := hy_anonymous_auth_spent_index h\<rparr>"
  let ?g3 = "?g2\<lparr>hy_identities := map (\<lambda>(i, r). (i, locked r)) (hy_identities h)\<rparr>"
  let ?g4 = "?g3\<lparr>hy_contacts := hy_contacts h\<rparr>"
  let ?g5 = "?g4\<lparr>hy_session_security_policies := hy_session_security_policies h\<rparr>"
  let ?g6 = "?g5\<lparr>hy_peer_generation_floors := hy_peer_generation_floors h\<rparr>"
  let ?g7 = "?g6\<lparr>hy_store := (hy_store ?g6)\<lparr>ms_messages := ms_messages (hy_store h)\<rparr>\<rparr>"
  note clear = clear_state_for_snapshot_apply_def [of g]
  have 1: "apply_snapshot_lines P (scalar_lines h) ?g = (Inr (), ?g1)" by (rule load_scalars [OF r(1)])
  have 2: "apply_snapshot_lines P (map (\<lambda>n. tab_line ''anonymous_auth_spent'' [encode_anonymous_auth_spent n]) (hy_anonymous_auth_spent h)) ?g1 = (Inr (), ?g2)"
    by (simp add: spent.loads_all [OF r(2)] load_spent clear r(4))
  have 3: "apply_snapshot_lines P (map encode_identity_line (map snd (hy_identities h))) ?g2 = (Inr (), ?g3)"
    unfolding identities.loads_all [OF r(6)]
    by (subst load_keyed [where field = hy_identities and put = "\<lambda>kvs g. g\<lparr>hy_identities := kvs\<rparr>" and key = id_id and val = locked])
      (use r(7) in \<open>simp_all add: clear keyed_pairs [OF r(5)] r(5)\<close>)
  have 4: "apply_snapshot_lines P (map encode_contact_line (map snd (hy_contacts h))) ?g3 = (Inr (), ?g4)"
    unfolding contacts.loads_all [OF r(9)]
    by (subst load_keyed [where field = hy_contacts and put = "\<lambda>kvs g. g\<lparr>hy_contacts := kvs\<rparr>" and key = ct_id and val = "\<lambda>c. c"])
      (use r(10) in \<open>simp_all add: clear keyed_pairs [OF r(8)] r(8)\<close>)
  have 5: "apply_snapshot_lines P (map policy_line (hy_session_security_policies h)) ?g4 = (Inr (), ?g5)"
    unfolding policies.loads_all [OF r(11)]
    by (subst load_keyed [where field = hy_session_security_policies and put = "\<lambda>kvs g. g\<lparr>hy_session_security_policies := kvs\<rparr>"
        and key = fst and val = snd]) (use r(12) in \<open>simp_all add: clear\<close>)
  have 6: "apply_snapshot_lines P (map floor_line (hy_peer_generation_floors h)) ?g5 = (Inr (), ?g6)"
    unfolding floors.loads_all [OF r(14)]
    by (subst load_keyed [where field = hy_peer_generation_floors and put = "\<lambda>kvs g. g\<lparr>hy_peer_generation_floors := kvs\<rparr>"
        and key = fst and val = snd]) (use r(15) in \<open>simp_all add: clear\<close>)
  have nxt: "saturating_add_u64 (st_id m) 1 \<le> ms_next_id (hy_store h)" if "m \<in> set (ms_messages (hy_store h))" for m
    using hist(6) r(18) that next_id_bound by (auto simp: ids_ok_def)
  have 7: "apply_snapshot_lines P (map encode_message_line (ms_messages (hy_store h))) ?g6 = (Inr (), ?g7)"
    using nxt by (subst load_messages [OF hist(7)]) (simp_all add: clear)
  have 8: "apply_snapshot_lines P (map encode_lobby_line (map snd (hy_lobbies h))) ?g7 = (Inr (), ?g7\<lparr>hy_lobbies := hy_lobbies h\<rparr>)"
    unfolding lobbies.loads_all [OF r(20)]
    by (subst load_keyed [where field = hy_lobbies and put = "\<lambda>kvs g. g\<lparr>hy_lobbies := kvs\<rparr>" and key = lb_id and val = "\<lambda>c. c"])
      (use r(21) in \<open>simp_all add: clear keyed_pairs [OF r(19)] r(19)\<close>)
  have "?g7\<lparr>hy_lobbies := hy_lobbies h\<rparr> = (reloaded h [] g)\<lparr>hy_store := \<lparr>ms_messages = ms_messages (hy_store h), ms_usage = [], ms_bytes = 0,
       ms_next_id = ms_next_id (hy_store h)\<rparr>\<rparr>"
    by (simp add: reloaded_def clear)
  then show ?thesis
    unfolding snapshot_lines_sections apply_lines_append st_bind_def by (simp only: 1 2 3 4 5 6 7 8 prod.case sum.case)
qed

lemma snapshot_reloads:
  assumes "records_ok P h" and "floors_known h" and "encode_state_snapshot h = Inr bs"
  obtains usage where "apply_state_snapshot P bs g = (Inr (), reloaded h usage g)"
    and "map_of usage = map_of (ms_usage (hy_store h))" and "distinct (map fst usage)"
proof -
  note hist = history_okD [OF records_okD(17) [OF assms(1)]]
  let ?s = "\<lparr>ms_messages = ms_messages (hy_store h), ms_usage = [], ms_bytes = 0, ms_next_id = ms_next_id (hy_store h)\<rparr> :: MessageStore"
  obtain usage where usage: "rebuild_message_usage ?s = (Inr (), ?s\<lparr>ms_usage := usage, ms_bytes := total_len (ms_messages (hy_store h))\<rparr>)"
      "map_of usage = tally (ms_messages (hy_store h))" "distinct (map fst usage)"
    using rebuild_exact [of ?s] hist(4) by auto
  have store: "\<lparr>ms_messages = ms_messages (hy_store h), ms_usage = usage, ms_bytes = total_len (ms_messages (hy_store h)),
      ms_next_id = ms_next_id (hy_store h)\<rparr> = (hy_store h)\<lparr>ms_usage := usage\<rparr>"
    by (simp flip: hist(3))
  have "verify_state_snapshot P bs = Inr ()" using verify_encoded [OF assms(1,3)] assms(2) by simp
  then have "apply_state_snapshot P bs g = (Inr (), reloaded h usage g)"
    using usage(1)
    by (simp add: apply_state_snapshot_def st_run encoded_text(1) [OF assms(1,3)] encoded_text(2) [OF assms(1,3), unfolded One_nat_def] load_snapshot_lines [OF assms(1)] on_store_def)
      (simp add: reloaded_def store)
  then show thesis using that [of usage] usage(2,3) hist(1) by simp
qed

end
