(* ===== verification/App_Sealed.thy ===== *)
theory App_Sealed
  imports App_Reload
begin

text \<open>
  The encrypted form of the stored state is read back: packing and unpacking with padding, the chunks one by one, the
  header fields line by line, and on top of them the state, a backup, and the files of a profile.
\<close>

section \<open>Packing\<close>

lemma chunk_size_pos [simp]: "0 < STORAGE_CHUNK_PLAINTEXT_BYTES"
  by (simp add: STORAGE_CHUNK_PLAINTEXT_BYTES_def)

lemma div_ceil_bounds:
  assumes "0 < m"
  shows "n \<le> div_ceil n m * m" "div_ceil n m * m < n + m" "div_ceil (k * m) m = k"
proof -
  obtain q r where qr: "q = n div m" "r = n mod m" by simp
  then have n: "n = q * m + r" "r < m" using assms by simp_all
  have "div_ceil n m * m = q * m + (if r = 0 then 0 else m)" by (simp add: div_ceil_def add_mult_distrib flip: qr)
  then show "n \<le> div_ceil n m * m" "div_ceil n m * m < n + m" using n by (auto simp del: mult_Suc)
  show "div_ceil (k * m) m = k" using assms by (simp add: div_ceil_def)
qed

lemma pack_exact:
  assumes "pack_storage_plaintext snapshot = Inr pt"
  obtains n where "length pt = div_ceil (length STORAGE_PLAINTEXT_MAGIC + 8 + length snapshot) STORAGE_CHUNK_PLAINTEXT_BYTES * STORAGE_CHUNK_PLAINTEXT_BYTES"
    and "pt = STORAGE_PLAINTEXT_MAGIC @ be_bytes 8 (of_nat (length snapshot) :: u64) @ snapshot @ replicate n 0"
proof -
  let ?out = "STORAGE_PLAINTEXT_MAGIC @ be_bytes 8 (of_nat (length snapshot) :: u64) @ snapshot"
  let ?padded = "div_ceil (length ?out) STORAGE_CHUNK_PLAINTEXT_BYTES * STORAGE_CHUNK_PLAINTEXT_BYTES"
  have len: "length ?out = length STORAGE_PLAINTEXT_MAGIC + 8 + length snapshot" by simp
  have pt: "pt = ?out @ replicate (?padded - length ?out) 0"
    using assms by (auto simp: pack_storage_plaintext_def result_simps Let_def)
  have "length pt = ?padded" unfolding pt length_append length_replicate using div_ceil_bounds(1) [OF chunk_size_pos, of "length ?out"] by simp
  then have len': "length pt = div_ceil (length STORAGE_PLAINTEXT_MAGIC + 8 + length snapshot) STORAGE_CHUNK_PLAINTEXT_BYTES * STORAGE_CHUNK_PLAINTEXT_BYTES"
    by (simp only: len)
  show thesis by (rule that [OF len' pt [unfolded append_assoc]])
qed

lemma magic_length [simp]: "length STORAGE_PLAINTEXT_MAGIC = 28"
  by (simp add: STORAGE_PLAINTEXT_MAGIC_def)

lemma unpack_pack:
  assumes "pack_storage_plaintext snapshot = Inr pt" and "length snapshot \<le> MAX_STATE_SNAPSHOT_BYTES"
  shows "unpack_storage_plaintext pt = Inr snapshot"
proof -
  obtain n where len: "length pt = div_ceil (length STORAGE_PLAINTEXT_MAGIC + 8 + length snapshot) STORAGE_CHUNK_PLAINTEXT_BYTES * STORAGE_CHUNK_PLAINTEXT_BYTES"
    and pt: "pt = STORAGE_PLAINTEXT_MAGIC @ be_bytes 8 (of_nat (length snapshot) :: u64) @ snapshot @ replicate n 0"
    using pack_exact [OF assms(1)] .
  have max: "MAX_STATE_SNAPSHOT_BYTES = 67108864" by (simp add: MAX_STATE_SNAPSHOT_BYTES_def)
  have bound: "length pt \<le> usize_max"
    unfolding len using div_ceil_bounds(2) [OF chunk_size_pos, of "length STORAGE_PLAINTEXT_MAGIC + 8 + length snapshot"] assms(2) max
    by (simp add: STORAGE_CHUNK_PLAINTEXT_BYTES_def usize_max_def)
  have word: "unat (of_nat (length snapshot) :: u64) = length snapshot"
    using assms(2) max by (simp add: unat_of_nat)
  have n: "n = length pt - (28 + 8 + length snapshot)" and ge: "28 + 8 + length snapshot \<le> length pt" by (simp_all add: pt)
  let ?hdr = "STORAGE_PLAINTEXT_MAGIC @ be_bytes 8 (of_nat (length snapshot) :: u64)"
  have 1: "reader_expect STORAGE_PLAINTEXT_MAGIC (BytesReader_new pt) =
      (Inr (), reader_at STORAGE_PLAINTEXT_MAGIC (be_bytes 8 (of_nat (length snapshot) :: u64) @ snapshot @ replicate n 0))"
    using reader_codec.reads [OF reader_codec_expect [of STORAGE_PLAINTEXT_MAGIC], where v = "()" and pre = "[]"
        and rest = "be_bytes 8 (of_nat (length snapshot) :: u64) @ snapshot @ replicate n 0"] bound
    by (simp add: pt reader_at_def BytesReader_new_def)
  have 2: "read_u64 (reader_at STORAGE_PLAINTEXT_MAGIC (be_bytes 8 (of_nat (length snapshot) :: u64) @ snapshot @ replicate n 0)) =
      (Inr (of_nat (length snapshot)), reader_at ?hdr (snapshot @ replicate n 0))"
    using u64_reader.reads [where v = "of_nat (length snapshot)" and pre = STORAGE_PLAINTEXT_MAGIC and rest = "snapshot @ replicate n 0"] bound by (simp add: pt)
  have 3: "read_vec (length snapshot) (reader_at ?hdr (snapshot @ replicate n 0)) = (Inr snapshot, reader_at (?hdr @ snapshot) (replicate n 0))"
    using reader_read_at [of ?hdr snapshot "replicate n 0"] bound by (simp add: pt read_vec_def)
  have 4: "reader_read n (reader_at (?hdr @ snapshot) (replicate n 0)) = (Inr (replicate n 0), reader_at (?hdr @ snapshot @ replicate n 0) [])"
    using reader_read_at [of "?hdr @ snapshot" "replicate n 0" "[]"] bound by (simp add: pt)
  have n': "length pt - (36 + length snapshot) = n" using n by simp
  have "fst (read_storage_plaintext (length pt) (BytesReader_new pt)) = Inr snapshot"
    unfolding read_storage_plaintext_def st_bind_def 1 prod.case sum.case 2
    using assms(2) ge
    by (simp add: st_lift_def reject_encoded_size_def word 3 checked_sub_usize_def flip: n) (simp add: n' 4 [unfolded append_assoc] st_lift_def list_all_iff)
  moreover have "pt \<noteq> []" "length pt mod STORAGE_CHUNK_PLAINTEXT_BYTES = 0" using len ge by auto
  ultimately show ?thesis by (simp add: unpack_storage_plaintext_def)
qed

section \<open>Chunks\<close>

definition chunk_text :: "nat \<Rightarrow> bytes \<Rightarrow> bytes" where
  "chunk_text index ct = ascii ''chunk'' @ [9] @ decimal index @ [9] @ hex_encode ct"

lemma ascii_field_names:
  "list_all (\<lambda>name. 9 \<notin> set (ascii name) \<and> text_line (ascii name)) [''chunk'', ''kdf'', ''kdf_profile'', ''kdf_log_n'', ''kdf_r'', ''kdf_p'',
     ''kdf_salt'', ''format_version'', ''chunk_size'', ''chunk_count'', ''nonce'']"
  unfolding text_line_def by (simp add: ascii_def)

lemma chunk_text_line: "text_line (chunk_text i ct)"
  using ascii_field_names text_line_hex [of ct] text_line_decimal [of i] by (auto simp: chunk_text_def text_line_def)

lemma chunk_text_split: "split_on 9 (chunk_text i ct) = [ascii ''chunk'', decimal i, hex_encode ct]"
  using ascii_field_names by (simp add: chunk_text_def split_on_sep split_on_plain)

lemma chunk_line_text: "chunk_line i ct = chunk_text i ct @ [10]"
  by (simp add: chunk_line_def chunk_text_def)

lemma parse_chunk_text:
  assumes "length ct = STORAGE_CHUNK_PLAINTEXT_BYTES + AEAD_TAG_SIZE" and "i \<le> usize_max"
  shows "parse_chunk_line STORAGE_CHUNK_PLAINTEXT_BYTES i (chunk_text i ct # rest) = (Inr ct, rest)"
  using assms
  by (simp add: parse_chunk_line_def next_line_def st_bind_def st_lift_def Let_def chunk_text_split required_part_def
      parse_uint_decimal reject_encoded_size_def)

lemma parse_chunk_texts:
  assumes "list_all (\<lambda>ct. length ct = STORAGE_CHUNK_PLAINTEXT_BYTES + AEAD_TAG_SIZE) cts" and "i + length cts \<le> usize_max"
  shows "parse_chunk_lines STORAGE_CHUNK_PLAINTEXT_BYTES [i..<i + length cts] (map2 chunk_text [i..<i + length cts] cts @ rest) = (Inr cts, rest)"
  using assms
proof (induction cts arbitrary: i)
  case (Cons ct cts)
  have up: "[i..<i + length (ct # cts)] = i # [Suc i..<Suc i + length cts]" using upt_conv_Cons [of i "i + length (ct # cts)"] by simp
  have "parse_chunk_lines STORAGE_CHUNK_PLAINTEXT_BYTES [Suc i..<Suc i + length cts] (map2 chunk_text [Suc i..<Suc i + length cts] cts @ rest) = (Inr cts, rest)"
    using Cons.prems by (intro Cons.IH) simp_all
  then show ?case
    using Cons.prems by (simp only: up parse_chunk_lines.simps zip_Cons_Cons list.map prod.case append_Cons)
      (simp add: st_bind_def parse_chunk_text st_lift_def)
qed (simp add: st_lift_def)

lemma sealed_chunks:
  assumes "aead_ok P" and "seal_chunks P key aad nonce pt [i..<n] out = Inr out'" and "i \<le> n"
    and "n * STORAGE_CHUNK_PLAINTEXT_BYTES \<le> length pt"
  obtains cts where "length cts = n - i" and "out' = out @ lines_text (map2 chunk_text [i..<n] cts)"
    and "list_all (\<lambda>ct. length ct = STORAGE_CHUNK_PLAINTEXT_BYTES + AEAD_TAG_SIZE) cts"
    and "\<And>acc. open_chunks P key aad nonce STORAGE_CHUNK_PLAINTEXT_BYTES i cts acc =
      Inr (acc @ slice (i * STORAGE_CHUNK_PLAINTEXT_BYTES) (n * STORAGE_CHUNK_PLAINTEXT_BYTES) pt)"
proof -
  let ?C = STORAGE_CHUNK_PLAINTEXT_BYTES
  have "\<exists>cts. length cts = n - i \<and> out' = out @ lines_text (map2 chunk_text [i..<n] cts) \<and>
      list_all (\<lambda>ct. length ct = ?C + AEAD_TAG_SIZE) cts \<and>
      (\<forall>acc. open_chunks P key aad nonce ?C i cts acc = Inr (acc @ slice (i * ?C) (n * ?C) pt))"
    using assms(2-4)
  proof (induction "n - i" arbitrary: i out)
    case 0
    then show ?case by (intro exI [of _ "[]"]) (simp add: lines_text_def slice_def)
  next
    case (Suc k)
    then have up: "[i..<n] = i # [Suc i..<n]" by (simp add: upt_conv_Cons)
    have "i * ?C + ?C \<le> n * ?C" using Suc.hyps(2) by (metis Suc_leI add.commute mult_Suc mult_le_mono1 zero_less_Suc zero_less_diff)
    then have end': "min (length pt) (i * ?C + ?C) = i * ?C + ?C" using Suc.prems(3) by simp
    let ?chunk = "slice (i * ?C) (i * ?C + ?C) pt"
    have len: "length ?chunk = ?C" using end' by (simp add: slice_def)
    obtain nc ct where nc: "chunk_nonce nonce i = Inr nc" and ct: "aead_seal P key nc (chunk_aad aad i) ?chunk = Inr ct"
      and rest: "seal_chunks P key aad nonce pt [Suc i..<n] (out @ chunk_line i ct) = Inr out'"
      using Suc.prems(1) unfolding up by (auto simp: Let_def end' result_simps from_crypto_def)
    have hyp: "k = n - Suc i" "Suc i \<le> n" using Suc.hyps(2) Suc.prems(2) by simp_all
    from Suc.hyps(1) [OF hyp(1) rest hyp(2) Suc.prems(3)] obtain cts where cts: "length cts = n - Suc i"
        "out' = (out @ chunk_line i ct) @ lines_text (map2 chunk_text [Suc i..<n] cts)"
        "list_all (\<lambda>ct. length ct = ?C + AEAD_TAG_SIZE) cts"
        "\<forall>acc. open_chunks P key aad nonce ?C (Suc i) cts acc = Inr (acc @ slice (Suc i * ?C) (n * ?C) pt)" by auto
    have ctlen: "length ct = ?C + AEAD_TAG_SIZE" using aead_seal_length [OF assms(1) ct] len by simp
    have opened: "aead_open P key nc (chunk_aad aad i) ct = Inr ?chunk" using ct aead_open_iff [OF assms(1)] by blast
    obtain k' where k': "n * ?C = i * ?C + ?C + k'" using \<open>i * ?C + ?C \<le> n * ?C\<close> le_Suc_ex by blast
    have join: "?chunk @ slice (Suc i * ?C) (n * ?C) pt = slice (i * ?C) (n * ?C) pt"
      unfolding slice_def k' by (simp add: take_add add.commute)
    show ?case
      using cts ctlen opened len Suc.hyps(2) join
      by (intro exI [of _ "ct # cts"]) (auto simp: up nc from_crypto_def lines_text_def chunk_line_text)
  qed
  then show thesis using that by blast
qed

section \<open>The header\<close>

definition field_line :: "string \<Rightarrow> bytes \<Rightarrow> bytes" where
  "field_line name v = ascii name @ [9] @ v"

definition kdf_lines :: "PasswordKdfRecord \<Rightarrow> bytes list" where
  "kdf_lines kdf = [field_line ''kdf'' KDF_ALGORITHM_SCRYPT, field_line ''kdf_profile'' (kdf_profile kdf),
     field_line ''kdf_log_n'' (decimal (unat (kdf_log_n kdf))), field_line ''kdf_r'' (decimal (unat (kdf_r kdf))),
     field_line ''kdf_p'' (decimal (unat (kdf_p kdf))), field_line ''kdf_salt'' (hex_encode (kdf_salt kdf))]"

definition storage_lines :: "bytes \<Rightarrow> PasswordKdfRecord \<Rightarrow> nat \<Rightarrow> bytes \<Rightarrow> bytes list" where
  "storage_lines magic kdf chunk_count nonce = trim_end magic # kdf_lines kdf @
     [field_line ''format_version'' (decimal STORAGE_FORMAT_VERSION), field_line ''chunk_size'' (decimal STORAGE_CHUNK_PLAINTEXT_BYTES),
      field_line ''chunk_count'' (decimal chunk_count), field_line ''nonce'' (hex_encode nonce)]"

definition magic_line :: "bytes \<Rightarrow> bool" where
  "magic_line magic \<longleftrightarrow> magic = trim_end magic @ [10] \<and> text_line (trim_end magic)"

lemma storage_aad_lines:
  assumes "magic_line magic"
  shows "storage_aad magic kdf STORAGE_CHUNK_PLAINTEXT_BYTES n (hex_encode nonce) = lines_text (storage_lines magic kdf n nonce)"
proof -
  have "magic @ xs = trim_end magic @ 10 # xs" for xs using assms unfolding magic_line_def by (metis append.assoc append_Cons append_Nil)
  then show ?thesis
    by (simp add: storage_aad_def storage_lines_def kdf_lines_def encode_kdf_fields_def lines_text_def field_line_def)
qed

lemma split_once_sep: "c \<notin> set k \<Longrightarrow> split_once c (k @ c # v) = Some (k, v)"
  by (induction k) auto

lemma required_field_line:
  "9 \<notin> set (ascii name) \<Longrightarrow> required_field name d (field_line name v # rest) = (Inr v, rest)"
  by (simp add: required_field_def field_line_def next_line_def st_bind_def st_lift_def split_once_sep)

lemma decode_kdf_lines:
  assumes "kdf_record_ok kdf"
  shows "decode_kdf_fields (kdf_lines kdf @ rest) = (Inr kdf, rest)"
proof (cases kdf)
  case (fields profile log_n r p salt)
  note names = ascii_field_names [simplified]
  show ?thesis
    using assms kdf_profiles(3) [OF assms] u32_bound [of r] u32_bound [of p] names unfolding fields
    by (simp add: decode_kdf_fields_def kdf_lines_def st_bind_def required_field_line st_lift_def kdf_record_ok_def parse_uint_decimal
        u8_max u32_max_def usize_max_def decode_kdf_salt_def exact_array_from_vec_def)
qed

lemma number_field_line:
  "9 \<notin> set (ascii name) \<Longrightarrow> n \<le> mx \<Longrightarrow> mx \<le> usize_max \<Longrightarrow> number_field mx name d (field_line name (decimal n) # rest) = (Inr n, rest)"
  by (simp add: number_field_def st_bind_def required_field_line st_lift_def parse_uint_decimal)

lemma storage_fields_lines:
  assumes "kdf_record_ok kdf" and "reject_chunk_count (length cts) = Inr ()" and "length nonce = 12"
    and "list_all (\<lambda>ct. length ct = STORAGE_CHUNK_PLAINTEXT_BYTES + AEAD_TAG_SIZE) cts"
  shows "storage_fields magic (storage_lines magic kdf (length cts) nonce @ map2 chunk_text [0..<length cts] cts) =
     (Inr \<lparr>ps_aad = storage_aad magic kdf STORAGE_CHUNK_PLAINTEXT_BYTES (length cts) (hex_encode nonce), ps_kdf = kdf, ps_nonce = nonce,
        ps_chunk_size = STORAGE_CHUNK_PLAINTEXT_BYTES, ps_chunks = cts\<rparr>, [])"
proof -
  have bound: "length cts \<le> usize_max" "STORAGE_CHUNK_PLAINTEXT_BYTES \<le> usize_max" "STORAGE_FORMAT_VERSION \<le> 255"
    using assms(2) by (auto simp: reject_chunk_count_def result_simps max_storage_chunks_def div_ceil_def STORAGE_CHUNK_PLAINTEXT_BYTES_def
        usize_max_def MAX_STATE_SNAPSHOT_BYTES_def STORAGE_FORMAT_VERSION_def split: if_splits)
  note names = ascii_field_names [simplified]
  have chunks': "parse_chunk_lines STORAGE_CHUNK_PLAINTEXT_BYTES [0..<length cts] (map2 chunk_text [0..<length cts] cts) = (Inr cts, [])"
    using parse_chunk_texts [OF assms(4), of 0 "[]"] bound(1) by simp
  have nl: "next_line d (l # rest) = (Inr l, rest)" for d l rest by (simp add: next_line_def)
  show ?thesis
    unfolding storage_fields_def storage_lines_def st_bind_def append_Cons append_assoc nl prod.case sum.case st_lift_def decode_kdf_lines [OF assms(1)]
    using names bound assms(2,3)
    by (simp add: number_field_line required_field_line usize_max_def chunks' reject_trailing_nonempty_lines_def decode_fixed_hex_encode)
qed

section \<open>Storage\<close>

lemma storage_lines_text:
  assumes "kdf_record_ok kdf" and "magic_line magic" and "l \<in> set (storage_lines magic kdf n nonce)"
  shows "text_line l"
proof -
  have alg: "list_all (\<lambda>b. b \<le> 0x7F \<and> b \<noteq> 10 \<and> b \<noteq> 13) KDF_ALGORITHM_SCRYPT" by (simp add: KDF_ALGORITHM_SCRYPT_def ascii_def)
  have join: "text_line (ascii name) \<Longrightarrow> text_line v \<Longrightarrow> text_line (field_line name v)" for name v
    by (auto simp: field_line_def text_line_def)
  show ?thesis
    using assms(2,3) alg ascii_field_names [simplified] kdf_profiles(2) [OF assms(1)]
    by (auto simp: storage_lines_def kdf_lines_def magic_line_def list_all_iff text_line_def [of KDF_ALGORITHM_SCRYPT] intro!: join)
qed

lemma lines_text_plain: "(\<And>l. l \<in> set ls \<Longrightarrow> text_line l) \<Longrightarrow> b \<in> set (lines_text ls) \<Longrightarrow> b \<le> 0x7F"
  by (induction ls) (auto simp: lines_text_def text_line_def)

lemma sealed_storage_opens:
  assumes "aead_ok P" and "kdf_record_ok kdf" and "magic_line magic" and "length nonce = 12"
    and "length snapshot \<le> MAX_STATE_SNAPSHOT_BYTES" and "encode_chunked_storage P snapshot magic key kdf nonce mx = Inr out"
  obtains p where "parse_chunked_storage out magic mx = Inr p" and "ps_kdf p = kdf"
    and "decode_chunked_storage P key (ps_aad p) (ps_nonce p) (ps_chunk_size p) (ps_chunks p) = Inr snapshot"
    and "length out \<le> mx"
proof -
  let ?C = STORAGE_CHUNK_PLAINTEXT_BYTES
  obtain pt where pack: "pack_storage_plaintext snapshot = Inr pt" using assms(6) by (auto simp: encode_chunked_storage_def result_simps)
  obtain m where pt: "length pt = div_ceil (length STORAGE_PLAINTEXT_MAGIC + 8 + length snapshot) ?C * ?C"
    and "pt = STORAGE_PLAINTEXT_MAGIC @ be_bytes 8 (of_nat (length snapshot) :: u64) @ snapshot @ replicate m 0"
    using pack_exact [OF pack] .
  define n where "n = div_ceil (length STORAGE_PLAINTEXT_MAGIC + 8 + length snapshot) ?C"
  have "0 < n" using div_ceil_bounds(1) [OF chunk_size_pos, of "length STORAGE_PLAINTEXT_MAGIC + 8 + length snapshot"]
    unfolding n_def by (cases "div_ceil (length STORAGE_PLAINTEXT_MAGIC + 8 + length snapshot) ?C") simp_all
  have len: "length pt = n * ?C" by (simp add: pt n_def)
  have count: "max 1 (div_ceil (length pt) ?C) = n" using \<open>0 < n\<close> by (simp add: len div_ceil_bounds(3))
  let ?aad = "storage_aad magic kdf ?C n (hex_encode nonce)"
  have rc: "reject_chunk_count n = Inr ()" and sealed: "seal_chunks P key ?aad nonce pt [0..<n] ?aad = Inr out" and size: "length out \<le> mx"
    using assms(6) by (auto simp: encode_chunked_storage_def pack Let_def count [unfolded One_nat_def] reject_input_size_def result_simps)
  obtain cts where cts: "length cts = n" "out = ?aad @ lines_text (map2 chunk_text [0..<n] cts)"
      "list_all (\<lambda>ct. length ct = ?C + AEAD_TAG_SIZE) cts"
    and opens: "\<And>acc. open_chunks P key ?aad nonce ?C 0 cts acc = Inr (acc @ slice (0 * ?C) (n * ?C) pt)"
    using sealed_chunks [OF assms(1) sealed, of thesis] len by auto
  let ?ls = "storage_lines magic kdf n nonce @ map2 chunk_text [0..<n] cts"
  have out: "out = lines_text ?ls" using cts(2) by (simp add: storage_aad_lines [OF assms(3)] lines_text_def)
  have plain: "text_line l" if "l \<in> set ?ls" for l
    using that storage_lines_text [OF assms(2,3)] chunk_text_line by (auto simp: set_zip)
  have lines: "str_lines out = ?ls" unfolding out using plain by (intro str_lines_text) blast
  have "utf8_valid out" unfolding out by (intro utf8_ascii ballI lines_text_plain [of ?ls]) (rule plain)
  moreover have "out = (trim_end magic @ [10]) @ lines_text (tl (storage_lines magic kdf n nonce) @ map2 chunk_text [0..<n] cts)"
    by (simp add: out storage_lines_def lines_text_def)
  then have "starts_with out magic"
    using assms(3) [unfolded magic_line_def, THEN conjunct1, symmetric] by (simp only: starts_with_def) simp
  moreover have "list_all (\<lambda>line. \<not> mx < length line) ?ls"
    using order_trans [OF lines_text_length size [unfolded out]] by (fastforce simp: list_all_iff)
  ultimately have parsed: "parse_chunked_storage out magic mx = Inr \<lparr>ps_aad = ?aad, ps_kdf = kdf, ps_nonce = nonce, ps_chunk_size = ?C, ps_chunks = cts\<rparr>"
    using size storage_fields_lines [OF assms(2) rc [folded cts(1)] assms(4) cts(3), of magic] cts(1)
    by (simp add: parse_chunked_storage_def from_utf8_def lines)
  have "checked_mul_usize (length cts) ?C \<noteq> None"
    using rc unfolding cts(1) by (auto simp: reject_chunk_count_def result_simps max_storage_chunks_def div_ceil_def STORAGE_CHUNK_PLAINTEXT_BYTES_def
        usize_max_def MAX_STATE_SNAPSHOT_BYTES_def checked_mul_usize_def split: if_splits)
  moreover have "slice (0 * ?C) (n * ?C) pt = pt" using len by (simp add: slice_def)
  ultimately have "decode_chunked_storage P key ?aad nonce ?C cts = Inr snapshot"
    using assms(5) unpack_pack [OF pack assms(5)] by (auto simp: decode_chunked_storage_def opens reject_encoded_size_def result_simps)
  then show thesis using that [OF parsed] size by simp
qed

end
