(* ===== verification/Spec2Isabelle.thy ===== *)
theory Spec2Isabelle
  imports Session_Channel Group_Delivery Group_Reachable Msg_Reassembly Msg_Store App_Sealed
begin

text \<open>
  \<^bold>\<open>A verification development for HYDRA-MSG\<close>, a post-quantum messaging protocol in Rust.

  \<^bold>\<open>The program.\<close> The workspace under \<open>src/crates/\<close> is layered. \<open>hydra-core\<close> has the normative
  sizes, the closed wire enumerations and the replay window. \<open>hydra-crypto\<close> wraps the RustCrypto
  packages behind one fixed suite. \<open>hydra-envelope\<close> is the wire format: a 64-byte outer header and
  a protected record padded to one of three envelope classes (or unpadded in the compact carrier
  profile). \<open>hydra-session\<close> is the two-party session: a symmetric ratchet per direction, a bounded
  store of skipped message keys, replay protection, refresh and close. \<open>hydra-group\<close> is the group
  protocol, \<open>hydra-msg\<close> the application layer, \<open>hydra-stego\<close> carriers that hide envelopes.

  \<^bold>\<open>How it is modelled.\<close> Fallible functions return \<open>'e + 'a\<close> (\<open>Inl\<close> the error), methods on
  \<open>&mut self\<close> are state transformers that return the result and the state on every path, \<open>u64\<close> is
  \<open>64 word\<close>, \<open>usize\<close> is \<open>nat\<close> with the 64-bit bound written out where the source checks it, arrays
  are byte lists with their lengths in well-formedness predicates. The cryptographic packages are a
  record of functions (\<open>CryptoPrims\<close>); what the program relies on of them is \<open>crypto_ok\<close>: output
  lengths, that HKDF fills a request within its limit, and that the AEAD decrypts exactly what it
  encrypts. \<open>toy_prims\<close> is a concrete instance on which the witnesses run.

  \<^bold>\<open>Theories.\<close>
  \<^item> \<open>Hydra_Prelude\<close>: results, state transformers, byte ranges, integers, and the interface of
    canonical codes.
  \<^item> \<open>Core_Types\<close>: \<open>hydra-core\<close> constants and enumerations; every enumeration is a canonical code.
  \<^item> \<open>Replay_Window\<close>: \<open>protocol/replay.rs\<close>; the bitmap refines the history of accepted indices;
    locale \<open>at_most_once\<close>.
  \<^item> \<open>Wire_Format\<close>: \<open>hydra-envelope\<close>; header and records are canonical codes.
  \<^item> \<open>Crypto_Backend\<close>: \<open>hydra-crypto\<close>.
  \<^item> \<open>Ratchet\<close>: the ratchet loop and locale \<open>ratchet\<close>.
  \<^item> \<open>Session_Ratchet\<close>, \<open>Skipped_Keys\<close>, \<open>Session_State\<close>, \<open>Session_Send\<close>, \<open>Session_Receive\<close>,
    \<open>Session_Refresh\<close>: \<open>hydra-session\<close>, one theory per source module.
  \<^item> \<open>Session_Machine\<close>: sessions as a state machine; invariants of reachable states, the phase
    diagram, at-most-once delivery and unique send indices over arbitrary interleavings.
  \<^item> \<open>Session_Channel\<close>: both ends together; delivery under reordering, refresh cutover, route-tag
    dispatch.
  \<^item> \<open>Group_Types\<close>, \<open>Group_Roster\<close>, \<open>Group_Canonical\<close>, \<open>Group_Epoch\<close>: the types of \<open>hydra-group\<close>, rosters and
    governance, the canonical encodings and hashes, epoch contexts and keys.
  \<^item> \<open>Group_Tree\<close>, \<open>Group_Path\<close>, \<open>Group_Distribution\<close>, \<open>Group_Delivery\<close>: the public tree in heap
    numbering, path secrets and rekeying, the targets of a path update, its encryption and who can read it.
  \<^item> \<open>Group_Senders\<close>, \<open>Group_Replay\<close>: the sender chains with their stored keys, and group replay protection.
  \<^item> \<open>Group_State\<close>, \<open>Group_Message\<close>, \<open>Group_Commit\<close>: the group state with its snapshots, sealing and opening
    messages, preparing and installing commits.
  \<^item> \<open>Group_Machine\<close>, \<open>Group_Install\<close>, \<open>Group_Reachable\<close>: groups as a state machine; message steps used at most
    once (interpretation of \<open>at_most_once\<close>), the life of a commit and the agreement of members, and the
    invariant of reachable states with the restoration of snapshots.
  \<^item> \<open>Msg_Util\<close>, \<open>Msg_Fragments\<close>, \<open>Msg_Reassembly\<close>: errors, limits and the byte reader of \<open>hydra-msg\<close> (locale
    \<open>reader_codec\<close>), splitting payloads into packets and putting them together again.
  \<^item> \<open>Msg_Messages\<close>, \<open>Msg_Store\<close>: application messages with their two encodings, and the message history with
    its running totals, export and import.

  \<^bold>\<open>Loops and bounds.\<close> Every loop of the source is a terminating function: the ratchet walk by the
  distance of its cursor from the largest index, the paths of the tree by the node index
  (\<open>direct_path_loop\<close> stops at node 0, which is not a node of a tree), everything else structurally. No fuel is used.

  \<^bold>\<open>Not modelled.\<close> Secrecy and unforgeability of the primitives (nothing is assumed beyond
  \<open>crypto_ok\<close>), zeroisation of memory that is not part of a state, test-only commitments, the
  command line, the wasm bindings, storage and operating-system glue.
\<close>

end
